(* ===== verification/Prelude.thy ===== *)
theory Prelude
  imports Main "HOL-Library.Word" "HOL-Library.Sublist"
begin

text \<open>
  What every component shares: bytes and the fixed-width integer operations of Rust's
  standard library, big-endian fields, cutting a list into pieces of bounded length, and the
  generic interfaces (locales) that several components implement.

  A Rust \<open>u8\<close> is an \<open>8 word\<close>. Wider integers are \<open>'w word\<close> where the code works on
  their bits, and natural numbers with the wrap-around or the saturation written out where
  it counts (the model follows the release profile, where \<open>+\<close> and \<open>*\<close> wrap).
\<close>

unbundle bit_operations_syntax

named_theorems model_defs \<open>definitions that evaluation unfolds\<close>

type_synonym byte = "8 word"

type_synonym bytes = "byte list"

section \<open>Unsigned 64 and 32 bit arithmetic on natural numbers\<close>

definition u64_max :: nat where
  "u64_max = 18446744073709551615"

definition sat_add64 :: "nat \<Rightarrow> nat \<Rightarrow> nat" where
  "sat_add64 a b = min (a + b) u64_max"

definition sat_mul64 :: "nat \<Rightarrow> nat \<Rightarrow> nat" where
  "sat_mul64 a b = min (a * b) u64_max"

definition wrap64 :: "nat \<Rightarrow> nat" where
  "wrap64 n = n mod 18446744073709551616"

definition wrap32 :: "nat \<Rightarrow> nat" where
  "wrap32 n = n mod 4294967296"

lemma wrap64_id [simp]: "n \<le> u64_max \<Longrightarrow> wrap64 n = n"
  by (simp add: wrap64_def u64_max_def)

lemma wrap64_le [simp]: "wrap64 n \<le> u64_max"
proof -
  have "n mod 18446744073709551616 < 18446744073709551616" by (rule mod_less_divisor) simp
  then show ?thesis unfolding wrap64_def u64_max_def by linarith
qed

lemma sat_add64_le [simp]: "sat_add64 a b \<le> u64_max"
  by (simp add: sat_add64_def)

lemma sat_add64_exact: "a + b \<le> u64_max \<Longrightarrow> sat_add64 a b = a + b"
  by (simp add: sat_add64_def)

lemma sat_add64_mono [simp]: "a \<le> u64_max \<Longrightarrow> a \<le> sat_add64 a b"
  by (simp add: sat_add64_def)

section \<open>Lists\<close>

lemma nth_drop_0: "i < length xs \<Longrightarrow> drop i xs = xs ! i # drop (Suc i) xs"
  by (rule Cons_nth_drop_Suc [symmetric])

lemma drop_take_append:
  assumes "c \<le> e" and "e \<le> d"
  shows "drop c (take e xs) @ drop e (take d xs) = drop c (take d xs)"
proof -
  have "take (e - c) (drop c (take d xs)) = drop c (take e xs)"
    using assms by (simp add: take_drop min_def)
  moreover have "drop (e - c) (drop c (take d xs)) = drop e (take d xs)"
    using assms(1) by simp
  ultimately show ?thesis by (metis append_take_drop_id)
qed

text \<open>The non-empty pieces of at most \<open>n\<close> elements a fragmenting loop cuts a list into.\<close>

function chunks_of :: "nat \<Rightarrow> 'a list \<Rightarrow> 'a list list" where
  "chunks_of n xs = (if n = 0 \<or> xs = [] then [] else take n xs # chunks_of n (drop n xs))"
  by pat_completeness auto
termination
  by (relation "measure (\<lambda>(n, xs). length xs)") auto

declare chunks_of.simps [simp del]

lemma chunks_of_Nil [simp]: "chunks_of n [] = []"
  by (simp add: chunks_of.simps)

lemma chunks_of_step: "0 < n \<Longrightarrow> xs \<noteq> [] \<Longrightarrow> chunks_of n xs = take n xs # chunks_of n (drop n xs)"
  by (simp add: chunks_of.simps)

lemma concat_chunks_of [simp]: "0 < n \<Longrightarrow> concat (chunks_of n xs) = xs"
proof (induction n xs rule: chunks_of.induct)
  case (1 n xs)
  then show ?case by (cases "xs = []") (auto simp: chunks_of_step)
qed

lemma chunks_of_bound: "c \<in> set (chunks_of n xs) \<Longrightarrow> c \<noteq> [] \<and> length c \<le> n"
proof (induction n xs rule: chunks_of.induct)
  case (1 n xs)
  show ?case
  proof (cases "n = 0 \<or> xs = []")
    case True
    with 1 show ?thesis by (simp add: chunks_of.simps)
  next
    case False
    with 1 show ?thesis by (auto simp: chunks_of_step)
  qed
qed

lemma chunks_of_single: "xs \<noteq> [] \<Longrightarrow> length xs \<le> n \<Longrightarrow> chunks_of n xs = [xs]"
  by (cases n) (auto simp: chunks_of.simps)

section \<open>Big-endian fields\<close>

text \<open>\<open>((a as usize) << 8) | b as usize\<close>\<close>

definition be16 :: "byte \<Rightarrow> byte \<Rightarrow> nat" where
  "be16 a b = push_bit 8 (unat a) OR unat b"

text \<open>\<open>(a as u32) << 16 | (b as u32) << 8 | c as u32\<close>\<close>

definition be24 :: "byte \<Rightarrow> byte \<Rightarrow> byte \<Rightarrow> 32 word" where
  "be24 a b c = push_bit 16 (ucast a) OR push_bit 8 (ucast b) OR ucast c"

definition be32 :: "byte \<Rightarrow> byte \<Rightarrow> byte \<Rightarrow> byte \<Rightarrow> 32 word" where
  "be32 a b c d = push_bit 24 (ucast a) OR push_bit 16 (ucast b) OR push_bit 8 (ucast c) OR ucast d"

text \<open>\<open>to_be_bytes\<close> of a \<open>u32\<close>, and of a length cast to \<open>u16\<close> first.\<close>

definition be32_bytes :: "32 word \<Rightarrow> bytes" where
  "be32_bytes w = [ucast (drop_bit 24 w), ucast (drop_bit 16 w), ucast (drop_bit 8 w), ucast w]"

definition be16_bytes :: "nat \<Rightarrow> bytes" where
  "be16_bytes n = [word_of_nat (n div 256), word_of_nat n]"

lemma length_be32_bytes [simp]: "length (be32_bytes w) = 4"
  by (simp add: be32_bytes_def)

lemma length_be16_bytes [simp]: "length (be16_bytes n) = 2"
  by (simp add: be16_bytes_def)

lemma unat_byte_less [simp]: "unat (b :: byte) < 256"
  using unsigned_less [of b] by simp

lemma be16_eq: "be16 a b = unat a * 256 + unat b"
proof -
  have "push_bit 8 (unat a) AND unat b = 0"
  proof (rule bit_eqI)
    fix n
    show "bit (push_bit 8 (unat a) AND unat b) n = bit (0::nat) n"
      using bit_imp_le_length [of b n] by (auto simp: bit_simps)
  qed
  then have "push_bit 8 (unat a) OR unat b = push_bit 8 (unat a) + unat b"
    by (simp add: disjunctive_add_eq_or)
  then show ?thesis by (simp add: be16_def push_bit_eq_mult)
qed

lemma be16_bytes_inverse:
  assumes "n < 65536"
  shows "be16 (word_of_nat (n div 256)) (word_of_nat n) = n"
proof -
  from assms have "n div 256 < 256" by arith
  then show ?thesis by (simp add: be16_eq unat_of_nat)
qed

lemma be16_less: "be16 a b < 65536"
proof -
  have "unat a < 256" "unat b < 256" by simp_all
  then show ?thesis unfolding be16_eq by linarith
qed

lemma be32_bytes_inverse:
  "be32 (ucast (drop_bit 24 w)) (ucast (drop_bit 16 w)) (ucast (drop_bit 8 w)) (ucast w) = w"
proof -
  have slice: "k + (n - k) = (if k \<le> n then n else k)" for k n :: nat
    by simp
  show ?thesis
    unfolding be32_def
    by (rule bit_word_eqI) (auto simp: bit_simps slice split: if_splits)
qed

section \<open>Decimal and hexadecimal text\<close>

definition digit_char :: "nat \<Rightarrow> char" where
  "digit_char d = char_of (48 + d)"

text \<open>\<open>{}\<close> of an unsigned integer.\<close>

fun dec_str :: "nat \<Rightarrow> string" where
  "dec_str n = (if n < 10 then [digit_char n] else dec_str (n div 10) @ [digit_char (n mod 10)])"

declare dec_str.simps [simp del]

definition hex_digit :: "nat \<Rightarrow> char" where
  "hex_digit d = (if d < 10 then char_of (48 + d) else char_of (87 + d))"

text \<open>\<open>{:02x}\<close> of a byte.\<close>

definition hex2 :: "byte \<Rightarrow> string" where
  "hex2 b = [hex_digit (unat b div 16), hex_digit (unat b mod 16)]"

definition is_digit :: "char \<Rightarrow> bool" where
  "is_digit c \<longleftrightarrow> 48 \<le> (of_char c :: nat) \<and> (of_char c :: nat) \<le> 57"

definition digit_val :: "char \<Rightarrow> nat" where
  "digit_val c = of_char c - 48"

definition dec_val :: "string \<Rightarrow> nat" where
  "dec_val cs = foldl (\<lambda>n c. n * 10 + digit_val c) 0 cs"

text \<open>
  \<open>str::parse\<close> of an unsigned integer whose largest value is \<open>m\<close>: an optional plus sign and at
  least one digit, nothing else.
\<close>

definition parse_dec :: "nat \<Rightarrow> string \<Rightarrow> nat option" where
  "parse_dec m cs =
     (let ds = (case cs of [] \<Rightarrow> [] | c # rest \<Rightarrow> if c = CHR 0x2B then rest else cs)
      in if ds = [] \<or> \<not> list_all is_digit ds \<or> m < dec_val ds then None else Some (dec_val ds))"

lemma of_char_digit [simp]: "d < 10 \<Longrightarrow> (of_char (digit_char d) :: nat) = 48 + d"
  by (simp add: digit_char_def)

lemma is_digit_digit_char [simp]: "d < 10 \<Longrightarrow> is_digit (digit_char d)"
  by (simp add: is_digit_def)

lemma digit_val_digit_char [simp]: "d < 10 \<Longrightarrow> digit_val (digit_char d) = d"
  by (simp add: digit_val_def)

lemma dec_str_digits [simp]: "list_all is_digit (dec_str n)"
proof (induction n rule: dec_str.induct)
  case (1 n)
  then show ?case by (subst dec_str.simps) auto
qed

lemma dec_str_not_Nil [simp]: "dec_str n \<noteq> []"
  by (subst dec_str.simps) simp

lemma dec_val_dec_str [simp]: "dec_val (dec_str n) = n"
proof (induction n rule: dec_str.induct)
  case (1 n)
  then show ?case by (subst dec_str.simps) (auto simp: dec_val_def)
qed

lemma dec_val_append: "dec_val (xs @ ys) = foldl (\<lambda>n c. n * 10 + digit_val c) (dec_val xs) ys"
  by (simp add: dec_val_def)

lemma parse_dec_dec_str [simp]: "n \<le> m \<Longrightarrow> parse_dec m (dec_str n) = Some n"
proof -
  assume "n \<le> m"
  obtain c cs where cs: "dec_str n = c # cs" by (cases "dec_str n") auto
  then have "is_digit c" using dec_str_digits [of n] by simp
  then have "c \<noteq> CHR 0x2B" by (auto simp: is_digit_def)
  with cs \<open>n \<le> m\<close> show ?thesis
    using dec_str_digits [of n] dec_val_dec_str [of n] by (simp add: parse_dec_def Let_def)
qed

section \<open>Text and its bytes\<close>

text \<open>
  A Rust string is its UTF-8 bytes. Where the model has text, each character stands for one of
  these bytes, so both directions are total and inverse to each other.
\<close>

definition ascii :: "string \<Rightarrow> bytes" where
  "ascii s = map (\<lambda>c. word_of_nat (of_char c)) s"

definition text_of :: "bytes \<Rightarrow> string" where
  "text_of bs = map (\<lambda>b. char_of (unat b)) bs"

lemma text_of_ascii [simp]: "text_of (ascii s) = s"
proof -
  have "char_of (unat (word_of_nat (of_char c) :: byte)) = c" for c :: char
    by (simp add: unat_of_nat of_char_mod_256)
  then show ?thesis by (simp add: text_of_def ascii_def o_def)
qed

lemma ascii_text_of [simp]: "ascii (text_of bs) = bs"
  by (simp add: text_of_def ascii_def o_def of_char_of)

lemma length_ascii [simp]: "length (ascii s) = length s"
  by (simp add: ascii_def)

lemma length_text_of [simp]: "length (text_of bs) = length bs"
  by (simp add: text_of_def)

lemma ascii_append: "ascii (a @ b) = ascii a @ ascii b"
  by (simp add: ascii_def)

section \<open>Runs of a fallible step function\<close>

fun run_steps :: "('s \<Rightarrow> 'i \<Rightarrow> ('s \<times> 'o) option) \<Rightarrow> 's \<Rightarrow> 'i list \<Rightarrow> ('s \<times> 'o list) option" where
  "run_steps f s [] = Some (s, [])"
| "run_steps f s (i # is) =
     (case f s i of
        None \<Rightarrow> None
      | Some (s', x) \<Rightarrow>
          (case run_steps f s' is of None \<Rightarrow> None | Some (s'', xs) \<Rightarrow> Some (s'', x # xs)))"

lemma run_steps_Cons_Some:
  "run_steps f s (i # is) = Some (s'', xs) \<longleftrightarrow>
   (\<exists>s' x ys. f s i = Some (s', x) \<and> run_steps f s' is = Some (s'', ys) \<and> xs = x # ys)"
  by (auto split: option.splits)

lemma run_steps_append:
  "run_steps f s (is @ js) =
     (case run_steps f s is of
        None \<Rightarrow> None
      | Some (s', xs) \<Rightarrow>
          (case run_steps f s' js of None \<Rightarrow> None | Some (s'', ys) \<Rightarrow> Some (s'', xs @ ys)))"
  by (induction "is" arbitrary: s) (auto split: option.splits)

section \<open>The interface of a tag clock\<close>

text \<open>
  A clock whose emitted value is its 32-bit register, which moves forward unless it still
  stands at zero or has reached the top of \<open>u64\<close>.
\<close>

definition clock_advances :: "nat \<Rightarrow> nat \<Rightarrow> bool" where
  "clock_advances a b \<longleftrightarrow> a < b \<or> a = 0 \<and> b = 0 \<or> u64_max \<le> b"

locale monotone_clock =
  fixes step :: "'s \<Rightarrow> 'i \<Rightarrow> ('s \<times> nat) option"
    and register :: "'s \<Rightarrow> nat"
  assumes emits: "step s i = Some (s', t) \<Longrightarrow> t = wrap32 (register s')"
    and advances: "step s i = Some (s', t) \<Longrightarrow> clock_advances (register s) (register s')"
begin

lemma run_increases:
  assumes "run_steps step s is = Some (s', ts)" and "register s' < 4294967296"
  shows "register s \<le> register s' \<and>
    sorted_wrt (\<lambda>a b. a < b \<or> a = 0 \<and> b = 0) (register s # ts)"
  using assms
proof (induction "is" arbitrary: s ts)
  case Nil
  then show ?case by simp
next
  case (Cons i "is")
  then obtain s1 t ys where st: "step s i = Some (s1, t)" "run_steps step s1 is = Some (s', ys)"
    "ts = t # ys" unfolding run_steps_Cons_Some by blast
  with Cons have IH: "register s1 \<le> register s'"
    "sorted_wrt (\<lambda>a b. a < b \<or> a = 0 \<and> b = 0) (register s1 # ys)" by blast+
  with Cons.prems(2) have lt: "register s1 < 4294967296" by simp
  then have t: "t = register s1" using emits [OF st(1)] by (simp add: wrap32_def)
  from lt advances [OF st(1)] have "register s < register s1 \<or> register s = 0 \<and> register s1 = 0"
    by (auto simp: clock_advances_def u64_max_def)
  with IH st(3) t show ?case by auto
qed

end

section \<open>The interface of a publisher slot\<close>

text \<open>
  A slot that at most one named client holds. A history of requests is answered by events;
  \<open>exclusive\<close> says that nobody is let in while somebody else holds the slot.
\<close>

datatype slot_request = Acquire string | Release string

datatype slot_event = Acquired string | Released string | Refused

fun slot_trace ::
    "('s \<Rightarrow> string \<Rightarrow> 's option) \<Rightarrow> ('s \<Rightarrow> string \<Rightarrow> 's \<times> bool) \<Rightarrow> 's \<Rightarrow> slot_request list \<Rightarrow> slot_event list" where
  "slot_trace acq rel s [] = []"
| "slot_trace acq rel s (Acquire p # reqs) =
     (case acq s p of
        Some s' \<Rightarrow> Acquired p # slot_trace acq rel s' reqs
      | None \<Rightarrow> Refused # slot_trace acq rel s reqs)"
| "slot_trace acq rel s (Release p # reqs) =
     (case rel s p of
        (s', ok) \<Rightarrow> (if ok then Released p else Refused) # slot_trace acq rel s' reqs)"

fun exclusive :: "string option \<Rightarrow> slot_event list \<Rightarrow> bool" where
  "exclusive who [] = True"
| "exclusive who (Acquired p # es) \<longleftrightarrow> (who = None \<or> who = Some p) \<and> exclusive (Some p) es"
| "exclusive who (Released p # es) \<longleftrightarrow> who = Some p \<and> exclusive None es"
| "exclusive who (Refused # es) \<longleftrightarrow> exclusive who es"

lemma exclusive_hand_over:
  assumes "exclusive who (Acquired p # ys @ Acquired q # zs)" and "p \<noteq> q"
  shows "Released p \<in> set ys"
proof -
  have "exclusive (Some p) (ys @ Acquired q # zs)" using assms(1) by simp
  with assms(2) show ?thesis
  proof (induction ys)
    case Nil
    then show ?case by simp
  next
    case (Cons e ys)
    then show ?case by (cases e) auto
  qed
qed

lemma exclusive_suffix: "exclusive who (xs @ ys) \<Longrightarrow> \<exists>who'. exclusive who' ys"
proof (induction xs arbitrary: who)
  case Nil
  then show ?case by auto
next
  case (Cons e xs)
  then show ?case by (cases e) auto
qed

locale publisher_slot =
  fixes acquire :: "'s \<Rightarrow> string \<Rightarrow> 's option"
    and release :: "'s \<Rightarrow> string \<Rightarrow> 's \<times> bool"
    and owner :: "'s \<Rightarrow> string option"
  assumes acquire_free: "acquire s p = Some s' \<Longrightarrow> owner s = None \<or> owner s = Some p"
    and acquire_owner: "acquire s p = Some s' \<Longrightarrow> owner s' = Some p"
    and release_result: "release s p = (s', ok) \<Longrightarrow> ok = (owner s = Some p)"
    and release_owner: "release s p = (s', ok) \<Longrightarrow> owner s' = (if ok then None else owner s)"
begin

lemma trace_exclusive: "exclusive (owner s) (slot_trace acquire release s reqs)"
proof (induction reqs arbitrary: s)
  case Nil
  then show ?case by simp
next
  case (Cons r reqs)
  show ?case
  proof (cases r)
    case (Acquire p)
    with Cons acquire_free [of s p] acquire_owner [of s p] show ?thesis
      by (auto split: option.splits) (metis Cons.IH)+
  next
    case (Release p)
    obtain s' ok where rel: "release s p = (s', ok)" by fastforce
    with Release Cons.IH [of s'] release_result [OF rel] release_owner [OF rel] show ?thesis
      by (cases ok) auto
  qed
qed

lemma hand_over:
  assumes "slot_trace acquire release s reqs = xs @ Acquired p # ys @ Acquired q # zs" and "p \<noteq> q"
  shows "Released p \<in> set ys"
  using trace_exclusive [of s reqs] exclusive_suffix exclusive_hand_over assms by metis

end

end
