(* ===== verification/Media.thy ===== *)
theory Media
  imports Prelude
begin

text \<open>
  The data model of \<open>src/src/core/mod.rs\<close>: streams and their status, receivers, tracks,
  codecs and the \<open>MediaFrame\<close> every protocol adapter exchanges with the hub. A Rust
  \<open>String\<close> is its list of UTF-8 bytes, a \<open>HashMap\<close> whose order is never looked at is a
  partial map, \<open>Bytes\<close> is a list of bytes.
\<close>

type_synonym stream_id = string

type_synonym track_id = byte

type_synonym receiver_id = string

section \<open>Codecs\<close>

datatype codec_type = H264 | H265 | AAC | Opus | G711 | Unknown

definition codec_from_pt :: "nat \<Rightarrow> codec_type" where
  "codec_from_pt pt =
     (if pt = 0 then G711
      else if pt = 8 then G711
      else if pt = 96 then H264
      else if pt = 98 then H265
      else if pt = 97 then AAC
      else if pt = 109 then Opus
      else Unknown)"

text \<open>The G711 name is spelled with the ideographic comma, bytes E3 80 81, as in the source.\<close>

fun mime_type :: "codec_type \<Rightarrow> string" where
  "mime_type H264 = ''video/H264''"
| "mime_type H265 = ''video/H265''"
| "mime_type AAC = ''audio/mp4a-latm''"
| "mime_type Opus = ''audio/opus''"
| "mime_type G711 = ''audio'' @ [CHR 0xE3, CHR 0x80, CHR 0x81] @ ''PCMU''"
| "mime_type Unknown = ''application/RTP''"

text \<open>The pattern \<open>matches!(codec, CodecType::H264 | CodecType::H265)\<close>.\<close>

definition is_video_codec :: "codec_type \<Rightarrow> bool" where
  "is_video_codec c \<longleftrightarrow> c = H264 \<or> c = H265"

lemma is_video_codec_simps [simp]:
  "is_video_codec H264" "is_video_codec H265" "\<not> is_video_codec AAC"
  "\<not> is_video_codec Opus" "\<not> is_video_codec G711" "\<not> is_video_codec codec_type.Unknown"
  by (simp_all add: is_video_codec_def)

section \<open>Stream, playback and receiver status\<close>

datatype stream_status = Created | Unpublished | Publishing | Paused | Stopped | Error string

datatype playback_status = Idle | Playing | Paused

datatype stream_source_mode = Pull | Push

datatype stream_protocol = RTSP | RTMP | WebRTC | HTTP | Unknown

datatype stream_sink_mode = Pull | Push

datatype receiver_status = Idle | Connecting | Playing | Paused | Error string | Stopped

fun stream_status_str :: "stream_status \<Rightarrow> string" where
  "stream_status_str stream_status.Created = ''created''"
| "stream_status_str stream_status.Unpublished = ''unpublished''"
| "stream_status_str stream_status.Publishing = ''publishing''"
| "stream_status_str stream_status.Paused = ''paused''"
| "stream_status_str (stream_status.Error e) = ''error''"
| "stream_status_str stream_status.Stopped = ''stopped''"

fun stream_status_description :: "stream_status \<Rightarrow> string" where
  "stream_status_description stream_status.Created = ''Stream created, awaiting initialization''"
| "stream_status_description stream_status.Unpublished = ''Stream is ready but not publishing''"
| "stream_status_description stream_status.Publishing = ''Actively publishing media''"
| "stream_status_description stream_status.Paused = ''Stream publishing is paused''"
| "stream_status_description (stream_status.Error e) = ''Error: '' @ e"
| "stream_status_description stream_status.Stopped = ''Stream has stopped''"

definition status_is_publishing :: "stream_status \<Rightarrow> bool" where
  "status_is_publishing s \<longleftrightarrow> s = stream_status.Publishing"

fun status_is_error :: "stream_status \<Rightarrow> bool" where
  "status_is_error (stream_status.Error e) = True"
| "status_is_error _ = False"

definition status_is_terminated :: "stream_status \<Rightarrow> bool" where
  "status_is_terminated s \<longleftrightarrow> s = stream_status.Stopped"

fun playback_status_str :: "playback_status \<Rightarrow> string" where
  "playback_status_str playback_status.Idle = ''idle''"
| "playback_status_str playback_status.Playing = ''playing''"
| "playback_status_str playback_status.Paused = ''paused''"

fun playback_status_description :: "playback_status \<Rightarrow> string" where
  "playback_status_description playback_status.Idle = ''No clients playing''"
| "playback_status_description playback_status.Playing = ''Stream is being played''"
| "playback_status_description playback_status.Paused = ''Playback is paused''"

definition playback_is_playing :: "playback_status \<Rightarrow> bool" where
  "playback_is_playing s \<longleftrightarrow> s = playback_status.Playing"

fun sink_mode_str :: "stream_sink_mode \<Rightarrow> string" where
  "sink_mode_str stream_sink_mode.Pull = ''pull''"
| "sink_mode_str stream_sink_mode.Push = ''push''"

fun sink_mode_description :: "stream_sink_mode \<Rightarrow> string" where
  "sink_mode_description stream_sink_mode.Pull = ''Remote client pulls from server''"
| "sink_mode_description stream_sink_mode.Push = ''Server pushes to remote endpoint''"

fun receiver_status_str :: "receiver_status \<Rightarrow> string" where
  "receiver_status_str receiver_status.Idle = ''idle''"
| "receiver_status_str receiver_status.Connecting = ''connecting''"
| "receiver_status_str receiver_status.Playing = ''playing''"
| "receiver_status_str receiver_status.Paused = ''paused''"
| "receiver_status_str (receiver_status.Error e) = ''error''"
| "receiver_status_str receiver_status.Stopped = ''stopped''"

fun receiver_status_description :: "receiver_status \<Rightarrow> string" where
  "receiver_status_description receiver_status.Idle = ''Receiver is idle''"
| "receiver_status_description receiver_status.Connecting = ''Connecting to stream...''"
| "receiver_status_description receiver_status.Playing = ''Receiving and playing stream''"
| "receiver_status_description receiver_status.Paused = ''Receiver is paused''"
| "receiver_status_description (receiver_status.Error e) = ''Receiver error: '' @ e"
| "receiver_status_description receiver_status.Stopped = ''Receiver has stopped''"

section \<open>Tracks, streams and receivers\<close>

record track =
  tr_id :: track_id
  tr_codec :: codec_type
  tr_payload_type :: nat
  tr_clock_rate :: nat
  tr_extra_params :: "string \<rightharpoonup> string"

definition track_default :: track where
  "track_default =
     \<lparr>tr_id = 0, tr_codec = codec_type.Unknown, tr_payload_type = 96, tr_clock_rate = 90000,
      tr_extra_params = Map.empty\<rparr>"

definition track_new :: "track_id \<Rightarrow> codec_type \<Rightarrow> nat \<Rightarrow> nat \<Rightarrow> track" where
  "track_new i c pt rate =
     \<lparr>tr_id = i, tr_codec = c, tr_payload_type = pt, tr_clock_rate = rate,
      tr_extra_params = Map.empty\<rparr>"

definition with_extra_params :: "track \<Rightarrow> string \<Rightarrow> string \<Rightarrow> track" where
  "with_extra_params t key v = t\<lparr>tr_extra_params := (tr_extra_params t)(key \<mapsto> v)\<rparr>"

definition default_live_tracks :: "track list" where
  "default_live_tracks = [track_new 0 H264 96 90000, track_new 1 AAC 97 44100]"

record stream =
  st_id :: stream_id
  st_tracks :: "track list"
  st_status :: stream_status
  st_playback_status :: playback_status
  st_source :: stream_source_mode
  st_protocol :: stream_protocol
  st_pull_url :: "string option"
  st_sps :: "bytes option"
  st_pps :: "bytes option"

definition add_track :: "stream \<Rightarrow> track \<Rightarrow> stream" where
  "add_track s t = s\<lparr>st_tracks := st_tracks s @ [t]\<rparr>"

record stream_receiver =
  rc_id :: receiver_id
  rc_stream_id :: stream_id
  rc_mode :: stream_sink_mode
  rc_protocol :: stream_protocol
  rc_client_addr :: "string option"
  rc_status :: receiver_status
  rc_push_addr :: "string option"

text \<open>
  \<open>StreamReceiver::new\<close> draws a version 4 UUID; its text is the argument \<open>uuid\<close> here and
  only the part before the first dash enters the id.
\<close>

definition receiver_new ::
    "string \<Rightarrow> stream_id \<Rightarrow> stream_sink_mode \<Rightarrow> stream_protocol \<Rightarrow> stream_receiver" where
  "receiver_new uuid sid mode proto =
     \<lparr>rc_id = sid @ ''_'' @ takeWhile (\<lambda>c. c \<noteq> CHR ''-'') uuid,
      rc_stream_id = sid, rc_mode = mode, rc_protocol = proto, rc_client_addr = None,
      rc_status = receiver_status.Idle, rc_push_addr = None\<rparr>"

definition with_client_addr :: "stream_receiver \<Rightarrow> string \<Rightarrow> stream_receiver" where
  "with_client_addr r addr = r\<lparr>rc_client_addr := Some addr\<rparr>"

definition with_push_addr :: "stream_receiver \<Rightarrow> string \<Rightarrow> stream_receiver" where
  "with_push_addr r addr = r\<lparr>rc_push_addr := Some addr\<rparr>"

section \<open>Media frames\<close>

text \<open>\<open>timestamp\<close> is a \<open>u64\<close>, \<open>clock_rate\<close> an optional \<open>u32\<close>.\<close>

record media_frame =
  mf_stream_id :: stream_id
  mf_track_id :: track_id
  mf_timestamp :: nat
  mf_clock_rate :: "nat option"
  mf_data :: bytes
  mf_is_keyframe :: bool
  mf_codec :: codec_type
  mf_rtp_data :: "bytes option"

definition media_frame_new ::
    "stream_id \<Rightarrow> track_id \<Rightarrow> nat \<Rightarrow> bytes \<Rightarrow> bool \<Rightarrow> codec_type \<Rightarrow> media_frame" where
  "media_frame_new sid tid ts d key c =
     \<lparr>mf_stream_id = sid, mf_track_id = tid, mf_timestamp = ts, mf_clock_rate = None,
      mf_data = d, mf_is_keyframe = key, mf_codec = c, mf_rtp_data = None\<rparr>"

definition with_clock_rate :: "media_frame \<Rightarrow> nat \<Rightarrow> media_frame" where
  "with_clock_rate f rate = f\<lparr>mf_clock_rate := Some rate\<rparr>"

definition with_optional_clock_rate :: "media_frame \<Rightarrow> nat option \<Rightarrow> media_frame" where
  "with_optional_clock_rate f rate = f\<lparr>mf_clock_rate := rate\<rparr>"

definition with_rtp_data :: "media_frame \<Rightarrow> bytes \<Rightarrow> media_frame" where
  "with_rtp_data f d = f\<lparr>mf_rtp_data := Some d\<rparr>"

record rtp_packet =
  rp_stream_id :: stream_id
  rp_track_id :: track_id
  rp_timestamp :: "32 word"
  rp_seq :: "16 word"
  rp_payload :: bytes
  rp_is_keyframe :: bool

lemmas media_frame_defs [simp] =
  media_frame_new_def with_clock_rate_def with_optional_clock_rate_def with_rtp_data_def

end
