(* ===== verification/Timestamp.thy ===== *)
theory Timestamp
  imports Media
begin

text \<open>
  \<open>src/src/core/timestamp.rs\<close>: differences of media timestamps in milliseconds and the two
  timelines that stamp outgoing FLV and RTMP tags. Values of type \<open>u64\<close> are natural numbers
  with the wrap-around or saturation written out; the monotonic clock of the host is an
  argument (\<open>now\<close>, in milliseconds). A division by a clock rate of zero panics: \<open>None\<close>.
\<close>

section \<open>Timestamp differences\<close>

definition rtp_video_delta_min_ticks :: nat where
  "rtp_video_delta_min_ticks = 90 * 10"

definition rtp_video_delta_max_ticks :: nat where
  "rtp_video_delta_max_ticks = 90000"

definition looks_like_rtp_video_delta :: "nat \<Rightarrow> bool" where
  "looks_like_rtp_video_delta delta =
     ((rtp_video_delta_min_ticks \<le> delta \<and> delta \<le> rtp_video_delta_max_ticks) \<and>
      (delta mod 90 = 0 \<or> delta \<in> {1501, 1502, 3003, 3753, 3754}))"

definition media_timestamp_delta_ms_with_clock :: "nat \<Rightarrow> nat \<Rightarrow> nat option \<Rightarrow> nat" where
  "media_timestamp_delta_ms_with_clock prev cur clock =
     (if cur \<le> prev then 0
      else let delta = cur - prev in
        case clock of
          Some rate \<Rightarrow>
            if rate = 0 then 0
            else if rate = 1000 then delta
            else sat_mul64 delta 1000 div rate
        | None \<Rightarrow>
            if delta > 2000 \<or> looks_like_rtp_video_delta delta then delta div 90 else delta)"

definition media_timestamp_delta_ms :: "nat \<Rightarrow> nat \<Rightarrow> nat" where
  "media_timestamp_delta_ms prev cur = media_timestamp_delta_ms_with_clock prev cur None"

text \<open>\<open>a.or(b)\<close> of two options.\<close>

definition or_opt :: "'a option \<Rightarrow> 'a option \<Rightarrow> 'a option" where
  "or_opt a b = (case a of Some x \<Rightarrow> Some x | None \<Rightarrow> b)"

lemma or_opt_simps [simp]: "or_opt (Some x) b = Some x" "or_opt None b = b"
  by (simp_all add: or_opt_def)

definition media_frame_timestamp_delta_ms :: "media_frame \<Rightarrow> media_frame \<Rightarrow> nat" where
  "media_frame_timestamp_delta_ms prev cur =
     media_timestamp_delta_ms_with_clock (mf_timestamp prev) (mf_timestamp cur)
       (or_opt (mf_clock_rate cur) (mf_clock_rate prev))"

definition flv_timestamp_ms :: "codec_type \<Rightarrow> nat \<Rightarrow> nat" where
  "flv_timestamp_ms codec raw =
     wrap32 (case codec of
        H264 \<Rightarrow> if raw > 1000000 then raw div 90 else raw
      | H265 \<Rightarrow> if raw > 1000000 then raw div 90 else raw
      | AAC \<Rightarrow> if raw > 1000000 then wrap64 (raw * 1000) div 44100 else raw
      | _ \<Rightarrow> raw)"

section \<open>The wall-clock timeline\<close>

record wallclock_ms_timeline =
  wc_anchor :: "nat option"
  wc_last_emit_ms :: nat

definition wallclock_new :: wallclock_ms_timeline where
  "wallclock_new = \<lparr>wc_anchor = None, wc_last_emit_ms = 0\<rparr>"

text \<open>\<open>map_ms\<close>; \<open>now\<close> is the reading of the host's monotonic clock.\<close>

definition wc_map_ms :: "wallclock_ms_timeline \<Rightarrow> nat \<Rightarrow> wallclock_ms_timeline \<times> nat" where
  "wc_map_ms tln now =
     (let anchor = (case wc_anchor tln of Some a \<Rightarrow> a | None \<Rightarrow> now);
          ideal = wrap64 (now - anchor);
          ts = (if ideal > wc_last_emit_ms tln then ideal else sat_add64 (wc_last_emit_ms tln) 1)
      in (\<lparr>wc_anchor = Some anchor, wc_last_emit_ms = ts\<rparr>, wrap32 ts))"

section \<open>The FLV play timeline\<close>

record flv_play_timeline =
  last_emit_ms :: nat
  video_ms :: nat
  last_raw_video_ts :: "nat option"
  last_raw_video_clock_rate :: "nat option"
  audio_ms :: nat
  last_raw_audio_ts :: "nat option"
  last_raw_audio_clock_rate :: "nat option"
  audio_frames :: nat

definition flv_timeline_new :: flv_play_timeline where
  "flv_timeline_new = \<lparr>last_emit_ms = 0, video_ms = 0, last_raw_video_ts = None,
     last_raw_video_clock_rate = None, audio_ms = 0, last_raw_audio_ts = None,
     last_raw_audio_clock_rate = None, audio_frames = 0\<rparr>"

definition flv_video_step :: "flv_play_timeline \<Rightarrow> media_frame \<Rightarrow> flv_play_timeline" where
  "flv_video_step tln frame =
     (let v = (case last_raw_video_ts tln of
                 None \<Rightarrow> video_ms tln
               | Some prev \<Rightarrow>
                   if mf_timestamp frame > prev then
                     let delta = media_timestamp_delta_ms_with_clock prev (mf_timestamp frame)
                           (or_opt (mf_clock_rate frame) (last_raw_video_clock_rate tln))
                     in if delta > 0 \<and> delta < 2000 then wrap64 (video_ms tln + delta)
                        else sat_add64 (video_ms tln) 1
                   else sat_add64 (video_ms tln) 1)
      in tln\<lparr>video_ms := v, last_raw_video_ts := Some (mf_timestamp frame),
            last_raw_video_clock_rate := mf_clock_rate frame\<rparr>)"

definition aac_step_ms :: "media_frame \<Rightarrow> nat option" where
  "aac_step_ms frame =
     (let rate = (case mf_clock_rate frame of Some r \<Rightarrow> r | None \<Rightarrow> 44100)
      in if rate = 0 then None else Some (1024 * 1000 div rate))"

definition flv_audio_step :: "flv_play_timeline \<Rightarrow> media_frame \<Rightarrow> nat \<Rightarrow> flv_play_timeline" where
  "flv_audio_step tln frame step_ms =
     (let a = (case last_raw_audio_ts tln of
                 None \<Rightarrow> wrap64 (audio_frames tln * step_ms)
               | Some prev \<Rightarrow>
                   if mf_timestamp frame > prev then
                     let delta = media_timestamp_delta_ms_with_clock prev (mf_timestamp frame)
                           (or_opt (mf_clock_rate frame) (last_raw_audio_clock_rate tln))
                     in sat_add64 (audio_ms tln) (if delta > 0 \<and> delta < 2000 then delta else step_ms)
                   else sat_add64 (audio_ms tln) step_ms)
      in tln\<lparr>audio_ms := a, last_raw_audio_ts := Some (mf_timestamp frame),
            last_raw_audio_clock_rate := mf_clock_rate frame,
            audio_frames := wrap64 (audio_frames tln + 1)\<rparr>)"

definition flv_emit :: "flv_play_timeline \<Rightarrow> nat \<Rightarrow> flv_play_timeline \<times> nat" where
  "flv_emit tln ideal =
     (let ts = (if ideal > last_emit_ms tln then ideal
                else if ideal = last_emit_ms tln \<and> last_emit_ms tln = 0 then 0
                else sat_add64 (last_emit_ms tln) 1)
      in (tln\<lparr>last_emit_ms := ts\<rparr>, wrap32 ts))"

definition flv_map :: "flv_play_timeline \<Rightarrow> media_frame \<Rightarrow> (flv_play_timeline \<times> nat) option" where
  "flv_map tln frame =
     (case mf_codec frame of
        H264 \<Rightarrow> let tln' = flv_video_step tln frame in Some (flv_emit tln' (video_ms tln'))
      | H265 \<Rightarrow> let tln' = flv_video_step tln frame in Some (flv_emit tln' (video_ms tln'))
      | AAC \<Rightarrow> (case aac_step_ms frame of
                  None \<Rightarrow> None
                | Some step_ms \<Rightarrow>
                    let tln' = flv_audio_step tln frame step_ms in Some (flv_emit tln' (audio_ms tln')))
      | _ \<Rightarrow> Some (flv_emit tln (last_emit_ms tln)))"

lemmas timestamp_model_defs [model_defs] =
  media_timestamp_delta_ms_with_clock_def looks_like_rtp_video_delta_def
  rtp_video_delta_min_ticks_def rtp_video_delta_max_ticks_def sat_mul64_def sat_add64_def wrap64_def
  wrap32_def u64_max_def flv_timeline_new_def flv_video_step_def flv_audio_step_def aac_step_ms_def
  flv_emit_def flv_map_def wallclock_new_def wc_map_ms_def

section \<open>Facts of one step\<close>

lemma delta_ms_of_clock:
  assumes "r \<noteq> 0" and "d * 1000 \<le> u64_max"
  shows "media_timestamp_delta_ms_with_clock p (p + d) (Some r) = d * 1000 div r"
  using assms by (cases "d = 0")
    (auto simp: media_timestamp_delta_ms_with_clock_def Let_def sat_mul64_def min_def)

lemma last_emit_video_step [simp]: "last_emit_ms (flv_video_step s f) = last_emit_ms s"
  by (simp add: flv_video_step_def Let_def)

lemma last_emit_audio_step [simp]: "last_emit_ms (flv_audio_step s f k) = last_emit_ms s"
  by (simp add: flv_audio_step_def Let_def)

lemma flv_emit_facts:
  "snd (flv_emit s i) = wrap32 (last_emit_ms (fst (flv_emit s i)))"
  "clock_advances (last_emit_ms s) (last_emit_ms (fst (flv_emit s i)))"
  by (auto simp: flv_emit_def Let_def clock_advances_def sat_add64_def)

lemma flv_map_cases:
  assumes "flv_map s f = Some (s', t)"
  obtains s1 i where "last_emit_ms s1 = last_emit_ms s" and "(s', t) = flv_emit s1 i"
  using assms
  by (auto simp: flv_map_def Let_def split: codec_type.splits option.splits
      dest: sym [where s = "flv_emit _ _"] intro: that [of "flv_video_step s f"]
        that [of "flv_audio_step s f _"] that [of s])

interpretation flv: monotone_clock flv_map last_emit_ms
proof (unfold_locales, goal_cases)
  case (1 s i s' t)
  from 1 obtain s1 k where "(s', t) = flv_emit s1 k" by (rule flv_map_cases)
  with flv_emit_facts(1) [of s1 k] show ?case by (metis fst_conv snd_conv)
next
  case (2 s i s' t)
  from 2 obtain s1 k where "last_emit_ms s1 = last_emit_ms s" "(s', t) = flv_emit s1 k"
    by (rule flv_map_cases)
  with flv_emit_facts(2) [of s1 k] show ?case by (metis fst_conv)
qed

interpretation wc: monotone_clock "\<lambda>s now. Some (wc_map_ms s now)" wc_last_emit_ms
  by unfold_locales
    (auto simp: wc_map_ms_def Let_def clock_advances_def sat_add64_def)

section \<open>Properties\<close>

text \<open>
  Tags never move backward: over any mix of audio and video frames, with any timestamps and
  clock rates, the tags the FLV timeline emits increase strictly once they have left zero, as
  long as the 32-bit tag has not wrapped.
\<close>

theorem flv_tags_increase:
  assumes "run_steps flv_map flv_timeline_new frames = Some (s, tags)"
    and "last_emit_ms s < 4294967296"
  shows "sorted_wrt (\<lambda>a b. a < b \<or> a = 0 \<and> b = 0) tags"
  using flv.run_increases [OF assms] by simp

theorem flv_tags_increase_witness:
  "sorted_wrt (\<lambda>a b. a < b \<or> a = 0 \<and> b = 0) [0, 0, 40, 41::nat]"
proof -
  let ?v = "\<lambda>ts. media_frame_new ''s'' 0 ts [] False H264"
  let ?a = "\<lambda>ts. media_frame_new ''s'' 1 ts [] False AAC"
  have "map_option (\<lambda>(s, tags). (last_emit_ms s, tags))
      (run_steps flv_map flv_timeline_new [?v 10, ?a 5, ?v 50, ?a 6]) = Some (41, [0, 0, 40, 41])"
    by (simp add: model_defs split del: if_split)
  then obtain s where "run_steps flv_map flv_timeline_new [?v 10, ?a 5, ?v 50, ?a 6] =
      Some (s, [0, 0, 40, 41])" "last_emit_ms s = 41" by auto
  then show ?thesis using flv_tags_increase by fastforce
qed

text \<open>
  The timeline fails on exactly one input: an AAC frame with a clock rate of zero divides by
  zero.
\<close>

theorem flv_map_panics_iff:
  "flv_map s f = None \<longleftrightarrow> mf_codec f = AAC \<and> mf_clock_rate f = Some 0"
  by (auto simp: flv_map_def aac_step_ms_def Let_def split: codec_type.splits option.splits if_splits)

definition constant_rate_video :: "nat \<Rightarrow> nat \<Rightarrow> nat \<Rightarrow> nat \<Rightarrow> media_frame" where
  "constant_rate_video t0 d r n =
     with_clock_rate (media_frame_new ''live'' 0 (t0 + n * d) [] False H264) r"

lemma constant_rate_run:
  fixes d r :: nat
  defines "k \<equiv> d * 1000 div r"
  assumes "r \<noteq> 0" and "0 < k" and "k < 2000" and d: "d * 1000 \<le> u64_max" and "n * k \<le> u64_max"
  shows "\<exists>s. run_steps flv_map flv_timeline_new (map (constant_rate_video t0 d r) [0..<n]) =
      Some (s, map (\<lambda>i. wrap32 (i * k)) [0..<n]) \<and>
    video_ms s = (n - 1) * k \<and> last_emit_ms s = (n - 1) * k \<and>
    last_raw_video_ts s = (if n = 0 then None else Some (t0 + (n - 1) * d))"
  using assms(6)
proof (induction n)
  case 0
  then show ?case by (simp add: flv_timeline_new_def)
next
  case (Suc n)
  from Suc.prems have le: "n * k + k \<le> u64_max" by simp
  with Suc.IH obtain s where
    run: "run_steps flv_map flv_timeline_new (map (constant_rate_video t0 d r) [0..<n]) =
      Some (s, map (\<lambda>i. wrap32 (i * k)) [0..<n])" and
    s: "video_ms s = (n - 1) * k" "last_emit_ms s = (n - 1) * k"
      "last_raw_video_ts s = (if n = 0 then None else Some (t0 + (n - 1) * d))" by auto
  let ?f = "constant_rate_video t0 d r n"
  have "0 < d" using assms(3) k_def by (cases "d = 0") auto
  have v: "video_ms (flv_video_step s ?f) = n * k"
  proof (cases n)
    case 0
    with s show ?thesis by (simp add: flv_video_step_def)
  next
    case (Suc m)
    have "media_timestamp_delta_ms_with_clock (t0 + m * d) (t0 + m * d + d) (Some r) = k"
      unfolding k_def using d assms(2) by (rule delta_ms_of_clock [rotated])
    then have "media_timestamp_delta_ms_with_clock (t0 + m * d) (t0 + (d + m * d)) (Some r) = k"
      by (simp add: ac_simps)
    moreover have "m * k + k \<le> u64_max" using le Suc by simp
    ultimately show ?thesis using s Suc assms(3,4) \<open>0 < d\<close>
      by (simp add: flv_video_step_def constant_rate_video_def Let_def add.commute)
  qed
  have raw: "last_raw_video_ts (flv_video_step s ?f) = Some (t0 + n * d)"
    by (simp add: flv_video_step_def constant_rate_video_def Let_def)
  let ?s' = "(flv_video_step s ?f)\<lparr>last_emit_ms := n * k\<rparr>"
  have "flv_emit (flv_video_step s ?f) (n * k) = (?s', wrap32 (n * k))"
    using s(2) assms(3) by (cases n) (auto simp: flv_emit_def Let_def)
  then have "flv_map s ?f = Some (?s', wrap32 (n * k))"
    using v by (simp add: flv_map_def constant_rate_video_def)
  with run v raw show ?case by (intro exI [of _ ?s']) (simp add: run_steps_append)
qed

text \<open>
  A video stream with a constant step of \<open>d\<close> ticks is stamped with multiples of the truncated
  step: the \<open>n\<close>-th tag is \<open>n * (d * 1000 div r)\<close> milliseconds. The tags follow the source exactly
  when \<open>r\<close> divides \<open>d * 1000\<close> and fall behind by the remainder of every frame otherwise.
\<close>

theorem flv_constant_rate_tags:
  assumes "r \<noteq> 0" and "0 < d * 1000 div r" and "d * 1000 div r < 2000"
    and "d * 1000 \<le> u64_max" and "n * (d * 1000 div r) \<le> u64_max"
  shows "map_option snd
      (run_steps flv_map flv_timeline_new (map (constant_rate_video t0 d r) [0..<n])) =
    Some (map (\<lambda>i. wrap32 (i * (d * 1000 div r))) [0..<n])"
  using constant_rate_run [OF assms] by auto

text \<open>At 29.97 frames per second, 3003 ticks are 33 ms each: after 3000 frames (100.1 s) the tag is at 99 s.\<close>

theorem flv_constant_rate_tags_witness:
  "map_option (\<lambda>x. last (snd x))
     (run_steps flv_map flv_timeline_new (map (constant_rate_video 7 3003 90000) [0..<3001])) =
   Some 99000"
proof -
  have "map_option snd
      (run_steps flv_map flv_timeline_new (map (constant_rate_video 7 3003 90000) [0..<3001])) =
    Some (map (\<lambda>i. wrap32 (i * 33)) [0..<3001])"
    using flv_constant_rate_tags [of 90000 3003 3001 7] by (simp add: u64_max_def del: upt_Suc)
  then show ?thesis by (auto simp: last_map wrap32_def simp del: upt_Suc upt_rec_numeral)
qed

end
