(* ===== verification/Amf0.thy ===== *)
theory Amf0
  imports Prelude "HOL-Library.AList"
begin

text \<open>
  \<open>src/src/server/rtmp/amf0.rs\<close>: the AMF0 values RTMP commands are made of. A Rust string is
  the list of its UTF-8 bytes, a number the 64-bit pattern of its \<open>f64\<close>. A hash map is an
  association list with distinct keys in the order in which the code meets its entries. The
  decoder works on offsets, which an error leaves where the code leaves them.

  The recursion over nested objects is bounded by fuel; \<open>decode_value_enough\<close> shows that one
  unit more than the bytes left always suffices, and the entry points use that much.
\<close>

section \<open>UTF-8\<close>

definition in_range :: "nat \<Rightarrow> nat \<Rightarrow> byte \<Rightarrow> bool" where
  "in_range lo hi b \<longleftrightarrow> lo \<le> unat b \<and> unat b \<le> hi"

definition is_cont :: "byte \<Rightarrow> bool" where
  "is_cont b = in_range 0x80 0xBF b"

text \<open>The second bytes a lead byte of three or four allows.\<close>

definition second_ok :: "byte \<Rightarrow> byte \<Rightarrow> bool" where
  "second_ok a b =
     (if a = 0xE0 then in_range 0xA0 0xBF b
      else if a = 0xED then in_range 0x80 0x9F b
      else if a = 0xF0 then in_range 0x90 0xBF b
      else if a = 0xF4 then in_range 0x80 0x8F b
      else is_cont b)"

definition byte_at :: "bytes \<Rightarrow> nat \<Rightarrow> byte" where
  "byte_at bs i = (if i < length bs then bs ! i else 0)"

text \<open>
  The next piece of \<open>from_utf8_lossy\<close>: its length, and whether it is a character. An invalid
  piece is the longest prefix that could have started a character, at least one byte.
\<close>

definition utf8_piece :: "bytes \<Rightarrow> nat \<times> bool" where
  "utf8_piece bs =
     (let a = byte_at bs 0; b = byte_at bs 1; c = byte_at bs 2; d = byte_at bs 3 in
      if unat a < 0x80 then (1, True)
      else if in_range 0xC2 0xDF a then if is_cont b then (2, True) else (1, False)
      else if in_range 0xE0 0xEF a then
        if \<not> second_ok a b then (1, False)
        else if is_cont c then (3, True) else (2, False)
      else if in_range 0xF0 0xF4 a then
        if \<not> second_ok a b then (1, False)
        else if \<not> is_cont c then (2, False)
        else if is_cont d then (4, True) else (3, False)
      else (1, False))"

lemma utf8_piece_pos: "1 \<le> fst (utf8_piece bs)"
  by (simp add: utf8_piece_def Let_def)

function utf8_lossy :: "bytes \<Rightarrow> bytes" where
  "utf8_lossy bs =
     (if bs = [] then []
      else let (n, ok) = utf8_piece bs
        in (if ok then take n bs else [0xEF, 0xBF, 0xBD]) @ utf8_lossy (drop n bs))"
  by pat_completeness auto
termination
proof (relation "measure length", goal_cases)
  case (2 bs x n ok)
  then have "fst (utf8_piece bs) = n" by (metis fst_conv)
  with utf8_piece_pos [of bs] have "1 \<le> n" by simp
  with 2 show ?case by simp
qed simp

declare utf8_lossy.simps [simp del]

function utf8_valid :: "bytes \<Rightarrow> bool" where
  "utf8_valid bs =
     (if bs = [] then True
      else let (n, ok) = utf8_piece bs in ok \<and> utf8_valid (drop n bs))"
  by pat_completeness auto
termination
proof (relation "measure length", goal_cases)
  case (2 bs x n ok)
  then have "fst (utf8_piece bs) = n" by (metis fst_conv)
  with utf8_piece_pos [of bs] have "1 \<le> n" by simp
  with 2 show ?case by simp
qed simp

declare utf8_valid.simps [simp del]

lemma utf8_lossy_valid: "utf8_valid bs \<Longrightarrow> utf8_lossy bs = bs"
proof (induction bs rule: utf8_valid.induct)
  case (1 bs)
  obtain n ok where p: "utf8_piece bs = (n, ok)" by fastforce
  show ?case
  proof (cases "bs = []")
    case True
    then show ?thesis by (simp add: utf8_lossy.simps)
  next
    case False
    with "1.prems" p have ok: "ok" "utf8_valid (drop n bs)" by (simp_all add: utf8_valid.simps [of bs])
    with "1.IH" [OF False p [symmetric] refl] have "utf8_lossy (drop n bs) = drop n bs" by simp
    with False p ok show ?thesis by (simp add: utf8_lossy.simps [of bs])
  qed
qed

section \<open>Values\<close>

datatype amf0_value =
    Number "64 word"
  | Boolean bool
  | AString bytes
  | Object "(bytes \<times> amf0_value) list"
  | ANull
  | Undefined
  | EcmaArray "(bytes \<times> amf0_value) list"

fun as_str :: "amf0_value \<Rightarrow> bytes option" where
  "as_str (AString s) = Some s"
| "as_str _ = None"

fun as_f64 :: "amf0_value \<Rightarrow> 64 word option" where
  "as_f64 (Number n) = Some n"
| "as_f64 _ = None"

fun as_bool :: "amf0_value \<Rightarrow> bool option" where
  "as_bool (Boolean b) = Some b"
| "as_bool _ = None"

fun as_object :: "amf0_value \<Rightarrow> (bytes \<times> amf0_value) list option" where
  "as_object (Object m) = Some m"
| "as_object (EcmaArray m) = Some m"
| "as_object _ = None"

definition get_string_prop :: "amf0_value \<Rightarrow> bytes \<Rightarrow> bytes option" where
  "get_string_prop v key =
     (case as_object v of Some m \<Rightarrow> Option.bind (map_of m key) as_str | None \<Rightarrow> None)"

definition get_number_prop :: "amf0_value \<Rightarrow> bytes \<Rightarrow> 64 word option" where
  "get_number_prop v key =
     (case as_object v of Some m \<Rightarrow> Option.bind (map_of m key) as_f64 | None \<Rightarrow> None)"

section \<open>Decoding\<close>

datatype amf_error =
    NoMarker
  | NoNumber
  | NoBoolean
  | NoEcmaCount
  | Unsupported byte nat
  | NoStringLength
  | NoStringData nat nat
  | NoPropertyName
  | EmptyPayload
  | NotACommand

definition be64 :: "bytes \<Rightarrow> 64 word" where
  "be64 bs = foldl (\<lambda>w b. push_bit 8 w OR ucast b) 0 bs"

definition at_object_end :: "bytes \<Rightarrow> nat \<Rightarrow> bool" where
  "at_object_end data i \<longleftrightarrow>
     i + 3 \<le> length data \<and> data ! i = 0x00 \<and> data ! (i + 1) = 0x00 \<and> data ! (i + 2) = 0x09"

definition decode_string :: "bytes \<Rightarrow> nat \<Rightarrow> nat \<times> (amf_error + bytes)" where
  "decode_string data i =
     (if i + 2 > length data then (i, Inl NoStringLength)
      else let len = be16 (data ! i) (data ! (i + 1)); j = i + 2
        in if j + len > length data then (j, Inl (NoStringData len (length data - j)))
           else (j + len, Inr (utf8_lossy (take len (drop j data)))))"

definition finish_object :: "bool \<Rightarrow> (bytes \<times> amf0_value) list \<Rightarrow> amf0_value" where
  "finish_object is_ecma m = (if is_ecma then EcmaArray m else Object m)"

fun decode_value :: "nat \<Rightarrow> bytes \<Rightarrow> nat \<Rightarrow> (nat \<times> (amf_error + amf0_value)) option"
and decode_object_inner ::
    "nat \<Rightarrow> bytes \<Rightarrow> nat \<Rightarrow> bool \<Rightarrow> (bytes \<times> amf0_value) list \<Rightarrow> (nat \<times> (amf_error + amf0_value)) option" where
  "decode_value 0 data i = None"
| "decode_value (Suc k) data i =
     (if i \<ge> length data then Some (i, Inl NoMarker)
      else let marker = data ! i; j = i + 1 in
        if marker = 0x00 then
          if j + 8 > length data then Some (j, Inl NoNumber)
          else Some (j + 8, Inr (Number (be64 (take 8 (drop j data)))))
        else if marker = 0x01 then
          if j + 1 > length data then Some (j, Inl NoBoolean)
          else Some (j + 1, Inr (Boolean (data ! j \<noteq> 0)))
        else if marker = 0x02 then
          (case decode_string data j of
             (j', Inl e) \<Rightarrow> Some (j', Inl e)
           | (j', Inr s) \<Rightarrow> Some (j', Inr (AString s)))
        else if marker = 0x03 then decode_object_inner k data j False []
        else if marker = 0x05 \<or> marker = 0x06 then Some (j, Inr ANull)
        else if marker = 0x08 then
          if j + 4 > length data then Some (j, Inl NoEcmaCount)
          else decode_object_inner k data (j + 4) True []
        else Some (j, Inl (Unsupported marker (j - 1))))"
| "decode_object_inner 0 data i is_ecma m = None"
| "decode_object_inner (Suc k) data i is_ecma m =
     (if at_object_end data i then Some (i + 3, Inr (finish_object is_ecma m))
      else if i + 2 > length data then Some (i, Inl NoPropertyName)
      else let key_len = be16 (data ! i) (data ! (i + 1)); j = i + 2 in
        if key_len = 0 then
          Some (if j < length data \<and> data ! j = 0x09 then j + 1 else j, Inr (finish_object is_ecma m))
        else if j + key_len > length data then Some (j, Inl NoPropertyName)
        else
          (case decode_value k data (j + key_len) of
             None \<Rightarrow> None
           | Some (j', Inl e) \<Rightarrow> Some (j', Inr (finish_object is_ecma m))
           | Some (j', Inr v) \<Rightarrow>
               decode_object_inner k data j' is_ecma
                 (AList.update (utf8_lossy (take key_len (drop j data))) v m)))"

declare decode_value.simps(2) [simp del] decode_object_inner.simps(2) [simp del]

section \<open>Encoding\<close>

definition be64_bytes :: "64 word \<Rightarrow> bytes" where
  "be64_bytes w = map (\<lambda>k. ucast (drop_bit k w)) [56, 48, 40, 32, 24, 16, 8, 0]"

fun encode_value :: "amf0_value \<Rightarrow> bytes" where
  "encode_value (Number n) = 0x00 # be64_bytes n"
| "encode_value (Boolean b) = [0x01, if b then 1 else 0]"
| "encode_value (AString s) = 0x02 # be16_bytes (length s) @ s"
| "encode_value (Object m) =
     0x03 # concat (map (\<lambda>(key, v). be16_bytes (length key) @ key @ encode_value v) m) @ [0x00, 0x00, 0x09]"
| "encode_value ANull = [0x05]"
| "encode_value Undefined = [0x06]"
| "encode_value (EcmaArray m) =
     0x08 # be32_bytes (word_of_nat (length m)) @
     concat (map (\<lambda>(key, v). be16_bytes (length key) @ key @ encode_value v) m) @ [0x00, 0x00, 0x09]"

definition encode_object_properties :: "(bytes \<times> amf0_value) list \<Rightarrow> bytes" where
  "encode_object_properties m =
     concat (map (\<lambda>(key, v). be16_bytes (length key) @ key @ encode_value v) m)"

definition encode :: "amf0_value list \<Rightarrow> bytes" where
  "encode vs = concat (map encode_value vs)"

definition encode_command :: "bytes \<Rightarrow> bytes" where
  "encode_command name = encode [AString name]"

section \<open>The decoder makes progress\<close>

lemma decode_string_progress: "decode_string data i = (j, r) \<Longrightarrow> i \<le> j"
  by (auto simp: decode_string_def Let_def split: if_splits)

lemma decode_progress_all:
  "(\<forall>i j r. decode_value k data i = Some (j, r) \<longrightarrow> i \<le> j \<and> (i < length data \<longrightarrow> i < j)) \<and>
   (\<forall>i is_ecma m j r. decode_object_inner k data i is_ecma m = Some (j, r) \<longrightarrow> i \<le> j)"
proof (induction k)
  case 0
  then show ?case by simp
next
  case (Suc k)
  have whole: "i \<le> j \<and> (i < length data \<longrightarrow> i < j)" if "decode_value (Suc k) data i = Some (j, r)" for i j r
  proof -
    have "Suc i \<le> j" if "decode_object_inner k data (Suc i) False [] = Some (j, r)" using Suc that by blast
    moreover have "i + 5 \<le> j" if "decode_object_inner k data (i + 5) True [] = Some (j, r)" using Suc that by blast
    moreover have "Suc i \<le> j'" if "decode_string data (Suc i) = (j', r')" for j' r'
      using decode_string_progress [OF that] .
    ultimately show ?thesis
      using that
      by (auto simp: decode_value.simps(2) [of k] Let_def numeral_eq_Suc split: if_splits prod.splits sum.splits)
  qed
  have inner: "i \<le> j" if "decode_object_inner (Suc k) data i is_ecma m = Some (j, r)" for i is_ecma m j r
  proof -
    have "i \<le> j'" if "decode_value k data (i + 2 + n) = Some (j', r')" for n j' r'
      using Suc that by fastforce
    moreover have "j' \<le> j" if "decode_object_inner k data j' is_ecma m' = Some (j, r)" for j' m'
      using Suc that by blast
    ultimately show ?thesis
      using that
      by (fastforce simp: decode_object_inner.simps(2) [of k] Let_def split: if_splits option.splits sum.splits)
  qed
  show ?case using whole inner by blast
qed

lemmas decode_progress = decode_progress_all [THEN conjunct1, rule_format]

lemma decode_enough_all:
  "(\<forall>i. length data - i < k \<longrightarrow> decode_value k data i \<noteq> None) \<and>
   (\<forall>i is_ecma m. length data - i < k \<longrightarrow> decode_object_inner k data i is_ecma m \<noteq> None)"
proof (induction k)
  case 0
  then show ?case by simp
next
  case (Suc k)
  have whole: "decode_value (Suc k) data i \<noteq> None" if "length data - i < Suc k" for i
  proof (cases "i < length data")
    case False
    then show ?thesis by (simp add: decode_value.simps(2))
  next
    case True
    then have "decode_object_inner k data (Suc i) False [] \<noteq> None"
      "decode_object_inner k data (Suc i + 4) True [] \<noteq> None"
      using Suc that by force+
    then show ?thesis
      by (auto simp: decode_value.simps(2) [of k] Let_def split: prod.splits sum.splits)
  qed
  have inner: "decode_object_inner (Suc k) data i is_ecma m \<noteq> None" if "length data - i < Suc k" for i is_ecma m
  proof (cases "i + 2 > length data")
    case True
    then show ?thesis by (auto simp: decode_object_inner.simps(2) at_object_end_def)
  next
    case False
    then have "length data - (i + 2 + n) < k" for n using that by linarith
    then have "decode_value k data (i + 2 + n) \<noteq> None" for n using Suc by blast
    note this [of "be16 (data ! i) (data ! (i + 1))"]
    moreover have "decode_object_inner k data j is_ecma m' \<noteq> None"
      if "decode_value k data (i + 2 + n) = Some (j, r)" for n j r m'
    proof -
      have "i + 2 \<le> j" using decode_progress [OF that] by simp
      with False \<open>length data - i < Suc k\<close> have "length data - j < k" by linarith
      then show ?thesis using Suc by blast
    qed
    ultimately show ?thesis using False
      by (auto simp: decode_object_inner.simps(2) [of k] Let_def split: option.splits sum.splits)
  qed
  show ?case using whole inner by blast
qed

text \<open>Decoding with one unit of fuel more than the input has bytes.\<close>

definition decode_one :: "bytes \<Rightarrow> nat \<Rightarrow> nat \<times> (amf_error + amf0_value)" where
  "decode_one data i = the (decode_value (Suc (length data)) data i)"

lemma decode_value_enough: "\<exists>j r. decode_value (Suc (length data)) data i = Some (j, r)"
  using decode_enough_all [of data "Suc (length data)"] by (metis (no_types) less_Suc_eq_le diff_le_self
      not_None_eq surj_pair)

lemma decode_one_progress:
  assumes "decode_one data i = (j, r)"
  shows "i \<le> j \<and> (i < length data \<longrightarrow> i < j)"
  using decode_value_enough [of data i] assms by (auto simp: decode_one_def dest: decode_progress)

section \<open>The entry points\<close>

function decode_from :: "bytes \<Rightarrow> nat \<Rightarrow> amf0_value list \<Rightarrow> amf_error + (amf0_value list \<times> nat)" where
  "decode_from data i vs =
     (if i < length data then
        if at_object_end data i then Inr (vs, i + 3)
        else case decode_one data i of
            (j, Inr v) \<Rightarrow> decode_from data j (vs @ [v])
          | (j, Inl e) \<Rightarrow> if vs = [] then Inl e else Inr (vs, j)
      else Inr (vs, i))"
  by pat_completeness auto
termination
proof (relation "measure (\<lambda>(data, i, vs). length data - i)", goal_cases)
  case 2
  then show ?case using decode_one_progress [OF sym] by fastforce
qed simp

declare decode_from.simps [simp del]

definition decode :: "bytes \<Rightarrow> amf_error + (amf0_value list \<times> nat)" where
  "decode data = decode_from data 0 []"

definition parse_command :: "bytes \<Rightarrow> amf_error + (bytes \<times> amf0_value list)" where
  "parse_command payload =
     (case decode payload of
        Inl e \<Rightarrow> Inl e
      | Inr (values, _) \<Rightarrow>
          (case values of
             [] \<Rightarrow> Inl EmptyPayload
           | AString s # rest \<Rightarrow> Inr (s, rest)
           | _ \<Rightarrow> Inl NotACommand))"

section \<open>Decoding undoes encoding\<close>

text \<open>Values a Rust program can hold and the 16-bit lengths can carry.\<close>

fun amf_ok :: "amf0_value \<Rightarrow> bool" where
  "amf_ok (AString s) = (length s < 65536 \<and> utf8_valid s)"
| "amf_ok (Object m) = (distinct (map fst m) \<and>
     (\<forall>(key, v)\<in>set m. key \<noteq> [] \<and> length key < 65536 \<and> utf8_valid key \<and> amf_ok v))"
| "amf_ok (EcmaArray m) = (distinct (map fst m) \<and>
     (\<forall>(key, v)\<in>set m. key \<noteq> [] \<and> length key < 65536 \<and> utf8_valid key \<and> amf_ok v))"
| "amf_ok _ = True"

text \<open>What comes back: \<open>Undefined\<close> is read as \<open>Null\<close>.\<close>

fun canon :: "amf0_value \<Rightarrow> amf0_value" where
  "canon (Object m) = Object (map (\<lambda>(key, v). (key, canon v)) m)"
| "canon (EcmaArray m) = EcmaArray (map (\<lambda>(key, v). (key, canon v)) m)"
| "canon Undefined = ANull"
| "canon v = v"

lemma length_be64_bytes [simp]: "length (be64_bytes w) = 8"
  by (simp add: be64_bytes_def)

lemma byte_step:
  fixes w :: "64 word"
  shows "push_bit 8 (drop_bit (k + 8) w) OR ucast (ucast (drop_bit k w) :: byte) = drop_bit k w"
proof -
  have slice: "k + (8 + (n - 8)) = k + (if 8 \<le> n then n else 8)" for n :: nat
    by simp
  show ?thesis
    by (rule bit_word_eqI) (auto simp: bit_simps slice add.assoc not_le dest: bit_imp_le_length)
qed

lemma be64_bytes_inverse: "be64 (be64_bytes w) = w"
proof -
  have "drop_bit 64 w = 0" by (rule bit_word_eqI) (auto simp: bit_simps dest: bit_imp_le_length)
  with byte_step [of 56 w] byte_step [of 48 w] byte_step [of 40 w] byte_step [of 32 w]
    byte_step [of 24 w] byte_step [of 16 w] byte_step [of 8 w] byte_step [of 0 w]
  show ?thesis by (simp add: be64_def be64_bytes_def)
qed

lemma nth_be16_bytes: "be16_bytes n ! 0 = word_of_nat (n div 256)" "be16_bytes n ! Suc 0 = word_of_nat n"
  by (simp_all add: be16_bytes_def)

lemma be16_read:
  assumes "n < 65536"
  shows "be16 ((pre @ be16_bytes n @ xs) ! length pre) ((pre @ be16_bytes n @ xs) ! Suc (length pre)) = n"
  using be16_bytes_inverse [OF assms] by (simp add: nth_append be16_bytes_def)

lemma decode_string_encoded:
  assumes "length s < 65536" and "utf8_valid s"
  shows "decode_string (pre @ be16_bytes (length s) @ s @ post) (length pre) =
     (length pre + 2 + length s, Inr s)"
  using be16_read [OF assms(1), of pre "s @ post"] assms(2)
  by (simp add: decode_string_def Let_def utf8_lossy_valid)

lemma update_fresh: "k \<notin> fst ` set m \<Longrightarrow> AList.update k v m = m @ [(k, v)]"
  by (induction m) auto

abbreviation prop_bytes :: "(bytes \<times> amf0_value) list \<Rightarrow> bytes" where
  "prop_bytes m \<equiv> concat (map (\<lambda>(key, v). be16_bytes (length key) @ key @ encode_value v) m)"

lemma decode_props_encoded:
  assumes "\<forall>(key, v)\<in>set m. key \<noteq> [] \<and> length key < 65536 \<and> utf8_valid key"
    and "distinct (map fst m)" and "fst ` set m \<inter> fst ` set acc = {}"
    and "\<And>key v pre post k. (key, v) \<in> set m \<Longrightarrow> length (encode_value v) < k \<Longrightarrow>
      decode_value k (pre @ encode_value v @ post) (length pre) =
        Some (length pre + length (encode_value v), Inr (canon v))"
    and "length (prop_bytes m) + 3 \<le> k"
  shows "decode_object_inner k (pre @ prop_bytes m @ [0x00, 0x00, 0x09] @ post) (length pre) is_ecma acc =
     Some (length pre + length (prop_bytes m) + 3,
           Inr (finish_object is_ecma (acc @ map (\<lambda>(key, v). (key, canon v)) m)))"
  using assms
proof (induction m arbitrary: k pre acc)
  case Nil
  then obtain k' where "k = Suc k'" by (cases k) auto
  then show ?case
    by (simp add: decode_object_inner.simps(2) at_object_end_def nth_append numeral_2_eq_2)
next
  case (Cons q m)
  obtain key v where q: "q = (key, v)" by fastforce
  from Cons.prems(5) q obtain k' where k: "k = Suc k'" by (cases k) auto
  from Cons.prems(1) q have key: "key \<noteq> []" "length key < 65536" "utf8_valid key" by auto
  let ?tail = "prop_bytes m @ [0x00, 0x00, 0x09] @ post"
  let ?pre = "pre @ be16_bytes (length key) @ key"
  let ?data = "pre @ be16_bytes (length key) @ key @ encode_value v @ ?tail"
  have data: "pre @ prop_bytes (q # m) @ [0x00, 0x00, 0x09] @ post = ?data" using q by simp
  note len = be16_read [OF key(2), of pre "key @ encode_value v @ ?tail"]
  have no_end: "\<not> at_object_end ?data (length pre)"
  proof
    assume "at_object_end ?data (length pre)"
    then have "be16 0 0 = length key" using len by (simp add: at_object_end_def)
    then show False using key(1) by (simp add: be16_eq)
  qed
  have v: "decode_value k' (?pre @ encode_value v @ ?tail) (length ?pre) =
      Some (length ?pre + length (encode_value v), Inr (canon v))"
    using Cons.prems(5) q k by (intro Cons.prems(4)) auto
  have fresh: "key \<notin> fst ` set acc" using Cons.prems(3) q by auto
  have "decode_object_inner k' ((?pre @ encode_value v) @ prop_bytes m @ [0x00, 0x00, 0x09] @ post)
      (length (?pre @ encode_value v)) is_ecma (acc @ [(key, canon v)]) =
    Some (length (?pre @ encode_value v) + length (prop_bytes m) + 3,
      Inr (finish_object is_ecma ((acc @ [(key, canon v)]) @ map (\<lambda>(key, v). (key, canon v)) m)))"
  proof (rule Cons.IH)
    show "\<forall>(key, v)\<in>set m. key \<noteq> [] \<and> length key < 65536 \<and> utf8_valid key" "distinct (map fst m)"
      using Cons.prems(1,2) by auto
    show "fst ` set m \<inter> fst ` set (acc @ [(key, canon v)]) = {}"
      using Cons.prems(2,3) q by auto
    show "decode_value k (pre @ encode_value v @ post) (length pre) =
        Some (length pre + length (encode_value v), Inr (canon v))"
      if "(key, v) \<in> set m" "length (encode_value v) < k" for key v k pre post
      using Cons.prems(4) [of key v k pre post] that by simp
    show "length (prop_bytes m) + 3 \<le> k'" using Cons.prems(5) q k by simp
  qed
  then have rest: "decode_object_inner k' ?data (length pre + 2 + length key + length (encode_value v))
      is_ecma (acc @ [(key, canon v)]) =
    Some (length pre + 2 + length key + length (encode_value v) + length (prop_bytes m) + 3,
      Inr (finish_object is_ecma (acc @ (key, canon v) # map (\<lambda>(key, v). (key, canon v)) m)))"
    by (simp add: add.assoc)
  have "take (length key) (drop (length pre + 2) ?data) = key" by simp
  with v rest len no_end key fresh show ?case
    unfolding data k by (simp add: decode_object_inner.simps(2) Let_def update_fresh utf8_lossy_valid q add.assoc)
qed

lemma decode_value_encoded:
  assumes "amf_ok v" and "length (encode_value v) < k"
  shows "decode_value k (pre @ encode_value v @ post) (length pre) =
     Some (length pre + length (encode_value v), Inr (canon v))"
  using assms
proof (induction v arbitrary: k pre post)
  case (Number w)
  then obtain k' where "k = Suc k'" by (cases k) auto
  then show ?case by (simp add: decode_value.simps(2) be64_bytes_inverse nth_append)
next
  case (Boolean b)
  then obtain k' where "k = Suc k'" by (cases k) auto
  then show ?case by (simp add: decode_value.simps(2) nth_append)
next
  case (AString s)
  then obtain k' where "k = Suc k'" by (cases k) auto
  with AString decode_string_encoded [of s "pre @ [0x02]" post] show ?case
    by (simp add: decode_value.simps(2) nth_append)
next
  case (Object m)
  then obtain k' where k: "k = Suc k'" by (cases k) auto
  have "decode_object_inner k' ((pre @ [0x03]) @ prop_bytes m @ [0x00, 0x00, 0x09] @ post)
      (length (pre @ [0x03])) False [] =
    Some (length (pre @ [0x03]) + length (prop_bytes m) + 3,
      Inr (finish_object False ([] @ map (\<lambda>(key, v). (key, canon v)) m)))"
    using Object k by (intro decode_props_encoded Object.IH) (auto simp: snds.simps)
  with k show ?case by (simp add: decode_value.simps(2) nth_append finish_object_def)
next
  case ANull
  then obtain k' where "k = Suc k'" by (cases k) auto
  then show ?case by (simp add: decode_value.simps(2) nth_append)
next
  case Undefined
  then obtain k' where "k = Suc k'" by (cases k) auto
  then show ?case by (simp add: decode_value.simps(2) nth_append)
next
  case (EcmaArray m)
  then obtain k' where k: "k = Suc k'" by (cases k) auto
  let ?pre = "pre @ 0x08 # be32_bytes (word_of_nat (length m))"
  have "decode_object_inner k' (?pre @ prop_bytes m @ [0x00, 0x00, 0x09] @ post)
      (length ?pre) True [] =
    Some (length ?pre + length (prop_bytes m) + 3,
      Inr (finish_object True ([] @ map (\<lambda>(key, v). (key, canon v)) m)))"
    using EcmaArray k by (intro decode_props_encoded EcmaArray.IH) (auto simp: snds.simps)
  with k show ?case by (simp add: decode_value.simps(2) nth_append finish_object_def)
    (simp add: add.commute add.left_commute)
qed

lemma decode_one_encoded:
  assumes "amf_ok v"
  shows "decode_one (pre @ encode_value v @ post) (length pre) =
     (length pre + length (encode_value v), Inr (canon v))"
  using decode_value_encoded [OF assms, of "Suc (length (pre @ encode_value v @ post))" pre post]
  by (simp add: decode_one_def)

lemma value_not_object_end:
  assumes "\<forall>n. v = Number n \<longrightarrow> take 2 (be64_bytes n) \<noteq> [0x00, 0x09]"
  shows "\<not> at_object_end (pre @ encode_value v @ post) (length pre)"
proof (cases "\<exists>n. v = Number n")
  case True
  then obtain n where v: "v = Number n" by blast
  with assms have "take 2 (be64_bytes n) \<noteq> [0x00, 0x09]" by simp
  moreover obtain a b xs where "be64_bytes n = a # b # xs" by (simp add: be64_bytes_def)
  ultimately show ?thesis using v by (simp add: at_object_end_def nth_append numeral_2_eq_2)
next
  case False
  then have "hd (encode_value v) \<noteq> 0" and pos: "encode_value v \<noteq> []" by (cases v; simp)+
  then show ?thesis by (cases "encode_value v") (auto simp: at_object_end_def nth_append)
qed

lemma decode_from_encoded:
  assumes "\<forall>v\<in>set vs. amf_ok v \<and> (\<forall>n. v = Number n \<longrightarrow> take 2 (be64_bytes n) \<noteq> [0x00, 0x09])"
  shows "decode_from (pre @ encode vs) (length pre) acc = Inr (acc @ map canon vs, length (pre @ encode vs))"
  using assms
proof (induction vs arbitrary: pre acc)
  case Nil
  then show ?case by (simp add: decode_from.simps encode_def)
next
  case (Cons v vs)
  have data: "pre @ encode (v # vs) = pre @ encode_value v @ encode vs" by (simp add: encode_def)
  have one: "decode_one (pre @ encode_value v @ encode vs) (length pre) =
      (length pre + length (encode_value v), Inr (canon v))"
    using Cons.prems by (intro decode_one_encoded) simp
  have pos: "encode_value v \<noteq> []" by (cases v) simp_all
  have no_end: "\<not> at_object_end (pre @ encode_value v @ encode vs) (length pre)"
    using Cons.prems by (intro value_not_object_end) simp
  have "decode_from ((pre @ encode_value v) @ encode vs) (length (pre @ encode_value v)) (acc @ [canon v]) =
      Inr ((acc @ [canon v]) @ map canon vs, length ((pre @ encode_value v) @ encode vs))"
    using Cons.prems by (intro Cons.IH) simp
  with one no_end pos show ?case
    unfolding data by (subst decode_from.simps) simp
qed

section \<open>Properties\<close>


lemma utf8_valid_ascii: "\<forall>b\<in>set bs. unat b < 128 \<Longrightarrow> utf8_valid bs"
proof (induction bs)
  case Nil
  then show ?case by (simp add: utf8_valid.simps)
next
  case (Cons b bs)
  then have "utf8_piece (b # bs) = (1, True)" by (simp add: utf8_piece_def byte_at_def)
  with Cons show ?case by (simp add: utf8_valid.simps [of "b # bs"])
qed


text \<open>
  Decoding always ends, whatever the input, within the fuel of one unit more than its bytes: each
  value either fails or moves the offset forward, also inside nested objects.
\<close>

theorem decode_value_total:
  "\<exists>j r. decode_value (Suc (length data)) data i = Some (j, r) \<and> i \<le> j \<and> (i < length data \<longrightarrow> i < j)"
  using decode_value_enough [of data i] decode_progress [of "Suc (length data)" data i] by blast

theorem decode_value_total_witness:
  "\<exists>j r. decode_value 5 [0x03, 0x00, 0x01, 0x61] 0 = Some (j, r) \<and> 0 < j"
  using decode_value_total [of "[0x03, 0x00, 0x01, 0x61]" 0] by (simp add: eval_nat_numeral)

text \<open>
  A number at the top level can end the message: when the \<open>f64\<close> pattern of a value starts with
  the bytes 00 09, its marker and these two bytes read as an object end, and the number and
  everything after it are lost.
\<close>

theorem number_read_as_object_end:
  assumes "take 2 (be64_bytes n) = [0x00, 0x09]"
    and "\<forall>v\<in>set vs. amf_ok v \<and> (\<forall>n. v = Number n \<longrightarrow> take 2 (be64_bytes n) \<noteq> [0x00, 0x09])"
  shows "decode (encode (vs @ Number n # ws)) = Inr (map canon vs, length (encode vs) + 3)"
proof -
  obtain xs where be: "be64_bytes n = [0x00, 0x09] @ xs"
    using assms(1) by (metis append_take_drop_id)
  have run: "decode_from (pre @ encode us @ [0x00, 0x00, 0x09] @ ys) (length pre) acc =
      Inr (acc @ map canon us, length (pre @ encode us) + 3)"
    if "\<forall>v\<in>set us. amf_ok v \<and> (\<forall>n. v = Number n \<longrightarrow> take 2 (be64_bytes n) \<noteq> [0x00, 0x09])"
    for us pre acc ys
    using that
  proof (induction us arbitrary: pre acc)
    case Nil
    then show ?case
      by (subst decode_from.simps) (simp add: at_object_end_def nth_append encode_def numeral_2_eq_2)
  next
    case (Cons v us)
    let ?post = "encode us @ [0x00, 0x00, 0x09] @ ys"
    have data: "pre @ encode (v # us) @ [0x00, 0x00, 0x09] @ ys = pre @ encode_value v @ ?post"
      by (simp add: encode_def)
    have one: "decode_one (pre @ encode_value v @ ?post) (length pre) =
        (length pre + length (encode_value v), Inr (canon v))"
      using Cons.prems by (intro decode_one_encoded) simp
    have pos: "encode_value v \<noteq> []" by (cases v) simp_all
    have no_end: "\<not> at_object_end (pre @ encode_value v @ ?post) (length pre)"
      using Cons.prems by (intro value_not_object_end) simp
    have "decode_from ((pre @ encode_value v) @ ?post) (length (pre @ encode_value v)) (acc @ [canon v]) =
        Inr ((acc @ [canon v]) @ map canon us, length ((pre @ encode_value v) @ encode us) + 3)"
      using Cons.prems by (intro Cons.IH) simp
    with one no_end pos show ?case
      unfolding data by (subst decode_from.simps) (simp add: encode_def)
  qed
  from run [OF assms(2), of "[]" "drop 3 (encode_value (Number n)) @ encode ws" "[]"] be show ?thesis
    by (simp add: decode_def encode_def)
qed

theorem number_read_as_object_end_witness:
  "decode (encode [AString [0x61], Number 0x0009000000000000, AString [0x62]]) = Inr ([AString [0x61]], 7)"
proof -
  have "take 2 (be64_bytes 0x0009000000000000) = [0x00, 0x09]"
    by (simp add: be64_bytes_def drop_bit_eq_div)
  from number_read_as_object_end [OF this, of "[AString [0x61]]" "[AString [0x62]]"] show ?thesis
    by (simp add: utf8_valid_ascii encode_def)
qed

end
