(* ===== verification/Text_Lines.thy ===== *)
theory Text_Lines
  imports Prelude "HOL-Library.Sublist"
begin

text \<open>
  What the program uses of \<open>str\<close>: lines, parts, words, trimming, searching and case. Text is ASCII,
  one character per byte, so that white space and case are those of ASCII.
\<close>

definition crlf :: string where
  "crlf = [CHR 0x0D, CHR 0x0A]"

section \<open>Parts\<close>

text \<open>\<open>str::split\<close> at the characters that satisfy a predicate; there is always a last part.\<close>

fun split_by :: "(char \<Rightarrow> bool) \<Rightarrow> string \<Rightarrow> string list" where
  "split_by P [] = [[]]"
| "split_by P (x # xs) =
     (if P x then [] # split_by P xs
      else (case split_by P xs of [] \<Rightarrow> [[x]] | p # ps \<Rightarrow> (x # p) # ps))"

abbreviation split_char :: "char \<Rightarrow> string \<Rightarrow> string list" where
  "split_char c \<equiv> split_by (\<lambda>x. x = c)"

lemma split_by_not_Nil [simp]: "split_by P s \<noteq> []"
  by (induction s) (auto split: list.splits)

lemma split_by_none: "list_all (\<lambda>x. \<not> P x) a \<Longrightarrow> split_by P a = [a]"
  by (induction a) auto

lemma split_by_at: "list_all (\<lambda>x. \<not> P x) a \<Longrightarrow> P c \<Longrightarrow> split_by P (a @ c # b) = a # split_by P b"
  by (induction a) auto

text \<open>\<open>str::split_once\<close> at a character\<close>

definition split_once :: "char \<Rightarrow> string \<Rightarrow> (string \<times> string) option" where
  "split_once c s =
     (if c \<in> set s then Some (takeWhile (\<lambda>x. x \<noteq> c) s, tl (dropWhile (\<lambda>x. x \<noteq> c) s)) else None)"

lemma split_once_at: "c \<notin> set a \<Longrightarrow> split_once c (a @ c # b) = Some (a, b)"
  by (simp add: split_once_def takeWhile_append dropWhile_append)

text \<open>\<open>parts.join(sep)\<close>\<close>

fun join_with :: "string \<Rightarrow> string list \<Rightarrow> string" where
  "join_with sep [] = []"
| "join_with sep [p] = p"
| "join_with sep (p # q # ps) = p @ sep @ join_with sep (q # ps)"

lemma split_join:
  assumes "ps \<noteq> []" and "\<forall>p\<in>set ps. c \<notin> set p"
  shows "split_char c (join_with [c] ps) = ps"
  using assms
proof (induction "[c]" ps rule: join_with.induct)
  case (2 p)
  then have "list_all (\<lambda>x. \<not> x = c) p" by (auto simp: list_all_iff)
  from split_by_none [OF this] show ?case by simp
next
  case (3 p q ps)
  have "list_all (\<lambda>x. \<not> x = c) p" using "3.prems" by (auto simp: list_all_iff)
  from split_by_at [OF this refl] 3 show ?case by simp
qed simp

section \<open>Lines\<close>

text \<open>\<open>str::lines\<close>: every line but an unterminated last one loses its carriage return.\<close>

definition strip_cr :: "string \<Rightarrow> string" where
  "strip_cr l = (if l \<noteq> [] \<and> last l = CHR 0x0D then butlast l else l)"

definition text_lines :: "string \<Rightarrow> string list" where
  "text_lines s =
     (let ps = split_char (CHR 0x0A) s
      in List.map strip_cr (butlast ps) @ (if last ps = [] then [] else [last ps]))"

lemma strip_cr_crlf [simp]: "strip_cr (l @ [CHR 0x0D]) = l"
  by (simp add: strip_cr_def)

lemma text_lines_Nil [simp]: "text_lines [] = []"
  by (simp add: text_lines_def)

lemma text_lines_crlf:
  assumes "CHR 0x0A \<notin> set l"
  shows "text_lines (l @ crlf @ rest) = l # text_lines rest"
proof -
  have "list_all (\<lambda>x. \<not> x = CHR 0x0A) (l @ [CHR 0x0D])" using assms by (auto simp: list_all_iff)
  from split_by_at [OF this refl, of rest] show ?thesis by (simp add: text_lines_def Let_def crlf_def)
qed

text \<open>Text written line by line.\<close>

definition unlines_crlf :: "string list \<Rightarrow> string" where
  "unlines_crlf ls = concat (List.map (\<lambda>l. l @ crlf) ls)"

lemma text_lines_unlines_append:
  assumes "\<forall>l\<in>set ls. CHR 0x0A \<notin> set l"
  shows "text_lines (unlines_crlf ls @ rest) = ls @ text_lines rest"
  using assms by (induction ls) (simp_all add: unlines_crlf_def text_lines_crlf)

lemma text_lines_unlines:
  assumes "\<forall>l\<in>set ls. CHR 0x0A \<notin> set l"
  shows "text_lines (unlines_crlf ls) = ls"
  using text_lines_unlines_append [OF assms, of "[]"] by simp

section \<open>Words\<close>

definition is_space :: "char \<Rightarrow> bool" where
  "is_space c \<longleftrightarrow> c = CHR 0x20 \<or> (9 \<le> (of_char c :: nat) \<and> (of_char c :: nat) \<le> 13)"

definition split_whitespace :: "string \<Rightarrow> string list" where
  "split_whitespace s = filter (\<lambda>p. p \<noteq> []) (split_by is_space s)"

definition trim_start :: "string \<Rightarrow> string" where
  "trim_start s = dropWhile is_space s"

definition trim_end :: "string \<Rightarrow> string" where
  "trim_end s = rev (dropWhile is_space (rev s))"

definition trim :: "string \<Rightarrow> string" where
  "trim s = trim_end (trim_start s)"

text \<open>\<open>trim_end_matches\<close> of a character\<close>

definition trim_end_char :: "char \<Rightarrow> string \<Rightarrow> string" where
  "trim_end_char c s = rev (dropWhile (\<lambda>x. x = c) (rev s))"

text \<open>A word: not empty, no white space.\<close>

definition is_word :: "string \<Rightarrow> bool" where
  "is_word w \<longleftrightarrow> w \<noteq> [] \<and> list_all (\<lambda>c. \<not> is_space c) w"

text \<open>Text that trimming leaves alone.\<close>

definition trimmed :: "string \<Rightarrow> bool" where
  "trimmed s \<longleftrightarrow> s = [] \<or> (\<not> is_space (hd s) \<and> \<not> is_space (last s))"

lemma trim_trimmed: "trimmed s \<Longrightarrow> trim s = s"
proof (cases "s = []")
  case False
  assume "trimmed s"
  with False have h: "\<not> is_space (hd s)" "\<not> is_space (last s)" by (simp_all add: trimmed_def)
  have "dropWhile is_space s = s" using False h(1) by (cases s) simp_all
  moreover have "dropWhile is_space (rev s) = rev s" using False h(2) by (cases s rule: rev_cases) simp_all
  ultimately show ?thesis by (simp add: trim_def trim_start_def trim_end_def)
qed (simp add: trim_def trim_start_def trim_end_def)

lemma trim_space: "trim (CHR 0x20 # s) = trim s"
  by (simp add: trim_def trim_start_def is_space_def)

lemma trimmed_word: "is_word w \<Longrightarrow> trimmed w"
  by (auto simp: is_word_def trimmed_def list_all_iff)

lemma split_words:
  assumes "\<forall>w\<in>set ws. is_word w"
  shows "split_whitespace (join_with [CHR 0x20] ws) = ws"
proof -
  have sp: "is_space (CHR 0x20)" by (simp add: is_space_def)
  show ?thesis
    using assms
  proof (induction "[CHR 0x20]" ws rule: join_with.induct)
    case 1
    then show ?case by (simp add: split_whitespace_def)
  next
    case (2 w)
    then show ?case by (simp add: split_whitespace_def is_word_def split_by_none)
  next
    case (3 w v ws)
    then have w: "list_all (\<lambda>x. \<not> is_space x) w" "w \<noteq> []" by (simp_all add: is_word_def)
    have "split_whitespace (join_with [CHR 0x20] (v # ws)) = v # ws" using 3 by simp
    then show ?case using split_by_at [OF w(1) sp] w(2) by (simp add: split_whitespace_def)
  qed
qed

section \<open>Searching\<close>

text \<open>\<open>str::find\<close> of a text\<close>

fun find_str :: "string \<Rightarrow> string \<Rightarrow> nat option" where
  "find_str p [] = (if p = [] then Some 0 else None)"
| "find_str p (x # xs) = (if prefix p (x # xs) then Some 0 else map_option Suc (find_str p xs))"

definition contains_str :: "string \<Rightarrow> string \<Rightarrow> bool" where
  "contains_str p s \<longleftrightarrow> find_str p s \<noteq> None"

lemma find_str_Some:
  "find_str p s = Some i \<Longrightarrow> \<exists>a b. s = a @ p @ b \<and> length a = i"
proof (induction s arbitrary: i)
  case Nil
  then show ?case by (simp split: if_splits)
next
  case (Cons x xs)
  show ?case
  proof (cases "prefix p (x # xs)")
    case True
    with Cons.prems show ?thesis by (auto simp: prefix_def)
  next
    case False
    with Cons.prems obtain j where j: "find_str p xs = Some j" "i = Suc j" by auto
    from Cons.IH [OF j(1)] obtain a b where "xs = a @ p @ b" "length a = j" by blast
    with j(2) show ?thesis by (intro exI [of _ "x # a"] exI [of _ b]) simp
  qed
qed

lemma find_str_None: "find_str p s = None \<longleftrightarrow> (\<forall>a b. s \<noteq> a @ p @ b)"
proof (induction s)
  case (Cons x xs)
  show ?case
  proof (cases "prefix p (x # xs)")
    case True
    then obtain b where "x # xs = [] @ p @ b" by (auto simp: prefix_def)
    then have "\<not> (\<forall>a b. x # xs \<noteq> a @ p @ b)" by blast
    moreover have "find_str p (x # xs) \<noteq> None" using True by simp
    ultimately show ?thesis by blast
  next
    case False
    have "(\<forall>a b. x # xs \<noteq> a @ p @ b) \<longleftrightarrow> (\<forall>a b. xs \<noteq> a @ p @ b)"
      using False by (auto simp: prefix_def append_eq_Cons_conv Cons_eq_append_conv)
    with Cons False show ?thesis by simp
  qed
qed auto

lemma contains_str_iff: "contains_str p s \<longleftrightarrow> (\<exists>a b. s = a @ p @ b)"
  using find_str_None [of p s] by (auto simp: contains_str_def)

text \<open>\<open>str::strip_prefix\<close>\<close>

definition strip_prefix :: "string \<Rightarrow> string \<Rightarrow> string option" where
  "strip_prefix p s = (if prefix p s then Some (drop (length p) s) else None)"

lemma strip_prefix_append [simp]: "strip_prefix p (p @ s) = Some s"
  by (simp add: strip_prefix_def)

section \<open>Case\<close>

definition lower_char :: "char \<Rightarrow> char" where
  "lower_char c = (let n = of_char c :: nat in if 65 \<le> n \<and> n \<le> 90 then char_of (n + 32) else c)"

definition upper_char :: "char \<Rightarrow> char" where
  "upper_char c = (let n = of_char c :: nat in if 97 \<le> n \<and> n \<le> 122 then char_of (n - 32) else c)"

abbreviation to_lowercase :: "string \<Rightarrow> string" where
  "to_lowercase \<equiv> List.map lower_char"

abbreviation to_uppercase :: "string \<Rightarrow> string" where
  "to_uppercase \<equiv> List.map upper_char"

definition eq_ignore_ascii_case :: "string \<Rightarrow> string \<Rightarrow> bool" where
  "eq_ignore_ascii_case a b \<longleftrightarrow> to_lowercase a = to_lowercase b"

end
