(* ===== verification/H264_Util.thy ===== *)
theory H264_Util
  imports Media Text_Lines
begin

text \<open>
  The Annex B helpers of \<open>src/src/server/webrtc/h264_util.rs\<close> and \<open>annex_b_with_config\<close> of
  \<open>outbound_h264.rs\<close>: splitting a buffer at 4-byte start codes, classifying its NAL units,
  collecting SPS and PPS, and the comparison of 32-bit RTP timestamps that wrap around.
  Index loops stay index loops; reads are guarded as in the code, so none is out of range.
\<close>

section \<open>RTP timestamps on the 32-bit circle\<close>

text \<open>\<open>x as u32\<close> of a \<open>u64\<close> keeps the low 32 bits.\<close>

definition as_u32 :: "nat \<Rightarrow> 32 word" where
  "as_u32 n = word_of_nat n"

definition is_rtp_timestamp_after :: "nat \<Rightarrow> nat \<Rightarrow> bool" where
  "is_rtp_timestamp_after cur prev =
     (if cur = prev then False else as_u32 cur - as_u32 prev < 0x80000000)"

definition is_rtp_timestamp_before :: "nat \<Rightarrow> nat \<Rightarrow> bool" where
  "is_rtp_timestamp_before cur prev =
     (if cur = prev then False else \<not> is_rtp_timestamp_after cur prev)"

definition is_rtp_stale_in_gop :: "nat \<Rightarrow> nat \<Rightarrow> bool" where
  "is_rtp_stale_in_gop cur prev =
     (if \<not> is_rtp_timestamp_before cur prev then False
      else let backward = as_u32 prev - as_u32 cur in backward > 0 \<and> backward < 90000)"

definition is_rtp_timeline_reset :: "nat \<Rightarrow> nat \<Rightarrow> bool" where
  "is_rtp_timeline_reset cur prev =
     (if \<not> is_rtp_timestamp_before cur prev then False
      else let backward = as_u32 prev - as_u32 cur in backward \<ge> 90000)"

section \<open>Splitting Annex B\<close>

definition start_code :: bytes where
  "start_code = [0, 0, 0, 1]"

definition ensure_annex_b :: "bytes \<Rightarrow> bytes" where
  "ensure_annex_b data =
     (if data = [] then []
      else if prefix [0, 0, 0, 1] data \<or> prefix [0, 0, 1] data then data
      else [0, 0, 0, 1] @ data)"

text \<open>The inner loop: the next 4-byte start code at or after \<open>j\<close>, else the end of the data.\<close>

function nal_end :: "bytes \<Rightarrow> nat \<Rightarrow> nat" where
  "nal_end data j =
     (if j + 4 \<le> length data then
        if take 4 (drop j data) = [0, 0, 0, 1] then j else nal_end data (j + 1)
      else length data)"
  by pat_completeness auto
termination
  by (relation "measure (\<lambda>(data, j). length data - j)") auto

declare nal_end.simps [simp del]

lemma nal_end_bounds: "j \<le> length data \<Longrightarrow> j \<le> nal_end data j \<and> nal_end data j \<le> length data"
proof (induction data j rule: nal_end.induct)
  case (1 data j)
  show ?case
  proof (cases "j + 4 \<le> length data \<and> take 4 (drop j data) \<noteq> [0, 0, 0, 1]")
    case True
    with 1 have "j + 1 \<le> nal_end data (j + 1) \<and> nal_end data (j + 1) \<le> length data" by simp
    with True show ?thesis by (simp add: nal_end.simps [of data j])
  next
    case False
    with 1 show ?thesis by (auto simp: nal_end.simps [of data j])
  qed
qed

function nal_ranges_from :: "bytes \<Rightarrow> nat \<Rightarrow> (nat \<times> nat) list" where
  "nal_ranges_from data i =
     (if i + 4 \<le> length data then
        if take 4 (drop i data) \<noteq> [0, 0, 0, 1] then nal_ranges_from data (i + 1)
        else
          let start = i + 4;
              end = nal_end data start
          in (if start < end then [(start, end)] else []) @
             nal_ranges_from data (if end < length data then end else length data)
      else [])"
  by pat_completeness auto
termination
proof (relation "measure (\<lambda>(data, i). length data - i)", goal_cases)
  case (3 data i s e)
  then show ?case using nal_end_bounds [of "i + 4" data] by auto
qed auto

declare nal_ranges_from.simps [simp del]

definition iter_annex_b_nal_ranges :: "bytes \<Rightarrow> (nat \<times> nat) list" where
  "iter_annex_b_nal_ranges data =
     (let ranges = nal_ranges_from data 0
      in if ranges = [] \<and> data \<noteq> [] then
           let start = (if prefix [0, 0, 0, 1] data then 4
                        else if prefix [0, 0, 1] data then 3 else 0)
           in if start < length data then [(start, length data)] else []
         else ranges)"

definition first_nalu_header_offset :: "bytes \<Rightarrow> nat option" where
  "first_nalu_header_offset data =
     (if prefix [0, 0, 0, 1] data then Some 4
      else if prefix [0, 0, 1] data then Some 3
      else if data \<noteq> [] then Some 0
      else None)"

definition nalu_type :: "bytes \<Rightarrow> nat \<Rightarrow> byte option" where
  "nalu_type data header_idx =
     (if header_idx < length data then Some ((data ! header_idx) AND 0x1F) else None)"

definition first_nalu_type :: "bytes \<Rightarrow> byte option" where
  "first_nalu_type data = Option.bind (first_nalu_header_offset data) (nalu_type data)"

definition contains_nalu_type :: "bytes \<Rightarrow> byte \<Rightarrow> bool" where
  "contains_nalu_type data target =
     list_ex (\<lambda>(start, end). nalu_type data start = Some target) (iter_annex_b_nal_ranges data)"

definition contains_idr_nalu :: "bytes \<Rightarrow> bool" where
  "contains_idr_nalu data = contains_nalu_type data 5"

definition contains_vcl_nalu :: "bytes \<Rightarrow> bool" where
  "contains_vcl_nalu data =
     list_ex (\<lambda>(start, end). nalu_type data start = Some 1 \<or> nalu_type data start = Some 5)
       (iter_annex_b_nal_ranges data)"

definition contains_sps_or_pps_nalu :: "bytes \<Rightarrow> bool" where
  "contains_sps_or_pps_nalu data = (contains_nalu_type data 7 \<or> contains_nalu_type data 8)"

definition is_parameter_set_only :: "bytes \<Rightarrow> bool" where
  "is_parameter_set_only data =
     (let ranges = iter_annex_b_nal_ranges data
      in if ranges = [] then False
         else list_all (\<lambda>(start, end). nalu_type data start \<in> {Some 7, Some 8, Some 9}) ranges)"

definition is_keyframe_annex_b :: "bytes \<Rightarrow> bool" where
  "is_keyframe_annex_b data = (first_nalu_type data = Some 5 \<or> contains_idr_nalu data)"

definition nal_slice :: "bytes \<Rightarrow> nat \<times> nat \<Rightarrow> bytes" where
  "nal_slice data rng = take (snd rng - fst rng) (drop (fst rng) data)"

text \<open>One step of the loop of \<open>extract_sps_pps\<close>: a later SPS or PPS replaces an earlier one.\<close>

definition collect_sps_pps ::
    "bytes \<Rightarrow> bytes option \<times> bytes option \<Rightarrow> nat \<times> nat \<Rightarrow> bytes option \<times> bytes option" where
  "collect_sps_pps data acc rng =
     (if nalu_type data (fst rng) = Some 7 then (Some (nal_slice data rng), snd acc)
      else if nalu_type data (fst rng) = Some 8 then (fst acc, Some (nal_slice data rng))
      else acc)"

definition extract_sps_pps :: "bytes \<Rightarrow> bytes option \<times> bytes option" where
  "extract_sps_pps data =
     foldl (collect_sps_pps data) (None, None) (iter_annex_b_nal_ranges data)"

definition looks_like_h265_misread_as_h264 :: "bytes \<Rightarrow> bool" where
  "looks_like_h265_misread_as_h264 data =
     (case first_nalu_header_offset data of
        None \<Rightarrow> False
      | Some idx \<Rightarrow>
          if idx < length data then data ! idx = 0x30 \<or> data ! idx = 0x26 \<or> data ! idx = 0x28
          else False)"

definition annex_b_with_config :: "bytes \<Rightarrow> bytes \<Rightarrow> bytes \<Rightarrow> bytes" where
  "annex_b_with_config sps pps access_unit =
     (let au = ensure_annex_b access_unit
      in if contains_sps_or_pps_nalu au then au
         else [0, 0, 0, 1] @ sps @ [0, 0, 0, 1] @ pps @ au)"

section \<open>Names for logs\<close>

definition nalu_names :: "string list" where
  "nalu_names =
    [''unspec'', ''slice'', ''dpa'', ''dpb'', ''dpc'', ''idr'', ''sei'', ''sps'', ''pps'', ''aud'', ''eoseq'', ''eostr'',
     ''fill'', ''spsext'', ''prefix'', ''subset'', ''depth'', ''resv17'', ''resv18'', ''aux'', ''ext'', ''cagg'',
     ''resv22'', ''resv23'', ''unspec24'', ''unspec25'', ''unspec26'', ''unspec27'', ''unspec28'', ''unspec29'',
     ''unspec30'', ''unspec31'']"

definition nalu_type_name :: "byte \<Rightarrow> string" where
  "nalu_type_name t =
     (let idx = unat (t AND 0x1F)
      in if idx < length nalu_names then nalu_names ! idx else ''unknown'')"

definition get_or_zero :: "bytes \<Rightarrow> nat \<Rightarrow> byte" where
  "get_or_zero data i = (if i < length data then data ! i else 0)"

definition describe_nal :: "byte \<Rightarrow> byte \<Rightarrow> nat \<Rightarrow> string" where
  "describe_nal t header n =
     nalu_type_name t @ ''(0x'' @ hex2 header @ '','' @ dec_str n @ ''B)''"

definition describe_annex_b :: "bytes \<Rightarrow> string" where
  "describe_annex_b data =
     (let parts = List.map_filter
            (\<lambda>(start, end).
               map_option (\<lambda>t. describe_nal t (get_or_zero data start) (end - start))
                 (nalu_type data start))
            (iter_annex_b_nal_ranges data)
      in if parts = [] then
           (case first_nalu_type data of
              Some t \<Rightarrow>
                let idx = (case first_nalu_header_offset data of Some i \<Rightarrow> i | None \<Rightarrow> 0)
                in describe_nal t (get_or_zero data idx) (length data)
            | None \<Rightarrow> ''raw:'' @ dec_str (length data) @ ''B'')
         else join_with ''+'' parts)"

section \<open>Start codes and NAL units\<close>

text \<open>The byte stream of a list of NAL units, each behind a 4-byte start code.\<close>

definition annex_b_of :: "bytes list \<Rightarrow> bytes" where
  "annex_b_of ns = concat (map (\<lambda>n. start_code @ n) ns)"

text \<open>
  A NAL unit as the bitstream has it: not empty, and without a 4-byte start code inside
  (emulation prevention keeps \<open>00 00 00\<close> and \<open>00 00 01\<close> out of its body).
\<close>

definition nal_ok :: "bytes \<Rightarrow> bool" where
  "nal_ok n \<longleftrightarrow> n \<noteq> [] \<and> \<not> sublist start_code n"

lemma annex_b_of_simps [simp]:
  "annex_b_of [] = []" "annex_b_of (n # ns) = [0, 0, 0, 1] @ n @ annex_b_of ns"
  by (simp_all add: annex_b_of_def start_code_def)

lemma annex_b_of_append [simp]: "annex_b_of (xs @ ys) = annex_b_of xs @ annex_b_of ys"
  by (simp add: annex_b_of_def)

lemma no_code_across:
  assumes "\<not> sublist start_code n" and "t \<noteq> []" and "suffix t n"
  shows "take 4 (t @ annex_b_of ns) \<noteq> [0, 0, 0, 1]"
proof
  assume eq: "take 4 (t @ annex_b_of ns) = [0, 0, 0, 1]"
  show False
  proof (cases "4 \<le> length t")
    case True
    with eq have "prefix start_code t"
      by (simp add: start_code_def) (metis take_is_prefix)
    with assms show False
      using prefix_imp_sublist suffix_imp_sublist sublist_order.order_trans by blast
  next
    case False
    with assms(2) have "length t = 1 \<or> length t = 2 \<or> length t = 3"
      by (cases "length t") auto
    with eq show False
      by (cases ns; cases t; cases "tl t"; cases "tl (tl t)") auto
  qed
qed

lemma nal_end_annex_b:
  assumes ok: "nal_ok n" and t: "suffix t n" and data: "data = pre @ t @ annex_b_of ns"
  shows "nal_end data (length pre) = length pre + length t"
  using t data
proof (induction t arbitrary: pre)
  case Nil
  then show ?case
    by (cases ns) (auto simp: nal_end.simps)
next
  case (Cons b t)
  have suf: "suffix t n" using Cons.prems(1) by (rule suffix_ConsD)
  have "data = (pre @ [b]) @ t @ annex_b_of ns" using Cons.prems(2) by simp
  from Cons.IH [OF suf this] have IH: "nal_end data (length pre + 1) = length pre + length (b # t)" by simp
  have no: "take 4 (drop (length pre) data) \<noteq> [0, 0, 0, 1]"
    using no_code_across [of n "b # t" ns] ok Cons.prems by (simp add: nal_ok_def)
  show ?case
  proof (cases "length pre + 4 \<le> length data")
    case True
    with no IH show ?thesis by (subst nal_end.simps) simp
  next
    case False
    with Cons.prems(2) have "ns = []" by (cases ns) auto
    with False Cons.prems(2) show ?thesis by (subst nal_end.simps) simp
  qed
qed

lemma nal_ranges_annex_b:
  assumes "\<forall>n\<in>set ns. nal_ok n" and "data = pre @ annex_b_of ns"
  shows "map (nal_slice data) (nal_ranges_from data (length pre)) = ns \<and>
     (\<forall>(s, e)\<in>set (nal_ranges_from data (length pre)). length pre < s \<and> s < e \<and> e \<le> length data)"
  using assms
proof (induction ns arbitrary: pre)
  case Nil
  then show ?case by (simp add: nal_ranges_from.simps)
next
  case (Cons n ns)
  let ?s = "length pre + 4"
  have n: "nal_ok n" and data: "data = (pre @ start_code) @ n @ annex_b_of ns"
    using Cons.prems by (simp_all add: start_code_def)
  have "length (pre @ start_code) = ?s" by (simp add: start_code_def)
  with nal_end_annex_b [OF n _ data] have e: "nal_end data ?s = ?s + length n" by simp
  have data': "data = (pre @ start_code @ n) @ annex_b_of ns" using data by simp
  moreover have "length (pre @ start_code @ n) = ?s + length n" by (simp add: start_code_def)
  ultimately
  have IH: "map (nal_slice data) (nal_ranges_from data (?s + length n)) = ns"
    "\<forall>(s, e)\<in>set (nal_ranges_from data (?s + length n)). ?s + length n < s \<and> s < e \<and> e \<le> length data"
    using Cons.IH [of "pre @ start_code @ n"] Cons.prems(1) by (simp_all add: add.assoc)
  have len: "?s + length n \<le> length data" using data by (simp add: start_code_def)
  have "take 4 (drop (length pre) data) = [0, 0, 0, 1]" using Cons.prems(2) by simp
  moreover have "nal_slice data (?s, ?s + length n) = n"
    using data by (simp add: nal_slice_def start_code_def)
  moreover have "0 < length n" using n by (simp add: nal_ok_def)
  moreover have "(if ?s + length n < length data then ?s + length n else length data) = ?s + length n"
    using len by simp
  ultimately have "nal_ranges_from data (length pre) =
      (?s, ?s + length n) # nal_ranges_from data (?s + length n)"
    using len e by (subst nal_ranges_from.simps) (simp add: Let_def)
  with IH len \<open>0 < length n\<close> \<open>nal_slice data (?s, ?s + length n) = n\<close> show ?case by auto
qed

lemma iter_ranges_annex_b:
  assumes "\<forall>n\<in>set ns. nal_ok n"
  shows "map (nal_slice (annex_b_of ns)) (iter_annex_b_nal_ranges (annex_b_of ns)) = ns \<and>
     (\<forall>(s, e)\<in>set (iter_annex_b_nal_ranges (annex_b_of ns)). s < e \<and> e \<le> length (annex_b_of ns))"
proof -
  note r = nal_ranges_annex_b [OF assms, of "annex_b_of ns" "[]"]
  then have "nal_ranges_from (annex_b_of ns) 0 = [] \<longleftrightarrow> ns = []" by auto
  then have "iter_annex_b_nal_ranges (annex_b_of ns) = nal_ranges_from (annex_b_of ns) 0"
    by (auto simp: iter_annex_b_nal_ranges_def)
  with r show ?thesis by auto
qed


definition nal_kind :: "bytes \<Rightarrow> byte" where
  "nal_kind n = hd n AND 0x1F"

lemma nalu_type_slice:
  assumes "s < e" and "e \<le> length data"
  shows "nalu_type data s = Some (nal_kind (nal_slice data (s, e)))"
  using assms by (simp add: nalu_type_def nal_slice_def nal_kind_def hd_take hd_drop_conv_nth)

lemma ranges_kinds:
  assumes "\<forall>n\<in>set ns. nal_ok n"
  defines "data \<equiv> annex_b_of ns"
  shows "map (\<lambda>r. nalu_type data (fst r)) (iter_annex_b_nal_ranges data) = map (\<lambda>n. Some (nal_kind n)) ns"
proof -
  note r = iter_ranges_annex_b [OF assms(1), folded data_def]
  have "map (\<lambda>r. nalu_type data (fst r)) (iter_annex_b_nal_ranges data) =
      map (\<lambda>r. Some (nal_kind (nal_slice data r))) (iter_annex_b_nal_ranges data)"
    using r by (intro map_cong) (auto simp: nalu_type_slice)
  also have "\<dots> = map (\<lambda>n. Some (nal_kind n)) (map (nal_slice data) (iter_annex_b_nal_ranges data))"
    by simp
  finally show ?thesis using r by simp
qed

lemma list_ex_kinds:
  assumes "\<forall>n\<in>set ns. nal_ok n"
  shows "list_ex (\<lambda>r. P (nalu_type (annex_b_of ns) (fst r))) (iter_annex_b_nal_ranges (annex_b_of ns)) \<longleftrightarrow>
     (\<exists>n\<in>set ns. P (Some (nal_kind n)))"
proof -
  have "list_ex (\<lambda>r. P (nalu_type (annex_b_of ns) (fst r))) (iter_annex_b_nal_ranges (annex_b_of ns)) \<longleftrightarrow>
      list_ex P (map (\<lambda>r. nalu_type (annex_b_of ns) (fst r)) (iter_annex_b_nal_ranges (annex_b_of ns)))"
    by (simp add: list_ex_iff)
  then show ?thesis by (simp add: ranges_kinds [OF assms] list_ex_iff)
qed

lemma list_ex_split_fst: "list_ex (\<lambda>(s, e). P s) rs \<longleftrightarrow> list_ex (\<lambda>r. P (fst r)) rs"
  by (induction rs) auto

lemma list_all_split_fst: "list_all (\<lambda>(s, e). P s) rs \<longleftrightarrow> list_all (\<lambda>r. P (fst r)) rs"
  by (induction rs) auto

lemma contains_nalu_type_annex_b:
  "\<forall>n\<in>set ns. nal_ok n \<Longrightarrow> contains_nalu_type (annex_b_of ns) t \<longleftrightarrow> (\<exists>n\<in>set ns. nal_kind n = t)"
  using list_ex_kinds [of ns "\<lambda>k. k = Some t"]
  by (simp add: contains_nalu_type_def list_ex_split_fst [where P = "\<lambda>s. nalu_type _ s = Some t"])

lemma contains_vcl_annex_b:
  "\<forall>n\<in>set ns. nal_ok n \<Longrightarrow> contains_vcl_nalu (annex_b_of ns) \<longleftrightarrow> (\<exists>n\<in>set ns. nal_kind n \<in> {1, 5})"
  using list_ex_kinds [of ns "\<lambda>k. k = Some 1 \<or> k = Some 5"]
  unfolding contains_vcl_nalu_def
  by (subst list_ex_split_fst) auto

lemma is_parameter_set_only_annex_b:
  assumes "\<forall>n\<in>set ns. nal_ok n"
  shows "is_parameter_set_only (annex_b_of ns) \<longleftrightarrow> ns \<noteq> [] \<and> (\<forall>n\<in>set ns. nal_kind n \<in> {7, 8, 9})"
proof -
  have "iter_annex_b_nal_ranges (annex_b_of ns) = [] \<longleftrightarrow> ns = []"
    using iter_ranges_annex_b [OF assms] by (metis map_is_Nil_conv)
  moreover have "list_all (\<lambda>(s, e). nalu_type (annex_b_of ns) s \<in> {Some 7, Some 8, Some 9})
        (iter_annex_b_nal_ranges (annex_b_of ns)) \<longleftrightarrow> (\<forall>n\<in>set ns. nal_kind n \<in> {7, 8, 9})"
    using list_ex_kinds [OF assms, of "\<lambda>k. k \<notin> {Some 7, Some 8, Some 9}"]
    by (subst list_all_split_fst) (auto simp: list_all_iff list_ex_iff)
  ultimately show ?thesis by (simp add: is_parameter_set_only_def Let_def)
qed

lemma collect_sps_pps_annex_b:
  assumes "\<forall>n\<in>set ns. nal_ok n"
  shows "extract_sps_pps (annex_b_of ns) =
     foldl (\<lambda>acc n. if nal_kind n = 7 then (Some n, snd acc)
        else if nal_kind n = 8 then (fst acc, Some n) else acc) (None, None) ns"
proof -
  let ?data = "annex_b_of ns"
  let ?rs = "iter_annex_b_nal_ranges ?data"
  let ?f = "\<lambda>acc n. if nal_kind n = 7 then (Some n, snd acc)
        else if nal_kind n = 8 then (fst acc, Some n) else acc"
  note r = iter_ranges_annex_b [OF assms]
  have "foldl (collect_sps_pps ?data) acc rs = foldl ?f acc (map (nal_slice ?data) rs)"
    if "\<forall>(s, e)\<in>set rs. s < e \<and> e \<le> length ?data" for acc rs
    using that
  proof (induction rs arbitrary: acc)
    case Nil
    then show ?case by simp
  next
    case (Cons q rs)
    then obtain s e where q: "q = (s, e)" "s < e" "e \<le> length ?data" by (cases q) auto
    then have "collect_sps_pps ?data acc q = ?f acc (nal_slice ?data q)"
      by (simp add: collect_sps_pps_def nalu_type_slice)
    with Cons show ?case by (simp only: foldl_Cons list.map) simp
  qed
  with r show ?thesis by (simp add: extract_sps_pps_def)
qed

lemma foldl_sps_pps:
  defines "f \<equiv> \<lambda>acc n. if nal_kind n = 7 then (Some n, snd acc)
        else if nal_kind n = 8 then (fst acc, Some n) else acc"
  shows "foldl f (a, b) ns =
     (if filter (\<lambda>n. nal_kind n = 7) ns = [] then a else Some (last (filter (\<lambda>n. nal_kind n = 7) ns)),
      if filter (\<lambda>n. nal_kind n = 8) ns = [] then b else Some (last (filter (\<lambda>n. nal_kind n = 8) ns)))"
  by (induction ns arbitrary: a b) (auto simp: f_def)

lemma ensure_annex_b_start [simp]: "ensure_annex_b (start_code @ x) = start_code @ x"
  by (simp add: ensure_annex_b_def start_code_def)

lemma ensure_annex_b_of [simp]: "ensure_annex_b (annex_b_of ns) = annex_b_of ns"
  by (cases ns) (simp_all add: ensure_annex_b_def)

lemma contains_sps_or_pps_annex_b:
  "\<forall>n\<in>set ns. nal_ok n \<Longrightarrow>
   contains_sps_or_pps_nalu (annex_b_of ns) \<longleftrightarrow> (\<exists>n\<in>set ns. nal_kind n \<in> {7, 8})"
  by (auto simp: contains_sps_or_pps_nalu_def contains_nalu_type_annex_b)

section \<open>Start codes of three or four bytes\<close>

text \<open>A unit without a 3-byte start code inside, as emulation prevention makes it.\<close>

definition nal_clean :: "bytes \<Rightarrow> bool" where
  "nal_clean n \<longleftrightarrow> n \<noteq> [] \<and> \<not> sublist [0, 0, 1] n"

lemma nal_clean_nth:
  assumes "nal_clean n" and "k + 2 < length n"
  shows "\<not> (n ! k = 0 \<and> n ! (k + 1) = 0 \<and> n ! (k + 2) = 1)"
proof
  assume *: "n ! k = 0 \<and> n ! (k + 1) = 0 \<and> n ! (k + 2) = 1"
  have "n = take k n @ [n ! k, n ! (k + 1), n ! (k + 2)] @ drop (k + 3) n"
    using assms(2) by (simp add: id_take_nth_drop Cons_nth_drop_Suc numeral_eq_Suc)
  with * have "sublist [0, 0, 1] n" by (metis sublist_appendI)
  with assms(1) show False by (simp add: nal_clean_def)
qed

definition code_at :: "bytes \<Rightarrow> nat \<Rightarrow> bool" where
  "code_at p i \<longleftrightarrow> p ! i = 0 \<and> p ! (i + 1) = 0 \<and> (p ! (i + 2) = 1 \<or> p ! (i + 2) = 0 \<and> p ! (i + 3) = 1)"

lemma code_at_append: "code_at (pre @ q) (length pre + k) = code_at q k"
  by (simp add: code_at_def nth_append)

lemma no_code_in:
  assumes "nal_clean n" and "k + 3 < length n"
  shows "\<not> code_at n k"
  using nal_clean_nth [OF assms(1), of k] nal_clean_nth [OF assms(1), of "k + 1"] assms(2)
  by (auto simp: code_at_def numeral_eq_Suc)

lemma no_code_before:
  assumes "nal_clean n" and "k < length n"
  shows "\<not> code_at (n @ [0, 0, 0, 1] @ m) k"
proof -
  let ?q = "n @ [0, 0, 0, 1] @ m"
  have z: "?q ! length n = 0" "?q ! (length n + 1) = 0" "?q ! (length n + 2) = 0" by (simp_all add: nth_append)
  have one: "j < length n" if "?q ! j = 1" "j < length n + 3" for j
  proof (rule ccontr)
    assume "\<not> j < length n"
    with that(2) have "j = length n \<or> j = length n + 1 \<or> j = length n + 2" by auto
    with z that(1) show False by auto
  qed
  have in_n: "?q ! j = n ! j" if "j < length n" for j using that by (simp add: nth_append)
  show ?thesis
  proof
    assume c: "code_at ?q k"
    then consider "?q ! (k + 2) = 1" | "?q ! (k + 2) = 0" "?q ! (k + 3) = 1" by (auto simp: code_at_def)
    then show False
    proof cases
      case 1
      with one assms(2) have "k + 2 < length n" by simp
      with nal_clean_nth [OF assms(1), of k] c 1 in_n [of k] in_n [of "k + 1"] in_n [of "k + 2"]
      show False by (simp add: code_at_def)
    next
      case 2
      with one assms(2) have "k + 3 < length n" by simp
      with nal_clean_nth [OF assms(1), of "k + 1"] c 2 in_n [of "k + 1"] in_n [of "k + 2"] in_n [of "k + 3"]
      show False by (simp add: code_at_def numeral_eq_Suc)
    qed
  qed
qed

section \<open>Properties\<close>

text \<open>
  Splitting the byte stream of any list of NAL units at its 4-byte start codes gives back
  exactly those units, and every range lies inside the buffer and is not empty. A 3-byte
  pattern inside a slice does not split it.
\<close>

theorem iter_annex_b_inverts_annex_b:
  assumes "\<forall>n\<in>set ns. nal_ok n"
  shows "map (nal_slice (annex_b_of ns)) (iter_annex_b_nal_ranges (annex_b_of ns)) = ns \<and>
     (\<forall>(s, e)\<in>set (iter_annex_b_nal_ranges (annex_b_of ns)). s < e \<and> e \<le> length (annex_b_of ns))"
  by (rule iter_ranges_annex_b [OF assms])

theorem iter_annex_b_inverts_annex_b_witness:
  "map (nal_slice (annex_b_of [[0x67, 1], [0x65, 0, 0, 1, 2]]))
     (iter_annex_b_nal_ranges (annex_b_of [[0x67, 1], [0x65, 0, 0, 1, 2]])) =
   [[0x67, 1], [0x65, 0, 0, 1, 2]]"
  using iter_annex_b_inverts_annex_b [of "[[0x67, 1], [0x65, 0, 0, 1, 2]]"]
  by (simp add: nal_ok_def start_code_def sublist_code)

text \<open>
  \<open>extract_sps_pps\<close> returns the last SPS and the last PPS of an access unit, each without its
  start code, and \<open>annex_b_with_config\<close> adds the stored pair to a unit that carries neither,
  leaves a unit that carries one alone, and so adds nothing when it is applied twice.
\<close>

theorem codec_config_roundtrip:
  assumes "\<forall>n\<in>set ns. nal_ok n" and "ns \<noteq> []"
    and "nal_ok sps" and "nal_kind sps = 7" and "nal_ok pps" and "nal_kind pps = 8"
  defines "out \<equiv> annex_b_with_config sps pps (annex_b_of ns)"
  shows "out = (if \<exists>n\<in>set ns. nal_kind n \<in> {7, 8} then annex_b_of ns else annex_b_of (sps # pps # ns)) \<and>
    annex_b_with_config sps pps out = out \<and>
    ((\<forall>n\<in>set ns. nal_kind n \<notin> {7, 8}) \<longrightarrow> extract_sps_pps out = (Some sps, Some pps))"
proof (intro conjI)
  have all: "\<forall>n\<in>set (sps # pps # ns). nal_ok n" using assms by simp
  show out: "out = (if \<exists>n\<in>set ns. nal_kind n \<in> {7, 8} then annex_b_of ns else annex_b_of (sps # pps # ns))"
    by (auto simp: out_def annex_b_with_config_def contains_sps_or_pps_annex_b [OF assms(1)] Let_def)
  show "annex_b_with_config sps pps out = out"
  proof (cases "\<exists>n\<in>set ns. nal_kind n \<in> {7, 8}")
    case True
    with out show ?thesis
      by (simp add: annex_b_with_config_def contains_sps_or_pps_annex_b [OF assms(1)] del: annex_b_of_simps)
  next
    case False
    with out have eq: "out = annex_b_of (sps # pps # ns)" by presburger
    show ?thesis
      unfolding eq annex_b_with_config_def ensure_annex_b_of Let_def
      using assms(4) by (subst contains_sps_or_pps_annex_b [OF all]) simp
  qed
  show "(\<forall>n\<in>set ns. nal_kind n \<notin> {7, 8}) \<longrightarrow> extract_sps_pps out = (Some sps, Some pps)"
  proof
    assume none: "\<forall>n\<in>set ns. nal_kind n \<notin> {7, 8}"
    with out have "out = annex_b_of (sps # pps # ns)" by metis
    moreover from none have "filter (\<lambda>n. nal_kind n = 7) ns = []" "filter (\<lambda>n. nal_kind n = 8) ns = []"
      by (auto simp: filter_empty_conv)
    ultimately show "extract_sps_pps out = (Some sps, Some pps)"
      using assms(4,6) by (simp add: collect_sps_pps_annex_b [OF all] foldl_sps_pps del: annex_b_of_simps)
  qed
qed

theorem codec_config_roundtrip_witness:
  "extract_sps_pps (annex_b_with_config [0x67, 66] [0x68, 2] (annex_b_of [[0x65, 3], [0x41, 9]])) =
     (Some [0x67, 66], Some [0x68, 2])"
  using codec_config_roundtrip [of "[[0x65, 3], [0x41, 9]]" "[0x67, 66]" "[0x68, 2]"]
  by (auto simp: nal_ok_def nal_kind_def start_code_def sublist_code simp del: annex_b_of_simps)

lemma as_u32_wrap_add: "as_u32 (wrap32 (p + d)) = as_u32 p + word_of_nat d"
proof -
  have "as_u32 (wrap32 (p + d)) = (word_of_nat (p + d) :: 32 word)"
    unfolding as_u32_def wrap32_def by (rule word_of_nat_eq_iff [THEN iffD2]) (simp add: take_bit_eq_mod)
  then show ?thesis by (simp add: as_u32_def)
qed

text \<open>
  RTP timestamps are compared on the 32-bit circle: a timestamp up to half the circle ahead
  counts as later, also across the wrap-around, the earlier one then counts as before it, and
  a step back is either a reordering within the GOP (below one second at 90 kHz) or a reset
  of the timeline, never both.
\<close>

theorem rtp_order_on_the_circle:
  assumes "p < 4294967296" and "0 < d" and "d < 2147483648"
  shows "is_rtp_timestamp_after (wrap32 (p + d)) p \<and> \<not> is_rtp_timestamp_before (wrap32 (p + d)) p \<and>
    is_rtp_timestamp_before p (wrap32 (p + d)) \<and>
    is_rtp_stale_in_gop p (wrap32 (p + d)) = (d < 90000) \<and>
    is_rtp_timeline_reset p (wrap32 (p + d)) = (90000 \<le> d)"
proof -
  let ?c = "wrap32 (p + d)"
  let ?d = "word_of_nat d :: 32 word"
  have ne: "?c \<noteq> p"
  proof
    assume "?c = p"
    then have "(p + d) mod 4294967296 = p mod 4294967296"
      using assms(1) by (simp add: wrap32_def)
    then have "4294967296 dvd d" by (metis add_diff_cancel_left' mod_eq_dvd_iff_nat le_add1)
    with assms(2,3) show False by (auto dest: dvd_imp_le)
  qed
  have u: "unat ?d = d" using assms(3) by (simp add: unat_of_nat)
  then have fwd: "as_u32 ?c - as_u32 p = ?d" "?d < 0x80000000" "0 < ?d"
    "?d < 90000 \<longleftrightarrow> d < 90000" "90000 \<le> ?d \<longleftrightarrow> 90000 \<le> d"
    using assms(2,3) by (simp_all add: as_u32_wrap_add word_less_nat_alt word_le_nat_alt)
  have "as_u32 p - as_u32 ?c = - ?d" by (simp add: as_u32_wrap_add)
  moreover have "unat (- ?d) = 4294967296 - d"
    using u assms(2) unat_sub_if' [of 0 ?d] by simp
  then have "\<not> - ?d < 0x80000000" using assms(3) by (simp add: word_less_nat_alt)
  ultimately show ?thesis using fwd ne
    by (simp add: is_rtp_timestamp_after_def is_rtp_timestamp_before_def is_rtp_stale_in_gop_def
        is_rtp_timeline_reset_def Let_def eq_commute [of p])
qed

theorem rtp_order_on_the_circle_witness:
  "is_rtp_timestamp_after 1704 4294966296 \<and> is_rtp_stale_in_gop 4294966296 1704"
  using rtp_order_on_the_circle [of 4294966296 2704] by (simp add: wrap32_def)

end
