(* ===== verification/Rtmp_Session.thy ===== *)
theory Rtmp_Session
  imports Amf0 H264_Util Timestamp
begin

text \<open>
  \<open>src/src/server/rtmp/session.rs\<close>: the state of one RTMP session, what the commands do to it,
  the command responses and the video and audio payloads of RTMP messages. Names in the session
  are text, AMF0 strings are bytes; \<open>text_of\<close> and \<open>ascii\<close> convert. A \<open>HashMap\<close> that is built to
  be encoded is listed in the order of its insertions, one of the orders Rust may encode it in.
  An \<open>f64\<close> is its 64-bit pattern. A handler that panics is None.
\<close>

section \<open>Integers as f64 patterns\<close>

text \<open>The index of the highest bit.\<close>

fun top_bit :: "nat \<Rightarrow> nat" where
  "top_bit n = (if n < 2 then 0 else Suc (top_bit (n div 2)))"

declare top_bit.simps [simp del]

text \<open>\<open>x as f64\<close> of a \<open>u32\<close>: exact, so the significand is the number shifted to 53 bits.\<close>

definition f64_of_u32 :: "32 word \<Rightarrow> 64 word" where
  "f64_of_u32 w =
     (let n = unat w; e = top_bit n
      in if n = 0 then 0 else word_of_nat ((1023 + e) * 2 ^ 52 + (n * 2 ^ (52 - e) - 2 ^ 52)))"

section \<open>Session state\<close>

datatype session_state = Handshaking | Connected | CreateStream | Ready | Publishing | Playing | Closing

datatype session_mode = NoMode | Publish | Play

record rtmp_session =
  rs_state :: session_state
  rs_app :: string
  rs_stream_name :: string
  rs_stream_key :: string
  rs_mode :: session_mode
  rs_chunk_size :: nat
  rs_client_chunk_size :: nat
  rs_server_stream_id :: "32 word"
  rs_avc_header_sent :: bool
  rs_aac_header_sent :: bool
  rs_metadata_sent :: bool
  rs_transaction_id :: "64 word"
  rs_peer_addr :: string

definition session_new :: "string \<Rightarrow> rtmp_session" where
  "session_new addr =
     \<lparr>rs_state = Handshaking, rs_app = [], rs_stream_name = [], rs_stream_key = [], rs_mode = NoMode,
      rs_chunk_size = 4096, rs_client_chunk_size = 128, rs_server_stream_id = 0,
      rs_avc_header_sent = False, rs_aac_header_sent = False, rs_metadata_sent = False,
      rs_transaction_id = f64_of_u32 1, rs_peer_addr = addr\<rparr>"

section \<open>Commands\<close>

text \<open>Every argument that is an object with a text \<open>app\<close> replaces the application name.\<close>

definition connect_arg :: "rtmp_session \<Rightarrow> amf0_value \<Rightarrow> rtmp_session" where
  "connect_arg s arg =
     (case as_object arg of
        None \<Rightarrow> s
      | Some m \<Rightarrow>
          (case Option.bind (map_of m (ascii ''app'')) as_str of
             None \<Rightarrow> s
           | Some app \<Rightarrow> s\<lparr>rs_app := text_of app\<rparr>))"

definition handle_connect :: "rtmp_session \<Rightarrow> amf0_value list \<Rightarrow> rtmp_session \<times> string" where
  "handle_connect s args =
     (let s' = (foldl connect_arg s args)\<lparr>rs_state := Connected\<rparr> in (s', rs_app s'))"

text \<open>\<open>args[0].as_f64().unwrap()\<close> panics without a number in front.\<close>

definition handle_create_stream :: "rtmp_session \<Rightarrow> amf0_value list \<Rightarrow> (rtmp_session \<times> 32 word) option" where
  "handle_create_stream s args =
     (let s' = s\<lparr>rs_server_stream_id := rs_server_stream_id s + 1, rs_state := Ready\<rparr>
      in case args of
           [] \<Rightarrow> None
         | a # _ \<Rightarrow>
             (case as_f64 a of
                None \<Rightarrow> None
              | Some t \<Rightarrow> Some (s'\<lparr>rs_transaction_id := t\<rparr>, rs_server_stream_id s')))"

text \<open>
  The loop of \<open>handle_publish\<close> and \<open>handle_play\<close>: the first text argument that is not empty ends
  it, an object's \<open>streamName\<close> replaces the name and the loop goes on.
\<close>

fun pick_stream_name :: "string \<Rightarrow> amf0_value list \<Rightarrow> string" where
  "pick_stream_name name [] = name"
| "pick_stream_name name (arg # args) =
     (case as_str arg of
        Some s \<Rightarrow> if length s > 0 then text_of s else pick_stream_name name args
      | None \<Rightarrow>
          (case as_object arg of
             None \<Rightarrow> pick_stream_name name args
           | Some m \<Rightarrow>
               (case Option.bind (map_of m (ascii ''streamName'')) as_str of
                  None \<Rightarrow> pick_stream_name name args
                | Some n \<Rightarrow> pick_stream_name (text_of n) args)))"

definition handle_publish :: "rtmp_session \<Rightarrow> amf0_value list \<Rightarrow> rtmp_session \<times> string" where
  "handle_publish s args =
     (let s' = s\<lparr>rs_stream_name := pick_stream_name (rs_stream_name s) args, rs_mode := Publish,
                 rs_state := Publishing\<rparr>
      in (s', rs_stream_name s'))"

definition handle_play :: "rtmp_session \<Rightarrow> amf0_value list \<Rightarrow> rtmp_session \<times> string" where
  "handle_play s args =
     (let s' = s\<lparr>rs_stream_name := pick_stream_name (rs_stream_name s) args, rs_mode := Play,
                 rs_state := Playing\<rparr>
      in (s', rs_stream_name s'))"

definition handle_set_chunk_size :: "rtmp_session \<Rightarrow> bytes \<Rightarrow> rtmp_session" where
  "handle_set_chunk_size s payload =
     (if length payload \<ge> 4 then
        s\<lparr>rs_client_chunk_size := unat (be32 (payload ! 0) (payload ! 1) (payload ! 2) (payload ! 3))\<rparr>
      else s)"

section \<open>Responses\<close>

text \<open>31.0 is the pattern 403F followed by zeros.\<close>

definition build_result_response :: "64 word \<Rightarrow> string \<Rightarrow> bytes" where
  "build_result_response transaction_id command =
     encode
       [AString (ascii ''_result''),
        Number transaction_id,
        Object
          [(ascii ''fmsVer'', AString (ascii ''FMS/3.0.1.123'')),
           (ascii ''capabilities'', Number (f64_of_u32 31)),
           (ascii ''objectEncoding'', Number 0)],
        Object
          [(ascii ''level'', AString (ascii ''status'')),
           (ascii ''code'', AString (ascii (''NetConnection.'' @ command @ ''.Success''))),
           (ascii ''description'', AString (ascii (command @ '' succeeded.''))),
           (ascii ''data'', Object [])]]"

definition build_user_control_stream_begin :: "32 word \<Rightarrow> bytes" where
  "build_user_control_stream_begin stream_id = be16_bytes 0 @ be32_bytes stream_id"

definition build_user_control_set_buffer_length :: "32 word \<Rightarrow> 32 word \<Rightarrow> bytes" where
  "build_user_control_set_buffer_length stream_id buffer_ms =
     be16_bytes 3 @ be32_bytes stream_id @ be32_bytes buffer_ms"

definition build_on_status :: "string \<Rightarrow> string \<Rightarrow> string \<Rightarrow> bytes" where
  "build_on_status code description level =
     encode
       [AString (ascii ''onStatus''),
        Number 0,
        ANull,
        Object
          [(ascii ''level'', AString (ascii level)),
           (ascii ''code'', AString (ascii code)),
           (ascii ''description'', AString (ascii description))]]"

text \<open>The length of a parameter set is cast to \<open>u16\<close> before its two bytes are taken.\<close>

definition build_avc_sequence_header :: "bytes \<Rightarrow> bytes \<Rightarrow> bytes" where
  "build_avc_sequence_header sps pps =
     [0x17, 0x00, 0x00, 0x00, 0x00, 0x01] @
     (if length sps \<ge> 4 then [sps ! 1, sps ! 2, sps ! 3] else [0x42, 0x00, 0x1F]) @
     [0xFF, 0xE1] @ be16_bytes (length sps) @ sps @
     [0x01] @ be16_bytes (length pps) @ pps"

definition build_aac_sequence_header :: bytes where
  "build_aac_sequence_header = [0xAF, 0x00, 0x12, 0x10]"

definition build_metadata :: "32 word \<Rightarrow> 32 word \<Rightarrow> string \<Rightarrow> bytes" where
  "build_metadata width height stream_name =
     encode
       [AString (ascii ''onMetaData''),
        EcmaArray
          [(ascii ''width'', Number (f64_of_u32 width)),
           (ascii ''height'', Number (f64_of_u32 height)),
           (ascii ''streamName'', AString (ascii stream_name)),
           (ascii ''encoder'', AString (ascii ''Rust-Media-Server''))]]"

section \<open>Media payloads\<close>

definition code3_at :: "bytes \<Rightarrow> nat \<Rightarrow> bool" where
  "code3_at d i \<longleftrightarrow> i + 3 \<le> length d \<and> take 3 (drop i d) = [0x00, 0x00, 0x01]"

definition code4_at :: "bytes \<Rightarrow> nat \<Rightarrow> bool" where
  "code4_at d i \<longleftrightarrow> i + 4 \<le> length d \<and> take 4 (drop i d) = [0x00, 0x00, 0x00, 0x01]"

text \<open>The inner loop: where the unit that starts at \<open>j\<close> ends.\<close>

function avcc_end :: "bytes \<Rightarrow> nat \<Rightarrow> nat" where
  "avcc_end d j =
     (if j + 3 \<le> length d then if code3_at d j \<or> code4_at d j then j else avcc_end d (j + 1)
      else length d)"
  by pat_completeness auto
termination
  by (relation "measure (\<lambda>(d, j). length d - j)") auto

declare avcc_end.simps [simp del]

lemma avcc_end_bounds: "j \<le> length d \<Longrightarrow> j \<le> avcc_end d j \<and> avcc_end d j \<le> length d"
proof (induction d j rule: avcc_end.induct)
  case (1 d j)
  then show ?case by (subst (1 2) avcc_end.simps) (auto dest: Suc_leD)
qed

text \<open>The outer loop from position \<open>i\<close>: each unit behind its length in four bytes.\<close>

function avcc_units :: "bytes \<Rightarrow> nat \<Rightarrow> bytes" where
  "avcc_units d i =
     (if i < length d then
        if code3_at d i \<or> code4_at d i then
          let start = (if code3_at d i then i + 3 else i + 4);
              stop = avcc_end d start
          in be32_bytes (word_of_nat (stop - start)) @ take (stop - start) (drop start d) @
             avcc_units d stop
        else avcc_units d (i + 1)
      else [])"
  by pat_completeness auto
termination
proof (relation "measure (\<lambda>(d, i). length d - i)", goal_cases)
  case (2 d i s e)
  then have "s \<le> length d" "i < s" by (auto simp: code3_at_def code4_at_def)
  with 2 avcc_end_bounds [of s d] show ?case by auto
qed auto

declare avcc_units.simps [simp del]

definition frame_to_rtmp_video :: "media_frame \<Rightarrow> bytes" where
  "frame_to_rtmp_video f =
     [(if mf_is_keyframe f \<or> is_keyframe_annex_b (mf_data f) then 0x10 else 0x20) OR 0x07,
      0x01, 0x00, 0x00, 0x00] @ avcc_units (mf_data f) 0"

definition frame_to_rtmp_audio :: "media_frame \<Rightarrow> bytes" where
  "frame_to_rtmp_audio f = [0xAF, 0x01] @ mf_data f"

text \<open>\<open>RtmpPlayClock\<close> wraps the wall-clock timeline; \<open>now\<close> is the clock's reading.\<close>

type_synonym rtmp_play_clock = wallclock_ms_timeline

definition play_clock_map :: "rtmp_play_clock \<Rightarrow> nat \<Rightarrow> rtmp_play_clock \<times> nat" where
  "play_clock_map c now = wc_map_ms c now"

section \<open>From start codes to lengths\<close>

text \<open>NAL units behind their length in four bytes.\<close>

definition avcc_of :: "bytes list \<Rightarrow> bytes" where
  "avcc_of ns = concat (map (\<lambda>n. be32_bytes (word_of_nat (length n)) @ n) ns)"

lemma avcc_of_simps [simp]:
  "avcc_of [] = []" "avcc_of (n # ns) = be32_bytes (word_of_nat (length n)) @ n @ avcc_of ns"
  by (simp_all add: avcc_of_def)

lemma code_at_of_34: "code3_at d i \<or> code4_at d i \<Longrightarrow> i + 3 \<le> length d \<and> code_at d i"
proof -
  assume "code3_at d i \<or> code4_at d i"
  then consider "code3_at d i" | "code4_at d i" by blast
  then show ?thesis
  proof cases
    case 1
    then have eq: "take 3 (drop i d) = [0, 0, 1]" "i + 3 \<le> length d" by (simp_all add: code3_at_def)
    have "take 3 (drop i d) ! k = d ! (i + k)" if "k < 3" for k using that eq(2) by simp
    from this [of 0] this [of 1] this [of 2] eq show ?thesis by (simp add: code_at_def)
  next
    case 2
    then have eq: "take 4 (drop i d) = [0, 0, 0, 1]" "i + 4 \<le> length d" by (simp_all add: code4_at_def)
    have "take 4 (drop i d) ! k = d ! (i + k)" if "k < 4" for k using that eq(2) by simp
    from this [of 0] this [of 1] this [of 2] this [of 3] eq show ?thesis
      by (simp add: code_at_def numeral_3_eq_3)
  qed
qed

lemma no_code_in_tail:
  assumes "nal_clean n"
  shows "\<not> code3_at n k \<and> \<not> code4_at n k"
proof (intro conjI notI)
  assume "code3_at n k"
  then have "take 3 (drop k n) = [0, 0, 1]" by (simp add: code3_at_def)
  then have "n = take k n @ [0, 0, 1] @ drop 3 (drop k n)" by (metis append_take_drop_id)
  then have "sublist [0, 0, 1] n" by (metis sublist_appendI)
  with assms show False by (simp add: nal_clean_def)
next
  assume "code4_at n k"
  then have "take 4 (drop k n) = [0, 0, 0, 1]" by (simp add: code4_at_def)
  then have "n = take k n @ [0, 0, 0, 1] @ drop 4 (drop k n)" by (metis append_take_drop_id)
  then have "n = (take k n @ [0]) @ [0, 0, 1] @ drop 4 (drop k n)" by simp
  then have "sublist [0, 0, 1] n" by (metis sublist_appendI)
  with assms show False by (simp add: nal_clean_def)
qed

lemma no_code_in_unit:
  assumes "nal_clean n" and "k < length n"
  shows "\<not> code3_at (pre @ n @ annex_b_of ns) (length pre + k) \<and>
    \<not> code4_at (pre @ n @ annex_b_of ns) (length pre + k)"
proof -
  have shift: "code3_at (pre @ q) (length pre + k) = code3_at q k"
    "code4_at (pre @ q) (length pre + k) = code4_at q k" for q
    by (simp_all add: code3_at_def code4_at_def)
  show ?thesis
  proof (cases ns)
    case Nil
    with no_code_in_tail [OF assms(1)] show ?thesis by (simp add: shift)
  next
    case (Cons m ms)
    with no_code_before [OF assms, of "m @ annex_b_of ms"] code_at_of_34 [of "n @ annex_b_of ns" k]
    show ?thesis by (auto simp: shift)
  qed
qed

lemma avcc_end_of_unit:
  assumes "nal_clean n" and "k \<le> length n"
  shows "avcc_end (pre @ n @ annex_b_of ns) (length pre + k) = length pre + length n"
  using assms(2)
proof (induction "length n - k" arbitrary: k)
  case 0
  then have k: "k = length n" by simp
  show ?case
  proof (cases ns)
    case Nil
    with k show ?thesis by (simp add: avcc_end.simps)
  next
    case (Cons m ms)
    with k have "code4_at (pre @ n @ annex_b_of ns) (length pre + k)" by (simp add: code4_at_def)
    with k Cons show ?thesis by (simp add: avcc_end.simps [of _ "length pre + length n"])
  qed
next
  case (Suc x)
  then have k: "k < length n" by simp
  have step: "avcc_end (pre @ n @ annex_b_of ns) (length pre + Suc k) = length pre + length n"
    using Suc.hyps(1) [of "Suc k"] Suc.hyps(2) k by simp
  show ?case
  proof (cases "length pre + k + 3 \<le> length (pre @ n @ annex_b_of ns)")
    case True
    with step no_code_in_unit [OF assms(1) k, of pre ns] show ?thesis
      by (simp add: avcc_end.simps [of _ "length pre + k"])
  next
    case False
    with k have "ns = []" by (cases ns) auto
    with False show ?thesis by (simp add: avcc_end.simps [of _ "length pre + k"])
  qed
qed

lemma avcc_units_annex_b_from:
  assumes "\<forall>n\<in>set ns. nal_clean n"
  shows "avcc_units (pre @ annex_b_of ns) (length pre) = avcc_of ns"
  using assms
proof (induction ns arbitrary: pre)
  case Nil
  then show ?case by (simp add: avcc_units.simps)
next
  case (Cons n ns)
  let ?d = "pre @ annex_b_of (n # ns)"
  have d: "?d = (pre @ start_code) @ n @ annex_b_of ns" by (simp add: start_code_def)
  have not3: "\<not> code3_at ?d (length pre)" by (simp add: code3_at_def)
  have is4: "code4_at ?d (length pre)" by (simp add: code4_at_def)
  have stop: "avcc_end ?d (length pre + 4) = length pre + 4 + length n"
    using avcc_end_of_unit [of n 0 "pre @ start_code" ns] Cons.prems unfolding d
    by (simp add: start_code_def eval_nat_numeral)
  have rest: "avcc_units ?d (length pre + 4 + length n) = avcc_of ns"
    using Cons.IH [of "pre @ start_code @ n"] Cons.prems by (simp add: start_code_def eval_nat_numeral)
  have body: "take (length n) (drop (length pre + 4) ?d) = n" by simp
  have "avcc_units ?d (length pre) =
      be32_bytes (word_of_nat (length n)) @ take (length n) (drop (length pre + 4) ?d) @
      avcc_units ?d (length pre + 4 + length n)"
    by (subst avcc_units.simps) (simp add: not3 is4 stop Let_def del: annex_b_of_simps, simp)
  with rest body show ?case by simp
qed

lemma avcc_units_annex_b:
  "\<forall>n\<in>set ns. nal_clean n \<Longrightarrow> avcc_units (annex_b_of ns) 0 = avcc_of ns"
  using avcc_units_annex_b_from [of ns "[]"] by simp

end
