(* ===== verification/Rtmp_Chunk.thy ===== *)
theory Rtmp_Chunk
  imports Prelude
begin

text \<open>
  \<open>src/src/server/rtmp/chunk.rs\<close>: the RTMP chunk stream. A receiver keeps, per chunk stream id,
  the last header and the message under assembly; the sender cuts a message into a type 0 chunk
  and type 3 continuations. Timestamps and message stream ids are \<open>u32\<close> words, which the
  release profile adds modulo \<open>2 ^ 32\<close>; lengths and chunk stream ids are natural numbers below
  \<open>2 ^ 32\<close>. Both state maps are looked up by key only.
\<close>

datatype chunk_fmt = Type0 | Type1 | Type2 | Type3

text \<open>The discriminants order the formats by how much of a header they carry.\<close>

fun fmt_val :: "chunk_fmt \<Rightarrow> nat" where
  "fmt_val Type0 = 0" | "fmt_val Type1 = 1" | "fmt_val Type2 = 2" | "fmt_val Type3 = 3"

lemma fmt_val_inject [simp]: "fmt_val a = fmt_val b \<longleftrightarrow> a = b"
  by (cases a; cases b) simp_all

instantiation chunk_fmt :: linorder
begin

definition less_eq_chunk_fmt :: "chunk_fmt \<Rightarrow> chunk_fmt \<Rightarrow> bool" where
  "less_eq_chunk_fmt a b \<longleftrightarrow> fmt_val a \<le> fmt_val b"

definition less_chunk_fmt :: "chunk_fmt \<Rightarrow> chunk_fmt \<Rightarrow> bool" where
  "less_chunk_fmt a b \<longleftrightarrow> fmt_val a < fmt_val b"

instance
  by standard (auto simp: less_eq_chunk_fmt_def less_chunk_fmt_def)

end

record chunk_header =
  ch_fmt :: chunk_fmt
  ch_csid :: nat
  ch_timestamp :: "32 word"
  ch_msg_length :: nat
  ch_msg_type_id :: byte
  ch_msg_stream_id :: "32 word"
  ch_has_extended_timestamp :: bool

record chunk_assembler =
  as_timestamp :: "32 word"
  as_msg_length :: nat
  as_msg_type_id :: byte
  as_msg_stream_id :: "32 word"
  as_received :: nat
  as_buffer :: bytes

definition assembler_default :: chunk_assembler where
  "assembler_default = \<lparr>as_timestamp = 0, as_msg_length = 0, as_msg_type_id = 0,
     as_msg_stream_id = 0, as_received = 0, as_buffer = []\<rparr>"

record rtmp_message =
  rm_msg_type :: byte
  rm_timestamp :: "32 word"
  rm_msg_stream_id :: "32 word"
  rm_payload :: bytes

section \<open>Parsing a chunk header\<close>

definition basic_header :: "bytes \<Rightarrow> (nat \<times> nat) option" where
  "basic_header buf =
     (let cs_id_raw = unat ((buf ! 0) AND 0x3F) in
      if cs_id_raw = 0 then
        if length buf < 2 then None else Some (2, 64 + unat (buf ! 1))
      else if cs_id_raw = 1 then
        if length buf < 3 then None else Some (3, 64 + unat (buf ! 1) + unat (buf ! 2) * 256)
      else Some (1, cs_id_raw))"

definition fmt_of_byte :: "byte \<Rightarrow> chunk_fmt" where
  "fmt_of_byte b =
     (let v = drop_bit 6 b AND 0x03 in
      if v = 0 then Type0 else if v = 1 then Type1 else if v = 2 then Type2 else Type3)"

fun msg_header_size :: "chunk_fmt \<Rightarrow> nat" where
  "msg_header_size Type0 = 11"
| "msg_header_size Type1 = 7"
| "msg_header_size Type2 = 3"
| "msg_header_size Type3 = 0"

definition le32 :: "byte \<Rightarrow> byte \<Rightarrow> byte \<Rightarrow> byte \<Rightarrow> 32 word" where
  "le32 a b c d = ucast a OR push_bit 8 (ucast b) OR push_bit 16 (ucast c) OR push_bit 24 (ucast d)"

text \<open>
  The message header at \<open>o\<close>: timestamp, length, type and stream id as far as the format carries
  them, zero for the rest, and the offset behind the part read.
\<close>

definition raw_fields :: "chunk_fmt \<Rightarrow> bytes \<Rightarrow> nat \<Rightarrow> 32 word \<times> nat \<times> byte \<times> 32 word \<times> nat" where
  "raw_fields fmt buf i =
     (case fmt of
        Type0 \<Rightarrow> (be24 (buf ! i) (buf ! (i + 1)) (buf ! (i + 2)),
                  unat (be24 (buf ! (i + 3)) (buf ! (i + 4)) (buf ! (i + 5))), buf ! (i + 6),
                  le32 (buf ! (i + 7)) (buf ! (i + 8)) (buf ! (i + 9)) (buf ! (i + 10)), i + 11)
      | Type1 \<Rightarrow> (be24 (buf ! i) (buf ! (i + 1)) (buf ! (i + 2)),
                  unat (be24 (buf ! (i + 3)) (buf ! (i + 4)) (buf ! (i + 5))), buf ! (i + 6), 0, i + 7)
      | Type2 \<Rightarrow> (be24 (buf ! i) (buf ! (i + 1)) (buf ! (i + 2)), 0, 0, 0, i + 3)
      | Type3 \<Rightarrow> (0, 0, 0, 0, i))"

definition extended_timestamp :: "bytes \<Rightarrow> 32 word \<Rightarrow> nat \<Rightarrow> (32 word \<times> nat \<times> bool) option" where
  "extended_timestamp buf ts i =
     (if ts = 0xFFFFFF then
        if length buf < i + 4 then None
        else Some (be32 (buf ! i) (buf ! (i + 1)) (buf ! (i + 2)) (buf ! (i + 3)), i + 4, True)
      else Some (ts, i, False))"

definition inherit_header :: "chunk_header \<Rightarrow> chunk_header \<Rightarrow> chunk_header" where
  "inherit_header h prev =
     (case ch_fmt h of
        Type0 \<Rightarrow> h
      | Type1 \<Rightarrow> h\<lparr>ch_timestamp := ch_timestamp h + ch_timestamp prev,
                   ch_msg_stream_id := ch_msg_stream_id prev\<rparr>
      | Type2 \<Rightarrow> h\<lparr>ch_timestamp := ch_timestamp h + ch_timestamp prev,
                   ch_msg_length := ch_msg_length prev, ch_msg_type_id := ch_msg_type_id prev,
                   ch_msg_stream_id := ch_msg_stream_id prev\<rparr>
      | Type3 \<Rightarrow> h\<lparr>ch_timestamp := ch_timestamp prev,
                   ch_msg_length := ch_msg_length prev, ch_msg_type_id := ch_msg_type_id prev,
                   ch_msg_stream_id := ch_msg_stream_id prev\<rparr>)"

type_synonym header_map = "nat \<rightharpoonup> chunk_header"

definition parse_chunk_header :: "bytes \<Rightarrow> header_map \<Rightarrow> (chunk_header \<times> nat \<times> header_map) option" where
  "parse_chunk_header buf headers =
     (if buf = [] then None
      else case basic_header buf of
        None \<Rightarrow> None
      | Some (basic_size, csid) \<Rightarrow>
          let fmt = fmt_of_byte (buf ! 0) in
          if length buf < basic_size + msg_header_size fmt then None
          else case raw_fields fmt buf basic_size of
            (ts, len, mty, msid, i) \<Rightarrow>
              (case extended_timestamp buf ts i of
                 None \<Rightarrow> None
               | Some (ts', i', ext) \<Rightarrow>
                   let h = \<lparr>ch_fmt = fmt, ch_csid = csid, ch_timestamp = ts', ch_msg_length = len,
                            ch_msg_type_id = mty, ch_msg_stream_id = msid,
                            ch_has_extended_timestamp = ext\<rparr>
                   in if fmt = Type0 then Some (h, i', headers(csid \<mapsto> h))
                      else (case headers csid of
                              None \<Rightarrow> None
                            | Some prev \<Rightarrow>
                                let h' = inherit_header h prev
                                in Some (h', i', headers(csid \<mapsto> h')))))"

section \<open>Reassembly\<close>

type_synonym assembler_map = "nat \<rightharpoonup> chunk_assembler"

definition remaining_msg :: "assembler_map \<Rightarrow> chunk_header \<Rightarrow> nat" where
  "remaining_msg assemblers h =
     (case assemblers (ch_csid h) of
        None \<Rightarrow> ch_msg_length h
      | Some a \<Rightarrow> if as_msg_length a > 0 then as_msg_length a - as_received a else ch_msg_length h)"

definition feed_assembler :: "chunk_assembler \<Rightarrow> chunk_header \<Rightarrow> bytes \<Rightarrow> chunk_assembler" where
  "feed_assembler a h data =
     a\<lparr>as_timestamp := ch_timestamp h, as_msg_length := ch_msg_length h,
       as_msg_type_id := ch_msg_type_id h, as_msg_stream_id := ch_msg_stream_id h,
       as_buffer := as_buffer a @ data, as_received := as_received a + length data\<rparr>"

definition message_of :: "chunk_assembler \<Rightarrow> rtmp_message" where
  "message_of a = \<lparr>rm_msg_type = as_msg_type_id a, rm_timestamp = as_timestamp a,
     rm_msg_stream_id = as_msg_stream_id a, rm_payload = as_buffer a\<rparr>"

lemma basic_header_bounds: "basic_header buf = Some (n, c) \<Longrightarrow> 1 \<le> n"
  by (auto simp: basic_header_def Let_def split: if_splits)

lemma raw_fields_offset: "raw_fields fmt buf i = (ts, len, mty, msid, j) \<Longrightarrow> j = i + msg_header_size fmt"
  by (auto simp: raw_fields_def split: chunk_fmt.splits)

lemma parse_chunk_header_bounds:
  assumes "parse_chunk_header buf headers = Some (h, n, headers')"
  shows "1 \<le> n \<and> n \<le> length buf"
proof -
  from assms obtain b c where b: "basic_header buf = Some (b, c)"
    by (auto simp: parse_chunk_header_def split: if_splits option.splits)
  obtain ts len mty msid i where r: "raw_fields (fmt_of_byte (buf ! 0)) buf b = (ts, len, mty, msid, i)"
    by (metis prod.exhaust)
  from assms b r have le: "b + msg_header_size (fmt_of_byte (buf ! 0)) \<le> length buf"
    by (auto simp: parse_chunk_header_def Let_def not_less split: if_splits)
  from assms b r have "\<exists>ts' e. extended_timestamp buf ts i = Some (ts', n, e)"
    by (auto simp: parse_chunk_header_def Let_def split: if_splits option.splits)
  then have "n = i \<or> n = i + 4 \<and> i + 4 \<le> length buf"
    by (auto simp: extended_timestamp_def split: if_splits)
  with basic_header_bounds [OF b] raw_fields_offset [OF r] le show ?thesis by auto
qed

text \<open>
  \<open>parse_chunks\<close> returns the unread input and both maps besides the message: what it changed
  before it ran out of input stays changed.
\<close>

function parse_chunks ::
    "bytes \<Rightarrow> assembler_map \<Rightarrow> header_map \<Rightarrow> nat \<Rightarrow>
     (bytes \<times> assembler_map \<times> header_map) \<times> rtmp_message option" where
  "parse_chunks buf assemblers headers chunk_size =
     (case parse_chunk_header buf headers of
        None \<Rightarrow> ((buf, assemblers, headers), None)
      | Some (h, header_size, headers') \<Rightarrow>
          let data_size = min chunk_size (remaining_msg assemblers h) in
          if length buf < header_size + data_size then ((buf, assemblers, headers'), None)
          else
            let data = take data_size (drop header_size buf);
                a = (case assemblers (ch_csid h) of Some a \<Rightarrow> a | None \<Rightarrow> assembler_default);
                a' = feed_assembler a h data;
                buf' = drop (header_size + data_size) buf
            in if as_received a' \<ge> as_msg_length a' \<and> as_msg_length a' > 0 then
                 ((buf', assemblers(ch_csid h \<mapsto>
                    a'\<lparr>as_msg_length := 0, as_received := 0, as_buffer := []\<rparr>), headers'),
                  Some (message_of a'))
               else parse_chunks buf' (assemblers(ch_csid h \<mapsto> a')) headers' chunk_size)"
  by pat_completeness auto
termination
proof (relation "measure (\<lambda>(buf, _). length buf)", goal_cases)
  case (2 buf assemblers headers chunk_size x h y header_size headers' ds data a a' buf')
  then have "1 \<le> header_size" using parse_chunk_header_bounds by blast
  moreover from this 2 have "buf \<noteq> []" by (auto simp: parse_chunk_header_def)
  ultimately show ?case using 2 by auto
qed simp

declare parse_chunks.simps [simp del]

section \<open>Encoding\<close>

definition CSID_PROTOCOL :: nat where "CSID_PROTOCOL = 2"
definition CSID_COMMAND :: nat where "CSID_COMMAND = 3"
definition CSID_AUDIO :: nat where "CSID_AUDIO = 4"
definition CSID_VIDEO :: nat where "CSID_VIDEO = 6"

definition encode_basic_header :: "byte \<Rightarrow> nat \<Rightarrow> bytes" where
  "encode_basic_header fmt cs_id =
     (if cs_id < 64 then [push_bit 6 fmt OR word_of_nat cs_id]
      else if cs_id < 320 then [push_bit 6 fmt OR 0, word_of_nat (cs_id - 64)]
      else let v = cs_id - 64 in
        [push_bit 6 fmt OR 1, word_of_nat v, word_of_nat (v div 256)])"

definition be24_bytes :: "32 word \<Rightarrow> bytes" where
  "be24_bytes w = [ucast (drop_bit 16 w), ucast (drop_bit 8 w), ucast w]"

definition le32_bytes :: "32 word \<Rightarrow> bytes" where
  "le32_bytes w = [ucast w, ucast (drop_bit 8 w), ucast (drop_bit 16 w), ucast (drop_bit 24 w)]"

definition encode_type0_header :: "32 word \<Rightarrow> nat \<Rightarrow> byte \<Rightarrow> 32 word \<Rightarrow> bytes" where
  "encode_type0_header timestamp msg_length msg_type msg_stream_id =
     (if timestamp \<ge> 0xFFFFFF then [0xFF, 0xFF, 0xFF] else be24_bytes timestamp) @
     be24_bytes (word_of_nat msg_length) @ [msg_type] @ le32_bytes msg_stream_id @
     (if timestamp \<ge> 0xFFFFFF then be32_bytes timestamp else [])"

text \<open>
  The loop of \<open>encode_message\<close>. With a chunk size of zero it makes no progress: \<open>None\<close> says
  that it never ends.
\<close>

partial_function (option) encode_loop ::
    "byte \<Rightarrow> 32 word \<Rightarrow> 32 word \<Rightarrow> bytes \<Rightarrow> nat \<Rightarrow> nat \<Rightarrow> bytes \<Rightarrow> nat \<Rightarrow> bool \<Rightarrow> bytes option" where
  "encode_loop msg_type timestamp msg_stream_id payload chunk_size csid output i first =
     (if i < length payload then
        let data_len = min chunk_size (length payload - i);
            header = (if first then encode_basic_header 0 csid @
                        encode_type0_header timestamp (length payload) msg_type msg_stream_id
                      else encode_basic_header 3 csid)
        in encode_loop msg_type timestamp msg_stream_id payload chunk_size csid
             (output @ header @ take data_len (drop i payload)) (i + data_len) False
      else Some output)"

declare encode_loop.simps [code]

definition encode_message ::
    "byte \<Rightarrow> 32 word \<Rightarrow> 32 word \<Rightarrow> bytes \<Rightarrow> nat \<Rightarrow> nat \<Rightarrow> bytes option" where
  "encode_message msg_type timestamp msg_stream_id payload chunk_size csid =
     (case encode_loop msg_type timestamp msg_stream_id payload chunk_size csid [] 0 True of
        None \<Rightarrow> None
      | Some output \<Rightarrow>
          Some (if payload = [] then output @ encode_basic_header 0 csid @
                  encode_type0_header timestamp 0 msg_type msg_stream_id
                else output))"

definition encode_set_chunk_size :: "32 word \<Rightarrow> bytes option" where
  "encode_set_chunk_size new_size = encode_message 0x01 0 0 (be32_bytes new_size) 128 2"

definition encode_window_ack_size :: "32 word \<Rightarrow> bytes option" where
  "encode_window_ack_size n = encode_message 0x05 0 0 (be32_bytes n) 128 2"

definition encode_set_peer_bandwidth :: "32 word \<Rightarrow> byte \<Rightarrow> bytes option" where
  "encode_set_peer_bandwidth n limit_type =
     encode_message 0x06 0 0 (be32_bytes n @ [limit_type]) 128 2"

section \<open>Header fields survive the trip\<close>

lemma basic_byte_table:
  "list_all (\<lambda>n. unat ((push_bit 6 (0 :: byte) OR word_of_nat n) AND 0x3F) = n \<and>
      fmt_of_byte (push_bit 6 0 OR word_of_nat n) = Type0 \<and>
      unat ((push_bit 6 (3 :: byte) OR word_of_nat n) AND 0x3F) = n \<and>
      fmt_of_byte (push_bit 6 3 OR word_of_nat n) = Type3) [0..<64]"
  by code_simp

lemma basic_byte:
  assumes "n < 64" and "fmt = 0 \<and> f = Type0 \<or> fmt = 3 \<and> f = Type3"
  shows "unat ((push_bit 6 (fmt :: byte) OR word_of_nat n) AND 0x3F) = n"
    and "fmt_of_byte (push_bit 6 fmt OR word_of_nat n) = f"
  using basic_byte_table assms by (auto simp: list_all_iff)

lemma encode_basic_header_inverse:
  assumes "2 \<le> csid" and "csid < 65600" and "fmt = 0 \<and> f = Type0 \<or> fmt = 3 \<and> f = Type3"
  shows "basic_header (encode_basic_header fmt csid @ rest) =
      Some (length (encode_basic_header fmt csid), csid)"
    and "fmt_of_byte ((encode_basic_header fmt csid @ rest) ! 0) = f"
    and "encode_basic_header fmt csid @ rest \<noteq> []"
proof -
  note b0 = basic_byte [of 0, OF _ assms(3)] and b1 = basic_byte [of 1, OF _ assms(3)]
  note bn = basic_byte [of csid, OF _ assms(3)]
  have hi: "word_of_nat n = (word_of_nat (n mod 256) :: byte)" for n
    by (rule word_of_nat_eq_iff [THEN iffD2]) (simp add: take_bit_eq_mod)
  have three: "64 + unat (word_of_nat (csid - 64) :: byte) +
      unat (word_of_nat ((csid - 64) div 256) :: byte) * 256 = csid" if "64 \<le> csid"
  proof -
    have "(csid - 64) div 256 < 256" using assms(2) by simp
    then have "unat (word_of_nat ((csid - 64) div 256) :: byte) = (csid - 64) div 256"
      by (simp add: unat_of_nat)
    moreover have "unat (word_of_nat (csid - 64) :: byte) = (csid - 64) mod 256"
      by (simp add: unat_of_nat)
    ultimately show ?thesis using that by simp
  qed
  have two: "64 + unat (word_of_nat (csid - 64) :: byte) = csid" if "64 \<le> csid" "csid < 320"
  proof -
    define k where "k = csid - 64"
    then have "k < 256" "csid = 64 + k" using that by simp_all
    then show ?thesis unfolding k_def [symmetric] by (simp add: unat_of_nat)
  qed
  show "basic_header (encode_basic_header fmt csid @ rest) =
      Some (length (encode_basic_header fmt csid), csid)"
    using b0 b1 bn two three assms(1)
    by (simp add: basic_header_def encode_basic_header_def Let_def)
  show "fmt_of_byte ((encode_basic_header fmt csid @ rest) ! 0) = f"
    using b0 b1 bn by (simp add: encode_basic_header_def Let_def)
  show "encode_basic_header fmt csid @ rest \<noteq> []"
    by (simp add: encode_basic_header_def Let_def)
qed

lemma be24_bytes_inverse:
  "be24 (ucast (drop_bit 16 w)) (ucast (drop_bit 8 w)) (ucast w) = take_bit 24 w"
proof -
  have slice: "k + (n - k) = (if k \<le> n then n else k)" for k n :: nat
    by simp
  show ?thesis
    unfolding be24_def by (rule bit_word_eqI) (auto simp: bit_simps slice split: if_splits)
qed

lemma le32_bytes_inverse:
  "le32 (ucast w) (ucast (drop_bit 8 w)) (ucast (drop_bit 16 w)) (ucast (drop_bit 24 w)) = w"
proof -
  have slice: "k + (n - k) = (if k \<le> n then n else k)" for k n :: nat
    by simp
  show ?thesis
    unfolding le32_def by (rule bit_word_eqI) (auto simp: bit_simps slice split: if_splits)
qed

lemma take_bit_24_length: "n < 16777216 \<Longrightarrow> unat (take_bit 24 (word_of_nat n :: 32 word)) = n"
  by (simp add: unsigned_take_bit_eq unat_of_nat take_bit_nat_eq_self)

lemma take_bit_24_small: "w < 0xFFFFFF \<Longrightarrow> take_bit 24 (w :: 32 word) = w"
  by (rule word_unat_eq_iff [THEN iffD2])
    (simp add: unsigned_take_bit_eq take_bit_nat_eq_self word_less_nat_alt)

lemma raw_fields_shift:
  "raw_fields fmt (xs @ ys) (length xs) =
     (case raw_fields fmt ys 0 of (a, b, c, d, i) \<Rightarrow> (a, b, c, d, length xs + i))"
  by (cases fmt) (simp_all add: raw_fields_def nth_append numeral_2_eq_2)

definition type0_header :: "nat \<Rightarrow> 32 word \<Rightarrow> nat \<Rightarrow> byte \<Rightarrow> 32 word \<Rightarrow> chunk_header" where
  "type0_header csid ts len mty msid =
     \<lparr>ch_fmt = Type0, ch_csid = csid, ch_timestamp = ts, ch_msg_length = len, ch_msg_type_id = mty,
      ch_msg_stream_id = msid, ch_has_extended_timestamp = (ts \<ge> 0xFFFFFF)\<rparr>"

lemma parse_type0:
  fixes ts msid :: "32 word" and mty :: byte
  assumes "2 \<le> csid" and "csid < 65600" and "len < 16777216"
  defines "bh \<equiv> encode_basic_header 0 csid" and "mh \<equiv> encode_type0_header ts len mty msid"
  shows "parse_chunk_header (bh @ mh @ rest) headers =
     Some (type0_header csid ts len mty msid, length (bh @ mh),
       headers(csid \<mapsto> type0_header csid ts len mty msid))"
proof -
  note bh = encode_basic_header_inverse [OF assms(1,2), of 0 Type0 "mh @ rest", folded bh_def, simplified]
  let ?T = "if ts \<ge> 0xFFFFFF then 0xFFFFFF else ts"
  have three: "be24 0xFF 0xFF 0xFF = 0xFFFFFF" by (simp add: be24_def)
  have raw: "raw_fields Type0 (mh @ rest) 0 = (?T, len, mty, msid, 11)"
  proof (cases "ts \<ge> 0xFFFFFF")
    case True
    then show ?thesis using take_bit_24_length [OF assms(3)] three
      by (simp add: raw_fields_def mh_def encode_type0_header_def be24_bytes_def le32_bytes_def
          be24_bytes_inverse le32_bytes_inverse nth_Cons')
  next
    case False
    then have "take_bit 24 ts = ts" by (intro take_bit_24_small) simp
    with False show ?thesis using take_bit_24_length [OF assms(3)]
      by (simp add: raw_fields_def mh_def encode_type0_header_def be24_bytes_def le32_bytes_def
          be24_bytes_inverse le32_bytes_inverse nth_Cons')
  qed
  have len: "length mh = (if ts \<ge> 0xFFFFFF then 15 else 11)"
    by (simp add: mh_def encode_type0_header_def be24_bytes_def le32_bytes_def)
  have ext: "extended_timestamp (bh @ mh @ rest) ?T (length bh + 11) =
      Some (ts, length (bh @ mh), ts \<ge> 0xFFFFFF)"
  proof (cases "ts \<ge> 0xFFFFFF")
    case True
    then obtain xs where mh: "mh = xs @ be32_bytes ts" "length xs = 11"
      by (simp add: mh_def encode_type0_header_def be24_bytes_def le32_bytes_def)
    have "be32 (be32_bytes ts ! 0) (be32_bytes ts ! 1) (be32_bytes ts ! 2) (be32_bytes ts ! 3) = ts"
      by (simp add: be32_bytes_def be32_bytes_inverse)
    moreover have "(bh @ mh @ rest) ! (length bh + 11 + k) = be32_bytes ts ! k" if "k < 4" for k
      using that mh by (simp add: nth_append)
    note this [of 0] this [of 1] this [of 2] this [of 3]
    ultimately show ?thesis using True len by (simp add: extended_timestamp_def add.assoc)
  next
    case False
    with len show ?thesis by (auto simp: extended_timestamp_def)
  qed
  have long: "\<not> length (bh @ mh @ rest) < length bh + msg_header_size Type0"
    using len by simp
  from bh raw ext long show ?thesis
    by (simp add: parse_chunk_header_def raw_fields_shift type0_header_def Let_def)
qed

definition as_type3 :: "chunk_header \<Rightarrow> chunk_header" where
  "as_type3 h = h\<lparr>ch_fmt := Type3, ch_has_extended_timestamp := False\<rparr>"

lemma parse_type3:
  assumes "2 \<le> csid" and "csid < 65600" and "headers csid = Some p" and "ch_csid p = csid"
  defines "bh \<equiv> encode_basic_header 3 csid"
  shows "parse_chunk_header (bh @ rest) headers =
     Some (as_type3 p, length bh, headers(csid \<mapsto> as_type3 p))"
proof -
  note bh = encode_basic_header_inverse [OF assms(1,2), of 3 Type3 rest, folded bh_def, simplified]
  then show ?thesis using assms(3,4)
    by (cases p) (simp add: parse_chunk_header_def raw_fields_def extended_timestamp_def inherit_header_def
        as_type3_def Let_def)
qed

section \<open>Fragments of a message\<close>

definition chunk_tail :: "nat \<Rightarrow> nat \<Rightarrow> bytes \<Rightarrow> bytes" where
  "chunk_tail csid n data = concat (map (\<lambda>c. encode_basic_header 3 csid @ c) (chunks_of n data))"

lemma encode_loop_tail:
  assumes "0 < n" and "i \<le> length payload"
  shows "encode_loop mty ts msid payload n csid out i False = Some (out @ chunk_tail csid n (drop i payload))"
  using assms(2)
proof (induction "length payload - i" arbitrary: i out rule: less_induct)
  case less
  show ?case
  proof (cases "i < length payload")
    case False
    with less show ?thesis by (simp add: encode_loop.simps chunk_tail_def)
  next
    case True
    let ?d = "min n (length payload - i)"
    have "chunks_of n (drop i payload) = take ?d (drop i payload) # chunks_of n (drop (i + ?d) payload)"
      using True assms(1) by (simp add: chunks_of_step min_def add.commute)
    moreover have "encode_loop mty ts msid payload n csid out' (i + ?d) False =
        Some (out' @ chunk_tail csid n (drop (i + ?d) payload))" for out'
      using True assms(1) by (intro less) auto
    ultimately show ?thesis using True by (simp add: encode_loop.simps [of _ _ _ _ _ _ out i] chunk_tail_def Let_def)
  qed
qed

lemma encode_message_form:
  assumes "0 < n" and "payload \<noteq> []"
  shows "encode_message mty ts msid payload n csid =
     Some (encode_basic_header 0 csid @ encode_type0_header ts (length payload) mty msid @
       take n payload @ chunk_tail csid n (drop n payload))"
proof -
  let ?d = "min n (length payload)"
  have "drop ?d payload = drop n payload" "take ?d payload = take n payload"
    by (auto simp: min_def)
  with encode_loop_tail [OF assms(1), of ?d payload] assms show ?thesis
    by (simp add: encode_message_def encode_loop.simps [of _ _ _ _ _ _ "[]" 0])
qed

lemma encode_message_diverges:
  assumes "payload \<noteq> []"
  shows "encode_message mty ts msid payload 0 csid = None"
proof -
  have loop: "encode_loop mty ts msid payload 0 csid out 0 first \<noteq> Some res" for out first res
  proof
    assume "encode_loop mty ts msid payload 0 csid out 0 first = Some res"
    moreover have "n = 0 \<longrightarrow> i = 0 \<longrightarrow> pl \<noteq> payload"
      if "encode_loop mty ts msid pl n csid out i first = Some res" for pl n out i first
    proof (rule encode_loop.raw_induct [where P =
          "\<lambda>_ _ _ pl n _ _ i _ _. n = 0 \<longrightarrow> i = 0 \<longrightarrow> pl \<noteq> payload", OF _ that])
      fix f mty ts msid pl n csid out i first and y :: bytes
      assume IH: "\<And>mty ts msid pl n csid out i first y. f mty ts msid pl n csid out i first = Some y \<Longrightarrow>
          n = 0 \<longrightarrow> i = 0 \<longrightarrow> pl \<noteq> payload"
        and eq: "(if i < length pl then
            let data_len = min n (length pl - i);
                header = (if first then encode_basic_header 0 csid @
                            encode_type0_header ts (length pl) mty msid
                          else encode_basic_header 3 csid)
            in f mty ts msid pl n csid (out @ header @ take data_len (drop i pl)) (i + data_len) False
          else Some out) = Some y"
      from eq IH assms show "n = 0 \<longrightarrow> i = 0 \<longrightarrow> pl \<noteq> payload"
        by (auto simp: Let_def split: if_splits)
    qed
    ultimately show False by blast
  qed
  then show ?thesis by (simp add: encode_message_def split: option.split)
qed

section \<open>Reassembly undoes fragmentation\<close>

definition idle_assembler :: "chunk_assembler \<Rightarrow> bool" where
  "idle_assembler a \<longleftrightarrow> as_msg_length a = 0 \<and> as_received a = 0 \<and> as_buffer a = []"

definition emptied :: "chunk_assembler \<Rightarrow> chunk_assembler" where
  "emptied a = a\<lparr>as_msg_length := 0, as_received := 0, as_buffer := []\<rparr>"

lemma idle_emptied [simp]: "idle_assembler (emptied a)"
  by (simp add: idle_assembler_def emptied_def)

lemma emptied_feed_feed: "emptied (feed_assembler (feed_assembler a h d) (as_type3 h) e) = emptied (feed_assembler a h x)"
  by (simp add: emptied_def feed_assembler_def as_type3_def)

lemma feed_type3: "feed_assembler a (as_type3 h) d = feed_assembler a h d"
  by (simp add: feed_assembler_def as_type3_def)

lemma feed_feed: "feed_assembler (feed_assembler a h d) h e = feed_assembler a h (d @ e)"
  by (simp add: feed_assembler_def)

lemma as_type3_fields [simp]:
  "ch_csid (as_type3 h) = ch_csid h" "ch_msg_length (as_type3 h) = ch_msg_length h"
  "as_type3 (as_type3 h) = as_type3 h"
  by (simp_all add: as_type3_def)

lemma feed_fields [simp]:
  "as_msg_length (feed_assembler a h d) = ch_msg_length h"
  "as_received (feed_assembler a h d) = as_received a + length d"
  "as_buffer (feed_assembler a h d) = as_buffer a @ d"
  by (simp_all add: feed_assembler_def)

text \<open>One chunk whose header parses and whose data is there.\<close>

lemma parse_chunks_step:
  assumes "parse_chunk_header buf headers = Some (h, k, headers')"
    and "buf = hd_bytes @ data @ rest" and "length hd_bytes = k"
    and "length data = min n (remaining_msg assemblers h)"
  defines "a \<equiv> feed_assembler (case assemblers (ch_csid h) of Some a \<Rightarrow> a | None \<Rightarrow> assembler_default) h data"
  shows "parse_chunks buf assemblers headers n =
     (if as_received a \<ge> as_msg_length a \<and> as_msg_length a > 0
      then ((rest, assemblers(ch_csid h \<mapsto> emptied a), headers'), Some (message_of a))
      else parse_chunks rest (assemblers(ch_csid h \<mapsto> a)) headers' n)"
proof -
  have "\<not> length buf < k + length data" using assms(2,3) by simp
  moreover have "take (length data) (drop k buf) = data" "drop (k + length data) buf = rest"
    using assms(2,3) by auto
  ultimately show ?thesis
    using assms(1) by (subst parse_chunks.simps) (simp add: Let_def emptied_def a_def flip: assms(4))
qed

lemma parse_chunk_tail:
  assumes "0 < n" and "2 \<le> csid" and "csid < 65600" and "data \<noteq> []"
    and "headers csid = Some p" and "ch_csid p = csid" and "assemblers csid = Some a"
    and "as_msg_length a = ch_msg_length p" and "as_received a + length data = ch_msg_length p"
  shows "parse_chunks (chunk_tail csid n data @ rest) assemblers headers n =
     ((rest, assemblers(csid \<mapsto> emptied (feed_assembler a p data)), headers(csid \<mapsto> as_type3 p)),
      Some (message_of (feed_assembler a p data)))"
  using assms(4-9)
proof (induction "length data" arbitrary: data a p assemblers headers rule: less_induct)
  case less
  let ?c = "take n data" and ?d = "drop n data" and ?bh = "encode_basic_header 3 csid"
  have buf: "chunk_tail csid n data @ rest = ?bh @ ?c @ chunk_tail csid n ?d @ rest"
    using less.prems(1) assms(1) by (simp add: chunk_tail_def chunks_of_step)
  have h: "parse_chunk_header (chunk_tail csid n data @ rest) headers =
      Some (as_type3 p, length ?bh, headers(csid \<mapsto> as_type3 p))"
    unfolding buf by (rule parse_type3 [of csid headers p, OF assms(2,3) less.prems(2,3)])
  have "0 < length data" using less.prems(1) by simp
  then have pos: "0 < ch_msg_length p" using less.prems(6) by linarith
  then have "remaining_msg assemblers (as_type3 p) = length data"
    using less.prems by (auto simp: remaining_msg_def)
  then have "length ?c = min n (remaining_msg assemblers (as_type3 p))" by auto
  note step = parse_chunks_step [OF h buf refl this]
  let ?a = "feed_assembler a p ?c"
  have feed: "feed_assembler (case assemblers (ch_csid (as_type3 p)) of Some a \<Rightarrow> a | None \<Rightarrow> assembler_default)
      (as_type3 p) ?c = ?a"
    using less.prems by (simp add: feed_type3)
  show ?case
  proof (cases "?d = []")
    case True
    then have "?c = data" by simp
    then show ?thesis
      unfolding step feed using less.prems pos True by (simp add: chunk_tail_def)
  next
    case False
    then have len: "n < length data" by simp
    have not_done: "\<not> as_received ?a \<ge> as_msg_length ?a"
      using less.prems(6) len by simp
    have "parse_chunks (chunk_tail csid n ?d @ rest) (assemblers(csid \<mapsto> ?a)) (headers(csid \<mapsto> as_type3 p)) n =
      ((rest, (assemblers(csid \<mapsto> ?a))(csid \<mapsto> emptied (feed_assembler ?a (as_type3 p) ?d)),
        (headers(csid \<mapsto> as_type3 p))(csid \<mapsto> as_type3 (as_type3 p))),
      Some (message_of (feed_assembler ?a (as_type3 p) ?d)))"
      using False less.prems len assms(1) by (intro less.hyps) auto
    then show ?thesis
      unfolding step feed using not_done less.prems(3) by (simp add: feed_type3 feed_feed)
  qed
qed

lemma parse_encoded_message:
  assumes "0 < n" and "2 \<le> csid" and "csid < 65600" and "payload \<noteq> []" and "length payload < 16777216"
    and "assemblers csid = None \<or> (\<exists>a. assemblers csid = Some a \<and> idle_assembler a)"
  shows "\<exists>enc a h. encode_message mty ts msid payload n csid = Some enc \<and> idle_assembler a \<and>
     parse_chunks (enc @ rest) assemblers headers n =
       ((rest, assemblers(csid \<mapsto> a), headers(csid \<mapsto> h)),
        Some \<lparr>rm_msg_type = mty, rm_timestamp = ts, rm_msg_stream_id = msid, rm_payload = payload\<rparr>)"
proof -
  let ?bh = "encode_basic_header 0 csid" and ?mh = "encode_type0_header ts (length payload) mty msid"
  let ?h = "type0_header csid ts (length payload) mty msid"
  let ?c = "take n payload" and ?d = "drop n payload"
  let ?enc = "?bh @ ?mh @ ?c @ chunk_tail csid n ?d"
  define a where "a = (case assemblers csid of Some a \<Rightarrow> a | None \<Rightarrow> assembler_default)"
  have idle: "idle_assembler a"
    using assms(6) by (auto simp: a_def idle_assembler_def assembler_default_def)
  have enc: "encode_message mty ts msid payload n csid = Some ?enc"
    by (rule encode_message_form [OF assms(1,4)])
  have h: "parse_chunk_header (?enc @ rest) headers = Some (?h, length (?bh @ ?mh), headers(csid \<mapsto> ?h))"
    using parse_type0 [OF assms(2,3,5), of ts mty msid "?c @ chunk_tail csid n ?d @ rest" headers] by simp
  have csid: "ch_csid ?h = csid" and len: "ch_msg_length ?h = length payload"
    by (simp_all add: type0_header_def)
  have buf: "?enc @ rest = (?bh @ ?mh) @ ?c @ chunk_tail csid n ?d @ rest" by simp
  have "remaining_msg assemblers ?h = length payload"
    using assms(6) by (auto simp: remaining_msg_def csid len idle_assembler_def)
  then have "length ?c = min n (remaining_msg assemblers ?h)" by auto
  note step = parse_chunks_step [OF h buf refl this, unfolded csid, folded a_def]
  have msg: "message_of (feed_assembler a ?h payload) =
      \<lparr>rm_msg_type = mty, rm_timestamp = ts, rm_msg_stream_id = msid, rm_payload = payload\<rparr>"
    using idle by (simp add: message_of_def feed_assembler_def type0_header_def idle_assembler_def)
  have "\<exists>a' h'. idle_assembler a' \<and> parse_chunks (?enc @ rest) assemblers headers n =
      ((rest, assemblers(csid \<mapsto> a'), headers(csid \<mapsto> h')), Some (message_of (feed_assembler a ?h payload)))"
  proof (cases "?d = []")
    case True
    then have c: "?c = payload" by simp
    have "chunk_tail csid n ?d = []" using True by (simp add: chunk_tail_def)
    with c idle assms(4) have "parse_chunks (?enc @ rest) assemblers headers n =
        ((rest, assemblers(csid \<mapsto> emptied (feed_assembler a ?h payload)), headers(csid \<mapsto> ?h)),
         Some (message_of (feed_assembler a ?h payload)))"
      unfolding step by (simp add: len idle_assembler_def)
    then show ?thesis using idle_emptied by blast
  next
    case False
    let ?a = "feed_assembler a ?h ?c"
    from False have lt: "n < length payload" by simp
    have "parse_chunks (chunk_tail csid n ?d @ rest) (assemblers(csid \<mapsto> ?a)) (headers(csid \<mapsto> ?h)) n =
        ((rest, (assemblers(csid \<mapsto> ?a))(csid \<mapsto> emptied (feed_assembler ?a ?h ?d)),
          (headers(csid \<mapsto> ?h))(csid \<mapsto> as_type3 ?h)),
         Some (message_of (feed_assembler ?a ?h ?d)))"
      using assms(1,2,3) False lt idle csid
      by (intro parse_chunk_tail) (auto simp: len idle_assembler_def)
    moreover have "\<not> as_received ?a \<ge> as_msg_length ?a"
      using lt idle by (simp add: len idle_assembler_def)
    ultimately have "parse_chunks (?enc @ rest) assemblers headers n =
        ((rest, assemblers(csid \<mapsto> emptied (feed_assembler ?a ?h ?d)), headers(csid \<mapsto> as_type3 ?h)),
         Some (message_of (feed_assembler a ?h payload)))"
      unfolding step by (simp add: feed_feed)
    then show ?thesis using idle_emptied by blast
  qed
  with enc msg show ?thesis by auto
qed

text \<open>Up to \<open>k\<close> calls of \<open>parse_chunks\<close> on one receive buffer, until one returns no message.\<close>

fun parse_messages ::
    "nat \<Rightarrow> bytes \<Rightarrow> assembler_map \<Rightarrow> header_map \<Rightarrow> nat \<Rightarrow> bytes \<times> rtmp_message list" where
  "parse_messages 0 buf assemblers headers n = (buf, [])"
| "parse_messages (Suc k) buf assemblers headers n =
     (case parse_chunks buf assemblers headers n of
        ((buf', _, _), None) \<Rightarrow> (buf', [])
      | ((buf', as', hs'), Some m) \<Rightarrow>
          (case parse_messages k buf' as' hs' n of (buf'', ms) \<Rightarrow> (buf'', m # ms)))"

definition encode_rtmp :: "nat \<Rightarrow> nat \<times> rtmp_message \<Rightarrow> bytes option" where
  "encode_rtmp n q =
     encode_message (rm_msg_type (snd q)) (rm_timestamp (snd q)) (rm_msg_stream_id (snd q))
       (rm_payload (snd q)) n (fst q)"

definition message_fits :: "nat \<times> rtmp_message \<Rightarrow> bool" where
  "message_fits q \<longleftrightarrow> 2 \<le> fst q \<and> fst q < 65600 \<and> rm_payload (snd q) \<noteq> [] \<and>
     length (rm_payload (snd q)) < 16777216"

definition all_idle :: "assembler_map \<Rightarrow> bool" where
  "all_idle assemblers \<longleftrightarrow> (\<forall>c a. assemblers c = Some a \<longrightarrow> idle_assembler a)"

lemma parse_messages_encoded:
  assumes "0 < n" and "\<forall>q\<in>set qs. message_fits q" and "all_idle assemblers"
  shows "parse_messages (length qs) (concat (map (\<lambda>q. the (encode_rtmp n q)) qs)) assemblers headers n =
     ([], map snd qs)"
  using assms(2,3)
proof (induction qs arbitrary: assemblers headers)
  case Nil
  then show ?case by simp
next
  case (Cons q qs)
  obtain c m where q: "q = (c, m)" by fastforce
  let ?rest = "concat (map (\<lambda>q. the (encode_rtmp n q)) qs)"
  from Cons.prems q have "assemblers c = None \<or> (\<exists>a. assemblers c = Some a \<and> idle_assembler a)"
    by (auto simp: all_idle_def)
  then obtain enc a h where e: "encode_rtmp n q = Some enc" "idle_assembler a"
    "parse_chunks (enc @ ?rest) assemblers headers n =
       ((?rest, assemblers(c \<mapsto> a), headers(c \<mapsto> h)), Some m)"
    using parse_encoded_message [OF assms(1), of c "rm_payload m" assemblers "rm_msg_type m"
        "rm_timestamp m" "rm_msg_stream_id m" ?rest headers] Cons.prems q
    by (auto simp: encode_rtmp_def message_fits_def)
  moreover have "all_idle (assemblers(c \<mapsto> a))" using Cons.prems(2) e(2) by (simp add: all_idle_def)
  ultimately show ?case using Cons q by simp
qed

section \<open>Properties\<close>



text \<open>
  \<open>encode_message\<close> returns exactly when the chunk size is positive or the payload empty; with a
  chunk size of zero and a payload it writes continuation headers for ever.
\<close>

theorem encode_message_returns_iff:
  "encode_message mty ts msid payload n csid \<noteq> None \<longleftrightarrow> 0 < n \<or> payload = []"
proof (cases "payload = []")
  case True
  then show ?thesis by (simp add: encode_message_def encode_loop.simps)
next
  case False
  then show ?thesis
    using encode_message_form [of n payload] encode_message_diverges [OF False] by (cases n) auto
qed

definition type1_chunk :: "byte \<Rightarrow> byte \<Rightarrow> bytes \<Rightarrow> bytes" where
  "type1_chunk d mty payload = [0x44, 0, 0, d, 0, 0, word_of_nat (length payload), mty] @ payload"

definition type1_header :: "byte \<Rightarrow> byte \<Rightarrow> nat \<Rightarrow> chunk_header \<Rightarrow> chunk_header" where
  "type1_header d mty l p =
     \<lparr>ch_fmt = Type1, ch_csid = 4, ch_timestamp = ucast d + ch_timestamp p, ch_msg_length = l,
      ch_msg_type_id = mty, ch_msg_stream_id = ch_msg_stream_id p, ch_has_extended_timestamp = False\<rparr>"

lemma parse_type1:
  assumes "l < 256" and "headers 4 = Some p"
  shows "parse_chunk_header ([0x44, 0, 0, d, 0, 0, word_of_nat l, mty] @ rest) headers =
     Some (type1_header d mty l p, 8, headers(4 \<mapsto> type1_header d mty l p))"
proof -
  have small: "be24 0 0 b = ucast b" "unat (ucast b :: 32 word) = unat b" for b :: byte
  proof -
    have "unat b < 2 ^ 32" by (rule less_trans [OF unat_byte_less]) simp
    then show "unat (ucast b :: 32 word) = unat b"
      by (simp add: unsigned_ucast_eq take_bit_nat_eq_self)
  qed (simp add: be24_def)
  have "unat (word_of_nat l :: byte) = l" using assms(1) by (simp add: unat_of_nat)
  moreover have "ucast d \<noteq> (0xFFFFFF :: 32 word)"
  proof
    assume "ucast d = (0xFFFFFF :: 32 word)"
    then have "unat (ucast d :: 32 word) = unat (0xFFFFFF :: 32 word)" by simp
    with small(2) [of d] unat_byte_less [of d] show False by simp
  qed
  ultimately show ?thesis
    using assms small by (simp add: parse_chunk_header_def basic_header_def fmt_of_byte_def raw_fields_def
        extended_timestamp_def inherit_header_def Let_def type1_header_def nth_Cons')
qed

text \<open>
  A delta can be added twice. When the header of a type 1 chunk is complete but its data is
  not, \<open>parse_chunks\<close> leaves the buffer as it is and yet records the header with the delta
  already added; the call that finds the rest of the data parses the same header again and adds
  the delta to that, so the message is stamped with twice the delta.
\<close>

theorem delta_added_twice:
  fixes d mty :: byte
  assumes "payload \<noteq> []" and "length payload < 256" and "length payload \<le> n"
    and "headers 4 = Some p" and "assemblers 4 = None" and "k < length payload"
  defines "chunk \<equiv> type1_chunk d mty payload"
  shows "\<exists>headers' st st'.
     parse_chunks (take (8 + k) chunk) assemblers headers n =
       ((take (8 + k) chunk, assemblers, headers'), None) \<and>
     parse_chunks chunk assemblers headers' n = (st, Some \<lparr>rm_msg_type = mty,
       rm_timestamp = ch_timestamp p + 2 * ucast d, rm_msg_stream_id = ch_msg_stream_id p,
       rm_payload = payload\<rparr>) \<and>
     parse_chunks chunk assemblers headers n = (st', Some \<lparr>rm_msg_type = mty,
       rm_timestamp = ch_timestamp p + ucast d, rm_msg_stream_id = ch_msg_stream_id p,
       rm_payload = payload\<rparr>)"
proof -
  let ?l = "length payload"
  let ?hd = "[0x44, 0, 0, d, 0, 0, word_of_nat ?l, mty]"
  have whole: "\<exists>st. parse_chunks chunk assemblers hs n = (st, Some \<lparr>rm_msg_type = mty,
       rm_timestamp = ch_timestamp q + ucast d, rm_msg_stream_id = ch_msg_stream_id q,
       rm_payload = payload\<rparr>)" if "hs 4 = Some q" for hs q
  proof -
    note h = parse_type1 [where headers = hs and p = q, OF assms(2) that, of d mty payload]
    have "length payload = min n (remaining_msg assemblers (type1_header d mty ?l q))"
      using assms(3,5) by (simp add: remaining_msg_def type1_header_def)
    from parse_chunks_step [OF h _ _ this, of ?hd "[]"] assms(1,5) show ?thesis
      by (simp add: chunk_def type1_chunk_def type1_header_def assembler_default_def
          message_of_def feed_assembler_def add.commute)
  qed
  let ?h = "type1_header d mty ?l p"
  have cut: "take (8 + k) chunk = ?hd @ take k payload" 
    unfolding chunk_def type1_chunk_def by (subst take_append) (simp add: take_Cons')
  have "parse_chunks (take (8 + k) chunk) assemblers headers n =
      ((take (8 + k) chunk, assemblers, headers(4 \<mapsto> ?h)), None)"
    unfolding cut using parse_type1 [where headers = headers and p = p, OF assms(2,4), of d mty "take k payload"] assms(3,5,6)
    by (subst parse_chunks.simps) (simp add: remaining_msg_def type1_header_def Let_def)
  moreover have "ch_timestamp ?h + ucast d = ch_timestamp p + 2 * ucast d"
    "ch_msg_stream_id ?h = ch_msg_stream_id p" by (simp_all add: type1_header_def)
  then have "\<exists>st. parse_chunks chunk assemblers (headers(4 \<mapsto> ?h)) n = (st, Some \<lparr>rm_msg_type = mty,
       rm_timestamp = ch_timestamp p + 2 * ucast d, rm_msg_stream_id = ch_msg_stream_id p,
       rm_payload = payload\<rparr>)"
    using whole [of "headers(4 \<mapsto> ?h)" ?h] by (simp add: add.commute)
  ultimately show ?thesis using whole [of headers p, OF assms(4)] by blast
qed

theorem delta_added_twice_witness:
  "\<exists>hs st. parse_chunks [0x44, 0, 0, 40, 0, 0, 3, 9, 1, 2] Map.empty
       [4 \<mapsto> type0_header 4 1000 3 9 1] 128 =
       (([0x44, 0, 0, 40, 0, 0, 3, 9, 1, 2], Map.empty, hs), None) \<and>
     parse_chunks [0x44, 0, 0, 40, 0, 0, 3, 9, 1, 2, 3] Map.empty hs 128 =
       (st, Some \<lparr>rm_msg_type = 9, rm_timestamp = 1080, rm_msg_stream_id = 1, rm_payload = [1, 2, 3]\<rparr>)"
proof -
  define p where "p = type0_header 4 1000 3 9 1"
  define hs0 :: header_map where "hs0 = [4 \<mapsto> p]"
  have chunk: "type1_chunk 40 9 [1, 2, 3] = [0x44, 0, 0, 40, 0, 0, 3, 9, 1, 2, 3]"
    by (simp add: type1_chunk_def)
  have cut: "take (8 + 2) [0x44, 0, 0, 40, 0, 0, 3, 9, 1, 2, 3 :: byte] = [0x44, 0, 0, 40, 0, 0, 3, 9, 1, 2]"
    by simp
  have ts: "ch_timestamp p + 2 * ucast (40 :: byte) = 1080" "ch_msg_stream_id p = 1"
    by (simp_all add: p_def type0_header_def)
  have "hs0 4 = Some p" by (simp add: hs0_def)
  from delta_added_twice [of "[1, 2, 3]" 128 hs0 p Map.empty 2 40 9, OF _ _ _ this, unfolded chunk cut ts]
  show ?thesis unfolding p_def [symmetric] hs0_def [symmetric] by fastforce
qed

end
