(* ===== verification/Frame_Ring.thy ===== *)
theory Frame_Ring
  imports Media
begin

text \<open>
  The GOP-aware frame cache of \<open>src/src/core/frame_ring.rs\<close>. A ring keeps the stored frames
  in order of their sequence number, the sequence numbers of the video keyframes whose group
  of pictures (GOP) it still holds, and the bytes in use. Sequence numbers and sizes are
  natural numbers (\<open>u64\<close>/\<open>usize\<close> counters of frames and of bytes held in memory).

  \<open>evict_if_needed\<close> is a loop that does not always end, so it is a partial function: \<open>None\<close>
  says that the call never returns. \<open>push_returns_iff\<close> says exactly when it does.
\<close>

definition DEFAULT_CAPACITY_FRAMES :: nat where
  "DEFAULT_CAPACITY_FRAMES = 512"

definition DEFAULT_CAPACITY_BYTES :: nat where
  "DEFAULT_CAPACITY_BYTES = 32 * 1024 * 1024"

definition MIN_GOPS_RETAINED :: nat where
  "MIN_GOPS_RETAINED = 1"

datatype snap_mode = LiveEdge | LatestIdr

record stored_frame =
  sf_seq :: nat
  sf_stream_id :: stream_id
  sf_track_id :: track_id
  sf_timestamp :: nat
  sf_clock_rate :: "nat option"
  sf_codec :: codec_type
  sf_is_keyframe :: bool
  sf_data :: bytes

definition to_media_frame :: "stored_frame \<Rightarrow> media_frame" where
  "to_media_frame f =
     with_optional_clock_rate
       (media_frame_new (sf_stream_id f) (sf_track_id f) (sf_timestamp f) (sf_data f)
          (sf_is_keyframe f) (sf_codec f))
       (sf_clock_rate f)"

record frame_ring =
  fr_capacity_frames :: nat
  fr_capacity_bytes :: nat
  fr_slots :: "stored_frame list"
  fr_idr_seqs :: "nat list"
  fr_gop_starts :: "nat list"
  fr_write_seq :: nat
  fr_bytes_used :: nat

definition with_capacity :: "nat \<Rightarrow> nat \<Rightarrow> frame_ring" where
  "with_capacity cf cb =
     \<lparr>fr_capacity_frames = cf, fr_capacity_bytes = cb, fr_slots = [], fr_idr_seqs = [],
      fr_gop_starts = [], fr_write_seq = 0, fr_bytes_used = 0\<rparr>"

definition frame_ring_new :: frame_ring where
  "frame_ring_new = with_capacity DEFAULT_CAPACITY_FRAMES DEFAULT_CAPACITY_BYTES"

section \<open>Keyframe detection\<close>

function annex_b_idr_from :: "bytes \<Rightarrow> nat \<Rightarrow> bool" where
  "annex_b_idr_from data i =
     (if i + 4 < length data then
        if prefix [0, 0, 0, 1] (drop i data) then
          if i + 4 < length data \<and> (data ! (i + 4)) AND 0x1F = 5 then True
          else annex_b_idr_from data (i + 4)
        else if i + 3 < length data \<and> take 3 (drop i data) = [0, 0, 1] then
          if i + 3 < length data \<and> (data ! (i + 3)) AND 0x1F = 5 then True
          else annex_b_idr_from data (i + 3)
        else annex_b_idr_from data (i + 1)
      else False)"
  by pat_completeness auto
termination
  by (relation "measure (\<lambda>(data, i). length data - i)") auto

declare annex_b_idr_from.simps [simp del]

definition annex_b_contains_idr :: "bytes \<Rightarrow> bool" where
  "annex_b_contains_idr data = annex_b_idr_from data 0"

definition is_video_keyframe :: "media_frame \<Rightarrow> bool" where
  "is_video_keyframe f =
     (if \<not> is_video_codec (mf_codec f) then False
      else if mf_is_keyframe f then True
      else annex_b_contains_idr (mf_data f))"

definition is_playable_video :: "media_frame \<Rightarrow> bool" where
  "is_playable_video f \<longleftrightarrow> is_video_codec (mf_codec f) \<and> mf_data f \<noteq> []"

section \<open>Eviction\<close>

definition needs_evict :: "frame_ring \<Rightarrow> bool" where
  "needs_evict r \<longleftrightarrow> length (fr_slots r) > fr_capacity_frames r \<or> fr_bytes_used r > fr_capacity_bytes r"

text \<open>\<open>retain\<close> visits the slots in order and lowers \<open>bytes_used\<close> at each one it drops.\<close>

definition remove_seq_range :: "frame_ring \<Rightarrow> nat \<Rightarrow> nat \<Rightarrow> frame_ring" where
  "remove_seq_range r start end =
     (let drops = (\<lambda>f. start \<le> sf_seq f \<and> sf_seq f < end)
      in r\<lparr>fr_slots := filter (\<lambda>f. \<not> drops f) (fr_slots r),
           fr_bytes_used := foldl (\<lambda>b f. if drops f then b - length (sf_data f) else b)
                              (fr_bytes_used r) (fr_slots r)\<rparr>)"

definition evict_oldest_gop :: "frame_ring \<Rightarrow> frame_ring" where
  "evict_oldest_gop r =
     (case fr_gop_starts r of
        [] \<Rightarrow> r
      | start # rest \<Rightarrow>
          let r1 = r\<lparr>fr_gop_starts := rest\<rparr>;
              end = (case rest of [] \<Rightarrow> fr_write_seq r1 | s # _ \<Rightarrow> s);
              r2 = remove_seq_range r1 start end
          in r2\<lparr>fr_idr_seqs := filter (\<lambda>s. s \<noteq> start) (fr_idr_seqs r2)\<rparr>)"

definition flagged_key :: "stored_frame \<Rightarrow> bool" where
  "flagged_key f \<longleftrightarrow> sf_is_keyframe f \<and> is_video_codec (sf_codec f)"

fun drop_until_key :: "stored_frame list \<Rightarrow> nat \<Rightarrow> stored_frame list \<times> nat" where
  "drop_until_key [] used = ([], used)"
| "drop_until_key (f # fs) used =
     (if flagged_key f then (f # fs, used) else drop_until_key fs (used - length (sf_data f)))"

definition evict_front_until_keyframe_or_empty :: "frame_ring \<Rightarrow> frame_ring" where
  "evict_front_until_keyframe_or_empty r =
     (let (slots, used) = drop_until_key (fr_slots r) (fr_bytes_used r)
      in r\<lparr>fr_slots := slots, fr_bytes_used := used\<rparr>)"

partial_function (option) evict_if_needed :: "frame_ring \<Rightarrow> frame_ring option" where
  "evict_if_needed r =
     (if needs_evict r then
        if length (fr_gop_starts r) > MIN_GOPS_RETAINED then
          evict_if_needed (evict_oldest_gop r)
        else if length (fr_slots r) > 1 then
          evict_if_needed (evict_front_until_keyframe_or_empty r)
        else Some r
      else Some r)"

declare evict_if_needed.simps [code]

section \<open>Operations\<close>

definition stored_of :: "nat \<Rightarrow> media_frame \<Rightarrow> stored_frame" where
  "stored_of seq f =
     \<lparr>sf_seq = seq, sf_stream_id = mf_stream_id f, sf_track_id = mf_track_id f,
      sf_timestamp = mf_timestamp f, sf_clock_rate = mf_clock_rate f, sf_codec = mf_codec f,
      sf_is_keyframe = mf_is_keyframe f, sf_data = mf_data f\<rparr>"

text \<open>The state \<open>push\<close> builds before it calls \<open>evict_if_needed\<close>.\<close>

definition append_frame :: "frame_ring \<Rightarrow> media_frame \<Rightarrow> frame_ring" where
  "append_frame r f =
     (let seq = fr_write_seq r;
          r1 = (if is_video_keyframe f
                then r\<lparr>fr_gop_starts := fr_gop_starts r @ [seq],
                       fr_idr_seqs := fr_idr_seqs r @ [seq]\<rparr>
                else r)
      in r1\<lparr>fr_bytes_used := fr_bytes_used r1 + length (mf_data f),
            fr_slots := fr_slots r1 @ [stored_of seq f],
            fr_write_seq := fr_write_seq r1 + 1\<rparr>)"

definition push :: "frame_ring \<Rightarrow> media_frame \<Rightarrow> (frame_ring \<times> nat) option" where
  "push r f =
     (case evict_if_needed (append_frame r f) of
        None \<Rightarrow> None
      | Some r' \<Rightarrow> Some (r', fr_write_seq r))"

definition ring_get :: "frame_ring \<Rightarrow> nat \<Rightarrow> stored_frame option" where
  "ring_get r seq = find (\<lambda>f. sf_seq f = seq) (fr_slots r)"

definition latest_seq :: "frame_ring \<Rightarrow> nat" where
  "latest_seq r = fr_write_seq r - 1"

definition oldest_seq :: "frame_ring \<Rightarrow> nat option" where
  "oldest_seq r = (case fr_slots r of [] \<Rightarrow> None | f # _ \<Rightarrow> Some (sf_seq f))"

definition ring_is_empty :: "frame_ring \<Rightarrow> bool" where
  "ring_is_empty r \<longleftrightarrow> fr_slots r = []"

definition ring_len :: "frame_ring \<Rightarrow> nat" where
  "ring_len r = length (fr_slots r)"

definition latest_idr_seq :: "frame_ring \<Rightarrow> nat option" where
  "latest_idr_seq r = (if fr_idr_seqs r = [] then None else Some (last (fr_idr_seqs r)))"

definition latest_idr_frame :: "frame_ring \<Rightarrow> media_frame option" where
  "latest_idr_frame r =
     (case latest_idr_seq r of
        None \<Rightarrow> None
      | Some seq \<Rightarrow> map_option to_media_frame (ring_get r seq))"

fun snap :: "frame_ring \<Rightarrow> snap_mode \<Rightarrow> nat" where
  "snap r LiveEdge = latest_seq r"
| "snap r LatestIdr = (case latest_idr_seq r of Some s \<Rightarrow> s | None \<Rightarrow> latest_seq r)"

definition frames_from :: "frame_ring \<Rightarrow> nat \<Rightarrow> nat \<Rightarrow> media_frame list" where
  "frames_from r from_seq to_seq =
     map to_media_frame
       (filter (\<lambda>f. from_seq \<le> sf_seq f \<and> sf_seq f \<le> to_seq) (fr_slots r))"

text \<open>A run of pushes into a fresh ring.\<close>

fun push_all :: "frame_ring \<Rightarrow> media_frame list \<Rightarrow> frame_ring option" where
  "push_all r [] = Some r"
| "push_all r (f # fs) =
     (case push r f of None \<Rightarrow> None | Some (r', _) \<Rightarrow> push_all r' fs)"


section \<open>What an eviction keeps\<close>

abbreviation slot_bytes :: "stored_frame list \<Rightarrow> nat" where
  "slot_bytes fs \<equiv> sum_list (map (\<lambda>f. length (sf_data f)) fs)"

lemma foldl_drop_bytes:
  "slot_bytes fs \<le> b \<Longrightarrow>
   foldl (\<lambda>b f. if P f then b - length (sf_data f) else b) b fs = b - slot_bytes (filter P fs)"
  by (induction fs arbitrary: b) auto

lemma slot_bytes_split:
  "slot_bytes fs = slot_bytes (filter P fs) + slot_bytes (filter (\<lambda>f. \<not> P f) fs)"
  by (induction fs) auto

lemma remove_seq_range_bytes:
  assumes "fr_bytes_used r = slot_bytes (fr_slots r)"
  shows "fr_bytes_used (remove_seq_range r s e) = slot_bytes (fr_slots (remove_seq_range r s e))"
  using slot_bytes_split [of "fr_slots r" "\<lambda>f. s \<le> sf_seq f \<and> sf_seq f < e"] assms
  by (simp add: remove_seq_range_def Let_def foldl_drop_bytes)

lemma drop_until_key_split:
  "drop_until_key fs b = (fs', b') \<Longrightarrow>
   \<exists>dropped. fs = dropped @ fs' \<and> (\<forall>f\<in>set dropped. \<not> flagged_key f) \<and>
     (fs' \<noteq> [] \<longrightarrow> flagged_key (hd fs')) \<and>
     (slot_bytes fs \<le> b \<longrightarrow> b' = b - slot_bytes dropped)"
proof (induction fs b rule: drop_until_key.induct)
  case (1 used)
  then show ?case by simp
next
  case (2 f fs used)
  show ?case
  proof (cases "flagged_key f")
    case True
    with 2 show ?thesis by (intro exI [of _ "[]"]) auto
  next
    case False
    with 2 obtain dropped where
      "fs = dropped @ fs' \<and> (\<forall>f\<in>set dropped. \<not> flagged_key f) \<and>
       (fs' \<noteq> [] \<longrightarrow> flagged_key (hd fs')) \<and>
       (slot_bytes fs \<le> used - length (sf_data f) \<longrightarrow>
          b' = used - length (sf_data f) - slot_bytes dropped)"
      by auto
    with False show ?thesis by (intro exI [of _ "f # dropped"]) auto
  qed
qed

lemma evict_front_cases:
  obtains dropped where
    "fr_slots r = dropped @ fr_slots (evict_front_until_keyframe_or_empty r)"
    "\<And>f. f \<in> set dropped \<Longrightarrow> \<not> flagged_key f"
    "fr_slots (evict_front_until_keyframe_or_empty r) \<noteq> [] \<Longrightarrow>
       flagged_key (hd (fr_slots (evict_front_until_keyframe_or_empty r)))"
    "fr_bytes_used r = slot_bytes (fr_slots r) \<Longrightarrow>
       fr_bytes_used (evict_front_until_keyframe_or_empty r) =
       slot_bytes (fr_slots (evict_front_until_keyframe_or_empty r))"
proof -
  obtain fs' b' where d: "drop_until_key (fr_slots r) (fr_bytes_used r) = (fs', b')"
    by (cases "drop_until_key (fr_slots r) (fr_bytes_used r)")
  from drop_until_key_split [OF d] obtain dropped where
    "fr_slots r = dropped @ fs'" "\<forall>f\<in>set dropped. \<not> flagged_key f"
    "fs' \<noteq> [] \<longrightarrow> flagged_key (hd fs')"
    "slot_bytes (fr_slots r) \<le> fr_bytes_used r \<longrightarrow> b' = fr_bytes_used r - slot_bytes dropped"
    by blast
  with d show thesis
    by (intro that [of dropped]) (auto simp: evict_front_until_keyframe_or_empty_def)
qed

lemma evict_fields [simp]:
  "fr_write_seq (evict_oldest_gop r) = fr_write_seq r"
  "fr_capacity_frames (evict_oldest_gop r) = fr_capacity_frames r"
  "fr_capacity_bytes (evict_oldest_gop r) = fr_capacity_bytes r"
  "fr_gop_starts (evict_oldest_gop r) = tl (fr_gop_starts r)"
  "fr_write_seq (evict_front_until_keyframe_or_empty r) = fr_write_seq r"
  "fr_capacity_frames (evict_front_until_keyframe_or_empty r) = fr_capacity_frames r"
  "fr_capacity_bytes (evict_front_until_keyframe_or_empty r) = fr_capacity_bytes r"
  "fr_gop_starts (evict_front_until_keyframe_or_empty r) = fr_gop_starts r"
  "fr_idr_seqs (evict_front_until_keyframe_or_empty r) = fr_idr_seqs r"
  by (auto simp: evict_oldest_gop_def remove_seq_range_def Let_def
      evict_front_until_keyframe_or_empty_def split: list.splits prod.splits)

text \<open>Partial correctness of the loop: an invariant of both eviction steps holds on return.\<close>

lemma evict_if_needed_rule:
  assumes "evict_if_needed r = Some r'" and "I r"
    and gop: "\<And>r. I r \<Longrightarrow> needs_evict r \<Longrightarrow> length (fr_gop_starts r) > 1 \<Longrightarrow> I (evict_oldest_gop r)"
    and front: "\<And>r. I r \<Longrightarrow> needs_evict r \<Longrightarrow> length (fr_gop_starts r) \<le> 1 \<Longrightarrow>
      length (fr_slots r) > 1 \<Longrightarrow> I (evict_front_until_keyframe_or_empty r)"
  shows "I r' \<and> (\<not> needs_evict r' \<or> length (fr_slots r') \<le> 1)"
proof -
  have "I r \<longrightarrow> I r' \<and> (\<not> needs_evict r' \<or> length (fr_slots r') \<le> 1)"
  proof (rule evict_if_needed.raw_induct [where P =
        "\<lambda>r r'. I r \<longrightarrow> I r' \<and> (\<not> needs_evict r' \<or> length (fr_slots r') \<le> 1)", OF _ assms(1)])
    fix f r r'
    assume IH: "\<And>r r'. f r = Some r' \<Longrightarrow>
        I r \<longrightarrow> I r' \<and> (\<not> needs_evict r' \<or> length (fr_slots r') \<le> 1)"
      and eq: "(if needs_evict r then
          if length (fr_gop_starts r) > MIN_GOPS_RETAINED then f (evict_oldest_gop r)
          else if length (fr_slots r) > 1 then f (evict_front_until_keyframe_or_empty r)
          else Some r
        else Some r) = Some r'"
    from eq IH gop front show "I r \<longrightarrow> I r' \<and> (\<not> needs_evict r' \<or> length (fr_slots r') \<le> 1)"
      by (auto simp: MIN_GOPS_RETAINED_def not_less split: if_splits)
  qed
  with assms(2) show ?thesis by blast
qed


section \<open>The ring against the history of pushed frames\<close>

text \<open>
  The abstract state of a ring is the list of all frames ever pushed; a frame's sequence
  number is its position. \<open>gop_seqs\<close> are the positions of the video keyframes.
\<close>

definition gop_seqs :: "media_frame list \<Rightarrow> nat list" where
  "gop_seqs hist = filter (\<lambda>i. is_video_keyframe (hist ! i)) [0..<length hist]"

definition ring_rep :: "media_frame list \<Rightarrow> frame_ring \<Rightarrow> bool" where
  "ring_rep hist r \<longleftrightarrow>
     fr_write_seq r = length hist \<and>
     sorted_wrt (<) (map sf_seq (fr_slots r)) \<and>
     (\<forall>f\<in>set (fr_slots r). sf_seq f < length hist \<and> f = stored_of (sf_seq f) (hist ! sf_seq f)) \<and>
     fr_bytes_used r = slot_bytes (fr_slots r) \<and>
     fr_idr_seqs r = fr_gop_starts r \<and>
     suffix (fr_gop_starts r) (gop_seqs hist) \<and>
     (gop_seqs hist \<noteq> [] \<longrightarrow> fr_gop_starts r \<noteq> []) \<and>
     (\<forall>f\<in>set (fr_slots r). flagged_key f \<longrightarrow> sf_seq f \<in> set (fr_gop_starts r))"

text \<open>From the oldest retained GOP on, every pushed frame is still there.\<close>

definition ring_complete :: "frame_ring \<Rightarrow> bool" where
  "ring_complete r \<longleftrightarrow>
     (\<forall>g gs. fr_gop_starts r = g # gs \<longrightarrow> {g..<fr_write_seq r} \<subseteq> sf_seq ` set (fr_slots r))"

lemma gop_seqs_Nil [simp]: "gop_seqs [] = []"
  by (simp add: gop_seqs_def)

lemma gop_seqs_snoc:
  "gop_seqs (hist @ [m]) = gop_seqs hist @ (if is_video_keyframe m then [length hist] else [])"
proof -
  have "filter (\<lambda>i. is_video_keyframe ((hist @ [m]) ! i)) [0..<length hist] = gop_seqs hist"
    unfolding gop_seqs_def by (rule filter_cong) (auto simp: nth_append)
  then show ?thesis by (simp add: gop_seqs_def)
qed

lemma sorted_gop_seqs: "sorted_wrt (<) (gop_seqs hist)"
  by (simp add: gop_seqs_def sorted_wrt_filter strict_sorted_iff)

lemma gop_seqs_less: "i \<in> set (gop_seqs hist) \<Longrightarrow> i < length hist \<and> is_video_keyframe (hist ! i)"
  by (simp add: gop_seqs_def)

lemma stored_of_simps [simp]:
  "sf_seq (stored_of i m) = i" "sf_data (stored_of i m) = mf_data m"
  "flagged_key (stored_of i m) \<longleftrightarrow> mf_is_keyframe m \<and> is_video_codec (mf_codec m)"
  by (simp_all add: stored_of_def flagged_key_def)

lemma append_frame_simps [simp]:
  "fr_write_seq (append_frame r m) = Suc (fr_write_seq r)"
  "fr_slots (append_frame r m) = fr_slots r @ [stored_of (fr_write_seq r) m]"
  "fr_bytes_used (append_frame r m) = fr_bytes_used r + length (mf_data m)"
  "fr_capacity_frames (append_frame r m) = fr_capacity_frames r"
  "fr_capacity_bytes (append_frame r m) = fr_capacity_bytes r"
  "fr_gop_starts (append_frame r m) =
     fr_gop_starts r @ (if is_video_keyframe m then [fr_write_seq r] else [])"
  "fr_idr_seqs (append_frame r m) =
     fr_idr_seqs r @ (if is_video_keyframe m then [fr_write_seq r] else [])"
  by (auto simp: append_frame_def Let_def)

lemma ring_rep_new: "ring_rep [] (with_capacity cf cb)"
  by (simp add: ring_rep_def with_capacity_def)

lemma ring_complete_new: "ring_complete (with_capacity cf cb)"
  by (simp add: ring_complete_def with_capacity_def)

lemma ring_rep_append:
  assumes "ring_rep hist r"
  shows "ring_rep (hist @ [m]) (append_frame r m)"
proof -
  have "\<exists>ys. gop_seqs hist = ys @ fr_gop_starts r"
    using assms by (simp add: ring_rep_def suffix_def)
  then have "suffix (fr_gop_starts (append_frame r m)) (gop_seqs (hist @ [m]))"
    using assms by (auto simp: ring_rep_def suffix_def gop_seqs_snoc)
  moreover have "\<forall>f\<in>set (fr_slots r). f = stored_of (sf_seq f) ((hist @ [m]) ! sf_seq f)"
    using assms by (auto simp: ring_rep_def nth_append)
  moreover have "fr_gop_starts (append_frame r m) \<noteq> []" if "gop_seqs (hist @ [m]) \<noteq> []"
    using that assms by (auto simp: ring_rep_def gop_seqs_snoc split: if_splits)
  ultimately show ?thesis
    using assms
    by (auto simp: ring_rep_def sorted_wrt_append is_video_keyframe_def nth_append less_Suc_eq)
qed

lemma ring_complete_append:
  assumes "ring_complete r" and "\<forall>g\<in>set (fr_gop_starts r). g < fr_write_seq r"
  shows "ring_complete (append_frame r m)"
proof -
  have "{g..<Suc (fr_write_seq r)} \<subseteq> insert (fr_write_seq r) (sf_seq ` set (fr_slots r))"
    if "fr_gop_starts (append_frame r m) = g # gs" for g gs
  proof (cases "fr_gop_starts r")
    case Nil
    with that have "g = fr_write_seq r" by (auto split: if_splits)
    then show ?thesis by auto
  next
    case (Cons a list)
    with that have "fr_gop_starts r = g # list" by simp
    with assms(1) have "{g..<fr_write_seq r} \<subseteq> sf_seq ` set (fr_slots r)"
      unfolding ring_complete_def by blast
    then show ?thesis by (auto simp: less_Suc_eq)
  qed
  then show ?thesis by (auto simp: ring_complete_def)
qed

lemma evict_oldest_gop_slots:
  assumes "fr_gop_starts r = g # g' # gs"
  shows "fr_slots (evict_oldest_gop r) =
     filter (\<lambda>f. \<not> (g \<le> sf_seq f \<and> sf_seq f < g')) (fr_slots r)"
  using assms by (simp add: evict_oldest_gop_def remove_seq_range_def Let_def)

lemma evict_oldest_gop_bytes:
  assumes "fr_bytes_used r = slot_bytes (fr_slots r)"
  shows "fr_bytes_used (evict_oldest_gop r) = slot_bytes (fr_slots (evict_oldest_gop r))"
  using assms
  by (cases "fr_gop_starts r")
    (auto simp: evict_oldest_gop_def Let_def intro: remove_seq_range_bytes split: list.splits)

lemma ring_rep_gops_sorted:
  assumes "ring_rep hist r"
  shows "sorted_wrt (<) (fr_gop_starts r) \<and> (\<forall>g\<in>set (fr_gop_starts r). g < length hist \<and> is_video_keyframe (hist ! g))"
proof -
  from assms obtain ys where ys: "gop_seqs hist = ys @ fr_gop_starts r"
    by (auto simp: ring_rep_def suffix_def)
  have "set (fr_gop_starts r) \<subseteq> set (gop_seqs hist)" unfolding ys by simp
  moreover have "sorted_wrt (<) (fr_gop_starts r)"
    using sorted_gop_seqs [of hist] unfolding ys by (simp add: sorted_wrt_append)
  ultimately show ?thesis using gop_seqs_less by blast
qed

lemma ring_rep_evict_gop:
  assumes "ring_rep hist r" and "length (fr_gop_starts r) > 1"
  shows "ring_rep hist (evict_oldest_gop r)"
proof -
  from assms(2) obtain g g' gs where gops: "fr_gop_starts r = g # g' # gs"
    by (cases "fr_gop_starts r"; cases "tl (fr_gop_starts r)") auto
  have sorted: "sorted_wrt (<) (g # g' # gs)"
    using ring_rep_gops_sorted [OF assms(1)] gops by simp
  have idr: "fr_idr_seqs (evict_oldest_gop r) = g' # gs"
  proof -
    have "fr_idr_seqs (evict_oldest_gop r) = filter (\<lambda>s. s \<noteq> g) (g # g' # gs)"
      using assms(1) gops by (simp add: ring_rep_def evict_oldest_gop_def remove_seq_range_def Let_def)
    moreover have "filter (\<lambda>s. s \<noteq> g) gs = gs"
      using sorted by (auto simp: filter_id_conv)
    ultimately show ?thesis using sorted by simp
  qed
  have slots: "fr_slots (evict_oldest_gop r) =
      filter (\<lambda>f. \<not> (g \<le> sf_seq f \<and> sf_seq f < g')) (fr_slots r)"
    by (rule evict_oldest_gop_slots [OF gops])
  have "sf_seq f \<in> set (g' # gs)"
    if "f \<in> set (fr_slots (evict_oldest_gop r))" "flagged_key f" for f
  proof -
    from that have "f \<in> set (fr_slots r)" "\<not> (g \<le> sf_seq f \<and> sf_seq f < g')"
      by (auto simp: slots)
    moreover from this(1) that(2) have "sf_seq f \<in> set (g # g' # gs)"
      using assms(1) unfolding ring_rep_def gops [symmetric] by blast
    ultimately show ?thesis using sorted by auto
  qed
  moreover have "sorted_wrt (<) (map sf_seq (fr_slots (evict_oldest_gop r)))"
    using assms(1) by (simp add: slots ring_rep_def sorted_wrt_map sorted_wrt_filter)
  moreover have "suffix (g' # gs) (gop_seqs hist)"
    using assms(1) unfolding ring_rep_def gops by (meson suffix_ConsD)
  moreover have "fr_bytes_used (evict_oldest_gop r) = slot_bytes (fr_slots (evict_oldest_gop r))"
    using assms(1) by (intro evict_oldest_gop_bytes) (simp add: ring_rep_def)
  ultimately show ?thesis
    using assms(1) by (simp add: ring_rep_def gops idr) (auto simp: slots)
qed

lemma ring_complete_evict_gop:
  assumes "ring_complete r" and "length (fr_gop_starts r) > 1" and "sorted_wrt (<) (fr_gop_starts r)"
  shows "ring_complete (evict_oldest_gop r)"
proof -
  from assms(2) obtain g g' gs where gops: "fr_gop_starts r = g # g' # gs"
    by (cases "fr_gop_starts r"; cases "tl (fr_gop_starts r)") auto
  from assms(1) gops have all: "{g..<fr_write_seq r} \<subseteq> sf_seq ` set (fr_slots r)"
    by (simp add: ring_complete_def)
  from assms(3) gops have "g < g'" by simp
  have "{g'..<fr_write_seq r} \<subseteq>
      sf_seq ` {f \<in> set (fr_slots r). \<not> (g \<le> sf_seq f \<and> sf_seq f < g')}"
  proof
    fix i
    assume i: "i \<in> {g'..<fr_write_seq r}"
    with \<open>g < g'\<close> have "i \<in> {g..<fr_write_seq r}" by auto
    with all obtain f where "f \<in> set (fr_slots r)" "i = sf_seq f" by blast
    with i show "i \<in> sf_seq ` {f \<in> set (fr_slots r). \<not> (g \<le> sf_seq f \<and> sf_seq f < g')}" by auto
  qed
  then show ?thesis
    by (simp add: ring_complete_def gops evict_oldest_gop_slots [OF gops])
qed

lemma ring_rep_evict_front:
  assumes "ring_rep hist r"
  shows "ring_rep hist (evict_front_until_keyframe_or_empty r)"
proof (rule evict_front_cases [of r])
  fix dropped
  assume "fr_slots r = dropped @ fr_slots (evict_front_until_keyframe_or_empty r)"
    and "fr_bytes_used r = slot_bytes (fr_slots r) \<Longrightarrow>
       fr_bytes_used (evict_front_until_keyframe_or_empty r) =
       slot_bytes (fr_slots (evict_front_until_keyframe_or_empty r))"
  with assms show ?thesis
    unfolding ring_rep_def by (auto simp: sorted_wrt_append)
qed


text \<open>Every video keyframe of the history carries the keyframe flag.\<close>

definition keys_flagged :: "media_frame list \<Rightarrow> bool" where
  "keys_flagged hist \<longleftrightarrow> (\<forall>m\<in>set hist. is_video_keyframe m \<longrightarrow> mf_is_keyframe m)"

lemma ring_rep_slots_from:
  assumes rep: "ring_rep hist r" and comp: "ring_complete r" and g: "g \<in> set (fr_gop_starts r)"
  shows "filter (\<lambda>f. g \<le> sf_seq f) (fr_slots r) = map (\<lambda>i. stored_of i (hist ! i)) [g..<length hist]"
proof -
  let ?xs = "filter (\<lambda>f. g \<le> sf_seq f) (fr_slots r)"
  from g obtain h hs where hs: "fr_gop_starts r = h # hs" by (cases "fr_gop_starts r") auto
  with ring_rep_gops_sorted [OF rep] g have "h \<le> g" by auto
  moreover from comp hs have "{h..<length hist} \<subseteq> sf_seq ` set (fr_slots r)"
    using rep by (simp add: ring_complete_def ring_rep_def)
  ultimately have all: "{g..<length hist} \<subseteq> sf_seq ` set (fr_slots r)" by auto
  have "set (map sf_seq ?xs) = set [g..<length hist]"
  proof
    show "set (map sf_seq ?xs) \<subseteq> set [g..<length hist]"
      using rep by (auto simp: ring_rep_def)
    show "set [g..<length hist] \<subseteq> set (map sf_seq ?xs)"
      using all by force
  qed
  moreover have "sorted_wrt (<) (map sf_seq ?xs)"
    using rep by (simp add: ring_rep_def sorted_wrt_map sorted_wrt_filter)
  ultimately have seqs: "map sf_seq ?xs = [g..<length hist]"
    by (intro strict_sorted_equal) auto
  have "?xs = map (\<lambda>i. stored_of i (hist ! i)) (map sf_seq ?xs)"
    unfolding map_map by (rule map_idI [symmetric]) (use rep in \<open>auto simp: ring_rep_def\<close>)
  then show ?thesis by (simp only: seqs)
qed

lemma ring_complete_evict_front:
  assumes rep: "ring_rep hist r" and comp: "ring_complete r" and flags: "keys_flagged hist"
  shows "ring_complete (evict_front_until_keyframe_or_empty r)"
proof (rule evict_front_cases [of r])
  fix dropped
  let ?r' = "evict_front_until_keyframe_or_empty r"
  assume split: "fr_slots r = dropped @ fr_slots ?r'"
    and unflagged: "\<And>f. f \<in> set dropped \<Longrightarrow> \<not> flagged_key f"
  have "{g..<fr_write_seq r} \<subseteq> sf_seq ` set (fr_slots ?r')"
    if gops: "fr_gop_starts r = g # gs" for g gs
  proof
    fix i
    assume i: "i \<in> {g..<fr_write_seq r}"
    from ring_rep_gops_sorted [OF rep] gops have g: "g < length hist" "is_video_keyframe (hist ! g)" by auto
    from comp gops have all: "{g..<fr_write_seq r} \<subseteq> sf_seq ` set (fr_slots r)"
      by (simp add: ring_complete_def)
    with g rep obtain fg where fg: "fg \<in> set (fr_slots r)" "sf_seq fg = g"
      by (force simp: ring_rep_def)
    with rep have "fg = stored_of g (hist ! g)" by (auto simp: ring_rep_def)
    moreover from flags g have "mf_is_keyframe (hist ! g)" by (auto simp: keys_flagged_def)
    ultimately have "flagged_key fg" using g by (auto simp: is_video_keyframe_def split: if_splits)
    with unflagged split fg have fg': "fg \<in> set (fr_slots ?r')" by auto
    from all i obtain f where f: "f \<in> set (fr_slots r)" "i = sf_seq f" by blast
    have "f \<notin> set dropped"
    proof
      assume "f \<in> set dropped"
      with fg' rep split have "sf_seq f < sf_seq fg"
        unfolding ring_rep_def by (auto simp: sorted_wrt_append sorted_wrt_map)
      with f i fg show False by simp
    qed
    with f split show "i \<in> sf_seq ` set (fr_slots ?r')" by auto
  qed
  then show ?thesis by (auto simp: ring_complete_def)
qed


section \<open>When an eviction returns\<close>

definition frames_fit :: "frame_ring \<Rightarrow> media_frame list \<Rightarrow> bool" where
  "frames_fit r fs \<longleftrightarrow>
     length fs \<le> fr_capacity_frames r \<and>
     sum_list (map (\<lambda>m. length (mf_data m)) fs) \<le> fr_capacity_bytes r"

text \<open>
  The condition under which a push returns: no keyframe yet, or the newest GOP consists of the
  pushed frame alone, or the newest GOP fits into the ring.
\<close>

definition newest_gop_ok :: "frame_ring \<Rightarrow> media_frame list \<Rightarrow> bool" where
  "newest_gop_ok r hist \<longleftrightarrow>
     gop_seqs hist = [] \<or> Suc (last (gop_seqs hist)) = length hist \<or>
     frames_fit r (drop (last (gop_seqs hist)) hist)"

definition ring_ok :: "media_frame list \<Rightarrow> frame_ring \<Rightarrow> bool" where
  "ring_ok hist r \<longleftrightarrow> ring_rep hist r \<and> ring_complete r"

lemma last_gop_starts:
  assumes "ring_rep hist r" and "gop_seqs hist \<noteq> []"
  shows "fr_gop_starts r \<noteq> [] \<and> last (fr_gop_starts r) = last (gop_seqs hist)"
proof -
  from assms have ne: "fr_gop_starts r \<noteq> []" by (simp add: ring_rep_def)
  from assms obtain ys where "gop_seqs hist = ys @ fr_gop_starts r"
    by (auto simp: ring_rep_def suffix_def)
  with ne show ?thesis by simp
qed

lemma map_nth_drop: "k \<le> length xs \<Longrightarrow> map (\<lambda>i. xs ! i) [k..<length xs] = drop k xs"
  by (rule nth_equalityI) auto

lemma gop_slots:
  assumes "ring_ok hist r" and "gop_seqs hist \<noteq> []"
  defines "k \<equiv> last (gop_seqs hist)"
  shows "length (filter (\<lambda>f. k \<le> sf_seq f) (fr_slots r)) = length (drop k hist)"
    and "slot_bytes (filter (\<lambda>f. k \<le> sf_seq f) (fr_slots r)) =
         sum_list (map (\<lambda>m. length (mf_data m)) (drop k hist))"
proof -
  have "k \<in> set (fr_gop_starts r)"
    using last_gop_starts [of hist r] assms last_in_set [of "fr_gop_starts r"]
    by (auto simp: ring_ok_def)
  with assms have eq: "filter (\<lambda>f. k \<le> sf_seq f) (fr_slots r) =
      map (\<lambda>i. stored_of i (hist ! i)) [k..<length hist]"
    by (intro ring_rep_slots_from) (auto simp: ring_ok_def)
  then show "length (filter (\<lambda>f. k \<le> sf_seq f) (fr_slots r)) = length (drop k hist)" by simp
  have "k \<le> length hist"
    using gop_seqs_less [of k hist] assms by auto
  then have "map (\<lambda>m. length (mf_data m)) (drop k hist) =
      map (\<lambda>i. length (mf_data (hist ! i))) [k..<length hist]"
    by (simp add: map_nth_drop [symmetric] o_def)
  then show "slot_bytes (filter (\<lambda>f. k \<le> sf_seq f) (fr_slots r)) =
      sum_list (map (\<lambda>m. length (mf_data m)) (drop k hist))"
    by (simp add: eq o_def)
qed

text \<open>While the newest GOP does not fit, the ring stays over capacity with two slots or more.\<close>

lemma gop_too_big:
  assumes ok: "ring_ok hist r" and big: "\<not> newest_gop_ok r hist"
  shows "needs_evict r \<and> length (fr_slots r) > 1"
proof -
  let ?k = "last (gop_seqs hist)"
  let ?fs = "filter (\<lambda>f. ?k \<le> sf_seq f) (fr_slots r)"
  from big have ne: "gop_seqs hist \<noteq> []" and "Suc ?k \<noteq> length hist"
    and nofit: "\<not> frames_fit r (drop ?k hist)" by (auto simp: newest_gop_ok_def)
  moreover have "?k < length hist"
    using gop_seqs_less [of ?k hist] ne by auto
  ultimately have two: "length (drop ?k hist) > 1" by simp
  have "length ?fs \<le> length (fr_slots r)" by simp
  moreover have "slot_bytes ?fs \<le> slot_bytes (fr_slots r)"
    using slot_bytes_split [of "fr_slots r" "\<lambda>f. ?k \<le> sf_seq f"] by simp
  moreover have "fr_bytes_used r = slot_bytes (fr_slots r)"
    using ok by (simp add: ring_ok_def ring_rep_def)
  ultimately show ?thesis
    using gop_slots [OF ok ne] two nofit by (auto simp: frames_fit_def needs_evict_def)
qed

lemma newest_gop_ok_cong:
  "fr_capacity_frames r = fr_capacity_frames r' \<Longrightarrow> fr_capacity_bytes r = fr_capacity_bytes r' \<Longrightarrow>
   newest_gop_ok r hist = newest_gop_ok r' hist"
  by (simp add: newest_gop_ok_def frames_fit_def)

lemma ring_ok_evict_gop:
  "ring_ok hist r \<Longrightarrow> length (fr_gop_starts r) > 1 \<Longrightarrow> ring_ok hist (evict_oldest_gop r)"
  using ring_rep_gops_sorted by (auto simp: ring_ok_def ring_rep_evict_gop ring_complete_evict_gop)

lemma ring_ok_evict_front:
  "ring_ok hist r \<Longrightarrow> keys_flagged hist \<Longrightarrow> ring_ok hist (evict_front_until_keyframe_or_empty r)"
  unfolding ring_ok_def by (blast intro: ring_rep_evict_front ring_complete_evict_front)

lemma evict_if_needed_result:
  assumes "evict_if_needed r = Some r'" and "ring_ok hist r" and "keys_flagged hist"
  shows "ring_ok hist r' \<and> fr_capacity_frames r' = fr_capacity_frames r \<and>
     fr_capacity_bytes r' = fr_capacity_bytes r \<and> (\<not> needs_evict r' \<or> length (fr_slots r') \<le> 1)"
  using evict_if_needed_rule [OF assms(1), of "\<lambda>q. ring_ok hist q \<and>
      fr_capacity_frames q = fr_capacity_frames r \<and> fr_capacity_bytes q = fr_capacity_bytes r"]
    assms(2,3) ring_ok_evict_gop ring_ok_evict_front
  by auto

lemma evict_if_needed_hangs:
  assumes "ring_ok hist r" and "keys_flagged hist" and "\<not> newest_gop_ok r hist"
  shows "evict_if_needed r = None"
proof (rule ccontr)
  assume "evict_if_needed r \<noteq> None"
  then obtain r' where r': "evict_if_needed r = Some r'" by auto
  from evict_if_needed_result [OF r' assms(1,2)] have ok: "ring_ok hist r'"
    and "\<not> needs_evict r' \<or> length (fr_slots r') \<le> 1"
    and caps: "fr_capacity_frames r' = fr_capacity_frames r"
      "fr_capacity_bytes r' = fr_capacity_bytes r"
    by auto
  moreover from newest_gop_ok_cong [OF caps] assms(3) have "\<not> newest_gop_ok r' hist" by simp
  ultimately show False using gop_too_big [OF ok] by simp
qed

lemma evict_front_settles:
  assumes ok: "ring_ok hist r" and flags: "keys_flagged hist" and fit: "newest_gop_ok r hist"
    and one: "length (fr_gop_starts r) \<le> 1"
  defines "r' \<equiv> evict_front_until_keyframe_or_empty r"
  shows "\<not> needs_evict r' \<or> length (fr_slots r') \<le> 1"
proof -
  have ok': "ring_ok hist r'" unfolding r'_def by (rule ring_ok_evict_front [OF ok flags])
  then have bytes: "fr_bytes_used r' = slot_bytes (fr_slots r')"
    by (simp add: ring_ok_def ring_rep_def)
  have hd: "flagged_key (hd (fr_slots r'))" if "fr_slots r' \<noteq> []"
    using that unfolding r'_def by (rule_tac evict_front_cases [of r]) auto
  show ?thesis
  proof (cases "fr_slots r' = []")
    case True
    with bytes show ?thesis by simp
  next
    case False
    with hd ok' have "sf_seq (hd (fr_slots r')) \<in> set (fr_gop_starts r')"
      by (simp add: ring_ok_def ring_rep_def)
    with one obtain k where gops: "fr_gop_starts r' = [k]" and k: "sf_seq (hd (fr_slots r')) = k"
      unfolding r'_def by (cases "fr_gop_starts r") auto
    have ne: "gop_seqs hist \<noteq> []"
      using ok' gops by (auto simp: ring_ok_def ring_rep_def suffix_def)
    with last_gop_starts [of hist r'] ok' gops have last: "last (gop_seqs hist) = k"
      by (simp add: ring_ok_def)
    have "\<forall>f\<in>set (fr_slots r'). k \<le> sf_seq f"
      using ok' False k by (cases "fr_slots r'") (auto simp: ring_ok_def ring_rep_def)
    then have all: "filter (\<lambda>f. k \<le> sf_seq f) (fr_slots r') = fr_slots r'" by simp
    have "length (fr_slots r') = length (drop k hist)"
      "slot_bytes (fr_slots r') = sum_list (map (\<lambda>m. length (mf_data m)) (drop k hist))"
      using gop_slots [OF ok' ne] unfolding last all by auto
    with fit bytes ne last show ?thesis
      by (auto simp: newest_gop_ok_def frames_fit_def needs_evict_def r'_def)
  qed
qed

lemma evict_if_needed_returns:
  assumes "ring_ok hist r" and "keys_flagged hist" and "newest_gop_ok r hist"
  shows "\<exists>r'. evict_if_needed r = Some r'"
  using assms(1,3)
proof (induction "length (fr_gop_starts r)" arbitrary: r rule: less_induct)
  case less
  show ?case
  proof (cases "needs_evict r")
    case False
    then show ?thesis by (subst evict_if_needed.simps) simp
  next
    case needs: True
    show ?thesis
    proof (cases "length (fr_gop_starts r) > 1")
      case True
      have "newest_gop_ok (evict_oldest_gop r) hist"
        using less.prems(2) newest_gop_ok_cong by (metis evict_fields(2,3))
      with True less ring_ok_evict_gop have "\<exists>r'. evict_if_needed (evict_oldest_gop r) = Some r'"
        by auto
      with needs True show ?thesis
        by (subst evict_if_needed.simps) (simp add: MIN_GOPS_RETAINED_def)
    next
      case False
      let ?r' = "evict_front_until_keyframe_or_empty r"
      from False have one: "length (fr_gop_starts r) \<le> 1" by simp
      from evict_front_settles [OF less.prems(1) assms(2) less.prems(2) one]
      have "evict_if_needed ?r' = Some ?r'"
        using False by (subst evict_if_needed.simps) (auto simp: MIN_GOPS_RETAINED_def)
      with needs False show ?thesis
        by (subst evict_if_needed.simps) (auto simp: MIN_GOPS_RETAINED_def)
    qed
  qed
qed


section \<open>Pushing\<close>

lemma ring_ok_new: "ring_ok [] (with_capacity cf cb)"
  by (simp add: ring_ok_def ring_rep_new ring_complete_new)

lemma ring_ok_append:
  assumes "ring_ok hist r"
  shows "ring_ok (hist @ [m]) (append_frame r m)"
proof -
  from assms have rep: "ring_rep hist r" and comp: "ring_complete r" by (simp_all add: ring_ok_def)
  moreover from rep have "fr_write_seq r = length hist" by (simp add: ring_rep_def)
  ultimately show ?thesis
    using ring_rep_gops_sorted [OF rep]
    by (simp add: ring_ok_def ring_rep_append ring_complete_append)
qed

lemma push_result:
  assumes "push r m = Some (r', s)" and "ring_ok hist r" and "keys_flagged (hist @ [m])"
  shows "ring_ok (hist @ [m]) r' \<and> s = length hist \<and>
     fr_capacity_frames r' = fr_capacity_frames r \<and> fr_capacity_bytes r' = fr_capacity_bytes r \<and>
     (\<not> needs_evict r' \<or> length (fr_slots r') \<le> 1)"
proof -
  from assms(1) have "evict_if_needed (append_frame r m) = Some r'" and "s = fr_write_seq r"
    by (auto simp: push_def split: option.splits)
  moreover from assms(2) have "fr_write_seq r = length hist"
    by (simp add: ring_ok_def ring_rep_def)
  ultimately show ?thesis
    using evict_if_needed_result [OF _ ring_ok_append [OF assms(2)] assms(3)] by simp
qed

lemma push_returns:
  assumes "ring_ok hist r" and "keys_flagged (hist @ [m])"
  shows "(\<exists>x. push r m = Some x) \<longleftrightarrow> newest_gop_ok r (hist @ [m])"
proof -
  have ok: "ring_ok (hist @ [m]) (append_frame r m)" by (rule ring_ok_append [OF assms(1)])
  have "newest_gop_ok r (hist @ [m]) = newest_gop_ok (append_frame r m) (hist @ [m])"
    by (rule newest_gop_ok_cong) simp_all
  with evict_if_needed_hangs [OF ok assms(2)] evict_if_needed_returns [OF ok assms(2)]
  show ?thesis by (auto simp: push_def split: option.splits)
qed

lemma keys_flagged_append [simp]:
  "keys_flagged (xs @ ys) \<longleftrightarrow> keys_flagged xs \<and> keys_flagged ys"
  by (auto simp: keys_flagged_def)

lemma push_all_result:
  assumes "push_all r fs = Some r'" and "ring_ok hist r" and "keys_flagged (hist @ fs)"
  shows "ring_ok (hist @ fs) r' \<and>
     fr_capacity_frames r' = fr_capacity_frames r \<and> fr_capacity_bytes r' = fr_capacity_bytes r"
  using assms
proof (induction fs arbitrary: r hist)
  case Nil
  then show ?case by simp
next
  case (Cons f fs)
  from Cons.prems(1) obtain q s where q: "push r f = Some (q, s)" and rest: "push_all q fs = Some r'"
    by (auto split: option.splits)
  have flags: "keys_flagged (hist @ [f])" "keys_flagged ((hist @ [f]) @ fs)"
    using Cons.prems(3) by (auto simp: keys_flagged_def)
  from push_result [OF q Cons.prems(2) flags(1)] have "ring_ok (hist @ [f]) q"
    and "fr_capacity_frames q = fr_capacity_frames r" "fr_capacity_bytes q = fr_capacity_bytes r"
    by auto
  with Cons.IH [OF rest _ flags(2)] show ?case by simp
qed

text \<open>Dropping the raw RTP packet is all a frame loses by passing through the ring.\<close>

definition cached_form :: "media_frame \<Rightarrow> media_frame" where
  "cached_form m = m\<lparr>mf_rtp_data := None\<rparr>"

lemma to_media_frame_stored_of [simp]: "to_media_frame (stored_of i m) = cached_form m"
  by (simp add: to_media_frame_def stored_of_def cached_form_def)

lemma find_sorted_seq:
  assumes "sorted_wrt (<) (map sf_seq fs)" and "f \<in> set fs"
  shows "find (\<lambda>g. sf_seq g = sf_seq f) fs = Some f"
  using assms by (induction fs) auto

lemma ring_ok_get:
  assumes "ring_ok hist r" and "ring_get r i = Some f"
  shows "i < length hist \<and> f = stored_of i (hist ! i)"
  using assms by (auto simp: ring_ok_def ring_rep_def ring_get_def find_Some_iff dest: nth_mem)

lemma ring_ok_get_from_gop:
  assumes "ring_ok hist r" and "gop_seqs hist \<noteq> []" and "last (gop_seqs hist) \<le> i" and "i < length hist"
  shows "ring_get r i = Some (stored_of i (hist ! i))"
proof -
  let ?k = "last (gop_seqs hist)"
  from assms(1) have rep: "ring_rep hist r" and comp: "ring_complete r" by (simp_all add: ring_ok_def)
  from last_gop_starts [OF rep assms(2)] have "?k \<in> set (fr_gop_starts r)"
    by (metis last_in_set)
  from ring_rep_slots_from [OF rep comp this] assms(3,4)
  have "stored_of i (hist ! i) \<in> set (filter (\<lambda>f. ?k \<le> sf_seq f) (fr_slots r))" by simp
  then have "stored_of i (hist ! i) \<in> set (fr_slots r)" by simp
  from find_sorted_seq [OF _ this] rep show ?thesis by (simp add: ring_get_def ring_rep_def)
qed

lemma ring_ok_frames_from_gop:
  assumes "ring_ok hist r" and "gop_seqs hist \<noteq> []"
  shows "frames_from r (last (gop_seqs hist)) (latest_seq r) =
     map cached_form (drop (last (gop_seqs hist)) hist)"
proof -
  let ?k = "last (gop_seqs hist)"
  from assms(1) have rep: "ring_rep hist r" and comp: "ring_complete r" by (simp_all add: ring_ok_def)
  from last_gop_starts [OF rep assms(2)] have k: "?k \<in> set (fr_gop_starts r)"
    by (metis last_in_set)
  have "\<forall>f\<in>set (fr_slots r). sf_seq f \<le> latest_seq r"
    using rep by (auto simp: ring_rep_def latest_seq_def)
  then have "filter (\<lambda>f. ?k \<le> sf_seq f \<and> sf_seq f \<le> latest_seq r) (fr_slots r) =
      filter (\<lambda>f. ?k \<le> sf_seq f) (fr_slots r)"
    by (intro filter_cong) auto
  moreover have "?k \<le> length hist"
    using gop_seqs_less [of ?k hist] assms(2) by auto
  ultimately show ?thesis
    by (simp add: frames_from_def ring_rep_slots_from [OF rep comp k] map_nth_drop [symmetric] o_def)
qed

lemma ring_ok_latest_idr:
  assumes "ring_ok hist r" and "gop_seqs hist \<noteq> []"
  shows "latest_idr_seq r = Some (last (gop_seqs hist))"
  using last_gop_starts [of hist r] assms
  by (simp add: latest_idr_seq_def ring_ok_def ring_rep_def)

lemma ring_ok_no_idr:
  assumes "ring_ok hist r" and "gop_seqs hist = []"
  shows "latest_idr_seq r = None"
  using assms by (auto simp: latest_idr_seq_def ring_ok_def ring_rep_def suffix_def)


lemma push_all_append:
  "push_all r (xs @ ys) = (case push_all r xs of None \<Rightarrow> None | Some q \<Rightarrow> push_all q ys)"
  by (induction xs arbitrary: r) (auto split: option.splits)

lemma push_all_ring_ok:
  assumes "push_all (with_capacity cf cb) fs = Some r" and "keys_flagged fs"
  shows "ring_ok fs r" and "fr_capacity_frames r = cf" and "fr_capacity_bytes r = cb"
  using push_all_result [OF assms(1) ring_ok_new] assms(2)
  by (auto simp: with_capacity_def)

lemma drop_until_key_none:
  "\<forall>f\<in>set fs. \<not> flagged_key f \<Longrightarrow> fst (drop_until_key fs b) = []"
  by (induction fs b rule: drop_until_key.induct) auto

section \<open>Properties\<close>

text \<open>
  C9. A push into a ring built by any run of pushes returns exactly when there is no video
  keyframe yet, or the pushed frame opens a GOP, or the newest GOP (pushed frame included)
  fits into the frame and the byte capacity. In every other case \<open>evict_if_needed\<close> loops
  for ever: there is one GOP left, its keyframe is the front slot, and no branch removes it.
\<close>

theorem push_returns_iff:
  assumes "push_all (with_capacity cf cb) fs = Some r" and "keys_flagged (fs @ [m])"
  defines "hist \<equiv> fs @ [m]"
  shows "(\<exists>r' s. push r m = Some (r', s)) \<longleftrightarrow>
     gop_seqs hist = [] \<or> last (gop_seqs hist) = length fs \<or>
     (length (drop (last (gop_seqs hist)) hist) \<le> cf \<and>
      sum_list (map (\<lambda>f. length (mf_data f)) (drop (last (gop_seqs hist)) hist)) \<le> cb)"
  using push_returns [of fs r m] push_all_ring_ok [OF assms(1)] assms(2)
  by (simp add: newest_gop_ok_def frames_fit_def hist_def)

text \<open>
  With the default capacities the server's media cache hangs on a long GOP: once a
  flagged keyframe is followed by 512 frames that open no new GOP (audio frames count), the
  run of pushes never returns, whatever the frames hold.
\<close>

theorem default_ring_hangs_on_long_gop:
  assumes "is_video_codec (mf_codec k)" and "mf_is_keyframe k"
    and "\<forall>p\<in>set ps. \<not> is_video_keyframe p" and "DEFAULT_CAPACITY_FRAMES \<le> length ps"
  shows "push_all frame_ring_new (k # ps) = None"
proof (cases "push_all frame_ring_new (k # take 511 ps)")
  case None
  then have "push_all frame_ring_new ((k # take 511 ps) @ drop 511 ps) = None"
    by (simp only: push_all_append option.case)
  then show ?thesis by simp
next
  case (Some q)
  let ?fs = "k # take 511 ps"
  from assms(4) have len: "511 < length ps" by (simp add: DEFAULT_CAPACITY_FRAMES_def)
  have key: "is_video_keyframe k" using assms(1,2) by (simp add: is_video_keyframe_def)
  have unkeyed: "gop_seqs (k # qs) = [0]" if "\<forall>p\<in>set qs. \<not> is_video_keyframe p" for qs
    using that
  proof (induction qs rule: rev_induct)
    case Nil
    then show ?case using key by (simp add: gop_seqs_def)
  next
    case (snoc q qs)
    then show ?case using gop_seqs_snoc [of "k # qs" q] by simp
  qed
  have "\<forall>p\<in>set (take 511 ps @ [ps ! 511]). \<not> is_video_keyframe p"
    using assms(3) len by (auto dest: in_set_takeD)
  from unkeyed [OF this] have gops: "gop_seqs (?fs @ [ps ! 511]) = [0]" by simp
  have "keys_flagged (?fs @ [ps ! 511])"
    using assms(2,3) len by (auto simp: keys_flagged_def dest: in_set_takeD)
  moreover from this have "ring_ok ?fs q" "fr_capacity_frames q = 512"
    using push_all_ring_ok [OF Some [unfolded frame_ring_new_def]]
    by (simp_all only: keys_flagged_append DEFAULT_CAPACITY_FRAMES_def)
  ultimately have "push q (ps ! 511) = None"
    using push_returns [of ?fs q "ps ! 511"] gops len
    by (cases "push q (ps ! 511)") (auto simp: newest_gop_ok_def frames_fit_def)
  then have "push_all q (ps ! 511 # drop 512 ps) = None" by simp
  moreover have "k # ps = ?fs @ ps ! 511 # drop 512 ps"
    using id_take_nth_drop [OF len] by simp
  ultimately show ?thesis by (simp only: push_all_append Some option.case)
qed


text \<open>
  C8. After any run of pushes that returned, the ring's latest IDR is the last video keyframe
  pushed, and reading from it to the live edge yields every frame pushed since, in order and
  unchanged (only a frame's raw RTP copy is dropped): eviction never cuts into the newest GOP.
\<close>

theorem ring_keeps_newest_gop:
  assumes "push_all (with_capacity cf cb) fs = Some r" and "keys_flagged fs" and "gop_seqs fs \<noteq> []"
  defines "k \<equiv> last (gop_seqs fs)"
  shows "latest_idr_seq r = Some k \<and>
     latest_idr_frame r = Some (cached_form (fs ! k)) \<and>
     frames_from r (snap r LatestIdr) (latest_seq r) = map cached_form (drop k fs)"
proof -
  note ok = push_all_ring_ok(1) [OF assms(1,2)]
  have idr: "latest_idr_seq r = Some k"
    unfolding k_def by (rule ring_ok_latest_idr [OF ok assms(3)])
  moreover have "k < length fs"
    using gop_seqs_less [of k fs] assms(3) by (auto simp: k_def)
  then have "ring_get r k = Some (stored_of k (fs ! k))"
    unfolding k_def by (intro ring_ok_get_from_gop [OF ok assms(3)]) simp_all
  ultimately show ?thesis
    using ring_ok_frames_from_gop [OF ok assms(3)] by (simp add: latest_idr_frame_def k_def)
qed


text \<open>
  A stream without a video keyframe (audio only, or a publisher that joined between
  IDRs) loses its whole cache when it overflows: the push that exceeds the frame capacity
  empties the ring, the frame just pushed included.
\<close>

theorem ring_without_keyframe_is_flushed:
  assumes "push_all (with_capacity cf cb) fs = Some r" and "keys_flagged (fs @ [m])"
    and "gop_seqs (fs @ [m]) = []" and "length (fr_slots r) = cf" and "1 \<le> cf"
  shows "\<exists>r'. push r m = Some (r', length fs) \<and> fr_slots r' = [] \<and> fr_bytes_used r' = 0 \<and>
     ring_get r' (length fs) = None"
proof -
  have flags: "keys_flagged fs" using assms(2) by simp
  note caps = push_all_ring_ok [OF assms(1) flags]
  let ?r = "append_frame r m" and ?r' = "evict_front_until_keyframe_or_empty (append_frame r m)"
  have ok: "ring_ok (fs @ [m]) ?r" by (rule ring_ok_append [OF caps(1)])
  then have gops: "fr_gop_starts ?r = []"
    using assms(3) by (auto simp: ring_ok_def ring_rep_def suffix_def)
  with ok have "\<forall>f\<in>set (fr_slots ?r). \<not> flagged_key f"
    unfolding ring_ok_def ring_rep_def by (metis empty_iff list.set(1))
  then have empty: "fr_slots ?r' = []"
    using drop_until_key_none
    by (simp add: evict_front_until_keyframe_or_empty_def case_prod_beta)
  moreover have "ring_ok (fs @ [m]) ?r'" by (rule ring_ok_evict_front [OF ok assms(2)])
  ultimately have bytes: "fr_bytes_used ?r' = 0" by (simp add: ring_ok_def ring_rep_def)
  have "evict_if_needed ?r' = Some ?r'"
    using empty bytes by (subst evict_if_needed.simps) (simp add: needs_evict_def)
  moreover have "needs_evict ?r" "length (fr_slots ?r) > 1"
    using assms(4,5) caps(2) by (simp_all add: needs_evict_def)
  ultimately have "evict_if_needed ?r = Some ?r'"
    using gops by (subst evict_if_needed.simps) (simp add: MIN_GOPS_RETAINED_def)
  with empty bytes caps(1) show ?thesis
    by (simp add: push_def ring_get_def ring_ok_def ring_rep_def)
qed


section \<open>The properties at concrete inputs\<close>

definition video_frame :: "nat \<Rightarrow> bool \<Rightarrow> media_frame" where
  "video_frame ts key =
     media_frame_new ''s1'' 0 ts [0, 0, 0, 1, if key then 0x65 else 0x41] key H264"

lemma video_frame_key [simp]: "is_video_keyframe (video_frame ts key) \<longleftrightarrow> key"
proof (cases key)
  case True
  then show ?thesis by (simp add: video_frame_def is_video_keyframe_def)
next
  case False
  have "\<not> annex_b_contains_idr [0, 0, 0, 1, 0x41]" by code_simp
  with False show ?thesis by (simp add: video_frame_def is_video_keyframe_def)
qed

lemma keys_flagged_video [simp]: "keys_flagged (map (\<lambda>(ts, key). video_frame ts key) xs)"
  by (auto simp: keys_flagged_def) (simp add: video_frame_def)

theorem push_returns_iff_witness:
  "\<exists>r. push_all (with_capacity 2 100) [video_frame 10 True, video_frame 2 False] = Some r \<and>
     push r (video_frame 3 False) = None"
proof -
  let ?fs = "[video_frame 10 True, video_frame 2 False]"
  have "push_all (with_capacity 2 100) ?fs \<noteq> None" by code_simp
  then obtain r where r: "push_all (with_capacity 2 100) ?fs = Some r" by auto
  have flags: "keys_flagged (?fs @ [video_frame 3 False])"
    using keys_flagged_video [of "[(10, True), (2, False), (3, False)]"] by simp
  have "gop_seqs (?fs @ [video_frame 3 False]) = [0]" by code_simp
  with push_returns_iff [OF r flags] have "push r (video_frame 3 False) = None"
    by (cases "push r (video_frame 3 False)") auto
  with r show ?thesis by blast
qed

theorem default_ring_hangs_witness:
  "push_all frame_ring_new (video_frame 0 True # replicate 512 (video_frame 10 False)) = None"
  by (rule default_ring_hangs_on_long_gop) (auto simp: video_frame_def [of 0] DEFAULT_CAPACITY_FRAMES_def)

theorem ring_keeps_newest_gop_witness:
  "\<exists>r. push_all (with_capacity 2 100) [video_frame 10 True, video_frame 2 False, video_frame 3 True] = Some r \<and>
     latest_idr_seq r = Some 2 \<and> frames_from r (snap r LatestIdr) (latest_seq r) = [video_frame 3 True]"
proof -
  let ?fs = "[video_frame 10 True, video_frame 2 False, video_frame 3 True]"
  have "push_all (with_capacity 2 100) ?fs \<noteq> None" by code_simp
  then obtain r where r: "push_all (with_capacity 2 100) ?fs = Some r" by auto
  have flags: "keys_flagged ?fs"
    using keys_flagged_video [of "[(10, True), (2, False), (3, True)]"] by simp
  have gops: "gop_seqs ?fs = [0, 2]" by code_simp
  then have "gop_seqs ?fs \<noteq> []" by simp
  moreover have "cached_form (video_frame 3 True) = video_frame 3 True"
    by (simp add: cached_form_def video_frame_def)
  ultimately
  have "latest_idr_seq r = Some 2 \<and>
      frames_from r (snap r LatestIdr) (latest_seq r) = [video_frame 3 True]"
    using ring_keeps_newest_gop [OF r flags] by (simp add: gops del: snap.simps)
  with r show ?thesis by blast
qed


theorem ring_without_keyframe_is_flushed_witness:
  "\<exists>r r'. push_all (with_capacity 1 100) [video_frame 10 False] = Some r \<and>
     push r (video_frame 2 False) = Some (r', 1) \<and> fr_slots r' = []"
proof -
  have "case push_all (with_capacity 1 100) [video_frame 10 False] of None \<Rightarrow> False
     | Some r \<Rightarrow> length (fr_slots r) = 1" by code_simp
  then obtain r where r: "push_all (with_capacity 1 100) [video_frame 10 False] = Some r"
    and len: "length (fr_slots r) = 1" by (auto split: option.splits)
  have flags: "keys_flagged ([video_frame 10 False] @ [video_frame 2 False])"
    using keys_flagged_video [of "[(10, False), (2, False)]"] by simp
  have gops: "gop_seqs ([video_frame 10 False] @ [video_frame 2 False]) = []" by code_simp
  from ring_without_keyframe_is_flushed [OF r flags gops len] r show ?thesis by auto
qed

end
