(* ===== verification/Stream_Hub.thy ===== *)
theory Stream_Hub
  imports Frame_Ring "HOL-Library.AList"
begin

text \<open>
  \<open>src/src/core/stream_hub.rs\<close>: the hub of one stream, with its description, its receivers,
  the name of its publisher and its frame ring. Each lock guards one field, so the model is one
  record and each operation one atomic step. The receiver map is an association list with
  distinct keys, since the code iterates over it. \<open>hub_seq_tx\<close> is the last value handed to
  the watch channel that wakes the readers.
\<close>

record stream_hub =
  hub_stream_id :: stream_id
  hub_stream :: stream
  hub_receivers :: "(receiver_id \<times> stream_receiver) list"
  hub_publisher :: "string option"
  hub_ring :: frame_ring
  hub_seq_tx :: nat

definition hub_with_stream :: "stream \<Rightarrow> stream_hub" where
  "hub_with_stream s =
     \<lparr>hub_stream_id = st_id s, hub_stream = s, hub_receivers = [], hub_publisher = None,
      hub_ring = frame_ring_new, hub_seq_tx = 0\<rparr>"

definition fresh_stream ::
    "stream_id \<Rightarrow> stream_source_mode \<Rightarrow> stream_protocol \<Rightarrow> string option \<Rightarrow> stream" where
  "fresh_stream sid source proto url =
     \<lparr>st_id = sid, st_tracks = [], st_status = stream_status.Created,
      st_playback_status = playback_status.Idle, st_source = source, st_protocol = proto,
      st_pull_url = url, st_sps = None, st_pps = None\<rparr>"

definition hub_new :: "stream_id \<Rightarrow> stream_hub" where
  "hub_new sid =
     hub_with_stream (fresh_stream sid stream_source_mode.Push stream_protocol.Unknown None)"

definition update_stream :: "stream_hub \<Rightarrow> (stream \<Rightarrow> stream) \<Rightarrow> stream_hub" where
  "update_stream h f = h\<lparr>hub_stream := f (hub_stream h)\<rparr>"

definition set_tracks :: "stream_hub \<Rightarrow> track list \<Rightarrow> stream_hub" where
  "set_tracks h ts = update_stream h (\<lambda>s. s\<lparr>st_tracks := ts\<rparr>)"

definition hub_add_receiver :: "stream_hub \<Rightarrow> stream_receiver \<Rightarrow> stream_hub" where
  "hub_add_receiver h r = h\<lparr>hub_receivers := AList.update (rc_id r) r (hub_receivers h)\<rparr>"

definition hub_remove_receiver :: "stream_hub \<Rightarrow> receiver_id \<Rightarrow> stream_hub \<times> stream_receiver option" where
  "hub_remove_receiver h rid =
     (h\<lparr>hub_receivers := AList.delete rid (hub_receivers h)\<rparr>, map_of (hub_receivers h) rid)"

definition hub_get_receiver :: "stream_hub \<Rightarrow> receiver_id \<Rightarrow> stream_receiver option" where
  "hub_get_receiver h rid = map_of (hub_receivers h) rid"

definition hub_list_receiver_ids :: "stream_hub \<Rightarrow> receiver_id list" where
  "hub_list_receiver_ids h = map fst (hub_receivers h)"

definition hub_list_receivers :: "stream_hub \<Rightarrow> stream_receiver list" where
  "hub_list_receivers h = map snd (hub_receivers h)"

definition hub_set_receiver_status ::
    "stream_hub \<Rightarrow> receiver_id \<Rightarrow> receiver_status \<Rightarrow> stream_hub \<times> receiver_status option" where
  "hub_set_receiver_status h rid status =
     (case map_of (hub_receivers h) rid of
        None \<Rightarrow> (h, None)
      | Some r \<Rightarrow>
          (h\<lparr>hub_receivers := AList.update rid (r\<lparr>rc_status := status\<rparr>) (hub_receivers h)\<rparr>,
           Some (rc_status r)))"

text \<open>\<open>acquire_publisher\<close> answers with the name of the present publisher when it refuses.\<close>

definition hub_acquire_publisher :: "stream_hub \<Rightarrow> string \<Rightarrow> string + stream_hub" where
  "hub_acquire_publisher h p =
     (case hub_publisher h of
        Some cur \<Rightarrow> if cur \<noteq> p then Inl cur else Inr (h\<lparr>hub_publisher := Some p\<rparr>)
      | None \<Rightarrow> Inr (h\<lparr>hub_publisher := Some p\<rparr>))"

definition hub_release_publisher :: "stream_hub \<Rightarrow> string \<Rightarrow> stream_hub \<times> bool" where
  "hub_release_publisher h p =
     (if hub_publisher h = Some p then (h\<lparr>hub_publisher := None\<rparr>, True) else (h, False))"

text \<open>\<open>publish\<close>: \<open>None\<close> when the ring's push does not return.\<close>

definition hub_publish :: "stream_hub \<Rightarrow> media_frame \<Rightarrow> (stream_hub \<times> nat) option" where
  "hub_publish h f =
     (case push (hub_ring h) f of
        None \<Rightarrow> None
      | Some (r, seq) \<Rightarrow> Some (h\<lparr>hub_ring := r, hub_seq_tx := seq\<rparr>, seq))"

definition hub_get :: "stream_hub \<Rightarrow> nat \<Rightarrow> media_frame option" where
  "hub_get h seq = map_option to_media_frame (ring_get (hub_ring h) seq)"

definition hub_get_stored :: "stream_hub \<Rightarrow> nat \<Rightarrow> stored_frame option" where
  "hub_get_stored h seq = ring_get (hub_ring h) seq"

definition hub_latest_seq :: "stream_hub \<Rightarrow> nat" where
  "hub_latest_seq h = latest_seq (hub_ring h)"

definition hub_is_empty :: "stream_hub \<Rightarrow> bool" where
  "hub_is_empty h = ring_is_empty (hub_ring h)"

definition hub_snap :: "stream_hub \<Rightarrow> snap_mode \<Rightarrow> nat" where
  "hub_snap h m = snap (hub_ring h) m"

definition hub_latest_idr_frame :: "stream_hub \<Rightarrow> media_frame option" where
  "hub_latest_idr_frame h = latest_idr_frame (hub_ring h)"

definition hub_latest_idr_seq :: "stream_hub \<Rightarrow> nat option" where
  "hub_latest_idr_seq h = latest_idr_seq (hub_ring h)"

definition hub_latest_idr_bytes :: "stream_hub \<Rightarrow> (bytes \<times> nat \<times> nat option) option" where
  "hub_latest_idr_bytes h =
     map_option (\<lambda>f. (mf_data f, mf_timestamp f, mf_clock_rate f)) (latest_idr_frame (hub_ring h))"

definition hub_frames_from :: "stream_hub \<Rightarrow> nat \<Rightarrow> nat \<Rightarrow> media_frame list" where
  "hub_frames_from h a b = frames_from (hub_ring h) a b"

definition hub_oldest_seq :: "stream_hub \<Rightarrow> nat option" where
  "hub_oldest_seq h = oldest_seq (hub_ring h)"

definition hub_reset :: "stream_hub \<Rightarrow> stream_hub" where
  "hub_reset h = h\<lparr>hub_ring := frame_ring_new, hub_seq_tx := 0\<rparr>"

section \<open>Well-formed hubs\<close>

definition hub_ok :: "stream_hub \<Rightarrow> bool" where
  "hub_ok h \<longleftrightarrow> st_id (hub_stream h) = hub_stream_id h \<and> distinct (map fst (hub_receivers h)) \<and>
     (\<forall>(rid, r)\<in>set (hub_receivers h). rc_id r = rid \<and> rc_stream_id r = hub_stream_id h)"

lemma set_delete_subset: "set (AList.delete k xs) \<subseteq> set xs"
  by (auto simp: AList.delete_eq)

lemma set_update_subset: "set (AList.update k v xs) \<subseteq> insert (k, v) (set xs)"
  by (induction xs) auto

lemma hub_ok_with_stream [simp]: "hub_ok (hub_with_stream s)"
  by (simp add: hub_ok_def hub_with_stream_def)

lemma hub_ok_update_stream [intro]:
  "hub_ok h \<Longrightarrow> (\<And>s. st_id (f s) = st_id s) \<Longrightarrow> hub_ok (update_stream h f)"
  by (simp add: hub_ok_def update_stream_def)

lemma hub_ok_add_receiver [intro]:
  "hub_ok h \<Longrightarrow> rc_stream_id r = hub_stream_id h \<Longrightarrow> hub_ok (hub_add_receiver h r)"
  using set_update_subset [of "rc_id r" r "hub_receivers h"]
  by (auto simp: hub_ok_def hub_add_receiver_def distinct_update)

lemma hub_ok_remove_receiver [intro]: "hub_ok h \<Longrightarrow> hub_ok (fst (hub_remove_receiver h rid))"
  using set_delete_subset [of rid "hub_receivers h"]
  by (auto simp: hub_ok_def hub_remove_receiver_def distinct_delete)

lemma hub_ok_set_receiver_status [intro]: "hub_ok h \<Longrightarrow> hub_ok (fst (hub_set_receiver_status h rid s))"
proof (cases "map_of (hub_receivers h) rid")
  case None
  then show "hub_ok h \<Longrightarrow> ?thesis" by (simp add: hub_set_receiver_status_def)
next
  case (Some r)
  then have "(rid, r) \<in> set (hub_receivers h)" by (rule map_of_SomeD)
  with Some set_update_subset [of rid "r\<lparr>rc_status := s\<rparr>" "hub_receivers h"]
  show "hub_ok h \<Longrightarrow> ?thesis"
    by (fastforce simp: hub_ok_def hub_set_receiver_status_def distinct_update)
qed

lemma hub_ok_acquire [intro]: "hub_ok h \<Longrightarrow> hub_acquire_publisher h p = Inr h' \<Longrightarrow> hub_ok h'"
  by (auto simp: hub_ok_def hub_acquire_publisher_def split: option.splits if_splits)

lemma hub_ok_release [intro]: "hub_ok h \<Longrightarrow> hub_ok (fst (hub_release_publisher h p))"
  by (simp add: hub_ok_def hub_release_publisher_def)

lemma hub_ok_publish [intro]: "hub_ok h \<Longrightarrow> hub_publish h f = Some (h', s) \<Longrightarrow> hub_ok h'"
  by (auto simp: hub_ok_def hub_publish_def split: option.splits)

lemma hub_ok_reset [intro]: "hub_ok h \<Longrightarrow> hub_ok (hub_reset h)"
  by (simp add: hub_ok_def hub_reset_def)

interpretation hub_slot: publisher_slot
  "\<lambda>h p. case hub_acquire_publisher h p of Inl _ \<Rightarrow> None | Inr h' \<Rightarrow> Some h'"
  hub_release_publisher hub_publisher
  by unfold_locales
    (auto simp: hub_acquire_publisher_def hub_release_publisher_def
      split: option.splits if_splits sum.splits)

end
