(* ===== verification/Stream_Manager.thy ===== *)
theory Stream_Manager
  imports Stream_Hub
begin

text \<open>
  \<open>src/src/core/stream_manager.rs\<close>: the registry of hubs. Every operation looks a hub up under
  the lock of the registry and then acts on it; the model replaces the hub in the map. A
  \<open>Result\<close> whose error only carries a message is an option. The random part of a receiver id
  is an argument (\<open>uuid\<close>).
\<close>

record stream_manager =
  mgr_hubs :: "(stream_id \<times> stream_hub) list"

definition manager_new :: stream_manager where
  "manager_new = \<lparr>mgr_hubs = []\<rparr>"

definition get_hub :: "stream_manager \<Rightarrow> stream_id \<Rightarrow> stream_hub option" where
  "get_hub m sid = map_of (mgr_hubs m) sid"

definition put_hub :: "stream_manager \<Rightarrow> stream_id \<Rightarrow> stream_hub \<Rightarrow> stream_manager" where
  "put_hub m sid h = m\<lparr>mgr_hubs := AList.update sid h (mgr_hubs m)\<rparr>"

text \<open>\<open>if let Some(hub) = self.get_hub(stream_id) { f(hub) }\<close>\<close>

definition with_hub :: "stream_manager \<Rightarrow> stream_id \<Rightarrow> (stream_hub \<Rightarrow> stream_hub) \<Rightarrow> stream_manager" where
  "with_hub m sid f = (case get_hub m sid of None \<Rightarrow> m | Some h \<Rightarrow> put_hub m sid (f h))"

definition create_stream ::
    "stream_manager \<Rightarrow> stream_id \<Rightarrow> stream_source_mode \<Rightarrow> stream_protocol \<Rightarrow> string option \<Rightarrow>
     stream_manager \<times> stream" where
  "create_stream m sid source proto url =
     (case get_hub m sid of
        Some h \<Rightarrow> (m, hub_stream h)
      | None \<Rightarrow>
          let s = fresh_stream sid source proto url
          in (put_hub m sid (hub_with_stream s), s))"

definition set_stream_tracks :: "stream_manager \<Rightarrow> stream_id \<Rightarrow> track list \<Rightarrow> stream_manager" where
  "set_stream_tracks m sid ts = with_hub m sid (\<lambda>h. set_tracks h ts)"

definition set_stream_sps_pps :: "stream_manager \<Rightarrow> stream_id \<Rightarrow> bytes \<Rightarrow> bytes \<Rightarrow> stream_manager" where
  "set_stream_sps_pps m sid sps pps =
     with_hub m sid (\<lambda>h. update_stream h (\<lambda>s. s\<lparr>st_sps := Some sps, st_pps := Some pps\<rparr>))"

definition merge_stream_nalu_config :: "stream_manager \<Rightarrow> stream_id \<Rightarrow> bytes \<Rightarrow> stream_manager" where
  "merge_stream_nalu_config m sid nalu =
     (if nalu = [] then m
      else let nal_type = hd nalu AND 0x1F
        in if nal_type \<noteq> 7 \<and> nal_type \<noteq> 8 then m
           else with_hub m sid (\<lambda>h. update_stream h (\<lambda>s.
             if nal_type = 7 \<and> st_sps s = None then s\<lparr>st_sps := Some nalu\<rparr>
             else if nal_type = 8 \<and> st_pps s = None then s\<lparr>st_pps := Some nalu\<rparr>
             else s)))"

text \<open>\<open>get_or_create_hub\<close> only looks the hub up, so these two leave the registry as it is.\<close>

definition get_or_create_hub :: "stream_manager \<Rightarrow> stream_id \<Rightarrow> stream_hub option" where
  "get_or_create_hub m sid = get_hub m sid"

definition ensure_stream_hub :: "stream_manager \<Rightarrow> stream_id \<Rightarrow> stream_manager" where
  "ensure_stream_hub m sid =
     (if get_hub m sid \<noteq> None then m
      else case get_or_create_hub m sid of None \<Rightarrow> m | Some _ \<Rightarrow> m)"

definition remove_stream :: "stream_manager \<Rightarrow> stream_id \<Rightarrow> stream_manager \<times> stream option" where
  "remove_stream m sid =
     (m\<lparr>mgr_hubs := AList.delete sid (mgr_hubs m)\<rparr>,
      map_option hub_stream (map_of (mgr_hubs m) sid))"

definition get_stream :: "stream_manager \<Rightarrow> stream_id \<Rightarrow> stream option" where
  "get_stream m sid = map_option hub_stream (get_hub m sid)"

definition list_streams :: "stream_manager \<Rightarrow> stream_id list" where
  "list_streams m = map fst (mgr_hubs m)"

definition set_status :: "stream_manager \<Rightarrow> stream_id \<Rightarrow> stream_status \<Rightarrow> stream_manager option" where
  "set_status m sid status =
     (case get_hub m sid of
        None \<Rightarrow> None
      | Some h \<Rightarrow> Some (put_hub m sid (update_stream h (\<lambda>s. s\<lparr>st_status := status\<rparr>))))"

definition set_playback_status ::
    "stream_manager \<Rightarrow> stream_id \<Rightarrow> playback_status \<Rightarrow> stream_manager option" where
  "set_playback_status m sid status =
     (case get_hub m sid of
        None \<Rightarrow> None
      | Some h \<Rightarrow> Some (put_hub m sid (update_stream h (\<lambda>s. s\<lparr>st_playback_status := status\<rparr>))))"

definition set_created :: "stream_manager \<Rightarrow> stream_id \<Rightarrow> stream_manager option" where
  "set_created m sid = set_status m sid stream_status.Created"

definition set_unpublished :: "stream_manager \<Rightarrow> stream_id \<Rightarrow> stream_manager option" where
  "set_unpublished m sid = set_status m sid stream_status.Unpublished"

definition set_publishing :: "stream_manager \<Rightarrow> stream_id \<Rightarrow> stream_manager option" where
  "set_publishing m sid = set_status m sid stream_status.Publishing"

definition set_paused :: "stream_manager \<Rightarrow> stream_id \<Rightarrow> stream_manager option" where
  "set_paused m sid = set_status m sid stream_status.Paused"

definition set_error :: "stream_manager \<Rightarrow> stream_id \<Rightarrow> string \<Rightarrow> stream_manager option" where
  "set_error m sid e = set_status m sid (stream_status.Error e)"

definition set_stopped :: "stream_manager \<Rightarrow> stream_id \<Rightarrow> stream_manager option" where
  "set_stopped m sid = set_status m sid stream_status.Stopped"

definition set_playback_idle :: "stream_manager \<Rightarrow> stream_id \<Rightarrow> stream_manager option" where
  "set_playback_idle m sid = set_playback_status m sid playback_status.Idle"

definition set_playback_playing :: "stream_manager \<Rightarrow> stream_id \<Rightarrow> stream_manager option" where
  "set_playback_playing m sid = set_playback_status m sid playback_status.Playing"

definition set_playback_paused :: "stream_manager \<Rightarrow> stream_id \<Rightarrow> stream_manager option" where
  "set_playback_paused m sid = set_playback_status m sid playback_status.Paused"

text \<open>\<open>reset_stream_media\<close>: a new ring, sequence numbers from zero, no codec configuration.\<close>

definition reset_stream_media :: "stream_manager \<Rightarrow> stream_id \<Rightarrow> stream_manager" where
  "reset_stream_media m sid =
     with_hub m sid (\<lambda>h. update_stream (hub_reset h) (\<lambda>s. s\<lparr>st_sps := None, st_pps := None\<rparr>))"

definition acquire_publisher :: "stream_manager \<Rightarrow> stream_id \<Rightarrow> string \<Rightarrow> stream_manager option" where
  "acquire_publisher m sid p =
     (case get_hub m sid of
        None \<Rightarrow> None
      | Some h \<Rightarrow>
          (case hub_acquire_publisher h p of
             Inl cur \<Rightarrow> None
           | Inr h' \<Rightarrow> Some (reset_stream_media (put_hub m sid h') sid)))"

definition release_publisher :: "stream_manager \<Rightarrow> stream_id \<Rightarrow> string \<Rightarrow> stream_manager \<times> bool" where
  "release_publisher m sid p =
     (case get_hub m sid of
        None \<Rightarrow> (m, False)
      | Some h \<Rightarrow>
          (case hub_release_publisher h p of
             (h', True) \<Rightarrow> (reset_stream_media (put_hub m sid h') sid, True)
           | (h', False) \<Rightarrow> (put_hub m sid h', False)))"

definition current_publisher :: "stream_manager \<Rightarrow> stream_id \<Rightarrow> string option" where
  "current_publisher m sid = Option.bind (get_hub m sid) hub_publisher"

definition register_receiver :: "stream_manager \<Rightarrow> stream_id \<Rightarrow> stream_receiver \<Rightarrow> stream_manager" where
  "register_receiver m sid r = with_hub m sid (\<lambda>h. hub_add_receiver h r)"

definition create_receiver ::
    "string \<Rightarrow> stream_manager \<Rightarrow> stream_id \<Rightarrow> stream_sink_mode \<Rightarrow> stream_protocol \<Rightarrow>
     stream_manager \<times> stream_receiver" where
  "create_receiver uuid m sid mode proto =
     (let r = receiver_new uuid sid mode proto in (register_receiver m sid r, r))"

definition create_pull_receiver ::
    "string \<Rightarrow> stream_manager \<Rightarrow> stream_id \<Rightarrow> stream_protocol \<Rightarrow> string \<Rightarrow>
     stream_manager \<times> stream_receiver" where
  "create_pull_receiver uuid m sid proto addr =
     (let r = with_client_addr (receiver_new uuid sid stream_sink_mode.Pull proto) addr
      in (register_receiver m sid r, r))"

definition create_push_receiver ::
    "string \<Rightarrow> stream_manager \<Rightarrow> stream_id \<Rightarrow> stream_protocol \<Rightarrow> string \<Rightarrow>
     stream_manager \<times> stream_receiver" where
  "create_push_receiver uuid m sid proto addr =
     (let r = with_push_addr (receiver_new uuid sid stream_sink_mode.Push proto) addr
      in (register_receiver m sid r, r))"

text \<open>\<open>find_map\<close> over the hubs: the first one that knows the receiver answers, the rest are not asked.\<close>

fun first_hub :: "(stream_hub \<Rightarrow> stream_hub \<times> 'a option) \<Rightarrow> (stream_id \<times> stream_hub) list \<Rightarrow>
    (stream_id \<times> stream_hub) list \<times> 'a option" where
  "first_hub f [] = ([], None)"
| "first_hub f ((sid, h) # hs) =
     (case f h of
        (h', Some x) \<Rightarrow> ((sid, h') # hs, Some x)
      | (h', None) \<Rightarrow> (let (hs', y) = first_hub f hs in ((sid, h') # hs', y)))"

definition remove_receiver :: "stream_manager \<Rightarrow> receiver_id \<Rightarrow> stream_manager \<times> stream_receiver option" where
  "remove_receiver m rid =
     (let (hs, r) = first_hub (\<lambda>h. hub_remove_receiver h rid) (mgr_hubs m)
      in (m\<lparr>mgr_hubs := hs\<rparr>, r))"

definition get_receiver :: "stream_manager \<Rightarrow> receiver_id \<Rightarrow> stream_receiver option" where
  "get_receiver m rid = snd (first_hub (\<lambda>h. (h, hub_get_receiver h rid)) (mgr_hubs m))"

definition list_receivers :: "stream_manager \<Rightarrow> receiver_id list" where
  "list_receivers m = concat (map (\<lambda>(sid, h). hub_list_receiver_ids h) (mgr_hubs m))"

definition list_receivers_for_stream :: "stream_manager \<Rightarrow> stream_id \<Rightarrow> stream_receiver list" where
  "list_receivers_for_stream m sid =
     (case get_hub m sid of None \<Rightarrow> [] | Some h \<Rightarrow> hub_list_receivers h)"

definition set_receiver_status ::
    "stream_manager \<Rightarrow> receiver_id \<Rightarrow> receiver_status \<Rightarrow> stream_manager \<times> bool" where
  "set_receiver_status m rid status =
     (let (hs, old) = first_hub (\<lambda>h. hub_set_receiver_status h rid status) (mgr_hubs m)
      in (m\<lparr>mgr_hubs := hs\<rparr>, old \<noteq> None))"

definition get_last_keyframe :: "stream_manager \<Rightarrow> stream_id \<Rightarrow> (bytes \<times> nat \<times> nat option) option" where
  "get_last_keyframe m sid = Option.bind (get_hub m sid) hub_latest_idr_bytes"

text \<open>A published frame moves a stream from created or unpublished to publishing.\<close>

definition mark_publishing :: "stream \<Rightarrow> stream" where
  "mark_publishing s =
     (case st_status s of
        stream_status.Created \<Rightarrow> s\<lparr>st_status := stream_status.Publishing\<rparr>
      | stream_status.Unpublished \<Rightarrow> s\<lparr>st_status := stream_status.Publishing\<rparr>
      | _ \<Rightarrow> s)"

definition publish_frame :: "stream_manager \<Rightarrow> media_frame \<Rightarrow> stream_manager option" where
  "publish_frame m f =
     (let sid = mf_stream_id f in
      case get_or_create_hub m sid of
        None \<Rightarrow> Some m
      | Some h \<Rightarrow>
          (case hub_publish h f of
             None \<Rightarrow> None
           | Some (h', seq) \<Rightarrow>
               Some (with_hub (put_hub m sid h') sid (\<lambda>h. update_stream h mark_publishing))))"

definition update_stream_status :: "stream_manager \<Rightarrow> stream_id \<Rightarrow> stream_status \<Rightarrow> stream_manager" where
  "update_stream_status m sid status =
     with_hub m sid (\<lambda>h. update_stream h (\<lambda>s. s\<lparr>st_status := status\<rparr>))"

section \<open>Lookup after an operation\<close>

lemma get_put_hub [simp]: "get_hub (put_hub m sid h) sid' = (if sid' = sid then Some h else get_hub m sid')"
  by (simp add: get_hub_def put_hub_def update_conv)

lemma get_with_hub [simp]:
  "get_hub (with_hub m sid f) sid' = (if sid' = sid then map_option f (get_hub m sid) else get_hub m sid')"
  by (simp add: with_hub_def split: option.splits)

lemma get_hub_new [simp]: "get_hub manager_new sid = None"
  by (simp add: get_hub_def manager_new_def)

lemma get_hub_reset [simp]:
  "get_hub (reset_stream_media m sid) sid' =
     (if sid' = sid
      then map_option (\<lambda>h. update_stream (hub_reset h) (\<lambda>s. s\<lparr>st_sps := None, st_pps := None\<rparr>)) (get_hub m sid)
      else get_hub m sid')"
  by (simp add: reset_stream_media_def)

lemma hub_fields [simp]:
  "hub_publisher (update_stream h f) = hub_publisher h"
  "hub_ring (update_stream h f) = hub_ring h"
  "hub_stream (update_stream h f) = f (hub_stream h)"
  "hub_receivers (update_stream h f) = hub_receivers h"
  "hub_stream_id (update_stream h f) = hub_stream_id h"
  "hub_publisher (hub_reset h) = hub_publisher h"
  "hub_stream (hub_reset h) = hub_stream h"
  "hub_receivers (hub_reset h) = hub_receivers h"
  "hub_ring (hub_reset h) = frame_ring_new"
  "hub_stream_id (hub_reset h) = hub_stream_id h"
  by (simp_all add: update_stream_def hub_reset_def)

lemma current_publisher_cases:
  "current_publisher m sid = (case get_hub m sid of None \<Rightarrow> None | Some h \<Rightarrow> hub_publisher h)"
  by (cases "get_hub m sid") (simp_all add: current_publisher_def)

interpretation mgr_slot: publisher_slot
  "\<lambda>m. acquire_publisher m sid" "\<lambda>m. release_publisher m sid" "\<lambda>m. current_publisher m sid"
  for sid
  by unfold_locales
    (auto simp: acquire_publisher_def release_publisher_def current_publisher_cases
      hub_acquire_publisher_def hub_release_publisher_def split: option.splits if_splits sum.splits)

section \<open>The registry as a transition system\<close>

text \<open>One step: any operation that changes the registry, with any arguments.\<close>

inductive mgr_step :: "stream_manager \<Rightarrow> stream_manager \<Rightarrow> bool" where
  step_create: "mgr_step m (fst (create_stream m sid source proto url))"
| step_tracks: "mgr_step m (set_stream_tracks m sid ts)"
| step_sps_pps: "mgr_step m (set_stream_sps_pps m sid sps pps)"
| step_merge: "mgr_step m (merge_stream_nalu_config m sid nalu)"
| step_remove: "mgr_step m (fst (remove_stream m sid))"
| step_status: "set_status m sid st = Some m' \<Longrightarrow> mgr_step m m'"
| step_playback: "set_playback_status m sid pst = Some m' \<Longrightarrow> mgr_step m m'"
| step_reset: "mgr_step m (reset_stream_media m sid)"
| step_acquire: "acquire_publisher m sid p = Some m' \<Longrightarrow> mgr_step m m'"
| step_release: "mgr_step m (fst (release_publisher m sid p))"
| step_receiver: "mgr_step m (fst (create_receiver uuid m sid mode proto))"
| step_pull: "mgr_step m (fst (create_pull_receiver uuid m sid proto addr))"
| step_push: "mgr_step m (fst (create_push_receiver uuid m sid proto addr))"
| step_remove_receiver: "mgr_step m (fst (remove_receiver m rid))"
| step_receiver_status: "mgr_step m (fst (set_receiver_status m rid rst))"
| step_publish: "publish_frame m f = Some m' \<Longrightarrow> mgr_step m m'"
| step_update_status: "mgr_step m (update_stream_status m sid st)"

inductive_cases mgr_stepE: "mgr_step m m'"

inductive mgr_reachable :: "stream_manager \<Rightarrow> bool" where
  reach_new: "mgr_reachable manager_new"
| reach_step: "mgr_reachable m \<Longrightarrow> mgr_step m m' \<Longrightarrow> mgr_reachable m'"

definition mgr_ok :: "stream_manager \<Rightarrow> bool" where
  "mgr_ok m \<longleftrightarrow> distinct (map fst (mgr_hubs m)) \<and>
     (\<forall>(sid, h)\<in>set (mgr_hubs m). hub_stream_id h = sid \<and> hub_ok h)"

lemma mgr_ok_get: "mgr_ok m \<Longrightarrow> get_hub m sid = Some h \<Longrightarrow> hub_stream_id h = sid \<and> hub_ok h"
  by (auto simp: mgr_ok_def get_hub_def dest!: map_of_SomeD)

lemma mgr_ok_put [intro]:
  "mgr_ok m \<Longrightarrow> hub_stream_id h = sid \<Longrightarrow> hub_ok h \<Longrightarrow> mgr_ok (put_hub m sid h)"
  using set_update_subset [of sid h "mgr_hubs m"]
  by (auto simp: mgr_ok_def put_hub_def distinct_update)

lemma mgr_ok_with_hub:
  assumes "mgr_ok m" and "\<And>h. get_hub m sid = Some h \<Longrightarrow> hub_stream_id h = sid \<Longrightarrow> hub_ok h \<Longrightarrow>
      hub_stream_id (f h) = sid \<and> hub_ok (f h)"
  shows "mgr_ok (with_hub m sid f)"
  using assms mgr_ok_get [OF assms(1)] by (auto simp: with_hub_def split: option.splits)

lemma hub_id_fields [simp]:
  "hub_stream_id (hub_add_receiver h r) = hub_stream_id h"
  "hub_stream_id (fst (hub_remove_receiver h rid)) = hub_stream_id h"
  "hub_stream_id (fst (hub_set_receiver_status h rid st)) = hub_stream_id h"
  "hub_stream_id (fst (hub_release_publisher h p)) = hub_stream_id h"
  "hub_stream_id (set_tracks h ts) = hub_stream_id h"
  by (auto simp: hub_add_receiver_def hub_remove_receiver_def hub_set_receiver_status_def
      hub_release_publisher_def set_tracks_def split: option.splits)

lemma hub_acquire_id: "hub_acquire_publisher h p = Inr h' \<Longrightarrow> hub_stream_id h' = hub_stream_id h"
  by (auto simp: hub_acquire_publisher_def split: option.splits if_splits)

lemma hub_publish_id: "hub_publish h f = Some (h', s) \<Longrightarrow> hub_stream_id h' = hub_stream_id h"
  by (auto simp: hub_publish_def split: option.splits)

lemma first_hub_invariant:
  assumes "\<forall>q\<in>set hs. P (fst q) (snd q)" and "\<And>sid h. P sid h \<Longrightarrow> P sid (fst (f h))"
  shows "map fst (fst (first_hub f hs)) = map fst hs \<and>
     (\<forall>q\<in>set (fst (first_hub f hs)). P (fst q) (snd q))"
  using assms(1)
proof (induction hs)
  case Nil
  then show ?case by simp
next
  case (Cons q hs)
  obtain sid h where q: "q = (sid, h)" by fastforce
  obtain h' y where h': "f h = (h', y)" by fastforce
  with assms(2) [of sid h] Cons.prems q have "P sid h'" by simp
  with Cons q h' show ?case by (cases y) (auto simp: case_prod_beta)
qed

definition entry_ok :: "stream_id \<Rightarrow> stream_hub \<Rightarrow> bool" where
  "entry_ok sid h \<longleftrightarrow> hub_stream_id h = sid \<and> hub_ok h"

lemma mgr_ok_entries:
  "mgr_ok m \<longleftrightarrow> distinct (map fst (mgr_hubs m)) \<and> (\<forall>q\<in>set (mgr_hubs m). entry_ok (fst q) (snd q))"
  by (simp add: mgr_ok_def entry_ok_def case_prod_beta)

lemma mgr_ok_first_hub:
  assumes "mgr_ok m" and "\<And>sid h. entry_ok sid h \<Longrightarrow> entry_ok sid (fst (f h))"
  shows "mgr_ok (m\<lparr>mgr_hubs := fst (first_hub f (mgr_hubs m))\<rparr>)"
  using first_hub_invariant [of "mgr_hubs m" entry_ok f, OF _ assms(2)] assms(1)
  by (simp add: mgr_ok_entries)

lemma mgr_ok_reset: "mgr_ok m \<Longrightarrow> mgr_ok (reset_stream_media m sid)"
  unfolding reset_stream_media_def by (rule mgr_ok_with_hub) auto

lemma receiver_new_stream [simp]:
  "rc_stream_id (receiver_new uuid sid mode proto) = sid"
  "rc_stream_id (with_client_addr r a) = rc_stream_id r"
  "rc_stream_id (with_push_addr r a) = rc_stream_id r"
  by (simp_all add: receiver_new_def with_client_addr_def with_push_addr_def)

lemma mgr_ok_register: "mgr_ok m \<Longrightarrow> rc_stream_id r = sid \<Longrightarrow> mgr_ok (register_receiver m sid r)"
  unfolding register_receiver_def by (rule mgr_ok_with_hub) auto

lemma mgr_ok_acquire: "mgr_ok m \<Longrightarrow> acquire_publisher m sid p = Some m' \<Longrightarrow> mgr_ok m'"
  using mgr_ok_get [of m sid]
  by (auto simp: acquire_publisher_def hub_acquire_id split: option.splits sum.splits
      intro!: mgr_ok_reset)

lemma mgr_ok_release: "mgr_ok m \<Longrightarrow> mgr_ok (fst (release_publisher m sid p))"
proof (cases "get_hub m sid")
  case None
  then show "mgr_ok m \<Longrightarrow> ?thesis" by (simp add: release_publisher_def)
next
  case (Some h)
  assume "mgr_ok m"
  with Some mgr_ok_get have h: "hub_stream_id h = sid" "hub_ok h" by blast+
  obtain h' b where r: "hub_release_publisher h p = (h', b)" by fastforce
  with h hub_ok_release [of h p] hub_id_fields(4) [of h p] have "hub_stream_id h' = sid" "hub_ok h'"
    by simp_all
  with Some r \<open>mgr_ok m\<close> show ?thesis
    by (cases b) (auto simp: release_publisher_def intro!: mgr_ok_reset)
qed

lemma mgr_ok_update:
  assumes "mgr_ok m" and "\<And>s. st_id (f s) = st_id s"
  shows "mgr_ok (with_hub m sid (\<lambda>h. update_stream h f))"
  using assms by (intro mgr_ok_with_hub) auto

lemma mgr_ok_put_update:
  assumes "mgr_ok m" and "get_hub m sid = Some h" and "\<And>s. st_id (f s) = st_id s"
  shows "mgr_ok (put_hub m sid (update_stream h f))"
  using mgr_ok_update [OF assms(1,3), of sid] assms(2) by (simp add: with_hub_def)

lemma mgr_ok_publish:
  assumes "mgr_ok m" and "publish_frame m f = Some m'"
  shows "mgr_ok m'"
proof (cases "get_hub m (mf_stream_id f)")
  case None
  with assms show ?thesis by (simp add: publish_frame_def get_or_create_hub_def)
next
  case (Some h)
  with assms(2) obtain h' seq where h': "hub_publish h f = Some (h', seq)" and
    m': "m' = with_hub (put_hub m (mf_stream_id f) h') (mf_stream_id f) (\<lambda>h. update_stream h mark_publishing)"
    by (auto simp: publish_frame_def get_or_create_hub_def Let_def split: option.splits)
  from mgr_ok_get [OF assms(1) Some] h' have "mgr_ok (put_hub m (mf_stream_id f) h')"
    using assms(1) hub_publish_id [OF h'] hub_ok_publish by auto
  then show ?thesis
    unfolding m' by (rule mgr_ok_update) (simp add: mark_publishing_def split: stream_status.split)
qed

lemma mgr_ok_step: "mgr_step m m' \<Longrightarrow> mgr_ok m \<Longrightarrow> mgr_ok m'"
proof (induction rule: mgr_step.induct)
  case (step_create m sid source proto url)
  then show ?case
    by (auto simp: create_stream_def Let_def hub_with_stream_def fresh_stream_def hub_ok_def
        split: option.splits)
next
  case (step_tracks m sid ts)
  then show ?case unfolding set_stream_tracks_def set_tracks_def by (rule mgr_ok_update) simp
next
  case (step_sps_pps m sid sps pps)
  then show ?case unfolding set_stream_sps_pps_def by (rule mgr_ok_update) simp
next
  case (step_merge m sid nalu)
  then show ?case by (auto simp: merge_stream_nalu_config_def Let_def intro!: mgr_ok_update)
next
  case (step_remove m sid)
  then show ?case using set_delete_subset [of sid "mgr_hubs m"]
    by (auto simp: remove_stream_def mgr_ok_def distinct_delete)
next
  case (step_status m sid st m')
  then show ?case by (auto simp: set_status_def split: option.splits intro!: mgr_ok_put_update)
next
  case (step_playback m sid pst m')
  then show ?case by (auto simp: set_playback_status_def split: option.splits intro!: mgr_ok_put_update)
next
  case (step_reset m sid)
  then show ?case by (rule mgr_ok_reset)
next
  case (step_acquire m sid p m')
  then show ?case by (blast intro: mgr_ok_acquire)
next
  case (step_release m sid p)
  then show ?case by (rule mgr_ok_release)
next
  case (step_receiver m uuid sid mode proto)
  then show ?case by (simp add: create_receiver_def Let_def mgr_ok_register)
next
  case (step_pull m uuid sid proto addr)
  then show ?case by (simp add: create_pull_receiver_def Let_def mgr_ok_register)
next
  case (step_push m uuid sid proto addr)
  then show ?case by (simp add: create_push_receiver_def Let_def mgr_ok_register)
next
  case (step_remove_receiver m rid)
  then show ?case by (auto simp: remove_receiver_def case_prod_beta entry_ok_def intro!: mgr_ok_first_hub)
next
  case (step_receiver_status m rid rst)
  then show ?case by (auto simp: set_receiver_status_def case_prod_beta entry_ok_def intro!: mgr_ok_first_hub)
next
  case (step_publish m f m')
  then show ?case by (blast intro: mgr_ok_publish)
next
  case (step_update_status m sid st)
  then show ?case unfolding update_stream_status_def by (rule mgr_ok_update) simp
qed

lemma reachable_ok: "mgr_reachable m \<Longrightarrow> mgr_ok m"
proof (induction rule: mgr_reachable.induct)
  case reach_new
  then show ?case by (simp add: mgr_ok_def manager_new_def)
next
  case (reach_step m m')
  then show ?case by (blast intro: mgr_ok_step)
qed

section \<open>Runs of the registry, and who holds a slot after an operation\<close>

abbreviation mgr_steps :: "stream_manager \<Rightarrow> stream_manager \<Rightarrow> bool" where
  "mgr_steps \<equiv> mgr_step\<^sup>*\<^sup>*"

lemma steps_reachable: "mgr_steps m m' \<Longrightarrow> mgr_reachable m \<Longrightarrow> mgr_reachable m'"
  by (induction rule: rtranclp_induct) (auto intro: reach_step)

lemma steps_one: "mgr_step m m' \<Longrightarrow> mgr_steps m m'"
  by (rule r_into_rtranclp)

lemma steps_then: "mgr_steps m m' \<Longrightarrow> mgr_step m' m'' \<Longrightarrow> mgr_steps m m''"
  by (rule rtranclp.rtrancl_into_rtrancl)

lemma steps_opt_status:
  "mgr_steps m m' \<Longrightarrow> mgr_steps m (case set_status m' sid st of None \<Rightarrow> m' | Some m'' \<Rightarrow> m'')"
  by (auto split: option.split intro: steps_then step_status)

lemma publisher_with_hub:
  assumes "\<And>h. hub_publisher (f h) = hub_publisher h"
  shows "current_publisher (with_hub m sid f) s = current_publisher m s"
  using assms by (cases "get_hub m sid") (auto simp: current_publisher_def)

lemma publisher_put_hub:
  "get_hub m sid = Some h \<Longrightarrow> hub_publisher h' = hub_publisher h \<Longrightarrow>
   current_publisher (put_hub m sid h') s = current_publisher m s"
  by (simp add: current_publisher_def)

lemma publisher_set_sps_pps [simp]: "current_publisher (set_stream_sps_pps m sid a b) s = current_publisher m s"
  by (simp add: set_stream_sps_pps_def publisher_with_hub)

lemma publisher_set_tracks [simp]: "current_publisher (set_stream_tracks m sid ts) s = current_publisher m s"
  by (simp add: set_stream_tracks_def publisher_with_hub set_tracks_def)

lemma publisher_set_status:
  "set_status m sid x = Some m' \<Longrightarrow> current_publisher m' s = current_publisher m s"
  by (auto simp: set_status_def publisher_put_hub split: option.splits)

lemma publisher_opt_status [simp]:
  "current_publisher (case set_status m sid x of None \<Rightarrow> m | Some m' \<Rightarrow> m') s = current_publisher m s"
  by (auto split: option.split dest: publisher_set_status)

lemma publisher_publish:
  assumes "publish_frame m f = Some m'"
  shows "current_publisher m' s = current_publisher m s"
proof (cases "get_hub m (mf_stream_id f)")
  case None
  with assms show ?thesis by (simp add: publish_frame_def get_or_create_hub_def)
next
  case (Some h)
  with assms obtain h' q where "hub_publish h f = Some (h', q)"
    "m' = with_hub (put_hub m (mf_stream_id f) h') (mf_stream_id f) (\<lambda>h. update_stream h mark_publishing)"
    by (auto simp: publish_frame_def get_or_create_hub_def Let_def split: option.splits)
  moreover from this have "hub_publisher h' = hub_publisher h"
    by (auto simp: hub_publish_def split: option.splits)
  ultimately show ?thesis using Some by (simp add: publisher_with_hub publisher_put_hub)
qed

lemma acquire_other:
  "acquire_publisher m sid p = Some m' \<Longrightarrow> s \<noteq> sid \<Longrightarrow> current_publisher m' s = current_publisher m s"
  by (auto simp: acquire_publisher_def current_publisher_def split: option.splits sum.splits)

lemma release_other:
  "s \<noteq> sid \<Longrightarrow> current_publisher (fst (release_publisher m sid p)) s = current_publisher m s"
  by (auto simp: release_publisher_def current_publisher_def split: option.splits prod.splits bool.splits)

lemma push_on_new: "\<exists>r s. push frame_ring_new f = Some (r, s)"
  by (simp add: push_def append_frame_def evict_if_needed.simps frame_ring_new_def with_capacity_def
      MIN_GOPS_RETAINED_def Let_def)

lemma publish_on_new:
  assumes "get_hub m (mf_stream_id f) = Some h" and "hub_ring h = frame_ring_new"
  shows "\<exists>m'. publish_frame m f = Some m'"
proof -
  obtain r s where "push frame_ring_new f = Some (r, s)" using push_on_new by blast
  with assms show ?thesis by (simp add: publish_frame_def get_or_create_hub_def hub_publish_def Let_def)
qed

section \<open>Properties\<close>


definition demo_manager :: stream_manager where
  "demo_manager =
     fst (create_pull_receiver ''ab-1''
       (fst (create_stream manager_new ''s1'' stream_source_mode.Push RTMP None)) ''s1'' RTMP ''peer'')"

lemma demo_reachable: "mgr_reachable demo_manager"
  unfolding demo_manager_def
  by (rule reach_step [OF reach_step [OF reach_new step_create] step_pull])


text \<open>
  C2. At most one publisher holds a stream: over any history of requests to acquire and release it,
  between a grant to \<open>p\<close> and a later grant to another client \<open>q\<close> there is a release by \<open>p\<close>.
\<close>

theorem publishers_exclude_each_other:
  assumes "slot_trace (\<lambda>m. acquire_publisher m sid) (\<lambda>m. release_publisher m sid) m reqs =
      xs @ Acquired p # ys @ Acquired q # zs" and "p \<noteq> q"
  shows "Released p \<in> set ys"
  using assms by (rule mgr_slot.hand_over)

theorem publishers_exclude_each_other_witness:
  "slot_trace (\<lambda>m. acquire_publisher m ''s1'') (\<lambda>m. release_publisher m ''s1'') demo_manager
     [Acquire ''a'', Acquire ''b'', Release ''a'', Acquire ''b''] =
     [Acquired ''a'', Refused, Released ''a'', Acquired ''b''] \<and>
   Released ''a'' \<in> set [Refused, Released ''a'']"
proof -
  have t: "slot_trace (\<lambda>m. acquire_publisher m ''s1'') (\<lambda>m. release_publisher m ''s1'') demo_manager
     [Acquire ''a'', Acquire ''b'', Release ''a'', Acquire ''b''] =
     [Acquired ''a'', Refused, Released ''a'', Acquired ''b'']"
    by (simp add: demo_manager_def create_pull_receiver_def create_stream_def register_receiver_def
        Let_def acquire_publisher_def release_publisher_def hub_acquire_publisher_def
        hub_release_publisher_def hub_with_stream_def hub_add_receiver_def)
  then have "Released ''a'' \<in> set [Refused, Released ''a'']"
    using publishers_exclude_each_other [where xs = "[]" and zs = "[]"] by fastforce
  with t show ?thesis by blast
qed

text \<open>
  A grant succeeds exactly when the stream exists and nobody else holds it. It then starts a
  fresh media epoch for this stream alone: an empty ring whose numbers start at zero and no
  codec configuration, while its receivers, tracks and status stay; also when the same publisher
  acquires a second time.
\<close>

theorem acquire_starts_new_epoch:
  "(acquire_publisher m sid p = None \<longleftrightarrow>
      get_hub m sid = None \<or> (\<exists>q. current_publisher m sid = Some q \<and> q \<noteq> p)) \<and>
   (\<forall>m'. acquire_publisher m sid p = Some m' \<longrightarrow>
      (\<forall>sid'. sid' \<noteq> sid \<longrightarrow> get_hub m' sid' = get_hub m sid') \<and>
      (\<exists>h. get_hub m sid = Some h \<and>
         get_hub m' sid = Some (h\<lparr>hub_publisher := Some p, hub_ring := frame_ring_new, hub_seq_tx := 0,
           hub_stream := (hub_stream h)\<lparr>st_sps := None, st_pps := None\<rparr>\<rparr>)))"
  by (auto simp: acquire_publisher_def current_publisher_cases hub_acquire_publisher_def
      update_stream_def hub_reset_def split: option.splits sum.splits if_splits)

theorem acquire_starts_new_epoch_witness:
  "acquire_publisher demo_manager ''s2'' ''p'' = None"
  using acquire_starts_new_epoch [of demo_manager "''s2''" "''p''"]
  by (simp add: demo_manager_def create_pull_receiver_def create_stream_def register_receiver_def Let_def)

text \<open>
  Publishing touches the named stream only. A frame for an unknown stream is dropped and changes
  nothing; otherwise the call returns exactly when the ring's push does, the ring of the stream
  takes the frame, the readers are notified with its number, and the status becomes publishing
  from created and unpublished and is kept from every other status (a paused, failed or stopped
  stream stays so while frames arrive). The caller need not hold the publisher slot.
\<close>

theorem publish_frame_effect:
  "publish_frame m f =
     (case get_hub m (mf_stream_id f) of
        None \<Rightarrow> Some m
      | Some h \<Rightarrow>
          (case push (hub_ring h) f of
             None \<Rightarrow> None
           | Some (r, seq) \<Rightarrow>
               Some (put_hub (put_hub m (mf_stream_id f) (h\<lparr>hub_ring := r, hub_seq_tx := seq\<rparr>))
                 (mf_stream_id f)
                 (h\<lparr>hub_ring := r, hub_seq_tx := seq,
                    hub_stream := (hub_stream h)\<lparr>st_status :=
                      (if st_status (hub_stream h) \<in> {stream_status.Created, stream_status.Unpublished}
                       then stream_status.Publishing else st_status (hub_stream h))\<rparr>\<rparr>))))"
  by (auto simp: publish_frame_def get_or_create_hub_def hub_publish_def with_hub_def update_stream_def
      mark_publishing_def Let_def split: option.splits stream_status.splits)

end
