(* ===== verification/Dispatch.thy ===== *)
theory Dispatch
  imports Stream_Manager H264_Util Timestamp
begin

text \<open>
  \<open>src/src/core/dispatch.rs\<close>: one reader's cursor into a hub and the delivery policies. A
  reader keeps a shared pointer to its hub; here every operation takes the hub it sees as an
  argument. \<open>recv_batch\<close> sleeps on the watch channel of the hub when there is nothing to
  read: the hub as it is at the wake-up (or \<open>None\<close> when the channel is closed) is an argument
  too. Requests for a keyframe go to the WebRTC publisher registry and are counted in the
  result. Between the wake-up and the end of one call the hub is one snapshot.
\<close>

definition MAX_SEQUENTIAL_BATCH :: nat where "MAX_SEQUENTIAL_BATCH = 96"
definition WEBRTC_LAG_SNAP_THRESHOLD :: nat where "WEBRTC_LAG_SNAP_THRESHOLD = 45"
definition LIVE_COALESCE_LAG_SNAP_THRESHOLD :: nat where "LIVE_COALESCE_LAG_SNAP_THRESHOLD = 2"
definition PRIME_EXISTING_IDR_MAX_LAG :: nat where "PRIME_EXISTING_IDR_MAX_LAG = 30"
definition PRIME_EXISTING_IDR_MAX_MEDIA_LAG_MS :: nat where "PRIME_EXISTING_IDR_MAX_MEDIA_LAG_MS = 1000"

datatype dispatch_policy = LiveCoalesce | SequentialFromIdr | WebRtcPlay | LiveSequential

datatype dispatch_error = Closed

record dispatch_reader =
  rd_stream_id :: stream_id
  rd_policy :: dispatch_policy
  rd_cursor :: nat
  rd_primed :: bool
  rd_pending_muxer_resync :: bool
  rd_pending_live_snap :: bool
  rd_video_catchup_until :: "nat option"

definition reader_new :: "stream_hub \<Rightarrow> dispatch_policy \<Rightarrow> dispatch_reader" where
  "reader_new h policy =
     \<lparr>rd_stream_id = hub_stream_id h, rd_policy = policy,
      rd_cursor = (case policy of
          SequentialFromIdr \<Rightarrow> hub_snap h LatestIdr
        | _ \<Rightarrow> sat_add64 (hub_snap h LiveEdge) 1),
      rd_primed = False, rd_pending_muxer_resync = False, rd_pending_live_snap = False,
      rd_video_catchup_until = None\<rparr>"

definition begin_video_catchup_after_idr :: "dispatch_reader \<Rightarrow> nat \<Rightarrow> nat \<Rightarrow> dispatch_reader" where
  "begin_video_catchup_after_idr r idr_seq batch_end =
     r\<lparr>rd_video_catchup_until := Some batch_end, rd_cursor := sat_add64 idr_seq 1\<rparr>"

definition clear_video_catchup :: "dispatch_reader \<Rightarrow> dispatch_reader" where
  "clear_video_catchup r = r\<lparr>rd_video_catchup_until := None\<rparr>"

definition set_cursor :: "dispatch_reader \<Rightarrow> nat \<Rightarrow> dispatch_reader" where
  "set_cursor r c = r\<lparr>rd_cursor := c\<rparr>"

definition advance_cursor :: "dispatch_reader \<Rightarrow> dispatch_reader" where
  "advance_cursor r = r\<lparr>rd_cursor := sat_add64 (rd_cursor r) 1\<rparr>"

definition snap_to_live_edge :: "dispatch_reader \<Rightarrow> stream_hub \<Rightarrow> dispatch_reader" where
  "snap_to_live_edge r h =
     r\<lparr>rd_video_catchup_until := None, rd_cursor := sat_add64 (hub_snap h LiveEdge) 1\<rparr>"

definition snap_to_latest_idr :: "dispatch_reader \<Rightarrow> stream_hub \<Rightarrow> dispatch_reader" where
  "snap_to_latest_idr r h = r\<lparr>rd_cursor := hub_snap h LatestIdr\<rparr>"

definition media_lag_from_seq_ms :: "stream_hub \<Rightarrow> nat \<Rightarrow> nat option" where
  "media_lag_from_seq_ms h from_seq =
     (let latest = hub_latest_seq h in
      if from_seq > latest then Some 0
      else case hub_get h from_seq of
        None \<Rightarrow> None
      | Some from_frame \<Rightarrow>
          map_option (\<lambda>v. media_frame_timestamp_delta_ms from_frame v)
            (find is_playable_video (rev (hub_frames_from h from_seq latest))))"

definition cursor_media_lag_ms :: "dispatch_reader \<Rightarrow> stream_hub \<Rightarrow> nat option" where
  "cursor_media_lag_ms r h = media_lag_from_seq_ms h (rd_cursor r)"

definition idr_is_close_to_live :: "stream_hub \<Rightarrow> nat \<Rightarrow> bool" where
  "idr_is_close_to_live h idr_seq =
     (hub_latest_seq h - idr_seq \<le> PRIME_EXISTING_IDR_MAX_LAG \<and>
      (case media_lag_from_seq_ms h idr_seq of
         None \<Rightarrow> True
       | Some lag \<Rightarrow> lag \<le> PRIME_EXISTING_IDR_MAX_MEDIA_LAG_MS))"

definition is_playable_idr :: "media_frame \<Rightarrow> bool" where
  "is_playable_idr f =
     (is_playable_video f \<and> (mf_is_keyframe f \<or> is_keyframe_annex_b (mf_data f)))"

definition last_playable_idr_seq :: "stream_hub \<Rightarrow> nat \<Rightarrow> nat \<Rightarrow> nat option" where
  "last_playable_idr_seq h from_seq to_seq =
     find (\<lambda>seq. case hub_get h seq of None \<Rightarrow> False | Some f \<Rightarrow> is_playable_idr f)
       (rev [from_seq..<Suc to_seq])"

definition coalesce_flv_batch :: "media_frame list \<Rightarrow> media_frame list" where
  "coalesce_flv_batch frames =
     (let out = filter (\<lambda>f. \<not> is_playable_video f) frames;
          video = filter is_playable_video frames
      in if video = [] then out
         else let chosen = (if length video > 1 then find is_playable_idr (rev video)
                            else Some (hd video))
           in (case chosen of Some v \<Rightarrow> out @ [v] | None \<Rightarrow> out))"

section \<open>Priming\<close>

text \<open>One look at the hub in \<open>prime_from_idr\<close>: an IDR that is fresh or close to the live edge.\<close>

definition prime_look ::
    "dispatch_reader \<Rightarrow> nat \<Rightarrow> stream_hub \<Rightarrow> (dispatch_reader \<times> media_frame) option" where
  "prime_look r baseline_latest h =
     (case hub_latest_idr_seq h of
        None \<Rightarrow> None
      | Some idr_seq \<Rightarrow>
          if idr_seq > baseline_latest \<or> idr_is_close_to_live h idr_seq then
            (case hub_get h idr_seq of
               None \<Rightarrow> None
             | Some f \<Rightarrow>
                 if is_playable_idr f
                 then Some (r\<lparr>rd_cursor := idr_seq, rd_primed := True\<rparr>, f) else None)
          else None)"

fun prime_loop ::
    "dispatch_reader \<Rightarrow> nat \<Rightarrow> stream_hub list \<Rightarrow> (dispatch_reader \<times> media_frame) option" where
  "prime_loop r baseline [] = None"
| "prime_loop r baseline (h # hs) =
     (case prime_look r baseline h of Some x \<Rightarrow> Some x | None \<Rightarrow> prime_loop r baseline hs)"

text \<open>
  \<open>prime_from_idr\<close>: \<open>h0\<close> is the hub at the call, \<open>looks\<close> the hub at each turn of the waiting
  loop until the deadline or the end of the channel, and \<open>h1\<close> the hub after the loop.
\<close>

definition prime_from_idr ::
    "dispatch_reader \<Rightarrow> stream_manager \<Rightarrow> stream_id \<Rightarrow> stream_hub \<Rightarrow> stream_hub list \<Rightarrow> stream_hub \<Rightarrow>
     dispatch_reader \<times> media_frame option" where
  "prime_from_idr r m sid h0 looks h1 =
     (let baseline = hub_latest_seq h0 in
      case prime_loop r baseline looks of
        Some (r', f) \<Rightarrow> (r', Some f)
      | None \<Rightarrow>
          (case prime_look r baseline h1 of
             Some (r', f) \<Rightarrow> (r', Some f)
           | None \<Rightarrow>
               if hub_is_empty h1 then
                 (case get_last_keyframe m sid of
                    Some (d, ts, clock) \<Rightarrow>
                      (r\<lparr>rd_cursor := hub_snap h1 LatestIdr, rd_primed := True\<rparr>,
                       Some (with_optional_clock_rate (media_frame_new sid 0 ts d True H264) clock))
                  | None \<Rightarrow> (r, None))
               else (r, None)))"

definition finish_prime :: "dispatch_reader \<Rightarrow> stream_hub \<Rightarrow> dispatch_reader" where
  "finish_prime r h =
     (case rd_policy r of
        SequentialFromIdr \<Rightarrow> snap_to_latest_idr r h
      | _ \<Rightarrow> snap_to_live_edge r h)"

definition take_muxer_resync :: "dispatch_reader \<Rightarrow> dispatch_reader \<times> bool" where
  "take_muxer_resync r = (r\<lparr>rd_pending_muxer_resync := False\<rparr>, rd_pending_muxer_resync r)"

definition take_live_snap :: "dispatch_reader \<Rightarrow> dispatch_reader \<times> bool" where
  "take_live_snap r = (r\<lparr>rd_pending_live_snap := False\<rparr>, rd_pending_live_snap r)"

section \<open>Reading batches\<close>

definition ensure_data :: "dispatch_reader \<Rightarrow> stream_hub \<Rightarrow> stream_hub option \<Rightarrow> stream_hub option" where
  "ensure_data r h wake =
     (if \<not> hub_is_empty h \<and> rd_cursor r \<le> hub_latest_seq h then Some h else wake)"

text \<open>A batch: the reader after it, the number of keyframe requests, and the frames.\<close>

type_synonym batch = "dispatch_reader \<times> nat \<times> media_frame list"

definition catchup_batch :: "dispatch_reader \<Rightarrow> stream_hub \<Rightarrow> nat \<Rightarrow> batch" where
  "catchup_batch r h until =
     (let latest = hub_latest_seq h in
      if rd_cursor r > latest then (r, 0, [])
      else let end = min latest until; frames = hub_frames_from h (rd_cursor r) end
        in if frames = [] then (r, 0, [])
           else let c = sat_add64 end 1
             in (r\<lparr>rd_cursor := c, rd_video_catchup_until := (if c > until then None else Some until)\<rparr>,
                 0, frames))"

text \<open>The reaction to lag before a batch is read.\<close>

definition lag_step :: "dispatch_reader \<Rightarrow> stream_hub \<Rightarrow> dispatch_reader \<times> nat" where
  "lag_step r h =
     (let lag = hub_latest_seq h - rd_cursor r in
      case rd_policy r of
        LiveCoalesce \<Rightarrow> (r, if lag > LIVE_COALESCE_LAG_SNAP_THRESHOLD then 1 else 0)
      | WebRtcPlay \<Rightarrow>
          if lag > WEBRTC_LAG_SNAP_THRESHOLD
          then (snap_to_live_edge (r\<lparr>rd_pending_live_snap := True\<rparr>) h, 1) else (r, 0)
      | _ \<Rightarrow> (r, 0))"

definition batch_end :: "dispatch_reader \<Rightarrow> nat \<Rightarrow> nat" where
  "batch_end r latest =
     (case rd_policy r of
        LiveCoalesce \<Rightarrow> latest
      | WebRtcPlay \<Rightarrow> rd_cursor r
      | _ \<Rightarrow> min latest (sat_add64 (rd_cursor r) (MAX_SEQUENTIAL_BATCH - 1)))"

text \<open>Nothing at the cursor although the live edge is ahead: jump over the hole in the ring.\<close>

definition gap_batch :: "dispatch_reader \<Rightarrow> stream_hub \<Rightarrow> nat \<Rightarrow> batch" where
  "gap_batch r h reqs =
     (case hub_oldest_seq h of
        None \<Rightarrow> (r, reqs, [])
      | Some oldest \<Rightarrow>
          if oldest > rd_cursor r then
            let r2 = r\<lparr>rd_pending_muxer_resync := True,
                       rd_cursor := max (hub_snap h LatestIdr) oldest\<rparr>;
                latest = hub_latest_seq h
            in if rd_cursor r2 \<le> latest then
                 let end = min latest (sat_add64 (rd_cursor r2) (MAX_SEQUENTIAL_BATCH - 1));
                     retry = hub_frames_from h (rd_cursor r2) end
                 in if retry \<noteq> [] then (r2\<lparr>rd_cursor := sat_add64 end 1\<rparr>, reqs + 1, retry)
                    else (r2, reqs + 1, [])
               else (r2, reqs + 1, [])
          else (r, reqs, []))"

definition policy_batch :: "dispatch_reader \<Rightarrow> stream_hub \<Rightarrow> batch" where
  "policy_batch r h =
     (let latest = hub_latest_seq h; (r1, reqs) = lag_step r h in
      if rd_cursor r1 > latest then (r1, reqs, [])
      else let end = batch_end r1 latest; frames = hub_frames_from h (rd_cursor r1) end in
        if frames = [] then gap_batch r1 h reqs
        else if rd_policy r1 = LiveCoalesce \<and> length (filter is_playable_video frames) > 1 then
          (case last_playable_idr_seq h (rd_cursor r1) end of
             Some idr_seq \<Rightarrow>
               (begin_video_catchup_after_idr r1 idr_seq end, reqs, coalesce_flv_batch frames)
           | None \<Rightarrow> (r1\<lparr>rd_cursor := sat_add64 end 1\<rparr>, reqs + 1, coalesce_flv_batch frames))
        else (r1\<lparr>rd_cursor := sat_add64 end 1\<rparr>, reqs,
              (if rd_policy r1 \<in> {LiveCoalesce, WebRtcPlay} then coalesce_flv_batch frames else frames)))"

definition batch_of :: "dispatch_reader \<Rightarrow> stream_hub \<Rightarrow> batch" where
  "batch_of r h =
     (case (rd_policy r, rd_video_catchup_until r) of
        (LiveCoalesce, Some until) \<Rightarrow> catchup_batch r h until
      | _ \<Rightarrow> policy_batch r h)"

definition recv_batch ::
    "dispatch_reader \<Rightarrow> stream_hub \<Rightarrow> stream_hub option \<Rightarrow>
     dispatch_reader \<times> nat \<times> (dispatch_error + media_frame list)" where
  "recv_batch r h wake =
     (case ensure_data r h wake of
        None \<Rightarrow> (r, 0, Inl Closed)
      | Some h' \<Rightarrow> (case batch_of r h' of (r', reqs, frames) \<Rightarrow> (r', reqs, Inr frames)))"

definition recv_live_edge_batch ::
    "dispatch_reader \<Rightarrow> stream_hub \<Rightarrow> stream_hub option \<Rightarrow>
     dispatch_error + (nat \<times> nat \<times> media_frame list)" where
  "recv_live_edge_batch r h wake =
     (case ensure_data r h wake of
        None \<Rightarrow> Inl Closed
      | Some h' \<Rightarrow>
          let from_seq = rd_cursor r; latest = hub_latest_seq h'
          in if from_seq > latest then Inr (from_seq, latest, [])
             else Inr (from_seq, latest, hub_frames_from h' from_seq latest))"

text \<open>
  \<open>recv_coalesced\<close> loops until a batch has a frame. Each element of \<open>rounds\<close> is what one turn
  sees: the hub and the wake-up of \<open>recv_batch\<close>, and those of the second \<open>ensure_data\<close>. When
  the list ends the call is still waiting (\<open>None\<close>).
\<close>

fun recv_coalesced ::
    "dispatch_reader \<Rightarrow> ((stream_hub \<times> stream_hub option) \<times> (stream_hub \<times> stream_hub option)) list \<Rightarrow>
     (dispatch_reader \<times> (dispatch_error + media_frame)) option" where
  "recv_coalesced r [] = None"
| "recv_coalesced r (((h, wake), (h2, wake2)) # rounds) =
     (case recv_batch r h wake of
        (r', reqs, Inl e) \<Rightarrow> Some (r', Inl e)
      | (r', reqs, Inr batch) \<Rightarrow>
          if batch = [] then
            (case ensure_data r' h2 wake2 of
               None \<Rightarrow> Some (r', Inl Closed)
             | Some _ \<Rightarrow> recv_coalesced r' rounds)
          else if rd_policy r' \<in> {LiveCoalesce, WebRtcPlay} then
            (case find is_playable_video (rev batch) of
               Some v \<Rightarrow> Some (r', Inr v)
             | None \<Rightarrow> Some (r', Inr (last batch)))
          else Some (r', Inr (last batch)))"

definition recover_lag :: "dispatch_reader \<Rightarrow> stream_hub \<Rightarrow> dispatch_reader" where
  "recover_lag r h = snap_to_live_edge r h"

definition dispatch_subscribe :: "stream_manager \<Rightarrow> stream_id \<Rightarrow> dispatch_policy \<Rightarrow> dispatch_reader option" where
  "dispatch_subscribe m sid policy =
     map_option (\<lambda>h. reader_new h policy) (get_or_create_hub m sid)"

section \<open>What a batch contains\<close>

text \<open>The ring holds every frame of the history \<open>hist\<close> from position \<open>c\<close> on.\<close>

definition ring_holds :: "frame_ring \<Rightarrow> media_frame list \<Rightarrow> nat \<Rightarrow> bool" where
  "ring_holds r hist c \<longleftrightarrow> fr_write_seq r = length hist \<and>
     filter (\<lambda>f. c \<le> sf_seq f) (fr_slots r) = map (\<lambda>i. stored_of i (hist ! i)) [c..<length hist]"

lemma filter_upt_le: "filter (\<lambda>i. i \<le> e) [c..<n] = [c..<min n (Suc e)]"
  by (induction n) (auto simp: min_def not_le le_Suc_eq)

lemma ring_holds_later: "ring_holds r hist c \<Longrightarrow> c \<le> d \<Longrightarrow> ring_holds r hist d"
proof -
  assume h: "ring_holds r hist c" and le: "c \<le> d"
  have "filter (\<lambda>f. d \<le> sf_seq f) (fr_slots r) =
      filter (\<lambda>f. d \<le> sf_seq f) (filter (\<lambda>f. c \<le> sf_seq f) (fr_slots r))"
    using le by (auto intro: filter_cong)
  also have "\<dots> = map (\<lambda>i. stored_of i (hist ! i)) (filter (\<lambda>i. d \<le> i) [c..<length hist])"
    using h by (simp add: ring_holds_def filter_map o_def)
  also have "filter (\<lambda>i. d \<le> i) [c..<length hist] = [d..<length hist]"
    using le by (induction hist rule: rev_induct) auto
  finally show ?thesis using h by (simp add: ring_holds_def)
qed

lemma frames_from_holds:
  assumes "ring_holds r hist c" and "c \<le> length hist"
  shows "frames_from r c e = map cached_form (drop c (take (Suc e) hist))"
proof -
  have "filter (\<lambda>f. c \<le> sf_seq f \<and> sf_seq f \<le> e) (fr_slots r) =
      filter (\<lambda>f. sf_seq f \<le> e) (filter (\<lambda>f. c \<le> sf_seq f) (fr_slots r))"
    by simp
  also have "\<dots> = map (\<lambda>i. stored_of i (hist ! i)) [c..<min (length hist) (Suc e)]"
    using assms(1) by (simp add: ring_holds_def filter_map o_def filter_upt_le)
  finally have eq: "frames_from r c e =
      map cached_form (map (\<lambda>i. hist ! i) [c..<min (length hist) (Suc e)])"
    by (simp add: frames_from_def o_def)
  have "map (\<lambda>i. hist ! i) [c..<min (length hist) (Suc e)] = drop c (take (Suc e) hist)"
    by (rule nth_equalityI) (auto simp: less_diff_conv add.commute)
  with eq show ?thesis by simp
qed

definition sequential :: "dispatch_policy \<Rightarrow> bool" where
  "sequential p \<longleftrightarrow> p = SequentialFromIdr \<or> p = LiveSequential"

lemma batch_of_sequential:
  assumes "sequential (rd_policy r)"
  shows "batch_of r h = policy_batch r h" and "lag_step r h = (r, 0)"
  using assms by (auto simp: sequential_def batch_of_def lag_step_def Let_def)

lemma sequential_batch:
  assumes "sequential (rd_policy r)" and "ring_holds (hub_ring h) hist (rd_cursor r)"
    and "length hist \<le> u64_max"
  shows "batch_of r h =
     (r\<lparr>rd_cursor := max (rd_cursor r) (min (length hist) (rd_cursor r + 96))\<rparr>, 0,
      map cached_form (drop (rd_cursor r) (take (rd_cursor r + 96) hist)))"
proof (cases "rd_cursor r < length hist")
  case False
  then have "drop (rd_cursor r) (take (rd_cursor r + 96) hist) = []" by simp
  moreover have "frames_from (hub_ring h) (rd_cursor r) e = []" for e
    using False assms(2) by (auto simp: ring_holds_def frames_from_def filter_empty_conv)
  moreover have "fr_slots (hub_ring h) = []" if "rd_cursor r \<le> latest_seq (hub_ring h)"
  proof -
    have "rd_cursor r \<le> length hist - 1"
      using that assms(2) by (simp add: latest_seq_def ring_holds_def)
    with False have "length hist = 0" "rd_cursor r = 0" by arith+
    with assms(2) show ?thesis by (simp add: ring_holds_def)
  qed
  ultimately show ?thesis using False
    by (auto simp: batch_of_sequential [OF assms(1)] policy_batch_def Let_def hub_frames_from_def
        hub_latest_seq_def gap_batch_def hub_oldest_seq_def oldest_seq_def max_def)
next
  case True
  let ?c = "rd_cursor r" and ?n = "length hist"
  let ?e = "min (?n - 1) (?c + 95)"
  have latest: "hub_latest_seq h = ?n - 1"
    using assms(2) by (simp add: hub_latest_seq_def latest_seq_def ring_holds_def)
  have e: "batch_end r (?n - 1) = ?e"
    using assms(1,3) True
    by (auto simp: batch_end_def sequential_def sat_add64_def MAX_SEQUENTIAL_BATCH_def)
  have suc: "Suc ?e = min ?n (?c + 96)" using True by simp
  have frames: "hub_frames_from h ?c ?e = map cached_form (drop ?c (take (?c + 96) hist))"
    using frames_from_holds [OF assms(2), of ?e] True
    by (simp add: hub_frames_from_def suc min_def take_all_iff add.commute del: drop_take)
  have ne: "drop ?c (take (?c + 96) hist) \<noteq> []" using True by simp
  have "sat_add64 ?e 1 = min ?n (?c + 96)"
    using assms(3) True by (auto simp: sat_add64_def min_def)
  moreover have "max ?c (min ?n (?c + 96)) = min ?n (?c + 96)" using True by simp
  moreover have "map cached_form (drop ?c (take (?c + 96) hist)) \<noteq> []" using ne by simp
  moreover have "rd_policy r \<notin> {LiveCoalesce, WebRtcPlay}" "rd_policy r \<noteq> LiveCoalesce"
    using assms(1) by (auto simp: sequential_def)
  moreover have "\<not> ?n - 1 < ?c" using True by simp
  ultimately show ?thesis
    by (simp only: batch_of_sequential [OF assms(1)] policy_batch_def Let_def latest e frames
        prod.case if_False not_True_eq_False not_False_eq_True if_True simp_thms)
qed

text \<open>Calls of \<open>recv_batch\<close> in a row, each with the hub and the wake-up it meets.\<close>

fun recv_rounds ::
    "dispatch_reader \<Rightarrow> (stream_hub \<times> stream_hub option) list \<Rightarrow> dispatch_reader \<times> media_frame list" where
  "recv_rounds r [] = (r, [])"
| "recv_rounds r ((h, wake) # rounds) =
     (case recv_batch r h wake of
        (r', _, Inl e) \<Rightarrow> (r', [])
      | (r', _, Inr frames) \<Rightarrow>
          (let (r'', more) = recv_rounds r' rounds in (r'', frames @ more)))"

lemma recv_rounds_sequential:
  assumes "sequential (rd_policy r)" and "length hist \<le> u64_max" and "c \<le> rd_cursor r"
    and "\<forall>(h, wake)\<in>set rounds. \<forall>h'\<in>{h} \<union> set_option wake.
           \<exists>n. ring_holds (hub_ring h') (take n hist) c"
    and "recv_rounds r rounds = (r', frames)"
  shows "rd_cursor r \<le> rd_cursor r' \<and>
     frames = map cached_form (drop (rd_cursor r) (take (rd_cursor r') hist))"
  using assms
proof (induction rounds arbitrary: r frames)
  case Nil
  then show ?case by simp
next
  case (Cons q rounds)
  obtain h wake where q: "q = (h, wake)" by fastforce
  show ?case
  proof (cases "ensure_data r h wake")
    case None
    with Cons.prems q show ?thesis by (simp add: recv_batch_def)
  next
    case (Some h')
    then have "h' \<in> {h} \<union> set_option wake" by (auto simp: ensure_data_def split: if_splits)
    with Cons.prems(4) q obtain n where "ring_holds (hub_ring h') (take n hist) c" by auto
    then have holds: "ring_holds (hub_ring h') (take n hist) (rd_cursor r)"
      using Cons.prems(3) by (rule ring_holds_later)
    have len: "length (take n hist) \<le> u64_max" using Cons.prems(2) by simp
    let ?c = "rd_cursor r" and ?m = "min (length hist) n"
    let ?c1 = "max ?c (min ?m (?c + 96))"
    let ?r1 = "r\<lparr>rd_cursor := ?c1\<rparr>" and ?out = "map cached_form (drop ?c (take (?c + 96) (take n hist)))"
    have b: "recv_batch r h wake = (?r1, 0, Inr ?out)"
      using Some sequential_batch [OF Cons.prems(1) holds len] by (simp add: recv_batch_def)
    obtain r'' more where rest: "recv_rounds ?r1 rounds = (r'', more)" by fastforce
    with Cons.prems(5) q b have fin: "r' = r''" "frames = ?out @ more" by simp_all
    have tail: "\<forall>(h, wake)\<in>set rounds. \<forall>h'\<in>{h} \<union> set_option wake.
           \<exists>n. ring_holds (hub_ring h') (take n hist) c"
      using Cons.prems(4) by (meson list.set_intros(2))
    have "rd_cursor ?r1 \<le> rd_cursor r' \<and>
        more = map cached_form (drop (rd_cursor ?r1) (take (rd_cursor r') hist))"
    proof (rule Cons.IH [OF _ Cons.prems(2) _ tail])
      show "sequential (rd_policy ?r1)" using Cons.prems(1) by simp
      show "c \<le> rd_cursor ?r1" using Cons.prems(3) by simp
      show "recv_rounds ?r1 rounds = (r', more)" using rest fin(1) by simp
    qed
    then have "?c1 \<le> rd_cursor r' \<and> more = map cached_form (drop ?c1 (take (rd_cursor r') hist))"
      by simp
    moreover have "drop ?c (take (?c + 96) (take n hist)) = drop ?c (take ?c1 hist)"
    proof (cases "?c < ?m")
      case True
      then have "take (?c + 96) (take n hist) = take ?c1 hist"
        by (simp add: max_def min_def take_all_iff)
      then show ?thesis by simp
    next
      case False
      then have "?c1 = ?c" by arith
      then have "drop ?c (take ?c1 hist) = []" by simp
      moreover have "length (take n hist) \<le> ?c" using False by auto
      then have "drop ?c (take (?c + 96) (take n hist)) = []" by (simp add: take_all_iff)
      ultimately show ?thesis by simp
    qed
    moreover have "drop ?c (take ?c1 hist) @ drop ?c1 (take d hist) = drop ?c (take d hist)"
      if "?c1 \<le> d" for d
      using that by (intro drop_take_append) simp_all
    ultimately show ?thesis using fin by (simp flip: map_append)
  qed
qed

section \<open>Coalescing\<close>

lemma find_in_set: "find P xs = Some x \<Longrightarrow> x \<in> set xs"
  by (auto simp: find_Some_iff)

lemma find_playable_idr: "find is_playable_idr vs = Some v \<Longrightarrow> is_playable_video v \<and> is_playable_idr v"
  by (auto simp: find_Some_iff is_playable_idr_def)

lemma filter_playable_coalesce:
  "filter is_playable_video (coalesce_flv_batch fs) =
     (case filter is_playable_video fs of
        [] \<Rightarrow> []
      | [v] \<Rightarrow> [v]
      | vs \<Rightarrow> (case find is_playable_idr (rev vs) of None \<Rightarrow> [] | Some v \<Rightarrow> [v]))"
proof -
  let ?vs = "filter is_playable_video fs"
  have none: "filter is_playable_video (filter (\<lambda>f. \<not> is_playable_video f) fs) = []"
    by (simp add: filter_empty_conv)
  consider "?vs = []" | v where "?vs = [v]" | u v us where "?vs = u # v # us"
    by (metis list.exhaust)
  then show ?thesis
  proof cases
    case 1
    then show ?thesis by (simp add: coalesce_flv_batch_def none)
  next
    case 2
    moreover from this have "is_playable_video v" using filter_eq_ConsD [OF 2] by blast
    ultimately show ?thesis by (simp add: coalesce_flv_batch_def none)
  next
    case 3
    let ?found = "find is_playable_idr (rev (u # v # us))"
    have c: "coalesce_flv_batch fs = (case ?found of
        Some w \<Rightarrow> filter (\<lambda>f. \<not> is_playable_video f) fs @ [w]
      | None \<Rightarrow> filter (\<lambda>f. \<not> is_playable_video f) fs)"
      using 3 by (simp add: coalesce_flv_batch_def Let_def)
    show ?thesis unfolding c 3 list.case
      using find_playable_idr [of "rev (u # v # us)"]
      by (cases ?found) (simp_all only: option.case filter_append none, simp)
  qed
qed

lemma filter_other_coalesce:
  "filter (\<lambda>f. \<not> is_playable_video f) (coalesce_flv_batch fs) = filter (\<lambda>f. \<not> is_playable_video f) fs"
proof -
  have hd: "is_playable_video (hd (filter is_playable_video fs))" if "filter is_playable_video fs \<noteq> []"
    using hd_in_set [OF that] by simp
  show ?thesis
  proof (cases "find is_playable_idr (rev (filter is_playable_video fs))")
    case None
    with hd show ?thesis by (simp add: coalesce_flv_batch_def Let_def)
  next
    case (Some v)
    with hd find_playable_idr [OF Some] show ?thesis by (simp add: coalesce_flv_batch_def Let_def)
  qed
qed

section \<open>Properties\<close>


definition demo_hub :: "media_frame list \<Rightarrow> stream_hub" where
  "demo_hub fs = (hub_new ''s1'')\<lparr>hub_ring :=
     \<lparr>fr_capacity_frames = 512, fr_capacity_bytes = 1000,
      fr_slots = map (\<lambda>i. stored_of i (fs ! i)) [0..<length fs],
      fr_idr_seqs = gop_seqs fs, fr_gop_starts = gop_seqs fs, fr_write_seq = length fs,
      fr_bytes_used = sum_list (map (\<lambda>f. length (mf_data f)) fs)\<rparr>\<rparr>"

definition audio_frame :: "nat \<Rightarrow> media_frame" where
  "audio_frame ts = media_frame_new ''s1'' 1 ts [0x21] False AAC"

lemma demo_hub_ring [simp]:
  "fr_slots (hub_ring (demo_hub fs)) = map (\<lambda>i. stored_of i (fs ! i)) [0..<length fs]"
  "fr_write_seq (hub_ring (demo_hub fs)) = length fs"
  by (simp_all add: demo_hub_def)

lemma demo_hub_holds: "ring_holds (hub_ring (demo_hub fs)) fs c"
  by (rule ring_holds_later [of _ _ 0]) (simp_all add: ring_holds_def)


text \<open>
  Coalescing a batch keeps every frame that is not playable video, in order, and at most one
  video frame: the only one of the batch, or else the last IDR of the batch (none, when several
  video frames hold no IDR), so that no frame is forwarded without its references.
\<close>

theorem coalesce_keeps_audio_and_one_idr:
  "filter (\<lambda>f. \<not> is_playable_video f) (coalesce_flv_batch fs) = filter (\<lambda>f. \<not> is_playable_video f) fs \<and>
   filter is_playable_video (coalesce_flv_batch fs) =
     (case filter is_playable_video fs of
        [] \<Rightarrow> []
      | [v] \<Rightarrow> [v]
      | vs \<Rightarrow> (case find is_playable_idr (rev vs) of None \<Rightarrow> [] | Some v \<Rightarrow> [v]))"
  by (simp add: filter_other_coalesce filter_playable_coalesce)

text \<open>
  The catch-up after a coalesced batch delivers audio twice. When a \<open>LiveCoalesce\<close> reader
  collapses a batch onto the IDR at \<open>k\<close>, the batch already carries every audio frame up to the
  live edge, and the next batch replays every frame after \<open>k\<close>, the audio frames included.
\<close>

theorem catchup_repeats_audio:
  assumes "rd_policy r = LiveCoalesce" and "rd_video_catchup_until r = None"
    and "rd_cursor r \<le> hub_latest_seq h" and "hub_latest_seq h < u64_max"
    and "length (filter is_playable_video (hub_frames_from h (rd_cursor r) (hub_latest_seq h))) > 1"
    and "last_playable_idr_seq h (rd_cursor r) (hub_latest_seq h) = Some k" and "k < hub_latest_seq h"
    and "batch_of r h = (r1, n1, out1)" and "batch_of r1 h = (r2, n2, out2)"
  shows "out2 = hub_frames_from h (k + 1) (hub_latest_seq h) \<and>
     (\<forall>f\<in>set out2. \<not> is_playable_video f \<longrightarrow> f \<in> set out1)"
proof -
  let ?l = "hub_latest_seq h"
  let ?frames = "hub_frames_from h (rd_cursor r) ?l"
  have ne: "?frames \<noteq> []" using assms(5) by auto
  have k: "rd_cursor r \<le> k"
    using find_in_set [OF assms(6) [unfolded last_playable_idr_seq_def]] by (simp del: upt_Suc)
  have c: "sat_add64 k (Suc 0) = Suc k" using assms(4,7) by (simp add: sat_add64_def)
  from assms(8) have r1: "r1 = r\<lparr>rd_video_catchup_until := Some ?l, rd_cursor := k + 1\<rparr>"
    and out1: "out1 = coalesce_flv_batch ?frames"
    using assms(1,2,3,5,6) ne
    by (auto simp: batch_of_def policy_batch_def lag_step_def batch_end_def Let_def
        begin_video_catchup_after_idr_def c)
  have "batch_of r1 h = catchup_batch r1 h ?l" using assms(1) by (simp add: batch_of_def r1)
  with assms(9) have "out2 = hub_frames_from h (k + 1) ?l"
    using assms(7) by (auto simp: catchup_batch_def Let_def r1 split: if_splits)
  moreover have "set (hub_frames_from h (k + 1) ?l) \<subseteq> set ?frames"
    using k by (auto simp: hub_frames_from_def frames_from_def)
  moreover have "f \<in> set out1" if "f \<in> set ?frames" "\<not> is_playable_video f" for f
  proof -
    have "f \<in> set (filter (\<lambda>f. \<not> is_playable_video f) out1)"
      using that by (simp only: out1 filter_other_coalesce) simp
    then show ?thesis by simp
  qed
  ultimately show ?thesis by blast
qed

theorem catchup_repeats_audio_witness:
  "\<exists>r r1 n1 r2 n2.
     batch_of r (demo_hub [video_frame 10 False, video_frame 20 True, audio_frame 30]) =
       (r1, n1, [audio_frame 30, video_frame 20 True]) \<and>
     batch_of r1 (demo_hub [video_frame 10 False, video_frame 20 True, audio_frame 30]) =
       (r2, n2, [audio_frame 30])"
proof -
  define h where "h = demo_hub [video_frame 10 False, video_frame 20 True, audio_frame 30]"
  define r where "r = (reader_new (demo_hub []) LiveCoalesce)\<lparr>rd_cursor := 0\<rparr>"
  define fs where "fs = [video_frame 10 False, video_frame 20 True, audio_frame 30]"
  note cached = cached_form_def video_frame_def audio_frame_def
  have slots: "fr_slots (hub_ring h) =
      [stored_of 0 (video_frame 10 False), stored_of 1 (video_frame 20 True), stored_of 2 (audio_frame 30)]"
    by (simp add: h_def upt_rec numeral_2_eq_2)
  have latest: "hub_latest_seq h = 2"
    by (simp add: h_def hub_latest_seq_def latest_seq_def)
  have from0: "hub_frames_from h 0 2 = fs"
    by (simp add: fs_def hub_frames_from_def frames_from_def slots) (simp add: cached)
  have from2: "hub_frames_from h 2 2 = [audio_frame 30]"
    by (simp add: hub_frames_from_def frames_from_def slots) (simp add: cached)
  have get: "hub_get h 2 = Some (audio_frame 30)" "hub_get h 1 = Some (video_frame 20 True)"
    by (simp_all add: hub_get_def ring_get_def slots) (simp_all add: cached)
  have playable: "is_playable_video (video_frame t k)" "is_playable_idr (video_frame t True)"
    "\<not> is_playable_video (audio_frame t)" "\<not> is_playable_idr (audio_frame t)" for t k
    by (simp_all add: is_playable_video_def is_playable_idr_def video_frame_def audio_frame_def)
  have "rev [0..<Suc 2] = [2, 1, 0]" by code_simp
  then have idr: "last_playable_idr_seq h 0 2 = Some 1"
    unfolding last_playable_idr_seq_def by (simp only: find.simps get option.case playable if_True if_False simp_thms)
  have fs: "length (filter is_playable_video fs) = 2" "fs \<noteq> []"
    "coalesce_flv_batch fs = [audio_frame 30, video_frame 20 True]" 
    unfolding fs_def by (simp_all add: playable coalesce_flv_batch_def)
  obtain r1 n1 out1 where b1: "batch_of r h = (r1, n1, out1)" by (metis prod.exhaust)
  obtain r2 n2 out2 where b2: "batch_of r1 h = (r2, n2, out2)" by (metis prod.exhaust)
  have r: "rd_policy r = LiveCoalesce" "rd_video_catchup_until r = None" "rd_cursor r = 0"
    by (simp_all add: reader_new_def r_def)
  have "out1 = [audio_frame 30, video_frame 20 True]"
    using b1 r latest from0 idr fs
    by (simp add: batch_of_def policy_batch_def lag_step_def batch_end_def Let_def)
  moreover have "out2 = [audio_frame 30]"
    using catchup_repeats_audio [OF r(1,2) _ _ _ _ _ b1 b2, of 1] latest from0 from2 idr fs r
    by (simp add: u64_max_def numeral_2_eq_2)
  ultimately show ?thesis using b1 b2 unfolding h_def by blast
qed

text \<open>
  A live reader that subscribes before the first frame never gets that frame. An empty ring
  reports 0 as its latest number, so the cursor starts at 1, and the call that wakes on the
  first frame (number 0, as a rule the keyframe) returns an empty batch.
\<close>

theorem live_reader_misses_first_frame:
  assumes "policy \<noteq> SequentialFromIdr" and "fr_slots (hub_ring h) = []"
    and "fr_write_seq (hub_ring h) = 0" and "hub_publish h f = Some (h', seq)"
  shows "seq = 0 \<and> rd_cursor (reader_new h policy) = 1 \<and>
    recv_batch (reader_new h policy) h (Some h') = (reader_new h policy, 0, Inr [])"
proof -
  obtain r where push: "push (hub_ring h) f = Some (r, seq)" and h': "hub_ring h' = r"
    using assms(4) by (auto simp: hub_publish_def split: option.splits)
  then obtain q where q: "evict_if_needed (append_frame (hub_ring h) f) = Some r" "seq = 0"
    using assms(3) by (auto simp: push_def split: option.splits)
  have "fr_write_seq r = 1 \<and> (\<not> needs_evict r \<or> length (fr_slots r) \<le> 1)"
    by (rule evict_if_needed_rule [where I = "\<lambda>r. fr_write_seq r = 1", OF q(1)])
      (use assms(3) in \<open>auto simp: append_frame_def Let_def\<close>)
  then have "hub_latest_seq h' = 0" by (simp add: hub_latest_seq_def latest_seq_def h')
  moreover have c: "rd_cursor (reader_new h policy) = 1"
    using assms(1,3) by (cases policy)
      (simp_all add: reader_new_def hub_snap_def latest_seq_def sat_add64_def u64_max_def)
  moreover have "rd_video_catchup_until (reader_new h policy) = None"
    "hub_is_empty h" using assms(2) by (simp_all add: reader_new_def hub_is_empty_def ring_is_empty_def)
  ultimately have "recv_batch (reader_new h policy) h (Some h') = (reader_new h policy, 0, Inr [])"
    by (cases "rd_policy (reader_new h policy)")
      (simp_all add: recv_batch_def ensure_data_def batch_of_def policy_batch_def lag_step_def Let_def)
  with q(2) c show ?thesis by blast
qed

theorem live_reader_misses_first_frame_witness:
  "\<exists>h'. hub_publish (hub_new ''s1'') (video_frame 10 True) = Some (h', 0) \<and>
     recv_batch (reader_new (hub_new ''s1'') WebRtcPlay) (hub_new ''s1'') (Some h') =
       (reader_new (hub_new ''s1'') WebRtcPlay, 0, Inr [])"
proof -
  have e: "fr_slots (hub_ring (hub_new ''s1'')) = []" "fr_write_seq (hub_ring (hub_new ''s1'')) = 0"
    by (simp_all add: hub_new_def hub_with_stream_def frame_ring_new_def with_capacity_def)
  have "push (with_capacity 512 33554432) (video_frame 10 True) \<noteq> None"
    by (simp add: push_def evict_if_needed.simps needs_evict_def append_frame_def with_capacity_def
        Let_def video_frame_def)
  then obtain h' seq where p: "hub_publish (hub_new ''s1'') (video_frame 10 True) = Some (h', seq)"
    by (auto simp: hub_publish_def hub_new_def hub_with_stream_def frame_ring_new_def
        DEFAULT_CAPACITY_FRAMES_def DEFAULT_CAPACITY_BYTES_def)
  from live_reader_misses_first_frame [OF _ e p, of WebRtcPlay] p show ?thesis by auto
qed

text \<open>
  A reader whose cursor is beyond the live edge reads nothing and does not move, under every
  policy: after a publisher starts a new epoch (numbers from 0 again), a reader that stood at
  \<open>c\<close> delivers nothing until \<open>c + 1\<close> frames of the new epoch have been pushed.
\<close>

theorem reader_stalls_after_reset:
  assumes "hub_latest_seq h' < rd_cursor r" and "h = h' \<or> hub_is_empty h \<or> hub_latest_seq h < rd_cursor r"
  shows "recv_batch r h (Some h') = (r, 0, Inr [])"
proof -
  have "ensure_data r h (Some h') = Some h'" using assms by (auto simp: ensure_data_def)
  moreover have "batch_of r h' = (r, 0, [])"
    using assms(1)
    by (cases "rd_policy r"; cases "rd_video_catchup_until r")
      (simp_all add: batch_of_def catchup_batch_def policy_batch_def lag_step_def Let_def)
  ultimately show ?thesis by (simp add: recv_batch_def)
qed

theorem reader_stalls_after_reset_witness:
  "recv_batch ((reader_new (demo_hub []) LiveSequential)\<lparr>rd_cursor := 900\<rparr>)
     (hub_reset (demo_hub [])) (Some (demo_hub [video_frame 10 True, audio_frame 20])) =
   ((reader_new (demo_hub []) LiveSequential)\<lparr>rd_cursor := 900\<rparr>, 0, Inr [])"
  by (rule reader_stalls_after_reset)
    (simp_all add: hub_latest_seq_def latest_seq_def hub_is_empty_def ring_is_empty_def
      frame_ring_new_def with_capacity_def)

text \<open>
  A hole in front of a sequential reader is reported only when it swallows the whole window: if
  the oldest frame left is beyond the cursor, the reader skips to it, and the flag that tells the
  muxer to resynchronise is set exactly when that frame lies 96 or more positions ahead.
  A shorter hole is skipped silently.
\<close>

theorem gap_flag_iff:
  assumes "rd_policy r = SequentialFromIdr \<or> rd_policy r = LiveSequential"
    and "rd_pending_muxer_resync r = False" and "sorted_wrt (<) (map sf_seq (fr_slots (hub_ring h)))"
    and "hub_oldest_seq h = Some q" and "rd_cursor r < q" and "q \<le> hub_latest_seq h"
    and "hub_latest_seq h < u64_max" and "batch_of r h = (r', n, frames)"
  shows "rd_pending_muxer_resync r' = (rd_cursor r + 96 \<le> q)"
proof -
  let ?c = "rd_cursor r" and ?l = "hub_latest_seq h"
  have seq: "sequential (rd_policy r)" using assms(1) by (simp add: sequential_def)
  have e: "batch_end r ?l = min ?l (?c + 95)"
    using assms(1,5,6,7) by (auto simp: batch_end_def sat_add64_def MAX_SEQUENTIAL_BATCH_def)
  obtain f fs where slots: "fr_slots (hub_ring h) = f # fs" "sf_seq f = q"
    using assms(4) by (auto simp: hub_oldest_seq_def oldest_seq_def split: list.splits)
  have oldest: "q \<le> sf_seq g" if "g \<in> set (fr_slots (hub_ring h))" for g
    using that assms(3) slots by auto
  have empty: "hub_frames_from h ?c (min ?l (?c + 95)) = [] \<longleftrightarrow> ?c + 96 \<le> q"
  proof
    assume "hub_frames_from h ?c (min ?l (?c + 95)) = []"
    then have "\<not> q \<le> min ?l (?c + 95)"
      using slots assms(5) by (auto simp: hub_frames_from_def frames_from_def split: if_splits)
    with assms(6) show "?c + 96 \<le> q" by simp
  next
    assume "?c + 96 \<le> q"
    then show "hub_frames_from h ?c (min ?l (?c + 95)) = []"
      using oldest by (fastforce simp: hub_frames_from_def frames_from_def filter_empty_conv)
  qed
  have p: "rd_policy r \<noteq> LiveCoalesce" using assms(1) by auto
  show ?thesis
  proof (cases "?c + 96 \<le> q")
    case True
    then have "batch_of r h = gap_batch r h 0"
      using empty assms(5,6) batch_of_sequential [OF seq, of h] by (simp add: policy_batch_def Let_def e)
    with assms(4,5,8) True show ?thesis
      by (auto simp: gap_batch_def Let_def split: if_splits)
  next
    case False
    then have "hub_frames_from h ?c (min ?l (?c + 95)) \<noteq> []" using empty by blast
    with False assms(2,5,6,8) p batch_of_sequential [OF seq, of h] show ?thesis
      by (auto simp: policy_batch_def Let_def e)
  qed
qed

definition old_hub :: "nat \<Rightarrow> stream_hub" where
  "old_hub q = (demo_hub [])\<lparr>hub_ring := (hub_ring (demo_hub []))\<lparr>fr_slots := [stored_of q (audio_frame 7)],
     fr_write_seq := q + 1\<rparr>\<rparr>"

theorem gap_flag_iff_witness:
  "\<exists>r' n frames. batch_of ((reader_new (demo_hub []) LiveSequential)\<lparr>rd_cursor := 3\<rparr>) (old_hub 90) =
     (r', n, frames) \<and> \<not> rd_pending_muxer_resync r'"
proof -
  let ?r = "(reader_new (demo_hub []) LiveSequential)\<lparr>rd_cursor := 3\<rparr>"
  obtain r' n frames where b: "batch_of ?r (old_hub 90) = (r', n, frames)" by (metis prod.exhaust)
  have "rd_pending_muxer_resync r' = (rd_cursor ?r + 96 \<le> 90)"
    by (rule gap_flag_iff [OF _ _ _ _ _ _ _ b, of 90])
      (simp_all add: reader_new_def old_hub_def hub_oldest_seq_def oldest_seq_def hub_latest_seq_def
        latest_seq_def u64_max_def)
  with b show ?thesis by auto
qed

lemma prime_look_Some:
  assumes "prime_look r b h = Some (r', f)"
  shows "hub_latest_idr_seq h = Some (rd_cursor r') \<and> hub_get h (rd_cursor r') = Some f \<and>
     is_playable_idr f \<and> (rd_cursor r' > b \<or> idr_is_close_to_live h (rd_cursor r')) \<and>
     r' = r\<lparr>rd_cursor := rd_cursor r', rd_primed := True\<rparr>"
  using assms by (auto simp: prime_look_def split: option.splits if_splits)

lemma prime_loop_Some:
  "prime_loop r b hs = Some (r', f) \<Longrightarrow> \<exists>h\<in>set hs. prime_look r b h = Some (r', f)"
  by (induction hs) (auto split: option.splits)

text \<open>
  Priming starts a player on a decodable frame. When \<open>prime_from_idr\<close> returns a frame and the
  ring is not empty at the end, then in one of the states it looked at that frame is the latest
  IDR of the ring, carries video data, is either newer than everything at the time of the call or
  within 30 frames and one second of the live edge, and the cursor stands on it. When it returns
  none, the reader is unchanged.
\<close>

theorem prime_returns_playable_idr:
  assumes "prime_from_idr r m sid h0 looks h1 = (r', res)" and "\<not> hub_is_empty h1"
  shows "case res of
      None \<Rightarrow> r' = r
    | Some f \<Rightarrow> is_playable_idr f \<and> rd_primed r' \<and>
        (\<exists>h\<in>insert h1 (set looks). hub_latest_idr_seq h = Some (rd_cursor r') \<and>
           hub_get h (rd_cursor r') = Some f \<and>
           (hub_latest_seq h0 < rd_cursor r' \<or>
            hub_latest_seq h - rd_cursor r' \<le> 30 \<and>
            (\<forall>lag. media_lag_from_seq_ms h (rd_cursor r') = Some lag \<longrightarrow> lag \<le> 1000)))"
proof -
  have looked: "is_playable_idr f \<and> rd_primed r' \<and> hub_latest_idr_seq h = Some (rd_cursor r') \<and>
      hub_get h (rd_cursor r') = Some f \<and>
      (hub_latest_seq h0 < rd_cursor r' \<or>
       hub_latest_seq h - rd_cursor r' \<le> 30 \<and>
       (\<forall>lag. media_lag_from_seq_ms h (rd_cursor r') = Some lag \<longrightarrow> lag \<le> 1000))"
    if "prime_look r (hub_latest_seq h0) h = Some (r', f)" for h f
  proof -
    note p = prime_look_Some [OF that]
    then have "rd_primed r'" by (metis dispatch_reader.select_convs(4) dispatch_reader.surjective
        dispatch_reader.update_convs(4))
    with p show ?thesis
      by (auto simp: idr_is_close_to_live_def PRIME_EXISTING_IDR_MAX_LAG_def
          PRIME_EXISTING_IDR_MAX_MEDIA_LAG_MS_def)
  qed
  show ?thesis
  proof (cases "prime_loop r (hub_latest_seq h0) looks")
    case (Some x)
    then obtain f where x: "x = (r', f)" "res = Some f"
      using assms(1) by (cases x) (auto simp: prime_from_idr_def Let_def)
    with Some prime_loop_Some obtain h where h: "h \<in> set looks"
      "prime_look r (hub_latest_seq h0) h = Some (r', f)" by blast
    from looked [OF h(2)] h(1) show ?thesis unfolding x(2) option.case by blast
  next
    case None
    show ?thesis
    proof (cases "prime_look r (hub_latest_seq h0) h1")
      case None': None
      with None assms have "r' = r" "res = None" by (auto simp: prime_from_idr_def Let_def)
      then show ?thesis by simp
    next
      case (Some x)
      with None obtain f where x: "x = (r', f)" "res = Some f"
        using assms(1) by (cases x) (auto simp: prime_from_idr_def Let_def)
      from looked [OF Some [unfolded x(1)]] show ?thesis unfolding x(2) option.case by blast
    qed
  qed
qed

theorem prime_returns_playable_idr_witness:
  "\<exists>r'. prime_from_idr (reader_new (demo_hub []) WebRtcPlay) manager_new ''s1'' (demo_hub [])
     [demo_hub [audio_frame 20], demo_hub [audio_frame 20, video_frame 30 True]]
     (demo_hub [audio_frame 20, video_frame 30 True]) = (r', Some (video_frame 30 True)) \<and> rd_primed r'"
proof -
  let ?r = "reader_new (demo_hub []) WebRtcPlay" and ?f = "video_frame 30 True"
  let ?h1 = "demo_hub [audio_frame 20]" and ?h2 = "demo_hub [audio_frame 20, ?f]"
  obtain r' res where p: "prime_from_idr ?r manager_new ''s1'' (demo_hub []) [?h1, ?h2] ?h2 = (r', res)"
    by (metis prod.exhaust)
  have audio: "\<not> is_video_keyframe (audio_frame 20)"
    by (simp add: is_video_keyframe_def audio_frame_def)
  then have idr: "hub_latest_idr_seq ?h1 = None" "hub_latest_idr_seq ?h2 = Some 1"
    by (simp_all add: hub_latest_idr_seq_def latest_idr_seq_def demo_hub_def gop_seqs_def)
  have get: "hub_get ?h2 1 = Some ?f"
    by (simp add: hub_get_def ring_get_def) (simp add: cached_form_def video_frame_def)
  have "is_playable_idr ?f"
    by (simp add: is_playable_video_def is_playable_idr_def video_frame_def)
  moreover have "hub_latest_seq (demo_hub []) = 0" by (simp add: hub_latest_seq_def latest_seq_def)
  ultimately have res: "res = Some ?f"
    using p idr get by (simp add: prime_from_idr_def prime_look_def Let_def)
  have ne: "\<not> hub_is_empty ?h2" by (simp add: hub_is_empty_def ring_is_empty_def)
  from prime_returns_playable_idr [OF p ne] p res show ?thesis by auto
qed

end
