(* ===== verification/Live_Play.thy ===== *)
theory Live_Play
  imports Dispatch
begin

text \<open>
  \<open>src/src/core/live_play.rs\<close>: the start of live playback. A player begins at the live edge,
  waits for an IDR, and receives it with the stream's SPS and PPS in front. The rounds of
  \<open>recv_batch\<close> that completed before the deadline are an argument.
\<close>

definition is_playable_video_frame :: "media_frame \<Rightarrow> bool" where
  "is_playable_video_frame f =
     (if mf_codec f \<noteq> H264 \<and> mf_codec f \<noteq> H265 then False
      else let data = ensure_annex_b (mf_data f) in data \<noteq> [] \<and> \<not> is_parameter_set_only data)"

definition is_idr_frame :: "media_frame \<Rightarrow> bool" where
  "is_idr_frame f = (mf_is_keyframe f \<or> contains_idr_nalu (ensure_annex_b (mf_data f)))"

definition prepend_h264_config :: "stream_manager \<Rightarrow> stream_id \<Rightarrow> media_frame \<Rightarrow> bytes" where
  "prepend_h264_config m sid f =
     (let au = ensure_annex_b (mf_data f) in
      if \<not> (mf_is_keyframe f \<or> is_idr_frame f \<or> contains_sps_or_pps_nalu au) then au
      else case get_stream m sid of
        None \<Rightarrow> au
      | Some s \<Rightarrow>
          (case (st_sps s, st_pps s) of
             (Some sps, Some pps) \<Rightarrow> annex_b_with_config sps pps au
           | _ \<Rightarrow> au))"

definition prepare_h264_play_frame :: "stream_manager \<Rightarrow> stream_id \<Rightarrow> media_frame \<Rightarrow> media_frame" where
  "prepare_h264_play_frame m sid f =
     with_optional_clock_rate
       (media_frame_new sid (mf_track_id f) (mf_timestamp f) (prepend_h264_config m sid f) True (mf_codec f))
       (mf_clock_rate f)"

text \<open>
  The waiting loop of \<open>prime_live_play\<close>: the last playable IDR of a batch ends it, and so does
  a closed channel; the end of \<open>rounds\<close> is the deadline.
\<close>

fun live_idr_loop ::
    "dispatch_reader \<Rightarrow> (stream_hub \<times> stream_hub option) list \<Rightarrow> dispatch_reader \<times> media_frame option" where
  "live_idr_loop r [] = (r, None)"
| "live_idr_loop r ((h, wake) # rounds) =
     (case recv_batch r h wake of
        (r', _, Inl Closed) \<Rightarrow> (r', None)
      | (r', _, Inr frames) \<Rightarrow>
          (case find (\<lambda>f. is_playable_video_frame f \<and> is_idr_frame f) (rev frames) of
             Some idr \<Rightarrow> (r', Some idr)
           | None \<Rightarrow> live_idr_loop r' rounds))"

definition prime_live_play ::
    "dispatch_reader \<Rightarrow> stream_manager \<Rightarrow> stream_id \<Rightarrow> stream_hub \<Rightarrow>
     (stream_hub \<times> stream_hub option) list \<Rightarrow> stream_hub \<Rightarrow> dispatch_reader \<times> media_frame option" where
  "prime_live_play r m sid h0 rounds h1 =
     (case live_idr_loop (finish_prime r h0) rounds of
        (r', Some idr) \<Rightarrow> (r', Some (prepare_h264_play_frame m sid idr))
      | (r', None) \<Rightarrow>
          (case (hub_latest_idr_frame h1, hub_latest_idr_seq h1) of
             (Some idr, Some idr_seq) \<Rightarrow>
               let latest = hub_latest_seq h1 in
               if latest - idr_seq \<le> 30 \<and> is_playable_video_frame idr \<and> is_idr_frame idr
               then (begin_video_catchup_after_idr r' idr_seq latest,
                     Some (prepare_h264_play_frame m sid idr))
               else (r', None)
           | _ \<Rightarrow> (r', None)))"

text \<open>\<open>recv_coalesced_play_frame\<close>: one list of rounds per turn of its loop; \<open>None\<close> is still waiting.\<close>

fun recv_coalesced_play_frame ::
    "dispatch_reader \<Rightarrow> ((stream_hub \<times> stream_hub option) \<times> (stream_hub \<times> stream_hub option)) list list \<Rightarrow>
     (dispatch_reader \<times> (dispatch_error + media_frame)) option" where
  "recv_coalesced_play_frame r [] = None"
| "recv_coalesced_play_frame r (rounds # later) =
     (case recv_coalesced r rounds of
        None \<Rightarrow> None
      | Some (r', Inl e) \<Rightarrow> Some (r', Inl e)
      | Some (r', Inr f) \<Rightarrow>
          if is_playable_video_frame f \<or> (mf_codec f \<noteq> H264 \<and> mf_codec f \<noteq> H265)
          then Some (r', Inr f) else recv_coalesced_play_frame r' later)"

section \<open>Properties\<close>

lemma live_idr_loop_sound:
  "live_idr_loop r rounds = (r', Some f) \<Longrightarrow> is_playable_video_frame f \<and> is_idr_frame f"
proof (induction r rounds rule: live_idr_loop.induct)
  case (1 r)
  then show ?case by simp
next
  case (2 r h wake rounds)
  obtain r1 n res where b: "recv_batch r h wake = (r1, n, res)" by (metis prod.exhaust)
  show ?case
  proof (cases res)
    case (Inl e)
    with 2 b show ?thesis by (cases e) simp
  next
    case (Inr frames)
    with 2 b show ?thesis
      by (cases "find (\<lambda>f. is_playable_video_frame f \<and> is_idr_frame f) (rev frames)")
        (auto simp: find_Some_iff)
  qed
qed

text \<open>
  C30. A player starts from a frame it can decode: what \<open>prime_live_play\<close> returns was made from a
  playable IDR, for whatever the rounds delivered, and is marked as a keyframe of the stream.
\<close>

theorem live_play_starts_on_idr:
  assumes "prime_live_play r m sid h0 rounds h1 = (r', Some g)"
  shows "\<exists>f. g = prepare_h264_play_frame m sid f \<and> is_playable_video_frame f \<and> is_idr_frame f \<and>
     mf_is_keyframe g \<and> mf_stream_id g = sid \<and> mf_timestamp g = mf_timestamp f"
proof -
  obtain r1 res where l: "live_idr_loop (finish_prime r h0) rounds = (r1, res)" by fastforce
  have "\<exists>f. g = prepare_h264_play_frame m sid f \<and> is_playable_video_frame f \<and> is_idr_frame f"
  proof (cases res)
    case None
    with assms l show ?thesis
      by (auto simp: prime_live_play_def Let_def split: option.splits if_splits)
  next
    case (Some f)
    with live_idr_loop_sound assms l show ?thesis by (auto simp: prime_live_play_def)
  qed
  then show ?thesis by (auto simp: prepare_h264_play_frame_def)
qed

definition idr_frame :: media_frame where
  "idr_frame = media_frame_new ''s1'' 0 10 [0, 0, 0, 1, 0x65, 9] True H264"

lemma idr_frame_playable: "is_playable_video_frame idr_frame" "is_idr_frame idr_frame"
proof -
  have "\<forall>n\<in>set [[0x65, 9]]. nal_ok n" by (simp add: nal_ok_def start_code_def sublist_code)
  from is_parameter_set_only_annex_b [OF this]
  have "\<not> is_parameter_set_only [0, 0, 0, 1, 0x65, 9]" by (simp add: nal_kind_def)
  then show "is_playable_video_frame idr_frame" "is_idr_frame idr_frame"
    by (simp_all add: is_playable_video_frame_def is_idr_frame_def idr_frame_def ensure_annex_b_def Let_def)
qed

theorem live_play_starts_on_idr_witness:
  "\<exists>r' g. prime_live_play (reader_new (demo_hub []) LiveCoalesce) manager_new ''s1'' (demo_hub []) []
     (demo_hub [idr_frame]) = (r', Some g) \<and> mf_is_keyframe g \<and> rd_cursor r' = 1"
proof -
  let ?h = "demo_hub [idr_frame]" and ?r = "reader_new (demo_hub []) LiveCoalesce"
  have "is_video_keyframe idr_frame" by (simp add: is_video_keyframe_def idr_frame_def)
  then have idr: "hub_latest_idr_seq ?h = Some 0"
    by (simp add: hub_latest_idr_seq_def latest_idr_seq_def demo_hub_def gop_seqs_def)
  then have f: "hub_latest_idr_frame ?h = Some idr_frame"
    by (simp add: hub_latest_idr_frame_def hub_latest_idr_seq_def latest_idr_frame_def ring_get_def)
      (simp add: cached_form_def idr_frame_def)
  have latest: "hub_latest_seq ?h = 0" by (simp add: hub_latest_seq_def latest_seq_def)
  obtain r' where r': "prime_live_play ?r manager_new ''s1'' (demo_hub []) [] ?h =
      (r', Some (prepare_h264_play_frame manager_new ''s1'' idr_frame))" and "rd_cursor r' = 1"
    using idr f latest idr_frame_playable
    by (simp add: prime_live_play_def begin_video_catchup_after_idr_def sat_add64_def u64_max_def)
  with live_play_starts_on_idr [OF r'] show ?thesis by blast
qed

text \<open>
  A prepared IDR carries its codec configuration: for a keyframe made of well-formed NAL units
  without SPS and PPS of its own, the access unit sent to the player is the stored SPS, the
  stored PPS and then the unchanged units; \<open>extract_sps_pps\<close> finds exactly the stored pair.
\<close>

theorem prepared_idr_has_config:
  assumes "\<forall>n\<in>set ns. nal_ok n \<and> nal_kind n \<notin> {7, 8}" and "mf_data f = annex_b_of ns"
    and "ns \<noteq> []" and "mf_is_keyframe f" and "get_stream m sid = Some s"
    and "st_sps s = Some sps" and "st_pps s = Some pps"
    and "nal_ok sps" and "nal_kind sps = 7" and "nal_ok pps" and "nal_kind pps = 8"
  shows "mf_data (prepare_h264_play_frame m sid f) = annex_b_of (sps # pps # ns) \<and>
     extract_sps_pps (mf_data (prepare_h264_play_frame m sid f)) = (Some sps, Some pps)"
proof -
  have ok: "\<forall>n\<in>set ns. nal_ok n" and none: "\<not> (\<exists>n\<in>set ns. nal_kind n \<in> {7, 8})"
    using assms(1) by blast+
  have data: "mf_data (prepare_h264_play_frame m sid f) = annex_b_of (sps # pps # ns)"
    using assms(2,4-7) none
    by (simp add: prepare_h264_play_frame_def prepend_h264_config_def Let_def annex_b_with_config_def
        contains_sps_or_pps_annex_b [OF ok])
  moreover have "\<forall>n\<in>set (sps # pps # ns). nal_ok n" using ok assms(8,10) by simp
  moreover from none have "filter (\<lambda>n. nal_kind n = 7) ns = []" "filter (\<lambda>n. nal_kind n = 8) ns = []"
    by (auto simp: filter_empty_conv)
  ultimately show ?thesis using assms(9,11)
    by (simp add: collect_sps_pps_annex_b foldl_sps_pps del: annex_b_of_simps)
qed

theorem prepared_idr_has_config_witness:
  "\<exists>m. mf_data (prepare_h264_play_frame m ''s1'' idr_frame) =
     [0, 0, 0, 1, 0x67, 66, 0, 0, 0, 1, 0x68, 2, 0, 0, 0, 1, 0x65, 9]"
proof -
  let ?m = "set_stream_sps_pps (fst (create_stream manager_new ''s1'' stream_source_mode.Push RTMP None))
      ''s1'' [0x67, 66] [0x68, 2]"
  obtain s where s: "get_stream ?m ''s1'' = Some s" "st_sps s = Some [0x67, 66]" "st_pps s = Some [0x68, 2]"
    by (simp add: get_stream_def set_stream_sps_pps_def create_stream_def Let_def)
  have "mf_data (prepare_h264_play_frame ?m ''s1'' idr_frame) =
      annex_b_of ([0x67, 66] # [0x68, 2] # [[0x65, 9]])"
    using prepared_idr_has_config [OF _ _ _ _ s, of "[[0x65, 9]]" idr_frame]
    by (simp add: nal_ok_def nal_kind_def start_code_def sublist_code idr_frame_def)
  then show ?thesis by (intro exI [of _ ?m]) simp
qed

end
