(* ===== verification/Rtmp_Server.thy ===== *)
theory Rtmp_Server
  imports Rtmp_Session Rtmp_Chunk Live_Play
begin

text \<open>
  \<open>src/src/server/rtmp/mod.rs\<close>: one RTMP connection, from the handshake over the messages of a
  publisher to the play task that forwards frames to a player, acting on the shared registry.

  A handler returns how it ended, the connection, the registry and its effects: bytes written
  to the socket, keyframe requests, the restart of the HLS muxer, the start of a play task.
  Whether the socket still takes writes is an argument (\<open>wr\<close>); a failed write leaves the handler
  through \<open>?\<close>, a panic ends the connection's task, \<open>Hung\<close> says that a loop of the code never ends
  (a ring that cannot evict, a chunk size of zero). In the last three cases the connection is
  dropped without \<open>release_publish_connection\<close>. \<open>fmt_amf0\<close> and the log lines are left out.
\<close>

section \<open>Names for logs\<close>

definition msg_type_name :: "byte \<Rightarrow> string" where
  "msg_type_name t =
     (if t = 0x01 then ''SetChunkSize''
      else if t = 0x02 then ''Abort''
      else if t = 0x03 then ''Acknowledgement''
      else if t = 0x04 then ''UserControl''
      else if t = 0x05 then ''WindowAckSize''
      else if t = 0x06 then ''SetPeerBandwidth''
      else if t = 0x08 then ''Audio''
      else if t = 0x09 then ''Video''
      else if t = 0x0F then ''DataAMF3''
      else if t = 0x10 then ''SharedObjAMF3''
      else if t = 0x11 then ''CommandAMF3''
      else if t = 0x12 then ''DataAMF0''
      else if t = 0x13 then ''SharedObjAMF0''
      else if t = 0x14 then ''CommandAMF0''
      else if t = 0x16 then ''Aggregate''
      else ''Unknown'')"

definition video_frame_type :: "byte \<Rightarrow> string" where
  "video_frame_type b =
     (let t = b AND 0xF0
      in if t = 0x10 then ''KeyFrame''
         else if t = 0x20 then ''InterFrame''
         else if t = 0x30 then ''Disposable''
         else if t = 0x40 then ''Generated''
         else if t = 0x50 then ''Command''
         else ''Unknown'')"

definition video_codec_name :: "byte \<Rightarrow> string" where
  "video_codec_name b =
     (let t = b AND 0x0F
      in if t = 0x07 then ''H264'' else if t = 0x0C then ''H265'' else ''Unknown'')"

section \<open>The connection\<close>

record rtmp_connection =
  cn_session :: rtmp_session
  cn_has_hls :: bool
  cn_chunk_size :: nat
  cn_chunk_states :: assembler_map
  cn_message_headers :: header_map
  cn_frames_received :: nat
  cn_is_publishing :: bool
  cn_stream_id :: stream_id
  cn_publisher_id :: "string option"
  cn_play_abort :: bool

definition connection_new :: "bool \<Rightarrow> string \<Rightarrow> rtmp_connection" where
  "connection_new hls peer_addr =
     \<lparr>cn_session = session_new peer_addr, cn_has_hls = hls, cn_chunk_size = 4096,
      cn_chunk_states = Map.empty, cn_message_headers = Map.empty, cn_frames_received = 0,
      cn_is_publishing = False, cn_stream_id = [], cn_publisher_id = None, cn_play_abort = False\<rparr>"

text \<open>What a play task starts with: the first frame is found by \<open>prime_live_play\<close> afterwards.\<close>

record play_task =
  pt_stream_id :: stream_id
  pt_msid :: "32 word"
  pt_chunk_size :: nat
  pt_reader :: dispatch_reader
  pt_pending :: "media_frame option"
  pt_video_streaming :: bool
  pt_clock :: rtmp_play_clock
  pt_frames_sent :: nat

datatype rtmp_effect =
    Send bytes
  | Request_keyframe stream_id
  | Restart_hls stream_id
  | Abort_play
  | Start_play play_task

datatype rtmp_outcome = Running | Io_failed | Panicked | Hung

type_synonym rtmp_result = "rtmp_outcome \<times> rtmp_connection \<times> stream_manager \<times> rtmp_effect list"

text \<open>Writing encoded messages in order; None is an encoder that does not return.\<close>

definition emit ::
    "bool \<Rightarrow> bytes option list \<Rightarrow> rtmp_connection \<Rightarrow> stream_manager \<Rightarrow> rtmp_effect list \<Rightarrow> rtmp_result" where
  "emit wr bs c m effs =
     (if None \<in> set bs then (Hung, c, m, effs)
      else if wr then (Running, c, m, effs @ map (\<lambda>b. Send (the b)) bs)
      else (Io_failed, c, m, effs))"

definition release_publish_connection ::
    "rtmp_connection \<Rightarrow> stream_manager \<Rightarrow> rtmp_connection \<times> stream_manager" where
  "release_publish_connection c m =
     (if \<not> cn_is_publishing c then (c, m)
      else
        let m' = (case cn_publisher_id c of
              None \<Rightarrow> m
            | Some p \<Rightarrow>
                (case release_publisher m (cn_stream_id c) p of
                   (m1, True) \<Rightarrow>
                     (case set_unpublished m1 (cn_stream_id c) of None \<Rightarrow> m1 | Some m2 \<Rightarrow> m2)
                 | (m1, False) \<Rightarrow> m1))
        in (c\<lparr>cn_publisher_id := None, cn_is_publishing := False\<rparr>, m'))"

definition stream_has_codec :: "stream \<Rightarrow> codec_type \<Rightarrow> bool" where
  "stream_has_codec s codec = list_ex (\<lambda>t. tr_codec t = codec) (st_tracks s)"

section \<open>Commands\<close>

definition command_message :: "rtmp_connection \<Rightarrow> 32 word \<Rightarrow> bytes \<Rightarrow> bytes option" where
  "command_message c msid payload =
     encode_message 0x14 0 msid payload (rs_chunk_size (cn_session c)) CSID_COMMAND"

definition run_connect ::
    "bool \<Rightarrow> rtmp_connection \<Rightarrow> stream_manager \<Rightarrow> amf0_value list \<Rightarrow> rtmp_result" where
  "run_connect wr c m args =
     (let (s, app) = handle_connect (cn_session c) args;
          c' = c\<lparr>cn_session := s, cn_stream_id := app\<rparr>
      in emit wr
           [encode_window_ack_size 2500000,
            encode_set_peer_bandwidth 2500000 2,
            encode_set_chunk_size (word_of_nat (rs_chunk_size s)),
            command_message c' 0 (build_result_response (rs_transaction_id s) ''Connect'')]
           c' m [])"

definition run_create_stream ::
    "bool \<Rightarrow> rtmp_connection \<Rightarrow> stream_manager \<Rightarrow> amf0_value list \<Rightarrow> rtmp_result" where
  "run_create_stream wr c m args =
     (case handle_create_stream (cn_session c) args of
        None \<Rightarrow> (Panicked, c, m, [])
      | Some (s, sid) \<Rightarrow>
          let c' = c\<lparr>cn_session := s\<rparr>;
              result = encode [AString (ascii ''_result''), Number (rs_transaction_id s), ANull,
                               Number (f64_of_u32 sid)]
          in emit wr [command_message c' 0 result] c' m [])"

definition status_message :: "rtmp_connection \<Rightarrow> string \<Rightarrow> string \<Rightarrow> string \<Rightarrow> bytes option" where
  "status_message c code description level =
     command_message c (rs_server_stream_id (cn_session c)) (build_on_status code description level)"

text \<open>\<open>set_stream_broadcast\<close> only looks the hub up and is left out.\<close>

definition run_publish ::
    "bool \<Rightarrow> rtmp_connection \<Rightarrow> stream_manager \<Rightarrow> amf0_value list \<Rightarrow> rtmp_result" where
  "run_publish wr c m args =
     (let (s, name) = handle_publish (cn_session c) args;
          c1 = c\<lparr>cn_session := s\<rparr>;
          publisher_id = ''rtmp:'' @ rs_peer_addr s;
          m1 = (if get_stream m name = None
                then fst (create_stream m name stream_source_mode.Push RTMP None) else m)
      in case acquire_publisher m1 name publisher_id of
           None \<Rightarrow>
             emit wr [status_message c1 ''NetStream.Publish.BadName''
                        ''Stream already has an active publisher.'' ''error''] c1 m1 []
         | Some m2 \<Rightarrow>
             let c2 = c1\<lparr>cn_is_publishing := True, cn_stream_id := name, cn_publisher_id := Some publisher_id\<rparr>;
                 m3 = (case get_stream m2 name of
                         Some st \<Rightarrow> if st_tracks st = [] then set_stream_tracks m2 name default_live_tracks else m2
                       | None \<Rightarrow> m2);
                 m4 = (case set_unpublished m3 name of Some m' \<Rightarrow> m' | None \<Rightarrow> m3)
             in case emit wr [status_message c2 ''NetStream.Publish.Start'' ''Publishing started.'' ''status'']
                       c2 m4 [] of
                  (Running, _, _, effs) \<Rightarrow>
                    (Running, c2, (case set_publishing m4 name of Some m' \<Rightarrow> m' | None \<Rightarrow> m4),
                     effs @ (if cn_has_hls c2 then [Restart_hls name] else []))
                | failed \<Rightarrow> failed)"

definition not_found_message :: "rtmp_connection \<Rightarrow> bytes option" where
  "not_found_message c = status_message c ''NetStream.Play.StreamNotFound'' ''Stream not found'' ''error''"

text \<open>
  The messages a player gets before the first frame, in order. The last two announce the
  stream and a client buffer of 100 ms.
\<close>

definition play_response :: "rtmp_connection \<Rightarrow> stream \<Rightarrow> bytes option list" where
  "play_response c s =
     (let n = rs_chunk_size (cn_session c); msid = rs_server_stream_id (cn_session c)
      in [status_message c ''NetStream.Play.Start'' ''Play started.'' ''status''] @
         (case (st_sps s, st_pps s) of
            (Some sps, Some pps) \<Rightarrow> [encode_message 0x09 0 msid (build_avc_sequence_header sps pps) n CSID_VIDEO]
          | _ \<Rightarrow> []) @
         (if stream_has_codec s AAC then [encode_message 0x08 0 msid build_aac_sequence_header n CSID_AUDIO]
          else []) @
         [encode_message 0x04 0 0 (build_user_control_stream_begin msid) n CSID_PROTOCOL,
          encode_message 0x04 0 0 (build_user_control_set_buffer_length msid 100) n CSID_PROTOCOL])"

definition new_play_task :: "rtmp_connection \<Rightarrow> stream_id \<Rightarrow> dispatch_reader \<Rightarrow> play_task" where
  "new_play_task c sid r =
     \<lparr>pt_stream_id = sid, pt_msid = rs_server_stream_id (cn_session c),
      pt_chunk_size = rs_chunk_size (cn_session c), pt_reader = r, pt_pending = None,
      pt_video_streaming = False, pt_clock = wallclock_new, pt_frames_sent = 0\<rparr>"

text \<open>An older play task is aborted before the stream is subscribed, a failed response leaves it so.\<close>

definition run_play ::
    "bool \<Rightarrow> rtmp_connection \<Rightarrow> stream_manager \<Rightarrow> amf0_value list \<Rightarrow> rtmp_result" where
  "run_play wr c m args =
     (let (s, name) = handle_play (cn_session c) args;
          c1 = c\<lparr>cn_session := s, cn_stream_id := name\<rparr>
      in case get_stream m name of
           None \<Rightarrow> emit wr [not_found_message c1] c1 m []
         | Some st \<Rightarrow>
             if st_status st \<noteq> stream_status.Publishing then emit wr [not_found_message c1] c1 m []
             else
               let c2 = c1\<lparr>cn_play_abort := False\<rparr>;
                   effs = (if cn_play_abort c1 then [Abort_play] else []) @ [Request_keyframe name]
               in case dispatch_subscribe m name LiveCoalesce of
                    None \<Rightarrow> emit wr [not_found_message c2] c2 m effs
                  | Some r \<Rightarrow>
                      (case emit wr (play_response c2 st) c2 m effs of
                         (Running, _, _, effs') \<Rightarrow>
                           (Running, c2\<lparr>cn_play_abort := True\<rparr>, m, effs' @ [Start_play (new_play_task c2 name r)])
                       | failed \<Rightarrow> failed))"

definition run_stop ::
    "session_state \<Rightarrow> rtmp_connection \<Rightarrow> stream_manager \<Rightarrow> rtmp_result" where
  "run_stop st c m =
     (let (c', m') = release_publish_connection c m
      in (Running, c'\<lparr>cn_session := (cn_session c')\<lparr>rs_state := st\<rparr>\<rparr>, m', []))"

definition handle_amf0_command ::
    "bool \<Rightarrow> rtmp_connection \<Rightarrow> stream_manager \<Rightarrow> bytes \<Rightarrow> amf0_value list \<Rightarrow> rtmp_result" where
  "handle_amf0_command wr c m command args =
     (if command = ascii ''connect'' then run_connect wr c m args
      else if command = ascii ''releaseStream'' \<or> command = ascii ''FCPublish'' \<or> command = ascii ''FCUnpublish''
      then (Running, c, m, [])
      else if command = ascii ''createStream'' then run_create_stream wr c m args
      else if command = ascii ''publish'' then run_publish wr c m args
      else if command = ascii ''play'' then run_play wr c m args
      else if command = ascii ''deleteStream'' then run_stop Ready c m
      else if command = ascii ''closeStream'' then run_stop Closing c m
      else (Running, c, m, []))"

section \<open>Messages\<close>

text \<open>A counted list of 16-bit length-prefixed sets from \<open>off\<close> on: the last complete one and where it stops.\<close>

fun read_sets :: "nat \<Rightarrow> bytes \<Rightarrow> nat \<Rightarrow> bytes \<Rightarrow> bytes \<times> nat" where
  "read_sets 0 d off acc = (acc, off)"
| "read_sets (Suc k) d off acc =
     (if off + 2 > length d then (acc, off)
      else let n = be16 (d ! off) (d ! (off + 1)); off' = off + 2
        in if off' + n > length d then (acc, off')
           else read_sets k d (off' + n) (take n (drop off' d)))"

text \<open>SPS and PPS of an AVC decoder configuration record (the message from its sixth byte on).\<close>

definition parse_avc_config :: "bytes \<Rightarrow> bytes \<times> bytes" where
  "parse_avc_config d =
     (case read_sets (unat (d ! 5 AND 0x1F)) d 6 [] of
        (sps, off) \<Rightarrow>
          (sps, if off < length d then fst (read_sets (unat (d ! off AND 0x1F)) d (off + 1) []) else []))"

definition set_avc_config :: "rtmp_connection \<Rightarrow> stream_manager \<Rightarrow> bytes \<Rightarrow> stream_manager" where
  "set_avc_config c m data =
     (if length data > 13 then
        let config = drop 5 data
        in if length config > 7 then
             (case parse_avc_config config of
                (sps, pps) \<Rightarrow> if sps \<noteq> [] then set_stream_sps_pps m (cn_stream_id c) sps pps else m)
           else m
      else m)"

text \<open>The loop that turns length prefixes into start codes.\<close>

function avcc_to_annex_b :: "bytes \<Rightarrow> nat \<Rightarrow> bytes \<Rightarrow> bytes" where
  "avcc_to_annex_b d off annex_b =
     (if off + 4 \<le> length d then
        let n = unat (be32 (d ! off) (d ! (off + 1)) (d ! (off + 2)) (d ! (off + 3)));
            off' = off + 4
        in if off' + n > length d then annex_b
           else avcc_to_annex_b d (off' + n) (annex_b @ [0x00, 0x00, 0x00, 0x01] @ take n (drop off' d))
      else annex_b)"
  by pat_completeness auto
termination
  by (relation "measure (\<lambda>(d, off, _). Suc (length d) - off)") auto

declare avcc_to_annex_b.simps [simp del]

definition publish_result :: "rtmp_connection \<Rightarrow> stream_manager \<Rightarrow> media_frame \<Rightarrow> rtmp_result" where
  "publish_result c m f =
     (case publish_frame m f of None \<Rightarrow> (Hung, c, m, []) | Some m' \<Rightarrow> (Running, c, m', []))"

definition handle_video :: "rtmp_connection \<Rightarrow> stream_manager \<Rightarrow> rtmp_message \<Rightarrow> rtmp_result" where
  "handle_video c m msg =
     (let data = rm_payload msg in
      if data = [] then (Running, c, m, [])
      else let avc_packet_type = (if length data > 1 then data ! 1 else 0xFF) in
        if avc_packet_type = 0x00 then (Running, c, set_avc_config c m data, [])
        else if avc_packet_type = 0x01 then
          let c' = c\<lparr>cn_frames_received := cn_frames_received c + 1\<rparr>;
              is_keyframe = (data ! 0 AND 0xF0 = 0x10)
          in if length data < 5 then (Panicked, c', m, [])
             else if cn_is_publishing c' then
               let annex_b = avcc_to_annex_b (drop 5 data) 0 [] in
               if annex_b \<noteq> [] then
                 publish_result c' m
                   (with_clock_rate
                     (media_frame_new (cn_stream_id c') 0 (unat (rm_timestamp msg)) annex_b is_keyframe H264)
                     1000)
               else (Running, c', m, [])
             else (Running, c', m, [])
        else (Running, c, m, []))"

definition handle_audio :: "rtmp_connection \<Rightarrow> stream_manager \<Rightarrow> rtmp_message \<Rightarrow> rtmp_result" where
  "handle_audio c m msg =
     (let data = rm_payload msg in
      if data = [] then (Running, c, m, [])
      else
        let is_header = (length data > 1 \<and> data ! 1 = 0x00);
            c' = c\<lparr>cn_frames_received := cn_frames_received c + 1\<rparr>
        in if cn_is_publishing c' \<and> \<not> is_header then
             let audio_data = (if length data > 1 \<and> data ! 0 = 0xAF \<and> data ! 1 = 0x01 then drop 2 data
                               else if length data > 1 then drop 1 data else data)
             in publish_result c' m
                  (with_clock_rate
                    (media_frame_new (cn_stream_id c') 1 (unat (rm_timestamp msg)) audio_data False AAC)
                    1000)
           else (Running, c', m, []))"

text \<open>
  The other protocol messages are only logged. A new chunk size is returned besides the result.
\<close>

definition handle_rtmp_message ::
    "bool \<Rightarrow> rtmp_connection \<Rightarrow> stream_manager \<Rightarrow> rtmp_message \<Rightarrow> rtmp_result \<times> nat option" where
  "handle_rtmp_message wr c m msg =
     (let t = rm_msg_type msg; p = rm_payload msg in
      if t = 0x14 \<or> t = 0x12 then
        (case parse_command p of
           Inl e \<Rightarrow> ((Running, c, m, []), None)
         | Inr (command, args) \<Rightarrow> (handle_amf0_command wr c m command args, None))
      else if t = 0x09 then (handle_video c m msg, None)
      else if t = 0x08 then (handle_audio c m msg, None)
      else if t = 0x01 then
        if length p \<ge> 4 then
          let new_size = unat (be32 (p ! 0) (p ! 1) (p ! 2) (p ! 3))
          in ((Running, c\<lparr>cn_chunk_size := new_size\<rparr>, m, []), Some new_size)
        else ((Running, c, m, []), None)
      else ((Running, c, m, []), None))"

section \<open>The connection loop\<close>

text \<open>
  \<open>handle_handshake\<close>: C0 and C1 are answered with S0, S1 and S2 if they arrive in the first read.
\<close>

definition handle_handshake ::
    "bool \<Rightarrow> bytes \<Rightarrow> bool \<Rightarrow> rtmp_outcome \<times> bool \<times> bytes \<times> rtmp_effect list" where
  "handle_handshake wr buf first_call =
     (if length buf < 1537 then (Running, False, buf, [])
      else if first_call \<and> buf ! 0 \<noteq> 0x03 then (Running, False, [], [])
      else if first_call \<and> \<not> wr then (Io_failed, False, buf, [])
      else
        let effs = (if first_call then [Send ([0x03] @ replicate 1536 0 @ take 1536 (drop 1 buf))] else []);
            buf1 = (if first_call then drop 1537 buf else buf)
        in if length buf1 \<ge> 1536 then (Running, True, drop 1536 buf1, effs)
           else (Running, False, buf1, effs))"

lemma parse_chunks_shrinks:
  "parse_chunks buf as hs n = ((buf', as', hs'), Some msg) \<Longrightarrow> length buf' < length buf"
proof (induction buf as hs n rule: parse_chunks.induct)
  case (1 buf as hs n)
  show ?case
  proof (cases "parse_chunk_header buf hs")
    case None
    with "1.prems" show ?thesis by (simp add: parse_chunks.simps [of buf])
  next
    case (Some x)
    then obtain h k hs1 where x: "parse_chunk_header buf hs = Some (h, k, hs1)" by (cases x) auto
    then have k: "1 \<le> k" "k \<le> length buf" using parse_chunk_header_bounds by blast+
    with "1.prems" "1.IH" [OF x refl refl refl _ refl refl refl refl] x show ?thesis
      by (auto simp: parse_chunks.simps [of buf] Let_def fun_upd_def split: if_splits)
  qed
qed

text \<open>
  \<open>while let Some(msg) = parse_chunks(..)\<close>: every complete message of the buffer is handled; a new
  chunk size is only kept for later. \<open>wr k\<close> says whether the writes of the \<open>k\<close>-th message succeed.
\<close>

function drain_messages ::
    "(nat \<Rightarrow> bool) \<Rightarrow> nat \<Rightarrow> nat \<Rightarrow> rtmp_connection \<Rightarrow> stream_manager \<Rightarrow> bytes \<Rightarrow> nat option \<Rightarrow>
     rtmp_result \<times> bytes \<times> nat option" where
  "drain_messages wr k n c m buf pending =
     (case parse_chunks buf (cn_chunk_states c) (cn_message_headers c) n of
        ((buf', as, hs), None) \<Rightarrow>
          ((Running, c\<lparr>cn_chunk_states := as, cn_message_headers := hs\<rparr>, m, []), buf', pending)
      | ((buf', as, hs), Some msg) \<Rightarrow>
          (case handle_rtmp_message (wr k) (c\<lparr>cn_chunk_states := as, cn_message_headers := hs\<rparr>) m msg of
             ((Running, c', m', effs), new_size) \<Rightarrow>
               (case drain_messages wr (k + 1) n c' m' buf' (case new_size of None \<Rightarrow> pending | Some x \<Rightarrow> Some x) of
                  ((st, c'', m'', effs'), rest) \<Rightarrow> ((st, c'', m'', effs @ effs'), rest))
           | (failed, new_size) \<Rightarrow> (failed, buf', pending)))"
  by pat_completeness auto
termination
  by (relation "measure (\<lambda>(wr, k, n, c, m, buf, p). length buf)") (auto dest: parse_chunks_shrinks [OF sym])

declare drain_messages.simps [simp del]

record rtmp_loop =
  lp_conn :: rtmp_connection
  lp_buf :: bytes
  lp_chunk_size :: nat
  lp_handshake_done :: bool
  lp_first_call :: bool

definition loop_start :: "bool \<Rightarrow> string \<Rightarrow> rtmp_loop" where
  "loop_start hls peer_addr =
     \<lparr>lp_conn = connection_new hls peer_addr, lp_buf = [], lp_chunk_size = 128,
      lp_handshake_done = False, lp_first_call = True\<rparr>"

text \<open>One result of \<open>reader.read\<close>; no bytes mean that the peer closed.\<close>

datatype rtmp_input = Read_failed | Read_bytes bytes

datatype loop_status = Loop | Stop rtmp_outcome

type_synonym loop_result = "loop_status \<times> rtmp_loop \<times> stream_manager \<times> rtmp_effect list"

definition process_messages ::
    "(nat \<Rightarrow> bool) \<Rightarrow> rtmp_loop \<Rightarrow> stream_manager \<Rightarrow> rtmp_effect list \<Rightarrow> loop_result" where
  "process_messages wr st m effs =
     (case drain_messages wr 1 (lp_chunk_size st) (lp_conn st) m (lp_buf st) None of
        ((Running, c, m', effs'), buf, pending) \<Rightarrow>
          (Loop,
           st\<lparr>lp_conn := c, lp_buf := buf,
              lp_chunk_size := (case pending of None \<Rightarrow> lp_chunk_size st | Some n \<Rightarrow> n)\<rparr>,
           m', effs @ effs')
      | ((failed, c, m', effs'), buf, pending) \<Rightarrow>
          (Stop failed, st\<lparr>lp_conn := c, lp_buf := buf\<rparr>, m', effs @ effs'))"

definition loop_step ::
    "(nat \<Rightarrow> bool) \<Rightarrow> rtmp_input \<Rightarrow> rtmp_loop \<Rightarrow> stream_manager \<Rightarrow> loop_result" where
  "loop_step wr input st m =
     (case input of
        Read_failed \<Rightarrow>
          (case release_publish_connection (lp_conn st) m of
             (c, m') \<Rightarrow> (Stop Io_failed, st\<lparr>lp_conn := c\<rparr>, m', []))
      | Read_bytes bs \<Rightarrow>
          if bs = [] then
            (case release_publish_connection ((lp_conn st)\<lparr>cn_play_abort := False\<rparr>) m of
               (c, m') \<Rightarrow>
                 (Stop Running, st\<lparr>lp_conn := c\<rparr>, m',
                  if cn_play_abort (lp_conn st) then [Abort_play] else []))
          else
            let st1 = st\<lparr>lp_buf := lp_buf st @ bs\<rparr> in
            if lp_handshake_done st then process_messages wr st1 m []
            else
              (case handle_handshake (wr 0) (lp_buf st1) (lp_first_call st) of
                 (Running, True, buf, effs) \<Rightarrow>
                   let c = lp_conn st1
                   in process_messages wr
                        (st1\<lparr>lp_buf := buf, lp_handshake_done := True,
                             lp_conn := c\<lparr>cn_session := (cn_session c)\<lparr>rs_state := Connected\<rparr>\<rparr>\<rparr>) m effs
               | (Running, False, buf, effs) \<Rightarrow>
                   (Loop, st1\<lparr>lp_buf := buf, lp_first_call := False\<rparr>, m, effs)
               | (failed, _, buf, effs) \<Rightarrow> (Stop failed, st1\<lparr>lp_buf := buf\<rparr>, m, effs)))"

fun loop_run ::
    "((nat \<Rightarrow> bool) \<times> rtmp_input) list \<Rightarrow> rtmp_loop \<Rightarrow> stream_manager \<Rightarrow> loop_result" where
  "loop_run [] st m = (Loop, st, m, [])"
| "loop_run ((wr, input) # inputs) st m =
     (case loop_step wr input st m of
        (Loop, st', m', effs) \<Rightarrow>
          (case loop_run inputs st' m' of (e, st'', m'', effs') \<Rightarrow> (e, st'', m'', effs @ effs'))
      | stopped \<Rightarrow> stopped)"

section \<open>The play task\<close>

definition prepend_rtmp_video_config :: "stream_manager \<Rightarrow> stream_id \<Rightarrow> media_frame \<Rightarrow> media_frame" where
  "prepend_rtmp_video_config m sid f =
     (if \<not> is_video_codec (mf_codec f) then f
      else case get_stream m sid of
        None \<Rightarrow> f
      | Some s \<Rightarrow>
          (case (st_sps s, st_pps s) of
             (Some sps, Some pps) \<Rightarrow>
               with_optional_clock_rate
                 (media_frame_new (mf_stream_id f) (mf_track_id f) (mf_timestamp f)
                   (annex_b_with_config sps pps (mf_data f)) (mf_is_keyframe f) (mf_codec f))
                 (mf_clock_rate f)
           | _ \<Rightarrow> f))"

text \<open>\<open>prime_live_play\<close> runs in the connection's task, before the play task is spawned.\<close>

definition prime_play_task ::
    "play_task \<Rightarrow> stream_manager \<Rightarrow> stream_hub \<Rightarrow> (stream_hub \<times> stream_hub option) list \<Rightarrow> stream_hub \<Rightarrow> play_task" where
  "prime_play_task t m h0 rounds h1 =
     (case prime_live_play (pt_reader t) m (pt_stream_id t) h0 rounds h1 of
        (r, pending) \<Rightarrow> t\<lparr>pt_reader := r, pt_pending := pending, pt_video_streaming := (pending \<noteq> None)\<rparr>)"

text \<open>One frame: what is written for it, if anything. None outside: the encoder does not return.\<close>

definition forward_frame ::
    "play_task \<Rightarrow> stream_manager \<Rightarrow> nat \<Rightarrow> media_frame \<Rightarrow> (play_task \<times> bytes option) option" where
  "forward_frame t m now f =
     (let video = is_video_codec (mf_codec f) in
      if mf_codec f = Opus \<or> mf_codec f = G711 then Some (t, None)
      else if video \<and> \<not> pt_video_streaming t \<and> \<not> is_idr_frame f then Some (t, None)
      else
        let t1 = (if video then t\<lparr>pt_video_streaming := True\<rparr> else t) in
        if mf_codec f = AAC \<and> length (mf_data f) < 8 then Some (t1, None)
        else if \<not> video \<and> mf_codec f \<noteq> AAC then Some (t1, None)
        else
          let data = (if video then frame_to_rtmp_video (prepend_rtmp_video_config m (pt_stream_id t) f)
                      else frame_to_rtmp_audio f)
          in if data = [] then Some (t1, None)
             else
               let (clock, ts) = play_clock_map (pt_clock t1) now in
               case encode_message (if video then 0x09 else 0x08) (word_of_nat ts) (pt_msid t) data
                      (pt_chunk_size t) (if video then CSID_VIDEO else CSID_AUDIO) of
                 None \<Rightarrow> None
               | Some b \<Rightarrow> Some (t1\<lparr>pt_clock := clock\<rparr>, Some b))"

text \<open>
  The frames of one batch, from the \<open>k\<close>-th on: \<open>now k\<close> is the clock at the \<open>k\<close>-th frame, \<open>wr k\<close>
  whether its write succeeds. The boolean says that the player is still there.
\<close>

fun forward_frames ::
    "(nat \<Rightarrow> nat) \<Rightarrow> (nat \<Rightarrow> bool) \<Rightarrow> nat \<Rightarrow> play_task \<Rightarrow> stream_manager \<Rightarrow> media_frame list \<Rightarrow>
     (play_task \<times> bytes list \<times> bool) option" where
  "forward_frames now wr k t m [] = Some (t, [], True)"
| "forward_frames now wr k t m (f # fs) =
     (case forward_frame t m (now k) f of
        None \<Rightarrow> None
      | Some (t1, None) \<Rightarrow> forward_frames now wr (k + 1) t1 m fs
      | Some (t1, Some b) \<Rightarrow>
          if \<not> wr k then Some (t1, [], False)
          else
            (case forward_frames now wr (k + 1) (t1\<lparr>pt_frames_sent := pt_frames_sent t1 + 1\<rparr>) m fs of
               None \<Rightarrow> None
             | Some (t2, bs, alive) \<Rightarrow> Some (t2, b # bs, alive)))"

text \<open>
  One turn of the task's loop: the pending frame or a batch, then the check for a gap in the
  ring. \<open>Inl\<close> means that the task has ended.
\<close>

definition play_turn ::
    "(nat \<Rightarrow> nat) \<Rightarrow> (nat \<Rightarrow> bool) \<Rightarrow> play_task \<Rightarrow> stream_manager \<Rightarrow> stream_hub \<times> stream_hub option \<Rightarrow>
     ((play_task + play_task) \<times> rtmp_effect list) option" where
  "play_turn now wr t m hub =
     (let (t1, frames) =
            (case pt_pending t of
               Some f \<Rightarrow> (t\<lparr>pt_pending := None\<rparr>, Inr [f])
             | None \<Rightarrow>
                 (case recv_batch (pt_reader t) (fst hub) (snd hub) of
                    (r, _, res) \<Rightarrow> (t\<lparr>pt_reader := r\<rparr>, res)))
      in case frames of
           Inl Closed \<Rightarrow> Some (Inl t1, [])
         | Inr fs \<Rightarrow>
             if fs = [] then Some (Inr t1, [])
             else
               let (r, resync) = take_muxer_resync (pt_reader t1);
                   t2 = (if resync
                         then t1\<lparr>pt_reader := clear_video_catchup r, pt_video_streaming := False\<rparr>
                         else t1\<lparr>pt_reader := r\<rparr>);
                   effs = (if resync then [Request_keyframe (pt_stream_id t)] else [])
               in case forward_frames now wr 0 t2 m fs of
                    None \<Rightarrow> None
                  | Some (t3, bs, alive) \<Rightarrow>
                      Some (if alive then Inr t3 else Inl t3, effs @ map Send bs))"

section \<open>The unused helpers of the server\<close>

definition make_connect_response :: bytes where
  "make_connect_response = build_result_response (f64_of_u32 1) ''Connect''"

definition make_create_stream_response :: bytes where
  "make_create_stream_response =
     encode [AString (ascii ''_result''), Number (f64_of_u32 2), ANull, Number (f64_of_u32 1)]"

definition make_publish_response :: bytes where
  "make_publish_response = build_on_status ''NetStream.Publish.Start'' ''Publishing started.'' ''status''"

definition make_play_response :: bytes where
  "make_play_response = build_on_status ''NetStream.Play.Start'' ''Playback started.'' ''status''"

definition frame_to_rtmp_data :: "media_frame \<Rightarrow> bytes" where
  "frame_to_rtmp_data f =
     (if is_video_codec (mf_codec f) then frame_to_rtmp_video f
      else if mf_codec f = AAC \<or> mf_codec f = Opus \<or> mf_codec f = G711 then frame_to_rtmp_audio f
      else [])"

end
