(* ===== verification/Rtmp_Relay.thy ===== *)
theory Rtmp_Relay
  imports Rtmp_Server
begin

text \<open>
  What the RTMP connection of \<open>Rtmp_Server\<close> guarantees: the registry only changes by its own
  operations, a publisher owns its slot until it closes, codec configuration and video survive
  the way through the chunk stream, and the exact conditions of its failures.
\<close>

section \<open>Parameter sets and access units out of messages\<close>

lemma read_one_set:
  assumes "length s < 65536"
  shows "read_sets (Suc 0) (pre @ be16_bytes (length s) @ s @ post) (length pre) acc =
     (s, length pre + 2 + length s)"
  using be16_read [OF assms, of pre "s @ post"] by (simp add: Let_def)

lemma parse_avc_config_header:
  assumes "length sps < 65536" and "length pps < 65536"
  shows "parse_avc_config (drop 5 (build_avc_sequence_header sps pps)) = (sps, pps)"
proof -
  obtain a b c where abc: "(if length sps \<ge> 4 then [sps ! 1, sps ! 2, sps ! 3] else [0x42, 0x00, 0x1F]) = [a, b, c]"
    by (cases "length sps \<ge> 4") simp_all
  let ?pre = "[0x01, a, b, c, 0xFF, 0xE1]" and ?tail = "[0x01] @ be16_bytes (length pps) @ pps"
  let ?d = "?pre @ be16_bytes (length sps) @ sps @ ?tail"
  have d: "drop 5 (build_avc_sequence_header sps pps) = ?d"
    unfolding build_avc_sequence_header_def abc by simp
  have first: "read_sets (Suc 0) ?d 6 [] = (sps, 8 + length sps)"
    using read_one_set [OF assms(1), of ?pre ?tail "[]"]
    by (simp add: eval_nat_numeral del: read_sets.simps)
  let ?mid = "?pre @ be16_bytes (length sps) @ sps"
  have at: "8 + length sps < length ?d" "?d ! (8 + length sps) = 0x01"
    by (simp_all add: nth_append be16_bytes_def)
  have second: "fst (read_sets (Suc 0) ?d (8 + length sps + 1) []) = pps"
    using read_one_set [OF assms(2), of "?mid @ [0x01]" "[]" "[]"]
    by (simp add: eval_nat_numeral del: read_sets.simps)
  have one: "unat (?d ! 5 AND 0x1F) = Suc 0" "unat ((0x01 :: byte) AND 0x1F) = Suc 0" by simp_all
  show ?thesis
    unfolding d parse_avc_config_def one(1) first prod.case at(2) one(2) second
    using at(1) by simp
qed

lemma be32_at:
  "be32 ((pre @ be32_bytes w @ xs) ! length pre) ((pre @ be32_bytes w @ xs) ! (length pre + 1))
     ((pre @ be32_bytes w @ xs) ! (length pre + 2)) ((pre @ be32_bytes w @ xs) ! (length pre + 3)) = w"
  using be32_bytes_inverse [of w] by (simp add: nth_append be32_bytes_def numeral_eq_Suc)

lemma avcc_to_annex_b_step:
  assumes "unat (be32 (d ! off) (d ! (off + 1)) (d ! (off + 2)) (d ! (off + 3))) = k"
    and "off + 4 + k \<le> length d"
  shows "avcc_to_annex_b d off acc =
     avcc_to_annex_b d (off + 4 + k) (acc @ [0, 0, 0, 1] @ take k (drop (off + 4) d))"
  using assms by (subst avcc_to_annex_b.simps) (simp add: Let_def)

lemma avcc_to_annex_b_of:
  assumes "\<forall>n\<in>set ns. length n < 4294967296"
  shows "avcc_to_annex_b (pre @ avcc_of ns) (length pre) acc = acc @ annex_b_of ns"
  using assms
proof (induction ns arbitrary: pre acc)
  case Nil
  then show ?case by (simp add: avcc_to_annex_b.simps)
next
  case (Cons n ns)
  let ?b = "be32_bytes (word_of_nat (length n))"
  let ?d = "pre @ ?b @ n @ avcc_of ns"
  have len: "unat (be32 (?d ! length pre) (?d ! (length pre + 1)) (?d ! (length pre + 2)) (?d ! (length pre + 3))) =
      length n"
    using be32_at [of pre "word_of_nat (length n)" "n @ avcc_of ns"] Cons.prems
    by (simp add: unat_of_nat)
  have "avcc_to_annex_b ?d (length pre + 4 + length n) (acc @ [0, 0, 0, 1] @ n) =
      (acc @ [0, 0, 0, 1] @ n) @ annex_b_of ns"
    using Cons.IH [of "pre @ ?b @ n" "acc @ [0, 0, 0, 1] @ n"] Cons.prems by (simp add: add.assoc)
  then have "avcc_to_annex_b ?d (length pre) acc = (acc @ [0, 0, 0, 1] @ n) @ annex_b_of ns"
    using avcc_to_annex_b_step [OF len] by simp
  then show ?case by simp
qed

text \<open>The frame a publishing connection makes of a video message built from \<open>f\<close>.\<close>

definition relay_frame :: "stream_id \<Rightarrow> 32 word \<times> media_frame \<Rightarrow> media_frame" where
  "relay_frame sid q =
     with_clock_rate
       (media_frame_new sid 0 (unat (fst q)) (mf_data (snd q))
         (mf_is_keyframe (snd q) \<or> is_keyframe_annex_b (mf_data (snd q))) H264) 1000"

definition video_message :: "32 word \<Rightarrow> 32 word \<times> media_frame \<Rightarrow> rtmp_message" where
  "video_message msid q =
     \<lparr>rm_msg_type = 0x09, rm_timestamp = fst q, rm_msg_stream_id = msid,
      rm_payload = frame_to_rtmp_video (snd q)\<rparr>"

definition relayable :: "media_frame \<Rightarrow> bool" where
  "relayable f \<longleftrightarrow> (\<exists>ns. mf_data f = annex_b_of ns \<and> ns \<noteq> [] \<and> (\<forall>n\<in>set ns. nal_clean n) \<and>
     length (frame_to_rtmp_video f) < 16777216)"

lemma length_avcc_of: "n \<in> set ns \<Longrightarrow> length n \<le> length (avcc_of ns)"
  by (induction ns) auto

lemma handle_video_relay:
  assumes "relayable (snd q)" and "cn_is_publishing c"
  shows "handle_video c m (video_message msid q) =
     publish_result (c\<lparr>cn_frames_received := cn_frames_received c + 1\<rparr>) m (relay_frame (cn_stream_id c) q)"
proof -
  obtain ts f where q: "q = (ts, f)" by fastforce
  from assms(1) q obtain ns where ns: "mf_data f = annex_b_of ns" "ns \<noteq> []" "\<forall>n\<in>set ns. nal_clean n"
    "length (frame_to_rtmp_video f) < 16777216" by (auto simp: relayable_def)
  let ?key = "mf_is_keyframe f \<or> is_keyframe_annex_b (mf_data f)"
  let ?b = "(if ?key then 0x10 else 0x20) OR 0x07 :: byte"
  have data: "frame_to_rtmp_video f = [?b, 0x01, 0, 0, 0] @ avcc_of ns"
    by (simp add: frame_to_rtmp_video_def ns(1) avcc_units_annex_b [OF ns(3)])
  have "length n < 4294967296" if "n \<in> set ns" for n
    using length_avcc_of [OF that] ns(4) data by simp
  then have annex_b: "avcc_to_annex_b (avcc_of ns) 0 [] = annex_b_of ns"
    using avcc_to_annex_b_of [of ns "[]" "[]"] by simp
  have nonempty: "annex_b_of ns \<noteq> []" using ns(2) by (cases ns) simp_all
  have key: "(?b AND 0xF0 = 0x10) = ?key" by (cases ?key) simp_all
  show ?thesis
    using assms(2) nonempty key
    by (simp add: handle_video_def video_message_def relay_frame_def q data annex_b ns(1) Let_def
        del: media_frame_defs)
qed

fun publish_all :: "stream_manager \<Rightarrow> media_frame list \<Rightarrow> stream_manager option" where
  "publish_all m [] = Some m"
| "publish_all m (f # fs) = (case publish_frame m f of None \<Rightarrow> None | Some m' \<Rightarrow> publish_all m' fs)"

lemma parse_chunks_Nil: "parse_chunks [] as hs n = (([], as, hs), None)"
  by (simp add: parse_chunks.simps parse_chunk_header_def)

lemma frame_to_rtmp_video_not_Nil [simp]: "frame_to_rtmp_video f \<noteq> []"
  by (simp add: frame_to_rtmp_video_def)

lemma drain_video:
  assumes "0 < n" and "\<forall>q\<in>set qs. relayable (snd q)" and "cn_is_publishing c" and "cn_stream_id c = sid"
    and "all_idle (cn_chunk_states c)" and "publish_all m (map (relay_frame sid) qs) = Some m'"
  shows "\<exists>c'. drain_messages wr k n c m
       (concat (map (\<lambda>q. the (encode_rtmp n (CSID_VIDEO, video_message msid q))) qs)) pending =
       ((Running, c', m', []), [], pending) \<and>
     cn_is_publishing c' \<and> cn_stream_id c' = sid \<and> cn_publisher_id c' = cn_publisher_id c \<and>
     cn_frames_received c' = cn_frames_received c + length qs \<and> all_idle (cn_chunk_states c')"
  using assms(2-6)
proof (induction qs arbitrary: c m k)
  case Nil
  then show ?case by (simp add: drain_messages.simps [of wr k n c] parse_chunks_Nil)
next
  case (Cons q qs)
  let ?rest = "concat (map (\<lambda>q. the (encode_rtmp n (CSID_VIDEO, video_message msid q))) qs)"
  let ?msg = "video_message msid q"
  obtain m1 where m1: "publish_frame m (relay_frame sid q) = Some m1"
    "publish_all m1 (map (relay_frame sid) qs) = Some m'"
    using Cons.prems(5) by (auto split: option.splits)
  have len: "length (rm_payload ?msg) < 16777216"
    using Cons.prems(1) by (auto simp: relayable_def video_message_def)
  have idle: "cn_chunk_states c CSID_VIDEO = None \<or>
      (\<exists>a. cn_chunk_states c CSID_VIDEO = Some a \<and> idle_assembler a)"
    using Cons.prems(4) by (auto simp: all_idle_def)
  obtain enc a h where e: "encode_rtmp n (CSID_VIDEO, ?msg) = Some enc" "idle_assembler a"
    "parse_chunks (enc @ ?rest) (cn_chunk_states c) (cn_message_headers c) n =
       ((?rest, (cn_chunk_states c)(CSID_VIDEO \<mapsto> a), (cn_message_headers c)(CSID_VIDEO \<mapsto> h)), Some ?msg)"
    using parse_encoded_message [of n CSID_VIDEO "rm_payload ?msg" "cn_chunk_states c" "rm_msg_type ?msg"
        "rm_timestamp ?msg" "rm_msg_stream_id ?msg" ?rest "cn_message_headers c"] assms(1) len idle
    by (auto simp: encode_rtmp_def CSID_VIDEO_def video_message_def)
  let ?c1 = "c\<lparr>cn_chunk_states := (cn_chunk_states c)(CSID_VIDEO \<mapsto> a),
      cn_message_headers := (cn_message_headers c)(CSID_VIDEO \<mapsto> h)\<rparr>"
  let ?c2 = "?c1\<lparr>cn_frames_received := cn_frames_received c + 1\<rparr>"
  have "handle_rtmp_message (wr k) ?c1 m ?msg = (handle_video ?c1 m ?msg, None)"
    by (simp add: handle_rtmp_message_def video_message_def)
  also have "handle_video ?c1 m ?msg = (Running, ?c2, m1, [])"
    using Cons.prems(1-3) m1(1) by (subst handle_video_relay) (simp_all add: publish_result_def)
  finally have step: "handle_rtmp_message (wr k) ?c1 m ?msg = ((Running, ?c2, m1, []), None)" .
  have idle2: "all_idle (cn_chunk_states ?c2)" using Cons.prems(4) e(2) by (simp add: all_idle_def)
  obtain c' where c': "drain_messages wr (k + 1) n ?c2 m1 ?rest pending = ((Running, c', m', []), [], pending)"
    "cn_is_publishing c'" "cn_stream_id c' = sid" "cn_publisher_id c' = cn_publisher_id c"
    "cn_frames_received c' = cn_frames_received c + 1 + length qs" "all_idle (cn_chunk_states c')"
    using Cons.IH [of ?c2 m1 "k + 1", OF _ _ _ idle2 m1(2)] Cons.prems(1-3) by auto
  have "drain_messages wr k n c m (enc @ ?rest) pending = ((Running, c', m', []), [], pending)"
    using e(3) step c'(1) by (simp add: drain_messages.simps [of wr k])
  then show ?case using e(1) c' by auto
qed

section \<open>The connection as a client of the registry\<close>

lemma emit_result: "emit wr bs c m effs = (st, c', m', e) \<Longrightarrow> c' = c \<and> m' = m"
  by (auto simp: emit_def split: if_splits)

lemma release_connection_steps:
  assumes "release_publish_connection c m = (c', m')"
  shows "mgr_steps m m'"
proof (cases "cn_is_publishing c \<and> cn_publisher_id c \<noteq> None")
  case False
  with assms show ?thesis by (auto simp: release_publish_connection_def split: if_splits)
next
  case True
  then obtain p where p: "cn_publisher_id c = Some p" "cn_is_publishing c" by blast
  obtain m1 ok where r: "release_publisher m (cn_stream_id c) p = (m1, ok)" by fastforce
  have "mgr_steps m m1" using step_release [of m "cn_stream_id c" p] r by (simp add: steps_one)
  moreover have "m' = (if ok then case set_status m1 (cn_stream_id c) stream_status.Unpublished of
      None \<Rightarrow> m1 | Some m2 \<Rightarrow> m2 else m1)"
    using assms p r by (auto simp: release_publish_connection_def set_unpublished_def split: bool.splits)
  ultimately show ?thesis using steps_opt_status by simp
qed

text \<open>The stages of an accepted publish request.\<close>

definition publish_stage :: "stream_manager \<Rightarrow> stream_id \<Rightarrow> stream_manager" where
  "publish_stage m name =
     (if get_stream m name = None then fst (create_stream m name stream_source_mode.Push RTMP None) else m)"

definition publish_prepare :: "stream_manager \<Rightarrow> stream_id \<Rightarrow> stream_manager" where
  "publish_prepare m name =
     (let m3 = (case get_stream m name of
                  Some st \<Rightarrow> if st_tracks st = [] then set_stream_tracks m name default_live_tracks else m
                | None \<Rightarrow> m)
      in case set_unpublished m3 name of Some m' \<Rightarrow> m' | None \<Rightarrow> m3)"

lemma publish_stage_steps: "mgr_steps m (publish_stage m name)"
  by (auto simp: publish_stage_def intro: steps_one step_create)

lemma publish_prepare_steps: "mgr_steps m (publish_prepare m name)"
proof -
  have one: "mgr_steps m (case get_stream m name of
      Some st \<Rightarrow> if st_tracks st = [] then set_stream_tracks m name default_live_tracks else m | None \<Rightarrow> m)"
    by (auto split: option.split intro: steps_one step_tracks)
  show ?thesis
    unfolding publish_prepare_def Let_def set_unpublished_def
    using steps_opt_status [OF one] by (auto split: option.splits)
qed

lemma run_publish_cases:
  assumes "run_publish wr c m args = (st, c', m', effs)"
  defines "s \<equiv> fst (handle_publish (cn_session c) args)"
    and "name \<equiv> snd (handle_publish (cn_session c) args)"
    and "p \<equiv> ''rtmp:'' @ rs_peer_addr (fst (handle_publish (cn_session c) args))"
  shows "(acquire_publisher (publish_stage m name) name p = None \<and> c' = c\<lparr>cn_session := s\<rparr> \<and>
       m' = publish_stage m name) \<or>
     (\<exists>m2. acquire_publisher (publish_stage m name) name p = Some m2 \<and>
       c' = c\<lparr>cn_session := s, cn_is_publishing := True, cn_stream_id := name, cn_publisher_id := Some p\<rparr> \<and>
       m' = (if st = Running then case set_publishing (publish_prepare m2 name) name of
               Some m' \<Rightarrow> m' | None \<Rightarrow> publish_prepare m2 name
             else publish_prepare m2 name))"
proof (cases "acquire_publisher (publish_stage m name) name p")
  case None
  with assms show ?thesis
    by (auto simp: run_publish_def publish_stage_def Let_def split: prod.splits dest: emit_result)
next
  case (Some m2)
  have hp: "handle_publish (cn_session c) args = (s, name)" by (simp add: s_def name_def)
  have p: "p = ''rtmp:'' @ rs_peer_addr s" by (simp add: p_def s_def)
  let ?c2 = "c\<lparr>cn_session := s, cn_is_publishing := True, cn_stream_id := name, cn_publisher_id := Some p\<rparr>"
  let ?e = "emit wr [status_message ?c2 ''NetStream.Publish.Start'' ''Publishing started.'' ''status'']
      ?c2 (publish_prepare m2 name) []"
  have eq: "run_publish wr c m args =
      (case ?e of
         (Running, _, _, effs) \<Rightarrow>
           (Running, ?c2, (case set_publishing (publish_prepare m2 name) name of
              Some m' \<Rightarrow> m' | None \<Rightarrow> publish_prepare m2 name),
            effs @ (if cn_has_hls ?c2 then [Restart_hls name] else []))
       | failed \<Rightarrow> failed)"
    by (simp only: run_publish_def hp prod.case Let_def p [symmetric] publish_stage_def [symmetric] Some
        option.case publish_prepare_def)
  obtain o1 c1 m1 e1 where e: "?e = (o1, c1, m1, e1)" by (metis prod.exhaust)
  with emit_result [OF e] assms(1) eq Some show ?thesis by (cases o1) auto
qed

lemma command_steps:
  assumes "handle_amf0_command wr c m command args = (st, c', m', effs)"
  shows "mgr_steps m m'"
proof -
  have create: "m' = m" if "run_create_stream wr c m args = (st, c', m', effs)"
    using that by (auto simp: run_create_stream_def Let_def split: option.splits prod.splits dest: emit_result)
  have connect: "m' = m" if "run_connect wr c m args = (st, c', m', effs)"
    using that by (auto simp: run_connect_def Let_def split: prod.splits dest: emit_result)
  have play: "m' = m" if "run_play wr c m args = (st, c', m', effs)"
    using that by (auto simp: run_play_def Let_def split: prod.splits option.splits if_splits rtmp_outcome.splits
        dest: emit_result)
  have stop: "mgr_steps m m'" if "run_stop x c m = (st, c', m', effs)" for x
    using that release_connection_steps by (auto simp: run_stop_def split: prod.splits)
  have publish: "mgr_steps m m'" if r: "run_publish wr c m args = (st, c', m', effs)"
  proof -
    let ?name = "snd (handle_publish (cn_session c) args)"
    note c = run_publish_cases [OF r]
    from c show ?thesis
    proof (elim disjE exE conjE)
      assume "m' = publish_stage m ?name"
      then show ?thesis using publish_stage_steps by simp
    next
      fix m2
      assume a: "acquire_publisher (publish_stage m ?name) ?name
          (''rtmp:'' @ rs_peer_addr (fst (handle_publish (cn_session c) args))) = Some m2"
        and m': "m' = (if st = Running then case set_publishing (publish_prepare m2 ?name) ?name of
            Some m' \<Rightarrow> m' | None \<Rightarrow> publish_prepare m2 ?name else publish_prepare m2 ?name)"
      have "mgr_steps m m2" using publish_stage_steps step_acquire [OF a] by (rule steps_then)
      then have "mgr_steps m (publish_prepare m2 ?name)"
        using publish_prepare_steps [of m2 ?name] by (rule rtranclp_trans)
      with m' steps_opt_status [OF this] show ?thesis
        by (auto simp: set_publishing_def split: if_splits option.splits)
    qed
  qed
  show ?thesis
    using assms create connect play stop publish
    unfolding handle_amf0_command_def
    by (auto split: if_splits)
qed

lemma publish_result_steps:
  "publish_result c m f = (st, c', m', effs) \<Longrightarrow> mgr_steps m m'"
  by (auto simp: publish_result_def split: option.splits intro: steps_one step_publish)

lemma message_steps:
  assumes "handle_rtmp_message wr c m msg = ((st, c', m', effs), new_size)"
  shows "mgr_steps m m'"
proof -
  have config: "mgr_steps m (set_avc_config c m data)" for data
    by (auto simp: set_avc_config_def Let_def split: prod.splits intro: steps_one step_sps_pps)
  have video: "mgr_steps m m'" if "handle_video c m msg = (st, c', m', effs)"
    using that config
    by (auto simp: handle_video_def Let_def split: if_splits dest: publish_result_steps)
  have audio: "mgr_steps m m'" if "handle_audio c m msg = (st, c', m', effs)"
    using that by (auto simp: handle_audio_def Let_def split: if_splits dest: publish_result_steps)
  show ?thesis
    using assms video audio
    by (auto simp: handle_rtmp_message_def Let_def split: if_splits sum.splits prod.splits dest: command_steps)
qed

lemma drain_steps:
  "drain_messages wr k n c m buf pending = ((st, c', m', effs), rest) \<Longrightarrow> mgr_steps m m'"
proof (induction wr k n c m buf pending arbitrary: effs rest rule: drain_messages.induct)
  case (1 wr k n c m buf pending)
  obtain buf1 as hs res where p: "parse_chunks buf (cn_chunk_states c) (cn_message_headers c) n =
      ((buf1, as, hs), res)" by (metis prod.exhaust)
  show ?case
  proof (cases res)
    case None
    with "1.prems" p show ?thesis by (simp add: drain_messages.simps [of wr k])
  next
    case (Some msg)
    obtain o1 c1 m1 e1 ns where h: "handle_rtmp_message (wr k)
        (c\<lparr>cn_chunk_states := as, cn_message_headers := hs\<rparr>) m msg = ((o1, c1, m1, e1), ns)"
      by (metis prod.exhaust)
    note m1 = message_steps [OF h]
    show ?thesis
    proof (cases "o1 = Running")
      case False
      with "1.prems" p Some h m1 show ?thesis
        by (cases o1) (simp_all add: drain_messages.simps [of wr k])
    next
      case True
      obtain o2 c2 m2 e2 r2 where d: "drain_messages wr (k + 1) n c1 m1 buf1
          (case ns of None \<Rightarrow> pending | Some x \<Rightarrow> Some x) = ((o2, c2, m2, e2), r2)" by (metis prod.exhaust)
      with "1.prems" p Some h True have eq: "m2 = m'" "o2 = st" "c2 = c'"
        by (simp_all add: drain_messages.simps [of wr k])
      have "mgr_steps m1 m2"
        using "1.IH" [OF p [symmetric] refl refl Some h [symmetric] refl True refl refl] d eq by simp
      with m1 eq show ?thesis by (metis rtranclp_trans)
    qed
  qed
qed

lemma loop_step_steps:
  assumes "loop_step wr input st m = (e, st', m', effs)"
  shows "mgr_steps m m'"
proof -
  have process: "mgr_steps m m'" if "process_messages wr st m effs0 = (e, st', m', effs)" for st effs0
    using that drain_steps [of wr 1 "lp_chunk_size st" "lp_conn st" m "lp_buf st" None]
    by (auto simp: process_messages_def split: prod.splits rtmp_outcome.splits)
  show ?thesis
    using assms process
    by (cases input)
      (auto simp: loop_step_def Let_def split: if_splits prod.splits rtmp_outcome.splits bool.splits
        dest: release_connection_steps)
qed

lemma loop_run_steps: "loop_run inputs st m = (e, st', m', effs) \<Longrightarrow> mgr_steps m m'"
proof (induction inputs arbitrary: st m effs)
  case Nil
  then show ?case by simp
next
  case (Cons x inputs)
  obtain wr input where x: "x = (wr, input)" by fastforce
  obtain e1 st1 m1 effs1 where s: "loop_step wr input st m = (e1, st1, m1, effs1)" by (metis prod.exhaust)
  note m1 = loop_step_steps [OF s]
  show ?case
  proof (cases e1)
    case Loop
    with Cons.prems x s obtain effs2 where "loop_run inputs st1 m1 = (e, st', m', effs2)"
      by (auto split: prod.splits)
    with Cons.IH m1 show ?thesis by (metis rtranclp_trans)
  next
    case (Stop oc)
    with Cons.prems x s m1 show ?thesis by simp
  qed
qed

section \<open>Who owns the publisher slot\<close>

definition owns :: "rtmp_connection \<Rightarrow> stream_manager \<Rightarrow> bool" where
  "owns c m \<longleftrightarrow> (cn_is_publishing c \<longrightarrow>
     (\<exists>p. cn_publisher_id c = Some p \<and> current_publisher m (cn_stream_id c) = Some p))"

lemma publisher_prepare [simp]: "current_publisher (publish_prepare m name) s = current_publisher m s"
  unfolding publish_prepare_def Let_def set_unpublished_def
  by (simp split: option.split if_split)

lemma publisher_stage: "current_publisher (publish_stage m name) s = current_publisher m s"
  by (auto simp: publish_stage_def create_stream_def Let_def get_stream_def current_publisher_def
      hub_with_stream_def split: option.splits)

text \<open>What an accepted publish request leaves.\<close>

lemma run_publish_owns:
  assumes "run_publish wr c m args = (st, c', m', effs)" and "\<not> cn_is_publishing c"
  shows "owns c' m'"
  using run_publish_cases [OF assms(1)]
proof (elim disjE exE conjE)
  assume "c' = c\<lparr>cn_session := fst (handle_publish (cn_session c) args)\<rparr>"
  with assms(2) show ?thesis by (simp add: owns_def)
next
  let ?name = "snd (handle_publish (cn_session c) args)"
  let ?p = "''rtmp:'' @ rs_peer_addr (fst (handle_publish (cn_session c) args))"
  fix m2
  assume a: "acquire_publisher (publish_stage m ?name) ?name ?p = Some m2"
    and c': "c' = c\<lparr>cn_session := fst (handle_publish (cn_session c) args), cn_is_publishing := True,
        cn_stream_id := ?name, cn_publisher_id := Some ?p\<rparr>"
    and m': "m' = (if st = Running then case set_publishing (publish_prepare m2 ?name) ?name of
            Some m' \<Rightarrow> m' | None \<Rightarrow> publish_prepare m2 ?name else publish_prepare m2 ?name)"
  have "current_publisher m2 ?name = Some ?p" by (rule mgr_slot.acquire_owner [OF a])
  moreover have "current_publisher m' ?name = current_publisher m2 ?name"
    unfolding m' set_publishing_def by simp
  ultimately show ?thesis by (simp add: owns_def c')
qed

text \<open>The commands that replace the stream id of a connection.\<close>

definition moves_publisher :: "rtmp_message \<Rightarrow> bool" where
  "moves_publisher msg \<longleftrightarrow>
     (\<exists>command args. parse_command (rm_payload msg) = Inr (command, args) \<and>
        command \<in> {ascii ''connect'', ascii ''publish'', ascii ''play''})"

lemma ascii_inject [simp]: "ascii a = ascii b \<longleftrightarrow> a = b"
  by (metis text_of_ascii)

lemma command_owns:
  assumes "handle_amf0_command wr c m command args = (st, c', m', effs)" and "owns c m"
    and "cn_is_publishing c \<Longrightarrow> command \<notin> {ascii ''connect'', ascii ''publish'', ascii ''play''}"
  shows "owns c' m'"
proof -
  have create: "owns c' m'" if "run_create_stream wr c m args = (st, c', m', effs)"
    using that assms(2)
    by (auto simp: run_create_stream_def Let_def owns_def split: option.splits prod.splits dest!: emit_result)
  have connect: "owns c' m'" if "run_connect wr c m args = (st, c', m', effs)" "\<not> cn_is_publishing c"
    using that by (auto simp: run_connect_def Let_def owns_def split: prod.splits dest!: emit_result)
  have play: "owns c' m'" if "run_play wr c m args = (st, c', m', effs)" "\<not> cn_is_publishing c"
    using that
    by (auto simp: run_play_def Let_def owns_def split: prod.splits option.splits if_splits rtmp_outcome.splits
        dest!: emit_result)
  have stop: "owns c' m'" if "run_stop x c m = (st, c', m', effs)" for x
    using that by (auto simp: run_stop_def release_publish_connection_def owns_def split: if_splits)
  show ?thesis
    using assms create connect play stop run_publish_owns [of wr c m args st c' m' effs]
    unfolding handle_amf0_command_def
    by (auto split: if_splits)
qed

lemma publish_result_owns:
  "publish_result c m f = (st, c', m', effs) \<Longrightarrow> owns c m \<Longrightarrow> owns c' m'"
  by (auto simp: publish_result_def owns_def publisher_publish split: option.splits)

lemma message_owns:
  assumes "handle_rtmp_message wr c m msg = ((st, c', m', effs), new_size)" and "owns c m"
    and "cn_is_publishing c \<Longrightarrow> \<not> moves_publisher msg"
  shows "owns c' m'"
proof -
  have frames: "owns (c\<lparr>cn_frames_received := k\<rparr>) m" for k using assms(2) by (simp add: owns_def)
  have config: "owns c (set_avc_config c m data)" for data
    using assms(2) by (auto simp: set_avc_config_def owns_def Let_def split: prod.splits)
  have video: "owns c' m'" if "handle_video c m msg = (st, c', m', effs)"
    using that config assms(2) frames
    by (auto simp: handle_video_def Let_def simp del: media_frame_defs split: if_splits dest: publish_result_owns)
  have audio: "owns c' m'" if "handle_audio c m msg = (st, c', m', effs)"
    using that assms(2) frames
    by (auto simp: handle_audio_def Let_def simp del: media_frame_defs split: if_splits dest: publish_result_owns)
  have command: "owns c' m'" if "parse_command (rm_payload msg) = Inr (command, args)"
      "handle_amf0_command wr c m command args = (st, c', m', effs)" for command args
    using that assms(3) by (intro command_owns [OF that(2) assms(2)]) (auto simp: moves_publisher_def)
  have size: "owns (c\<lparr>cn_chunk_size := k\<rparr>) m" for k using assms(2) by (simp add: owns_def)
  show ?thesis
    using assms(1,2) video audio command size
    by (auto simp: handle_rtmp_message_def Let_def split: if_splits sum.splits prod.splits)
qed

lemma release_connection_effect:
  assumes "owns c m" and "cn_is_publishing c" and "release_publish_connection c m = (c', m')"
  shows "\<not> cn_is_publishing c' \<and> current_publisher m' (cn_stream_id c) = None \<and>
    (\<exists>s. get_stream m' (cn_stream_id c) = Some s \<and> st_status s = Unpublished \<and> st_sps s = None)"
proof -
  let ?sid = "cn_stream_id c"
  from assms(1,2) obtain p where p: "cn_publisher_id c = Some p" "current_publisher m ?sid = Some p"
    by (auto simp: owns_def)
  then obtain h where h: "get_hub m ?sid = Some h" "hub_publisher h = Some p"
    by (auto simp: current_publisher_cases split: option.splits)
  then show ?thesis using assms(2,3) p(1)
    by (auto simp: release_publish_connection_def release_publisher_def hub_release_publisher_def
        set_unpublished_def set_status_def get_stream_def current_publisher_def)
qed

lemma release_connection_other:
  assumes "release_publish_connection c m = (c', m')" and "s \<noteq> cn_stream_id c"
  shows "current_publisher m' s = current_publisher m s"
proof (cases "cn_is_publishing c \<and> cn_publisher_id c \<noteq> None")
  case False
  with assms show ?thesis by (auto simp: release_publish_connection_def split: if_splits)
next
  case True
  then obtain p where p: "cn_publisher_id c = Some p" "cn_is_publishing c" by blast
  obtain m1 ok where r: "release_publisher m (cn_stream_id c) p = (m1, ok)" by fastforce
  then have "current_publisher m1 s = current_publisher m s"
    using release_other [OF assms(2), of m p] by simp
  moreover have "m' = (if ok then case set_status m1 (cn_stream_id c) stream_status.Unpublished of
      None \<Rightarrow> m1 | Some m2 \<Rightarrow> m2 else m1)"
    using assms(1) p r by (auto simp: release_publish_connection_def set_unpublished_def split: bool.splits)
  ultimately show ?thesis by simp
qed

section \<open>When a message panics\<close>

lemma emit_running: "fst (emit wr bs c m effs) \<noteq> Panicked"
  by (simp add: emit_def)

lemma publish_result_panic: "fst (publish_result c m f) \<noteq> Panicked"
  by (simp add: publish_result_def split: option.split)

lemma run_publish_panic: "fst (run_publish wr c m args) \<noteq> Panicked"
proof -
  have "fst (case emit wr bs c2 m4 [] of (Running, _, _, effs) \<Rightarrow> (Running, c2, m5, effs @ x) | failed \<Rightarrow> failed)
      \<noteq> Panicked" for bs c2 m4 m5 and x :: "rtmp_effect list"
    using emit_running [of wr bs c2 m4 "[]"] by (auto split: prod.split rtmp_outcome.split)
  then show ?thesis
    using emit_running by (auto simp: run_publish_def Let_def split: prod.split option.split)
qed

lemma run_play_panic: "fst (run_play wr c m args) \<noteq> Panicked"
proof -
  have "fst (case emit wr bs c2 m4 e of (Running, _, _, effs) \<Rightarrow> (Running, c3, m5, effs @ x) | failed \<Rightarrow> failed)
      \<noteq> Panicked" for bs c2 c3 m4 m5 e and x :: "rtmp_effect list"
    using emit_running [of wr bs c2 m4 e] by (auto split: prod.split rtmp_outcome.split)
  then show ?thesis
    using emit_running by (auto simp: run_play_def Let_def split: prod.split option.split)
qed

lemma command_panic:
  "fst (handle_amf0_command wr c m command args) = Panicked \<longleftrightarrow>
   command = ascii ''createStream'' \<and> (args = [] \<or> as_f64 (hd args) = None)"
  using emit_running run_publish_panic run_play_panic
  by (auto simp: handle_amf0_command_def run_connect_def run_create_stream_def handle_create_stream_def
      run_stop_def Let_def split: prod.splits list.splits option.splits)

lemma video_panic:
  "fst (handle_video c m msg) = Panicked \<longleftrightarrow>
   (let p = rm_payload msg in 2 \<le> length p \<and> length p < 5 \<and> p ! 1 = 0x01)"
  using publish_result_panic
  by (cases "rm_payload msg") (auto simp: handle_video_def Let_def Suc_le_eq simp del: media_frame_defs)

lemma audio_panic: "fst (handle_audio c m msg) \<noteq> Panicked"
  using publish_result_panic by (auto simp: handle_audio_def Let_def simp del: media_frame_defs)

lemma message_panic:
  "fst (fst (handle_rtmp_message wr c m msg)) = Panicked \<longleftrightarrow>
   (let p = rm_payload msg in
     rm_msg_type msg = 0x09 \<and> 2 \<le> length p \<and> length p < 5 \<and> p ! 1 = 0x01 \<or>
     rm_msg_type msg \<in> {0x12, 0x14} \<and>
       (\<exists>args. parse_command p = Inr (ascii ''createStream'', args) \<and>
         (args = [] \<or> as_f64 (hd args) = None)))"
  using video_panic [of c m msg] audio_panic [of c m msg]
  by (auto simp: handle_rtmp_message_def Let_def command_panic split: sum.splits prod.splits)

lemma panic_keeps_registry:
  assumes "fst (fst (handle_rtmp_message wr c m msg)) = Panicked"
  shows "fst (snd (snd (fst (handle_rtmp_message wr c m msg)))) = m"
proof -
  have video: "fst (snd (snd (handle_video c m msg))) = m" if "fst (handle_video c m msg) = Panicked"
    using that publish_result_panic unfolding handle_video_def Let_def
    by (auto simp del: media_frame_defs split: if_splits)
  have command: "fst (snd (snd (handle_amf0_command wr c m (ascii ''createStream'') args))) = m" for args
    by (auto simp: handle_amf0_command_def run_create_stream_def Let_def emit_def split: option.split prod.split)
  have "rm_msg_type msg = 0x09 \<or> (\<exists>args. rm_msg_type msg \<in> {0x12, 0x14} \<and>
      parse_command (rm_payload msg) = Inr (ascii ''createStream'', args))"
    using assms by (auto simp: message_panic Let_def)
  then show ?thesis
    using assms video command by (auto simp: handle_rtmp_message_def Let_def)
qed

section \<open>Properties\<close>

text \<open>
  C16. Video survives the RTMP hop: the frames a player would be sent, written as video messages on one
  chunk stream, are published by the receiving connection one by one, with the same access unit,
  the message's timestamp in milliseconds and the keyframe flag recomputed from the data. The
  frames are any number of access units of NAL units without start codes inside.
\<close>

theorem rtmp_video_loopback:
  assumes "0 < n" and "\<forall>q\<in>set qs. relayable (snd q)" and "cn_is_publishing c" and "cn_stream_id c = sid"
    and "all_idle (cn_chunk_states c)" and "publish_all m (map (relay_frame sid) qs) = Some m'"
  shows "\<exists>c'. drain_messages wr k n c m
       (concat (map (\<lambda>q. the (encode_rtmp n (CSID_VIDEO, video_message msid q))) qs)) None =
       ((Running, c', m', []), [], None) \<and>
     cn_is_publishing c' \<and> cn_stream_id c' = sid \<and> cn_frames_received c' = cn_frames_received c + length qs"
  using drain_video [OF assms, of wr k msid None] by blast

definition demo_publisher :: rtmp_connection where
  "demo_publisher =
     (connection_new False ''10.0.0.7'')
       \<lparr>cn_is_publishing := True, cn_stream_id := ''s1'', cn_publisher_id := Some ''rtmp:10.0.0.7''\<rparr>"

definition demo_registry :: stream_manager where
  "demo_registry =
     the (acquire_publisher (fst (create_stream manager_new ''s1'' stream_source_mode.Push RTMP None))
       ''s1'' ''rtmp:10.0.0.7'')"

lemma demo_registry_owner:
  "current_publisher demo_registry ''s1'' = Some ''rtmp:10.0.0.7''"
  by (simp add: demo_registry_def acquire_publisher_def create_stream_def hub_acquire_publisher_def
      hub_with_stream_def Let_def current_publisher_def)

lemma demo_registry_hub:
  "\<exists>h. get_hub demo_registry ''s1'' = Some h \<and> hub_ring h = frame_ring_new"
  by (simp add: demo_registry_def acquire_publisher_def create_stream_def hub_acquire_publisher_def
      hub_with_stream_def Let_def)

lemma relayable_idr_frame: "relayable idr_frame"
proof -
  have "mf_data idr_frame = annex_b_of [[0x65, 9]]" by (simp add: idr_frame_def)
  moreover have "nal_clean [0x65, 9]" by (simp add: nal_clean_def sublist_code)
  moreover have "length (frame_to_rtmp_video idr_frame) < 16777216"
    using avcc_units_annex_b [of "[[0x65, 9]]"] calculation
    by (simp add: frame_to_rtmp_video_def del: annex_b_of_simps)
  ultimately show ?thesis by (auto simp: relayable_def intro!: exI [of _ "[[0x65, 9]]"])
qed

theorem rtmp_video_loopback_witness:
  "\<exists>m' c'. publish_all demo_registry [relay_frame ''s1'' (40, idr_frame)] = Some m' \<and>
     drain_messages (\<lambda>_. True) 1 4096 demo_publisher demo_registry
       (the (encode_rtmp 4096 (CSID_VIDEO, video_message 1 (40, idr_frame)))) None =
       ((Running, c', m', []), [], None)"
proof -
  have "publish_all demo_registry [relay_frame ''s1'' (40, idr_frame)] \<noteq> None"
  proof -
    obtain m' where "publish_frame demo_registry (relay_frame ''s1'' (40, idr_frame)) = Some m'"
      using demo_registry_hub publish_on_new [of demo_registry "relay_frame ''s1'' (40, idr_frame)"]
      by (auto simp: relay_frame_def)
    then show ?thesis by simp
  qed
  then obtain m' where m': "publish_all demo_registry [relay_frame ''s1'' (40, idr_frame)] = Some m'" by blast
  have "cn_is_publishing demo_publisher" "cn_stream_id demo_publisher = ''s1''"
    "all_idle (cn_chunk_states demo_publisher)"
    by (simp_all add: demo_publisher_def connection_new_def all_idle_def)
  then show ?thesis
    using relayable_idr_frame rtmp_video_loopback [of 4096 "[(40, idr_frame)]" demo_publisher "''s1''" demo_registry m' "\<lambda>_. True" 1 1] m'
    by auto
qed

text \<open>
  The AVC sequence header a player is sent gives back the parameter sets: a connection that receives
  it stores exactly this SPS and PPS for its stream, for any sets below 64 KiB. The connection
  does not have to be publishing, or to own the stream.
\<close>

theorem avc_header_roundtrip:
  assumes "sps \<noteq> []" and "length sps < 65536" and "length pps < 65536" and "get_stream m (cn_stream_id c) \<noteq> None"
    and "rm_msg_type msg = 0x09" and "rm_payload msg = build_avc_sequence_header sps pps"
  shows "\<exists>m'. handle_rtmp_message wr c m msg = ((Running, c, m', []), None) \<and>
     m' = set_stream_sps_pps m (cn_stream_id c) sps pps \<and>
     (\<exists>s. get_stream m' (cn_stream_id c) = Some s \<and> st_sps s = Some sps \<and> st_pps s = Some pps)"
proof -
  let ?d = "build_avc_sequence_header sps pps"
  have len: "length ?d > 13" "length (drop 5 ?d) > 7" "?d \<noteq> []" "length ?d > 1" "?d ! 1 = 0x00"
    by (auto simp: build_avc_sequence_header_def)
  have config: "set_avc_config c m ?d = set_stream_sps_pps m (cn_stream_id c) sps pps"
    using assms(1) parse_avc_config_header [OF assms(2,3)] len(1,2)
    by (simp add: set_avc_config_def Let_def)
  have "handle_rtmp_message wr c m msg = (handle_video c m msg, None)"
    using assms(5) by (simp add: handle_rtmp_message_def Let_def)
  also have "handle_video c m msg = (Running, c, set_stream_sps_pps m (cn_stream_id c) sps pps, [])"
    unfolding handle_video_def Let_def assms(6) using len config by simp
  finally have run: "handle_rtmp_message wr c m msg =
      ((Running, c, set_stream_sps_pps m (cn_stream_id c) sps pps, []), None)" .
  obtain h where "get_hub m (cn_stream_id c) = Some h" using assms(4) by (auto simp: get_stream_def)
  with run show ?thesis by (simp add: get_stream_def set_stream_sps_pps_def)
qed

theorem avc_header_roundtrip_witness:
  "\<exists>m' s. handle_rtmp_message True demo_publisher demo_registry
       \<lparr>rm_msg_type = 9, rm_timestamp = 0, rm_msg_stream_id = 1,
        rm_payload = build_avc_sequence_header [0x67, 66, 0, 31] [0x68, 2]\<rparr> =
       ((Running, demo_publisher, m', []), None) \<and>
     get_stream m' ''s1'' = Some s \<and> st_sps s = Some [0x67, 66, 0, 31]"
proof -
  have "get_stream demo_registry (cn_stream_id demo_publisher) \<noteq> None"
    using demo_registry_owner
    by (cases "get_hub demo_registry ''s1''") (auto simp: current_publisher_def get_stream_def demo_publisher_def)
  then show ?thesis
    using avc_header_roundtrip [of "[0x67, 66, 0, 31]" "[0x68, 2]" demo_registry demo_publisher
      "\<lparr>rm_msg_type = 9, rm_timestamp = 0, rm_msg_stream_id = 1,
        rm_payload = build_avc_sequence_header [0x67, 66, 0, 31] [0x68, 2]\<rparr>" True]
    by (auto simp: demo_publisher_def)
qed



text \<open>
  C6. A publisher owns its slot until it closes. No message takes the slot away from its connection, as long as
  a publishing connection does not send another connect, publish or play; and when the peer
  closes or the read fails, the slot is free again, the stream unpublished and its codec
  configuration gone.
\<close>

theorem rtmp_publisher_owns_slot:
  assumes "owns c m" and "cn_is_publishing c" and "\<not> moves_publisher msg"
    and "handle_rtmp_message wr c m msg = ((Running, c1, m1, effs), new_size)"
    and "cn_is_publishing c1" and "lp_conn st = c1" and "input = Read_failed \<or> input = Read_bytes []"
    and "loop_step wr' input st m1 = (e, st', m2, effs')"
  shows "owns c1 m1 \<and> \<not> cn_is_publishing (lp_conn st') \<and> current_publisher m2 (cn_stream_id c1) = None \<and>
    (\<exists>s. get_stream m2 (cn_stream_id c1) = Some s \<and> st_status s = Unpublished \<and> st_sps s = None)"
proof -
  have o1: "owns c1 m1" using message_owns [OF assms(4,1)] assms(3) by blast
  have "release_publish_connection c1 m1 = (lp_conn st', m2) \<or>
      release_publish_connection (c1\<lparr>cn_play_abort := False\<rparr>) m1 = (lp_conn st', m2)"
    using assms(6-8) by (auto simp: loop_step_def split: prod.splits)
  then obtain d where d: "d = c1 \<or> d = c1\<lparr>cn_play_abort := False\<rparr>"
    "release_publish_connection d m1 = (lp_conn st', m2)" by blast
  then have "owns d m1" "cn_is_publishing d" "cn_stream_id d = cn_stream_id c1"
    using o1 assms(5) by (auto simp: owns_def)
  with o1 release_connection_effect [of d m1] d(2) show ?thesis by metis
qed

lemma decode_Nil: "decode [] = Inr ([], 0)"
  by (simp add: decode_def) (simp add: decode_from.simps)

theorem rtmp_publisher_owns_slot_witness:
  "\<exists>e st' m2 effs. loop_step (\<lambda>_. True) (Read_bytes []) ((loop_start False ''p'')\<lparr>lp_conn := demo_publisher\<rparr>)
     demo_registry = (e, st', m2, effs) \<and> current_publisher m2 ''s1'' = None"
proof -
  let ?msg = "\<lparr>rm_msg_type = 5, rm_timestamp = 0, rm_msg_stream_id = 0, rm_payload = []\<rparr>"
  let ?st = "(loop_start False ''p'')\<lparr>lp_conn := demo_publisher\<rparr>"
  have own: "owns demo_publisher demo_registry" using demo_registry_owner by (simp add: owns_def demo_publisher_def)
  have pub: "cn_is_publishing demo_publisher" "cn_stream_id demo_publisher = ''s1''"
    by (simp_all add: demo_publisher_def)
  have "\<not> moves_publisher ?msg"
    using decode_Nil by (simp add: moves_publisher_def parse_command_def)
  moreover have "handle_rtmp_message True demo_publisher demo_registry ?msg =
      ((Running, demo_publisher, demo_registry, []), None)"
    by (simp add: handle_rtmp_message_def)
  moreover obtain e st' m2 effs where r: "loop_step (\<lambda>_. True) (Read_bytes []) ?st demo_registry = (e, st', m2, effs)"
    by (metis prod.exhaust)
  ultimately have "current_publisher m2 ''s1'' = None"
    using rtmp_publisher_owns_slot [OF own pub(1), of ?msg True demo_publisher demo_registry "[]" None ?st
        "Read_bytes []" "\<lambda>_. True" e st' m2 effs] pub by simp
  with r show ?thesis by blast
qed



text \<open>
  A second publish leaks the first slot. When a publishing connection publishes under another free name,
  it moves there and closing it releases only the second stream: the first one stays taken, and
  every other client that wants to publish it is refused.
\<close>

theorem second_publish_leaks_slot:
  assumes "cn_is_publishing c" and "current_publisher m a = Some p"
    and "b = snd (handle_publish (cn_session c) args)" and "b \<noteq> a"
    and "run_publish wr c m args = (st, c1, m1, effs)" and "cn_stream_id c1 = b" and "cn_stream_id c = a"
    and "release_publish_connection c1 m1 = (c2, m2)" and "q \<noteq> p"
  shows "current_publisher m2 a = Some p \<and> acquire_publisher m2 a q = None"
proof -
  let ?p = "''rtmp:'' @ rs_peer_addr (fst (handle_publish (cn_session c) args))"
  have m1: "current_publisher m1 a = Some p"
    using run_publish_cases [OF assms(5)]
  proof (elim disjE exE conjE)
    assume "c1 = c\<lparr>cn_session := fst (handle_publish (cn_session c) args)\<rparr>"
    with assms(4,6,7) show ?thesis by simp
  next
    fix m'
    assume a: "acquire_publisher (publish_stage m (snd (handle_publish (cn_session c) args)))
        (snd (handle_publish (cn_session c) args)) ?p = Some m'"
      and "m1 = (if st = Running
         then case set_publishing (publish_prepare m' (snd (handle_publish (cn_session c) args)))
                (snd (handle_publish (cn_session c) args)) of
              Some m'' \<Rightarrow> m'' | None \<Rightarrow> publish_prepare m' (snd (handle_publish (cn_session c) args))
         else publish_prepare m' (snd (handle_publish (cn_session c) args)))"
    then have "current_publisher m1 a = current_publisher m' a" by (simp add: set_publishing_def)
    also have "\<dots> = current_publisher (publish_stage m b) a"
      using assms(4) by (intro acquire_other [OF a [folded assms(3)]]) simp
    finally show ?thesis using assms(2) publisher_stage by simp
  qed
  have "current_publisher m2 a = current_publisher m1 a"
    using assms(4,6) by (intro release_connection_other [OF assms(8)]) simp
  with m1 have owner: "current_publisher m2 a = Some p" by simp
  have "acquire_publisher m2 a q = None"
  proof (rule ccontr)
    assume "acquire_publisher m2 a q \<noteq> None"
    then obtain m' where "acquire_publisher m2 a q = Some m'" by blast
    from mgr_slot.acquire_free [OF this] owner assms(9) show False by simp
  qed
  with owner show ?thesis by blast
qed

theorem second_publish_leaks_slot_witness:
  "\<exists>m2. current_publisher m2 ''s1'' = Some ''rtmp:10.0.0.7'' \<and> acquire_publisher m2 ''s1'' ''rtmp:b'' = None"
proof -
  let ?args = "[Number 0, ANull, AString (ascii ''s2'')]"
  obtain st c1 m1 effs where r: "run_publish True demo_publisher demo_registry ?args = (st, c1, m1, effs)"
    by (metis prod.exhaust)
  obtain c2 m2 where rel: "release_publish_connection c1 m1 = (c2, m2)" by fastforce
  have name: "snd (handle_publish (cn_session demo_publisher) ?args) = ''s2''"
    by (simp add: handle_publish_def Let_def)
  have "get_hub demo_registry ''s2'' = None"
    by (simp add: demo_registry_def acquire_publisher_def create_stream_def hub_acquire_publisher_def
      hub_with_stream_def Let_def)
  then have "acquire_publisher (publish_stage demo_registry ''s2'') ''s2'' x \<noteq> None" for x
    by (simp add: publish_stage_def get_stream_def acquire_publisher_def create_stream_def
        hub_acquire_publisher_def hub_with_stream_def Let_def)
  with run_publish_cases [OF r] have "cn_stream_id c1 = ''s2''" unfolding name by auto
  moreover have "cn_is_publishing demo_publisher" "cn_stream_id demo_publisher = ''s1''"
    by (simp_all add: demo_publisher_def)
  ultimately show ?thesis
    using second_publish_leaks_slot [OF _ demo_registry_owner name [symmetric] _ r _ _ rel, of "''rtmp:b''"] by auto
qed

text \<open>
  The handshake is only answered when C0 and C1 arrive in one read. Then the reply is S0, S1 and C1 echoed as
  S2, and the first read after C2 that also holds the next message starts the chunk stream right behind
  C2. When they arrive in two reads, no reply is ever sent: the next 1537 bytes end the handshake
  silently, and the last of them is taken for a chunk.
\<close>

theorem handshake_needs_one_read:
  assumes "length c0c1 = 1537" and "c0c1 ! 0 = 0x03" and "length c2 = 1536" and "wr 0"
  shows "(\<exists>st. loop_step wr (Read_bytes c0c1) (loop_start hls peer) m =
       (Loop, st, m, [Send ([0x03] @ replicate 1536 0 @ drop 1 c0c1)]) \<and> lp_buf st = [] \<and>
       (\<forall>rest. rest \<noteq> [] \<longrightarrow>
          handle_handshake True (lp_buf st @ c2 @ rest) (lp_first_call st) = (Running, True, rest, []))) \<and>
    (\<forall>xs ys. xs @ ys = c0c1 \<and> xs \<noteq> [] \<and> ys \<noteq> [] \<longrightarrow>
       (\<exists>st. loop_step wr (Read_bytes xs) (loop_start hls peer) m = (Loop, st, m, []) \<and>
          handle_handshake True (lp_buf st @ ys) (lp_first_call st) = (Running, True, [last c0c1], [])))"
proof (intro conjI allI impI)
  have "c0c1 \<noteq> []" using assms(1) by auto
  then show "\<exists>st. loop_step wr (Read_bytes c0c1) (loop_start hls peer) m =
       (Loop, st, m, [Send ([0x03] @ replicate 1536 0 @ drop 1 c0c1)]) \<and> lp_buf st = [] \<and>
       (\<forall>rest. rest \<noteq> [] \<longrightarrow>
          handle_handshake True (lp_buf st @ c2 @ rest) (lp_first_call st) = (Running, True, rest, []))"
    using assms(1-4)
    by (auto simp: loop_step_def loop_start_def handle_handshake_def Let_def Suc_le_eq)
next
  fix xs ys
  assume s: "xs @ ys = c0c1 \<and> xs \<noteq> [] \<and> ys \<noteq> []"
  then have len: "length (xs @ ys) = 1537" using assms(1) by simp
  moreover have "0 < length ys" using s by simp
  ultimately have short: "length xs < 1537" unfolding length_append by linarith
  have "xs @ ys = butlast (xs @ ys) @ [last (xs @ ys)]"
    using s by (intro append_butlast_last_id [symmetric]) auto
  moreover have "length (butlast (xs @ ys)) = 1536" using len by simp
  ultimately have "drop 1536 (xs @ ys) = [last (xs @ ys)]"
    by (metis append_eq_conv_conj)
  with s short len show "\<exists>st. loop_step wr (Read_bytes xs) (loop_start hls peer) m = (Loop, st, m, []) \<and>
          handle_handshake True (lp_buf st @ ys) (lp_first_call st) = (Running, True, [last c0c1], [])"
    by (auto simp: loop_step_def loop_start_def handle_handshake_def Let_def)
qed

theorem handshake_needs_one_read_witness:
  "\<exists>st. loop_step (\<lambda>_. True) (Read_bytes (3 # replicate 1000 7)) (loop_start False ''peer'') manager_new =
     (Loop, st, manager_new, []) \<and>
   handle_handshake True (lp_buf st @ replicate 536 7) (lp_first_call st) = (Running, True, [7], [])"
proof -
  let ?all = "3 # replicate 1536 (7 :: byte)"
  have all: "length ?all = 1537" "?all ! 0 = 0x03" "last ?all = 7" by simp_all
  have "(3 # replicate 1000 7) @ replicate 536 (7 :: byte) = ?all"
    by (simp add: replicate_add [symmetric])
  moreover have "replicate 536 (7 :: byte) \<noteq> []" by simp
  ultimately show ?thesis
    using handshake_needs_one_read [OF all(1,2), of "replicate 1536 0" "\<lambda>_. True" False "''peer''" manager_new,
        THEN conjunct2, rule_format, of "3 # replicate 1000 7" "replicate 536 7"] all(3)
    by simp
qed

end
