(* ===== verification/Rtsp_Messages.thy ===== *)
theory Rtsp_Messages
  imports Text_Lines "HOL-Library.AList"
begin

text \<open>
  \<open>src/src/server/rtsp/messages.rs\<close>: RTSP requests and responses and their text. A \<open>HashMap\<close> of
  headers is an association list; its order stands for the order in which the map happens to be
  iterated, so what is shown for every list holds for every order.
\<close>

type_synonym headers = "(string \<times> string) list"

section \<open>Requests\<close>

record rtsp_request =
  rq_method :: string
  rq_url :: string
  rq_version :: string
  rq_headers :: headers
  rq_body :: "string option"

definition request_new :: "string \<Rightarrow> string \<Rightarrow> rtsp_request" where
  "request_new method url =
     \<lparr>rq_method = method, rq_url = url, rq_version = ''RTSP/1.0'', rq_headers = [], rq_body = None\<rparr>"

definition request_header :: "rtsp_request \<Rightarrow> string \<Rightarrow> string \<Rightarrow> rtsp_request" where
  "request_header r key v = r\<lparr>rq_headers := AList.update key v (rq_headers r)\<rparr>"

definition request_body :: "rtsp_request \<Rightarrow> string \<Rightarrow> rtsp_request" where
  "request_body r b = r\<lparr>rq_body := Some b\<rparr>"

definition header_line :: "string \<times> string \<Rightarrow> string" where
  "header_line h = (case h of (k, v) \<Rightarrow> k @ '': '' @ v)"

definition body_lines :: "string option \<Rightarrow> string list" where
  "body_lines b = (case b of None \<Rightarrow> [] | Some s \<Rightarrow> [''Content-Length: '' @ dec_str (length s)])"

definition body_text :: "string option \<Rightarrow> string" where
  "body_text b = (case b of None \<Rightarrow> [] | Some s \<Rightarrow> s)"

definition request_to_string :: "rtsp_request \<Rightarrow> string" where
  "request_to_string r =
     unlines_crlf ((rq_method r @ '' '' @ rq_url r @ '' '' @ rq_version r) #
       List.map header_line (rq_headers r) @ body_lines (rq_body r)) @
     crlf @ body_text (rq_body r)"

text \<open>The header lines up to the first empty one; the content length is that of the last such header.\<close>

fun parse_headers :: "string list \<Rightarrow> headers \<Rightarrow> nat \<Rightarrow> headers \<times> nat" where
  "parse_headers [] hs n = (hs, n)"
| "parse_headers (l # ls) hs n =
     (if l = [] then (hs, n)
      else case split_once (CHR '':'') l of
        None \<Rightarrow> parse_headers ls hs n
      | Some (k, v) \<Rightarrow>
          let key = trim k; val = trim v;
              n' = (if eq_ignore_ascii_case key ''Content-Length''
                    then (case parse_dec u64_max val of Some m \<Rightarrow> m | None \<Rightarrow> 0) else n)
          in parse_headers ls (AList.update key val hs) n')"

definition parse_body :: "string \<Rightarrow> nat \<Rightarrow> string option" where
  "parse_body input content_length =
     (let body_start = (case find_str (crlf @ crlf) input of Some p \<Rightarrow> p + 4 | None \<Rightarrow> length input)
      in if content_length > 0 \<and> body_start + content_length \<le> length input
         then Some (take content_length (drop body_start input))
         else if body_start < length input then Some (drop body_start input) else None)"

definition parse_request :: "string \<Rightarrow> rtsp_request option" where
  "parse_request input =
     (case text_lines input of
        [] \<Rightarrow> None
      | first_line # lines \<Rightarrow>
          let parts = split_whitespace first_line
          in if length parts < 3 then None
             else let (hs, n) = parse_headers lines [] 0
               in Some \<lparr>rq_method = parts ! 0, rq_url = parts ! 1, rq_version = parts ! 2, rq_headers = hs,
                        rq_body = parse_body input n\<rparr>)"

definition get_header :: "headers \<Rightarrow> string \<Rightarrow> string option" where
  "get_header hs key = map_of hs key"

definition message_cseq :: "headers \<Rightarrow> string" where
  "message_cseq hs = (case get_header hs ''CSeq'' of Some v \<Rightarrow> v | None \<Rightarrow> ''0'')"

section \<open>Responses\<close>

record rtsp_response =
  rs_status_code :: nat
  rs_reason_phrase :: string
  rs_version :: string
  rs_headers :: headers
  rs_body :: "string option"

definition response_new :: "nat \<Rightarrow> string \<Rightarrow> rtsp_response" where
  "response_new status reason =
     \<lparr>rs_status_code = status, rs_reason_phrase = reason, rs_version = ''RTSP/1.0'', rs_headers = [], rs_body = None\<rparr>"

definition response_header :: "rtsp_response \<Rightarrow> string \<Rightarrow> string \<Rightarrow> rtsp_response" where
  "response_header r key v = r\<lparr>rs_headers := AList.update key v (rs_headers r)\<rparr>"

definition response_body :: "rtsp_response \<Rightarrow> string \<Rightarrow> rtsp_response" where
  "response_body r b = r\<lparr>rs_body := Some b\<rparr>"

definition with_cseq :: "rtsp_response \<Rightarrow> string \<Rightarrow> rtsp_response" where
  "with_cseq r cseq = response_header r ''CSeq'' cseq"

definition not_content_length :: "string \<times> string \<Rightarrow> bool" where
  "not_content_length h \<longleftrightarrow> \<not> eq_ignore_ascii_case (fst h) ''Content-Length''"

definition response_to_string :: "rtsp_response \<Rightarrow> string" where
  "response_to_string r =
     unlines_crlf ((rs_version r @ '' '' @ dec_str (rs_status_code r) @ '' '' @ rs_reason_phrase r) #
       List.map header_line (filter not_content_length (rs_headers r)) @ body_lines (rs_body r)) @
     crlf @ body_text (rs_body r)"

definition u32_max :: nat where
  "u32_max = 4294967295"

definition parse_response :: "string \<Rightarrow> rtsp_response option" where
  "parse_response input =
     (case text_lines input of
        [] \<Rightarrow> None
      | first_line # lines \<Rightarrow>
          let parts = split_whitespace first_line
          in if length parts < 3 then None
             else case parse_dec u32_max (parts ! 1) of
               None \<Rightarrow> None
             | Some code \<Rightarrow>
                 let (hs, n) = parse_headers lines [] 0
                 in Some \<lparr>rs_status_code = code, rs_reason_phrase = join_with '' '' (drop 2 parts),
                          rs_version = parts ! 0, rs_headers = hs, rs_body = parse_body input n\<rparr>)"

section \<open>Headers that survive\<close>

text \<open>A key without a colon and a value, both on one line and without outer white space.\<close>

definition plain_header :: "string \<times> string \<Rightarrow> bool" where
  "plain_header h \<longleftrightarrow>
     trimmed (fst h) \<and> trimmed (snd h) \<and> fst h \<noteq> [] \<and> CHR '':'' \<notin> set (fst h) \<and>
     CHR 0x0A \<notin> set (fst h) \<and> CHR 0x0A \<notin> set (snd h)"

text \<open>What the headers of a message of \<open>n\<close> bytes of body read as.\<close>

definition read_headers :: "headers \<Rightarrow> string option \<Rightarrow> headers" where
  "read_headers hs b =
     (case b of None \<Rightarrow> hs | Some s \<Rightarrow> AList.update ''Content-Length'' (dec_str (length s)) hs)"

lemma header_line_parts:
  assumes "plain_header (k, v)"
  shows "header_line (k, v) \<noteq> []" "split_once (CHR '':'') (header_line (k, v)) = Some (k, CHR 0x20 # v)"
    "trim k = k" "trim (CHR 0x20 # v) = v"
  using assms split_once_at [of "CHR '':''" k "CHR 0x20 # v"]
  by (simp_all add: plain_header_def header_line_def trim_trimmed trim_space)

lemma distinct_update_fold:
  assumes "distinct (List.map fst (acc @ hs))"
  shows "foldl (\<lambda>a (k, v). AList.update k v a) acc hs = acc @ hs"
  using assms
proof (induction hs arbitrary: acc)
  case (Cons h hs)
  obtain k v where h: "h = (k, v)" by (cases h)
  have "k \<notin> fst ` set acc" using Cons.prems h by (auto simp: image_iff)
  then have "AList.update k v acc = acc @ [(k, v)]"
    by (induction acc) auto
  with Cons h show ?case by simp
qed simp

lemma parse_headers_plain:
  assumes "\<forall>h\<in>set hs. plain_header h" and "\<forall>h\<in>set hs. not_content_length h"
  shows "parse_headers (List.map header_line hs @ rest) acc n =
     parse_headers rest (foldl (\<lambda>a (k, v). AList.update k v a) acc hs) n"
  using assms
proof (induction hs arbitrary: acc)
  case (Cons h hs)
  obtain k v where h: "h = (k, v)" by (cases h)
  have plain: "plain_header (k, v)" using Cons.prems h by simp
  note parts = header_line_parts [OF plain]
  have "\<not> eq_ignore_ascii_case k ''Content-Length''" using Cons.prems(2) h by (simp add: not_content_length_def)
  with Cons parts h show ?case by (simp add: Let_def)
qed simp

lemma trimmed_dec_str: "trimmed (dec_str n)"
proof -
  have c: "\<not> is_space c" if "c \<in> set (dec_str n)" for c
    using that dec_str_digits [of n] by (auto simp: list_all_iff is_digit_def is_space_def)
  show ?thesis unfolding trimmed_def using c [OF hd_in_set] c [OF last_in_set] by simp
qed

lemma dec_str_one_line [simp]: "CHR 0x0A \<notin> set (dec_str n)"
  using dec_str_digits [of n] by (auto simp: list_all_iff is_digit_def)

lemma content_length_plain: "plain_header (''Content-Length'', dec_str n)"
proof -
  have "trimmed ''Content-Length''" by (simp add: trimmed_def is_space_def)
  then show ?thesis by (simp add: plain_header_def trimmed_dec_str)
qed

lemma parse_headers_body:
  assumes "case b of None \<Rightarrow> True | Some s \<Rightarrow> length s \<le> u64_max"
  shows "parse_headers (body_lines b @ [] # rest) hs 0 =
     (read_headers hs b, case b of None \<Rightarrow> 0 | Some s \<Rightarrow> length s)"
proof (cases b)
  case None
  then show ?thesis by (simp add: body_lines_def read_headers_def)
next
  case (Some s)
  note parts = header_line_parts [OF content_length_plain [of "length s"]]
  have "header_line (''Content-Length'', dec_str (length s)) = ''Content-Length: '' @ dec_str (length s)"
    by (simp add: header_line_def)
  then obtain l where l: "l = header_line (''Content-Length'', dec_str (length s))"
    "body_lines b = [l]" using Some by (simp add: body_lines_def)
  show ?thesis using Some assms parts unfolding l(2)
    by (simp add: read_headers_def Let_def eq_ignore_ascii_case_def l(1) [symmetric])
qed

section \<open>The body\<close>

lemma find_str_start: "prefix p s \<Longrightarrow> find_str p s = Some 0"
  by (cases s) auto

lemma no_blank_line_inside:
  assumes "CHR 0x0A \<notin> set l"
  shows "\<not> prefix (crlf @ crlf) (x # l @ crlf @ s)"
  using assms by (cases l) (auto simp: crlf_def)

lemma find_skip_line:
  assumes "CHR 0x0A \<notin> set l"
  shows "find_str (crlf @ crlf) (l @ crlf @ s) = map_option (\<lambda>i. i + length l) (find_str (crlf @ crlf) (crlf @ s))"
  using assms
proof (induction l)
  case Nil
  then show ?case by (simp add: option.map_ident)
next
  case (Cons x l)
  then show ?case using no_blank_line_inside [of l x s] by (simp add: option.map_comp o_def)
qed

text \<open>The first blank line of a message is the one after its last header.\<close>

lemma find_after_line:
  assumes "CHR 0x0A \<notin> set l" and "\<not> prefix crlf s"
  shows "find_str (crlf @ crlf) (l @ crlf @ s) = map_option (\<lambda>i. i + length l + 2) (find_str (crlf @ crlf) s)"
proof -
  have "find_str (crlf @ crlf) (crlf @ s) = map_option (\<lambda>i. i + 2) (find_str (crlf @ crlf) s)"
    using assms(2) by (simp add: crlf_def option.map_comp o_def)
  then show ?thesis unfolding find_skip_line [OF assms(1)] by (simp add: option.map_comp o_def add.commute add.left_commute)
qed

lemma find_blank_line:
  assumes "\<forall>l\<in>set ls. l \<noteq> [] \<and> CHR 0x0A \<notin> set l" and "ls \<noteq> []"
  shows "find_str (crlf @ crlf) (unlines_crlf ls @ crlf @ body) = Some (length (unlines_crlf ls) - 2)"
  using assms
proof (induction ls)
  case (Cons l ls)
  show ?case
  proof (cases "ls = []")
    case True
    have "find_str (crlf @ crlf) (l @ crlf @ crlf @ body) = Some (length l)"
      using Cons.prems(1) find_str_start [of "crlf @ crlf" "crlf @ crlf @ body"] by (simp add: find_skip_line)
    with True show ?thesis by (simp add: unlines_crlf_def) (simp add: crlf_def)
  next
    case False
    let ?s = "unlines_crlf ls @ crlf @ body"
    have l: "CHR 0x0A \<notin> set l" and ls: "\<forall>l\<in>set ls. l \<noteq> [] \<and> CHR 0x0A \<notin> set l" using Cons.prems by auto
    obtain m ms where m: "ls = m # ms" using False by (cases ls) auto
    then obtain c cs where c: "m = c # cs" "c \<noteq> CHR 0x0A" "CHR 0x0A \<notin> set cs" using ls by (cases m) auto
    have "\<not> prefix crlf ?s" using c by (cases cs) (auto simp: m unlines_crlf_def crlf_def)
    from find_after_line [OF l this] Cons.IH [OF ls False]
    have "find_str (crlf @ crlf) (l @ crlf @ ?s) = Some (length (unlines_crlf ls) - 2 + length l + 2)" by simp
    moreover have "2 \<le> length (unlines_crlf ls)" by (simp add: m unlines_crlf_def crlf_def)
    ultimately show ?thesis by (simp add: unlines_crlf_def) (simp add: crlf_def)
  qed
qed simp

lemma parse_body_message:
  assumes "\<forall>l\<in>set ls. l \<noteq> [] \<and> CHR 0x0A \<notin> set l" and "ls \<noteq> []"
    and "n = (case b of None \<Rightarrow> 0 | Some s \<Rightarrow> length s)"
  shows "parse_body (unlines_crlf ls @ crlf @ body_text b) n = (if b = Some [] then None else b)"
proof -
  have "2 \<le> length (unlines_crlf ls)" using assms(2) by (cases ls) (simp_all add: unlines_crlf_def crlf_def)
  then have "length (unlines_crlf ls) - 2 + 4 = length (unlines_crlf ls @ crlf)" by (simp add: crlf_def)
  with find_blank_line [OF assms(1,2), of "body_text b"] assms(3) show ?thesis
    by (cases b) (auto simp: parse_body_def Let_def body_text_def)
qed

section \<open>Round trips\<close>

lemma header_line_one_line:
  assumes "plain_header h"
  shows "header_line h \<noteq> []" "CHR 0x0A \<notin> set (header_line h)"
  using assms by (cases h, simp add: plain_header_def header_line_def)+

lemma parse_message:
  assumes "CHR 0x0A \<notin> set first" and "first \<noteq> []" and "distinct (List.map fst hs)"
    and "\<forall>h\<in>set hs. plain_header h \<and> not_content_length h"
    and "case b of None \<Rightarrow> True | Some s \<Rightarrow> length s \<le> u64_max"
  defines "msg \<equiv> unlines_crlf (first # List.map header_line hs @ body_lines b) @ crlf @ body_text b"
  shows "\<exists>rest. text_lines msg = first # rest \<and>
     parse_headers rest [] 0 = (read_headers hs b, case b of None \<Rightarrow> 0 | Some s \<Rightarrow> length s) \<and>
     parse_body msg (case b of None \<Rightarrow> 0 | Some s \<Rightarrow> length s) = (if b = Some [] then None else b)"
proof -
  let ?ls = "first # List.map header_line hs @ body_lines b"
  have "\<forall>l\<in>set (body_lines b). l \<noteq> [] \<and> CHR 0x0A \<notin> set l" by (auto simp: body_lines_def split: option.splits)
  then have ls: "\<forall>l\<in>set ?ls. l \<noteq> [] \<and> CHR 0x0A \<notin> set l"
    using assms(1,2,4) header_line_one_line by auto
  then have "text_lines msg = ?ls @ text_lines (crlf @ body_text b)"
    unfolding msg_def by (intro text_lines_unlines_append) blast
  also have "text_lines (crlf @ body_text b) = [] # text_lines (body_text b)"
    using text_lines_crlf [of "[]"] by simp
  finally have lines: "text_lines msg = first # List.map header_line hs @ body_lines b @ [] # text_lines (body_text b)"
    by simp
  have "parse_headers (List.map header_line hs @ body_lines b @ [] # text_lines (body_text b)) [] 0 =
      (read_headers hs b, case b of None \<Rightarrow> 0 | Some s \<Rightarrow> length s)"
    using assms(3,4) parse_headers_plain [of hs] distinct_update_fold [of "[]" hs] parse_headers_body [OF assms(5)]
    by simp
  moreover have "parse_body msg (case b of None \<Rightarrow> 0 | Some s \<Rightarrow> length s) = (if b = Some [] then None else b)"
    unfolding msg_def by (rule parse_body_message [OF ls]) simp_all
  ultimately show ?thesis using lines by blast
qed

text \<open>Text of words with single spaces.\<close>

definition spaced :: "string \<Rightarrow> string list \<Rightarrow> bool" where
  "spaced s ws \<longleftrightarrow> ws \<noteq> [] \<and> (\<forall>w\<in>set ws. is_word w) \<and> s = join_with '' '' ws"

lemma is_word_dec_str: "is_word (dec_str n)"
  using dec_str_digits [of n] by (auto simp: is_word_def list_all_iff is_digit_def is_space_def)

lemma is_word_one_line: "is_word w \<Longrightarrow> CHR 0x0A \<notin> set w"
proof -
  have "is_space (CHR 0x0A)" by (simp add: is_space_def)
  then show "is_word w \<Longrightarrow> CHR 0x0A \<notin> set w" by (auto simp: is_word_def list_all_iff)
qed

lemma join_one_line: "\<forall>w\<in>set ws. is_word w \<Longrightarrow> CHR 0x0A \<notin> set (join_with '' '' ws)"
proof (induction ws)
  case (Cons w ws)
  then have "CHR 0x0A \<notin> set w" "CHR 0x0A \<notin> set (join_with '' '' ws)" by (simp_all add: is_word_one_line)
  then show ?case by (cases ws) simp_all
qed simp

lemma join_Cons: "ws \<noteq> [] \<Longrightarrow> join_with '' '' (w # ws) = w @ '' '' @ join_with '' '' ws"
  by (cases ws) simp_all

definition response_ok :: "rtsp_response \<Rightarrow> bool" where
  "response_ok r \<longleftrightarrow>
     is_word (rs_version r) \<and> rs_status_code r \<le> u32_max \<and> (\<exists>ws. spaced (rs_reason_phrase r) ws) \<and>
     distinct (List.map fst (rs_headers r)) \<and> (\<forall>h\<in>set (rs_headers r). plain_header h) \<and>
     (case rs_body r of None \<Rightarrow> True | Some s \<Rightarrow> length s \<le> u64_max)"

definition request_ok :: "rtsp_request \<Rightarrow> bool" where
  "request_ok r \<longleftrightarrow>
     is_word (rq_method r) \<and> is_word (rq_url r) \<and> is_word (rq_version r) \<and>
     distinct (List.map fst (rq_headers r)) \<and> (\<forall>h\<in>set (rq_headers r). plain_header h \<and> not_content_length h) \<and>
     (case rq_body r of None \<Rightarrow> True | Some s \<Rightarrow> length s \<le> u64_max)"

lemma response_reads_back:
  assumes "response_ok r"
  shows "parse_response (response_to_string r) =
     Some (r\<lparr>rs_headers := read_headers (filter not_content_length (rs_headers r)) (rs_body r),
            rs_body := if rs_body r = Some [] then None else rs_body r\<rparr>)"
proof -
  obtain ws where ws: "ws \<noteq> []" "\<forall>w\<in>set ws. is_word w" "rs_reason_phrase r = join_with '' '' ws"
    using assms by (auto simp: response_ok_def spaced_def)
  define first where "first = join_with '' '' (rs_version r # dec_str (rs_status_code r) # ws)"
  have parts: "\<forall>w\<in>set (rs_version r # dec_str (rs_status_code r) # ws). is_word w"
    using assms ws(2) is_word_dec_str by (simp add: response_ok_def)
  have first: "rs_version r @ '' '' @ dec_str (rs_status_code r) @ '' '' @ rs_reason_phrase r = first"
    using ws(1) by (simp add: first_def join_Cons ws(3))
  have "CHR 0x0A \<notin> set first" using join_one_line [OF parts] by (simp add: first_def)
  moreover have "first \<noteq> []" unfolding first [symmetric] by simp
  moreover have "distinct (List.map fst (filter not_content_length (rs_headers r)))"
    using assms by (simp add: response_ok_def distinct_map_filter)
  moreover have "\<forall>h\<in>set (filter not_content_length (rs_headers r)). plain_header h \<and> not_content_length h"
    using assms by (simp add: response_ok_def)
  moreover have "case rs_body r of None \<Rightarrow> True | Some s \<Rightarrow> length s \<le> u64_max" using assms by (simp add: response_ok_def)
  ultimately obtain rest where rest: "text_lines (response_to_string r) = first # rest"
    "parse_headers rest [] 0 = (read_headers (filter not_content_length (rs_headers r)) (rs_body r),
       case rs_body r of None \<Rightarrow> 0 | Some s \<Rightarrow> length s)"
    "parse_body (response_to_string r) (case rs_body r of None \<Rightarrow> 0 | Some s \<Rightarrow> length s) =
       (if rs_body r = Some [] then None else rs_body r)"
    unfolding response_to_string_def first using parse_message by blast
  have "split_whitespace first = rs_version r # dec_str (rs_status_code r) # ws"
    unfolding first_def by (rule split_words [OF parts])
  moreover have "parse_dec u32_max (dec_str (rs_status_code r)) = Some (rs_status_code r)"
    using assms by (simp add: response_ok_def)
  ultimately show ?thesis
    unfolding parse_response_def rest(1) using ws(1,3) rest(2,3) by (cases ws) (simp_all add: Let_def)
qed

text \<open>Every RTSP response the server builds is read back as it was: version, status, reason, headers
  and body, the \<open>Content-Length\<close> header being the one that was written for the body; so passing a
  built response through \<open>parse\<close> and \<open>to_string\<close> again, as \<open>process_request\<close> does, sends the
  same response.\<close>

theorem rtsp_response_roundtrip:
  assumes "response_ok r"
  shows "\<exists>r'. parse_response (response_to_string r) = Some r' \<and>
     rs_version r' = rs_version r \<and> rs_status_code r' = rs_status_code r \<and> rs_reason_phrase r' = rs_reason_phrase r \<and>
     (\<forall>k. \<not> eq_ignore_ascii_case k ''Content-Length'' \<longrightarrow> get_header (rs_headers r') k = get_header (rs_headers r) k) \<and>
     rs_body r' = (if rs_body r = Some [] then None else rs_body r) \<and>
     (rs_body r \<noteq> Some [] \<longrightarrow> response_to_string r' = response_to_string r)"
proof -
  let ?hs = "filter not_content_length (rs_headers r)"
  let ?r = "r\<lparr>rs_headers := read_headers ?hs (rs_body r), rs_body := if rs_body r = Some [] then None else rs_body r\<rparr>"
  have cl: "\<not> not_content_length (''Content-Length'', v)" for v
    by (simp add: not_content_length_def eq_ignore_ascii_case_def)
  have filt: "filter not_content_length (AList.update ''Content-Length'' v hs) = filter not_content_length hs" for v hs
    by (induction hs) (auto simp: not_content_length_def eq_ignore_ascii_case_def)
  have m1: "map_of (filter not_content_length hs) k = map_of hs k" if "\<not> eq_ignore_ascii_case k ''Content-Length''" for hs k
    using that by (induction hs) (auto simp: not_content_length_def)
  have m2: "map_of (AList.update ''Content-Length'' v hs) k = map_of hs k"
    if "\<not> eq_ignore_ascii_case k ''Content-Length''" for v hs k
    using that by (auto simp: update_conv' eq_ignore_ascii_case_def)
  have "\<not> eq_ignore_ascii_case k ''Content-Length'' \<Longrightarrow>
      get_header (read_headers ?hs (rs_body r)) k = get_header (rs_headers r) k" for k
    by (cases "rs_body r") (simp_all add: get_header_def read_headers_def m1 m2)
  moreover have "rs_body r \<noteq> Some [] \<Longrightarrow> response_to_string ?r = response_to_string r"
    by (simp add: response_to_string_def read_headers_def filt split: option.splits)
  ultimately show ?thesis using response_reads_back [OF assms] by (intro exI [of _ ?r]) simp
qed

definition demo_response :: rtsp_response where
  "demo_response =
     response_body (response_header (response_header (response_new 200 ''OK'') ''CSeq'' ''3'') ''Content-Type'' ''application/sdp'')
       ''v=0''"

lemma demo_response_ok: "response_ok demo_response"
  unfolding response_ok_def demo_response_def
  by (intro conjI exI [of _ "[''OK'']"])
    (simp_all add: response_body_def response_header_def response_new_def is_word_def is_space_def u32_max_def u64_max_def
      spaced_def plain_header_def trimmed_def)

theorem rtsp_response_roundtrip_witness:
  "\<exists>r'. parse_response (response_to_string demo_response) = Some r' \<and> rs_status_code r' = 200 \<and>
     get_header (rs_headers r') ''CSeq'' = Some ''3'' \<and> rs_body r' = Some ''v=0''"
proof -
  from rtsp_response_roundtrip [OF demo_response_ok] obtain r' where
    r: "parse_response (response_to_string demo_response) = Some r'" "rs_status_code r' = rs_status_code demo_response"
      "\<forall>k. \<not> eq_ignore_ascii_case k ''Content-Length'' \<longrightarrow> get_header (rs_headers r') k = get_header (rs_headers demo_response) k"
      "rs_body r' = (if rs_body demo_response = Some [] then None else rs_body demo_response)"
    by blast
  have "\<not> eq_ignore_ascii_case ''CSeq'' ''Content-Length''" by code_simp
  with r show ?thesis
    by (intro exI [of _ r'])
      (simp add: demo_response_def response_body_def response_header_def response_new_def get_header_def)
qed

text \<open>A request that a client session builds is read back as it was by the server.\<close>

theorem rtsp_request_roundtrip:
  assumes "request_ok r"
  shows "parse_request (request_to_string r) =
     Some (r\<lparr>rq_headers := read_headers (rq_headers r) (rq_body r),
            rq_body := if rq_body r = Some [] then None else rq_body r\<rparr>)"
proof -
  define first where "first = join_with '' '' [rq_method r, rq_url r, rq_version r]"
  have parts: "\<forall>w\<in>set [rq_method r, rq_url r, rq_version r]. is_word w" using assms by (simp add: request_ok_def)
  have first: "rq_method r @ '' '' @ rq_url r @ '' '' @ rq_version r = first" by (simp add: first_def)
  have "CHR 0x0A \<notin> set first" using join_one_line [OF parts] by (simp add: first_def)
  moreover have "first \<noteq> []" unfolding first [symmetric] by simp
  moreover have "distinct (List.map fst (rq_headers r))" "\<forall>h\<in>set (rq_headers r). plain_header h \<and> not_content_length h"
    "case rq_body r of None \<Rightarrow> True | Some s \<Rightarrow> length s \<le> u64_max"
    using assms by (simp_all add: request_ok_def)
  ultimately obtain rest where rest: "text_lines (request_to_string r) = first # rest"
    "parse_headers rest [] 0 = (read_headers (rq_headers r) (rq_body r), case rq_body r of None \<Rightarrow> 0 | Some s \<Rightarrow> length s)"
    "parse_body (request_to_string r) (case rq_body r of None \<Rightarrow> 0 | Some s \<Rightarrow> length s) =
       (if rq_body r = Some [] then None else rq_body r)"
    unfolding request_to_string_def first using parse_message by blast
  have "split_whitespace first = [rq_method r, rq_url r, rq_version r]"
    unfolding first_def by (rule split_words [OF parts])
  then show ?thesis unfolding parse_request_def rest(1) using rest(2,3) by (simp add: Let_def)
qed

theorem rtsp_request_roundtrip_witness:
  "parse_request (request_to_string (request_header (request_new ''OPTIONS'' ''rtsp://h/live'') ''CSeq'' ''1'')) =
     Some \<lparr>rq_method = ''OPTIONS'', rq_url = ''rtsp://h/live'', rq_version = ''RTSP/1.0'',
           rq_headers = [(''CSeq'', ''1'')], rq_body = None\<rparr>"
proof -
  have "request_ok (request_header (request_new ''OPTIONS'' ''rtsp://h/live'') ''CSeq'' ''1'')"
    by (simp add: request_ok_def request_header_def request_new_def is_word_def is_space_def plain_header_def trimmed_def
        not_content_length_def eq_ignore_ascii_case_def)
  from rtsp_request_roundtrip [OF this] show ?thesis
    by (simp add: request_header_def request_new_def read_headers_def)
qed

end
