(* ===== verification/Sdp.thy ===== *)
theory Sdp
  imports H264_Util Stream_Hub Rtsp_Messages
begin

text \<open>
  The session descriptions of \<open>src/src/server/rtsp/common.rs\<close>, \<open>src/src/server/rtsp/mod.rs\<close> and
  \<open>src/src/server/webrtc/sdp_h264.rs\<close>: tracks and H.264 parameter sets to text and back. The \<open>base64\<close>
  crate is the arguments \<open>enc\<close> and \<open>dec\<close>; what the lemmas rely on is \<open>base64_like\<close>.
\<close>

section \<open>Reading tracks\<close>

definition codec_of_name :: "string \<Rightarrow> codec_type" where
  "codec_of_name n =
     (if n = ''h264'' then H264
      else if n = ''h265'' then H265
      else if n = ''mpeg4-generic'' \<or> n = ''aac'' then AAC
      else if n = ''opus'' then Opus
      else if n = ''pcmu'' then G711
      else H264)"

definition parse_or :: "nat \<Rightarrow> nat \<Rightarrow> string \<Rightarrow> nat" where
  "parse_or m d s = (case parse_dec m s of Some n \<Rightarrow> n | None \<Rightarrow> d)"

text \<open>An \<open>a=rtpmap\<close> line: codec and clock rate, or the ones before when it has too few parts.\<close>

definition read_rtpmap :: "string \<Rightarrow> codec_type \<times> nat \<Rightarrow> codec_type \<times> nat" where
  "read_rtpmap l cr =
     (let parts = split_whitespace l
      in if length parts \<ge> 2 then
           let codec_parts = split_char (CHR ''/'') (parts ! 1)
           in if length codec_parts \<ge> 2
              then (codec_of_name (to_lowercase (codec_parts ! 0)), parse_or u32_max 90000 (codec_parts ! 1))
              else cr
         else cr)"

text \<open>The lines of one medium, up to the next one; what is left of the lines.\<close>

fun media_block :: "string list \<Rightarrow> codec_type \<times> nat \<Rightarrow> (codec_type \<times> nat) \<times> string list" where
  "media_block [] cr = (cr, [])"
| "media_block (l # ls) cr =
     (if prefix ''a=rtpmap:'' l then media_block ls (read_rtpmap l cr)
      else if prefix ''m='' l \<or> prefix ''s='' l then (cr, l # ls)
      else media_block ls cr)"

lemma media_block_shorter: "length (snd (media_block ls cr)) \<le> length ls"
  by (induction ls cr rule: media_block.induct) auto

definition make_track :: "nat \<Rightarrow> nat \<Rightarrow> codec_type \<times> nat \<Rightarrow> track" where
  "make_track i pt cr = track_new (word_of_nat i) (fst cr) pt (snd cr)"

function parse_tracks :: "string list \<Rightarrow> track list \<Rightarrow> track list" where
  "parse_tracks [] ts = ts"
| "parse_tracks (l # ls) ts =
     (let parts = split_whitespace l
      in if prefix ''m='' l \<and> length parts \<ge> 4 then
           (case media_block ls (H264, 90000) of
              (cr, rest) \<Rightarrow> parse_tracks rest (ts @ [make_track (length ts) (parse_or 255 96 (parts ! 3)) cr]))
         else parse_tracks ls ts)"
  by pat_completeness auto
termination
proof (relation "measure (\<lambda>(ls, ts). length ls)", goal_cases)
  case (2 l ls ts parts cr rest)
  then have "rest = snd (media_block ls (H264, 90000))" by (metis snd_conv)
  then show ?case using media_block_shorter [of ls "(H264, 90000)"] by simp
qed auto

definition parse_sdp_tracks :: "string \<Rightarrow> track list" where
  "parse_sdp_tracks sdp = parse_tracks (text_lines sdp) []"

text \<open>The parser in \<open>mod.rs\<close> only looks at the \<open>m=\<close> lines.\<close>

fun media_lines_tracks :: "string list \<Rightarrow> nat \<Rightarrow> track list" where
  "media_lines_tracks [] n = []"
| "media_lines_tracks (l # ls) n =
     (let parts = split_whitespace l
      in if prefix ''m='' l \<and> length parts \<ge> 4 then
           let media_type = (case strip_prefix ''m='' (parts ! 0) of Some t \<Rightarrow> t | None \<Rightarrow> ''video'');
               codec = (if media_type = ''video'' then H264 else if media_type = ''audio'' then AAC else H264);
               rate = (if media_type = ''video'' then 90000 else 44100)
           in track_new (word_of_nat n) codec (parse_or 255 96 (parts ! 3)) rate # media_lines_tracks ls (n + 1)
         else media_lines_tracks ls n)"

definition server_parse_sdp_tracks :: "string \<Rightarrow> track list" where
  "server_parse_sdp_tracks sdp = media_lines_tracks (text_lines sdp) 0"

section \<open>Reading parameter sets\<close>

type_synonym config = "bytes option \<times> bytes option"

definition read_parameter_set :: "(string \<Rightarrow> bytes option) \<Rightarrow> string \<Rightarrow> config \<Rightarrow> config" where
  "read_parameter_set dec param c =
     (case c of (sps, pps) \<Rightarrow>
        if param = [] then c
        else (case dec param of
          None \<Rightarrow> c
        | Some decoded \<Rightarrow>
            if length decoded \<ge> 2 then
              let nal_type = decoded ! 0 AND 0x1F
              in if nal_type = 7 \<and> sps = None then (Some decoded, pps)
                 else if nal_type = 8 \<and> pps = None then (sps, Some decoded)
                 else c
            else c))"

text \<open>An \<open>a=fmtp\<close> line: only a word that begins with the parameter's name is looked at.\<close>

definition read_fmtp :: "(string \<Rightarrow> bytes option) \<Rightarrow> string \<Rightarrow> config \<Rightarrow> config" where
  "read_fmtp dec l c =
     foldl (\<lambda>c part.
        case strip_prefix ''sprop-parameter-sets='' part of
          None \<Rightarrow> c
        | Some params \<Rightarrow>
            foldl (\<lambda>c p. read_parameter_set dec p c) c (split_char (CHR '','') (trim_end_char (CHR '';'') params)))
       c (split_whitespace l)"

fun media_block_config ::
    "(string \<Rightarrow> bytes option) \<Rightarrow> string list \<Rightarrow> codec_type \<times> nat \<Rightarrow> config \<Rightarrow> (codec_type \<times> nat) \<times> config \<times> string list" where
  "media_block_config dec [] cr c = (cr, c, [])"
| "media_block_config dec (l # ls) cr c =
     (if prefix ''a=rtpmap:'' l then media_block_config dec ls (read_rtpmap l cr) c
      else if prefix ''a=fmtp:'' l \<and> fst c = None then media_block_config dec ls cr (read_fmtp dec l c)
      else if prefix ''m='' l \<or> prefix ''s='' l then (cr, c, l # ls)
      else media_block_config dec ls cr c)"

lemma media_block_config_shorter: "length (snd (snd (media_block_config dec ls cr c))) \<le> length ls"
  by (induction dec ls cr c rule: media_block_config.induct) auto

function parse_tracks_config ::
    "(string \<Rightarrow> bytes option) \<Rightarrow> string list \<Rightarrow> track list \<Rightarrow> config \<Rightarrow> track list \<times> config" where
  "parse_tracks_config dec [] ts c = (ts, c)"
| "parse_tracks_config dec (l # ls) ts c =
     (if prefix ''a=fmtp:'' l then parse_tracks_config dec ls ts (read_fmtp dec l c)
      else
        let parts = split_whitespace l
        in if prefix ''m='' l \<and> length parts \<ge> 4 then
             (case media_block_config dec ls (H264, 90000) c of
                (cr, c', rest) \<Rightarrow>
                  parse_tracks_config dec rest (ts @ [make_track (length ts) (parse_or 255 96 (parts ! 3)) cr]) c')
           else parse_tracks_config dec ls ts c)"
  by pat_completeness auto
termination
proof (relation "measure (\<lambda>(dec, ls, ts, c). length ls)", goal_cases)
  case (3 dec l ls ts c parts cr y c' rest)
  then have "rest = snd (snd (media_block_config dec ls (H264, 90000) c))" by (metis snd_conv)
  then show ?case using media_block_config_shorter [of dec ls "(H264, 90000)" c] by simp
qed auto

definition parse_sdp_with_sps_pps ::
    "(string \<Rightarrow> bytes option) \<Rightarrow> string \<Rightarrow> track list \<times> bytes option \<times> bytes option" where
  "parse_sdp_with_sps_pps dec sdp = parse_tracks_config dec (text_lines sdp) [] (None, None)"

text \<open>The parser of the WebRTC side, which also splits words at semicolons.\<close>

definition read_sprop :: "(string \<Rightarrow> bytes option) \<Rightarrow> nat \<times> string \<Rightarrow> config \<Rightarrow> config" where
  "read_sprop dec ib c =
     (case (ib, c) of ((idx, b64), (sps, pps)) \<Rightarrow>
        if b64 = [] then c
        else (case dec b64 of
          None \<Rightarrow> c
        | Some decoded \<Rightarrow>
            if decoded = [] then c
            else
              let nal_type = decoded ! 0 AND 0x1F
              in if nal_type = 7 \<and> sps = None then (Some decoded, pps)
                 else if nal_type = 8 \<and> pps = None then (sps, Some decoded)
                 else if idx = 0 \<and> sps = None then (Some decoded, pps)
                 else if pps = None then (sps, Some decoded)
                 else c))"

definition read_sprop_param :: "(string \<Rightarrow> bytes option) \<Rightarrow> config \<Rightarrow> string \<Rightarrow> config" where
  "read_sprop_param dec c param =
     (case strip_prefix ''sprop-parameter-sets='' param of
        None \<Rightarrow> c
      | Some params \<Rightarrow>
          foldl (\<lambda>c x. read_sprop dec x c) c
            (List.enumerate 0 (split_char (CHR '','') (trim_end_char (CHR '';'') params))))"

definition read_sprop_line :: "(string \<Rightarrow> bytes option) \<Rightarrow> config \<Rightarrow> string \<Rightarrow> config" where
  "read_sprop_line dec c l =
     (if \<not> prefix ''a=fmtp:'' l then c
      else foldl (\<lambda>c part. foldl (read_sprop_param dec) c (split_char (CHR '';'') part)) c (split_whitespace l))"

definition parse_sprop_parameter_sets :: "(string \<Rightarrow> bytes option) \<Rightarrow> string \<Rightarrow> config" where
  "parse_sprop_parameter_sets dec sdp = foldl (read_sprop_line dec) (None, None) (text_lines sdp)"

section \<open>Writing\<close>

definition DEFAULT_FMTP :: string where
  "DEFAULT_FMTP =
     ''packetization-mode=1;profile-level-id=42E01F;sprop-parameter-sets=Z0LAHukBQBbsAAADAAQAAAMABAAAAwHNgYI=''"

definition AAC_FMTP :: string where
  "AAC_FMTP = ''profile-level-id=1;mode=AAC-hbr;sizelength=13;indexlength=3;indexdeltalength=3;''"

definition media_type_name :: "codec_type \<Rightarrow> string" where
  "media_type_name c = (if c = AAC \<or> c = Opus \<or> c = G711 then ''audio'' else ''video'')"

definition codec_name :: "codec_type \<Rightarrow> string" where
  "codec_name c =
     (case c of H264 \<Rightarrow> ''H264'' | H265 \<Rightarrow> ''H265'' | AAC \<Rightarrow> ''mpeg4-generic'' | Opus \<Rightarrow> ''opus'' | G711 \<Rightarrow> ''PCMU''
      | _ \<Rightarrow> ''H264'')"

definition sdp_clock_rate :: "codec_type \<Rightarrow> nat" where
  "sdp_clock_rate c =
     (case c of AAC \<Rightarrow> 44100 | Opus \<Rightarrow> 48000 | G711 \<Rightarrow> 8000 | _ \<Rightarrow> 90000)"

definition media_line :: "codec_type \<Rightarrow> nat \<Rightarrow> string" where
  "media_line c pt = ''m='' @ media_type_name c @ '' 0 RTP/AVP '' @ dec_str pt"

definition rtpmap_line :: "codec_type \<Rightarrow> nat \<Rightarrow> nat \<Rightarrow> string" where
  "rtpmap_line c pt rate = ''a=rtpmap:'' @ dec_str pt @ '' '' @ codec_name c @ ''/'' @ dec_str rate"

definition control_line :: "nat \<Rightarrow> string" where
  "control_line idx = ''a=control:trackID='' @ dec_str idx"

text \<open>\<open>RtspCommon::build_sdp\<close>, which a pusher announces\<close>

definition track_lines :: "nat \<Rightarrow> track \<Rightarrow> string list" where
  "track_lines idx t =
     [media_line (tr_codec t) (tr_payload_type t), ''c=IN IP4 0.0.0.0'', ''t=0 0'',
      rtpmap_line (tr_codec t) (tr_payload_type t) (tr_clock_rate t), control_line idx] @
     (if tr_codec t = H264 then [''a=fmtp:96 '' @ DEFAULT_FMTP]
      else if tr_codec t = AAC then [''a=fmtp:97 '' @ AAC_FMTP] else [])"

definition build_sdp :: "track list \<Rightarrow> string" where
  "build_sdp ts =
     unlines_crlf ([''v=0'', ''o=- 0 0 IN IP4 127.0.0.1'', ''s=MediaServer Session'', ''t=0 0''] @
       concat (List.map (\<lambda>(idx, t). track_lines idx t) (List.enumerate 0 ts)))"

definition hex2_upper :: "byte \<Rightarrow> string" where
  "hex2_upper b = to_uppercase (hex2 b)"

text \<open>\<open>RtspServer::build_sdp\<close>, the answer to DESCRIBE\<close>

definition h264_fmtp :: "(bytes \<Rightarrow> string) \<Rightarrow> config \<Rightarrow> nat \<Rightarrow> string" where
  "h264_fmtp enc c pt =
     (case c of
        (Some sps, Some pps) \<Rightarrow>
          let profile_level_id =
                (if length sps \<ge> 4 then hex2_upper (sps ! 1) @ hex2_upper (sps ! 2) @ hex2_upper (sps ! 3) else ''42E01F'')
          in ''a=fmtp:'' @ dec_str pt @ '' packetization-mode=1;profile-level-id='' @ profile_level_id @
             '';sprop-parameter-sets='' @ enc sps @ '','' @ enc pps
      | _ \<Rightarrow> ''a=fmtp:'' @ dec_str pt @ '' '' @ DEFAULT_FMTP)"

definition server_track_lines :: "(bytes \<Rightarrow> string) \<Rightarrow> config \<Rightarrow> nat \<Rightarrow> track \<Rightarrow> string list" where
  "server_track_lines enc c idx t =
     [media_line (tr_codec t) (tr_payload_type t), ''c=IN IP4 0.0.0.0'',
      rtpmap_line (tr_codec t) (tr_payload_type t) (sdp_clock_rate (tr_codec t)), control_line idx] @
     (if tr_codec t = H264 then [h264_fmtp enc c (tr_payload_type t)]
      else if tr_codec t = AAC then [''a=fmtp:'' @ dec_str (tr_payload_type t) @ '' '' @ AAC_FMTP] else [])"

definition server_build_sdp :: "(bytes \<Rightarrow> string) \<Rightarrow> string \<Rightarrow> stream option \<Rightarrow> string" where
  "server_build_sdp enc stream_id st =
     (let c = (case st of Some s \<Rightarrow> (st_sps s, st_pps s) | None \<Rightarrow> (None, None));
          start = [''v=0'', ''o=- 0 0 IN IP4 127.0.0.1'', ''s=MediaServer Session: '' @ stream_id, ''t=0 0'']
      in unlines_crlf (start @
        (case st of
           Some s \<Rightarrow>
             concat (List.map (\<lambda>(idx, t). server_track_lines enc c idx t)
               (List.enumerate 0 (if st_tracks s = [] then default_live_tracks else st_tracks s)))
         | None \<Rightarrow>
             [''m=video 0 RTP/AVP 96'', ''c=IN IP4 0.0.0.0'', ''a=rtpmap:96 H264/90000'', ''a=control:trackID=0'',
              h264_fmtp enc c 96,
              ''m=audio 0 RTP/AVP 97'', ''c=IN IP4 0.0.0.0'', ''a=rtpmap:97 mpeg4-generic/44100/2'', ''a=control:trackID=1'',
              ''a=fmtp:97 '' @ AAC_FMTP])))"

text \<open>\<open>sdp_h264.rs\<close>\<close>

definition profile_level_id_from_sps :: "bytes \<Rightarrow> string option" where
  "profile_level_id_from_sps sps =
     (if sps = [] then None
      else
        let start = (if sps ! 0 AND 0x1F = 7 then 1 else 0)
        in if length sps < start + 3 then None
           else Some (hex2 (sps ! start) @ hex2 (sps ! (start + 1)) @ hex2 (sps ! (start + 2))))"

definition build_h264_sdp_fmtp :: "(bytes \<Rightarrow> string) \<Rightarrow> bytes \<Rightarrow> bytes \<Rightarrow> string" where
  "build_h264_sdp_fmtp enc sps pps =
     ''level-asymmetry-allowed=1;packetization-mode=1;profile-level-id='' @
     (case profile_level_id_from_sps sps of Some p \<Rightarrow> p | None \<Rightarrow> ''42e01f'') @
     '';sprop-parameter-sets='' @ enc sps @ '','' @ enc pps"

text \<open>The \<open>?\<close> of the code leaves the function at the first \<open>rtpmap\<close> line it cannot read.\<close>

fun h264_payload_type :: "string list \<Rightarrow> nat option" where
  "h264_payload_type [] = None"
| "h264_payload_type (l # ls) =
     (case strip_prefix ''a=rtpmap:'' l of
        None \<Rightarrow> h264_payload_type ls
      | Some rest \<Rightarrow>
          (case split_whitespace rest of
             p # c # _ \<Rightarrow>
               (case parse_dec 255 p of
                  None \<Rightarrow> None
                | Some pt \<Rightarrow> if prefix ''h264/'' (to_lowercase c) then Some pt else h264_payload_type ls)
           | _ \<Rightarrow> None))"

definition h264_payload_type_from_sdp :: "string \<Rightarrow> nat option" where
  "h264_payload_type_from_sdp sdp = h264_payload_type (text_lines sdp)"

fun replace_first :: "(string \<Rightarrow> bool) \<Rightarrow> (string \<Rightarrow> string list) \<Rightarrow> string list \<Rightarrow> string list option" where
  "replace_first P f [] = None"
| "replace_first P f (l # ls) =
     (if P l then Some (f l @ ls) else map_option ((#) l) (replace_first P f ls))"

definition join_sdp_lines :: "string list \<Rightarrow> string" where
  "join_sdp_lines ls =
     (if ls = [] then []
      else let out = join_with crlf ls in if suffix crlf out then out else out @ crlf)"

definition patch_answer_sdp_h264 :: "(bytes \<Rightarrow> string) \<Rightarrow> string \<Rightarrow> bytes \<Rightarrow> bytes \<Rightarrow> string" where
  "patch_answer_sdp_h264 enc sdp sps pps =
     (case h264_payload_type_from_sdp sdp of
        None \<Rightarrow> sdp
      | Some pt \<Rightarrow>
          let msgprefix = ''a=fmtp:'' @ dec_str pt;
              new_line = msgprefix @ '' '' @ build_h264_sdp_fmtp enc sps pps;
              ls = text_lines sdp;
              patched =
                (case replace_first (prefix msgprefix) (\<lambda>_. [new_line]) ls of
                   Some ls' \<Rightarrow> ls'
                 | None \<Rightarrow>
                     (case replace_first (prefix (''a=rtpmap:'' @ dec_str pt)) (\<lambda>l. [l, new_line]) ls of
                        Some ls' \<Rightarrow> ls' | None \<Rightarrow> ls))
          in join_sdp_lines patched)"

section \<open>Tracks survive\<close>

text \<open>What a track reads as: its place in the list, an unknown codec as H.264.\<close>

definition read_codec :: "codec_type \<Rightarrow> codec_type" where
  "read_codec c = (if c = codec_type.Unknown then H264 else c)"

definition read_track :: "nat \<Rightarrow> track \<Rightarrow> nat \<Rightarrow> track" where
  "read_track i t rate = track_new (word_of_nat i) (read_codec (tr_codec t)) (tr_payload_type t) rate"

lemma word_media_parts: "\<forall>w\<in>set [''m='' @ media_type_name c, ''0'', ''RTP/AVP'', dec_str pt]. is_word w"
  using is_word_dec_str [of pt] by (simp add: media_type_name_def is_word_def is_space_def)

lemma media_line_parts: "split_whitespace (media_line c pt) = [''m='' @ media_type_name c, ''0'', ''RTP/AVP'', dec_str pt]"
proof -
  have "media_line c pt = join_with '' '' [''m='' @ media_type_name c, ''0'', ''RTP/AVP'', dec_str pt]"
    by (simp add: media_line_def)
  with split_words [OF word_media_parts] show ?thesis by simp
qed

lemma is_word_append: "is_word a \<Longrightarrow> list_all (\<lambda>c. \<not> is_space c) b \<Longrightarrow> is_word (a @ b)"
  by (simp add: is_word_def)

lemma dec_str_no_space: "list_all (\<lambda>c. \<not> is_space c) (dec_str n)"
  using is_word_dec_str [of n] by (simp add: is_word_def)

lemma codec_name_word: "list_all (\<lambda>c. \<not> is_space c) (codec_name c)" "list_all (\<lambda>x. \<not> x = CHR ''/'') (codec_name c)"
  by (cases c; simp add: codec_name_def is_space_def)+

lemma codec_name_inverse: "codec_of_name (to_lowercase (codec_name c)) = read_codec c"
proof -
  have "list_all (\<lambda>c. codec_of_name (to_lowercase (codec_name c)) = read_codec c)
      [H264, H265, AAC, Opus, G711, codec_type.Unknown]" by code_simp
  then show ?thesis by (cases c) simp_all
qed

lemma read_rtpmap_line:
  assumes "rate \<le> u32_max"
  shows "read_rtpmap (rtpmap_line c pt rate) cr = (read_codec c, rate)"
proof -
  let ?a = "''a=rtpmap:'' @ dec_str pt" and ?b = "codec_name c @ ''/'' @ dec_str rate"
  have line: "rtpmap_line c pt rate = join_with '' '' [?a, ?b]" by (simp add: rtpmap_line_def)
  have "is_word ''a=rtpmap:''" by (simp add: is_word_def is_space_def)
  then have "is_word ?a" by (rule is_word_append [OF _ dec_str_no_space])
  moreover have "is_word ?b" using codec_name_word(1) [of c] dec_str_no_space [of rate] by (simp add: is_word_def is_space_def)
  ultimately have "\<forall>w\<in>set [?a, ?b]. is_word w" by simp
  then have parts: "split_whitespace (rtpmap_line c pt rate) = [?a, ?b]" unfolding line by (rule split_words)
  have "list_all (\<lambda>x. \<not> x = CHR ''/'') (dec_str rate)"
    using dec_str_digits [of rate] by (auto simp: list_all_iff is_digit_def)
  then have "split_char (CHR ''/'') ?b = [codec_name c, dec_str rate]"
    using split_by_at [OF codec_name_word(2) [of c], of "CHR ''/''" "dec_str rate"] split_by_none by simp
  with parts show ?thesis using assms by (simp add: read_rtpmap_def Let_def codec_name_inverse parse_or_def)
qed

text \<open>Lines that the track parsers pass over.\<close>

definition passed :: "string \<Rightarrow> bool" where
  "passed l \<longleftrightarrow> \<not> prefix ''a=rtpmap:'' l \<and> \<not> prefix ''m='' l \<and> \<not> prefix ''s='' l"

lemma passed_lines [simp]:
  "passed ''c=IN IP4 0.0.0.0''" "passed ''t=0 0''" "passed (control_line i)" "passed (''a=fmtp:'' @ x)"
  by (simp_all add: passed_def control_line_def)

lemma media_block_passed: "\<forall>l\<in>set ls. passed l \<Longrightarrow> media_block (ls @ rest) cr = media_block rest cr"
  by (induction ls) (simp_all add: passed_def)

lemma media_block_stops: "ls = [] \<or> prefix ''m='' (hd ls) \<Longrightarrow> media_block ls cr = (cr, ls)"
  by (cases ls) (auto simp: prefix_def)

lemma line_kinds:
  "prefix ''m='' (media_line c pt)" "prefix ''a=rtpmap:'' (rtpmap_line c pt rate)"
  by (simp_all add: media_line_def rtpmap_line_def)

text \<open>The shape that both writers share: medium, passed lines, one \<open>rtpmap\<close>, passed lines.\<close>

definition track_block :: "track \<Rightarrow> nat \<Rightarrow> string list \<Rightarrow> string list \<Rightarrow> string list" where
  "track_block t rate pre post =
     media_line (tr_codec t) (tr_payload_type t) # pre @ rtpmap_line (tr_codec t) (tr_payload_type t) rate # post"

lemma parse_track_block:
  assumes "\<forall>l\<in>set pre. passed l" and "\<forall>l\<in>set post. passed l" and "tr_payload_type t \<le> 255" and "rate \<le> u32_max"
    and "rest = [] \<or> prefix ''m='' (hd rest)"
  shows "parse_tracks (track_block t rate pre post @ rest) ts =
     parse_tracks rest (ts @ [read_track (length ts) t rate])"
proof -
  have "media_block (pre @ rtpmap_line (tr_codec t) (tr_payload_type t) rate # post @ rest) (H264, 90000) =
      ((read_codec (tr_codec t), rate), rest)"
    using assms by (simp add: media_block_passed line_kinds read_rtpmap_line media_block_stops)
  then show ?thesis
    using assms(3) unfolding track_block_def
    by (simp add: line_kinds media_line_parts parse_or_def make_track_def read_track_def Let_def)
qed

definition with_rate :: "(track \<Rightarrow> nat) \<Rightarrow> nat \<Rightarrow> track list \<Rightarrow> track list" where
  "with_rate rate n ts = List.map (\<lambda>(i, t). read_track i t (rate t)) (List.enumerate n ts)"

text \<open>A writer of tracks whose output for each track is such a block.\<close>

definition writes_blocks :: "(nat \<Rightarrow> track \<Rightarrow> string list) \<Rightarrow> (track \<Rightarrow> nat) \<Rightarrow> bool" where
  "writes_blocks w rate \<longleftrightarrow>
     (\<forall>i t. \<exists>pre post. w i t = track_block t (rate t) pre post \<and> (\<forall>l\<in>set pre. passed l) \<and> (\<forall>l\<in>set post. passed l))"

lemma parse_written_tracks:
  assumes "writes_blocks w rate" and "\<forall>t\<in>set ts. tr_payload_type t \<le> 255 \<and> rate t \<le> u32_max"
  shows "parse_tracks (concat (List.map (\<lambda>(i, t). w i t) (List.enumerate (length acc) ts))) acc =
     acc @ with_rate rate (length acc) ts"
  using assms(2)
proof (induction ts arbitrary: acc)
  case Nil
  then show ?case by (simp add: with_rate_def)
next
  case (Cons t ts)
  let ?rest = "concat (List.map (\<lambda>(i, t). w i t) (List.enumerate (Suc (length acc)) ts))"
  have block: "\<exists>pre post. w i t = track_block t (rate t) pre post \<and> (\<forall>l\<in>set pre. passed l) \<and> (\<forall>l\<in>set post. passed l)" for i t
    using assms(1) by (simp add: writes_blocks_def)
  then obtain pre post where w: "w (length acc) t = track_block t (rate t) pre post" "\<forall>l\<in>set pre. passed l" "\<forall>l\<in>set post. passed l"
    by blast
  have "?rest = [] \<or> prefix ''m='' (hd ?rest)"
  proof (cases ts)
    case (Cons u us)
    with block [of "Suc (length acc)" u] show ?thesis by (auto simp: track_block_def line_kinds)
  qed simp
  from parse_track_block [OF w(2,3) _ _ this] Cons.prems w(1)
  have "parse_tracks (w (length acc) t @ ?rest) acc = parse_tracks ?rest (acc @ [read_track (length acc) t (rate t)])"
    by simp
  with Cons.IH [of "acc @ [read_track (length acc) t (rate t)]"] Cons.prems show ?case
    by (simp add: with_rate_def)
qed

lemma build_sdp_blocks: "writes_blocks track_lines tr_clock_rate"
  unfolding writes_blocks_def
proof (intro allI)
  fix i and t :: track
  let ?post = "control_line i # (if tr_codec t = H264 then [''a=fmtp:96 '' @ DEFAULT_FMTP]
      else if tr_codec t = AAC then [''a=fmtp:97 '' @ AAC_FMTP] else [])"
  have "passed (''a=fmtp:96 '' @ x)" "passed (''a=fmtp:97 '' @ x)" for x by (simp_all add: passed_def)
  then show "\<exists>pre post. track_lines i t = track_block t (tr_clock_rate t) pre post \<and> (\<forall>l\<in>set pre. passed l) \<and> (\<forall>l\<in>set post. passed l)"
    by (intro exI [of _ "[''c=IN IP4 0.0.0.0'', ''t=0 0'']"] exI [of _ ?post]) (auto simp: track_lines_def track_block_def)
qed

lemma h264_fmtp_form: "\<exists>x. h264_fmtp enc c pt = ''a=fmtp:'' @ x"
  by (auto simp: h264_fmtp_def Let_def split: prod.splits option.splits)

lemma server_sdp_blocks: "writes_blocks (server_track_lines enc c) (\<lambda>t. sdp_clock_rate (tr_codec t))"
  unfolding writes_blocks_def
proof (intro allI)
  fix i and t :: track
  let ?post = "control_line i # (if tr_codec t = H264 then [h264_fmtp enc c (tr_payload_type t)]
      else if tr_codec t = AAC then [''a=fmtp:'' @ dec_str (tr_payload_type t) @ '' '' @ AAC_FMTP] else [])"
  have "passed (h264_fmtp enc c pt)" for pt
    using h264_fmtp_form [of enc c pt] passed_lines(4) by (elim exE) (simp only:)
  note p = this and p2 = passed_lines(4) [simplified append.simps]
  show "\<exists>pre post. server_track_lines enc c i t = track_block t (sdp_clock_rate (tr_codec t)) pre post \<and>
      (\<forall>l\<in>set pre. passed l) \<and> (\<forall>l\<in>set post. passed l)"
    by (rule exI [of _ "[''c=IN IP4 0.0.0.0'']"], rule exI [of _ ?post]) (auto simp: server_track_lines_def track_block_def p p2)
qed

section \<open>Parameter sets\<close>

definition base64_like :: "(bytes \<Rightarrow> string) \<Rightarrow> (string \<Rightarrow> bytes option) \<Rightarrow> bool" where
  "base64_like enc dec \<longleftrightarrow>
     (\<forall>x. dec (enc x) = Some x \<and> (x \<noteq> [] \<longrightarrow> enc x \<noteq> []) \<and>
        list_all (\<lambda>c. \<not> is_space c \<and> c \<noteq> CHR '';'' \<and> c \<noteq> CHR '','') (enc x))"

lemma fmtp_words:
  assumes "is_word w"
  shows "split_whitespace (''a=fmtp:'' @ dec_str pt @ '' '' @ w) = [''a=fmtp:'' @ dec_str pt, w]"
proof -
  have "is_word ''a=fmtp:''" by (simp add: is_word_def is_space_def)
  then have "is_word (''a=fmtp:'' @ dec_str pt)" by (rule is_word_append [OF _ dec_str_no_space])
  with assms have "\<forall>v\<in>set [''a=fmtp:'' @ dec_str pt, w]. is_word v" by simp
  from split_words [OF this] show ?thesis by simp
qed

text \<open>A line without a word that begins with the parameter's name changes nothing.\<close>

definition quiet :: "string \<Rightarrow> bool" where
  "quiet l \<longleftrightarrow> (prefix ''a=fmtp:'' l \<longrightarrow> (\<forall>w\<in>set (split_whitespace l). \<not> prefix ''sprop-parameter-sets='' w))"

lemma read_fmtp_quiet: "quiet l \<Longrightarrow> prefix ''a=fmtp:'' l \<Longrightarrow> read_fmtp dec l c = c"
proof -
  have "foldl (\<lambda>c part. case strip_prefix ''sprop-parameter-sets='' part of None \<Rightarrow> c | Some params \<Rightarrow> g params c) c ws = c"
    if "\<forall>w\<in>set ws. \<not> prefix ''sprop-parameter-sets='' w" for ws and g :: "string \<Rightarrow> config \<Rightarrow> config"
    using that by (induction ws) (simp_all add: strip_prefix_def)
  then show "quiet l \<Longrightarrow> prefix ''a=fmtp:'' l \<Longrightarrow> read_fmtp dec l c = c" by (simp add: quiet_def read_fmtp_def)
qed

lemma fmtp_not_media: "prefix ''a=fmtp:'' l \<Longrightarrow> \<not> prefix ''a=rtpmap:'' l \<and> \<not> prefix ''m='' l \<and> \<not> prefix ''s='' l"
  by (auto simp: prefix_def)

lemma media_block_quiet:
  "\<forall>l\<in>set ls. quiet l \<Longrightarrow> media_block_config dec ls cr c = (fst (media_block ls cr), c, snd (media_block ls cr))"
  by (induction ls arbitrary: cr) (auto simp: read_fmtp_quiet dest: fmtp_not_media)

lemma media_block_subset: "set (snd (media_block ls cr)) \<subseteq> set ls"
  by (induction ls cr rule: media_block.induct) auto

lemma parse_tracks_quiet:
  assumes "\<forall>l\<in>set ls. quiet l"
  shows "parse_tracks_config dec ls ts c = (parse_tracks ls ts, c)"
  using assms
proof (induction ls ts rule: parse_tracks.induct)
  case (2 l ls ts)
  show ?case
  proof (cases "prefix ''a=fmtp:'' l")
    case True
    with 2 fmtp_not_media [OF True] show ?thesis by (simp add: read_fmtp_quiet)
  next
    case False
    let ?parts = "split_whitespace l"
    show ?thesis
    proof (cases "prefix ''m='' l \<and> length ?parts \<ge> 4")
      case True
      obtain a b rest where m: "media_block ls (H264, 90000) = ((a, b), rest)" by (metis prod.collapse)
      have "set rest \<subseteq> set ls" using media_block_subset [of ls "(H264, 90000)"] m by simp
      then have "\<forall>l\<in>set rest. quiet l" using "2.prems" by auto
      with "2.IH"(1) [OF refl True m [symmetric]] "2.prems" True m False show ?thesis
        by (simp add: Let_def media_block_quiet)
    next
      case no: False
      with 2 False show ?thesis by (auto simp: Let_def)
    qed
  qed
qed simp

lemma quiet_two_words: "is_word w \<Longrightarrow> \<not> prefix ''sprop-parameter-sets='' w \<Longrightarrow> quiet (''a=fmtp:'' @ dec_str pt @ '' '' @ w)"
  unfolding quiet_def fmtp_words by simp

lemma dec_str_96: "dec_str 96 = ''96''" "dec_str 97 = ''97''"
  by code_simp+

lemma default_fmtp_word: "is_word DEFAULT_FMTP \<and> \<not> prefix ''sprop-parameter-sets='' DEFAULT_FMTP"
  "is_word AAC_FMTP \<and> \<not> prefix ''sprop-parameter-sets='' AAC_FMTP"
  by code_simp+

definition config_word :: "(bytes \<Rightarrow> string) \<Rightarrow> bytes \<Rightarrow> bytes \<Rightarrow> string" where
  "config_word enc sps pps =
     ''packetization-mode=1;profile-level-id='' @
     (if length sps \<ge> 4 then hex2_upper (sps ! 1) @ hex2_upper (sps ! 2) @ hex2_upper (sps ! 3) else ''42E01F'') @
     '';sprop-parameter-sets='' @ enc sps @ '','' @ enc pps"

lemma h264_fmtp_config: "h264_fmtp enc (Some sps, Some pps) pt = ''a=fmtp:'' @ dec_str pt @ '' '' @ config_word enc sps pps"
  by (simp add: h264_fmtp_def config_word_def Let_def)

lemma upper_hex_digit:
  assumes "d < 16"
  shows "(of_char (upper_char (hex_digit d)) :: nat) = (if d < 10 then 48 + d else 55 + d)"
  using assms by (auto simp: upper_char_def hex_digit_def Let_def)

lemma hex2_upper_plain: "list_all (\<lambda>c. \<not> is_space c \<and> c \<noteq> CHR '';'') (hex2_upper b)"
proof -
  have ok: "\<not> is_space (upper_char (hex_digit d)) \<and> upper_char (hex_digit d) \<noteq> CHR '';''" if "d < 16" for d
  proof -
    have "c \<noteq> CHR '' '' \<and> c \<noteq> CHR '';''" if "48 \<le> (of_char c :: nat)" "(of_char c :: nat) \<noteq> 59" for c
      using that by auto
    from this [of "upper_char (hex_digit d)"] upper_hex_digit [OF that] show ?thesis
      by (auto simp: is_space_def split: if_splits)
  qed
  have "unat b div 16 < 16" "unat b mod 16 < 16" using unat_byte_less [of b] by linarith+
  with ok show ?thesis unfolding hex2_upper_def hex2_def by simp
qed

lemma config_word_word:
  assumes "base64_like enc dec"
  shows "is_word (config_word enc sps pps)" "\<not> prefix ''sprop-parameter-sets='' (config_word enc sps pps)"
proof -
  have "list_all (\<lambda>c. \<not> is_space c) (enc x)" for x using assms by (auto simp: base64_like_def list_all_iff)
  moreover have "list_all (\<lambda>c. \<not> is_space c) (hex2_upper b)" for b using hex2_upper_plain [of b] by (auto simp: list_all_iff)
  ultimately show "is_word (config_word enc sps pps)" by (simp add: config_word_def is_word_def is_space_def)
  show "\<not> prefix ''sprop-parameter-sets='' (config_word enc sps pps)" by (simp add: config_word_def)
qed

lemma h264_fmtp_quiet:
  assumes "base64_like enc dec"
  shows "quiet (h264_fmtp enc c pt)"
proof -
  have "quiet (''a=fmtp:'' @ dec_str pt @ '' '' @ DEFAULT_FMTP)" using default_fmtp_word(1) by (blast intro: quiet_two_words)
  moreover have "quiet (''a=fmtp:'' @ dec_str pt @ '' '' @ config_word enc sps pps)" for sps pps
    using config_word_word [OF assms] by (blast intro: quiet_two_words)
  moreover have "h264_fmtp enc c pt = ''a=fmtp:'' @ dec_str pt @ '' '' @ DEFAULT_FMTP"
    if "fst c = None \<or> snd c = None"
    using that by (cases c; cases "fst c"; cases "snd c") (simp_all add: h264_fmtp_def)
  moreover have "h264_fmtp enc c pt = ''a=fmtp:'' @ dec_str pt @ '' '' @ config_word enc (the (fst c)) (the (snd c))"
    if "fst c \<noteq> None" "snd c \<noteq> None"
    using that by (cases c) (auto simp: h264_fmtp_config simp del: append.simps)
  ultimately show ?thesis by metis
qed

section \<open>The program's own descriptions\<close>

text \<open>A writer's text: four lines of session, then the lines of the tracks.\<close>

definition session_lines :: "string \<Rightarrow> string list" where
  "session_lines name = [''v=0'', ''o=- 0 0 IN IP4 127.0.0.1'', ''s='' @ name, ''t=0 0'']"

lemma session_lines_skipped:
  "parse_tracks (session_lines name @ ls) ts = parse_tracks ls ts" "\<forall>l\<in>set (session_lines name). quiet l"
  by (simp_all add: session_lines_def quiet_def Let_def)

definition line_ok :: "string \<Rightarrow> bool" where
  "line_ok l \<longleftrightarrow> CHR 0x0A \<notin> set l \<and> quiet l"

lemma one_line_words: "is_word w \<Longrightarrow> CHR 0x0A \<notin> set w" "list_all (\<lambda>c. \<not> is_space c) w \<Longrightarrow> CHR 0x0A \<notin> set w"
proof -
  have "is_space (CHR 0x0A)" by (simp add: is_space_def)
  then show "is_word w \<Longrightarrow> CHR 0x0A \<notin> set w" "list_all (\<lambda>c. \<not> is_space c) w \<Longrightarrow> CHR 0x0A \<notin> set w"
    by (auto simp: is_word_def list_all_iff)
qed

lemma basic_lines_ok:
  "line_ok (media_line c pt)" "line_ok (rtpmap_line c pt rate)" "line_ok (control_line i)"
  "line_ok ''c=IN IP4 0.0.0.0''" "line_ok ''t=0 0''"
proof -
  have "CHR 0x0A \<notin> set (media_type_name c)" "CHR 0x0A \<notin> set (codec_name c)"
    using one_line_words(2) [OF codec_name_word(1)] by (simp_all add: media_type_name_def)
  then show "line_ok (media_line c pt)" "line_ok (rtpmap_line c pt rate)" "line_ok (control_line i)"
    "line_ok ''c=IN IP4 0.0.0.0''" "line_ok ''t=0 0''"
    by (simp_all add: line_ok_def media_line_def rtpmap_line_def control_line_def quiet_def)
qed

lemma fmtp_line_ok:
  assumes "is_word w" and "\<not> prefix ''sprop-parameter-sets='' w"
  shows "line_ok (''a=fmtp:'' @ dec_str pt @ '' '' @ w)"
  using quiet_two_words [OF assms] one_line_words(1) [OF assms(1)] by (simp add: line_ok_def)

lemma h264_fmtp_ok:
  assumes "base64_like enc dec"
  shows "line_ok (h264_fmtp enc c pt)"
proof -
  have "line_ok (''a=fmtp:'' @ dec_str pt @ '' '' @ DEFAULT_FMTP)" using default_fmtp_word(1) by (blast intro: fmtp_line_ok)
  moreover have "line_ok (''a=fmtp:'' @ dec_str pt @ '' '' @ config_word enc sps pps)" for sps pps
    using config_word_word [OF assms] by (blast intro: fmtp_line_ok)
  moreover have "h264_fmtp enc c pt = ''a=fmtp:'' @ dec_str pt @ '' '' @ DEFAULT_FMTP"
    if "fst c = None \<or> snd c = None"
    using that by (cases c; cases "fst c"; cases "snd c") (simp_all add: h264_fmtp_def)
  moreover have "h264_fmtp enc c pt = ''a=fmtp:'' @ dec_str pt @ '' '' @ config_word enc (the (fst c)) (the (snd c))"
    if "fst c \<noteq> None" "snd c \<noteq> None"
    using that by (cases c) (auto simp: h264_fmtp_config simp del: append.simps)
  ultimately show ?thesis by metis
qed

lemma track_lines_ok: "\<forall>l\<in>set (track_lines i t). line_ok l"
  using basic_lines_ok fmtp_line_ok [of DEFAULT_FMTP 96] fmtp_line_ok [of AAC_FMTP 97] default_fmtp_word
  unfolding dec_str_96 by (simp add: track_lines_def)

lemma server_track_lines_ok: "base64_like enc dec \<Longrightarrow> \<forall>l\<in>set (server_track_lines enc c i t). line_ok l"
  using basic_lines_ok h264_fmtp_ok fmtp_line_ok [of AAC_FMTP "tr_payload_type t"] default_fmtp_word(2)
  by (auto simp: server_track_lines_def)

text \<open>What the RTSP side reads in a description written in this way.\<close>

lemma written_sdp_reads:
  assumes "writes_blocks w rate" and "\<forall>i t. \<forall>l\<in>set (w i t). line_ok l" and "CHR 0x0A \<notin> set name"
    and "\<forall>t\<in>set ts. tr_payload_type t \<le> 255 \<and> rate t \<le> u32_max"
  defines "sdp \<equiv> unlines_crlf (session_lines name @ concat (List.map (\<lambda>(i, t). w i t) (List.enumerate 0 ts)))"
  shows "parse_sdp_tracks sdp = with_rate rate 0 ts \<and>
     parse_sdp_with_sps_pps dec sdp = (with_rate rate 0 ts, None, None)"
proof -
  let ?ls = "session_lines name @ concat (List.map (\<lambda>(i, t). w i t) (List.enumerate 0 ts))"
  have "\<forall>l\<in>set ?ls. CHR 0x0A \<notin> set l"
    using assms(2,3) by (auto simp: line_ok_def session_lines_def)
  then have lines: "text_lines sdp = ?ls" unfolding sdp_def by (rule text_lines_unlines)
  have "\<forall>l\<in>set ?ls. quiet l"
    using assms(2) session_lines_skipped(2) by (auto simp: line_ok_def)
  moreover have "parse_tracks ?ls [] = with_rate rate 0 ts"
    using parse_written_tracks [OF assms(1,4), of "[]"] by (simp add: session_lines_skipped(1))
  ultimately show ?thesis
    unfolding parse_sdp_tracks_def parse_sdp_with_sps_pps_def lines by (simp add: parse_tracks_quiet)
qed

definition st_config :: "stream \<Rightarrow> config" where
  "st_config s = (st_sps s, st_pps s)"

definition st_live_tracks :: "stream \<Rightarrow> track list" where
  "st_live_tracks s = (if st_tracks s = [] then default_live_tracks else st_tracks s)"

lemma server_build_sdp_form:
  "server_build_sdp enc sid (Some s) =
     unlines_crlf (session_lines (''MediaServer Session: '' @ sid) @
       concat (List.map (\<lambda>(i, t). server_track_lines enc (st_config s) i t) (List.enumerate 0 (st_live_tracks s))))"
  by (simp add: server_build_sdp_def session_lines_def st_config_def st_live_tracks_def Let_def)

lemma build_sdp_form:
  "build_sdp ts =
     unlines_crlf (session_lines ''MediaServer Session'' @
       concat (List.map (\<lambda>(i, t). track_lines i t) (List.enumerate 0 ts)))"
  by (simp add: build_sdp_def session_lines_def)


section \<open>Parameter sets through a description\<close>

lemma read_sprop_other: "\<not> prefix ''a=fmtp:'' l \<Longrightarrow> read_sprop_line dec c l = c"
  by (simp add: read_sprop_line_def)

lemma read_sprop_part: "\<not> prefix ''sprop-parameter-sets='' p \<Longrightarrow> read_sprop_param dec c p = c"
  by (simp add: read_sprop_param_def strip_prefix_def)

lemma trim_end_char_last: "x \<noteq> [] \<Longrightarrow> last x \<noteq> c \<Longrightarrow> trim_end_char c x = x"
  by (cases x rule: rev_cases) (simp_all add: trim_end_char_def)

lemma sprop_pair:
  assumes "base64_like enc dec" and "sps \<noteq> []" and "pps \<noteq> []" and "sps ! 0 AND 0x1F = 7" and "pps ! 0 AND 0x1F = 8"
    and "c = (None, None) \<or> c = (Some sps, Some pps)"
  shows "read_sprop_param dec c (''sprop-parameter-sets='' @ enc sps @ '','' @ enc pps) = (Some sps, Some pps)"
proof -
  have plain: "list_all (\<lambda>x. \<not> x = CHR '','') (enc x)" "list_all (\<lambda>x. x \<noteq> CHR '';'') (enc x)" "dec (enc x) = Some x"
    "x \<noteq> [] \<longrightarrow> enc x \<noteq> []" for x
    using assms(1) by (auto simp: base64_like_def list_all_iff)
  have "last (enc sps @ '','' @ enc pps) \<noteq> CHR '';''"
    using plain(2) [of pps] plain(4) [of pps] assms(3) by (auto simp: list_all_iff)
  then have "trim_end_char (CHR '';'') (enc sps @ '','' @ enc pps) = enc sps @ '','' @ enc pps"
    by (intro trim_end_char_last) simp_all
  moreover have "split_char (CHR '','') (enc sps @ '','' @ enc pps) = [enc sps, enc pps]"
    using split_by_at [OF plain(1) [of sps], of "CHR '',''" "enc pps"] split_by_none [OF plain(1) [of pps]] by simp
  ultimately have "read_sprop_param dec c (''sprop-parameter-sets='' @ enc sps @ '','' @ enc pps) =
      foldl (\<lambda>c x. read_sprop dec x c) c [(0, enc sps), (1, enc pps)]"
    unfolding read_sprop_param_def strip_prefix_append option.case by simp
  then show ?thesis using assms(2-6) plain(3,4) by (auto simp: read_sprop_def)
qed

lemma split_config_word:
  assumes "base64_like enc dec"
  shows "split_char (CHR '';'') (config_word enc sps pps) =
     [''packetization-mode=1'',
      ''profile-level-id='' @ (if length sps \<ge> 4 then hex2_upper (sps ! 1) @ hex2_upper (sps ! 2) @ hex2_upper (sps ! 3) else ''42E01F''),
      ''sprop-parameter-sets='' @ enc sps @ '','' @ enc pps]"
proof -
  let ?id = "if length sps \<ge> 4 then hex2_upper (sps ! 1) @ hex2_upper (sps ! 2) @ hex2_upper (sps ! 3) else ''42E01F''"
  let ?a = "''packetization-mode=1''" and ?b = "''profile-level-id='' @ ?id" and ?c = "''sprop-parameter-sets='' @ enc sps @ '','' @ enc pps"
  have a: "list_all (\<lambda>x. \<not> x = CHR '';'') ?a" by simp
  have "list_all (\<lambda>x. \<not> x = CHR '';'') (hex2_upper b)" for b using hex2_upper_plain [of b] by (auto simp: list_all_iff)
  then have b: "list_all (\<lambda>x. \<not> x = CHR '';'') ?b" by simp
  have "list_all (\<lambda>x. \<not> x = CHR '';'') (enc x)" for x using assms by (auto simp: base64_like_def list_all_iff)
  then have c: "list_all (\<lambda>x. \<not> x = CHR '';'') ?c" by simp
  have "config_word enc sps pps = ?a @ CHR '';'' # ?b @ CHR '';'' # ?c" by (simp add: config_word_def)
  then show ?thesis using split_by_at [OF a refl] split_by_at [OF b refl] split_by_none [OF c] by simp
qed

lemma fmtp_head_words:
  "split_char (CHR '';'') (''a=fmtp:'' @ dec_str pt) = [''a=fmtp:'' @ dec_str pt]"
  "\<not> prefix ''sprop-parameter-sets='' (''a=fmtp:'' @ dec_str pt)"
proof -
  have "list_all (\<lambda>x. \<not> x = CHR '';'') (''a=fmtp:'' @ dec_str pt)"
    using dec_str_digits [of pt] by (auto simp: list_all_iff is_digit_def)
  then show "split_char (CHR '';'') (''a=fmtp:'' @ dec_str pt) = [''a=fmtp:'' @ dec_str pt]" by (rule split_by_none)
qed simp

lemma read_sprop_h264:
  assumes "base64_like enc dec" and "sps \<noteq> []" and "pps \<noteq> []" and "sps ! 0 AND 0x1F = 7" and "pps ! 0 AND 0x1F = 8"
    and "c = (None, None) \<or> c = (Some sps, Some pps)"
  shows "read_sprop_line dec c (h264_fmtp enc (Some sps, Some pps) pt) = (Some sps, Some pps)"
proof -
  have skip: "read_sprop_param dec c ''packetization-mode=1'' = c" "read_sprop_param dec c (''profile-level-id='' @ x) = c" for c x
    by (rule read_sprop_part, simp)+
  have "prefix ''a=fmtp:'' (''a=fmtp:'' @ x)" for x by simp
  then show ?thesis
    unfolding h264_fmtp_config read_sprop_line_def fmtp_words [OF config_word_word(1) [OF assms(1)]]
    using sprop_pair [OF assms]
    by (simp add: fmtp_head_words split_config_word [OF assms(1)] read_sprop_part skip del: append.simps prefix_code)
qed

lemma aac_fmtp_parts:
  "list_all (\<lambda>p. \<not> prefix ''sprop-parameter-sets='' p) (split_char (CHR '';'') AAC_FMTP)"
  by code_simp

lemma read_sprop_aac: "read_sprop_line dec c (''a=fmtp:'' @ dec_str pt @ '' '' @ AAC_FMTP) = c"
proof -
  have "foldl (read_sprop_param dec) c ps = c" if "list_all (\<lambda>p. \<not> prefix ''sprop-parameter-sets='' p) ps" for ps
    using that by (induction ps) (simp_all add: read_sprop_part)
  then show ?thesis
    using aac_fmtp_parts fmtp_words [OF conjunct1 [OF default_fmtp_word(2)]]
    by (simp add: read_sprop_line_def fmtp_head_words read_sprop_part del: append.simps)
qed

lemma sprop_track:
  assumes "base64_like enc dec" and "sps \<noteq> []" and "pps \<noteq> []" and "sps ! 0 AND 0x1F = 7" and "pps ! 0 AND 0x1F = 8"
    and "c = (None, None) \<or> c = (Some sps, Some pps)"
  shows "foldl (read_sprop_line dec) c (server_track_lines enc (Some sps, Some pps) i t) =
     (if tr_codec t = H264 then (Some sps, Some pps) else c)"
proof -
  have skip: "read_sprop_line dec c (media_line x y) = c" "read_sprop_line dec c ''c=IN IP4 0.0.0.0'' = c"
    "read_sprop_line dec c (rtpmap_line x y z) = c" "read_sprop_line dec c (control_line w) = c" for x y z w c
    by (simp_all add: read_sprop_other media_line_def rtpmap_line_def control_line_def)
  show ?thesis
    by (simp add: server_track_lines_def skip read_sprop_h264 [OF assms] read_sprop_aac del: append.simps)
qed

lemma sprop_tracks:
  assumes "base64_like enc dec" and "sps \<noteq> []" and "pps \<noteq> []" and "sps ! 0 AND 0x1F = 7" and "pps ! 0 AND 0x1F = 8"
    and "c = (None, None) \<or> c = (Some sps, Some pps)"
  shows "foldl (read_sprop_line dec) c
       (concat (List.map (\<lambda>(i, t). server_track_lines enc (Some sps, Some pps) i t) (List.enumerate n ts))) =
     (if \<exists>t\<in>set ts. tr_codec t = H264 then (Some sps, Some pps) else c)"
  using assms(6)
proof (induction ts arbitrary: n c)
  case (Cons t ts)
  then show ?case using sprop_track [OF assms(1-5) Cons.prems] by simp
qed simp

text \<open>When a live stream has SPS and PPS and an H.264 track, the description the server gives carries
  both: the WebRTC side's reader, which a puller uses, finds exactly them. The RTSP side's own
  reader, which ANNOUNCE uses, finds neither in the same text, because it looks for the parameter
  only at the start of a word and the writer puts no space after a semicolon.\<close>

theorem sdp_config_read_by_one_parser_only:
  assumes "base64_like enc dec" and "st_sps s = Some sps" and "st_pps s = Some pps" and "sps \<noteq> []" and "pps \<noteq> []"
    and "sps ! 0 AND 0x1F = 7" and "pps ! 0 AND 0x1F = 8" and "\<exists>t\<in>set (st_live_tracks s). tr_codec t = H264"
    and "CHR 0x0A \<notin> set sid" and "\<forall>t\<in>set (st_live_tracks s). tr_payload_type t \<le> 255"
  shows "parse_sprop_parameter_sets dec (server_build_sdp enc sid (Some s)) = (Some sps, Some pps) \<and>
     snd (parse_sdp_with_sps_pps dec (server_build_sdp enc sid (Some s))) = (None, None)"
proof -
  let ?name = "''MediaServer Session: '' @ sid"
  let ?ls = "session_lines ?name @
    concat (List.map (\<lambda>(i, t). server_track_lines enc (st_config s) i t) (List.enumerate 0 (st_live_tracks s)))"
  have rate: "sdp_clock_rate c \<le> u32_max" for c by (cases c) (simp_all add: sdp_clock_rate_def u32_max_def)
  have name: "CHR 0x0A \<notin> set ?name" using assms(9) by simp
  have ok: "\<forall>t\<in>set (st_live_tracks s). tr_payload_type t \<le> 255 \<and> sdp_clock_rate (tr_codec t) \<le> u32_max"
    using assms(10) rate by simp
  have "\<forall>l\<in>set ?ls. CHR 0x0A \<notin> set l"
    using server_track_lines_ok [OF assms(1), of "st_config s"] name by (auto simp: line_ok_def session_lines_def)
  then have "text_lines (server_build_sdp enc sid (Some s)) = ?ls"
    unfolding server_build_sdp_form by (rule text_lines_unlines)
  moreover have "foldl (read_sprop_line dec) (None, None) (session_lines ?name) = (None, None)"
    by (simp add: session_lines_def read_sprop_other)
  ultimately have "parse_sprop_parameter_sets dec (server_build_sdp enc sid (Some s)) = (Some sps, Some pps)"
    using sprop_tracks [OF assms(1,4-7), of "(None, None)" 0 "st_live_tracks s"] assms(2,3,8)
    by (simp add: parse_sprop_parameter_sets_def st_config_def)
  moreover have "snd (parse_sdp_with_sps_pps dec (server_build_sdp enc sid (Some s))) = (None, None)"
    unfolding server_build_sdp_form
    using written_sdp_reads [OF server_sdp_blocks _ name ok, of enc "st_config s" dec] server_track_lines_ok [OF assms(1)]
    by simp
  ultimately show ?thesis by blast
qed

section \<open>An instance\<close>

text \<open>Hexadecimal text has what the lemmas ask of base64.\<close>

definition hex_text :: "bytes \<Rightarrow> string" where
  "hex_text bs = concat (List.map hex2_upper bs)"

definition hex_digit_value :: "char \<Rightarrow> nat" where
  "hex_digit_value c = (let n = of_char c in if n < 65 then n - 48 else n - 55)"

fun hex_bytes :: "string \<Rightarrow> bytes option" where
  "hex_bytes [] = Some []"
| "hex_bytes [c] = None"
| "hex_bytes (a # b # s) = map_option ((#) (word_of_nat (16 * hex_digit_value a + hex_digit_value b))) (hex_bytes s)"

lemma hex_digit_value_upper: "d < 16 \<Longrightarrow> hex_digit_value (upper_char (hex_digit d)) = d"
  by (simp add: hex_digit_value_def upper_hex_digit Let_def)

lemma hex_bytes_text: "hex_bytes (hex_text bs) = Some bs"
proof (induction bs)
  case (Cons b bs)
  have "unat b div 16 < 16" "unat b mod 16 < 16" using unat_byte_less [of b] by linarith+
  then have "16 * hex_digit_value (upper_char (hex_digit (unat b div 16))) + hex_digit_value (upper_char (hex_digit (unat b mod 16))) = unat b"
    by (simp add: hex_digit_value_upper)
  with Cons show ?case by (simp add: hex_text_def hex2_upper_def hex2_def)
qed (simp add: hex_text_def)

lemma hex_base64_like: "base64_like hex_text hex_bytes"
  unfolding base64_like_def
proof (intro allI conjI)
  fix x :: bytes
  show "hex_bytes (hex_text x) = Some x" by (rule hex_bytes_text)
  show "x \<noteq> [] \<longrightarrow> hex_text x \<noteq> []" by (cases x) (simp_all add: hex_text_def hex2_upper_def hex2_def)
  have comma: "upper_char (hex_digit d) \<noteq> CHR '',''" if "d < 16" for d
  proof
    assume "upper_char (hex_digit d) = CHR '',''"
    then have "(of_char (upper_char (hex_digit d)) :: nat) = 44" by simp
    then show False using upper_hex_digit [OF that] by (auto split: if_splits)
  qed
  have "list_all (\<lambda>c. c \<noteq> CHR '','') (hex2_upper b)" for b
  proof -
    have "unat b div 16 < 16" "unat b mod 16 < 16" using unat_byte_less [of b] by linarith+
    then show ?thesis using comma by (simp add: hex2_upper_def hex2_def)
  qed
  then show "list_all (\<lambda>c. \<not> is_space c \<and> c \<noteq> CHR '';'' \<and> c \<noteq> CHR '','') (hex_text x)"
    using hex2_upper_plain by (fastforce simp: hex_text_def list_all_iff)
qed

definition demo_sdp_stream :: stream where
  "demo_sdp_stream =
     (fresh_stream ''cam'' stream_source_mode.Push RTSP None)\<lparr>st_tracks := [track_new 0 H264 96 90000, track_new 1 AAC 97 44100],
        st_sps := Some [0x67, 0x42, 0x00, 0x1E], st_pps := Some [0x68, 0xCE]\<rparr>"


theorem sdp_config_read_by_one_parser_only_witness:
  "parse_sprop_parameter_sets hex_bytes (server_build_sdp hex_text ''cam'' (Some demo_sdp_stream)) =
     (Some [0x67, 0x42, 0x00, 0x1E], Some [0x68, 0xCE]) \<and>
   snd (parse_sdp_with_sps_pps hex_bytes (server_build_sdp hex_text ''cam'' (Some demo_sdp_stream))) = (None, None)"
  by (rule sdp_config_read_by_one_parser_only [OF hex_base64_like])
    (simp_all add: demo_sdp_stream_def st_live_tracks_def track_new_def fresh_stream_def)

end
