(* ===== verification/Rtp_H264.thy ===== *)
theory Rtp_H264
  imports H264_Util
begin

text \<open>
  \<open>src/src/server/webrtc/rtp_h264.rs\<close>: H.264 in RTP payloads (RFC 6184). Single NAL units,
  STAP-A aggregates and FU-A fragments are turned into Annex B; the fragments of a unit are
  collected in the depacketizer's buffer. Every index is guarded as in the code.
\<close>

definition STAP_A :: byte where "STAP_A = 24"
definition FU_A :: byte where "FU_A = 28"

record parsed_nalu =
  pn_nal_type :: byte
  pn_data :: bytes

datatype depacketize_error =
    ShortPacket
  | StapASizeLargerThanBuffer
  | MissingFuStart
  | UnsupportedNaluType byte

record depacketizer =
  dp_fu_buffer :: "bytes option"

definition depacketizer_default :: depacketizer where
  "depacketizer_default = \<lparr>dp_fu_buffer = None\<rparr>"

definition nalus_to_annex_b :: "parsed_nalu list \<Rightarrow> bytes" where
  "nalus_to_annex_b ns = concat (map (\<lambda>n. [0, 0, 0, 1] @ pn_data n) ns)"

definition parsed_of :: "bytes \<Rightarrow> parsed_nalu" where
  "parsed_of nalu = \<lparr>pn_nal_type = hd nalu AND 0x1F, pn_data = nalu\<rparr>"

function stap_a_from :: "bytes \<Rightarrow> nat \<Rightarrow> depacketize_error + parsed_nalu list" where
  "stap_a_from payload i =
     (if i + 2 \<le> length payload then
        let nalu_len = be16 (payload ! i) (payload ! (i + 1)); j = i + 2 in
        if nalu_len = 0 \<or> j + nalu_len > length payload then Inl StapASizeLargerThanBuffer
        else
          let nalu = take nalu_len (drop j payload) in
          (case stap_a_from payload (j + nalu_len) of
             Inl e \<Rightarrow> Inl e
           | Inr out \<Rightarrow> Inr ((if nalu \<noteq> [] then [parsed_of nalu] else []) @ out))
      else Inr [])"
  by pat_completeness auto
termination
  by (relation "measure (\<lambda>(payload, i). length payload - i)") auto

declare stap_a_from.simps [simp del]

definition parse_stap_a_checked :: "bytes \<Rightarrow> depacketize_error + parsed_nalu list" where
  "parse_stap_a_checked payload = stap_a_from payload 1"

definition parse_stap_a :: "bytes \<Rightarrow> parsed_nalu list" where
  "parse_stap_a payload = (case parse_stap_a_checked payload of Inl _ \<Rightarrow> [] | Inr ns \<Rightarrow> ns)"

definition single_nal_type :: "byte \<Rightarrow> bool" where
  "single_nal_type t \<longleftrightarrow> 1 \<le> unat t \<and> unat t \<le> 23"

definition parse_rtp_h264 :: "bytes \<Rightarrow> parsed_nalu list" where
  "parse_rtp_h264 payload =
     (if payload = [] then []
      else let nal_type = hd payload AND 0x1F in
        if single_nal_type nal_type then [\<lparr>pn_nal_type = nal_type, pn_data = payload\<rparr>]
        else if nal_type = STAP_A then parse_stap_a payload
        else [])"

definition annex_b_from_rtp_payload :: "bytes \<Rightarrow> bytes option" where
  "annex_b_from_rtp_payload payload =
     (let ns = parse_rtp_h264 payload in if ns = [] then None else Some (nalus_to_annex_b ns))"

definition depacketizer_reset :: "depacketizer \<Rightarrow> depacketizer" where
  "depacketizer_reset d = d\<lparr>dp_fu_buffer := None\<rparr>"

definition push_fu_a ::
    "depacketizer \<Rightarrow> bytes \<Rightarrow> depacketizer \<times> (depacketize_error + bytes option)" where
  "push_fu_a d payload =
     (if length payload < 2 then (depacketizer_reset d, Inl ShortPacket)
      else
        let fu_indicator = payload ! 0; fu_header = payload ! 1;
            start = (fu_header AND 0x80 \<noteq> 0); end = (fu_header AND 0x40 \<noteq> 0);
            fragmented_nal_type = fu_header AND 0x1F;
            finish = (\<lambda>d. if end then (d\<lparr>dp_fu_buffer := None\<rparr>, Inr (dp_fu_buffer d))
                          else (d, Inr None))
        in if start then
             finish (d\<lparr>dp_fu_buffer :=
               Some ([0, 0, 0, 1] @ [(fu_indicator AND 0xE0) OR fragmented_nal_type] @ drop 2 payload)\<rparr>)
           else (case dp_fu_buffer d of
                   None \<Rightarrow> (d, Inl MissingFuStart)
                 | Some buffer \<Rightarrow> finish (d\<lparr>dp_fu_buffer := Some (buffer @ drop 2 payload)\<rparr>)))"

definition depacketizer_push ::
    "depacketizer \<Rightarrow> bytes \<Rightarrow> depacketizer \<times> (depacketize_error + bytes option)" where
  "depacketizer_push d payload =
     (if payload = [] then (d, Inr None)
      else let nal_type = hd payload AND 0x1F in
        if single_nal_type nal_type then
          (d, Inr (Some (nalus_to_annex_b [\<lparr>pn_nal_type = nal_type, pn_data = payload\<rparr>])))
        else if nal_type = STAP_A then
          (case parse_stap_a_checked payload of
             Inl e \<Rightarrow> (d, Inl e)
           | Inr ns \<Rightarrow> (d, Inr (Some (nalus_to_annex_b ns))))
        else if nal_type = FU_A then push_fu_a d payload
        else (d, Inl (UnsupportedNaluType nal_type)))"

definition contains_idr :: "parsed_nalu list \<Rightarrow> bool" where
  "contains_idr ns = list_ex (\<lambda>n. pn_nal_type n = 5) ns"

definition is_idr_rtp_payload :: "bytes \<Rightarrow> bool" where
  "is_idr_rtp_payload payload =
     (if payload = [] then False
      else let nal_type = hd payload AND 0x1F in
        if nal_type = 5 then True
        else if nal_type = STAP_A then contains_idr (parse_stap_a payload)
        else if nal_type = FU_A \<and> length payload \<ge> 2 then (payload ! 1) AND 0x1F = 5
        else False)"

fun collect_config :: "bytes option \<times> bytes option \<Rightarrow> parsed_nalu \<Rightarrow> bytes option \<times> bytes option" where
  "collect_config (sps, pps) n =
     (if pn_nal_type n = 7 then (Some (pn_data n), pps)
      else if pn_nal_type n = 8 then (sps, Some (pn_data n))
      else (sps, pps))"

definition extract_sps_pps_from_nalus :: "parsed_nalu list \<Rightarrow> bytes option \<times> bytes option" where
  "extract_sps_pps_from_nalus ns = foldl collect_config (None, None) ns"

definition is_fu_a_continuation :: "bytes \<Rightarrow> bool" where
  "is_fu_a_continuation payload =
     (if length payload < 2 \<or> (payload ! 0) AND 0x1F \<noteq> FU_A then False
      else \<not> ((payload ! 1) AND 0x80 \<noteq> 0))"

definition describe_rtp_payload :: "bytes \<Rightarrow> string" where
  "describe_rtp_payload payload =
     (let ns = parse_rtp_h264 payload in
      if ns = [] then
        let b0 = get_or_zero payload 0 in
        if b0 AND 0x1F = FU_A then
          ''fua-frag(type='' @ dec_str (unat (get_or_zero payload 1 AND 0x1F)) @ '')''
        else ''raw:'' @ dec_str (length payload) @ ''B b0=0x'' @ hex2 b0
      else join_with ''+''
        (map (\<lambda>n. nalu_type_name (pn_nal_type n) @ ''('' @ dec_str (length (pn_data n)) @ '')'') ns))"

definition hex_prefix :: "bytes \<Rightarrow> nat \<Rightarrow> string" where
  "hex_prefix payload n = join_with '' '' (map hex2 (take n payload))"

section \<open>Aggregates\<close>

definition stap_a_units :: "bytes list \<Rightarrow> bytes" where
  "stap_a_units ns = concat (map (\<lambda>n. be16_bytes (length n) @ n) ns)"

lemma stap_a_from_units:
  assumes "\<forall>n\<in>set ns. n \<noteq> [] \<and> length n < 65536"
  shows "stap_a_from (pre @ stap_a_units ns) (length pre) = Inr (map parsed_of ns)"
  using assms
proof (induction ns arbitrary: pre)
  case Nil
  then show ?case by (simp add: stap_a_from.simps stap_a_units_def)
next
  case (Cons n ns)
  let ?tail = "stap_a_units ns"
  have data: "pre @ stap_a_units (n # ns) = pre @ be16_bytes (length n) @ n @ ?tail"
    by (simp add: stap_a_units_def)
  have "be16 ((pre @ be16_bytes (length n) @ n @ ?tail) ! length pre)
      ((pre @ be16_bytes (length n) @ n @ ?tail) ! Suc (length pre)) = length n"
    using Cons.prems be16_bytes_inverse [of "length n"] by (simp add: nth_append be16_bytes_def)
  moreover have "stap_a_from ((pre @ be16_bytes (length n) @ n) @ ?tail)
      (length (pre @ be16_bytes (length n) @ n)) = Inr (map parsed_of ns)"
    using Cons.prems by (intro Cons.IH) simp
  moreover have "n \<noteq> []" using Cons.prems by simp
  ultimately show ?case
    unfolding data by (subst stap_a_from.simps) (simp add: Let_def add.assoc)
qed

lemma nalus_to_annex_b_parsed: "nalus_to_annex_b (map parsed_of ns) = annex_b_of ns"
  by (simp add: nalus_to_annex_b_def annex_b_of_def start_code_def parsed_of_def o_def)

section \<open>Fragments\<close>

text \<open>An FU-A payload: indicator, header with the start and end bits and the type, data.\<close>

definition fu_a :: "byte \<Rightarrow> bool \<Rightarrow> bool \<Rightarrow> bytes \<Rightarrow> bytes" where
  "fu_a nal_header start end data =
     [(nal_header AND 0x60) OR 28,
      (if start then 0x80 else 0) OR (if end then 0x40 else 0) OR (nal_header AND 0x1F)] @ data"

lemma fu_indicator_type: "((h AND 0x60) OR 28) AND 0x1F = (FU_A :: byte)"
  by (simp add: bit.conj_disj_distrib2 and.assoc FU_A_def)

lemma fu_header_type:
  "((if s then 0x80 else 0) OR (if e then 0x40 else 0) OR (h AND 0x1F)) AND 0x1F = (h AND 0x1F :: byte)"
  by (simp add: bit.conj_disj_distrib2 and.assoc)

lemma fu_header_start:
  "((if s then 0x80 else 0) OR (if e then 0x40 else 0) OR (h AND 0x1F)) AND 0x80 \<noteq> (0 :: byte) \<longleftrightarrow> s"
  by (simp add: bit.conj_disj_distrib2 and.assoc)

lemma fu_header_end:
  "((if s then 0x80 else 0) OR (if e then 0x40 else 0) OR (h AND 0x1F)) AND 0x40 \<noteq> (0 :: byte) \<longleftrightarrow> e"
  by (simp add: bit.conj_disj_distrib2 and.assoc)

lemma fu_nal_header: "(((h AND 0x60) OR 28) AND 0xE0) OR (h AND 0x1F) = (h AND 0x7F :: byte)"
proof -
  have "h AND 0x7F = h AND (0x60 OR 0x1F)" by simp
  also have "\<dots> = (h AND 0x60) OR (h AND 0x1F)" by (rule bit.conj_disj_distrib)
  finally show ?thesis by (simp add: bit.conj_disj_distrib2 and.assoc)
qed

lemma fu_a_push:
  shows "depacketizer_push d (fu_a h start end data) =
     (if start then
        (if end then (d\<lparr>dp_fu_buffer := None\<rparr>, Inr (Some ([0, 0, 0, 1] @ (h AND 0x7F) # data)))
         else (d\<lparr>dp_fu_buffer := Some ([0, 0, 0, 1] @ (h AND 0x7F) # data)\<rparr>, Inr None))
      else case dp_fu_buffer d of
          None \<Rightarrow> (d, Inl MissingFuStart)
        | Some buf \<Rightarrow>
            if end then (d\<lparr>dp_fu_buffer := None\<rparr>, Inr (Some (buf @ data)))
            else (d\<lparr>dp_fu_buffer := Some (buf @ data)\<rparr>, Inr None))"
proof -
  have not_other: "\<not> single_nal_type FU_A" "FU_A \<noteq> STAP_A"
    by (simp_all add: single_nal_type_def FU_A_def STAP_A_def)
  let ?f = "(if start then 0x80 else 0) OR (if end then 0x40 else 0) OR (h AND 0x1F) :: byte"
  have p: "fu_a h start end data ! 0 = (h AND 0x60) OR 28" "fu_a h start end data ! 1 = ?f"
    "drop 2 (fu_a h start end data) = data" "\<not> length (fu_a h start end data) < 2"
    "fu_a h start end data \<noteq> []" "hd (fu_a h start end data) = (h AND 0x60) OR 28"
    by (simp_all add: fu_a_def)
  show ?thesis
    unfolding depacketizer_push_def push_fu_a_def Let_def p fu_indicator_type fu_header_type
      fu_header_start fu_header_end fu_nal_header
    using not_other p(4,5) by (simp split: option.split)
qed

section \<open>Properties\<close>

text \<open>
  A STAP-A packet of any non-empty NAL units below 64 KiB is depacketized to exactly these units
  in Annex B, each behind a 4-byte start code, and leaves a fragment under assembly alone.
\<close>

theorem stap_a_roundtrip:
  assumes "\<forall>n\<in>set ns. n \<noteq> [] \<and> length n < 65536" and "h AND 0x1F = STAP_A"
  shows "depacketizer_push d (h # stap_a_units ns) = (d, Inr (Some (annex_b_of ns))) \<and>
     parse_rtp_h264 (h # stap_a_units ns) = map parsed_of ns"
proof -
  have "parse_stap_a_checked (h # stap_a_units ns) = Inr (map parsed_of ns)"
    using stap_a_from_units [OF assms(1), of "[h]"] by (simp add: parse_stap_a_checked_def)
  moreover have "\<not> single_nal_type STAP_A" by (simp add: single_nal_type_def STAP_A_def)
  ultimately show ?thesis
    using assms(2)
    by (simp add: depacketizer_push_def parse_rtp_h264_def parse_stap_a_def nalus_to_annex_b_parsed)
qed

theorem stap_a_roundtrip_witness:
  "depacketizer_push depacketizer_default [0x78, 0, 2, 0x67, 66, 0, 1, 0x68] =
     (depacketizer_default, Inr (Some [0, 0, 0, 1, 0x67, 66, 0, 0, 0, 1, 0x68]))"
  using stap_a_roundtrip [of "[[0x67, 66], [0x68]]" "0x78" depacketizer_default]
  by (simp add: STAP_A_def stap_a_units_def be16_bytes_def)

fun push_all_fragments :: "depacketizer \<Rightarrow> bytes list \<Rightarrow> depacketizer \<times> (depacketize_error + bytes option) list" where
  "push_all_fragments d [] = (d, [])"
| "push_all_fragments d (p # ps) =
     (case depacketizer_push d p of
        (d', r) \<Rightarrow> (case push_all_fragments d' ps of (d'', rs) \<Rightarrow> (d'', r # rs)))"

lemma push_rest_of_fragments:
  "push_all_fragments (d\<lparr>dp_fu_buffer := Some buf\<rparr>) (map (fu_a h False False) ms @ [fu_a h False True e]) =
     (d\<lparr>dp_fu_buffer := None\<rparr>, replicate (length ms) (Inr None) @ [Inr (Some (buf @ concat ms @ e))])"
  by (induction ms arbitrary: buf) (simp_all add: fu_a_push)

text \<open>
  FU-A fragments rebuild their NAL unit: whatever the depacketizer held before, a start
  fragment, any number of middle ones and an end fragment give nothing until the last, and then
  the unit with its data in order; of its header only the forbidden bit is lost.
\<close>

theorem fu_a_roundtrip:
  "push_all_fragments d (fu_a h True False s # map (fu_a h False False) ms @ [fu_a h False True e]) =
     (d\<lparr>dp_fu_buffer := None\<rparr>,
      replicate (Suc (length ms)) (Inr None) @ [Inr (Some ([0, 0, 0, 1] @ (h AND 0x7F) # s @ concat ms @ e))])"
  using push_rest_of_fragments [where d = d and buf = "[0, 0, 0, 1] @ (h AND 0x7F) # s"]
  by (simp add: fu_a_push)

end
