(* ===== verification/Rtp_Ingest.thy ===== *)
theory Rtp_Ingest
  imports Rtp_H264 Stream_Manager
begin

text \<open>
  \<open>src/src/server/webrtc/h264_rtp_ingest.rs\<close>: from RTP packets to access units. The ingest
  strips the RTP header, drops what a sequence gap made incomplete, depacketizes, collects the
  parts of one timestamp and publishes them as one frame on the marker or on the first packet of
  the next timestamp. The stream manager it shares is threaded through; \<open>None\<close> is a
  \<open>publish_frame\<close> that does not return. Log lines are left out.
\<close>

record access_unit_batch =
  au_timestamp :: "32 word"
  au_parts :: "bytes list"
  au_is_keyframe :: bool

definition batch_default :: access_unit_batch where
  "batch_default = \<lparr>au_timestamp = 0, au_parts = [], au_is_keyframe = False\<rparr>"

record h264_rtp_ingest =
  ig_stream_id :: stream_id
  ig_depacketizer :: depacketizer
  ig_batch :: access_unit_batch
  ig_expected_seq :: "16 word option"
  ig_units :: nat

definition ingest_new :: "stream_id \<Rightarrow> h264_rtp_ingest" where
  "ingest_new sid = \<lparr>ig_stream_id = sid, ig_depacketizer = depacketizer_default,
     ig_batch = batch_default, ig_expected_seq = None, ig_units = 0\<rparr>"

section \<open>The RTP header\<close>

record rtp_info =
  ri_payload :: bytes
  ri_timestamp :: "32 word"
  ri_marker :: bool
  ri_sequence_number :: "16 word"

definition rtp_h264_packet_info :: "bytes \<Rightarrow> rtp_info option" where
  "rtp_h264_packet_info rtp =
     (if length rtp < 12 then None
      else
        let marker = ((rtp ! 1) AND 0x80 \<noteq> 0);
            seq = word_of_nat (be16 (rtp ! 2) (rtp ! 3));
            ts = be32 (rtp ! 4) (rtp ! 5) (rtp ! 6) (rtp ! 7);
            extension = drop_bit 4 (rtp ! 0) AND 0x01;
            csrc_count = unat ((rtp ! 0) AND 0x0F);
            i = 12 + csrc_count * 4
        in if i > length rtp then None
           else if extension \<noteq> 0 \<and> i + 4 > length rtp then None
           else
             let j = (if extension \<noteq> 0 then i + (be16 (rtp ! (i + 2)) (rtp ! (i + 3)) * 4 + 4) else i)
             in if j \<ge> length rtp then None
                else Some \<lparr>ri_payload = drop j rtp, ri_timestamp = ts, ri_marker = marker,
                           ri_sequence_number = seq\<rparr>)"

definition rtp_h264_media_payload :: "bytes \<Rightarrow> (bytes \<times> 32 word \<times> bool) option" where
  "rtp_h264_media_payload rtp =
     map_option (\<lambda>info. (ri_payload info, ri_timestamp info, ri_marker info)) (rtp_h264_packet_info rtp)"

section \<open>Parameter sets\<close>

definition store_nalu_config_from_rtp :: "stream_manager \<Rightarrow> stream_id \<Rightarrow> bytes \<Rightarrow> stream_manager" where
  "store_nalu_config_from_rtp m sid payload =
     (let ns = parse_rtp_h264 payload in
      case extract_sps_pps_from_nalus ns of
        (Some sps, Some pps) \<Rightarrow> set_stream_sps_pps m sid sps pps
      | _ \<Rightarrow>
          if (case get_stream m sid of
                Some s \<Rightarrow> st_sps s \<noteq> None \<and> st_pps s \<noteq> None | None \<Rightarrow> False) then m
          else foldl (\<lambda>m n. if pn_nal_type n = 7 \<or> pn_nal_type n = 8
                            then merge_stream_nalu_config m sid (pn_data n) else m) m ns)"

section \<open>Access units\<close>

text \<open>\<open>h264_rtp_to_annex_b\<close>: the Annex B data a packet completes, and whether it is an IDR.\<close>

definition h264_rtp_to_annex_b ::
    "depacketizer \<Rightarrow> bytes \<Rightarrow> stream_id \<Rightarrow> stream_manager \<Rightarrow>
     depacketizer \<times> stream_manager \<times> (bytes \<times> bool) option" where
  "h264_rtp_to_annex_b d payload sid m =
     (let m' = store_nalu_config_from_rtp m sid payload;
          is_keyframe_rtp = (contains_idr (parse_rtp_h264 payload) \<or> is_idr_rtp_payload payload)
      in case depacketizer_push d payload of
           (d', Inr None) \<Rightarrow> (d', m', None)
         | (d', Inr (Some annex_b)) \<Rightarrow>
             (d', m', Some (annex_b, is_keyframe_rtp \<or> is_keyframe_annex_b annex_b))
         | (d', Inl _) \<Rightarrow>
             (d', m', map_option (\<lambda>annex_b. (annex_b, is_keyframe_rtp \<or> is_keyframe_annex_b annex_b))
                        (annex_b_from_rtp_payload payload)))"

definition VIDEO_RTP_CLOCK_RATE :: nat where
  "VIDEO_RTP_CLOCK_RATE = 90000"

definition clear_parts :: "h264_rtp_ingest \<Rightarrow> h264_rtp_ingest" where
  "clear_parts g = g\<lparr>ig_batch := (ig_batch g)\<lparr>au_parts := [], au_is_keyframe := False\<rparr>\<rparr>"

type_synonym ingest_state = "h264_rtp_ingest \<times> stream_manager"

definition unit_frame :: "h264_rtp_ingest \<Rightarrow> media_frame" where
  "unit_frame g =
     (let combined = concat (au_parts (ig_batch g)) in
      with_clock_rate
        (media_frame_new (ig_stream_id g) 0 (unat (au_timestamp (ig_batch g))) combined
           (au_is_keyframe (ig_batch g) \<or> is_keyframe_annex_b combined) H264)
        VIDEO_RTP_CLOCK_RATE)"

definition flush_access_unit :: "ingest_state \<Rightarrow> (ingest_state \<times> bool) option" where
  "flush_access_unit st =
     (let (g, m) = st in
      if au_parts (ig_batch g) = [] then Some ((g, m), False)
      else if \<not> contains_vcl_nalu (concat (au_parts (ig_batch g))) then Some ((clear_parts g, m), False)
      else case publish_frame m (unit_frame g) of
          None \<Rightarrow> None
        | Some m' \<Rightarrow> Some ((clear_parts (g\<lparr>ig_units := ig_units g + 1\<rparr>), m'), True))"

definition flush_remaining :: "ingest_state \<Rightarrow> (ingest_state \<times> bool) option" where
  "flush_remaining st = flush_access_unit st"

definition add_part :: "h264_rtp_ingest \<Rightarrow> 32 word \<Rightarrow> bytes \<Rightarrow> bool \<Rightarrow> h264_rtp_ingest" where
  "add_part g ts data key =
     (let b = (if au_parts (ig_batch g) = [] then (ig_batch g)\<lparr>au_timestamp := ts\<rparr> else ig_batch g)
      in g\<lparr>ig_batch := b\<lparr>au_parts := au_parts b @ [data], au_is_keyframe := au_is_keyframe b \<or> key\<rparr>\<rparr>)"

text \<open>What \<open>ingest_payload\<close> does with the data a packet completed.\<close>

definition collect_part ::
    "ingest_state \<Rightarrow> 32 word \<Rightarrow> bool \<Rightarrow> bytes \<Rightarrow> bool \<Rightarrow> (ingest_state \<times> bool) option" where
  "collect_part st ts marker data key =
     (let (g, m) = st in
      if is_parameter_set_only data then Some ((g, m), False)
      else
        (case (if au_parts (ig_batch g) \<noteq> [] \<and> au_timestamp (ig_batch g) \<noteq> ts
               then flush_access_unit (g, m) else Some ((g, m), False)) of
           None \<Rightarrow> None
         | Some ((g2, m2), published) \<Rightarrow>
             let g3 = add_part g2 ts data key in
             if marker then
               map_option (\<lambda>(st', p). (st', published \<or> p)) (flush_access_unit (g3, m2))
             else Some ((g3, m2), published)))"

definition ingest_payload :: "ingest_state \<Rightarrow> bytes \<Rightarrow> 32 word \<Rightarrow> bool \<Rightarrow> (ingest_state \<times> bool) option" where
  "ingest_payload st payload ts marker =
     (let (g, m) = st in
      if payload = [] then Some ((g, m), False)
      else case h264_rtp_to_annex_b (ig_depacketizer g) payload (ig_stream_id g) m of
          (d', m', None) \<Rightarrow> Some ((g\<lparr>ig_depacketizer := d'\<rparr>, m'), False)
        | (d', m', Some (data, key)) \<Rightarrow>
            collect_part (g\<lparr>ig_depacketizer := d'\<rparr>, m') ts marker data key)"

definition discard_partial_access_unit :: "h264_rtp_ingest \<Rightarrow> h264_rtp_ingest" where
  "discard_partial_access_unit g =
     clear_parts (g\<lparr>ig_depacketizer := depacketizer_reset (ig_depacketizer g)\<rparr>)"

definition accept_sequence :: "h264_rtp_ingest \<Rightarrow> 16 word \<Rightarrow> bytes \<Rightarrow> h264_rtp_ingest \<times> bool" where
  "accept_sequence g seq payload =
     (let gap = (case ig_expected_seq g of Some e \<Rightarrow> seq \<noteq> e | None \<Rightarrow> False);
          g1 = g\<lparr>ig_expected_seq := Some (seq + 1)\<rparr>
      in if \<not> gap then (g1, True)
         else (discard_partial_access_unit g1, \<not> is_fu_a_continuation payload))"

definition ingest_rtp_packet :: "ingest_state \<Rightarrow> bytes \<Rightarrow> (ingest_state \<times> bool) option" where
  "ingest_rtp_packet st rtp =
     (let (g, m) = st in
      case rtp_h264_packet_info rtp of
        None \<Rightarrow> Some ((g, m), False)
      | Some info \<Rightarrow>
          (case accept_sequence g (ri_sequence_number info) (ri_payload info) of
             (g', False) \<Rightarrow> Some ((g', m), False)
           | (g', True) \<Rightarrow>
               ingest_payload (g', m) (ri_payload info) (ri_timestamp info) (ri_marker info)))"

text \<open>A run of packets, with what each call reported.\<close>

definition ingest_packets :: "ingest_state \<Rightarrow> bytes list \<Rightarrow> (ingest_state \<times> bool list) option" where
  "ingest_packets st ps = run_steps ingest_rtp_packet st ps"

section \<open>One packet at a time\<close>

lemma u16_inverse: "be16 (ucast (drop_bit 8 w)) (ucast (w :: 16 word)) = unat w"
proof -
  have "unat w < 65536" using unsigned_less [of w] by simp
  then have lt: "unat w div 256 < 256" by simp
  have hi: "unat (ucast (drop_bit 8 w) :: 8 word) = unat w div 256"
    using lt by (simp add: unsigned_ucast_eq unsigned_drop_bit_eq) (simp add: take_bit_eq_mod drop_bit_eq_div)
  have lo: "unat (ucast w :: 8 word) = unat w mod 256"
    by (simp add: unsigned_ucast_eq) (simp add: take_bit_eq_mod)
  show ?thesis unfolding be16_eq hi lo by simp
qed

lemma header_type_annex_b:
  assumes "nal_ok n"
  shows "is_parameter_set_only (start_code @ n) \<longleftrightarrow> nal_kind n \<in> {7, 8, 9}"
    and "is_keyframe_annex_b (start_code @ n) \<longleftrightarrow> nal_kind n = 5"
proof -
  have ok: "\<forall>x\<in>set [n]. nal_ok x" using assms by simp
  have a: "start_code @ n = annex_b_of [n]" by (simp add: start_code_def)
  show "is_parameter_set_only (start_code @ n) \<longleftrightarrow> nal_kind n \<in> {7, 8, 9}"
    unfolding a using is_parameter_set_only_annex_b [OF ok] by simp
  have "first_nalu_type (start_code @ n) = Some (nal_kind n)"
    using assms by (cases n) (simp_all add: nal_ok_def first_nalu_type_def first_nalu_header_offset_def
        start_code_def nalu_type_def nal_kind_def)
  moreover have "contains_idr_nalu (start_code @ n) \<longleftrightarrow> nal_kind n = 5"
    unfolding a using contains_nalu_type_annex_b [OF ok, of 5] by (simp add: contains_idr_nalu_def)
  ultimately show "is_keyframe_annex_b (start_code @ n) \<longleftrightarrow> nal_kind n = 5"
    by (simp add: is_keyframe_annex_b_def)
qed

text \<open>Payloads without parameter sets leave the manager alone.\<close>

lemma store_config_none:
  assumes "\<forall>n\<in>set (parse_rtp_h264 payload). pn_nal_type n \<noteq> 7 \<and> pn_nal_type n \<noteq> 8"
  shows "store_nalu_config_from_rtp m sid payload = m"
proof -
  have "foldl collect_config acc ns = acc"
    if "\<forall>n\<in>set ns. pn_nal_type n \<noteq> 7 \<and> pn_nal_type n \<noteq> 8" for acc ns
    using that by (induction ns arbitrary: acc) (auto split: prod.splits)
  then have "extract_sps_pps_from_nalus (parse_rtp_h264 payload) = (None, None)"
    using assms by (simp add: extract_sps_pps_from_nalus_def)
  moreover have "foldl (\<lambda>m n. if pn_nal_type n = 7 \<or> pn_nal_type n = 8
      then merge_stream_nalu_config m sid (pn_data n) else m) m ns = m"
    if "\<forall>n\<in>set ns. pn_nal_type n \<noteq> 7 \<and> pn_nal_type n \<noteq> 8" for ns
    using that by (induction ns) auto
  from this [OF assms] calculation show ?thesis
    by (simp add: store_nalu_config_from_rtp_def Let_def)
qed

lemma single_nal_to_annex_b:
  assumes "nal_ok n" and "single_nal_type (nal_kind n)" and "nal_kind n \<notin> {7, 8}"
  shows "h264_rtp_to_annex_b d n sid m = (d, m, Some (start_code @ n, nal_kind n = 5))"
proof -
  have ne: "n \<noteq> []" using assms(1) by (simp add: nal_ok_def)
  have parse: "parse_rtp_h264 n = [\<lparr>pn_nal_type = nal_kind n, pn_data = n\<rparr>]"
    using ne assms(2) by (simp add: parse_rtp_h264_def nal_kind_def Let_def)
  moreover have "is_idr_rtp_payload n \<longrightarrow> nal_kind n = 5"
    using assms(2) ne
    by (auto simp: is_idr_rtp_payload_def nal_kind_def Let_def single_nal_type_def STAP_A_def FU_A_def
        split: if_splits)
  moreover have "depacketizer_push d n = (d, Inr (Some (start_code @ n)))"
    using ne assms(2)
    by (simp add: depacketizer_push_def nal_kind_def Let_def nalus_to_annex_b_def start_code_def)
  ultimately show ?thesis
    using store_config_none [of n m sid] assms(3) header_type_annex_b(2) [OF assms(1)]
    by (auto simp: h264_rtp_to_annex_b_def Let_def contains_idr_def)
qed

lemma fu_a_parse:
  "parse_rtp_h264 (fu_a h s e data) = []" "is_idr_rtp_payload (fu_a h s e data) = (h AND 0x1F = 5)"
proof -
  have "hd (fu_a h s e data) AND 0x1F = FU_A" using fu_indicator_type [of h] by (simp add: fu_a_def)
  moreover have "(fu_a h s e data ! 1) AND 0x1F = h AND 0x1F"
    using fu_header_type [of s e h] by (simp add: fu_a_def)
  moreover have "fu_a h s e data \<noteq> []" "length (fu_a h s e data) \<ge> 2" by (simp_all add: fu_a_def)
  moreover have "\<not> single_nal_type FU_A" "FU_A \<noteq> STAP_A" "FU_A \<noteq> 5"
    by (simp_all add: single_nal_type_def FU_A_def STAP_A_def)
  ultimately show "parse_rtp_h264 (fu_a h s e data) = []"
    "is_idr_rtp_payload (fu_a h s e data) = (h AND 0x1F = 5)"
    by (simp_all add: parse_rtp_h264_def is_idr_rtp_payload_def Let_def)
qed

lemma fu_a_to_annex_b:
  "h264_rtp_to_annex_b d (fu_a h s e data) sid m =
     (case depacketizer_push d (fu_a h s e data) of
        (d', Inr None) \<Rightarrow> (d', m, None)
      | (d', Inr (Some annex_b)) \<Rightarrow> (d', m, Some (annex_b, h AND 0x1F = 5 \<or> is_keyframe_annex_b annex_b))
      | (d', Inl _) \<Rightarrow> (d', m, None))"
  using store_config_none [of "fu_a h s e data" m sid] fu_a_parse [of h s e data]
  by (simp add: h264_rtp_to_annex_b_def contains_idr_def annex_b_from_rtp_payload_def
      split: prod.split sum.split option.split)

lemma rtp_packet_info_layout:
  assumes "drop_bit 4 b0 AND 0x01 = 0" and "length csrc = unat (b0 AND 0x0F) * 4" and "payload \<noteq> []"
    and "length ssrc = 4"
  shows "rtp_h264_packet_info
      ([b0, b1, ucast (drop_bit 8 seq), ucast seq] @ be32_bytes ts @ ssrc @ csrc @ payload) =
    Some \<lparr>ri_payload = payload, ri_timestamp = ts, ri_marker = (b1 AND 0x80 \<noteq> 0), ri_sequence_number = seq\<rparr>"
proof -
  let ?rtp = "[b0, b1, ucast (drop_bit 8 seq), ucast seq] @ be32_bytes ts @ ssrc @ csrc @ payload"
  let ?i = "12 + unat (b0 AND 0x0F) * 4"
  have len: "length ?rtp = ?i + length payload" using assms(2,4) by simp
  have pay: "drop ?i ?rtp = payload"
  proof -
    have "?rtp = ([b0, b1, ucast (drop_bit 8 seq), ucast seq] @ be32_bytes ts @ ssrc @ csrc) @ payload"
      by simp
    moreover have "length ([b0, b1, ucast (drop_bit 8 seq), ucast seq] @ be32_bytes ts @ ssrc @ csrc) = ?i"
      using assms(2,4) by simp
    ultimately show ?thesis by (metis append_eq_conv_conj)
  qed
  have fields: "?rtp ! 0 = b0" "?rtp ! 1 = b1" "?rtp ! 2 = ucast (drop_bit 8 seq)" "?rtp ! 3 = ucast seq"
    "be32 (?rtp ! 4) (?rtp ! 5) (?rtp ! 6) (?rtp ! 7) = ts"
    by (simp_all add: be32_bytes_def be32_bytes_inverse)
  show ?thesis
    unfolding rtp_h264_packet_info_def Let_def fields u16_inverse len
    using assms(1,3) pay by simp
qed

section \<open>Properties\<close>

text \<open>
  An RTP packet with any number of CSRC entries and without an extension is read as RFC 3550
  lays it out: payload behind 12 + 4 * CC bytes, big-endian sequence number and timestamp,
  marker from the top bit of the second byte. The padding bit is not looked at: padding bytes
  stay in the payload.
\<close>

theorem rtp_packet_info_reads_header:
  assumes "drop_bit 4 b0 AND 0x01 = 0" and "length csrc = unat (b0 AND 0x0F) * 4" and "payload \<noteq> []"
    and "length ssrc = 4"
  shows "rtp_h264_packet_info
      ([b0, b1, ucast (drop_bit 8 seq), ucast seq] @ be32_bytes ts @ ssrc @ csrc @ payload) =
    Some \<lparr>ri_payload = payload, ri_timestamp = ts, ri_marker = (b1 AND 0x80 \<noteq> 0), ri_sequence_number = seq\<rparr>"
  by (rule rtp_packet_info_layout [OF assms])

theorem rtp_packet_info_reads_header_witness:
  "rtp_h264_packet_info [0x81, 0xE0, 0, 0x34, 0, 0, 0, 2, 9, 9, 9, 9, 5, 5, 5, 5, 0x65, 7] =
     Some \<lparr>ri_payload = [0x65, 7], ri_timestamp = 2, ri_marker = True, ri_sequence_number = 0x34\<rparr>"
  using rtp_packet_info_reads_header [of "0x81" "[5, 5, 5, 5]" "[0x65, 7]" "[9, 9, 9, 9]" "0xE0" "0x34" 2]
  by (simp add: be32_bytes_def)

end
