(* ===== verification/Rtsp_Rtp.thy ===== *)
theory Rtsp_Rtp
  imports Rtp_Ingest
begin

text \<open>
  The media half of \<open>src/src/server/rtsp/common.rs\<close> and \<open>play_egress.rs\<close>: interleaved frames, RTP
  and RTCP packets, H.264 packetization (single NAL unit and FU-A), the RTSP-side search for
  parameter sets, and AAC in RFC 3640 payloads. Sequence numbers and timestamps are words that
  wrap. A slice index out of bounds or a division by zero panics: \<open>None\<close>.
\<close>

section \<open>Interleaved frames and RTP packets\<close>

definition u16_bytes :: "16 word \<Rightarrow> bytes" where
  "u16_bytes w = [ucast (drop_bit 8 w), ucast w]"

definition parse_interleaved :: "bytes \<Rightarrow> (byte \<times> bytes) option" where
  "parse_interleaved data =
     (if data = [] \<or> data ! 0 \<noteq> 0x24 then None
      else if length data < 4 then None
      else let len = be16 (data ! 2) (data ! 3) in
        if length data < 4 + len then None
        else Some (data ! 1, take len (drop 4 data)))"

definition wrap_interleaved :: "bytes \<Rightarrow> byte \<Rightarrow> bytes" where
  "wrap_interleaved data channel = [0x24, channel] @ be16_bytes (length data) @ data"

definition build_rtp_packet :: "byte \<Rightarrow> 16 word \<Rightarrow> 32 word \<Rightarrow> 32 word \<Rightarrow> bool \<Rightarrow> bytes \<Rightarrow> bytes" where
  "build_rtp_packet payload_type seq ts ssrc marker payload =
     [push_bit 6 2 OR 0, (if marker then push_bit 7 1 else 0) OR payload_type] @
     u16_bytes seq @ be32_bytes ts @ be32_bytes ssrc @ payload"

record rtp_header =
  rh_version :: byte
  rh_padding :: byte
  rh_extension :: byte
  rh_csrc_count :: byte
  rh_marker :: byte
  rh_payload_type :: byte
  rh_sequence_number :: "16 word"
  rh_timestamp :: "32 word"
  rh_ssrc :: "32 word"

definition parse_rtp_header :: "bytes \<Rightarrow> rtp_header option" where
  "parse_rtp_header d =
     (if length d < 12 then None
      else Some
        \<lparr>rh_version = drop_bit 6 (d ! 0) AND 0x03, rh_padding = drop_bit 5 (d ! 0) AND 0x01,
         rh_extension = drop_bit 4 (d ! 0) AND 0x01, rh_csrc_count = (d ! 0) AND 0x0F,
         rh_marker = drop_bit 7 (d ! 1) AND 0x01, rh_payload_type = (d ! 1) AND 0x7F,
         rh_sequence_number = push_bit 8 (ucast (d ! 2)) OR ucast (d ! 3),
         rh_timestamp = be32 (d ! 4) (d ! 5) (d ! 6) (d ! 7),
         rh_ssrc = be32 (d ! 8) (d ! 9) (d ! 10) (d ! 11)\<rparr>)"

definition convert_timestamp_to_rtp :: "nat \<Rightarrow> nat \<Rightarrow> nat" where
  "convert_timestamp_to_rtp ms clock = wrap32 (wrap64 (ms * clock) div 1000)"

definition convert_rtp_timestamp_to_ms :: "nat \<Rightarrow> nat \<Rightarrow> nat option" where
  "convert_rtp_timestamp_to_ms ts clock = (if clock = 0 then None else Some (ts * 1000 div clock))"

definition build_rtcp_rr :: "32 word \<Rightarrow> 16 word \<Rightarrow> 32 word \<Rightarrow> 32 word \<Rightarrow> 32 word \<Rightarrow> bytes" where
  "build_rtcp_rr ssrc last_seq jitter lsr dlsr =
     [push_bit 6 2 OR (0 AND 0x1F), 201] @ u16_bytes 4 @ be32_bytes ssrc @ be32_bytes ssrc @
     u16_bytes last_seq @ be32_bytes jitter @ be32_bytes lsr @ be32_bytes dlsr"

definition build_rtcp_sr :: "32 word \<Rightarrow> 32 word \<Rightarrow> 32 word \<Rightarrow> 32 word \<Rightarrow> bytes" where
  "build_rtcp_sr ssrc timestamp packet_count octet_count =
     [push_bit 6 2 OR (0 AND 0x1F), 200] @ u16_bytes 6 @ be32_bytes ssrc @
     be32_bytes (ucast (drop_bit 32 (ucast timestamp :: 64 word))) @ be32_bytes timestamp @
     be32_bytes timestamp @ be32_bytes packet_count @ be32_bytes octet_count"

definition is_rtcp_packet :: "bytes \<Rightarrow> bool" where
  "is_rtcp_packet data =
     (if length data < 2 then False else data ! 1 \<in> {200, 201, 202, 203})"

section \<open>Searching NAL units behind 3- and 4-byte start codes\<close>

text \<open>The inner loop: it stops at a start code or four bytes before the end of the payload.\<close>

function next_start :: "bytes \<Rightarrow> nat \<Rightarrow> nat" where
  "next_start p n =
     (if n < length p - 4 then
        if p ! n = 0 \<and> p ! (n + 1) = 0 then
          if p ! (n + 2) = 1 then n
          else if p ! (n + 2) = 0 \<and> p ! (n + 3) = 1 then n + 1
          else next_start p (n + 1)
        else next_start p (n + 1)
      else n)"
  by pat_completeness auto
termination
  by (relation "measure (\<lambda>(p, n). length p - 4 - n)") auto

declare next_start.simps [simp del]

lemma next_start_ge: "n \<le> next_start p n"
proof (induction p n rule: next_start.induct)
  case (1 p n)
  then show ?case by (subst next_start.simps) auto
qed

definition unit_at :: "bytes \<Rightarrow> nat \<Rightarrow> nat \<Rightarrow> bytes" where
  "unit_at p i ns = (if ns < length p - 4 then take (ns - i) (drop i p) else drop i p)"

text \<open>The index behind the next start code; its read \<open>payload[next_start + 2]\<close> may be out of bounds.\<close>

definition after_start :: "bytes \<Rightarrow> nat \<Rightarrow> nat option" where
  "after_start p ns = (if ns + 2 < length p then Some (ns + (if p ! (ns + 2) = 1 then 3 else 4)) else None)"

lemma after_start_gt: "after_start p ns = Some j \<Longrightarrow> ns < j"
  by (auto simp: after_start_def split: if_splits)

definition header_type :: "bytes \<Rightarrow> nat \<Rightarrow> byte option" where
  "header_type p i =
     (if (p ! i) AND 0x1F = 0 then
        if i + 1 < length p then Some ((p ! (i + 1)) AND 0x1F) else None
      else Some ((p ! i) AND 0x1F))"

text \<open>Both searches share this walk; each unit comes with the type \<open>parse_h264_nal_units\<close> reads.\<close>

function units_from :: "bytes \<Rightarrow> nat \<Rightarrow> bytes list option" where
  "units_from p i =
     (if i < length p then
        let ns = next_start p i; u = unit_at p i ns in
        case after_start p ns of
          None \<Rightarrow> None
        | Some j \<Rightarrow>
            (case units_from p j of
               None \<Rightarrow> None
             | Some us \<Rightarrow> Some ((if u \<noteq> [] then [u] else []) @ us))
      else Some [])"
  by pat_completeness auto
termination
proof (relation "measure (\<lambda>(p, i). length p - i)", goal_cases)
  case (2 p i ns u j)
  then show ?case using next_start_ge [of i p] after_start_gt [of p ns j] by simp
qed simp

declare units_from.simps [simp del]

function typed_units_from :: "bytes \<Rightarrow> nat \<Rightarrow> (byte \<times> bytes) list option" where
  "typed_units_from p i =
     (if i < length p then
        let ns = next_start p i; u = unit_at p i ns in
        case header_type p i of
          None \<Rightarrow> None
        | Some t \<Rightarrow>
            (case after_start p ns of
               None \<Rightarrow> None
             | Some j \<Rightarrow>
                 (case typed_units_from p j of
                    None \<Rightarrow> None
                  | Some us \<Rightarrow> Some ((if u \<noteq> [] then [(t, u)] else []) @ us)))
      else Some [])"
  by pat_completeness auto
termination
proof (relation "measure (\<lambda>(p, i). length p - i)", goal_cases)
  case (2 p i ns u t j)
  then show ?case using next_start_ge [of i p] after_start_gt [of p ns j] by simp
qed simp

declare typed_units_from.simps [simp del]

definition has_start_code :: "bytes \<Rightarrow> bool" where
  "has_start_code p \<longleftrightarrow> length p \<ge> 4 \<and> p ! 0 = 0 \<and> p ! 1 = 0"

definition start_code_len :: "bytes \<Rightarrow> nat" where
  "start_code_len p = (if p ! 2 = 1 then 3 else 4)"

definition parse_h264_nal_units :: "bytes \<Rightarrow> (bytes list \<times> bool \<times> bool \<times> bool) option" where
  "parse_h264_nal_units p =
     (let result = (\<lambda>us. (map snd us, 7 \<in> fst ` set us, 8 \<in> fst ` set us, 5 \<in> fst ` set us)) in
      if has_start_code p then map_option result (typed_units_from p (start_code_len p))
      else if p \<noteq> [] then Some (result [((p ! 0) AND 0x1F, p)])
      else Some (result []))"

text \<open>The first SPS and the first PPS of a list of units.\<close>

definition first_of_type :: "byte \<Rightarrow> bytes list \<Rightarrow> bytes option" where
  "first_of_type t us = find (\<lambda>u. hd u AND 0x1F = t) us"

definition rtsp_extract_sps_pps :: "bytes \<Rightarrow> (bytes option \<times> bytes option) option" where
  "rtsp_extract_sps_pps p =
     (if has_start_code p then
        map_option (\<lambda>us. (first_of_type 7 us, first_of_type 8 us)) (units_from p (start_code_len p))
      else if p \<noteq> [] then
        let t = (p ! 0) AND 0x1F in
        Some (if t = 7 then (Some p, None) else if t = 8 then (None, Some p) else (None, None))
      else Some (None, None))"

section \<open>H.264 packetization\<close>

definition h264_nal_to_rtp_payload :: "bytes \<Rightarrow> bytes" where
  "h264_nal_to_rtp_payload nal = be32_bytes (word_of_nat (length nal)) @ nal"

definition h264_nal_units_to_rtp_payload :: "bytes list \<Rightarrow> bytes" where
  "h264_nal_units_to_rtp_payload ns = concat (map (\<lambda>n. be32_bytes (word_of_nat (length n)) @ n) ns)"

definition create_h264_keyframe_rtp_packets ::
    "bytes \<Rightarrow> bytes \<Rightarrow> 16 word \<Rightarrow> 32 word \<Rightarrow> 32 word \<Rightarrow> bytes list" where
  "create_h264_keyframe_rtp_packets sps pps seq ts ssrc =
     (if sps \<noteq> [] then [build_rtp_packet 96 seq ts ssrc False sps] else []) @
     (if pps \<noteq> [] then [build_rtp_packet 96 (seq + 1) ts ssrc False pps] else [])"

definition UDP_RTP_MAX_PAYLOAD :: nat where
  "UDP_RTP_MAX_PAYLOAD = 1200"

text \<open>The fragmenting loop; \<open>offset\<close> grows by at least one byte each turn.\<close>

function fu_a_loop ::
    "bytes \<Rightarrow> byte \<Rightarrow> byte \<Rightarrow> byte \<Rightarrow> 32 word \<Rightarrow> 32 word \<Rightarrow> bool \<Rightarrow> 16 word \<Rightarrow> nat \<Rightarrow> bytes list \<times> 16 word" where
  "fu_a_loop data fu_indicator nal_type pt ts ssrc marker seq i =
     (if i < length data then
        let chunk_size = min (length data - i) (UDP_RTP_MAX_PAYLOAD - 2);
            is_start = (i = 0);
            is_end = (i + chunk_size \<ge> length data);
            fu_header = (if is_start then 0x80 else 0) OR (if is_end then 0x40 else 0) OR nal_type;
            payload = [fu_indicator, fu_header] @ take chunk_size (drop i data);
            pkt = build_rtp_packet pt seq ts ssrc (marker \<and> is_end) payload;
            (pkts, seq') = fu_a_loop data fu_indicator nal_type pt ts ssrc marker (seq + 1) (i + chunk_size)
        in (pkt # pkts, seq')
      else ([], seq))"
  by pat_completeness auto
termination
  by (relation "measure (\<lambda>(data, _, _, _, _, _, _, _, i). length data - i)")
    (auto simp: UDP_RTP_MAX_PAYLOAD_def)

declare fu_a_loop.simps [simp del]

definition packetize_h264_nal_for_rtp ::
    "bytes \<Rightarrow> byte \<Rightarrow> 16 word \<Rightarrow> 32 word \<Rightarrow> 32 word \<Rightarrow> bool \<Rightarrow> bytes list \<times> 16 word" where
  "packetize_h264_nal_for_rtp nal pt seq ts ssrc marker =
     (if nal = [] then ([], seq)
      else if length nal \<le> UDP_RTP_MAX_PAYLOAD then ([build_rtp_packet pt seq ts ssrc marker nal], seq + 1)
      else fu_a_loop (tl nal) ((hd nal AND 0x60) OR 28) (hd nal AND 0x1F) pt ts ssrc marker seq 0)"

fun packetize_units ::
    "bytes list \<Rightarrow> byte \<Rightarrow> 16 word \<Rightarrow> 32 word \<Rightarrow> 32 word \<Rightarrow> bytes list \<times> 16 word" where
  "packetize_units [] pt seq ts ssrc = ([], seq)"
| "packetize_units (n # ns) pt seq ts ssrc =
     (let (ps, seq1) = packetize_h264_nal_for_rtp n pt seq ts ssrc (ns = []);
          (qs, seq2) = packetize_units ns pt seq1 ts ssrc
      in (ps @ qs, seq2))"

definition packetize_h264_access_unit_for_rtp ::
    "bytes \<Rightarrow> byte \<Rightarrow> 16 word \<Rightarrow> 32 word \<Rightarrow> 32 word \<Rightarrow> bytes list \<times> 16 word" where
  "packetize_h264_access_unit_for_rtp annex_b pt seq ts ssrc =
     packetize_units (map (nal_slice annex_b) (iter_annex_b_nal_ranges annex_b)) pt seq ts ssrc"

section \<open>Transports\<close>

record udp_transport =
  ut_client_rtp_port :: nat
  ut_client_rtcp_port :: nat
  ut_server_rtp_port :: nat
  ut_server_rtcp_port :: nat
  ut_is_tcp :: bool

definition new_tcp :: udp_transport where
  "new_tcp = \<lparr>ut_client_rtp_port = 0, ut_client_rtcp_port = 0, ut_server_rtp_port = 0,
     ut_server_rtcp_port = 0, ut_is_tcp = True\<rparr>"

definition new_udp :: "nat \<Rightarrow> nat \<Rightarrow> nat \<Rightarrow> nat \<Rightarrow> udp_transport" where
  "new_udp client_rtp client_rtcp server_rtp server_rtcp =
     \<lparr>ut_client_rtp_port = client_rtp, ut_client_rtcp_port = client_rtcp,
      ut_server_rtp_port = server_rtp, ut_server_rtcp_port = server_rtcp, ut_is_tcp = False\<rparr>"

section \<open>AAC in RFC 3640 payloads\<close>

definition AAC_HBR_SIZE_LENGTH :: nat where "AAC_HBR_SIZE_LENGTH = 13"
definition AAC_HBR_INDEX_LENGTH :: nat where "AAC_HBR_INDEX_LENGTH = 3"

definition aac_payload_without_adts :: "bytes \<Rightarrow> bytes" where
  "aac_payload_without_adts data =
     (if length data \<ge> 7 \<and> data ! 0 = 0xFF \<and> (data ! 1) AND 0xF0 = 0xF0 then
        let frame_length = ((unat (data ! 3) mod 4) * 2048) + unat (data ! 4) * 8 + unat (data ! 5) div 32
        in if frame_length > 7 \<and> frame_length \<le> length data then take (frame_length - 7) (drop 7 data)
           else if length data > 7 then drop 7 data
           else data
      else data)"

definition wrap_mpeg4_generic_aac_hbr :: "bytes \<Rightarrow> bytes" where
  "wrap_mpeg4_generic_aac_hbr data =
     (let aac = aac_payload_without_adts data in
      if aac = [] then []
      else
        let au_header = push_bit AAC_HBR_INDEX_LENGTH (word_of_nat (length aac));
            au_headers_length_bits = word_of_nat (AAC_HBR_SIZE_LENGTH + AAC_HBR_INDEX_LENGTH)
        in u16_bytes au_headers_length_bits @ u16_bytes au_header @ aac)"

text \<open>The closure \<open>read_bits\<close>: \<open>n\<close> bits from \<open>bitpos\<close>, most significant first.\<close>

fun read_bits :: "bytes \<Rightarrow> nat \<Rightarrow> nat \<Rightarrow> 32 word \<Rightarrow> (32 word \<times> nat) option" where
  "read_bits bs bitpos 0 v = Some (v, bitpos)"
| "read_bits bs bitpos (Suc n) v =
     (let byte_idx = bitpos div 8; bit_idx = 7 - bitpos mod 8 in
      if byte_idx < length bs then
        read_bits bs (bitpos + 1) n (push_bit 1 v OR ucast (drop_bit bit_idx (bs ! byte_idx) AND 1))
      else None)"

definition read_aac_hbr_au_size :: "bytes \<Rightarrow> nat option" where
  "read_aac_hbr_au_size hs =
     (case read_bits hs 0 AAC_HBR_SIZE_LENGTH 0 of
        None \<Rightarrow> None
      | Some (sz, bitpos) \<Rightarrow>
          (case read_bits hs bitpos AAC_HBR_INDEX_LENGTH 0 of
             None \<Rightarrow> None
           | Some _ \<Rightarrow> Some (unat sz)))"

definition strip_mpeg4_generic_aac :: "bytes \<Rightarrow> bytes option" where
  "strip_mpeg4_generic_aac payload =
     (if payload = [] then None
      else if length payload \<ge> 7 \<and> payload ! 0 = 0xFF \<and> (payload ! 1) AND 0xF0 = 0xF0 then Some payload
      else if length payload < 2 then None
      else
        let au_headers_length_bits = be16 (payload ! 0) (payload ! 1);
            au_headers_length_bytes = (au_headers_length_bits + 7) div 8;
            data_offset = 2 + au_headers_length_bytes;
            au_header_field_bits = AAC_HBR_SIZE_LENGTH + AAC_HBR_INDEX_LENGTH
        in if data_offset > length payload \<or> au_headers_length_bytes = 0 then None
           else if au_headers_length_bits mod au_header_field_bits \<noteq> 0 then None
           else
             (case read_aac_hbr_au_size (take au_headers_length_bytes (drop 2 payload)) of
                None \<Rightarrow> None
              | Some au_size \<Rightarrow>
                  if au_size = 0 then None
                  else if data_offset + au_size \<le> length payload then
                    Some (take au_size (drop data_offset payload))
                  else if au_headers_length_bits div au_header_field_bits = 1 \<and>
                          data_offset < length payload then Some (drop data_offset payload)
                  else None))"

section \<open>Reading what was built\<close>

lemma u16_join:
  "push_bit 8 (ucast (ucast (drop_bit 8 w) :: byte)) OR ucast (ucast w :: byte) = (w :: 16 word)"
  by (rule bit_word_eqI) (auto simp: bit_simps)

lemma u16_bytes_nth [simp]: "length (u16_bytes w) = 2"
  by (simp add: u16_bytes_def)

lemma second_byte_marker:
  assumes "pt AND 0x80 = 0"
  shows "(((if m then push_bit 7 1 else 0) OR pt) AND 0x80 \<noteq> (0 :: byte)) = m"
    and "((if m then push_bit 7 1 else 0) OR pt) AND 0x7F = pt"
    and "drop_bit 7 ((if m then push_bit 7 1 else 0) OR pt) AND 0x01 = (if m then 1 else (0 :: byte))"
proof -
  have pt: "pt AND 0x7F = pt"
  proof -
    have "0x80 OR 0x7F = (-1 :: byte)" by simp
    then have "pt = pt AND (0x80 OR 0x7F)" by (simp only: bit.conj_one_right)
    also have "\<dots> = (pt AND 0x80) OR (pt AND 0x7F)" by (rule bit.conj_disj_distrib)
    finally show ?thesis using assms by simp
  qed
  show "(((if m then push_bit 7 1 else 0) OR pt) AND 0x80 \<noteq> (0 :: byte)) = m"
    using assms by (simp add: bit.conj_disj_distrib2)
  show "((if m then push_bit 7 1 else 0) OR pt) AND 0x7F = pt"
    using pt by (simp add: bit.conj_disj_distrib2)
  have "drop_bit 7 pt AND 0x01 = drop_bit 7 (pt AND 0x80)" by (rule bit_word_eqI) (auto simp: bit_simps)
  then show "drop_bit 7 ((if m then push_bit 7 1 else 0) OR pt) AND 0x01 = (if m then 1 else (0 :: byte))"
    using assms by (simp add: bit.conj_disj_distrib2)
qed

lemma build_rtp_packet_shape:
  "build_rtp_packet pt seq ts ssrc marker payload =
     [0x80, (if marker then push_bit 7 1 else 0) OR pt, ucast (drop_bit 8 seq), ucast seq] @
     be32_bytes ts @ be32_bytes ssrc @ [] @ payload"
  by (simp add: build_rtp_packet_def u16_bytes_def)

text \<open>Reading 13 of 16 bits, most significant first, drops the low three.\<close>

lemma bit_at:
  assumes "p < 16"
  shows "ucast (drop_bit (7 - p mod 8) ([a, b] ! (p div 8)) AND (1 :: byte)) =
     drop_bit (15 - p) (push_bit 8 (ucast a) OR ucast b :: 32 word) AND 1"
proof (cases "p < 8")
  case True
  then show ?thesis
    by (intro bit_word_eqI) (auto simp: bit_simps dest: bit_imp_le_length)
next
  case False
  then obtain q where "p = q + 8" "q < 8" using assms by (metis add.commute le_Suc_ex less_diff_conv2 nat_add_left_cancel_less not_less numeral_Bit0)
  then show ?thesis
    by (intro bit_word_eqI) (auto simp: bit_simps)
qed

lemma drop_bit_step:
  "push_bit 1 (drop_bit (Suc k) w) OR (drop_bit k w AND 1) = drop_bit k (w :: 32 word)"
proof (rule bit_word_eqI)
  fix n
  assume "n < LENGTH(32)"
  then show "bit (push_bit 1 (drop_bit (Suc k) w) OR (drop_bit k w AND 1)) n = bit (drop_bit k w) n"
    by (cases n) (simp_all only: bit_or_iff bit_push_bit_iff bit_and_iff bit_drop_bit_eq bit_1_iff o_def, auto)
qed

lemma read_bits_two_bytes:
  assumes "p + n \<le> 16"
  shows "read_bits [a, b] p n (drop_bit (16 - p) (push_bit 8 (ucast a) OR ucast b)) =
     Some (drop_bit (16 - (p + n)) (push_bit 8 (ucast a) OR ucast b), p + n)"
  using assms
proof (induction n arbitrary: p)
  case 0
  then show ?case by simp
next
  case (Suc n)
  let ?w = "push_bit 8 (ucast a) OR ucast b :: 32 word"
  have "16 - p = Suc (15 - p)" "p div 8 < 2" using Suc.prems by auto
  then have "push_bit 1 (drop_bit (16 - p) ?w) OR ucast (drop_bit (7 - p mod 8) ([a, b] ! (p div 8)) AND 1) =
      drop_bit (16 - (p + 1)) ?w"
    using bit_at [of p a b] Suc.prems drop_bit_step [of "15 - p" ?w] by simp
  with \<open>p div 8 < 2\<close> Suc.IH [of "p + 1"] Suc.prems show ?case by simp
qed

lemma read_bits_enough: "p + n \<le> 8 * length bs \<Longrightarrow> \<exists>r. read_bits bs p n v = Some r"
proof (induction n arbitrary: p v)
  case 0
  then show ?case by simp
next
  case (Suc n)
  then have "p div 8 < length bs" by auto
  with Suc show ?case by simp
qed

lemma aac_header_read_back:
  "read_aac_hbr_au_size (u16_bytes (push_bit 3 (word_of_nat n))) = Some (n mod 8192)"
proof -
  let ?h = "push_bit 3 (word_of_nat n) :: 16 word"
  let ?a = "ucast (drop_bit 8 ?h) :: byte" and ?b = "ucast ?h :: byte"
  let ?w = "push_bit 8 (ucast ?a) OR ucast ?b :: 32 word"
  have w: "?w = ucast ?h" by (rule bit_word_eqI) (auto simp: bit_simps)
  have "bit ?w k \<Longrightarrow> k < 16" for k unfolding w by (auto simp: bit_simps)
  then have "drop_bit 16 ?w = 0" by (intro bit_word_eqI) (auto simp: bit_simps)
  then have size: "read_bits [?a, ?b] 0 13 0 = Some (drop_bit 3 ?w, 13)"
    using read_bits_two_bytes [of 0 13 ?a ?b] by simp
  have index: "\<exists>v. read_bits [?a, ?b] 13 3 0 = Some v"
    by (rule read_bits_enough) simp
  have "?h = word_of_nat (n * 8)" by (simp add: push_bit_eq_mult)
  then have "unat ?h = n mod 8192 * 8"
    using mult_mod_left [of n 8192 8] by (simp only: unat_of_nat) simp
  moreover have "unat (ucast ?h :: 32 word) = unat ?h" 
    by (subst unsigned_ucast_eq, rule take_bit_nat_eq_self)
      (rule less_le_trans [OF unsigned_less], simp)
  moreover have small: "take_bit 32 (n mod 8192 * 8) = n mod 8192 * 8"
    using mod_less_divisor [of 8192 n] by (intro take_bit_nat_eq_self) simp
  ultimately have "unat (drop_bit 3 ?w) = n mod 8192"
    unfolding w using small by (subst unsigned_drop_bit_eq) (simp only: drop_bit_eq_div, simp)
  with size index show ?thesis
    by (auto simp: read_aac_hbr_au_size_def u16_bytes_def AAC_HBR_SIZE_LENGTH_def AAC_HBR_INDEX_LENGTH_def)
qed


section \<open>The search for start codes, on Annex B\<close>

lemma next_start_skip: "i < length p - 4 \<Longrightarrow> \<not> code_at p i \<Longrightarrow> next_start p i = next_start p (i + 1)"
  by (subst next_start.simps) (auto simp: code_at_def)

lemma next_start_stop: "\<not> i < length p - 4 \<Longrightarrow> next_start p i = i"
  by (subst next_start.simps) simp

text \<open>Inside a unit the inner loop walks on, up to the end of its window or to the next code.\<close>

lemma next_start_last:
  assumes "nal_clean n" and "p = pre @ n" and "k \<le> length n"
  shows "next_start p (length pre + k) = max (length pre + k) (length p - 4)"
  using assms(3)
proof (induction "length n - k" arbitrary: k)
  case 0
  then show ?case using assms(2) by (simp add: next_start_stop)
next
  case (Suc d)
  show ?case
  proof (cases "length pre + k < length p - 4")
    case True
    then have k: "k + 3 < length n" using assms(2) by auto
    have "next_start p (length pre + (k + 1)) = max (length pre + (k + 1)) (length p - 4)"
      using Suc.hyps(2) Suc.prems k by (intro Suc.hyps(1)) auto
    with True next_start_skip [OF True] no_code_in [OF assms(1) k] show ?thesis
      using assms(2) by (simp add: code_at_append)
  next
    case False
    then show ?thesis by (simp add: next_start_stop)
  qed
qed

lemma next_start_code:
  assumes "nal_clean n" and "p = pre @ n @ [0, 0, 0, 1] @ m" and "m \<noteq> []" and "k \<le> length n"
  shows "next_start p (length pre + k) = length pre + length n + 1"
  using assms(4)
proof (induction "length n - k" arbitrary: k)
  case 0
  then have "k = length n" by simp
  moreover have "length pre + length n < length p - 4" using assms(2,3) by simp
  ultimately show ?case using assms(2) by (subst next_start.simps) (simp add: nth_append)
next
  case (Suc d)
  then have k: "k < length n" by simp
  have in_window: "length pre + k < length p - 4" using assms(2) k by simp
  have "next_start p (length pre + (k + 1)) = length pre + length n + 1"
    using Suc.hyps(2) k by (intro Suc.hyps(1)) auto
  moreover have "\<not> code_at p (length pre + k)"
    using no_code_before [OF assms(1) k, of m] assms(2) code_at_append by blast
  ultimately show ?case using next_start_skip [OF in_window] by simp
qed

text \<open>The units the walk cuts out: each but the last keeps a zero of the next start code.\<close>

definition tail_panics :: "bytes \<Rightarrow> bool" where
  "tail_panics n \<longleftrightarrow> length n \<le> 2 \<or> length n \<ge> 4 \<and> n ! (length n - 2) = 1"

lemma units_from_last:
  assumes "nal_clean n" and "p = pre @ n" and "4 \<le> length p"
  shows "units_from p (length pre) = (if tail_panics n then None else Some [n])"
proof -
  have ne: "n \<noteq> []" using assms(1) by (simp add: nal_clean_def)
  have ns: "next_start p (length pre) = max (length pre) (length p - 4)"
    using next_start_last [OF assms(1,2), of 0] by simp
  then have u: "unit_at p (length pre) (next_start p (length pre)) = n"
    using assms(2) by (simp add: unit_at_def)
  consider "length n \<le> 2" | "length n = 3" | "4 \<le> length n" by linarith
  then show ?thesis
  proof cases
    case 1
    then show ?thesis using ns u ne assms(2)
      by (subst units_from.simps) (simp add: after_start_def tail_panics_def)
  next
    case 2
    then have "after_start p (next_start p (length pre)) = Some j \<Longrightarrow> length p \<le> j" for j
      using ns assms(2) by (auto simp: after_start_def split: if_splits)
    moreover have "after_start p (next_start p (length pre)) \<noteq> None"
      using 2 ns assms(2) by (auto simp: after_start_def)
    moreover have "units_from p j = Some []" if "length p \<le> j" for j
      using that by (subst units_from.simps) simp
    ultimately show ?thesis using u ne assms(2) 2
      by (subst units_from.simps) (auto simp: tail_panics_def split: option.splits)
  next
    case 3
    let ?i = "length p - 4"
    have ns: "next_start p (length pre) = ?i" using ns 3 assms(2) by simp
    have "?i + 2 = length pre + (length n - 2)" using 3 assms(2) by simp
    then have nth: "p ! (?i + 2) = n ! (length n - 2)" using assms(2) by (simp only: nth_append_length_plus)
    have at_last: "units_from p (length p - 1) = None"
    proof -
      have "length p - 1 < length p" using assms(3) by linarith
      moreover have "after_start p (next_start p (length p - 1)) = None"
        using assms(3) by (simp add: after_start_def next_start_stop)
      ultimately show ?thesis by (subst units_from.simps) (simp add: Let_def)
    qed
    have at_end: "units_from p (length p) = Some []"
      by (subst units_from.simps) simp
    have "after_start p ?i = Some (if n ! (length n - 2) = 1 then length p - 1 else length p)"
      using assms(3) nth by (simp add: after_start_def)
    then show ?thesis using u ne ns at_last at_end 3 assms(2)
      by (subst units_from.simps) (simp add: tail_panics_def)
  qed
qed

text \<open>What the walk makes of the units of a byte stream.\<close>

definition cut_units :: "bytes list \<Rightarrow> bytes list" where
  "cut_units us = map (\<lambda>x. x @ [0]) (butlast us) @ [last us]"

lemma units_from_units:
  assumes "us \<noteq> []" and "\<forall>n\<in>set us. nal_clean n" and "4 \<le> length pre"
    and "p = pre @ hd us @ annex_b_of (tl us)"
  shows "units_from p (length pre) = (if tail_panics (last us) then None else Some (cut_units us))"
  using assms
proof (induction us arbitrary: pre)
  case Nil
  then show ?case by simp
next
  case (Cons x us)
  show ?case
  proof (cases us)
    case Nil
    with Cons.prems units_from_last [of x p pre] show ?thesis by (simp add: cut_units_def)
  next
    case (Cons y zs)
    let ?m = "y @ annex_b_of zs"
    let ?pre = "pre @ x @ [0, 0, 0, 1]"
    have x: "nal_clean x" and y: "y \<noteq> []"
      using Cons.prems(2) Cons by (simp_all add: nal_clean_def)
    have p: "p = pre @ x @ [0, 0, 0, 1] @ ?m" using Cons.prems(4) Cons by simp
    have ns: "next_start p (length pre) = length pre + length x + 1"
      using next_start_code [OF x p, of 0] y by simp
    have "after_start p (length pre + length x + 1) = Some (length ?pre)"
      using p y by (simp add: after_start_def nth_append)
    moreover have "units_from p (length ?pre) = (if tail_panics (last us) then None else Some (cut_units us))"
      using Cons.prems Cons by (intro Cons.IH) auto
    moreover have "unit_at p (length pre) (length pre + length x + 1) = x @ [0]"
      if "\<not> tail_panics (last us)"
    proof -
      have "2 < length ?m"
        using that Cons by (cases zs) (auto simp: tail_panics_def)
      then show ?thesis using p by (simp add: unit_at_def)
    qed
    moreover have "length pre < length p" using p by simp
    ultimately show ?thesis using ns Cons
      by (subst units_from.simps) (auto simp: Let_def cut_units_def)
  qed
qed

section \<open>Properties\<close>

text \<open>
  A frame of less than 64 KiB wrapped for an interleaved channel is parsed back from the
  front of any byte stream: the same channel, the same bytes.
\<close>

theorem interleaved_roundtrip:
  assumes "length data < 65536"
  shows "parse_interleaved (wrap_interleaved data ch @ later) = Some (ch, data)"
  using be16_bytes_inverse [OF assms]
  by (simp add: parse_interleaved_def wrap_interleaved_def be16_bytes_def)

theorem interleaved_roundtrip_witness:
  "parse_interleaved [0x24, 2, 0, 3, 7, 8, 9, 0x24, 1] = Some (2, [7, 8, 9])"
  using interleaved_roundtrip [of "[7, 8, 9]" 2 "[0x24, 1]"] by (simp add: wrap_interleaved_def be16_bytes_def)

text \<open>
  Every field of an RTP header that the server writes is read back, for payload types
  below 128: version 2, no padding, extension or CSRC, and marker, sequence number, timestamp
  and SSRC as given.
\<close>

theorem rtp_header_roundtrip:
  assumes "pt AND 0x80 = 0"
  shows "parse_rtp_header (build_rtp_packet pt seq ts ssrc marker payload) =
    Some \<lparr>rh_version = 2, rh_padding = 0, rh_extension = 0, rh_csrc_count = 0,
      rh_marker = (if marker then 1 else 0), rh_payload_type = pt,
      rh_sequence_number = seq, rh_timestamp = ts, rh_ssrc = ssrc\<rparr>"
  unfolding build_rtp_packet_shape
  using second_byte_marker [OF assms, of marker] u16_join [of seq] be32_bytes_inverse [of ts] be32_bytes_inverse [of ssrc]
  by (simp add: parse_rtp_header_def be32_bytes_def)

theorem rtp_header_roundtrip_witness:
  "map_option rh_marker (parse_rtp_header (build_rtp_packet 96 65535 1 2 True [3])) = Some 1"
  using rtp_header_roundtrip [of 96 65535 1 2 True "[3]"] by simp

text \<open>
  The RTSP pusher's search for parameter sets, on units without start codes inside and
  with 4-byte start codes: it reads out of bounds exactly when the last unit has at most two
  bytes, or has four or more and the byte before its last is 1. Otherwise it returns the first
  SPS and the first PPS, each but the last unit with a zero of the next start code at its end.
\<close>

theorem rtsp_extract_sps_pps_exact:
  assumes "us \<noteq> []" and "\<forall>n\<in>set us. nal_clean n"
  shows "rtsp_extract_sps_pps (annex_b_of us) =
    (if tail_panics (last us) then None
     else Some (first_of_type 7 (cut_units us), first_of_type 8 (cut_units us)))"
proof -
  obtain x xs where us: "us = x # xs" using assms(1) by (cases us) auto
  have "units_from (annex_b_of us) 4 = (if tail_panics (last us) then None else Some (cut_units us))"
    using units_from_units [OF assms, of "[0, 0, 0, 1]" "annex_b_of us"] us
    by (simp add: numeral_eq_Suc)
  moreover have "has_start_code (annex_b_of us)" "start_code_len (annex_b_of us) = 4"
    using us by (simp_all add: has_start_code_def start_code_len_def)
  ultimately show ?thesis by (simp add: rtsp_extract_sps_pps_def)
qed

theorem rtsp_extract_sps_pps_exact_witness:
  "rtsp_extract_sps_pps (annex_b_of [[0x67, 66], [0x68, 2], [0x65, 9, 9, 8]]) = Some (Some [0x67, 66, 0], Some [0x68, 2, 0]) \<and>
   rtsp_extract_sps_pps (annex_b_of [[0x67, 66], [0x68, 2], [0x65, 9, 1, 8]]) = None"
  using rtsp_extract_sps_pps_exact [of "[[0x67, 66], [0x68, 2], [0x65, 9, 9, 8]]"]
    rtsp_extract_sps_pps_exact [of "[[0x67, 66], [0x68, 2], [0x65, 9, 1, 8]]"]
  by (simp add: nal_clean_def sublist_code tail_panics_def cut_units_def first_of_type_def)

text \<open>
  An AAC frame wrapped for RTP is unwrapped to its raw bytes, whether it came with an ADTS
  header or not; the AU size has 13 bits, so only the length modulo 8192 comes back, and a
  length that is a multiple of 8192 is lost.
\<close>

theorem aac_rtp_roundtrip:
  "strip_mpeg4_generic_aac (wrap_mpeg4_generic_aac_hbr data) =
     (let raw = aac_payload_without_adts data; n = length raw mod 8192
      in if n = 0 then None else Some (take n raw))"
proof (cases "aac_payload_without_adts data = []")
  case True
  then show ?thesis by (simp add: wrap_mpeg4_generic_aac_hbr_def strip_mpeg4_generic_aac_def)
next
  case False
  define raw where raw_def: "raw = aac_payload_without_adts data"
  have w: "wrap_mpeg4_generic_aac_hbr data =
      [0, 16] @ u16_bytes (push_bit 3 (word_of_nat (length raw))) @ raw"
    using False
    by (simp add: wrap_mpeg4_generic_aac_hbr_def u16_bytes_def AAC_HBR_SIZE_LENGTH_def
        AAC_HBR_INDEX_LENGTH_def Let_def flip: raw_def)
  show ?thesis
    unfolding w raw_def [symmetric]
    using False aac_header_read_back [of "length raw"]
    by (simp add: strip_mpeg4_generic_aac_def be16_eq AAC_HBR_SIZE_LENGTH_def AAC_HBR_INDEX_LENGTH_def
        u16_bytes_def Let_def flip: raw_def)
qed

end
