(* ===== verification/Play_Egress.thy ===== *)
theory Play_Egress
  imports Live_Play Rtsp_Rtp
begin

text \<open>
  \<open>src/src/server/rtsp/play_egress.rs\<close>: RTP packets for an RTSP player, stamped with wall-clock
  time. An \<open>Instant\<close> is a number of microseconds, read by the caller. The loopback theorem at
  the end runs these packets through the ingest side of \<open>Rtp_Ingest\<close>.
\<close>

definition RTP_CLOCK_HZ :: nat where "RTP_CLOCK_HZ = 90000"
definition AAC_CLOCK_HZ :: nat where "AAC_CLOCK_HZ = 44100"

record play_rtp_timeline =
  pt_wall_anchor :: "nat option"
  pt_clock_hz :: nat

definition timeline_for_codec :: "codec_type \<Rightarrow> play_rtp_timeline" where
  "timeline_for_codec codec =
     \<lparr>pt_wall_anchor = None, pt_clock_hz = (case codec of AAC \<Rightarrow> AAC_CLOCK_HZ | _ \<Rightarrow> RTP_CLOCK_HZ)\<rparr>"

definition map_wallclock :: "play_rtp_timeline \<Rightarrow> nat \<Rightarrow> play_rtp_timeline \<times> 32 word" where
  "map_wallclock tml now =
     (let anchor = (case pt_wall_anchor tml of None \<Rightarrow> now | Some a \<Rightarrow> a);
          elapsed_us = wrap64 (now - anchor);
          ts = (if pt_clock_hz tml = AAC_CLOCK_HZ then sat_mul64 elapsed_us AAC_CLOCK_HZ div 1000000
                else sat_mul64 elapsed_us 90 div 1000)
      in (tml\<lparr>pt_wall_anchor := Some anchor\<rparr>, word_of_nat ts))"

definition rtp_payload_type_for_codec :: "stream_manager \<Rightarrow> stream_id \<Rightarrow> codec_type \<Rightarrow> byte" where
  "rtp_payload_type_for_codec m sid codec =
     (case Option.bind (get_stream m sid) (\<lambda>s. find (\<lambda>t. tr_codec t = codec) (st_tracks s)) of
        Some t \<Rightarrow> word_of_nat (tr_payload_type t)
      | None \<Rightarrow> (case codec of H264 \<Rightarrow> 96 | AAC \<Rightarrow> 97 | Opus \<Rightarrow> 109 | H265 \<Rightarrow> 98 | _ \<Rightarrow> 96))"

definition egress_rtp_packets ::
    "media_frame \<Rightarrow> stream_manager \<Rightarrow> stream_id \<Rightarrow> play_rtp_timeline \<Rightarrow> 16 word \<Rightarrow> 32 word \<Rightarrow> nat \<Rightarrow>
     play_rtp_timeline \<times> 16 word \<times> bytes list" where
  "egress_rtp_packets f m sid tml seq ssrc now =
     (let payload_type = rtp_payload_type_for_codec m sid (mf_codec f);
          (tml', ts) = map_wallclock tml now
      in case mf_codec f of
          H264 \<Rightarrow>
            (let (ps, seq') = packetize_h264_access_unit_for_rtp (prepend_h264_config m sid f)
                                payload_type seq ts ssrc
             in (tml', seq', ps))
        | AAC \<Rightarrow>
            (if length (mf_data f) < 4 then (tml', seq, [])
             else
               let payload = wrap_mpeg4_generic_aac_hbr (mf_data f) in
               if payload = [] then (tml', seq, [])
               else (tml', seq + 1, [build_rtp_packet payload_type seq ts ssrc True payload]))
        | _ \<Rightarrow> (tml', seq, []))"

section \<open>One unit through the ingest\<close>

text \<open>A unit of an access unit that goes out and comes back as itself.\<close>

definition media_nal :: "bytes \<Rightarrow> bool" where
  "media_nal n \<longleftrightarrow> nal_ok n \<and> hd n AND 0x80 = 0 \<and> single_nal_type (nal_kind n) \<and> nal_kind n \<notin> {7, 8, 9}"

lemma ingest_built_packet:
  assumes "pt AND 0x80 = 0" and "payload \<noteq> []" and "ig_expected_seq g \<in> {None, Some seq}"
  shows "ingest_rtp_packet (g, m) (build_rtp_packet pt seq ts ssrc marker payload) =
     ingest_payload (g\<lparr>ig_expected_seq := Some (seq + 1)\<rparr>, m) payload ts marker"
proof -
  have "rtp_h264_packet_info (build_rtp_packet pt seq ts ssrc marker payload) =
      Some \<lparr>ri_payload = payload, ri_timestamp = ts, ri_marker = marker, ri_sequence_number = seq\<rparr>"
    unfolding build_rtp_packet_shape
    using second_byte_marker(1) [OF assms(1), of marker] assms(2)
    by (subst rtp_packet_info_layout) simp_all
  moreover have "accept_sequence g seq payload = (g\<lparr>ig_expected_seq := Some (seq + 1)\<rparr>, True)"
    using assms(3) by (auto simp: accept_sequence_def)
  ultimately show ?thesis by (simp add: ingest_rtp_packet_def)
qed

lemma ingest_single:
  assumes "media_nal n"
  shows "ingest_payload (g, m) n ts marker = collect_part (g, m) ts marker (start_code @ n) (nal_kind n = 5)"
proof -
  have "n \<noteq> []" using assms by (simp add: media_nal_def nal_ok_def)
  moreover have "h264_rtp_to_annex_b (ig_depacketizer g) n (ig_stream_id g) m =
      (ig_depacketizer g, m, Some (start_code @ n, nal_kind n = 5))"
    using assms by (intro single_nal_to_annex_b) (auto simp: media_nal_def)
  ultimately show ?thesis by (simp add: ingest_payload_def)
qed

text \<open>The middle and the last fragments, with the first ones in the buffer.\<close>

lemma fu_a_not_Nil [simp]: "fu_a h s e data \<noteq> []"
  by (simp add: fu_a_def)

lemma ingest_fragment:
  assumes "dp_fu_buffer (ig_depacketizer g) = Some buf"
  shows "ingest_payload (g, m) (fu_a h False e data) ts marker =
     (if e then collect_part (g\<lparr>ig_depacketizer := (ig_depacketizer g)\<lparr>dp_fu_buffer := None\<rparr>\<rparr>, m) ts marker
               (buf @ data) (h AND 0x1F = 5 \<or> is_keyframe_annex_b (buf @ data))
      else Some ((g\<lparr>ig_depacketizer := (ig_depacketizer g)\<lparr>dp_fu_buffer := Some (buf @ data)\<rparr>\<rparr>, m), False))"
  using assms by (simp add: ingest_payload_def fu_a_to_annex_b fu_a_push)

lemma ingest_first_fragment:
  "ingest_payload (g, m) (fu_a h True False data) ts marker =
     Some ((g\<lparr>ig_depacketizer := (ig_depacketizer g)\<lparr>dp_fu_buffer := Some ([0, 0, 0, 1] @ (h AND 0x7F) # data)\<rparr>\<rparr>, m), False)"
  by (simp add: ingest_payload_def fu_a_to_annex_b fu_a_push)

text \<open>A run that reports nothing before its last packet.\<close>

definition quiet_until_last :: "nat \<Rightarrow> (ingest_state \<times> bool) option \<Rightarrow> (ingest_state \<times> bool list) option" where
  "quiet_until_last k r = map_option (\<lambda>(st, b). (st, replicate (k - 1) False @ [b])) r"

lemma ingest_packets_simps:
  "ingest_packets st [] = Some (st, [])"
  "ingest_packets st (p # ps) =
     (case ingest_rtp_packet st p of None \<Rightarrow> None
      | Some (st', b) \<Rightarrow> map_option (\<lambda>(st'', bs). (st'', b # bs)) (ingest_packets st' ps))"
  by (simp_all add: ingest_packets_def split: option.split prod.split)

lemma quiet_step:
  assumes "ingest_rtp_packet st p = Some (st', False)" and "ps \<noteq> []"
    and "ingest_packets st' ps = quiet_until_last (length ps) r"
  shows "ingest_packets st (p # ps) = quiet_until_last (length (p # ps)) r"
proof -
  obtain q qs where "ps = q # qs" using assms(2) by (cases ps) auto
  then show ?thesis using assms
    by (simp add: ingest_packets_simps quiet_until_last_def option.map_comp o_def split_def)
qed

lemma fu_a_loop_step:
  fixes h pt :: byte and data :: bytes and i :: nat
  assumes "i < length data"
  defines "c \<equiv> min (length data - i) (UDP_RTP_MAX_PAYLOAD - 2)"
  defines "e \<equiv> i + c \<ge> length data"
  shows "fu_a_loop data ((h AND 0x60) OR 28) (h AND 0x1F) pt ts ssrc marker seq i =
     (let (pkts, s) = fu_a_loop data ((h AND 0x60) OR 28) (h AND 0x1F) pt ts ssrc marker (seq + 1) (i + c)
      in (build_rtp_packet pt seq ts ssrc (marker \<and> e) (fu_a h (i = 0) e (take c (drop i data))) # pkts, s))"
  unfolding fu_a_def c_def e_def
  by (subst fu_a_loop.simps) (simp only: assms(1) if_True Let_def append.simps)

lemma fu_a_loop_end: "length data \<le> i \<Longrightarrow> fu_a_loop data a b pt ts ssrc marker seq i = ([], seq)"
  by (subst fu_a_loop.simps) simp

lemma fu_a_loop_run:
  fixes h pt :: byte and data :: bytes and ts ssrc :: "32 word" and marker :: bool
  assumes "pt AND 0x80 = 0" and "0 < i" and "i < length data"
    and "dp_fu_buffer (ig_depacketizer g) = Some buf" and "ig_expected_seq g = Some seq"
  defines "ps \<equiv> fst (fu_a_loop data ((h AND 0x60) OR 28) (h AND 0x1F) pt ts ssrc marker seq i)"
    and "seq' \<equiv> snd (fu_a_loop data ((h AND 0x60) OR 28) (h AND 0x1F) pt ts ssrc marker seq i)"
  shows "ps \<noteq> [] \<and> ingest_packets (g, m) ps = quiet_until_last (length ps)
     (collect_part (g\<lparr>ig_expected_seq := Some seq', ig_depacketizer := (ig_depacketizer g)\<lparr>dp_fu_buffer := None\<rparr>\<rparr>, m)
        ts marker (buf @ drop i data) (h AND 0x1F = 5 \<or> is_keyframe_annex_b (buf @ drop i data)))"
  using assms(2-5) unfolding ps_def seq'_def
proof (induction "length data - i" arbitrary: g buf seq i rule: less_induct)
  case less
  let ?c = "min (length data - i) (UDP_RTP_MAX_PAYLOAD - 2)"
  let ?loop = "fu_a_loop data ((h AND 0x60) OR 28) (h AND 0x1F) pt ts ssrc marker"
  let ?chunk = "take ?c (drop i data)"
  have c: "0 < ?c" using less.prems by (simp add: UDP_RTP_MAX_PAYLOAD_def)
  define e where "e = (i + ?c \<ge> length data)"
  have loop: "?loop seq i =
      (let (pkts, s) = ?loop (seq + 1) (i + ?c) in
       (build_rtp_packet pt seq ts ssrc (marker \<and> e) (fu_a h False e ?chunk) # pkts, s))"
    using less.prems(1,2)
    using fu_a_loop_step [of i data h pt ts ssrc marker seq] unfolding e_def by simp
  let ?g = "g\<lparr>ig_expected_seq := Some (seq + 1)\<rparr>"
  have step: "ingest_rtp_packet (g, m) (build_rtp_packet pt seq ts ssrc (marker \<and> e) (fu_a h False e ?chunk)) =
      ingest_payload (?g, m) (fu_a h False e ?chunk) ts (marker \<and> e)"
    using less.prems(4) by (intro ingest_built_packet [OF assms(1)]) (simp_all add: fu_a_def)
  have frag: "dp_fu_buffer (ig_depacketizer ?g) = Some buf" using less.prems(3) by simp
  show ?case
  proof (cases e)
    case True
    then have "length data \<le> i + ?c" unfolding e_def .
    then have "?loop (seq + 1) (i + ?c) = ([], seq + 1)" "length (drop i data) \<le> ?c"
      by (rule fu_a_loop_end) (use \<open>length data \<le> i + ?c\<close> in \<open>simp only: length_drop le_diff_conv add.commute\<close>)
    then have "?loop (seq + 1) (i + ?c) = ([], seq + 1)" "?chunk = drop i data"
      by simp_all
    then show ?thesis using True loop step ingest_fragment [OF frag, of m h True]
      by (simp add: ingest_packets_simps quiet_until_last_def map_option_case split_def split: option.split)
  next
    case False
    then have i: "i + ?c < length data" unfolding e_def by simp
    obtain pkts s where rest: "?loop (seq + 1) (i + ?c) = (pkts, s)" by (cases "?loop (seq + 1) (i + ?c)")
    let ?g' = "?g\<lparr>ig_depacketizer := (ig_depacketizer ?g)\<lparr>dp_fu_buffer := Some (buf @ ?chunk)\<rparr>\<rparr>"
    have "pkts \<noteq> [] \<and> ingest_packets (?g', m) pkts = quiet_until_last (length pkts)
       (collect_part (?g'\<lparr>ig_expected_seq := Some s, ig_depacketizer := (ig_depacketizer ?g')\<lparr>dp_fu_buffer := None\<rparr>\<rparr>, m)
          ts marker ((buf @ ?chunk) @ drop (i + ?c) data)
          (h AND 0x1F = 5 \<or> is_keyframe_annex_b ((buf @ ?chunk) @ drop (i + ?c) data)))"
      using less.hyps [of "i + ?c" ?g' "buf @ ?chunk" "seq + 1"] c i rest by simp
    moreover have "(buf @ ?chunk) @ drop (i + ?c) data = buf @ drop i data"
      using append_take_drop_id [of ?c "drop i data"] by (simp only: drop_drop add.commute [of ?c] append.assoc)
    moreover have "?g'\<lparr>ig_expected_seq := Some s, ig_depacketizer := (ig_depacketizer ?g')\<lparr>dp_fu_buffer := None\<rparr>\<rparr> =
        g\<lparr>ig_expected_seq := Some s, ig_depacketizer := (ig_depacketizer g)\<lparr>dp_fu_buffer := None\<rparr>\<rparr>"
      by simp
    moreover have "ingest_rtp_packet (g, m) (build_rtp_packet pt seq ts ssrc (marker \<and> e) (fu_a h False e ?chunk)) =
        Some ((?g', m), False)"
      using step ingest_fragment [OF frag, of m h False] False by simp
    ultimately show ?thesis using loop rest quiet_step by simp
  qed
qed

text \<open>A unit's packets, whichever way it is packetized, hand its Annex B to the batch.\<close>

lemma packetize_nal_run:
  fixes pt :: byte and ts ssrc :: "32 word" and marker :: bool
  assumes "pt AND 0x80 = 0" and n: "media_nal n" and "ig_expected_seq g \<in> {None, Some seq}"
  defines "ps \<equiv> fst (packetize_h264_nal_for_rtp n pt seq ts ssrc marker)"
    and "seq' \<equiv> snd (packetize_h264_nal_for_rtp n pt seq ts ssrc marker)"
  shows "\<exists>d. ps \<noteq> [] \<and> ingest_packets (g, m) ps = quiet_until_last (length ps)
     (collect_part (g\<lparr>ig_expected_seq := Some seq', ig_depacketizer := d\<rparr>, m) ts marker
        (start_code @ n) (nal_kind n = 5))"
proof (cases "length n \<le> UDP_RTP_MAX_PAYLOAD")
  case True
  have "n \<noteq> []" using n by (simp add: media_nal_def nal_ok_def)
  then show ?thesis
    using True ingest_single [OF n] ingest_built_packet [OF assms(1) _ assms(3)]
    by (intro exI [of _ "ig_depacketizer g"])
      (simp add: ps_def seq'_def packetize_h264_nal_for_rtp_def ingest_packets_simps quiet_until_last_def
        map_option_case split_def split: option.split)
next
  case False
  then obtain h data where nal: "n = h # data" by (cases n) auto
  have h: "h AND 0x7F = h" and type: "h AND 0x1F = nal_kind n"
  proof -
    show "h AND 0x7F = h" using n nal second_byte_marker(2) [of h False] by (simp add: media_nal_def)
    show "h AND 0x1F = nal_kind n" using nal by (simp add: nal_kind_def)
  qed
  let ?c = "UDP_RTP_MAX_PAYLOAD - 2"
  let ?loop = "fu_a_loop data ((h AND 0x60) OR 28) (h AND 0x1F) pt ts ssrc marker"
  have len: "?c < length data" "0 < ?c" using False nal by (simp_all add: UDP_RTP_MAX_PAYLOAD_def)
  then have data_ne: "data \<noteq> []" by auto
  have pk: "packetize_h264_nal_for_rtp n pt seq ts ssrc marker = ?loop seq 0"
    using False nal by (simp add: packetize_h264_nal_for_rtp_def)
  obtain qs s where rest: "?loop (seq + 1) ?c = (qs, s)" by (cases "?loop (seq + 1) ?c")
  let ?p = "build_rtp_packet pt seq ts ssrc False (fu_a h True False (take ?c data))"
  have loop: "?loop seq 0 = (?p # qs, s)"
    using fu_a_loop_step [of 0 data h pt ts ssrc marker seq] len rest data_ne by (simp add: min_def)
  let ?buf = "[0, 0, 0, 1] @ h # take ?c data"
  let ?g = "g\<lparr>ig_expected_seq := Some (seq + 1)\<rparr>"
  let ?g' = "?g\<lparr>ig_depacketizer := (ig_depacketizer ?g)\<lparr>dp_fu_buffer := Some ?buf\<rparr>\<rparr>"
  let ?d = "(ig_depacketizer g)\<lparr>dp_fu_buffer := None\<rparr>"
  have whole: "?buf @ drop ?c data = start_code @ n" using nal by (simp add: start_code_def)
  have key: "is_keyframe_annex_b (start_code @ n) \<longleftrightarrow> nal_kind n = 5"
    using n by (simp add: media_nal_def header_type_annex_b(2))
  have "ingest_rtp_packet (g, m) ?p = Some ((?g', m), False)"
    using ingest_built_packet [OF assms(1) fu_a_not_Nil assms(3)] ingest_first_fragment [of ?g] h by simp
  moreover have "qs \<noteq> []" and "ingest_packets (?g', m) qs = quiet_until_last (length qs)
      (collect_part (g\<lparr>ig_expected_seq := Some s, ig_depacketizer := ?d\<rparr>, m) ts marker
        (start_code @ n) (nal_kind n = 5))"
    using fu_a_loop_run [OF assms(1) len(2,1), of ?g' ?buf "seq + 1" h ts ssrc marker m] rest
    unfolding whole key type by simp_all
  ultimately show ?thesis
    unfolding ps_def seq'_def pk loop fst_conv snd_conv by (intro exI [of _ ?d]) (use quiet_step in blast)
qed

section \<open>A whole access unit\<close>

lemma collect_media:
  assumes "media_nal n" and "au_parts (ig_batch g) = [] \<or> au_timestamp (ig_batch g) = ts"
  shows "collect_part (g, m) ts marker (start_code @ n) key =
     (if marker then flush_access_unit (add_part g ts (start_code @ n) key, m)
      else Some ((add_part g ts (start_code @ n) key, m), False))"
proof -
  have "\<not> is_parameter_set_only (start_code @ n)"
    using assms(1) by (simp add: media_nal_def header_type_annex_b(1))
  then show ?thesis
    using assms(2) by (auto simp: collect_part_def Let_def option.map_ident split_def)
qed

definition batch_of_units :: "access_unit_batch \<Rightarrow> 32 word \<Rightarrow> bytes list \<Rightarrow> access_unit_batch" where
  "batch_of_units b ts us =
     \<lparr>au_timestamp = ts, au_parts = au_parts b @ map ((@) start_code) us,
      au_is_keyframe = (au_is_keyframe b \<or> (\<exists>n\<in>set us. nal_kind n = 5))\<rparr>"

lemma add_part_fields:
  assumes "au_parts (ig_batch g) = [] \<or> au_timestamp (ig_batch g) = ts"
  shows "ig_batch (add_part g ts (start_code @ n) (nal_kind n = 5)) = batch_of_units (ig_batch g) ts [n]"
    "ig_stream_id (add_part g ts d k) = ig_stream_id g" "ig_expected_seq (add_part g ts d k) = ig_expected_seq g"
  using assms by (auto simp: add_part_def batch_of_units_def Let_def)

lemma ingest_packets_append:
  "ingest_packets st ps = Some (st', bs) \<Longrightarrow>
   ingest_packets st (ps @ qs) = map_option (\<lambda>(st'', cs). (st'', bs @ cs)) (ingest_packets st' qs)"
  by (simp add: ingest_packets_def run_steps_append split: option.split prod.split)

lemma quiet_append:
  assumes "ps \<noteq> []" and "qs \<noteq> []" and "ingest_packets st ps = quiet_until_last (length ps) (Some (st', False))"
    and "ingest_packets st' qs = quiet_until_last (length qs) r"
  shows "ingest_packets st (ps @ qs) = quiet_until_last (length (ps @ qs)) r"
proof -
  have "ingest_packets st ps = Some (st', replicate (length ps - 1) False @ [False])"
    using assms(3) by (simp add: quiet_until_last_def)
  then have run: "ingest_packets st (ps @ qs) =
      map_option (\<lambda>(st'', cs). (st'', (replicate (length ps - 1) False @ [False]) @ cs)) (quiet_until_last (length qs) r)"
    unfolding assms(4) [symmetric] by (rule ingest_packets_append)
  have len: "length (ps @ qs) - 1 = (length ps - 1) + Suc (length qs - 1)"
    using assms(1,2) by (cases ps; cases qs) auto
  show ?thesis
    unfolding run quiet_until_last_def len
    by (cases r) (auto simp: replicate_add replicate_append_same)
qed

lemma packetize_units_run:
  fixes pt :: byte and ts ssrc :: "32 word"
  assumes "pt AND 0x80 = 0" and "us \<noteq> []" and "\<forall>n\<in>set us. media_nal n"
    and "ig_expected_seq g \<in> {None, Some seq}"
    and "au_parts (ig_batch g) = [] \<or> au_timestamp (ig_batch g) = ts"
  shows "\<exists>g1. fst (packetize_units us pt seq ts ssrc) \<noteq> [] \<and>
     ingest_packets (g, m) (fst (packetize_units us pt seq ts ssrc)) =
       quiet_until_last (length (fst (packetize_units us pt seq ts ssrc))) (flush_access_unit (g1, m)) \<and>
     ig_batch g1 = batch_of_units (ig_batch g) ts us \<and> ig_stream_id g1 = ig_stream_id g \<and>
     ig_expected_seq g1 = Some (snd (packetize_units us pt seq ts ssrc))"
  using assms(2-)
proof (induction us arbitrary: g seq)
  case Nil
  then show ?case by simp
next
  case (Cons n us)
  obtain ps seq1 where pk: "packetize_h264_nal_for_rtp n pt seq ts ssrc (us = []) = (ps, seq1)" by fastforce
  have n: "media_nal n" using Cons.prems(2) by simp
  obtain d where d: "ps \<noteq> []" "ingest_packets (g, m) ps = quiet_until_last (length ps)
      (collect_part (g\<lparr>ig_expected_seq := Some seq1, ig_depacketizer := d\<rparr>, m) ts (us = [])
        (start_code @ n) (nal_kind n = 5))"
    using packetize_nal_run [OF assms(1) n Cons.prems(3), where m = m and ts = ts and ssrc = ssrc and marker = "us = []"] pk by auto
  let ?g = "g\<lparr>ig_expected_seq := Some seq1, ig_depacketizer := d\<rparr>"
  let ?g1 = "add_part ?g ts (start_code @ n) (nal_kind n = 5)"
  have slot: "au_parts (ig_batch ?g) = [] \<or> au_timestamp (ig_batch ?g) = ts" using Cons.prems(4) by simp
  note fields = add_part_fields [OF slot]
  show ?case
  proof (cases "us = []")
    case True
    with d pk fields collect_media [OF n slot] show ?thesis
      by (intro exI [of _ ?g1]) simp
  next
    case False
    obtain qs seq2 where rest: "packetize_units us pt seq1 ts ssrc = (qs, seq2)" by fastforce
    have all: "packetize_units (n # us) pt seq ts ssrc = (ps @ qs, seq2)" using pk rest by simp
    obtain g2 where g2: "qs \<noteq> []"
      "ingest_packets (?g1, m) qs = quiet_until_last (length qs) (flush_access_unit (g2, m))"
      "ig_batch g2 = batch_of_units (ig_batch ?g1) ts us" "ig_stream_id g2 = ig_stream_id ?g1"
      "ig_expected_seq g2 = Some seq2"
      using Cons.IH [OF False, of ?g1 seq1] Cons.prems(2) fields rest by (auto simp: batch_of_units_def)
    have first: "ingest_packets (g, m) ps = quiet_until_last (length ps) (Some ((?g1, m), False))"
      using d(2) False collect_media [OF n slot] by simp
    have "ingest_packets (g, m) (ps @ qs) = quiet_until_last (length (ps @ qs)) (flush_access_unit (g2, m))"
      by (rule quiet_append [OF d(1) g2(1) first g2(2)])
    moreover have "ig_batch g2 = batch_of_units (ig_batch g) ts (n # us)"
      unfolding g2(3) fields by (auto simp: batch_of_units_def)
    ultimately show ?thesis
      unfolding all using g2(1,4,5) fields by (intro exI [of _ g2]) simp
  qed
qed

lemma is_keyframe_annex_b_of:
  assumes "\<forall>n\<in>set us. nal_ok n"
  shows "is_keyframe_annex_b (annex_b_of us) \<longleftrightarrow> (\<exists>n\<in>set us. nal_kind n = 5)"
proof -
  have "first_nalu_type (annex_b_of us) = Some 5 \<Longrightarrow> \<exists>n\<in>set us. nal_kind n = 5"
    using assms
    by (cases us) (auto simp: first_nalu_type_def first_nalu_header_offset_def nalu_type_def nal_kind_def
        nal_ok_def hd_conv_nth nth_append split: if_splits)
  then show ?thesis
    using contains_nalu_type_annex_b [OF assms, of 5] by (auto simp: is_keyframe_annex_b_def contains_idr_nalu_def)
qed

lemma flush_units:
  assumes "\<forall>n\<in>set us. media_nal n" and "\<exists>n\<in>set us. nal_kind n \<in> {1, 5}"
    and "ig_batch g = batch_of_units b ts us" and "au_parts b = []" and "\<not> au_is_keyframe b"
  shows "flush_access_unit (g, m) =
     (case publish_frame m (with_clock_rate (media_frame_new (ig_stream_id g) 0 (unat ts) (annex_b_of us)
         (\<exists>n\<in>set us. nal_kind n = 5) H264) VIDEO_RTP_CLOCK_RATE) of
        None \<Rightarrow> None
      | Some m' \<Rightarrow> Some ((clear_parts (g\<lparr>ig_units := ig_units g + 1\<rparr>), m'), True))"
proof -
  have ok: "\<forall>n\<in>set us. nal_ok n" using assms(1) by (simp add: media_nal_def)
  have parts: "concat (au_parts (ig_batch g)) = annex_b_of us"
    using assms(3,4) by (simp add: batch_of_units_def annex_b_of_def)
  moreover have "au_parts (ig_batch g) \<noteq> []" using assms(2,3) by (auto simp: batch_of_units_def)
  moreover have "contains_vcl_nalu (annex_b_of us)" using assms(2) contains_vcl_annex_b [OF ok] by simp
  moreover have "unit_frame g = with_clock_rate (media_frame_new (ig_stream_id g) 0 (unat ts) (annex_b_of us)
         (\<exists>n\<in>set us. nal_kind n = 5) H264) VIDEO_RTP_CLOCK_RATE"
    unfolding unit_frame_def Let_def parts is_keyframe_annex_b_of [OF ok]
    using assms(3,5) by (simp add: batch_of_units_def)
  ultimately show ?thesis by (simp add: flush_access_unit_def Let_def)
qed

section \<open>Properties\<close>

text \<open>
  What the RTSP egress sends, the RTP ingest publishes: an access unit of any NAL units
  without parameter sets, packetized into single NAL unit packets and FU-A fragments from any
  sequence number (which may wrap), is taken up packet by packet without a report until the
  last one, which carries the marker; that one publishes a single frame with the original
  Annex B data, timestamp and keyframe flag. The batch is empty again and the next sequence
  number is the one the egress continues with, so access units can follow each other.
\<close>

theorem rtp_h264_loopback:
  fixes pt :: byte and ts ssrc :: "32 word"
  assumes "pt AND 0x80 = 0" and "\<forall>n\<in>set us. media_nal n" and "\<exists>n\<in>set us. nal_kind n \<in> {1, 5}"
    and "ig_expected_seq g \<in> {None, Some seq}" and "au_parts (ig_batch g) = []" and "\<not> au_is_keyframe (ig_batch g)"
  shows "let (ps, seq') = packetize_h264_access_unit_for_rtp (annex_b_of us) pt seq ts ssrc;
      f = with_clock_rate (media_frame_new (ig_stream_id g) 0 (unat ts) (annex_b_of us)
            (\<exists>n\<in>set us. nal_kind n = 5) H264) VIDEO_RTP_CLOCK_RATE
    in \<exists>g'. ingest_packets (g, m) ps =
         (case publish_frame m f of None \<Rightarrow> None
          | Some m' \<Rightarrow> Some ((g', m'), replicate (length ps - 1) False @ [True])) \<and>
       au_parts (ig_batch g') = [] \<and> \<not> au_is_keyframe (ig_batch g') \<and>
       ig_expected_seq g' = Some seq' \<and> ig_stream_id g' = ig_stream_id g"
proof -
  have ok: "\<forall>n\<in>set us. nal_ok n" using assms(2) by (simp add: media_nal_def)
  have pk: "packetize_h264_access_unit_for_rtp (annex_b_of us) pt seq ts ssrc = packetize_units us pt seq ts ssrc"
    using iter_ranges_annex_b [OF ok] by (simp add: packetize_h264_access_unit_for_rtp_def)
  obtain ps seq' where eq: "packetize_units us pt seq ts ssrc = (ps, seq')" by fastforce
  have "us \<noteq> []" using assms(3) by auto
  from packetize_units_run [OF assms(1) this assms(2,4) disjI1 [OF assms(5)], where m = m and ts = ts and ssrc = ssrc] eq
  obtain g1 where run: "ingest_packets (g, m) ps = quiet_until_last (length ps) (flush_access_unit (g1, m))"
    and g1: "ig_batch g1 = batch_of_units (ig_batch g) ts us" "ig_stream_id g1 = ig_stream_id g"
      "ig_expected_seq g1 = Some seq'" by auto
  show ?thesis
    unfolding pk eq run flush_units [OF assms(2,3) g1(1) assms(5,6)] g1(2) Let_def prod.case
    using g1
    by (intro exI [of _ "clear_parts (g1\<lparr>ig_units := ig_units g1 + 1\<rparr>)"])
      (simp add: quiet_until_last_def clear_parts_def split: option.split)
qed

theorem rtp_h264_loopback_witness:
  "\<exists>g'. ingest_packets (ingest_new ''live'', manager_new)
      (fst (packetize_h264_access_unit_for_rtp (annex_b_of [[0x06, 5], [0x65, 0x88]]) 96 65535 90 7)) =
    Some ((g', manager_new), [False, True])"
proof -
  let ?us = "[[0x06, 5], [0x65, 0x88 :: byte]]"
  have ok: "\<forall>n\<in>set ?us. media_nal n" "\<exists>n\<in>set ?us. nal_kind n \<in> {1, 5}"
    by (simp_all add: media_nal_def nal_ok_def nal_kind_def single_nal_type_def sublist_code start_code_def)
  have "(65535 :: 16 word) + 1 = -1 + 1" by simp
  then have wrap: "(65536 :: 16 word) = 0" by simp
  have pk: "packetize_h264_access_unit_for_rtp (annex_b_of ?us) 96 65535 90 7 =
      ([build_rtp_packet 96 65535 90 7 False [0x06, 5], build_rtp_packet 96 0 90 7 True [0x65, 0x88]], 1)"
    using iter_ranges_annex_b [of ?us] ok(1)
    by (simp add: wrap packetize_h264_access_unit_for_rtp_def media_nal_def packetize_h264_nal_for_rtp_def UDP_RTP_MAX_PAYLOAD_def)
  have "publish_frame manager_new f = Some manager_new" for f
    by (simp add: publish_frame_def Let_def get_or_create_hub_def)
  then show ?thesis
    using rtp_h264_loopback [OF _ ok, of 96 "ingest_new ''live''" 65535 90 7 manager_new] pk
    by (auto simp: ingest_new_def batch_default_def)
qed

text \<open>
  Wall-clock RTP time: the first packet of a timeline is stamped 0, and within the range
  of the multiplication a later packet is stamped with the elapsed microseconds in 90 kHz
  ticks for video and 44.1 kHz for AAC, rounded down, modulo 2^32.
\<close>

theorem wallclock_timeline:
  assumes "t0 \<le> t1" and "t1 - t0 \<le> u64_max div 44100"
  shows "let (tml, first) = map_wallclock (timeline_for_codec codec) t0; (tml', later) = map_wallclock tml t1
    in first = 0 \<and> tml' = tml \<and>
       later = word_of_nat (if codec = AAC then (t1 - t0) * 44100 div 1000000 else (t1 - t0) * 90 div 1000)"
proof -
  have "(t1 - t0) * 44100 \<le> u64_max" using assms(2) by (simp add: u64_max_def)
  then have "t1 - t0 \<le> u64_max" "sat_mul64 (t1 - t0) 44100 = (t1 - t0) * 44100"
    "sat_mul64 (t1 - t0) 90 = (t1 - t0) * 90"
    by (simp_all add: sat_mul64_def)
  then show ?thesis
    by (cases codec) (simp_all add: map_wallclock_def timeline_for_codec_def AAC_CLOCK_HZ_def
        RTP_CLOCK_HZ_def sat_mul64_def)
qed

theorem wallclock_timeline_witness:
  "snd (map_wallclock (fst (map_wallclock (timeline_for_codec AAC) 1000)) 2001000) = 88200"
  using wallclock_timeline [of 1000 2001000 AAC]
  by (simp add: u64_max_def split_def Let_def)

end
