(* ===== verification/Rtsp_Session.thy ===== *)
theory Rtsp_Session
  imports Sdp Play_Egress
begin

text \<open>
  The requests of an RTSP session: the text half of \<open>src/src/server/rtsp/common.rs\<close>,
  \<open>src/src/server/rtsp/session.rs\<close> and the request handler of \<open>src/src/server/rtsp/mod.rs\<close>.
  The url crate and the base64 engine are the parameters of \<open>rtsp_libs\<close>; the random session id,
  the peer address as text and the ports of an opened UDP pair are arguments. Restarting HLS is an
  effect. Text is what \<open>from_utf8_lossy\<close> gives for ASCII bytes. Log lines are left out.
\<close>

record rtsp_libs =
  lib_url_path :: "string \<Rightarrow> string option"
  lib_base64 :: "bytes \<Rightarrow> string"
  lib_unbase64 :: "string \<Rightarrow> bytes option"

section \<open>Reading request text\<close>

record transport_info =
  ti_transport_type :: string
  ti_client_port :: "(nat \<times> nat) option"
  ti_server_port :: "(nat \<times> nat) option"

definition transport_default :: transport_info where
  "transport_default = \<lparr>ti_transport_type = [], ti_client_port = None, ti_server_port = None\<rparr>"

definition read_port_pair :: "string \<Rightarrow> (nat \<times> nat) option" where
  "read_port_pair s =
     (case split_char (CHR ''-'') s of
        a # b # _ \<Rightarrow>
          (case (parse_dec 65535 a, parse_dec 65535 b) of
             (Some p1, Some p2) \<Rightarrow> Some (p1, p2) | _ \<Rightarrow> None)
      | _ \<Rightarrow> None)"

definition or_keep :: "'a option \<Rightarrow> 'a option \<Rightarrow> 'a option" where
  "or_keep new old = (case new of None \<Rightarrow> old | Some x \<Rightarrow> Some x)"

definition read_transport_part :: "transport_info \<Rightarrow> string \<Rightarrow> transport_info" where
  "read_transport_part info part =
     (let p = trim part in
      case strip_prefix ''Transport:'' p of
        Some x \<Rightarrow> info\<lparr>ti_transport_type := trim x\<rparr>
      | None \<Rightarrow>
     (case strip_prefix ''client_port='' p of
        Some x \<Rightarrow> info\<lparr>ti_client_port := or_keep (read_port_pair x) (ti_client_port info)\<rparr>
      | None \<Rightarrow>
     (case strip_prefix ''server_port='' p of
        Some x \<Rightarrow> info\<lparr>ti_server_port := or_keep (read_port_pair x) (ti_server_port info)\<rparr>
      | None \<Rightarrow>
     (case strip_prefix ''interleaved='' p of
        Some x \<Rightarrow> info\<lparr>ti_client_port := or_keep (read_port_pair x) (ti_client_port info)\<rparr>
      | None \<Rightarrow> info))))"

definition extract_transport :: "string \<Rightarrow> transport_info" where
  "extract_transport request =
     (case find (prefix ''Transport:'') (text_lines request) of
        None \<Rightarrow> transport_default
      | Some line \<Rightarrow> foldl read_transport_part transport_default (split_char (CHR '';'') line))"

definition is_tcp :: "transport_info \<Rightarrow> bool" where
  "is_tcp t \<longleftrightarrow> contains_str ''TCP'' (to_uppercase (ti_transport_type t))"

definition is_udp_transport :: "transport_info \<Rightarrow> bool" where
  "is_udp_transport t \<longleftrightarrow> \<not> contains_str ''TCP'' (to_uppercase (ti_transport_type t))"

fun first_some :: "('a \<Rightarrow> 'b option) \<Rightarrow> 'a list \<Rightarrow> 'b option" where
  "first_some f [] = None"
| "first_some f (x # xs) = (case f x of None \<Rightarrow> first_some f xs | Some y \<Rightarrow> Some y)"

definition parse_transport_server_ports :: "string \<Rightarrow> (nat \<times> nat) option" where
  "parse_transport_server_ports response =
     first_some (\<lambda>line.
         if prefix ''Transport:'' line
         then first_some (\<lambda>part. Option.bind (strip_prefix ''server_port='' (trim part)) read_port_pair)
                (split_char (CHR '';'') line)
         else None)
       (text_lines response)"

definition url_prefers_udp :: "string \<Rightarrow> bool" where
  "url_prefers_udp url \<longleftrightarrow>
     contains_str ''transport=udp'' (to_lowercase url) \<or> contains_str ''rtsp_transport=udp'' (to_lowercase url)"

definition digits_value :: "string \<Rightarrow> nat" where
  "digits_value s = (case parse_dec u32_max (takeWhile is_digit s) of Some n \<Rightarrow> n | None \<Rightarrow> 0)"

definition extract_track_id :: "string \<Rightarrow> nat" where
  "extract_track_id url =
     (let path = to_lowercase url in
      case find_str ''trackid='' path of
        Some i \<Rightarrow> digits_value (drop (i + 8) path)
      | None \<Rightarrow>
          (case find_str ''streamid='' path of
             Some i \<Rightarrow> digits_value (drop (i + 9) path)
           | None \<Rightarrow> 0))"

definition extract_stream_id :: "(string \<Rightarrow> string option) \<Rightarrow> string \<Rightarrow> stream_id" where
  "extract_stream_id url_path url =
     (let path = (case url_path url of Some p \<Rightarrow> p | None \<Rightarrow> url);
          parts = filter (\<lambda>s. s \<noteq> []) (split_char (CHR ''/'') path)
      in if parts = [] then ''live''
         else
           let last_part = last parts; lower = to_lowercase last_part
           in if (prefix ''trackid='' lower \<or> prefix ''streamid='' lower) \<and> 2 \<le> length parts
              then parts ! (length parts - 2) else last_part)"

definition split_colon_second :: "string \<Rightarrow> string option" where
  "split_colon_second line = (case split_char (CHR '':'') line of _ # b # _ \<Rightarrow> Some b | _ \<Rightarrow> None)"

definition extract_cseq :: "string \<Rightarrow> string" where
  "extract_cseq request =
     (case first_some (\<lambda>line.
             if prefix ''CSeq:'' line \<or> prefix ''Cseq:'' line \<or> prefix ''cseq:'' line
             then split_colon_second line else None) (text_lines request) of
        Some v \<Rightarrow> trim v | None \<Rightarrow> ''0'')"

section \<open>The session\<close>

datatype transport_mode = Tcp | Udp

record rtsp_session =
  ss_stream_id :: "stream_id option"
  ss_session_id :: "string option"
  ss_playing :: bool
  ss_publishing :: bool
  ss_publisher_id :: "string option"
  ss_transport_mode :: transport_mode
  ss_interleaved_channels :: "(nat \<times> nat) list"
  ss_tracks :: "track list"
  ss_rtp_task_started :: bool
  ss_sps :: "bytes option"
  ss_pps :: "bytes option"

definition rtsp_session_new :: rtsp_session where
  "rtsp_session_new =
     \<lparr>ss_stream_id = None, ss_session_id = None, ss_playing = False, ss_publishing = False,
      ss_publisher_id = None, ss_transport_mode = Tcp, ss_interleaved_channels = [], ss_tracks = [],
      ss_rtp_task_started = False, ss_sps = None, ss_pps = None\<rparr>"

section \<open>Responses\<close>

definition ok_response :: "string \<Rightarrow> rtsp_response" where
  "ok_response cseq = response_header (response_new 200 ''OK'') ''CSeq'' cseq"

definition build_options_response :: "string \<Rightarrow> string" where
  "build_options_response cseq =
     response_to_string (response_header (ok_response cseq) ''Public''
       ''OPTIONS, DESCRIBE, SETUP, PLAY, PAUSE, TEARDOWN, ANNOUNCE, RECORD'')"

definition build_describe_response :: "string \<Rightarrow> string \<Rightarrow> string" where
  "build_describe_response cseq sdp =
     response_to_string (response_body (response_header (ok_response cseq) ''Content-Type'' ''application/sdp'') sdp)"

definition port_pair :: "nat \<times> nat \<Rightarrow> string" where
  "port_pair p = dec_str (fst p) @ ''-'' @ dec_str (snd p)"

definition setup_transport_line :: "transport_info \<Rightarrow> string" where
  "setup_transport_line t =
     (if is_tcp t
      then ''RTP/AVP/TCP;interleaved='' @ port_pair (case ti_client_port t of Some p \<Rightarrow> p | None \<Rightarrow> (0, 1))
      else ''RTP/AVP;unicast;client_port='' @ port_pair (case ti_client_port t of Some p \<Rightarrow> p | None \<Rightarrow> (5000, 5001)) @
        '';server_port='' @ port_pair (case ti_server_port t of Some p \<Rightarrow> p | None \<Rightarrow> (5000, 5001)))"

definition build_setup_response :: "string \<Rightarrow> string \<Rightarrow> transport_info \<Rightarrow> string" where
  "build_setup_response cseq session_id t =
     response_to_string (response_header (response_header (ok_response cseq) ''Session'' session_id)
       ''Transport'' (setup_transport_line t))"

definition build_setup_udp_response :: "string \<Rightarrow> string \<Rightarrow> nat \<times> nat \<Rightarrow> nat \<times> nat \<Rightarrow> string" where
  "build_setup_udp_response cseq session_id server client =
     response_to_string (response_header (response_header (ok_response cseq) ''Session'' session_id)
       ''Transport'' (''RTP/AVP;client_port='' @ port_pair client @ '';server_port='' @ port_pair server))"

definition build_play_response :: "string \<Rightarrow> string option \<Rightarrow> string \<Rightarrow> string" where
  "build_play_response cseq session_id rtp_info =
     (let r = response_header (response_header (ok_response cseq) ''Range'' ''npt=0.000-'') ''RTP-Info'' rtp_info
      in response_to_string (case session_id of Some s \<Rightarrow> response_header r ''Session'' s | None \<Rightarrow> r))"

definition build_pause_response :: "string \<Rightarrow> string" where
  "build_pause_response cseq = response_to_string (ok_response cseq)"

definition build_teardown_response :: "string \<Rightarrow> string" where
  "build_teardown_response cseq = response_to_string (ok_response cseq)"

definition build_announce_response :: "string \<Rightarrow> string" where
  "build_announce_response cseq = response_to_string (ok_response cseq)"

definition build_record_response :: "string \<Rightarrow> string \<Rightarrow> string" where
  "build_record_response cseq session_id =
     response_to_string (response_header (ok_response cseq) ''Session'' session_id)"

definition build_error_response :: "nat \<Rightarrow> string \<Rightarrow> string \<Rightarrow> string" where
  "build_error_response status reason cseq =
     response_to_string (response_header (response_new status reason) ''CSeq'' cseq)"

definition rtp_info_url :: "stream_id \<Rightarrow> nat \<Rightarrow> string" where
  "rtp_info_url sid idx =
     ''url=rtsp://localhost:554/'' @ sid @ ''/trackID='' @ dec_str idx @ '';seq=0;rtptime=0''"

definition build_rtp_info :: "stream_id \<Rightarrow> stream_manager \<Rightarrow> string" where
  "build_rtp_info sid m =
     (let tracks = (case get_stream m sid of
                      Some s \<Rightarrow> if st_tracks s = [] then default_live_tracks else st_tracks s
                    | None \<Rightarrow> default_live_tracks)
      in join_with '','' (List.map (rtp_info_url sid) [0..<length tracks]))"

section \<open>Requests\<close>

type_synonym rtsp_reply = "string \<times> rtsp_session \<times> stream_manager \<times> stream_id option"

text \<open>The last component of a reply is the stream whose HLS packaging is restarted.\<close>

definition describe_request ::
    "rtsp_libs \<Rightarrow> string \<Rightarrow> string \<Rightarrow> stream_manager \<Rightarrow> rtsp_session \<Rightarrow> rtsp_reply" where
  "describe_request libs url cseq m s =
     (let sid = extract_stream_id (lib_url_path libs) url in
      if get_stream m sid = None then (build_error_response 404 ''Not Found'' cseq, s, m, None)
      else
        (build_describe_response cseq (server_build_sdp (lib_base64 libs) sid (get_stream m sid)),
         (if ss_stream_id s = None then s\<lparr>ss_stream_id := Some sid\<rparr> else s), m, None))"

definition setup_request ::
    "rtsp_libs \<Rightarrow> string \<Rightarrow> (nat \<times> nat) option \<Rightarrow> string \<Rightarrow> string \<Rightarrow> string \<Rightarrow> stream_manager \<Rightarrow>
     rtsp_session \<Rightarrow> rtsp_reply" where
  "setup_request libs rid ports request url cseq m s =
     (let s1 = (if ss_stream_id s = None
                then s\<lparr>ss_stream_id := Some (extract_stream_id (lib_url_path libs) url)\<rparr> else s);
          session_id = (case ss_session_id s1 of None \<Rightarrow> rid | Some x \<Rightarrow> x);
          s2 = s1\<lparr>ss_session_id := Some session_id\<rparr>;
          t0 = extract_transport request;
          t = (case ports of Some p \<Rightarrow> t0\<lparr>ti_server_port := Some p\<rparr> | None \<Rightarrow> t0);
          s3 = s2\<lparr>ss_transport_mode := (if is_tcp t then Tcp else Udp)\<rparr>;
          s4 = (case ti_client_port t of
                  Some p \<Rightarrow> s3\<lparr>ss_interleaved_channels := ss_interleaved_channels s3 @ [p]\<rparr>
                | None \<Rightarrow> s3)
      in (build_setup_response cseq session_id t, s4, m, None))"

definition play_request :: "string \<Rightarrow> stream_manager \<Rightarrow> rtsp_session \<Rightarrow> rtsp_reply" where
  "play_request cseq m s =
     (case ss_stream_id s of
        None \<Rightarrow> (build_error_response 455 ''Method Not Valid in This State'' cseq, s, m, None)
      | Some sid \<Rightarrow>
          (build_play_response cseq (ss_session_id s) (build_rtp_info sid m), s\<lparr>ss_playing := True\<rparr>, m, None))"

definition pause_request :: "string \<Rightarrow> stream_manager \<Rightarrow> rtsp_session \<Rightarrow> rtsp_reply" where
  "pause_request cseq m s =
     (if ss_stream_id s = None
      then (build_error_response 455 ''Method Not Valid in This State'' cseq, s, m, None)
      else (build_pause_response cseq, s\<lparr>ss_playing := False\<rparr>, m, None))"

text \<open>
  Giving the publisher slot back: \<open>TEARDOWN\<close> and \<open>cleanup_on_disconnect\<close> do it with the same lines.
\<close>

definition release_slot :: "rtsp_session \<Rightarrow> stream_manager \<Rightarrow> stream_manager" where
  "release_slot s m =
     (case (ss_stream_id s, ss_publisher_id s) of
        (Some sid, Some p) \<Rightarrow>
          (case release_publisher m sid p of
             (m1, True) \<Rightarrow> (case set_unpublished m1 sid of Some m2 \<Rightarrow> m2 | None \<Rightarrow> m1)
           | (m1, False) \<Rightarrow> m1)
      | _ \<Rightarrow> m)"

definition teardown_request :: "string \<Rightarrow> stream_manager \<Rightarrow> rtsp_session \<Rightarrow> rtsp_reply" where
  "teardown_request cseq m s =
     (build_teardown_response cseq,
      s\<lparr>ss_stream_id := None, ss_playing := False, ss_publishing := False, ss_publisher_id := None,
        ss_interleaved_channels := [], ss_rtp_task_started := False\<rparr>,
      release_slot s m, None)"

definition request_body_of :: "string \<Rightarrow> string" where
  "request_body_of request =
     (case find_str (crlf @ crlf) request of Some p \<Rightarrow> drop (p + 4) request | None \<Rightarrow> request)"

definition conflict_response :: "string \<Rightarrow> string" where
  "conflict_response cseq = build_error_response 409 ''Conflict: stream already publishing'' cseq"

definition announce_request ::
    "rtsp_libs \<Rightarrow> string \<Rightarrow> string \<Rightarrow> string \<Rightarrow> string \<Rightarrow> stream_manager \<Rightarrow> rtsp_session \<Rightarrow> rtsp_reply" where
  "announce_request libs peer request url cseq m s =
     (let body = request_body_of request;
          sid = extract_stream_id (lib_url_path libs) url;
          (tracks, sps, pps) = parse_sdp_with_sps_pps (lib_unbase64 libs) body;
          s1 = s\<lparr>ss_sps := sps, ss_pps := pps\<rparr>;
          tracks_to_create = (if tracks = [] then default_live_tracks else tracks);
          m1 = fst (create_stream m sid stream_source_mode.Push RTSP None);
          publisher_id = ''rtsp:'' @ peer
      in case acquire_publisher m1 sid publisher_id of
           None \<Rightarrow> (conflict_response cseq, s1, m1, None)
         | Some m2 \<Rightarrow>
             let m3 = set_stream_tracks m2 sid tracks_to_create;
                 m4 = (case (sps, pps) of (Some a, Some b) \<Rightarrow> set_stream_sps_pps m3 sid a b | _ \<Rightarrow> m3);
                 m5 = (case set_unpublished m4 sid of Some m' \<Rightarrow> m' | None \<Rightarrow> m4)
             in (build_announce_response cseq,
                 s1\<lparr>ss_stream_id := Some sid, ss_publishing := True, ss_publisher_id := Some publisher_id\<rparr>,
                 m5, None))"

definition record_request ::
    "rtsp_libs \<Rightarrow> bool \<Rightarrow> string \<Rightarrow> string \<Rightarrow> string \<Rightarrow> string \<Rightarrow> stream_manager \<Rightarrow> rtsp_session \<Rightarrow>
     rtsp_reply" where
  "record_request libs has_hls rid peer url cseq m s =
     (let sid = (case ss_stream_id s of Some x \<Rightarrow> x | None \<Rightarrow> extract_stream_id (lib_url_path libs) url);
          session_id = (case ss_session_id s of None \<Rightarrow> rid | Some x \<Rightarrow> x);
          s1 = s\<lparr>ss_session_id := Some session_id\<rparr>;
          m1 = ensure_stream_hub m sid;
          publisher_id = ''rtsp:'' @ peer
      in case (if ss_publisher_id s1 = None
               then map_option (\<lambda>m2. (m2, s1\<lparr>ss_publisher_id := Some publisher_id\<rparr>))
                      (acquire_publisher m1 sid publisher_id)
               else Some (m1, s1)) of
           None \<Rightarrow> (conflict_response cseq, s1, m1, None)
         | Some (m2, s2) \<Rightarrow>
             (build_record_response cseq session_id, s2\<lparr>ss_publishing := True\<rparr>,
              (case set_publishing m2 sid of Some m' \<Rightarrow> m' | None \<Rightarrow> m2),
              (if has_hls then Some sid else None)))"

record request_env =
  re_libs :: rtsp_libs
  re_has_hls :: bool
  re_peer :: string

definition process_rtsp_request ::
    "request_env \<Rightarrow> string \<Rightarrow> (nat \<times> nat) option \<Rightarrow> string \<Rightarrow> stream_manager \<Rightarrow> rtsp_session \<Rightarrow> rtsp_reply" where
  "process_rtsp_request e rid ports request m s =
     (case text_lines request of
        [] \<Rightarrow> (build_error_response 400 ''Bad Request'' ''0'', s, m, None)
      | first_line # _ \<Rightarrow>
          let parts = split_whitespace first_line in
          if length parts < 3 then (build_error_response 400 ''Bad Request'' ''0'', s, m, None)
          else
            let meth = parts ! 0; url = parts ! 1; cseq = extract_cseq request in
            if meth = ''OPTIONS'' then (build_options_response cseq, s, m, None)
            else if meth = ''DESCRIBE'' then describe_request (re_libs e) url cseq m s
            else if meth = ''SETUP'' then setup_request (re_libs e) rid ports request url cseq m s
            else if meth = ''PLAY'' then play_request cseq m s
            else if meth = ''PAUSE'' then pause_request cseq m s
            else if meth = ''TEARDOWN'' then teardown_request cseq m s
            else if meth = ''ANNOUNCE'' then announce_request (re_libs e) (re_peer e) request url cseq m s
            else if meth = ''RECORD'' then record_request (re_libs e) (re_has_hls e) rid (re_peer e) url cseq m s
            else (build_error_response 501 ''Not Implemented'' cseq, s, m, None))"

end
