(* ===== verification/Rtsp_Conn.thy ===== *)
theory Rtsp_Conn
  imports Rtsp_Session
begin

text \<open>
  An RTSP connection: \<open>src/src/server/rtsp/server_session.rs\<close>. The read loop cuts interleaved
  packets and requests out of the bytes it reads and handles each; the registry it shares with the
  other connections is threaded through. What the outside decides is the input \<open>rtsp_io\<close> of each
  unit: the random numbers, whether the sockets bind and whether the write queue still takes
  data. Spawned tasks (the UDP receivers, the player's sender) are effects that carry their first
  state, and have their own step functions.
\<close>

section \<open>State\<close>

record udp_track_transport =
  ut_server_ports :: "nat \<times> nat"
  ut_client_ports :: "nat \<times> nat"

record rtsp_conn =
  sv_env :: request_env
  sv_session :: rtsp_session
  sv_ssrc :: "32 word"
  sv_udp_tracks :: "(track_id \<times> udp_track_transport) list"
  sv_udp_receiver_tracks :: "track_id set"
  sv_sender :: bool
  sv_sps_cache :: "bytes option"
  sv_pps_cache :: "bytes option"
  sv_h264_ingest :: "h264_rtp_ingest option"

definition rtsp_conn_new :: "request_env \<Rightarrow> 32 word \<Rightarrow> rtsp_conn" where
  "rtsp_conn_new e ssrc =
     \<lparr>sv_env = e, sv_session = rtsp_session_new, sv_ssrc = ssrc, sv_udp_tracks = [],
      sv_udp_receiver_tracks = {}, sv_sender = False, sv_sps_cache = None, sv_pps_cache = None,
      sv_h264_ingest = None\<rparr>"

record rtsp_io =
  io_rid :: string
  io_port :: nat
  io_bind_rtp :: bool
  io_bind_rtcp :: bool
  io_write :: bool

record udp_receiver =
  ur_track :: track_id
  ur_stream_id :: stream_id
  ur_tracks :: "track list"
  ur_ingest :: "h264_rtp_ingest option"

record rtp_sender =
  sn_stream_id :: stream_id
  sn_udp_tracks :: "(track_id \<times> udp_track_transport) list option"
  sn_ssrc :: "32 word"
  sn_seq :: "track_id \<rightharpoonup> 16 word"
  sn_timelines :: "track_id \<rightharpoonup> play_rtp_timeline"
  sn_await_video_idr :: bool

datatype rtsp_effect =
    Send_response string
  | Restart_packaging stream_id
  | Receive_udp udp_receiver
  | Stop_sender
  | Start_sender rtp_sender

section \<open>RTP from the client\<close>

text \<open>The frame of an audio packet; \<open>whole\<close> is what is kept as its RTP data.\<close>

definition rtp_audio_frame ::
    "stream_id \<Rightarrow> track_id \<Rightarrow> track list \<Rightarrow> bytes \<Rightarrow> bytes \<Rightarrow> media_frame option" where
  "rtp_audio_frame sid track tracks rtp whole =
     (let marker = ((rtp ! 1) AND 0x80 \<noteq> 0);
          ts = unat (be32 (rtp ! 4) (rtp ! 5) (rtp ! 6) (rtp ! 7));
          payload_type = unat ((rtp ! 1) AND 0x7F);
          clock_rate = (case find (\<lambda>t. tr_id t = track \<or> tr_payload_type t = payload_type) tracks of
                          Some t \<Rightarrow> tr_clock_rate t | None \<Rightarrow> 44100);
          media = (case rtp_h264_media_payload rtp of Some (p, _, _) \<Rightarrow> p | None \<Rightarrow> drop 12 rtp)
      in case strip_mpeg4_generic_aac media of
           None \<Rightarrow> None
         | Some raw \<Rightarrow>
             if raw = [] then None
             else Some (with_rtp_data (with_clock_rate (media_frame_new sid track ts raw marker AAC) clock_rate) whole))"

definition sync_codec_cache_from_manager :: "rtsp_conn \<Rightarrow> stream_manager \<Rightarrow> stream_id \<Rightarrow> rtsp_conn" where
  "sync_codec_cache_from_manager c m sid =
     (case get_stream m sid of
        None \<Rightarrow> c
      | Some s \<Rightarrow>
          (case (st_sps s, st_pps s) of
             (Some sps, Some pps) \<Rightarrow>
               c\<lparr>sv_sps_cache := (if sv_sps_cache c = None then Some sps else sv_sps_cache c),
                 sv_pps_cache := (if sv_pps_cache c = None then Some pps else sv_pps_cache c)\<rparr>
           | _ \<Rightarrow> c))"

text \<open>An interleaved packet with its four bytes in front; \<open>None\<close> is a publish that does not return.\<close>

definition handle_rtp_data ::
    "rtsp_conn \<Rightarrow> stream_manager \<Rightarrow> byte \<Rightarrow> bytes \<Rightarrow> (rtsp_conn \<times> stream_manager) option" where
  "handle_rtp_data c m channel data =
     (case ss_stream_id (sv_session c) of
        None \<Rightarrow> Some (c, m)
      | Some sid \<Rightarrow>
          let track = channel div 2; rtp = drop 4 data in
          if length rtp < 12 then Some (c, m)
          else if track = 0 then
            let g = (case sv_h264_ingest c of None \<Rightarrow> ingest_new sid | Some g \<Rightarrow> g) in
            map_option (\<lambda>((g', m'), _).
                (sync_codec_cache_from_manager (c\<lparr>sv_h264_ingest := Some g'\<rparr>) m' sid, m'))
              (ingest_rtp_packet (g, m) rtp)
          else
            (case rtp_audio_frame sid track (ss_tracks (sv_session c)) rtp data of
               None \<Rightarrow> Some (c, m)
             | Some f \<Rightarrow> map_option (\<lambda>m'. (c, m')) (publish_frame m f)))"

section \<open>UDP\<close>

definition udp_receiver_new :: "track_id \<Rightarrow> stream_id \<Rightarrow> track list \<Rightarrow> udp_receiver" where
  "udp_receiver_new track sid tracks =
     \<lparr>ur_track = track, ur_stream_id = sid, ur_tracks = tracks,
      ur_ingest = (if track = 0 then Some (ingest_new sid) else None)\<rparr>"

text \<open>One datagram in the receiver's task.\<close>

definition udp_receive ::
    "udp_receiver \<Rightarrow> stream_manager \<Rightarrow> bytes \<Rightarrow> (udp_receiver \<times> stream_manager) option" where
  "udp_receive r m p =
     (if length p < 12 \<or> is_rtcp_packet p then Some (r, m)
      else if ur_track r = 0 then
        (case ur_ingest r of
           None \<Rightarrow> Some (r, m)
         | Some g \<Rightarrow> map_option (\<lambda>((g', m'), _). (r\<lparr>ur_ingest := Some g'\<rparr>, m')) (ingest_rtp_packet (g, m) p))
      else
        (case rtp_audio_frame (ur_stream_id r) (ur_track r) (ur_tracks r) p p of
           None \<Rightarrow> Some (r, m)
         | Some f \<Rightarrow> map_option (\<lambda>m'. (r, m')) (publish_frame m f)))"

definition start_udp_receiver_for_track :: "rtsp_conn \<Rightarrow> track_id \<Rightarrow> rtsp_conn \<times> rtsp_effect list" where
  "start_udp_receiver_for_track c track =
     (if track \<in> sv_udp_receiver_tracks c then (c, [])
      else case ss_stream_id (sv_session c) of
          None \<Rightarrow> (c, [])
        | Some sid \<Rightarrow>
            (c\<lparr>sv_udp_receiver_tracks := insert track (sv_udp_receiver_tracks c)\<rparr>,
             [Receive_udp (udp_receiver_new track sid (ss_tracks (sv_session c)))]))"

fun start_udp_receivers :: "rtsp_conn \<Rightarrow> track_id list \<Rightarrow> rtsp_conn \<times> rtsp_effect list" where
  "start_udp_receivers c [] = (c, [])"
| "start_udp_receivers c (t # ts) =
     (let (c1, e1) = start_udp_receiver_for_track c t; (c2, e2) = start_udp_receivers c1 ts in (c2, e1 @ e2))"

definition ensure_udp_receivers_started :: "rtsp_conn \<Rightarrow> rtsp_conn \<times> rtsp_effect list" where
  "ensure_udp_receivers_started c = start_udp_receivers c (List.map fst (sv_udp_tracks c))"

definition allocate_udp_port_pair :: "nat \<Rightarrow> nat \<times> nat" where
  "allocate_udp_port_pair rnd = (let base = (50000 + rnd mod 9998) div 2 * 2 in (base, base + 1))"

definition is_udp_configured :: "rtsp_conn \<Rightarrow> bool" where
  "is_udp_configured c \<longleftrightarrow> sv_udp_tracks c \<noteq> []"

definition setup_udp_track ::
    "rtsp_io \<Rightarrow> rtsp_conn \<Rightarrow> track_id \<Rightarrow> nat \<times> nat \<Rightarrow> rtsp_conn \<times> (nat \<times> nat) option \<times> rtsp_effect list" where
  "setup_udp_track io c track client =
     (let server = allocate_udp_port_pair (io_port io) in
      if \<not> io_bind_rtp io \<or> \<not> io_bind_rtcp io then (c, None, [])
      else
        let c1 = c\<lparr>sv_udp_tracks := AList.update track \<lparr>ut_server_ports = server, ut_client_ports = client\<rparr>
                      (sv_udp_tracks c),
                   sv_session := (sv_session c)\<lparr>ss_transport_mode := Udp\<rparr>\<rparr>;
            (c2, effs) = (if ss_publishing (sv_session c1) then start_udp_receiver_for_track c1 track else (c1, []))
        in (c2, Some server, effs))"

section \<open>The player's sender\<close>

definition abort_rtp_sender :: "rtsp_conn \<Rightarrow> rtsp_conn \<times> rtsp_effect list" where
  "abort_rtp_sender c =
     (c\<lparr>sv_sender := False, sv_session := (sv_session c)\<lparr>ss_rtp_task_started := False\<rparr>\<rparr>,
      if sv_sender c then [Stop_sender] else [])"

definition start_rtp_sender :: "rtsp_conn \<Rightarrow> rtsp_conn \<times> rtsp_effect list" where
  "start_rtp_sender c =
     (let (c1, effs) = abort_rtp_sender c;
          s = sv_session c1
      in (c1\<lparr>sv_sender := True, sv_session := s\<lparr>ss_rtp_task_started := True\<rparr>\<rparr>,
          effs @ [Start_sender
            \<lparr>sn_stream_id = the (ss_stream_id s),
             sn_udp_tracks = (if ss_transport_mode s = Udp then Some (sv_udp_tracks c1) else None),
             sn_ssrc = sv_ssrc c1, sn_seq = Map.empty, sn_timelines = Map.empty, sn_await_video_idr = True\<rparr>]))"

text \<open>
  One frame in the sender's task: the datagrams or interleaved packets to write, in order, with
  the destination of a datagram. \<open>await_video_idr\<close> is cleared at the start when the priming
  found a frame.
\<close>

datatype sent_packet = Datagram "nat \<times> nat" bytes | Interleaved_packet bytes

definition sender_frame ::
    "rtp_sender \<Rightarrow> stream_manager \<Rightarrow> nat \<Rightarrow> media_frame \<Rightarrow> rtp_sender \<times> sent_packet list" where
  "sender_frame t m now f =
     (let video = (mf_codec f = H264 \<or> mf_codec f = H265) in
      if sn_await_video_idr t \<and> video \<and> \<not> is_idr_frame f then (t, [])
      else
        let t1 = (if video then t\<lparr>sn_await_video_idr := False\<rparr> else t);
            track = mf_track_id f;
            seq = (case sn_seq t1 track of None \<Rightarrow> 0 | Some q \<Rightarrow> q);
            tml = (case sn_timelines t1 track of None \<Rightarrow> timeline_for_codec (mf_codec f) | Some x \<Rightarrow> x);
            (tml', seq', packets) = egress_rtp_packets f m (sn_stream_id t1) tml seq (sn_ssrc t1) now;
            t2 = t1\<lparr>sn_seq := (sn_seq t1)(track \<mapsto> seq'), sn_timelines := (sn_timelines t1)(track \<mapsto> tml')\<rparr>;
            nonempty = filter (\<lambda>p. p \<noteq> []) packets
        in case sn_udp_tracks t2 of
             None \<Rightarrow> (t2, List.map (\<lambda>p. Interleaved_packet (wrap_interleaved p track)) nonempty)
           | Some us \<Rightarrow>
               (case map_of us track of
                  None \<Rightarrow> (t2, [])
                | Some u \<Rightarrow> (t2, List.map (Datagram (ut_client_ports u)) nonempty)))"

section \<open>One request\<close>

definition request_words :: "string \<Rightarrow> string list" where
  "request_words request =
     (case text_lines request of [] \<Rightarrow> [] | l # _ \<Rightarrow> split_whitespace l)"

definition request_method :: "string \<Rightarrow> string" where
  "request_method request = (case request_words request of [] \<Rightarrow> [] | w # _ \<Rightarrow> w)"

definition request_url :: "string \<Rightarrow> string" where
  "request_url request = (case request_words request of _ # u # _ \<Rightarrow> u | _ \<Rightarrow> [])"

definition prepare_udp_setup ::
    "rtsp_io \<Rightarrow> rtsp_conn \<Rightarrow> string \<Rightarrow> rtsp_conn \<times> (nat \<times> nat) option \<times> rtsp_effect list" where
  "prepare_udp_setup io c request =
     (let t = extract_transport request in
      case (if is_udp_transport t then ti_client_port t else None) of
        None \<Rightarrow> (c, None, [])
      | Some client \<Rightarrow> setup_udp_track io c (word_of_nat (extract_track_id (request_url request))) client)"

datatype rtsp_outcome = Rtsp_open | Rtsp_failed | Rtsp_hung

text \<open>
  The response is parsed and printed again on its way out; one that does not parse becomes an
  internal error. A full sender queue is waited for; a closed one ends the session.
\<close>

definition outgoing_response :: "string \<Rightarrow> string" where
  "outgoing_response response =
     (case parse_response response of
        Some r \<Rightarrow> response_to_string r
      | None \<Rightarrow> response_to_string (with_cseq (response_new 500 ''Internal Server Error'') ''0''))"

definition process_request ::
    "rtsp_io \<Rightarrow> rtsp_conn \<Rightarrow> stream_manager \<Rightarrow> string \<Rightarrow>
     rtsp_outcome \<times> rtsp_conn \<times> stream_manager \<times> rtsp_effect list" where
  "process_request io c m request =
     (let meth = request_method request;
          (c1, ports, e1) = (if meth = ''SETUP'' then prepare_udp_setup io c request else (c, None, []));
          (c2, e2) = (if meth = ''TEARDOWN'' then
                        (case abort_rtp_sender c1 of (c', e) \<Rightarrow> (c'\<lparr>sv_udp_tracks := []\<rparr>, e))
                      else if meth = ''PAUSE'' then abort_rtp_sender c1 else (c1, []));
          (response, s, m', hls) =
            process_rtsp_request (sv_env c2) (io_rid io) ports request m (sv_session c2);
          c3 = c2\<lparr>sv_session := s\<rparr>;
          e3 = (case hls of Some sid \<Rightarrow> [Restart_packaging sid] | None \<Rightarrow> [])
      in if \<not> io_write io then (Rtsp_failed, c3, m', e1 @ e2 @ e3)
         else
           let (c4, e4) = (if meth = ''RECORD'' \<and> ss_transport_mode s = Udp
                           then ensure_udp_receivers_started c3 else (c3, []));
               (c5, e5) = (if meth = ''PLAY'' \<and> ss_playing (sv_session c4) \<and> ss_stream_id (sv_session c4) \<noteq> None
                           then start_rtp_sender c4 else (c4, []))
           in (Rtsp_open, c5, m', e1 @ e2 @ e3 @ [Send_response (outgoing_response response)] @ e4 @ e5))"

section \<open>The read loop\<close>

definition header_end :: "bytes \<Rightarrow> nat option" where
  "header_end buf = find_str (crlf @ crlf) (text_of buf)"

definition parse_content_length :: "bytes \<Rightarrow> nat \<Rightarrow> nat" where
  "parse_content_length buf pos =
     (case find (\<lambda>l. prefix ''content-length:'' (to_lowercase l)) (text_lines (text_of (take pos buf))) of
        None \<Rightarrow> 0
      | Some l \<Rightarrow>
          (case split_colon_second l of
             None \<Rightarrow> 0
           | Some v \<Rightarrow> (case parse_dec u64_max (trim v) of Some n \<Rightarrow> n | None \<Rightarrow> 0)))"

datatype rtsp_unit = Rtp_unit byte bytes | Request_unit bytes

text \<open>The first complete unit of the buffer, and what follows it.\<close>

definition next_unit :: "bytes \<Rightarrow> (rtsp_unit \<times> bytes) option" where
  "next_unit buf =
     (if buf = [] then None
      else if hd buf = 0x24 then
        (if length buf \<ge> 4 then
           let n = 4 + be16 (buf ! 2) (buf ! 3)
           in if length buf \<ge> n then Some (Rtp_unit (buf ! 1) (take n buf), drop n buf) else None
         else None)
      else
        (case header_end buf of
           None \<Rightarrow> None
         | Some pos \<Rightarrow>
             let n = pos + 4 + parse_content_length buf pos
             in if length buf \<ge> n then Some (Request_unit (take n buf), drop n buf) else None))"

lemma next_unit_shorter: "next_unit buf = Some (u, rest) \<Longrightarrow> length rest < length buf"
  by (auto simp: next_unit_def Let_def split: if_splits option.splits)

type_synonym rtsp_result = "rtsp_outcome \<times> rtsp_conn \<times> stream_manager \<times> rtsp_effect list"

definition handle_unit :: "rtsp_io \<Rightarrow> rtsp_unit \<Rightarrow> rtsp_conn \<Rightarrow> stream_manager \<Rightarrow> rtsp_result" where
  "handle_unit io u c m =
     (case u of
        Rtp_unit channel data \<Rightarrow>
          (case handle_rtp_data c m channel data of
             None \<Rightarrow> (Rtsp_hung, c, m, [])
           | Some (c', m') \<Rightarrow> (Rtsp_open, c', m', []))
      | Request_unit data \<Rightarrow> process_request io c m (text_of data))"

text \<open>Handling a buffer: all its complete units, the \<open>k\<close>-th one with input \<open>io k\<close>.\<close>

function drain_units ::
    "(nat \<Rightarrow> rtsp_io) \<Rightarrow> nat \<Rightarrow> bytes \<Rightarrow> rtsp_conn \<Rightarrow> stream_manager \<Rightarrow> rtsp_result \<times> bytes \<times> nat" where
  "drain_units io k buf c m =
     (case next_unit buf of
        None \<Rightarrow> ((Rtsp_open, c, m, []), buf, k)
      | Some (u, rest) \<Rightarrow>
          (case handle_unit (io k) u c m of
             (Rtsp_open, c', m', e) \<Rightarrow>
               (case drain_units io (k + 1) rest c' m' of
                  ((o', c'', m'', e'), rest') \<Rightarrow> ((o', c'', m'', e @ e'), rest'))
           | stopped \<Rightarrow> (stopped, rest, k + 1)))"
  by pat_completeness auto
termination
  by (relation "measure (\<lambda>(io, k, buf, c, m). length buf)") (auto dest: next_unit_shorter)

declare drain_units.simps [simp del]

text \<open>
  The read loop over what the socket delivers: a read of bytes, the end of the stream, or a read
  error. The loop ends with the stream or with the outcome of a unit.
\<close>

datatype rtsp_read = Got bytes | Eof | Read_error

fun read_loop ::
    "(nat \<Rightarrow> rtsp_io) \<Rightarrow> nat \<Rightarrow> rtsp_read list \<Rightarrow> bytes \<Rightarrow> rtsp_conn \<Rightarrow> stream_manager \<Rightarrow> rtsp_result" where
  "read_loop io k [] buf c m = (Rtsp_open, c, m, [])"
| "read_loop io k (Eof # _) buf c m = (Rtsp_open, c, m, [])"
| "read_loop io k (Read_error # _) buf c m = (Rtsp_failed, c, m, [])"
| "read_loop io k (Got x # reads) buf c m =
     (case drain_units io k (buf @ x) c m of
        ((Rtsp_open, c', m', e), buf', k') \<Rightarrow>
          (case read_loop io k' reads buf' c' m' of (o', c'', m'', e') \<Rightarrow> (o', c'', m'', e @ e'))
      | (stopped, _) \<Rightarrow> stopped)"

definition cleanup_on_disconnect :: "rtsp_conn \<Rightarrow> stream_manager \<Rightarrow> rtsp_conn \<times> stream_manager \<times> rtsp_effect list" where
  "cleanup_on_disconnect c m =
     (let (c1, e) = abort_rtp_sender c; s = sv_session c1
      in (c1\<lparr>sv_session := s\<lparr>ss_playing := False, ss_publishing := False, ss_publisher_id := None\<rparr>\<rparr>,
          release_slot s m, e))"

text \<open>\<open>start\<close>: the loop and then the cleanup. A hung publish never gets to the cleanup.\<close>

definition run_session :: "(nat \<Rightarrow> rtsp_io) \<Rightarrow> rtsp_read list \<Rightarrow> rtsp_conn \<Rightarrow> stream_manager \<Rightarrow> rtsp_result" where
  "run_session io reads c m =
     (case read_loop io 1 reads [] c m of
        (Rtsp_hung, c', m', e) \<Rightarrow> (Rtsp_hung, c', m', e)
      | (oc, c', m', e) \<Rightarrow>
          (case cleanup_on_disconnect c' m' of (c'', m'', e') \<Rightarrow> (oc, c'', m'', e @ e')))"

section \<open>Codec parameters of the connection\<close>

definition is_sdp_ready :: "rtsp_conn \<Rightarrow> bool" where
  "is_sdp_ready c \<longleftrightarrow> sv_sps_cache c \<noteq> None \<and> sv_pps_cache c \<noteq> None"

definition build_sdp_with_codec_params :: "rtsp_conn \<Rightarrow> stream_id \<Rightarrow> string" where
  "build_sdp_with_codec_params c sid =
     unlines_crlf
       [''v=0'', ''o=- 0 0 IN IP4 127.0.0.1'', ''s=MediaServer Session: '' @ sid, ''t=0 0'',
        ''m=video 0 RTP/AVP 96'', ''c=IN IP4 0.0.0.0'', ''a=rtpmap:96 H264/90000'', ''a=control:trackID=0'',
        h264_fmtp (lib_base64 (re_libs (sv_env c))) (sv_sps_cache c, sv_pps_cache c) 96,
        ''m=audio 0 RTP/AVP 97'', ''c=IN IP4 0.0.0.0'', ''t=0 0'', ''a=rtpmap:97 mpeg4-generic/44100/2'',
        ''a=control:trackID=1'',
        ''a=fmtp:97 profile-level-id=1;mode=AAC-hbr;sizelength=13;indexlength=3;indexdeltalength=3'']"

end
