(* ===== verification/Rtmp_Puller.thy ===== *)
theory Rtmp_Puller
  imports Rtmp_Relay Text_Lines
begin

text \<open>
  \<open>src/src/server/rtmp/puller.rs\<close>: the client that plays a stream of another RTMP server and publishes
  it here. One pull is a straight line: handshake, \<open>connect\<close>, \<open>createStream\<close>, the registration of the
  local stream, \<open>play\<close>, then the relay loop until the peer closes.

  The crate \<open>url\<close> is a parameter (what it makes of the address, if anything). The reads of the
  connection are a list: \<open>Some bs\<close> are the bytes of one read, none mean that the peer closed, \<open>None\<close> is
  a failed read; a pull whose list is used up still waits. \<open>wr k\<close> says whether the \<open>k\<close>-th write
  succeeds. A chunk stream that is read with a \<open>HashMap\<close> of object properties written in the order of
  their insertion stands for any order.
\<close>

section \<open>Addresses\<close>

record parsed_url =
  pu_scheme :: string
  pu_host :: "string option"
  pu_port :: "nat option"
  pu_path :: string

record rtmp_url =
  ru_host :: string
  ru_port :: nat
  ru_app :: string
  ru_stream_name :: string
  ru_tc_url :: string

datatype pull_error =
    Invalid_url
  | Wrong_scheme string
  | Missing_host
  | Bad_path string
  | Connect_failed
  | Pull_io_error
  | Unexpected_version byte
  | Refused string
  | Closed_waiting string
  | Timed_out string

definition parse_rtmp_url :: "parsed_url option \<Rightarrow> pull_error + rtmp_url" where
  "parse_rtmp_url parsed =
     (case parsed of
        None \<Rightarrow> Inl Invalid_url
      | Some p \<Rightarrow>
          if pu_scheme p \<noteq> ''rtmp'' then Inl (Wrong_scheme (pu_scheme p))
          else case pu_host p of
            None \<Rightarrow> Inl Missing_host
          | Some host \<Rightarrow>
              let port = (case pu_port p of Some n \<Rightarrow> n | None \<Rightarrow> 1935);
                  path = dropWhile (\<lambda>c. c = CHR ''/'') (pu_path p);
                  parts = filter (\<lambda>s. s \<noteq> []) (split_char (CHR ''/'') path)
              in if length parts < 2 then Inl (Bad_path (''/'' @ path))
                 else
                   let app = join_with ''/'' (butlast parts)
                   in Inr \<lparr>ru_host = host, ru_port = port, ru_app = app, ru_stream_name = last parts,
                           ru_tc_url = ''rtmp://'' @ host @ '':'' @ dec_str port @ ''/'' @ app\<rparr>)"

section \<open>Numbers\<close>

text \<open>Sign, exponent and significand of an \<open>f64\<close> pattern.\<close>

definition f64_exponent :: "64 word \<Rightarrow> nat" where
  "f64_exponent w = unat (take_bit 11 (drop_bit 52 w))"

definition f64_fraction :: "64 word \<Rightarrow> nat" where
  "f64_fraction w = unat (take_bit 52 w)"

text \<open>The finite value in units of \<open>2 ^ -1075\<close>.\<close>

definition f64_units :: "64 word \<Rightarrow> int" where
  "f64_units w =
     (let m = (if f64_exponent w = 0 then 2 * int (f64_fraction w)
               else (2 ^ 52 + int (f64_fraction w)) * 2 ^ f64_exponent w)
      in if bit w 63 then - m else m)"

text \<open>
  \<open>(id - tx).abs() < 0.001\<close>. The constant is \<open>0x10624DD2F1A9FC * 2 ^ -62\<close>. The difference is taken
  exactly: an \<open>id\<close> close enough to the transaction ids 1 and 2 to pass is within a factor of two of
  them, where the subtraction does not round.
\<close>

definition near :: "64 word \<Rightarrow> 64 word \<Rightarrow> bool" where
  "near i tx \<longleftrightarrow> f64_exponent i < 2047 \<and> f64_exponent tx < 2047 \<and>
     \<bar>f64_units i - f64_units tx\<bar> < 0x10624DD2F1A9FC * 2 ^ 1013"

text \<open>\<open>x as u32\<close>: towards zero, saturating, a NaN is zero.\<close>

definition f64_to_u32 :: "64 word \<Rightarrow> 32 word" where
  "f64_to_u32 w =
     (let e = f64_exponent w; f = f64_fraction w
      in if bit w 63 \<or> e < 1023 \<or> e = 2047 \<and> f \<noteq> 0 then 0
         else if e \<ge> 1055 then 0xFFFFFFFF
         else word_of_nat ((2 ^ 52 + f) div 2 ^ (1075 - e)))"

section \<open>What the client sends\<close>

definition client_hello :: bytes where
  "client_hello = 0x03 # replicate 1536 0x00"

text \<open>
  \<open>client_handshake\<close>: what \<open>read_exact\<close> makes of the 3073 bytes of the response, what is written and
  how it ends.
\<close>

definition client_handshake :: "bool \<Rightarrow> bytes option \<Rightarrow> bool \<Rightarrow> bytes list \<times> (pull_error + unit)" where
  "client_handshake wr1 response wr2 =
     (if \<not> wr1 then ([], Inl Pull_io_error)
      else case response of
        None \<Rightarrow> ([client_hello], Inl Pull_io_error)
      | Some r \<Rightarrow>
          if r ! 0 \<noteq> 0x03 then ([client_hello], Inl (Unexpected_version (r ! 0)))
          else if \<not> wr2 then ([client_hello], Inl Pull_io_error)
          else ([client_hello, take 1536 (drop 1 r)], Inr ()))"

definition CLIENT_CHUNK_SIZE :: nat where "CLIENT_CHUNK_SIZE = 128"

text \<open>With a positive chunk size \<open>encode_message\<close> always returns.\<close>

definition client_command :: "32 word \<Rightarrow> amf0_value list \<Rightarrow> bytes" where
  "client_command msid values = the (encode_message 0x14 0 msid (encode values) CLIENT_CHUNK_SIZE 3)"

definition connect_values :: "64 word \<Rightarrow> string \<Rightarrow> string \<Rightarrow> amf0_value list" where
  "connect_values tx_id app tc_url =
     [AString (ascii ''connect''), Number tx_id,
      Object
        [(ascii ''app'', AString (ascii app)),
         (ascii ''flashVer'', AString (ascii ''FMLE/3.0 (compatible; Lavf58.2.100)'')),
         (ascii ''tcUrl'', AString (ascii tc_url)),
         (ascii ''fpad'', Boolean False),
         (ascii ''capabilities'', Number (f64_of_u32 15)),
         (ascii ''audioCodecs'', Number (f64_of_u32 4071)),
         (ascii ''videoCodecs'', Number (f64_of_u32 252)),
         (ascii ''videoFunction'', Number (f64_of_u32 1))]]"

definition build_connect_command :: "64 word \<Rightarrow> string \<Rightarrow> string \<Rightarrow> bytes" where
  "build_connect_command tx_id app tc_url = client_command 0 (connect_values tx_id app tc_url)"

definition create_stream_values :: "64 word \<Rightarrow> amf0_value list" where
  "create_stream_values tx_id = [AString (ascii ''createStream''), Number tx_id, ANull]"

definition build_create_stream_command :: "64 word \<Rightarrow> bytes" where
  "build_create_stream_command tx_id = client_command 0 (create_stream_values tx_id)"

text \<open>-2000.0 is the pattern C09F40 followed by zeros.\<close>

definition play_values :: "64 word \<Rightarrow> string \<Rightarrow> amf0_value list" where
  "play_values tx_id stream_name =
     [AString (ascii ''play''), Number tx_id, ANull, AString (ascii stream_name), Number 0xC09F400000000000]"

definition build_play_command :: "64 word \<Rightarrow> string \<Rightarrow> 32 word \<Rightarrow> bytes" where
  "build_play_command tx_id stream_name msid = client_command msid (play_values tx_id stream_name)"

section \<open>Messages out of the receive buffer\<close>

definition handle_control_message :: "bytes \<Rightarrow> byte \<Rightarrow> nat option" where
  "handle_control_message p msg_type =
     (if msg_type = 0x01 \<and> length p \<ge> 4 then Some (unat (be32 (p ! 0) (p ! 1) (p ! 2) (p ! 3))) else None)"

record pull_reader =
  pl_buf :: bytes
  pl_states :: assembler_map
  pl_headers :: header_map
  pl_chunk_size :: nat

definition pull_reader_new :: pull_reader where
  "pull_reader_new = \<lparr>pl_buf = [], pl_states = Map.empty, pl_headers = Map.empty, pl_chunk_size = 128\<rparr>"

text \<open>One \<open>parse_chunks\<close> and the control message it may have brought: a chunk size holds at once.\<close>

definition next_message :: "pull_reader \<Rightarrow> pull_reader \<times> rtmp_message option" where
  "next_message r =
     (case parse_chunks (pl_buf r) (pl_states r) (pl_headers r) (pl_chunk_size r) of
        ((buf, as, hs), None) \<Rightarrow> (r\<lparr>pl_buf := buf, pl_states := as, pl_headers := hs\<rparr>, None)
      | ((buf, as, hs), Some msg) \<Rightarrow>
          (r\<lparr>pl_buf := buf, pl_states := as, pl_headers := hs,
             pl_chunk_size := (case handle_control_message (rm_payload msg) (rm_msg_type msg) of
               Some n \<Rightarrow> n | None \<Rightarrow> pl_chunk_size r)\<rparr>, Some msg))"

lemma next_message_shrinks: "next_message r = (r', Some msg) \<Longrightarrow> length (pl_buf r') < length (pl_buf r)"
  by (auto simp: next_message_def split: prod.splits option.splits dest: parse_chunks_shrinks)

text \<open>\<open>read_more\<close> and the read of the relay loop add the bytes of one read.\<close>

definition feed :: "pull_reader \<Rightarrow> bytes \<Rightarrow> pull_reader" where
  "feed r bs = r\<lparr>pl_buf := pl_buf r @ bs\<rparr>"

definition extract_and_store_sps_pps :: "bytes \<Rightarrow> stream_manager \<Rightarrow> stream_id \<Rightarrow> stream_manager" where
  "extract_and_store_sps_pps data m sid =
     (if length data < 2 \<or> data ! 1 \<noteq> 0x00 \<or> length data \<le> 13 then m
      else
        let config = drop 5 data
        in if length config \<le> 7 then m
           else case parse_avc_config config of
             (sps, pps) \<Rightarrow> if sps \<noteq> [] then set_stream_sps_pps m sid sps pps else m)"

text \<open>A frame out of a message; None outside is the panic of \<open>data[5..]\<close> on a short video message.\<close>

definition video_payload_to_frame :: "bytes \<Rightarrow> stream_id \<Rightarrow> 32 word \<Rightarrow> media_frame option option" where
  "video_payload_to_frame data sid timestamp =
     (if length data < 2 then Some None
      else if data ! 1 \<noteq> 0x01 then Some None
      else if length data < 5 then None
      else
        let annex_b = avcc_to_annex_b (drop 5 data) 0 []
        in if annex_b = [] then Some None
           else Some (Some
             (with_clock_rate
               (media_frame_new sid 0 (unat timestamp) annex_b (data ! 0 AND 0xF0 = 0x10) H264) 1000)))"

definition audio_payload_to_frame :: "bytes \<Rightarrow> stream_id \<Rightarrow> 32 word \<Rightarrow> media_frame option" where
  "audio_payload_to_frame data sid timestamp =
     (if data = [] then None
      else if length data > 1 \<and> data ! 1 = 0x00 then None
      else
        let audio_data = (if length data > 1 \<and> data ! 0 = 0xAF \<and> data ! 1 = 0x01 then drop 2 data
                          else if length data > 1 then drop 1 data
                          else data)
        in if audio_data = [] then None
           else Some (with_clock_rate (media_frame_new sid 1 (unat timestamp) audio_data False AAC) 1000))"

definition rtmp_message_to_frame :: "rtmp_message \<Rightarrow> stream_id \<Rightarrow> media_frame option option" where
  "rtmp_message_to_frame msg sid =
     (if rm_msg_type msg = 0x09 then video_payload_to_frame (rm_payload msg) sid (rm_timestamp msg)
      else if rm_msg_type msg = 0x08 then Some (audio_payload_to_frame (rm_payload msg) sid (rm_timestamp msg))
      else Some None)"

section \<open>Waiting for a response\<close>

text \<open>How a pull ends; \<open>Pull_waiting\<close> is a pull that is still going on when the listed reads are used up.\<close>

datatype pull_outcome = Pull_done | Pull_failed pull_error | Pull_waiting | Pull_panicked | Pull_hung

datatype 'a verdict = Go_on | Found 'a | Refuse pull_error

text \<open>A command message: type 0x14 or 0x11 with a payload that parses.\<close>

definition command_of :: "rtmp_message \<Rightarrow> (bytes \<times> amf0_value list) option" where
  "command_of msg =
     (if rm_msg_type msg = 0x14 \<or> rm_msg_type msg = 0x11 then
        case parse_command (rm_payload msg) of Inl e \<Rightarrow> None | Inr c \<Rightarrow> Some c
      else None)"

definition first_number :: "amf0_value list \<Rightarrow> 64 word option" where
  "first_number args = (case args of Number n # _ \<Rightarrow> Some n | _ \<Rightarrow> None)"

text \<open>The third argument: a number, or the text under \<open>code\<close> of an object.\<close>

definition third_number :: "amf0_value list \<Rightarrow> 64 word option" where
  "third_number args = (case args of _ # _ # Number n # _ \<Rightarrow> Some n | _ \<Rightarrow> None)"

definition status_code :: "amf0_value list \<Rightarrow> string option" where
  "status_code args =
     (case args of
        _ # _ # Object info # _ \<Rightarrow>
          (case map_of info (ascii ''code'') of Some (AString code) \<Rightarrow> Some (text_of code) | _ \<Rightarrow> None)
      | _ \<Rightarrow> None)"

definition failure_code :: "string \<Rightarrow> bool" where
  "failure_code code \<longleftrightarrow> contains_str ''Failed'' code \<or> contains_str ''NotFound'' code"

definition result_verdict :: "64 word \<Rightarrow> string \<Rightarrow> rtmp_message \<Rightarrow> unit verdict" where
  "result_verdict tx_id phase msg =
     (case command_of msg of
        None \<Rightarrow> Go_on
      | Some (cmd, args) \<Rightarrow>
          if cmd = ascii ''_result'' then
            (case first_number args of
               Some i \<Rightarrow> if near i tx_id then Found () else Go_on
             | None \<Rightarrow> Go_on)
          else if cmd = ascii ''_error'' then Refuse (Refused (phase @ '' failed: _error''))
          else if cmd = ascii ''onStatus'' then
            (case status_code args of
               Some code \<Rightarrow>
                 if failure_code code then Refuse (Refused (phase @ '' onStatus: '' @ code)) else Go_on
             | None \<Rightarrow> Go_on)
          else Go_on)"

definition create_verdict :: "64 word \<Rightarrow> rtmp_message \<Rightarrow> 64 word verdict" where
  "create_verdict tx_id msg =
     (case command_of msg of
        None \<Rightarrow> Go_on
      | Some (cmd, args) \<Rightarrow>
          if cmd = ascii ''_result'' then
            (case first_number args of
               Some i \<Rightarrow>
                 if near i tx_id then
                   (case third_number args of Some sid \<Rightarrow> Found sid | None \<Rightarrow> Go_on)
                 else Go_on
             | None \<Rightarrow> Go_on)
          else if cmd = ascii ''_error'' then Refuse (Refused ''createStream _error'')
          else Go_on)"

definition play_verdict :: "rtmp_message \<Rightarrow> unit verdict" where
  "play_verdict msg =
     (case command_of msg of
        None \<Rightarrow> Go_on
      | Some (cmd, args) \<Rightarrow>
          if cmd = ascii ''onStatus'' then
            (case status_code args of
               Some code \<Rightarrow>
                 if code = ''NetStream.Play.Start'' then Found ()
                 else if failure_code code then Refuse (Refused (''Play failed: '' @ code))
                 else Go_on
             | None \<Rightarrow> Go_on)
          else if cmd = ascii ''_error'' then Refuse (Refused ''Play _error'')
          else Go_on)"

text \<open>The inner loop: messages until one decides, what follows it stays in the buffer.\<close>

function drain_until ::
    "(rtmp_message \<Rightarrow> 'a verdict) \<Rightarrow> (rtmp_message \<Rightarrow> stream_manager \<Rightarrow> stream_manager) \<Rightarrow>
     pull_reader \<Rightarrow> stream_manager \<Rightarrow> pull_reader \<times> stream_manager \<times> 'a verdict" where
  "drain_until judge store r m =
     (case next_message r of
        (r', None) \<Rightarrow> (r', m, Go_on)
      | (r', Some msg) \<Rightarrow>
          (case judge msg of
             Go_on \<Rightarrow> drain_until judge store r' (store msg m)
           | v \<Rightarrow> (r', store msg m, v)))"
  by pat_completeness auto
termination
  by (relation "measure (\<lambda>(judge, store, r, m). length (pl_buf r))") (auto dest: next_message_shrinks [OF sym])

declare drain_until.simps [simp del]

type_synonym 'a wait_result = "(pull_outcome + 'a) \<times> bytes option list \<times> pull_reader \<times> stream_manager"

text \<open>
  The loop of the three \<open>wait_for\<close> functions, at most \<open>k\<close> rounds: what is buffered, then one read.
  \<open>late\<close> is what a wait without a decision ends with.
\<close>

fun await ::
    "nat \<Rightarrow> (pull_outcome + 'a) \<Rightarrow> string \<Rightarrow> (rtmp_message \<Rightarrow> 'a verdict) \<Rightarrow>
     (rtmp_message \<Rightarrow> stream_manager \<Rightarrow> stream_manager) \<Rightarrow> bytes option list \<Rightarrow> pull_reader \<Rightarrow>
     stream_manager \<Rightarrow> 'a wait_result" where
  "await 0 late phase judge store inputs r m = (late, inputs, r, m)"
| "await (Suc k) late phase judge store inputs r m =
     (case drain_until judge store r m of
        (r', m', Found x) \<Rightarrow> (Inr x, inputs, r', m')
      | (r', m', Refuse e) \<Rightarrow> (Inl (Pull_failed e), inputs, r', m')
      | (r', m', Go_on) \<Rightarrow>
          (case inputs of
             [] \<Rightarrow> (Inl Pull_waiting, [], r', m')
           | None # rest \<Rightarrow> (Inl (Pull_failed Pull_io_error), rest, r', m')
           | Some bs # rest \<Rightarrow>
               if bs = [] then (Inl (Pull_failed (Closed_waiting phase)), rest, r', m')
               else await k late phase judge store rest (feed r' bs) m'))"

definition WAIT_ROUNDS :: nat where "WAIT_ROUNDS = 200"

definition wait_for_result ::
    "64 word \<Rightarrow> string \<Rightarrow> bytes option list \<Rightarrow> pull_reader \<Rightarrow> stream_manager \<Rightarrow> unit wait_result" where
  "wait_for_result tx_id phase =
     await WAIT_ROUNDS (Inl (Pull_failed (Timed_out phase))) phase (result_verdict tx_id phase) (\<lambda>_ m. m)"

definition wait_for_create_stream ::
    "64 word \<Rightarrow> bytes option list \<Rightarrow> pull_reader \<Rightarrow> stream_manager \<Rightarrow> (64 word) wait_result" where
  "wait_for_create_stream tx_id =
     await WAIT_ROUNDS (Inl (Pull_failed (Timed_out ''createStream''))) ''createStream''
       (create_verdict tx_id) (\<lambda>_ m. m)"

definition store_config :: "stream_id \<Rightarrow> rtmp_message \<Rightarrow> stream_manager \<Rightarrow> stream_manager" where
  "store_config sid msg m =
     (if rm_msg_type msg = 0x09 then extract_and_store_sps_pps (rm_payload msg) m sid else m)"

text \<open>Without a decision the pull goes on all the same.\<close>

definition wait_for_play_start ::
    "stream_id \<Rightarrow> bytes option list \<Rightarrow> pull_reader \<Rightarrow> stream_manager \<Rightarrow> unit wait_result" where
  "wait_for_play_start sid = await WAIT_ROUNDS (Inr ()) ''play start'' play_verdict (store_config sid)"

section \<open>The relay loop\<close>

text \<open>One message: the registry and the number of relayed frames after it, or a panic, or a ring that hangs.\<close>

definition relay_message ::
    "stream_id \<Rightarrow> rtmp_message \<Rightarrow> stream_manager \<Rightarrow> nat \<Rightarrow> pull_outcome + stream_manager \<times> nat" where
  "relay_message sid msg m n =
     (case rtmp_message_to_frame msg sid of
        None \<Rightarrow> Inl Pull_panicked
      | Some (Some f) \<Rightarrow>
          (case publish_frame m f of None \<Rightarrow> Inl Pull_hung | Some m' \<Rightarrow> Inr (m', n + 1))
      | Some None \<Rightarrow> Inr (store_config sid msg m, n))"

function relay_messages ::
    "stream_id \<Rightarrow> pull_reader \<Rightarrow> stream_manager \<Rightarrow> nat \<Rightarrow>
     (pull_outcome + nat) \<times> pull_reader \<times> stream_manager" where
  "relay_messages sid r m n =
     (case next_message r of
        (r', None) \<Rightarrow> (Inr n, r', m)
      | (r', Some msg) \<Rightarrow>
          (case relay_message sid msg m n of
             Inl e \<Rightarrow> (Inl e, r', m)
           | Inr (m', n') \<Rightarrow> relay_messages sid r' m' n'))"
  by pat_completeness auto
termination
  by (relation "measure (\<lambda>(sid, r, m, n). length (pl_buf r))") (auto dest: next_message_shrinks [OF sym])

declare relay_messages.simps [simp del]

text \<open>A failed read ends the loop like a closed connection.\<close>

fun relay_loop ::
    "stream_id \<Rightarrow> bytes option list \<Rightarrow> pull_reader \<Rightarrow> stream_manager \<Rightarrow> nat \<Rightarrow>
     pull_outcome \<times> pull_reader \<times> stream_manager \<times> nat" where
  "relay_loop sid [] r m n = (Pull_waiting, r, m, n)"
| "relay_loop sid (None # inputs) r m n = (Pull_done, r, m, n)"
| "relay_loop sid (Some bs # inputs) r m n =
     (if bs = [] then (Pull_done, r, m, n)
      else case relay_messages sid (feed r bs) m n of
        (Inl e, r', m') \<Rightarrow> (e, r', m', n)
      | (Inr n', r', m') \<Rightarrow> relay_loop sid inputs r' m' n')"

section \<open>A pull\<close>

abbreviation or_same :: "stream_manager \<Rightarrow> stream_manager option \<Rightarrow> stream_manager" where
  "or_same m x \<equiv> (case x of None \<Rightarrow> m | Some m' \<Rightarrow> m')"

text \<open>The local stream before \<open>play\<close>; \<open>set_stream_broadcast\<close> only looks the hub up and is left out.\<close>

definition pull_register :: "stream_manager \<Rightarrow> stream_id \<Rightarrow> string \<Rightarrow> stream_manager" where
  "pull_register m sid remote_url =
     (let m1 = fst (create_stream m sid stream_source_mode.Pull RTMP (Some remote_url));
          m2 = or_same m1 (set_unpublished m1 sid)
      in or_same m2 (set_publishing m2 sid))"

text \<open>From the registration on. Only the end of the relay loop reaches \<open>set_stopped\<close>.\<close>

definition pull_play ::
    "bool \<Rightarrow> rtmp_url \<Rightarrow> string \<Rightarrow> stream_id \<Rightarrow> 32 word \<Rightarrow> bytes option list \<Rightarrow> pull_reader \<Rightarrow>
     stream_manager \<Rightarrow> pull_outcome \<times> stream_manager \<times> bytes list" where
  "pull_play wr u remote_url sid server_stream_id inputs r m =
     (let m1 = pull_register m sid remote_url;
          play = build_play_command (f64_of_u32 3) (ru_stream_name u) server_stream_id
      in if \<not> wr then (Pull_failed Pull_io_error, m1, [])
         else case wait_for_play_start sid inputs r m1 of
           (Inl e, _, _, m2) \<Rightarrow> (e, m2, [play])
         | (Inr _, inputs', r', m2) \<Rightarrow>
             (case relay_loop sid inputs' r' m2 0 of
                (Pull_done, _, m3, _) \<Rightarrow> (Pull_done, or_same m3 (set_stopped m3 sid), [play])
              | (e, _, m3, _) \<Rightarrow> (e, m3, [play])))"

definition pull_negotiate ::
    "(nat \<Rightarrow> bool) \<Rightarrow> rtmp_url \<Rightarrow> string \<Rightarrow> stream_id \<Rightarrow> bytes option list \<Rightarrow> stream_manager \<Rightarrow>
     pull_outcome \<times> stream_manager \<times> bytes list" where
  "pull_negotiate wr u remote_url sid inputs m =
     (let connect = build_connect_command (f64_of_u32 1) (ru_app u) (ru_tc_url u);
          create = build_create_stream_command (f64_of_u32 2)
      in if \<not> wr 2 then (Pull_failed Pull_io_error, m, [])
         else case wait_for_result (f64_of_u32 1) ''connect'' inputs pull_reader_new m of
           (Inl e, _, _, m1) \<Rightarrow> (e, m1, [connect])
         | (Inr _, inputs1, r1, m1) \<Rightarrow>
             if \<not> wr 3 then (Pull_failed Pull_io_error, m1, [connect])
             else case wait_for_create_stream (f64_of_u32 2) inputs1 r1 m1 of
               (Inl e, _, _, m2) \<Rightarrow> (e, m2, [connect, create])
             | (Inr n, inputs2, r2, m2) \<Rightarrow>
                 (case pull_play (wr 4) u remote_url sid (f64_to_u32 n) inputs2 r2 m2 of
                    (e, m3, sent) \<Rightarrow> (e, m3, connect # create # sent)))"

definition pull ::
    "(nat \<Rightarrow> bool) \<Rightarrow> parsed_url option \<Rightarrow> bool \<Rightarrow> bytes option \<Rightarrow> bytes option list \<Rightarrow> string \<Rightarrow>
     stream_id \<Rightarrow> stream_manager \<Rightarrow> pull_outcome \<times> stream_manager \<times> bytes list" where
  "pull wr parsed connected response inputs remote_url sid m =
     (case parse_rtmp_url parsed of
        Inl e \<Rightarrow> (Pull_failed e, m, [])
      | Inr u \<Rightarrow>
          if \<not> connected then (Pull_failed Connect_failed, m, [])
          else case client_handshake (wr 0) response (wr 1) of
            (sent, Inl e) \<Rightarrow> (Pull_failed e, m, sent)
          | (sent, Inr _) \<Rightarrow>
              (case pull_negotiate wr u remote_url sid inputs m of
                 (e, m', sent') \<Rightarrow> (e, m', sent @ sent')))"

end
