(* ===== verification/Rtsp_Client.thy ===== *)
theory Rtsp_Client
  imports Rtsp_Conn Rtmp_Puller
begin

text \<open>
  The RTSP client: \<open>src/src/server/rtsp/client_session.rs\<close> (the requests of a session and their
  responses) and \<open>src/src/server/rtsp/puller.rs\<close> (a pull: the dialogue with the remote server, then the
  task that publishes what it sends).

  The crate \<open>url\<close> is a parameter: what it makes of the remote address, if anything. Reads are a list
  as in \<open>Rtmp_Puller\<close>: \<open>Some bs\<close> is one read, no bytes the end of the stream, \<open>None\<close> an error; a
  client whose list is used up waits. \<open>wr k\<close> says whether the \<open>k\<close>-th request is written. What is read
  after the dialogue, and the ticks of the keepalive, are the events of the pull task.
\<close>

section \<open>Responses\<close>

text \<open>\<open>str::split("\\r\\n")\<close>\<close>

fun split_crlf :: "string \<Rightarrow> string list" where
  "split_crlf [] = [[]]"
| "split_crlf [c] = [[c]]"
| "split_crlf (a # b # s) =
     (if a = CHR 0x0D \<and> b = CHR 0x0A then [] # split_crlf s
      else (case split_crlf (b # s) of [] \<Rightarrow> [[a]] | p # ps \<Rightarrow> (a # p) # ps))"

text \<open>The last \<open>Content-Length:\<close> line decides, also when its value is not a number.\<close>

fun headers_content_length :: "string list \<Rightarrow> nat option \<Rightarrow> nat option" where
  "headers_content_length [] n = n"
| "headers_content_length (l # ls) n =
     headers_content_length ls
       (if prefix ''Content-Length:'' l
        then (case split_colon_second l of Some v \<Rightarrow> parse_dec u64_max (trim v) | None \<Rightarrow> n)
        else n)"

record response_reader =
  rr_text :: string
  rr_content_length :: "nat option"
  rr_headers_complete :: bool

definition response_reader_new :: response_reader where
  "response_reader_new = \<lparr>rr_text = [], rr_content_length = None, rr_headers_complete = False\<rparr>"

text \<open>One read; each is made text on its own.\<close>

definition response_take :: "response_reader \<Rightarrow> bytes \<Rightarrow> response_reader" where
  "response_take r bs =
     (let r1 = r\<lparr>rr_text := rr_text r @ text_of (utf8_lossy bs)\<rparr> in
      if rr_headers_complete r1 then r1
      else case find_str (crlf @ crlf) (rr_text r1) of
          None \<Rightarrow> r1
        | Some pos \<Rightarrow>
            r1\<lparr>rr_headers_complete := True,
               rr_content_length :=
                 headers_content_length (split_crlf (take pos (rr_text r1))) (rr_content_length r1)\<rparr>)"

definition response_complete :: "response_reader \<Rightarrow> bool" where
  "response_complete r \<longleftrightarrow> rr_headers_complete r \<and>
     (let body_start = (case find_str (crlf @ crlf) (rr_text r) of Some p \<Rightarrow> p + 4 | None \<Rightarrow> 0)
      in case rr_content_length r of
           Some cl \<Rightarrow> cl \<le> length (rr_text r) - body_start
         | None \<Rightarrow> suffix (crlf @ crlf) (rr_text r))"

datatype rtsp_client_error =
    Rtsp_invalid_url
  | Rtsp_missing_host
  | Rtsp_connect_failed
  | Rtsp_io_error
  | No_server_port
  | Bind_failed
  | Bad_socket_address
  | Rtsp_refused string string

datatype 'a client_result = Client_ok 'a | Client_failed rtsp_client_error | Client_waiting

fun read_response_from :: "response_reader \<Rightarrow> bytes option list \<Rightarrow> string client_result \<times> bytes option list" where
  "read_response_from r [] = (Client_waiting, [])"
| "read_response_from r (None # inputs) = (Client_failed Rtsp_io_error, inputs)"
| "read_response_from r (Some bs # inputs) =
     (if bs = [] then (Client_ok (rr_text r), inputs)
      else
        let r' = response_take r bs
        in if response_complete r' then (Client_ok (rr_text r'), inputs)
           else read_response_from r' inputs)"

definition read_response :: "bytes option list \<Rightarrow> string client_result \<times> bytes option list" where
  "read_response = read_response_from response_reader_new"

definition extract_session_id :: "string \<Rightarrow> string option" where
  "extract_session_id response =
     first_some (\<lambda>line.
         if prefix ''Session:'' line
         then map_option trim (split_colon_second (hd (split_char (CHR '';'') line)))
         else None)
       (text_lines response)"

section \<open>The session\<close>

record client_udp_track =
  cu_local_ports :: "nat \<times> nat"
  cu_server_rtp :: string
  cu_server_rtcp :: string

record rtsp_client =
  cl_remote_url :: string
  cl_session_id :: "string option"
  cl_cseq :: "32 word"
  cl_udp_tracks :: "(nat \<times> client_udp_track) list"

definition rtsp_client_new :: "string \<Rightarrow> rtsp_client" where
  "rtsp_client_new url = \<lparr>cl_remote_url = url, cl_session_id = None, cl_cseq = 1, cl_udp_tracks = []\<rparr>"

text \<open>
  What is outside: the parsed remote address, which texts \<open>SocketAddr\<close> reads, whether the connection
  is made, and per track the random number and whether the two sockets bind.
\<close>

record client_env =
  ce_url :: "parsed_url option"
  ce_socket_addr :: "string \<Rightarrow> bool"
  ce_connected :: bool
  ce_write :: "nat \<Rightarrow> bool"
  ce_random :: "nat \<Rightarrow> nat"
  ce_bind_rtp :: "nat \<Rightarrow> bool"
  ce_bind_rtcp :: "nat \<Rightarrow> bool"

record rtsp_link =
  lk_client :: rtsp_client
  lk_inputs :: "bytes option list"
  lk_sent :: "string list"

definition use_udp :: "rtsp_client \<Rightarrow> bool" where
  "use_udp c \<longleftrightarrow> url_prefers_udp (cl_remote_url c)"

definition remote_host :: "client_env \<Rightarrow> rtsp_client_error + string" where
  "remote_host env =
     (case ce_url env of
        None \<Rightarrow> Inl Rtsp_invalid_url
      | Some u \<Rightarrow> (case pu_host u of None \<Rightarrow> Inl Rtsp_missing_host | Some h \<Rightarrow> Inr h))"

text \<open>\<open>connect\<close>: the address of the connection, or why there is none.\<close>

definition client_connect :: "client_env \<Rightarrow> rtsp_client_error + string \<times> nat" where
  "client_connect env =
     (case remote_host env of
        Inl e \<Rightarrow> Inl e
      | Inr host \<Rightarrow>
          if ce_connected env
          then Inr (host, case Option.bind (ce_url env) pu_port of Some p \<Rightarrow> p | None \<Rightarrow> 554)
          else Inl Rtsp_connect_failed)"

text \<open>The headers every request starts with.\<close>

definition client_request :: "rtsp_client \<Rightarrow> string \<Rightarrow> string \<Rightarrow> rtsp_request" where
  "client_request c meth url =
     request_header (request_header (request_new meth url) ''CSeq'' (dec_str (unat (cl_cseq c))))
       ''User-Agent'' ''MediaServer/1.0''"

definition with_session :: "rtsp_client \<Rightarrow> rtsp_request \<Rightarrow> rtsp_request" where
  "with_session c r =
     (case cl_session_id c of Some s \<Rightarrow> request_header r ''Session'' s | None \<Rightarrow> r)"

text \<open>Write, count, read; \<open>takes_session\<close>: the session id of the response, or its lack, is kept.\<close>

definition exchange ::
    "client_env \<Rightarrow> bool \<Rightarrow> rtsp_request \<Rightarrow> rtsp_link \<Rightarrow> string client_result \<times> rtsp_link" where
  "exchange env takes_session r l =
     (if \<not> ce_write env (length (lk_sent l)) then (Client_failed Rtsp_io_error, l)
      else
        let c = lk_client l;
            c1 = c\<lparr>cl_cseq := cl_cseq c + 1\<rparr>;
            sent = lk_sent l @ [request_to_string r]
        in case read_response (lk_inputs l) of
             (Client_ok response, inputs) \<Rightarrow>
               (Client_ok response,
                l\<lparr>lk_client := (if takes_session then c1\<lparr>cl_session_id := extract_session_id response\<rparr> else c1),
                  lk_inputs := inputs, lk_sent := sent\<rparr>)
           | (x, inputs) \<Rightarrow> (x, l\<lparr>lk_client := c1, lk_inputs := inputs, lk_sent := sent\<rparr>))"

definition send_request ::
    "client_env \<Rightarrow> string \<Rightarrow> string \<Rightarrow> rtsp_link \<Rightarrow> string client_result \<times> rtsp_link" where
  "send_request env meth url l =
     exchange env True (with_session (lk_client l) (client_request (lk_client l) meth url)) l"

definition send_request_with_body ::
    "client_env \<Rightarrow> string \<Rightarrow> string \<Rightarrow> string \<Rightarrow> string \<Rightarrow> rtsp_link \<Rightarrow> string client_result \<times> rtsp_link" where
  "send_request_with_body env meth url content_type body l =
     exchange env True
       (with_session (lk_client l)
         (request_body (request_header (client_request (lk_client l) meth url) ''Content-Type'' content_type) body)) l"

definition send_options :: "client_env \<Rightarrow> rtsp_link \<Rightarrow> string client_result \<times> rtsp_link" where
  "send_options env l = send_request env ''OPTIONS'' (cl_remote_url (lk_client l)) l"

definition send_describe :: "client_env \<Rightarrow> rtsp_link \<Rightarrow> string client_result \<times> rtsp_link" where
  "send_describe env l =
     (let c = lk_client l
      in exchange env False
           (with_session c (request_header (client_request c ''DESCRIBE'' (cl_remote_url c)) ''Accept'' ''application/sdp'')) l)"

definition control_url :: "string \<Rightarrow> nat \<Rightarrow> string" where
  "control_url url idx =
     (if suffix ''/'' url then url @ ''trackID='' @ dec_str idx else url @ ''/trackID='' @ dec_str idx)"

text \<open>\<open>(50000 + r % 10000) & !1\<close> and the port after it\<close>

definition allocate_udp_ports :: "nat \<Rightarrow> nat \<times> nat" where
  "allocate_udp_ports rnd = (let base = (50000 + rnd mod 10000) div 2 * 2 in (base, base + 1))"

definition setup_udp_track_from_response ::
    "client_env \<Rightarrow> nat \<Rightarrow> string \<Rightarrow> nat \<times> nat \<Rightarrow> rtsp_client \<Rightarrow> unit client_result \<times> rtsp_client" where
  "setup_udp_track_from_response env idx response local c =
     (case parse_transport_server_ports response of
        None \<Rightarrow> (Client_failed No_server_port, c)
      | Some (server_rtp, server_rtcp) \<Rightarrow>
          (case remote_host env of
             Inl e \<Rightarrow> (Client_failed e, c)
           | Inr host \<Rightarrow>
               if \<not> ce_bind_rtp env idx \<or> \<not> ce_bind_rtcp env idx then (Client_failed Bind_failed, c)
               else
                 let rtp = host @ '':'' @ dec_str server_rtp; rtcp = host @ '':'' @ dec_str server_rtcp
                 in if \<not> ce_socket_addr env rtp \<or> \<not> ce_socket_addr env rtcp
                    then (Client_failed Bad_socket_address, c)
                    else
                      (Client_ok (),
                       c\<lparr>cl_udp_tracks := AList.update idx
                           \<lparr>cu_local_ports = local, cu_server_rtp = rtp, cu_server_rtcp = rtcp\<rparr>
                           (cl_udp_tracks c)\<rparr>)))"

definition send_setup :: "client_env \<Rightarrow> nat \<Rightarrow> rtsp_link \<Rightarrow> string client_result \<times> rtsp_link" where
  "send_setup env idx l =
     (let c = lk_client l;
          url = control_url (cl_remote_url c) idx;
          setup = (\<lambda>transport. with_session c (request_header (client_request c ''SETUP'' url) ''Transport'' transport))
      in if use_udp c then
           let local = allocate_udp_ports (ce_random env idx)
           in case exchange env True (setup (''RTP/AVP;unicast;client_port='' @ port_pair local)) l of
                (Client_ok response, l1) \<Rightarrow>
                  (case setup_udp_track_from_response env idx response local (lk_client l1) of
                     (Client_ok _, c2) \<Rightarrow> (Client_ok response, l1\<lparr>lk_client := c2\<rparr>)
                   | (Client_failed e, c2) \<Rightarrow> (Client_failed e, l1\<lparr>lk_client := c2\<rparr>)
                   | (Client_waiting, c2) \<Rightarrow> (Client_waiting, l1\<lparr>lk_client := c2\<rparr>))
              | r \<Rightarrow> r
         else exchange env True (setup (''RTP/AVP/TCP;interleaved='' @ port_pair (idx * 2, idx * 2 + 1))) l)"

definition send_play :: "client_env \<Rightarrow> rtsp_link \<Rightarrow> string client_result \<times> rtsp_link" where
  "send_play env l =
     (let c = lk_client l
      in exchange env False
           (with_session c (request_header (client_request c ''PLAY'' (cl_remote_url c)) ''Range'' ''npt=0.000-'')) l)"

definition send_announce :: "client_env \<Rightarrow> string \<Rightarrow> rtsp_link \<Rightarrow> string client_result \<times> rtsp_link" where
  "send_announce env sdp l =
     (let c = lk_client l
      in exchange env False
           (with_session c
             (request_body
               (request_header (client_request c ''ANNOUNCE'' (cl_remote_url c)) ''Content-Type'' ''application/sdp'') sdp)) l)"

definition send_record :: "client_env \<Rightarrow> rtsp_link \<Rightarrow> string client_result \<times> rtsp_link" where
  "send_record env l =
     (let c = lk_client l
      in exchange env False
           (request_header (client_request c ''RECORD'' (cl_remote_url c)) ''Session''
             (case cl_session_id c of Some s \<Rightarrow> s | None \<Rightarrow> [])) l)"

text \<open>\<open>start_keepalive\<close>: one read every five seconds; the text kept so far, or \<open>None\<close> at its end.\<close>

definition keepalive_read :: "string \<Rightarrow> bytes option \<Rightarrow> string option" where
  "keepalive_read buffered input =
     (case input of
        None \<Rightarrow> None
      | Some bs \<Rightarrow>
          if bs = [] then None
          else let b = buffered @ text_of (utf8_lossy bs)
            in Some (if suffix (crlf @ crlf) b then [] else b))"

section \<open>A pull: the dialogue\<close>

definition accepted :: "string \<Rightarrow> bool" where
  "accepted response \<longleftrightarrow> prefix ''RTSP/1.0 200 OK'' response"

text \<open>A step of the dialogue: the response has to be a success.\<close>

definition insist ::
    "string \<Rightarrow> string client_result \<times> rtsp_link \<Rightarrow> string client_result \<times> rtsp_link" where
  "insist phase x =
     (case x of
        (Client_ok response, l) \<Rightarrow>
          if accepted response then (Client_ok response, l) else (Client_failed (Rtsp_refused phase response), l)
      | r \<Rightarrow> r)"

definition tracks_to_create :: "track list \<Rightarrow> track list" where
  "tracks_to_create tracks =
     (if tracks = [] then [track_new 0 H264 96 90000, track_new 1 AAC 97 44100] else tracks)"

definition sdp_of_response :: "string \<Rightarrow> string" where
  "sdp_of_response response =
     drop (case find_str (crlf @ crlf) response of Some p \<Rightarrow> p + 4 | None \<Rightarrow> 0) response"

definition rtsp_pull_register ::
    "(string \<Rightarrow> bytes option) \<Rightarrow> stream_manager \<Rightarrow> stream_id \<Rightarrow> string \<Rightarrow> string \<Rightarrow> stream_manager" where
  "rtsp_pull_register unbase64 m sid url sdp =
     (let m1 = fst (create_stream m sid stream_source_mode.Pull RTSP (Some url));
          m2 = or_same m1 (set_unpublished m1 sid);
          m3 = ensure_stream_hub m2 sid
      in case parse_sprop_parameter_sets unbase64 sdp of
           (Some sps, Some pps) \<Rightarrow> set_stream_sps_pps m3 sid sps pps
         | _ \<Rightarrow> m3)"

fun setup_tracks :: "client_env \<Rightarrow> nat list \<Rightarrow> rtsp_link \<Rightarrow> unit client_result \<times> rtsp_link" where
  "setup_tracks env [] l = (Client_ok (), l)"
| "setup_tracks env (idx # is) l =
     (case insist ''SETUP'' (send_setup env idx l) of
        (Client_ok _, l1) \<Rightarrow> setup_tracks env is l1
      | (Client_failed e, l1) \<Rightarrow> (Client_failed e, l1)
      | (Client_waiting, l1) \<Rightarrow> (Client_waiting, l1))"

text \<open>The state of the task over TCP and of one UDP receiver.\<close>

record rtsp_pull_task =
  pt_stream_id :: stream_id
  pt_tracks :: "track list"
  pt_buf :: bytes
  pt_ingest :: h264_rtp_ingest
  pt_running :: bool
  pt_remote_url :: string
  pt_session_id :: string
  pt_cseq :: nat

record pull_udp_receiver =
  pu_track :: nat
  pu_stream_id :: stream_id
  pu_tracks :: "track list"
  pu_ingest :: "h264_rtp_ingest option"
  pu_running :: bool

datatype rtsp_pull_media = Over_tcp rtsp_pull_task | Over_udp "pull_udp_receiver list"

definition pull_task_new :: "rtsp_client \<Rightarrow> stream_id \<Rightarrow> track list \<Rightarrow> rtsp_pull_task" where
  "pull_task_new c sid tracks =
     \<lparr>pt_stream_id = sid, pt_tracks = tracks, pt_buf = [], pt_ingest = ingest_new sid, pt_running = True,
      pt_remote_url = cl_remote_url c,
      pt_session_id = (case cl_session_id c of Some s \<Rightarrow> s | None \<Rightarrow> []), pt_cseq = 100\<rparr>"

definition pull_udp_receiver_new :: "stream_id \<Rightarrow> track list \<Rightarrow> nat \<Rightarrow> pull_udp_receiver" where
  "pull_udp_receiver_new sid tracks idx =
     \<lparr>pu_track = idx, pu_stream_id = sid, pu_tracks = tracks,
      pu_ingest = (if idx = 0 then Some (ingest_new sid) else None), pu_running = True\<rparr>"

text \<open>From the answer to \<open>DESCRIBE\<close> on.\<close>

definition rtsp_pull_setup ::
    "client_env \<Rightarrow> (string \<Rightarrow> bytes option) \<Rightarrow> stream_id \<Rightarrow> string \<Rightarrow> rtsp_link \<Rightarrow> stream_manager \<Rightarrow>
     rtsp_pull_media client_result \<times> stream_manager \<times> rtsp_link" where
  "rtsp_pull_setup env unbase64 sid response l m =
     (let sdp = sdp_of_response response;
          tracks = tracks_to_create (parse_sdp_tracks sdp);
          m1 = rtsp_pull_register unbase64 m sid (cl_remote_url (lk_client l)) sdp
      in case setup_tracks env [0..<length tracks] l of
           (Client_failed e, l1) \<Rightarrow> (Client_failed e, m1, l1)
         | (Client_waiting, l1) \<Rightarrow> (Client_waiting, m1, l1)
         | (Client_ok _, l1) \<Rightarrow>
             (case insist ''PLAY'' (send_play env l1) of
                (Client_failed e, l2) \<Rightarrow> (Client_failed e, m1, l2)
              | (Client_waiting, l2) \<Rightarrow> (Client_waiting, m1, l2)
              | (Client_ok _, l2) \<Rightarrow>
                  let c = lk_client l2
                  in (Client_ok (if use_udp c
                                 then Over_udp (List.map (pull_udp_receiver_new sid tracks \<circ> fst) (cl_udp_tracks c))
                                 else Over_tcp (pull_task_new c sid tracks)),
                      or_same m1 (set_publishing m1 sid), l2)))"

definition rtsp_pull ::
    "client_env \<Rightarrow> (string \<Rightarrow> bytes option) \<Rightarrow> string \<Rightarrow> stream_id \<Rightarrow> bytes option list \<Rightarrow> stream_manager \<Rightarrow>
     rtsp_pull_media client_result \<times> stream_manager \<times> rtsp_link" where
  "rtsp_pull env unbase64 url sid inputs m =
     (let l = \<lparr>lk_client = rtsp_client_new url, lk_inputs = inputs, lk_sent = []\<rparr> in
      case client_connect env of
        Inl e \<Rightarrow> (Client_failed e, m, l)
      | Inr _ \<Rightarrow>
          (case insist ''OPTIONS'' (send_options env l) of
             (Client_failed e, l1) \<Rightarrow> (Client_failed e, m, l1)
           | (Client_waiting, l1) \<Rightarrow> (Client_waiting, m, l1)
           | (Client_ok _, l1) \<Rightarrow>
               (case insist ''DESCRIBE'' (send_describe env l1) of
                  (Client_failed e, l2) \<Rightarrow> (Client_failed e, m, l2)
                | (Client_waiting, l2) \<Rightarrow> (Client_waiting, m, l2)
                | (Client_ok response, l2) \<Rightarrow> rtsp_pull_setup env unbase64 sid response l2 m)))"

section \<open>A pull: the media\<close>

definition rtsp_clock_rate_for_track :: "track list \<Rightarrow> track_id \<Rightarrow> nat \<Rightarrow> nat" where
  "rtsp_clock_rate_for_track tracks track payload_type =
     (case find (\<lambda>t. tr_id t = track \<or> tr_payload_type t = payload_type) tracks of
        Some t \<Rightarrow> tr_clock_rate t | None \<Rightarrow> 44100)"

text \<open>The frame of a packet that is not video.\<close>

definition pulled_audio_frame :: "stream_id \<Rightarrow> track_id \<Rightarrow> track list \<Rightarrow> bytes \<Rightarrow> media_frame option" where
  "pulled_audio_frame sid track tracks rtp =
     (let marker = ((rtp ! 1) AND 0x80 \<noteq> 0);
          ts = unat (be32 (rtp ! 4) (rtp ! 5) (rtp ! 6) (rtp ! 7));
          payload_type = unat ((rtp ! 1) AND 0x7F);
          media = (case rtp_h264_media_payload rtp of Some (p, _, _) \<Rightarrow> p | None \<Rightarrow> drop 12 rtp)
      in case strip_mpeg4_generic_aac media of
           None \<Rightarrow> None
         | Some raw \<Rightarrow>
             if raw = [] then None
             else Some (with_clock_rate (media_frame_new sid track ts raw marker AAC)
                    (rtsp_clock_rate_for_track tracks track payload_type)))"

text \<open>One interleaved packet; \<open>None\<close> is a publish that does not return.\<close>

definition pull_packet ::
    "stream_id \<Rightarrow> track list \<Rightarrow> byte \<Rightarrow> bytes \<Rightarrow> ingest_state \<Rightarrow> ingest_state option" where
  "pull_packet sid tracks channel rtp st =
     (let track = channel div 2 in
      if track = 0 \<and> 12 \<le> length rtp then map_option fst (ingest_rtp_packet st rtp)
      else if 12 \<le> length rtp then
        (case pulled_audio_frame sid track tracks rtp of
           None \<Rightarrow> Some st
         | Some f \<Rightarrow> map_option (\<lambda>m'. (fst st, m')) (publish_frame (snd st) f))
      else Some st)"

text \<open>
  The loop over the bytes that have arrived: what is left when it waits for more. A byte that does
  not start a packet belongs to an RTSP response, which is only logged.
\<close>

function rtp_receive_loop ::
    "stream_id \<Rightarrow> track list \<Rightarrow> bytes \<Rightarrow> ingest_state \<Rightarrow> (bytes \<times> ingest_state) option" where
  "rtp_receive_loop sid tracks buf st =
     (if buf = [] then Some ([], st)
      else if hd buf = 0x24 then
        if length buf < 4 then Some (buf, st)
        else
          let n = be16 (buf ! 2) (buf ! 3)
          in if length buf < 4 + n then Some (buf, st)
             else (case pull_packet sid tracks (buf ! 1) (take n (drop 4 buf)) st of
                     None \<Rightarrow> None
                   | Some st' \<Rightarrow> rtp_receive_loop sid tracks (drop (4 + n) buf) st')
      else rtp_receive_loop sid tracks (tl buf) st)"
  by pat_completeness auto
termination
  by (relation "measure (\<lambda>(sid, tracks, buf, st). length buf)") (auto simp: length_tl length_greater_0_conv [symmetric] simp del: length_greater_0_conv)

declare rtp_receive_loop.simps [simp del]

definition keepalive_request :: "string \<Rightarrow> string \<Rightarrow> nat \<Rightarrow> string" where
  "keepalive_request url session cseq =
     request_to_string
       (request_header (request_header (request_new ''GET_PARAMETER'' url) ''CSeq'' (dec_str cseq)) ''Session'' session)"

text \<open>
  What happens to the TCP task: a read of at least one byte, the end of the stream or a failed read,
  and the thirty seconds of the keepalive with the success of its write. When one side of the
  \<open>select!\<close> ends, the other is dropped where it waits.
\<close>

datatype pull_event = Pull_read bytes | Pull_eof | Keepalive_due bool

definition pull_task_step ::
    "rtsp_pull_task \<times> stream_manager \<Rightarrow> pull_event \<Rightarrow> ((rtsp_pull_task \<times> stream_manager) \<times> string list) option" where
  "pull_task_step tm e =
     (let (t, m) = tm in
      if \<not> pt_running t then Some ((t, m), [])
      else case e of
          Pull_read bs \<Rightarrow>
            map_option (\<lambda>(buf, g, m'). ((t\<lparr>pt_buf := buf, pt_ingest := g\<rparr>, m'), []))
              (rtp_receive_loop (pt_stream_id t) (pt_tracks t) (pt_buf t @ bs) (pt_ingest t, m))
        | Pull_eof \<Rightarrow>
            map_option (\<lambda>((g, m'), _).
                ((t\<lparr>pt_ingest := g, pt_running := False\<rparr>, or_same m' (set_unpublished m' (pt_stream_id t))), []))
              (flush_remaining (pt_ingest t, m))
        | Keepalive_due ok \<Rightarrow>
            if ok
            then Some ((t\<lparr>pt_cseq := pt_cseq t + 1\<rparr>, m),
                   [keepalive_request (pt_remote_url t) (pt_session_id t) (pt_cseq t)])
            else Some ((t\<lparr>pt_running := False\<rparr>, m), []))"

text \<open>One datagram, or the error that ends the receiver.\<close>

definition pull_udp_receive ::
    "pull_udp_receiver \<times> stream_manager \<Rightarrow> bytes option \<Rightarrow> (pull_udp_receiver \<times> stream_manager) option" where
  "pull_udp_receive rm input =
     (let (r, m) = rm in
      if \<not> pu_running r then Some (r, m)
      else case input of
          None \<Rightarrow>
            (case pu_ingest r of
               None \<Rightarrow> Some (r\<lparr>pu_running := False\<rparr>, m)
             | Some g \<Rightarrow>
                 map_option (\<lambda>((g', m'), _). (r\<lparr>pu_ingest := Some g', pu_running := False\<rparr>, m')) (flush_remaining (g, m)))
        | Some p \<Rightarrow>
            if length p < 12 \<or> is_rtcp_packet p then Some (r, m)
            else if pu_track r = 0 then
              (case pu_ingest r of
                 None \<Rightarrow> Some (r, m)
               | Some g \<Rightarrow>
                   map_option (\<lambda>((g', m'), _). (r\<lparr>pu_ingest := Some g'\<rparr>, m')) (ingest_rtp_packet (g, m) p))
            else
              (case pulled_audio_frame (pu_stream_id r) (word_of_nat (pu_track r)) (pu_tracks r) p of
                 None \<Rightarrow> Some (r, m)
               | Some f \<Rightarrow> map_option (\<lambda>m'. (r, m')) (publish_frame m f)))"

end
