(* ===== verification/Rtsp_Serve.thy ===== *)
theory Rtsp_Serve
  imports Rtsp_Conn
begin

text \<open>
  What the RTSP server of \<open>Rtsp_Conn\<close> guarantees: reading does not depend on how TCP cuts the
  stream, the registry moves only by its own operations, the publisher slots are exactly those of
  the publishing connections, every request is answered under its own CSeq, and where this fails.
\<close>

section \<open>Cutting the stream\<close>

lemma text_of_append [simp]: "text_of (a @ b) = text_of a @ text_of b"
  by (simp add: text_of_def)

lemma find_str_append: "find_str p a = Some i \<Longrightarrow> find_str p (a @ b) = Some i"
proof (induction a arbitrary: i)
  case Nil
  then show ?case by (cases b) (auto split: if_splits)
next
  case (Cons x a)
  show ?case
  proof (cases "prefix p (x # a)")
    case True
    then have "prefix p (x # a @ b)" by (metis append_Cons prefix_prefix)
    with True Cons.prems show ?thesis by simp
  next
    case False
    with Cons.prems obtain j where j: "find_str p a = Some j" "i = Suc j" by auto
    have "length p \<le> length a"
      using find_str_Some [OF j(1)] by auto
    with False have "\<not> prefix p (x # a @ b)"
      by (metis append_Cons length_Cons le_SucI prefix_length_prefix prefixI)
    with j Cons.IH show ?thesis by simp
  qed
qed

lemma find_str_bound: "find_str p a = Some i \<Longrightarrow> i + length p \<le> length a"
  using find_str_Some [of p a i] by auto

lemma next_unit_append: "next_unit buf = Some (u, rest) \<Longrightarrow> next_unit (buf @ x) = Some (u, rest @ x)"
proof -
  assume a: "next_unit buf = Some (u, rest)"
  then have ne: "buf \<noteq> []" by (auto simp: next_unit_def)
  show ?thesis
  proof (cases "hd buf = 0x24")
    case True
    with a ne show ?thesis
      by (auto simp: next_unit_def Let_def nth_append hd_append split: if_splits)
  next
    case False
    with a ne obtain pos where pos: "header_end buf = Some pos"
      and n: "pos + 4 + parse_content_length buf pos \<le> length buf"
      by (auto simp: next_unit_def Let_def split: option.splits if_splits)
    have "header_end (buf @ x) = Some pos"
      using pos by (simp add: header_end_def find_str_append)
    moreover have "pos \<le> length buf" using n by simp
    then have "parse_content_length (buf @ x) pos = parse_content_length buf pos"
      by (simp add: parse_content_length_def)
    ultimately show ?thesis using a ne False pos n
      by (auto simp: next_unit_def Let_def hd_append)
  qed
qed

lemma drain_units_append:
  "drain_units io k (buf @ x) c m =
     (case drain_units io k buf c m of
        ((Rtsp_open, c', m', e), buf', k') \<Rightarrow>
          (case drain_units io k' (buf' @ x) c' m' of
             ((o', c'', m'', e'), rest) \<Rightarrow> ((o', c'', m'', e @ e'), rest))
      | (stopped, buf', k') \<Rightarrow> (stopped, buf' @ x, k'))"
proof (induction io k buf c m rule: drain_units.induct)
  case (1 io k buf c m)
  show ?case
  proof (cases "next_unit buf")
    case None
    then show ?thesis by (simp add: drain_units.simps [of io k buf] split: prod.splits)
  next
    case (Some ur)
    obtain u rest where ur: "ur = (u, rest)" by fastforce
    note n = Some [unfolded ur]
    obtain o1 c1 m1 e1 where h: "handle_unit (io k) u c m = (o1, c1, m1, e1)" by (metis prod.exhaust)
    show ?thesis
    proof (cases "o1 = Rtsp_open")
      case False
      then show ?thesis
        using n next_unit_append [OF n, of x] h
        by (cases o1) (simp_all add: drain_units.simps [of io k])
    next
      case True
      show ?thesis
        using n next_unit_append [OF n, of x] h True "1.IH" [OF n refl h [symmetric] True refl refl]
        by (simp add: drain_units.simps [of io k] split: prod.splits rtsp_outcome.splits)
    qed
  qed
qed

lemma drain_units_idle:
  "drain_units io k buf c m = ((Rtsp_open, c', m', e), buf', k') \<Longrightarrow> next_unit buf' = None"
proof (induction io k buf c m arbitrary: e rule: drain_units.induct)
  case (1 io k buf c m)
  then show ?case
    by (subst (asm) (2) drain_units.simps)
      (auto split: option.splits prod.splits rtsp_outcome.splits)
qed

lemma read_loop_once:
  "read_loop io k (List.map Got xs) buf c m =
     (if next_unit buf = None \<or> xs \<noteq> [] then fst (drain_units io k (buf @ concat xs) c m) else (Rtsp_open, c, m, []))"
proof (induction xs arbitrary: k buf c m)
  case Nil
  then show ?case by (simp add: drain_units.simps)
next
  case (Cons x xs)
  obtain o1 c1 m1 e1 buf1 k1 where d: "drain_units io k (buf @ x) c m = ((o1, c1, m1, e1), buf1, k1)"
    by (metis prod.exhaust)
  show ?case
  proof (cases "o1 = Rtsp_open")
    case False
    with d show ?thesis
      using drain_units_append [of io k "buf @ x" "concat xs" c m] by (cases o1) simp_all
  next
    case True
    have "next_unit buf1 = None" by (rule drain_units_idle [OF d [unfolded True]])
    with d True Cons.IH [of k1 buf1 c1 m1] show ?thesis
      using drain_units_append [of io k "buf @ x" "concat xs" c m]
      by (simp split: prod.splits)
  qed
qed


section \<open>The registry\<close>

text \<open>A change of the registry that leaves every publisher slot as it is.\<close>

definition calm :: "stream_manager \<Rightarrow> stream_manager \<Rightarrow> bool" where
  "calm m m' \<longleftrightarrow> mgr_steps m m' \<and> current_publisher m' = current_publisher m"

lemma calm_refl [simp]: "calm m m"
  by (simp add: calm_def)

lemma calm_trans: "calm m m' \<Longrightarrow> calm m' m'' \<Longrightarrow> calm m m''"
  by (auto simp: calm_def)

lemma calm_sps_pps [simp]: "calm m (set_stream_sps_pps m sid a b)"
  by (auto simp: calm_def intro: steps_one step_sps_pps)

lemma calm_tracks [simp]: "calm m (set_stream_tracks m sid ts)"
  by (auto simp: calm_def intro: steps_one step_tracks)

lemma calm_merge: "calm m (merge_stream_nalu_config m sid nalu)"
proof -
  have "current_publisher (merge_stream_nalu_config m sid nalu) s = current_publisher m s" for s
    by (simp add: merge_stream_nalu_config_def Let_def publisher_with_hub)
  then show ?thesis by (auto simp: calm_def intro: steps_one step_merge)
qed

lemma calm_status: "set_status m sid x = Some m' \<Longrightarrow> calm m m'"
  by (auto simp: calm_def intro: steps_one step_status publisher_set_status)

lemma calm_opt_status [simp]: "calm m (case set_status m sid x of None \<Rightarrow> m | Some m' \<Rightarrow> m')"
  by (auto split: option.split intro: calm_status)

lemma calm_create [simp]: "calm m (fst (create_stream m sid a b u))"
proof -
  have "current_publisher (fst (create_stream m sid a b u)) s = current_publisher m s" for s
    by (auto simp: create_stream_def Let_def current_publisher_def hub_with_stream_def split: option.splits)
  then show ?thesis by (auto simp: calm_def intro: steps_one step_create)
qed

lemma calm_publish: "publish_frame m f = Some m' \<Longrightarrow> calm m m'"
  by (auto simp: calm_def intro: steps_one step_publish publisher_publish)

lemma calm_store_config: "calm m (store_nalu_config_from_rtp m sid payload)"
proof -
  have fold: "calm m (foldl (\<lambda>m n. if P n then merge_stream_nalu_config m sid (pn_data n) else m) m ns)" for P ns
    by (induction ns arbitrary: m) (auto intro: calm_trans calm_merge)
  show ?thesis
    by (simp add: store_nalu_config_from_rtp_def Let_def fold [of "\<lambda>n. pn_nal_type n = 7 \<or> pn_nal_type n = 8"]
        split: prod.split option.split)
qed

text \<open>The ingest publishes into its own stream, and stays with it.\<close>

definition same_ingest :: "ingest_state \<Rightarrow> ingest_state \<Rightarrow> bool" where
  "same_ingest st st' \<longleftrightarrow> calm (snd st) (snd st') \<and> ig_stream_id (fst st') = ig_stream_id (fst st)"

lemma same_ingest_trans: "same_ingest a b \<Longrightarrow> same_ingest b c \<Longrightarrow> same_ingest a c"
  by (auto simp: same_ingest_def intro: calm_trans)

lemma flush_same: "flush_access_unit st = Some (st', b) \<Longrightarrow> same_ingest st st'"
  by (cases st)
    (auto simp: flush_access_unit_def same_ingest_def clear_parts_def simp del: media_frame_defs
      split: if_splits option.splits intro: calm_publish)

lemma add_part_stream [simp]: "ig_stream_id (add_part g ts d k) = ig_stream_id g"
  by (simp add: add_part_def Let_def)

lemma collect_same:
  assumes "collect_part (g, m) ts marker data key = Some (st', b)"
  shows "same_ingest (g, m) st'"
proof (cases "is_parameter_set_only data")
  case True
  with assms show ?thesis by (simp add: collect_part_def same_ingest_def)
next
  case False
  let ?first = "if au_parts (ig_batch g) \<noteq> [] \<and> au_timestamp (ig_batch g) \<noteq> ts
      then flush_access_unit (g, m) else Some ((g, m), False)"
  from assms False obtain g2 m2 p where first: "?first = Some ((g2, m2), p)"
    by (auto simp: collect_part_def Let_def split: option.splits if_splits)
  then have one: "same_ingest (g, m) (g2, m2)"
    by (auto split: if_splits dest: flush_same simp: same_ingest_def)
  have add: "same_ingest (g2, m2) (add_part g2 ts data key, m2)" by (simp add: same_ingest_def)
  have "st' = (add_part g2 ts data key, m2) \<or>
      (\<exists>q. flush_access_unit (add_part g2 ts data key, m2) = Some (st', q))"
    using assms False first by (simp add: collect_part_def Let_def split: if_splits)
  with one add show ?thesis by (metis flush_same same_ingest_trans)
qed

lemma to_annex_b_calm: "h264_rtp_to_annex_b d payload sid m = (d', m', r) \<Longrightarrow> calm m m'"
  using calm_store_config
  by (auto simp: h264_rtp_to_annex_b_def Let_def split: prod.splits sum.splits option.splits)

lemma ingest_payload_same:
  assumes "ingest_payload (g, m) payload ts marker = Some (st', b)"
  shows "same_ingest (g, m) st'"
proof (cases "payload = []")
  case True
  with assms show ?thesis by (simp add: ingest_payload_def same_ingest_def)
next
  case False
  obtain d' m1 r where h: "h264_rtp_to_annex_b (ig_depacketizer g) payload (ig_stream_id g) m = (d', m1, r)"
    by (metis prod.exhaust)
  have one: "same_ingest (g, m) (g\<lparr>ig_depacketizer := d'\<rparr>, m1)"
    using to_annex_b_calm [OF h] by (simp add: same_ingest_def)
  show ?thesis
  proof (cases r)
    case None
    with assms h False one show ?thesis by (simp add: ingest_payload_def)
  next
    case (Some dk)
    with assms h False have "collect_part (g\<lparr>ig_depacketizer := d'\<rparr>, m1) ts marker (fst dk) (snd dk) = Some (st', b)"
      by (cases dk) (simp add: ingest_payload_def)
    with one show ?thesis by (blast intro: same_ingest_trans collect_same)
  qed
qed

lemma ingest_packet_same:
  assumes "ingest_rtp_packet (g, m) rtp = Some (st', b)"
  shows "same_ingest (g, m) st'"
proof (cases "rtp_h264_packet_info rtp")
  case None
  with assms show ?thesis by (simp add: ingest_rtp_packet_def same_ingest_def)
next
  case (Some info)
  obtain g' ok where a: "accept_sequence g (ri_sequence_number info) (ri_payload info) = (g', ok)" by fastforce
  have "ig_stream_id g' = ig_stream_id g"
    using a by (auto simp: accept_sequence_def discard_partial_access_unit_def clear_parts_def Let_def split: if_splits)
  then have one: "same_ingest (g, m) (g', m)" by (simp add: same_ingest_def)
  show ?thesis
    using assms Some a one
    by (cases ok) (auto simp: ingest_rtp_packet_def intro: same_ingest_trans [OF one] ingest_payload_same)
qed

lemma acquire_publishers:
  assumes "acquire_publisher m sid p = Some m'"
  shows "current_publisher m' = (current_publisher m)(sid := Some p)"
    and "current_publisher m sid \<in> {None, Some p}"
proof -
  show "current_publisher m' = (current_publisher m)(sid := Some p)"
    using mgr_slot.acquire_owner [OF assms] acquire_other [OF assms] by auto
  show "current_publisher m sid \<in> {None, Some p}"
    using assms by (auto simp: acquire_publisher_def hub_acquire_publisher_def current_publisher_def
        split: option.splits if_splits)
qed

lemma release_publishers:
  "current_publisher (fst (release_publisher m sid p)) =
     (if current_publisher m sid = Some p then (current_publisher m)(sid := None) else current_publisher m)"
  by (auto simp: release_publisher_def hub_release_publisher_def current_publisher_def fun_eq_iff
      split: option.splits prod.splits bool.splits)

lemma release_slot_publishers:
  "current_publisher (release_slot s m) =
     (case (ss_stream_id s, ss_publisher_id s) of
        (Some sid, Some p) \<Rightarrow>
          if current_publisher m sid = Some p then (current_publisher m)(sid := None) else current_publisher m
      | _ \<Rightarrow> current_publisher m)"
  and release_slot_steps: "mgr_steps m (release_slot s m)"
proof -
  have set: "calm m1 (case set_unpublished m1 sid of None \<Rightarrow> m1 | Some m2 \<Rightarrow> m2)" for m1 sid
    unfolding set_unpublished_def by simp
  have a: "mgr_steps m (release_slot s m) \<and> current_publisher (release_slot s m) =
      (case (ss_stream_id s, ss_publisher_id s) of
        (Some sid, Some p) \<Rightarrow>
          if current_publisher m sid = Some p then (current_publisher m)(sid := None) else current_publisher m
      | _ \<Rightarrow> current_publisher m)"
  proof (cases "ss_stream_id s = None \<or> ss_publisher_id s = None")
    case True
    then show ?thesis by (auto simp: release_slot_def split: option.splits)
  next
    case False
    then obtain sid p where sp: "ss_stream_id s = Some sid" "ss_publisher_id s = Some p" by auto
    obtain m1 ok where r: "release_publisher m sid p = (m1, ok)" by fastforce
    have "mgr_steps m m1" using step_release [of m sid p] r by (simp add: steps_one)
    moreover have "calm m1 (release_slot s m)"
      using sp r set [of m1 sid] by (cases ok) (auto simp: release_slot_def)
    ultimately show ?thesis
      using release_publishers [of m sid p] r sp by (auto simp: calm_def)
  qed
  then show "mgr_steps m (release_slot s m)"
    "current_publisher (release_slot s m) =
     (case (ss_stream_id s, ss_publisher_id s) of
        (Some sid, Some p) \<Rightarrow>
          if current_publisher m sid = Some p then (current_publisher m)(sid := None) else current_publisher m
      | _ \<Rightarrow> current_publisher m)" by blast+
qed


section \<open>What a request does to the slots\<close>

definition own_id :: "request_env \<Rightarrow> string" where
  "own_id e = ''rtsp:'' @ re_peer e"

definition url_stream :: "request_env \<Rightarrow> string \<Rightarrow> stream_id" where
  "url_stream e request = extract_stream_id (lib_url_path (re_libs e)) (request_url request)"

text \<open>The slots stay, or are given back, or the connection takes one.\<close>

definition keeps_slots :: "rtsp_session \<Rightarrow> stream_manager \<Rightarrow> rtsp_session \<Rightarrow> stream_manager \<Rightarrow> bool" where
  "keeps_slots s m s' m' \<longleftrightarrow> calm m m' \<and> ss_publisher_id s' = ss_publisher_id s \<and>
     (ss_stream_id s' = ss_stream_id s \<or> ss_stream_id s = None)"

definition takes_slot ::
    "string \<Rightarrow> stream_id \<Rightarrow> rtsp_session \<Rightarrow> stream_manager \<Rightarrow> rtsp_session \<Rightarrow> stream_manager \<Rightarrow> bool" where
  "takes_slot p sid s m s' m' \<longleftrightarrow> mgr_steps m m' \<and> current_publisher m sid \<in> {None, Some p} \<and>
     current_publisher m' = (current_publisher m)(sid := Some p) \<and> ss_publisher_id s' = Some p"

lemma announce_cases:
  assumes "announce_request libs peer request url cseq m s = (r, s', m', hls)"
  defines "sid \<equiv> extract_stream_id (lib_url_path libs) url"
  shows "(keeps_slots s m s' m' \<and>
       acquire_publisher (fst (create_stream m sid stream_source_mode.Push RTSP None)) sid (''rtsp:'' @ peer) = None) \<or>
     (takes_slot (''rtsp:'' @ peer) sid s m s' m' \<and> ss_stream_id s' = Some sid)"
proof -
  obtain ts sps pps where sdp:
    "parse_sdp_with_sps_pps (lib_unbase64 libs) (request_body_of request) = (ts, sps, pps)"
    by (metis prod.exhaust)
  let ?m1 = "fst (create_stream m sid stream_source_mode.Push RTSP None)"
  note c1 = calm_create [of m sid stream_source_mode.Push RTSP None]
  show ?thesis
  proof (cases "acquire_publisher ?m1 sid (''rtsp:'' @ peer)")
    case None
    with assms(1) sdp c1 have "keeps_slots s m s' m'"
      by (auto simp: announce_request_def sid_def keeps_slots_def Let_def)
    with None show ?thesis by blast
  next
    case (Some m2)
    let ?m3 = "set_stream_tracks m2 sid (if ts = [] then default_live_tracks else ts)"
    let ?m4 = "case (sps, pps) of (Some a, Some b) \<Rightarrow> set_stream_sps_pps ?m3 sid a b | _ \<Rightarrow> ?m3"
    have eqs: "m' = (case set_unpublished ?m4 sid of None \<Rightarrow> ?m4 | Some m' \<Rightarrow> m')"
      "ss_publisher_id s' = Some (''rtsp:'' @ peer)" "ss_stream_id s' = Some sid"
      using assms(1) sdp Some by (auto simp: announce_request_def sid_def [symmetric] Let_def)
    have "calm m2 ?m3" "calm ?m3 ?m4" by (auto split: option.split)
    moreover have "calm ?m4 m'" unfolding eqs(1) set_unpublished_def by (rule calm_opt_status)
    ultimately have c2: "calm m2 m'" by (blast intro: calm_trans)
    note a = acquire_publishers [OF Some]
    have "mgr_steps m m2" using c1 step_acquire [OF Some] by (auto simp: calm_def intro: steps_then)
    with c2 have "mgr_steps m m'" by (auto simp: calm_def intro: rtranclp_trans)
    with a c1 c2 eqs show ?thesis by (auto simp: takes_slot_def calm_def)
  qed
qed

lemma ensure_hub_same [simp]: "ensure_stream_hub m sid = m"
  by (simp add: ensure_stream_hub_def get_or_create_hub_def split: option.split)

lemma record_cases:
  assumes "record_request libs has_hls rid peer url cseq m s = (r, s', m', hls)"
  defines "sid \<equiv> (case ss_stream_id s of Some x \<Rightarrow> x | None \<Rightarrow> extract_stream_id (lib_url_path libs) url)"
  shows "keeps_slots s m s' m' \<or>
     (ss_publisher_id s = None \<and> takes_slot (''rtsp:'' @ peer) sid s m s' m' \<and> ss_stream_id s' = ss_stream_id s)"
proof (cases "ss_publisher_id s = None")
  case False
  with assms have "keeps_slots s m s' m'"
    by (auto simp: record_request_def keeps_slots_def set_publishing_def Let_def)
  then show ?thesis ..
next
  case True
  show ?thesis
  proof (cases "acquire_publisher m sid (''rtsp:'' @ peer)")
    case None
    with assms True have "keeps_slots s m s' m'" by (auto simp: record_request_def keeps_slots_def Let_def)
    then show ?thesis ..
  next
    case (Some m2)
    have eqs: "m' = (case set_publishing m2 sid of None \<Rightarrow> m2 | Some m' \<Rightarrow> m')"
      "ss_publisher_id s' = Some (''rtsp:'' @ peer)" "ss_stream_id s' = ss_stream_id s"
      using assms True Some by (auto simp: record_request_def Let_def)
    have c2: "calm m2 m'" unfolding eqs(1) set_publishing_def by (rule calm_opt_status)
    note a = acquire_publishers [OF Some]
    have "mgr_steps m m'" using c2 step_acquire [OF Some]
      by (auto simp: calm_def intro: rtranclp_trans steps_one)
    with a c2 eqs True show ?thesis by (auto simp: takes_slot_def calm_def)
  qed
qed

lemma quiet_requests:
  "describe_request libs url cseq m s = (r, s', m', hls) \<Longrightarrow> keeps_slots s m s' m'"
  "setup_request libs rid ports request url cseq m s = (r, s', m', hls) \<Longrightarrow> keeps_slots s m s' m'"
  "play_request cseq m s = (r, s', m', hls) \<Longrightarrow> keeps_slots s m s' m'"
  "pause_request cseq m s = (r, s', m', hls) \<Longrightarrow> keeps_slots s m s' m'"
  by (auto simp: describe_request_def setup_request_def play_request_def pause_request_def keeps_slots_def Let_def
      split: option.splits if_splits)

lemma request_parts:
  "text_lines request = l # ls \<Longrightarrow> \<not> length (split_whitespace l) < 3 \<Longrightarrow>
   split_whitespace l ! 0 = request_method request \<and> split_whitespace l ! 1 = request_url request"
  by (cases "split_whitespace l"; cases "tl (split_whitespace l)")
    (auto simp: request_method_def request_url_def request_words_def)

lemma request_cases:
  assumes "process_rtsp_request e rid ports request m s = (r, s', m', hls)"
  obtains (keeps) "keeps_slots s m s' m'"
  | (teardown) "m' = release_slot s m" "ss_publisher_id s' = None" "ss_stream_id s' = None"
  | (announce) "request_method request = ''ANNOUNCE''" "ss_stream_id s' = Some (url_stream e request)"
      "takes_slot (own_id e) (url_stream e request) s m s' m'"
  | (rec) "request_method request = ''RECORD''" "ss_publisher_id s = None" "ss_stream_id s' = ss_stream_id s"
      "takes_slot (own_id e) (case ss_stream_id s of Some x \<Rightarrow> x | None \<Rightarrow> url_stream e request) s m s' m'"
proof -
  have same: "keeps_slots s m s m" by (simp add: keeps_slots_def)
  show thesis
  proof (cases "text_lines request")
    case Nil
    with assms same keeps show thesis by (simp add: process_rtsp_request_def)
  next
    case (Cons l ls)
    show thesis
    proof (cases "length (split_whitespace l) < 3")
      case True
      with assms same keeps Cons show thesis by (simp add: process_rtsp_request_def)
    next
      case False
      note w = request_parts [OF Cons False]
      let ?url = "request_url request" and ?cseq = "extract_cseq request"
      consider "keeps_slots s m s' m'" | "teardown_request ?cseq m s = (r, s', m', hls)"
        | "request_method request = ''ANNOUNCE''"
          "announce_request (re_libs e) (re_peer e) request ?url ?cseq m s = (r, s', m', hls)"
        | "request_method request = ''RECORD''"
          "record_request (re_libs e) (re_has_hls e) rid (re_peer e) ?url ?cseq m s = (r, s', m', hls)"
        using assms same quiet_requests
        unfolding process_rtsp_request_def Cons list.case Let_def if_not_P [OF False] w [THEN conjunct1] w [THEN conjunct2]
        by (auto split: if_splits)
      then show thesis
      proof cases
        case 1
        then show ?thesis by (rule keeps)
      next
        case 2
        then show ?thesis by (intro teardown) (auto simp: teardown_request_def)
      next
        case 3
        with announce_cases [OF 3(2)] show ?thesis
          using keeps announce by (auto simp: own_id_def url_stream_def)
      next
        case 4
        with record_cases [OF 4(2)] show ?thesis
          using keeps rec 4(1) unfolding own_id_def url_stream_def by blast
      qed
    qed
  qed
qed


section \<open>What a unit does to the connection\<close>

definition conn_core ::
    "rtsp_conn \<Rightarrow> request_env \<times> stream_id option \<times> string option \<times> track list \<times> h264_rtp_ingest option" where
  "conn_core c =
     (sv_env c, ss_stream_id (sv_session c), ss_publisher_id (sv_session c), ss_tracks (sv_session c), sv_h264_ingest c)"

lemma receiver_core: "conn_core (fst (start_udp_receiver_for_track c t)) = conn_core c"
  by (simp add: start_udp_receiver_for_track_def conn_core_def split: option.split)

lemma receivers_core: "conn_core (fst (start_udp_receivers c ts)) = conn_core c"
proof (induction ts arbitrary: c)
  case Nil
  then show ?case by simp
next
  case (Cons t ts)
  show ?case
    using Cons.IH [of "fst (start_udp_receiver_for_track c t)"] receiver_core [of c t]
    by (simp add: split_beta)
qed

lemma setup_core: "conn_core (fst (setup_udp_track io c t client)) = conn_core c"
  by (auto simp: setup_udp_track_def start_udp_receiver_for_track_def conn_core_def Let_def split_beta
      split: option.split)

lemma prepare_core: "conn_core (fst (prepare_udp_setup io c request)) = conn_core c"
  using setup_core by (simp add: prepare_udp_setup_def Let_def split: option.split)

lemma abort_core: "conn_core (fst (abort_rtp_sender c)) = conn_core c"
  by (simp add: abort_rtp_sender_def conn_core_def)

lemma start_core: "conn_core (fst (start_rtp_sender c)) = conn_core c"
  using abort_core [of c] by (simp add: start_rtp_sender_def Let_def split_beta conn_core_def)

lemma clear_core: "conn_core (c\<lparr>sv_udp_tracks := x\<rparr>) = conn_core c"
  by (simp add: conn_core_def)

text \<open>A request reaches the session as it is, and what the session becomes reaches the connection.\<close>

lemma process_request_core:
  assumes "process_request io c m request = (oc, c', m', effs)"
  obtains s ports r s' hls where
    "process_rtsp_request (sv_env c) (io_rid io) ports request m s = (r, s', m', hls)"
    "ss_stream_id s = ss_stream_id (sv_session c)" "ss_publisher_id s = ss_publisher_id (sv_session c)"
    "ss_tracks s = ss_tracks (sv_session c)"
    "conn_core c' = (sv_env c, ss_stream_id s', ss_publisher_id s', ss_tracks s', sv_h264_ingest c)"
    "oc = (if io_write io then Rtsp_open else Rtsp_failed)"
proof -
  obtain c1 ports e1 where one: "(if request_method request = ''SETUP'' then prepare_udp_setup io c request
      else (c, None, [])) = (c1, ports, e1)" by (metis prod.exhaust)
  then have "conn_core c1 = conn_core c"
    using prepare_core [of io c request] by (auto split: if_splits)
  obtain c2 e2 where two: "(if request_method request = ''TEARDOWN'' then
      (case abort_rtp_sender c1 of (c', e) \<Rightarrow> (c'\<lparr>sv_udp_tracks := []\<rparr>, e))
      else if request_method request = ''PAUSE'' then abort_rtp_sender c1 else (c1, [])) = (c2, e2)"
    by (metis prod.exhaust)
  then have "conn_core c2 = conn_core c1"
    using abort_core [of c1] clear_core by (auto split: if_splits prod.splits)
  with \<open>conn_core c1 = conn_core c\<close> have core: "conn_core c2 = conn_core c" by simp
  obtain r s' m1 hls where p: "process_rtsp_request (sv_env c2) (io_rid io) ports request m (sv_session c2) =
      (r, s', m1, hls)" by (metis prod.exhaust)
  let ?c3 = "c2\<lparr>sv_session := s'\<rparr>"
  define c4 where "c4 = fst (if request_method request = ''RECORD'' \<and> ss_transport_mode s' = Udp
      then ensure_udp_receivers_started ?c3 else (?c3, []))"
  define c5 where "c5 = fst (if request_method request = ''PLAY'' \<and> ss_playing (sv_session c4) \<and>
      ss_stream_id (sv_session c4) \<noteq> None then start_rtp_sender c4 else (c4, []))"
  have four: "conn_core c4 = conn_core ?c3"
    using receivers_core by (simp add: c4_def ensure_udp_receivers_started_def)
  have five: "conn_core c5 = conn_core c4"
    using start_core by (simp add: c5_def)
  have "m' = m1" "c' = (if io_write io then c5 else ?c3)" "oc = (if io_write io then Rtsp_open else Rtsp_failed)"
    using assms unfolding process_request_def Let_def one two p prod.case c5_def c4_def
    by (auto simp: split_beta split: if_splits)
  then show thesis
    using that [of ports "sv_session c2" r s' hls] core p four five
    by (cases "io_write io") (auto simp: conn_core_def)
qed

lemma handle_rtp_core:
  assumes "handle_rtp_data c m ch data = Some (c', m')"
  shows "calm m m' \<and> sv_env c' = sv_env c \<and> sv_session c' = sv_session c \<and>
    (\<forall>g. sv_h264_ingest c = Some g \<longrightarrow> (\<exists>g'. sv_h264_ingest c' = Some g' \<and> ig_stream_id g' = ig_stream_id g))"
proof (cases "ss_stream_id (sv_session c)")
  case None
  with assms show ?thesis by (simp add: handle_rtp_data_def)
next
  case (Some sid)
  note sid = Some
  show ?thesis
  proof (cases "length (drop 4 data) < 12 \<or> ch div 2 \<noteq> 0")
    case True
    with assms sid show ?thesis
      by (auto simp: handle_rtp_data_def Let_def split: if_splits option.splits intro: calm_publish)
  next
    case False
    let ?g = "case sv_h264_ingest c of None \<Rightarrow> ingest_new sid | Some g \<Rightarrow> g"
    obtain g' m1 b where i: "ingest_rtp_packet (?g, m) (drop 4 data) = Some ((g', m1), b)"
      and c': "c' = sync_codec_cache_from_manager (c\<lparr>sv_h264_ingest := Some g'\<rparr>) m' sid" and "m' = m1"
      using assms sid False by (auto simp: handle_rtp_data_def Let_def)
    have "sv_env c' = sv_env c \<and> sv_session c' = sv_session c \<and> sv_h264_ingest c' = Some g'"
      unfolding c' by (simp add: sync_codec_cache_from_manager_def split: option.split)
    with ingest_packet_same [OF i] \<open>m' = m1\<close> show ?thesis by (auto simp: same_ingest_def)
  qed
qed


lemma handle_unit_cases:
  assumes "handle_unit io u c m = (oc, c', m', effs)"
  obtains (hung) "oc = Rtsp_hung" "c' = c" "m' = m"
  | (rtp) ch data where "u = Rtp_unit ch data" "handle_rtp_data c m ch data = Some (c', m')" "oc = Rtsp_open"
  | (request) data where "u = Request_unit data" "process_request io c m (text_of data) = (oc, c', m', effs)"
      "oc = (if io_write io then Rtsp_open else Rtsp_failed)"
proof (cases u)
  case (Rtp_unit ch data)
  with assms hung rtp show thesis by (auto simp: handle_unit_def split: option.splits)
next
  case (Request_unit data)
  with assms have p: "process_request io c m (text_of data) = (oc, c', m', effs)" by (simp add: handle_unit_def)
  from process_request_core [OF p] have "oc = (if io_write io then Rtsp_open else Rtsp_failed)" by blast
  with p Request_unit request show thesis by blast
qed

lemma request_steps:
  assumes "process_rtsp_request e rid ports request m s = (r, s', m', hls)"
  shows "mgr_steps m m'"
  using assms
  by (cases rule: request_cases) (auto simp: keeps_slots_def takes_slot_def calm_def intro: release_slot_steps)

lemma process_request_outcome:
  assumes "process_request io c m request = (oc, c', m', effs)"
  obtains s ports r s' hls where
    "process_rtsp_request (sv_env c) (io_rid io) ports request m s = (r, s', m', hls)"
    "ss_stream_id s = ss_stream_id (sv_session c)" "ss_publisher_id s = ss_publisher_id (sv_session c)"
    "sv_env c' = sv_env c" "ss_stream_id (sv_session c') = ss_stream_id s'"
    "ss_publisher_id (sv_session c') = ss_publisher_id s'" "sv_h264_ingest c' = sv_h264_ingest c"
proof (rule process_request_core [OF assms])
  fix s ports r s' hls
  assume "process_rtsp_request (sv_env c) (io_rid io) ports request m s = (r, s', m', hls)"
    "ss_stream_id s = ss_stream_id (sv_session c)" "ss_publisher_id s = ss_publisher_id (sv_session c)"
    "conn_core c' = (sv_env c, ss_stream_id s', ss_publisher_id s', ss_tracks s', sv_h264_ingest c)"
  then show thesis using that [of ports s r s' hls] by (simp add: conn_core_def)
qed

lemma unit_steps:
  assumes "handle_unit io u c m = (oc, c', m', effs)"
  shows "mgr_steps m m'"
  using assms
proof (cases rule: handle_unit_cases)
  case hung
  then show ?thesis by simp
next
  case (rtp ch data)
  from handle_rtp_core [OF rtp(2)] show ?thesis by (simp add: calm_def)
next
  case (request data)
  obtain s ports r s' hls where "process_rtsp_request (sv_env c) (io_rid io) ports (text_of data) m s = (r, s', m', hls)"
    by (rule process_request_outcome [OF request(2)])
  then show ?thesis by (rule request_steps)
qed

text \<open>What every unit keeps, the read loop keeps.\<close>

lemma drain_units_invariant:
  assumes "\<And>io u c m oc c' m' effs. I c m \<Longrightarrow> handle_unit io u c m = (oc, c', m', effs) \<Longrightarrow> I c' m'"
    and "I c m" and "drain_units io k buf c m = ((oc, c', m', effs), rest)"
  shows "I c' m'"
  using assms(2,3)
proof (induction io k buf c m arbitrary: effs rest rule: drain_units.induct)
  case (1 io k buf c m)
  show ?case
  proof (cases "next_unit buf")
    case None
    with "1.prems" show ?thesis by (simp add: drain_units.simps [of io k buf])
  next
    case (Some ur)
    obtain u r where ur: "ur = (u, r)" by fastforce
    obtain o1 c1 m1 e1 where h: "handle_unit (io k) u c m = (o1, c1, m1, e1)" by (metis prod.exhaust)
    note i1 = assms(1) [OF "1.prems"(1) h]
    show ?thesis
    proof (cases "o1 = Rtsp_open")
      case False
      with "1.prems" Some ur h i1 show ?thesis by (cases o1) (simp_all add: drain_units.simps [of io k buf])
    next
      case True
      obtain o2 c2 m2 e2 r2 where d: "drain_units io (k + 1) r c1 m1 = ((o2, c2, m2, e2), r2)"
        by (metis prod.exhaust)
      with "1.prems"(2) Some ur h True have eq: "o2 = oc" "c2 = c'" "m2 = m'"
        by (simp_all add: drain_units.simps [of io k buf])
      show ?thesis
        by (rule "1.IH" [OF Some ur [symmetric] h [symmetric] True refl refl i1 d [unfolded eq]])
    qed
  qed
qed

lemma read_loop_invariant:
  assumes "\<And>io u c m oc c' m' effs. I c m \<Longrightarrow> handle_unit io u c m = (oc, c', m', effs) \<Longrightarrow> I c' m'"
    and "I c m" and "read_loop io k reads buf c m = (oc, c', m', effs)"
  shows "I c' m'"
  using assms(2,3)
proof (induction io k reads buf c m arbitrary: effs rule: read_loop.induct)
  case (4 io k x reads buf c m)
  obtain o1 c1 m1 e1 buf1 k1 where d: "drain_units io k (buf @ x) c m = ((o1, c1, m1, e1), buf1, k1)"
    by (metis prod.exhaust)
  have i1: "I c1 m1" by (rule drain_units_invariant [of I, OF assms(1) "4.prems"(1) d])
  show ?case
  proof (cases "o1 = Rtsp_open")
    case False
    with "4.prems" d i1 show ?thesis by (cases o1) simp_all
  next
    case True
    obtain o2 c2 m2 e2 where r: "read_loop io k1 reads buf1 c1 m1 = (o2, c2, m2, e2)" by (metis prod.exhaust)
    with "4.prems"(2) d True have eq: "o2 = oc" "c2 = c'" "m2 = m'" by simp_all
    show ?thesis by (rule "4.IH" [OF d [symmetric] refl True refl refl refl i1 r [unfolded eq]])
  qed
qed simp_all

lemma read_loop_steps:
  assumes "read_loop io k reads buf c m = (oc, c', m', effs)"
  shows "mgr_steps m m'"
  by (rule read_loop_invariant [of "\<lambda>_. mgr_steps m", OF _ _ assms]) (auto dest: unit_steps)

lemma run_session_steps: "run_session io reads c m = (oc, c', m', effs) \<Longrightarrow> mgr_steps m m'"
proof -
  assume a: "run_session io reads c m = (oc, c', m', effs)"
  obtain o1 c1 m1 e1 where r: "read_loop io 1 reads [] c m = (o1, c1, m1, e1)" by (metis prod.exhaust)
  have "m' = m1 \<or> (\<exists>s. m' = release_slot s m1)"
    using a r by (cases o1) (auto simp: run_session_def cleanup_on_disconnect_def Let_def split: prod.splits)
  with read_loop_steps [OF r] release_slot_steps show ?thesis by (metis rtranclp_trans)
qed

section \<open>The slots of the server\<close>

text \<open>
  The requests that move a publisher without giving its slot back: \<open>ANNOUNCE\<close> of another stream
  while publishing, and \<open>RECORD\<close> before any request that names the stream.
\<close>

definition stays :: "rtsp_conn \<Rightarrow> rtsp_unit \<Rightarrow> bool" where
  "stays c u \<longleftrightarrow>
     (case u of
        Rtp_unit _ _ \<Rightarrow> True
      | Request_unit data \<Rightarrow>
          let request = text_of data; s = sv_session c in
          (request_method request = ''ANNOUNCE'' \<and> ss_publisher_id s \<noteq> None \<longrightarrow>
             ss_stream_id s = Some (url_stream (sv_env c) request)) \<and>
          (request_method request = ''RECORD'' \<and> ss_publisher_id s = None \<longrightarrow> ss_stream_id s \<noteq> None))"

definition slot_ok :: "string \<Rightarrow> stream_id option \<Rightarrow> string option \<Rightarrow> stream_manager \<Rightarrow> bool" where
  "slot_ok i str pub m \<longleftrightarrow> pub \<in> {None, Some i} \<and> (pub \<noteq> None \<longrightarrow> str \<noteq> None) \<and>
     (\<forall>sid. current_publisher m sid = Some i \<longleftrightarrow> pub = Some i \<and> str = Some sid)"

abbreviation conn_slot_ok :: "rtsp_conn \<Rightarrow> stream_manager \<Rightarrow> bool" where
  "conn_slot_ok c m \<equiv>
     slot_ok (own_id (sv_env c)) (ss_stream_id (sv_session c)) (ss_publisher_id (sv_session c)) m"

definition others_kept :: "string \<Rightarrow> stream_manager \<Rightarrow> stream_manager \<Rightarrow> bool" where
  "others_kept i m m' \<longleftrightarrow>
     (\<forall>q sid. q \<noteq> i \<longrightarrow> (current_publisher m' sid = Some q \<longleftrightarrow> current_publisher m sid = Some q))"

lemma taken_slot:
  assumes "slot_ok i str pub m" and "current_publisher m sid \<in> {None, Some i}"
    and "current_publisher m' = (current_publisher m)(sid := Some i)" and "pub = None \<or> str = Some sid"
  shows "slot_ok i (Some sid) (Some i) m' \<and> others_kept i m m'"
proof -
  have p: "current_publisher m' s = (if s = sid then Some i else current_publisher m s)" for s
    using assms(3) by simp
  have "current_publisher m s \<noteq> Some i" if "s \<noteq> sid" for s
    using assms(1,4) that by (auto simp: slot_ok_def)
  then have "slot_ok i (Some sid) (Some i) m'" using p by (simp add: slot_ok_def)
  moreover have "others_kept i m m'" using p assms(2) by (auto simp: others_kept_def)
  ultimately show ?thesis ..
qed

lemma released_slot:
  assumes "slot_ok i (ss_stream_id s) (ss_publisher_id s) m"
  shows "slot_ok i str None (release_slot s m) \<and> others_kept i m (release_slot s m)"
proof (cases "ss_publisher_id s")
  case None
  then have "current_publisher (release_slot s m) = current_publisher m"
    by (simp add: release_slot_publishers split: option.split)
  with assms None show ?thesis by (simp add: slot_ok_def others_kept_def)
next
  case (Some p)
  with assms obtain sid where sid: "p = i" "ss_stream_id s = Some sid" by (auto simp: slot_ok_def)
  have own: "current_publisher m x = Some i \<longleftrightarrow> x = sid" for x
    using assms Some sid by (auto simp: slot_ok_def)
  then have "current_publisher (release_slot s m) = (current_publisher m)(sid := None)"
    using Some sid by (simp add: release_slot_publishers)
  then have p: "current_publisher (release_slot s m) x = (if x = sid then None else current_publisher m x)" for x
    by simp
  have "slot_ok i str None (release_slot s m)" by (simp add: slot_ok_def p own)
  moreover have "others_kept i m (release_slot s m)"
    unfolding others_kept_def p using own [of sid] by simp
  ultimately show ?thesis ..
qed

lemma request_slots:
  assumes "process_rtsp_request e rid ports request m s = (r, s', m', hls)"
    and "slot_ok (own_id e) (ss_stream_id s) (ss_publisher_id s) m"
    and "request_method request = ''ANNOUNCE'' \<Longrightarrow> ss_publisher_id s \<noteq> None \<Longrightarrow>
      ss_stream_id s = Some (url_stream e request)"
    and "request_method request = ''RECORD'' \<Longrightarrow> ss_publisher_id s = None \<Longrightarrow> ss_stream_id s \<noteq> None"
  shows "slot_ok (own_id e) (ss_stream_id s') (ss_publisher_id s') m' \<and> others_kept (own_id e) m m'"
  using assms(1)
proof (cases rule: request_cases)
  case keeps
  then have p: "current_publisher m' = current_publisher m" "ss_publisher_id s' = ss_publisher_id s"
    and str: "ss_stream_id s' = ss_stream_id s \<or> ss_stream_id s = None"
    by (simp_all add: keeps_slots_def calm_def)
  from str have "slot_ok (own_id e) (ss_stream_id s') (ss_publisher_id s') m'"
  proof
    assume "ss_stream_id s' = ss_stream_id s"
    with assms(2) p show ?thesis by (simp add: slot_ok_def)
  next
    assume "ss_stream_id s = None"
    with assms(2) have "ss_publisher_id s = None" by (simp add: slot_ok_def)
    with assms(2) p show ?thesis by (simp add: slot_ok_def)
  qed
  with p show ?thesis by (simp add: others_kept_def)
next
  case teardown
  with released_slot [OF assms(2), of None] show ?thesis by simp
next
  case announce
  have free: "ss_publisher_id s = None \<or> ss_stream_id s = Some (url_stream e request)"
    using assms(3) announce(1) by blast
  show ?thesis
    using taken_slot [OF assms(2) _ _ free] announce(2,3) by (simp add: takes_slot_def)
next
  case rec
  then obtain sid where sid: "ss_stream_id s = Some sid" using assms(4) by blast
  show ?thesis
    using taken_slot [OF assms(2), of sid m'] rec sid by (simp add: takes_slot_def)
qed

lemma unit_slots:
  assumes "handle_unit io u c m = (oc, c', m', effs)" and "stays c u" and "conn_slot_ok c m"
  shows "sv_env c' = sv_env c \<and> conn_slot_ok c' m' \<and> others_kept (own_id (sv_env c)) m m'"
  using assms(1)
proof (cases rule: handle_unit_cases)
  case hung
  with assms(3) show ?thesis by (simp add: others_kept_def)
next
  case (rtp ch data)
  from handle_rtp_core [OF rtp(2)] have "sv_env c' = sv_env c" "sv_session c' = sv_session c"
    "current_publisher m' = current_publisher m" by (simp_all add: calm_def)
  with assms(3) show ?thesis by (simp add: slot_ok_def others_kept_def)
next
  case (request data)
  from process_request_outcome [OF request(2)] show ?thesis
  proof cases
    case (1 s ports r s' hls)
    have s: "slot_ok (own_id (sv_env c)) (ss_stream_id s) (ss_publisher_id s) m"
      using assms(3) 1(2,3) by simp
    have "slot_ok (own_id (sv_env c)) (ss_stream_id s') (ss_publisher_id s') m' \<and>
        others_kept (own_id (sv_env c)) m m'"
      using assms(2) request(1) 1(2,3) by (intro request_slots [OF 1(1) s]) (simp_all add: stays_def Let_def)
    with 1(4-6) show ?thesis by simp
  qed
qed


text \<open>
  The server: its connections by peer address, and the registry. A connection is accepted, handles
  a unit, or ends; whatever else happens to the registry keeps the slots of RTSP publishers.
\<close>

record rtsp_server =
  rv_conns :: "string \<rightharpoonup> rtsp_conn"
  rv_mgr :: stream_manager

inductive rtsp_step :: "rtsp_server \<Rightarrow> rtsp_server \<Rightarrow> bool" where
  accept:
    "rv_conns S (re_peer e) = None \<Longrightarrow>
     rtsp_step S (S\<lparr>rv_conns := (rv_conns S)(re_peer e \<mapsto> rtsp_conn_new e ssrc)\<rparr>)"
| handle:
    "rv_conns S peer = Some c \<Longrightarrow> stays c u \<Longrightarrow> handle_unit io u c (rv_mgr S) = (oc, c', m', effs) \<Longrightarrow>
     rtsp_step S (S\<lparr>rv_conns := (rv_conns S)(peer \<mapsto> c'), rv_mgr := m'\<rparr>)"
| close:
    "rv_conns S peer = Some c \<Longrightarrow> cleanup_on_disconnect c (rv_mgr S) = (c', m', effs) \<Longrightarrow>
     rtsp_step S (S\<lparr>rv_conns := (rv_conns S)(peer := None), rv_mgr := m'\<rparr>)"
| other:
    "mgr_steps (rv_mgr S) m' \<Longrightarrow>
     (\<forall>p sid. current_publisher m' sid = Some (''rtsp:'' @ p) \<longleftrightarrow>
        current_publisher (rv_mgr S) sid = Some (''rtsp:'' @ p)) \<Longrightarrow>
     rtsp_step S (S\<lparr>rv_mgr := m'\<rparr>)"

definition server_start :: rtsp_server where
  "server_start = \<lparr>rv_conns = Map.empty, rv_mgr = manager_new\<rparr>"

inductive rtsp_reachable :: "rtsp_server \<Rightarrow> bool" where
  start: "rtsp_reachable server_start"
| step: "rtsp_reachable S \<Longrightarrow> rtsp_step S T \<Longrightarrow> rtsp_reachable T"

definition peer_ok :: "rtsp_server \<Rightarrow> string \<Rightarrow> bool" where
  "peer_ok S peer \<longleftrightarrow>
     (case rv_conns S peer of
        None \<Rightarrow> (\<forall>sid. current_publisher (rv_mgr S) sid \<noteq> Some (''rtsp:'' @ peer))
      | Some c \<Rightarrow> re_peer (sv_env c) = peer \<and> conn_slot_ok c (rv_mgr S))"

definition same_slots :: "string \<Rightarrow> stream_manager \<Rightarrow> stream_manager \<Rightarrow> bool" where
  "same_slots p m m' \<longleftrightarrow> (\<forall>sid. current_publisher m' sid = Some (''rtsp:'' @ p) \<longleftrightarrow>
     current_publisher m sid = Some (''rtsp:'' @ p))"

lemma peer_ok_other:
  assumes "peer_ok S p" and "rv_conns T p = rv_conns S p" and "same_slots p (rv_mgr S) (rv_mgr T)"
  shows "peer_ok T p"
proof (cases "rv_conns S p")
  case None
  with assms show ?thesis by (simp add: peer_ok_def same_slots_def)
next
  case (Some c)
  with assms(1) have e: "re_peer (sv_env c) = p" by (simp add: peer_ok_def)
  show ?thesis
    using assms Some by (simp add: peer_ok_def slot_ok_def own_id_def e same_slots_def)
qed

lemma others_same: "others_kept (''rtsp:'' @ q) m m' \<Longrightarrow> p \<noteq> q \<Longrightarrow> same_slots p m m'"
  by (simp add: others_kept_def same_slots_def)

lemma new_conn_slot: "\<forall>sid. current_publisher m sid \<noteq> Some (own_id e) \<Longrightarrow> conn_slot_ok (rtsp_conn_new e ssrc) m"
  by (simp add: rtsp_conn_new_def rtsp_session_new_def slot_ok_def)

lemma cleanup_slots:
  assumes "cleanup_on_disconnect c m = (c', m', effs)" and "conn_slot_ok c m"
  shows "(\<forall>sid. current_publisher m' sid \<noteq> Some (own_id (sv_env c))) \<and> others_kept (own_id (sv_env c)) m m'"
proof -
  let ?s = "(sv_session c)\<lparr>ss_rtp_task_started := False\<rparr>"
  have "m' = release_slot ?s m"
    using assms(1) by (auto simp: cleanup_on_disconnect_def abort_rtp_sender_def Let_def)
  moreover have "slot_ok (own_id (sv_env c)) (ss_stream_id ?s) (ss_publisher_id ?s) m" using assms(2) by simp
  ultimately show ?thesis using released_slot [of _ ?s m None] by (simp add: slot_ok_def)
qed

lemma rtsp_step_ok:
  assumes "rtsp_step S T" and "\<forall>p. peer_ok S p"
  shows "peer_ok T p"
  using assms(1)
proof cases
  case (accept e ssrc)
  show ?thesis
  proof (cases "p = re_peer e")
    case True
    have "\<forall>sid. current_publisher (rv_mgr S) sid \<noteq> Some (own_id e)"
      using assms(2) [rule_format, of "re_peer e"] accept(2) by (simp add: own_id_def peer_ok_def)
    from new_conn_slot [OF this, of ssrc] have "conn_slot_ok (rtsp_conn_new e ssrc) (rv_mgr T)"
      using accept(1) by simp
    then show ?thesis unfolding accept(1) True peer_ok_def by (simp add: rtsp_conn_new_def)
  next
    case False
    then show ?thesis
      by (intro peer_ok_other [OF assms(2) [rule_format]]) (simp_all add: same_slots_def accept(1))
  qed
next
  case (handle q c u io oc c' m' effs)
  have q: "re_peer (sv_env c) = q" "conn_slot_ok c (rv_mgr S)"
    using assms(2) [rule_format, of q] handle(2) by (simp_all add: peer_ok_def)
  note u = unit_slots [OF handle(4,3) q(2)]
  show ?thesis
  proof (cases "p = q")
    case True
    from u have e: "sv_env c' = sv_env c" and k: "conn_slot_ok c' m'" by blast+
    from k have "slot_ok (own_id (sv_env c)) (ss_stream_id (sv_session c')) (ss_publisher_id (sv_session c')) m'"
      by (simp only: e)
    with True q(1) show ?thesis by (simp add: peer_ok_def handle(1) e)
  next
    case False
    from u q(1) have "others_kept (''rtsp:'' @ q) (rv_mgr S) m'" by (simp add: own_id_def)
    from others_same [OF this False] show ?thesis
      using False by (intro peer_ok_other [OF assms(2) [rule_format]]) (simp_all add: handle(1))
  qed
next
  case (close q c c' m' effs)
  have q: "re_peer (sv_env c) = q" "conn_slot_ok c (rv_mgr S)"
    using assms(2) [rule_format, of q] close(2) by (simp_all add: peer_ok_def)
  note u = cleanup_slots [OF close(3) q(2)]
  show ?thesis
  proof (cases "p = q")
    case True
    with u q(1) show ?thesis by (simp add: peer_ok_def own_id_def close(1))
  next
    case False
    from u q(1) have "others_kept (''rtsp:'' @ q) (rv_mgr S) m'" by (simp add: own_id_def)
    from others_same [OF this False] show ?thesis
      using False by (intro peer_ok_other [OF assms(2) [rule_format]]) (simp_all add: close(1))
  qed
next
  case (other m')
  show ?thesis
    using other(3) by (intro peer_ok_other [OF assms(2) [rule_format]]) (simp_all add: same_slots_def other(1))
qed

lemma reachable_peers: "rtsp_reachable S \<Longrightarrow> peer_ok S p"
proof (induction arbitrary: p rule: rtsp_reachable.induct)
  case start
  then show ?case by (simp add: server_start_def peer_ok_def current_publisher_def)
next
  case (step S T)
  then show ?case using rtsp_step_ok by blast
qed

lemma rtsp_step_steps:
  assumes "rtsp_step S T"
  shows "mgr_steps (rv_mgr S) (rv_mgr T)"
  using assms
proof cases
  case (handle peer c u io oc c' m' effs)
  from unit_steps [OF handle(4)] show ?thesis by (simp add: handle(1))
next
  case (close peer c c' m' effs)
  then have "m' = release_slot ((sv_session c)\<lparr>ss_rtp_task_started := False\<rparr>) (rv_mgr S)"
    by (auto simp: cleanup_on_disconnect_def abort_rtp_sender_def Let_def)
  then show ?thesis by (simp add: close(1) release_slot_steps)
qed simp_all

lemma reachable_registry: "rtsp_reachable S \<Longrightarrow> mgr_reachable (rv_mgr S)"
proof (induction rule: rtsp_reachable.induct)
  case start
  then show ?case by (simp add: server_start_def reach_new)
next
  case (step S T)
  then show ?case by (blast intro: steps_reachable rtsp_step_steps)
qed

end
