(* ===== verification/Rtsp_Answers.thy ===== *)
theory Rtsp_Answers
  imports Rtsp_Conn
begin

text \<open>
  Every request that is read gets one answer: a response that parses, under the request's own CSeq.
\<close>

section \<open>Header values\<close>

definition value_ok :: "string \<Rightarrow> bool" where
  "value_ok v \<longleftrightarrow> trimmed v \<and> CHR 0x0A \<notin> set v"

lemma plain_header_iff:
  "plain_header (k, v) \<longleftrightarrow> trimmed k \<and> k \<noteq> [] \<and> CHR '':'' \<notin> set k \<and> CHR 0x0A \<notin> set k \<and> value_ok v"
  by (auto simp: plain_header_def value_ok_def)

lemma plain_names:
  "plain_header (''CSeq'', v) = value_ok v" "plain_header (''Session'', v) = value_ok v"
  "plain_header (''Transport'', v) = value_ok v" "plain_header (''Public'', v) = value_ok v"
  "plain_header (''Content-Type'', v) = value_ok v" "plain_header (''Range'', v) = value_ok v"
  "plain_header (''RTP-Info'', v) = value_ok v"
  by (simp_all add: plain_header_iff trimmed_def is_space_def)

lemma split_by_pieces: "x \<in> set (split_by P s) \<Longrightarrow> set x \<subseteq> set s \<and> (\<forall>c\<in>set x. \<not> P c)"
proof (induction s arbitrary: x)
  case Nil
  then show ?case by simp
next
  case (Cons a s)
  obtain y ys where y: "split_by P s = y # ys" by (cases "split_by P s") auto
  show ?case
  proof (cases "P a")
    case True
    with Cons show ?thesis by auto
  next
    case False
    with Cons.prems y have "x = a # y \<or> x \<in> set ys" by auto
    with Cons.IH [of y] Cons.IH [of x] False y show ?thesis by auto
  qed
qed

lemma text_line_one_line: "l \<in> set (text_lines s) \<Longrightarrow> CHR 0x0A \<notin> set l"
proof -
  assume a: "l \<in> set (text_lines s)"
  let ?ps = "split_char (CHR 0x0A) s"
  have "set (strip_cr p) \<subseteq> set p" for p by (auto simp: strip_cr_def dest: in_set_butlastD)
  with a obtain p where "p \<in> set ?ps" "set l \<subseteq> set p"
    by (auto simp: text_lines_def Let_def split: if_splits dest: in_set_butlastD)
      (metis last_in_set split_by_not_Nil order_refl)
  with split_by_pieces [of p "\<lambda>c. c = CHR 0x0A" s] show ?thesis by blast
qed

lemma trim_subset: "set (trim s) \<subseteq> set s"
  by (auto simp: trim_def trim_end_def trim_start_def dest!: set_dropWhileD)

lemma trimmed_trim: "trimmed (trim s)"
proof (cases "trim s = []")
  case True
  then show ?thesis by (simp add: trimmed_def)
next
  case False
  let ?a = "trim_start s" and ?r = "dropWhile is_space (rev (trim_start s))"
  have r: "trim s = rev ?r" by (simp add: trim_def trim_end_def)
  with False have "?r \<noteq> []" by simp
  then have "\<not> is_space (hd ?r)" by (rule hd_dropWhile)
  moreover have "last (trim s) = hd ?r" using False by (simp add: r last_rev)
  moreover have "\<not> is_space (hd (trim s))"
  proof -
    obtain u where u: "rev ?a = u @ ?r" by (metis takeWhile_dropWhile_id)
    then have "?a = rev ?r @ rev u" by (metis rev_append rev_rev_ident)
    with \<open>?r \<noteq> []\<close> have "hd ?a = hd (rev ?r)" "?a \<noteq> []" by (metis hd_append2 rev_is_Nil_conv, metis append_is_Nil_conv rev_is_Nil_conv)
    then show ?thesis using hd_dropWhile [of is_space s] by (metis r trim_start_def)
  qed
  ultimately show ?thesis by (simp add: trimmed_def)
qed

lemma first_some_Some: "first_some f xs = Some y \<Longrightarrow> \<exists>x\<in>set xs. f x = Some y"
  by (induction xs) (auto split: option.splits)

lemma extract_cseq_ok: "value_ok (extract_cseq request)"
proof (cases "first_some (\<lambda>line. if prefix ''CSeq:'' line \<or> prefix ''Cseq:'' line \<or> prefix ''cseq:'' line
    then split_colon_second line else None) (text_lines request)")
  case None
  then show ?thesis by (simp add: extract_cseq_def value_ok_def trimmed_def is_space_def)
next
  case (Some v)
  from first_some_Some [OF Some] obtain l where "l \<in> set (text_lines request)" "split_colon_second l = Some v"
    by (auto split: if_splits)
  then have "CHR 0x0A \<notin> set v" using text_line_one_line [of l] split_by_pieces [of v "\<lambda>c. c = CHR '':''" l]
    by (auto simp: split_colon_second_def split: list.splits)
  then have "CHR 0x0A \<notin> set (trim v)" using trim_subset by blast
  with Some show ?thesis by (simp add: extract_cseq_def value_ok_def trimmed_trim)
qed

lemma edges_ok:
  "a \<noteq> [] \<Longrightarrow> b \<noteq> [] \<Longrightarrow> trimmed (a @ b) \<longleftrightarrow> \<not> is_space (hd a) \<and> \<not> is_space (last b)"
  by (simp add: trimmed_def)

lemma last_dec_str: "\<not> is_space (last (dec_str n))"
  using trimmed_dec_str [of n] by (simp add: trimmed_def)

lemma port_pair_ok: "port_pair p \<noteq> []" "\<not> is_space (last (port_pair p))" "CHR 0x0A \<notin> set (port_pair p)"
  by (simp_all add: port_pair_def last_dec_str)

lemma setup_transport_ok: "value_ok (setup_transport_line t)"
  using port_pair_ok
  by (simp add: setup_transport_line_def value_ok_def edges_ok trimmed_def is_space_def [of "CHR ''R''"])

lemma join_edges:
  assumes "ws \<noteq> []" and "\<forall>w\<in>set ws. w \<noteq> [] \<and> \<not> is_space (hd w) \<and> \<not> is_space (last w) \<and> CHR 0x0A \<notin> set w"
    and "CHR 0x0A \<notin> set sep"
  shows "join_with sep ws \<noteq> [] \<and> \<not> is_space (hd (join_with sep ws)) \<and> \<not> is_space (last (join_with sep ws)) \<and>
    CHR 0x0A \<notin> set (join_with sep ws)"
  using assms
proof (induction sep ws rule: join_with.induct)
  case (3 sep p q ps)
  then show ?case by (simp add: last_append)
qed simp_all

lemma rtp_info_ok:
  assumes "CHR 0x0A \<notin> set sid"
  shows "value_ok (build_rtp_info sid m)"
proof -
  let ?ts = "case get_stream m sid of Some s \<Rightarrow> if st_tracks s = [] then default_live_tracks else st_tracks s
      | None \<Rightarrow> default_live_tracks"
  have ne: "[0..<length ?ts] \<noteq> []"
    by (auto simp: default_live_tracks_def split: option.splits)
  have "rtp_info_url sid i \<noteq> [] \<and> \<not> is_space (hd (rtp_info_url sid i)) \<and> \<not> is_space (last (rtp_info_url sid i)) \<and>
      CHR 0x0A \<notin> set (rtp_info_url sid i)" for i
    using assms by (simp add: rtp_info_url_def is_space_def)
  with ne show ?thesis
    using join_edges [of "map (rtp_info_url sid) [0..<length ?ts]" "'',''"]
    by (simp add: build_rtp_info_def Let_def value_ok_def trimmed_def)
qed

section \<open>Answers\<close>

text \<open>A text that is a well-formed response with this status under this CSeq.\<close>

definition answers :: "string \<Rightarrow> nat \<Rightarrow> string \<Rightarrow> bool" where
  "answers text code cseq \<longleftrightarrow>
     (\<exists>r. text = response_to_string r \<and> response_ok r \<and> rs_body r \<noteq> Some [] \<and> rs_status_code r = code \<and>
        get_header (rs_headers r) ''CSeq'' = Some cseq)"

lemma answersI:
  assumes "is_word (rs_version r)" and "rs_status_code r = code" and "code \<le> 999"
    and "spaced (rs_reason_phrase r) ws" and "rs_headers r = (''CSeq'', cseq) # hs"
    and "distinct (''CSeq'' # List.map fst hs)" and "\<forall>h\<in>set ((''CSeq'', cseq) # hs). plain_header h"
    and "case rs_body r of None \<Rightarrow> True | Some s \<Rightarrow> s \<noteq> [] \<and> length s \<le> u64_max"
  shows "answers (response_to_string r) code cseq"
proof -
  have "response_ok r" using assms by (auto simp: response_ok_def u32_max_def split: option.split)
  moreover have "rs_body r \<noteq> Some []" using assms(8) by auto
  ultimately show ?thesis using assms(2,5) by (auto simp: answers_def get_header_def)
qed

lemma spaced_words:
  "spaced ''OK'' [''OK'']" "spaced ''Not Found'' [''Not'', ''Found'']" "spaced ''Bad Request'' [''Bad'', ''Request'']"
  "spaced ''Method Not Valid in This State'' [''Method'', ''Not'', ''Valid'', ''in'', ''This'', ''State'']"
  "spaced ''Conflict: stream already publishing'' [''Conflict:'', ''stream'', ''already'', ''publishing'']"
  "spaced ''Not Implemented'' [''Not'', ''Implemented'']"
  by (simp_all add: spaced_def is_word_def is_space_def)

lemma version_word: "is_word ''RTSP/1.0''"
  by (simp add: is_word_def is_space_def)

lemmas response_builders = ok_response_def response_header_def response_new_def response_body_def

lemma simple_answer:
  assumes "value_ok cseq" and "spaced reason ws" and "code \<le> 999"
  shows "answers (build_error_response code reason cseq) code cseq"
  unfolding build_error_response_def
  by (rule answersI [where ws = ws and hs = "[]"])
    (use assms in \<open>simp_all add: response_builders version_word plain_names\<close>)

lemma error_answers:
  assumes "value_ok cseq"
  shows "answers (build_error_response 400 ''Bad Request'' cseq) 400 cseq"
    "answers (build_error_response 404 ''Not Found'' cseq) 404 cseq"
    "answers (build_error_response 455 ''Method Not Valid in This State'' cseq) 455 cseq"
    "answers (conflict_response cseq) 409 cseq"
    "answers (build_error_response 501 ''Not Implemented'' cseq) 501 cseq"
  unfolding conflict_response_def
  by (rule simple_answer [OF assms spaced_words(3)] simple_answer [OF assms spaced_words(2)]
      simple_answer [OF assms spaced_words(4)] simple_answer [OF assms spaced_words(5)]
      simple_answer [OF assms spaced_words(6)], simp)+

lemma ok_answers:
  assumes "value_ok cseq" and "distinct (''CSeq'' # List.map fst hs)" and "\<forall>h\<in>set hs. plain_header h"
    and "case b of None \<Rightarrow> True | Some s \<Rightarrow> s \<noteq> [] \<and> length s \<le> u64_max"
    and "r = \<lparr>rs_status_code = 200, rs_reason_phrase = ''OK'', rs_version = ''RTSP/1.0'',
          rs_headers = (''CSeq'', cseq) # hs, rs_body = b\<rparr>"
  shows "answers (response_to_string r) 200 cseq"
  unfolding assms(5)
  by (rule answersI [where ws = "[''OK'']" and hs = hs])
    (use assms spaced_words(1) in \<open>simp_all add: version_word plain_names\<close>)

lemma plain_answer: "value_ok cseq \<Longrightarrow> answers (response_to_string (ok_response cseq)) 200 cseq"
  by (rule ok_answers [of _ "[]" None]) (simp_all add: response_builders)

lemma session_answer:
  "value_ok cseq \<Longrightarrow> value_ok sid \<Longrightarrow> answers (build_record_response cseq sid) 200 cseq"
  unfolding build_record_response_def
  by (rule ok_answers [of _ "[(''Session'', sid)]" None]) (simp_all add: response_builders plain_names)

lemma options_answer: "value_ok cseq \<Longrightarrow> answers (build_options_response cseq) 200 cseq"
  unfolding build_options_response_def
  by (rule ok_answers [of _ "[(''Public'', ''OPTIONS, DESCRIBE, SETUP, PLAY, PAUSE, TEARDOWN, ANNOUNCE, RECORD'')]" None])
    (simp_all add: response_builders plain_names value_ok_def trimmed_def is_space_def)

lemma describe_answer:
  "value_ok cseq \<Longrightarrow> sdp \<noteq> [] \<Longrightarrow> length sdp \<le> u64_max \<Longrightarrow> answers (build_describe_response cseq sdp) 200 cseq"
  unfolding build_describe_response_def
  by (rule ok_answers [of _ "[(''Content-Type'', ''application/sdp'')]" "Some sdp"])
    (simp_all add: response_builders plain_names value_ok_def trimmed_def is_space_def)

lemma setup_answer:
  "value_ok cseq \<Longrightarrow> value_ok sid \<Longrightarrow> answers (build_setup_response cseq sid t) 200 cseq"
  unfolding build_setup_response_def
  by (rule ok_answers [of _ "[(''Session'', sid), (''Transport'', setup_transport_line t)]" None])
    (simp_all add: response_builders plain_names setup_transport_ok)

lemma play_answer:
  assumes "value_ok cseq" and "case s of None \<Rightarrow> True | Some x \<Rightarrow> value_ok x" and "value_ok info"
  shows "answers (build_play_response cseq s info) 200 cseq"
proof -
  have r: "value_ok ''npt=0.000-''" by (simp add: value_ok_def trimmed_def is_space_def)
  show ?thesis
    unfolding build_play_response_def Let_def
    by (rule ok_answers [of _ "[(''Range'', ''npt=0.000-''), (''RTP-Info'', info)] @
          (case s of None \<Rightarrow> [] | Some x \<Rightarrow> [(''Session'', x)])" None])
      (use assms r in \<open>simp_all add: response_builders plain_names split: option.splits\<close>)
qed

text \<open>What the text of a session has to be: no line breaks.\<close>

definition session_text_ok :: "rtsp_session \<Rightarrow> bool" where
  "session_text_ok s \<longleftrightarrow>
     (case ss_session_id s of None \<Rightarrow> True | Some x \<Rightarrow> value_ok x) \<and>
     (case ss_stream_id s of None \<Rightarrow> True | Some x \<Rightarrow> CHR 0x0A \<notin> set x)"

definition answer_cseq :: "string \<Rightarrow> string" where
  "answer_cseq request = (if length (request_words request) < 3 then ''0'' else extract_cseq request)"

lemma server_sdp_not_Nil: "server_build_sdp enc sid st \<noteq> []"
  by (simp add: server_build_sdp_def Let_def unlines_crlf_def)

lemma request_answered:
  assumes "process_rtsp_request e rid ports request m s = (r, s', m', hls)" and "session_text_ok s" and "value_ok rid"
    and "\<forall>sid st. get_stream m sid = Some st \<longrightarrow>
      length (server_build_sdp (lib_base64 (re_libs e)) sid (Some st)) \<le> u64_max"
  shows "\<exists>code\<in>{200, 400, 404, 409, 455, 501}. answers r code (answer_cseq request)"
proof -
  have zero: "value_ok ''0''" by (simp add: value_ok_def trimmed_def is_space_def)
  note c = extract_cseq_ok [of request]
  let ?c = "extract_cseq request"
  have one: "\<exists>code\<in>{200, 400, 404, 409, 455, 501 :: nat}. answers r code x" if "answers r k x"
    "k \<in> {200, 400, 404, 409, 455, 501}" for k x using that by blast
  have id: "value_ok (case ss_session_id s of None \<Rightarrow> rid | Some x \<Rightarrow> x)"
    using assms(2,3) by (simp add: session_text_ok_def split: option.splits)
  show ?thesis
  proof (cases "text_lines request")
    case Nil
    with assms(1) have "r = build_error_response 400 ''Bad Request'' ''0''" by (simp add: process_rtsp_request_def)
    moreover from Nil have "answer_cseq request = ''0''" by (simp add: answer_cseq_def request_words_def)
    ultimately show ?thesis using error_answers(1) [OF zero] by (intro one [of 400]) simp_all
  next
    case (Cons l ls)
    then have w: "request_words request = split_whitespace l" by (simp add: request_words_def)
    show ?thesis
    proof (cases "length (split_whitespace l) < 3")
      case True
      with assms(1) Cons have "r = build_error_response 400 ''Bad Request'' ''0''"
        by (simp add: process_rtsp_request_def)
      moreover from True w have "answer_cseq request = ''0''" by (simp add: answer_cseq_def)
      ultimately show ?thesis using error_answers(1) [OF zero] by (intro one [of 400]) simp_all
    next
      case False
      then have cs: "answer_cseq request = ?c" by (simp add: answer_cseq_def w)
      have sess: "case ss_session_id s of None \<Rightarrow> True | Some x \<Rightarrow> value_ok x"
        using assms(2) by (simp add: session_text_ok_def)
      define good where "good \<longleftrightarrow> (\<exists>k\<in>{200, 400, 404, 409, 455, 501}. answers r k ?c)"
      have good: "answers r 200 ?c \<Longrightarrow> good" "r = build_error_response 404 ''Not Found'' ?c \<Longrightarrow> good"
        "r = build_error_response 455 ''Method Not Valid in This State'' ?c \<Longrightarrow> good"
        "r = conflict_response ?c \<Longrightarrow> good" "r = build_error_response 501 ''Not Implemented'' ?c \<Longrightarrow> good"
        "r = response_to_string (ok_response ?c) \<Longrightarrow> good"
        using error_answers [OF c] plain_answer [OF c] by (auto simp: good_def)
      have q1: good if "r = build_options_response ?c"
        using that options_answer [OF c] good(1) by simp
      have q2: good if "describe_request (re_libs e) url ?c m s = (r, s', m', hls)" for url
      proof -
        from that have "r = build_error_response 404 ''Not Found'' ?c \<or>
            (\<exists>sid st. get_stream m sid = Some st \<and>
              r = build_describe_response ?c (server_build_sdp (lib_base64 (re_libs e)) sid (Some st)))"
          by (auto simp: describe_request_def Let_def split: if_splits) blast+
        then show ?thesis
          using good(1,2) describe_answer [OF c server_sdp_not_Nil] assms(4) by blast
      qed
      have q3: good if "setup_request (re_libs e) rid ports request url ?c m s = (r, s', m', hls)" for url
      proof -
        from that obtain t where "r = build_setup_response ?c (case ss_session_id s of None \<Rightarrow> rid | Some x \<Rightarrow> x) t"
          by (auto simp: setup_request_def Let_def split: if_splits)
        with setup_answer [OF c id] good(1) show ?thesis by simp
      qed
      have q4: good if "play_request ?c m s = (r, s', m', hls)"
        using that assms(2) play_answer [OF c sess] rtp_info_ok good(1,3)
        by (auto simp: play_request_def session_text_ok_def split: option.splits)
      have q5: good if "pause_request ?c m s = (r, s', m', hls)"
        using that good(3,6) by (auto simp: pause_request_def build_pause_response_def split: if_splits)
      have q6: good if "teardown_request ?c m s = (r, s', m', hls)"
        using that good(6) by (auto simp: teardown_request_def build_teardown_response_def)
      have q7: good if "announce_request (re_libs e) (re_peer e) request url ?c m s = (r, s', m', hls)" for url
        using that good(4,6)
        by (auto simp: announce_request_def build_announce_response_def Let_def split: prod.splits option.splits)
      have q8: good if q: "record_request (re_libs e) (re_has_hls e) rid (re_peer e) url ?c m s = (r, s', m', hls)" for url
      proof -
        from q have "r = conflict_response ?c \<or>
            r = build_record_response ?c (case ss_session_id s of None \<Rightarrow> rid | Some x \<Rightarrow> x)"
          by (auto simp: record_request_def Let_def split: option.splits if_splits)
        with session_answer [OF c id] good(1,4) show ?thesis by auto
      qed
      have good
        using assms(1) False good(5) q1 q2 q3 q4 q5 q6 q7 q8
        unfolding process_rtsp_request_def Cons list.case Let_def by (auto split: if_splits)
      then show ?thesis unfolding cs good_def .
    qed
  qed
qed

lemma outgoing_answer:
  assumes "answers text code cseq"
  shows "\<exists>r. parse_response (outgoing_response text) = Some r \<and> rs_status_code r = code \<and>
     get_header (rs_headers r) ''CSeq'' = Some cseq \<and> outgoing_response text = text"
proof -
  obtain r where r: "text = response_to_string r" "response_ok r" "rs_body r \<noteq> Some []" "rs_status_code r = code"
    "get_header (rs_headers r) ''CSeq'' = Some cseq" using assms by (auto simp: answers_def)
  let ?r = "r\<lparr>rs_headers := read_headers (filter not_content_length (rs_headers r)) (rs_body r),
      rs_body := if rs_body r = Some [] then None else rs_body r\<rparr>"
  have p: "parse_response text = Some ?r" unfolding r(1) by (rule response_reads_back [OF r(2)])
  have "not_content_length (''CSeq'', x)" for x
    by (simp add: not_content_length_def eq_ignore_ascii_case_def)
  then have "map_of (filter not_content_length hs) ''CSeq'' = map_of hs ''CSeq''" for hs
    by (induction hs) auto
  then have h: "get_header (rs_headers ?r) ''CSeq'' = Some cseq"
    using r(5) by (simp add: get_header_def read_headers_def update_conv' split: option.split)
  have cl: "filter not_content_length (AList.update ''Content-Length'' v hs) = filter not_content_length hs" for v hs
    by (induction hs) (auto simp: not_content_length_def eq_ignore_ascii_case_def)
  have "response_to_string ?r = text"
    using r(1,3) by (simp add: response_to_string_def read_headers_def cl split: option.split)
  with p h r(4) show ?thesis by (simp add: outgoing_response_def)
qed

section \<open>One response per request\<close>

fun is_response :: "rtsp_effect \<Rightarrow> bool" where
  "is_response (Send_response _) = True"
| "is_response _ = False"

lemma receiver_silent: "filter is_response (snd (start_udp_receiver_for_track c t)) = []"
  by (simp add: start_udp_receiver_for_track_def split: option.split)

lemma receivers_silent: "filter is_response (snd (start_udp_receivers c ts)) = []"
proof (induction ts arbitrary: c)
  case (Cons t ts)
  then show ?case using receiver_silent [of c t] by (simp add: split_beta)
qed simp

lemma setup_silent:
  "filter is_response (snd (snd (prepare_udp_setup io c request))) = [] \<and>
   ss_session_id (sv_session (fst (prepare_udp_setup io c request))) = ss_session_id (sv_session c) \<and>
   ss_stream_id (sv_session (fst (prepare_udp_setup io c request))) = ss_stream_id (sv_session c) \<and>
   sv_env (fst (prepare_udp_setup io c request)) = sv_env c"
  by (auto simp: prepare_udp_setup_def setup_udp_track_def start_udp_receiver_for_track_def Let_def split_beta
      split: option.split)

lemma abort_silent:
  "filter is_response (snd (abort_rtp_sender c)) = [] \<and>
   ss_session_id (sv_session (fst (abort_rtp_sender c))) = ss_session_id (sv_session c) \<and>
   ss_stream_id (sv_session (fst (abort_rtp_sender c))) = ss_stream_id (sv_session c) \<and>
   sv_env (fst (abort_rtp_sender c)) = sv_env c"
  by (simp add: abort_rtp_sender_def)

lemma sender_silent: "filter is_response (snd (start_rtp_sender c)) = []"
  by (simp add: start_rtp_sender_def abort_rtp_sender_def Let_def)

text \<open>
  C14. Every request the server reads is answered by exactly one response, sent while the connection can
  still be written: a text that parses as an RTSP response with one of six status codes and the
  CSeq of the request (0 for a request line of fewer than three words, and for a request without
  CSeq). The response that leaves after being parsed and printed again is the one that was built.
\<close>

theorem rtsp_requests_are_answered:
  assumes "process_request io c m request = (oc, c', m', effs)" and "io_write io"
    and "session_text_ok (sv_session c)" and "value_ok (io_rid io)"
    and "\<forall>sid st. get_stream m sid = Some st \<longrightarrow>
      length (server_build_sdp (lib_base64 (re_libs (sv_env c))) sid (Some st)) \<le> u64_max"
  shows "oc = Rtsp_open \<and>
    (\<exists>text r. filter is_response effs = [Send_response text] \<and> parse_response text = Some r \<and>
       rs_status_code r \<in> {200, 400, 404, 409, 455, 501} \<and>
       get_header (rs_headers r) ''CSeq'' = Some (answer_cseq request))"
proof -
  obtain c1 ports e1 where one: "(if request_method request = ''SETUP'' then prepare_udp_setup io c request
      else (c, None, [])) = (c1, ports, e1)" by (metis prod.exhaust)
  then have one': "filter is_response e1 = []" "ss_session_id (sv_session c1) = ss_session_id (sv_session c)"
    "ss_stream_id (sv_session c1) = ss_stream_id (sv_session c)" "sv_env c1 = sv_env c"
    using setup_silent [of io c request] by (auto split: if_splits)
  obtain c2 e2 where two: "(if request_method request = ''TEARDOWN'' then
      (case abort_rtp_sender c1 of (c', e) \<Rightarrow> (c'\<lparr>sv_udp_tracks := []\<rparr>, e))
      else if request_method request = ''PAUSE'' then abort_rtp_sender c1 else (c1, [])) = (c2, e2)"
    by (metis prod.exhaust)
  then have two': "filter is_response e2 = []" "ss_session_id (sv_session c2) = ss_session_id (sv_session c1)"
    "ss_stream_id (sv_session c2) = ss_stream_id (sv_session c1)" "sv_env c2 = sv_env c1"
    using abort_silent [of c1] by (auto split: if_splits prod.splits)
  obtain r s' m1 hls where p: "process_rtsp_request (sv_env c2) (io_rid io) ports request m (sv_session c2) =
      (r, s', m1, hls)" by (metis prod.exhaust)
  have "session_text_ok (sv_session c2)" using assms(3) one' two' by (simp add: session_text_ok_def)
  from request_answered [OF p this assms(4)] assms(5) one' two'
  obtain code where code: "code \<in> {200, 400, 404, 409, 455, 501}" "answers r code (answer_cseq request)" by auto
  let ?c3 = "c2\<lparr>sv_session := s'\<rparr>"
  obtain c4 e4 where four: "(if request_method request = ''RECORD'' \<and> ss_transport_mode s' = Udp
      then ensure_udp_receivers_started ?c3 else (?c3, [])) = (c4, e4)" by (metis prod.exhaust)
  then have four': "filter is_response e4 = []"
    using receivers_silent [of ?c3] by (auto simp: ensure_udp_receivers_started_def split: if_splits)
      (metis snd_conv)
  obtain c5 e5 where five: "(if request_method request = ''PLAY'' \<and> ss_playing (sv_session c4) \<and>
      ss_stream_id (sv_session c4) \<noteq> None then start_rtp_sender c4 else (c4, [])) = (c5, e5)" by (metis prod.exhaust)
  then have five': "filter is_response e5 = []"
    using sender_silent [of c4] by (auto split: if_splits)
  have "oc = Rtsp_open" "effs = e1 @ e2 @ (case hls of Some sid \<Rightarrow> [Restart_packaging sid] | None \<Rightarrow> []) @
      [Send_response (outgoing_response r)] @ e4 @ e5"
    using assms(1,2) unfolding process_request_def Let_def one two p prod.case four five by auto
  moreover from this have "filter is_response effs = [Send_response (outgoing_response r)]"
    using one'(1) two'(1) four' five' by (simp split: option.split)
  ultimately show ?thesis using outgoing_answer [OF code(2)] code(1) by auto
qed


definition demo_libs :: rtsp_libs where
  "demo_libs = \<lparr>lib_url_path = (\<lambda>_. None), lib_base64 = (\<lambda>_. []), lib_unbase64 = (\<lambda>_. None)\<rparr>"

definition demo_env :: request_env where
  "demo_env = \<lparr>re_libs = demo_libs, re_has_hls = False, re_peer = ''10.0.0.7:5000''\<rparr>"

definition demo_io :: rtsp_io where
  "demo_io = \<lparr>io_rid = ''a1'', io_port = 0, io_bind_rtp = True, io_bind_rtcp = True, io_write = True\<rparr>"

definition demo_options :: string where
  "demo_options = ''OPTIONS rtsp://h/cam RTSP/1.0'' @ crlf @ ''CSeq: 3'' @ crlf @ crlf"

theorem rtsp_requests_are_answered_witness:
  "\<exists>c' m' effs text r. process_request demo_io (rtsp_conn_new demo_env 7) manager_new demo_options = (Rtsp_open, c', m', effs) \<and>
     filter is_response effs = [Send_response text] \<and> parse_response text = Some r \<and>
     get_header (rs_headers r) ''CSeq'' = Some ''3''"
proof -
  let ?c = "rtsp_conn_new demo_env 7"
  obtain oc c' m' effs where p: "process_request demo_io ?c manager_new demo_options = (oc, c', m', effs)"
    by (metis prod.exhaust)
  have "io_write demo_io" "value_ok (io_rid demo_io)" "session_text_ok (sv_session ?c)"
    "\<forall>sid st. get_stream manager_new sid = Some st \<longrightarrow>
      length (server_build_sdp (lib_base64 (re_libs (sv_env ?c))) sid (Some st)) \<le> u64_max"
    by (simp_all add: demo_io_def value_ok_def trimmed_def is_space_def session_text_ok_def rtsp_conn_new_def
        rtsp_session_new_def get_stream_def)
  moreover have "answer_cseq demo_options = ''3''" by code_simp
  ultimately show ?thesis using rtsp_requests_are_answered [OF p] p by fastforce
qed

end
