(* ===== verification/Rtsp_Relay.thy ===== *)
theory Rtsp_Relay
  imports Rtsp_Serve Rtsp_Answers
begin

text \<open>
  The guarantees of the RTSP server over whole runs: publisher slots and connections match, a
  closing connection frees its slot, and what goes wrong when a client leaves the usual order
  of requests.
\<close>

section \<open>An accepted announcement\<close>

lemma acquire_free:
  "get_hub m sid = Some h \<Longrightarrow> hub_publisher h \<in> {None, Some p} \<Longrightarrow> acquire_publisher m sid p \<noteq> None"
  by (auto simp: acquire_publisher_def hub_acquire_publisher_def)

lemma announce_accepted:
  assumes "announce_request libs peer request url cseq m s = (r, s', m', hls)"
    and "sid = extract_stream_id (lib_url_path libs) url" and "current_publisher m sid = None"
  shows "takes_slot (''rtsp:'' @ peer) sid s m s' m' \<and> ss_stream_id s' = Some sid"
proof -
  let ?m1 = "fst (create_stream m sid stream_source_mode.Push RTSP None)"
  have "\<exists>h. get_hub ?m1 sid = Some h" by (auto simp: create_stream_def Let_def split: option.split)
  then obtain h where h: "get_hub ?m1 sid = Some h" by blast
  moreover have "current_publisher ?m1 sid = None"
    using assms(3) calm_create [of m sid stream_source_mode.Push RTSP None] by (simp add: calm_def)
  ultimately have "acquire_publisher ?m1 sid (''rtsp:'' @ peer) \<noteq> None"
    by (intro acquire_free [of _ _ h]) (simp_all add: current_publisher_def)
  with announce_cases [OF assms(1)] assms(2) show ?thesis by auto
qed

lemma announce_request_accepted:
  assumes "process_request io c m request = (oc, c', m', effs)" and "request_method request = ''ANNOUNCE''"
    and "3 \<le> length (request_words request)" and "sid = url_stream (sv_env c) request" and "current_publisher m sid = None"
  shows "current_publisher m' sid = Some (own_id (sv_env c)) \<and> mgr_steps m m' \<and>
    ss_publisher_id (sv_session c') = Some (own_id (sv_env c)) \<and> ss_stream_id (sv_session c') = Some sid \<and>
    sv_h264_ingest c' = sv_h264_ingest c"
proof -
  obtain l ls where l: "text_lines request = l # ls" "\<not> length (split_whitespace l) < 3"
    using assms(3) by (auto simp: request_words_def split: list.splits)
  note w = request_parts [OF l]
  obtain s ports r s' hls where p: "process_rtsp_request (sv_env c) (io_rid io) ports request m s = (r, s', m', hls)"
    and c': "ss_stream_id (sv_session c') = ss_stream_id s'" "ss_publisher_id (sv_session c') = ss_publisher_id s'"
      "sv_h264_ingest c' = sv_h264_ingest c"
    by (rule process_request_outcome [OF assms(1)])
  have "announce_request (re_libs (sv_env c)) (re_peer (sv_env c)) request (request_url request) (extract_cseq request) m s =
      (r, s', m', hls)"
    using p w assms(2) l by (simp add: process_rtsp_request_def Let_def)
  from announce_accepted [OF this _ assms(5)] assms(4) c' show ?thesis
    by (simp add: takes_slot_def url_stream_def own_id_def)
qed

section \<open>Slots\<close>



text \<open>
  The connection as a client of the registry: a whole session, with any input and any failures, is
  a sequence of registry operations; it refines the transition system of \<open>Stream_Manager\<close>.
\<close>

theorem rtsp_session_refines_registry:
  "mgr_steps m (fst (snd (snd (run_session io reads c m))))"
proof -
  obtain oc c' m' effs where r: "run_session io reads c m = (oc, c', m', effs)" by (metis prod.exhaust)
  from run_session_steps [OF r] show ?thesis by (simp add: r)
qed

text \<open>
  \<open>RECORD\<close> as the first request that names the stream leaks its slot: the server answers it, the
  client has become the publisher, but the session does not know the stream, so neither
  \<open>TEARDOWN\<close> nor the end of the connection gives the slot back. The stream stays taken.
\<close>

theorem record_first_leaks_slot:
  assumes "ss_stream_id (sv_session c) = None" and "ss_publisher_id (sv_session c) = None"
    and "sid = url_stream (sv_env c) request" and "get_hub m sid = Some h" and "hub_publisher h = None"
    and "record_request (re_libs (sv_env c)) (re_has_hls (sv_env c)) rid (re_peer (sv_env c)) (request_url request)
           cseq m (sv_session c) = (r, s', m', hls)"
  shows "current_publisher m' sid = Some (own_id (sv_env c)) \<and>
    fst (snd (snd (teardown_request cseq m' s'))) = m' \<and>
    fst (snd (cleanup_on_disconnect (c\<lparr>sv_session := s'\<rparr>) m')) = m'"
proof -
  obtain m2 where a: "acquire_publisher m sid (own_id (sv_env c)) = Some m2"
    using assms(4,5) by (simp add: acquire_publisher_def hub_acquire_publisher_def)
  have s': "ss_stream_id s' = None" and m': "m' = (case set_publishing m2 sid of Some m' \<Rightarrow> m' | None \<Rightarrow> m2)"
    using assms(1-3,6) a by (auto simp: record_request_def url_stream_def own_id_def Let_def)
  have "current_publisher m' sid = current_publisher m2 sid"
    unfolding m' set_publishing_def by simp
  moreover have "release_slot s m' = m'" if "ss_stream_id s = None" for s
    using that by (simp add: release_slot_def split: option.split)
  ultimately show ?thesis
    using s' acquire_publishers(1) [OF a]
    by (simp add: teardown_request_def cleanup_on_disconnect_def abort_rtp_sender_def Let_def)
qed

text \<open>
  The other way to leak: \<open>ANNOUNCE\<close> of another stream by a publisher overwrites what the session
  knows of the first one, whose slot stays taken when the connection ends.
\<close>

theorem second_announce_leaks_slot:
  assumes "current_publisher m sid = Some (own_id (sv_env c))"
    and "process_rtsp_request (sv_env c) rid ports request m (sv_session c) = (r, s', m', hls)"
    and "request_method request = ''ANNOUNCE''" and "url_stream (sv_env c) request \<noteq> sid"
    and "ss_stream_id s' = Some (url_stream (sv_env c) request)" and "ss_stream_id (sv_session c) = Some sid"
  shows "current_publisher (fst (snd (cleanup_on_disconnect (c\<lparr>sv_session := s'\<rparr>) m'))) sid = Some (own_id (sv_env c))"
  using assms(2)
proof (cases rule: request_cases)
  case keeps
  with assms(4,5,6) show ?thesis by (simp add: keeps_slots_def)
next
  case teardown
  with assms(5) show ?thesis by simp
next
  case announce
  then have "current_publisher m' sid = Some (own_id (sv_env c))"
    using assms(1,4) by (simp add: takes_slot_def)
  then show ?thesis
    using assms(4,5)
    by (simp add: cleanup_on_disconnect_def abort_rtp_sender_def Let_def release_slot_publishers split: option.split)
next
  case rec
  with assms(3) show ?thesis by simp
qed

section \<open>Video over the interleaved channel\<close>

lemma build_rtp_length [simp]: "length (build_rtp_packet pt seq ts ssrc marker p) = 12 + length p"
  by (simp add: build_rtp_packet_def u16_bytes_def be32_bytes_def)

lemma fu_a_loop_lengths:
  "q \<in> set (fst (fu_a_loop data a b pt ts ssrc marker seq i)) \<Longrightarrow> 12 \<le> length q \<and> length q < 65536"
proof (induction data a b pt ts ssrc marker seq i rule: fu_a_loop.induct)
  case (1 data a b pt ts ssrc marker seq i)
  show ?case
  proof (cases "i < length data")
    case False
    with "1.prems" show ?thesis by (simp add: fu_a_loop.simps [of data])
  next
    case True
    let ?n = "min (length data - i) (UDP_RTP_MAX_PAYLOAD - 2)"
    let ?rest = "fu_a_loop data a b pt ts ssrc marker (seq + 1) (i + ?n)"
    have "q \<in> set (fst ?rest) \<Longrightarrow> ?thesis"
      using "1.IH" [OF True refl refl refl refl refl refl] by blast
    moreover have "fst (fu_a_loop data a b pt ts ssrc marker seq i) =
        build_rtp_packet pt seq ts ssrc (marker \<and> i + ?n \<ge> length data)
          ([a, (if i = 0 then 0x80 else 0) OR (if i + ?n \<ge> length data then 0x40 else 0) OR b] @ take ?n (drop i data))
        # fst ?rest"
      using True by (subst fu_a_loop.simps) (simp add: Let_def split_beta)
    ultimately show ?thesis using "1.prems" by (auto simp: UDP_RTP_MAX_PAYLOAD_def)
  qed
qed

lemma packetize_units_lengths:
  "q \<in> set (fst (packetize_units us pt seq ts ssrc)) \<Longrightarrow> 12 \<le> length q \<and> length q < 65536"
proof (induction us arbitrary: seq)
  case Nil
  then show ?case by simp
next
  case (Cons n us)
  have "q \<in> set (fst (packetize_h264_nal_for_rtp n pt seq ts ssrc l)) \<Longrightarrow> 12 \<le> length q \<and> length q < 65536" for l
    using fu_a_loop_lengths
    by (auto simp: packetize_h264_nal_for_rtp_def UDP_RTP_MAX_PAYLOAD_def split: if_splits)
  with Cons show ?case by (auto simp: split_beta)
qed

lemma four_bytes:
  "take (4 + length p) (a # b # c # d # p @ rest) = a # b # c # d # p"
  "drop (4 + length p) (a # b # c # d # p @ rest) = rest"
  by (simp_all add: numeral_eq_Suc)

lemma next_unit_wrapped:
  "length p < 65536 \<Longrightarrow>
   next_unit (wrap_interleaved p ch @ rest) = Some (Rtp_unit ch (wrap_interleaved p ch), rest)"
  using be16_bytes_inverse [of "length p"]
  by (simp add: next_unit_def wrap_interleaved_def be16_bytes_def Let_def four_bytes)

lemma wrapped_payload [simp]: "drop 4 (wrap_interleaved p ch) = p"
  by (simp add: wrap_interleaved_def be16_bytes_def)

lemma channel_of_video: "ch < (2 :: byte) \<Longrightarrow> ch div 2 = 0"
  by (simp add: word_less_nat_alt word_arith_nat_div)

lemma handle_rtp_video:
  assumes "ss_stream_id (sv_session c) = Some sid" and "12 \<le> length p" and "ch < 2"
    and "ingest_rtp_packet (case sv_h264_ingest c of None \<Rightarrow> ingest_new sid | Some g \<Rightarrow> g, m) p = Some ((g', m'), b)"
  shows "\<exists>c'. handle_rtp_data c m ch (wrap_interleaved p ch) = Some (c', m') \<and>
     sv_session c' = sv_session c \<and> sv_h264_ingest c' = Some g'"
proof -
  let ?c = "sync_codec_cache_from_manager (c\<lparr>sv_h264_ingest := Some g'\<rparr>) m' sid"
  have "handle_rtp_data c m ch (wrap_interleaved p ch) = Some (?c, m')"
    using assms channel_of_video [OF assms(3)] by (simp add: handle_rtp_data_def Let_def)
  moreover have "sv_session ?c = sv_session c \<and> sv_h264_ingest ?c = Some g'"
    by (simp add: sync_codec_cache_from_manager_def split: option.split)
  ultimately show ?thesis by blast
qed

lemma drain_video_packets:
  assumes "\<forall>p\<in>set ps. 12 \<le> length p \<and> length p < 65536" and "ss_stream_id (sv_session c) = Some sid" and "ch < 2"
    and "ingest_packets (case sv_h264_ingest c of None \<Rightarrow> ingest_new sid | Some g \<Rightarrow> g, m) ps = Some ((g', m'), bs)"
  shows "\<exists>c'. drain_units io k (concat (map (\<lambda>p. wrap_interleaved p ch) ps)) c m =
       ((Rtsp_open, c', m', []), [], k + length ps) \<and> sv_session c' = sv_session c"
  using assms
proof (induction ps arbitrary: c m k bs)
  case Nil
  then show ?case by (simp add: drain_units.simps next_unit_def ingest_packets_simps)
next
  case (Cons p ps)
  let ?g = "case sv_h264_ingest c of None \<Rightarrow> ingest_new sid | Some g \<Rightarrow> g"
  obtain g1 m1 b cs where i: "ingest_rtp_packet (?g, m) p = Some ((g1, m1), b)"
    "ingest_packets (g1, m1) ps = Some ((g', m'), cs)"
    using Cons.prems(4) by (auto simp: ingest_packets_simps split: option.splits)
  obtain c1 where c1: "handle_rtp_data c m ch (wrap_interleaved p ch) = Some (c1, m1)"
    "sv_session c1 = sv_session c" "sv_h264_ingest c1 = Some g1"
    using handle_rtp_video [OF Cons.prems(2) _ Cons.prems(3) i(1)] Cons.prems(1) by auto
  from Cons.IH [of c1 m1 cs "k + 1"] Cons.prems(1-3) i(2) c1(2,3) obtain c' where
    "drain_units io (k + 1) (concat (map (\<lambda>p. wrap_interleaved p ch) ps)) c1 m1 =
       ((Rtsp_open, c', m', []), [], k + 1 + length ps)" "sv_session c' = sv_session c" by auto
  moreover have "next_unit (wrap_interleaved p ch @ concat (map (\<lambda>p. wrap_interleaved p ch) ps)) =
      Some (Rtp_unit ch (wrap_interleaved p ch), concat (map (\<lambda>p. wrap_interleaved p ch) ps))"
    using Cons.prems(1) by (intro next_unit_wrapped) simp
  ultimately show ?case using c1(1) by (simp add: drain_units.simps [of io k] handle_unit_def)
qed

text \<open>
  C12. The way of a video frame from an RTSP egress over a TCP connection into the server: the packets of
  an access unit, wrapped as interleaved data on channel 0 or 1 and cut into reads anywhere, are
  published as one frame with the original Annex B data. All it takes is that the session knows
  a stream: a player that asked for it with \<open>DESCRIBE\<close> or \<open>SETUP\<close> publishes into it just as well,
  also while another connection holds the publisher slot.
\<close>

theorem rtsp_interleaved_loopback:
  fixes pt ch :: byte and ts ssrc :: "32 word"
  assumes "pt AND 0x80 = 0" and "\<forall>n\<in>set us. media_nal n" and "\<exists>n\<in>set us. nal_kind n \<in> {1, 5}"
    and "ss_stream_id (sv_session c) = Some sid" and "sv_h264_ingest c = None" and "ch < 2"
    and "f = with_clock_rate (media_frame_new sid 0 (unat ts) (annex_b_of us) (\<exists>n\<in>set us. nal_kind n = 5) H264) 90000"
    and "publish_frame m f = Some m'"
    and "concat xs = concat (map (\<lambda>p. wrap_interleaved p ch)
           (fst (packetize_h264_access_unit_for_rtp (annex_b_of us) pt seq ts ssrc)))"
  shows "\<exists>c'. read_loop io k (map Got xs) [] c m = (Rtsp_open, c', m', []) \<and> sv_session c' = sv_session c"
proof -
  have ok: "\<forall>n\<in>set us. nal_ok n" using assms(2) by (simp add: media_nal_def)
  have pk: "packetize_h264_access_unit_for_rtp (annex_b_of us) pt seq ts ssrc = packetize_units us pt seq ts ssrc"
    using iter_ranges_annex_b [OF ok] by (simp add: packetize_h264_access_unit_for_rtp_def)
  obtain ps seq' where eq: "packetize_units us pt seq ts ssrc = (ps, seq')" by fastforce
  have "us \<noteq> []" using assms(3) by auto
  from packetize_units_run [OF assms(1) this assms(2), where g = "ingest_new sid" and seq = seq and m = m and
      ts = ts and ssrc = ssrc] eq
  obtain g1 where run: "ingest_packets (ingest_new sid, m) ps = quiet_until_last (length ps) (flush_access_unit (g1, m))"
    and g1: "ig_batch g1 = batch_of_units batch_default ts us" "ig_stream_id g1 = sid"
    by (auto simp: ingest_new_def batch_default_def)
  have "publish_frame m (with_clock_rate (media_frame_new (ig_stream_id g1) 0 (unat ts) (annex_b_of us)
      (\<exists>n\<in>set us. nal_kind n = 5) H264) VIDEO_RTP_CLOCK_RATE) = Some m'"
    using assms(7,8) g1(2) by (simp add: VIDEO_RTP_CLOCK_RATE_def)
  then have "flush_access_unit (g1, m) = Some ((clear_parts (g1\<lparr>ig_units := ig_units g1 + 1\<rparr>), m'), True)"
    using flush_units [OF assms(2,3) g1(1), of m] by (simp add: batch_default_def del: media_frame_defs)
  with run obtain g' bs where i: "ingest_packets (ingest_new sid, m) ps = Some ((g', m'), bs)"
    by (simp add: quiet_until_last_def)
  have "\<forall>p\<in>set ps. 12 \<le> length p \<and> length p < 65536"
    using packetize_units_lengths [of _ us pt seq ts ssrc] eq by simp
  from drain_video_packets [OF this assms(4,6), of m g' m' bs io k] i assms(5)
  obtain c' where "drain_units io k (concat xs) c m = ((Rtsp_open, c', m', []), [], k + length ps)"
    "sv_session c' = sv_session c" using assms(9) pk eq by auto
  then show ?thesis using read_loop_once [of io k xs "[]" c m] by (simp add: next_unit_def)
qed


section \<open>What a session never changes\<close>

lemma request_tracks:
  assumes "process_rtsp_request e rid ports request m s = (r, s', m', hls)"
  shows "ss_tracks s' = ss_tracks s"
proof -
  have "ss_tracks s' = ss_tracks s" if "record_request libs h rid peer url cseq m s = (r, s', m', hls)"
    for libs h peer url cseq
    using that by (auto simp: record_request_def Let_def split: option.splits if_splits)
  moreover have "ss_tracks s' = ss_tracks s" if "announce_request libs peer request url cseq m s = (r, s', m', hls)"
    for libs peer url cseq
    using that by (auto simp: announce_request_def Let_def split: option.splits prod.splits)
  moreover have "ss_tracks s' = ss_tracks s" if "setup_request libs rid ports request url cseq m s = (r, s', m', hls)"
    for libs url cseq
    using that by (auto simp: setup_request_def Let_def split: option.splits)
  ultimately show ?thesis using assms
    by (auto simp: process_rtsp_request_def describe_request_def play_request_def pause_request_def
        teardown_request_def Let_def split: list.splits if_splits option.splits)
qed

lemma unit_tracks:
  assumes "handle_unit io u c m = (oc, c', m', effs)"
  shows "ss_tracks (sv_session c') = ss_tracks (sv_session c)"
  using assms
proof (cases rule: handle_unit_cases)
  case hung
  then show ?thesis by simp
next
  case (rtp ch data)
  with handle_rtp_core [OF rtp(2)] show ?thesis by simp
next
  case (request data)
  obtain s ports r s' hls where
    p: "process_rtsp_request (sv_env c) (io_rid io) ports (text_of data) m s = (r, s', m', hls)"
    and t: "ss_tracks s = ss_tracks (sv_session c)"
    and core: "conn_core c' = (sv_env c, ss_stream_id s', ss_publisher_id s', ss_tracks s', sv_h264_ingest c)"
    by (rule process_request_core [OF request(2)])
  from request_tracks [OF p] t core show ?thesis by (simp add: conn_core_def)
qed

lemma unit_ingest:
  assumes "handle_unit io u c m = (oc, c', m', effs)" and "sv_h264_ingest c = Some g"
  shows "\<exists>g'. sv_h264_ingest c' = Some g' \<and> ig_stream_id g' = ig_stream_id g"
  using assms(1)
proof (cases rule: handle_unit_cases)
  case hung
  with assms(2) show ?thesis by simp
next
  case (rtp ch data)
  with handle_rtp_core [OF rtp(2)] assms(2) show ?thesis by blast
next
  case (request data)
  obtain s ports r s' hls where "sv_h264_ingest c' = sv_h264_ingest c"
    by (rule process_request_outcome [OF request(2)])
  with assms(2) show ?thesis by simp
qed

text \<open>
  The video of a connection stays on the stream of its first packet: once the ingest exists, no
  later input moves it. After \<open>TEARDOWN\<close> and \<open>ANNOUNCE\<close> of another stream the packets are still
  published to the first one, and its parameter sets are merged into it.
\<close>

theorem rtsp_video_stays_on_first_stream:
  assumes "read_loop io k reads buf c m = (oc, c', m', effs)" and "sv_h264_ingest c = Some g"
  shows "\<exists>g'. sv_h264_ingest c' = Some g' \<and> ig_stream_id g' = ig_stream_id g"
proof -
  let ?I = "\<lambda>c (m :: stream_manager). \<exists>g'. sv_h264_ingest c = Some g' \<and> ig_stream_id g' = ig_stream_id g"
  show ?thesis
    by (rule read_loop_invariant [of ?I, OF _ _ assms(1)])
      (use assms(2) in \<open>auto dest: unit_ingest\<close>)
qed

text \<open>
  Every audio frame of a connection has a clock of 44.1 kHz: the session's tracks stay empty
  whatever was announced, so the rate of the SDP is never found.
\<close>

theorem rtsp_audio_clock_is_fixed:
  assumes "read_loop io k reads [] (rtsp_conn_new e ssrc) m = (oc, c', m', effs)"
    and "rtp_audio_frame sid track (ss_tracks (sv_session c')) rtp whole = Some f"
  shows "mf_clock_rate f = Some 44100"
proof -
  have "ss_tracks (sv_session c') = []"
    by (rule read_loop_invariant [of "\<lambda>c _. ss_tracks (sv_session c) = []", OF _ _ assms(1)])
      (auto simp: rtsp_conn_new_def rtsp_session_new_def dest: unit_tracks)
  with assms(2) show ?thesis by (auto simp: rtp_audio_frame_def Let_def split: option.splits if_splits)
qed

section \<open>Runs\<close>

definition demo_announce :: string where
  "demo_announce = ''ANNOUNCE rtsp://h/cam RTSP/1.0'' @ crlf @ ''CSeq: 2'' @ crlf @ crlf"

lemma demo_announce_parts:
  "request_method demo_announce = ''ANNOUNCE''" "length (request_words demo_announce) = 3"
  "url_stream demo_env demo_announce = ''cam''"
  by code_simp+

lemma demo_peer [simp]: "re_peer demo_env = ''10.0.0.7:5000''" "own_id demo_env = ''rtsp:10.0.0.7:5000''"
  by (simp_all add: demo_env_def own_id_def)

text \<open>A client connects and announces a stream.\<close>

lemma demo_published:
  "\<exists>S c. rtsp_reachable S \<and> rv_conns S ''10.0.0.7:5000'' = Some c \<and>
     current_publisher (rv_mgr S) ''cam'' = Some (''rtsp:'' @ ''10.0.0.7:5000'')"
proof -
  let ?c = "rtsp_conn_new demo_env 7" and ?u = "Request_unit (ascii demo_announce)"
  let ?S = "server_start\<lparr>rv_conns := (rv_conns server_start)(re_peer demo_env \<mapsto> ?c)\<rparr>"
  have "rtsp_step server_start ?S" by (rule rtsp_step.accept) (simp add: server_start_def)
  then have S: "rtsp_reachable ?S" by (rule rtsp_reachable.step [OF rtsp_reachable.start])
  obtain oc c' m' effs where p: "process_request demo_io ?c manager_new demo_announce = (oc, c', m', effs)"
    by (metis prod.exhaust)
  then have h: "handle_unit demo_io ?u ?c (rv_mgr ?S) = (oc, c', m', effs)"
    by (simp add: handle_unit_def server_start_def)
  have "stays ?c ?u" by (simp add: stays_def demo_announce_parts rtsp_conn_new_def rtsp_session_new_def)
  then have "rtsp_step ?S (?S\<lparr>rv_conns := (rv_conns ?S)(''10.0.0.7:5000'' \<mapsto> c'), rv_mgr := m'\<rparr>)"
    by (intro rtsp_step.handle [OF _ _ h]) simp_all
  with S have T: "rtsp_reachable (?S\<lparr>rv_conns := (rv_conns ?S)(''10.0.0.7:5000'' \<mapsto> c'), rv_mgr := m'\<rparr>)"
    by (rule rtsp_reachable.step)
  have env: "sv_env ?c = demo_env" by (simp add: rtsp_conn_new_def)
  have "current_publisher m' ''cam'' = Some (own_id demo_env)"
    using announce_request_accepted [OF p demo_announce_parts(1)] demo_announce_parts(2,3)
    by (simp add: env current_publisher_def)
  then show ?thesis by (intro exI [of _ "?S\<lparr>rv_conns := (rv_conns ?S)(''10.0.0.7:5000'' \<mapsto> c'), rv_mgr := m'\<rparr>"] exI [of _ c'] conjI T) simp_all
qed



definition demo_record :: string where
  "demo_record = ''RECORD rtsp://h/cam RTSP/1.0'' @ crlf @ ''CSeq: 2'' @ crlf @ crlf"

definition cam_registry :: stream_manager where
  "cam_registry = fst (create_stream manager_new ''cam'' stream_source_mode.Push RTSP None)"

lemma cam_registry_hub: "\<exists>h. get_hub cam_registry ''cam'' = Some h \<and> hub_publisher h = None \<and> hub_ring h = frame_ring_new"
  by (simp add: cam_registry_def create_stream_def hub_with_stream_def Let_def)

theorem record_first_leaks_slot_witness:
  "\<exists>r s' m' hls. record_request demo_libs False ''a1'' ''10.0.0.7:5000'' (request_url demo_record) ''2'' cam_registry
       rtsp_session_new = (r, s', m', hls) \<and>
     current_publisher m' ''cam'' = Some ''rtsp:10.0.0.7:5000'' \<and> fst (snd (snd (teardown_request ''3'' m' s'))) = m'"
proof -
  let ?c = "rtsp_conn_new demo_env 7"
  have c: "sv_env ?c = demo_env" "sv_session ?c = rtsp_session_new" by (simp_all add: rtsp_conn_new_def)
  have e: "re_libs demo_env = demo_libs" "re_has_hls demo_env = False" by (simp_all add: demo_env_def)
  have sid: "''cam'' = url_stream demo_env demo_record" by code_simp
  obtain h where h: "get_hub cam_registry ''cam'' = Some h" "hub_publisher h = None" using cam_registry_hub by blast
  obtain r s' m' hls where q: "record_request demo_libs False ''a1'' ''10.0.0.7:5000'' (request_url demo_record) ''2''
      cam_registry rtsp_session_new = (r, s', m', hls)" by (metis prod.exhaust)
  show ?thesis
    using record_first_leaks_slot [of ?c "''cam''" demo_record cam_registry h "''a1''" "''2''" r s' m' hls] q h sid
    by (simp add: c e rtsp_session_new_def teardown_request_def)
qed

theorem rtsp_interleaved_loopback_witness:
  "\<exists>c c' m' xs. ss_publishing (sv_session c) = False \<and> xs \<noteq> [] \<and>
     read_loop (\<lambda>_. demo_io) 1 (map Got xs) [] c cam_registry = (Rtsp_open, c', m', []) \<and>
     publish_frame cam_registry (with_clock_rate (media_frame_new ''cam'' 0 90 (annex_b_of [[0x65, 0x88]]) True H264) 90000) =
       Some m'"
proof -
  let ?us = "[[0x65, 0x88 :: byte]]"
  let ?f = "with_clock_rate (media_frame_new ''cam'' 0 90 (annex_b_of ?us) True H264) 90000"
  let ?c = "(rtsp_conn_new demo_env 7)\<lparr>sv_session := rtsp_session_new\<lparr>ss_stream_id := Some ''cam''\<rparr>\<rparr>"
  let ?xs = "map (\<lambda>p. wrap_interleaved p 0) (fst (packetize_h264_access_unit_for_rtp (annex_b_of ?us) 96 1 90 7))"
  have ok: "\<forall>n\<in>set ?us. media_nal n" "\<exists>n\<in>set ?us. nal_kind n \<in> {1, 5}"
    by (simp_all add: media_nal_def nal_ok_def nal_kind_def single_nal_type_def sublist_code start_code_def)
  have ne: "?xs \<noteq> []"
    using iter_ranges_annex_b [of ?us] ok(1)
    by (simp add: packetize_h264_access_unit_for_rtp_def media_nal_def packetize_h264_nal_for_rtp_def UDP_RTP_MAX_PAYLOAD_def)
  obtain m' where m': "publish_frame cam_registry ?f = Some m'"
    using cam_registry_hub publish_on_new [of cam_registry ?f] by auto
  have "\<exists>c'. read_loop (\<lambda>_. demo_io) 1 (map Got ?xs) [] ?c cam_registry = (Rtsp_open, c', m', []) \<and> sv_session c' = sv_session ?c"
    by (rule rtsp_interleaved_loopback [OF _ ok, where pt = 96 and ch = 0 and ts = 90 and ssrc = 7 and seq = 1 and f = ?f])
      (use m' in \<open>simp_all add: rtsp_conn_new_def rtsp_session_new_def nal_kind_def\<close>)
  then obtain c' where "read_loop (\<lambda>_. demo_io) 1 (map Got ?xs) [] ?c cam_registry = (Rtsp_open, c', m', [])" by blast
  moreover have "\<not> ss_publishing (sv_session ?c)" by (simp add: rtsp_session_new_def)
  ultimately show ?thesis using ne m' by blast
qed

text \<open>A publisher of \<open>old\<close> announces \<open>cam\<close>.\<close>

lemma next_unit_request:
  assumes "s = c # cs" and "word_of_nat (of_char c) \<noteq> (0x24 :: byte)" and "find_str (crlf @ crlf) s = Some pos" and "length s = pos + 4"
    and "find (\<lambda>l. prefix ''content-length:'' (to_lowercase l)) (text_lines (take pos s)) = None"
  shows "next_unit (ascii s) = Some (Request_unit (ascii s), [])"
proof -
  have "hd (ascii s) \<noteq> 0x24" using assms(1,2) by (simp add: ascii_def)
  moreover have "take pos (ascii s) = ascii (take pos s)" by (simp add: ascii_def take_map)
  then have "parse_content_length (ascii s) pos = 0" using assms(5) by (simp add: parse_content_length_def)
  moreover have "header_end (ascii s) = Some pos" using assms(3) by (simp add: header_end_def)
  ultimately show ?thesis using assms(1,4) by (simp add: next_unit_def Let_def ascii_def)
qed

lemma demo_announce_unit: "next_unit (ascii demo_announce) = Some (Request_unit (ascii demo_announce), [])"
proof (rule next_unit_request)
  show "demo_announce = CHR ''A'' # tl demo_announce" by (simp add: demo_announce_def)
  show "find_str (crlf @ crlf) demo_announce = Some 39" by code_simp
  show "length demo_announce = 39 + 4" by code_simp
  show "find (\<lambda>l. prefix ''content-length:'' (to_lowercase l)) (text_lines (take 39 demo_announce)) = None" by code_simp
qed simp

lemma read_one_request:
  assumes "next_unit b = Some (Request_unit b, [])" and "process_request (io k) c m (text_of b) = (oc, c', m', effs)"
  shows "\<exists>oc effs. read_loop io k [Got b] [] c m = (oc, c', m', effs)"
  using assms by (cases oc) (simp_all add: drain_units.simps handle_unit_def next_unit_def)

theorem rtsp_video_stays_on_first_stream_witness:
  "\<exists>oc c' m' effs g. read_loop (\<lambda>_. demo_io) 1 [Got (ascii demo_announce)] []
       ((rtsp_conn_new demo_env 7)\<lparr>sv_h264_ingest := Some (ingest_new ''old'')\<rparr>) manager_new = (oc, c', m', effs) \<and>
     ss_stream_id (sv_session c') = Some ''cam'' \<and> sv_h264_ingest c' = Some g \<and> ig_stream_id g = ''old''"
proof -
  let ?c = "(rtsp_conn_new demo_env 7)\<lparr>sv_h264_ingest := Some (ingest_new ''old'')\<rparr>"
  obtain oc c' m' effs where p: "process_request demo_io ?c manager_new demo_announce = (oc, c', m', effs)"
    by (metis prod.exhaust)
  have "ss_stream_id (sv_session c') = Some ''cam''"
    using announce_request_accepted [OF p demo_announce_parts(1)] demo_announce_parts(2,3)
    by (simp add: rtsp_conn_new_def current_publisher_def)
  moreover obtain oc1 effs1 where r: "read_loop (\<lambda>_. demo_io) 1 [Got (ascii demo_announce)] [] ?c manager_new =
      (oc1, c', m', effs1)"
    using read_one_request [OF demo_announce_unit, of "\<lambda>_. demo_io" 1 ?c manager_new] p by auto
  moreover have "sv_h264_ingest ?c = Some (ingest_new ''old'')" "ig_stream_id (ingest_new ''old'') = ''old''"
    by (simp_all add: ingest_new_def)
  ultimately show ?thesis using rtsp_video_stays_on_first_stream [OF r] by metis
qed

definition demo_aac :: bytes where
  "demo_aac = build_rtp_packet 97 1 1024 7 True (wrap_mpeg4_generic_aac_hbr [0x21, 0x10, 0x05, 0x20])"

theorem rtsp_audio_clock_is_fixed_witness:
  "\<exists>oc c' m' effs f. read_loop (\<lambda>_. demo_io) 1 [Got (ascii demo_announce)] [] (rtsp_conn_new demo_env 7) manager_new =
       (oc, c', m', effs) \<and>
     rtp_audio_frame ''cam'' 1 (ss_tracks (sv_session c')) demo_aac demo_aac = Some f \<and> mf_clock_rate f = Some 44100"
proof -
  obtain oc c' m' effs where r: "read_loop (\<lambda>_. demo_io) 1 [Got (ascii demo_announce)] [] (rtsp_conn_new demo_env 7)
      manager_new = (oc, c', m', effs)" by (metis prod.exhaust)
  have "rtp_audio_frame ''cam'' 1 ts demo_aac demo_aac \<noteq> None" for ts
  proof -
    have "strip_mpeg4_generic_aac (case rtp_h264_media_payload demo_aac of Some (p, _, _) \<Rightarrow> p | None \<Rightarrow> drop 12 demo_aac) =
        Some [0x21, 0x10, 0x05, 0x20]" by code_simp
    then show ?thesis by (simp add: rtp_audio_frame_def Let_def)
  qed
  then obtain f where f: "rtp_audio_frame ''cam'' 1 (ss_tracks (sv_session c')) demo_aac demo_aac = Some f" by blast
  with r rtsp_audio_clock_is_fixed [OF r f] show ?thesis by blast
qed

end
