(* ===== verification/Rtmp_Pull.thy ===== *)
theory Rtmp_Pull
  imports Rtmp_Puller
begin

text \<open>
  What the puller of \<open>Rtmp_Puller\<close> guarantees: it reads what the server of this program encodes, a
  pull from another instance mirrors a stream, and a pull is a client of the registry that acts on
  one stream only. The locale \<open>pull_invariant\<close> is the contract between a pull and a property of
  registries.
\<close>

section \<open>Reading what the server encodes\<close>

definition reader_at :: "nat \<Rightarrow> bytes \<Rightarrow> pull_reader \<Rightarrow> bool" where
  "reader_at n buf r \<longleftrightarrow> pl_buf r = buf \<and> pl_chunk_size r = n \<and> all_idle (pl_states r)"

definition size_after :: "nat \<Rightarrow> rtmp_message \<Rightarrow> nat" where
  "size_after n msg =
     (case handle_control_message (rm_payload msg) (rm_msg_type msg) of Some k \<Rightarrow> k | None \<Rightarrow> n)"

lemma size_after_other [simp]: "rm_msg_type msg \<noteq> 0x01 \<Longrightarrow> size_after n msg = n"
  by (simp add: size_after_def handle_control_message_def)

lemma reader_feed: "reader_at n buf r \<Longrightarrow> reader_at n (buf @ bs) (feed r bs)"
  by (simp add: reader_at_def feed_def)

lemma next_message_empty: "reader_at n [] r \<Longrightarrow> next_message r = (r, None)"
  by (simp add: next_message_def reader_at_def parse_chunks_Nil)

text \<open>A message that fits into one chunk is encoded the same at every chunk size.\<close>

lemma encode_small:
  assumes "length p \<le> n" and "length p \<le> k" and "p \<noteq> []"
  shows "encode_message mty ts msid p n csid = encode_message mty ts msid p k csid"
proof -
  have "0 < n" "0 < k" using assms by (cases p, auto)+
  with assms encode_message_form [of n p] encode_message_form [of k p] show ?thesis
    by (simp add: chunk_tail_def)
qed

lemma next_message_encoded:
  assumes "0 < n" and "message_fits q" and "reader_at n (the (encode_rtmp n q) @ rest) r"
  shows "\<exists>r'. next_message r = (r', Some (snd q)) \<and> reader_at (size_after n (snd q)) rest r'"
proof -
  obtain c m where q: "q = (c, m)" by fastforce
  from assms(3) have r: "pl_buf r = the (encode_rtmp n q) @ rest" "pl_chunk_size r = n" "all_idle (pl_states r)"
    by (simp_all add: reader_at_def)
  from r(3) have "pl_states r c = None \<or> (\<exists>a. pl_states r c = Some a \<and> idle_assembler a)"
    by (auto simp: all_idle_def)
  then obtain enc a h where e: "encode_rtmp n q = Some enc" "idle_assembler a"
    "parse_chunks (enc @ rest) (pl_states r) (pl_headers r) n =
       ((rest, (pl_states r)(c \<mapsto> a), (pl_headers r)(c \<mapsto> h)), Some m)"
    using parse_encoded_message [OF assms(1), of c "rm_payload m" "pl_states r" "rm_msg_type m"
        "rm_timestamp m" "rm_msg_stream_id m" rest "pl_headers r"] assms(2) q
    by (auto simp: encode_rtmp_def message_fits_def)
  moreover have "all_idle ((pl_states r)(c \<mapsto> a))" using r(3) e(2) by (simp add: all_idle_def)
  ultimately show ?thesis
    using r q by (simp add: next_message_def reader_at_def size_after_def split: option.split)
qed

text \<open>A run of encoded messages, all read with the same chunk size.\<close>

definition wire :: "nat \<Rightarrow> (nat \<times> rtmp_message) list \<Rightarrow> bytes" where
  "wire n qs = concat (map (\<lambda>q. the (encode_rtmp n q)) qs)"

lemma wire_simps [simp]: "wire n [] = []" "wire n (q # qs) = the (encode_rtmp n q) @ wire n qs"
  "wire n (ps @ qs) = wire n ps @ wire n qs"
  by (simp_all add: wire_def)

definition plain_message :: "nat \<times> rtmp_message \<Rightarrow> bool" where
  "plain_message q \<longleftrightarrow> message_fits q \<and> rm_msg_type (snd q) \<noteq> 0x01"

lemma drain_until_empty: "reader_at n [] r \<Longrightarrow> drain_until judge store r m = (r, m, Go_on)"
  by (subst drain_until.simps) (simp add: next_message_empty)

lemma drain_until_skip:
  assumes "next_message r = (r', Some msg)" and "judge msg = Go_on"
  shows "drain_until judge store r m = drain_until judge store r' (store msg m)"
  using assms by (subst drain_until.simps) simp

lemma drain_until_found:
  assumes "next_message r = (r', Some msg)" and "judge msg = Found x"
  shows "drain_until judge store r m = (r', store msg m, Found x)"
  using assms by (subst drain_until.simps) simp

text \<open>Nothing is buffered, one read brings the decision.\<close>

lemma await_one_read:
  assumes "reader_at n [] r" and "bs \<noteq> []" and "drain_until judge store (feed r bs) m = (r', m', Found x)"
    and "2 \<le> k"
  shows "await k late phase judge store (Some bs # rest) r m = (Inr x, rest, r', m')"
proof -
  obtain j where "k = Suc (Suc j)" using assms(4) by (cases k; cases "k - 1") auto
  with assms(2,3) drain_until_empty [OF assms(1), of judge store m] show ?thesis by simp
qed

lemma await_closed:
  assumes "reader_at n [] r" and "0 < k"
  shows "await k late phase judge store (Some [] # rest) r m = (Inl (Pull_failed (Closed_waiting phase)), rest, r, m)"
  using assms(2) drain_until_empty [OF assms(1), of judge store m] by (cases k) simp_all

lemma relay_messages_empty: "reader_at n [] r \<Longrightarrow> relay_messages sid r m k = (Inr k, r, m)"
  by (subst relay_messages.simps) (simp add: next_message_empty)

lemma relay_messages_step:
  assumes "next_message r = (r', Some msg)" and "relay_message sid msg m k = Inr (m', k')"
  shows "relay_messages sid r m k = relay_messages sid r' m' k'"
  using assms by (subst relay_messages.simps) simp

text \<open>The registry changes of a run of messages.\<close>

fun relay_all :: "stream_id \<Rightarrow> rtmp_message list \<Rightarrow> stream_manager \<Rightarrow> nat \<Rightarrow> pull_outcome + stream_manager \<times> nat" where
  "relay_all sid [] m k = Inr (m, k)"
| "relay_all sid (msg # msgs) m k =
     (case relay_message sid msg m k of Inl e \<Rightarrow> Inl e | Inr (m', k') \<Rightarrow> relay_all sid msgs m' k')"

lemma relay_messages_wire:
  assumes "0 < n" and "\<forall>q\<in>set qs. plain_message q" and "reader_at n (wire n qs) r"
    and "relay_all sid (map snd qs) m k = Inr (m', k')"
  shows "\<exists>r'. relay_messages sid r m k = (Inr k', r', m') \<and> reader_at n [] r'"
  using assms(2-4)
proof (induction qs arbitrary: r m k)
  case Nil
  then show ?case using relay_messages_empty by fastforce
next
  case (Cons q qs)
  from Cons.prems(1) have q: "message_fits q" "rm_msg_type (snd q) \<noteq> 0x01" by (simp_all add: plain_message_def)
  from next_message_encoded [OF assms(1) q(1), of "wire n qs" r] Cons.prems(2) q(2)
  obtain r1 where r1: "next_message r = (r1, Some (snd q))" "reader_at n (wire n qs) r1" by auto
  from Cons.prems(3) obtain m1 k1 where m1: "relay_message sid (snd q) m k = Inr (m1, k1)"
    "relay_all sid (map snd qs) m1 k1 = Inr (m', k')"
    by (auto split: sum.splits)
  from Cons.IH [OF _ r1(2) m1(2)] Cons.prems(1) relay_messages_step [OF r1(1) m1(1)] show ?case by auto
qed

lemma relay_all_append:
  "relay_all sid (xs @ ys) m k =
     (case relay_all sid xs m k of Inl e \<Rightarrow> Inl e | Inr (m', k') \<Rightarrow> relay_all sid ys m' k')"
  by (induction xs arbitrary: m k) (auto split: sum.split)

lemma relay_message_video:
  assumes "relayable (snd q)"
  shows "relay_message sid (video_message msid q) m k =
     (case publish_frame m (relay_frame sid q) of None \<Rightarrow> Inl Pull_hung | Some m' \<Rightarrow> Inr (m', k + 1))"
proof -
  obtain ts f where q: "q = (ts, f)" by fastforce
  from assms q obtain ns where ns: "mf_data f = annex_b_of ns" "ns \<noteq> []" "\<forall>n\<in>set ns. nal_clean n"
    "length (frame_to_rtmp_video f) < 16777216" by (auto simp: relayable_def)
  let ?key = "mf_is_keyframe f \<or> is_keyframe_annex_b (mf_data f)"
  have data: "frame_to_rtmp_video f = [(if ?key then 0x10 else 0x20) OR 0x07, 0x01, 0, 0, 0] @ avcc_of ns"
    by (simp add: frame_to_rtmp_video_def ns(1) avcc_units_annex_b [OF ns(3)])
  have "length n < 4294967296" if "n \<in> set ns" for n
    using length_avcc_of [OF that] ns(4) data by simp
  then have annex_b: "avcc_to_annex_b (avcc_of ns) 0 [] = annex_b_of ns"
    using avcc_to_annex_b_of [of ns "[]" "[]"] by simp
  have nonempty: "annex_b_of ns \<noteq> []" using ns(2) by (cases ns) simp_all
  have key: "((if ?key then 0x10 else 0x20) OR 0x07 AND 0xF0 = (0x10 :: byte)) = ?key" by (cases ?key) simp_all
  show ?thesis
    using nonempty key
    by (simp add: relay_message_def rtmp_message_to_frame_def video_payload_to_frame_def video_message_def
        relay_frame_def q data annex_b ns(1) Let_def del: media_frame_defs)
qed

lemma relay_all_videos:
  assumes "\<forall>q\<in>set qs. relayable (snd q)" and "publish_all m (map (relay_frame sid) qs) = Some m'"
  shows "relay_all sid (map (video_message msid) qs) m k = Inr (m', k + length qs)"
  using assms
proof (induction qs arbitrary: m k)
  case (Cons q qs)
  then show ?case by (auto simp: relay_message_video split: option.splits)
qed simp

lemma video_message_plain:
  assumes "relayable (snd q)"
  shows "plain_message (CSID_VIDEO, video_message msid q)"
  using assms by (auto simp: plain_message_def message_fits_def video_message_def relayable_def CSID_VIDEO_def)

section \<open>The server's side of the dialogue\<close>

definition top_ok :: "amf0_value \<Rightarrow> bool" where
  "top_ok v \<longleftrightarrow> amf_ok v \<and> (\<forall>n. v = Number n \<longrightarrow> take 2 (be64_bytes n) \<noteq> [0x00, 0x09])"

lemma parse_encoded_command:
  assumes "\<forall>v\<in>set (AString cmd # args). top_ok v"
  shows "parse_command (encode (AString cmd # args)) = Inr (cmd, map canon args)"
proof -
  from assms have "\<forall>v\<in>set (AString cmd # args). amf_ok v \<and>
      (\<forall>n. v = Number n \<longrightarrow> take 2 (be64_bytes n) \<noteq> [0x00, 0x09])"
    by (auto simp: top_ok_def)
  from decode_from_encoded [OF this, of "[]" "[]"] show ?thesis by (simp add: parse_command_def decode_def)
qed

text \<open>A command of the client, read by a server that has kept the initial chunk size.\<close>

lemma server_receives:
  assumes "all_idle (cn_chunk_states c)" and "\<forall>v\<in>set (AString cmd # args). top_ok v"
    and "length (encode (AString cmd # args)) < 16777216"
  shows "\<exists>as hs. all_idle as \<and>
     drain_messages wr k 128 c m (client_command msid (AString cmd # args)) None =
     (case handle_amf0_command (wr k) (c\<lparr>cn_chunk_states := as, cn_message_headers := hs\<rparr>) m cmd (map canon args) of
        (Running, c', m', effs) \<Rightarrow> ((Running, c', m', effs), [], None)
      | failed \<Rightarrow> (failed, [], None))"
proof -
  let ?p = "encode (AString cmd # args)"
  have p: "?p \<noteq> []" by (simp add: encode_def)
  have idle: "cn_chunk_states c 3 = None \<or> (\<exists>a. cn_chunk_states c 3 = Some a \<and> idle_assembler a)"
    using assms(1) by (auto simp: all_idle_def)
  obtain a h where e: "idle_assembler a"
    "parse_chunks (client_command msid (AString cmd # args)) (cn_chunk_states c) (cn_message_headers c) 128 =
       (([], (cn_chunk_states c)(3 \<mapsto> a), (cn_message_headers c)(3 \<mapsto> h)),
        Some \<lparr>rm_msg_type = 0x14, rm_timestamp = 0, rm_msg_stream_id = msid, rm_payload = ?p\<rparr>)"
    using parse_encoded_message [of 128 3 ?p "cn_chunk_states c" "0x14" 0 msid "[]" "cn_message_headers c"]
      p assms(3) idle
    by (auto simp: client_command_def CLIENT_CHUNK_SIZE_def)
  let ?as = "(cn_chunk_states c)(3 \<mapsto> a)" and ?hs = "(cn_message_headers c)(3 \<mapsto> h)"
  have last: "drain_messages wr (k + 1) 128 c' m' [] None = ((Running, c', m', []), [], None)" for c' m'
    by (subst drain_messages.simps) (simp add: parse_chunks_Nil)
  have "drain_messages wr k 128 c m (client_command msid (AString cmd # args)) None =
     (case handle_amf0_command (wr k) (c\<lparr>cn_chunk_states := ?as, cn_message_headers := ?hs\<rparr>) m cmd (map canon args) of
        (Running, c', m', effs) \<Rightarrow> ((Running, c', m', effs), [], None)
      | failed \<Rightarrow> (failed, [], None))"
    using e(2) last
    by (subst drain_messages.simps)
      (simp add: handle_rtmp_message_def parse_encoded_command [OF assms(2)] split: prod.split rtmp_outcome.split)
  moreover have "all_idle ?as" using assms(1) e(1) by (simp add: all_idle_def)
  ultimately show ?thesis by blast
qed

lemma emit_sends:
  assumes "None \<notin> set bs"
  shows "emit True bs c m effs = (Running, c, m, effs @ map (\<lambda>b. Send (the b)) bs)"
  using assms by (simp add: emit_def)

lemma encode_rtmp_returns: "0 < n \<Longrightarrow> None \<notin> encode_rtmp n ` set qs"
proof
  assume n: "0 < n" and "None \<in> encode_rtmp n ` set qs"
  then obtain q where "encode_rtmp n q = None" by (metis imageE)
  with n show False unfolding encode_rtmp_def using encode_message_returns_iff by metis
qed

text \<open>The bytes among the effects of a server step.\<close>

fun sent_of :: "rtmp_effect \<Rightarrow> bytes" where
  "sent_of (Send b) = b"
| "sent_of _ = []"

definition sent_bytes :: "rtmp_effect list \<Rightarrow> bytes" where
  "sent_bytes effs = concat (map sent_of effs)"

lemma sent_bytes_simps [simp]: "sent_bytes [] = []" "sent_bytes (e # effs) = sent_of e @ sent_bytes effs"
  "sent_bytes (xs @ ys) = sent_bytes xs @ sent_bytes ys"
  by (simp_all add: sent_bytes_def)

lemma sent_bytes_wire: "sent_bytes (map (\<lambda>q. Send (the (encode_rtmp n q))) qs) = wire n qs"
  by (induction qs) simp_all

abbreviation command_msg :: "32 word \<Rightarrow> bytes \<Rightarrow> nat \<times> rtmp_message" where
  "command_msg msid p \<equiv> (3, \<lparr>rm_msg_type = 0x14, rm_timestamp = 0, rm_msg_stream_id = msid, rm_payload = p\<rparr>)"

abbreviation protocol_msg :: "byte \<Rightarrow> bytes \<Rightarrow> nat \<times> rtmp_message" where
  "protocol_msg t p \<equiv> (2, \<lparr>rm_msg_type = t, rm_timestamp = 0, rm_msg_stream_id = 0, rm_payload = p\<rparr>)"

text \<open>A session between \<open>connect\<close> and \<open>createStream\<close>, with the fields the dialogue depends on.\<close>

definition server_at :: "32 word \<Rightarrow> rtmp_connection \<Rightarrow> bool" where
  "server_at sid c \<longleftrightarrow> all_idle (cn_chunk_states c) \<and> rs_chunk_size (cn_session c) = 4096 \<and>
     rs_server_stream_id (cn_session c) = sid \<and> \<not> cn_play_abort c"

lemma connect_arg_keeps:
  "rs_chunk_size (foldl connect_arg s args) = rs_chunk_size s \<and>
   rs_server_stream_id (foldl connect_arg s args) = rs_server_stream_id s \<and>
   rs_transaction_id (foldl connect_arg s args) = rs_transaction_id s"
  by (induction args arbitrary: s) (auto simp: connect_arg_def split: option.splits)

definition result_payload :: bytes where
  "result_payload = build_result_response (f64_of_u32 1) ''Connect''"

lemma top_ok_simps [simp]:
  "top_ok (AString s) \<longleftrightarrow> length s < 65536 \<and> utf8_valid s"
  "top_ok ANull" "top_ok (Object fs) \<longleftrightarrow> amf_ok (Object fs)"
  by (simp_all add: top_ok_def)

lemma top_ok_numbers [simp]:
  "top_ok (Number (f64_of_u32 1))" "top_ok (Number (f64_of_u32 2))" "top_ok (Number (f64_of_u32 3))"
  "top_ok (Number 0)" "top_ok (Number 0xC09F400000000000)"
  by (simp_all add: top_ok_def f64_of_u32_def top_bit.simps be64_bytes_def Let_def)

lemma near_numbers [simp]: "near (f64_of_u32 1) (f64_of_u32 1)" "near (f64_of_u32 2) (f64_of_u32 2)"
  by (simp_all add: near_def f64_exponent_def f64_of_u32_def top_bit.simps)

text \<open>Text of ASCII characters is valid UTF-8.\<close>

lemma plain_ascii_valid [simp]:
  assumes "list_all (\<lambda>c. of_char c < (128 :: nat)) s"
  shows "utf8_valid (ascii s)"
proof (rule utf8_valid_ascii, rule ballI)
  fix b assume "b \<in> set (ascii s)"
  then obtain c where "c \<in> set s" "b = word_of_nat (of_char c)" by (auto simp: ascii_def)
  with assms show "unat b < 128" by (auto simp: list_all_iff unat_of_nat)
qed

definition plain_text :: "string \<Rightarrow> bool" where
  "plain_text s \<longleftrightarrow> length s < 65536 \<and> list_all (\<lambda>c. of_char c < (128 :: nat)) s"

lemma length_encode: "length (encode vs) = sum_list (map (\<lambda>v. length (encode_value v)) vs)"
  by (simp add: encode_def length_concat comp_def)

lemma ascii_Nil_iff [simp]: "ascii s = [] \<longleftrightarrow> s = []"
  by (simp add: ascii_def)

section \<open>The dialogue\<close>

definition connect_replies :: "(nat \<times> rtmp_message) list" where
  "connect_replies =
     [protocol_msg 0x05 (be32_bytes 2500000), protocol_msg 0x06 (be32_bytes 2500000 @ [2]),
      protocol_msg 0x01 (be32_bytes 4096)]"

lemma server_connects:
  assumes "server_at sid c" and "rs_transaction_id (cn_session c) = f64_of_u32 1"
    and "plain_text app" and "plain_text tc"
  shows "\<exists>c' e. drain_messages (\<lambda>_. True) k 128 c m (build_connect_command (f64_of_u32 1) app tc) None =
       ((Running, c', m, e), [], None) \<and> server_at sid c' \<and>
     sent_bytes e = wire 128 connect_replies @ wire 4096 [command_msg 0 result_payload]"
proof -
  define args where "args = tl (connect_values (f64_of_u32 1) app tc)"
  have ok: "\<forall>v\<in>set (AString (ascii ''connect'') # args). top_ok v"
    using assms(3,4) by (simp add: args_def connect_values_def plain_text_def)
  have eq: "connect_values (f64_of_u32 1) app tc = AString (ascii ''connect'') # args"
    by (simp add: args_def connect_values_def)
  have len: "length (encode (AString (ascii ''connect'') # args)) < 16777216"
    using assms(3,4) by (simp add: args_def length_encode connect_values_def plain_text_def encode_object_properties_def)
  obtain as hs where r: "all_idle as"
    "drain_messages (\<lambda>_. True) k 128 c m (build_connect_command (f64_of_u32 1) app tc) None =
     (case handle_amf0_command True (c\<lparr>cn_chunk_states := as, cn_message_headers := hs\<rparr>) m (ascii ''connect'')
        (map canon args) of
        (Running, c', m', effs) \<Rightarrow> ((Running, c', m', effs), [], None)
      | failed \<Rightarrow> (failed, [], None))"
    using server_receives [OF _ ok len, of c "\<lambda>_. True" k m 0] assms(1)
    by (auto simp: build_connect_command_def eq server_at_def)
  obtain s app' where h: "handle_connect (cn_session c) (map canon args) = (s, app')" by fastforce
  have s: "rs_chunk_size s = 4096" "rs_server_stream_id s = sid" "rs_transaction_id s = f64_of_u32 1"
    using h assms(1,2) connect_arg_keeps [of "cn_session c" "map canon args"]
    by (auto simp: handle_connect_def Let_def server_at_def)
  let ?c = "c\<lparr>cn_chunk_states := as, cn_message_headers := hs\<rparr>"
  let ?c' = "?c\<lparr>cn_session := s, cn_stream_id := app'\<rparr>"
  let ?bs = "[encode_window_ack_size 2500000, encode_set_peer_bandwidth 2500000 2,
      encode_set_chunk_size (word_of_nat 4096), command_message ?c' 0 result_payload]"
  have bs: "?bs = map (encode_rtmp 128) connect_replies @ [encode_rtmp 4096 (command_msg 0 result_payload)]"
    using s(1)
    by (simp add: connect_replies_def encode_rtmp_def encode_window_ack_size_def encode_set_peer_bandwidth_def
        encode_set_chunk_size_def command_message_def CSID_COMMAND_def)
  have some: "None \<notin> set ?bs"
    unfolding bs using encode_rtmp_returns [of 128 connect_replies]
      encode_rtmp_returns [of 4096 "[command_msg 0 result_payload]"] by simp
  have "handle_amf0_command True ?c m (ascii ''connect'') (map canon args) =
      (Running, ?c', m, map (\<lambda>b. Send (the b)) ?bs)"
    using h s emit_sends [OF some, of ?c' m "[]"]
    by (simp add: handle_amf0_command_def run_connect_def result_payload_def Let_def)
  moreover have "sent_bytes (map (\<lambda>b. Send (the b)) ?bs) =
      wire 128 connect_replies @ wire 4096 [command_msg 0 result_payload]"
    unfolding bs by (simp add: connect_replies_def)
  moreover have "server_at sid ?c'" using s r(1) assms(1) by (simp add: server_at_def)
  ultimately show ?thesis using r(2) by auto
qed

definition created_payload :: bytes where
  "created_payload = encode [AString (ascii ''_result''), Number (f64_of_u32 2), ANull, Number (f64_of_u32 1)]"

lemma server_creates_stream:
  assumes "server_at 0 c"
  shows "\<exists>c' e. drain_messages (\<lambda>_. True) k 128 c m (build_create_stream_command (f64_of_u32 2)) None =
       ((Running, c', m, e), [], None) \<and> server_at 1 c' \<and>
     sent_bytes e = wire 4096 [command_msg 0 created_payload]"
proof -
  let ?args = "[Number (f64_of_u32 2), ANull]"
  have ok: "\<forall>v\<in>set (AString (ascii ''createStream'') # ?args). top_ok v" by simp
  have len: "length (encode (AString (ascii ''createStream'') # ?args)) < 16777216"
    by (simp add: length_encode)
  obtain as hs where r: "all_idle as"
    "drain_messages (\<lambda>_. True) k 128 c m (build_create_stream_command (f64_of_u32 2)) None =
     (case handle_amf0_command True (c\<lparr>cn_chunk_states := as, cn_message_headers := hs\<rparr>) m
        (ascii ''createStream'') ?args of
        (Running, c', m', effs) \<Rightarrow> ((Running, c', m', effs), [], None)
      | failed \<Rightarrow> (failed, [], None))"
    using server_receives [OF _ ok len, of c "\<lambda>_. True" k m 0] assms
    by (auto simp: build_create_stream_command_def create_stream_values_def server_at_def)
  let ?c = "c\<lparr>cn_chunk_states := as, cn_message_headers := hs\<rparr>"
  let ?s = "(cn_session c)\<lparr>rs_server_stream_id := 1, rs_state := Ready, rs_transaction_id := f64_of_u32 2\<rparr>"
  let ?c' = "?c\<lparr>cn_session := ?s\<rparr>"
  have enc: "[command_message ?c' 0 created_payload] = map (encode_rtmp 4096) [command_msg 0 created_payload]"
    using assms by (simp add: server_at_def encode_rtmp_def command_message_def CSID_COMMAND_def)
  have "handle_amf0_command True ?c m (ascii ''createStream'') ?args =
      emit True [command_message ?c' 0 created_payload] ?c' m []"
    using assms
    by (simp add: handle_amf0_command_def run_create_stream_def handle_create_stream_def server_at_def
        created_payload_def Let_def)
  also have "\<dots> = (Running, ?c', m, [Send (the (encode_rtmp 4096 (command_msg 0 created_payload)))])"
    unfolding enc using encode_rtmp_returns [of 4096 "[command_msg 0 created_payload]"]
    by (subst emit_sends) simp_all
  finally have run: "handle_amf0_command True ?c m (ascii ''createStream'') ?args =
      (Running, ?c', m, [Send (the (encode_rtmp 4096 (command_msg 0 created_payload)))])" .
  have "server_at 1 ?c'" using r(1) assms by (simp add: server_at_def)
  with r(2) run show ?thesis by simp
qed

text \<open>The messages behind \<open>NetStream.Play.Start\<close>.\<close>

definition play_tail :: "stream \<Rightarrow> (nat \<times> rtmp_message) list" where
  "play_tail st =
     (case (st_sps st, st_pps st) of
        (Some sps, Some pps) \<Rightarrow>
          [(CSID_VIDEO, \<lparr>rm_msg_type = 0x09, rm_timestamp = 0, rm_msg_stream_id = 1,
             rm_payload = build_avc_sequence_header sps pps\<rparr>)]
      | _ \<Rightarrow> []) @
     (if stream_has_codec st AAC then
        [(CSID_AUDIO, \<lparr>rm_msg_type = 0x08, rm_timestamp = 0, rm_msg_stream_id = 1,
           rm_payload = build_aac_sequence_header\<rparr>)]
      else []) @
     [protocol_msg 0x04 (build_user_control_stream_begin 1),
      protocol_msg 0x04 (build_user_control_set_buffer_length 1 100)]"

definition started_payload :: bytes where
  "started_payload = build_on_status ''NetStream.Play.Start'' ''Play started.'' ''status''"

lemma play_response_messages:
  assumes "server_at 1 c"
  shows "play_response c st = map (encode_rtmp 4096) (command_msg 1 started_payload # play_tail st)"
  using assms
  by (simp add: play_response_def play_tail_def server_at_def encode_rtmp_def status_message_def
      command_message_def started_payload_def CSID_COMMAND_def CSID_PROTOCOL_def Let_def split: option.split)

lemma server_plays:
  assumes "server_at 1 c" and "plain_text name" and "name \<noteq> []"
    and "get_stream m name = Some st" and "st_status st = stream_status.Publishing"
  shows "\<exists>c' e. drain_messages (\<lambda>_. True) k 128 c m (build_play_command (f64_of_u32 3) name 1) None =
       ((Running, c', m, e), [], None) \<and>
     sent_bytes e = wire 4096 (command_msg 1 started_payload # play_tail st)"
proof -
  let ?args = "[Number (f64_of_u32 3), ANull, AString (ascii name), Number 0xC09F400000000000]"
  have ok: "\<forall>v\<in>set (AString (ascii ''play'') # ?args). top_ok v"
    using assms(2) by (simp add: plain_text_def)
  have len: "length (encode (AString (ascii ''play'') # ?args)) < 16777216"
    using assms(2) by (simp add: length_encode plain_text_def)
  obtain as hs where r: "all_idle as"
    "drain_messages (\<lambda>_. True) k 128 c m (build_play_command (f64_of_u32 3) name 1) None =
     (case handle_amf0_command True (c\<lparr>cn_chunk_states := as, cn_message_headers := hs\<rparr>) m (ascii ''play'') ?args of
        (Running, c', m', effs) \<Rightarrow> ((Running, c', m', effs), [], None)
      | failed \<Rightarrow> (failed, [], None))"
    using server_receives [OF _ ok len, of c "\<lambda>_. True" k m 1] assms(1)
    by (auto simp: build_play_command_def play_values_def server_at_def)
  let ?c = "c\<lparr>cn_chunk_states := as, cn_message_headers := hs\<rparr>"
  let ?s = "(cn_session c)\<lparr>rs_stream_name := name, rs_mode := Play, rs_state := Playing\<rparr>"
  let ?c2 = "?c\<lparr>cn_session := ?s, cn_stream_id := name, cn_play_abort := False\<rparr>"
  have h: "handle_play (cn_session c) ?args = (?s, name)"
    using assms(3) by (simp add: handle_play_def Let_def)
  have "get_hub m name \<noteq> None" using assms(4) by (auto simp: get_stream_def)
  then obtain rd where sub: "dispatch_subscribe m name LiveCoalesce = Some rd"
    by (auto simp: dispatch_subscribe_def get_or_create_hub_def)
  have at: "server_at 1 ?c2" using r(1) assms(1) by (simp add: server_at_def)
  have some: "None \<notin> set (play_response ?c2 st)"
    unfolding play_response_messages [OF at]
    using encode_rtmp_returns [of 4096 "command_msg 1 started_payload # play_tail st"] by simp
  have abort: "\<not> cn_play_abort ?c" using assms(1) by (simp add: server_at_def)
  have "handle_amf0_command True ?c m (ascii ''play'') ?args =
      (Running, ?c2\<lparr>cn_play_abort := True\<rparr>, m,
       Request_keyframe name # map (\<lambda>b. Send (the b)) (play_response ?c2 st) @ [Start_play (new_play_task ?c2 name rd)])"
    using h sub assms(4,5) emit_sends [OF some, of ?c2 m "[Request_keyframe name]"] abort
    by (simp add: handle_amf0_command_def run_play_def Let_def)
  moreover have "sent_bytes (map (\<lambda>b. Send (the b)) (play_response ?c2 st)) =
      wire 4096 (command_msg 1 started_payload # play_tail st)"
    unfolding play_response_messages [OF at] map_map comp_def sent_bytes_wire ..
  ultimately show ?thesis using r(2) by simp
qed

lemma wire_nonempty: "0 < n \<Longrightarrow> message_fits q \<Longrightarrow> the (encode_rtmp n q) \<noteq> []"
  by (simp add: encode_rtmp_def message_fits_def encode_message_form encode_type0_header_def)

lemma result_parses:
  "parse_command result_payload =
     Inr (ascii ''_result'', map canon (tl
       [AString (ascii ''_result''), Number (f64_of_u32 1),
        Object
          [(ascii ''fmsVer'', AString (ascii ''FMS/3.0.1.123'')),
           (ascii ''capabilities'', Number (f64_of_u32 31)),
           (ascii ''objectEncoding'', Number 0)],
        Object
          [(ascii ''level'', AString (ascii ''status'')),
           (ascii ''code'', AString (ascii ''NetConnection.Connect.Success'')),
           (ascii ''description'', AString (ascii ''Connect succeeded.'')),
           (ascii ''data'', Object [])]]))"
  unfolding result_payload_def build_result_response_def
  by (subst parse_encoded_command) (simp_all add: ascii_inject)

lemma created_parses:
  "parse_command created_payload = Inr (ascii ''_result'', [Number (f64_of_u32 2), ANull, Number (f64_of_u32 1)])"
  unfolding created_payload_def by (subst parse_encoded_command) simp_all

lemma started_parses:
  "parse_command started_payload =
     Inr (ascii ''onStatus'',
       [Number 0, ANull,
        Object [(ascii ''level'', AString (ascii ''status'')),
          (ascii ''code'', AString (ascii ''NetStream.Play.Start'')),
          (ascii ''description'', AString (ascii ''Play started.''))]])"
  unfolding started_payload_def build_on_status_def by (subst parse_encoded_command) simp_all

lemma payloads_fit:
  "message_fits (command_msg i result_payload)" "message_fits (command_msg i created_payload)"
  "message_fits (command_msg i started_payload)"
  by (simp_all add: message_fits_def result_payload_def created_payload_def started_payload_def
      build_result_response_def build_on_status_def length_encode) (simp_all add: encode_def)

lemma puller_connects:
  assumes "reader_at 128 [] r"
  shows "\<exists>r'. wait_for_result (f64_of_u32 1) ''connect''
       (Some (wire 128 connect_replies @ wire 4096 [command_msg 0 result_payload]) # rest) r m =
       (Inr (), rest, r', m) \<and> reader_at 4096 [] r'"
proof -
  let ?q1 = "protocol_msg 0x05 (be32_bytes 2500000)" and ?q2 = "protocol_msg 0x06 (be32_bytes 2500000 @ [2])"
  let ?q3 = "protocol_msg 0x01 (be32_bytes 4096)" and ?q4 = "command_msg 0 result_payload"
  let ?b4 = "the (encode_rtmp 4096 ?q4)" and ?judge = "result_verdict (f64_of_u32 1) ''connect''"
  let ?bs = "wire 128 connect_replies @ wire 4096 [?q4]"
  have fits: "message_fits ?q1" "message_fits ?q2" "message_fits ?q3"
    by (simp_all add: message_fits_def be32_bytes_def)
  have at0: "reader_at 128 (the (encode_rtmp 128 ?q1) @ the (encode_rtmp 128 ?q2) @ the (encode_rtmp 128 ?q3) @ ?b4)
      (feed r ?bs)"
    using reader_feed [OF assms, of ?bs] by (simp add: connect_replies_def)
  obtain r1 where r1: "next_message (feed r ?bs) = (r1, Some (snd ?q1))"
    "reader_at 128 (the (encode_rtmp 128 ?q2) @ the (encode_rtmp 128 ?q3) @ ?b4) r1"
    using next_message_encoded [OF _ fits(1) at0] by auto
  obtain r2 where r2: "next_message r1 = (r2, Some (snd ?q2))"
    "reader_at 128 (the (encode_rtmp 128 ?q3) @ ?b4) r2"
    using next_message_encoded [OF _ fits(2) r1(2)] by auto
  have size: "size_after 128 (snd ?q3) = 4096"
    by (simp add: size_after_def handle_control_message_def be32_bytes_def be32_def)
  obtain r3 where r3: "next_message r2 = (r3, Some (snd ?q3))" "reader_at 4096 ?b4 r3"
    using next_message_encoded [OF _ fits(3) r2(2)] size by auto
  obtain r4 where r4: "next_message r3 = (r4, Some (snd ?q4))" "reader_at 4096 [] r4"
    using next_message_encoded [OF _ payloads_fit(1), of 4096 0 "[]" r3] r3(2) by auto
  have go: "?judge (snd ?q1) = Go_on" "?judge (snd ?q2) = Go_on" "?judge (snd ?q3) = Go_on"
    by (simp_all add: result_verdict_def command_of_def)
  have found: "?judge (snd ?q4) = Found ()"
    by (simp add: result_verdict_def command_of_def result_parses first_number_def)
  have "drain_until ?judge (\<lambda>_ m. m) (feed r ?bs) m = (r4, m, Found ())"
    using drain_until_skip [OF r1(1), of ?judge "\<lambda>_ m. m" m] drain_until_skip [OF r2(1), of ?judge "\<lambda>_ m. m" m]
      drain_until_skip [OF r3(1), of ?judge "\<lambda>_ m. m" m] drain_until_found [OF r4(1), of ?judge "()" "\<lambda>_ m. m" m]
      go found
    by simp
  moreover have "?bs \<noteq> []" using wire_nonempty [OF _ fits(1), of 128] by (simp add: connect_replies_def)
  ultimately show ?thesis
    using await_one_read [OF assms, of ?bs ?judge "\<lambda>_ m. m" m r4 m "()" WAIT_ROUNDS] r4(2)
    by (auto simp: wait_for_result_def WAIT_ROUNDS_def)
qed

text \<open>A wait whose decision is the first message of the read.\<close>

lemma await_first:
  assumes "reader_at 4096 [] r" and "message_fits q" and "rm_msg_type (snd q) \<noteq> 0x01"
    and "judge (snd q) = Found x"
  shows "\<exists>r'. await WAIT_ROUNDS late phase judge store (Some (wire 4096 (q # qs)) # rest) r m =
       (Inr x, rest, r', store (snd q) m) \<and> reader_at 4096 (wire 4096 qs) r'"
proof -
  let ?bs = "wire 4096 (q # qs)"
  have at0: "reader_at 4096 (the (encode_rtmp 4096 q) @ wire 4096 qs) (feed r ?bs)"
    using reader_feed [OF assms(1), of ?bs] by simp
  obtain r1 where r1: "next_message (feed r ?bs) = (r1, Some (snd q))" "reader_at 4096 (wire 4096 qs) r1"
    using next_message_encoded [OF _ assms(2) at0] assms(3) by auto
  have "?bs \<noteq> []" using wire_nonempty [OF _ assms(2), of 4096] by simp
  then show ?thesis
    using await_one_read [OF assms(1) _ drain_until_found [OF r1(1), of judge x store m], of WAIT_ROUNDS late phase rest]
      assms(4) r1(2)
    by (auto simp: WAIT_ROUNDS_def)
qed

lemma puller_creates:
  assumes "reader_at 4096 [] r"
  shows "\<exists>r'. wait_for_create_stream (f64_of_u32 2) (Some (wire 4096 [command_msg 0 created_payload]) # rest) r m =
       (Inr (f64_of_u32 1), rest, r', m) \<and> reader_at 4096 [] r'"
  using await_first [OF assms payloads_fit(2) [of 0], of "create_verdict (f64_of_u32 2)" "f64_of_u32 1"
      _ "''createStream''" "\<lambda>_ m. m" "[]" rest m]
  by (simp add: wait_for_create_stream_def create_verdict_def command_of_def created_parses first_number_def
      third_number_def)

lemma puller_plays:
  assumes "reader_at 4096 [] r"
  shows "\<exists>r'. wait_for_play_start sid (Some (wire 4096 (command_msg 1 started_payload # qs)) # rest) r m =
       (Inr (), rest, r', m) \<and> reader_at 4096 (wire 4096 qs) r'"
proof -
  have "play_verdict (snd (command_msg 1 started_payload)) = Found ()"
    by (simp add: play_verdict_def command_of_def started_parses status_code_def)
  with await_first [OF assms payloads_fit(3) [of 1], of play_verdict "()" _ "''play start''" "store_config sid" qs rest m]
  show ?thesis by (simp add: wait_for_play_start_def store_config_def)
qed

text \<open>What the puller keeps of the codec configuration a player is sent.\<close>

definition mirror_config :: "stream \<Rightarrow> stream_id \<Rightarrow> stream_manager \<Rightarrow> stream_manager" where
  "mirror_config st sid m =
     (case (st_sps st, st_pps st) of
        (Some sps, Some pps) \<Rightarrow> if sps \<noteq> [] then set_stream_sps_pps m sid sps pps else m
      | _ \<Rightarrow> m)"

definition small_config :: "stream \<Rightarrow> bool" where
  "small_config st \<longleftrightarrow> (\<forall>b. st_sps st = Some b \<or> st_pps st = Some b \<longrightarrow> length b < 65536)"

lemma play_tail_plain:
  assumes "small_config st"
  shows "\<forall>q\<in>set (play_tail st). plain_message q"
proof -
  have avc: "length (build_avc_sequence_header sps pps) < 16777216 \<and> build_avc_sequence_header sps pps \<noteq> []"
    if "st_sps st = Some sps" "st_pps st = Some pps" for sps pps
  proof -
    have "length sps < 65536" "length pps < 65536" using assms that by (auto simp: small_config_def)
    then show ?thesis by (simp add: build_avc_sequence_header_def)
  qed
  then show ?thesis
    by (auto simp: play_tail_def plain_message_def message_fits_def build_aac_sequence_header_def
        build_user_control_stream_begin_def build_user_control_set_buffer_length_def be32_bytes_def
        CSID_AUDIO_def CSID_VIDEO_def split: option.split)
qed

lemma relay_avc_header:
  assumes "length sps < 65536" and "length pps < 65536"
  shows "relay_message sid
      \<lparr>rm_msg_type = 0x09, rm_timestamp = 0, rm_msg_stream_id = 1, rm_payload = build_avc_sequence_header sps pps\<rparr> m k =
    Inr (if sps \<noteq> [] then set_stream_sps_pps m sid sps pps else m, k)"
proof -
  let ?d = "build_avc_sequence_header sps pps"
  have len: "length ?d > 13" "length (drop 5 ?d) > 7" "?d ! 1 = 0x00"
    by (auto simp: build_avc_sequence_header_def)
  have "video_payload_to_frame ?d sid 0 = Some None" using len by (simp add: video_payload_to_frame_def)
  moreover have "extract_and_store_sps_pps ?d m sid = (if sps \<noteq> [] then set_stream_sps_pps m sid sps pps else m)"
    using len parse_avc_config_header [OF assms]
    unfolding extract_and_store_sps_pps_def Let_def by simp
  ultimately show ?thesis by (simp add: relay_message_def rtmp_message_to_frame_def store_config_def)
qed

lemma relay_play_tail:
  assumes "small_config st"
  shows "relay_all sid (map snd (play_tail st)) m k = Inr (mirror_config st sid m, k)"
proof -
  have aac: "audio_payload_to_frame build_aac_sequence_header sid 0 = None"
    by (simp add: audio_payload_to_frame_def build_aac_sequence_header_def)
  have rest: "relay_message sid
      \<lparr>rm_msg_type = 0x08, rm_timestamp = 0, rm_msg_stream_id = 1, rm_payload = build_aac_sequence_header\<rparr> m k = Inr (m, k)"
    "relay_message sid \<lparr>rm_msg_type = 0x04, rm_timestamp = 0, rm_msg_stream_id = 0, rm_payload = p\<rparr> m k = Inr (m, k)"
    for m p
    using aac by (simp_all add: relay_message_def rtmp_message_to_frame_def store_config_def)
  from rest have tail: "relay_all sid (map snd
      ((if stream_has_codec st AAC then
        [(CSID_AUDIO, \<lparr>rm_msg_type = 0x08, rm_timestamp = 0, rm_msg_stream_id = 1,
           rm_payload = build_aac_sequence_header\<rparr>)] else []) @
     [protocol_msg 0x04 (build_user_control_stream_begin 1),
      protocol_msg 0x04 (build_user_control_set_buffer_length 1 100)])) m k = Inr (m, k)" for m
    by simp
  show ?thesis
    using tail relay_avc_header assms
    unfolding play_tail_def mirror_config_def map_append relay_all_append small_config_def
    by (auto split: option.split)
qed

lemma puller_relays:
  assumes "small_config st" and "\<forall>q\<in>set qs. relayable (snd q)" and "qs \<noteq> []"
    and "publish_all (mirror_config st sid m) (map (relay_frame sid) qs) = Some m'"
    and "reader_at 4096 (wire 4096 (play_tail st)) r"
  shows "\<exists>r'. relay_loop sid [Some (wire 4096 (map (\<lambda>q. (CSID_VIDEO, video_message msid q)) qs)), Some []] r m 0 =
     (Pull_done, r', m', length qs)"
proof -
  let ?vs = "map (\<lambda>q. (CSID_VIDEO, video_message msid q)) qs" and ?ms = "play_tail st"
  have plain: "\<forall>q\<in>set (?ms @ ?vs). plain_message q"
    using play_tail_plain [OF assms(1)] video_message_plain assms(2) by auto
  have "relay_all sid (map snd (?ms @ ?vs)) m 0 = Inr (m', 0 + length qs)"
    using relay_play_tail [OF assms(1)] relay_all_videos [OF assms(2,4)]
    unfolding map_append relay_all_append by (simp add: comp_def)
  from relay_messages_wire [OF _ plain _ this, of 4096 "feed r (wire 4096 ?vs)"] reader_feed [OF assms(5), of "wire 4096 ?vs"]
  obtain r' where "relay_messages sid (feed r (wire 4096 ?vs)) m 0 = (Inr (length qs), r', m')" by auto
  moreover have "wire 4096 ?vs \<noteq> []"
    using plain wire_nonempty [of 4096] assms(3) by (cases qs) (auto simp: plain_message_def)
  ultimately show ?thesis by simp
qed

text \<open>The handshake: C2 is only taken up once the first command has come.\<close>

lemma server_greets:
  "\<exists>s e. loop_step (\<lambda>_. True) (Read_bytes client_hello) (loop_start hls peer) m = (Loop, s, m, e) \<and>
     sent_bytes e = 0x03 # replicate 3072 0x00 \<and> lp_conn s = connection_new hls peer \<and> lp_buf s = [] \<and>
     lp_chunk_size s = 128 \<and> \<not> lp_handshake_done s \<and> \<not> lp_first_call s"
  by (simp add: loop_step_def loop_start_def client_hello_def handle_handshake_def replicate_add [symmetric]
      flip: replicate_Suc)

lemma server_finishes_handshake:
  assumes "lp_buf s = []" and "\<not> lp_handshake_done s" and "\<not> lp_first_call s" and "length c2 = 1536" and "bs \<noteq> []"
  shows "loop_step wr (Read_bytes (c2 @ bs)) s m =
     process_messages wr
       (s\<lparr>lp_buf := bs, lp_handshake_done := True,
          lp_conn := (lp_conn s)\<lparr>cn_session := (cn_session (lp_conn s))\<lparr>rs_state := Connected\<rparr>\<rparr>\<rparr>) m []"
proof -
  from assms(4,5) have "c2 @ bs \<noteq> []" "\<not> length (c2 @ bs) < 1537" by (cases bs; simp)+
  with assms show ?thesis by (simp add: loop_step_def handle_handshake_def Let_def)
qed

lemma server_reads:
  assumes "drain_messages wr 1 (lp_chunk_size s) (lp_conn s) m (lp_buf s) None = ((Running, c', m', e), [], None)"
  shows "process_messages wr s m effs = (Loop, s\<lparr>lp_conn := c', lp_buf := []\<rparr>, m', effs @ e)"
  using assms by (simp add: process_messages_def)

section \<open>The puller as a client of the registry\<close>

text \<open>What a wait keeps of the registry is what its store keeps.\<close>

lemma drain_until_invariant:
  assumes "\<And>msg m. P m \<Longrightarrow> P (store msg m)" and "P m" and "drain_until judge store r m = (r', m', v)"
  shows "P m'"
  using assms
proof (induction judge store r m rule: drain_until.induct)
  case (1 judge store r m)
  obtain r1 x where n: "next_message r = (r1, x)" by fastforce
  show ?case
  proof (cases x)
    case None
    with "1.prems"(2,3) n show ?thesis by (subst (asm) drain_until.simps) simp
  next
    case (Some msg)
    have p: "P (store msg m)" using "1.prems"(1,2) .
    show ?thesis
    proof (cases "judge msg = Go_on")
      case True
      with "1.prems"(3) n Some have "drain_until judge store r1 (store msg m) = (r', m', v)"
        using drain_until_skip [of r r1 msg judge store m] by simp
      from "1.IH" [OF n [symmetric] Some True "1.prems"(1) p this] show ?thesis by blast
    next
      case False
      with "1.prems"(3) n Some have "m' = store msg m"
        by (subst (asm) drain_until.simps) (auto split: verdict.splits)
      with p show ?thesis by simp
    qed
  qed
qed

lemma await_invariant:
  assumes "\<And>msg m. P m \<Longrightarrow> P (store msg m)" and "P m"
    and "await k late phase judge store inputs r m = (e, rest, r', m')"
  shows "P m'"
  using assms(2,3)
proof (induction k arbitrary: inputs r m)
  case (Suc k)
  obtain r1 m1 v where d: "drain_until judge store r m = (r1, m1, v)" by (metis prod.exhaust)
  have one: "P m1" by (rule drain_until_invariant [OF assms(1) Suc.prems(1) d])
  show ?case
  proof (cases "m' = m1")
    case False
    then obtain bs inputs' where "await k late phase judge store inputs' (feed r1 bs) m1 = (e, rest, r', m')"
      using Suc.prems(2) d by (auto split: verdict.splits list.splits option.splits if_splits)
    from Suc.IH [OF one this] show ?thesis .
  qed (use one in simp)
qed simp

lemma frame_of_own_stream: "rtmp_message_to_frame msg sid = Some (Some f) \<Longrightarrow> mf_stream_id f = sid"
  by (auto simp: rtmp_message_to_frame_def video_payload_to_frame_def audio_payload_to_frame_def Let_def
      split: if_splits)

text \<open>
  A property of registries that the operations a pull calls on its stream keep. Every pull keeps it.
\<close>

locale pull_invariant =
  fixes P :: "stream_manager \<Rightarrow> bool" and sid :: stream_id
  assumes created: "P m \<Longrightarrow> P (fst (create_stream m sid source proto url))"
    and status: "P m \<Longrightarrow> set_status m sid st = Some m' \<Longrightarrow> P m'"
    and config: "P m \<Longrightarrow> P (set_stream_sps_pps m sid sps pps)"
    and published: "P m \<Longrightarrow> mf_stream_id f = sid \<Longrightarrow> publish_frame m f = Some m' \<Longrightarrow> P m'"
begin

lemma or_same_status: "P m \<Longrightarrow> P (or_same m (set_status m sid st))"
  using status by (auto split: option.split)

lemma store: "P m \<Longrightarrow> P (store_config sid msg m)"
  using config by (auto simp: store_config_def extract_and_store_sps_pps_def Let_def split: prod.split)

lemma relay_message: "relay_message sid msg m k = Inr (m', k') \<Longrightarrow> P m \<Longrightarrow> P m'"
  using store published [OF _ frame_of_own_stream] by (auto simp: relay_message_def split: option.splits)

lemma relay_messages: "relay_messages s r m k = (e, r', m') \<Longrightarrow> s = sid \<Longrightarrow> P m \<Longrightarrow> P m'"
proof (induction s r m k rule: relay_messages.induct)
  case (1 s r m k)
  obtain r1 x where n: "next_message r = (r1, x)" by fastforce
  show ?case
  proof (cases "m' = m")
    case False
    with "1.prems"(1) n obtain msg m1 k1 where x: "x = Some msg" "relay_message s msg m k = Inr (m1, k1)"
      "relay_messages s r1 m1 k1 = (e, r', m')"
      by (subst (asm) relay_messages.simps) (auto split: option.splits sum.splits)
    have "P m1" using relay_message x(2) "1.prems"(2,3) by blast
    then show ?thesis using "1.IH" [OF n [symmetric] x(1) x(2) refl x(3)] "1.prems"(2) by blast
  qed (use "1.prems" in simp)
qed

lemma relay_loop: "relay_loop sid inputs r m k = (e, r', m', k') \<Longrightarrow> P m \<Longrightarrow> P m'"
proof (induction inputs arbitrary: r m k)
  case (Cons i inputs)
  show ?case
  proof (cases "i = None \<or> i = Some []")
    case True
    with Cons.prems show ?thesis by auto
  next
    case False
    then obtain bs where i: "i = Some bs" "bs \<noteq> []" by auto
    obtain v r1 m1 where d: "relay_messages sid (feed r bs) m k = (v, r1, m1)" by (metis prod.exhaust)
    from relay_messages [OF d refl] Cons.prems(2) have "P m1" .
    with Cons.prems(1) d i Cons.IH show ?thesis by (cases v) auto
  qed
qed auto

lemma register: "P m \<Longrightarrow> P (pull_register m sid url)"
  unfolding pull_register_def Let_def set_unpublished_def set_publishing_def
  by (intro or_same_status created)

lemma play:
  assumes "pull_play wr u url sid n inputs r m = (e, m', sent)" and "P m"
  shows "P m'"
proof -
  let ?m1 = "pull_register m sid url"
  obtain x i r1 m2 where w: "wait_for_play_start sid inputs r ?m1 = (x, i, r1, m2)" by (metis prod.exhaust)
  obtain e3 r3 m3 k3 where l: "relay_loop sid i r1 m2 0 = (e3, r3, m3, k3)" by (metis prod.exhaust)
  have one: "P m2"
    using await_invariant [where P = P, OF store register [OF assms(2)] w [unfolded wait_for_play_start_def]] .
  have two: "P m3" using relay_loop [OF l one] .
  have three: "P (or_same m3 (set_stopped m3 sid))"
    unfolding set_stopped_def by (rule or_same_status [OF two])
  have "m' = ?m1 \<or> m' = m2 \<or> m' = m3 \<or> m' = or_same m3 (set_stopped m3 sid)"
    using assms(1) w l unfolding pull_play_def Let_def
    by (cases wr; cases x; cases e3) simp_all
  with register [OF assms(2), of url] one two three show ?thesis by metis
qed

lemma negotiate:
  assumes "pull_negotiate wr u url sid inputs m = (e, m', sent)" and "P m"
  shows "P m'"
proof -
  obtain x i1 r1 a where w1: "wait_for_result (f64_of_u32 1) ''connect'' inputs pull_reader_new m = (x, i1, r1, a)"
    by (metis prod.exhaust)
  obtain y i2 r2 b where w2: "wait_for_create_stream (f64_of_u32 2) i1 r1 a = (y, i2, r2, b)"
    by (metis prod.exhaust)
  obtain e3 d s3 where w3: "pull_play (wr 4) u url sid (f64_to_u32 (case y of Inr n \<Rightarrow> n | Inl _ \<Rightarrow> 0)) i2 r2 b = (e3, d, s3)"
    by (metis prod.exhaust)
  have a: "P a" using await_invariant [where P = P, OF _ assms(2) w1 [unfolded wait_for_result_def]] .
  have b: "P b" using await_invariant [where P = P, OF _ a w2 [unfolded wait_for_create_stream_def]] .
  have d: "P d" using play [OF w3 b] .
  have "m' = m \<or> m' = a \<or> m' = b \<or> m' = d"
    using assms(1) w1 w2 w3 unfolding pull_negotiate_def Let_def
    by (cases "wr 2"; cases "wr 3"; cases x; cases y) simp_all
  with assms(2) a b d show ?thesis by auto
qed

lemma pull:
  assumes "pull wr parsed connected response inputs url sid m = (e, m', sent)" and "P m"
  shows "P m'"
proof (cases "m' = m")
  case False
  obtain s x where h: "client_handshake (wr 0) response (wr 1) = (s, x)" by fastforce
  from False assms h obtain u where u: "parse_rtmp_url parsed = Inr u"
    unfolding pull_def by (cases "parse_rtmp_url parsed") simp_all
  obtain e1 m1 s1 where n: "pull_negotiate wr u url sid inputs m = (e1, m1, s1)" by (metis prod.exhaust)
  from False assms h u n have "m' = m1"
    unfolding pull_def by (cases connected; cases x) simp_all
  with negotiate [OF n assms(2)] show ?thesis by simp
qed (use assms(2) in simp)

end

interpretation pull_steps: pull_invariant "mgr_steps m0" sid
  by unfold_locales (auto intro: steps_then mgr_step.intros)

lemma publisher_create [simp]:
  "current_publisher (fst (create_stream m sid source proto url)) s = current_publisher m s"
  by (auto simp: create_stream_def current_publisher_def Let_def hub_with_stream_def split: option.split)

interpretation pull_slots: pull_invariant "\<lambda>m. \<forall>s. current_publisher m s = current_publisher m0 s" sid
  by unfold_locales (simp_all add: publisher_set_status publisher_publish)

interpretation pull_others: pull_invariant "\<lambda>m. \<forall>s. s \<noteq> sid \<longrightarrow> get_hub m s = get_hub m0 s" sid
  by unfold_locales
    (auto simp: create_stream_def set_status_def set_stream_sps_pps_def publish_frame_def get_or_create_hub_def
      Let_def split: option.splits)

section \<open>Properties\<close>

text \<open>
  A puller refines the registry: whatever the remote server sends and however the pull ends, the
  registry has only made steps of its own transition system.
\<close>

theorem rtmp_pull_refines_registry:
  assumes "mgr_reachable m" and "pull wr parsed connected response inputs url sid m = (e, m', sent)"
  shows "mgr_step\<^sup>*\<^sup>* m m' \<and> mgr_reachable m' \<and>
    (\<forall>sid h. get_hub m' sid = Some h \<longrightarrow> hub_stream_id h = sid \<and> hub_ok h)"
proof -
  have steps: "mgr_steps m m'" by (rule pull_steps.pull [OF assms(2)]) simp
  have r: "mgr_reachable m'" by (rule steps_reachable [OF steps assms(1)])
  with steps mgr_ok_get [OF reachable_ok [OF r]] show ?thesis by blast
qed

definition demo_url :: parsed_url where
  "demo_url = \<lparr>pu_scheme = ''rtmp'', pu_host = Some ''h'', pu_port = None, pu_path = ''//live/s1''\<rparr>"

lemma demo_url_parses:
  "parse_rtmp_url (Some demo_url) =
     Inr \<lparr>ru_host = ''h'', ru_port = 1935, ru_app = ''live'', ru_stream_name = ''s1'',
          ru_tc_url = ''rtmp://h:1935/live''\<rparr>"
proof -
  have "dec_str 1935 = ''1935''" by code_simp
  then show ?thesis by (simp add: parse_rtmp_url_def demo_url_def Let_def)
qed

theorem rtmp_pull_refines_registry_witness:
  "\<exists>m'. pull (\<lambda>_. True) (Some demo_url) True (Some (0x03 # replicate 3072 0x00)) [Some []] ''u'' ''l'' manager_new =
       (Pull_failed (Closed_waiting ''connect''), m',
        [client_hello, replicate 1536 0x00, build_connect_command (f64_of_u32 1) ''live'' ''rtmp://h:1935/live'']) \<and>
     mgr_step\<^sup>*\<^sup>* manager_new m' \<and> mgr_reachable m'"
proof -
  have new: "reader_at 128 [] pull_reader_new" by (simp add: reader_at_def pull_reader_new_def all_idle_def)
  have "wait_for_result tx ''connect'' [Some []] pull_reader_new manager_new =
      (Inl (Pull_failed (Closed_waiting ''connect'')), [], pull_reader_new, manager_new)" for tx
    unfolding wait_for_result_def WAIT_ROUNDS_def by (rule await_closed [OF new]) simp
  then have run: "pull (\<lambda>_. True) (Some demo_url) True (Some (0x03 # replicate 3072 0x00)) [Some []] ''u'' ''l'' manager_new =
      (Pull_failed (Closed_waiting ''connect''), manager_new,
        [client_hello, replicate 1536 0x00, build_connect_command (f64_of_u32 1) ''live'' ''rtmp://h:1935/live''])"
    by (simp add: pull_def demo_url_parses client_handshake_def pull_negotiate_def Let_def)
  with rtmp_pull_refines_registry [OF reach_new run] show ?thesis by simp
qed

text \<open>
  A client that pulls from a stream of this server. The server's connection reads what the client
  writes, in the pieces in which it writes them, the client reads what the server answers.
\<close>

lemma dialogue:
  assumes "plain_text app" and "plain_text tc" and "plain_text name" and "name \<noteq> []"
    and "get_stream ms name = Some st" and "st_status st = stream_status.Publishing"
  shows "\<exists>s0 s1 s2 s3 e0 e1 e2 e3.
     loop_step (\<lambda>_. True) (Read_bytes client_hello) (loop_start hls peer) ms = (Loop, s0, ms, e0) \<and>
     loop_step (\<lambda>_. True) (Read_bytes (replicate 1536 0 @ build_connect_command (f64_of_u32 1) app tc)) s0 ms =
       (Loop, s1, ms, e1) \<and>
     loop_step (\<lambda>_. True) (Read_bytes (build_create_stream_command (f64_of_u32 2))) s1 ms = (Loop, s2, ms, e2) \<and>
     loop_step (\<lambda>_. True) (Read_bytes (build_play_command (f64_of_u32 3) name 1)) s2 ms = (Loop, s3, ms, e3) \<and>
     sent_bytes e0 = 0x03 # replicate 3072 0x00 \<and>
     sent_bytes e1 = wire 128 connect_replies @ wire 4096 [command_msg 0 result_payload] \<and>
     sent_bytes e2 = wire 4096 [command_msg 0 created_payload] \<and>
     sent_bytes e3 = wire 4096 (command_msg 1 started_payload # play_tail st)"
proof -
  let ?T = "\<lambda>_ :: nat. True" and ?connect = "build_connect_command (f64_of_u32 1) app tc"
  let ?create = "build_create_stream_command (f64_of_u32 2)" and ?play = "build_play_command (f64_of_u32 3) name 1"
  obtain s0 e0 where g: "loop_step ?T (Read_bytes client_hello) (loop_start hls peer) ms = (Loop, s0, ms, e0)"
    "sent_bytes e0 = 0x03 # replicate 3072 0x00" "lp_conn s0 = connection_new hls peer" "lp_buf s0 = []"
    "lp_chunk_size s0 = 128" "\<not> lp_handshake_done s0" "\<not> lp_first_call s0"
    using server_greets [of hls peer ms] by blast
  have command: "client_command i (AString c # vs) \<noteq> []" for i c vs
    using encode_message_form [of 128 "encode (AString c # vs)"]
    by (simp add: client_command_def CLIENT_CHUNK_SIZE_def encode_type0_header_def encode_def)
  then have some: "?connect \<noteq> []" "?create \<noteq> []" "?play \<noteq> []"
    by (simp_all add: build_connect_command_def build_create_stream_command_def build_play_command_def
        connect_values_def create_stream_values_def play_values_def)
  let ?c0 = "(lp_conn s0)\<lparr>cn_session := (cn_session (lp_conn s0))\<lparr>rs_state := Connected\<rparr>\<rparr>"
  let ?t0 = "s0\<lparr>lp_buf := ?connect, lp_handshake_done := True, lp_conn := ?c0\<rparr>"
  have "server_at 0 ?c0" "rs_transaction_id (cn_session ?c0) = f64_of_u32 1"
    by (simp_all add: g(3) server_at_def connection_new_def session_new_def all_idle_def)
  from server_connects [OF this assms(1,2), of 1 ms] obtain c1 e1 where c1:
    "drain_messages ?T 1 128 ?c0 ms ?connect None = ((Running, c1, ms, e1), [], None)" "server_at 0 c1"
    "sent_bytes e1 = wire 128 connect_replies @ wire 4096 [command_msg 0 result_payload]" by blast
  let ?s1 = "?t0\<lparr>lp_conn := c1, lp_buf := []\<rparr>"
  have one: "loop_step ?T (Read_bytes (replicate 1536 0 @ ?connect)) s0 ms = (Loop, ?s1, ms, e1)"
    using server_finishes_handshake [OF g(4,6,7) _ some(1), of "replicate 1536 0" ?T ms]
      server_reads [of ?T ?t0 ms c1 ms e1 "[]"] c1(1) g(5) by simp
  from server_creates_stream [OF c1(2), of 1 ms] obtain c2 e2 where c2:
    "drain_messages ?T 1 128 c1 ms ?create None = ((Running, c2, ms, e2), [], None)" "server_at 1 c2"
    "sent_bytes e2 = wire 4096 [command_msg 0 created_payload]" by blast
  let ?s2 = "?s1\<lparr>lp_conn := c2, lp_buf := []\<rparr>"
  have two: "loop_step ?T (Read_bytes ?create) ?s1 ms = (Loop, ?s2, ms, e2)"
    using server_reads [of ?T "?s1\<lparr>lp_buf := ?create\<rparr>" ms c2 ms e2 "[]"] c2(1) g(5) some(2)
    by (simp add: loop_step_def)
  from server_plays [OF c2(2) assms(3-6), of 1] obtain c3 e3 where c3:
    "drain_messages ?T 1 128 c2 ms ?play None = ((Running, c3, ms, e3), [], None)"
    "sent_bytes e3 = wire 4096 (command_msg 1 started_payload # play_tail st)" by blast
  have "loop_step ?T (Read_bytes ?play) ?s2 ms = (Loop, ?s2\<lparr>lp_conn := c3, lp_buf := []\<rparr>, ms, e3)"
    using server_reads [of ?T "?s2\<lparr>lp_buf := ?play\<rparr>" ms c3 ms e3 "[]"] c3(1) g(5) some(3)
    by (simp add: loop_step_def)
  with g(1,2) one two c1(3) c2(3) c3(2) show ?thesis by blast
qed

lemma parsed_name: "parse_rtmp_url parsed = Inr u \<Longrightarrow> ru_stream_name u \<noteq> []"
proof -
  assume "parse_rtmp_url parsed = Inr u"
  then obtain parts where "ru_stream_name u = last parts" "length parts \<ge> 2" "\<forall>p\<in>set parts. p \<noteq> []"
    by (fastforce simp: parse_rtmp_url_def Let_def split: option.splits if_splits)
  then show ?thesis by (metis last_in_set list.size(3) not_numeral_le_zero)
qed


definition demo_remote :: stream_manager where
  "demo_remote = the (set_publishing (fst (create_stream manager_new ''s1'' stream_source_mode.Push RTMP None)) ''s1'')"


text \<open>
  A pull acts on its own stream only, and on no publisher's slot: whatever happens, every other
  stream of the registry is as before, and so is the owner of every slot. A stream that a publisher
  owns can still be pulled into: the slot does not keep the puller out.
\<close>

theorem rtmp_pull_touches_own_stream:
  "(let m' = fst (snd (pull wr parsed connected response inputs url sid m))
    in get_hub m' |` (- {sid}) = get_hub m |` (- {sid}) \<and> current_publisher m' = current_publisher m)"
proof -
  obtain e m' sent where p: "pull wr parsed connected response inputs url sid m = (e, m', sent)"
    by (metis prod.exhaust)
  have "get_hub m' s = get_hub m s" if "s \<noteq> sid" for s using pull_others.pull [OF p] that by blast
  moreover have "current_publisher m' s = current_publisher m s" for s using pull_slots.pull [OF p] by blast
  ultimately show ?thesis using p by (auto simp: restrict_map_def fun_eq_iff)
qed

lemma relay_messages_errors: "relay_messages sid r m k = (Inl e, r', m') \<Longrightarrow> e \<in> {Pull_panicked, Pull_hung}"
proof (induction sid r m k rule: relay_messages.induct)
  case (1 sid r m k)
  obtain r1 x where n: "next_message r = (r1, x)" by fastforce
  have first: "e1 \<in> {Pull_panicked, Pull_hung}" if "relay_message sid msg m k = Inl e1" for msg e1
    using that by (auto simp: relay_message_def split: option.splits)
  from "1.prems" n have "\<exists>msg. x = Some msg \<and> (relay_message sid msg m k = Inl e \<or>
      (\<exists>m1 k1. relay_message sid msg m k = Inr (m1, k1) \<and> relay_messages sid r1 m1 k1 = (Inl e, r', m')))"
    by (subst (asm) relay_messages.simps) (auto split: option.splits sum.splits)
  then show ?case using first "1.IH" [OF n [symmetric]] by blast
qed

lemma relay_loop_ends: "fst (relay_loop sid inputs r m k) \<noteq> Pull_failed e"
proof (induction inputs arbitrary: r m k)
  case (Cons i inputs)
  then show ?case
    by (cases i) (auto split: prod.split sum.split dest: relay_messages_errors)
qed simp

text \<open>
  A pull that fails after the registration leaves its stream in state \<open>Publishing\<close>: a refused or
  closed \<open>play\<close> returns before \<open>set_stopped\<close>, so the stream is listed and offered to players although
  nothing feeds it.
\<close>

theorem failed_play_leaves_publishing:
  assumes "pull_play wr u url sid n inputs r m = (Pull_failed e, m', sent)"
  shows "\<exists>s. get_stream m' sid = Some s \<and> st_status s = stream_status.Publishing"
proof -
  let ?P = "\<lambda>m. \<exists>s. get_stream m sid = Some s \<and> st_status s = stream_status.Publishing"
  let ?m1 = "pull_register m sid url"
  have store: "?P (store_config sid msg m)" if "?P m" for msg m
    using that
    by (auto simp: store_config_def extract_and_store_sps_pps_def set_stream_sps_pps_def get_stream_def Let_def
        split: prod.split)
  have one: "?P ?m1"
    by (auto simp: pull_register_def create_stream_def set_publishing_def set_unpublished_def set_status_def
        get_stream_def Let_def split: option.split)
  obtain x i r1 m2 where w: "wait_for_play_start sid inputs r ?m1 = (x, i, r1, m2)" by (metis prod.exhaust)
  obtain e3 r3 m3 k3 where l: "relay_loop sid i r1 m2 0 = (e3, r3, m3, k3)" by (metis prod.exhaust)
  have two: "?P m2" by (rule await_invariant [where P = ?P, OF store one w [unfolded wait_for_play_start_def]])
  have "e3 \<noteq> Pull_failed e" using relay_loop_ends [of sid i r1 m2 0 e] l by simp
  then have "m' = ?m1 \<or> m' = m2"
    using assms w l unfolding pull_play_def Let_def
    by (cases wr; cases x; cases e3) simp_all
  with one two show ?thesis by auto
qed

theorem failed_play_leaves_publishing_witness:
  "\<exists>m' s. pull_play False \<lparr>ru_host = [], ru_port = 0, ru_app = [], ru_stream_name = ''s'', ru_tc_url = []\<rparr>
       ''u'' ''l'' 1 [] pull_reader_new manager_new = (Pull_failed Pull_io_error, m', []) \<and>
     get_stream m' ''l'' = Some s \<and> st_status s = stream_status.Publishing"
  using failed_play_leaves_publishing [of False "\<lparr>ru_host = [], ru_port = 0, ru_app = [], ru_stream_name = ''s'', ru_tc_url = []\<rparr>"
      "''u''" "''l''" 1 "[]" pull_reader_new manager_new Pull_io_error]
  by (simp add: pull_play_def Let_def)

text \<open>A remote server ends the puller's task with a video message of two to four bytes.\<close>

theorem pull_panics_iff:
  "relay_message sid msg m k = Inl Pull_panicked \<longleftrightarrow>
   rm_msg_type msg = 0x09 \<and> 2 \<le> length (rm_payload msg) \<and> length (rm_payload msg) < 5 \<and> rm_payload msg ! 1 = 0x01"
  by (auto simp: relay_message_def rtmp_message_to_frame_def video_payload_to_frame_def Let_def
      split: option.splits if_splits)

text \<open>Stream ids survive the trip through an AMF0 number.\<close>

lemma top_bit_bounds: "0 < n \<Longrightarrow> 2 ^ top_bit n \<le> n \<and> n < 2 ^ Suc (top_bit n)"
proof (induction n rule: top_bit.induct)
  case (1 n)
  show ?case
  proof (cases "n < 2")
    case True
    with 1 show ?thesis by (simp add: top_bit.simps)
  next
    case False
    with 1 have "2 ^ top_bit (n div 2) \<le> n div 2 \<and> n div 2 < 2 ^ Suc (top_bit (n div 2))" by simp
    moreover have "top_bit n = Suc (top_bit (n div 2))" using False by (subst top_bit.simps) simp
    ultimately show ?thesis by auto
  qed
qed

theorem stream_id_survives_f64:
  "f64_to_u32 (f64_of_u32 w) = w"
proof (cases "w = 0")
  case True
  then show ?thesis by (simp add: f64_of_u32_def f64_to_u32_def f64_exponent_def)
next
  case False
  define n e where "n = unat w" and "e = top_bit n"
  define x where "x = n * 2 ^ (52 - e)"
  define p :: nat where "p = (1023 + e) * 2 ^ 52 + (x - 2 ^ 52)"
  have n: "0 < n" "n < 2 ^ 32" using False unsigned_less [of w] by (auto simp: n_def unat_gt_0)
  note b = top_bit_bounds [OF n(1), folded e_def]
  have e: "e < 32"
  proof (rule ccontr)
    assume "\<not> e < 32"
    then have "(2 :: nat) ^ 32 \<le> 2 ^ e" by (intro power_increasing) simp_all
    with b n show False by simp
  qed
  have pow: "(2 :: nat) ^ e * 2 ^ (52 - e) = 2 ^ 52" using e by (simp flip: power_add)
  have x1: "2 ^ 52 \<le> x" using mult_le_mono1 [of "2 ^ e" n "2 ^ (52 - e)"] b pow by (simp add: x_def)
  have "n * 2 ^ (52 - e) < (2 * 2 ^ e) * 2 ^ (52 - e)" using b by (intro mult_strict_right_mono) simp_all
  then have x2: "x < 2 ^ 53" using pow by (simp add: x_def mult.assoc)
  have f: "x - 2 ^ 52 < 2 ^ 52" using x1 x2 by simp
  have p: "p div 2 ^ 52 = 1023 + e" "p mod 2 ^ 52 = x - 2 ^ 52" using f unfolding p_def by (simp_all only: div_mult_self3 mod_mult_self3 div_less mod_less)
  have small: "p < 2 ^ 63" using f e by (simp add: p_def)
  have w: "f64_of_u32 w = word_of_nat p"
    using n(1) by (simp add: f64_of_u32_def p_def x_def n_def e_def Let_def)
  have u: "unat (word_of_nat p :: 64 word) = p" using small by (simp add: unat_of_nat)
  have exp: "f64_exponent (f64_of_u32 w) = 1023 + e"
    using p(1) e small unfolding f64_exponent_def w unsigned_take_bit_eq unsigned_drop_bit_eq u
    by (simp add: drop_bit_eq_div take_bit_eq_mod)
  have frac: "f64_fraction (f64_of_u32 w) = x - 2 ^ 52"
    using p(2) unfolding f64_fraction_def w unsigned_take_bit_eq u by (simp add: take_bit_eq_mod)
  have sign: "\<not> bit (f64_of_u32 w) 63"
  proof -
    have "p div 2 ^ 63 = 0" using small by simp
    then have "\<not> bit p 63" unfolding bit_iff_odd by simp
    then have "\<not> bit (unat (word_of_nat p :: 64 word)) 63" unfolding u .
    then show ?thesis unfolding w bit_unsigned_iff by simp
  qed
  have "(2 ^ 52 + (x - 2 ^ 52)) div 2 ^ (1075 - (1023 + e)) = n"
    using x1 e by (simp add: x_def)
  then show ?thesis using exp frac sign e by (simp add: f64_to_u32_def n_def)
qed

end
