(* ===== verification/Rtsp_Pull.thy ===== *)
theory Rtsp_Pull
  imports Rtsp_Client Rtsp_Relay Rtmp_Pull
begin

text \<open>
  The guarantees of the RTSP client: it reads back what a server writes and numbers its requests; a pull
  from a server of this program goes through and mirrors the stream; it touches its own stream only.
\<close>

section \<open>Reading a response\<close>

lemma split_crlf_last: "CHR 0x0A \<notin> set l \<Longrightarrow> split_crlf l = [l]"
  by (induction l rule: split_crlf.induct) auto

lemma split_crlf_line: "CHR 0x0A \<notin> set l \<Longrightarrow> split_crlf (l @ crlf @ s) = l # split_crlf s"
proof (induction l rule: split_crlf.induct)
  case 1
  then show ?case by (simp add: crlf_def)
next
  case (2 c)
  then show ?case by (simp add: crlf_def)
next
  case (3 a b t)
  then show ?case by auto
qed

lemma split_crlf_lines:
  assumes "\<forall>l\<in>set ls. CHR 0x0A \<notin> set l" and "ls \<noteq> []"
  shows "split_crlf (take (length (unlines_crlf ls) - 2) (unlines_crlf ls)) = ls"
  using assms
proof (induction ls)
  case (Cons l ls)
  show ?case
  proof (cases "ls = []")
    case True
    with Cons.prems show ?thesis by (simp add: unlines_crlf_def crlf_def split_crlf_last)
  next
    case False
    then obtain m ms where m: "ls = m # ms" by (cases ls) auto
    then have two: "2 \<le> length (unlines_crlf ls)" by (simp add: unlines_crlf_def crlf_def)
    have cons: "unlines_crlf (l # ls) = l @ crlf @ unlines_crlf ls" by (simp add: unlines_crlf_def)
    have len: "length (unlines_crlf (l # ls)) - 2 = length (l @ crlf) + (length (unlines_crlf ls) - 2)"
      using two by (simp add: cons crlf_def)
    have "take (length (unlines_crlf (l # ls)) - 2) (unlines_crlf (l # ls)) =
        l @ crlf @ take (length (unlines_crlf ls) - 2) (unlines_crlf ls)"
      unfolding len by (simp add: cons)
    then show ?thesis using Cons.IH [OF _ False] Cons.prems(1) split_crlf_line [of l] by simp
  qed
qed simp

text \<open>The text of a message whose header lines announce its body, or that has no body.\<close>

definition framed :: "string list \<Rightarrow> string \<Rightarrow> bool" where
  "framed ls body \<longleftrightarrow> ls \<noteq> [] \<and> (\<forall>l\<in>set ls. l \<noteq> [] \<and> CHR 0x0A \<notin> set l) \<and>
     (headers_content_length ls None = Some (length body) \<or> headers_content_length ls None = None \<and> body = [])"

abbreviation framed_text :: "string list \<Rightarrow> string \<Rightarrow> string" where
  "framed_text ls body \<equiv> unlines_crlf ls @ crlf @ body"

definition reader_after :: "string list \<Rightarrow> string \<Rightarrow> response_reader" where
  "reader_after ls s =
     (if find_str (crlf @ crlf) s = None then \<lparr>rr_text = s, rr_content_length = None, rr_headers_complete = False\<rparr>
      else \<lparr>rr_text = s, rr_content_length = headers_content_length ls None, rr_headers_complete = True\<rparr>)"

lemma blank_line_of_prefix:
  assumes "framed ls body" and "framed_text ls body = s @ t" and "find_str (crlf @ crlf) s = Some pos"
  shows "pos = length (unlines_crlf ls) - 2" "take pos s = take pos (unlines_crlf ls)" "length (unlines_crlf ls) + 2 \<le> length s"
    "pos + 4 = length (unlines_crlf ls) + 2"
proof -
  have ls: "\<forall>l\<in>set ls. l \<noteq> [] \<and> CHR 0x0A \<notin> set l" "ls \<noteq> []" using assms(1) by (auto simp: framed_def)
  then have two: "2 \<le> length (unlines_crlf ls)" by (cases ls) (simp_all add: unlines_crlf_def crlf_def)
  from find_blank_line [OF ls, of body] find_str_append [OF assms(3), of t] assms(2)
  show pos: "pos = length (unlines_crlf ls) - 2" by simp
  with two show "pos + 4 = length (unlines_crlf ls) + 2" by simp
  with find_str_bound [OF assms(3)] show len: "length (unlines_crlf ls) + 2 \<le> length s" by (simp add: crlf_def)
  have "take pos (s @ t) = take pos (framed_text ls body)" by (simp only: assms(2))
  with len pos show "take pos s = take pos (unlines_crlf ls)" by simp
qed

lemma reader_after_take:
  assumes "framed ls body" and "framed_text ls body = (s @ text_of bs) @ t" and "utf8_lossy bs = bs"
  shows "response_take (reader_after ls s) bs = reader_after ls (s @ text_of bs)"
proof (cases "find_str (crlf @ crlf) s")
  case (Some pos)
  then show ?thesis using find_str_append [OF Some, of "text_of bs"] assms(3)
    by (simp add: response_take_def reader_after_def Let_def)
next
  case None
  show ?thesis
  proof (cases "find_str (crlf @ crlf) (s @ text_of bs)")
    case None
    with \<open>find_str (crlf @ crlf) s = None\<close> assms(3) show ?thesis
      by (simp add: response_take_def reader_after_def Let_def)
  next
    case (Some pos)
    have ls: "\<forall>l\<in>set ls. CHR 0x0A \<notin> set l" "ls \<noteq> []" using assms(1) by (auto simp: framed_def)
    from blank_line_of_prefix(1,2) [OF assms(1,2) Some] split_crlf_lines [OF ls]
    have "split_crlf (take pos (s @ text_of bs)) = ls" by simp
    with None Some assms(3) show ?thesis
      by (simp add: response_take_def reader_after_def Let_def del: take_append)
  qed
qed

lemma reader_after_complete:
  assumes "framed ls body" and "framed_text ls body = s @ t"
  shows "response_complete (reader_after ls s) \<longleftrightarrow> t = []"
proof (cases "find_str (crlf @ crlf) s")
  case None
  have "find_str (crlf @ crlf) (framed_text ls body) \<noteq> None"
    using find_blank_line [of ls body] assms(1) by (simp add: framed_def)
  with None assms(2) have "t \<noteq> []" by auto
  with None show ?thesis by (simp add: response_complete_def reader_after_def)
next
  case (Some pos)
  note b = blank_line_of_prefix [OF assms Some]
  have "length s + length t = length (unlines_crlf ls) + 2 + length body"
    using arg_cong [OF assms(2), of length] by (simp add: crlf_def)
  then have len: "t = [] \<longleftrightarrow> length body \<le> length s - (pos + 4)"
    using b(3,4) length_0_conv [of t] by linarith
  have suf: "suffix (crlf @ crlf) s" if "body = []" "t = []"
  proof -
    have "ls \<noteq> []" using assms(1) by (simp add: framed_def)
    then obtain ms l where "ls = ms @ [l]" by (metis append_butlast_last_id)
    then have "s = (unlines_crlf ms @ l) @ crlf @ crlf" using that assms(2) by (simp add: unlines_crlf_def)
    then show ?thesis by (metis suffixI)
  qed
  have "headers_content_length ls None = Some (length body) \<or> headers_content_length ls None = None \<and> body = []"
    using assms(1) by (simp add: framed_def)
  then show ?thesis
  proof
    assume "headers_content_length ls None = Some (length body)"
    with Some len show ?thesis by (simp add: response_complete_def reader_after_def)
  next
    assume h: "headers_content_length ls None = None \<and> body = []"
    with len have "t = []" by simp
    with h Some suf show ?thesis by (simp add: response_complete_def reader_after_def)
  qed
qed

lemma read_framed:
  assumes "framed ls body" and "framed_text ls body = s @ text_of (concat xs)" and "xs \<noteq> []" and "\<forall>x\<in>set xs. x \<noteq> [] \<and> utf8_lossy x = x"
  shows "read_response_from (reader_after ls s) (map Some xs @ rest) = (Client_ok (framed_text ls body), rest)"
  using assms(2-)
proof (induction xs arbitrary: s)
  case (Cons x xs)
  have x: "x \<noteq> []" "utf8_lossy x = x" using Cons.prems(3) by auto
  have eq: "framed_text ls body = (s @ text_of x) @ text_of (concat xs)"
    using Cons.prems(1) by (simp add: text_of_def)
  have got: "rr_text (reader_after ls s') = s'" for s' by (simp add: reader_after_def)
  show ?case
  proof (cases "xs = []")
    case True
    with eq reader_after_take [OF assms(1) eq x(2)] reader_after_complete [OF assms(1) eq] got x(1)
    show ?thesis by (simp add: text_of_def)
  next
    case False
    with Cons.prems(3) have "concat xs \<noteq> []" by (cases xs) auto
    then have "text_of (concat xs) \<noteq> []" by (simp add: text_of_def)
    with eq reader_after_take [OF assms(1) eq x(2)] reader_after_complete [OF assms(1) eq] x(1)
      Cons.IH [OF eq False] Cons.prems(3)
    show ?thesis by simp
  qed
qed simp

lemma reader_after_new: "response_reader_new = reader_after ls []"
  by (simp add: response_reader_new_def reader_after_def crlf_def)

text \<open>The responses this program writes are framed.\<close>

lemma headers_content_length_append:
  "headers_content_length (xs @ ys) n = headers_content_length ys (headers_content_length xs n)"
  by (induction xs arbitrary: n) auto

lemma headers_content_length_none:
  "\<forall>l\<in>set ls. \<not> prefix ''Content-Length:'' l \<Longrightarrow> headers_content_length ls n = n"
  by (induction ls) auto

lemma ascii_lossy: "\<forall>b\<in>set bs. unat b < 128 \<Longrightarrow> utf8_lossy bs = bs"
  by (rule utf8_lossy_valid, rule utf8_valid_ascii)

lemma content_length_line:
  assumes "n \<le> u64_max"
  shows "headers_content_length [''Content-Length: '' @ dec_str n] None = Some n"
proof -
  have "list_all (\<lambda>x. \<not> x = CHR '':'') ''Content-Length''" "list_all (\<lambda>x. \<not> x = CHR '':'') (CHR 0x20 # dec_str n)"
    using dec_str_digits [of n] by (auto simp: list_all_iff is_digit_def)
  from split_by_at [OF this(1) refl, of "CHR 0x20 # dec_str n"] split_by_none [OF this(2)]
  have "split_char (CHR '':'') (''Content-Length'' @ CHR '':'' # CHR 0x20 # dec_str n) =
      [''Content-Length'', CHR 0x20 # dec_str n]" by simp
  then have "split_colon_second (''Content-Length: '' @ dec_str n) = Some (CHR 0x20 # dec_str n)"
    by (simp add: split_colon_second_def)
  moreover have "trim (CHR 0x20 # dec_str n) = dec_str n" by (simp add: trim_space trim_trimmed trimmed_dec_str)
  ultimately show ?thesis using assms by simp
qed

lemma header_not_length:
  assumes "plain_header h" and "not_content_length h"
  shows "\<not> prefix ''Content-Length:'' (header_line h)"
proof
  obtain k v where h: "h = (k, v)" by fastforce
  assume "prefix ''Content-Length:'' (header_line h)"
  then obtain t where t: "k @ CHR '':'' # CHR 0x20 # v = ''Content-Length'' @ CHR '':'' # t"
    by (auto simp: header_line_def h prefix_def)
  have "CHR '':'' \<notin> set k" using assms(1) by (simp add: h plain_header_def)
  then have "split_once (CHR '':'') (k @ CHR '':'' # CHR 0x20 # v) = Some (k, CHR 0x20 # v)" by (rule split_once_at)
  moreover have "split_once (CHR '':'') (''Content-Length'' @ CHR '':'' # t) = Some (''Content-Length'', t)"
    by (rule split_once_at) simp
  ultimately have "k = ''Content-Length''" unfolding t by simp
  with assms(2) show False by (simp add: not_content_length_def h eq_ignore_ascii_case_def)
qed

definition response_lines :: "rtsp_response \<Rightarrow> string list" where
  "response_lines r =
     (rs_version r @ '' '' @ dec_str (rs_status_code r) @ '' '' @ rs_reason_phrase r) #
       map header_line (filter not_content_length (rs_headers r)) @ body_lines (rs_body r)"

lemma response_framed:
  assumes "response_ok r" and "rs_version r = ''RTSP/1.0''"
  shows "framed (response_lines r) (body_text (rs_body r))" "response_to_string r = framed_text (response_lines r) (body_text (rs_body r))"
    "headers_content_length (response_lines r) None = map_option length (rs_body r)"
proof -
  let ?first = "rs_version r @ '' '' @ dec_str (rs_status_code r) @ '' '' @ rs_reason_phrase r"
  let ?hs = "map header_line (filter not_content_length (rs_headers r))"
  obtain ws where ws: "\<forall>w\<in>set ws. is_word w" "rs_reason_phrase r = join_with '' '' ws"
    using assms(1) by (auto simp: response_ok_def spaced_def)
  have first: "CHR 0x0A \<notin> set ?first" "\<not> prefix ''Content-Length:'' ?first"
    using join_one_line [OF ws(1)] by (simp_all add: assms(2) ws(2))
  have hs: "\<forall>l\<in>set ?hs. l \<noteq> [] \<and> CHR 0x0A \<notin> set l \<and> \<not> prefix ''Content-Length:'' l"
    using assms(1) header_line_one_line header_not_length by (auto simp: response_ok_def)
  have "headers_content_length (?first # ?hs) None = None"
    by (rule headers_content_length_none) (use first hs in simp)
  then have "headers_content_length (response_lines r) None = headers_content_length (body_lines (rs_body r)) None"
    using headers_content_length_append [of "?first # ?hs" "body_lines (rs_body r)" None]
    by (simp only: response_lines_def append_Cons)
  also have "\<dots> = map_option length (rs_body r)"
  proof (cases "rs_body r")
    case (Some b)
    with assms(1) have "length b \<le> u64_max" by (simp add: response_ok_def)
    from content_length_line [OF this] Some show ?thesis by (simp add: body_lines_def)
  qed (simp add: body_lines_def)
  finally show "headers_content_length (response_lines r) None = map_option length (rs_body r)" .
  then show "framed (response_lines r) (body_text (rs_body r))"
    using first hs by (auto simp: framed_def response_lines_def body_text_def body_lines_def split: option.splits)
qed (simp add: response_to_string_def response_lines_def)

lemma client_reads:
  assumes "response_ok r" and "rs_version r = ''RTSP/1.0''" and "concat xs = ascii (response_to_string r)"
    and "\<forall>x\<in>set xs. x \<noteq> [] \<and> utf8_lossy x = x"
  shows "read_response (map Some xs @ rest) = (Client_ok (response_to_string r), rest)"
proof -
  note f = response_framed [OF assms(1,2)]
  have "xs \<noteq> []" using assms(3) f(2) by (auto simp: crlf_def ascii_def)
  from read_framed [OF f(1), of "[]" xs rest, OF _ this assms(4)] f(2) assms(3)
  show ?thesis by (simp add: read_response_def reader_after_new [symmetric])
qed

text \<open>
  A response and what follows it in the same read. Without a body the client only stops at a read whose
  text ends in a blank line.
\<close>

lemma lossy_ascii_append: "\<forall>b\<in>set a. unat b < 128 \<Longrightarrow> utf8_lossy (a @ y) = a @ utf8_lossy y"
proof (induction a)
  case (Cons b a)
  then have "utf8_piece (b # a @ y) = (1, True)" by (simp add: utf8_piece_def byte_at_def)
  with Cons show ?case by (simp add: utf8_lossy.simps [of "b # a @ y"])
qed simp

lemma lossy_last: "y \<noteq> [] \<Longrightarrow> utf8_lossy y \<noteq> [] \<and> (last (utf8_lossy y) = 0x0A \<longrightarrow> last y = 0x0A)"
proof (induction y rule: utf8_lossy.induct)
  case (1 y)
  obtain n ok where p: "utf8_piece y = (n, ok)" by fastforce
  with utf8_piece_pos [of y] have n: "1 \<le> n" by simp
  have head: "utf8_lossy y = (if ok then take n y else [0xEF, 0xBF, 0xBD]) @ utf8_lossy (drop n y)"
    using "1.prems" p by (simp add: utf8_lossy.simps [of y])
  have ne: "take n y \<noteq> []" using "1.prems" n by simp
  show ?case
  proof (cases "drop n y = []")
    case True
    then have "take n y = y" "utf8_lossy (drop n y) = []" by (simp_all add: utf8_lossy.simps)
    with head ne show ?thesis by simp
  next
    case False
    from "1.IH" [OF "1.prems" p [symmetric] refl False] False
    have "utf8_lossy (drop n y) \<noteq> []" "last (utf8_lossy (drop n y)) = 0x0A \<longrightarrow> last y = 0x0A" by (simp_all add: last_drop)
    with head show ?thesis by simp
  qed
qed

lemma text_not_blank:
  assumes "y \<noteq> []" and "last y \<noteq> 0x0A"
  shows "\<not> suffix (crlf @ crlf) (s @ text_of (utf8_lossy y))"
proof
  assume "suffix (crlf @ crlf) (s @ text_of (utf8_lossy y))"
  then obtain u where "s @ text_of (utf8_lossy y) = u @ crlf @ crlf" by (auto simp: suffix_def)
  then have "last (s @ text_of (utf8_lossy y)) = CHR 0x0A" by (simp add: crlf_def)
  with lossy_last [OF assms(1)] have "char_of (unat (last (utf8_lossy y))) = CHR 0x0A"
    by (simp add: text_of_def last_map)
  then have "of_char (char_of (unat (last (utf8_lossy y)))) = (10 :: nat)" by simp
  then have "unat (last (utf8_lossy y)) = 10" by (simp add: of_char_of)
  then have "word_of_nat (unat (last (utf8_lossy y))) = (word_of_nat 10 :: byte)" by (rule arg_cong)
  then have "last (utf8_lossy y) = 0x0A" by simp
  with lossy_last [OF assms(1)] assms(2) show False by simp
qed

lemma swallow_rest:
  assumes "\<forall>y\<in>set ys. y \<noteq> [] \<and> last y \<noteq> 0x0A" and "rr_headers_complete r" and "rr_content_length r = None"
  shows "read_response_from r (map Some ys) = (Client_waiting, [])"
  using assms
proof (induction ys arbitrary: r)
  case (Cons y ys)
  let ?r = "r\<lparr>rr_text := rr_text r @ text_of (utf8_lossy y)\<rparr>"
  have "response_take r y = ?r" using Cons.prems(2) by (simp add: response_take_def Let_def)
  moreover have "\<not> response_complete ?r"
    using Cons.prems text_not_blank [of y "rr_text r"] by (simp add: response_complete_def)
  ultimately show ?case using Cons.IH [of ?r] Cons.prems by simp
qed simp

text \<open>
  A client that is answered \<open>PLAY\<close> (or any other response without a body) in one read with the first
  media does not see the end of the response: it waits, and takes the media that follows for text of
  the response, read after read, until one happens to end in a blank line.
\<close>

theorem client_swallows_media:
  assumes "response_ok r" and "rs_version r = ''RTSP/1.0''" and "rs_body r = None"
    and "\<forall>b\<in>set (ascii (response_to_string r)). unat b < 128" and "\<forall>y\<in>set (y # ys). y \<noteq> [] \<and> last y \<noteq> 0x0A"
  shows "read_response (Some (ascii (response_to_string r) @ y) # map Some ys) = (Client_waiting, [])"
proof -
  let ?ls = "response_lines r"
  note f = response_framed [OF assms(1,2)]
  have msg: "response_to_string r = framed_text ?ls []" using f(2) assms(3) by (simp add: body_text_def)
  have fr: "framed ?ls []" using f(1) assms(3) by (simp add: body_text_def)
  have got: "text_of (utf8_lossy (ascii (response_to_string r) @ y)) = response_to_string r @ text_of (utf8_lossy y)"
    using lossy_ascii_append [OF assms(4)] by simp
  obtain pos where pos: "find_str (crlf @ crlf) (framed_text ?ls []) = Some pos"
    using find_blank_line [of ?ls "[]"] fr by (auto simp: framed_def)
  have "split_crlf (take pos (framed_text ?ls [] @ z)) = ?ls" for z
  proof -
    have "\<forall>l\<in>set ?ls. CHR 0x0A \<notin> set l" "?ls \<noteq> []" using fr by (auto simp: framed_def)
    with split_crlf_lines blank_line_of_prefix(1-3) [OF fr _ pos, of "[]"] show ?thesis by simp
  qed
  with f(3) assms(3) got find_str_append [OF pos]
  have first: "response_take response_reader_new (ascii (response_to_string r) @ y) =
      \<lparr>rr_text = response_to_string r @ text_of (utf8_lossy y), rr_content_length = None, rr_headers_complete = True\<rparr>"
    by (simp add: response_take_def response_reader_new_def Let_def msg)
  have "\<not> suffix (crlf @ crlf) (response_to_string r @ text_of (utf8_lossy y))"
    using text_not_blank assms(5) by simp
  then have "\<not> response_complete (response_take response_reader_new (ascii (response_to_string r) @ y))"
    by (simp add: first response_complete_def)
  moreover have "read_response_from (response_take response_reader_new (ascii (response_to_string r) @ y)) (map Some ys) =
      (Client_waiting, [])"
    by (rule swallow_rest) (use assms(5) in \<open>simp_all add: first\<close>)
  ultimately show ?thesis using assms(5) by (simp add: read_response_def Let_def)
qed

section \<open>The requests of a client, at the server\<close>

definition client_text :: "string \<Rightarrow> string \<Rightarrow> nat \<Rightarrow> headers \<Rightarrow> string" where
  "client_text meth url k hs =
     request_to_string
       \<lparr>rq_method = meth, rq_url = url, rq_version = ''RTSP/1.0'',
        rq_headers = (''CSeq'', dec_str k) # (''User-Agent'', ''MediaServer/1.0'') # hs, rq_body = None\<rparr>"

definition extra_headers :: "headers \<Rightarrow> bool" where
  "extra_headers hs \<longleftrightarrow> distinct (''CSeq'' # ''User-Agent'' # map fst hs) \<and> (\<forall>h\<in>set hs. plain_header h \<and> not_content_length h)"

lemma number_ok: "value_ok (dec_str n)"
  by (simp add: value_ok_def trimmed_dec_str)

lemma client_request_ok:
  assumes "is_word meth" and "is_word url" and "extra_headers hs"
  shows "request_ok \<lparr>rq_method = meth, rq_url = url, rq_version = ''RTSP/1.0'',
        rq_headers = (''CSeq'', dec_str k) # (''User-Agent'', ''MediaServer/1.0'') # hs, rq_body = None\<rparr>"
proof -
  have "plain_header (''User-Agent'', ''MediaServer/1.0'')"
    by (simp add: plain_header_iff value_ok_def trimmed_def is_space_def)
  moreover have "not_content_length (''User-Agent'', v)" "not_content_length (''CSeq'', v)" for v
    by (simp_all add: not_content_length_def eq_ignore_ascii_case_def)
  ultimately show ?thesis
    using assms version_word number_ok by (simp add: request_ok_def extra_headers_def plain_names)
qed

lemma client_text_lines:
  assumes "is_word meth" and "is_word url" and "extra_headers hs"
  shows "text_lines (client_text meth url k hs) =
     (meth @ '' '' @ url @ '' RTSP/1.0'') # (''CSeq: '' @ dec_str k) # ''User-Agent: MediaServer/1.0'' # map header_line hs @ [[]]"
proof -
  let ?ls = "(meth @ '' '' @ url @ '' RTSP/1.0'') # (''CSeq: '' @ dec_str k) # ''User-Agent: MediaServer/1.0'' # map header_line hs"
  have "\<forall>l\<in>set ?ls. CHR 0x0A \<notin> set l"
    using assms header_line_one_line(2) is_word_one_line by (auto simp: extra_headers_def)
  from text_lines_unlines_append [OF this, of crlf] text_lines_crlf [of "[]" "[]"]
  show ?thesis by (simp add: client_text_def request_to_string_def body_lines_def body_text_def header_line_def)
qed

lemma client_text_words:
  assumes "is_word meth" and "is_word url" and "extra_headers hs"
  shows "request_words (client_text meth url k hs) = [meth, url, ''RTSP/1.0'']"
    "request_method (client_text meth url k hs) = meth" "request_url (client_text meth url k hs) = url"
proof -
  have "\<forall>w\<in>set [meth, url, ''RTSP/1.0'']. is_word w" using assms(1,2) version_word by simp
  from split_words [OF this] client_text_lines [OF assms, of k]
  show w: "request_words (client_text meth url k hs) = [meth, url, ''RTSP/1.0'']" by (simp add: request_words_def)
  then show "request_method (client_text meth url k hs) = meth" "request_url (client_text meth url k hs) = url"
    by (simp_all add: request_method_def request_url_def)
qed

lemma colon_second:
  assumes "CHR '':'' \<notin> set a" and "CHR '':'' \<notin> set b"
  shows "split_colon_second (a @ CHR '':'' # b) = Some b"
proof -
  have "list_all (\<lambda>x. \<not> x = CHR '':'') a" "list_all (\<lambda>x. \<not> x = CHR '':'') b" using assms by (auto simp: list_all_iff)
  from split_by_at [OF this(1) refl, of b] split_by_none [OF this(2)] show ?thesis by (simp add: split_colon_second_def)
qed

lemma dec_str_no_colon [simp]: "CHR '':'' \<notin> set (dec_str n)"
  using dec_str_digits [of n] by (auto simp: list_all_iff is_digit_def)

lemma client_text_cseq:
  assumes "is_word meth" and "is_word url" and "extra_headers hs" and "meth \<in> set [''OPTIONS'', ''DESCRIBE'', ''SETUP'', ''PLAY'']"
  shows "extract_cseq (client_text meth url k hs) = dec_str k"
proof -
  have "split_colon_second (''CSeq'' @ CHR '':'' # CHR 0x20 # dec_str k) = Some (CHR 0x20 # dec_str k)"
    by (rule colon_second) simp_all
  moreover have "\<not> prefix ''CSeq:'' (meth @ '' '' @ s)" "\<not> prefix ''Cseq:'' (meth @ '' '' @ s)" "\<not> prefix ''cseq:'' (meth @ '' '' @ s)" for s
    using assms(4) by auto
  ultimately show ?thesis
    by (simp add: extract_cseq_def client_text_lines [OF assms(1-3)] trim_space trim_trimmed trimmed_dec_str)
qed

lemma client_methods: "is_word ''OPTIONS''" "is_word ''DESCRIBE''" "is_word ''SETUP''" "is_word ''PLAY''"
  by (simp_all add: is_word_def is_space_def)

text \<open>A success without or with a body, as the server builds it.\<close>

definition success :: "string \<Rightarrow> headers \<Rightarrow> string option \<Rightarrow> rtsp_response" where
  "success cseq hs b =
     \<lparr>rs_status_code = 200, rs_reason_phrase = ''OK'', rs_version = ''RTSP/1.0'', rs_headers = (''CSeq'', cseq) # hs, rs_body = b\<rparr>"

definition success_ok :: "string \<Rightarrow> headers \<Rightarrow> string option \<Rightarrow> bool" where
  "success_ok cseq hs b \<longleftrightarrow> value_ok cseq \<and> distinct (''CSeq'' # map fst hs) \<and> (\<forall>h\<in>set hs. plain_header h) \<and>
     (case b of None \<Rightarrow> True | Some s \<Rightarrow> s \<noteq> [] \<and> length s \<le> u64_max)"

lemma success_response:
  assumes "success_ok cseq hs b"
  shows "response_ok (success cseq hs b)" "outgoing_response (response_to_string (success cseq hs b)) = response_to_string (success cseq hs b)"
proof -
  show "response_ok (success cseq hs b)"
    using assms spaced_words(1) version_word plain_names
    by (auto simp: response_ok_def success_def success_ok_def u32_max_def split: option.split)
  have "answers (response_to_string (success cseq hs b)) 200 cseq"
    by (rule ok_answers) (use assms in \<open>auto simp: success_ok_def success_def\<close>)
  from outgoing_answer [OF this] show "outgoing_response (response_to_string (success cseq hs b)) = response_to_string (success cseq hs b)"
    by blast
qed

lemma built_as_success:
  "build_options_response cseq =
     response_to_string (success cseq [(''Public'', ''OPTIONS, DESCRIBE, SETUP, PLAY, PAUSE, TEARDOWN, ANNOUNCE, RECORD'')] None)"
  "build_describe_response cseq sdp = response_to_string (success cseq [(''Content-Type'', ''application/sdp'')] (Some sdp))"
  "build_setup_response cseq sid t =
     response_to_string (success cseq [(''Session'', sid), (''Transport'', setup_transport_line t)] None)"
  "build_play_response cseq (Some sid) info =
     response_to_string (success cseq [(''Range'', ''npt=0.000-''), (''RTP-Info'', info), (''Session'', sid)] None)"
  by (simp_all add: build_options_response_def build_describe_response_def build_setup_response_def
      build_play_response_def response_builders success_def Let_def)

lemma successes_ok:
  "success_ok (dec_str k) [(''Public'', ''OPTIONS, DESCRIBE, SETUP, PLAY, PAUSE, TEARDOWN, ANNOUNCE, RECORD'')] None"
  "sdp \<noteq> [] \<Longrightarrow> length sdp \<le> u64_max \<Longrightarrow> success_ok (dec_str k) [(''Content-Type'', ''application/sdp'')] (Some sdp)"
  "value_ok sid \<Longrightarrow> success_ok (dec_str k) [(''Session'', sid), (''Transport'', setup_transport_line t)] None"
  "value_ok sid \<Longrightarrow> value_ok info \<Longrightarrow>
     success_ok (dec_str k) [(''Range'', ''npt=0.000-''), (''RTP-Info'', info), (''Session'', sid)] None"
  using number_ok [of k] setup_transport_ok [of t]
  by (simp_all add: success_ok_def plain_names) (simp_all add: value_ok_def trimmed_def is_space_def)

lemma process_by_method:
  assumes "text_lines request = l # ls" and "split_whitespace l = [meth, url, v]" and "extract_cseq request = q"
  shows "meth = ''OPTIONS'' \<Longrightarrow> process_rtsp_request e rid ports request m s = (build_options_response q, s, m, None)"
    "meth = ''DESCRIBE'' \<Longrightarrow> process_rtsp_request e rid ports request m s = describe_request (re_libs e) url q m s"
    "meth = ''SETUP'' \<Longrightarrow> process_rtsp_request e rid ports request m s = setup_request (re_libs e) rid ports request url q m s"
    "meth = ''PLAY'' \<Longrightarrow> process_rtsp_request e rid ports request m s = play_request q m s"
  by (simp_all add: process_rtsp_request_def Let_def assms)

lemma process_client_text:
  assumes "is_word url" and "extra_headers hs"
  shows "process_rtsp_request e rid ports (client_text ''OPTIONS'' url k hs) m s = (build_options_response (dec_str k), s, m, None)"
    "process_rtsp_request e rid ports (client_text ''DESCRIBE'' url k hs) m s = describe_request (re_libs e) url (dec_str k) m s"
    "process_rtsp_request e rid ports (client_text ''SETUP'' url k hs) m s =
       setup_request (re_libs e) rid ports (client_text ''SETUP'' url k hs) url (dec_str k) m s"
    "process_rtsp_request e rid ports (client_text ''PLAY'' url k hs) m s = play_request (dec_str k) m s"
proof -
  have words: "split_whitespace (meth @ '' '' @ url @ '' RTSP/1.0'') = [meth, url, ''RTSP/1.0'']" if "is_word meth" for meth
    using client_text_words(1) [OF that assms, of k] client_text_lines [OF that assms, of k] by (simp add: request_words_def)
  note by_method = process_by_method [OF client_text_lines [OF _ assms] words client_text_cseq [OF _ assms]]
  show "process_rtsp_request e rid ports (client_text ''OPTIONS'' url k hs) m s = (build_options_response (dec_str k), s, m, None)"
    by (rule by_method(1)) (simp_all add: client_methods)
  show "process_rtsp_request e rid ports (client_text ''DESCRIBE'' url k hs) m s = describe_request (re_libs e) url (dec_str k) m s"
    by (rule by_method(2)) (simp_all add: client_methods)
  show "process_rtsp_request e rid ports (client_text ''SETUP'' url k hs) m s =
       setup_request (re_libs e) rid ports (client_text ''SETUP'' url k hs) url (dec_str k) m s"
    by (rule by_method(3)) (simp_all add: client_methods)
  show "process_rtsp_request e rid ports (client_text ''PLAY'' url k hs) m s = play_request (dec_str k) m s"
    by (rule by_method(4)) (simp_all add: client_methods)
qed

lemma same_session [simp]: "c\<lparr>sv_session := sv_session c\<rparr> = c"
  by simp

lemma serves_options:
  assumes "is_word url" and "extra_headers hs" and "io_write io"
  shows "process_request io c m (client_text ''OPTIONS'' url k hs) =
     (Rtsp_open, c, m, [Send_response (build_options_response (dec_str k))])"
  using client_text_words(2) [OF client_methods(1) assms(1,2), of k] process_client_text(1) [OF assms(1,2)] assms(3)
    success_response(2) [OF successes_ok(1), of k]
  by (simp add: process_request_def Let_def built_as_success)

lemma serves_describe:
  assumes "is_word url" and "extra_headers hs" and "io_write io"
    and "extract_stream_id (lib_url_path (re_libs (sv_env c))) url = name" and "get_stream m name = Some st"
    and "sdp = server_build_sdp (lib_base64 (re_libs (sv_env c))) name (Some st)" and "length sdp \<le> u64_max"
    and "ss_stream_id (sv_session c) = None"
  shows "process_request io c m (client_text ''DESCRIBE'' url k hs) =
     (Rtsp_open, c\<lparr>sv_session := (sv_session c)\<lparr>ss_stream_id := Some name\<rparr>\<rparr>, m,
      [Send_response (build_describe_response (dec_str k) sdp)])"
  using client_text_words(2) [OF client_methods(2) assms(1,2), of k] process_client_text(2) [OF assms(1,2)] assms(3-)
    success_response(2) [OF successes_ok(2), of sdp k] server_sdp_not_Nil
  by (simp add: process_request_def Let_def built_as_success describe_request_def)

lemma transport_read:
  assumes "is_word url" and "\<forall>h\<in>set hs. plain_header h \<and> not_content_length h" and "extra_headers ((''Transport'', ''RTP/AVP/TCP;interleaved='' @ v) # hs)"
    and "CHR '';'' \<notin> set v"
  shows "is_tcp (extract_transport (client_text ''SETUP'' url k ((''Transport'', ''RTP/AVP/TCP;interleaved='' @ v) # hs)))"
proof -
  let ?l = "''Transport: RTP/AVP/TCP;interleaved='' @ v"
  have "list_all (\<lambda>x. \<not> x = CHR '';'') ''Transport: RTP/AVP/TCP''" "list_all (\<lambda>x. \<not> x = CHR '';'') (''interleaved='' @ v)"
    using assms(4) by (auto simp: list_all_iff)
  from split_by_at [OF this(1) refl, of "''interleaved='' @ v"] split_by_none [OF this(2)]
  have parts: "split_char (CHR '';'') ?l = [''Transport: RTP/AVP/TCP'', ''interleaved='' @ v]" by simp
  have find: "find (prefix ''Transport:'') (text_lines (client_text ''SETUP'' url k
      ((''Transport'', ''RTP/AVP/TCP;interleaved='' @ v) # hs))) = Some ?l"
    using client_text_lines [OF client_methods(3) assms(1,3), of k] by (simp add: header_line_def)
  have one: "read_transport_part transport_default ''Transport: RTP/AVP/TCP'' =
      \<lparr>ti_transport_type = ''RTP/AVP/TCP'', ti_client_port = None, ti_server_port = None\<rparr>" by code_simp
  have keep: "ti_transport_type (read_transport_part i (''interleaved='' @ w)) = ti_transport_type i" for i w
  proof -
    have "trim (''interleaved='' @ w) \<noteq> [] \<and> hd (trim (''interleaved='' @ w)) = CHR ''i''"
    proof -
      have "trim_start (''interleaved='' @ w) = ''interleaved='' @ w" by (simp add: trim_start_def is_space_def)
      moreover have "dropWhile is_space (rev w @ rev ''interleaved='') =
          (if \<forall>c\<in>set w. is_space c then rev ''interleaved='' else dropWhile is_space (rev w) @ rev ''interleaved='')"
        by (simp add: dropWhile_append is_space_def)
      ultimately show ?thesis by (simp add: trim_def trim_end_def)
    qed
    then obtain cs where "trim (''interleaved='' @ w) = CHR ''i'' # cs" by (cases "trim (''interleaved='' @ w)") auto
    then show ?thesis by (simp add: read_transport_part_def strip_prefix_def split: option.split)
  qed
  have up: "contains_str ''TCP'' (to_uppercase ''RTP/AVP/TCP'')" by code_simp
  show ?thesis
    unfolding is_tcp_def extract_transport_def find option.case parts foldl.simps one keep transport_info.select_convs
    by (rule up)
qed

definition session_header :: "string option \<Rightarrow> headers" where
  "session_header s = (case s of None \<Rightarrow> [] | Some x \<Rightarrow> [(''Session'', x)])"

definition session_ok :: "string option \<Rightarrow> bool" where
  "session_ok s \<longleftrightarrow> (case s of None \<Rightarrow> True | Some x \<Rightarrow> value_ok x)"

lemma not_length_names:
  "not_content_length (''Transport'', v)" "not_content_length (''Session'', v)" "not_content_length (''Accept'', v)"
  "not_content_length (''Range'', v)"
  by (simp_all add: not_content_length_def eq_ignore_ascii_case_def)

definition transport_header :: "nat \<Rightarrow> string \<times> string" where
  "transport_header idx = (''Transport'', ''RTP/AVP/TCP;interleaved='' @ port_pair (idx * 2, idx * 2 + 1))"

lemma client_extras:
  assumes "session_ok s"
  shows "extra_headers (session_header s)" "extra_headers ((''Accept'', ''application/sdp'') # session_header s)"
    "extra_headers (transport_header idx # session_header s)" "extra_headers ((''Range'', ''npt=0.000-'') # session_header s)"
proof -
  have t: "value_ok (''RTP/AVP/TCP;interleaved='' @ port_pair p)" for p
    using port_pair_ok [of p] by (simp add: value_ok_def trimmed_def is_space_def)
  have a: "plain_header (''Accept'', ''application/sdp'')" "plain_header (''Range'', ''npt=0.000-'')"
    by (simp_all add: plain_header_iff value_ok_def trimmed_def is_space_def)
  show "extra_headers (session_header s)" "extra_headers ((''Accept'', ''application/sdp'') # session_header s)"
    "extra_headers (transport_header idx # session_header s)" "extra_headers ((''Range'', ''npt=0.000-'') # session_header s)"
    using assms t a
    by (auto simp: extra_headers_def session_header_def session_ok_def not_length_names plain_names transport_header_def
        split: option.splits)
qed

lemma port_pair_chars: "CHR '';'' \<notin> set (port_pair p)"
  using dec_str_digits [of "fst p"] dec_str_digits [of "snd p"]
  by (auto simp: port_pair_def list_all_iff is_digit_def)

lemma serves_setup:
  assumes "is_word url" and "session_ok s" and "io_write io" and "ss_stream_id (sv_session c) = Some name"
    and "x = (case ss_session_id (sv_session c) of None \<Rightarrow> io_rid io | Some y \<Rightarrow> y)" and "value_ok x"
  shows "\<exists>c' t. process_request io c m (client_text ''SETUP'' url k (transport_header idx # session_header s)) =
       (Rtsp_open, c', m, [Send_response (build_setup_response (dec_str k) x t)]) \<and>
     sv_env c' = sv_env c \<and> sv_ssrc c' = sv_ssrc c \<and> sv_sender c' = sv_sender c \<and>
     ss_stream_id (sv_session c') = Some name \<and> ss_session_id (sv_session c') = Some x \<and>
     ss_transport_mode (sv_session c') = Tcp"
proof -
  let ?r = "client_text ''SETUP'' url k (transport_header idx # session_header s)"
  let ?t = "extract_transport ?r"
  note hs = client_extras(3) [OF assms(2), of idx]
  have tcp: "is_tcp ?t"
    unfolding transport_header_def
    by (rule transport_read [OF assms(1)]) (use hs port_pair_chars in \<open>auto simp: transport_header_def extra_headers_def\<close>)
  have none: "prepare_udp_setup io c ?r = (c, None, [])"
    using tcp by (simp add: prepare_udp_setup_def Let_def is_udp_transport_def is_tcp_def)
  have reprint: "outgoing_response (build_setup_response (dec_str k) x ?t) = build_setup_response (dec_str k) x ?t"
    using success_response(2) [OF successes_ok(3) [OF assms(6), of k ?t]] by (simp add: built_as_success)
  obtain s' where s': "setup_request (re_libs (sv_env c)) (io_rid io) None ?r url (dec_str k) m (sv_session c) =
      (build_setup_response (dec_str k) x ?t, s', m, None)"
    "ss_stream_id s' = Some name" "ss_session_id s' = Some x" "ss_transport_mode s' = Tcp"
    using assms(4,5) tcp by (fastforce simp: setup_request_def Let_def split: option.splits)
  show ?thesis
    by (intro exI [of _ "c\<lparr>sv_session := s'\<rparr>"] exI [of _ ?t])
      (use client_text_words(2) [OF client_methods(3) assms(1) hs, of k] none s' assms(3) reprint
        process_client_text(3) [OF assms(1) hs] in \<open>simp add: process_request_def Let_def\<close>)
qed

lemma serves_play:
  assumes "is_word url" and "session_ok s" and "io_write io" and "ss_stream_id (sv_session c) = Some name"
    and "ss_session_id (sv_session c) = Some x" and "value_ok x" and "CHR 0x0A \<notin> set name"
    and "ss_transport_mode (sv_session c) = Tcp" and "\<not> sv_sender c"
  shows "\<exists>c'. process_request io c m (client_text ''PLAY'' url k ((''Range'', ''npt=0.000-'') # session_header s)) =
       (Rtsp_open, c', m,
        [Send_response (build_play_response (dec_str k) (Some x) (build_rtp_info name m)),
         Start_sender \<lparr>sn_stream_id = name, sn_udp_tracks = None, sn_ssrc = sv_ssrc c, sn_seq = Map.empty,
           sn_timelines = Map.empty, sn_await_video_idr = True\<rparr>])"
proof -
  note hs = client_extras(4) [OF assms(2)]
  have reprint: "outgoing_response (build_play_response (dec_str k) (Some x) (build_rtp_info name m)) =
      build_play_response (dec_str k) (Some x) (build_rtp_info name m)"
    using success_response(2) [OF successes_ok(4) [OF assms(6) rtp_info_ok [OF assms(7)], of k m]] by (simp add: built_as_success)
  show ?thesis
    using client_text_words(2) [OF client_methods(4) assms(1) hs, of k] process_client_text(4) [OF assms(1) hs] assms(3-) reprint
    by (simp add: process_request_def Let_def play_request_def start_rtp_sender_def abort_rtp_sender_def)
qed

section \<open>The client's side of the dialogue\<close>

lemma client_requests:
  "with_session c (client_request c meth url) =
     \<lparr>rq_method = meth, rq_url = url, rq_version = ''RTSP/1.0'',
      rq_headers = (''CSeq'', dec_str (unat (cl_cseq c))) # (''User-Agent'', ''MediaServer/1.0'') # session_header (cl_session_id c),
      rq_body = None\<rparr>"
  "key \<notin> {''CSeq'', ''User-Agent'', ''Session''} \<Longrightarrow>
   with_session c (request_header (client_request c meth url) key v) =
     \<lparr>rq_method = meth, rq_url = url, rq_version = ''RTSP/1.0'',
      rq_headers = (''CSeq'', dec_str (unat (cl_cseq c))) # (''User-Agent'', ''MediaServer/1.0'') # (key, v) # session_header (cl_session_id c),
      rq_body = None\<rparr>"
  by (auto simp: with_session_def client_request_def request_header_def request_new_def session_header_def
      split: option.split)

text \<open>A connection on which every write succeeds.\<close>

lemma exchange_success:
  assumes "\<forall>k. ce_write env k" and "success_ok cseq hs b" and "lk_inputs l = Some (ascii (response_to_string (success cseq hs b))) # rest"
    and "\<forall>x\<in>set (ascii (response_to_string (success cseq hs b))). unat x < 128"
  shows "exchange env takes r l =
     (Client_ok (response_to_string (success cseq hs b)),
      l\<lparr>lk_client := (lk_client l)\<lparr>cl_cseq := cl_cseq (lk_client l) + 1,
          cl_session_id := (if takes then extract_session_id (response_to_string (success cseq hs b))
                            else cl_session_id (lk_client l))\<rparr>,
        lk_inputs := rest, lk_sent := lk_sent l @ [request_to_string r]\<rparr>)"
    "accepted (response_to_string (success cseq hs b))"
proof -
  let ?t = "response_to_string (success cseq hs b)"
  have "?t \<noteq> []" by (simp add: response_to_string_def crlf_def)
  then have "ascii ?t \<noteq> []" by (simp add: ascii_def)
  with client_reads [OF success_response(1) [OF assms(2)], of "[ascii ?t]" rest] ascii_lossy [OF assms(4)] assms(3)
  have "read_response (lk_inputs l) = (Client_ok ?t, rest)" by (simp add: success_def)
  with assms(1) show "exchange env takes r l =
     (Client_ok ?t,
      l\<lparr>lk_client := (lk_client l)\<lparr>cl_cseq := cl_cseq (lk_client l) + 1,
          cl_session_id := (if takes then extract_session_id ?t else cl_session_id (lk_client l))\<rparr>,
        lk_inputs := rest, lk_sent := lk_sent l @ [request_to_string r]\<rparr>)"
    by (simp add: exchange_def Let_def)
  have "dec_str 200 = ''200''" by code_simp
  then show "accepted ?t"
    by (simp add: accepted_def response_to_string_def success_def unlines_crlf_def)
qed

lemma success_lines:
  assumes "success_ok cseq hs None"
  shows "text_lines (response_to_string (success cseq hs None)) =
     ''RTSP/1.0 200 OK'' # (''CSeq: '' @ cseq) # map header_line (filter not_content_length hs) @ [[]]"
proof -
  let ?ls = "''RTSP/1.0 200 OK'' # (''CSeq: '' @ cseq) # map header_line (filter not_content_length hs)"
  have ok: "value_ok cseq" "\<forall>h\<in>set hs. plain_header h" using assms by (simp_all add: success_ok_def)
  have "\<forall>l\<in>set ?ls. CHR 0x0A \<notin> set l" using ok header_line_one_line(2) by (auto simp: value_ok_def)
  from text_lines_unlines_append [OF this, of crlf] text_lines_crlf [of "[]" "[]"]
  have "text_lines (unlines_crlf ?ls @ crlf) = ?ls @ [[]]" by simp
  moreover have "dec_str 200 = ''200''" by code_simp
  moreover have "not_content_length (''CSeq'', v)" for v by (simp add: not_content_length_def eq_ignore_ascii_case_def)
  ultimately show ?thesis
    by (simp add: response_to_string_def success_def body_lines_def body_text_def header_line_def)
qed

lemma session_of_responses:
  "extract_session_id (build_options_response (dec_str k)) = None"
  "value_ok x \<Longrightarrow> CHR '':'' \<notin> set x \<Longrightarrow> CHR '';'' \<notin> set x \<Longrightarrow> extract_session_id (build_setup_response (dec_str k) x t) = Some x"
proof -
  have "not_content_length (''Public'', v)" for v by (simp add: not_content_length_def eq_ignore_ascii_case_def)
  then show "extract_session_id (build_options_response (dec_str k)) = None"
    by (simp add: extract_session_id_def built_as_success success_lines [OF successes_ok(1)] header_line_def)
  assume x: "value_ok x" "CHR '':'' \<notin> set x" "CHR '';'' \<notin> set x"
  have "list_all (\<lambda>c. \<not> c = CHR '';'') (''Session: '' @ x)" using x(3) by (auto simp: list_all_iff)
  from split_by_none [OF this] have semi: "split_char (CHR '';'') (''Session: '' @ x) = [''Session: '' @ x]" .
  have "split_colon_second (''Session'' @ CHR '':'' # CHR 0x20 # x) = Some (CHR 0x20 # x)"
    using x(2) by (intro colon_second) simp_all
  with semi show "extract_session_id (build_setup_response (dec_str k) x t) = Some x"
    using x(1) not_length_names(2)
    by (simp add: extract_session_id_def built_as_success success_lines [OF successes_ok(3) [OF x(1)]] header_line_def
        trim_space trim_trimmed value_ok_def)
qed

end
