(* ===== verification/Rtsp_Dialogue.thy ===== *)
theory Rtsp_Dialogue
  imports Rtsp_Pull
begin

text \<open>
  A server of this program asks another one for a stream over RTSP: the client of \<open>Rtsp_Client\<close> against
  the connection of \<open>Rtsp_Conn\<close>, request by request.
\<close>

section \<open>The server reads the client's requests\<close>

lemma lower_colon [simp]: "lower_char c = CHR '':'' \<longleftrightarrow> c = CHR '':''"
proof -
  have "lower_char c = CHR '':'' \<Longrightarrow> c = CHR '':''"
  proof (rule ccontr)
    assume a: "lower_char c = CHR '':''" "c \<noteq> CHR '':''"
    then have "65 \<le> (of_char c :: nat)" "(of_char c :: nat) \<le> 90" "char_of (of_char c + 32 :: nat) = CHR '':''"
      by (auto simp: lower_char_def Let_def split: if_splits)
    then have "of_char (char_of (of_char c + 32 :: nat)) = (58 :: nat)" by simp
    with \<open>65 \<le> _\<close> \<open>_ \<le> 90\<close> show False by (simp add: of_char_of)
  qed
  then show ?thesis by (auto simp: lower_char_def)
qed

lemma header_not_length_lower:
  assumes "plain_header h" and "not_content_length h"
  shows "\<not> prefix ''content-length:'' (to_lowercase (header_line h))"
proof
  obtain k v where h: "h = (k, v)" by fastforce
  assume "prefix ''content-length:'' (to_lowercase (header_line h))"
  then obtain t where t: "to_lowercase k @ CHR '':'' # CHR 0x20 # to_lowercase v = ''content-length'' @ CHR '':'' # t"
    by (auto simp: header_line_def h prefix_def lower_char_def)
  have "CHR '':'' \<notin> set (to_lowercase k)"
  proof
    assume "CHR '':'' \<in> set (to_lowercase k)"
    then obtain c where "c \<in> set k" "lower_char c = CHR '':''" by (metis imageE list.set_map)
    with assms(1) show False by (simp add: h plain_header_def)
  qed
  then have "split_once (CHR '':'') (to_lowercase k @ CHR '':'' # CHR 0x20 # to_lowercase v) =
      Some (to_lowercase k, CHR 0x20 # to_lowercase v)" by (rule split_once_at)
  moreover have "split_once (CHR '':'') (''content-length'' @ CHR '':'' # t) = Some (''content-length'', t)"
    by (rule split_once_at) simp
  ultimately have "to_lowercase k = ''content-length''" unfolding t by simp
  moreover have "to_lowercase ''Content-Length'' = ''content-length''" by code_simp
  ultimately show False using assms(2) by (simp add: not_content_length_def h eq_ignore_ascii_case_def)
qed

lemma one_text_line: "CHR 0x0A \<notin> set l \<Longrightarrow> text_lines l = (if l = [] then [] else [l])"
proof -
  assume "CHR 0x0A \<notin> set l"
  then have "list_all (\<lambda>x. \<not> x = CHR 0x0A) l" by (auto simp: list_all_iff)
  from split_by_none [OF this] show ?thesis by (simp add: text_lines_def Let_def)
qed

lemma client_text_unit:
  assumes "meth \<in> set [''OPTIONS'', ''DESCRIBE'', ''SETUP'', ''PLAY'']" and "is_word url" and "extra_headers hs"
  shows "next_unit (ascii (client_text meth url k hs)) = Some (Request_unit (ascii (client_text meth url k hs)), [])"
proof -
  let ?hs = "(''CSeq'', dec_str k) # (''User-Agent'', ''MediaServer/1.0'') # hs"
  let ?first = "meth @ '' '' @ url @ '' RTSP/1.0''"
  let ?ls = "?first # map header_line ?hs"
  let ?s = "client_text meth url k hs"
  have plain: "\<forall>h\<in>set ?hs. plain_header h \<and> not_content_length h"
    using assms(3) number_ok
    by (auto simp: extra_headers_def plain_header_iff value_ok_def trimmed_def is_space_def not_content_length_def
        eq_ignore_ascii_case_def)
  have msg: "?s = unlines_crlf ?ls @ crlf"
    by (simp add: client_text_def request_to_string_def body_lines_def body_text_def)
  have ls: "\<forall>l\<in>set ?ls. l \<noteq> [] \<and> CHR 0x0A \<notin> set l"
    using assms(1) plain header_line_one_line is_word_one_line [OF assms(2)] by auto
  have pos: "find_str (crlf @ crlf) ?s = Some (length (unlines_crlf ?ls) - 2)"
    using find_blank_line [OF ls, of "[]"] msg by simp
  obtain ms l where msl: "?ls = ms @ [l]" by (metis append_butlast_last_id list.discI)
  then have un: "unlines_crlf ?ls = (unlines_crlf ms @ l) @ crlf" by (simp add: unlines_crlf_def)
  then have tk: "take (length (unlines_crlf ?ls) - 2) ?s = unlines_crlf ms @ l" unfolding msg by (simp add: crlf_def)
  have "\<forall>l\<in>set ms. CHR 0x0A \<notin> set l" "CHR 0x0A \<notin> set l" "l \<noteq> []" using ls unfolding msl by auto
  with text_lines_unlines_append one_text_line tk msl
  have lines: "text_lines (take (length (unlines_crlf ?ls) - 2) ?s) = ?ls" by metis
  have "\<not> prefix ''content-length:'' (to_lowercase ?first)"
    using assms(1) by (auto simp: lower_char_def)
  with plain header_not_length_lower
  have "find (\<lambda>l. prefix ''content-length:'' (to_lowercase l)) ?ls = None" by (auto simp: find_None_iff)
  moreover obtain c cs where "?s = c # cs" "word_of_nat (of_char c) \<noteq> (0x24 :: byte)"
    using assms(1) msg by (auto simp: unlines_crlf_def)
  moreover have "length ?s = length (unlines_crlf ?ls) - 2 + 4" unfolding msg un by (simp add: crlf_def)
  ultimately show ?thesis using lines pos by (intro next_unit_request) auto
qed

lemma server_reads_request:
  assumes "meth \<in> set [''OPTIONS'', ''DESCRIBE'', ''SETUP'', ''PLAY'']" and "is_word url" and "extra_headers hs"
    and "process_request io c m (client_text meth url k hs) = (Rtsp_open, c', m', effs)"
  shows "read_loop (\<lambda>_. io) i (Got (ascii (client_text meth url k hs)) # reads) [] c m =
     (case read_loop (\<lambda>_. io) (i + 1) reads [] c' m' of (oc, c'', m'', e') \<Rightarrow> (oc, c'', m'', effs @ e'))"
  using client_text_unit [OF assms(1-3), of k] assms(4)
  by (simp add: drain_units.simps handle_unit_def next_unit_def)

text \<open>A run of requests that the server takes one after the other.\<close>

definition server_takes ::
    "rtsp_io \<Rightarrow> stream_manager \<Rightarrow> string list \<Rightarrow> rtsp_conn \<Rightarrow> rtsp_effect list \<Rightarrow> rtsp_conn \<Rightarrow> bool" where
  "server_takes io m qs c effs c' \<longleftrightarrow>
     (\<forall>i reads. read_loop (\<lambda>_. io) i (map (Got \<circ> ascii) qs @ reads) [] c m =
        (case read_loop (\<lambda>_. io) (i + length qs) reads [] c' m of (oc, c'', m'', e) \<Rightarrow> (oc, c'', m'', effs @ e)))"

lemma server_takes_Nil: "server_takes io m [] c [] c"
  by (simp add: server_takes_def split: prod.split)

lemma server_takes_one:
  assumes "meth \<in> set [''OPTIONS'', ''DESCRIBE'', ''SETUP'', ''PLAY'']" and "is_word url" and "extra_headers hs"
    and "process_request io c m (client_text meth url k hs) = (Rtsp_open, c', m, effs)"
  shows "server_takes io m [client_text meth url k hs] c effs c'"
  using server_reads_request [OF assms] by (simp add: server_takes_def)

lemma server_takes_append:
  assumes "server_takes io m qs c effs c'" and "server_takes io m qs' c' effs' c''"
  shows "server_takes io m (qs @ qs') c (effs @ effs') c''"
  using assms by (simp add: server_takes_def add.assoc split: prod.split)

lemmas server_takes_more = server_takes_append [OF server_takes_one, simplified append_Cons append_Nil]

section \<open>The client reads the server's responses\<close>

definition ascii_text :: "string \<Rightarrow> bool" where
  "ascii_text s \<longleftrightarrow> (\<forall>c\<in>set s. of_char c < (128 :: nat))"

lemma ascii_text_append [simp]: "ascii_text (a @ b) \<longleftrightarrow> ascii_text a \<and> ascii_text b"
  by (auto simp: ascii_text_def)

lemma ascii_text_Nil [simp]: "ascii_text []"
  by (simp add: ascii_text_def)

lemma ascii_text_Cons [simp]: "ascii_text (c # s) \<longleftrightarrow> of_char c < (128 :: nat) \<and> ascii_text s"
  by (simp add: ascii_text_def)

lemma ascii_text_number [simp]: "ascii_text (dec_str n)"
  using dec_str_digits [of n] by (auto simp: ascii_text_def list_all_iff is_digit_def)

lemma ascii_text_lines [simp]: "ascii_text (unlines_crlf ls) \<longleftrightarrow> (\<forall>l\<in>set ls. ascii_text l)"
  by (induction ls) (auto simp: unlines_crlf_def crlf_def)

lemma ascii_text_join: "ascii_text s \<Longrightarrow> \<forall>x\<in>set xs. ascii_text x \<Longrightarrow> ascii_text (join_with s xs)"
  by (induction s xs rule: join_with.induct) auto

lemma ascii_text_bytes: "ascii_text s \<Longrightarrow> \<forall>b\<in>set (ascii s). unat b < 128"
  by (auto simp: ascii_text_def ascii_def unat_of_nat)

lemma ascii_text_success:
  assumes "ascii_text cseq" and "\<forall>(k, v)\<in>set hs. ascii_text k \<and> ascii_text v" and "case b of None \<Rightarrow> True | Some s \<Rightarrow> ascii_text s"
  shows "ascii_text (response_to_string (success cseq hs b))"
  using assms
  by (auto simp: response_to_string_def success_def header_line_def body_lines_def body_text_def crlf_def split: option.splits)

lemma ascii_text_responses:
  "ascii_text (build_options_response (dec_str k))"
  "ascii_text sdp \<Longrightarrow> ascii_text (build_describe_response (dec_str k) sdp)"
  "ascii_text x \<Longrightarrow> ascii_text (build_setup_response (dec_str k) x t)"
  "ascii_text x \<Longrightarrow> ascii_text name \<Longrightarrow> ascii_text (build_play_response (dec_str k) (Some x) (build_rtp_info name m))"
  unfolding built_as_success
  by (rule ascii_text_success; simp add: setup_transport_line_def port_pair_def build_rtp_info_def Let_def
        rtp_info_url_def ascii_text_join)+

lemma upper_ascii: "of_char c < (128 :: nat) \<Longrightarrow> of_char (upper_char c) < (128 :: nat)"
  by (auto simp: upper_char_def Let_def of_char_of)

lemma ascii_text_hex: "ascii_text (hex2_upper b)"
proof -
  have "d < 16 \<Longrightarrow> of_char (hex_digit d) < (128 :: nat)" for d by (auto simp: hex_digit_def of_char_of)
  moreover have "unat b div 16 < 16" "unat b mod 16 < 16" using unat_byte_less [of b] by linarith+
  ultimately show ?thesis by (auto simp: hex2_upper_def hex2_def ascii_text_def intro!: upper_ascii)
qed

lemma ascii_text_fmtp: "\<forall>b. ascii_text (enc b) \<Longrightarrow> ascii_text (h264_fmtp enc c pt)"
  by (auto simp: h264_fmtp_def DEFAULT_FMTP_def Let_def ascii_text_hex split: prod.split option.split)

lemma ascii_text_track: "\<forall>b. ascii_text (enc b) \<Longrightarrow> l \<in> set (server_track_lines enc c idx t) \<Longrightarrow> ascii_text l"
  by (auto simp: server_track_lines_def media_line_def media_type_name_def rtpmap_line_def codec_name_def control_line_def
      AAC_FMTP_def ascii_text_fmtp split: codec_type.splits if_splits)

lemma ascii_text_sdp:
  assumes "ascii_text name" and "\<forall>b. ascii_text (enc b)"
  shows "ascii_text (server_build_sdp enc name (Some s))"
  using assms ascii_text_track [OF assms(2)] by (auto simp: server_build_sdp_def Let_def)

abbreviation link :: "rtsp_client \<Rightarrow> bytes option list \<Rightarrow> string list \<Rightarrow> rtsp_link" where
  "link c inputs sent \<equiv> \<lparr>lk_client = c, lk_inputs = inputs, lk_sent = sent\<rparr>"

definition answered_by :: "rtsp_client \<Rightarrow> bool \<Rightarrow> string \<Rightarrow> rtsp_client" where
  "answered_by c takes response =
     c\<lparr>cl_cseq := cl_cseq c + 1, cl_session_id := (if takes then extract_session_id response else cl_session_id c)\<rparr>"

lemma client_asks:
  assumes "\<forall>k. ce_write env k" and "success_ok cseq hs b" and "response = response_to_string (success cseq hs b)" and "ascii_text response"
  shows "exchange env takes r (link c (Some (ascii response) # rest) sent) =
      (Client_ok response, link (answered_by c takes response) rest (sent @ [request_to_string r]))" "accepted response"
proof -
  let ?l = "link c (Some (ascii response) # rest) sent"
  have i: "lk_inputs ?l = Some (ascii (response_to_string (success cseq hs b))) # rest" using assms(3) by simp
  have a: "\<forall>x\<in>set (ascii (response_to_string (success cseq hs b))). unat x < 128"
    using ascii_text_bytes [OF assms(4)] assms(3) by simp
  note e = exchange_success [OF assms(1,2) i a]
  show "exchange env takes r ?l =
      (Client_ok response, link (answered_by c takes response) rest (sent @ [request_to_string r]))"
    using e(1) assms(3) by (simp add: answered_by_def)
  show "accepted response" using e(2) assms(3) by simp
qed

section \<open>One request after the other\<close>

lemma client_sends:
  "request_to_string (with_session c (client_request c meth url)) =
     client_text meth url (unat (cl_cseq c)) (session_header (cl_session_id c))"
  "key \<notin> {''CSeq'', ''User-Agent'', ''Session''} \<Longrightarrow>
   request_to_string (with_session c (request_header (client_request c meth url) key v)) =
     client_text meth url (unat (cl_cseq c)) ((key, v) # session_header (cl_session_id c))"
  by (simp_all add: client_requests client_text_def)

lemma options_turn:
  fixes c :: rtsp_client
  assumes "\<forall>k. ce_write env k" and "io_write io" and "is_word (cl_remote_url c)" and "cl_session_id c = None"
  defines "q \<equiv> client_text ''OPTIONS'' (cl_remote_url c) (unat (cl_cseq c)) []"
    and "r \<equiv> build_options_response (dec_str (unat (cl_cseq c)))"
  shows "server_takes io m [q] v [Send_response r] v"
    "insist ''OPTIONS'' (send_options env (link c (Some (ascii r) # rest) sent)) =
       (Client_ok r, link (c\<lparr>cl_cseq := cl_cseq c + 1\<rparr>) rest (sent @ [q]))"
proof -
  have hs: "extra_headers []" by (simp add: extra_headers_def)
  show "server_takes io m [q] v [Send_response r] v"
    unfolding q_def r_def
    by (rule server_takes_one) (use assms(2,3) hs serves_options in simp_all)
  show "insist ''OPTIONS'' (send_options env (link c (Some (ascii r) # rest) sent)) =
       (Client_ok r, link (c\<lparr>cl_cseq := cl_cseq c + 1\<rparr>) rest (sent @ [q]))"
    using client_asks [OF assms(1) successes_ok(1) [of "unat (cl_cseq c)"] built_as_success(1) ascii_text_responses(1)]
      assms(4) session_of_responses(1) [of "unat (cl_cseq c)"]
    by (simp add: send_options_def send_request_def insist_def client_sends q_def r_def session_header_def answered_by_def)
qed

lemma describe_turn:
  fixes c :: rtsp_client
  assumes "\<forall>k. ce_write env k" and "io_write io" and "is_word (cl_remote_url c)" and "cl_session_id c = None"
    and "extract_stream_id (lib_url_path (re_libs (sv_env v))) (cl_remote_url c) = name" and "get_stream m name = Some st"
    and "sdp = server_build_sdp (lib_base64 (re_libs (sv_env v))) name (Some st)" and "length sdp \<le> u64_max" and "ascii_text sdp"
    and "ss_stream_id (sv_session v) = None"
  defines "q \<equiv> client_text ''DESCRIBE'' (cl_remote_url c) (unat (cl_cseq c)) [(''Accept'', ''application/sdp'')]"
    and "r \<equiv> build_describe_response (dec_str (unat (cl_cseq c))) sdp"
  shows "server_takes io m [q] v [Send_response r] (v\<lparr>sv_session := (sv_session v)\<lparr>ss_stream_id := Some name\<rparr>\<rparr>)"
    "insist ''DESCRIBE'' (send_describe env (link c (Some (ascii r) # rest) sent)) =
       (Client_ok r, link (c\<lparr>cl_cseq := cl_cseq c + 1\<rparr>) rest (sent @ [q]))"
proof -
  have hs: "extra_headers [(''Accept'', ''application/sdp'')]"
    using client_extras(2) [of None] by (simp add: session_ok_def session_header_def)
  show "server_takes io m [q] v [Send_response r] (v\<lparr>sv_session := (sv_session v)\<lparr>ss_stream_id := Some name\<rparr>\<rparr>)"
    unfolding q_def r_def
    by (rule server_takes_one) (use assms(2,3,5-8,10) hs serves_describe in simp_all)
  have ne: "sdp \<noteq> []" using assms(7) server_sdp_not_Nil by simp
  show "insist ''DESCRIBE'' (send_describe env (link c (Some (ascii r) # rest) sent)) =
       (Client_ok r, link (c\<lparr>cl_cseq := cl_cseq c + 1\<rparr>) rest (sent @ [q]))"
    using client_asks [OF assms(1) successes_ok(2) [OF ne assms(8), of "unat (cl_cseq c)"] built_as_success(2)
        ascii_text_responses(2) [OF assms(9)]] assms(4)
    by (simp add: send_describe_def insist_def client_sends q_def r_def session_header_def answered_by_def Let_def)
qed

text \<open>What a peer's connection knows once the stream is described, and its session once there is one.\<close>

definition prepared :: "rtsp_io \<Rightarrow> stream_id \<Rightarrow> rtsp_conn \<Rightarrow> bool" where
  "prepared io name v \<longleftrightarrow> ss_stream_id (sv_session v) = Some name \<and> ss_session_id (sv_session v) \<in> {None, Some (io_rid io)} \<and>
     \<not> sv_sender v"

definition session_id_ok :: "string \<Rightarrow> bool" where
  "session_id_ok x \<longleftrightarrow> value_ok x \<and> CHR '':'' \<notin> set x \<and> CHR '';'' \<notin> set x \<and> ascii_text x"

lemma control_url_word: "is_word url \<Longrightarrow> is_word (control_url url idx)"
proof -
  assume "is_word url"
  moreover have "is_word (''trackID='' @ dec_str idx)" using is_word_dec_str [of idx] by (simp add: is_word_def is_space_def)
  ultimately show ?thesis by (simp add: control_url_def is_word_def is_space_def)
qed

lemma setup_turn:
  fixes c :: rtsp_client and idx :: nat
  assumes "\<forall>k. ce_write env k" and "io_write io" and "is_word (cl_remote_url c)" and "\<not> use_udp c"
    and "session_id_ok (io_rid io)" and "cl_session_id c \<in> {None, Some (io_rid io)}" and "prepared io name v"
  defines "q \<equiv> client_text ''SETUP'' (control_url (cl_remote_url c) idx) (unat (cl_cseq c))
      (transport_header idx # session_header (cl_session_id c))"
  shows "\<exists>r v'. server_takes io m [q] v [Send_response r] v' \<and> prepared io name v' \<and>
     ss_session_id (sv_session v') = Some (io_rid io) \<and> ss_transport_mode (sv_session v') = Tcp \<and> sv_ssrc v' = sv_ssrc v \<and>
     (\<forall>rest sent. insist ''SETUP'' (send_setup env idx (link c (Some (ascii r) # rest) sent)) =
       (Client_ok r, link (c\<lparr>cl_cseq := cl_cseq c + 1, cl_session_id := Some (io_rid io)\<rparr>) rest (sent @ [q])))"
proof -
  let ?x = "io_rid io" and ?k = "unat (cl_cseq c)"
  have x: "value_ok ?x" "CHR '':'' \<notin> set ?x" "CHR '';'' \<notin> set ?x" "ascii_text ?x"
    using assms(5) by (simp_all add: session_id_ok_def)
  have s: "session_ok (cl_session_id c)" using assms(6) x(1) by (auto simp: session_ok_def)
  have "?x = (case ss_session_id (sv_session v) of None \<Rightarrow> io_rid io | Some y \<Rightarrow> y)"
    using assms(7) by (auto simp: prepared_def)
  from serves_setup [OF control_url_word [OF assms(3)] s assms(2) _ this x(1)] assms(7)
  obtain v' t where v': "process_request io v m q = (Rtsp_open, v', m, [Send_response (build_setup_response (dec_str ?k) ?x t)])"
    "sv_ssrc v' = sv_ssrc v" "sv_sender v' = sv_sender v"
    "ss_stream_id (sv_session v') = Some name" "ss_session_id (sv_session v') = Some ?x" "ss_transport_mode (sv_session v') = Tcp"
    unfolding q_def prepared_def by blast
  let ?r = "build_setup_response (dec_str ?k) ?x t"
  have "server_takes io m [q] v [Send_response ?r] v'"
    unfolding q_def
    by (rule server_takes_one) (use v'(1) control_url_word [OF assms(3)] client_extras(3) [OF s] in \<open>simp_all add: q_def\<close>)
  moreover have "prepared io name v'" using v' assms(7) by (simp add: prepared_def)
  moreover have "insist ''SETUP'' (send_setup env idx (link c (Some (ascii ?r) # rest) sent)) =
       (Client_ok ?r, link (c\<lparr>cl_cseq := cl_cseq c + 1, cl_session_id := Some ?x\<rparr>) rest (sent @ [q]))" for rest sent
    using client_asks [OF assms(1) successes_ok(3) [OF x(1), of ?k t] built_as_success(3)
        ascii_text_responses(3) [OF x(4)]] assms(4) session_of_responses(2) [OF x(1-3), of ?k t]
    by (simp add: send_setup_def insist_def client_sends q_def transport_header_def answered_by_def Let_def)
  ultimately show ?thesis using v' by blast
qed

lemma setup_turns:
  fixes c :: rtsp_client
  assumes "\<forall>k. ce_write env k" and "io_write io" and "is_word (cl_remote_url c)" and "\<not> use_udp c"
    and "session_id_ok (io_rid io)" and "cl_session_id c \<in> {None, Some (io_rid io)}" and "prepared io name v"
  shows "\<exists>qs rs v' n. server_takes io m qs v (map Send_response rs) v' \<and> prepared io name v' \<and> sv_ssrc v' = sv_ssrc v \<and>
     length qs = length is \<and> (is \<noteq> [] \<longrightarrow> ss_session_id (sv_session v') = Some (io_rid io) \<and> ss_transport_mode (sv_session v') = Tcp) \<and>
     (\<forall>rest sent. setup_tracks env is (link c (map (Some \<circ> ascii) rs @ rest) sent) =
       (Client_ok (), link (c\<lparr>cl_cseq := n, cl_session_id := (if is = [] then cl_session_id c else Some (io_rid io))\<rparr>)
          rest (sent @ qs)))"
  using assms(3-)
proof (induction "is" arbitrary: c v)
  case Nil
  then show ?case using server_takes_Nil by (intro exI [of _ "[]"] exI [of _ v] exI [of _ "cl_cseq c"]) simp
next
  case (Cons idx "is")
  let ?q = "client_text ''SETUP'' (control_url (cl_remote_url c) idx) (unat (cl_cseq c))
      (transport_header idx # session_header (cl_session_id c))"
  let ?c = "c\<lparr>cl_cseq := cl_cseq c + 1, cl_session_id := Some (io_rid io)\<rparr>"
  obtain r v1 where r: "server_takes io m [?q] v [Send_response r] v1" "prepared io name v1"
    "ss_session_id (sv_session v1) = Some (io_rid io)" "ss_transport_mode (sv_session v1) = Tcp" "sv_ssrc v1 = sv_ssrc v"
    "\<And>rest sent. insist ''SETUP'' (send_setup env idx (link c (Some (ascii r) # rest) sent)) =
       (Client_ok r, link ?c rest (sent @ [?q]))"
    using setup_turn [OF assms(1,2) Cons.prems, where m = m and idx = idx] by auto
  have "is_word (cl_remote_url ?c)" "\<not> use_udp ?c" "cl_session_id ?c \<in> {None, Some (io_rid io)}"
    using Cons.prems(1,2) by (simp_all add: use_udp_def)
  from Cons.IH [OF this(1,2) Cons.prems(3) this(3) r(2)] obtain qs rs v' n where
    i: "server_takes io m qs v1 (map Send_response rs) v'" "prepared io name v'" "sv_ssrc v' = sv_ssrc v1" "length qs = length is"
      "is \<noteq> [] \<longrightarrow> ss_session_id (sv_session v') = Some (io_rid io) \<and> ss_transport_mode (sv_session v') = Tcp"
      "\<And>rest sent. setup_tracks env is (link ?c (map (Some \<circ> ascii) rs @ rest) sent) =
         (Client_ok (), link (?c\<lparr>cl_cseq := n, cl_session_id := (if is = [] then cl_session_id ?c else Some (io_rid io))\<rparr>)
            rest (sent @ qs))" by blast
  show ?case
  proof (cases "is = []")
    case True
    have "setup_tracks env [idx] (link c (map (Some \<circ> ascii) [r] @ rest) sent) =
        (Client_ok (), link (c\<lparr>cl_cseq := cl_cseq c + 1, cl_session_id := Some (io_rid io)\<rparr>) rest (sent @ [?q]))" for rest sent
      using r(6) by simp
    with True r show ?thesis
      by - (rule exI [of _ "[?q]"], rule exI [of _ "[r]"], rule exI [of _ v1], rule exI [of _ "cl_cseq c + 1"], simp)
  next
    case False
    have "server_takes io m (?q # qs) v (map Send_response (r # rs)) v'"
      using server_takes_append [OF r(1) i(1)] by simp
    moreover have "setup_tracks env (idx # is) (link c (map (Some \<circ> ascii) (r # rs) @ rest) sent) =
        (Client_ok (), link (c\<lparr>cl_cseq := n, cl_session_id := Some (io_rid io)\<rparr>) rest (sent @ ?q # qs))" for rest sent
      using r(6) i(6) False by simp
    ultimately show ?thesis using i(2-5) r(5) False
      by - (rule exI [of _ "?q # qs"], rule exI [of _ "r # rs"], rule exI [of _ v'], rule exI [of _ n], simp add: o_def)
  qed
qed

definition sender_new :: "stream_id \<Rightarrow> 32 word \<Rightarrow> rtp_sender" where
  "sender_new name ssrc =
     \<lparr>sn_stream_id = name, sn_udp_tracks = None, sn_ssrc = ssrc, sn_seq = Map.empty, sn_timelines = Map.empty,
      sn_await_video_idr = True\<rparr>"

lemma play_turn:
  fixes c :: rtsp_client and m :: stream_manager
  assumes "\<forall>k. ce_write env k" and "io_write io" and "is_word (cl_remote_url c)" and "session_id_ok (io_rid io)"
    and "cl_session_id c = Some (io_rid io)" and "prepared io name v" and "ss_session_id (sv_session v) = Some (io_rid io)"
    and "ss_transport_mode (sv_session v) = Tcp" and "CHR 0x0A \<notin> set name" and "ascii_text name"
  defines "q \<equiv> client_text ''PLAY'' (cl_remote_url c) (unat (cl_cseq c))
      ((''Range'', ''npt=0.000-'') # session_header (cl_session_id c))"
    and "r \<equiv> build_play_response (dec_str (unat (cl_cseq c))) (Some (io_rid io)) (build_rtp_info name m)"
  shows "\<exists>v'. server_takes io m [q] v [Send_response r, Start_sender (sender_new name (sv_ssrc v))] v'"
    "insist ''PLAY'' (send_play env (link c (Some (ascii r) # rest) sent)) =
       (Client_ok r, link (c\<lparr>cl_cseq := cl_cseq c + 1\<rparr>) rest (sent @ [q]))"
proof -
  let ?x = "io_rid io" and ?k = "unat (cl_cseq c)"
  have x: "value_ok ?x" "ascii_text ?x" using assms(4) by (simp_all add: session_id_ok_def)
  have s: "session_ok (cl_session_id c)" using assms(5) x(1) by (simp add: session_ok_def)
  have v: "ss_stream_id (sv_session v) = Some name" "\<not> sv_sender v" using assms(6) by (simp_all add: prepared_def)
  have served: "\<exists>v'. process_request io v m q =
      (Rtsp_open, v', m, [Send_response r, Start_sender (sender_new name (sv_ssrc v))])"
    unfolding q_def r_def sender_new_def
    by (rule serves_play [OF assms(3) s assms(2) v(1) assms(7) x(1) assms(9,8) v(2)])
  have takes: "process_request io v m q = (Rtsp_open, v', m, effs) \<Longrightarrow> server_takes io m [q] v effs v'" for v' effs
    unfolding q_def by (rule server_takes_one [OF _ assms(3) client_extras(4) [OF s]]) simp
  show "\<exists>v'. server_takes io m [q] v [Send_response r, Start_sender (sender_new name (sv_ssrc v))] v'"
    using served takes by blast
  show "insist ''PLAY'' (send_play env (link c (Some (ascii r) # rest) sent)) =
       (Client_ok r, link (c\<lparr>cl_cseq := cl_cseq c + 1\<rparr>) rest (sent @ [q]))"
    using client_asks [OF assms(1) successes_ok(4) [OF x(1) rtp_info_ok [OF assms(9)], of ?k m] built_as_success(4)
        ascii_text_responses(4) [OF x(2) assms(10)]]
    by (simp add: send_play_def insist_def client_sends q_def r_def answered_by_def Let_def)
qed

text \<open>The answer to \<open>DESCRIBE\<close> carries the description.\<close>

lemma sdp_of_describe: "sdp \<noteq> [] \<Longrightarrow> length sdp \<le> u64_max \<Longrightarrow> sdp_of_response (build_describe_response (dec_str k) sdp) = sdp"
proof -
  assume "sdp \<noteq> []" "length sdp \<le> u64_max"
  note ok = successes_ok(2) [OF this, of k]
  let ?r = "success (dec_str k) [(''Content-Type'', ''application/sdp'')] (Some sdp)"
  have f: "framed (response_lines ?r) sdp" "response_to_string ?r = framed_text (response_lines ?r) sdp"
    using response_framed [OF success_response(1) [OF ok]] by (simp_all add: success_def body_text_def)
  then have ls: "\<forall>l\<in>set (response_lines ?r). l \<noteq> [] \<and> CHR 0x0A \<notin> set l" "response_lines ?r \<noteq> []"
    by (simp_all add: framed_def)
  have "2 \<le> length (unlines_crlf (response_lines ?r))"
    using ls(2) by (cases "response_lines ?r") (simp_all add: unlines_crlf_def crlf_def)
  then show ?thesis
    using find_blank_line [OF ls, of sdp] f(2)
    by (simp add: sdp_of_response_def built_as_success(2) crlf_def)
qed

section \<open>The whole dialogue\<close>

lemma tracks_to_create_not_Nil: "tracks_to_create ts \<noteq> []"
  by (simp add: tracks_to_create_def)

lemma rtsp_pull_dialogue:
  fixes m :: stream_manager
  assumes "ce_url env = Some u" and "pu_host u = Some h" and "ce_connected env" and "\<forall>k. ce_write env k" and "io_write io"
    and "session_id_ok (io_rid io)" and "is_word url" and "\<not> url_prefers_udp url"
    and "extract_stream_id (lib_url_path (re_libs e)) url = name" and "CHR 0x0A \<notin> set name" and "ascii_text name"
    and "get_stream ms name = Some st" and sdp: "sdp = server_build_sdp (lib_base64 (re_libs e)) name (Some st)"
    and "length sdp \<le> u64_max" and "ascii_text sdp"
    and tracks: "tracks = tracks_to_create (parse_sdp_tracks sdp)" and m1: "m1 = rtsp_pull_register unbase64 m sid url sdp"
  shows "\<exists>qs rs v l. server_takes io ms qs (rtsp_conn_new e ssrc) (map Send_response rs @ [Start_sender (sender_new name ssrc)]) v \<and>
     rtsp_pull env unbase64 url sid (map (Some \<circ> ascii) rs) m =
       (Client_ok (Over_tcp \<lparr>pt_stream_id = sid, pt_tracks = tracks, pt_buf = [], pt_ingest = ingest_new sid, pt_running = True,
          pt_remote_url = url, pt_session_id = io_rid io, pt_cseq = 100\<rparr>), or_same m1 (set_publishing m1 sid), l) \<and>
     lk_sent l = qs \<and> length qs = length tracks + 3"
proof -
  let ?c0 = "rtsp_client_new url" and ?v0 = "rtsp_conn_new e ssrc"
  let ?c1 = "?c0\<lparr>cl_cseq := cl_cseq ?c0 + 1\<rparr>"
  let ?c2 = "?c1\<lparr>cl_cseq := cl_cseq ?c1 + 1\<rparr>"
  let ?v2 = "?v0\<lparr>sv_session := (sv_session ?v0)\<lparr>ss_stream_id := Some name\<rparr>\<rparr>"
  let ?q1 = "client_text ''OPTIONS'' (cl_remote_url ?c0) (unat (cl_cseq ?c0)) []"
  let ?r1 = "build_options_response (dec_str (unat (cl_cseq ?c0)))"
  let ?q2 = "client_text ''DESCRIBE'' (cl_remote_url ?c1) (unat (cl_cseq ?c1)) [(''Accept'', ''application/sdp'')]"
  let ?r2 = "build_describe_response (dec_str (unat (cl_cseq ?c1))) sdp"
  let ?is = "[0..<length tracks]"
  have ne: "?is \<noteq> []" using tracks_to_create_not_Nil by (simp add: tracks)
  have c0: "cl_remote_url ?c0 = url" "cl_session_id ?c0 = None" by (simp_all add: rtsp_client_new_def)
  have v0: "sv_env ?v0 = e" "ss_stream_id (sv_session ?v0) = None" "sv_ssrc ?v0 = ssrc"
    by (simp_all add: rtsp_conn_new_def rtsp_session_new_def)
  have word0: "is_word (cl_remote_url ?c0)" and word1: "is_word (cl_remote_url ?c1)" and word2: "is_word (cl_remote_url ?c2)"
    using assms(7) c0 by simp_all
  note t1 = options_turn [OF assms(4,5) word0 c0(2)]
  have desc: "cl_session_id ?c1 = None" "extract_stream_id (lib_url_path (re_libs (sv_env ?v0))) (cl_remote_url ?c1) = name"
    "sdp = server_build_sdp (lib_base64 (re_libs (sv_env ?v0))) name (Some st)"
    using assms(9) sdp c0 v0 by simp_all
  note t2 = describe_turn [OF assms(4,5) word1 desc(1,2) assms(12) desc(3) assms(14,15) v0(2)]
  have "\<not> use_udp ?c2" "cl_session_id ?c2 \<in> {None, Some (io_rid io)}" "prepared io name ?v2"
    using assms(8) c0 by (simp_all add: use_udp_def prepared_def rtsp_conn_new_def rtsp_session_new_def)
  from setup_turns [OF assms(4,5) word2 this(1) assms(6) this(2,3), of ms ?is] ne
  obtain qs rs v3 n where s: "server_takes io ms qs ?v2 (map Send_response rs) v3" "prepared io name v3" "sv_ssrc v3 = sv_ssrc ?v2"
    "length qs = length tracks" "ss_session_id (sv_session v3) = Some (io_rid io)" "ss_transport_mode (sv_session v3) = Tcp"
    "\<And>rest sent. setup_tracks env ?is (link ?c2 (map (Some \<circ> ascii) rs @ rest) sent) =
       (Client_ok (), link (?c2\<lparr>cl_cseq := n, cl_session_id := Some (io_rid io)\<rparr>) rest (sent @ qs))"
    by auto
  let ?c3 = "?c2\<lparr>cl_cseq := n, cl_session_id := Some (io_rid io)\<rparr>"
  have word3: "is_word (cl_remote_url ?c3)" and c3: "cl_session_id ?c3 = Some (io_rid io)" using word2 by simp_all
  note p = play_turn [OF assms(4,5) word3 assms(6) c3 s(2,5,6) assms(10,11), where m = ms]
  let ?q3 = "client_text ''PLAY'' (cl_remote_url ?c3) (unat (cl_cseq ?c3)) ((''Range'', ''npt=0.000-'') # session_header (cl_session_id ?c3))"
  let ?r3 = "build_play_response (dec_str (unat (cl_cseq ?c3))) (Some (io_rid io)) (build_rtp_info name ms)"
  obtain v4 where v4: "server_takes io ms [?q3] v3 [Send_response ?r3, Start_sender (sender_new name ssrc)] v4"
    using p(1) s(3) v0(3) by auto
  have "server_takes io ms ([?q1] @ [?q2] @ qs @ [?q3]) ?v0
      ([Send_response ?r1] @ [Send_response ?r2] @ map Send_response rs @ [Send_response ?r3, Start_sender (sender_new name ssrc)]) v4"
    by (intro server_takes_append [OF t1(1)] server_takes_append [OF t2(1)] server_takes_append [OF s(1)] v4)
  moreover have "rtsp_pull env unbase64 url sid (map (Some \<circ> ascii) (?r1 # ?r2 # rs @ [?r3])) m =
      (Client_ok (Over_tcp (pull_task_new (?c3\<lparr>cl_cseq := n + 1\<rparr>) sid tracks)), or_same m1 (set_publishing m1 sid),
       link (?c3\<lparr>cl_cseq := n + 1\<rparr>) [] (?q1 # ?q2 # qs @ [?q3]))"
  proof -
    have "sdp \<noteq> []" using sdp server_sdp_not_Nil by simp
    from sdp_of_describe [OF this assms(14)] have body: "sdp_of_response ?r2 = sdp" .
    have url: "cl_remote_url ?c2 = url" using c0 by simp
    have udp: "\<not> use_udp (?c3\<lparr>cl_cseq := n + 1\<rparr>)" using assms(8) c0 by (simp add: use_udp_def)
    have play: "insist ''PLAY'' (send_play env (link ?c3 [Some (ascii ?r3)] ([?q1, ?q2] @ qs))) =
        (Client_ok ?r3, link (?c3\<lparr>cl_cseq := n + 1\<rparr>) [] (([?q1, ?q2] @ qs) @ [?q3]))"
      using p(2) by simp
    have begun: "rtsp_pull_setup env unbase64 sid ?r2 (link ?c2 (map (Some \<circ> ascii) rs @ [Some (ascii ?r3)]) [?q1, ?q2]) m =
        (Client_ok (Over_tcp (pull_task_new (?c3\<lparr>cl_cseq := n + 1\<rparr>) sid tracks)), or_same m1 (set_publishing m1 sid),
         link (?c3\<lparr>cl_cseq := n + 1\<rparr>) [] (([?q1, ?q2] @ qs) @ [?q3]))"
      unfolding rtsp_pull_setup_def Let_def body tracks [symmetric] rtsp_link.select_convs url m1 [symmetric] s(7) prod.case
        client_result.case play
      using udp by simp
    obtain a where "client_connect env = Inr a" using assms(1-3) by (auto simp: client_connect_def remote_host_def)
    moreover have "insist ''OPTIONS'' (send_options env (link ?c0 (Some (ascii ?r1) # rest) [])) = (Client_ok ?r1, link ?c1 rest [?q1])"
      "insist ''DESCRIBE'' (send_describe env (link ?c1 (Some (ascii ?r2) # rest) [?q1])) = (Client_ok ?r2, link ?c2 rest [?q1, ?q2])"
      for rest using t1(2) [of rest "[]"] t2(2) [of rest "[?q1]"] by simp_all
    ultimately show ?thesis using begun by (simp add: rtsp_pull_def)
  qed
  ultimately show ?thesis
    using s(4)
    by - (rule exI [of _ "[?q1] @ [?q2] @ qs @ [?q3]"], rule exI [of _ "?r1 # ?r2 # rs @ [?r3]"], rule exI [of _ v4],
      rule exI [of _ "link (?c3\<lparr>cl_cseq := n + 1\<rparr>) [] (?q1 # ?q2 # qs @ [?q3])"], simp add: pull_task_new_def rtsp_client_new_def)
qed

end
