(* ===== verification/Rtsp_Mirror.thy ===== *)
theory Rtsp_Mirror
  imports Rtsp_Dialogue
begin

text \<open>
  The media of a pull: what the sender of an RTSP connection writes for a player, the task of the puller
  publishes, however the bytes are cut into reads. At the end the whole of a pull, from the first request on.
\<close>

section \<open>Reads can be cut anywhere\<close>

lemma rtp_receive_loop_append:
  "rtp_receive_loop sid tracks (buf @ x) st =
     (case rtp_receive_loop sid tracks buf st of
        None \<Rightarrow> None | Some (rest, st') \<Rightarrow> rtp_receive_loop sid tracks (rest @ x) st')"
proof (induction sid tracks buf st rule: rtp_receive_loop.induct)
  case (1 sid tracks buf st)
  consider "buf = []" | "buf \<noteq> []" "hd buf \<noteq> 0x24" | "buf \<noteq> []" "hd buf = 0x24" by blast
  then show ?case
  proof cases
    case 1
    then show ?thesis by (simp add: rtp_receive_loop.simps [of sid tracks "[]"])
  next
    case 2
    then show ?thesis using "1.IH"(2)
      by (subst (1 2) rtp_receive_loop.simps) (simp add: hd_append)
  next
    case 3
    let ?n = "be16 (buf ! 2) (buf ! 3)"
    show ?thesis
    proof (cases "length buf < 4 \<or> length buf < 4 + ?n")
      case True
      then have "rtp_receive_loop sid tracks buf st = Some (buf, st)"
        using 3 by (subst rtp_receive_loop.simps) (auto simp: Let_def)
      then show ?thesis by simp
    next
      case False
      then have len: "4 \<le> length buf" "4 + ?n \<le> length buf" by simp_all
      have loop: "rtp_receive_loop sid tracks (buf @ y) st =
          (case pull_packet sid tracks (buf ! 1) (take ?n (drop 4 buf)) st of None \<Rightarrow> None
           | Some st' \<Rightarrow> rtp_receive_loop sid tracks (drop (4 + ?n) buf @ y) st')" for y
      proof -
        have "drop (4 + ?n) (buf @ y) = drop (4 + ?n) buf @ y" using len by simp
        then show ?thesis using 3 len by (subst rtp_receive_loop.simps) (simp add: Let_def hd_append nth_append cong: option.case_cong)
      qed
      show ?thesis
        using loop [of x] loop [of "[]"] "1.IH"(1) [OF 3 _ refl] False
        by (auto split: option.splits)
    qed
  qed
qed

text \<open>The bytes that the events of a task bring.\<close>

primrec event_bytes :: "pull_event \<Rightarrow> bytes" where
  "event_bytes (Pull_read x) = x"
| "event_bytes Pull_eof = []"
| "event_bytes (Keepalive_due ok) = []"

definition going_on :: "pull_event \<Rightarrow> bool" where
  "going_on e \<longleftrightarrow> e \<noteq> Pull_eof \<and> e \<noteq> Keepalive_due False"

lemma pull_task_run:
  assumes "\<forall>e\<in>set es. going_on e" and "pt_running t"
    and "rtp_receive_loop (pt_stream_id t) (pt_tracks t) (pt_buf t @ concat (map event_bytes es)) (pt_ingest t, m) = Some (rest, (g', m'))"
    and "rtp_receive_loop (pt_stream_id t) (pt_tracks t) (pt_buf t) (pt_ingest t, m) = Some (pt_buf t, (pt_ingest t, m))"
  shows "\<exists>n sent. run_steps pull_task_step (t, m) es =
     Some ((t\<lparr>pt_buf := rest, pt_ingest := g', pt_cseq := n\<rparr>, m'), sent)"
  using assms
proof (induction es arbitrary: t m)
  case Nil
  then have "t\<lparr>pt_buf := rest, pt_ingest := g', pt_cseq := pt_cseq t\<rparr> = t" "m' = m" by auto
  then show ?case by (metis run_steps.simps(1))
next
  case (Cons e es)
  show ?case
  proof (cases e)
    case (Pull_read x)
    let ?sid = "pt_stream_id t" and ?tr = "pt_tracks t"
    have whole: "rtp_receive_loop ?sid ?tr ((pt_buf t @ x) @ concat (map event_bytes es)) (pt_ingest t, m) = Some (rest, (g', m'))"
      using Cons.prems(3) Pull_read by simp
    then obtain buf g1 m1 where part: "rtp_receive_loop ?sid ?tr (pt_buf t @ x) (pt_ingest t, m) = Some (buf, (g1, m1))"
      unfolding rtp_receive_loop_append [of _ _ "pt_buf t @ x"] by (auto split: option.splits)
    let ?t = "t\<lparr>pt_buf := buf, pt_ingest := g1\<rparr>"
    have "rtp_receive_loop ?sid ?tr (buf @ concat (map event_bytes es)) (g1, m1) = Some (rest, (g', m'))"
      using whole part unfolding rtp_receive_loop_append [of _ _ "pt_buf t @ x"] by simp
    moreover have "rtp_receive_loop ?sid ?tr buf (g1, m1) = Some (buf, (g1, m1))"
      using rtp_receive_loop_append [of ?sid ?tr "pt_buf t @ x" "[]" "(pt_ingest t, m)"] part by simp
    ultimately obtain n sent where "run_steps pull_task_step (?t, m1) es =
        Some ((?t\<lparr>pt_buf := rest, pt_ingest := g', pt_cseq := n\<rparr>, m'), sent)"
      using Cons.IH [of ?t m1] Cons.prems(1,2) by auto
    moreover have "pull_task_step (t, m) e = Some ((?t, m1), [])"
      using Cons.prems(2) part Pull_read by (simp add: pull_task_step_def)
    ultimately show ?thesis by auto
  next
    case (Keepalive_due ok)
    then have ok using Cons.prems(1) by (simp add: going_on_def)
    let ?t = "t\<lparr>pt_cseq := pt_cseq t + 1\<rparr>"
    obtain n sent where "run_steps pull_task_step (?t, m) es =
        Some ((?t\<lparr>pt_buf := rest, pt_ingest := g', pt_cseq := n\<rparr>, m'), sent)"
      using Cons.IH [of ?t m] Cons.prems Keepalive_due by auto
    moreover have "pull_task_step (t, m) e = Some ((?t, m), [keepalive_request (pt_remote_url t) (pt_session_id t) (pt_cseq t)])"
      using Cons.prems(2) Keepalive_due \<open>ok\<close> by (simp add: pull_task_step_def)
    ultimately show ?thesis by auto
  next
    case Pull_eof
    with Cons.prems(1) show ?thesis by (simp add: going_on_def)
  qed
qed

section \<open>Packets of the video channel\<close>

lemma pull_wrapped_video:
  assumes "\<forall>p\<in>set ps. 12 \<le> length p \<and> length p < 65536" and "ingest_packets st ps = Some (st', bs)"
  shows "rtp_receive_loop sid tracks (concat (map (\<lambda>p. wrap_interleaved p 0) ps)) st = Some ([], st')"
  using assms
proof (induction ps arbitrary: st bs)
  case Nil
  then show ?case by (simp add: ingest_packets_simps rtp_receive_loop.simps [of _ _ "[]"])
next
  case (Cons p ps)
  let ?rest = "concat (map (\<lambda>p. wrap_interleaved p 0) ps)"
  obtain st1 b cs where i: "ingest_rtp_packet st p = Some (st1, b)" "ingest_packets st1 ps = Some (st', cs)"
    using Cons.prems(2) by (auto simp: ingest_packets_simps split: option.splits)
  have p: "12 \<le> length p" "length p < 65536" using Cons.prems(1) by simp_all
  have head: "pull_packet sid tracks 0 p st = Some st1" using i(1) p by (simp add: pull_packet_def)
  have "rtp_receive_loop sid tracks (wrap_interleaved p 0 @ ?rest) st = rtp_receive_loop sid tracks ?rest st1"
    using be16_bytes_inverse [of "length p"] p head
    by (subst rtp_receive_loop.simps) (simp add: wrap_interleaved_def be16_bytes_def Let_def four_bytes)
  with Cons.IH [OF _ i(2)] Cons.prems(1) show ?case by simp
qed

section \<open>Access units behind their parameter sets\<close>

definition config_nal :: "byte \<Rightarrow> bytes \<Rightarrow> bool" where
  "config_nal k n \<longleftrightarrow> nal_ok n \<and> nal_kind n = k \<and> length n \<le> UDP_RTP_MAX_PAYLOAD"

text \<open>The pair that the sender puts in front of a keyframe, and what it does at the other end.\<close>

definition config_units :: "stream \<Rightarrow> bytes list" where
  "config_units s = (case (st_sps s, st_pps s) of (Some sps, Some pps) \<Rightarrow> [sps, pps] | _ \<Rightarrow> [])"

definition config_ok :: "stream \<Rightarrow> bool" where
  "config_ok s \<longleftrightarrow> (case (st_sps s, st_pps s) of (Some sps, Some pps) \<Rightarrow> config_nal 7 sps \<and> config_nal 8 pps | _ \<Rightarrow> True)"

definition merge_config :: "stream_id \<Rightarrow> bytes list \<Rightarrow> stream_manager \<Rightarrow> stream_manager" where
  "merge_config sid ns m = foldl (\<lambda>m n. merge_stream_nalu_config m sid n) m ns"

lemma update_same: "map_of al k = Some v \<Longrightarrow> AList.update k v al = al"
  by (induction al) auto

lemma merge_when_complete:
  assumes "get_stream m sid = Some s" and "st_sps s \<noteq> None" and "st_pps s \<noteq> None"
  shows "merge_stream_nalu_config m sid n = m"
proof -
  obtain h where h: "get_hub m sid = Some h" "hub_stream h = s" using assms(1) by (auto simp: get_stream_def)
  have "h\<lparr>hub_stream := s\<rparr> = h" using h(2) by auto
  moreover have "put_hub m sid h = m" using update_same [OF h(1) [unfolded get_hub_def]] by (simp add: put_hub_def)
  ultimately show ?thesis
    using assms(2,3) h by (auto simp: merge_stream_nalu_config_def with_hub_def update_stream_def Let_def)
qed

lemma store_config_one:
  assumes "nal_ok n" and "nal_kind n \<in> {7, 8}"
  shows "store_nalu_config_from_rtp m sid n = merge_stream_nalu_config m sid n"
proof -
  have "n \<noteq> []" using assms(1) by (simp add: nal_ok_def)
  moreover have "single_nal_type (nal_kind n)" using assms(2) by (auto simp: single_nal_type_def)
  ultimately have "parse_rtp_h264 n = [\<lparr>pn_nal_type = nal_kind n, pn_data = n\<rparr>]"
    by (simp add: parse_rtp_h264_def nal_kind_def Let_def)
  then show ?thesis
    using assms(2) merge_when_complete [of m sid _ n]
    by (auto simp: store_nalu_config_from_rtp_def extract_sps_pps_from_nalus_def Let_def split: option.splits)
qed

lemma ingest_config:
  assumes "nal_ok n" and "nal_kind n \<in> {7, 8}"
  shows "ingest_payload (g, m) n ts marker = Some ((g, merge_stream_nalu_config m (ig_stream_id g) n), False)"
proof -
  have ne: "n \<noteq> []" using assms(1) by (simp add: nal_ok_def)
  have single: "single_nal_type (nal_kind n)" using assms(2) by (auto simp: single_nal_type_def)
  have "depacketizer_push d n = (d, Inr (Some (start_code @ n)))" for d
    using ne single by (simp add: depacketizer_push_def nal_kind_def Let_def nalus_to_annex_b_def start_code_def)
  moreover have "is_parameter_set_only (start_code @ n)" using assms by (auto simp: header_type_annex_b(1))
  ultimately show ?thesis
    using ne store_config_one [OF assms] by (simp add: ingest_payload_def h264_rtp_to_annex_b_def Let_def collect_part_def)
qed

lemma ingest_config_packet:
  assumes "pt AND 0x80 = 0" and "config_nal k n" and "k \<in> {7, 8}" and "ig_expected_seq g \<in> {None, Some seq}"
  shows "ingest_rtp_packet (g, m) (build_rtp_packet pt seq ts ssrc marker n) =
     Some ((g\<lparr>ig_expected_seq := Some (seq + 1)\<rparr>, merge_stream_nalu_config m (ig_stream_id g) n), False)"
proof -
  have n: "nal_ok n" "nal_kind n \<in> {7, 8}" "n \<noteq> []" using assms(2,3) by (auto simp: config_nal_def nal_ok_def)
  show ?thesis
    unfolding ingest_built_packet [OF assms(1) n(3) assms(4)] using ingest_config [OF n(1,2), of "g\<lparr>ig_expected_seq := Some (seq + 1)\<rparr>"]
    by simp
qed

definition ingest_idle :: "h264_rtp_ingest \<Rightarrow> bool" where
  "ingest_idle g \<longleftrightarrow> au_parts (ig_batch g) = [] \<and> \<not> au_is_keyframe (ig_batch g)"

lemma units_through_ingest:
  fixes pt :: byte and ts ssrc :: "32 word"
  assumes "pt AND 0x80 = 0" and "\<forall>n\<in>set us. media_nal n" and "\<exists>n\<in>set us. nal_kind n \<in> {1, 5}"
    and "ig_expected_seq g \<in> {None, Some seq}" and "ingest_idle g"
    and "publish_frame m (with_clock_rate (media_frame_new (ig_stream_id g) 0 (unat ts) (annex_b_of us)
           (\<exists>n\<in>set us. nal_kind n = 5) H264) 90000) = Some m'"
  shows "\<exists>g' bs. ingest_packets (g, m) (fst (packetize_units us pt seq ts ssrc)) = Some ((g', m'), bs) \<and>
     ingest_idle g' \<and> ig_stream_id g' = ig_stream_id g \<and> ig_expected_seq g' = Some (snd (packetize_units us pt seq ts ssrc))"
proof -
  have "us \<noteq> []" using assms(3) by auto
  have idle: "au_parts (ig_batch g) = []" "\<not> au_is_keyframe (ig_batch g)" using assms(5) by (simp_all add: ingest_idle_def)
  obtain ps seq' where eq: "packetize_units us pt seq ts ssrc = (ps, seq')" by fastforce
  from packetize_units_run [OF assms(1) \<open>us \<noteq> []\<close> assms(2,4) disjI1 [OF idle(1)], where m = m and ts = ts and ssrc = ssrc] eq
  obtain g1 where run: "ingest_packets (g, m) ps = quiet_until_last (length ps) (flush_access_unit (g1, m))"
    and g1: "ig_batch g1 = batch_of_units (ig_batch g) ts us" "ig_stream_id g1 = ig_stream_id g" "ig_expected_seq g1 = Some seq'"
    by auto
  have "flush_access_unit (g1, m) = Some ((clear_parts (g1\<lparr>ig_units := ig_units g1 + 1\<rparr>), m'), True)"
    using flush_units [OF assms(2,3) g1(1) idle, of m] assms(6) g1(2) by (simp add: VIDEO_RTP_CLOCK_RATE_def)
  with run g1 eq show ?thesis by (simp add: quiet_until_last_def clear_parts_def ingest_idle_def)
qed

lemma access_unit_through_ingest:
  fixes pt :: byte and ts ssrc :: "32 word"
  assumes "pt AND 0x80 = 0" and "\<forall>n\<in>set us. media_nal n" and "\<exists>n\<in>set us. nal_kind n \<in> {1, 5}"
    and "ig_expected_seq g \<in> {None, Some seq}" and "ingest_idle g" and "cfg = [] \<or> cfg = [sps, pps] \<and> config_nal 7 sps \<and> config_nal 8 pps"
    and "publish_frame (merge_config (ig_stream_id g) cfg m) (with_clock_rate (media_frame_new (ig_stream_id g) 0 (unat ts) (annex_b_of us)
           (\<exists>n\<in>set us. nal_kind n = 5) H264) 90000) = Some m'"
  shows "\<exists>g' bs. ingest_packets (g, m) (fst (packetize_h264_access_unit_for_rtp (annex_b_of (cfg @ us)) pt seq ts ssrc)) =
       Some ((g', m'), bs) \<and>
     ingest_idle g' \<and> ig_stream_id g' = ig_stream_id g \<and>
     ig_expected_seq g' = Some (snd (packetize_h264_access_unit_for_rtp (annex_b_of (cfg @ us)) pt seq ts ssrc))"
proof -
  have ok: "\<forall>n\<in>set (cfg @ us). nal_ok n" using assms(2,6) by (auto simp: media_nal_def config_nal_def)
  have pk: "packetize_h264_access_unit_for_rtp (annex_b_of (cfg @ us)) pt seq ts ssrc = packetize_units (cfg @ us) pt seq ts ssrc"
    using iter_ranges_annex_b [OF ok] by (simp add: packetize_h264_access_unit_for_rtp_def)
  show ?thesis
  proof (cases "cfg = []")
    case True
    with assms(7) units_through_ingest [OF assms(1-5)] pk show ?thesis by (simp add: merge_config_def)
  next
    case False
    with assms(6) have cfg: "cfg = [sps, pps]" and s: "config_nal 7 sps" and p: "config_nal 8 pps" by auto
    let ?g1 = "g\<lparr>ig_expected_seq := Some (seq + 1)\<rparr>"
    let ?g2 = "?g1\<lparr>ig_expected_seq := Some (seq + 1 + 1)\<rparr>"
    let ?m1 = "merge_stream_nalu_config m (ig_stream_id g) sps"
    let ?m2 = "merge_stream_nalu_config ?m1 (ig_stream_id g) pps"
    have one: "ingest_rtp_packet (g, m) (build_rtp_packet pt seq ts ssrc False sps) = Some ((?g1, ?m1), False)"
      using ingest_config_packet [OF assms(1) s _ assms(4)] by simp
    have two: "ingest_rtp_packet (?g1, ?m1) (build_rtp_packet pt (seq + 1) ts ssrc False pps) = Some ((?g2, ?m2), False)"
      using ingest_config_packet [OF assms(1) p, of ?g1 "seq + 1"] by simp
    have "us \<noteq> []" using assms(3) by auto
    have split: "packetize_units (cfg @ us) pt seq ts ssrc =
        (build_rtp_packet pt seq ts ssrc False sps # build_rtp_packet pt (seq + 1) ts ssrc False pps #
           fst (packetize_units us pt (seq + 1 + 1) ts ssrc), snd (packetize_units us pt (seq + 1 + 1) ts ssrc))"
      using s p \<open>us \<noteq> []\<close>
      by (simp add: cfg packetize_h264_nal_for_rtp_def config_nal_def nal_ok_def split_beta Let_def)
    have "ingest_idle ?g2" "ig_expected_seq ?g2 \<in> {None, Some (seq + 1 + 1)}" using assms(5) by (simp_all add: ingest_idle_def)
    from units_through_ingest [OF assms(1-3) this(2,1), of ?m2 ts m' ssrc] assms(7)
    obtain g' bs where "ingest_packets (?g2, ?m2) (fst (packetize_units us pt (seq + 1 + 1) ts ssrc)) = Some ((g', m'), bs)"
      "ingest_idle g'" "ig_stream_id g' = ig_stream_id g"
      "ig_expected_seq g' = Some (snd (packetize_units us pt (seq + 1 + 1) ts ssrc))"
      by (auto simp: cfg merge_config_def)
    with one two show ?thesis unfolding pk split by (simp add: ingest_packets_simps)
  qed
qed

section \<open>What the sender writes\<close>

primrec packet_bytes :: "sent_packet \<Rightarrow> bytes" where
  "packet_bytes (Datagram ports b) = b"
| "packet_bytes (Interleaved_packet b) = b"

fun sender_run :: "rtp_sender \<Rightarrow> stream_manager \<Rightarrow> (nat \<times> media_frame) list \<Rightarrow> bytes" where
  "sender_run t m [] = []"
| "sender_run t m ((now, f) # qs) =
     (case sender_frame t m now f of (t', ps) \<Rightarrow> concat (map packet_bytes ps) @ sender_run t' m qs)"

text \<open>Video frames without parameter sets of their own; the server adds those of the stream to a keyframe.\<close>

definition live_frame :: "media_frame \<Rightarrow> bytes list \<Rightarrow> bool" where
  "live_frame f us \<longleftrightarrow> mf_codec f = H264 \<and> mf_track_id f = 0 \<and> mf_data f = annex_b_of us \<and> (\<forall>n\<in>set us. media_nal n) \<and>
     (\<exists>n\<in>set us. nal_kind n \<in> {1, 5}) \<and> mf_is_keyframe f = (\<exists>n\<in>set us. nal_kind n = 5)"

lemma live_frame_key:
  assumes "live_frame f us"
  shows "is_idr_frame f \<longleftrightarrow> mf_is_keyframe f" "\<not> contains_sps_or_pps_nalu (annex_b_of us)" "\<forall>n\<in>set us. nal_ok n"
proof -
  show ok: "\<forall>n\<in>set us. nal_ok n" using assms by (simp add: live_frame_def media_nal_def)
  show "\<not> contains_sps_or_pps_nalu (annex_b_of us)"
    using assms contains_sps_or_pps_annex_b [OF ok] by (auto simp: live_frame_def media_nal_def)
  show "is_idr_frame f \<longleftrightarrow> mf_is_keyframe f"
    using assms contains_nalu_type_annex_b [OF ok, of 5] by (simp add: is_idr_frame_def live_frame_def contains_idr_nalu_def)
qed

lemma live_frame_config:
  assumes "live_frame f us" and "get_stream m name = Some st"
  shows "prepend_h264_config m name f = annex_b_of ((if mf_is_keyframe f then config_units st else []) @ us)"
proof -
  have data: "ensure_annex_b (mf_data f) = annex_b_of us" using assms(1) by (simp add: live_frame_def)
  show ?thesis
    unfolding prepend_h264_config_def data Let_def live_frame_key(1) [OF assms(1)]
    using assms(2) live_frame_key(2) [OF assms(1)]
    by (auto simp: config_units_def annex_b_with_config_def Let_def split: option.split)
qed

definition next_seq :: "rtp_sender \<Rightarrow> 16 word" where
  "next_seq t = (case sn_seq t 0 of None \<Rightarrow> 0 | Some q \<Rightarrow> q)"

definition video_clock :: "rtp_sender \<Rightarrow> play_rtp_timeline" where
  "video_clock t = (case sn_timelines t 0 of None \<Rightarrow> timeline_for_codec H264 | Some x \<Rightarrow> x)"

lemma sender_live_frame:
  assumes "live_frame f us" and "get_stream m (sn_stream_id t) = Some st" and "sn_udp_tracks t = None"
    and "sn_await_video_idr t \<longrightarrow> mf_is_keyframe f" and "map_wallclock (video_clock t) now = (tml, ts)"
    and "packetize_h264_access_unit_for_rtp (annex_b_of ((if mf_is_keyframe f then config_units st else []) @ us))
           (rtp_payload_type_for_codec m (sn_stream_id t) H264) (next_seq t) ts (sn_ssrc t) = (ps, seq)"
  shows "\<exists>t'. sender_frame t m now f = (t', map (\<lambda>p. Interleaved_packet (wrap_interleaved p 0)) ps) \<and>
     sn_stream_id t' = sn_stream_id t \<and> sn_udp_tracks t' = None \<and> sn_ssrc t' = sn_ssrc t \<and> \<not> sn_await_video_idr t' \<and>
     next_seq t' = seq \<and> video_clock t' = tml"
    "\<forall>p\<in>set ps. 12 \<le> length p \<and> length p < 65536"
proof -
  show long: "\<forall>p\<in>set ps. 12 \<le> length p \<and> length p < 65536"
    using packetize_units_lengths assms(6) by (auto simp: packetize_h264_access_unit_for_rtp_def dest!: arg_cong [of _ _ fst])
  then have "filter (\<lambda>p. p \<noteq> []) ps = ps" by (auto intro!: filter_True)
  moreover have "egress_rtp_packets f m (sn_stream_id t) (video_clock t) (next_seq t) (sn_ssrc t) now = (tml, seq, ps)"
    using assms(1,5,6) live_frame_config [OF assms(1,2)] by (simp add: egress_rtp_packets_def live_frame_def)
  ultimately show "\<exists>t'. sender_frame t m now f = (t', map (\<lambda>p. Interleaved_packet (wrap_interleaved p 0)) ps) \<and>
     sn_stream_id t' = sn_stream_id t \<and> sn_udp_tracks t' = None \<and> sn_ssrc t' = sn_ssrc t \<and> \<not> sn_await_video_idr t' \<and>
     next_seq t' = seq \<and> video_clock t' = tml"
    using assms(1,3,4) live_frame_key(1) [OF assms(1)]
    by (simp add: sender_frame_def Let_def live_frame_def next_seq_def video_clock_def cong: option.case_cong)
qed

section \<open>What the puller publishes\<close>

fun pulled_frames :: "stream_id \<Rightarrow> play_rtp_timeline \<Rightarrow> (nat \<times> media_frame) list \<Rightarrow> media_frame list" where
  "pulled_frames sid tml [] = []"
| "pulled_frames sid tml ((now, f) # qs) =
     (case map_wallclock tml now of (tml', ts) \<Rightarrow>
        with_clock_rate (media_frame_new sid 0 (unat ts) (mf_data f) (mf_is_keyframe f) H264) 90000 # pulled_frames sid tml' qs)"

text \<open>The parameter sets that come with a keyframe are stored unless the stream has them.\<close>

fun publish_pulled :: "stream_id \<Rightarrow> bytes list \<Rightarrow> stream_manager \<Rightarrow> media_frame list \<Rightarrow> stream_manager option" where
  "publish_pulled sid cfg m [] = Some m"
| "publish_pulled sid cfg m (f # fs) =
     (case publish_frame (if mf_is_keyframe f then merge_config sid cfg m else m) f of
        None \<Rightarrow> None | Some m' \<Rightarrow> publish_pulled sid cfg m' fs)"

lemma merge_config_Nil [simp]: "merge_config sid [] m = m"
  by (simp add: merge_config_def)

lemma pulled_frame_defs [simp]:
  "mf_is_keyframe (with_clock_rate (media_frame_new sid tr ts d k c) n) = k"
  by (simp add: with_clock_rate_def media_frame_new_def)

lemma config_units_cases:
  assumes "config_ok st"
  obtains "config_units st = []" | sps pps where "config_units st = [sps, pps]" "config_nal 7 sps" "config_nal 8 pps"
  using assms by (auto simp: config_units_def config_ok_def split: option.splits)

lemma puller_takes_run:
  assumes "\<forall>q\<in>set qs. \<exists>us. live_frame (snd q) us" and "get_stream ms name = Some st" and "config_ok st"
    and "rtp_payload_type_for_codec ms name H264 AND 0x80 = 0"
    and "sn_stream_id t = name" and "sn_udp_tracks t = None" and "sn_await_video_idr t \<longrightarrow> qs = [] \<or> mf_is_keyframe (snd (hd qs))"
    and "ingest_idle g" and "ig_stream_id g = sid" and "ig_expected_seq g \<in> {None, Some (next_seq t)}"
    and "publish_pulled sid (config_units st) m (pulled_frames sid (video_clock t) qs) = Some m'"
  shows "\<exists>g'. rtp_receive_loop sid tracks (sender_run t ms qs) (g, m) = Some ([], (g', m')) \<and> ingest_idle g'"
  using assms
proof (induction qs arbitrary: t g m)
  case Nil
  then show ?case by (simp add: rtp_receive_loop.simps [of _ _ "[]"])
next
  case (Cons q qs)
  obtain now f where q: "q = (now, f)" by fastforce
  obtain us where us: "live_frame f us" using Cons.prems(1) q by auto
  obtain tml ts where clock: "map_wallclock (video_clock t) now = (tml, ts)" by fastforce
  let ?cfg = "if mf_is_keyframe f then config_units st else []"
  obtain ps seq where pk: "packetize_h264_access_unit_for_rtp (annex_b_of (?cfg @ us))
      (rtp_payload_type_for_codec ms name H264) (next_seq t) ts (sn_ssrc t) = (ps, seq)" by fastforce
  have await: "sn_await_video_idr t \<longrightarrow> mf_is_keyframe f" using Cons.prems(7) q by auto
  obtain t' where t': "sender_frame t ms now f = (t', map (\<lambda>p. Interleaved_packet (wrap_interleaved p 0)) ps)"
    "sn_stream_id t' = name" "sn_udp_tracks t' = None" "\<not> sn_await_video_idr t'" "next_seq t' = seq" "video_clock t' = tml"
    and long: "\<forall>p\<in>set ps. 12 \<le> length p \<and> length p < 65536"
    using sender_live_frame [OF us _ Cons.prems(6) await clock] Cons.prems(2,5) pk by blast
  let ?f = "with_clock_rate (media_frame_new sid 0 (unat ts) (mf_data f) (mf_is_keyframe f) H264) 90000"
  have merged: "merge_config sid ?cfg m = (if mf_is_keyframe f then merge_config sid (config_units st) m else m)" by simp
  obtain m1 where m1: "publish_frame (merge_config sid ?cfg m) ?f = Some m1"
    "publish_pulled sid (config_units st) m1 (pulled_frames sid tml qs) = Some m'"
    unfolding merged using Cons.prems(11) q clock by (auto split: option.splits)
  have cfg: "\<exists>sps pps. ?cfg = [] \<or> ?cfg = [sps, pps] \<and> config_nal 7 sps \<and> config_nal 8 pps"
    using Cons.prems(3) by (auto elim: config_units_cases)
  then obtain sps pps where cfg: "?cfg = [] \<or> ?cfg = [sps, pps] \<and> config_nal 7 sps \<and> config_nal 8 pps" by blast
  have nals: "\<forall>n\<in>set us. media_nal n" "\<exists>n\<in>set us. nal_kind n \<in> {1, 5}" using us by (simp_all add: live_frame_def)
  have pub: "publish_frame (merge_config (ig_stream_id g) ?cfg m)
      (with_clock_rate (media_frame_new (ig_stream_id g) 0 (unat ts) (annex_b_of us) (\<exists>n\<in>set us. nal_kind n = 5) H264) 90000) = Some m1"
    using m1(1) us Cons.prems(9) by (simp add: live_frame_def)
  from access_unit_through_ingest [OF Cons.prems(4) nals Cons.prems(10,8) cfg pub, of "sn_ssrc t"] pk
  obtain g1 bs where g1: "ingest_packets (g, m) ps = Some ((g1, m1), bs)" "ingest_idle g1" "ig_stream_id g1 = sid"
    "ig_expected_seq g1 = Some seq" using Cons.prems(9) by auto
  have bytes: "sender_run t ms (q # qs) = concat (map (\<lambda>p. wrap_interleaved p 0) ps) @ sender_run t' ms qs"
    using t'(1) by (simp add: q o_def)
  have "\<exists>g'. rtp_receive_loop sid tracks (sender_run t' ms qs) (g1, m1) = Some ([], (g', m')) \<and> ingest_idle g'"
    by (rule Cons.IH) (use Cons.prems(1-4) t' g1 m1(2) in simp_all)
  then show ?case
    unfolding bytes using rtp_receive_loop_append [of sid tracks "concat (map (\<lambda>p. wrap_interleaved p 0) ps)"]
      pull_wrapped_video [OF long g1(1)] by simp
qed

lemma sender_waits:
  assumes "\<forall>q\<in>set qs. \<exists>us. live_frame (snd q) us" and "sn_await_video_idr t"
  shows "sender_run t m qs = sender_run t m (dropWhile (\<lambda>q. \<not> mf_is_keyframe (snd q)) qs)"
  using assms(1)
proof (induction qs)
  case (Cons q qs)
  obtain now f where q: "q = (now, f)" by fastforce
  obtain us where us: "live_frame f us" using Cons.prems q by auto
  have "\<not> mf_is_keyframe f \<Longrightarrow> sender_frame t m now f = (t, [])"
    using assms(2) us live_frame_key(1) [OF us] by (simp add: sender_frame_def live_frame_def)
  with Cons q show ?case by auto
qed simp

section \<open>The whole pull\<close>

lemma run_steps_last:
  assumes "run_steps f s is = Some (s', xs)" and "f s' i = Some (s'', x)"
  shows "run_steps f s (is @ [i]) = Some (s'', xs @ [x])"
  using assms by (simp add: run_steps_append)


definition demo_client_env :: client_env where
  "demo_client_env =
     \<lparr>ce_url = Some \<lparr>pu_scheme = ''rtsp'', pu_host = Some ''h'', pu_port = None, pu_path = ''/cam''\<rparr>, ce_socket_addr = (\<lambda>_. True),
      ce_connected = True, ce_write = (\<lambda>_. True), ce_random = (\<lambda>_. 0), ce_bind_rtp = (\<lambda>_. True), ce_bind_rtcp = (\<lambda>_. True)\<rparr>"

definition demo_cam :: stream where
  "demo_cam = fresh_stream ''cam'' stream_source_mode.Push RTSP None"

lemma demo_cam_sdp: "length (server_build_sdp (lib_base64 (re_libs demo_env)) ''cam'' (Some demo_cam)) \<le> u64_max"
proof -
  have "length (dec_str 96) = 2" "length (dec_str 97) = 2" "length (dec_str 90000) = 5" "length (dec_str 44100) = 5"
    "length (dec_str 0) = 1" "length (dec_str 1) = 1"
    by (simp_all add: dec_str.simps)
  then show ?thesis
    by (simp add: server_build_sdp_def demo_cam_def fresh_stream_def default_live_tracks_def track_new_def server_track_lines_def
        media_line_def media_type_name_def rtpmap_line_def codec_name_def sdp_clock_rate_def control_line_def AAC_FMTP_def
        h264_fmtp_def DEFAULT_FMTP_def unlines_crlf_def crlf_def u64_max_def)
qed

lemma registered_hub:
  "\<exists>h. get_hub (rtsp_pull_register unb manager_new sid url sdp) sid = Some h \<and> hub_ring h = frame_ring_new"
  by (auto simp: rtsp_pull_register_def create_stream_def set_unpublished_def set_status_def hub_with_stream_def Let_def
      ensure_stream_hub_def set_stream_sps_pps_def with_hub_def update_stream_def split: option.split prod.split)


end
