(* ===== verification/Rtsp_Pull_Runs.thy ===== *)
theory Rtsp_Pull_Runs
  imports Rtsp_Dialogue
begin

text \<open>
  What a pull over RTSP does to the registry, whatever the remote server sends: it acts on its own stream
  only, as a client of the registry; how it leaves the stream; and how it numbers its requests. The locale
  \<open>rtsp_pull_invariant\<close> extends the contract of the RTMP puller by the operation that only RTP needs.
\<close>

section \<open>What every pull keeps\<close>

locale rtsp_pull_invariant = pull_invariant +
  assumes merged: "P m \<Longrightarrow> P (merge_stream_nalu_config m sid n)"
begin

definition keeps :: "ingest_state \<Rightarrow> bool" where
  "keeps st \<longleftrightarrow> ig_stream_id (fst st) = sid \<and> P (snd st)"

lemma store_rtp: "P m \<Longrightarrow> P (store_nalu_config_from_rtp m sid payload)"
proof -
  assume p: "P m"
  have "P (foldl (\<lambda>m n. if pn_nal_type n = 7 \<or> pn_nal_type n = 8 then merge_stream_nalu_config m sid (pn_data n) else m) m ns)" for ns
    using p merged by (induction ns arbitrary: m) auto
  with p config show ?thesis by (auto simp: store_nalu_config_from_rtp_def Let_def split: prod.split option.split)
qed

lemma flush: "flush_access_unit st = Some (st', b) \<Longrightarrow> keeps st \<Longrightarrow> keeps st'"
proof -
  assume a: "flush_access_unit st = Some (st', b)" and st: "keeps st"
  obtain g m where gm: "st = (g, m)" by fastforce
  have "mf_stream_id (unit_frame g) = ig_stream_id g" by (simp add: unit_frame_def Let_def)
  with published [of m "unit_frame g"] a st gm show ?thesis
    by (auto simp: flush_access_unit_def keeps_def clear_parts_def Let_def split: if_splits option.splits)
qed

lemma collect: "collect_part st ts marker d k = Some (st', b) \<Longrightarrow> keeps st \<Longrightarrow> keeps st'"
proof -
  assume a: "collect_part st ts marker d k = Some (st', b)" and st: "keeps st"
  obtain g m where gm: "st = (g, m)" by fastforce
  have add: "keeps (g2, m2) \<Longrightarrow> keeps (add_part g2 ts d k, m2)" for g2 m2
    by (simp add: keeps_def add_part_def Let_def)
  show "keeps st'"
  proof (cases "is_parameter_set_only d")
    case True
    with a st gm show ?thesis by (simp add: collect_part_def)
  next
    case False
    let ?first = "if au_parts (ig_batch g) \<noteq> [] \<and> au_timestamp (ig_batch g) \<noteq> ts then flush_access_unit (g, m)
        else Some ((g, m), False)"
    obtain g2 m2 p where first: "?first = Some ((g2, m2), p)"
      and two: "(if marker then map_option (\<lambda>(st', q). (st', p \<or> q)) (flush_access_unit (add_part g2 ts d k, m2))
        else Some ((add_part g2 ts d k, m2), p)) = Some (st', b)"
      using a gm False by (cases ?first) (auto simp: collect_part_def Let_def simp del: if_split)
    have one: "keeps (g2, m2)" using first st gm flush [of "(g, m)" "(g2, m2)"] by (auto split: if_splits)
    from two show ?thesis using flush [OF _ add [OF one]] add [OF one] by (auto split: if_splits)
  qed
qed

lemma payload: "ingest_payload st p ts marker = Some (st', b) \<Longrightarrow> keeps st \<Longrightarrow> keeps st'"
proof -
  assume a: "ingest_payload st p ts marker = Some (st', b)" and st: "keeps st"
  obtain g m where gm: "st = (g, m)" by fastforce
  obtain d' m' x where h: "h264_rtp_to_annex_b (ig_depacketizer g) p (ig_stream_id g) m = (d', m', x)" by (metis prod.exhaust)
  then have "m' = store_nalu_config_from_rtp m (ig_stream_id g) p"
    by (auto simp: h264_rtp_to_annex_b_def Let_def split: prod.splits sum.splits option.splits)
  then have k: "keeps (g\<lparr>ig_depacketizer := d'\<rparr>, m')" using st gm store_rtp by (simp add: keeps_def)
  obtain g1 m1 where st': "st' = (g1, m1)" by fastforce
  from a gm h st k collect [OF _ k] show ?thesis
    by (auto simp: ingest_payload_def st' split: if_splits option.splits)
qed

lemma packet: "ingest_rtp_packet st p = Some (st', b) \<Longrightarrow> keeps st \<Longrightarrow> keeps st'"
proof -
  assume a: "ingest_rtp_packet st p = Some (st', b)" and st: "keeps st"
  obtain g m where gm: "st = (g, m)" by fastforce
  have seq: "accept_sequence g q pl = (g', x) \<Longrightarrow> ig_stream_id g' = ig_stream_id g" for q pl g' x
    by (auto simp: accept_sequence_def discard_partial_access_unit_def clear_parts_def Let_def split: if_splits)
  show ?thesis
  proof (cases "rtp_h264_packet_info p")
    case None
    with a st gm show ?thesis by (simp add: ingest_rtp_packet_def)
  next
    case (Some info)
    obtain g' x where s: "accept_sequence g (ri_sequence_number info) (ri_payload info) = (g', x)" by fastforce
    have "keeps (g', m)" using st gm seq [OF s] by (simp add: keeps_def)
    with a gm Some s payload show ?thesis by (cases x) (auto simp: ingest_rtp_packet_def)
  qed
qed

lemma interleaved: "pull_packet sid tracks ch p st = Some st' \<Longrightarrow> keeps st \<Longrightarrow> keeps st'"
proof -
  have frame: "pulled_audio_frame sid t tracks p = Some f \<Longrightarrow> mf_stream_id f = sid" for t f
    by (auto simp: pulled_audio_frame_def Let_def split: option.splits if_splits)
  assume a: "pull_packet sid tracks ch p st = Some st'" and st: "keeps st"
  obtain g m where gm: "st = (g, m)" by fastforce
  obtain g1 m1 where st': "st' = (g1, m1)" by fastforce
  show ?thesis
    using a st packet [of "(g, m)" p] published [OF _ frame, of m] unfolding gm st'
    by (auto simp: pull_packet_def Let_def keeps_def split: if_splits option.splits)
qed

lemma receive_loop: "rtp_receive_loop s tracks buf st = Some (rest, st') \<Longrightarrow> s = sid \<Longrightarrow> keeps st \<Longrightarrow> keeps st'"
proof (induction s tracks buf st rule: rtp_receive_loop.induct)
  case (1 s tracks buf st)
  show ?case
  proof (cases "st' = st")
    case False
    with "1.prems"(1) have "buf \<noteq> []" by (subst (asm) rtp_receive_loop.simps) auto
    show ?thesis
    proof (cases "hd buf = 0x24")
      case True
      let ?n = "be16 (buf ! 2) (buf ! 3)"
      from "1.prems"(1) False \<open>buf \<noteq> []\<close> True obtain st1 where
        "\<not> length buf < 4" "\<not> length buf < 4 + ?n" "pull_packet s tracks (buf ! 1) (take ?n (drop 4 buf)) st = Some st1"
        "rtp_receive_loop s tracks (drop (4 + ?n) buf) st1 = Some (rest, st')"
        by (subst (asm) rtp_receive_loop.simps) (auto simp: Let_def split: if_splits option.splits)
      with "1.IH"(1) [OF \<open>buf \<noteq> []\<close> True] interleaved "1.prems"(2,3) show ?thesis by blast
    next
      case False
      with "1.prems"(1) \<open>buf \<noteq> []\<close> have "rtp_receive_loop s tracks (tl buf) st = Some (rest, st')"
        by (subst (asm) rtp_receive_loop.simps) simp
      with "1.IH"(2) \<open>buf \<noteq> []\<close> False "1.prems"(2,3) show ?thesis by blast
    qed
  qed (use "1.prems" in simp)
qed

text \<open>The tasks.\<close>

definition task_keeps :: "rtsp_pull_task \<times> stream_manager \<Rightarrow> bool" where
  "task_keeps tm \<longleftrightarrow> pt_stream_id (fst tm) = sid \<and> keeps (pt_ingest (fst tm), snd tm)"

lemma task_step: "pull_task_step tm e = Some (tm', sent) \<Longrightarrow> task_keeps tm \<Longrightarrow> task_keeps tm'"
proof -
  assume a: "pull_task_step tm e = Some (tm', sent)" and k: "task_keeps tm"
  obtain t m where tm: "tm = (t, m)" by fastforce
  have ts: "pt_stream_id t = sid" "keeps (pt_ingest t, m)" using k tm by (simp_all add: task_keeps_def)
  have down: "keeps (g, m') \<Longrightarrow> keeps (g, or_same m' (set_unpublished m' sid))" for g m'
    using or_same_status by (simp add: keeps_def set_unpublished_def)
  show "task_keeps tm'"
  proof (cases "pt_running t")
    case True
    with a tm ts k down receive_loop [OF _ refl ts(2)] flush [OF _ ts(2)] show ?thesis
      by (cases e) (auto simp: pull_task_step_def task_keeps_def flush_remaining_def split: if_splits)
  qed (use a tm k in \<open>simp add: pull_task_step_def\<close>)
qed

lemma task_run: "run_steps pull_task_step tm es = Some (tm', sent) \<Longrightarrow> task_keeps tm \<Longrightarrow> task_keeps tm'"
proof (induction es arbitrary: tm sent)
  case (Cons e es)
  then obtain tm1 x ys where "pull_task_step tm e = Some (tm1, x)" "run_steps pull_task_step tm1 es = Some (tm', ys)"
    unfolding run_steps_Cons_Some by blast
  with Cons.IH Cons.prems(2) task_step show ?case by blast
qed simp

lemma register_rtsp: "P m \<Longrightarrow> P (rtsp_pull_register unbase64 m sid url sdp)"
proof -
  assume "P m"
  then have "P (or_same (fst (create_stream m sid stream_source_mode.Pull RTSP (Some url)))
      (set_unpublished (fst (create_stream m sid stream_source_mode.Pull RTSP (Some url))) sid))"
    unfolding set_unpublished_def by (intro or_same_status created)
  with config show ?thesis
    by (auto simp: rtsp_pull_register_def Let_def ensure_stream_hub_def split: option.split prod.split)
qed

lemma setup_rtsp:
  assumes "rtsp_pull_setup env unbase64 sid response l m = (r, m', l')" and "P m"
  shows "P m'"
proof -
  let ?m1 = "rtsp_pull_register unbase64 m sid (cl_remote_url (lk_client l)) (sdp_of_response response)"
  have "m' = ?m1 \<or> m' = or_same ?m1 (set_publishing ?m1 sid)"
    using assms(1) by (auto simp: rtsp_pull_setup_def Let_def split: prod.splits client_result.splits)
  moreover have "P ?m1" by (rule register_rtsp [OF assms(2)])
  ultimately show ?thesis using or_same_status unfolding set_publishing_def by metis
qed

lemma pull_rtsp:
  assumes "rtsp_pull env unbase64 url sid inputs m = (r, m', l)" and "P m"
  shows "P m'"
proof (cases "m' = m")
  case False
  with assms(1) obtain response l1 where "rtsp_pull_setup env unbase64 sid response l1 m = (r, m', l)"
    by (auto simp: rtsp_pull_def Let_def split: sum.splits prod.splits client_result.splits)
  from setup_rtsp [OF this assms(2)] show ?thesis .
qed (use assms(2) in simp)

text \<open>A receiver of UDP.\<close>

definition receiver_keeps :: "pull_udp_receiver \<times> stream_manager \<Rightarrow> bool" where
  "receiver_keeps rm \<longleftrightarrow> pu_stream_id (fst rm) = sid \<and> P (snd rm) \<and>
     (case pu_ingest (fst rm) of None \<Rightarrow> True | Some g \<Rightarrow> ig_stream_id g = sid)"

lemma udp_step: "pull_udp_receive rm x = Some rm' \<Longrightarrow> receiver_keeps rm \<Longrightarrow> receiver_keeps rm'"
proof -
  assume a: "pull_udp_receive rm x = Some rm'" and k: "receiver_keeps rm"
  obtain r m where rm: "rm = (r, m)" by fastforce
  obtain r' m' where rm': "rm' = (r', m')" by fastforce
  have frame: "pulled_audio_frame sid t tracks p = Some f \<Longrightarrow> mf_stream_id f = sid" for t tracks p f
    by (auto simp: pulled_audio_frame_def Let_def split: option.splits if_splits)
  have i: "pu_ingest r = Some g \<Longrightarrow> keeps (g, m)" for g
    using k rm by (simp add: receiver_keeps_def keeps_def)
  show ?thesis
  proof (cases "pu_running r")
    case False
    with a k rm show ?thesis by (simp add: pull_udp_receive_def)
  next
    case True
    show ?thesis
      using a k True i flush [of "(_, m)" "(_, m')"] packet [of "(_, m)" _ "(_, m')"] published [OF _ frame, of m] unfolding rm rm'
      by (auto simp: pull_udp_receive_def receiver_keeps_def keeps_def flush_remaining_def split: option.splits if_splits)
  qed
qed

end

interpretation rtsp_pull_steps: rtsp_pull_invariant "mgr_steps m0" sid
  by unfold_locales (auto intro: steps_then mgr_step.intros)

lemma publisher_merge [simp]: "current_publisher (merge_stream_nalu_config m sid n) s = current_publisher m s"
  by (auto simp: merge_stream_nalu_config_def with_hub_def current_publisher_def update_stream_def Let_def split: option.split)

interpretation rtsp_pull_slots: rtsp_pull_invariant "\<lambda>m. \<forall>s. current_publisher m s = current_publisher m0 s" sid
  by unfold_locales simp

interpretation rtsp_pull_others: rtsp_pull_invariant "\<lambda>m. \<forall>s. s \<noteq> sid \<longrightarrow> get_hub m s = get_hub m0 s" sid
  by unfold_locales (auto simp: merge_stream_nalu_config_def with_hub_def Let_def split: option.split)

section \<open>What a pull does to the registry\<close>

definition same_elsewhere :: "stream_id \<Rightarrow> stream_manager \<Rightarrow> stream_manager \<Rightarrow> bool" where
  "same_elsewhere sid m m' \<longleftrightarrow> (\<forall>s. s \<noteq> sid \<longrightarrow> get_hub m' s = get_hub m s) \<and> (\<forall>s. current_publisher m' s = current_publisher m s)"

text \<open>The datagrams of one receiver, one after the other.\<close>

fun udp_run :: "pull_udp_receiver \<times> stream_manager \<Rightarrow> bytes option list \<Rightarrow> (pull_udp_receiver \<times> stream_manager) option" where
  "udp_run rm [] = Some rm"
| "udp_run rm (x # xs) = (case pull_udp_receive rm x of None \<Rightarrow> None | Some rm' \<Rightarrow> udp_run rm' xs)"

lemma udp_run_invariant:
  assumes "udp_run rm xs = Some rm'" and "P rm" and "\<And>rm x rm'. pull_udp_receive rm x = Some rm' \<Longrightarrow> P rm \<Longrightarrow> P rm'"
  shows "P rm'"
  using assms(1,2)
proof (induction xs arbitrary: rm)
  case (Cons x xs)
  then obtain rm1 where "pull_udp_receive rm x = Some rm1" "udp_run rm1 xs = Some rm'"
    by (auto split: option.splits)
  with Cons.IH Cons.prems(2) assms(3) show ?case by blast
qed simp

text \<open>The tasks that a successful pull starts.\<close>

lemma pull_starts:
  "rtsp_pull env unbase64 url sid inputs m = (Client_ok (Over_tcp t), m', l) \<Longrightarrow>
     pt_stream_id t = sid \<and> pt_ingest t = ingest_new sid"
  "rtsp_pull env unbase64 url sid inputs m = (Client_ok (Over_udp rs), m', l) \<Longrightarrow>
     \<forall>r\<in>set rs. pu_stream_id r = sid \<and> pu_ingest r \<in> {None, Some (ingest_new sid)}"
  by (auto simp: rtsp_pull_def rtsp_pull_setup_def Let_def pull_task_new_def pull_udp_receiver_new_def
      split: sum.splits prod.splits client_result.splits if_splits)

text \<open>
  C18. A pull over RTSP acts on its own stream only, and on no publisher's slot: whatever the remote server answers,
  every other stream of the registry is as before, and so is the owner of every slot. The same holds for the
  tasks it starts, over TCP and UDP, whatever they are sent: each of their runs, from any registry, leaves all other streams and
  all slots alone.
\<close>

theorem rtsp_pull_touches_own_stream:
  "(let (r, m', l) = rtsp_pull env unbase64 url sid inputs m in
     same_elsewhere sid m m' \<and>
     (case r of
        Client_ok (Over_tcp t) \<Rightarrow>
          (\<forall>m1 es. case run_steps pull_task_step (t, m1) es of Some ((t', m2), sent) \<Rightarrow> same_elsewhere sid m1 m2 | None \<Rightarrow> True)
      | Client_ok (Over_udp rs) \<Rightarrow>
          list_all (\<lambda>rc. \<forall>m1 xs. case udp_run (rc, m1) xs of Some (rc', m2) \<Rightarrow> same_elsewhere sid m1 m2 | None \<Rightarrow> True) rs
      | _ \<Rightarrow> True))"
proof -
  obtain r m' l where p: "rtsp_pull env unbase64 url sid inputs m = (r, m', l)" by (metis prod.exhaust)
  have own: "ig_stream_id (ingest_new sid) = sid" by (simp add: ingest_new_def)
  have one: "same_elsewhere sid m m'"
    using rtsp_pull_others.pull_rtsp [OF p, of m] rtsp_pull_slots.pull_rtsp [OF p, of m] by (simp add: same_elsewhere_def)
  have tcp: "same_elsewhere sid m1 m2"
    if r: "r = Client_ok (Over_tcp t)" and run: "run_steps pull_task_step (t, m1) es = Some ((t', m2), sent)" for t m1 es t' m2 sent
  proof -
    have t: "pt_stream_id t = sid" "pt_ingest t = ingest_new sid" using pull_starts(1) p r by blast+
    have "rtsp_pull_others.task_keeps sid m1 (t, m1)" "rtsp_pull_slots.task_keeps m1 sid (t, m1)"
      using t own by (simp_all add: rtsp_pull_others.task_keeps_def rtsp_pull_slots.task_keeps_def
          rtsp_pull_others.keeps_def rtsp_pull_slots.keeps_def)
    with rtsp_pull_others.task_run [OF run] rtsp_pull_slots.task_run [OF run] show ?thesis
      by (simp add: rtsp_pull_others.task_keeps_def rtsp_pull_slots.task_keeps_def
          rtsp_pull_others.keeps_def rtsp_pull_slots.keeps_def same_elsewhere_def)
  qed
  have udp: "same_elsewhere sid m1 m2"
    if r: "r = Client_ok (Over_udp rs)" "rc \<in> set rs" and run: "udp_run (rc, m1) xs = Some (rc', m2)" for rs rc m1 xs rc' m2
  proof -
    have "pu_stream_id rc = sid" "pu_ingest rc \<in> {None, Some (ingest_new sid)}" using pull_starts(2) p r by blast+
    then have k: "rtsp_pull_others.receiver_keeps sid m1 (rc, m1)" "rtsp_pull_slots.receiver_keeps m1 sid (rc, m1)"
      using own by (auto simp: rtsp_pull_others.receiver_keeps_def rtsp_pull_slots.receiver_keeps_def)
    from udp_run_invariant [where P = "rtsp_pull_others.receiver_keeps sid m1", OF run k(1) rtsp_pull_others.udp_step]
      udp_run_invariant [where P = "rtsp_pull_slots.receiver_keeps m1 sid", OF run k(2) rtsp_pull_slots.udp_step]
    show ?thesis
      by (simp add: rtsp_pull_others.receiver_keeps_def rtsp_pull_slots.receiver_keeps_def same_elsewhere_def)
  qed
  show ?thesis
    using one tcp udp by (auto simp: p list_all_iff split: client_result.split rtsp_pull_media.split option.split)
qed

text \<open>
  As a client of the registry a pull only makes steps of the registry's own transition system, and so do
  the tasks it starts.
\<close>

theorem rtsp_pull_refines_registry:
  assumes "mgr_reachable m" and "rtsp_pull env unbase64 url sid inputs m = (Client_ok (Over_tcp t), m1, l)"
    and "run_steps pull_task_step (t, m1) es = Some ((t', m2), sent)"
  shows "mgr_step\<^sup>*\<^sup>* m m1 \<and> mgr_step\<^sup>*\<^sup>* m1 m2 \<and> mgr_reachable m2"
proof -
  have one: "mgr_steps m m1" by (rule rtsp_pull_steps.pull_rtsp [OF assms(2)]) simp
  have "rtsp_pull_steps.task_keeps m1 sid (t, m1)"
    using pull_starts(1) [OF assms(2)]
    by (simp add: rtsp_pull_steps.task_keeps_def rtsp_pull_steps.keeps_def ingest_new_def)
  from rtsp_pull_steps.task_run [OF assms(3) this] have two: "mgr_steps m1 m2"
    by (simp add: rtsp_pull_steps.task_keeps_def rtsp_pull_steps.keeps_def)
  have "mgr_reachable m1" by (rule steps_reachable [OF one assms(1)])
  with steps_reachable [OF two] one two show ?thesis by blast
qed

text \<open>
  How a pull leaves its stream. One that fails or waits before \<open>DESCRIBE\<close> is answered has done nothing; one that fails or waits
  later leaves the stream it has registered \<open>Unpublished\<close>; and a pull that succeeds leaves it \<open>Publishing\<close>.
\<close>

theorem rtsp_pull_leaves_status:
  assumes "rtsp_pull env unbase64 url sid inputs m = (r, m', l)"
  shows "case r of
     Client_ok media \<Rightarrow> map_option st_status (get_stream m' sid) = Some stream_status.Publishing
   | _ \<Rightarrow> m' = m \<or> map_option st_status (get_stream m' sid) = Some stream_status.Unpublished"
proof -
  have registered: "map_option st_status (get_stream (rtsp_pull_register unbase64 m sid url sdp) sid) = Some stream_status.Unpublished" for sdp url
    by (auto simp: rtsp_pull_register_def create_stream_def set_unpublished_def set_status_def get_stream_def Let_def
        ensure_stream_hub_def set_stream_sps_pps_def with_hub_def update_stream_def split: option.split prod.split)
  have published: "map_option st_status (get_stream (or_same m1 (set_publishing m1 sid)) sid) = Some stream_status.Publishing"
    if "map_option st_status (get_stream m1 sid) = Some stream_status.Unpublished" for m1
    using that by (auto simp: set_publishing_def set_status_def get_stream_def update_stream_def split: option.splits)
  show ?thesis
    using assms registered published [OF registered]
    by (auto simp: rtsp_pull_def rtsp_pull_setup_def Let_def split: sum.splits prod.splits client_result.splits)
qed

section \<open>The requests of a pull\<close>

lemma session_of_text: "session_ok (extract_session_id s)"
proof (cases "extract_session_id s")
  case (Some x)
  from first_some_Some [OF Some [unfolded extract_session_id_def]] obtain l where l: "l \<in> set (text_lines s)"
    and f: "(if prefix ''Session:'' l then map_option trim (split_colon_second (hd (split_char (CHR '';'') l))) else None) = Some x"
    by blast
  from f have "map_option trim (split_colon_second (hd (split_char (CHR '';'') l))) = Some x"
    by (simp split: if_split_asm)
  then obtain v where v: "split_colon_second (hd (split_char (CHR '';'') l)) = Some v" "x = trim v" by auto
  have "hd (split_char (CHR '';'') l) \<in> set (split_char (CHR '';'') l)" by simp
  then have "set (hd (split_char (CHR '';'') l)) \<subseteq> set l" using split_by_pieces by blast
  moreover have "v \<in> set (split_char (CHR '':'') (hd (split_char (CHR '';'') l)))"
    using v(1) by (auto simp: split_colon_second_def split: list.splits)
  then have "set v \<subseteq> set (hd (split_char (CHR '';'') l))" using split_by_pieces by blast
  ultimately have "CHR 0x0A \<notin> set v" using text_line_one_line [OF l] by blast
  then show ?thesis using Some v(2) trimmed_trim trim_subset [of v] by (auto simp: session_ok_def value_ok_def)
qed (simp add: session_ok_def)

text \<open>What has been sent so far, and that the next number is the right one.\<close>

definition well_asked :: "string \<Rightarrow> nat \<Rightarrow> string \<Rightarrow> bool" where
  "well_asked url i q \<longleftrightarrow> (\<exists>meth u hs. q = client_text meth u (i mod 2 ^ 32) hs \<and>
     meth \<in> set [''OPTIONS'', ''DESCRIBE'', ''SETUP'', ''PLAY''] \<and> (u = url \<or> (\<exists>k. u = control_url url k)) \<and> extra_headers hs)"

definition asked_in_order :: "string \<Rightarrow> string list \<Rightarrow> bool" where
  "asked_in_order url qs \<longleftrightarrow> (\<forall>i<length qs. well_asked url (i + 1) (qs ! i))"

lemma asked_in_order_snoc: "asked_in_order url (qs @ [q]) \<longleftrightarrow> asked_in_order url qs \<and> well_asked url (length qs + 1) q"
  by (auto simp: asked_in_order_def nth_append less_Suc_eq)

definition numbered :: "string \<Rightarrow> rtsp_link \<Rightarrow> bool" where
  "numbered url l \<longleftrightarrow> cl_remote_url (lk_client l) = url \<and> session_ok (cl_session_id (lk_client l)) \<and>
     cl_cseq (lk_client l) = word_of_nat (length (lk_sent l) + 1) \<and> asked_in_order url (lk_sent l)"

lemma numbered_exchange:
  assumes "exchange env takes r l = (x, l')" and "numbered url l"
    and "well_asked url (length (lk_sent l) + 1) (request_to_string r)"
  shows "numbered url l'"
  using assms session_of_text
  by (auto simp: exchange_def numbered_def Let_def asked_in_order_snoc split: if_splits prod.splits client_result.splits)

lemma numbered_request:
  assumes "numbered url l" and "meth \<in> set [''OPTIONS'', ''DESCRIBE'', ''SETUP'', ''PLAY'']" and "u = url \<or> (\<exists>k. u = control_url url k)"
  defines "c \<equiv> lk_client l"
  shows "well_asked url (length (lk_sent l) + 1) (request_to_string (with_session c (client_request c meth u)))"
    "key \<in> {''Accept'', ''Transport'', ''Range''} \<Longrightarrow> value_ok v \<Longrightarrow>
     well_asked url (length (lk_sent l) + 1) (request_to_string (with_session c (request_header (client_request c meth u) key v)))"
proof -
  have k: "unat (cl_cseq c) = (length (lk_sent l) + 1) mod 2 ^ 32"
  proof -
    have "cl_cseq c = word_of_nat (length (lk_sent l) + 1)" using assms(1) by (simp add: numbered_def c_def)
    then show ?thesis by (simp only: unat_of_nat) simp
  qed
  have s: "session_ok (cl_session_id c)" using assms(1) by (simp add: numbered_def c_def)
  show "well_asked url (length (lk_sent l) + 1) (request_to_string (with_session c (client_request c meth u)))"
    unfolding well_asked_def client_sends(1) k [symmetric] using assms(2,3) client_extras(1) [OF s] by blast
  assume key: "key \<in> {''Accept'', ''Transport'', ''Range''}" and v: "value_ok v"
  have other: "key \<notin> {''CSeq'', ''User-Agent'', ''Session''}" using key by auto
  have "plain_header (key, v)" "not_content_length (key, v)"
    using key v not_length_names by (auto simp: plain_header_iff trimmed_def is_space_def)
  then have "extra_headers ((key, v) # session_header (cl_session_id c))"
    using client_extras(1) [OF s] key by (auto simp: extra_headers_def session_header_def split: option.splits)
  then show "well_asked url (length (lk_sent l) + 1) (request_to_string (with_session c (request_header (client_request c meth u) key v)))"
    unfolding well_asked_def client_sends(2) [OF other] k [symmetric] using assms(2,3) by blast
qed

lemma numbered_options:
  assumes "send_options env l = (x, l')" and "numbered url l"
  shows "numbered url l'"
proof -
  have "cl_remote_url (lk_client l) = url" using assms(2) by (simp add: numbered_def)
  then show ?thesis
    using numbered_exchange [OF assms(1) [unfolded send_options_def send_request_def] assms(2)]
      numbered_request(1) [OF assms(2), of "''OPTIONS''" url] by simp
qed

lemma numbered_describe:
  assumes "send_describe env l = (x, l')" and "numbered url l"
  shows "numbered url l'"
proof -
  have "cl_remote_url (lk_client l) = url" using assms(2) by (simp add: numbered_def)
  moreover have "value_ok ''application/sdp''" by (simp add: value_ok_def trimmed_def is_space_def)
  ultimately show ?thesis
    using numbered_exchange [OF assms(1) [unfolded send_describe_def Let_def] assms(2)]
      numbered_request(2) [OF assms(2), of "''DESCRIBE''" url "''Accept''"] by simp
qed

lemma numbered_play:
  assumes "send_play env l = (x, l')" and "numbered url l"
  shows "numbered url l'"
proof -
  have "cl_remote_url (lk_client l) = url" using assms(2) by (simp add: numbered_def)
  moreover have "value_ok ''npt=0.000-''" by (simp add: value_ok_def trimmed_def is_space_def)
  ultimately show ?thesis
    using numbered_exchange [OF assms(1) [unfolded send_play_def Let_def] assms(2)]
      numbered_request(2) [OF assms(2), of "''PLAY''" url "''Range''"] by simp
qed

lemma numbered_udp_track:
  assumes "setup_udp_track_from_response env idx response local c = (x, c')" and "numbered url (l\<lparr>lk_client := c\<rparr>)"
  shows "numbered url (l\<lparr>lk_client := c'\<rparr>)"
proof -
  have "cl_remote_url c' = cl_remote_url c \<and> cl_session_id c' = cl_session_id c \<and> cl_cseq c' = cl_cseq c"
    using assms(1) by (auto simp: setup_udp_track_from_response_def Let_def split: option.splits prod.splits sum.splits if_splits)
  with assms(2) show ?thesis by (simp add: numbered_def)
qed

lemma numbered_setup:
  assumes "send_setup env idx l = (x, l')" and "numbered url l"
  shows "numbered url l'"
proof -
  let ?c = "lk_client l"
  let ?r = "\<lambda>v. with_session ?c (request_header (client_request ?c ''SETUP'' (control_url (cl_remote_url ?c) idx)) ''Transport'' v)"
  have url: "cl_remote_url ?c = url" using assms(2) by (simp add: numbered_def)
  have asked: "value_ok v \<Longrightarrow> well_asked url (length (lk_sent l) + 1) (request_to_string (?r v))" for v
    using numbered_request(2) [OF assms(2), of "''SETUP''" "control_url url idx" "''Transport''" v] url by auto
  have vals: "value_ok (''RTP/AVP;unicast;client_port='' @ port_pair p)" "value_ok (''RTP/AVP/TCP;interleaved='' @ port_pair p)" for p
    using port_pair_ok [of p] by (simp_all add: value_ok_def trimmed_def is_space_def)
  show ?thesis
  proof (cases "use_udp ?c")
    case False
    then have "exchange env True (?r (''RTP/AVP/TCP;interleaved='' @ port_pair (idx * 2, idx * 2 + 1))) l = (x, l')"
      using assms(1) by (simp add: send_setup_def Let_def)
    from numbered_exchange [OF this assms(2) asked [OF vals(2)]] show ?thesis .
  next
    case True
    let ?p = "allocate_udp_ports (ce_random env idx)"
    obtain y l1 where e: "exchange env True (?r (''RTP/AVP;unicast;client_port='' @ port_pair ?p)) l = (y, l1)" by fastforce
    have one: "numbered url l1" by (rule numbered_exchange [OF e assms(2) asked [OF vals(1)]])
    show ?thesis
    proof (cases y)
      case (Client_ok response)
      obtain z c2 where u: "setup_udp_track_from_response env idx response ?p (lk_client l1) = (z, c2)" by fastforce
      have "numbered url (l1\<lparr>lk_client := c2\<rparr>)" by (rule numbered_udp_track [OF u]) (simp add: one)
      with assms(1) True e u Client_ok show ?thesis by (cases z) (auto simp: send_setup_def Let_def)
    qed (use assms(1) True e one in \<open>auto simp: send_setup_def Let_def\<close>)
  qed
qed

lemma insist_link: "snd (insist phase (x, l)) = l"
  by (simp add: insist_def split: client_result.split)

lemma numbered_setups: "setup_tracks env is l = (x, l') \<Longrightarrow> numbered url l \<Longrightarrow> numbered url l'"
proof (induction "is" arbitrary: l)
  case (Cons idx "is")
  obtain y l1 where s: "send_setup env idx l = (y, l1)" by fastforce
  have "numbered url l1" by (rule numbered_setup [OF s Cons.prems(2)])
  moreover obtain z where "insist ''SETUP'' (y, l1) = (z, l1)" using insist_link [of _ y l1] by (metis prod.collapse)
  ultimately show ?case using Cons s by (cases z) auto
qed simp

lemma numbered_pull:
  assumes "rtsp_pull env unbase64 url sid inputs m = (r, m', l)"
  shows "numbered url l"
proof -
  let ?l0 = "link (rtsp_client_new url) inputs []"
  have start: "numbered url ?l0" by (simp add: numbered_def rtsp_client_new_def asked_in_order_def session_ok_def)
  obtain y1 l1 where o: "send_options env ?l0 = (y1, l1)" by fastforce
  have one: "numbered url l1" by (rule numbered_options [OF o start])
  obtain y2 l2 where d: "send_describe env l1 = (y2, l2)" by fastforce
  have two: "numbered url l2" by (rule numbered_describe [OF d one])
  have inner: "rtsp_pull_setup env unbase64 sid response l2 m = (r, m', l) \<Longrightarrow> numbered url l" for response
  proof -
    let ?is = "[0..<length (tracks_to_create (parse_sdp_tracks (sdp_of_response response)))]"
    obtain y3 l3 where s: "setup_tracks env ?is l2 = (y3, l3)" by fastforce
    have three: "numbered url l3" by (rule numbered_setups [OF s two])
    obtain y4 l4 where p: "send_play env l3 = (y4, l4)" by fastforce
    have four: "numbered url l4" by (rule numbered_play [OF p three])
    obtain z4 where i: "insist ''PLAY'' (y4, l4) = (z4, l4)" using insist_link [of _ y4 l4] by (metis prod.collapse)
    assume "rtsp_pull_setup env unbase64 sid response l2 m = (r, m', l)"
    then have "l = l3 \<or> l = l4" using s p i by (cases y3; cases z4) (auto simp: rtsp_pull_setup_def Let_def)
    with three four show ?thesis by blast
  qed
  obtain z1 where i1: "insist ''OPTIONS'' (y1, l1) = (z1, l1)" using insist_link [of _ y1 l1] by (metis prod.collapse)
  obtain z2 where i2: "insist ''DESCRIBE'' (y2, l2) = (z2, l2)" using insist_link [of _ y2 l2] by (metis prod.collapse)
  from assms o i1 d i2 have "l = ?l0 \<or> l = l1 \<or> l = l2 \<or> (\<exists>response. rtsp_pull_setup env unbase64 sid response l2 m = (r, m', l))"
    by (cases "client_connect env"; cases z1; cases z2) (auto simp: rtsp_pull_def Let_def)
  with start one two inner show ?thesis by blast
qed

text \<open>
  Whatever the remote server answers: the requests of a pull are numbered from 1 on (modulo the 32 bits of the counter), each is one of
  the four methods, and a server of this program cuts it out of its input as one request.
\<close>

theorem rtsp_pull_numbers_requests:
  assumes "rtsp_pull env unbase64 url sid inputs m = (r, m', l)" and "is_word url" and "i < length (lk_sent l)"
  defines "q \<equiv> lk_sent l ! i"
  shows "extract_cseq q = dec_str ((i + 1) mod 2 ^ 32) \<and> request_method q \<in> set [''OPTIONS'', ''DESCRIBE'', ''SETUP'', ''PLAY''] \<and>
     next_unit (ascii q) = Some (Request_unit (ascii q), [])"
proof -
  have "well_asked url (i + 1) q"
    using numbered_pull [OF assms(1)] assms(3) by (simp add: numbered_def asked_in_order_def q_def)
  then obtain meth u hs where q: "q = client_text meth u ((i + 1) mod 2 ^ 32) hs"
    and meth: "meth \<in> set [''OPTIONS'', ''DESCRIBE'', ''SETUP'', ''PLAY'']" and hs: "extra_headers hs"
    and u: "is_word u" using assms(2) control_url_word unfolding well_asked_def by blast
  have word: "is_word meth" using meth client_methods by auto
  show ?thesis
    unfolding q using client_text_cseq [OF word u hs meth] client_text_words(2) [OF word u hs] client_text_unit [OF meth u hs] meth
    by simp
qed

section \<open>Ports\<close>

text \<open>The local ports of a UDP track: an even one for RTP and the next one for RTCP.\<close>

theorem allocate_udp_ports_range:
  "case allocate_udp_ports rnd of (rtp, rtcp) \<Rightarrow> 50000 \<le> rtp \<and> even rtp \<and> rtcp = rtp + 1 \<and> rtcp < 60000"
proof -
  have "rnd mod 10000 < 10000" by simp
  then have "(50000 + rnd mod 10000) div 2 < 30000" by linarith
  then show ?thesis by (auto simp: allocate_udp_ports_def Let_def)
qed

end
