(* ===== verification/Ts_Muxer.thy ===== *)
theory Ts_Muxer
  imports Media
begin

text \<open>
  \<open>src/src/server/hls/ts_muxer.rs\<close>: MPEG transport stream packets for HLS segments. Packets
  are built as in the code, by writing into 188 bytes of 0xFF; a continuity counter is a byte, a
  PID a 16-bit word, the PCR clock a \<open>u64\<close>. The readers \<open>parse_ts\<close>, \<open>parse_pes\<close> and \<open>read_pts\<close>
  follow ISO 13818-1; the program has none.
\<close>

section \<open>Constants and the CRC\<close>

definition AAC_SAMPLE_RATE_INDEX :: byte where "AAC_SAMPLE_RATE_INDEX = 4"
definition AAC_CHANNELS :: byte where "AAC_CHANNELS = 2"
definition TS_PACKET_SIZE :: nat where "TS_PACKET_SIZE = 188"
definition SYNC_BYTE :: byte where "SYNC_BYTE = 0x47"
definition PAT_PID :: "16 word" where "PAT_PID = 0x0000"
definition PMT_PID :: "16 word" where "PMT_PID = 0x1000"
definition VIDEO_PID :: "16 word" where "VIDEO_PID = 0x100"
definition AUDIO_PID :: "16 word" where "AUDIO_PID = 0x101"
definition AF_DISCONTINUITY :: byte where "AF_DISCONTINUITY = 0x80"
definition AF_PCR :: byte where "AF_PCR = 0x10"

definition crc_step :: "32 word \<Rightarrow> 32 word" where
  "crc_step crc = (if crc AND 0x80000000 \<noteq> 0 then push_bit 1 crc XOR 0x04C11DB7 else push_bit 1 crc)"

definition CRC32_TABLE :: "32 word list" where
  "CRC32_TABLE = map (\<lambda>i. (crc_step ^^ 8) (push_bit 24 (word_of_nat i))) [0..<256]"

definition crc_byte :: "32 word \<Rightarrow> byte \<Rightarrow> 32 word" where
  "crc_byte crc b =
     (let index = unat ((drop_bit 24 crc XOR ucast b) AND 0xFF)
      in push_bit 8 crc XOR CRC32_TABLE ! index)"

definition crc32 :: "bytes \<Rightarrow> 32 word" where
  "crc32 data = foldl crc_byte 0xFFFFFFFF data"

section \<open>State\<close>

record ts_muxer =
  tm_cc_video :: byte
  tm_cc_audio :: byte
  tm_cc_pat :: byte
  tm_cc_pmt :: byte
  tm_pcr_clock :: nat
  tm_segment_discontinuity :: bool

definition muxer_new :: ts_muxer where
  "muxer_new =
     \<lparr>tm_cc_video = 0, tm_cc_audio = 0, tm_cc_pat = 0, tm_cc_pmt = 0, tm_pcr_clock = 0,
      tm_segment_discontinuity = False\<rparr>"

definition mark_segment_discontinuity :: "ts_muxer \<Rightarrow> ts_muxer" where
  "mark_segment_discontinuity t = t\<lparr>tm_segment_discontinuity := True\<rparr>"

definition reset_for_new_segment :: "ts_muxer \<Rightarrow> ts_muxer" where
  "reset_for_new_segment t = t"

definition hard_reset :: "ts_muxer \<Rightarrow> ts_muxer" where
  "hard_reset t = muxer_new"

definition update_pcr :: "ts_muxer \<Rightarrow> nat \<Rightarrow> ts_muxer" where
  "update_pcr t timestamp_ms = t\<lparr>tm_pcr_clock := wrap64 (timestamp_ms * 27000)\<rparr>"

definition take_segment_discontinuity :: "ts_muxer \<Rightarrow> ts_muxer \<times> bool" where
  "take_segment_discontinuity t = (t\<lparr>tm_segment_discontinuity := False\<rparr>, tm_segment_discontinuity t)"

section \<open>Packets of tables\<close>

text \<open>\<open>packet[i..i + n].copy_from_slice(xs)\<close>\<close>

definition write_at :: "bytes \<Rightarrow> nat \<Rightarrow> bytes \<Rightarrow> bytes" where
  "write_at p i xs = take i p @ xs @ drop (i + length xs) p"

definition packet_start :: "byte \<Rightarrow> 16 word \<Rightarrow> bool \<Rightarrow> bytes" where
  "packet_start fill pid unit_start =
     (replicate TS_PACKET_SIZE fill)
       [0 := SYNC_BYTE,
        1 := (ucast (drop_bit 8 pid) AND 0x1F) OR (if unit_start then 0x40 else 0),
        2 := ucast pid]"

definition next_cc :: "byte \<Rightarrow> byte" where
  "next_cc cc = (cc + 1) AND 0x0F"

text \<open>One turn of the loop of \<open>ts_packet\<close>: the packet and how much of the payload it took.\<close>

definition table_packet :: "16 word \<Rightarrow> bool \<Rightarrow> bytes \<Rightarrow> byte \<Rightarrow> bool \<Rightarrow> nat \<Rightarrow> bool \<Rightarrow> bytes \<times> nat" where
  "table_packet pid payload_start payload cc discontinuity offset first =
     (let p0 = packet_start 0xFF pid (first \<and> payload_start);
          remaining = TS_PACKET_SIZE - 4;
          copy_len = min remaining (length payload - offset);
          need_adaptation = (copy_len < remaining \<or> first \<and> discontinuity)
      in if need_adaptation then
           let stuffing0 = remaining - copy_len;
               stuffing = (if first \<and> discontinuity \<and> stuffing0 < 2 then 2 else stuffing0);
               af_len = stuffing - 1;
               p1 = p0[3 := 0x30 OR cc, 4 := word_of_nat af_len,
                       5 := if first \<and> discontinuity then AF_DISCONTINUITY else 0x00];
               p2 = (if af_len > 0 then write_at p1 6 (replicate (4 + stuffing - 6) 0xFF) else p1);
               start = 4 + stuffing;
               copy_len' = min (length payload - offset) (TS_PACKET_SIZE - start)
           in (write_at p2 start (take copy_len' (drop offset payload)), copy_len')
         else (write_at (p0[3 := 0x10 OR cc]) 4 (take copy_len (drop offset payload)), copy_len))"

lemma table_packet_progress:
  "offset < length payload \<Longrightarrow> 0 < snd (table_packet pid ps payload cc d offset first)"
  by (cases first; cases d; cases "length payload - offset < 184"; cases "length payload - offset < 183")
    (simp_all add: table_packet_def Let_def TS_PACKET_SIZE_def)

function table_packets :: "16 word \<Rightarrow> bool \<Rightarrow> bytes \<Rightarrow> byte \<Rightarrow> bool \<Rightarrow> nat \<Rightarrow> bool \<Rightarrow> bytes list \<times> byte" where
  "table_packets pid ps payload cc d offset first =
     (if offset < length payload then
        (case table_packet pid ps payload cc d offset first of
           (packet, n) \<Rightarrow>
             (case table_packets pid ps payload (next_cc cc) d (offset + n) False of
                (packets, cc') \<Rightarrow> (packet # packets, cc')))
      else ([], cc))"
  by pat_completeness auto
termination
proof (relation "measure (\<lambda>(pid, ps, payload, cc, d, offset, first). length payload - offset)", goal_cases)
  case (2 pid ps payload cc d offset first p n)
  then have "0 < n" using table_packet_progress [of offset payload pid ps cc d first] by (metis snd_conv)
  with 2 show ?case by simp
qed simp

declare table_packets.simps [simp del]

definition ts_packet :: "16 word \<Rightarrow> bool \<Rightarrow> bytes \<Rightarrow> byte \<Rightarrow> bool \<Rightarrow> bytes \<times> byte" where
  "ts_packet pid payload_start payload cc discontinuity =
     (case table_packets pid payload_start payload cc discontinuity 0 True of
        (packets, cc') \<Rightarrow>
          if packets = [] then ((packet_start 0 pid payload_start)[3 := 0x10 OR cc], next_cc cc')
          else (concat packets, cc'))"

text \<open>The sections, without their checksum.\<close>

definition pat_section :: bytes where
  "pat_section =
     [0x00, 0xB0 OR (ucast (drop_bit 8 (13 :: 16 word)) AND 0x0F), 13, 0x00, 0x01, 0xC1, 0x00, 0x00, 0x00, 0x01,
      ucast (drop_bit 8 PMT_PID) AND 0x1F, ucast PMT_PID]"

definition generate_pat :: "ts_muxer \<Rightarrow> ts_muxer \<times> bytes" where
  "generate_pat t =
     (let payload = 0x00 # pat_section @ be32_bytes (crc32 pat_section);
          (t1, discontinuity) = take_segment_discontinuity t;
          (out, cc) = ts_packet PAT_PID True payload (tm_cc_pat t1) discontinuity
      in (t1\<lparr>tm_cc_pat := cc\<rparr>, out))"

definition pid_bytes :: "byte \<Rightarrow> 16 word \<Rightarrow> bytes" where
  "pid_bytes msk pid = [ucast (drop_bit 8 pid) AND msk, ucast pid]"

definition pmt_section :: "bool \<Rightarrow> bool \<Rightarrow> bytes" where
  "pmt_section has_video has_audio =
     (let stream_info_len = (if has_video then 5 else 0) + (if has_audio then 5 else 0) :: nat;
          section_length = 5 + 4 + stream_info_len + 4
      in [0x02, 0xB0 OR (word_of_nat (section_length div 256) AND 0x0F), word_of_nat section_length,
          0x00, 0x01, 0xC1, 0x00, 0x00] @
         (if has_video then pid_bytes 0x1F VIDEO_PID else if has_audio then pid_bytes 0x1F AUDIO_PID
          else [0x1F, 0xFF]) @
         [0xF0, 0x00] @
         (if has_video then [0x1B] @ pid_bytes 0x1F VIDEO_PID @ [0xF0, 0x00] else []) @
         (if has_audio then [0x0F] @ pid_bytes 0x1F AUDIO_PID @ [0xF0, 0x00] else []))"

definition generate_pmt :: "ts_muxer \<Rightarrow> bool \<Rightarrow> bool \<Rightarrow> ts_muxer \<times> bytes" where
  "generate_pmt t has_video has_audio =
     (let s = pmt_section has_video has_audio;
          (out, cc) = ts_packet PMT_PID True (0x00 # s @ be32_bytes (crc32 s)) (tm_cc_pmt t) False
      in (t\<lparr>tm_cc_pmt := cc\<rparr>, out))"

definition generate_pat_pmt :: "ts_muxer \<Rightarrow> bool \<Rightarrow> bool \<Rightarrow> ts_muxer \<times> bytes" where
  "generate_pat_pmt t has_video has_audio =
     (let (t1, pat) = generate_pat t; (t2, pmt) = generate_pmt t1 has_video has_audio
      in (t2, pat @ pmt))"

section \<open>Elementary streams\<close>

definition starts_with_aud :: "bytes \<Rightarrow> bool" where
  "starts_with_aud data =
     (if prefix [0x00, 0x00, 0x00, 0x01, 0x09] data then True else prefix [0x00, 0x00, 0x01, 0x09] data)"

definition prepare_h264_au_for_ts :: "bytes \<Rightarrow> bytes" where
  "prepare_h264_au_for_ts data =
     (if data = [] then []
      else if starts_with_aud data then data
      else [0x00, 0x00, 0x00, 0x01, 0x09, 0xF0] @ data)"

text \<open>\<open>(frame_len >> 11) as u8\<close> keeps eight bits, the field has two.\<close>

definition wrap_aac_adts :: "bytes \<Rightarrow> bytes" where
  "wrap_aac_adts aac_raw =
     (if aac_raw = [] then []
      else if length aac_raw \<ge> 2 \<and> aac_raw ! 0 = 0xFF \<and> (aac_raw ! 1) AND 0xF0 = 0xF0 then aac_raw
      else
        let frame_len = length aac_raw + 7
        in [0xFF, 0xF1,
            push_bit 6 0 OR push_bit 2 (AAC_SAMPLE_RATE_INDEX AND 0x0F) OR (drop_bit 2 AAC_CHANNELS AND 0x01),
            push_bit 6 (AAC_CHANNELS AND 0x03) OR word_of_nat (drop_bit 11 frame_len),
            word_of_nat (drop_bit 3 frame_len),
            push_bit 5 (word_of_nat (take_bit 3 frame_len)) OR 0x1F,
            0xFC] @ aac_raw)"

text \<open>The 33 bits of a PTS between their marker bits, as the code shifts them.\<close>

definition write_pes_timestamp :: "byte \<Rightarrow> nat \<Rightarrow> bytes" where
  "write_pes_timestamp marker timestamp_ms =
     (let pts_val = word_of_nat (sat_mul64 timestamp_ms 90) :: 64 word
      in [marker OR 0x01 OR ucast (drop_bit 30 pts_val AND 0x0E),
          ucast (drop_bit 22 pts_val AND 0xFF),
          0x01 OR ucast (drop_bit 14 pts_val AND 0xFE),
          ucast (drop_bit 7 pts_val AND 0xFF),
          0x01 OR ucast (push_bit 1 pts_val AND 0xFE)])"

definition build_pes :: "media_frame \<Rightarrow> bool \<Rightarrow> bytes" where
  "build_pes f is_video =
     (let pes_body_len = 3 + 5 + length (mf_data f)
      in [0x00, 0x00, 0x01, if is_video then 0xE0 else 0xC0] @
         (if pes_body_len \<le> 0xFFFF then be16_bytes pes_body_len else [0x00, 0x00]) @
         [0x80 OR (if is_video then 0x04 else 0), 0x80, 5] @
         write_pes_timestamp 0x20 (mf_timestamp f) @ mf_data f)"

definition write_pcr :: "nat \<Rightarrow> bytes" where
  "write_pcr pcr_base =
     (let p = word_of_nat pcr_base :: 64 word
      in [ucast (drop_bit 25 p AND 0xFF), ucast (drop_bit 17 p AND 0xFF), ucast (drop_bit 9 p AND 0xFF),
          ucast (drop_bit 1 p AND 0xFF), push_bit 7 (ucast (p AND 0x01)) OR 0x7E, 0x00])"

text \<open>The packet and where its payload starts.\<close>

definition write_adaptation_prefix :: "bytes \<Rightarrow> byte \<Rightarrow> bool \<Rightarrow> nat option \<Rightarrow> bytes \<times> nat" where
  "write_adaptation_prefix packet cc_val discontinuity pcr =
     (let flags = (if discontinuity then AF_DISCONTINUITY else 0) OR (if pcr \<noteq> None then AF_PCR else 0);
          p = packet[3 := 0x30 OR cc_val, 4 := if pcr \<noteq> None then 7 else 0, 5 := flags]
      in case pcr of
           Some pcr_val \<Rightarrow> (write_at p 6 (write_pcr pcr_val), 12)
         | None \<Rightarrow> (p, 6))"

text \<open>One turn of the loop of \<open>pes_to_ts_packets\<close>.\<close>

definition pes_packet :: "bytes \<Rightarrow> 16 word \<Rightarrow> bool \<Rightarrow> byte \<Rightarrow> nat \<Rightarrow> nat \<Rightarrow> bool \<Rightarrow> bytes \<times> nat" where
  "pes_packet pes pid is_video cc_val pcr_clock offset first =
     (let p0 = packet_start 0xFF pid first;
          (p1, start) = (if first \<and> is_video then write_adaptation_prefix p0 cc_val False (Some pcr_clock)
                         else (p0[3 := 0x10 OR cc_val], 4));
          room = TS_PACKET_SIZE - start;
          copy_len = min (length pes - offset) room
      in if copy_len < room \<and> start = 4 then
           let stuffing = room - copy_len;
               af_len = stuffing - 1;
               p2 = p1[3 := 0x30 OR cc_val, 4 := word_of_nat af_len];
               p3 = (if af_len > 0 then write_at (p2[5 := 0x00]) 6 (replicate (4 + stuffing - 6) 0xFF) else p2);
               start' = 4 + stuffing;
               copy_len' = min (length pes - offset) (TS_PACKET_SIZE - start')
           in (write_at p3 start' (take copy_len' (drop offset pes)), copy_len')
         else (write_at p1 start (take copy_len (drop offset pes)), copy_len))"

lemma pes_packet_progress:
  "offset < length pes \<Longrightarrow> 0 < snd (pes_packet pes pid v cc pcr offset first)"
  by (auto simp: pes_packet_def Let_def TS_PACKET_SIZE_def write_adaptation_prefix_def)

function pes_packets :: "bytes \<Rightarrow> 16 word \<Rightarrow> bool \<Rightarrow> byte \<Rightarrow> nat \<Rightarrow> nat \<Rightarrow> bool \<Rightarrow> bytes list \<times> byte" where
  "pes_packets pes pid is_video cc pcr_clock offset first =
     (if offset < length pes then
        (case pes_packet pes pid is_video cc pcr_clock offset first of
           (packet, n) \<Rightarrow>
             (case pes_packets pes pid is_video (next_cc cc) pcr_clock (offset + n) False of
                (packets, cc') \<Rightarrow> (packet # packets, cc')))
      else ([], cc))"
  by pat_completeness auto
termination
proof (relation "measure (\<lambda>(pes, pid, v, cc, pcr, offset, first). length pes - offset)", goal_cases)
  case (2 pes pid v cc pcr offset first p n)
  then have "0 < n" using pes_packet_progress [of offset pes pid v cc pcr first] by (metis snd_conv)
  with 2 show ?case by simp
qed simp

declare pes_packets.simps [simp del]

definition pes_to_ts_packets :: "bytes \<Rightarrow> 16 word \<Rightarrow> bool \<Rightarrow> byte \<Rightarrow> nat \<Rightarrow> bytes \<times> byte" where
  "pes_to_ts_packets pes pid is_video cc pcr_clock =
     (case pes_packets pes pid is_video cc pcr_clock 0 True of (packets, cc') \<Rightarrow> (concat packets, cc'))"

text \<open>The elementary stream data of a frame.\<close>

definition ts_payload :: "media_frame \<Rightarrow> bytes" where
  "ts_payload f =
     (if mf_codec f = AAC then wrap_aac_adts (mf_data f)
      else if is_video_codec (mf_codec f) then prepare_h264_au_for_ts (mf_data f)
      else mf_data f)"

definition frame_to_ts :: "ts_muxer \<Rightarrow> media_frame \<Rightarrow> ts_muxer \<times> bytes" where
  "frame_to_ts t f =
     (let pid = (if is_video_codec (mf_codec f) then VIDEO_PID
                 else if mf_codec f = AAC \<or> mf_codec f = Opus \<or> mf_codec f = G711 then AUDIO_PID
                 else VIDEO_PID);
          is_video = is_video_codec (mf_codec f);
          payload = ts_payload f
      in if payload = [] then (t, [])
         else
           let frame_for_pes =
                 with_optional_clock_rate
                   (media_frame_new (mf_stream_id f) (mf_track_id f) (mf_timestamp f) payload
                     (mf_is_keyframe f) (mf_codec f))
                   (mf_clock_rate f);
               (out, cc) = pes_to_ts_packets (build_pes frame_for_pes is_video) pid is_video
                 (if is_video then tm_cc_video t else tm_cc_audio t) (tm_pcr_clock t)
           in (if is_video then t\<lparr>tm_cc_video := cc\<rparr> else t\<lparr>tm_cc_audio := cc\<rparr>, out))"

section \<open>A reader\<close>

record ts_view =
  tv_pid :: nat
  tv_unit_start :: bool
  tv_cc :: byte
  tv_payload :: bytes

text \<open>One packet: the payload follows the adaptation field when there is one.\<close>

definition parse_ts :: "bytes \<Rightarrow> ts_view option" where
  "parse_ts p =
     (if length p \<noteq> 188 \<or> p ! 0 \<noteq> 0x47 then None
      else
        let start = (if bit (p ! 3) 5 then 5 + unat (p ! 4) else 4)
        in if 188 < start then None
           else Some \<lparr>tv_pid = be16 (p ! 1 AND 0x1F) (p ! 2), tv_unit_start = bit (p ! 1) 6,
                      tv_cc = p ! 3 AND 0x0F, tv_payload = (if bit (p ! 3) 4 then drop start p else [])\<rparr>)"

definition read_pts :: "bytes \<Rightarrow> 64 word" where
  "read_pts b =
     push_bit 29 (ucast (b ! 0 AND 0x0E)) OR push_bit 22 (ucast (b ! 1)) OR
     push_bit 14 (ucast (b ! 2 AND 0xFE)) OR push_bit 7 (ucast (b ! 3)) OR ucast (drop_bit 1 (b ! 4))"

text \<open>A PES packet: stream id, PTS and data; a length of zero leaves the end open.\<close>

definition parse_pes :: "bytes \<Rightarrow> (byte \<times> 64 word \<times> bytes) option" where
  "parse_pes p =
     (if length p < 14 \<or> take 3 p \<noteq> [0x00, 0x00, 0x01] then None
      else
        let n = be16 (p ! 4) (p ! 5); header = 9 + unat (p ! 8)
        in Some (p ! 3, read_pts (take 5 (drop 9 p)), drop header (if n = 0 then p else take (6 + n) p)))"

text \<open>The 33 bits of a PCR base.\<close>

definition read_pcr :: "bytes \<Rightarrow> 64 word" where
  "read_pcr b =
     push_bit 25 (ucast (b ! 0)) OR push_bit 17 (ucast (b ! 1)) OR push_bit 9 (ucast (b ! 2)) OR
     push_bit 1 (ucast (b ! 3)) OR ucast (drop_bit 7 (b ! 4))"

section \<open>The table against the polynomial\<close>

text \<open>The checksum of ISO 13818-1, bit by bit: a byte enters at the top, then eight steps.\<close>

definition crc_reference :: "bytes \<Rightarrow> 32 word" where
  "crc_reference data = foldl (\<lambda>crc b. (crc_step ^^ 8) (crc XOR push_bit 24 (ucast b))) 0xFFFFFFFF data"

lemma top_bit_test: "(w AND 0x80000000 \<noteq> 0) = bit (w :: 32 word) 31"
proof -
  have "push_bit 31 (1 :: 32 word) = 0x80000000" by simp
  then show ?thesis by (metis bit_iff_and_push_bit_not_eq_0)
qed

lemma crc_step_xor: "crc_step (a XOR b) = crc_step a XOR crc_step b"
  unfolding crc_step_def top_bit_test
  by (rule bit_word_eqI) (auto simp: bit_simps)

lemma crc_steps_xor: "(crc_step ^^ k) (a XOR b) = (crc_step ^^ k) a XOR (crc_step ^^ k) b"
  by (induction k) (simp_all add: crc_step_xor)

lemma crc_steps_low:
  assumes "drop_bit (32 - k) w = 0" and "k \<le> 32"
  shows "(crc_step ^^ k) w = push_bit k w"
  using assms
proof (induction k)
  case 0
  then show ?case by simp
next
  case (Suc k)
  have clear: "\<not> bit w n" if "32 - Suc k \<le> n" for n
  proof -
    have "bit (drop_bit (32 - Suc k) w) (n - (32 - Suc k)) = bit w n"
      using that by (simp add: bit_drop_bit_eq)
    with Suc.prems(1) show ?thesis by simp
  qed
  have "drop_bit (32 - k) w = 0"
    by (rule bit_word_eqI) (auto simp: bit_simps intro!: clear)
  with Suc have IH: "(crc_step ^^ k) w = push_bit k w" by simp
  have "\<not> bit (push_bit k w) 31" using clear Suc.prems(2) by (simp add: bit_simps)
  then have "crc_step (push_bit k w) = push_bit (Suc k) w"
    unfolding crc_step_def top_bit_test by simp
  with IH show ?case by simp
qed

lemma table_nth: "i < 256 \<Longrightarrow> CRC32_TABLE ! i = (crc_step ^^ 8) (push_bit 24 (word_of_nat i))"
  by (simp add: CRC32_TABLE_def)

lemma bits_255: "bit (0xFF :: int) n \<longleftrightarrow> n < 8"
proof -
  have m: "(0xFF :: int) = mask 8" by (simp add: mask_eq_exp_minus_1)
  show ?thesis unfolding m bit_mask_iff by auto
qed

lemma crc_byte_reference: "crc_byte crc b = (crc_step ^^ 8) (crc XOR push_bit 24 (ucast b))"
proof -
  let ?i = "(drop_bit 24 crc XOR ucast b) AND 0xFF :: 32 word"
  have i: "?i = take_bit 8 (drop_bit 24 crc XOR ucast b)"
    by (rule bit_word_eqI) (auto simp: bit_simps bits_255)
  have "take_bit 8 y < 256" for y :: nat using take_bit_nat_less_exp [of 8 y] by simp
  then have less: "unat ?i < 256" unfolding i unsigned_take_bit_eq .
  have low: "(crc_step ^^ 8) (take_bit 24 crc) = push_bit 8 crc"
  proof -
    have "drop_bit (32 - 8) (take_bit 24 crc) = 0" by (rule bit_word_eqI) (auto simp: bit_simps)
    then have "(crc_step ^^ 8) (take_bit 24 crc) = push_bit 8 (take_bit 24 crc)" by (intro crc_steps_low) simp_all
    also have "\<dots> = push_bit 8 crc" by (rule bit_word_eqI) (auto simp: bit_simps)
    finally show ?thesis .
  qed
  have split: "crc XOR push_bit 24 (ucast b) = push_bit 24 ?i XOR take_bit 24 crc"
    unfolding i by (rule bit_word_eqI) (auto simp: bit_simps dest: bit_imp_le_length)
  have "crc_byte crc b = push_bit 8 crc XOR (crc_step ^^ 8) (push_bit 24 ?i)"
    using less by (simp add: crc_byte_def Let_def table_nth)
  also have "\<dots> = (crc_step ^^ 8) (crc XOR push_bit 24 (ucast b))"
    unfolding split crc_steps_xor low by (rule xor.commute)
  finally show ?thesis .
qed

lemma crc32_reference: "crc32 data = crc_reference data"
proof -
  have "crc_byte = (\<lambda>crc b. (crc_step ^^ 8) (crc XOR push_bit 24 (ucast b)))"
    by (intro ext) (rule crc_byte_reference)
  then show ?thesis unfolding crc32_def crc_reference_def by (rule arg_cong)
qed

text \<open>A checksum in front of its own bytes shifts itself out.\<close>

lemma crc_byte_own: "crc_byte w (ucast (drop_bit 24 w)) = push_bit 8 w"
proof -
  have "drop_bit 24 w XOR ucast (ucast (drop_bit 24 w) :: byte) = 0"
    by (rule bit_word_eqI) (auto simp: bit_simps dest: bit_imp_le_length)
  moreover have "(crc_step ^^ 8) 0 = 0" by (simp add: crc_step_def eval_nat_numeral)
  ultimately show ?thesis by (simp add: crc_byte_def Let_def table_nth)
qed

lemma crc_own_bytes: "foldl crc_byte w (be32_bytes w) = 0"
proof -
  have b: "ucast (drop_bit 16 w) = (ucast (drop_bit 24 (push_bit 8 w)) :: byte)"
    "ucast (drop_bit 8 w) = (ucast (drop_bit 24 (push_bit 16 w)) :: byte)"
    "ucast w = (ucast (drop_bit 24 (push_bit 24 w)) :: byte)"
    by (rule bit_word_eqI; auto simp: bit_simps)+
  have "push_bit 32 w = 0" by (rule bit_word_eqI) (auto simp: bit_simps dest: bit_imp_le_length)
  then show ?thesis
    unfolding be32_bytes_def b foldl.simps crc_byte_own
    by (simp add: crc_byte_own [of "push_bit 8 w", simplified] crc_byte_own [of "push_bit 16 w", simplified]
        crc_byte_own [of "push_bit 24 w", simplified])
qed

lemma crc32_residue: "crc32 (data @ be32_bytes (crc32 data)) = 0"
  by (simp add: crc32_def crc_own_bytes)

section \<open>What a packet holds\<close>

lemma write_at_mid:
  "length pre = i \<Longrightarrow> length mid = length xs \<Longrightarrow> write_at (pre @ mid @ post) i xs = pre @ xs @ post"
  by (simp add: write_at_def)

lemma replicate_split: "k \<le> n \<Longrightarrow> replicate n x = replicate k x @ replicate (n - k) x"
  by (simp add: replicate_add [symmetric])

definition pid_head :: "16 word \<Rightarrow> bool \<Rightarrow> byte" where
  "pid_head pid unit_start = (ucast (drop_bit 8 pid) AND 0x1F) OR (if unit_start then 0x40 else 0)"

lemma packet_start_form:
  "packet_start fill pid u = [SYNC_BYTE, pid_head pid u, ucast pid, fill, fill, fill] @ replicate 182 fill"
proof -
  have "replicate 188 fill = replicate 6 fill @ replicate 182 fill" by (simp add: replicate_add [symmetric])
  then have "replicate 188 fill = [fill, fill, fill, fill, fill, fill] @ replicate 182 fill" by (simp add: eval_nat_numeral)
  then show ?thesis by (simp add: packet_start_def pid_head_def TS_PACKET_SIZE_def eval_nat_numeral)
qed

text \<open>The three shapes of a packet of an elementary stream, \<open>xs\<close> being what it carries.\<close>

definition pcr_packet :: "16 word \<Rightarrow> byte \<Rightarrow> nat \<Rightarrow> bytes \<Rightarrow> bytes" where
  "pcr_packet pid cc pcr xs =
     [SYNC_BYTE, pid_head pid True, ucast pid, 0x30 OR cc, 7, 0x10] @ write_pcr pcr @ xs @
     replicate (176 - length xs) 0xFF"

definition full_packet :: "16 word \<Rightarrow> bool \<Rightarrow> byte \<Rightarrow> bytes \<Rightarrow> bytes" where
  "full_packet pid u cc xs = [SYNC_BYTE, pid_head pid u, ucast pid, 0x10 OR cc] @ xs"

definition stuffed_packet :: "16 word \<Rightarrow> bool \<Rightarrow> byte \<Rightarrow> byte \<Rightarrow> bytes \<Rightarrow> bytes" where
  "stuffed_packet pid u cc flags xs =
     (let stuffing = 184 - length xs
      in [SYNC_BYTE, pid_head pid u, ucast pid, 0x30 OR cc, word_of_nat (stuffing - 1)] @
         (if stuffing < 2 then [] else [flags] @ replicate (stuffing - 2) 0xFF) @ xs)"

lemma length_write_pcr [simp]: "length (write_pcr x) = 6"
  by (simp add: write_pcr_def Let_def)

lemma pes_packet_pcr:
  "pes_packet pes pid True cc pcr off True =
     (pcr_packet pid cc pcr (take 176 (drop off pes)), min (length pes - off) 176)"
proof -
  let ?c = "min (length pes - off) 176"
  let ?xs = "take ?c (drop off pes)"
  let ?h = "[SYNC_BYTE, pid_head pid True, ucast pid, 0x30 OR cc, 7, 0x10]"
  have xs: "?xs = take 176 (drop off pes)" "length ?xs = ?c" by (simp_all add: min_def)
  have "(packet_start 0xFF pid True)[3 := 0x30 OR cc, 4 := 7, 5 := AF_PCR] = ?h @ replicate 182 0xFF"
    by (simp add: packet_start_form AF_PCR_def eval_nat_numeral)
  moreover have "write_at (?h @ replicate 182 0xFF) 6 (write_pcr pcr) = ?h @ write_pcr pcr @ replicate 176 0xFF"
    using write_at_mid [of ?h 6 "replicate 6 0xFF" "write_pcr pcr" "replicate 176 0xFF"]
      replicate_split [of 6 182 "0xFF :: byte"] by simp
  moreover have "write_at (?h @ write_pcr pcr @ replicate 176 0xFF) 12 ?xs =
      (?h @ write_pcr pcr) @ ?xs @ replicate (176 - ?c) 0xFF"
    using write_at_mid [of "?h @ write_pcr pcr" 12 "replicate ?c 0xFF" ?xs "replicate (176 - ?c) 0xFF"]
      replicate_split [of ?c 176 "0xFF :: byte"] xs(2) by simp
  ultimately have "pes_packet pes pid True cc pcr off True =
      ((?h @ write_pcr pcr) @ ?xs @ replicate (176 - ?c) 0xFF, ?c)"
    by (simp add: pes_packet_def write_adaptation_prefix_def TS_PACKET_SIZE_def Let_def)
  then show ?thesis unfolding pcr_packet_def xs(1) [symmetric] xs(2) by simp
qed

lemma pes_packet_plain:
  assumes "\<not> (first \<and> v)"
  shows "pes_packet pes pid v cc pcr off first =
     (if length pes - off < 184
      then (stuffed_packet pid first cc 0 (drop off pes), length pes - off)
      else (full_packet pid first cc (take 184 (drop off pes)), 184))"
proof -
  let ?h = "[SYNC_BYTE, pid_head pid first, ucast pid]"
  have p0: "(packet_start 0xFF pid first)[3 := 0x10 OR cc] = ?h @ [0x10 OR cc] @ replicate 184 0xFF"
    using replicate_split [of 2 184 "0xFF :: byte"] by (simp add: packet_start_form eval_nat_numeral)
  show ?thesis
  proof (cases "length pes - off < 184")
    case False
    let ?xs = "take 184 (drop off pes)"
    have "length ?xs = 184" using False by simp
    then have "write_at (?h @ [0x10 OR cc] @ replicate 184 0xFF) 4 ?xs = ?h @ [0x10 OR cc] @ ?xs"
      using write_at_mid [of "?h @ [0x10 OR cc]" 4 "replicate 184 0xFF" ?xs "[]"] by simp
    moreover have "min (length pes - off) (188 - 4) = 184" using False by simp
    ultimately show ?thesis using False
      unfolding pes_packet_def Let_def TS_PACKET_SIZE_def if_not_P [OF assms] prod.case
      by (simp add: p0 full_packet_def del: replicate.simps)
  next
    case True
    let ?xs = "drop off pes"
    let ?s = "184 - length ?xs"
    let ?b = "word_of_nat (?s - 1) :: byte"
    have len: "length ?xs < 184" "length ?xs = length pes - off" using True by simp_all
    have p2: "(packet_start 0xFF pid first)[3 := 0x10 OR cc, 3 := 0x30 OR cc, 4 := ?b] = ?h @ [0x30 OR cc, ?b] @ replicate 183 0xFF"
      using replicate_split [of 1 183 "0xFF :: byte"] by (simp add: packet_start_form eval_nat_numeral)
    have copy: "min (length pes - off) (188 - (4 + ?s)) = length pes - off" using len by simp
    have copy1: "min (length pes - off) (188 - 4) = length pes - off" using len by simp
    have s_eq: "188 - 4 - (length pes - off) = ?s" using len by simp
    show ?thesis
    proof (cases "?s < 2")
      case one: True
      then have s: "?s = 1" using len by simp
      have "write_at (?h @ [0x30 OR cc, ?b] @ replicate 183 0xFF) 5 ?xs = ?h @ [0x30 OR cc, ?b] @ ?xs"
        using write_at_mid [of "?h @ [0x30 OR cc, ?b]" 5 "replicate 183 0xFF" ?xs "[]"] s len by simp
      then show ?thesis using True s len copy p2
        unfolding pes_packet_def Let_def TS_PACKET_SIZE_def if_not_P [OF assms] prod.case copy1 s_eq
        by (simp add: stuffed_packet_def)
    next
      case False
      have p3: "(?h @ [0x30 OR cc, ?b] @ replicate 183 0xFF)[5 := 0x00] = ?h @ [0x30 OR cc, ?b, 0] @ replicate 182 0xFF"
        using replicate_split [of 1 183 "0xFF :: byte"] by (simp add: eval_nat_numeral)
      have p4: "write_at (?h @ [0x30 OR cc, ?b, 0] @ replicate 182 0xFF) 6 (replicate (?s - 2) 0xFF) =
          ?h @ [0x30 OR cc, ?b, 0] @ replicate 182 0xFF"
        using write_at_mid [of "?h @ [0x30 OR cc, ?b, 0]" 6 "replicate (?s - 2) 0xFF" "replicate (?s - 2) 0xFF"
            "replicate (182 - (?s - 2)) 0xFF"] replicate_split [of "?s - 2" 182 "0xFF :: byte"] False by simp
      have "replicate 182 0xFF = replicate (?s - 2) 0xFF @ replicate (length ?xs) (0xFF :: byte)"
        using replicate_split [of "?s - 2" 182 "0xFF :: byte"] False len by simp
      then have p5: "write_at (?h @ [0x30 OR cc, ?b, 0] @ replicate 182 0xFF) (4 + ?s) ?xs =
          ?h @ [0x30 OR cc, ?b, 0] @ replicate (?s - 2) 0xFF @ ?xs"
        using write_at_mid [of "?h @ [0x30 OR cc, ?b, 0] @ replicate (?s - 2) 0xFF" "4 + ?s"
            "replicate (length ?xs) 0xFF" ?xs "[]"] False by simp
      have args: "4 + ?s - 6 = ?s - 2" by simp
      have pos: "0 < ?s - 1" and less: "length pes - off < 188 - 4 \<and> (4 :: nat) = 4" using False True by simp_all
      have take_all: "take (length pes - off) ?xs = ?xs" by simp
      show ?thesis
        unfolding pes_packet_def Let_def TS_PACKET_SIZE_def if_not_P [OF assms] prod.case copy1 s_eq
          if_P [OF less] p2 if_P [OF pos] p3 args p4 copy take_all p5 if_P [OF True] stuffed_packet_def
          if_not_P [OF False] by simp
    qed
  qed
qed

lemma cc_table:
  "list_all (\<lambda>k. let c = word_of_nat k :: byte in
      (0x30 OR c) AND 0x0F = c \<and> (0x10 OR c) AND 0x0F = c \<and>
      drop_bit 4 (0x30 OR c) = 3 \<and> drop_bit 4 (0x10 OR c) = 1 \<and> unat (next_cc c) < 16) [0..<16]"
  by code_simp

lemma cc_bits:
  assumes "unat c < 16"
  shows "(0x30 OR c) AND 0x0F = c" "(0x10 OR c) AND 0x0F = c" "unat (next_cc c) < 16"
    "bit (0x30 OR c) 5" "bit (0x30 OR c) 4" "\<not> bit (0x10 OR c) 5" "bit (0x10 OR c) 4"
proof -
  from assms cc_table [unfolded list_all_iff, rule_format, of "unat c"]
  have c: "(0x30 OR c) AND 0x0F = c" "(0x10 OR c) AND 0x0F = c" "unat (next_cc c) < 16"
    "drop_bit 4 (0x30 OR c) = 3" "drop_bit 4 (0x10 OR c) = 1" by (simp_all add: Let_def)
  have bits: "bit w 4 = bit (drop_bit 4 w) 0" "bit w 5 = bit (drop_bit 4 w) 1" for w :: byte
    by (simp_all add: bit_drop_bit_eq)
  show "(0x30 OR c) AND 0x0F = c" "(0x10 OR c) AND 0x0F = c" "unat (next_cc c) < 16"
    "bit (0x30 OR c) 5" "bit (0x30 OR c) 4" "\<not> bit (0x10 OR c) 5" "bit (0x10 OR c) 4"
    using c by (simp_all add: bits del: drop_bit_or)
qed

definition known_pid :: "16 word \<Rightarrow> bool" where
  "known_pid pid \<longleftrightarrow> pid = PAT_PID \<or> pid = PMT_PID \<or> pid = VIDEO_PID \<or> pid = AUDIO_PID"

lemma known_pid_head:
  assumes "known_pid pid"
  shows "be16 (pid_head pid u AND 0x1F) (ucast pid) = unat pid" "bit (pid_head pid u) 6 = u"
  using assms
  by (cases u; auto simp: known_pid_def pid_head_def PAT_PID_def PMT_PID_def VIDEO_PID_def AUDIO_PID_def be16_eq
      drop_bit_eq_div)+

abbreviation view :: "16 word \<Rightarrow> bool \<Rightarrow> byte \<Rightarrow> bytes \<Rightarrow> ts_view" where
  "view pid u cc xs \<equiv> \<lparr>tv_pid = unat pid, tv_unit_start = u, tv_cc = cc, tv_payload = xs\<rparr>"

lemma parse_pcr_packet:
  assumes "known_pid pid" and "unat cc < 16" and "length xs \<le> 176"
  shows "length (pcr_packet pid cc pcr xs) = 188 \<and>
    parse_ts (pcr_packet pid cc pcr xs) = Some (view pid True cc (xs @ replicate (176 - length xs) 0xFF))"
proof -
  let ?p = "pcr_packet pid cc pcr xs"
  have len: "length ?p = 188" using assms(3) by (simp add: pcr_packet_def)
  have b: "?p ! 0 = 0x47" "?p ! 1 = pid_head pid True" "?p ! 2 = ucast pid" "?p ! 3 = 0x30 OR cc" "?p ! 4 = 7"
    by (simp_all add: pcr_packet_def SYNC_BYTE_def)
  have "drop 12 ?p = xs @ replicate (176 - length xs) 0xFF"
    unfolding pcr_packet_def by (simp add: eval_nat_numeral)
  with len b known_pid_head [OF assms(1), of True] cc_bits [OF assms(2)] show ?thesis
    by (simp add: parse_ts_def Let_def)
qed

lemma parse_full_packet:
  assumes "known_pid pid" and "unat cc < 16" and "length xs = 184"
  shows "length (full_packet pid u cc xs) = 188 \<and> parse_ts (full_packet pid u cc xs) = Some (view pid u cc xs)"
proof -
  let ?p = "full_packet pid u cc xs"
  have len: "length ?p = 188" using assms(3) by (simp add: full_packet_def)
  have b: "?p ! 0 = 0x47" "?p ! 1 = pid_head pid u" "?p ! 2 = ucast pid" "?p ! 3 = 0x10 OR cc" "drop 4 ?p = xs"
    by (simp_all add: full_packet_def SYNC_BYTE_def)
  with len known_pid_head [OF assms(1), of u] cc_bits [OF assms(2)] show ?thesis
    by (simp add: parse_ts_def Let_def)
qed

lemma parse_stuffed_packet:
  assumes "known_pid pid" and "unat cc < 16" and "length xs < 184"
  shows "length (stuffed_packet pid u cc flags xs) = 188 \<and>
    parse_ts (stuffed_packet pid u cc flags xs) = Some (view pid u cc xs)"
proof -
  let ?p = "stuffed_packet pid u cc flags xs" and ?n = "184 - length xs - 1"
  have one: "184 - length xs < 2 \<Longrightarrow> length xs = 183" using assms(3) by linarith
  then have len: "length ?p = 188" using assms(3) by (simp add: stuffed_packet_def Let_def)
  have b: "?p ! 0 = 0x47" "?p ! 1 = pid_head pid u" "?p ! 2 = ucast pid" "?p ! 3 = 0x30 OR cc"
    "?p ! 4 = word_of_nat ?n"
    by (simp_all add: stuffed_packet_def SYNC_BYTE_def Let_def)
  have n: "unat (word_of_nat ?n :: byte) = ?n" by (simp add: unat_of_nat)
  have "drop 5 ?p = (if 184 - length xs < 2 then [] else flags # replicate (184 - length xs - 2) 0xFF) @ xs"
    by (simp add: stuffed_packet_def Let_def eval_nat_numeral)
  then have "drop ?n (drop 5 ?p) = xs" using assms(3) one by (auto simp: drop_Cons')
  then have body: "drop (5 + ?n) ?p = xs" by (simp add: add.commute)
  show ?thesis
    using len b(1-3) known_pid_head [OF assms(1), of u] cc_bits [OF assms(2)] body assms(3)
    unfolding parse_ts_def Let_def b(4,5) n by simp
qed

section \<open>Packets and their stream\<close>

text \<open>The continuity counters of \<open>n\<close> packets in a row.\<close>

fun cc_run :: "byte \<Rightarrow> nat \<Rightarrow> byte list" where
  "cc_run cc 0 = []"
| "cc_run cc (Suc n) = cc # cc_run (next_cc cc) n"

definition demux :: "bytes \<Rightarrow> ts_view list option" where
  "demux bs = those (map parse_ts (chunks_of 188 bs))"

lemma chunks_of_concat:
  assumes "\<forall>p\<in>set ps. length p = n" and "0 < n"
  shows "chunks_of n (concat ps) = ps"
  using assms(1)
proof (induction ps)
  case Nil
  then show ?case by simp
next
  case (Cons p ps)
  then have "concat (p # ps) \<noteq> []" using assms(2) by auto
  with Cons assms(2) show ?case by (simp add: chunks_of_step)
qed

lemma those_map_Some: "those (map Some xs) = Some xs"
  by (induction xs) simp_all

lemma cc_run_less: "unat cc < 16 \<Longrightarrow> unat ((next_cc ^^ n) cc) < 16"
  by (induction n) (simp_all add: cc_bits(3))

text \<open>How many bytes of 0xFF follow a short video packet in its first transport packet.\<close>

definition video_padding :: "bool \<Rightarrow> nat \<Rightarrow> bytes" where
  "video_padding v n = (if v then replicate (176 - n) 0xFF else [])"

lemma pes_packets_views:
  assumes "known_pid pid" and "unat cc < 16" and "off \<le> length pes"
    and "pes_packets pes pid v cc pcr off first = (ps, cc')"
  shows "\<exists>vs. map parse_ts ps = map Some vs \<and> (\<forall>p\<in>set ps. length p = 188) \<and>
     concat (map tv_payload vs) =
       drop off pes @ (if off < length pes then video_padding (first \<and> v) (length pes - off) else []) \<and>
     (\<forall>x\<in>set vs. tv_pid x = unat pid) \<and>
     map tv_unit_start vs = (if off < length pes then first # replicate (length ps - 1) False else []) \<and>
     map tv_cc vs = cc_run cc (length ps) \<and> cc' = (next_cc ^^ length ps) cc"
  using assms
proof (induction pes pid v cc pcr off first arbitrary: ps cc' rule: pes_packets.induct)
  case (1 pes pid v cc pcr off first)
  show ?case
  proof (cases "off < length pes")
    case False
    with "1.prems" show ?thesis by (simp add: pes_packets.simps [of pes])
  next
    case True
    obtain p n where p: "pes_packet pes pid v cc pcr off first = (p, n)" by fastforce
    obtain ps1 cc1 where ps1: "pes_packets pes pid v (next_cc cc) pcr (off + n) False = (ps1, cc1)" by fastforce
    from "1.prems"(4) True p ps1 have eq: "ps = p # ps1" "cc' = cc1"
      by (simp_all add: pes_packets.simps [of pes pid v cc pcr off first])
    let ?xs = "take n (drop off pes)"
    have p_view: "length p = 188 \<and> off + n \<le> length pes \<and>
        parse_ts p = Some (view pid first cc (?xs @ video_padding (first \<and> v) (length pes - off))) \<and>
        (first \<and> v \<and> length pes - off < 176 \<longrightarrow> n = length pes - off)"
    proof (cases "first \<and> v")
      case pcr: True
      then have "p = pcr_packet pid cc pcr (take 176 (drop off pes))" "n = min (length pes - off) 176"
        using p pes_packet_pcr [of pes pid cc pcr off] by simp_all
      moreover have "length (take 176 (drop off pes)) \<le> 176" by simp
      moreover have "take (min (length pes - off) 176) (drop off pes) = take 176 (drop off pes)"
        by (simp add: min_def)
      ultimately show ?thesis
        using parse_pcr_packet [OF "1.prems"(1,2), of "take 176 (drop off pes)" pcr] pcr True
        by (auto simp: video_padding_def min_def)
    next
      case plain: False
      note form = pes_packet_plain [OF plain, of pes pid cc pcr off]
      show ?thesis
      proof (cases "length pes - off < 184")
        case small: True
        then have "p = stuffed_packet pid first cc 0 (drop off pes)" "n = length pes - off"
          using p form by simp_all
        with parse_stuffed_packet [OF "1.prems"(1,2), of "drop off pes" first 0] small plain True
        show ?thesis by (auto simp: video_padding_def)
      next
        case large: False
        then have "p = full_packet pid first cc (take 184 (drop off pes))" "n = 184"
          using p form by simp_all
        with parse_full_packet [OF "1.prems"(1,2), of "take 184 (drop off pes)" first] large plain
        show ?thesis by (auto simp: video_padding_def)
      qed
    qed
    have "unat (next_cc cc) < 16" by (rule cc_bits(3) [OF "1.prems"(2)])
    from "1.IH" [OF True p [symmetric] "1.prems"(1) this _ ps1] p_view obtain vs where vs:
      "map parse_ts ps1 = map Some vs" "\<forall>p\<in>set ps1. length p = 188"
      "concat (map tv_payload vs) = drop (off + n) pes @
         (if off + n < length pes then video_padding (False \<and> v) (length pes - (off + n)) else [])"
      "\<forall>x\<in>set vs. tv_pid x = unat pid"
      "map tv_unit_start vs = (if off + n < length pes then False # replicate (length ps1 - 1) False else [])"
      "map tv_cc vs = cc_run (next_cc cc) (length ps1)" "cc1 = (next_cc ^^ length ps1) (next_cc cc)"
      by blast
    let ?v = "view pid first cc (?xs @ video_padding (first \<and> v) (length pes - off))"
    have len: "length vs = length ps1" using vs(1) by (metis length_map)
    have "replicate (length ps1) False = map tv_unit_start vs"
      using vs(5) len by (cases ps1; cases "off + n < length pes") auto
    moreover have "concat (map tv_payload (?v # vs)) = drop off pes @ video_padding (first \<and> v) (length pes - off)"
    proof (cases "off + n < length pes")
      case more_left: True
      with p_view have "video_padding (first \<and> v) (length pes - off) = []" by (auto simp: video_padding_def)
      with vs(3) show ?thesis by (simp add: video_padding_def) (metis append_take_drop_id drop_drop add.commute)
    next
      case False
      then have "length pes - off \<le> n" by linarith
      then have "?xs = drop off pes" by simp
      with vs(3) False show ?thesis by simp
    qed
    ultimately show ?thesis
      using eq vs p_view True
      by (intro exI [of _ "?v # vs"]) (simp add: funpow_swap1)
  qed
qed

lemma demux_concat:
  assumes "map parse_ts ps = map Some vs" and "\<forall>p\<in>set ps. length p = 188"
  shows "demux (concat ps) = Some vs"
  using assms by (simp add: demux_def chunks_of_concat those_map_Some)

lemma build_pes_form:
  "build_pes f v = [0x00, 0x00, 0x01, if v then 0xE0 else 0xC0] @
     (if 8 + length (mf_data f) \<le> 0xFFFF then be16_bytes (8 + length (mf_data f)) else [0x00, 0x00]) @
     [0x80 OR (if v then 0x04 else 0), 0x80, 5] @ write_pes_timestamp 0x20 (mf_timestamp f) @ mf_data f"
  by (simp add: build_pes_def)

lemma length_timestamp [simp]: "length (write_pes_timestamp m t) = 5"
  by (simp add: write_pes_timestamp_def Let_def)

text \<open>A reader finds the data behind the header, with padding only where the length is given.\<close>

lemma parse_pes_build:
  assumes "pad = [] \<or> 8 + length (mf_data f) \<le> 0xFFFF"
  shows "parse_pes (build_pes f v @ pad) =
     Some (if v then 0xE0 else 0xC0, read_pts (write_pes_timestamp 0x20 (mf_timestamp f)), mf_data f)"
proof -
  let ?n = "8 + length (mf_data f)"
  let ?len = "if ?n \<le> 0xFFFF then be16_bytes ?n else [0x00, 0x00]"
  obtain a b where ab: "?len = [a, b]" by (cases "?n \<le> 0xFFFF") (simp_all add: be16_bytes_def)
  let ?ts = "write_pes_timestamp 0x20 (mf_timestamp f)"
  let ?h = "[0x00, 0x00, 0x01, if v then 0xE0 else 0xC0, a, b, 0x80 OR (if v then 0x04 else 0), 0x80, 5]"
  have pes: "build_pes f v = ?h @ ?ts @ mf_data f" unfolding build_pes_form ab by simp
  have size: "be16 a b = (if ?n \<le> 0xFFFF then ?n else 0)"
    using ab be16_bytes_inverse [of ?n] by (auto simp: be16_bytes_def be16_eq split: if_splits)
  have pes14: "build_pes f v @ pad = (?h @ ?ts) @ mf_data f @ pad" and h14: "length (?h @ ?ts) = 14"
    unfolding pes by simp_all
  have body: "drop 14 (if be16 a b = 0 then build_pes f v @ pad else take (6 + be16 a b) (build_pes f v @ pad)) =
      mf_data f"
    using assms unfolding size pes14 by (auto simp: h14 simp del: append_assoc append_Cons)
  have head: "(build_pes f v @ pad) ! 3 = (if v then 0xE0 else 0xC0)" "(build_pes f v @ pad) ! 4 = a"
    "(build_pes f v @ pad) ! 5 = b" "(build_pes f v @ pad) ! 8 = 5" "take 3 (build_pes f v @ pad) = [0x00, 0x00, 0x01]"
    "take 5 (drop 9 (build_pes f v @ pad)) = ?ts" "\<not> length (build_pes f v @ pad) < 14"
    unfolding pes by simp_all
  show ?thesis
    unfolding parse_pes_def Let_def head using head(5,7) body by simp
qed

text \<open>The timestamp that a reader finds: bit 30 is missing and the bits above it are one place too low.\<close>

lemma bits_15_etc:
  "bit (0x0E :: int) n \<longleftrightarrow> n = 1 \<or> n = 2 \<or> n = 3"
  "bit (0xFE :: int) n \<longleftrightarrow> 1 \<le> n \<and> n < 8"
  "bit (0x20 :: int) n \<longleftrightarrow> n = 5"
proof -
  have "(0x0E :: int) = push_bit 1 (mask 3)" "(0xFE :: int) = push_bit 1 (mask 7)" "(0x20 :: int) = push_bit 5 1"
    by (simp_all add: mask_eq_exp_minus_1)
  note e = this
  show "bit (0x0E :: int) n \<longleftrightarrow> n = 1 \<or> n = 2 \<or> n = 3"
    unfolding e bit_push_bit_iff bit_mask_iff by auto
  show "bit (0xFE :: int) n \<longleftrightarrow> 1 \<le> n \<and> n < 8"
    unfolding e bit_push_bit_iff bit_mask_iff by auto
  show "bit (0x20 :: int) n \<longleftrightarrow> n = 5"
    unfolding e bit_push_bit_iff bit_1_iff by auto
qed

lemma read_write_pts:
  fixes t :: nat
  defines "p \<equiv> word_of_nat (sat_mul64 t 90) :: 64 word"
  shows "read_pts (write_pes_timestamp 0x20 t) = take_bit 30 p OR push_bit 30 (take_bit 3 (drop_bit 31 p))"
proof -
  have e: "write_pes_timestamp 0x20 t =
      [0x20 OR 0x01 OR ucast (drop_bit 30 p AND 0x0E), ucast (drop_bit 22 p AND 0xFF),
       0x01 OR ucast (drop_bit 14 p AND 0xFE), ucast (drop_bit 7 p AND 0xFF), 0x01 OR ucast (push_bit 1 p AND 0xFE)]"
    unfolding write_pes_timestamp_def Let_def p_def by (rule refl)
  have slice: "k + (n - k) = (if k \<le> n then n else k)" for k n :: nat by simp
  note b = bit_simps bits_15_etc bits_255 slice
  have "push_bit 29 (ucast ((0x20 OR 0x01 OR ucast (drop_bit 30 p AND 0x0E)) AND 0x0E :: byte)) =
      push_bit 30 (take_bit 3 (drop_bit 31 p))"
    by (rule bit_word_eqI) (auto simp: b le_imp_diff_is_add)
  moreover have "push_bit 22 (ucast (ucast (drop_bit 22 p AND 0xFF) :: byte)) = push_bit 22 (take_bit 8 (drop_bit 22 p))"
    by (rule bit_word_eqI) (auto simp: b)
  moreover have "push_bit 14 (ucast ((0x01 OR ucast (drop_bit 14 p AND 0xFE)) AND 0xFE :: byte)) =
      push_bit 15 (take_bit 7 (drop_bit 15 p))"
    by (rule bit_word_eqI) (auto simp: b)
  moreover have "push_bit 7 (ucast (ucast (drop_bit 7 p AND 0xFF) :: byte)) = push_bit 7 (take_bit 8 (drop_bit 7 p))"
    by (rule bit_word_eqI) (auto simp: b)
  moreover have "ucast (drop_bit 1 (0x01 OR ucast (push_bit 1 p AND 0xFE) :: byte)) = take_bit 7 p"
  proof -
    define q where "q = push_bit 1 p"
    have q: "bit q (Suc n) = bit p n" if "n < 7" for n using that unfolding q_def bit_push_bit_iff by simp
    have m: "(0x7F :: int) = mask 7" by (simp add: mask_eq_exp_minus_1)
    have "bit (0x7F :: int) n \<longleftrightarrow> n < 7" for n unfolding m bit_mask_iff by auto
    with q show ?thesis unfolding q_def [symmetric] by (intro bit_word_eqI) (auto simp: b)
  qed
  moreover have "push_bit 30 (take_bit 3 (drop_bit 31 p)) OR push_bit 22 (take_bit 8 (drop_bit 22 p)) OR
      push_bit 15 (take_bit 7 (drop_bit 15 p)) OR push_bit 7 (take_bit 8 (drop_bit 7 p)) OR take_bit 7 p =
      take_bit 30 p OR push_bit 30 (take_bit 3 (drop_bit 31 p))"
    by (rule bit_word_eqI) (auto simp: bit_simps slice)
  ultimately show ?thesis unfolding e read_pts_def by simp
qed

lemma read_write_pts_nat:
  assumes "P = sat_mul64 t 90"
  shows "unat (read_pts (write_pes_timestamp 0x20 t)) = P mod 2 ^ 30 + 2 ^ 30 * (P div 2 ^ 31 mod 8)"
proof -
  have "P \<le> u64_max" by (simp add: assms sat_mul64_def)
  then have P: "unat (word_of_nat P :: 64 word) = P" by (simp add: unat_of_nat u64_max_def)
  have P64: "take_bit 64 P = P" using \<open>P \<le> u64_max\<close> by (simp add: take_bit_eq_mod u64_max_def)
  let ?q = "take_bit 3 (drop_bit 31 P)"
  have small: "take_bit 64 (push_bit 30 ?q) = push_bit 30 ?q"
    by (rule bit_eqI) (auto simp: bit_simps)
  have "take_bit 30 P AND push_bit 30 ?q = 0"
    by (rule bit_eqI) (auto simp: bit_simps)
  then have "take_bit 30 P OR push_bit 30 ?q = take_bit 30 P + push_bit 30 ?q"
    by (simp add: disjunctive_add_eq_or)
  moreover have "unat (read_pts (write_pes_timestamp 0x20 t)) = take_bit 30 P OR push_bit 30 ?q"
    unfolding read_write_pts assms [symmetric] unsigned_or_eq unsigned_push_bit_eq unsigned_take_bit_eq
      unsigned_drop_bit_eq P using small by (simp add: P64)
  ultimately show ?thesis by (simp add: take_bit_eq_mod push_bit_eq_mult drop_bit_eq_div)
qed

lemma read_write_pcr: "read_pcr (write_pcr x) = take_bit 33 (word_of_nat x)"
proof -
  define p where "p = (word_of_nat x :: 64 word)"
  have e: "write_pcr x = [ucast (drop_bit 25 p AND 0xFF), ucast (drop_bit 17 p AND 0xFF), ucast (drop_bit 9 p AND 0xFF),
      ucast (drop_bit 1 p AND 0xFF), push_bit 7 (ucast (p AND 0x01)) OR 0x7E, 0x00]"
    unfolding write_pcr_def Let_def p_def by (rule refl)
  have slice: "k + (n - k) = (if k \<le> n then n else k)" for k n :: nat by simp
  note b = bit_simps bits_255 slice
  have m: "(0x7E :: int) = push_bit 1 (mask 6)" by (simp add: mask_eq_exp_minus_1)
  have c: "bit (0x7E :: int) n \<longleftrightarrow> 1 \<le> n \<and> n < 7" for n unfolding m bit_push_bit_iff bit_mask_iff by auto
  have part: "ucast (ucast (w AND 0xFF) :: byte) = take_bit 8 w" for w :: "64 word"
    by (rule bit_word_eqI) (auto simp: b)
  have "ucast (drop_bit 7 (push_bit 7 (ucast (p AND 0x01)) OR 0x7E :: byte)) = take_bit 1 p"
    by (rule bit_word_eqI) (auto simp: b c bit_1_iff bit_0)
  moreover have "push_bit 25 (take_bit 8 (drop_bit 25 p)) OR push_bit 17 (take_bit 8 (drop_bit 17 p)) OR
      push_bit 9 (take_bit 8 (drop_bit 9 p)) OR push_bit 1 (take_bit 8 (drop_bit 1 p)) OR take_bit 1 p = take_bit 33 p"
  proof (rule bit_word_eqI)
    fix n assume "n < LENGTH(64)"
    then show "bit (push_bit 25 (take_bit 8 (drop_bit 25 p)) OR push_bit 17 (take_bit 8 (drop_bit 17 p)) OR
        push_bit 9 (take_bit 8 (drop_bit 9 p)) OR push_bit 1 (take_bit 8 (drop_bit 1 p)) OR take_bit 1 p) n =
        bit (take_bit 33 p) n"
      unfolding bit_or_iff bit_push_bit_iff bit_take_bit_iff bit_drop_bit_eq o_def slice by auto
  qed
  ultimately show ?thesis unfolding e read_pcr_def p_def [symmetric] by (simp add: part)
qed

section \<open>Tables\<close>

lemma ts_packet_small:
  assumes "payload \<noteq> []" and "length payload < 183"
  shows "ts_packet pid True payload cc d = (stuffed_packet pid True cc (if d then 0x80 else 0) payload, next_cc cc)"
proof -
  let ?h = "[SYNC_BYTE, pid_head pid True, ucast pid]" and ?s = "184 - length payload"
  let ?b = "word_of_nat (?s - 1) :: byte" and ?f = "if d then 0x80 else 0 :: byte"
  have p1: "(packet_start 0xFF pid True)[3 := 0x30 OR cc, 4 := ?b, 5 := ?f] =
      ?h @ [0x30 OR cc, ?b, ?f] @ replicate 182 0xFF"
    by (simp add: packet_start_form eval_nat_numeral)
  have s: "2 \<le> ?s" "4 + ?s - 6 = ?s - 2" "188 - (4 + ?s) = length payload" using assms(2) by simp_all
  have p2: "write_at (?h @ [0x30 OR cc, ?b, ?f] @ replicate 182 0xFF) 6 (replicate (?s - 2) 0xFF) =
      ?h @ [0x30 OR cc, ?b, ?f] @ replicate 182 0xFF"
    using write_at_mid [of "?h @ [0x30 OR cc, ?b, ?f]" 6 "replicate (?s - 2) 0xFF" "replicate (?s - 2) 0xFF"
        "replicate (182 - (?s - 2)) 0xFF"] replicate_split [of "?s - 2" 182 "0xFF :: byte"] s by simp
  have "replicate 182 0xFF = replicate (?s - 2) 0xFF @ replicate (length payload) (0xFF :: byte)"
    using replicate_split [of "?s - 2" 182 "0xFF :: byte"] assms(2) by simp
  then have p3: "write_at (?h @ [0x30 OR cc, ?b, ?f] @ replicate 182 0xFF) (4 + ?s) payload =
      stuffed_packet pid True cc ?f payload"
    using write_at_mid [of "?h @ [0x30 OR cc, ?b, ?f] @ replicate (?s - 2) 0xFF" "4 + ?s"
        "replicate (length payload) 0xFF" payload "[]"] s
    by (simp add: stuffed_packet_def Let_def)
  have copy: "min (188 - 4) (length payload - 0) = length payload"
    "min (length payload - 0) (188 - (4 + ?s)) = length payload" using assms(2) by simp_all
  have s0: "188 - 4 - length payload = ?s" by simp
  have less: "(length payload < 188 - 4 \<or> True \<and> d)" and no2: "\<not> (True \<and> d \<and> ?s < 2)" and pos: "0 < ?s - 1"
    using assms(2) by auto
  have "table_packet pid True payload cc d 0 True = (stuffed_packet pid True cc ?f payload, length payload)"
  proof -
    have f: "(if True \<and> d then AF_DISCONTINUITY else 0x00) = ?f" by (simp add: AF_DISCONTINUITY_def)
    have t: "(True \<and> True) = True" "take (length payload) (drop 0 payload) = payload" by simp_all
    show ?thesis
      unfolding table_packet_def Let_def TS_PACKET_SIZE_def copy(1) if_P [OF less] s0 if_not_P [OF no2] f t(1) p1
        if_P [OF pos] s(2) p2 copy(2) t(2) p3 by (rule refl)
  qed
  then have "table_packets pid True payload cc d 0 True = ([stuffed_packet pid True cc ?f payload], next_cc cc)"
    using assms(1) by (simp add: table_packets.simps [of pid True payload cc d 0] table_packets.simps [of _ _ _ _ _ "length payload"])
  then show ?thesis by (simp add: ts_packet_def)
qed

text \<open>A section behind its pointer field: its table id, and its body when length and checksum are right.\<close>

definition parse_section :: "bytes \<Rightarrow> (byte \<times> bytes) option" where
  "parse_section p =
     (if length p < 13 \<or> p ! 0 \<noteq> 0 \<or> crc32 (drop 1 p) \<noteq> 0 \<or> length p \<noteq> be16 (p ! 2 AND 0x0F) (p ! 3) + 4 then None
      else Some (p ! 1, take (length p - 13) (drop 9 p)))"

lemma parse_own_section:
  assumes "8 \<le> length s" and "be16 (s ! 1 AND 0x0F) (s ! 2) = length s + 1"
  shows "parse_section (0x00 # s @ be32_bytes (crc32 s)) = Some (s ! 0, drop 8 s)"
proof -
  have "(0x00 # s @ be32_bytes (crc32 s)) ! Suc k = s ! k" if "k < 8" for k
    using that assms(1) by (simp add: nth_append)
  from this [of 0] this [of 1] this [of 2] have at:
    "(0x00 # s @ be32_bytes (crc32 s)) ! 1 = s ! 0" "(0x00 # s @ be32_bytes (crc32 s)) ! 2 = s ! 1"
    "(0x00 # s @ be32_bytes (crc32 s)) ! 3 = s ! 2" by (simp_all add: eval_nat_numeral)
  have body: "take (length (0x00 # s @ be32_bytes (crc32 s)) - 13) (drop 9 (0x00 # s @ be32_bytes (crc32 s))) = drop 8 s"
    using assms(1) by (simp add: eval_nat_numeral)
  show ?thesis
    unfolding parse_section_def at body using assms crc32_residue [of s] by simp
qed

lemma pat_section_parses:
  "parse_section (0x00 # pat_section @ be32_bytes (crc32 pat_section)) = Some (0x00, [0x00, 0x01, 0x10, 0x00])"
  "length pat_section = 12"
proof -
  have p: "pat_section = [0x00, 0xB0, 13, 0x00, 0x01, 0xC1, 0x00, 0x00, 0x00, 0x01, 0x10, 0x00]"
    by (simp add: pat_section_def PMT_PID_def drop_bit_eq_div)
  have "be16 (pat_section ! 1 AND 0x0F) (pat_section ! 2) = length pat_section + 1"
    by (simp add: p be16_eq)
  from parse_own_section [OF _ this]
  show "parse_section (0x00 # pat_section @ be32_bytes (crc32 pat_section)) = Some (0x00, [0x00, 0x01, 0x10, 0x00])"
    unfolding p by simp
  show "length pat_section = 12" by (simp add: p)
qed

text \<open>The body of the program map: the clock's PID, no descriptors, then the streams.\<close>

definition pmt_body :: "bool \<Rightarrow> bool \<Rightarrow> bytes" where
  "pmt_body v a =
     (if v then [0x01, 0x00] else if a then [0x01, 0x01] else [0x1F, 0xFF]) @ [0xF0, 0x00] @
     (if v then [0x1B, 0x01, 0x00, 0xF0, 0x00] else []) @ (if a then [0x0F, 0x01, 0x01, 0xF0, 0x00] else [])"

lemma pmt_section_parses:
  "parse_section (0x00 # pmt_section v a @ be32_bytes (crc32 (pmt_section v a))) = Some (0x02, pmt_body v a)"
  "8 \<le> length (pmt_section v a)" "length (pmt_section v a) < 170"
proof -
  let ?n = "13 + (if v then 5 else 0) + (if a then 5 else 0) :: nat"
  have p: "pmt_section v a = [0x02, 0xB0, word_of_nat ?n, 0x00, 0x01, 0xC1, 0x00, 0x00] @ pmt_body v a"
    by (cases v; cases a)
      (simp_all add: pmt_section_def pid_bytes_def pmt_body_def VIDEO_PID_def AUDIO_PID_def drop_bit_eq_div)
  have len: "length (pmt_section v a) = ?n - 1" unfolding p by (simp add: pmt_body_def)
  have "be16 (pmt_section v a ! 1 AND 0x0F) (pmt_section v a ! 2) = length (pmt_section v a) + 1"
  proof -
    have "pmt_section v a ! 1 = 0xB0" "pmt_section v a ! 2 = word_of_nat ?n" unfolding p by simp_all
    then show ?thesis unfolding len by (simp add: be16_eq)
  qed
  from parse_own_section [OF _ this]
  show "parse_section (0x00 # pmt_section v a @ be32_bytes (crc32 (pmt_section v a))) = Some (0x02, pmt_body v a)"
    by (simp add: len) (simp add: p)
  show "8 \<le> length (pmt_section v a)" "length (pmt_section v a) < 170" by (simp_all add: len)
qed

section \<open>ADTS\<close>

text \<open>Profile, sampling frequency index, channel configuration, frame length and raw data.\<close>

definition parse_adts :: "bytes \<Rightarrow> (byte \<times> byte \<times> byte \<times> nat \<times> bytes) option" where
  "parse_adts b =
     (if length b < 7 \<or> b ! 0 \<noteq> 0xFF \<or> (b ! 1) AND 0xF0 \<noteq> 0xF0 then None
      else Some (drop_bit 6 (b ! 2), drop_bit 2 (b ! 2) AND 0x0F,
                 (push_bit 2 (b ! 2) AND 0x04) OR drop_bit 6 (b ! 3),
                 unat (b ! 3 AND 0x03) * 2048 + unat (b ! 4) * 8 + unat (drop_bit 5 (b ! 5)), drop 7 b))"

lemma adts_fields:
  assumes "raw \<noteq> []" and "\<not> (length raw \<ge> 2 \<and> raw ! 0 = 0xFF \<and> (raw ! 1) AND 0xF0 = 0xF0)"
    and "length raw + 7 < 8192"
  shows "parse_adts (wrap_aac_adts raw) = Some (0, 4, 2, length raw + 7, raw)"
proof -
  let ?n = "length raw + 7"
  define x :: byte where "x = word_of_nat (drop_bit 11 ?n)"
  define y :: byte where "y = word_of_nat (take_bit 3 ?n)"
  have w: "wrap_aac_adts raw = [0xFF, 0xF1, 0x10, 0x80 OR x, word_of_nat (drop_bit 3 ?n), push_bit 5 y OR 0x1F, 0xFC] @ raw"
    using assms(1,2) by (simp add: wrap_aac_adts_def AAC_SAMPLE_RATE_INDEX_def AAC_CHANNELS_def x_def y_def Let_def)
  have xl: "drop_bit 11 ?n < 4" using assms(3) by (simp add: drop_bit_eq_div)
  have yl: "take_bit 3 ?n < 8" by (simp add: take_bit_eq_mod)
  have x_table: "list_all (\<lambda>k. (0x80 OR (word_of_nat k :: byte)) AND 0x03 = word_of_nat k \<and>
      drop_bit 6 (0x80 OR (word_of_nat k :: byte)) = 2) [0..<4]" by code_simp
  have y_table: "list_all (\<lambda>k. drop_bit 5 (push_bit 5 (word_of_nat k :: byte) OR 0x1F) = word_of_nat k) [0..<8]"
    by code_simp
  have x: "(0x80 OR x) AND 0x03 = x" "drop_bit 6 (0x80 OR x) = 2" "unat x = drop_bit 11 ?n"
    using x_table [unfolded list_all_iff, rule_format, of "drop_bit 11 ?n"] xl
    by (simp_all add: x_def unat_of_nat)
  have y: "drop_bit 5 (push_bit 5 y OR 0x1F) = y" "unat y = take_bit 3 ?n"
    using y_table [unfolded list_all_iff, rule_format, of "take_bit 3 ?n"] yl
    by (simp_all add: y_def unat_of_nat)
  have len: "unat x * 2048 + unat (word_of_nat (drop_bit 3 ?n) :: byte) * 8 + unat y = ?n"
  proof -
    have "unat (word_of_nat (drop_bit 3 ?n) :: byte) = ?n div 8 mod 256" by (simp add: unat_of_nat drop_bit_eq_div)
    moreover have "?n div 8 = ?n div 8 mod 256 + 256 * (?n div 8 div 256)" by simp
    moreover have "?n div 8 div 256 = ?n div 2048" by (simp add: div_mult2_eq)
    moreover have "m div 2048 * 2048 + m div 8 mod 256 * 8 + m mod 8 = m" for m :: nat
    proof -
      have "m div 2048 = m div 8 div 256" using div_mult2_eq [of m 8 256] by simp
      then show ?thesis using div_mult_mod_eq [of m 8] div_mult_mod_eq [of "m div 8" 256] by linarith
    qed
    ultimately show ?thesis
      unfolding x(3) y(2) drop_bit_eq_div take_bit_eq_mod by (simp add: div_mult2_eq)
  qed
  have head: "(wrap_aac_adts raw) ! 2 = 0x10" "(wrap_aac_adts raw) ! 3 = 0x80 OR x"
    "(wrap_aac_adts raw) ! 4 = word_of_nat (drop_bit 3 ?n)" "(wrap_aac_adts raw) ! 5 = push_bit 5 y OR 0x1F"
    "(wrap_aac_adts raw) ! 0 = 0xFF" "(wrap_aac_adts raw) ! 1 = 0xF1" "drop 7 (wrap_aac_adts raw) = raw"
    "\<not> length (wrap_aac_adts raw) < 7" unfolding w by simp_all
  have c: "drop_bit 6 (0x10 :: byte) = 0" "drop_bit 2 (0x10 :: byte) AND 0x0F = 4" "push_bit 2 (0x10 :: byte) AND 0x04 = 0"
    by (simp_all add: drop_bit_eq_div)
  show ?thesis
    unfolding parse_adts_def head x(1,2) y(1) len c using head(8) by simp
qed

end
