(* ===== verification/Ts_Stream.thy ===== *)
theory Ts_Stream
  imports Ts_Muxer
begin

text \<open>
  What a demultiplexer finds in the output of \<open>src/src/server/hls/ts_muxer.rs\<close>: one frame as one
  elementary stream packet, the tables as sections, and the continuity counters of all four PIDs
  over any sequence of operations of the muxer.
\<close>

section \<open>Counters\<close>

definition muxer_ok :: "ts_muxer \<Rightarrow> bool" where
  "muxer_ok t \<longleftrightarrow>
     unat (tm_cc_video t) < 16 \<and> unat (tm_cc_audio t) < 16 \<and> unat (tm_cc_pat t) < 16 \<and> unat (tm_cc_pmt t) < 16"

lemma muxer_new_ok: "muxer_ok muxer_new"
  by (simp add: muxer_ok_def muxer_new_def)

lemma cc_run_add: "cc_run cc (m + n) = cc_run cc m @ cc_run ((next_cc ^^ m) cc) n"
  by (induction m arbitrary: cc) (simp_all add: funpow_swap1)

lemma length_cc_run [simp]: "length (cc_run cc n) = n"
  by (induction n arbitrary: cc) simp_all

section \<open>One frame\<close>

definition frame_pid :: "media_frame \<Rightarrow> 16 word" where
  "frame_pid f = (if mf_codec f = AAC \<or> mf_codec f = Opus \<or> mf_codec f = G711 then AUDIO_PID else VIDEO_PID)"

definition frame_counter :: "ts_muxer \<Rightarrow> media_frame \<Rightarrow> byte" where
  "frame_counter t f = (if is_video_codec (mf_codec f) then tm_cc_video t else tm_cc_audio t)"

definition set_frame_counter :: "ts_muxer \<Rightarrow> media_frame \<Rightarrow> byte \<Rightarrow> ts_muxer" where
  "set_frame_counter t f cc = (if is_video_codec (mf_codec f) then t\<lparr>tm_cc_video := cc\<rparr> else t\<lparr>tm_cc_audio := cc\<rparr>)"

text \<open>The views of one unit: its PID, one start, counters in a row.\<close>

definition unit_views :: "16 word \<Rightarrow> byte \<Rightarrow> ts_view list \<Rightarrow> bool" where
  "unit_views pid cc vs \<longleftrightarrow>
     vs \<noteq> [] \<and> (\<forall>x\<in>set vs. tv_pid x = unat pid) \<and>
     map tv_unit_start vs = True # replicate (length vs - 1) False \<and> map tv_cc vs = cc_run cc (length vs)"

lemma known_frame_pid [simp]: "known_pid (frame_pid f)"
  by (simp add: known_pid_def frame_pid_def)

lemma frame_pes_fields [simp]:
  "mf_data (with_optional_clock_rate (media_frame_new s k t d b c) r) = d"
  "mf_timestamp (with_optional_clock_rate (media_frame_new s k t d b c) r) = t"
  by (cases r; simp add: with_optional_clock_rate_def media_frame_new_def)+

lemma frame_to_ts_views:
  assumes "ts_payload f \<noteq> []" and "unat (frame_counter t f) < 16" and "frame_to_ts t f = (t', out)"
  shows "\<exists>ps vs. out = concat ps \<and> map parse_ts ps = map Some vs \<and> (\<forall>p\<in>set ps. length p = 188) \<and>
     unit_views (frame_pid f) (frame_counter t f) vs \<and>
     t' = set_frame_counter t f ((next_cc ^^ length vs) (frame_counter t f)) \<and>
     parse_pes (concat (map tv_payload vs)) =
       Some (if is_video_codec (mf_codec f) then 0xE0 else 0xC0,
             read_pts (write_pes_timestamp 0x20 (mf_timestamp f)), ts_payload f)"
proof -
  let ?v = "is_video_codec (mf_codec f)" and ?cc = "frame_counter t f"
  define fp where "fp = with_optional_clock_rate
    (media_frame_new (mf_stream_id f) (mf_track_id f) (mf_timestamp f) (ts_payload f) (mf_is_keyframe f) (mf_codec f))
    (mf_clock_rate f)"
  let ?pes = "build_pes fp ?v"
  obtain ps cc' where ps: "pes_packets ?pes (frame_pid f) ?v ?cc (tm_pcr_clock t) 0 True = (ps, cc')" by fastforce
  have pid: "(if ?v then VIDEO_PID else if mf_codec f = AAC \<or> mf_codec f = Opus \<or> mf_codec f = G711 then AUDIO_PID
      else VIDEO_PID) = frame_pid f"
    by (auto simp: frame_pid_def)
  from assms(1,3) ps have out: "out = concat ps" "t' = set_frame_counter t f cc'"
    unfolding frame_to_ts_def pes_to_ts_packets_def Let_def pid fp_def [symmetric] frame_counter_def [symmetric]
    by (simp_all add: set_frame_counter_def)
  have pos: "0 < length ?pes" by (simp add: build_pes_def)
  from pes_packets_views [OF known_frame_pid assms(2) le0 ps, unfolded drop_0 diff_zero if_P [OF pos] simp_thms]
  obtain vs where vs:
    "map parse_ts ps = map Some vs" "\<forall>p\<in>set ps. length p = 188"
    "concat (map tv_payload vs) = ?pes @ video_padding ?v (length ?pes)"
    "\<forall>x\<in>set vs. tv_pid x = unat (frame_pid f)" "map tv_unit_start vs = True # replicate (length ps - 1) False"
    "map tv_cc vs = cc_run ?cc (length ps)" "cc' = (next_cc ^^ length ps) ?cc"
    by (elim exE conjE) metis
  have len: "length vs = length ps" using vs(1) by (metis length_map)
  have "vs \<noteq> []" using vs(5) by auto
  have "length ?pes = 14 + length (mf_data fp)" by (simp add: build_pes_def)
  then have "video_padding ?v (length ?pes) = [] \<or> 8 + length (mf_data fp) \<le> 0xFFFF"
    by (auto simp: video_padding_def)
  from parse_pes_build [OF this, of ?v] vs len out \<open>vs \<noteq> []\<close> show ?thesis
    by (intro exI [of _ ps] exI [of _ vs]) (simp add: unit_views_def fp_def)
qed

text \<open>C21. A frame of any codec, H.264 with or without an access unit delimiter or raw AAC, becomes a
  whole number of transport packets of one PID: the first and only the first starts a unit, the
  continuity counters follow the muxer's and the muxer keeps the next one, and the payloads
  joined are one PES packet with the frame's data. The PTS read from it is that of the frame only
  below \<open>2 ^ 30\<close> ticks: bit 30 is lost and the bits above are read one place lower.\<close>

theorem ts_frame_roundtrip:
  assumes "ts_payload f \<noteq> []" and "muxer_ok t" and "frame_to_ts t f = (t', out)"
  shows "\<exists>vs pts. demux out = Some vs \<and> unit_views (frame_pid f) (frame_counter t f) vs \<and>
     t' = set_frame_counter t f ((next_cc ^^ length vs) (frame_counter t f)) \<and>
     parse_pes (concat (map tv_payload vs)) =
       Some (if is_video_codec (mf_codec f) then 0xE0 else 0xC0, pts, ts_payload f) \<and>
     unat pts = (let p = sat_mul64 (mf_timestamp f) 90 in p mod 2 ^ 30 + 2 ^ 30 * (p div 2 ^ 31 mod 8))"
proof -
  have "unat (frame_counter t f) < 16" using assms(2) by (simp add: muxer_ok_def frame_counter_def)
  from frame_to_ts_views [OF assms(1) this assms(3)] show ?thesis
    using demux_concat read_write_pts_nat [OF refl, of "mf_timestamp f"] unfolding Let_def by blast
qed

definition demo_ts_frame :: media_frame where
  "demo_ts_frame =
     media_frame_new ''s'' 0 40 (replicate 400 0x65) True H264"

theorem ts_frame_roundtrip_witness:
  "\<exists>vs pts. demux (snd (frame_to_ts muxer_new demo_ts_frame)) = Some vs \<and>
     parse_pes (concat (map tv_payload vs)) = Some (0xE0, pts, ts_payload demo_ts_frame) \<and> unat pts = 3600"
proof -
  have p: "ts_payload demo_ts_frame \<noteq> []" "mf_timestamp demo_ts_frame = 40" "mf_codec demo_ts_frame = H264"
    by (simp_all add: demo_ts_frame_def media_frame_new_def ts_payload_def prepare_h264_au_for_ts_def)
  from ts_frame_roundtrip [OF p(1) muxer_new_ok, of "fst (frame_to_ts muxer_new demo_ts_frame)"
      "snd (frame_to_ts muxer_new demo_ts_frame)"] p(2,3)
  show ?thesis by (auto simp: Let_def sat_mul64_def u64_max_def)
qed

section \<open>Tables\<close>

lemma generate_pat_packet:
  assumes "unat (tm_cc_pat t) < 16"
  shows "generate_pat t =
     (t\<lparr>tm_segment_discontinuity := False, tm_cc_pat := next_cc (tm_cc_pat t)\<rparr>,
      stuffed_packet PAT_PID True (tm_cc_pat t) (if tm_segment_discontinuity t then 0x80 else 0)
        (0x00 # pat_section @ be32_bytes (crc32 pat_section)))"
proof -
  have len: "0x00 # pat_section @ be32_bytes (crc32 pat_section) \<noteq> []"
    "length (0x00 # pat_section @ be32_bytes (crc32 pat_section)) < 183"
    by (simp_all add: pat_section_parses(2))
  show ?thesis
    unfolding generate_pat_def take_segment_discontinuity_def Let_def prod.case ts_packet_small [OF len] by simp
qed

lemma generate_pmt_packet:
  assumes "unat (tm_cc_pmt t) < 16"
  shows "generate_pmt t v a =
     (t\<lparr>tm_cc_pmt := next_cc (tm_cc_pmt t)\<rparr>,
      stuffed_packet PMT_PID True (tm_cc_pmt t) 0 (0x00 # pmt_section v a @ be32_bytes (crc32 (pmt_section v a))))"
proof -
  let ?q = "0x00 # pmt_section v a @ be32_bytes (crc32 (pmt_section v a))"
  have len: "?q \<noteq> []" "length ?q < 183" using pmt_section_parses(3) [of v a] by simp_all
  show ?thesis unfolding generate_pmt_def Let_def ts_packet_small [OF len] by simp
qed

definition tables_after :: "ts_muxer \<Rightarrow> ts_muxer" where
  "tables_after t =
     t\<lparr>tm_segment_discontinuity := False, tm_cc_pat := next_cc (tm_cc_pat t), tm_cc_pmt := next_cc (tm_cc_pmt t)\<rparr>"

lemma generate_pat_pmt_views:
  assumes "muxer_ok t" and "generate_pat_pmt t v a = (t', out)"
  defines "p \<equiv> 0x00 # pat_section @ be32_bytes (crc32 pat_section)"
    and "q \<equiv> 0x00 # pmt_section v a @ be32_bytes (crc32 (pmt_section v a))"
  shows "\<exists>ps. out = concat ps \<and> (\<forall>x\<in>set ps. length x = 188) \<and>
     map parse_ts ps = map Some [view PAT_PID True (tm_cc_pat t) p, view PMT_PID True (tm_cc_pmt t) q] \<and>
     t' = tables_after t \<and> out ! 5 = (if tm_segment_discontinuity t then 0x80 else 0)"
proof -
  let ?d = "if tm_segment_discontinuity t then 0x80 else 0 :: byte"
  let ?a = "stuffed_packet PAT_PID True (tm_cc_pat t) ?d p" and ?b = "stuffed_packet PMT_PID True (tm_cc_pmt t) 0 q"
  from assms(1) have cc: "unat (tm_cc_pat t) < 16" "unat (tm_cc_pmt t) < 16" by (simp_all add: muxer_ok_def)
  from cc(2) have "unat (tm_cc_pmt (t\<lparr>tm_segment_discontinuity := False, tm_cc_pat := next_cc (tm_cc_pat t)\<rparr>)) < 16"
    by simp
  note g = generate_pat_packet [OF cc(1)] generate_pmt_packet [OF this]
  from assms(2) have out: "out = ?a @ ?b" "t' = tables_after t"
    unfolding generate_pat_pmt_def g p_def [symmetric] q_def [symmetric] Let_def prod.case
    by (simp_all add: tables_after_def)
  have small: "length p < 184" "length q < 184" "length p < 182"
    using pat_section_parses(2) pmt_section_parses(3) [of v a] by (simp_all add: p_def q_def)
  have pid: "known_pid PAT_PID" "known_pid PMT_PID" by (simp_all add: known_pid_def)
  have "\<not> 184 - length p < 2" using small(3) by linarith
  then have five: "out ! 5 = ?d" unfolding out stuffed_packet_def Let_def by (simp add: nth_append)
  show ?thesis
    using parse_stuffed_packet [OF pid(1) cc(1) small(1), of True ?d]
      parse_stuffed_packet [OF pid(2) cc(2) small(2), of True 0] out five
    by (intro exI [of _ "[?a, ?b]"]) simp
qed

lemma generate_pat_pmt_nonempty: "snd (generate_pat_pmt t v a) \<noteq> []"
  by (auto simp: generate_pat_pmt_def generate_pat_def ts_packet_small pat_section_parses stuffed_packet_def Let_def split: prod.splits)

text \<open>The tables are two packets, each the start of a unit on its PID with the muxer's counter,
  whose sections have the stated length and a checksum that comes out as zero: a program
  association that names one program map at PID 0x1000, and a program map that lists exactly the
  streams asked for. Only the first carries the discontinuity mark, and the mark is used up.\<close>

theorem ts_tables_wellformed:
  assumes "muxer_ok t" and "generate_pat_pmt t v a = (t', out)"
  shows "muxer_ok t' \<and> \<not> tm_segment_discontinuity t' \<and>
     out ! 5 = (if tm_segment_discontinuity t then 0x80 else 0) \<and>
     (\<exists>p q. demux out = Some [view PAT_PID True (tm_cc_pat t) p, view PMT_PID True (tm_cc_pmt t) q] \<and>
        parse_section p = Some (0x00, [0x00, 0x01] @ [0x10, 0x00]) \<and>
        parse_section q = Some (0x02, pmt_body v a))"
proof -
  from generate_pat_pmt_views [OF assms] obtain ps where ps: "out = concat ps" "\<forall>x\<in>set ps. length x = 188"
    "map parse_ts ps = map Some
       [view PAT_PID True (tm_cc_pat t) (0x00 # pat_section @ be32_bytes (crc32 pat_section)),
        view PMT_PID True (tm_cc_pmt t) (0x00 # pmt_section v a @ be32_bytes (crc32 (pmt_section v a)))]"
    "t' = tables_after t" "out ! 5 = (if tm_segment_discontinuity t then 0x80 else 0)"
    by metis
  have "muxer_ok t'" using assms(1) cc_bits(3) unfolding ps(4) by (simp add: muxer_ok_def tables_after_def)
  moreover have "\<not> tm_segment_discontinuity t'" by (simp add: ps(4) tables_after_def)
  ultimately show ?thesis
    using ps(5) demux_concat [OF ps(3,2)] ps(1) pat_section_parses(1) pmt_section_parses(1) [of v a] by auto
qed

theorem ts_tables_wellformed_witness:
  "\<exists>p q. demux (snd (generate_pat_pmt (mark_segment_discontinuity muxer_new) True True)) =
       Some [view PAT_PID True 0 p, view PMT_PID True 0 q] \<and>
     parse_section q = Some (0x02, [0x01, 0x00, 0xF0, 0x00] @ [0x1B, 0x01, 0x00, 0xF0, 0x00] @ [0x0F, 0x01, 0x01, 0xF0, 0x00])"
proof -
  have "muxer_ok (mark_segment_discontinuity muxer_new)"
    by (simp add: muxer_ok_def muxer_new_def mark_segment_discontinuity_def)
  from ts_tables_wellformed [OF this surjective_pairing, of True True] show ?thesis
    by (auto simp: mark_segment_discontinuity_def muxer_new_def pmt_body_def)
qed

section \<open>The counters over a whole session\<close>

text \<open>What a segment writer asks of the muxer, except \<open>hard_reset\<close>, which starts the counters anew.\<close>

datatype ts_op =
    Write_tables bool bool
  | Write_frame media_frame
  | Set_pcr nat
  | Mark_discontinuity
  | Begin_segment

fun ts_exec :: "ts_muxer \<Rightarrow> ts_op \<Rightarrow> ts_muxer \<times> bytes" where
  "ts_exec t (Write_tables v a) = generate_pat_pmt t v a"
| "ts_exec t (Write_frame f) = frame_to_ts t f"
| "ts_exec t (Set_pcr ms) = (update_pcr t ms, [])"
| "ts_exec t Mark_discontinuity = (mark_segment_discontinuity t, [])"
| "ts_exec t Begin_segment = (reset_for_new_segment t, [])"

fun ts_run :: "ts_muxer \<Rightarrow> ts_op list \<Rightarrow> ts_muxer \<times> bytes" where
  "ts_run t [] = (t, [])"
| "ts_run t (x # xs) = (case ts_exec t x of (t1, out) \<Rightarrow> case ts_run t1 xs of (t2, out') \<Rightarrow> (t2, out @ out'))"

definition known_codec :: "ts_op \<Rightarrow> bool" where
  "known_codec x = (case x of Write_frame f \<Rightarrow> mf_codec f \<noteq> codec_type.Unknown | _ \<Rightarrow> True)"

definition muxer_cc :: "ts_muxer \<Rightarrow> nat \<Rightarrow> byte" where
  "muxer_cc t pid =
     (if pid = unat PAT_PID then tm_cc_pat t else if pid = unat PMT_PID then tm_cc_pmt t
      else if pid = unat VIDEO_PID then tm_cc_video t else tm_cc_audio t)"

definition pids :: "nat set" where
  "pids = {unat PAT_PID, unat PMT_PID, unat VIDEO_PID, unat AUDIO_PID}"

definition ccs_on :: "nat \<Rightarrow> ts_view list \<Rightarrow> byte list" where
  "ccs_on pid vs = map tv_cc (filter (\<lambda>x. tv_pid x = pid) vs)"

text \<open>From \<open>t\<close> to \<open>t'\<close> every PID's counters are in a row.\<close>

definition continues :: "ts_muxer \<Rightarrow> ts_view list \<Rightarrow> ts_muxer \<Rightarrow> bool" where
  "continues t vs t' \<longleftrightarrow>
     (\<forall>pid\<in>pids. ccs_on pid vs = cc_run (muxer_cc t pid) (length (ccs_on pid vs)) \<and>
        muxer_cc t' pid = (next_cc ^^ length (ccs_on pid vs)) (muxer_cc t pid)) \<and>
     (\<forall>x\<in>set vs. tv_pid x \<in> pids)"

lemma ccs_on_append [simp]: "ccs_on pid (vs @ ws) = ccs_on pid vs @ ccs_on pid ws"
  by (simp add: ccs_on_def)

lemma continues_append:
  assumes "continues t vs t1" and "continues t1 ws t2"
  shows "continues t (vs @ ws) t2"
proof -
  have "ccs_on pid (vs @ ws) = cc_run (muxer_cc t pid) (length (ccs_on pid (vs @ ws))) \<and>
      muxer_cc t2 pid = (next_cc ^^ length (ccs_on pid (vs @ ws))) (muxer_cc t pid)" if "pid \<in> pids" for pid
  proof -
    let ?m = "length (ccs_on pid vs)" and ?n = "length (ccs_on pid ws)"
    have a: "ccs_on pid vs = cc_run (muxer_cc t pid) ?m" "muxer_cc t1 pid = (next_cc ^^ ?m) (muxer_cc t pid)"
      and b: "ccs_on pid ws = cc_run (muxer_cc t1 pid) ?n" "muxer_cc t2 pid = (next_cc ^^ ?n) (muxer_cc t1 pid)"
      using assms that unfolding continues_def by blast+
    have "ccs_on pid (vs @ ws) = cc_run (muxer_cc t pid) (?m + ?n)"
      unfolding cc_run_add a(2) [symmetric] using a(1) b(1) by simp
    moreover have "muxer_cc t2 pid = (next_cc ^^ (?m + ?n)) (muxer_cc t pid)"
      using a(2) b(2) by (simp add: funpow_add add.commute [of ?m])
    ultimately show ?thesis by simp
  qed
  then show ?thesis using assms unfolding continues_def by auto
qed

lemma continues_none: "muxer_cc t' = muxer_cc t \<Longrightarrow> continues t [] t'"
  by (simp add: continues_def ccs_on_def)

lemma pid_values: "unat PAT_PID = 0" "unat PMT_PID = 4096" "unat VIDEO_PID = 256" "unat AUDIO_PID = 257"
  by (simp_all add: PAT_PID_def PMT_PID_def VIDEO_PID_def AUDIO_PID_def)

lemma continues_tables:
  assumes "tv_pid x = unat PAT_PID" "tv_cc x = tm_cc_pat t" "tv_pid y = unat PMT_PID" "tv_cc y = tm_cc_pmt t"
  shows "continues t [x, y] (tables_after t)"
  using assms unfolding continues_def pids_def
  by (simp add: ccs_on_def muxer_cc_def tables_after_def pid_values)

lemma continues_frame:
  assumes "unit_views (frame_pid f) (frame_counter t f) vs" and "mf_codec f \<noteq> codec_type.Unknown"
  shows "continues t vs (set_frame_counter t f ((next_cc ^^ length vs) (frame_counter t f)))"
proof -
  from assms(1) have v: "\<forall>x\<in>set vs. tv_pid x = unat (frame_pid f)" "map tv_cc vs = cc_run (frame_counter t f) (length vs)"
    by (simp_all add: unit_views_def)
  have "filter (\<lambda>x. tv_pid x = pid) vs = (if pid = unat (frame_pid f) then vs else [])" for pid
    using v(1) by (auto simp: filter_empty_conv intro: filter_True)
  then have on: "ccs_on pid vs = (if pid = unat (frame_pid f) then cc_run (frame_counter t f) (length vs) else [])" for pid
    unfolding ccs_on_def using v(2) by simp
  show ?thesis
  proof (cases "is_video_codec (mf_codec f)")
    case True
    then have "frame_pid f = VIDEO_PID" by (auto simp: frame_pid_def)
    with True on v(1) show ?thesis
      unfolding continues_def pids_def
      by (simp add: muxer_cc_def set_frame_counter_def frame_counter_def pid_values)
  next
    case False
    with assms(2) have "frame_pid f = AUDIO_PID" by (cases "mf_codec f") (auto simp: frame_pid_def)
    with False on v(1) show ?thesis
      unfolding continues_def pids_def
      by (simp add: muxer_cc_def set_frame_counter_def frame_counter_def pid_values)
  qed
qed

lemma set_frame_counter_ok:
  assumes "muxer_ok t"
  shows "muxer_ok (set_frame_counter t f ((next_cc ^^ n) (frame_counter t f)))"
  using assms cc_run_less [of _ n] by (simp add: muxer_ok_def set_frame_counter_def frame_counter_def)

lemma ts_exec_views:
  assumes "muxer_ok t" and "known_codec x" and "ts_exec t x = (t', out)"
  shows "\<exists>ps vs. out = concat ps \<and> map parse_ts ps = map Some vs \<and> (\<forall>p\<in>set ps. length p = 188) \<and>
     continues t vs t' \<and> muxer_ok t'"
proof (cases x)
  case (Write_tables v a)
  with assms(3) have g: "generate_pat_pmt t v a = (t', out)" by simp
  show ?thesis
    using generate_pat_pmt_views [OF assms(1) g] continues_tables [of _ t] assms(1)
    by (elim exE conjE)
      (intro exI conjI, assumption, assumption, assumption, simp, simp add: muxer_ok_def tables_after_def cc_bits(3))
next
  case (Write_frame f)
  with assms(3) have g: "frame_to_ts t f = (t', out)" by simp
  show ?thesis
  proof (cases "ts_payload f = []")
    case True
    with g have "t' = t" "out = []" by (simp_all add: frame_to_ts_def Let_def)
    with assms(1) show ?thesis by (intro exI [of _ "[]"]) (simp add: continues_none)
  next
    case False
    have "unat (frame_counter t f) < 16" using assms(1) by (simp add: muxer_ok_def frame_counter_def)
    from frame_to_ts_views [OF False this g] obtain ps vs where
      "out = concat ps" "map parse_ts ps = map Some vs" "\<forall>p\<in>set ps. length p = 188"
      "unit_views (frame_pid f) (frame_counter t f) vs"
      "t' = set_frame_counter t f ((next_cc ^^ length vs) (frame_counter t f))"
      by metis
    with continues_frame [of f t vs] set_frame_counter_ok [OF assms(1)] assms(2) Write_frame show ?thesis
      by (intro exI [of _ ps] exI [of _ vs]) (simp add: known_codec_def)
  qed
next
  case (Set_pcr ms)
  with assms show ?thesis
    by (intro exI [of _ "[]"]) (auto intro!: continues_none simp: update_pcr_def muxer_cc_def muxer_ok_def)
next
  case Mark_discontinuity
  with assms show ?thesis
    by (intro exI [of _ "[]"]) (auto intro!: continues_none simp: mark_segment_discontinuity_def muxer_cc_def muxer_ok_def)
next
  case Begin_segment
  with assms show ?thesis
    by (intro exI [of _ "[]"]) (auto intro!: continues_none simp: reset_for_new_segment_def)
qed

lemma ts_run_views:
  assumes "muxer_ok t" and "list_all known_codec xs" and "ts_run t xs = (t', out)"
  shows "\<exists>ps vs. out = concat ps \<and> map parse_ts ps = map Some vs \<and> (\<forall>p\<in>set ps. length p = 188) \<and> continues t vs t'"
  using assms
proof (induction xs arbitrary: t out)
  case Nil
  then show ?case by (intro exI [of _ "[]"]) (simp add: continues_none)
next
  case (Cons x xs)
  obtain t1 o1 where e: "ts_exec t x = (t1, o1)" by fastforce
  obtain o2 where r: "ts_run t1 xs = (t', o2)" and out: "out = o1 @ o2"
    using Cons.prems(3) e by (auto split: prod.splits)
  have x: "known_codec x" and xs: "list_all known_codec xs" using Cons.prems(2) by simp_all
  from ts_exec_views [OF Cons.prems(1) x e] obtain ps vs where a: "o1 = concat ps" "map parse_ts ps = map Some vs"
    "\<forall>p\<in>set ps. length p = 188" "continues t vs t1" "muxer_ok t1"
    by metis
  from Cons.IH [OF a(5) xs r] obtain qs ws where b: "o2 = concat qs" "map parse_ts qs = map Some ws"
    "\<forall>p\<in>set qs. length p = 188" "continues t1 ws t'"
    by metis
  have "map parse_ts (ps @ qs) = map Some (vs @ ws)" using a(2) b(2) by simp
  moreover have "out = concat (ps @ qs)" using out a(1) b(1) by simp
  moreover have "\<forall>p\<in>set (ps @ qs). length p = 188" using a(3) b(3) by auto
  ultimately show ?case using continues_append [OF a(4) b(4)] by blast
qed

text \<open>Whatever sequence of tables, frames, clock updates, discontinuity marks and segment starts
  a new muxer is given, as long as no frame has an unknown codec, the output is a whole number of
  transport packets on the four PIDs, and on each PID the continuity counters are 0, 1, 2, ... modulo 16
  without a break: across frames, tables and segment boundaries.\<close>

theorem ts_counters_continuous:
  assumes "list_all known_codec xs" and "ts_run muxer_new xs = (t', out)"
  shows "\<exists>vs. demux out = Some vs \<and> (\<forall>x\<in>set vs. tv_pid x \<in> pids) \<and>
     (\<forall>pid\<in>pids. ccs_on pid vs = cc_run 0 (length (ccs_on pid vs)))"
proof -
  from ts_run_views [OF muxer_new_ok assms] obtain ps vs where
    v: "out = concat ps" "map parse_ts ps = map Some vs" "\<forall>p\<in>set ps. length p = 188" "continues muxer_new vs t'"
    by metis
  have "muxer_cc muxer_new pid = 0" for pid by (simp add: muxer_cc_def muxer_new_def)
  then show ?thesis using v(4) demux_concat [OF v(2,3)] v(1) unfolding continues_def by auto
qed

theorem ts_counters_continuous_witness:
  "\<exists>vs. demux (snd (ts_run muxer_new [Write_tables True False, Write_frame demo_ts_frame, Begin_segment,
       Write_tables True False])) = Some vs \<and> (\<forall>pid\<in>pids. ccs_on pid vs = cc_run 0 (length (ccs_on pid vs)))"
proof -
  let ?xs = "[Write_tables True False, Write_frame demo_ts_frame, Begin_segment, Write_tables True False]"
  have "list_all known_codec ?xs" by (simp add: known_codec_def demo_ts_frame_def media_frame_new_def)
  from ts_counters_continuous [OF this surjective_pairing] show ?thesis by blast
qed

section \<open>Clocks and checksums\<close>

text \<open>The table-driven CRC is the bit-by-bit CRC-32 of ISO 13818-1 for every input, and a section
  followed by its own checksum has checksum zero, which is what a receiver tests.\<close>

theorem ts_crc_is_mpeg_crc:
  "crc32 data = crc_reference data \<and> crc32 (data @ be32_bytes (crc32 data)) = 0"
  using crc32_reference crc32_residue by blast

text \<open>The clock reference written into every video unit is 300 times too fast: for the same media
  time the PTS is in ticks of 90 kHz, while the 33-bit PCR base holds the 27 MHz count itself and
  the 9-bit extension stays zero.\<close>

theorem ts_pcr_runs_300_times_too_fast:
  assumes "27000 * ms < 2 ^ 33"
  shows "unat (read_pcr (write_pcr (tm_pcr_clock (update_pcr t ms)))) =
     300 * unat (read_pts (write_pes_timestamp 0x20 ms))"
proof -
  have ms: "ms < 318146" using assms by simp
  then have "sat_mul64 ms 90 = 90 * ms" by (simp add: sat_mul64_def u64_max_def)
  moreover have "90 * ms < 2 ^ 30" using ms by simp
  ultimately have pts: "unat (read_pts (write_pes_timestamp 0x20 ms)) = 90 * ms"
    using read_write_pts_nat [OF refl, of ms] by simp
  have clock: "tm_pcr_clock (update_pcr t ms) = 27000 * ms"
    using ms by (simp add: update_pcr_def wrap64_def)
  have "unat (word_of_nat (27000 * ms) :: 64 word) = 27000 * ms"
    using ms by (simp add: unat_of_nat del: of_nat_mult)
  then have "unat (read_pcr (write_pcr (tm_pcr_clock (update_pcr t ms)))) = take_bit 33 (27000 * ms)"
    unfolding clock read_write_pcr unsigned_take_bit_eq by (rule arg_cong)
  then show ?thesis using assms by (simp add: pts take_bit_eq_mod)
qed

theorem ts_pcr_runs_300_times_too_fast_witness:
  "unat (read_pcr (write_pcr (tm_pcr_clock (update_pcr muxer_new 1000)))) =
     300 * unat (read_pts (write_pes_timestamp 0x20 1000))"
  by (rule ts_pcr_runs_300_times_too_fast) simp

end
