(* ===== verification/Paths.thy ===== *)
theory Paths
  imports Text_Lines
begin

text \<open>
  What the program uses of \<open>std::path\<close> and of the file system, on Unix: joining, and the place a path
  leads to from the working directory. A place is the list of its names from the root, a disk maps
  places to the bytes of the files there; symbolic links are left out. \<open>sanitize_path_component\<close> is
  the function of this name in \<open>process/record\<close> and \<open>process/snapshot\<close>.
\<close>

section \<open>Paths\<close>

type_synonym place = "string list"

type_synonym disk = "place \<rightharpoonup> bytes"

text \<open>\<open>Path::join\<close>: an absolute right side replaces the left one.\<close>

definition path_join :: "string \<Rightarrow> string \<Rightarrow> string" where
  "path_join base rel =
     (if prefix ''/'' rel \<or> base = [] then rel
      else if suffix ''/'' base then base @ rel else base @ ''/'' @ rel)"

fun walk :: "place \<Rightarrow> string list \<Rightarrow> place" where
  "walk at [] = at"
| "walk at (c # cs) =
     walk (if c = [] \<or> c = ''.'' then at else if c = ''..'' then butlast at else at @ [c]) cs"

definition locate :: "place \<Rightarrow> string \<Rightarrow> place" where
  "locate cwd p = walk (if prefix ''/'' p then [] else cwd) (split_char (CHR ''/'') p)"

text \<open>A name that is one proper component of a path.\<close>

definition plain_name :: "string \<Rightarrow> bool" where
  "plain_name s \<longleftrightarrow> s \<noteq> [] \<and> s \<noteq> ''.'' \<and> s \<noteq> ''..'' \<and> CHR ''/'' \<notin> set s"

lemma split_by_append_sep:
  "split_char c (a @ c # b) = split_char c a @ split_char c b"
proof (induction a)
  case (Cons x a)
  then show ?case by (cases "split_char c a") auto
qed simp

lemma walk_append: "walk at (cs @ ds) = walk (walk at cs) ds"
  by (induction cs arbitrary: at) auto

lemma plain_name_split: "plain_name s \<Longrightarrow> split_char (CHR ''/'') s = [s]"
  unfolding plain_name_def by (rule split_by_none) (auto simp: list_all_iff)

lemma prefix_slash: "prefix ''/'' s \<longleftrightarrow> (\<exists>r. s = CHR ''/'' # r)"
  by (cases s) auto

lemma plain_name_relative: "plain_name s \<Longrightarrow> \<not> prefix ''/'' s"
  by (auto simp: plain_name_def prefix_slash)

text \<open>Joining a plain name goes one step down.\<close>

lemma locate_join:
  assumes "plain_name s" and "base \<noteq> []"
  shows "locate cwd (path_join base s) = locate cwd base @ [s]"
proof -
  have s: "s \<noteq> []" "s \<noteq> ''.''" "s \<noteq> ''..''" using assms(1) by (auto simp: plain_name_def)
  have rel: "\<not> prefix ''/'' s" by (rule plain_name_relative [OF assms(1)])
  have pre: "prefix ''/'' (base @ x) = prefix ''/'' base" for x using assms(2) by (cases base) auto
  show ?thesis
  proof (cases "suffix ''/'' base")
    case True
    then obtain b where b: "base = b @ ''/''" by (auto simp: suffix_def)
    have "split_char (CHR ''/'') (base @ s) = split_char (CHR ''/'') b @ [s]"
      using split_by_append_sep [of "CHR ''/''" b s] by (simp add: b plain_name_split [OF assms(1)])
    moreover have "split_char (CHR ''/'') base = split_char (CHR ''/'') b @ [[]]"
      using split_by_append_sep [of "CHR ''/''" b "[]"] by (simp add: b)
    ultimately show ?thesis
      using True rel assms(2) s pre [of s] by (simp add: path_join_def locate_def walk_append)
  next
    case False
    have "split_char (CHR ''/'') (base @ ''/'' @ s) = split_char (CHR ''/'') base @ [s]"
      using split_by_append_sep [of "CHR ''/''" base s] by (simp add: plain_name_split [OF assms(1)])
    then show ?thesis
      using False rel assms(2) s pre [of "''/'' @ s"] by (simp add: path_join_def locate_def walk_append)
  qed
qed

text \<open>Joining an absolute path leaves the directory altogether, joining \<open>..\<close> leaves it upwards.\<close>

lemma locate_join_absolute: "prefix ''/'' s \<Longrightarrow> locate cwd (path_join base s) = locate cwd s"
  by (simp add: path_join_def)

lemma locate_join_up: "base \<noteq> [] \<Longrightarrow> locate cwd (path_join base ''..'') = butlast (locate cwd base)"
proof -
  assume b: "base \<noteq> []"
  have pre: "prefix ''/'' (base @ x) = prefix ''/'' base" for x using b by (cases base) auto
  show ?thesis
  proof (cases "suffix ''/'' base")
    case True
    then obtain c where c: "base = c @ ''/''" by (auto simp: suffix_def)
    have "split_char (CHR ''/'') (base @ ''..'') = split_char (CHR ''/'') c @ [''..'']"
      using split_by_append_sep [of "CHR ''/''" c "''..''"] by (simp add: c)
    moreover have "split_char (CHR ''/'') base = split_char (CHR ''/'') c @ [[]]"
      using split_by_append_sep [of "CHR ''/''" c "[]"] by (simp add: c)
    ultimately show ?thesis
      using True b pre [of "''..''"] by (simp add: path_join_def locate_def walk_append)
  next
    case False
    have "split_char (CHR ''/'') (base @ ''/'' @ ''..'') = split_char (CHR ''/'') base @ [''..'']"
      using split_by_append_sep [of "CHR ''/''" base "''..''"] by simp
    then show ?thesis
      using False b pre [of "''/..''"] by (simp add: path_join_def locate_def walk_append)
  qed
qed

lemma path_join_nonempty: "a \<noteq> [] \<Longrightarrow> path_join a b \<noteq> []"
  by (auto simp: path_join_def)

text \<open>A name with a slash inside goes two steps down.\<close>

lemma join_two_names:
  assumes "plain_name a" and "plain_name b" and "base \<noteq> []"
  shows "path_join base (a @ ''/'' @ b) = path_join (path_join base a) b"
proof -
  have a: "a \<noteq> []" "\<not> prefix ''/'' a" using assms(1) by (auto simp: plain_name_def prefix_def)
  have pa: "\<not> prefix ''/'' (a @ x)" for x using a by (cases a) auto
  have ns: "\<not> suffix ''/'' (x @ a)" for x
  proof
    assume "suffix ''/'' (x @ a)"
    then have "last (x @ a) = CHR ''/''" by (auto simp: suffix_def simp del: last_append)
    with a(1) have "CHR ''/'' \<in> set a" by (metis last_appendR last_in_set)
    with assms(1) show False by (simp add: plain_name_def)
  qed
  define j where "j = (if suffix ''/'' base then base @ a else base @ ''/'' @ a)"
  have j: "\<not> suffix ''/'' j" "j \<noteq> []" using a(1) ns [of base] ns [of "base @ ''/''"] by (simp_all add: j_def)
  have "path_join base a = j" using a(2) assms(3) by (simp add: path_join_def [of base a] j_def)
  moreover have "path_join base (a @ ''/'' @ b) = j @ ''/'' @ b"
    using pa assms(3) unfolding path_join_def [of base "a @ ''/'' @ b"] j_def by simp
  moreover have "path_join j b = j @ ''/'' @ b"
    using plain_name_relative [OF assms(2)] j unfolding path_join_def [of j b] by simp
  ultimately show ?thesis by simp
qed

lemma dec_str_plain [simp]: "CHR ''/'' \<notin> set (dec_str n)"
  using dec_str_digits [of n] by (auto simp: list_all_iff is_digit_def)

section \<open>Files\<close>

definition remove_tree :: "place \<Rightarrow> disk \<Rightarrow> disk" where
  "remove_tree d disk = (\<lambda>p. if prefix d p then None else disk p)"

lemma remove_tree_apply [simp]: "remove_tree d disk p = (if prefix d p then None else disk p)"
  by (simp add: remove_tree_def)

text \<open>Names that are safe inside a path: \<open>c.is_ascii_alphanumeric() || matches!(c, '-' | '_')\<close>.\<close>

definition is_alnum :: "char \<Rightarrow> bool" where
  "is_alnum c =
     (let n = of_char c :: nat in 48 \<le> n \<and> n \<le> 57 \<or> 65 \<le> n \<and> n \<le> 90 \<or> 97 \<le> n \<and> n \<le> 122)"

definition sanitize_path_component :: "string \<Rightarrow> string" where
  "sanitize_path_component s =
     List.map (\<lambda>c. if is_alnum c \<or> c = CHR ''-'' \<or> c = CHR ''_'' then c else CHR ''_'') s"

lemma is_alnum_simps [simp]: "\<not> is_alnum (CHR ''/'')" "\<not> is_alnum (CHR ''.'')"
  by (simp_all add: is_alnum_def)

lemma sanitize_plain: "s \<noteq> [] \<Longrightarrow> plain_name (sanitize_path_component s)"
  by (cases s) (auto simp: plain_name_def sanitize_path_component_def)

end
