(* ===== verification/Recorder.thy ===== *)
theory Recorder
  imports Ts_Stream Timestamp Dispatch Live_Play Paths
begin

text \<open>
  Recording, \<open>src/src/process/record/mod.rs\<close>: the writer of one segment file, the task that records a
  stream and the manager of the recordings. Every reading of the clock and every answer of the file
  system is a field of \<open>rec_io\<close>; a failed write leaves the file as it was. The calendar (\<open>date\<close>, the
  name of a day) and JSON (\<open>json\<close>, the bytes of an index) are parameters. The index is shared by all
  tasks, one operation of a task is one step.
\<close>

section \<open>Data\<close>

datatype record_format = Ts

definition parse_format :: "string \<Rightarrow> record_format option" where
  "parse_format v =
     (let l = List.map lower_char v in if l = ''ts'' \<or> l = ''mpegts'' then Some Ts else None)"

fun extension :: "record_format \<Rightarrow> string" where
  "extension Ts = ''ts''"

text \<open>Durations are in milliseconds; \<open>as_secs\<close> and \<open>from_secs\<close> convert.\<close>

record record_config =
  rc_enabled :: bool
  rc_base_dir :: string
  rc_default_format :: record_format
  rc_segment_duration :: nat
  rc_align_keyframe :: bool

definition record_config_default :: record_config where
  "record_config_default =
     \<lparr>rc_enabled = False, rc_base_dir = ''./saving/recordings'', rc_default_format = Ts,
      rc_segment_duration = 300 * 1000, rc_align_keyframe = True\<rparr>"

record recording_entry =
  re_id :: string
  re_stream_id :: stream_id
  re_session_id :: string
  re_format :: record_format
  re_started_at_ms :: nat
  re_ended_at_ms :: nat
  re_duration_ms :: nat
  re_path :: string
  re_bytes :: nat
  re_video_frames :: nat
  re_audio_frames :: nat
  re_keyframes :: nat
  re_status :: string

record record_session_info =
  ri_session_id :: string
  ri_stream_id :: stream_id
  ri_format :: record_format
  ri_started_at_ms :: nat
  ri_segment_duration_ms :: nat
  ri_align_keyframe :: bool

record start_record_request =
  sr_stream_id :: stream_id
  sr_format :: "string option"
  sr_segment_duration :: "nat option"
  sr_align_keyframe :: "bool option"

record record_task =
  tk_stream_id :: stream_id
  tk_session_id :: string
  tk_format :: record_format
  tk_base_dir :: string
  tk_segment_secs :: nat
  tk_align_keyframe :: bool
  tk_declared_has_video :: bool
  tk_declared_has_audio :: bool

record segment_writer =
  sw_id :: string
  sw_stream_id :: stream_id
  sw_session_id :: string
  sw_format :: record_format
  sw_path :: string
  sw_muxer :: ts_muxer
  sw_timeline :: flv_play_timeline
  sw_started_at_ms :: nat
  sw_ended_at_ms :: nat
  sw_has_video :: bool
  sw_has_audio :: bool
  sw_video_frames :: nat
  sw_audio_frames :: nat
  sw_keyframes :: nat
  sw_bytes :: nat
  sw_header_written :: bool
  sw_last_index_flush_ms :: nat

text \<open>What one call of \<open>write_frame\<close> or \<open>finish\<close> meets outside: clocks and the file system.\<close>

record rec_io =
  io_rotate_now :: nat
  io_open_now :: nat
  io_end_now :: nat
  io_due_now :: nat
  io_flush_now :: nat
  io_create_ok :: bool
  io_flush_ok :: bool
  io_finish_ok :: bool
  io_header_ok :: bool
  io_data_ok :: bool
  io_index_ok :: bool

text \<open>What tasks share: the index and the disk.\<close>

record rec_store =
  rs_index :: "recording_entry list"
  rs_disk :: disk

datatype rec_outcome = Going | Failed | Panics

type_synonym rec_result = "rec_outcome \<times> segment_writer \<times> rec_store"

text \<open>The question mark: a failure ends the operation with the state it has reached.\<close>

definition rec_then :: "rec_result \<Rightarrow> (segment_writer \<Rightarrow> rec_store \<Rightarrow> rec_result) \<Rightarrow> rec_result" where
  "rec_then r k = (case r of (Going, w, st) \<Rightarrow> k w st | _ \<Rightarrow> r)"

lemma rec_then_simps [simp]:
  "rec_then (Going, w, st) k = k w st" "rec_then (Failed, w, st) k = (Failed, w, st)"
  "rec_then (Panics, w, st) k = (Panics, w, st)"
  by (simp_all add: rec_then_def)

section \<open>The segment writer\<close>

definition segment_path :: "(nat \<Rightarrow> string) \<Rightarrow> record_task \<Rightarrow> nat \<Rightarrow> string" where
  "segment_path date t now =
     path_join (path_join (path_join (tk_base_dir t) (sanitize_path_component (tk_stream_id t))) (date now))
       (tk_session_id t @ ''_'' @ dec_str now @ ''.'' @ extension (tk_format t))"

text \<open>\<open>SegmentWriter::new\<close>; \<open>File::create\<close> empties a file that exists.\<close>

definition writer_fresh :: "(nat \<Rightarrow> string) \<Rightarrow> record_task \<Rightarrow> nat \<Rightarrow> segment_writer" where
  "writer_fresh date t now =
     \<lparr>sw_id = tk_session_id t @ ''_'' @ dec_str now, sw_stream_id = tk_stream_id t,
      sw_session_id = tk_session_id t, sw_format = tk_format t, sw_path = segment_path date t now,
      sw_muxer = muxer_new, sw_timeline = flv_timeline_new, sw_started_at_ms = now, sw_ended_at_ms = now,
      sw_has_video = tk_declared_has_video t, sw_has_audio = tk_declared_has_audio t,
      sw_video_frames = 0, sw_audio_frames = 0, sw_keyframes = 0, sw_bytes = 0,
      sw_header_written = False, sw_last_index_flush_ms = now\<rparr>"

definition writer_new ::
    "(nat \<Rightarrow> string) \<Rightarrow> place \<Rightarrow> record_task \<Rightarrow> nat \<Rightarrow> bool \<Rightarrow> rec_store \<Rightarrow> (segment_writer \<times> rec_store) option" where
  "writer_new date cwd t now create_ok st =
     (if create_ok
      then Some (writer_fresh date t now,
             st\<lparr>rs_disk := (rs_disk st)(locate cwd (segment_path date t now) \<mapsto> [])\<rparr>)
      else None)"

definition build_entry :: "segment_writer \<Rightarrow> string \<Rightarrow> recording_entry" where
  "build_entry w status =
     \<lparr>re_id = sw_id w, re_stream_id = sw_stream_id w, re_session_id = sw_session_id w,
      re_format = sw_format w, re_started_at_ms = sw_started_at_ms w, re_ended_at_ms = sw_ended_at_ms w,
      re_duration_ms = sw_ended_at_ms w - sw_started_at_ms w, re_path = sw_path w,
      re_bytes = sw_bytes w, re_video_frames = sw_video_frames w, re_audio_frames = sw_audio_frames w,
      re_keyframes = sw_keyframes w, re_status = status\<rparr>"

fun upsert_index_entry :: "recording_entry list \<Rightarrow> recording_entry \<Rightarrow> recording_entry list" where
  "upsert_index_entry [] e = [e]"
| "upsert_index_entry (x # xs) e = (if re_id x = re_id e then e # xs else x # upsert_index_entry xs e)"

definition index_place :: "place \<Rightarrow> string \<Rightarrow> place" where
  "index_place cwd path = butlast (locate cwd path) @ [''index.json'']"

text \<open>\<open>persist_index\<close>: the entry goes into the shared index even when the file cannot be written.\<close>

definition persist_index ::
    "(recording_entry list \<Rightarrow> bytes) \<Rightarrow> place \<Rightarrow> nat \<Rightarrow> bool \<Rightarrow> string \<Rightarrow> segment_writer \<Rightarrow> rec_store \<Rightarrow> rec_result" where
  "persist_index json cwd now ok status w st =
     (let entries = upsert_index_entry (rs_index st) (build_entry w status);
          st1 = st\<lparr>rs_index := entries\<rparr>
      in if ok then (Going, w\<lparr>sw_last_index_flush_ms := now\<rparr>,
                     st1\<lparr>rs_disk := (rs_disk st1)(index_place cwd (sw_path w) \<mapsto> json entries)\<rparr>)
         else (Failed, w, st1))"

definition flush_active_index_if_due ::
    "(recording_entry list \<Rightarrow> bytes) \<Rightarrow> place \<Rightarrow> rec_io \<Rightarrow> segment_writer \<Rightarrow> rec_store \<Rightarrow> rec_result" where
  "flush_active_index_if_due json cwd io w st =
     (if io_due_now io - sw_last_index_flush_ms w \<ge> 5000
      then persist_index json cwd (io_flush_now io) (io_index_ok io) ''recording'' w st
      else (Going, w, st))"

definition finish ::
    "(recording_entry list \<Rightarrow> bytes) \<Rightarrow> place \<Rightarrow> rec_io \<Rightarrow> segment_writer \<Rightarrow> rec_store \<Rightarrow> rec_result" where
  "finish json cwd io w st =
     (if \<not> io_flush_ok io then (Failed, w, st)
      else if sw_bytes w = 0 \<or> sw_video_frames w = 0
      then persist_index json cwd (io_flush_now io) (io_finish_ok io) ''empty'' w st
      else
        let entries = upsert_index_entry (rs_index st) (build_entry w ''completed'');
            st1 = st\<lparr>rs_index := entries\<rparr>
        in if io_finish_ok io
           then (Going, w, st1\<lparr>rs_disk := (rs_disk st1)(index_place cwd (sw_path w) \<mapsto> json entries)\<rparr>)
           else (Failed, w, st1))"

definition write_bytes :: "place \<Rightarrow> bool \<Rightarrow> bytes \<Rightarrow> segment_writer \<Rightarrow> rec_store \<Rightarrow> rec_result" where
  "write_bytes cwd ok data w st =
     (if ok
      then let p = locate cwd (sw_path w);
               old = (case rs_disk st p of None \<Rightarrow> [] | Some b \<Rightarrow> b)
           in (Going, w\<lparr>sw_bytes := sw_bytes w + length data\<rparr>, st\<lparr>rs_disk := (rs_disk st)(p \<mapsto> old @ data)\<rparr>)
      else (Failed, w, st))"

definition is_recorded_video :: "media_frame \<Rightarrow> bool" where
  "is_recorded_video f \<longleftrightarrow> mf_codec f = H264 \<or> mf_codec f = H265"

definition should_rotate :: "segment_writer \<Rightarrow> record_task \<Rightarrow> nat \<Rightarrow> media_frame \<Rightarrow> bool" where
  "should_rotate w t now f =
     (if sw_bytes w = 0 then False
      else if wrap64 (sw_started_at_ms w + wrap64 (tk_segment_secs t * 1000)) > now then False
      else if \<not> tk_align_keyframe t then True
      else is_recorded_video f \<and> mf_is_keyframe f)"

definition prepare_video_frame_for_record :: "stream_manager \<Rightarrow> stream_id \<Rightarrow> media_frame \<Rightarrow> media_frame" where
  "prepare_video_frame_for_record m sid f =
     (if mf_codec f \<noteq> H264 then f
      else
        let prepared = with_optional_clock_rate
              (media_frame_new (mf_stream_id f) (mf_track_id f) (mf_timestamp f) (prepend_h264_config m sid f)
                (mf_is_keyframe f) (mf_codec f)) (mf_clock_rate f)
        in case mf_rtp_data f of Some r \<Rightarrow> with_rtp_data prepared r | None \<Rightarrow> prepared)"

text \<open>The frame of a segment: counted, muxed and written.\<close>

definition count_frame :: "segment_writer \<Rightarrow> media_frame \<Rightarrow> segment_writer" where
  "count_frame w f =
     (if is_recorded_video f
      then w\<lparr>sw_has_video := True, sw_video_frames := sw_video_frames w + 1,
             sw_keyframes := (if mf_is_keyframe f then sw_keyframes w + 1 else sw_keyframes w)\<rparr>
      else w\<lparr>sw_has_audio := True, sw_audio_frames := sw_audio_frames w + 1\<rparr>)"

definition write_header :: "place \<Rightarrow> rec_io \<Rightarrow> segment_writer \<Rightarrow> rec_store \<Rightarrow> rec_result" where
  "write_header cwd io w st =
     (if sw_header_written w then (Going, w, st)
      else
        case generate_pat_pmt (sw_muxer w) (sw_has_video w) (sw_has_audio w) of
          (muxer, header) \<Rightarrow>
            rec_then (write_bytes cwd (io_header_ok io) header (w\<lparr>sw_muxer := muxer\<rparr>) st)
              (\<lambda>w st. (Going, w\<lparr>sw_header_written := True\<rparr>, st)))"

text \<open>The timeline panics on a clock rate of zero.\<close>

definition write_unit ::
    "(recording_entry list \<Rightarrow> bytes) \<Rightarrow> place \<Rightarrow> rec_io \<Rightarrow> media_frame \<Rightarrow> segment_writer \<Rightarrow> rec_store \<Rightarrow> rec_result" where
  "write_unit json cwd io f w st =
     (case flv_map (sw_timeline w) f of
        None \<Rightarrow> (Panics, w, st)
      | Some (tln, ts) \<Rightarrow>
          case frame_to_ts (update_pcr (sw_muxer w) ts) (with_clock_rate (f\<lparr>mf_timestamp := ts\<rparr>) 1000) of
            (muxer, data) \<Rightarrow>
              let w1 = w\<lparr>sw_timeline := tln, sw_muxer := muxer\<rparr>
              in if data = [] then (Going, w1, st)
                 else rec_then (write_bytes cwd (io_data_ok io) data w1 st)
                   (\<lambda>w st. flush_active_index_if_due json cwd io (w\<lparr>sw_ended_at_ms := io_end_now io\<rparr>) st))"

definition rotate ::
    "(recording_entry list \<Rightarrow> bytes) \<Rightarrow> (nat \<Rightarrow> string) \<Rightarrow> place \<Rightarrow> rec_io \<Rightarrow> record_task \<Rightarrow> segment_writer \<Rightarrow> rec_store \<Rightarrow>
     rec_result" where
  "rotate json date cwd io t w st =
     rec_then (finish json cwd io w st)
       (\<lambda>w st. case writer_new date cwd t (io_open_now io) (io_create_ok io) st of
          None \<Rightarrow> (Failed, w, st) | Some (w', st') \<Rightarrow> (Going, w', st'))"

definition write_frame ::
    "(recording_entry list \<Rightarrow> bytes) \<Rightarrow> (nat \<Rightarrow> string) \<Rightarrow> place \<Rightarrow> stream_manager \<Rightarrow> record_task \<Rightarrow> rec_io \<Rightarrow> media_frame \<Rightarrow>
     segment_writer \<Rightarrow> rec_store \<Rightarrow> rec_result" where
  "write_frame json date cwd m t io f w st =
     rec_then
       (if should_rotate w t (io_rotate_now io) f then rotate json date cwd io t w st else (Going, w, st))
       (\<lambda>w st.
          if \<not> (is_recorded_video f \<or> mf_codec f = AAC) then (Going, w, st)
          else
            let f' = (if is_recorded_video f then prepare_video_frame_for_record m (tk_stream_id t) f else f)
            in rec_then (write_header cwd io (count_frame w f) st) (write_unit json cwd io f'))"

fun write_frames ::
    "(recording_entry list \<Rightarrow> bytes) \<Rightarrow> (nat \<Rightarrow> string) \<Rightarrow> place \<Rightarrow> stream_manager \<Rightarrow> record_task \<Rightarrow> (nat \<Rightarrow> rec_io) \<Rightarrow> nat \<Rightarrow>
     media_frame list \<Rightarrow> segment_writer \<Rightarrow> rec_store \<Rightarrow> rec_result" where
  "write_frames json date cwd m t io k [] w st = (Going, w, st)"
| "write_frames json date cwd m t io k (f # fs) w st =
     rec_then (write_frame json date cwd m t (io k) f w st) (write_frames json date cwd m t io (k + 1) fs)"

section \<open>The task\<close>

record record_running =
  rn_task :: record_task
  rn_reader :: dispatch_reader
  rn_writer :: segment_writer

text \<open>The task up to its loop; the writer is \<open>None\<close> when it ended here.\<close>

definition record_begin ::
    "(recording_entry list \<Rightarrow> bytes) \<Rightarrow> (nat \<Rightarrow> string) \<Rightarrow> place \<Rightarrow> stream_manager \<Rightarrow> rec_io \<Rightarrow> record_task \<Rightarrow> rec_store \<Rightarrow>
     record_running option \<times> rec_store" where
  "record_begin json date cwd m io t st =
     (case dispatch_subscribe m (tk_stream_id t) SequentialFromIdr of
        None \<Rightarrow> (None, st)
      | Some r \<Rightarrow>
          case writer_new date cwd t (io_open_now io) (io_create_ok io) st of
            None \<Rightarrow> (None, st)
          | Some (w, st1) \<Rightarrow>
              case persist_index json cwd (io_flush_now io) (io_index_ok io) ''recording'' w st1 of
                (Going, w1, st2) \<Rightarrow> (Some \<lparr>rn_task = t, rn_reader = r, rn_writer = w1\<rparr>, st2)
              | (_, _, st2) \<Rightarrow> (None, st2))"

text \<open>
  One turn of the loop. \<open>stop\<close> is the stop signal, which \<open>select!\<close> may prefer; \<open>hub\<close> the hub now and the
  one a sleeping reader wakes up to. \<open>None\<close>: the task has ended. \<open>io 0\<close> and \<open>io 1\<close> serve a resync, the
  frames begin at \<open>io 2\<close>.
\<close>

definition record_turn ::
    "(recording_entry list \<Rightarrow> bytes) \<Rightarrow> (nat \<Rightarrow> string) \<Rightarrow> place \<Rightarrow> stream_manager \<Rightarrow> (nat \<Rightarrow> rec_io) \<Rightarrow> bool \<Rightarrow>
     stream_hub \<times> stream_hub option \<Rightarrow> record_running \<Rightarrow> rec_store \<Rightarrow> record_running option \<times> rec_store" where
  "record_turn json date cwd m io stop hub rn st =
     (let t = rn_task rn; w = rn_writer rn
      in if stop then (None, snd (snd (finish json cwd (io 0) w st)))
         else
           case recv_batch (rn_reader rn) (fst hub) (snd hub) of
             (r1, _, Inl Closed) \<Rightarrow> (None, snd (snd (finish json cwd (io 0) w st)))
           | (r1, _, Inr frames) \<Rightarrow>
               if frames = [] then (Some (rn\<lparr>rn_reader := r1\<rparr>), st)
               else
                 let (r2, resync) = take_muxer_resync r1;
                     opened = (if resync
                       then rec_then (rotate json date cwd (io 0) t w st)
                              (persist_index json cwd (io_flush_now (io 1)) (io_index_ok (io 1)) ''recording'')
                       else (Going, w, st))
                 in case rec_then opened (write_frames json date cwd m t io 2 frames) of
                      (Going, w', st') \<Rightarrow> (Some (rn\<lparr>rn_reader := r2, rn_writer := w'\<rparr>), st')
                    | (_, _, st') \<Rightarrow> (None, st'))"

section \<open>The manager\<close>

text \<open>
  An active session names the task it can stop (its \<open>stop_tx\<close>). Tasks are numbered in the order they
  are started; a task that has ended leaves no trace in the manager.
\<close>

record active_record_session =
  as_info :: record_session_info
  as_task :: nat

record recorder =
  rm_config :: record_config
  rm_active :: "(stream_id \<times> active_record_session) list"
  rm_started :: nat
  rm_stopped :: "nat list"

datatype record_error =
    Recording_disabled
  | Missing_stream_id
  | Stream_not_found
  | Already_active
  | Session_not_found
  | Missing_ids

definition recorder_new :: "record_config \<Rightarrow> recorder" where
  "recorder_new config = \<lparr>rm_config = config, rm_active = [], rm_started = 0, rm_stopped = []\<rparr>"

definition list_recordings :: "recording_entry list \<Rightarrow> stream_id option \<Rightarrow> recording_entry list" where
  "list_recordings index sid =
     filter (\<lambda>e. case sid of Some s \<Rightarrow> re_stream_id e = s | None \<Rightarrow> True) index"

definition active_sessions :: "recorder \<Rightarrow> record_session_info list" where
  "active_sessions r = List.map (as_info \<circ> snd) (rm_active r)"

definition recorder_start ::
    "stream_manager \<Rightarrow> nat \<Rightarrow> nat \<Rightarrow> recorder \<Rightarrow> start_record_request \<Rightarrow>
     record_error + (recorder \<times> record_session_info \<times> record_task)" where
  "recorder_start m now1 now2 r req =
     (if \<not> rc_enabled (rm_config r) then Inl Recording_disabled
      else if trim (sr_stream_id req) = [] then Inl Missing_stream_id
      else case get_stream m (sr_stream_id req) of
        None \<Rightarrow> Inl Stream_not_found
      | Some stream \<Rightarrow>
          if map_of (rm_active r) (sr_stream_id req) \<noteq> None then Inl Already_active
          else
            let format = (case Option.bind (sr_format req) parse_format of
                            Some f \<Rightarrow> f | None \<Rightarrow> rc_default_format (rm_config r));
                secs = max 1 (case sr_segment_duration req of
                            Some d \<Rightarrow> d | None \<Rightarrow> rc_segment_duration (rm_config r) div 1000);
                align = (case sr_align_keyframe req of Some b \<Rightarrow> b | None \<Rightarrow> rc_align_keyframe (rm_config r));
                codecs = List.map tr_codec (st_tracks stream);
                session_id = ''rec_'' @ sr_stream_id req @ ''_'' @ dec_str now1;
                info = \<lparr>ri_session_id = session_id, ri_stream_id = sr_stream_id req, ri_format = format,
                        ri_started_at_ms = now2, ri_segment_duration_ms = wrap64 (secs * 1000),
                        ri_align_keyframe = align\<rparr>;
                task = \<lparr>tk_stream_id = sr_stream_id req, tk_session_id = session_id, tk_format = format,
                        tk_base_dir = rc_base_dir (rm_config r), tk_segment_secs = secs, tk_align_keyframe = align,
                        tk_declared_has_video = (codecs = [] \<or> H264 \<in> set codecs \<or> H265 \<in> set codecs),
                        tk_declared_has_audio = (codecs = [] \<or> AAC \<in> set codecs)\<rparr>
            in Inr (r\<lparr>rm_active := AList.update (sr_stream_id req) \<lparr>as_info = info, as_task = rm_started r\<rparr> (rm_active r),
                      rm_started := rm_started r + 1\<rparr>, info, task))"

text \<open>A stop request names the stream or else the session.\<close>

definition recorder_stop ::
    "recorder \<Rightarrow> stream_id option \<Rightarrow> string option \<Rightarrow> record_error + (recorder \<times> record_session_info)" where
  "recorder_stop r sid session_id =
     (case (case sid of
              Some s \<Rightarrow> Inr s
            | None \<Rightarrow>
                (case session_id of
                   None \<Rightarrow> Inl Missing_ids
                 | Some x \<Rightarrow>
                     (case find (\<lambda>(_, a). ri_session_id (as_info a) = x) (rm_active r) of
                        Some (s, _) \<Rightarrow> Inr s
                      | None \<Rightarrow> Inl Session_not_found))) of
        Inl e \<Rightarrow> Inl e
      | Inr key \<Rightarrow>
          (case map_of (rm_active r) key of
             None \<Rightarrow> Inl Session_not_found
           | Some a \<Rightarrow>
               Inr (r\<lparr>rm_active := AList.delete key (rm_active r), rm_stopped := as_task a # rm_stopped r\<rparr>, as_info a)))"

end
