(* ===== verification/Recordings.thy ===== *)
theory Recordings
  imports Recorder "HOL-Library.Multiset"
begin

text \<open>
  What a recording holds. A session's files are compared with a description that knows neither files
  nor clocks: the frames are split into groups, and each group has the bytes of one transport stream.
\<close>

section \<open>The bytes of a group of frames\<close>

definition recorded :: "media_frame \<Rightarrow> bool" where
  "recorded f \<longleftrightarrow> is_recorded_video f \<or> mf_codec f = AAC"

definition prepared :: "stream_manager \<Rightarrow> record_task \<Rightarrow> media_frame \<Rightarrow> media_frame" where
  "prepared m t f = (if is_recorded_video f then prepare_video_frame_for_record m (tk_stream_id t) f else f)"

fun unit_ops :: "flv_play_timeline \<Rightarrow> media_frame list \<Rightarrow> flv_play_timeline \<times> ts_op list" where
  "unit_ops tln [] = (tln, [])"
| "unit_ops tln (f # fs) =
     (case flv_map tln f of
        None \<Rightarrow> unit_ops tln fs
      | Some (tln1, ts) \<Rightarrow>
          (case unit_ops tln1 fs of
             (tln2, ops) \<Rightarrow> (tln2, Set_pcr ts # Write_frame (with_clock_rate (f\<lparr>mf_timestamp := ts\<rparr>) 1000) # ops)))"

definition segment_ops :: "stream_manager \<Rightarrow> record_task \<Rightarrow> media_frame list \<Rightarrow> ts_op list" where
  "segment_ops m t seg =
     (if seg = [] then []
      else Write_tables (tk_declared_has_video t \<or> is_recorded_video (hd seg))
             (tk_declared_has_audio t \<or> \<not> is_recorded_video (hd seg)) #
           snd (unit_ops flv_timeline_new (List.map (prepared m t) seg)))"

definition segment_bytes :: "stream_manager \<Rightarrow> record_task \<Rightarrow> media_frame list \<Rightarrow> bytes" where
  "segment_bytes m t seg = snd (ts_run muxer_new (segment_ops m t seg))"

definition clock_ok :: "media_frame \<Rightarrow> bool" where
  "clock_ok f \<longleftrightarrow> mf_codec f = AAC \<longrightarrow> mf_clock_rate f \<noteq> Some 0"

lemma prepared_simps [simp]:
  "mf_codec (prepared m t f) = mf_codec f" "mf_clock_rate (prepared m t f) = mf_clock_rate f"
  by (auto simp: prepared_def prepare_video_frame_for_record_def Let_def with_rtp_data_def with_optional_clock_rate_def
      media_frame_new_def split: option.splits)

lemma flv_map_total:
  assumes "clock_ok f" and "recorded f"
  shows "\<exists>tln' ts. flv_map tln f = Some (tln', ts)"
  using assms
  by (auto simp: recorded_def is_recorded_video_def clock_ok_def flv_map_def aac_step_ms_def Let_def flv_emit_def
      split: option.splits codec_type.splits)

lemma unit_ops_snoc:
  "unit_ops tln (fs @ [f]) =
     (case unit_ops tln fs of (tln1, ops) \<Rightarrow> case unit_ops tln1 [f] of (tln2, ops2) \<Rightarrow> (tln2, ops @ ops2))"
  by (induction fs arbitrary: tln) (auto split: option.splits prod.splits)

lemma ts_run_snoc: "ts_run t (xs @ ys) = (case ts_run t xs of (t1, a) \<Rightarrow> case ts_run t1 ys of (t2, b) \<Rightarrow> (t2, a @ b))"
  by (induction xs arbitrary: t) (auto split: prod.splits)

text \<open>Whatever is recorded is a transport stream of its own.\<close>

lemma unit_ops_known: "list_all (\<lambda>f. mf_codec f \<noteq> codec_type.Unknown) fs \<Longrightarrow> list_all known_codec (snd (unit_ops tln fs))"
proof (induction fs arbitrary: tln)
  case (Cons f fs)
  show ?case
  proof (cases "flv_map tln f")
    case (Some r)
    obtain tln1 ts where r: "r = (tln1, ts)" by fastforce
    with Cons.IH [of tln1] Cons.prems Some show ?thesis
      by (cases "unit_ops tln1 fs") (simp add: known_codec_def with_clock_rate_def)
  qed (use Cons in simp)
qed simp

lemma segment_ops_known: "list_all recorded seg \<Longrightarrow> list_all known_codec (segment_ops m t seg)"
proof -
  assume "list_all recorded seg"
  then have "list_all (\<lambda>f. mf_codec f \<noteq> codec_type.Unknown) (List.map (prepared m t) seg)"
    by (auto simp: list_all_iff recorded_def is_recorded_video_def)
  from unit_ops_known [OF this] show ?thesis by (simp add: segment_ops_def known_codec_def)
qed

section \<open>Places\<close>

definition names_ok :: "(nat \<Rightarrow> string) \<Rightarrow> record_task \<Rightarrow> bool" where
  "names_ok date t \<longleftrightarrow> tk_base_dir t \<noteq> [] \<and> tk_stream_id t \<noteq> [] \<and> plain_name (tk_session_id t) \<and>
     (\<forall>n. plain_name (date n))"

lemma recording_place:
  assumes "names_ok date t"
  shows "locate cwd (segment_path date t now) =
     locate cwd (tk_base_dir t) @ [sanitize_path_component (tk_stream_id t), date now,
       tk_session_id t @ ''_'' @ dec_str now @ ''.'' @ extension (tk_format t)]"
proof -
  have b: "tk_base_dir t \<noteq> []" "plain_name (date now)" "plain_name (sanitize_path_component (tk_stream_id t))"
    "plain_name (tk_session_id t)"
    using assms sanitize_plain by (auto simp: names_ok_def)
  have "extension (tk_format t) = ''ts''" by (cases "tk_format t") simp
  then have "plain_name (tk_session_id t @ ''_'' @ dec_str now @ ''.'' @ extension (tk_format t))"
    using b(4) by (auto simp: plain_name_def Cons_eq_append_conv)
  with b path_join_nonempty show ?thesis by (simp add: segment_path_def locate_join)
qed

lemma segment_places_differ:
  assumes "names_ok date t" and "n \<noteq> n'"
  shows "locate cwd (segment_path date t n) \<noteq> locate cwd (segment_path date t n')"
proof -
  have "dec_str n \<noteq> dec_str n'" using assms(2) by (metis dec_val_dec_str)
  then show ?thesis by (simp add: recording_place [OF assms(1)])
qed

lemma index_place_differs:
  assumes "names_ok date t"
  shows "locate cwd (segment_path date t n) \<noteq> index_place cwd p"
proof -
  have "last (locate cwd (segment_path date t n)) \<noteq> ''index.json''"
  proof
    assume "last (locate cwd (segment_path date t n)) = ''index.json''"
    then have "last (tk_session_id t @ ''_'' @ dec_str n @ ''.'' @ extension (tk_format t)) = CHR ''n''"
      by (simp add: recording_place [OF assms])
    then show False by (cases "tk_format t") simp
  qed
  then show ?thesis by (auto simp: index_place_def)
qed

section \<open>The writer of a segment\<close>

text \<open>The writer opened at \<open>now\<close> has written the frames \<open>seg\<close>, and its file holds their bytes.\<close>

definition writer_at ::
    "place \<Rightarrow> (nat \<Rightarrow> string) \<Rightarrow> stream_manager \<Rightarrow> record_task \<Rightarrow> nat \<Rightarrow> media_frame list \<Rightarrow> segment_writer \<Rightarrow> disk \<Rightarrow> bool" where
  "writer_at cwd date m t now seg w disk \<longleftrightarrow>
     sw_id w = tk_session_id t @ ''_'' @ dec_str now \<and> sw_path w = segment_path date t now \<and>
     sw_started_at_ms w = now \<and>
     sw_muxer w = fst (ts_run muxer_new (segment_ops m t seg)) \<and>
     sw_timeline w = fst (unit_ops flv_timeline_new (List.map (prepared m t) seg)) \<and>
     sw_header_written w = (seg \<noteq> []) \<and> sw_bytes w = length (segment_bytes m t seg) \<and>
     (seg = [] \<longrightarrow> sw_has_video w = tk_declared_has_video t \<and> sw_has_audio w = tk_declared_has_audio t) \<and>
     sw_video_frames w = length (filter is_recorded_video seg) \<and>
     sw_audio_frames w = length (filter (\<lambda>f. \<not> is_recorded_video f) seg) \<and>
     sw_keyframes w = length (filter (\<lambda>f. is_recorded_video f \<and> mf_is_keyframe f) seg) \<and>
     disk (locate cwd (segment_path date t now)) = Some (segment_bytes m t seg)"

lemma segment_bytes_Nil [simp]: "segment_ops m t [] = []" "segment_bytes m t [] = []"
  by (simp_all add: segment_bytes_def segment_ops_def)

lemma writer_at_fresh:
  "disk (locate cwd (segment_path date t now)) = Some [] \<Longrightarrow> writer_at cwd date m t now [] (writer_fresh date t now) disk"
  by (simp add: writer_at_def writer_fresh_def)

lemma segment_bytes_nonempty:
  assumes "seg \<noteq> []"
  shows "segment_bytes m t seg \<noteq> []"
proof -
  have run: "snd (ts_run muxer_new (Write_tables v a # xs)) = snd (generate_pat_pmt muxer_new v a) @
      snd (ts_run (fst (generate_pat_pmt muxer_new v a)) xs)" for v a xs
    by (simp add: case_prod_beta)
  from assms show ?thesis
    unfolding segment_bytes_def segment_ops_def by (simp only: if_False run) (simp add: generate_pat_pmt_nonempty)
qed

definition io_good :: "rec_io \<Rightarrow> bool" where
  "io_good io \<longleftrightarrow> io_create_ok io \<and> io_flush_ok io \<and> io_finish_ok io \<and> io_header_ok io \<and> io_data_ok io \<and> io_index_ok io"

text \<open>Operations on the index change only the flush time of the writer and the index file.\<close>

definition same_writer :: "segment_writer \<Rightarrow> segment_writer \<Rightarrow> bool" where
  "same_writer w w' \<longleftrightarrow> (\<exists>x. w' = w\<lparr>sw_last_index_flush_ms := x\<rparr>)"

lemma writer_at_same:
  assumes "writer_at cwd date m t now seg w disk" and "same_writer w w'"
    and "disk' (locate cwd (segment_path date t now)) = disk (locate cwd (segment_path date t now))"
  shows "writer_at cwd date m t now seg w' disk'"
  using assms unfolding same_writer_def by (elim exE) (simp add: writer_at_def)

section \<open>The index\<close>

lemma upsert_fresh: "\<forall>e'\<in>set xs. re_id e' \<noteq> re_id e \<Longrightarrow> upsert_index_entry (xs @ ys) e = xs @ upsert_index_entry ys e"
  by (induction xs) auto

section \<open>One frame\<close>

text \<open>A step of the writer opened at \<open>now\<close> touches its own file, an index file and its own entry.\<close>

definition own_step :: "place \<Rightarrow> (nat \<Rightarrow> string) \<Rightarrow> record_task \<Rightarrow> nat \<Rightarrow> rec_store \<Rightarrow> rec_store \<Rightarrow> bool" where
  "own_step cwd date t now st st' \<longleftrightarrow>
     (\<forall>p. p \<noteq> locate cwd (segment_path date t now) \<longrightarrow> (\<forall>q. p \<noteq> index_place cwd q) \<longrightarrow> rs_disk st' p = rs_disk st p) \<and>
     (rs_index st' = rs_index st \<or>
      (\<exists>e. re_id e = tk_session_id t @ ''_'' @ dec_str now \<and> rs_index st' = upsert_index_entry (rs_index st) e))"

definition ops_before :: "stream_manager \<Rightarrow> record_task \<Rightarrow> media_frame list \<Rightarrow> media_frame \<Rightarrow> ts_op list" where
  "ops_before m t seg f =
     (if seg = [] then [Write_tables (tk_declared_has_video t \<or> is_recorded_video f) (tk_declared_has_audio t \<or> \<not> is_recorded_video f)]
      else segment_ops m t seg)"

lemma segment_ops_snoc:
  assumes "flv_map (fst (unit_ops flv_timeline_new (List.map (prepared m t) seg))) (prepared m t f) = Some (tln, ts)"
  shows "segment_ops m t (seg @ [f]) =
      ops_before m t seg f @ [Set_pcr ts, Write_frame (with_clock_rate ((prepared m t f)\<lparr>mf_timestamp := ts\<rparr>) 1000)]"
    "fst (unit_ops flv_timeline_new (List.map (prepared m t) (seg @ [f]))) = tln"
  using assms by (auto simp: segment_ops_def ops_before_def unit_ops_snoc case_prod_beta)

lemma write_header_run:
  assumes w: "writer_at cwd date m t now seg w (rs_disk st)" and io: "io_good io"
  shows "write_header cwd io (count_frame w f) st =
     (Going, (count_frame w f)\<lparr>sw_muxer := fst (ts_run muxer_new (ops_before m t seg f)), sw_header_written := True,
        sw_bytes := length (snd (ts_run muxer_new (ops_before m t seg f)))\<rparr>,
      st\<lparr>rs_disk := (rs_disk st)(locate cwd (segment_path date t now) \<mapsto> snd (ts_run muxer_new (ops_before m t seg f)))\<rparr>)"
proof (cases "seg = []")
  case True
  have "sw_muxer (count_frame w f) = muxer_new" "\<not> sw_header_written (count_frame w f)" "sw_bytes (count_frame w f) = 0"
    "sw_path (count_frame w f) = segment_path date t now"
    "sw_has_video (count_frame w f) = (tk_declared_has_video t \<or> is_recorded_video f)"
    "sw_has_audio (count_frame w f) = (tk_declared_has_audio t \<or> \<not> is_recorded_video f)"
    "rs_disk st (locate cwd (segment_path date t now)) = Some []"
    using w True by (auto simp: writer_at_def count_frame_def)
  with io True show ?thesis
    by (simp add: write_header_def write_bytes_def ops_before_def io_good_def case_prod_beta)
next
  case False
  have "sw_muxer (count_frame w f) = fst (ts_run muxer_new (ops_before m t seg f))" "sw_header_written (count_frame w f)"
    "sw_bytes (count_frame w f) = length (snd (ts_run muxer_new (ops_before m t seg f)))"
    "rs_disk st (locate cwd (segment_path date t now)) = Some (snd (ts_run muxer_new (ops_before m t seg f)))"
    using w False by (auto simp: writer_at_def count_frame_def ops_before_def segment_bytes_def)
  then have "(count_frame w f)\<lparr>sw_muxer := fst (ts_run muxer_new (ops_before m t seg f)), sw_header_written := True,
        sw_bytes := length (snd (ts_run muxer_new (ops_before m t seg f)))\<rparr> = count_frame w f"
    "(rs_disk st)(locate cwd (segment_path date t now) \<mapsto> snd (ts_run muxer_new (ops_before m t seg f))) = rs_disk st"
    "write_header cwd io (count_frame w f) st = (Going, count_frame w f, st)"
    by (simp_all add: fun_upd_idem write_header_def)
  then show ?thesis by simp
qed

lemma build_entry_id [simp]: "re_id (build_entry w status) = sw_id w"
  by (simp add: build_entry_def)

lemma flush_step:
  assumes "sw_path w = segment_path date t now" and "sw_id w = tk_session_id t @ ''_'' @ dec_str now"
    and "io_good io" and "names_ok date t"
  shows "\<exists>w' st'. flush_active_index_if_due json cwd io w st = (Going, w', st') \<and> same_writer w w' \<and>
     own_step cwd date t now st st' \<and>
     rs_disk st' (locate cwd (segment_path date t now)) = rs_disk st (locate cwd (segment_path date t now))"
proof (cases "io_due_now io - sw_last_index_flush_ms w \<ge> 5000")
  case False
  have "same_writer w w" unfolding same_writer_def by (rule exI [of _ "sw_last_index_flush_ms w"]) simp
  with False show ?thesis by (simp add: flush_active_index_if_due_def own_step_def)
next
  case True
  then show ?thesis
    using assms(1-3) index_place_differs [OF assms(4), of cwd now "segment_path date t now"]
    by (auto simp: flush_active_index_if_due_def persist_index_def Let_def io_good_def own_step_def same_writer_def
        intro!: exI [of _ "build_entry w ''recording''"])
qed

lemma own_step_later:
  assumes "own_step cwd date t now st1 st2" and "rs_index st1 = rs_index st"
    and "\<forall>p. p \<noteq> locate cwd (segment_path date t now) \<longrightarrow> rs_disk st1 p = rs_disk st p"
  shows "own_step cwd date t now st st2"
  using assms by (simp add: own_step_def)

lemma write_recorded:
  assumes w: "writer_at cwd date m t now seg w (rs_disk st)" and n: "names_ok date t" and io: "io_good io"
    and f: "recorded f" "clock_ok f"
  shows "\<exists>w' st'. rec_then (write_header cwd io (count_frame w f) st) (write_unit json cwd io (prepared m t f)) = (Going, w', st') \<and>
     writer_at cwd date m t now (seg @ [f]) w' (rs_disk st') \<and> own_step cwd date t now st st'"
proof -
  let ?ops = "ops_before m t seg f" and ?p = "locate cwd (segment_path date t now)"
  let ?w1 = "(count_frame w f)\<lparr>sw_muxer := fst (ts_run muxer_new ?ops), sw_header_written := True,
      sw_bytes := length (snd (ts_run muxer_new ?ops))\<rparr>"
  let ?st1 = "st\<lparr>rs_disk := (rs_disk st)(?p \<mapsto> snd (ts_run muxer_new ?ops))\<rparr>"
  have fields: "sw_id w = tk_session_id t @ ''_'' @ dec_str now" "sw_path w = segment_path date t now" "sw_started_at_ms w = now"
    "sw_timeline w = fst (unit_ops flv_timeline_new (List.map (prepared m t) seg))"
    "sw_video_frames w = length (filter is_recorded_video seg)"
    "sw_audio_frames w = length (filter (\<lambda>f. \<not> is_recorded_video f) seg)"
    "sw_keyframes w = length (filter (\<lambda>f. is_recorded_video f \<and> mf_is_keyframe f) seg)"
    using w by (simp_all add: writer_at_def)
  have timeline: "sw_timeline ?w1 = fst (unit_ops flv_timeline_new (List.map (prepared m t) seg))"
    by (simp add: count_frame_def fields)
  have "clock_ok (prepared m t f)" "recorded (prepared m t f)"
    using f by (simp_all add: clock_ok_def recorded_def is_recorded_video_def)
  from flv_map_total [OF this] obtain tln ts where
    fm: "flv_map (fst (unit_ops flv_timeline_new (List.map (prepared m t) seg))) (prepared m t f) = Some (tln, ts)" by blast
  obtain mx data where mx: "frame_to_ts (update_pcr (fst (ts_run muxer_new ?ops)) ts)
      (with_clock_rate ((prepared m t f)\<lparr>mf_timestamp := ts\<rparr>) 1000) = (mx, data)" by fastforce
  have snoc: "fst (ts_run muxer_new (segment_ops m t (seg @ [f]))) = mx"
    "segment_bytes m t (seg @ [f]) = snd (ts_run muxer_new ?ops) @ data"
    using mx by (simp_all add: segment_bytes_def segment_ops_snoc(1) [OF fm] ts_run_snoc case_prod_beta)
  let ?w2 = "?w1\<lparr>sw_timeline := tln, sw_muxer := mx, sw_bytes := length (snd (ts_run muxer_new ?ops)) + length data\<rparr>"
  have after: "writer_at cwd date m t now (seg @ [f]) (?w2\<lparr>sw_ended_at_ms := x\<rparr>) disk"
    if "disk ?p = Some (snd (ts_run muxer_new ?ops) @ data)" for x disk
    using that fields snoc segment_ops_snoc(2) [OF fm] by (simp add: writer_at_def count_frame_def)
  have unit: "rec_then (write_header cwd io (count_frame w f) st) (write_unit json cwd io (prepared m t f)) =
      (if data = [] then (Going, ?w2, ?st1)
       else flush_active_index_if_due json cwd io (?w2\<lparr>sw_ended_at_ms := io_end_now io\<rparr>)
              (st\<lparr>rs_disk := (rs_disk st)(?p \<mapsto> snd (ts_run muxer_new ?ops) @ data)\<rparr>))"
    unfolding write_header_run [OF w io] rec_then_simps write_unit_def timeline fm
    using io mx by (simp add: write_bytes_def io_good_def fields count_frame_def Let_def)
  show ?thesis
  proof (cases "data = []")
    case True
    have "?w2\<lparr>sw_ended_at_ms := sw_ended_at_ms ?w2\<rparr> = ?w2" by simp
    with after [of "rs_disk ?st1" "sw_ended_at_ms ?w2"] True unit show ?thesis by (simp add: own_step_def)
  next
    case False
    let ?st2 = "st\<lparr>rs_disk := (rs_disk st)(?p \<mapsto> snd (ts_run muxer_new ?ops) @ data)\<rparr>"
    have "sw_path (?w2\<lparr>sw_ended_at_ms := io_end_now io\<rparr>) = segment_path date t now"
      "sw_id (?w2\<lparr>sw_ended_at_ms := io_end_now io\<rparr>) = tk_session_id t @ ''_'' @ dec_str now"
      by (simp_all add: fields count_frame_def)
    from flush_step [OF this io n, of json cwd ?st2] obtain w' st' where
      fl: "flush_active_index_if_due json cwd io (?w2\<lparr>sw_ended_at_ms := io_end_now io\<rparr>) ?st2 = (Going, w', st')"
      "same_writer (?w2\<lparr>sw_ended_at_ms := io_end_now io\<rparr>) w'" "own_step cwd date t now ?st2 st'"
      "rs_disk st' ?p = rs_disk ?st2 ?p" by blast
    have "writer_at cwd date m t now (seg @ [f]) w' (rs_disk st')"
      by (rule writer_at_same [where disk = "rs_disk ?st2" and disk' = "rs_disk st'", OF after fl(2,4)]) simp
    moreover have "own_step cwd date t now st st'" by (rule own_step_later [OF fl(3)]) simp_all
    ultimately show ?thesis using unit False fl(1) by simp
  qed
qed

section \<open>A whole session\<close>

text \<open>The entry of a finished segment, and the file it names.\<close>

definition entry_of_segment ::
    "place \<Rightarrow> (nat \<Rightarrow> string) \<Rightarrow> stream_manager \<Rightarrow> record_task \<Rightarrow> disk \<Rightarrow> nat \<times> media_frame list \<Rightarrow> recording_entry \<Rightarrow> bool" where
  "entry_of_segment cwd date m t disk d e \<longleftrightarrow>
     re_id e = tk_session_id t @ ''_'' @ dec_str (fst d) \<and> re_started_at_ms e = fst d \<and>
     re_path e = segment_path date t (fst d) \<and>
     disk (locate cwd (re_path e)) = Some (segment_bytes m t (snd d)) \<and>
     re_bytes e = length (segment_bytes m t (snd d)) \<and>
     re_video_frames e = length (filter is_recorded_video (snd d)) \<and>
     re_audio_frames e = length (filter (\<lambda>f. \<not> is_recorded_video f) (snd d)) \<and>
     re_keyframes e = length (filter (\<lambda>f. is_recorded_video f \<and> mf_is_keyframe f) (snd d)) \<and>
     re_status e = (if \<exists>f\<in>set (snd d). is_recorded_video f then ''completed'' else ''empty'')"

definition foreign :: "record_task \<Rightarrow> recording_entry list \<Rightarrow> bool" where
  "foreign t index \<longleftrightarrow> (\<forall>e\<in>set index. \<forall>n. re_id e \<noteq> tk_session_id t @ ''_'' @ dec_str n)"

text \<open>
  The segments \<open>ds\<close> are finished, the one opened at \<open>now\<close> holds \<open>seg\<close> and may have an entry already;
  \<open>old\<close> was the index before the session.
\<close>

definition session_at ::
    "place \<Rightarrow> (nat \<Rightarrow> string) \<Rightarrow> stream_manager \<Rightarrow> record_task \<Rightarrow> recording_entry list \<Rightarrow> (nat \<times> media_frame list) list \<Rightarrow>
     nat \<Rightarrow> media_frame list \<Rightarrow> segment_writer \<Rightarrow> rec_store \<Rightarrow> bool" where
  "session_at cwd date m t old ds now seg w st \<longleftrightarrow>
     writer_at cwd date m t now seg w (rs_disk st) \<and> (\<forall>d\<in>set ds. fst d < now) \<and>
     (\<exists>es cur. rs_index st = old @ es @ cur \<and> list_all2 (entry_of_segment cwd date m t (rs_disk st)) ds es \<and>
        (cur = [] \<or> (\<exists>e. cur = [e] \<and> re_id e = tk_session_id t @ ''_'' @ dec_str now)))"

lemma dec_str_eq [simp]: "dec_str a = dec_str b \<longleftrightarrow> a = b"
  by (metis dec_val_dec_str)

lemma entries_kept:
  assumes "list_all2 (entry_of_segment cwd date m t disk) ds es"
    and "\<forall>d\<in>set ds. disk' (locate cwd (segment_path date t (fst d))) = disk (locate cwd (segment_path date t (fst d)))"
  shows "list_all2 (entry_of_segment cwd date m t disk') ds es"
  using assms by (induction rule: list_all2_induct) (auto simp: entry_of_segment_def)

lemma upsert_current:
  assumes "foreign t old" and "list_all2 (entry_of_segment cwd date m t disk) ds es" and "\<forall>d\<in>set ds. fst d < now"
    and "cur = [] \<or> (\<exists>e. cur = [e] \<and> re_id e = tk_session_id t @ ''_'' @ dec_str now)"
    and "re_id e = tk_session_id t @ ''_'' @ dec_str now"
  shows "upsert_index_entry (old @ es @ cur) e = old @ es @ [e]"
proof -
  have "re_id x \<noteq> re_id e" if x: "x \<in> set es" for x
  proof -
    obtain d where "d \<in> set ds" "entry_of_segment cwd date m t disk d x"
      using assms(2) x by (metis list_all2_conv_all_nth in_set_conv_nth)
    with assms(3,5) show ?thesis by (auto simp: entry_of_segment_def)
  qed
  moreover have "re_id x \<noteq> re_id e" if "x \<in> set old" for x
    using assms(1,5) that by (simp add: foreign_def)
  moreover have "upsert_index_entry cur e = [e]" using assms(4,5) by auto
  ultimately show ?thesis by (simp add: upsert_fresh)
qed

lemma own_step_session:
  assumes s: "session_at cwd date m t old ds now seg w st" and n: "names_ok date t" and "foreign t old"
    and step: "own_step cwd date t now st st'" and w': "writer_at cwd date m t now seg' w' (rs_disk st')"
  shows "session_at cwd date m t old ds now seg' w' st'"
proof -
  obtain es cur where i: "rs_index st = old @ es @ cur" "list_all2 (entry_of_segment cwd date m t (rs_disk st)) ds es"
    "cur = [] \<or> (\<exists>e. cur = [e] \<and> re_id e = tk_session_id t @ ''_'' @ dec_str now)" "\<forall>d\<in>set ds. fst d < now"
    using s unfolding session_at_def by blast
  have es: "list_all2 (entry_of_segment cwd date m t (rs_disk st')) ds es"
    using step i(4) segment_places_differ [OF n] index_place_differs [OF n]
    by (intro entries_kept [OF i(2)]) (auto simp: own_step_def)
  from step obtain cur' where "rs_index st' = old @ es @ cur'"
    "cur' = [] \<or> (\<exists>e. cur' = [e] \<and> re_id e = tk_session_id t @ ''_'' @ dec_str now)"
    using i(1,3) upsert_current [OF assms(3) i(2,4,3)] unfolding own_step_def by metis
  with es w' i(4) show ?thesis unfolding session_at_def by blast
qed

text \<open>Finishing closes the entry of the current segment.\<close>

lemma finish_session:
  assumes s: "session_at cwd date m t old ds now seg w st" and n: "names_ok date t" and "foreign t old" and io: "io_good io"
  shows "\<exists>w' st' es. finish json cwd io w st = (Going, w', st') \<and> rs_index st' = old @ es \<and>
     list_all2 (entry_of_segment cwd date m t (rs_disk st')) (ds @ [(now, seg)]) es"
proof -
  obtain es cur where i: "rs_index st = old @ es @ cur" "list_all2 (entry_of_segment cwd date m t (rs_disk st)) ds es"
    "cur = [] \<or> (\<exists>e. cur = [e] \<and> re_id e = tk_session_id t @ ''_'' @ dec_str now)" "\<forall>d\<in>set ds. fst d < now"
    and w: "writer_at cwd date m t now seg w (rs_disk st)"
    using s unfolding session_at_def by blast
  define status where "status = (if sw_bytes w = 0 \<or> sw_video_frames w = 0 then ''empty'' else ''completed'')"
  let ?e = "build_entry w status"
  have id: "sw_id w = tk_session_id t @ ''_'' @ dec_str now" "sw_path w = segment_path date t now" using w by (simp_all add: writer_at_def)
  have up: "upsert_index_entry (old @ es @ cur) ?e = old @ es @ [?e]"
    by (rule upsert_current [OF assms(3) i(2,4,3)]) (simp add: id)
  let ?disk = "(rs_disk st)(index_place cwd (sw_path w) \<mapsto> json (old @ es @ [?e]))"
  have keep: "?disk (locate cwd (segment_path date t x)) = rs_disk st (locate cwd (segment_path date t x))" for x
    using index_place_differs [OF n] by simp
  have es: "list_all2 (entry_of_segment cwd date m t ?disk) ds es"
    using keep by (intro entries_kept [OF i(2)]) blast
  have "segment_bytes m t seg = [] \<longleftrightarrow> seg = []" using segment_bytes_nonempty [of seg m t] by auto
  then have status: "status = (if \<exists>f\<in>set seg. is_recorded_video f then ''completed'' else ''empty'')"
    using w by (auto simp: status_def writer_at_def filter_empty_conv)
  have "entry_of_segment cwd date m t ?disk (now, seg) ?e"
    using w keep [of now] by (simp add: entry_of_segment_def build_entry_def writer_at_def status [symmetric])
  with es have "list_all2 (entry_of_segment cwd date m t ?disk) (ds @ [(now, seg)]) (es @ [?e])"
    by (simp add: list_all2_appendI)
  moreover have "\<exists>w'. finish json cwd io w st = (Going, w', st\<lparr>rs_index := old @ es @ [?e], rs_disk := ?disk\<rparr>)"
  proof (cases "sw_bytes w = 0 \<or> sw_video_frames w = 0")
    case True
    then have "status = ''empty''" by (simp add: status_def)
    with True io up show ?thesis by (auto simp: finish_def persist_index_def io_good_def Let_def i(1))
  next
    case False
    then have "status = ''completed''" by (simp add: status_def)
    with False io up show ?thesis by (auto simp: finish_def persist_index_def io_good_def Let_def i(1))
  qed
  ultimately show ?thesis by fastforce
qed

lemma rotate_session:
  assumes s: "session_at cwd date m t old ds now seg w st" and n: "names_ok date t" and "foreign t old" and io: "io_good io"
    and "now < io_open_now io"
  shows "\<exists>w' st'. rotate json date cwd io t w st = (Going, w', st') \<and>
     session_at cwd date m t old (ds @ [(now, seg)]) (io_open_now io) [] w' st'"
proof -
  obtain w1 st1 es where fin: "finish json cwd io w st = (Going, w1, st1)" "rs_index st1 = old @ es"
    "list_all2 (entry_of_segment cwd date m t (rs_disk st1)) (ds @ [(now, seg)]) es"
    using finish_session [OF assms(1-4)] by blast
  let ?st = "st1\<lparr>rs_disk := (rs_disk st1)(locate cwd (segment_path date t (io_open_now io)) \<mapsto> [])\<rparr>"
  have ds: "\<forall>d\<in>set (ds @ [(now, seg)]). fst d < io_open_now io"
    using s assms(5) by (auto simp: session_at_def)
  then have "locate cwd (segment_path date t (fst d)) \<noteq> locate cwd (segment_path date t (io_open_now io))"
    if "d \<in> set (ds @ [(now, seg)])" for d
    using segment_places_differ [OF n, of "fst d" "io_open_now io"] that by fastforce
  then have "list_all2 (entry_of_segment cwd date m t (rs_disk ?st)) (ds @ [(now, seg)]) es"
    by (intro entries_kept [OF fin(3)]) simp
  then have "session_at cwd date m t old (ds @ [(now, seg)]) (io_open_now io) [] (writer_fresh date t (io_open_now io)) ?st"
    using ds fin(2) writer_at_fresh [of "rs_disk ?st"] unfolding session_at_def by (intro conjI) auto
  moreover have "rotate json date cwd io t w st = (Going, writer_fresh date t (io_open_now io), ?st)"
    using io by (simp add: rotate_def fin(1) writer_new_def io_good_def)
  ultimately show ?thesis by blast
qed

lemma write_frame_recorded:
  assumes s: "session_at cwd date m t old ds now seg w st" and n: "names_ok date t" and "foreign t old" and io: "io_good io"
    and "clock_ok f"
  shows "\<exists>w' st'. (if \<not> (is_recorded_video f \<or> mf_codec f = AAC) then (Going, w, st)
      else let f' = (if is_recorded_video f then prepare_video_frame_for_record m (tk_stream_id t) f else f)
           in rec_then (write_header cwd io (count_frame w f) st) (write_unit json cwd io f')) = (Going, w', st') \<and>
     session_at cwd date m t old ds now (seg @ filter recorded [f]) w' st'"
proof (cases "recorded f")
  case False
  with s show ?thesis by (auto simp: recorded_def)
next
  case True
  have w: "writer_at cwd date m t now seg w (rs_disk st)" using s by (simp add: session_at_def)
  from write_recorded [OF w n io True assms(5), of json] obtain w' st' where
    r: "rec_then (write_header cwd io (count_frame w f) st) (write_unit json cwd io (prepared m t f)) = (Going, w', st')"
    "writer_at cwd date m t now (seg @ [f]) w' (rs_disk st')" "own_step cwd date t now st st'" by blast
  from own_step_session [OF s n assms(3) r(3,2)] r(1) True show ?thesis
    by (simp add: recorded_def prepared_def)
qed

text \<open>The segments after the first start where the task may cut.\<close>

definition cut_ok :: "record_task \<Rightarrow> media_frame list \<Rightarrow> bool" where
  "cut_ok t seg \<longleftrightarrow> (tk_align_keyframe t \<longrightarrow> seg \<noteq> [] \<and> is_recorded_video (hd seg) \<and> mf_is_keyframe (hd seg))"

lemma write_frames_session:
  assumes n: "names_ok date t" and "foreign t old" and io: "\<forall>i. io_good (io i)"
    and opens: "\<forall>i j. i < j \<longrightarrow> io_open_now (io i) < io_open_now (io j)"
  shows "session_at cwd date m t old ds now seg w st \<Longrightarrow> list_all clock_ok fs \<Longrightarrow> now < io_open_now (io k) \<Longrightarrow>
     list_all (cut_ok t \<circ> snd) (drop 1 ds) \<Longrightarrow> (ds \<noteq> [] \<longrightarrow> cut_ok t seg) \<Longrightarrow>
     \<exists>w' st' ds' now' seg'. write_frames json date cwd m t io k fs w st = (Going, w', st') \<and>
       session_at cwd date m t old ds' now' seg' w' st' \<and>
       concat (List.map snd ds') @ seg' = concat (List.map snd ds) @ seg @ filter recorded fs \<and>
       list_all (cut_ok t \<circ> snd) (drop 1 ds') \<and> (ds' \<noteq> [] \<longrightarrow> cut_ok t seg')"
proof (induction fs arbitrary: ds now seg w st k)
  case Nil
  then show ?case by (intro exI [of _ w] exI [of _ st] exI [of _ ds] exI [of _ now] exI [of _ seg]) simp
next
  case (Cons f fs)
  have f: "clock_ok f" "list_all clock_ok fs" using Cons.prems(2) by simp_all
  have good: "io_good (io k)" using io by blast
  have join: "(seg @ filter recorded [f]) @ filter recorded fs = seg @ filter recorded (f # fs)"
    and joined: "concat (List.map snd (ds @ [(now, seg)])) @ filter recorded [f] @ filter recorded fs =
      concat (List.map snd ds) @ seg @ filter recorded (f # fs)" by simp_all
  show ?case
  proof (cases "should_rotate w t (io_rotate_now (io k)) f")
    case False
    obtain w1 st1 where one: "write_frame json date cwd m t (io k) f w st = (Going, w1, st1)"
      "session_at cwd date m t old ds now (seg @ filter recorded [f]) w1 st1"
      using write_frame_recorded [OF Cons.prems(1) n assms(2) good f(1), of json] False by (auto simp: write_frame_def)
    have "now < io_open_now (io (k + 1))" using Cons.prems(3) opens by (meson less_add_one order.strict_trans)
    moreover have "ds \<noteq> [] \<longrightarrow> cut_ok t (seg @ filter recorded [f])"
      using Cons.prems(5) by (auto simp: cut_ok_def)
    ultimately show ?thesis
      using Cons.IH [OF one(2) f(2) _ Cons.prems(4)] one(1)
      by (simp only: write_frames.simps rec_then_simps join)
  next
    case True
    obtain w1 st1 where rot: "rotate json date cwd (io k) t w st = (Going, w1, st1)"
      "session_at cwd date m t old (ds @ [(now, seg)]) (io_open_now (io k)) [] w1 st1"
      using rotate_session [OF Cons.prems(1) n assms(2) good Cons.prems(3)] by blast
    obtain w2 st2 where one: "write_frame json date cwd m t (io k) f w st = (Going, w2, st2)"
      "session_at cwd date m t old (ds @ [(now, seg)]) (io_open_now (io k)) (filter recorded [f]) w2 st2"
      using write_frame_recorded [OF rot(2) n assms(2) good f(1), of json] True rot(1) by (auto simp: write_frame_def)
    have "tk_align_keyframe t \<Longrightarrow> is_recorded_video f \<and> mf_is_keyframe f"
      using True by (auto simp: should_rotate_def split: if_splits)
    then have cut: "ds @ [(now, seg)] \<noteq> [] \<longrightarrow> cut_ok t (filter recorded [f])" by (auto simp: cut_ok_def recorded_def)
    have cuts: "list_all (cut_ok t \<circ> snd) (drop 1 (ds @ [(now, seg)]))"
      using Cons.prems(4,5) by (cases ds) (auto simp: comp_def)
    have lt: "io_open_now (io k) < io_open_now (io (k + 1))" using opens by simp
    show ?thesis
      using Cons.IH [OF one(2) f(2) lt cuts cut] one(1) by (simp only: write_frames.simps rec_then_simps join joined)
  qed
qed

text \<open>A session from its first to its last frame, without a resync.\<close>

definition record_whole ::
    "(recording_entry list \<Rightarrow> bytes) \<Rightarrow> (nat \<Rightarrow> string) \<Rightarrow> place \<Rightarrow> stream_manager \<Rightarrow> record_task \<Rightarrow> (nat \<Rightarrow> rec_io) \<Rightarrow>
     media_frame list \<Rightarrow> rec_store \<Rightarrow> rec_store option" where
  "record_whole json date cwd m t io fs st =
     (case record_begin json date cwd m (io 0) t st of
        (None, _) \<Rightarrow> None
      | (Some rn, st1) \<Rightarrow>
          (case rec_then (write_frames json date cwd m t io 1 fs (rn_writer rn) st1)
                  (finish json cwd (io (length fs + 1))) of
             (Going, w, st2) \<Rightarrow> Some st2
           | _ \<Rightarrow> None))"

lemma begin_session:
  assumes n: "names_ok date t" and "foreign t (rs_index st)" and io: "io_good io" and "get_hub m (tk_stream_id t) \<noteq> None"
  shows "\<exists>rn st1. record_begin json date cwd m io t st = (Some rn, st1) \<and>
     session_at cwd date m t (rs_index st) [] (io_open_now io) [] (rn_writer rn) st1"
proof -
  let ?now = "io_open_now io"
  let ?w = "writer_fresh date t ?now" and ?p = "locate cwd (segment_path date t ?now)"
  let ?st = "st\<lparr>rs_disk := (rs_disk st)(?p \<mapsto> [])\<rparr>"
  obtain r where r: "dispatch_subscribe m (tk_stream_id t) SequentialFromIdr = Some r"
    using assms(4) by (auto simp: dispatch_subscribe_def get_or_create_hub_def)
  have w: "writer_at cwd date m t ?now [] ?w (rs_disk ?st)" by (rule writer_at_fresh) simp
  have s: "session_at cwd date m t (rs_index st) [] ?now [] ?w ?st"
    unfolding session_at_def using w by (intro conjI exI [of _ "[]"]) simp_all
  obtain w' st' where p: "persist_index json cwd (io_flush_now io) (io_index_ok io) ''recording'' ?w ?st = (Going, w', st')"
    "w' = ?w\<lparr>sw_last_index_flush_ms := io_flush_now io\<rparr>"
    "st' = ?st\<lparr>rs_index := upsert_index_entry (rs_index st) (build_entry ?w ''recording''),
       rs_disk := (rs_disk ?st)(index_place cwd (sw_path ?w) \<mapsto>
         json (upsert_index_entry (rs_index st) (build_entry ?w ''recording'')))\<rparr>"
    using io by (simp add: persist_index_def io_good_def Let_def)
  have id: "re_id (build_entry ?w ''recording'') = tk_session_id t @ ''_'' @ dec_str ?now" by (simp add: writer_fresh_def)
  have "own_step cwd date t ?now ?st st'"
    using id unfolding own_step_def p(3)
    by (intro conjI disjI2 exI [of _ "build_entry ?w ''recording''"]) auto
  moreover have "writer_at cwd date m t ?now [] w' (rs_disk st')"
  proof (rule writer_at_same [OF w])
    show "same_writer ?w w'" unfolding same_writer_def p(2) by blast
    show "rs_disk st' ?p = rs_disk ?st ?p" using index_place_differs [OF n] by (simp add: p(3))
  qed
  ultimately have "session_at cwd date m t (rs_index st) [] ?now [] w' st'"
    by (rule own_step_session [OF s n assms(2)])
  moreover have "record_begin json date cwd m io t st = (Some \<lparr>rn_task = t, rn_reader = r, rn_writer = w'\<rparr>, st')"
    using io p(1) by (simp add: record_begin_def r writer_new_def io_good_def)
  ultimately show ?thesis by fastforce
qed

text \<open>C27. A recording keeps every frame: when the files can be written, a session records to its end, its video
  and AAC frames are split into consecutive segments, none is lost or written twice, every file
  holds exactly the transport stream of its own segment, and the index gets one entry for each,
  with its true size and counts; with keyframe alignment every segment after the first starts with
  a video keyframe.\<close>

theorem recording_keeps_every_frame:
  assumes "names_ok date t" and "foreign t (rs_index st)" and "\<forall>i. io_good (io i)"
    and "\<forall>i j. i < j \<longrightarrow> io_open_now (io i) < io_open_now (io j)"
    and "get_hub m (tk_stream_id t) \<noteq> None" and "list_all clock_ok fs"
  shows "\<exists>st' segs es. record_whole json date cwd m t io fs st = Some st' \<and> segs \<noteq> [] \<and>
     concat (List.map snd segs) = filter recorded fs \<and> list_all (cut_ok t \<circ> snd) (drop 1 segs) \<and>
     rs_index st' = rs_index st @ es \<and> list_all2 (entry_of_segment cwd date m t (rs_disk st')) segs es"
proof -
  have good: "io_good (io i)" for i using assms(3) by blast
  obtain rn st1 where b: "record_begin json date cwd m (io 0) t st = (Some rn, st1)"
    "session_at cwd date m t (rs_index st) [] (io_open_now (io 0)) [] (rn_writer rn) st1"
    using begin_session [OF assms(1,2) good assms(5)] by blast
  have now: "io_open_now (io 0) < io_open_now (io 1)" using assms(4) by simp
  have none: "list_all (cut_ok t \<circ> snd) (drop 1 [])" "([] :: (nat \<times> media_frame list) list) \<noteq> [] \<longrightarrow> cut_ok t []"
    by simp_all
  note run = write_frames_session [OF assms(1-4) b(2) assms(6) now none, of json]
  obtain w2 st2 ds now' seg where
    f: "write_frames json date cwd m t io 1 fs (rn_writer rn) st1 = (Going, w2, st2)"
    "session_at cwd date m t (rs_index st) ds now' seg w2 st2" "concat (List.map snd ds) @ seg = filter recorded fs"
    "list_all (cut_ok t \<circ> snd) (drop 1 ds)" "ds \<noteq> [] \<longrightarrow> cut_ok t seg"
    using run by (simp only: list.map concat.simps append_Nil) blast
  from finish_session [OF f(2) assms(1,2) good, of json] obtain w3 st3 es where
    fin: "finish json cwd (io (length fs + 1)) w2 st2 = (Going, w3, st3)" "rs_index st3 = rs_index st @ es"
    "list_all2 (entry_of_segment cwd date m t (rs_disk st3)) (ds @ [(now', seg)]) es" by blast
  have "record_whole json date cwd m t io fs st = Some st3" 
    unfolding record_whole_def b(1) prod.case option.case f(1) rec_then_simps fin(1) by simp
  moreover have "list_all (cut_ok t \<circ> snd) (drop 1 (ds @ [(now', seg)]))"
    using f(4,5) by (cases ds) (auto simp: comp_def)
  moreover have "concat (List.map snd (ds @ [(now', seg)])) = filter recorded fs" using f(3) by simp
  ultimately show ?thesis using fin(2,3) by blast
qed

text \<open>Every recorded file plays on its own: it is a whole number of transport stream packets on the known
  PIDs whose continuity counters start at zero and run without a break, and it begins with the
  tables, which announce every kind of frame that the first one is or that the stream declared.\<close>

theorem recorded_segment_is_a_stream:
  assumes "list_all recorded seg"
  shows "(\<exists>vs. demux (segment_bytes m t seg) = Some vs \<and> (\<forall>x\<in>set vs. tv_pid x \<in> pids) \<and>
       (\<forall>pid\<in>pids. ccs_on pid vs = cc_run 0 (length (ccs_on pid vs)))) \<and>
     (seg \<noteq> [] \<longrightarrow> (\<exists>rest v a. segment_bytes m t seg = snd (generate_pat_pmt muxer_new v a) @ rest \<and>
        v = (tk_declared_has_video t \<or> is_recorded_video (hd seg)) \<and>
        a = (tk_declared_has_audio t \<or> \<not> is_recorded_video (hd seg))))"
proof -
  have "\<exists>rest. segment_bytes m t seg = snd (generate_pat_pmt muxer_new (tk_declared_has_video t \<or> is_recorded_video (hd seg))
      (tk_declared_has_audio t \<or> \<not> is_recorded_video (hd seg))) @ rest" if "seg \<noteq> []"
    using that unfolding segment_bytes_def segment_ops_def by (simp add: case_prod_beta)
  with ts_counters_continuous [OF segment_ops_known [OF assms] surjective_pairing] show ?thesis
    unfolding segment_bytes_def by blast
qed

text \<open>A recording without video has data, and its entries say it is empty.\<close>

lemma audio_recordings_are_called_empty:
  assumes "entry_of_segment cwd date m t disk (now, seg) e" and "seg \<noteq> []" and "\<forall>f\<in>set seg. \<not> is_recorded_video f"
  shows "re_status e = ''empty'' \<and> re_bytes e \<noteq> 0 \<and> re_audio_frames e = length seg"
  using assms segment_bytes_nonempty [OF assms(2), of m t] by (auto simp: entry_of_segment_def)

text \<open>
  The directory of the recordings is made safe from the name of the stream, the name of the file is
  not: with a slash in the name the file is to be created in a directory that nobody creates.
\<close>

lemma slash_leaves_created_directory:
  assumes "names_ok date (t\<lparr>tk_session_id := ''x''\<rparr>)" and "tk_session_id t = a @ ''/'' @ b" and "plain_name a" and "plain_name b"
    and dir: "dir = locate cwd (path_join (path_join (tk_base_dir t) (sanitize_path_component (tk_stream_id t))) (date now))"
  shows "butlast (locate cwd (segment_path date t now)) = dir @ [a]"
proof -
  let ?base = "path_join (path_join (tk_base_dir t) (sanitize_path_component (tk_stream_id t))) (date now)"
  let ?b = "b @ ''_'' @ dec_str now @ ''.ts''"
  have ext: "extension (tk_format t) = ''ts''" by (cases "tk_format t") simp
  have base: "?base \<noteq> []" using assms(1) by (intro path_join_nonempty) (simp add: names_ok_def)
  have b: "plain_name ?b" using assms(4) by (auto simp: plain_name_def Cons_eq_append_conv)
  have "segment_path date t now = path_join (path_join ?base a) ?b"
    using join_two_names [OF assms(3) b base] by (simp add: segment_path_def assms(2) ext)
  moreover have "path_join ?base a \<noteq> []" by (rule path_join_nonempty [OF base])
  ultimately show ?thesis
    using locate_join [OF b, of "path_join ?base a" cwd] locate_join [OF assms(3) base, of cwd]
    by (simp add: dir butlast_append)
qed

section \<open>Which recordings are running\<close>

datatype recorder_event =
    Start_request stream_manager nat nat start_record_request
  | Stop_request "stream_id option" "string option"

fun recorder_act :: "recorder \<Rightarrow> recorder_event \<Rightarrow> recorder" where
  "recorder_act r (Start_request m now1 now2 req) =
     (case recorder_start m now1 now2 r req of Inl _ \<Rightarrow> r | Inr (r', _) \<Rightarrow> r')"
| "recorder_act r (Stop_request sid session_id) =
     (case recorder_stop r sid session_id of Inl _ \<Rightarrow> r | Inr (r', _) \<Rightarrow> r')"

text \<open>One active session for a stream, and every task that was started is active or was told to stop.\<close>

definition recorder_ok :: "recorder \<Rightarrow> bool" where
  "recorder_ok r \<longleftrightarrow> distinct (List.map fst (rm_active r)) \<and>
     (\<forall>(s, a)\<in>set (rm_active r). ri_stream_id (as_info a) = s) \<and>
     mset (List.map (as_task \<circ> snd) (rm_active r)) + mset (rm_stopped r) = mset [0..<rm_started r]"

lemma update_new_key: "k \<notin> fst ` set xs \<Longrightarrow> AList.update k v xs = xs @ [(k, v)]"
  by (induction xs) auto

lemma mset_map_delete:
  assumes "distinct (List.map fst xs)" and "map_of xs k = Some v"
  shows "mset (List.map f xs) = add_mset (f (k, v)) (mset (List.map f (AList.delete k xs)))"
  using assms
proof (induction xs)
  case (Cons x xs)
  obtain a b where x: "x = (a, b)" by fastforce
  show ?case
  proof (cases "a = k")
    case True
    then have "k \<notin> fst ` set xs" using Cons.prems x by auto
    then have "AList.delete k xs = xs" by (rule delete_id)
    with True Cons.prems x show ?thesis by simp
  next
    case False
    with Cons.IH Cons.prems x show ?thesis by simp
  qed
qed simp

lemma recorder_started:
  assumes "recorder_start m now1 now2 r req = Inr x"
  shows "\<exists>a. fst x = r\<lparr>rm_active := AList.update (sr_stream_id req) a (rm_active r), rm_started := rm_started r + 1\<rparr> \<and>
     as_task a = rm_started r \<and> ri_stream_id (as_info a) = sr_stream_id req \<and> map_of (rm_active r) (sr_stream_id req) = None"
  using assms by (auto simp: recorder_start_def Let_def split: if_splits option.splits)

lemma recorder_act_ok: "recorder_ok r \<Longrightarrow> recorder_ok (recorder_act r ev)"
proof (cases ev)
  case (Start_request m now1 now2 req)
  assume r: "recorder_ok r"
  show ?thesis
  proof (cases "recorder_start m now1 now2 r req")
    case (Inr x)
    from recorder_started [OF this] obtain a where
      a: "fst x = r\<lparr>rm_active := AList.update (sr_stream_id req) a (rm_active r), rm_started := rm_started r + 1\<rparr>"
      "as_task a = rm_started r" "ri_stream_id (as_info a) = sr_stream_id req" "map_of (rm_active r) (sr_stream_id req) = None"
      by blast
    have new: "sr_stream_id req \<notin> fst ` set (rm_active r)" using a(4) by (simp add: map_of_eq_None_iff)
    then have "AList.update (sr_stream_id req) a (rm_active r) = rm_active r @ [(sr_stream_id req, a)]"
      by (rule update_new_key)
    with r a Inr Start_request new show ?thesis by (cases x) (auto simp: recorder_ok_def)
  qed (use r Start_request in simp)
next
  case (Stop_request sid session_id)
  assume r: "recorder_ok r"
  show ?thesis
  proof (cases "recorder_stop r sid session_id")
    case (Inr x)
    then obtain key a where a: "map_of (rm_active r) key = Some a"
      "fst x = r\<lparr>rm_active := AList.delete key (rm_active r), rm_stopped := as_task a # rm_stopped r\<rparr>"
      by (auto simp: recorder_stop_def split: sum.splits option.splits)
    have "distinct (List.map fst (rm_active r))" using r by (simp add: recorder_ok_def)
    moreover have "set (AList.delete key (rm_active r)) \<subseteq> set (rm_active r)" by (auto simp: AList.delete_eq)
    ultimately show ?thesis
      using mset_map_delete [OF _ a(1), of "as_task \<circ> snd"] r a(2) Inr Stop_request
      by (cases x) (auto simp: recorder_ok_def distinct_delete)
  qed (use r Stop_request in simp)
qed

lemma recorder_run_ok: "recorder_ok (foldl recorder_act (recorder_new config) evs)"
proof (induction evs rule: rev_induct)
  case Nil
  show ?case by (simp add: recorder_ok_def recorder_new_def)
qed (simp add: recorder_act_ok)


text \<open>
  A task that ends by itself, because its stream closed or a file failed, stays active: whatever else
  is started and stopped, recording the stream again is refused until somebody asks for a stop.
\<close>

lemma ended_recording_blocks_stream:
  assumes "map_of (rm_active r) sid = Some a"
    and "\<forall>ev\<in>set evs. case ev of Stop_request (Some s) _ \<Rightarrow> s \<noteq> sid | Stop_request None _ \<Rightarrow> False | _ \<Rightarrow> True"
    and "r' = foldl recorder_act r evs" and "rc_enabled (rm_config r)" and "sr_stream_id req = sid" and "trim sid \<noteq> []"
    and "get_stream m sid \<noteq> None"
  shows "recorder_start m now1 now2 r' req = Inl Already_active"
proof -
  have "map_of (rm_active r') sid = Some a \<and> rm_config r' = rm_config r"
    using assms(1,2) unfolding assms(3)
  proof (induction evs arbitrary: r)
    case (Cons ev evs)
    have "map_of (rm_active (recorder_act r ev)) sid = Some a \<and> rm_config (recorder_act r ev) = rm_config r"
    proof (cases ev)
      case (Start_request m' n1 n2 q)
      show ?thesis
      proof (cases "recorder_start m' n1 n2 r q")
        case (Inr x)
        from recorder_started [OF Inr] Inr Start_request Cons.prems(1) show ?thesis
          by (cases x) (auto simp: update_conv')
      qed (use Start_request Cons.prems(1) in simp)
    next
      case (Stop_request s x)
      then obtain s' where "s = Some s'" "s' \<noteq> sid" using Cons.prems(2) by (cases s) auto
      with Cons.prems(1) Stop_request show ?thesis
        by (auto simp: recorder_stop_def delete_conv' split: option.splits)
    qed
    with Cons.IH [of "recorder_act r ev"] Cons.prems(2) show ?case by simp
  qed simp
  with assms(4-7) show ?thesis by (auto simp: recorder_start_def)
qed

section \<open>A recording\<close>

definition demo_rec_io :: "nat \<Rightarrow> rec_io" where
  "demo_rec_io i = \<lparr>io_rotate_now = 1000 * i, io_open_now = 1000 * i, io_end_now = 1000 * i, io_due_now = 1000 * i,
     io_flush_now = 1000 * i, io_create_ok = True, io_flush_ok = True, io_finish_ok = True, io_header_ok = True,
     io_data_ok = True, io_index_ok = True\<rparr>"

definition demo_rec_task :: record_task where
  "demo_rec_task = \<lparr>tk_stream_id = ''s1'', tk_session_id = ''rec_s1_0'', tk_format = Ts, tk_base_dir = ''rec'',
     tk_segment_secs = 1, tk_align_keyframe = True, tk_declared_has_video = True, tk_declared_has_audio = True\<rparr>"

definition demo_rec_frames :: "media_frame list" where
  "demo_rec_frames = [idr_frame, audio_frame 20, idr_frame]"

theorem recording_keeps_every_frame_witness:
  "\<exists>st' (segs :: (nat \<times> media_frame list) list). record_whole (\<lambda>_. []) (\<lambda>_. ''20260101'') [''srv''] \<lparr>mgr_hubs = [(''s1'', demo_hub [])]\<rparr> demo_rec_task
       demo_rec_io demo_rec_frames \<lparr>rs_index = [], rs_disk = (\<lambda>_. None)\<rparr> = Some st' \<and>
     concat (List.map snd segs) = demo_rec_frames \<and> length segs = length (rs_index st')"
proof -
  have n: "names_ok (\<lambda>_. ''20260101'') demo_rec_task"
    by (simp add: names_ok_def demo_rec_task_def plain_name_def)
  have "recorded f" "clock_ok f" if "f \<in> set demo_rec_frames" for f
    using that by (auto simp: demo_rec_frames_def idr_frame_def audio_frame_def media_frame_new_def recorded_def
        is_recorded_video_def clock_ok_def)
  then have f: "list_all clock_ok demo_rec_frames" "filter recorded demo_rec_frames = demo_rec_frames"
    by (simp_all add: list_all_iff)
  have "\<forall>i. io_good (demo_rec_io i)" "\<forall>i j. i < j \<longrightarrow> io_open_now (demo_rec_io i) < io_open_now (demo_rec_io j)"
    "get_hub \<lparr>mgr_hubs = [(''s1'', demo_hub [])]\<rparr> (tk_stream_id demo_rec_task) \<noteq> None"
    "foreign demo_rec_task (rs_index \<lparr>rs_index = [], rs_disk = (\<lambda>_. None)\<rparr>)"
    by (simp_all add: io_good_def demo_rec_io_def get_hub_def demo_rec_task_def foreign_def)
  from recording_keeps_every_frame [OF n this(4,1-3) f(1), of "\<lambda>_. []" "[''srv'']"] obtain st' segs es where
    r: "record_whole (\<lambda>_. []) (\<lambda>_. ''20260101'') [''srv''] \<lparr>mgr_hubs = [(''s1'', demo_hub [])]\<rparr> demo_rec_task
       demo_rec_io demo_rec_frames \<lparr>rs_index = [], rs_disk = (\<lambda>_. None)\<rparr> = Some st'"
    "concat (List.map snd segs) = filter recorded demo_rec_frames"
    "rs_index st' = rs_index \<lparr>rs_index = [], rs_disk = (\<lambda>_. None)\<rparr> @ es"
    "list_all2 (entry_of_segment [''srv''] (\<lambda>_. ''20260101'') \<lparr>mgr_hubs = [(''s1'', demo_hub [])]\<rparr> demo_rec_task (rs_disk st'))
       segs es"
    by blast
  then have "length segs = length (rs_index st')" by (simp add: list_all2_lengthD)
  moreover have "concat (List.map snd segs) = demo_rec_frames" by (rule trans [OF r(2) f(2)])
  ultimately show ?thesis using r(1) by (intro exI [of _ st'] exI [of _ segs] conjI)
qed

theorem recorded_segment_is_a_stream_witness:
  "\<exists>vs. demux (segment_bytes manager_new demo_rec_task demo_rec_frames) = Some vs \<and>
     (\<forall>pid\<in>pids. ccs_on pid vs = cc_run 0 (length (ccs_on pid vs)))"
proof -
  have "list_all recorded demo_rec_frames"
    by (simp add: demo_rec_frames_def idr_frame_def audio_frame_def media_frame_new_def recorded_def is_recorded_video_def)
  from recorded_segment_is_a_stream [OF this, of manager_new demo_rec_task] show ?thesis by blast
qed

definition demo_rec_request :: start_record_request where
  "demo_rec_request = \<lparr>sr_stream_id = ''s1'', sr_format = Some ''MpegTS'', sr_segment_duration = None, sr_align_keyframe = None\<rparr>"

definition demo_rec_events :: "recorder_event list" where
  "demo_rec_events =
     [Start_request \<lparr>mgr_hubs = [(''s1'', demo_hub [])]\<rparr> 5 6 demo_rec_request,
      Start_request \<lparr>mgr_hubs = [(''s1'', demo_hub [])]\<rparr> 7 8 demo_rec_request,
      Stop_request (Some ''s1'') None,
      Start_request \<lparr>mgr_hubs = [(''s1'', demo_hub [])]\<rparr> 9 10 demo_rec_request]"


end
