(* ===== verification/Snapshot.thy ===== *)
theory Snapshot
  imports Live_Play Paths
begin

text \<open>
  Snapshots, \<open>src/src/process/snapshot/mod.rs\<close>: the index of the snapshots, a request, and the job that
  takes the latest IDR, writes it to a file and lets \<open>ffmpeg\<close> make an image of it. The calendar
  (\<open>date\<close>, the name of a day), the readings of the clock, the registry at each look of the waiting
  loop and the answers of the file system and of \<open>ffmpeg\<close> are arguments.
\<close>

section \<open>Data\<close>

record snapshot_config =
  sc_enabled :: bool
  sc_base_dir :: string
  sc_ffmpeg_path :: string
  sc_wait_keyframe :: nat

definition snapshot_config_default :: snapshot_config where
  "snapshot_config_default =
     \<lparr>sc_enabled = False, sc_base_dir = ''./saving/snapshots'', sc_ffmpeg_path = ''ffmpeg'', sc_wait_keyframe = 1000\<rparr>"

record snapshot_entry =
  se_id :: string
  se_stream_id :: stream_id
  se_created_at_ms :: nat
  se_completed_at_ms :: "nat option"
  se_source_timestamp :: "nat option"
  se_path :: "string option"
  se_url :: "string option"
  se_format :: string
  se_bytes :: nat
  se_status :: string
  se_error :: "string option"

record snapshot_manager =
  sn_config :: snapshot_config
  sn_index :: "snapshot_entry list"

definition snapshot_manager_new :: "snapshot_config \<Rightarrow> snapshot_manager" where
  "snapshot_manager_new config = \<lparr>sn_config = config, sn_index = []\<rparr>"

section \<open>The index\<close>

definition snapshot_list :: "snapshot_manager \<Rightarrow> stream_id option \<Rightarrow> snapshot_entry list" where
  "snapshot_list s sid =
     filter (\<lambda>e. case sid of Some i \<Rightarrow> se_stream_id e = i | None \<Rightarrow> True) (sn_index s)"

definition snapshot_get :: "snapshot_manager \<Rightarrow> string \<Rightarrow> snapshot_entry option" where
  "snapshot_get s key = find (\<lambda>e. se_id e = key) (sn_index s)"

text \<open>\<open>iter_mut().find\<close>: the first entry with the id is changed.\<close>

fun on_entry :: "(snapshot_entry \<Rightarrow> snapshot_entry) \<Rightarrow> string \<Rightarrow> snapshot_entry list \<Rightarrow> snapshot_entry list" where
  "on_entry f key [] = []"
| "on_entry f key (e # es) = (if se_id e = key then f e # es else e # on_entry f key es)"

fun snapshot_upsert :: "snapshot_entry list \<Rightarrow> snapshot_entry \<Rightarrow> snapshot_entry list" where
  "snapshot_upsert [] e = [e]"
| "snapshot_upsert (x # xs) e = (if se_id x = se_id e then e # xs else x # snapshot_upsert xs e)"

definition update_status :: "string \<Rightarrow> string \<Rightarrow> snapshot_entry list \<Rightarrow> snapshot_entry list" where
  "update_status key status = on_entry (\<lambda>e. e\<lparr>se_status := status\<rparr>) key"

definition mark_completed ::
    "nat \<Rightarrow> string \<Rightarrow> nat \<Rightarrow> string \<Rightarrow> nat \<Rightarrow> snapshot_entry list \<Rightarrow> snapshot_entry list" where
  "mark_completed now key source_timestamp image_path n =
     on_entry (\<lambda>e. e\<lparr>se_completed_at_ms := Some now, se_source_timestamp := Some source_timestamp,
       se_path := Some image_path, se_url := Some (''/api/snapshots/'' @ key @ ''.jpg''), se_bytes := n,
       se_status := ''completed'', se_error := None\<rparr>) key"

definition mark_failed :: "nat \<Rightarrow> string \<Rightarrow> string \<Rightarrow> snapshot_entry list \<Rightarrow> snapshot_entry list" where
  "mark_failed now key err =
     on_entry (\<lambda>e. e\<lparr>se_completed_at_ms := Some now, se_status := ''failed'', se_error := Some err\<rparr>) key"

section \<open>A request\<close>

datatype snapshot_error =
    Snapshot_disabled
  | Snapshot_no_id
  | Snapshot_no_stream
  | No_keyframe
  | Unsupported_codec
  | Io_context string
  | Ffmpeg_failed string
  | Empty_image

text \<open>\<open>err.to_string()\<close>: the outermost context.\<close>

fun snapshot_error_text :: "snapshot_error \<Rightarrow> string" where
  "snapshot_error_text Snapshot_disabled = ''snapshot is disabled''"
| "snapshot_error_text Snapshot_no_id = ''missing stream_id''"
| "snapshot_error_text Snapshot_no_stream = ''stream not found''"
| "snapshot_error_text No_keyframe = ''no playable H264 keyframe available''"
| "snapshot_error_text Unsupported_codec = ''snapshot only supports H264 stream for now''"
| "snapshot_error_text (Io_context c) = c"
| "snapshot_error_text (Ffmpeg_failed err) = ''ffmpeg snapshot failed: '' @ err"
| "snapshot_error_text Empty_image = ''snapshot output is empty''"

definition pending_entry :: "stream_id \<Rightarrow> nat \<Rightarrow> snapshot_entry" where
  "pending_entry sid now =
     \<lparr>se_id = ''snap_'' @ sid @ ''_'' @ dec_str now, se_stream_id = sid, se_created_at_ms = now,
      se_completed_at_ms = None, se_source_timestamp = None, se_path = None, se_url = None,
      se_format = ''jpeg'', se_bytes = 0, se_status = ''pending'', se_error = None\<rparr>"

text \<open>An accepted request starts the job of the entry it returns.\<close>

definition submit ::
    "stream_manager \<Rightarrow> nat \<Rightarrow> snapshot_manager \<Rightarrow> stream_id \<Rightarrow> snapshot_error + (snapshot_manager \<times> snapshot_entry)" where
  "submit m now s sid =
     (if \<not> sc_enabled (sn_config s) then Inl Snapshot_disabled
      else if trim sid = [] then Inl Snapshot_no_id
      else if get_stream m sid = None then Inl Snapshot_no_stream
      else let e = pending_entry sid now
        in Inr (s\<lparr>sn_index := snapshot_upsert (sn_index s) e\<rparr>, e))"

section \<open>The job\<close>

definition latest_snapshot_frame :: "stream_manager \<Rightarrow> stream_id \<Rightarrow> media_frame option" where
  "latest_snapshot_frame m sid =
     (case Option.bind (get_hub m sid) hub_latest_idr_frame of
        None \<Rightarrow> None
      | Some f \<Rightarrow>
          if mf_codec f \<noteq> H264 then Some f
          else if is_playable_video_frame f \<and> is_idr_frame f then Some f
          else None)"

text \<open>One registry for each look of the loop before the deadline.\<close>

fun wait_idr_loop :: "stream_manager list \<Rightarrow> stream_id \<Rightarrow> snapshot_error + media_frame" where
  "wait_idr_loop [] sid = Inl No_keyframe"
| "wait_idr_loop (m # ms) sid =
     (case latest_snapshot_frame m sid of Some f \<Rightarrow> Inr f | None \<Rightarrow> wait_idr_loop ms sid)"

definition wait_latest_idr :: "stream_manager \<Rightarrow> stream_manager list \<Rightarrow> stream_id \<Rightarrow> snapshot_error + media_frame" where
  "wait_latest_idr m looks sid =
     (case latest_snapshot_frame m sid of Some f \<Rightarrow> Inr f | None \<Rightarrow> wait_idr_loop looks sid)"

definition prepare_h264_snapshot_frame :: "stream_manager \<Rightarrow> stream_id \<Rightarrow> media_frame \<Rightarrow> media_frame" where
  "prepare_h264_snapshot_frame m sid f =
     (let prepared = with_optional_clock_rate
            (media_frame_new (mf_stream_id f) (mf_track_id f) (mf_timestamp f) (prepend_h264_config m sid f)
              (mf_is_keyframe f) (mf_codec f)) (mf_clock_rate f)
      in case mf_rtp_data f of Some r \<Rightarrow> with_rtp_data prepared r | None \<Rightarrow> prepared)"

text \<open>
  What a job meets outside: its clock, whether the directory and the file can be made, \<open>ffmpeg\<close>
  (\<open>None\<close>: it cannot be run; else its success and its standard error, trimmed) and the size of the image.
\<close>

record snapshot_io =
  so_now :: nat
  so_done_now :: nat
  so_create_ok :: bool
  so_write_ok :: bool
  so_ffmpeg :: "(bool \<times> string) option"
  so_image_size :: nat

datatype snapshot_effect =
    Wanted_keyframe stream_id
  | Create_dir string
  | Write_file string bytes
  | Run_command string "string list"
  | Remove_file string

definition ffmpeg_args :: "string \<Rightarrow> string \<Rightarrow> string list" where
  "ffmpeg_args input out =
     [''-hide_banner'', ''-loglevel'', ''error'', ''-y'', ''-f'', ''h264'', ''-i'', input,
      ''-frames:v'', ''1'', ''-q:v'', ''2'', out]"

definition snapshot_dir :: "(nat \<Rightarrow> string) \<Rightarrow> snapshot_config \<Rightarrow> stream_id \<Rightarrow> nat \<Rightarrow> string" where
  "snapshot_dir date config sid now =
     path_join (path_join (sc_base_dir config) (sanitize_path_component sid)) (date now)"

text \<open>
  \<open>capture_job\<close> after the change of status: the timestamp, path and size of the image; without a frame a keyframe is asked for. \<open>m\<close> and \<open>looks\<close> are
  the registries the waiting looks at, \<open>m'\<close> is the one after it.
\<close>

definition capture_job ::
    "(nat \<Rightarrow> string) \<Rightarrow> stream_manager \<Rightarrow> stream_manager list \<Rightarrow> stream_manager \<Rightarrow> snapshot_io \<Rightarrow> snapshot_config \<Rightarrow>
     string \<Rightarrow> stream_id \<Rightarrow> (snapshot_error + nat \<times> string \<times> nat) \<times> snapshot_effect list" where
  "capture_job date m looks m' io config key sid =
     (let e0 = (if latest_snapshot_frame m sid = None then [Wanted_keyframe sid] else [])
      in case wait_latest_idr m looks sid of
        Inl e \<Rightarrow> (Inl e, e0)
      | Inr f \<Rightarrow>
          if mf_codec f \<noteq> H264 then (Inl Unsupported_codec, e0)
          else
            let prepared = prepare_h264_snapshot_frame m' sid f;
                dir = snapshot_dir date config sid (so_now io);
                h264_path = path_join dir (key @ ''.h264'');
                image_path = path_join dir (key @ ''.jpg'');
                e1 = e0 @ [Create_dir dir]; e2 = e1 @ [Write_file h264_path (mf_data prepared)];
                e3 = e2 @ [Run_command (sc_ffmpeg_path config) (ffmpeg_args h264_path image_path)];
                e4 = e3 @ [Remove_file h264_path]
            in if \<not> so_create_ok io then (Inl (Io_context (''create '' @ dir)), e1)
               else if \<not> so_write_ok io then (Inl (Io_context (''write '' @ h264_path)), e2)
               else case so_ffmpeg io of
                 None \<Rightarrow> (Inl (Io_context (''run '' @ sc_ffmpeg_path config)), e3)
               | Some (ok, err) \<Rightarrow>
                   if \<not> ok then (Inl (Ffmpeg_failed err), e4)
                   else if so_image_size io = 0 then (Inl Empty_image, e4)
                   else (Inr (mf_timestamp prepared, image_path, so_image_size io), e4))"

text \<open>The end of the task that \<open>submit\<close> spawns.\<close>

definition settle ::
    "nat \<Rightarrow> string \<Rightarrow> snapshot_error + nat \<times> string \<times> nat \<Rightarrow> snapshot_entry list \<Rightarrow> snapshot_entry list" where
  "settle now key result es =
     (case result of
        Inr (ts, path, n) \<Rightarrow> mark_completed now key ts path n es
      | Inl e \<Rightarrow> mark_failed now key (snapshot_error_text e) es)"

section \<open>Runs\<close>

text \<open>
  Requests, beginnings and ends of jobs in any order. A job ends with what \<open>capture_job\<close> made of the
  registries and answers it met.
\<close>

record snapshot_run =
  sv_first :: stream_manager
  sv_looks :: "stream_manager list"
  sv_after :: stream_manager
  sv_io :: snapshot_io

datatype snapshot_event =
    Request stream_manager nat stream_id
  | Job_begins string
  | Job_ends string stream_id snapshot_run

fun snapshot_act :: "(nat \<Rightarrow> string) \<Rightarrow> snapshot_event \<Rightarrow> snapshot_manager \<Rightarrow> snapshot_manager" where
  "snapshot_act date (Request m now sid) s = (case submit m now s sid of Inl _ \<Rightarrow> s | Inr (s', _) \<Rightarrow> s')"
| "snapshot_act date (Job_begins key) s = s\<lparr>sn_index := update_status key ''running'' (sn_index s)\<rparr>"
| "snapshot_act date (Job_ends key sid run) s =
     s\<lparr>sn_index := settle (so_done_now (sv_io run)) key
         (fst (capture_job date (sv_first run) (sv_looks run) (sv_after run) (sv_io run) (sn_config s) key sid))
         (sn_index s)\<rparr>"

definition snap_entry_ok :: "snapshot_entry \<Rightarrow> bool" where
  "snap_entry_ok e \<longleftrightarrow> se_status e \<in> {''pending'', ''running'', ''completed'', ''failed''} \<and>
     (se_status e = ''completed'' \<longrightarrow> se_path e \<noteq> None \<and> 0 < se_bytes e \<and> se_completed_at_ms e \<noteq> None \<and>
        se_source_timestamp e \<noteq> None \<and> se_url e = Some (''/api/snapshots/'' @ se_id e @ ''.jpg'') \<and> se_error e = None) \<and>
     (se_status e = ''failed'' \<longrightarrow> se_error e \<noteq> None \<and> se_completed_at_ms e \<noteq> None)"

definition snap_index_ok :: "snapshot_entry list \<Rightarrow> bool" where
  "snap_index_ok es \<longleftrightarrow> distinct (List.map se_id es) \<and> (\<forall>e\<in>set es. snap_entry_ok e)"

lemma on_entry_ids [simp]:
  "(\<And>e. se_id (f e) = se_id e) \<Longrightarrow> List.map se_id (on_entry f key es) = List.map se_id es"
  by (induction es) simp_all

lemma on_entry_ok:
  assumes "\<And>e. se_id (f e) = se_id e" and "\<And>e. snap_entry_ok e \<Longrightarrow> se_id e = key \<Longrightarrow> snap_entry_ok (f e)" and "snap_index_ok es"
  shows "snap_index_ok (on_entry f key es)"
proof -
  have "\<forall>e\<in>set es. snap_entry_ok e \<Longrightarrow> \<forall>e\<in>set (on_entry f key es). snap_entry_ok e"
    using assms(2) by (induction es) auto
  with assms(1,3) show ?thesis by (simp add: snap_index_ok_def)
qed

lemma upsert_ids: "set (List.map se_id (snapshot_upsert es e)) = insert (se_id e) (se_id ` set es)"
  by (induction es) auto

lemma upsert_ok: "snap_index_ok es \<Longrightarrow> snap_entry_ok e \<Longrightarrow> snap_index_ok (snapshot_upsert es e)"
proof (induction es)
  case (Cons x xs)
  then show ?case using upsert_ids [of xs e] by (auto simp: snap_index_ok_def)
qed (simp add: snap_index_ok_def)

lemma find_id: "se_id e = key \<Longrightarrow> e \<in> set es \<Longrightarrow> \<exists>e'. find (\<lambda>e. se_id e = key) es = Some e' \<and> se_id e' = key"
  by (induction es) auto

lemma find_on_entry:
  assumes "\<And>e. se_id (f e) = se_id e"
  shows "find (\<lambda>e. se_id e = key) (on_entry f key es) = map_option f (find (\<lambda>e. se_id e = key) es)"
  using assms by (induction es) simp_all

lemma capture_job_size: "fst (capture_job date m looks m' io config key sid) = Inr (ts, path, n) \<Longrightarrow> 0 < n"
  by (auto simp: capture_job_def Let_def split: sum.splits if_splits option.splits prod.splits)

lemma settle_ok:
  assumes "snap_index_ok es" and "\<And>ts path n. result = Inr (ts, path, n) \<Longrightarrow> 0 < n"
  shows "snap_index_ok (settle now key result es)"
proof (cases result)
  case (Inl e)
  then show ?thesis unfolding settle_def mark_failed_def
    using assms(1) by (auto intro!: on_entry_ok simp: snap_entry_ok_def)
next
  case (Inr r)
  obtain ts path n where "r = (ts, path, n)" by (metis prod.exhaust)
  with Inr assms show ?thesis unfolding settle_def mark_completed_def
    by (auto intro!: on_entry_ok simp: snap_entry_ok_def)
qed

lemma act_ok: "snap_index_ok (sn_index s) \<Longrightarrow> snap_index_ok (sn_index (snapshot_act date ev s))"
proof (cases ev)
  case (Request m now sid)
  assume "snap_index_ok (sn_index s)"
  moreover have "snap_entry_ok (pending_entry sid now)" by (simp add: snap_entry_ok_def pending_entry_def)
  ultimately show ?thesis using Request
    by (auto simp: submit_def Let_def intro: upsert_ok split: sum.splits if_splits)
next
  case (Job_begins key)
  assume "snap_index_ok (sn_index s)"
  then show ?thesis using Job_begins
    by (auto simp: update_status_def snap_entry_ok_def intro!: on_entry_ok)
next
  case (Job_ends key sid run)
  assume "snap_index_ok (sn_index s)"
  then show ?thesis using Job_ends settle_ok capture_job_size by (auto intro!: settle_ok capture_job_size)
qed

section \<open>Properties\<close>

text \<open>
  C38. The index is well-formed after any requests and jobs in any order: ids are distinct, every entry is
  pending, running, completed or failed, a completed one has an image that is not empty, its time
  and the URL under which it is served, a failed one says why.
\<close>

theorem snapshot_index_wellformed:
  "snap_index_ok (sn_index (fold (snapshot_act date) events (snapshot_manager_new config)))"
proof -
  have "snap_index_ok (sn_index s) \<Longrightarrow> snap_index_ok (sn_index (fold (snapshot_act date) events s))" for s
    using act_ok by (induction events arbitrary: s) simp_all
  moreover have "snap_index_ok (sn_index (snapshot_manager_new config))"
    by (simp add: snapshot_manager_new_def snap_index_ok_def)
  ultimately show ?thesis .
qed

lemma update_status_ids [simp]: "List.map se_id (update_status key st es) = List.map se_id es"
  by (simp add: update_status_def)

lemma settle_ids [simp]: "List.map se_id (settle now key r es) = List.map se_id es"
  by (auto simp: settle_def mark_failed_def mark_completed_def split: sum.split prod.split)

lemma act_keeps_ids:
  "se_id ` set (sn_index s) \<subseteq> se_id ` set (sn_index (snapshot_act date ev s))"
proof (cases ev)
  case (Request m now sid)
  then show ?thesis using upsert_ids [of "sn_index s" "pending_entry sid now"]
    by (auto simp: submit_def Let_def split: sum.splits if_splits)
next
  case (Job_begins key)
  have "se_id ` set (update_status key ''running'' (sn_index s)) = se_id ` set (sn_index s)"
    by (metis set_map update_status_ids)
  then show ?thesis using Job_begins by simp
next
  case (Job_ends key sid run)
  have "se_id ` set (settle now key r es) = se_id ` set es" for now r es by (metis set_map settle_ids)
  then show ?thesis using Job_ends by simp
qed

lemma run_keeps_ids: "se_id ` set (sn_index s) \<subseteq> se_id ` set (sn_index (fold (snapshot_act date) events s))"
proof (induction events arbitrary: s)
  case (Cons ev events)
  from act_keeps_ids [of s date ev] Cons.IH [of "snapshot_act date ev s"] show ?case by simp
qed simp

text \<open>
  Every accepted request is settled: whatever happens in between, when the job of the entry ends the
  entry is completed or failed, and it can still be asked for under the key that the request returned.
\<close>

theorem snapshot_requests_are_settled:
  assumes "submit m now s sid = Inr (s1, e)" and "s2 = fold (snapshot_act date) events s1"
  shows "\<exists>e'. snapshot_get (snapshot_act date (Job_ends (se_id e) sid run) s2) (se_id e) = Some e' \<and>
     se_id e' = se_id e \<and> se_status e' \<in> {''completed'', ''failed''}"
proof -
  have "se_id e \<in> se_id ` set (sn_index s1)"
    using assms(1) upsert_ids [of "sn_index s" e] by (auto simp: submit_def Let_def split: if_splits)
  then have "se_id e \<in> se_id ` set (sn_index s2)" using run_keeps_ids [of s1 date events] assms(2) by blast
  then obtain e1 where "e1 \<in> set (sn_index s2)" "se_id e1 = se_id e" by auto
  from find_id [OF this(2,1)] obtain e2 where
    "find (\<lambda>x. se_id x = se_id e) (sn_index s2) = Some e2" "se_id e2 = se_id e" by blast
  then show ?thesis
    by (auto simp: snapshot_get_def settle_def mark_failed_def mark_completed_def find_on_entry
        split: sum.split prod.split)
qed

definition demo_snapshots :: snapshot_manager where
  "demo_snapshots = snapshot_manager_new (snapshot_config_default\<lparr>sc_enabled := True\<rparr>)"

definition demo_live :: stream_manager where
  "demo_live = fst (create_stream manager_new ''s1'' stream_source_mode.Push RTMP None)"

lemma demo_live_stream: "get_stream demo_live ''s1'' \<noteq> None"
  by (simp add: demo_live_def create_stream_def get_stream_def Let_def)

lemma demo_submit:
  "submit demo_live 5 demo_snapshots ''s1'' =
     Inr (demo_snapshots\<lparr>sn_index := [pending_entry ''s1'' 5]\<rparr>, pending_entry ''s1'' 5)"
proof -
  have "trim ''s1'' \<noteq> []" by (simp add: trim_def trim_start_def trim_end_def is_space_def)
  then show ?thesis
    using demo_live_stream by (simp add: submit_def demo_snapshots_def snapshot_manager_new_def Let_def)
qed

theorem snapshot_requests_are_settled_witness:
  "\<exists>e'. snapshot_get (snapshot_act (\<lambda>_. ''d'') (Job_ends (se_id (pending_entry ''s1'' 5)) ''s1'' run)
       (snapshot_act (\<lambda>_. ''d'') (Job_begins ''x'') (demo_snapshots\<lparr>sn_index := [pending_entry ''s1'' 5]\<rparr>)))
       (se_id (pending_entry ''s1'' 5)) = Some e' \<and> se_status e' \<in> {''completed'', ''failed''}"
  using snapshot_requests_are_settled [OF demo_submit, of _ "\<lambda>_. ''d''" "[Job_begins ''x'']" run] by auto

lemma wait_idr_loop_frame:
  "wait_idr_loop looks sid = Inr f \<Longrightarrow> \<exists>m\<in>set looks. latest_snapshot_frame m sid = Some f"
  by (induction looks) (auto split: option.splits)

lemma wait_latest_idr_frame:
  "wait_latest_idr m looks sid = Inr f \<Longrightarrow> \<exists>m'\<in>set (m # looks). latest_snapshot_frame m' sid = Some f"
  by (auto simp: wait_latest_idr_def split: option.splits dest: wait_idr_loop_frame)

text \<open>
  C39. An image is made from a frame that can be decoded: a job that succeeds took a playable IDR from the
  ring, wrote it behind the stream's parameter sets to a file, let \<open>ffmpeg\<close> read exactly this file and
  removed it, and reports the frame's timestamp and an image that is not empty.
\<close>

theorem snapshot_image_is_decodable:
  assumes "capture_job date m looks m' io config key sid = (Inr (ts, path, n), effs)"
  shows "\<exists>f m'' h264_path. m'' \<in> set (m # looks) \<and> latest_snapshot_frame m'' sid = Some f \<and> mf_codec f = H264 \<and>
     is_playable_video_frame f \<and> is_idr_frame f \<and> ts = mf_timestamp f \<and> 0 < n \<and>
     path = path_join (snapshot_dir date config sid (so_now io)) (key @ ''.jpg'') \<and>
     effs = (if latest_snapshot_frame m sid = None then [Wanted_keyframe sid] else []) @
            [Create_dir (snapshot_dir date config sid (so_now io)),
             Write_file h264_path (prepend_h264_config m' sid f),
             Run_command (sc_ffmpeg_path config) (ffmpeg_args h264_path path), Remove_file h264_path]"
proof -
  from assms obtain f where w: "wait_latest_idr m looks sid = Inr f"
    by (cases "wait_latest_idr m looks sid") (simp_all add: capture_job_def Let_def)
  then obtain m'' where m'': "m'' \<in> set (m # looks)" "latest_snapshot_frame m'' sid = Some f"
    using wait_latest_idr_frame by blast
  from assms w have h: "mf_codec f = H264" by (auto simp: capture_job_def Let_def split: if_splits)
  with m''(2) have p: "is_playable_video_frame f" "is_idr_frame f"
    by (auto simp: latest_snapshot_frame_def split: option.splits if_splits)
  have data: "mf_data (prepare_h264_snapshot_frame m' sid f) = prepend_h264_config m' sid f"
    "mf_timestamp (prepare_h264_snapshot_frame m' sid f) = mf_timestamp f"
    by (auto simp: prepare_h264_snapshot_frame_def Let_def with_optional_clock_rate_def with_rtp_data_def
        split: option.split)
  from assms w h data have "ts = mf_timestamp f" "0 < n"
    "path = path_join (snapshot_dir date config sid (so_now io)) (key @ ''.jpg'')"
    "effs = (if latest_snapshot_frame m sid = None then [Wanted_keyframe sid] else []) @
       [Create_dir (snapshot_dir date config sid (so_now io)),
       Write_file (path_join (snapshot_dir date config sid (so_now io)) (key @ ''.h264'')) (prepend_h264_config m' sid f),
       Run_command (sc_ffmpeg_path config)
         (ffmpeg_args (path_join (snapshot_dir date config sid (so_now io)) (key @ ''.h264'')) path),
       Remove_file (path_join (snapshot_dir date config sid (so_now io)) (key @ ''.h264''))]"
    by (auto simp: capture_job_def Let_def split: if_splits option.splits prod.splits)
  with m'' h p show ?thesis by blast
qed

definition demo_hubs :: stream_manager where
  "demo_hubs = manager_new\<lparr>mgr_hubs := [(''s1'', demo_hub [idr_frame])]\<rparr>"

lemma demo_hubs_frame: "latest_snapshot_frame demo_hubs ''s1'' = Some idr_frame"
proof -
  have "is_video_keyframe idr_frame" by (simp add: is_video_keyframe_def idr_frame_def)
  then have "hub_latest_idr_seq (demo_hub [idr_frame]) = Some 0"
    by (simp add: hub_latest_idr_seq_def latest_idr_seq_def demo_hub_def gop_seqs_def)
  then have "hub_latest_idr_frame (demo_hub [idr_frame]) = Some idr_frame"
    by (simp add: hub_latest_idr_frame_def hub_latest_idr_seq_def latest_idr_frame_def ring_get_def)
      (simp add: cached_form_def idr_frame_def)
  moreover have "mf_codec idr_frame = H264" by (simp add: idr_frame_def)
  ultimately show ?thesis
    using idr_frame_playable by (simp add: latest_snapshot_frame_def demo_hubs_def get_hub_def)
qed

definition demo_snapshot_io :: snapshot_io where
  "demo_snapshot_io = \<lparr>so_now = 7, so_done_now = 9, so_create_ok = True, so_write_ok = True,
     so_ffmpeg = Some (True, []), so_image_size = 100\<rparr>"

theorem snapshot_image_is_decodable_witness:
  "\<exists>path effs. capture_job (\<lambda>_. ''d'') demo_hubs [] demo_hubs demo_snapshot_io snapshot_config_default ''k'' ''s1'' =
       (Inr (10, path, 100), effs) \<and>
     (\<exists>p. Write_file p (prepend_h264_config demo_hubs ''s1'' idr_frame) \<in> set effs)"
proof -
  have "mf_codec idr_frame = H264" "mf_timestamp idr_frame = 10" by (simp_all add: idr_frame_def)
  then obtain path effs where c: "capture_job (\<lambda>_. ''d'') demo_hubs [] demo_hubs demo_snapshot_io
      snapshot_config_default ''k'' ''s1'' = (Inr (10, path, 100), effs)"
    using demo_hubs_frame
    by (simp add: capture_job_def wait_latest_idr_def demo_snapshot_io_def Let_def prepare_h264_snapshot_frame_def
        with_optional_clock_rate_def with_rtp_data_def split: option.split)
  from snapshot_image_is_decodable [OF c] demo_hubs_frame
  have "\<exists>p. Write_file p (prepend_h264_config demo_hubs ''s1'' idr_frame) \<in> set effs" by auto
  with c show ?thesis by blast
qed

text \<open>
  The directory is made safe from the name of the stream, the name of the file is not: with a slash in
  the name the files belong into a directory that the job does not create.
\<close>

theorem snapshot_of_slash_name_leaves_directory:
  assumes "plain_name a" and "plain_name b" and "sc_base_dir config \<noteq> []"
  shows "butlast (locate cwd (path_join (snapshot_dir date config sid now)
       (se_id (pending_entry (a @ ''/'' @ b) t) @ ''.h264''))) =
     locate cwd (snapshot_dir date config sid now) @ [''snap_'' @ a]"
proof -
  let ?dir = "snapshot_dir date config sid now" and ?b = "b @ ''_'' @ dec_str t @ ''.h264''"
  have dir: "?dir \<noteq> []" using assms(3) by (simp add: snapshot_dir_def path_join_nonempty)
  have a: "plain_name (''snap_'' @ a)" using assms(1) by (simp add: plain_name_def)
  have b: "plain_name ?b" using assms(2) by (auto simp: plain_name_def Cons_eq_append_conv)
  have "path_join ?dir (se_id (pending_entry (a @ ''/'' @ b) t) @ ''.h264'') = path_join (path_join ?dir (''snap_'' @ a)) ?b"
    using join_two_names [OF a b dir] by (simp add: pending_entry_def)
  then show ?thesis
    using locate_join [OF b path_join_nonempty [OF dir]] locate_join [OF a dir] by (simp add: butlast_append)
qed

theorem snapshot_of_slash_name_leaves_directory_witness:
  "butlast (locate [] (path_join (snapshot_dir (\<lambda>_. ''d'') snapshot_config_default ''a/b'' 0)
       (se_id (pending_entry (''a'' @ ''/'' @ ''b'') 5) @ ''.h264''))) =
     locate [] (snapshot_dir (\<lambda>_. ''d'') snapshot_config_default ''a/b'' 0) @ [''snap_a'']"
  using snapshot_of_slash_name_leaves_directory [of "''a''" "''b''" snapshot_config_default "[]" "\<lambda>_. ''d''" "''a/b''" 0 5]
  by (simp add: plain_name_def snapshot_config_default_def)

text \<open>Two requests for a stream within a millisecond share an id: the second answers for both.\<close>

theorem same_millisecond_snapshots_collide:
  assumes "submit m now s sid = Inr (s1, e1)" and "submit m' now s1 sid = Inr (s2, e2)"
  shows "e2 = e1 \<and> length (sn_index s2) = length (sn_index s1)"
proof -
  have len: "se_id e \<in> se_id ` set es \<Longrightarrow> length (snapshot_upsert es e) = length es" for es e
    by (induction es) auto
  have "se_id e1 \<in> se_id ` set (sn_index s1)"
    using assms(1) upsert_ids [of "sn_index s" e1] by (auto simp: submit_def Let_def split: if_splits)
  moreover have "e2 = e1" using assms by (auto simp: submit_def Let_def split: if_splits)
  moreover from this have "sn_index s2 = snapshot_upsert (sn_index s1) e1"
    using assms(2) by (auto simp: submit_def Let_def split: if_splits)
  ultimately show ?thesis using len by simp
qed

end
