(* ===== verification/Json.thy ===== *)
theory Json
  imports Text_Lines
begin

text \<open>
  JSON as the program builds and reads it: the values of \<open>serde_json\<close>, of which printing and parsing are
  parameters, and what the code does with a value. Numbers are unsigned 64 bit integers or \<open>f64\<close> values,
  of a type that is left open.
\<close>

datatype 'f json =
    JNull
  | JBool bool
  | JNat nat
  | JFloat 'f
  | JString string
  | JArray "'f json list"
  | JObject "(string \<times> 'f json) list"

record 'f json_libs =
  jl_to_string :: "'f json \<Rightarrow> string"
  jl_from_str :: "string \<Rightarrow> 'f json option"

text \<open>\<open>value.get(key)\<close> and \<open>as_str\<close>; other values have no members.\<close>

definition json_get :: "'f json \<Rightarrow> string \<Rightarrow> 'f json option" where
  "json_get v key = (case v of JObject members \<Rightarrow> map_of members key | _ \<Rightarrow> None)"

definition json_as_str :: "'f json \<Rightarrow> string option" where
  "json_as_str v = (case v of JString s \<Rightarrow> Some s | _ \<Rightarrow> None)"

definition json_str :: "'f json \<Rightarrow> string \<Rightarrow> string option" where
  "json_str v key = Option.bind (json_get v key) json_as_str"

text \<open>How \<open>Serialize\<close> writes an optional value.\<close>

definition json_opt :: "('a \<Rightarrow> 'f json) \<Rightarrow> 'a option \<Rightarrow> 'f json" where
  "json_opt f x = (case x of None \<Rightarrow> JNull | Some a \<Rightarrow> f a)"

lemma json_get_simps [simp]:
  "json_get (JObject members) key = map_of members key" "json_as_str (JString s) = Some s"
  by (simp_all add: json_get_def json_as_str_def)

end
