(* ===== verification/Analysis.thy ===== *)
theory Analysis
  imports Live_Play Timestamp Paths Json "HOL-Library.AList"
begin

text \<open>
  Stream analysis, \<open>src/src/process/analysis/mod.rs\<close>: the manager of the sessions, the task that reads a
  stream and runs its plugins, the metrics and the detection of faces by external commands. Readings
  of the clock and answers of files and commands are arguments (\<open>frame_env\<close>). Floating point is of an
  open type \<open>'f\<close> with the operations of \<open>rate_ops\<close>; what \<open>serde_json\<close> reads is an argument. Counters of
  64 bits wrap.
\<close>

section \<open>Data\<close>

record 'f rate_ops =
  ro_of_u64 :: "nat \<Rightarrow> 'f"
  ro_mul :: "'f \<Rightarrow> 'f \<Rightarrow> 'f"
  ro_div :: "'f \<Rightarrow> 'f \<Rightarrow> 'f"

record analysis_config =
  ac_enabled :: bool
  ac_default_sample_interval :: nat
  ac_max_events_per_stream :: nat
  ac_ffmpeg_path :: string
  ac_face_detection_dir :: string
  ac_face_detection_interval :: nat
  ac_face_detector_command :: "string option"

definition MAX_EVENTS_PER_STREAM :: nat where "MAX_EVENTS_PER_STREAM = 256"

definition analysis_config_default :: analysis_config where
  "analysis_config_default =
     \<lparr>ac_enabled = False, ac_default_sample_interval = 1, ac_max_events_per_stream = MAX_EVENTS_PER_STREAM,
      ac_ffmpeg_path = ''ffmpeg'', ac_face_detection_dir = ''./analysis'', ac_face_detection_interval = 1000,
      ac_face_detector_command = None\<rparr>"

record start_analysis_request =
  ar_stream_id :: stream_id
  ar_plugins :: "string list option"
  ar_sample_interval :: "nat option"

record analysis_session_info =
  ai_stream_id :: stream_id
  ai_started_at_ms :: nat
  ai_sample_interval :: nat
  ai_plugins :: "string list"

record 'f analysis_metrics =
  am_stream_id :: stream_id
  am_started_at_ms :: nat
  am_updated_at_ms :: nat
  am_total_frames :: nat
  am_video_frames :: nat
  am_audio_frames :: nat
  am_keyframes :: nat
  am_bytes :: nat
  am_bitrate_bps :: nat
  am_video_fps :: 'f
  am_audio_fps :: 'f
  am_last_gop_frames :: nat
  am_avg_gop_frames :: 'f
  am_last_video_timestamp :: "nat option"
  am_last_audio_timestamp :: "nat option"
  am_last_video_codec :: "string option"
  am_last_audio_codec :: "string option"

record 'f analysis_event =
  ae_stream_id :: stream_id
  ae_timestamp_ms :: nat
  ae_kind :: string
  ae_message :: string
  ae_frame_timestamp :: nat
  ae_data :: "'f json option"

datatype analysis_error =
    Analysis_disabled
  | Analysis_no_id
  | Analysis_no_stream
  | Analysis_already_active
  | Analysis_not_found
  | Detector_command_missing
  | Unsupported_plugin string

fun analysis_error_text :: "analysis_error \<Rightarrow> string" where
  "analysis_error_text Analysis_disabled = ''analysis is disabled''"
| "analysis_error_text Analysis_no_id = ''missing stream_id''"
| "analysis_error_text Analysis_no_stream = ''stream not found''"
| "analysis_error_text Analysis_already_active = ''analysis already active for stream''"
| "analysis_error_text Analysis_not_found = ''analysis session not found''"
| "analysis_error_text Detector_command_missing = ''face_detection plugin requires face_detector_command''"
| "analysis_error_text (Unsupported_plugin p) = ''unsupported analysis plugin: '' @ p"

definition L1_METRICS_PLUGIN :: string where "L1_METRICS_PLUGIN = ''l1_metrics''"
definition FACE_DETECTION_PLUGIN :: string where "FACE_DETECTION_PLUGIN = ''face_detection''"

fun validate_plugins :: "string list \<Rightarrow> analysis_config \<Rightarrow> analysis_error option" where
  "validate_plugins [] config = None"
| "validate_plugins (p # ps) config =
     (if p = L1_METRICS_PLUGIN then validate_plugins ps config
      else if p = FACE_DETECTION_PLUGIN then
        (if ac_face_detector_command config = None then Some Detector_command_missing
         else validate_plugins ps config)
      else Some (Unsupported_plugin p))"

section \<open>Metrics\<close>

record 'f metrics_state =
  ms_metrics :: "'f analysis_metrics"
  ms_first_video :: "media_frame option"
  ms_last_video :: "media_frame option"
  ms_last_audio :: "media_frame option"
  ms_frames_since_keyframe :: nat
  ms_gop_sum :: nat
  ms_gop_count :: nat

definition metrics_zero :: "'f rate_ops \<Rightarrow> stream_id \<Rightarrow> nat \<Rightarrow> 'f analysis_metrics" where
  "metrics_zero ops sid now =
     \<lparr>am_stream_id = sid, am_started_at_ms = now, am_updated_at_ms = now, am_total_frames = 0,
      am_video_frames = 0, am_audio_frames = 0, am_keyframes = 0, am_bytes = 0, am_bitrate_bps = 0,
      am_video_fps = ro_of_u64 ops 0, am_audio_fps = ro_of_u64 ops 0, am_last_gop_frames = 0,
      am_avg_gop_frames = ro_of_u64 ops 0, am_last_video_timestamp = None, am_last_audio_timestamp = None,
      am_last_video_codec = None, am_last_audio_codec = None\<rparr>"

definition metrics_state_new :: "'f rate_ops \<Rightarrow> stream_id \<Rightarrow> nat \<Rightarrow> 'f metrics_state" where
  "metrics_state_new ops sid now =
     \<lparr>ms_metrics = metrics_zero ops sid now, ms_first_video = None, ms_last_video = None,
      ms_last_audio = None, ms_frames_since_keyframe = 0, ms_gop_sum = 0, ms_gop_count = 0\<rparr>"

text \<open>\<open>{:?}\<close> of a codec.\<close>

fun codec_debug :: "codec_type \<Rightarrow> string" where
  "codec_debug H264 = ''H264''" | "codec_debug H265 = ''H265''" | "codec_debug AAC = ''AAC''"
| "codec_debug Opus = ''Opus''" | "codec_debug G711 = ''G711''" | "codec_debug codec_type.Unknown = ''Unknown''"

abbreviation on_metrics :: "('f analysis_metrics \<Rightarrow> 'f analysis_metrics) \<Rightarrow> 'f metrics_state \<Rightarrow> 'f metrics_state" where
  "on_metrics f s \<equiv> s\<lparr>ms_metrics := f (ms_metrics s)\<rparr>"

definition count_bytes :: "media_frame \<Rightarrow> 'f analysis_metrics \<Rightarrow> 'f analysis_metrics" where
  "count_bytes f a =
     a\<lparr>am_total_frames := wrap64 (am_total_frames a + 1), am_bytes := wrap64 (am_bytes a + length (mf_data f))\<rparr>"

definition observe_skipped :: "media_frame \<Rightarrow> 'f metrics_state \<Rightarrow> 'f metrics_state" where
  "observe_skipped f s = on_metrics (count_bytes f) s"

definition update_bitrate :: "'f analysis_metrics \<Rightarrow> 'f analysis_metrics" where
  "update_bitrate a =
     a\<lparr>am_bitrate_bps := sat_mul64 (am_bytes a) 8000 div max 1 (am_updated_at_ms a - am_started_at_ms a)\<rparr>"

text \<open>The group of pictures that a keyframe ends.\<close>

definition close_gop :: "'f rate_ops \<Rightarrow> 'f metrics_state \<Rightarrow> 'f metrics_state" where
  "close_gop ops s =
     (let n = ms_frames_since_keyframe s;
          s1 = on_metrics (\<lambda>a. a\<lparr>am_keyframes := wrap64 (am_keyframes a + 1)\<rparr>) s;
          sum = wrap64 (ms_gop_sum s + n); count = wrap64 (ms_gop_count s + 1);
          s2 = (if n > 1
                then (on_metrics (\<lambda>a. a\<lparr>am_last_gop_frames := n,
                        am_avg_gop_frames := ro_div ops (ro_of_u64 ops sum) (ro_of_u64 ops count)\<rparr>) s1)
                       \<lparr>ms_gop_sum := sum, ms_gop_count := count\<rparr>
                else s1)
      in s2\<lparr>ms_frames_since_keyframe := 0\<rparr>)"

text \<open>\<open>observe_video\<close>: the rate is that of the frames before this one, over the time between them.\<close>

definition video_rate :: "'f rate_ops \<Rightarrow> 'f metrics_state \<Rightarrow> 'f metrics_state" where
  "video_rate ops s =
     (case (ms_first_video s, ms_last_video s) of
        (Some first, Some prev) \<Rightarrow>
          let duration = max 1 (media_frame_timestamp_delta_ms first prev)
          in on_metrics (\<lambda>a. a\<lparr>am_video_fps :=
               ro_div ops (ro_mul ops (ro_of_u64 ops (am_video_frames a)) (ro_of_u64 ops 1000))
                 (ro_of_u64 ops duration)\<rparr>) s
      | _ \<Rightarrow> s)"

definition video_seen :: "'f rate_ops \<Rightarrow> media_frame \<Rightarrow> 'f metrics_state \<Rightarrow> 'f metrics_state" where
  "video_seen ops f s =
     (let s1 = on_metrics (\<lambda>a. a\<lparr>am_video_frames := wrap64 (am_video_frames a + 1),
                 am_last_video_timestamp := Some (mf_timestamp f),
                 am_last_video_codec := Some (codec_debug (mf_codec f))\<rparr>) s;
          s2 = (if ms_first_video s1 = None then s1\<lparr>ms_first_video := Some f\<rparr> else s1);
          s3 = on_metrics update_bitrate (video_rate ops s2)
      in s3\<lparr>ms_frames_since_keyframe := wrap64 (ms_frames_since_keyframe s3 + 1)\<rparr>)"

definition observe_video ::
    "'f rate_ops \<Rightarrow> nat \<Rightarrow> media_frame \<Rightarrow> 'f metrics_state \<Rightarrow> 'f metrics_state \<times> 'f analysis_event option" where
  "observe_video ops now f s =
     (let s1 = video_seen ops f s
      in if mf_is_keyframe f then
           ((close_gop ops s1)\<lparr>ms_last_video := Some f\<rparr>,
            Some \<lparr>ae_stream_id = am_stream_id (ms_metrics s), ae_timestamp_ms = now, ae_kind = ''keyframe'',
                  ae_message = ''video keyframe codec='' @ codec_debug (mf_codec f),
                  ae_frame_timestamp = mf_timestamp f, ae_data = None\<rparr>)
         else (s1\<lparr>ms_last_video := Some f\<rparr>, None))"

definition observe_audio :: "'f rate_ops \<Rightarrow> media_frame \<Rightarrow> 'f metrics_state \<Rightarrow> 'f metrics_state" where
  "observe_audio ops f s =
     (let s1 = on_metrics (\<lambda>a. a\<lparr>am_audio_frames := wrap64 (am_audio_frames a + 1),
                 am_last_audio_timestamp := Some (mf_timestamp f),
                 am_last_audio_codec := Some (codec_debug (mf_codec f))\<rparr>) s;
          s2 = (case ms_last_audio s1 of
                  Some prev \<Rightarrow>
                    let duration = max 1 (media_frame_timestamp_delta_ms prev f)
                    in on_metrics (\<lambda>a. a\<lparr>am_audio_fps := ro_div ops (ro_of_u64 ops 1000) (ro_of_u64 ops duration)\<rparr>) s1
                | None \<Rightarrow> s1)
      in on_metrics update_bitrate (s2\<lparr>ms_last_audio := Some f\<rparr>))"

text \<open>\<open>now1\<close> is the time of the update, \<open>now2\<close> the time of an event.\<close>

definition observe ::
    "'f rate_ops \<Rightarrow> nat \<Rightarrow> nat \<Rightarrow> media_frame \<Rightarrow> 'f metrics_state \<Rightarrow> 'f metrics_state \<times> 'f analysis_event option" where
  "observe ops now1 now2 f s =
     (let s1 = on_metrics (\<lambda>a. (count_bytes f a)\<lparr>am_updated_at_ms := now1\<rparr>) s
      in case mf_codec f of
           H264 \<Rightarrow> observe_video ops now2 f s1
         | H265 \<Rightarrow> observe_video ops now2 f s1
         | codec_type.Unknown \<Rightarrow> (s1, None)
         | _ \<Rightarrow> (observe_audio ops f s1, None))"

section \<open>Faces\<close>

text \<open>\<open>c.is_ascii_alphanumeric() || matches!(c, '-' | '_' | '.')\<close>; an empty name becomes \<open>stream\<close>.\<close>

definition analysis_path_component :: "string \<Rightarrow> string" where
  "analysis_path_component v =
     (let s = List.map (\<lambda>c. if is_alnum c \<or> c = CHR ''-'' \<or> c = CHR ''_'' \<or> c = CHR ''.'' then c else CHR ''_'') v
      in if s = [] then ''stream'' else s)"

definition log_snippet :: "string \<Rightarrow> string" where
  "log_snippet t =
     (let t = trim t
      in if length t \<le> 512 then t
         else take 512 t @ ''...(truncated '' @ dec_str (length t) @ '' chars)'')"

record 'f face_box =
  fb_x :: nat
  fb_y :: nat
  fb_width :: nat
  fb_height :: nat
  fb_confidence :: "'f option"

definition face_box_json :: "'f face_box \<Rightarrow> 'f json" where
  "face_box_json b =
     JObject ([(''x'', JNat (fb_x b)), (''y'', JNat (fb_y b)), (''width'', JNat (fb_width b)),
               (''height'', JNat (fb_height b))] @
              (case fb_confidence b of None \<Rightarrow> [] | Some c \<Rightarrow> [(''confidence'', JFloat c)]))"

text \<open>What \<open>serde_json\<close> makes of the output of a detector: an object with the faces, or a list.\<close>

record 'f face_parsers =
  fp_object :: "string \<Rightarrow> 'f face_box list option"
  fp_array :: "string \<Rightarrow> 'f face_box list option"

definition parse_face_detector_stdout :: "'f face_parsers \<Rightarrow> string \<Rightarrow> string + 'f face_box list" where
  "parse_face_detector_stdout ps out =
     (if out = [] then Inr []
      else case fp_object ps out of
        Some faces \<Rightarrow> Inr faces
      | None \<Rightarrow>
          (case fp_array ps out of
             Some faces \<Rightarrow> Inr faces
           | None \<Rightarrow> Inl (''parse face detector JSON stdout='' @ [CHR 0x27] @ log_snippet out @ [CHR 0x27])))"

text \<open>
  What the analysis of one frame meets outside: its clocks, files, \<open>ffmpeg\<close> and the detector (\<open>None\<close>: a
  command cannot be run; else success, standard error and output).
\<close>

record frame_env =
  fe_update_now :: nat
  fe_event_now :: nat
  fe_check_now :: nat
  fe_path_now :: nat
  fe_face_now :: nat
  fe_failed_now :: nat
  fe_create_ok :: bool
  fe_write_ok :: bool
  fe_ffmpeg :: "(bool \<times> string) option"
  fe_detector :: "(bool \<times> string \<times> string) option"

datatype analysis_effect =
    Make_dir string
  | Save_file string bytes
  | Start_command string "string list"
  | Delete_file string

text \<open>\<open>ExternalCommandVisionBackend::detect_faces\<close>\<close>

definition detect_faces ::
    "'f face_parsers \<Rightarrow> frame_env \<Rightarrow> string \<Rightarrow> string + 'f face_box list" where
  "detect_faces ps env command =
     (case fe_detector env of
        None \<Rightarrow> Inl (''run face detector '' @ command)
      | Some (ok, err, out) \<Rightarrow>
          if \<not> ok then Inl (''face detector failed: '' @ trim err)
          else parse_face_detector_stdout ps out)"

definition face_args :: "string \<Rightarrow> string \<Rightarrow> string list" where
  "face_args input out =
     [''-hide_banner'', ''-loglevel'', ''error'', ''-y'', ''-f'', ''h264'', ''-i'', input,
      ''-frames:v'', ''1'', ''-q:v'', ''2'', out]"

definition face_dir :: "analysis_config \<Rightarrow> stream_id \<Rightarrow> string" where
  "face_dir config sid = path_join (ac_face_detection_dir config) (analysis_path_component sid)"

definition face_file :: "analysis_config \<Rightarrow> stream_id \<Rightarrow> nat \<Rightarrow> string \<Rightarrow> string" where
  "face_file config sid now ext =
     path_join (face_dir config sid) (''face_'' @ analysis_path_component sid @ ''_'' @ dec_str now @ ext)"

definition write_detection_image ::
    "stream_manager \<Rightarrow> analysis_config \<Rightarrow> frame_env \<Rightarrow> stream_id \<Rightarrow> media_frame \<Rightarrow>
     (string + string) \<times> analysis_effect list" where
  "write_detection_image m config env sid f =
     (let dir = face_dir config sid;
          h264_path = face_file config sid (fe_path_now env) ''.h264'';
          image_path = face_file config sid (fe_path_now env) ''.jpg'';
          e1 = [Make_dir dir]; e2 = e1 @ [Save_file h264_path (prepend_h264_config m sid f)];
          e3 = e2 @ [Start_command (ac_ffmpeg_path config) (face_args h264_path image_path)];
          e4 = e3 @ [Delete_file h264_path]
      in if \<not> fe_create_ok env then (Inl (''create '' @ dir), e1)
         else if \<not> fe_write_ok env then (Inl (''write '' @ h264_path), e2)
         else case fe_ffmpeg env of
           None \<Rightarrow> (Inl (''run '' @ ac_ffmpeg_path config), e3)
         | Some (ok, err) \<Rightarrow>
             if \<not> ok then (Inl (''ffmpeg face frame extract failed: '' @ trim err), e4)
             else (Inr image_path, e4))"

text \<open>\<open>FaceDetector::should_detect\<close>; the state is \<open>last_run_ms\<close>.\<close>

definition should_detect :: "nat \<Rightarrow> nat \<Rightarrow> nat option \<Rightarrow> media_frame \<Rightarrow> nat option \<times> bool" where
  "should_detect min_interval now last_run f =
     (if mf_codec f \<noteq> H264 \<or> \<not> mf_is_keyframe f then (last_run, False)
      else case last_run of
        Some t \<Rightarrow> if now - t < min_interval then (last_run, False) else (Some now, True)
      | None \<Rightarrow> (Some now, True))"

definition detect ::
    "'f face_parsers \<Rightarrow> stream_manager \<Rightarrow> analysis_config \<Rightarrow> string \<Rightarrow> frame_env \<Rightarrow> stream_id \<Rightarrow> media_frame \<Rightarrow>
     (string + 'f analysis_event option) \<times> analysis_effect list" where
  "detect ps m config command env sid f =
     (case write_detection_image m config env sid f of
        (Inl e, effs) \<Rightarrow> (Inl e, effs)
      | (Inr image_path, effs) \<Rightarrow>
          let effs' = effs @ [Start_command command [image_path], Delete_file image_path]
          in case detect_faces ps env command of
               Inl e \<Rightarrow> (Inl e, effs')
             | Inr faces \<Rightarrow>
                 if faces = [] then (Inr None, effs')
                 else (Inr (Some
                   \<lparr>ae_stream_id = sid, ae_timestamp_ms = fe_face_now env, ae_kind = ''face_detected'',
                    ae_message = ''detected '' @ dec_str (length faces) @ '' face(s)'',
                    ae_frame_timestamp = mf_timestamp f,
                    ae_data = Some (JObject [(''face_count'', JNat (length faces)),
                      (''faces'', JArray (List.map face_box_json faces))])\<rparr>), effs'))"

section \<open>Plugins\<close>

text \<open>\<open>L1MetricsPlugin\<close> with its interval, \<open>FaceDetectionPlugin\<close> with its command and last run.\<close>

datatype 'f analysis_plugin =
    L1_plugin "'f metrics_state" nat
  | Face_plugin string "nat option"

fun plugin_name :: "'f analysis_plugin \<Rightarrow> string" where
  "plugin_name (L1_plugin s k) = L1_METRICS_PLUGIN"
| "plugin_name (Face_plugin c t) = FACE_DETECTION_PLUGIN"

fun process_unsampled_frames :: "'f analysis_plugin \<Rightarrow> bool" where
  "process_unsampled_frames (L1_plugin s k) = True"
| "process_unsampled_frames (Face_plugin c t) = False"

fun failure_event_kind :: "'f analysis_plugin \<Rightarrow> string" where
  "failure_event_kind (L1_plugin s k) = ''analysis_plugin_failed''"
| "failure_event_kind (Face_plugin c t) = ''face_detection_failed''"

type_synonym 'f plugin_output = "'f analysis_metrics option \<times> 'f analysis_event list"

definition l1_process ::
    "'f rate_ops \<Rightarrow> frame_env \<Rightarrow> media_frame \<Rightarrow> 'f metrics_state \<Rightarrow> nat \<Rightarrow> 'f metrics_state \<times> 'f analysis_event list" where
  "l1_process ops env f s k =
     (if am_total_frames (ms_metrics s) mod k \<noteq> 0 then (observe_skipped f s, [])
      else case observe ops (fe_update_now env) (fe_event_now env) f s of
        (s', None) \<Rightarrow> (s', []) | (s', Some ev) \<Rightarrow> (s', [ev]))"

fun process_frame ::
    "'f rate_ops \<Rightarrow> 'f face_parsers \<Rightarrow> stream_manager \<Rightarrow> analysis_config \<Rightarrow> stream_id \<Rightarrow> frame_env \<Rightarrow> media_frame \<Rightarrow>
     'f analysis_plugin \<Rightarrow> 'f analysis_plugin \<times> (string + 'f plugin_output) \<times> analysis_effect list" where
  "process_frame ops ps m config sid env f (L1_plugin s k) =
     (case l1_process ops env f s k of
        (s', evs) \<Rightarrow> (L1_plugin s' k, Inr (Some (ms_metrics s'), evs), []))"
| "process_frame ops ps m config sid env f (Face_plugin command t) =
     (case should_detect (ac_face_detection_interval config) (fe_check_now env) t f of
        (t', False) \<Rightarrow> (Face_plugin command t', Inr (None, []), [])
      | (t', True) \<Rightarrow>
          (case detect ps m config command env sid f of
             (Inl e, effs) \<Rightarrow> (Face_plugin command t', Inl e, effs)
           | (Inr None, effs) \<Rightarrow> (Face_plugin command t', Inr (None, []), effs)
           | (Inr (Some ev), effs) \<Rightarrow> (Face_plugin command t', Inr (None, [ev]), effs)))"

fun build_plugins_for :: "analysis_config \<Rightarrow> string list \<Rightarrow> analysis_error + 'f analysis_plugin list" where
  "build_plugins_for config [] = Inr []"
| "build_plugins_for config (p # ps) =
     (if p = L1_METRICS_PLUGIN then build_plugins_for config ps
      else if p = FACE_DETECTION_PLUGIN then
        (case ac_face_detector_command config of
           None \<Rightarrow> Inl Detector_command_missing
         | Some c \<Rightarrow>
             (case build_plugins_for config ps of Inl e \<Rightarrow> Inl e | Inr qs \<Rightarrow> Inr (Face_plugin c None # qs)))
      else Inl (Unsupported_plugin p))"

definition build_plugins ::
    "'f rate_ops \<Rightarrow> analysis_config \<Rightarrow> analysis_session_info \<Rightarrow> analysis_error + 'f analysis_plugin list" where
  "build_plugins ops config info =
     (case build_plugins_for config (ai_plugins info) of
        Inl e \<Rightarrow> Inl e
      | Inr qs \<Rightarrow>
          Inr (L1_plugin (metrics_state_new ops (ai_stream_id info) (ai_started_at_ms info))
                 (max 1 (ai_sample_interval info)) # qs))"

section \<open>The task\<close>

text \<open>What the tasks share with the manager.\<close>

record 'f analysis_store =
  as_metrics :: "stream_id \<rightharpoonup> 'f analysis_metrics"
  as_events :: "stream_id \<rightharpoonup> 'f analysis_event list"

text \<open>\<open>push_event\<close> makes room first: the loop pops the front, of an empty queue nothing.\<close>

partial_function (option) make_room :: "nat \<Rightarrow> 'a list \<Rightarrow> 'a list option" where
  "make_room max_events q = (if length q \<ge> max_events then make_room max_events (tl q) else Some q)"

declare make_room.simps [code]

definition push_event ::
    "nat \<Rightarrow> stream_id \<Rightarrow> 'f analysis_event \<Rightarrow> 'f analysis_store \<Rightarrow> 'f analysis_store option" where
  "push_event max_events sid ev st =
     (case make_room max_events (case as_events st sid of None \<Rightarrow> [] | Some q \<Rightarrow> q) of
        None \<Rightarrow> None
      | Some q \<Rightarrow> Some (st\<lparr>as_events := (as_events st)(sid \<mapsto> q @ [ev])\<rparr>))"

fun push_events ::
    "nat \<Rightarrow> stream_id \<Rightarrow> 'f analysis_event list \<Rightarrow> 'f analysis_store \<Rightarrow> 'f analysis_store option" where
  "push_events max_events sid [] st = Some st"
| "push_events max_events sid (ev # evs) st =
     (case push_event max_events sid ev st of None \<Rightarrow> None | Some st' \<Rightarrow> push_events max_events sid evs st')"

definition failure_event :: "nat \<Rightarrow> stream_id \<Rightarrow> 'f analysis_plugin \<Rightarrow> string \<Rightarrow> media_frame \<Rightarrow> 'f analysis_event" where
  "failure_event now sid p err f =
     \<lparr>ae_stream_id = sid, ae_timestamp_ms = now, ae_kind = failure_event_kind p, ae_message = err,
      ae_frame_timestamp = mf_timestamp f, ae_data = Some (JObject [(''plugin'', JString (plugin_name p))])\<rparr>"

definition resync_event :: "nat \<Rightarrow> stream_id \<Rightarrow> 'f analysis_event" where
  "resync_event now sid =
     \<lparr>ae_stream_id = sid, ae_timestamp_ms = now, ae_kind = ''resync'',
      ae_message = ''reader resynced after ring gap or live snap'', ae_frame_timestamp = 0, ae_data = None\<rparr>"

record 'f analysis_task =
  at_info :: analysis_session_info
  at_config :: analysis_config
  at_reader :: dispatch_reader
  at_plugins :: "'f analysis_plugin list"
  at_frame_index :: nat

text \<open>One plugin and one frame; None is an event queue that never has room.\<close>

definition run_plugin ::
    "'f rate_ops \<Rightarrow> 'f face_parsers \<Rightarrow> stream_manager \<Rightarrow> 'f analysis_task \<Rightarrow> frame_env \<Rightarrow> bool \<Rightarrow> media_frame \<Rightarrow>
     'f analysis_plugin \<Rightarrow> 'f analysis_store \<Rightarrow> ('f analysis_plugin \<times> 'f analysis_store \<times> analysis_effect list) option" where
  "run_plugin ops ps m t env sampled f p st =
     (let sid = ai_stream_id (at_info t); n = ac_max_events_per_stream (at_config t)
      in if \<not> sampled \<and> \<not> process_unsampled_frames p then Some (p, st, [])
         else case process_frame ops ps m (at_config t) sid env f p of
           (p', Inr (metrics, evs), effs) \<Rightarrow>
             let st1 = (case metrics of
                   None \<Rightarrow> st | Some a \<Rightarrow> st\<lparr>as_metrics := (as_metrics st)(sid \<mapsto> a)\<rparr>)
             in map_option (\<lambda>st2. (p', st2, effs)) (push_events n sid evs st1)
         | (p', Inl err, effs) \<Rightarrow>
             map_option (\<lambda>st1. (p', st1, effs)) (push_event n sid (failure_event (fe_failed_now env) sid p err f) st))"

fun run_plugins ::
    "'f rate_ops \<Rightarrow> 'f face_parsers \<Rightarrow> stream_manager \<Rightarrow> 'f analysis_task \<Rightarrow> frame_env \<Rightarrow> bool \<Rightarrow> media_frame \<Rightarrow>
     'f analysis_plugin list \<Rightarrow> 'f analysis_store \<Rightarrow>
     ('f analysis_plugin list \<times> 'f analysis_store \<times> analysis_effect list) option" where
  "run_plugins ops ps m t env sampled f [] st = Some ([], st, [])"
| "run_plugins ops ps m t env sampled f (p # qs) st =
     (case run_plugin ops ps m t env sampled f p st of
        None \<Rightarrow> None
      | Some (p', st1, e1) \<Rightarrow>
          (case run_plugins ops ps m t env sampled f qs st1 of
             None \<Rightarrow> None
           | Some (qs', st2, e2) \<Rightarrow> Some (p' # qs', st2, e1 @ e2)))"

text \<open>The frames of a batch, the \<open>k\<close>-th with \<open>env k\<close>.\<close>

fun run_frames ::
    "'f rate_ops \<Rightarrow> 'f face_parsers \<Rightarrow> stream_manager \<Rightarrow> (nat \<Rightarrow> frame_env) \<Rightarrow> nat \<Rightarrow> media_frame list \<Rightarrow>
     'f analysis_task \<Rightarrow> 'f analysis_store \<Rightarrow> ('f analysis_task \<times> 'f analysis_store \<times> analysis_effect list) option" where
  "run_frames ops ps m env k [] t st = Some (t, st, [])"
| "run_frames ops ps m env k (f # fs) t st =
     (let sampled = (at_frame_index t mod ai_sample_interval (at_info t) = 0);
          t1 = t\<lparr>at_frame_index := sat_add64 (at_frame_index t) 1\<rparr>
      in case run_plugins ops ps m t1 (env k) sampled f (at_plugins t1) st of
           None \<Rightarrow> None
         | Some (qs, st1, e1) \<Rightarrow>
             (case run_frames ops ps m env (k + 1) fs (t1\<lparr>at_plugins := qs\<rparr>) st1 of
                None \<Rightarrow> None
              | Some (t2, st2, e2) \<Rightarrow> Some (t2, st2, e1 @ e2)))"

text \<open>\<open>run\<close> up to its loop: without a hub or with a plugin it cannot build, the task ends here.\<close>

definition analysis_begin ::
    "'f rate_ops \<Rightarrow> stream_manager \<Rightarrow> analysis_config \<Rightarrow> analysis_session_info \<Rightarrow> 'f analysis_task option" where
  "analysis_begin ops m config info =
     (case dispatch_subscribe (ensure_stream_hub m (ai_stream_id info)) (ai_stream_id info) LiveSequential of
        None \<Rightarrow> None
      | Some r \<Rightarrow>
          (case build_plugins ops config info of
             Inl e \<Rightarrow> None
           | Inr qs \<Rightarrow>
               Some \<lparr>at_info = info, at_config = config, at_reader = r, at_plugins = qs, at_frame_index = 0\<rparr>))"

datatype 'f analysis_turn_result = Turn_hangs | Task_ended | Task_goes_on "'f analysis_task" "'f analysis_store" "analysis_effect list"

text \<open>One turn of the loop; a reader that has snapped to the live edge does not lose its resync flag.\<close>

definition analysis_turn ::
    "'f rate_ops \<Rightarrow> 'f face_parsers \<Rightarrow> stream_manager \<Rightarrow> nat \<Rightarrow> (nat \<Rightarrow> frame_env) \<Rightarrow>
     stream_hub \<times> stream_hub option \<Rightarrow> 'f analysis_task \<Rightarrow> 'f analysis_store \<Rightarrow> 'f analysis_turn_result" where
  "analysis_turn ops ps m now env hub t st =
     (case recv_batch (at_reader t) (fst hub) (snd hub) of
        (r, _, Inl Closed) \<Rightarrow> Task_ended
      | (r, _, Inr frames) \<Rightarrow>
          if frames = [] then Task_goes_on (t\<lparr>at_reader := r\<rparr>) st []
          else
            let (r1, snap) = take_live_snap r;
                (r2, resync) = (if snap then (r1, True) else take_muxer_resync r1);
                sid = ai_stream_id (at_info t); n = ac_max_events_per_stream (at_config t);
                t1 = t\<lparr>at_reader := r2\<rparr>
            in case (if resync then push_event n sid (resync_event now sid) st else Some st) of
                 None \<Rightarrow> Turn_hangs
               | Some st1 \<Rightarrow>
                   (case run_frames ops ps m env 0 frames t1 st1 of
                      None \<Rightarrow> Turn_hangs
                    | Some (t2, st2, effs) \<Rightarrow> Task_goes_on t2 st2 effs))"

section \<open>The manager\<close>

text \<open>As for recordings, tasks are numbered; an active session names the task it can abort.\<close>

record 'f analysis_manager =
  an_config :: analysis_config
  an_active :: "(stream_id \<times> analysis_session_info \<times> nat) list"
  an_store :: "'f analysis_store"
  an_started :: nat
  an_aborted :: "nat list"

definition analysis_new :: "analysis_config \<Rightarrow> 'f analysis_manager" where
  "analysis_new config =
     \<lparr>an_config = config, an_active = [], an_store = \<lparr>as_metrics = Map.empty, as_events = Map.empty\<rparr>,
      an_started = 0, an_aborted = []\<rparr>"

definition analysis_active_sessions :: "'f analysis_manager \<Rightarrow> analysis_session_info list" where
  "analysis_active_sessions a = List.map (fst \<circ> snd) (an_active a)"

definition analysis_metrics_of :: "'f analysis_manager \<Rightarrow> stream_id \<Rightarrow> 'f analysis_metrics option" where
  "analysis_metrics_of a sid = as_metrics (an_store a) sid"

definition analysis_events_of :: "'f analysis_manager \<Rightarrow> stream_id \<Rightarrow> 'f analysis_event list" where
  "analysis_events_of a sid = (case as_events (an_store a) sid of None \<Rightarrow> [] | Some q \<Rightarrow> q)"

text \<open>
  \<open>start\<close> in the two steps in which it holds the lock of the sessions: the checks, and the registration
  of the task it has spawned.
\<close>

definition analysis_admit ::
    "stream_manager \<Rightarrow> nat \<Rightarrow> 'f analysis_manager \<Rightarrow> start_analysis_request \<Rightarrow> analysis_error + analysis_session_info" where
  "analysis_admit m now a req =
     (if \<not> ac_enabled (an_config a) then Inl Analysis_disabled
      else if trim (ar_stream_id req) = [] then Inl Analysis_no_id
      else if get_stream m (ar_stream_id req) = None then Inl Analysis_no_stream
      else if map_of (an_active a) (ar_stream_id req) \<noteq> None then Inl Analysis_already_active
      else
        let info = \<lparr>ai_stream_id = ar_stream_id req, ai_started_at_ms = now,
              ai_sample_interval = max 1 (case ar_sample_interval req of
                Some k \<Rightarrow> k | None \<Rightarrow> ac_default_sample_interval (an_config a)),
              ai_plugins = (case ar_plugins req of Some ps \<Rightarrow> ps | None \<Rightarrow> [''l1_metrics''])\<rparr>
        in case validate_plugins (ai_plugins info) (an_config a) of
             Some e \<Rightarrow> Inl e
           | None \<Rightarrow> Inr info)"

definition analysis_register :: "'f analysis_manager \<Rightarrow> analysis_session_info \<Rightarrow> 'f analysis_manager" where
  "analysis_register a info =
     a\<lparr>an_active := AList.update (ai_stream_id info) (info, an_started a) (an_active a),
       an_started := an_started a + 1\<rparr>"

definition analysis_start ::
    "stream_manager \<Rightarrow> nat \<Rightarrow> 'f analysis_manager \<Rightarrow> start_analysis_request \<Rightarrow>
     analysis_error + 'f analysis_manager \<times> analysis_session_info" where
  "analysis_start m now a req =
     (case analysis_admit m now a req of
        Inl e \<Rightarrow> Inl e
      | Inr info \<Rightarrow> Inr (analysis_register a info, info))"

definition analysis_stop ::
    "'f analysis_manager \<Rightarrow> stream_id \<Rightarrow> analysis_error + 'f analysis_manager \<times> analysis_session_info" where
  "analysis_stop a sid =
     (case map_of (an_active a) sid of
        None \<Rightarrow> Inl Analysis_not_found
      | Some (info, task) \<Rightarrow>
          Inr (a\<lparr>an_active := AList.delete sid (an_active a), an_aborted := task # an_aborted a,
                 an_store := \<lparr>as_metrics = (as_metrics (an_store a))(sid := None),
                              as_events = (as_events (an_store a))(sid := None)\<rparr>\<rparr>, info))"

end
