(* ===== verification/Analysis_Runs.thy ===== *)
theory Analysis_Runs
  imports Analysis
begin

text \<open>
  Properties of the analysis: when the queue of events has room, what a task does to the store it
  shares with the manager, what its metrics count, that an accepted session has a task that can begin,
  and what \<open>stop\<close> and two simultaneous starts leave behind.
\<close>

section \<open>The queue of events\<close>

lemma make_room_drop:
  "0 < n \<Longrightarrow> make_room n q = Some (drop (Suc (length q) - n) q)"
proof (induction q)
  case Nil
  then show ?case by (subst make_room.simps) simp
next
  case (Cons x q)
  show ?case
  proof (cases "n \<le> Suc (length q)")
    case True
    then have "make_room n (x # q) = make_room n q" by (subst make_room.simps) simp
    with Cons True show ?thesis by (simp add: Suc_diff_le)
  next
    case False
    then show ?thesis by (subst make_room.simps) simp
  qed
qed

lemma make_room_stuck: "make_room 0 q = None"
proof -
  have "n \<noteq> 0" if "make_room n q = Some r" for n and q r :: "'a list"
  proof (rule make_room.raw_induct [where P = "\<lambda>n _ _. n \<noteq> 0", OF _ that])
    fix f :: "nat \<Rightarrow> 'a list \<Rightarrow> 'a list option" and n and q r :: "'a list"
    assume IH: "\<And>n q r. f n q = Some r \<Longrightarrow> n \<noteq> 0"
      and eq: "(if n \<le> length q then f n (tl q) else Some q) = Some r"
    show "n \<noteq> 0"
    proof
      assume "n = 0"
      with eq have "f n (tl q) = Some r" by simp
      with IH \<open>n = 0\<close> show False by blast
    qed
  qed
  then show ?thesis by (cases "make_room 0 q") auto
qed

text \<open>
  An event is stored unless the bound is 0: then the loop that makes room pops the empty queue for ever,
  with the lock of the events taken. Else the queue holds the last \<open>max_events\<close> events.
\<close>

lemma push_event_hangs_iff: "push_event n sid ev st = None \<longleftrightarrow> n = 0"
  by (cases n) (simp_all add: push_event_def make_room_stuck make_room_drop)

definition queue_of :: "'f analysis_store \<Rightarrow> stream_id \<Rightarrow> 'f analysis_event list" where
  "queue_of st sid = (case as_events st sid of None \<Rightarrow> [] | Some q \<Rightarrow> q)"

text \<open>The last \<open>n\<close> entries.\<close>

definition newest :: "nat \<Rightarrow> 'a list \<Rightarrow> 'a list" where
  "newest n xs = drop (length xs - n) xs"

lemma newest_length: "length (newest n xs) = min n (length xs)"
  by (simp add: newest_def)

lemma newest_append: "newest n (newest n xs @ ys) = newest n (xs @ ys)"
proof (cases "length xs \<le> n")
  case True
  then show ?thesis by (simp add: newest_def)
next
  case False
  then show ?thesis by (simp add: newest_def drop_append add.commute)
qed

lemma newest_snoc: "0 < n \<Longrightarrow> newest n (xs @ [x]) = drop (Suc (length xs) - n) xs @ [x]"
  by (simp add: newest_def)

lemma push_event_newest:
  assumes "0 < n"
  shows "push_event n sid ev st = Some (st\<lparr>as_events := (as_events st)(sid \<mapsto> newest n (queue_of st sid @ [ev]))\<rparr>)"
  using assms by (simp add: push_event_def make_room_drop queue_of_def newest_snoc split: option.split)

lemma push_events_newest:
  assumes "0 < n"
  shows "\<exists>st'. push_events n sid evs st = Some st' \<and> as_metrics st' = as_metrics st \<and>
     as_events st' = (if evs = [] then as_events st
                      else (as_events st)(sid \<mapsto> newest n (queue_of st sid @ evs)))"
proof (induction evs arbitrary: st)
  case (Cons ev evs)
  let ?st1 = "st\<lparr>as_events := (as_events st)(sid \<mapsto> newest n (queue_of st sid @ [ev]))\<rparr>"
  have "queue_of ?st1 sid = newest n (queue_of st sid @ [ev])" by (simp add: queue_of_def)
  then have "newest n (queue_of ?st1 sid @ evs) = newest n (queue_of st sid @ ev # evs)"
    by (simp add: newest_append)
  then show ?case using Cons.IH [of ?st1] by (auto simp: push_event_newest [OF assms] fun_eq_iff)
qed simp

section \<open>A turn of the task\<close>

text \<open>From \<open>st\<close> to \<open>st'\<close> a task of \<open>sid\<close> has added events and stored metrics, both of its own stream.\<close>

definition store_grows :: "nat \<Rightarrow> stream_id \<Rightarrow> 'f analysis_store \<Rightarrow> 'f analysis_store \<Rightarrow> bool" where
  "store_grows n sid st st' \<longleftrightarrow>
     (\<forall>s. s \<noteq> sid \<longrightarrow> as_metrics st' s = as_metrics st s) \<and>
     (\<exists>evs. as_events st' = (if evs = [] then as_events st
                             else (as_events st)(sid \<mapsto> newest n (queue_of st sid @ evs))))"

lemma store_grows_refl [simp, intro]: "store_grows n sid st st"
  by (auto simp: store_grows_def)

lemma store_grows_trans [trans]:
  assumes "store_grows n sid a b" and "store_grows n sid b c"
  shows "store_grows n sid a c"
proof -
  obtain evs where e: "as_events b = (if evs = [] then as_events a
      else (as_events a)(sid \<mapsto> newest n (queue_of a sid @ evs)))"
    using assms(1) by (auto simp: store_grows_def)
  obtain evs' where e': "as_events c = (if evs' = [] then as_events b
      else (as_events b)(sid \<mapsto> newest n (queue_of b sid @ evs')))"
    using assms(2) by (auto simp: store_grows_def)
  have q: "evs = [] \<Longrightarrow> queue_of b sid = queue_of a sid"
    "evs \<noteq> [] \<Longrightarrow> newest n (queue_of b sid @ evs') = newest n (queue_of a sid @ evs @ evs')"
    using e by (simp_all add: queue_of_def newest_append)
  have "as_events c = (if evs @ evs' = [] then as_events a
      else (as_events a)(sid \<mapsto> newest n (queue_of a sid @ evs @ evs')))"
    using e e' q by auto
  moreover have "\<forall>s. s \<noteq> sid \<longrightarrow> as_metrics c s = as_metrics a s"
    using assms by (simp add: store_grows_def)
  ultimately show ?thesis unfolding store_grows_def by blast
qed

lemma push_events_grow:
  assumes "0 < n"
  shows "\<exists>st'. push_events n sid evs st = Some st' \<and> store_grows n sid st st'"
proof -
  obtain st' where st': "push_events n sid evs st = Some st'" "as_metrics st' = as_metrics st"
    "as_events st' = (if evs = [] then as_events st else (as_events st)(sid \<mapsto> newest n (queue_of st sid @ evs)))"
    using push_events_newest [OF assms, of sid evs st] by blast
  then have "store_grows n sid st st'" unfolding store_grows_def by (intro conjI exI [of _ evs]) simp_all
  with st'(1) show ?thesis by blast
qed

lemma push_event_grows:
  "0 < n \<Longrightarrow> \<exists>st'. push_event n sid ev st = Some st' \<and> store_grows n sid st st'"
  using push_events_grow [of n sid "[ev]" st] by (cases "push_event n sid ev st") simp_all

lemma push_event_metrics: "push_event n sid ev st = Some st' \<Longrightarrow> as_metrics st' = as_metrics st"
  by (auto simp: push_event_def split: option.splits)

lemma push_events_metrics: "push_events n sid evs st = Some st' \<Longrightarrow> as_metrics st' = as_metrics st"
  by (induction evs arbitrary: st) (auto split: option.splits dest: push_event_metrics)

lemma store_grows_metrics: "store_grows n sid st (st\<lparr>as_metrics := (as_metrics st)(sid \<mapsto> a)\<rparr>)"
  unfolding store_grows_def by (intro conjI exI [of _ "[]"]) simp_all

abbreviation task_stream :: "'f analysis_task \<Rightarrow> stream_id" where
  "task_stream t \<equiv> ai_stream_id (at_info t)"

abbreviation task_bound :: "'f analysis_task \<Rightarrow> nat" where
  "task_bound t \<equiv> ac_max_events_per_stream (at_config t)"

text \<open>One plugin: the counting plugin publishes its new metrics, a face plugin leaves the metrics alone.\<close>

lemma run_plugin_returns:
  assumes "0 < task_bound t"
  shows "\<exists>p' st' effs. run_plugin ops ps m t env sampled f p st = Some (p', st', effs) \<and>
     store_grows (task_bound t) (task_stream t) st st'"
proof (cases "\<not> sampled \<and> \<not> process_unsampled_frames p")
  case True
  then show ?thesis by (simp add: run_plugin_def)
next
  case False
  obtain p' out effs where pf: "process_frame ops ps m (at_config t) (task_stream t) env f p = (p', out, effs)"
    by (metis prod_cases3)
  show ?thesis
  proof (cases out)
    case (Inl err)
    then show ?thesis
      using False pf push_event_grows [OF assms, of "task_stream t" "failure_event (fe_failed_now env) (task_stream t) p err f" st]
      by (auto simp: run_plugin_def)
  next
    case (Inr mo)
    define st1 where "st1 = (case fst mo of None \<Rightarrow> st | Some a \<Rightarrow> st\<lparr>as_metrics := (as_metrics st)(task_stream t \<mapsto> a)\<rparr>)"
    have "store_grows (task_bound t) (task_stream t) st st1"
      by (simp add: st1_def store_grows_metrics split: option.split)
    moreover obtain st2 where "push_events (task_bound t) (task_stream t) (snd mo) st1 = Some st2"
      "store_grows (task_bound t) (task_stream t) st1 st2"
      using push_events_grow [OF assms, of "task_stream t" "snd mo" st1] by auto
    ultimately show ?thesis
      using False pf Inr store_grows_trans
      by (cases mo) (auto simp: run_plugin_def st1_def Let_def)
  qed
qed

lemma run_plugins_return:
  assumes "0 < task_bound t"
  shows "\<exists>qs' st' effs. run_plugins ops ps m t env sampled f qs st = Some (qs', st', effs) \<and>
     store_grows (task_bound t) (task_stream t) st st'"
proof (induction qs arbitrary: st)
  case (Cons p qs)
  obtain p' st1 e1 where 1: "run_plugin ops ps m t env sampled f p st = Some (p', st1, e1)"
    "store_grows (task_bound t) (task_stream t) st st1"
    using run_plugin_returns [OF assms, of ops ps m env sampled f p st] by blast
  obtain qs' st2 e2 where 2: "run_plugins ops ps m t env sampled f qs st1 = Some (qs', st2, e2)"
    "store_grows (task_bound t) (task_stream t) st1 st2" using Cons.IH [of st1] by blast
  show ?case using 1 2 store_grows_trans [OF 1(2) 2(2)] by simp
qed simp

lemma run_frames_return:
  assumes "0 < task_bound t"
  shows "\<exists>t' st' effs. run_frames ops ps m env k fs t st = Some (t', st', effs) \<and>
     store_grows (task_bound t) (task_stream t) st st'"
  using assms
proof (induction fs arbitrary: k t st)
  case (Cons f fs)
  let ?t1 = "t\<lparr>at_frame_index := sat_add64 (at_frame_index t) 1\<rparr>"
  let ?s = "at_frame_index t mod ai_sample_interval (at_info t) = 0"
  from Cons.prems obtain qs st1 e1 where 1: "run_plugins ops ps m ?t1 (env k) ?s f (at_plugins t) st = Some (qs, st1, e1)"
    "store_grows (task_bound t) (task_stream t) st st1"
    using run_plugins_return [of ?t1 ops ps m "env k" ?s f "at_plugins t" st] by auto
  obtain t2 st2 e2 where 2: "run_frames ops ps m env (k + 1) fs (?t1\<lparr>at_plugins := qs\<rparr>) st1 = Some (t2, st2, e2)"
    "store_grows (task_bound t) (task_stream t) st1 st2"
    using Cons.IH [of "?t1\<lparr>at_plugins := qs\<rparr>" "k + 1" st1] Cons.prems by auto
  show ?case using 1 2 store_grows_trans [OF 1(2) 2(2)] by (simp add: Let_def)
qed simp

lemma turn_goes_on:
  assumes "0 < task_bound t"
  shows "analysis_turn ops ps m now env hub t st = Task_ended \<or>
     (\<exists>t' st' effs. analysis_turn ops ps m now env hub t st = Task_goes_on t' st' effs \<and>
        store_grows (task_bound t) (task_stream t) st st')"
proof -
  obtain r snap res where rb: "recv_batch (at_reader t) (fst hub) (snd hub) = (r, snap, res)" by (metis prod_cases3)
  obtain r1 snap1 where ls: "take_live_snap r = (r1, snap1)" by force
  obtain r2 resync where mr: "(if snap1 then (r1, True) else take_muxer_resync r1) = (r2, resync)" by force
  let ?t1 = "t\<lparr>at_reader := r2\<rparr>"
  obtain st1 where st1: "(if resync then push_event (task_bound t) (task_stream t) (resync_event now (task_stream t)) st
      else Some st) = Some st1" "store_grows (task_bound t) (task_stream t) st st1"
    using push_event_grows [OF assms, of "task_stream t" "resync_event now (task_stream t)" st] by (cases resync) auto
  have ret: "\<exists>t' st' effs. analysis_turn ops ps m now env hub t st = Task_goes_on t' st' effs \<and>
      store_grows (task_bound t) (task_stream t) st st'" if "res = Inr fs" for fs
  proof -
    obtain t2 st2 effs where 2: "run_frames ops ps m env 0 fs ?t1 st1 = Some (t2, st2, effs)"
      "store_grows (task_bound t) (task_stream t) st1 st2"
      using run_frames_return [of ?t1 ops ps m env 0 fs st1] assms by auto
    show ?thesis
      using that rb ls mr st1 2 store_grows_trans [OF st1(2) 2(2)]
      by (cases "fs = []") (auto simp: analysis_turn_def Let_def)
  qed
  show ?thesis
  proof (cases res)
    case (Inl e)
    then show ?thesis using rb by (cases e) (simp add: analysis_turn_def)
  next
    case (Inr fs)
    then show ?thesis using ret by blast
  qed
qed


section \<open>What the metrics count\<close>

text \<open>The frames that a plugin with interval \<open>k\<close> looks at: every \<open>k\<close>-th, from the first one on.\<close>

definition sampled_frames :: "nat \<Rightarrow> media_frame list \<Rightarrow> media_frame list" where
  "sampled_frames k hist = List.map snd (filter (\<lambda>(i, f). i mod k = 0) (enumerate 0 hist))"

lemma sampled_frames_Nil [simp]: "sampled_frames k [] = []"
  by (simp add: sampled_frames_def)

lemma sampled_frames_snoc:
  "sampled_frames k (hist @ [f]) = sampled_frames k hist @ (if length hist mod k = 0 then [f] else [])"
  by (simp add: sampled_frames_def enumerate_append_eq)

lemma sampled_frames_length: "length (sampled_frames k hist) \<le> length hist"
proof -
  have "length (sampled_frames k hist) \<le> length (enumerate 0 hist)"
    by (simp add: sampled_frames_def del: length_enumerate)
  then show ?thesis by simp
qed

definition video_codec :: "media_frame \<Rightarrow> bool" where
  "video_codec f \<longleftrightarrow> mf_codec f = H264 \<or> mf_codec f = H265"

definition audio_codec :: "media_frame \<Rightarrow> bool" where
  "audio_codec f \<longleftrightarrow> mf_codec f = AAC \<or> mf_codec f = Opus \<or> mf_codec f = G711"

abbreviation total_bytes :: "media_frame list \<Rightarrow> nat" where
  "total_bytes fs \<equiv> sum_list (List.map (\<lambda>f. length (mf_data f)) fs)"

text \<open>Of all frames the number and bytes, of the sampled ones the kinds; groups of pictures add up.\<close>

definition frames_counted :: "nat \<Rightarrow> media_frame list \<Rightarrow> 'f metrics_state \<Rightarrow> bool" where
  "frames_counted k hist s \<longleftrightarrow>
     am_total_frames (ms_metrics s) = length hist \<and>
     am_bytes (ms_metrics s) = wrap64 (total_bytes hist) \<and>
     am_video_frames (ms_metrics s) = length (filter video_codec (sampled_frames k hist)) \<and>
     am_audio_frames (ms_metrics s) = length (filter audio_codec (sampled_frames k hist)) \<and>
     am_keyframes (ms_metrics s) = length (filter (\<lambda>f. video_codec f \<and> mf_is_keyframe f) (sampled_frames k hist)) \<and>
     ms_gop_count s \<le> am_keyframes (ms_metrics s) \<and>
     am_video_frames (ms_metrics s) + ms_gop_count s =
       ms_gop_sum s + ms_frames_since_keyframe s + am_keyframes (ms_metrics s)"

lemma frames_counted_new: "frames_counted k [] (metrics_state_new ops sid now)"
  by (simp add: frames_counted_def metrics_state_new_def metrics_zero_def)

lemma wrap64_add: "wrap64 (wrap64 a + b) = wrap64 (a + b)"
  by (simp add: wrap64_def mod_add_left_eq)

lemma frames_counted_le:
  assumes "frames_counted k hist s"
  shows "am_video_frames (ms_metrics s) \<le> length hist" "am_audio_frames (ms_metrics s) \<le> length hist"
    "am_keyframes (ms_metrics s) \<le> am_video_frames (ms_metrics s)" "ms_gop_count s \<le> length hist"
    "ms_gop_sum s + ms_frames_since_keyframe s \<le> length hist"
proof -
  have le: "length (filter P (sampled_frames k hist)) \<le> length hist" for P
    using length_filter_le [of P "sampled_frames k hist"] sampled_frames_length [of k hist] by linarith
  have "length (filter (\<lambda>f. video_codec f \<and> mf_is_keyframe f) xs) \<le> length (filter video_codec xs)" for xs
    by (induction xs) auto
  then show "am_keyframes (ms_metrics s) \<le> am_video_frames (ms_metrics s)"
    using assms by (simp add: frames_counted_def)
  show "am_video_frames (ms_metrics s) \<le> length hist" "am_audio_frames (ms_metrics s) \<le> length hist"
    using assms le by (simp_all add: frames_counted_def)
  show "ms_gop_count s \<le> length hist" using assms le [of "\<lambda>f. video_codec f \<and> mf_is_keyframe f"]
    by (auto simp: frames_counted_def)
  show "ms_gop_sum s + ms_frames_since_keyframe s \<le> length hist"
    using assms le [of video_codec] by (auto simp: frames_counted_def)
qed

lemma observe_audio_counts:
  fixes ops :: "'f rate_ops" and s :: "'f metrics_state" and f :: media_frame
  defines "s' \<equiv> observe_audio ops f s"
  shows "am_total_frames (ms_metrics s') = am_total_frames (ms_metrics s)"
    "am_bytes (ms_metrics s') = am_bytes (ms_metrics s)"
    "am_video_frames (ms_metrics s') = am_video_frames (ms_metrics s)"
    "am_audio_frames (ms_metrics s') = wrap64 (am_audio_frames (ms_metrics s) + 1)"
    "am_keyframes (ms_metrics s') = am_keyframes (ms_metrics s)" "ms_gop_sum s' = ms_gop_sum s"
    "ms_gop_count s' = ms_gop_count s" "ms_frames_since_keyframe s' = ms_frames_since_keyframe s"
  by (simp_all add: s'_def observe_audio_def update_bitrate_def Let_def split: option.split)

lemma close_gop_counts:
  fixes ops :: "'f rate_ops" and s :: "'f metrics_state"
  defines "s' \<equiv> close_gop ops s"
  shows "am_total_frames (ms_metrics s') = am_total_frames (ms_metrics s)"
    "am_bytes (ms_metrics s') = am_bytes (ms_metrics s)"
    "am_video_frames (ms_metrics s') = am_video_frames (ms_metrics s)"
    "am_audio_frames (ms_metrics s') = am_audio_frames (ms_metrics s)"
    "am_keyframes (ms_metrics s') = wrap64 (am_keyframes (ms_metrics s) + 1)"
    "ms_gop_sum s' = (if ms_frames_since_keyframe s > 1 then wrap64 (ms_gop_sum s + ms_frames_since_keyframe s) else ms_gop_sum s)"
    "ms_gop_count s' = (if ms_frames_since_keyframe s > 1 then wrap64 (ms_gop_count s + 1) else ms_gop_count s)"
    "ms_frames_since_keyframe s' = 0"
  by (simp_all add: s'_def close_gop_def Let_def)

lemma video_rate_counts:
  fixes ops :: "'f rate_ops" and s :: "'f metrics_state"
  defines "s' \<equiv> video_rate ops s"
  shows "am_total_frames (ms_metrics s') = am_total_frames (ms_metrics s)"
    "am_bytes (ms_metrics s') = am_bytes (ms_metrics s)"
    "am_video_frames (ms_metrics s') = am_video_frames (ms_metrics s)"
    "am_audio_frames (ms_metrics s') = am_audio_frames (ms_metrics s)"
    "am_keyframes (ms_metrics s') = am_keyframes (ms_metrics s)" "ms_gop_sum s' = ms_gop_sum s"
    "ms_gop_count s' = ms_gop_count s" "ms_frames_since_keyframe s' = ms_frames_since_keyframe s"
  by (simp_all add: s'_def video_rate_def Let_def split: option.split)

lemma video_seen_counts:
  fixes ops :: "'f rate_ops" and s :: "'f metrics_state" and f :: media_frame
  defines "s' \<equiv> video_seen ops f s"
  shows "am_total_frames (ms_metrics s') = am_total_frames (ms_metrics s)"
    "am_bytes (ms_metrics s') = am_bytes (ms_metrics s)"
    "am_video_frames (ms_metrics s') = wrap64 (am_video_frames (ms_metrics s) + 1)"
    "am_audio_frames (ms_metrics s') = am_audio_frames (ms_metrics s)"
    "am_keyframes (ms_metrics s') = am_keyframes (ms_metrics s)" "ms_gop_sum s' = ms_gop_sum s"
    "ms_gop_count s' = ms_gop_count s" "ms_frames_since_keyframe s' = wrap64 (ms_frames_since_keyframe s + 1)"
  by (simp_all add: s'_def video_seen_def video_rate_counts update_bitrate_def Let_def)

lemmas count_simps = observe_audio_counts close_gop_counts video_seen_counts

text \<open>A video frame that is looked at.\<close>

lemma frames_counted_video:
  fixes s :: "'f metrics_state"
  assumes c: "frames_counted k hist s" and small: "length hist < u64_max"
    and st: "am_total_frames (ms_metrics s1) = length hist + 1" "am_bytes (ms_metrics s1) = wrap64 (total_bytes (hist @ [f]))"
      "am_video_frames (ms_metrics s1) = am_video_frames (ms_metrics s)" "am_audio_frames (ms_metrics s1) = am_audio_frames (ms_metrics s)"
      "am_keyframes (ms_metrics s1) = am_keyframes (ms_metrics s)" "ms_gop_sum s1 = ms_gop_sum s"
      "ms_gop_count s1 = ms_gop_count s" "ms_frames_since_keyframe s1 = ms_frames_since_keyframe s"
    and f: "video_codec f" "length hist mod k = 0"
  shows "frames_counted k (hist @ [f]) (fst (observe_video ops now f s1))"
proof -
  note le = frames_counted_le [OF c]
  have w: "wrap64 (x + 1) = x + 1" if "x \<le> length hist" for x using that small by simp
  have w': "wrap64 (x + 1 + y) = x + 1 + y" if "x + y \<le> length hist" for x y using that small by simp
  have a: "\<not> audio_codec f" using f(1) by (auto simp: video_codec_def audio_codec_def)
  have b: "ms_gop_count s \<le> am_keyframes (ms_metrics s)"
    "am_video_frames (ms_metrics s) + ms_gop_count s =
      ms_gop_sum s + ms_frames_since_keyframe s + am_keyframes (ms_metrics s)"
    using c by (simp_all add: frames_counted_def)
  have sum: "wrap64 (ms_gop_sum s + (ms_frames_since_keyframe s + 1)) = ms_gop_sum s + (ms_frames_since_keyframe s + 1)"
    using le(5) small by simp
  have ws: "wrap64 (am_video_frames (ms_metrics s) + 1) = am_video_frames (ms_metrics s) + 1"
    "wrap64 (am_keyframes (ms_metrics s) + 1) = am_keyframes (ms_metrics s) + 1"
    "wrap64 (ms_gop_count s + 1) = ms_gop_count s + 1"
    "wrap64 (ms_frames_since_keyframe s + 1) = ms_frames_since_keyframe s + 1"
    using le by (intro w; linarith)+
  show ?thesis
    using c b f a st ws sum
    by (cases "mf_is_keyframe f")
      (auto simp: frames_counted_def observe_video_def Let_def count_simps sampled_frames_snoc)
qed

lemma frames_counted_step:
  assumes c: "frames_counted k hist s" and small: "length hist < u64_max"
  shows "frames_counted k (hist @ [f]) (fst (l1_process ops env f s k))"
proof -
  note le = frames_counted_le [OF c]
  have w: "wrap64 (x + 1) = x + 1" if "x \<le> length hist" for x
    using that small by simp
  have tot: "am_total_frames (ms_metrics s) = length hist"
    and gc: "ms_gop_count s \<le> am_keyframes (ms_metrics s)"
    and gop: "am_video_frames (ms_metrics s) + ms_gop_count s =
      ms_gop_sum s + ms_frames_since_keyframe s + am_keyframes (ms_metrics s)"
    using c by (simp_all add: frames_counted_def)
  have b: "wrap64 (am_bytes (ms_metrics s) + length (mf_data f)) = wrap64 (total_bytes (hist @ [f]))"
    using c by (simp add: frames_counted_def wrap64_add)
  show ?thesis
  proof (cases "length hist mod k = 0")
    case False
    then show ?thesis
      using c b w [of "length hist"] unfolding frames_counted_def l1_process_def observe_skipped_def count_bytes_def
      by (simp add: sampled_frames_snoc)
  next
    case True
    let ?s1 = "on_metrics (\<lambda>a. (count_bytes f a)\<lparr>am_updated_at_ms := fe_update_now env\<rparr>) s"
    have step: "fst (l1_process ops env f s k) = fst (observe ops (fe_update_now env) (fe_event_now env) f s)"
      using True tot by (simp add: l1_process_def split: prod.split option.split)
    have s1: "am_total_frames (ms_metrics ?s1) = length hist + 1" "am_bytes (ms_metrics ?s1) = wrap64 (total_bytes (hist @ [f]))"
      using tot w [of "length hist"] b by (simp_all add: count_bytes_def)
    consider "video_codec f" | "audio_codec f" | "mf_codec f = codec_type.Unknown"
      by (cases "mf_codec f") (auto simp: video_codec_def audio_codec_def)
    then show ?thesis
    proof cases
      case 1
      then have "fst (l1_process ops env f s k) = fst (observe_video ops (fe_event_now env) f ?s1)"
        unfolding step by (auto simp: observe_def video_codec_def Let_def)
      with frames_counted_video [OF c small s1 _ _ _ _ _ _ 1 True, of ops "fe_event_now env"] show ?thesis
        by (simp add: count_bytes_def)
    next
      case 2
      then have e: "fst (l1_process ops env f s k) = observe_audio ops f ?s1"
        unfolding step by (auto simp: observe_def audio_codec_def Let_def)
      have nv: "\<not> video_codec f" using 2 by (auto simp: video_codec_def audio_codec_def)
      show ?thesis
        using c s1 2 nv True w [OF le(2)] unfolding e frames_counted_def count_simps
        by (simp add: count_bytes_def sampled_frames_snoc)
    next
      case 3
      then have e: "fst (l1_process ops env f s k) = ?s1"
        unfolding step by (simp add: observe_def Let_def)
      show ?thesis
        using c s1 3 True unfolding e frames_counted_def
        by (simp add: count_bytes_def sampled_frames_snoc video_codec_def audio_codec_def)
    qed
  qed
qed

text \<open>The plugins of a task: the counting one first, faces behind it.\<close>

fun is_face :: "'f analysis_plugin \<Rightarrow> bool" where
  "is_face (Face_plugin c t) = True"
| "is_face (L1_plugin s k) = False"

lemma run_plugin_face:
  assumes "run_plugin ops ps m t env sampled f (Face_plugin c lr) st = Some (p', st', effs)"
  shows "is_face p' \<and> as_metrics st' = as_metrics st"
  using assms
  by (auto simp: run_plugin_def Let_def split: if_splits sum.splits prod.splits option.splits bool.splits
      dest!: push_event_metrics push_events_metrics)

lemma run_plugins_faces:
  "run_plugins ops ps m t env sampled f qs st = Some (qs', st', effs) \<Longrightarrow> list_all is_face qs \<Longrightarrow>
   list_all is_face qs' \<and> as_metrics st' = as_metrics st"
proof (induction qs arbitrary: qs' st effs)
  case (Cons p qs)
  from Cons.prems(2) obtain c lr where p: "p = Face_plugin c lr" by (cases p) auto
  from Cons.prems(1) obtain p' st1 e1 qs1 e2 where
    1: "run_plugin ops ps m t env sampled f p st = Some (p', st1, e1)" and
    2: "run_plugins ops ps m t env sampled f qs st1 = Some (qs1, st', e2)" and qs': "qs' = p' # qs1"
    by (auto split: option.splits)
  from run_plugin_face [OF 1 [unfolded p]] Cons.IH [OF 2] Cons.prems(2) qs' show ?case by simp
qed simp

lemma run_plugin_l1:
  assumes "run_plugin ops ps m t env sampled f (L1_plugin s k) st = Some (p', st', effs)"
  shows "p' = L1_plugin (fst (l1_process ops env f s k)) k \<and>
     as_metrics st' = (as_metrics st)(task_stream t \<mapsto> ms_metrics (fst (l1_process ops env f s k)))"
  using assms by (auto simp: run_plugin_def Let_def split: prod.splits dest!: push_events_metrics)

definition counts_frames :: "nat \<Rightarrow> media_frame list \<Rightarrow> 'f analysis_task \<Rightarrow> 'f analysis_store \<Rightarrow> bool" where
  "counts_frames k hist t st \<longleftrightarrow>
     (\<exists>s qs. at_plugins t = L1_plugin s k # qs \<and> list_all is_face qs \<and> frames_counted k hist s \<and>
        (hist \<noteq> [] \<longrightarrow> as_metrics st (task_stream t) = Some (ms_metrics s)))"

lemma run_frames_count:
  assumes "run_frames ops ps m env i fs t st = Some (t', st', effs)" and "counts_frames k hist t st"
    and "length (hist @ fs) \<le> u64_max"
  shows "counts_frames k (hist @ fs) t' st' \<and> at_info t' = at_info t"
  using assms
proof (induction fs arbitrary: hist i t st effs)
  case (Cons f fs)
  obtain s qs where t: "at_plugins t = L1_plugin s k # qs" "list_all is_face qs" "frames_counted k hist s"
    using Cons.prems(2) by (auto simp: counts_frames_def)
  let ?t1 = "t\<lparr>at_frame_index := sat_add64 (at_frame_index t) 1\<rparr>"
  let ?s = "at_frame_index t mod ai_sample_interval (at_info t) = 0"
  from Cons.prems(1) obtain qs1 st1 e1 e2 where
    1: "run_plugins ops ps m ?t1 (env i) ?s f (L1_plugin s k # qs) st = Some (qs1, st1, e1)" and
    2: "run_frames ops ps m env (i + 1) fs (?t1\<lparr>at_plugins := qs1\<rparr>) st1 = Some (t', st', e2)"
    by (auto simp: Let_def t(1) split: option.splits simp del: run_plugins.simps)
  from 1 obtain p' st2 e3 qs2 e4 where
    3: "run_plugin ops ps m ?t1 (env i) ?s f (L1_plugin s k) st = Some (p', st2, e3)" and
    4: "run_plugins ops ps m ?t1 (env i) ?s f qs st2 = Some (qs2, st1, e4)" and qs1: "qs1 = p' # qs2"
    by (auto split: option.splits)
  have "counts_frames k (hist @ [f]) (?t1\<lparr>at_plugins := qs1\<rparr>) st1"
    using run_plugin_l1 [OF 3] run_plugins_faces [OF 4 t(2)] frames_counted_step [OF t(3), of f ops "env i"] Cons.prems(3)
    by (simp add: counts_frames_def qs1)
  from Cons.IH [OF 2 this] Cons.prems(3) show ?case by simp
qed simp

text \<open>
  The states of a task with the frames it has received: other tasks and the manager change the store in
  between, of the metrics not those of this stream.
\<close>

definition turn_frames :: "stream_hub \<times> stream_hub option \<Rightarrow> 'f analysis_task \<Rightarrow> media_frame list" where
  "turn_frames hub t = (case recv_batch (at_reader t) (fst hub) (snd hub) of
     (_, _, Inr fs) \<Rightarrow> fs | _ \<Rightarrow> [])"

inductive analysis_runs ::
    "'f rate_ops \<Rightarrow> 'f face_parsers \<Rightarrow> analysis_config \<Rightarrow> analysis_session_info \<Rightarrow>
     'f analysis_task \<Rightarrow> 'f analysis_store \<Rightarrow> media_frame list \<Rightarrow> bool"
  for ops ps config info where
  begins: "analysis_begin ops m config info = Some t \<Longrightarrow> analysis_runs ops ps config info t st []"
| turns: "analysis_runs ops ps config info t st hist \<Longrightarrow>
    analysis_turn ops ps m now env hub t st = Task_goes_on t' st' effs \<Longrightarrow>
    analysis_runs ops ps config info t' st' (hist @ turn_frames hub t)"
| others: "analysis_runs ops ps config info t st hist \<Longrightarrow>
    as_metrics st' (ai_stream_id info) = as_metrics st (ai_stream_id info) \<Longrightarrow>
    analysis_runs ops ps config info t st' hist"

lemma build_plugins_for_faces: "build_plugins_for config ps = Inr qs \<Longrightarrow> list_all is_face qs"
  by (induction ps arbitrary: qs) (auto split: if_splits option.splits sum.splits)

lemma analysis_turn_cases:
  assumes "analysis_turn ops ps m now env hub t st = Task_goes_on t' st' effs"
  obtains "turn_frames hub t = []" "st' = st" "at_plugins t' = at_plugins t" "at_info t' = at_info t"
  | r st1 where "run_frames ops ps m env 0 (turn_frames hub t) (t\<lparr>at_reader := r\<rparr>) st1 = Some (t', st', effs)"
      "as_metrics st1 = as_metrics st"
proof -
  obtain r snap res where rb: "recv_batch (at_reader t) (fst hub) (snd hub) = (r, snap, res)" by (metis prod_cases3)
  show thesis
  proof (cases res)
    case (Inl e)
    with assms rb show thesis by (cases e) (simp add: analysis_turn_def)
  next
    case (Inr fs)
    have tf: "turn_frames hub t = fs" using rb Inr by (simp add: turn_frames_def)
    show thesis
    proof (cases "fs = []")
      case True
      with assms rb Inr have "t' = t\<lparr>at_reader := r\<rparr>" "st' = st" by (simp_all add: analysis_turn_def)
      with that(1) tf True show thesis by simp
    next
      case False
      with assms rb Inr obtain r2 st1 where "run_frames ops ps m env 0 fs (t\<lparr>at_reader := r2\<rparr>) st1 = Some (t', st', effs)"
        "st1 = st \<or> push_event (task_bound t) (task_stream t) (resync_event now (task_stream t)) st = Some st1"
        by (auto simp: analysis_turn_def Let_def split: prod.splits option.splits if_splits)
      with that(2) tf show thesis by (auto dest: push_event_metrics)
    qed
  qed
qed

lemma analysis_runs_count:
  assumes "analysis_runs ops ps config info t st hist" and "length hist \<le> u64_max"
  shows "counts_frames (max 1 (ai_sample_interval info)) hist t st \<and> at_info t = info"
  using assms
proof (induction rule: analysis_runs.induct)
  case (begins m t st)
  then show ?case
    by (auto simp: analysis_begin_def build_plugins_def counts_frames_def frames_counted_new
        split: option.splits sum.splits dest: build_plugins_for_faces)
next
  case (turns t st hist m now env hub t' st' effs)
  then have IH: "counts_frames (max 1 (ai_sample_interval info)) hist t st" "at_info t = info" by simp_all
  from turns.hyps(2) show ?case
  proof (cases rule: analysis_turn_cases)
    case 1
    then show ?thesis using IH by (simp add: counts_frames_def)
  next
    case (2 r st1)
    have "counts_frames (max 1 (ai_sample_interval info)) hist (t\<lparr>at_reader := r\<rparr>) st1"
      using IH 2(2) by (simp add: counts_frames_def)
    from run_frames_count [OF 2(1) this] turns.prems IH(2) show ?thesis by simp
  qed
next
  case (others t st hist st')
  then show ?case by (auto simp: counts_frames_def)
qed

text \<open>
  C35. The metrics of a stream count what its analysis has received: all frames and all bytes, and of the
  frames it looked at - every \<open>sample_interval\<close>-th - the video frames, the audio frames and the keyframes;
  the groups of pictures, the open one included, partition the video frames.
\<close>

theorem analysis_counts_what_it_receives:
  assumes "analysis_runs ops ps config info t st hist" and "hist \<noteq> []" and "length hist \<le> u64_max"
  shows "\<exists>a s. as_metrics st (ai_stream_id info) = Some a \<and> hd (at_plugins t) = L1_plugin s (max 1 (ai_sample_interval info)) \<and>
     ms_metrics s = a \<and> am_total_frames a = length hist \<and> am_bytes a = wrap64 (total_bytes hist) \<and>
     (let seen = sampled_frames (max 1 (ai_sample_interval info)) hist in
        am_video_frames a = length (filter video_codec seen) \<and>
        am_audio_frames a = length (filter audio_codec seen) \<and>
        am_keyframes a = length (filter (\<lambda>f. video_codec f \<and> mf_is_keyframe f) seen)) \<and>
     am_video_frames a + ms_gop_count s = ms_gop_sum s + ms_frames_since_keyframe s + am_keyframes a"
  using analysis_runs_count [OF assms(1,3)] assms(2) by (auto simp: counts_frames_def frames_counted_def)

definition demo_rates :: "nat rate_ops" where
  "demo_rates = \<lparr>ro_of_u64 = (\<lambda>n. n), ro_mul = (*), ro_div = (div)\<rparr>"

definition demo_faces :: "nat face_parsers" where
  "demo_faces = \<lparr>fp_object = (\<lambda>_. None), fp_array = (\<lambda>_. None)\<rparr>"

definition demo_analysis :: analysis_session_info where
  "demo_analysis = \<lparr>ai_stream_id = ''s1'', ai_started_at_ms = 0, ai_sample_interval = 1, ai_plugins = [''l1_metrics'']\<rparr>"

definition demo_heard :: "media_frame list" where
  "demo_heard = [video_frame 20 True, audio_frame 30]"

definition demo_analysis_task :: "nat analysis_task" where
  "demo_analysis_task =
     \<lparr>at_info = demo_analysis, at_config = analysis_config_default,
      at_reader = reader_new (demo_hub [video_frame 10 True]) LiveSequential,
      at_plugins = [L1_plugin (metrics_state_new demo_rates ''s1'' 0) 1], at_frame_index = 0\<rparr>"

lemma demo_analysis_begins:
  "analysis_begin demo_rates (manager_new\<lparr>mgr_hubs := [(''s1'', demo_hub [video_frame 10 True])]\<rparr>)
     analysis_config_default demo_analysis = Some demo_analysis_task"
  by (simp add: analysis_begin_def dispatch_subscribe_def ensure_stream_hub_def get_or_create_hub_def get_hub_def
      build_plugins_def demo_analysis_def demo_analysis_task_def L1_METRICS_PLUGIN_def)

lemma demo_analysis_hears:
  "turn_frames (demo_hub (video_frame 10 True # demo_heard), None) demo_analysis_task = demo_heard"
proof -
  let ?r = "reader_new (demo_hub [video_frame 10 True]) LiveSequential" and ?hist = "video_frame 10 True # demo_heard"
  have r: "rd_policy ?r = LiveSequential" "rd_cursor ?r = 1"
    by (simp_all add: reader_new_def hub_snap_def sat_add64_def u64_max_def hub_latest_seq_def latest_seq_def)
  have "batch_of ?r (demo_hub ?hist) = (?r\<lparr>rd_cursor := 3\<rparr>, 0, List.map cached_form (drop 1 ?hist))"
    using sequential_batch [of ?r "demo_hub ?hist" ?hist] r
    by (simp add: sequential_def demo_hub_holds u64_max_def demo_heard_def)
  then show ?thesis
    using r by (simp add: turn_frames_def demo_analysis_task_def recv_batch_def ensure_data_def hub_is_empty_def
        ring_is_empty_def hub_latest_seq_def latest_seq_def demo_heard_def cached_form_def video_frame_def
        audio_frame_def media_frame_new_def)
qed

lemma demo_analysis_runs:
  "\<exists>t st. analysis_runs demo_rates demo_faces analysis_config_default demo_analysis t st demo_heard"
proof -
  let ?st = "\<lparr>as_metrics = Map.empty, as_events = Map.empty\<rparr>"
  have "analysis_runs demo_rates demo_faces analysis_config_default demo_analysis demo_analysis_task ?st []"
    by (rule analysis_runs.begins [OF demo_analysis_begins])
  moreover have "analysis_turn demo_rates demo_faces manager_new 0 env (demo_hub (video_frame 10 True # demo_heard), None)
      demo_analysis_task ?st \<noteq> Turn_hangs" for env
  proof -
    have "0 < task_bound demo_analysis_task"
      by (simp add: demo_analysis_task_def analysis_config_default_def MAX_EVENTS_PER_STREAM_def)
    from turn_goes_on [OF this, of demo_rates demo_faces manager_new 0 env
        "(demo_hub (video_frame 10 True # demo_heard), None)" ?st] show ?thesis by force
  qed
  moreover have "analysis_turn demo_rates demo_faces manager_new 0 env (demo_hub (video_frame 10 True # demo_heard), None)
      demo_analysis_task ?st \<noteq> Task_ended" for env
    using demo_analysis_hears
    by (auto simp: analysis_turn_def turn_frames_def demo_heard_def Let_def split: prod.splits sum.splits option.splits if_splits)
  ultimately show ?thesis
    using analysis_runs.turns demo_analysis_hears by (metis analysis_turn_result.exhaust append_Nil)
qed

theorem analysis_counts_what_it_receives_witness:
  "\<exists>t st a. analysis_runs demo_rates demo_faces analysis_config_default demo_analysis t st demo_heard \<and>
     as_metrics st ''s1'' = Some a \<and> am_total_frames a = 2 \<and> am_video_frames a = 1 \<and> am_audio_frames a = 1 \<and> am_keyframes a = 1"
proof -
  obtain t st where r: "analysis_runs demo_rates demo_faces analysis_config_default demo_analysis t st demo_heard"
    using demo_analysis_runs by blast
  have s: "sampled_frames 1 demo_heard = demo_heard" by (simp add: sampled_frames_def demo_heard_def)
  have k: "max 1 (ai_sample_interval demo_analysis) = 1" "length demo_heard = 2" "demo_heard \<noteq> []"
    by (simp_all add: demo_analysis_def demo_heard_def)
  have "filter video_codec demo_heard = [video_frame 20 True]" "filter audio_codec demo_heard = [audio_frame 30]"
    "filter (\<lambda>f. video_codec f \<and> mf_is_keyframe f) demo_heard = [video_frame 20 True]"
    by (simp_all add: demo_heard_def video_codec_def audio_codec_def video_frame_def audio_frame_def media_frame_new_def)
  moreover have "ai_stream_id demo_analysis = ''s1''" by (simp add: demo_analysis_def)
  ultimately have "\<exists>a. as_metrics st ''s1'' = Some a \<and> am_total_frames a = 2 \<and> am_video_frames a = 1 \<and> am_audio_frames a = 1 \<and> am_keyframes a = 1"
    using analysis_counts_what_it_receives [OF r k(3)] k s by (auto simp: Let_def u64_max_def)
  with r show ?thesis by blast
qed


section \<open>The manager\<close>

lemma valid_plugins_build:
  "validate_plugins ps config = None \<Longrightarrow> \<exists>qs. build_plugins_for config ps = Inr qs"
  by (induction ps) (auto split: if_splits option.splits)

lemma analysis_admit_facts:
  assumes "analysis_admit m now a req = Inr info"
  shows "ac_enabled (an_config a)" "get_stream m (ar_stream_id req) \<noteq> None" "trim (ar_stream_id req) \<noteq> []"
    "map_of (an_active a) (ar_stream_id req) = None" "validate_plugins (ai_plugins info) (an_config a) = None"
    "ai_stream_id info = ar_stream_id req" "0 < ai_sample_interval info"
  using assms
  by (auto simp: analysis_admit_def Let_def simp del: not_None_eq split: if_split_asm option.split_asm)

lemma analysis_start_facts:
  assumes "analysis_start m now a req = Inr (a', info)"
  shows "analysis_admit m now a req = Inr info" "a' = analysis_register a info"
  using assms by (auto simp: analysis_start_def split: sum.splits)

text \<open>
  C37. A start that is answered with a session has made a task that can work: the stream has a hub to read
  from, every plugin can be built, the counting plugin first, and the manager can abort the task.
\<close>

theorem started_analysis_begins:
  fixes ops :: "'f rate_ops"
  assumes "analysis_start m now a req = Inr (a', info)"
  shows "\<exists>t s. analysis_begin ops m (an_config a) info = Some t \<and> at_info t = info \<and>
     hd (at_plugins t) = L1_plugin s (ai_sample_interval info) \<and> 0 < ai_sample_interval info \<and>
     ai_stream_id info = ar_stream_id req \<and> ac_enabled (an_config a) \<and>
     map_of (an_active a) (ar_stream_id req) = None \<and>
     map_of (an_active a') (ar_stream_id req) = Some (info, an_started a)"
proof -
  note a' = analysis_start_facts(2) [OF assms]
  note h = analysis_admit_facts [OF analysis_start_facts(1) [OF assms]]
  obtain qs :: "'f analysis_plugin list" where qs: "build_plugins_for (an_config a) (ai_plugins info) = Inr qs"
    using valid_plugins_build [OF h(5)] by blast
  obtain hub where hub: "get_hub m (ar_stream_id req) = Some hub" using h(2) by (auto simp: get_stream_def)
  have "max 1 (ai_sample_interval info) = ai_sample_interval info" using h(7) by simp
  then show ?thesis
    using h qs hub by (simp add: a' analysis_begin_def build_plugins_def dispatch_subscribe_def ensure_stream_hub_def
        get_or_create_hub_def analysis_register_def update_conv')
qed

definition demo_analyses :: "nat analysis_manager" where
  "demo_analyses = analysis_new (analysis_config_default\<lparr>ac_enabled := True\<rparr>)"

definition demo_analysis_request :: start_analysis_request where
  "demo_analysis_request = \<lparr>ar_stream_id = ''s1'', ar_plugins = None, ar_sample_interval = Some 0\<rparr>"

definition demo_analysis_streams :: stream_manager where
  "demo_analysis_streams = manager_new\<lparr>mgr_hubs := [(''s1'', demo_hub [])]\<rparr>"

lemma demo_analysis_admitted:
  "analysis_admit demo_analysis_streams t demo_analyses demo_analysis_request =
     Inr \<lparr>ai_stream_id = ''s1'', ai_started_at_ms = t, ai_sample_interval = 1, ai_plugins = [''l1_metrics'']\<rparr>"
  by (simp add: analysis_admit_def demo_analyses_def demo_analysis_request_def demo_analysis_streams_def
      analysis_new_def get_stream_def get_hub_def L1_METRICS_PLUGIN_def trim_def trim_start_def trim_end_def is_space_def Let_def)

theorem started_analysis_begins_witness:
  "\<exists>a' info t. analysis_start demo_analysis_streams 5 demo_analyses demo_analysis_request = Inr (a', info) \<and>
     analysis_begin demo_rates demo_analysis_streams (an_config demo_analyses) info = Some t"
proof -
  have "\<exists>a' info. analysis_start demo_analysis_streams 5 demo_analyses demo_analysis_request = Inr (a', info)"
    by (simp add: analysis_start_def demo_analysis_admitted)
  then obtain a' info where s: "analysis_start demo_analysis_streams 5 demo_analyses demo_analysis_request = Inr (a', info)"
    by blast
  from started_analysis_begins [OF s, of demo_rates] s show ?thesis by blast
qed

text \<open>
  \<open>stop\<close> aborts the task and forgets the metrics and events. A task that has ended by itself stays active:
  the stream can not be analysed again before a stop.
\<close>

lemma analysis_stop_forgets:
  assumes "analysis_stop a sid = Inr (a', info)"
  shows "map_of (an_active a') sid = None \<and> analysis_metrics_of a' sid = None \<and> analysis_events_of a' sid = [] \<and>
     (\<exists>task. map_of (an_active a) sid = Some (info, task) \<and> task \<in> set (an_aborted a'))"
  using assms
  by (auto simp: analysis_stop_def analysis_metrics_of_def analysis_events_of_def delete_conv' split: option.splits)

lemma ended_analysis_blocks_stream:
  assumes "analysis_start m now a req = Inr (a', info)"
  shows "analysis_start m' now' (a'\<lparr>an_store := st\<rparr>) (req\<lparr>ar_plugins := ps, ar_sample_interval := k\<rparr>) \<in>
    {Inl Analysis_no_stream, Inl Analysis_already_active}"
proof -
  note h = analysis_admit_facts [OF analysis_start_facts(1) [OF assms]]
  have "a' = analysis_register a info" by (rule analysis_start_facts(2) [OF assms])
  then have "map_of (an_active a') (ar_stream_id req) \<noteq> None" "an_config a' = an_config a"
    by (simp_all add: analysis_register_def h(6) update_conv')
  with h(1,3) show ?thesis by (simp add: analysis_start_def analysis_admit_def del: not_None_eq)
qed

lemma set_update_others:
  "distinct (List.map fst xs) \<Longrightarrow> set (AList.update k v xs) \<subseteq> insert (k, v) {x \<in> set xs. fst x \<noteq> k}"
  proof (induction xs)
  case (Cons x xs)
  have "fst y \<noteq> fst x" if "y \<in> set xs" for y using Cons.prems that by (auto simp: image_iff)
  then have "fst x = k \<Longrightarrow> {y \<in> set xs. fst y \<noteq> k} = set xs" by auto
  with Cons show ?case by (cases x) auto
qed simp

text \<open>
  The check for a running session and its registration are two steps: of two starts that both pass the
  check first, the task of the earlier registration stays in no session and was not aborted.
\<close>

theorem racing_starts_lose_a_task:
  assumes "analysis_admit m t1 a req1 = Inr info1" and "analysis_admit m t2 a req2 = Inr info2"
    and "ar_stream_id req1 = ar_stream_id req2" and "distinct (List.map fst (an_active a))"
    and "\<forall>(info, task)\<in>snd ` set (an_active a). task < an_started a" and "\<forall>task\<in>set (an_aborted a). task < an_started a"
  shows "let a2 = analysis_register (analysis_register a info1) info2 in
     an_started a \<notin> (snd \<circ> snd) ` set (an_active a2) \<and> an_started a \<notin> set (an_aborted a2) \<and> an_started a < an_started a2"
proof -
  have sid: "ai_stream_id info1 = ar_stream_id req1" "ai_stream_id info2 = ar_stream_id req1"
    using analysis_admit_facts(6) [OF assms(1)] analysis_admit_facts(6) [OF assms(2)] assms(3) by simp_all
  let ?k = "ar_stream_id req1" and ?n = "an_started a"
  let ?in = "AList.update ?k (info1, ?n) (an_active a)"
  have "distinct (List.map fst ?in)" using assms(4) by (rule distinct_update)
  then have "set (AList.update ?k (info2, ?n + 1) ?in) \<subseteq> insert (?k, info2, ?n + 1) {x \<in> set ?in. fst x \<noteq> ?k}"
    by (rule set_update_others)
  moreover have "set ?in \<subseteq> insert (?k, info1, ?n) {x \<in> set (an_active a). fst x \<noteq> ?k}"
    using assms(4) by (rule set_update_others)
  ultimately have "x = (?k, info2, ?n + 1) \<or> x \<in> set (an_active a)"
    if "x \<in> set (AList.update ?k (info2, ?n + 1) ?in)" for x using that by fastforce
  moreover have "snd (snd x) < ?n" if "x \<in> set (an_active a)" for x using assms(5) that by (cases x) force
  ultimately have "?n \<notin> (snd \<circ> snd) ` set (AList.update ?k (info2, ?n + 1) ?in)" by force
  then show ?thesis using assms(6) sid by (auto simp: analysis_register_def Let_def)
qed

section \<open>Files\<close>

text \<open>
  The pictures for the detector stay below the configured directory only if the name of the stream is
  no special one: a stream called \<open>..\<close> keeps its name and has them beside the directory.
\<close>

theorem face_files_of_dotdot_leave_directory:
  assumes "ac_face_detection_dir config \<noteq> []" and "plain_name (''face_.._'' @ dec_str now @ ext)"
  shows "locate cwd (face_file config ''..'' now ext) =
     butlast (locate cwd (ac_face_detection_dir config)) @ [''face_.._'' @ dec_str now @ ext]"
proof -
  have c: "analysis_path_component ''..'' = ''..''" by (simp add: analysis_path_component_def)
  have "face_file config ''..'' now ext =
      path_join (path_join (ac_face_detection_dir config) ''..'') (''face_.._'' @ dec_str now @ ext)"
    by (simp add: face_file_def face_dir_def c)
  then show ?thesis
    by (simp only: locate_join [OF assms(2) path_join_nonempty [OF assms(1)]] locate_join_up [OF assms(1)])
qed

end
