(* ===== verification/Http_Flv.thy ===== *)
theory Http_Flv
  imports Rtmp_Relay
begin

text \<open>
  \<open>src/src/server/http_flv/mod.rs\<close> and the FLV play loop of \<open>src/src/server/http/mod.rs\<close>: the
  FLV container, the session that puts headers before frames, HTTP chunks, and the task that
  forwards frames to a client. The readers at the end (\<open>parse_flv\<close>, \<open>dechunk\<close>) are written from the
  FLV and HTTP/1.1 specifications; the program has none.
\<close>

section \<open>The FLV container\<close>

definition generate_flv_header :: "bool \<Rightarrow> bool \<Rightarrow> bytes" where
  "generate_flv_header has_video has_audio =
     ascii ''FLV'' @ [0x01] @
     [(if has_audio then 0x04 else 0) OR (if has_video then 0x01 else 0)] @
     [0x00, 0x00, 0x00, 0x09] @ [0x00, 0x00, 0x00, 0x00]"

definition generate_flv_tag :: "byte \<Rightarrow> 32 word \<Rightarrow> bytes \<Rightarrow> bytes" where
  "generate_flv_tag tag_type timestamp data =
     (let data_size = word_of_nat (length data) :: 32 word
      in [tag_type] @ be24_bytes data_size @ be24_bytes timestamp @ [ucast (drop_bit 24 timestamp)] @
         [0x00, 0x00, 0x00] @ data @ be32_bytes (11 + data_size))"

definition generate_avc_sequence_header :: "bytes \<Rightarrow> bytes \<Rightarrow> bytes" where
  "generate_avc_sequence_header sps pps =
     generate_flv_tag 0x09 0
       ([0x17, 0x00, 0x00, 0x00, 0x00, 0x01] @
        (if length sps \<ge> 4 then [sps ! 1, sps ! 2, sps ! 3] else [0x42, 0x00, 0x1F]) @
        [0xFF, 0xE1] @ be16_bytes (length sps) @ sps @
        [0x01] @ be16_bytes (length pps) @ pps)"

definition generate_aac_sequence_header :: bytes where
  "generate_aac_sequence_header = generate_flv_tag 0x08 0 [0xAF, 0x00, 0x12, 0x10]"

definition flv_stream_has_codec :: "stream \<Rightarrow> codec_type \<Rightarrow> bool" where
  "flv_stream_has_codec s codec = list_ex (\<lambda>t. tr_codec t = codec) (st_tracks s)"

text \<open>The two flags are arguments of the code that it does not use.\<close>

definition generate_metadata_tag :: "string \<Rightarrow> bool \<Rightarrow> bool \<Rightarrow> bytes" where
  "generate_metadata_tag stream_id has_video has_audio =
     (let key = (\<lambda>k. be16_bytes (length k) @ ascii k)
      in generate_flv_tag 0x12 0
           ([0x02] @ key ''onMetaData'' @
            [0x08] @ be32_bytes 3 @
            key ''width'' @ [0x00] @ replicate 8 0 @
            key ''height'' @ [0x00] @ replicate 8 0 @
            key ''streamName'' @ [0x02] @ key stream_id @
            [0x00, 0x00, 0x09]))"

definition frame_to_flv_video :: "media_frame \<Rightarrow> 32 word \<Rightarrow> bytes" where
  "frame_to_flv_video f timestamp =
     (let data = frame_to_rtmp_video f in if data = [] then [] else generate_flv_tag 0x09 timestamp data)"

definition frame_to_flv_audio :: "media_frame \<Rightarrow> 32 word \<Rightarrow> bytes" where
  "frame_to_flv_audio f timestamp = generate_flv_tag 0x08 timestamp (frame_to_rtmp_audio f)"

section \<open>The session\<close>

record http_flv_session =
  fs_stream_id :: stream_id
  fs_header_sent :: bool
  fs_metadata_sent :: bool
  fs_sequence_header_sent :: bool
  fs_timeline :: flv_play_timeline

definition flv_session_new :: "stream_id \<Rightarrow> http_flv_session" where
  "flv_session_new sid =
     \<lparr>fs_stream_id = sid, fs_header_sent = False, fs_metadata_sent = False,
      fs_sequence_header_sent = False, fs_timeline = flv_timeline_new\<rparr>"

text \<open>None: the timeline panics (an AAC frame with clock rate zero).\<close>

definition tag_timestamp_ms :: "http_flv_session \<Rightarrow> media_frame \<Rightarrow> (http_flv_session \<times> 32 word) option" where
  "tag_timestamp_ms s f =
     map_option (\<lambda>(t, ts). (s\<lparr>fs_timeline := t\<rparr>, word_of_nat ts)) (flv_map (fs_timeline s) f)"

definition generate_http_headers :: string where
  "generate_http_headers =
     ''HTTP/1.1 200 OK'' @ crlf @
     ''Content-Type: video/x-flv'' @ crlf @
     ''Transfer-Encoding: chunked'' @ crlf @
     ''Connection: close'' @ crlf @
     ''Access-Control-Allow-Origin: *'' @ crlf @
     ''Cache-Control: no-cache'' @ crlf @
     ''X-Accel-Buffering: no'' @ crlf @ crlf"

definition needs_sequence_headers :: "http_flv_session \<Rightarrow> bool" where
  "needs_sequence_headers s = (\<not> fs_sequence_header_sent s)"

definition generate_initial_data :: "http_flv_session \<Rightarrow> stream \<Rightarrow> http_flv_session \<times> bytes" where
  "generate_initial_data s st =
     (let has_video = (flv_stream_has_codec st H264 \<or> flv_stream_has_codec st H265);
          has_audio = flv_stream_has_codec st AAC;
          d1 = (if fs_header_sent s then [] else generate_flv_header has_video has_audio);
          d2 = (if fs_metadata_sent s then [] else generate_metadata_tag (fs_stream_id s) has_video has_audio);
          s1 = s\<lparr>fs_header_sent := True, fs_metadata_sent := True\<rparr>
      in if fs_sequence_header_sent s then (s1, d1 @ d2)
         else case (st_sps st, st_pps st) of
             (Some sps, Some pps) \<Rightarrow>
               (s1\<lparr>fs_sequence_header_sent := True\<rparr>,
                d1 @ d2 @ (if has_video then generate_avc_sequence_header sps pps else []) @
                (if has_audio then generate_aac_sequence_header else []))
           | _ \<Rightarrow> (s1, d1 @ d2))"

definition flv_frame_data :: "media_frame \<Rightarrow> 32 word \<Rightarrow> bytes" where
  "flv_frame_data f timestamp =
     (if is_video_codec (mf_codec f) then frame_to_flv_video f timestamp
      else if mf_codec f = AAC \<or> mf_codec f = Opus \<or> mf_codec f = G711 then frame_to_flv_audio f timestamp
      else [])"

definition frame_to_flv_with_timestamp ::
    "http_flv_session \<Rightarrow> media_frame \<Rightarrow> (http_flv_session \<times> bytes \<times> 32 word) option" where
  "frame_to_flv_with_timestamp s f =
     (case tag_timestamp_ms s f of
        None \<Rightarrow> None
      | Some (s', timestamp) \<Rightarrow> Some (s', flv_frame_data f timestamp, timestamp))"

definition frame_to_flv_with_wallclock ::
    "media_frame \<Rightarrow> wallclock_ms_timeline \<Rightarrow> nat \<Rightarrow> wallclock_ms_timeline \<times> bytes \<times> 32 word" where
  "frame_to_flv_with_wallclock f timeline now =
     (let (timeline', ts) = wc_map_ms timeline now; timestamp = word_of_nat ts
      in (timeline', flv_frame_data f timestamp, timestamp))"

section \<open>HTTP chunks\<close>

text \<open>\<open>{:x}\<close> of a length.\<close>

fun hex_str :: "nat \<Rightarrow> string" where
  "hex_str n = (if n < 16 then [hex_digit n] else hex_str (n div 16) @ [hex_digit (n mod 16)])"

declare hex_str.simps [simp del]

definition format_chunk :: "bytes \<Rightarrow> bytes" where
  "format_chunk data = ascii (hex_str (length data) @ crlf) @ data @ ascii crlf"

section \<open>The server\<close>

definition has_stream :: "stream_manager \<Rightarrow> stream_id \<Rightarrow> bool" where
  "has_stream m sid = (get_stream m sid \<noteq> None)"

definition create_session :: "stream_manager \<Rightarrow> stream_id \<Rightarrow> (http_flv_session \<times> stream) option" where
  "create_session m sid = map_option (\<lambda>st. (flv_session_new sid, st)) (get_stream m sid)"

section \<open>The play task\<close>

record flv_player =
  fp_stream_id :: stream_id
  fp_session :: http_flv_session
  fp_reader :: dispatch_reader
  fp_pending :: "media_frame option"
  fp_video_streaming :: bool
  fp_wallclock :: wallclock_ms_timeline
  fp_frames_sent :: nat

datatype flv_effect = Chunk bytes | Ask_keyframe stream_id

text \<open>
  One frame at time \<open>now\<close>; the writes of the missing headers and of the frame succeed as \<open>wr\<close> says.
  The boolean is False when a write failed, which leaves the loop over the batch.
\<close>

definition flv_send_frame ::
    "flv_player \<Rightarrow> nat \<Rightarrow> bool \<Rightarrow> media_frame \<Rightarrow> flv_player \<times> flv_effect list \<times> bool" where
  "flv_send_frame p now wr f =
     (let (w, data, ts) = frame_to_flv_with_wallclock f (fp_wallclock p) now;
          p1 = p\<lparr>fp_wallclock := w\<rparr>
      in if data = [] then (p1, [], True)
         else if \<not> wr then (p1, [], False)
         else (p1\<lparr>fp_frames_sent := fp_frames_sent p1 + 1\<rparr>, [Chunk (format_chunk data)], True))"

definition flv_forward ::
    "flv_player \<Rightarrow> stream_manager \<Rightarrow> nat \<Rightarrow> bool \<times> bool \<Rightarrow> media_frame \<Rightarrow>
     flv_player \<times> flv_effect list \<times> bool" where
  "flv_forward p m now wr f =
     (let video = is_video_codec (mf_codec f) in
      if mf_codec f = Opus \<or> mf_codec f = G711 then (p, [], True)
      else if video \<and> \<not> fp_video_streaming p \<and> \<not> is_idr_frame f
      then (p, [Ask_keyframe (fp_stream_id p)], True)
      else
        let p1 = (if video then p\<lparr>fp_video_streaming := True\<rparr> else p) in
        if mf_codec f = AAC \<and> length (mf_data f) < 8 then (p1, [], True)
        else if needs_sequence_headers (fp_session p1) then
          (case get_stream m (fp_stream_id p) of
             None \<Rightarrow> (p1, [], True)
           | Some st \<Rightarrow>
               (case generate_initial_data (fp_session p1) st of
                  (s, more_data) \<Rightarrow>
                    let p2 = p1\<lparr>fp_session := s\<rparr>;
                        effs = (if more_data = [] then [] else [Chunk (format_chunk more_data)])
                    in if more_data \<noteq> [] \<and> \<not> fst wr then (p2, [], False)
                       else if needs_sequence_headers s then (p2, effs, True)
                       else (case flv_send_frame p2 now (snd wr) f of
                               (p3, effs', ok) \<Rightarrow> (p3, effs @ effs', ok))))
        else flv_send_frame p1 now (snd wr) f)"

fun flv_forward_batch ::
    "(nat \<Rightarrow> nat) \<Rightarrow> (nat \<Rightarrow> bool \<times> bool) \<Rightarrow> nat \<Rightarrow> flv_player \<Rightarrow> stream_manager \<Rightarrow> media_frame list \<Rightarrow>
     flv_player \<times> flv_effect list" where
  "flv_forward_batch now wr k p m [] = (p, [])"
| "flv_forward_batch now wr k p m (f # fs) =
     (case flv_forward p m (now k) (wr k) f of
        (p1, effs, True) \<Rightarrow>
          (case flv_forward_batch now wr (k + 1) p1 m fs of (p2, effs') \<Rightarrow> (p2, effs @ effs'))
      | (p1, effs, False) \<Rightarrow> (p1, effs))"

text \<open>One turn of the outer loop; \<open>Inl\<close> is its end.\<close>

definition flv_turn ::
    "(nat \<Rightarrow> nat) \<Rightarrow> (nat \<Rightarrow> bool \<times> bool) \<Rightarrow> flv_player \<Rightarrow> stream_manager \<Rightarrow>
     stream_hub \<times> stream_hub option \<Rightarrow> (flv_player + flv_player) \<times> flv_effect list" where
  "flv_turn now wr p m hub =
     (let (p1, frames) =
            (case fp_pending p of
               Some f \<Rightarrow> (p\<lparr>fp_pending := None\<rparr>, Inr [f])
             | None \<Rightarrow>
                 (case recv_batch (fp_reader p) (fst hub) (snd hub) of
                    (r, _, res) \<Rightarrow> (p\<lparr>fp_reader := r\<rparr>, res)))
      in case frames of
           Inl Closed \<Rightarrow> (Inl p1, [])
         | Inr fs \<Rightarrow>
             if fs = [] then (Inr p1, [])
             else
               let (r, resync) = take_muxer_resync (fp_reader p1);
                   p2 = (if resync
                         then p1\<lparr>fp_reader := clear_video_catchup r, fp_video_streaming := False\<rparr>
                         else p1\<lparr>fp_reader := r\<rparr>);
                   effs = (if resync then [Ask_keyframe (fp_stream_id p)] else [])
               in case flv_forward_batch now wr 0 p2 m fs of (p3, effs') \<Rightarrow> (Inr p3, effs @ effs'))"

section \<open>Readers for what is written\<close>

text \<open>An FLV tag: type, timestamp, data, and the size of the tag after it.\<close>

function parse_tags :: "bytes \<Rightarrow> (byte \<times> 32 word \<times> bytes) list option" where
  "parse_tags bs =
     (if bs = [] then Some []
      else if length bs < 15 then None
      else
        let n = unat (be24 (bs ! 1) (bs ! 2) (bs ! 3));
            ts = push_bit 24 (ucast (bs ! 7)) OR be24 (bs ! 4) (bs ! 5) (bs ! 6)
        in if length bs < n + 15 then None
           else if drop (n + 11) (take (n + 15) bs) \<noteq> be32_bytes (word_of_nat (n + 11)) then None
           else map_option (\<lambda>tags. (bs ! 0, ts, take n (drop 11 bs)) # tags) (parse_tags (drop (n + 15) bs)))"
  by pat_completeness auto
termination
  by (relation "measure length") auto

declare parse_tags.simps [simp del]

text \<open>The file header with its flags, the first back pointer, then the tags.\<close>

definition parse_flv :: "bytes \<Rightarrow> ((bool \<times> bool) \<times> (byte \<times> 32 word \<times> bytes) list) option" where
  "parse_flv bs =
     (if length bs < 13 \<or> take 4 bs \<noteq> [0x46, 0x4C, 0x56, 0x01] \<or> drop 5 (take 13 bs) \<noteq> [0, 0, 0, 9, 0, 0, 0, 0]
      then None
      else map_option (\<lambda>tags. ((bit (bs ! 4) 0, bit (bs ! 4) 2), tags)) (parse_tags (drop 13 bs)))"

definition hex_val :: "byte \<Rightarrow> nat option" where
  "hex_val b =
     (if 48 \<le> unat b \<and> unat b \<le> 57 then Some (unat b - 48)
      else if 97 \<le> unat b \<and> unat b \<le> 102 then Some (unat b - 87)
      else None)"

text \<open>The chunk size in front of a carriage return, and where its line ends.\<close>

fun chunk_size_from :: "nat \<Rightarrow> bytes \<Rightarrow> (nat \<times> bytes) option" where
  "chunk_size_from acc [] = None"
| "chunk_size_from acc (b # bs) =
     (if b = 0x0D then (case bs of c # rest \<Rightarrow> if c = 0x0A then Some (acc, rest) else None | [] \<Rightarrow> None)
      else case hex_val b of None \<Rightarrow> None | Some d \<Rightarrow> chunk_size_from (16 * acc + d) bs)"

lemma chunk_size_from_shorter: "chunk_size_from acc bs = Some (n, rest) \<Longrightarrow> length rest < length bs"
  by (induction acc bs rule: chunk_size_from.induct) (fastforce split: if_splits list.splits option.splits)+

text \<open>The bodies of the chunks of a message, up to its end or a chunk of size zero.\<close>

function dechunk :: "bytes \<Rightarrow> bytes option" where
  "dechunk bs =
     (if bs = [] then Some []
      else case chunk_size_from 0 bs of
        None \<Rightarrow> None
      | Some (n, rest) \<Rightarrow>
          if n = 0 then Some []
          else if length rest < n + 2 \<or> take 2 (drop n rest) \<noteq> [0x0D, 0x0A] then None
          else map_option (\<lambda>body. take n rest @ body) (dechunk (drop (n + 2) rest)))"
  by pat_completeness auto
termination
  by (relation "measure length") (auto dest!: chunk_size_from_shorter)

declare dechunk.simps [simp del]

section \<open>Writing and reading\<close>

lemma ascii_crlf: "ascii crlf = [0x0D, 0x0A]"
  by (simp add: ascii_def crlf_def)

lemma hex_val_digit: "d < 16 \<Longrightarrow> hex_val (word_of_nat (of_char (hex_digit d))) = Some d"
  by (auto simp: hex_val_def hex_digit_def unat_of_nat)

lemma hex_byte_not_cr: "d < 16 \<Longrightarrow> word_of_nat (of_char (hex_digit d)) \<noteq> (0x0D :: byte)"
  by (drule hex_val_digit) (auto simp: hex_val_def)

lemma chunk_size_hex:
  "chunk_size_from acc (ascii (hex_str n) @ rest) =
   chunk_size_from (acc * 16 ^ length (hex_str n) + n) rest"
proof (induction n arbitrary: acc rest rule: hex_str.induct)
  case (1 n)
  show ?case
  proof (cases "n < 16")
    case True
    then have "ascii (hex_str n) = [word_of_nat (of_char (hex_digit n))]" "length (hex_str n) = 1"
      by (simp_all add: hex_str.simps [of n] ascii_def)
    with True show ?thesis by (simp add: hex_val_digit hex_byte_not_cr mult.commute)
  next
    case False
    let ?d = "word_of_nat (of_char (hex_digit (n mod 16))) :: byte"
    have s: "ascii (hex_str n) = ascii (hex_str (n div 16)) @ [?d]"
      "length (hex_str n) = Suc (length (hex_str (n div 16)))"
      using False by (simp_all add: hex_str.simps [of n] ascii_def)
    have "chunk_size_from acc (ascii (hex_str n) @ rest) =
        chunk_size_from (acc * 16 ^ length (hex_str (n div 16)) + n div 16) (?d # rest)"
      using 1 [OF False] by (simp add: s)
    also have "\<dots> = chunk_size_from (16 * (acc * 16 ^ length (hex_str (n div 16)) + n div 16) + n mod 16) rest"
      by (simp add: hex_val_digit hex_byte_not_cr)
    also have "16 * (acc * 16 ^ length (hex_str (n div 16)) + n div 16) + n mod 16 =
        acc * 16 ^ length (hex_str n) + n"
      by (simp add: s algebra_simps)
    finally show ?thesis .
  qed
qed

lemma dechunk_format:
  assumes "d \<noteq> []"
  shows "dechunk (format_chunk d @ rest) = map_option (\<lambda>body. d @ body) (dechunk rest)"
proof -
  have size: "chunk_size_from 0 (format_chunk d @ rest) = Some (length d, d @ [0x0D, 0x0A] @ rest)"
    by (simp add: format_chunk_def ascii_append chunk_size_hex ascii_crlf)
  have "format_chunk d \<noteq> []" using assms by (simp add: format_chunk_def)
  then show ?thesis using assms by (simp add: dechunk.simps [of "format_chunk d @ rest"] size)
qed

lemma parse_tags_step:
  assumes "unat (be24 (bs ! 1) (bs ! 2) (bs ! 3)) = n" and "n + 15 \<le> length bs"
    and "push_bit 24 (ucast (bs ! 7)) OR be24 (bs ! 4) (bs ! 5) (bs ! 6) = ts" and "bs ! 0 = ty"
    and "drop (n + 11) (take (n + 15) bs) = be32_bytes (word_of_nat (n + 11))"
    and "take n (drop 11 bs) = d" and "drop (n + 15) bs = rest"
  shows "parse_tags bs = map_option (\<lambda>tags. (ty, ts, d) # tags) (parse_tags rest)"
  using assms by (subst parse_tags.simps) (auto simp: Let_def)

lemma parse_tag:
  assumes "length d < 16777216"
  shows "parse_tags (generate_flv_tag ty ts d @ rest) = map_option (\<lambda>tags. (ty, ts, d) # tags) (parse_tags rest)"
proof -
  let ?n = "word_of_nat (length d) :: 32 word"
  let ?t = "generate_flv_tag ty ts d"
  have t: "?t @ rest = [ty, ucast (drop_bit 16 ?n), ucast (drop_bit 8 ?n), ucast ?n, ucast (drop_bit 16 ts),
      ucast (drop_bit 8 ts), ucast ts, ucast (drop_bit 24 ts), 0, 0, 0] @ d @ be32_bytes (11 + ?n) @ rest"
    by (simp add: generate_flv_tag_def be24_bytes_def Let_def)
  have size: "unat (be24 (ucast (drop_bit 16 ?n)) (ucast (drop_bit 8 ?n)) (ucast ?n)) = length d"
    using assms by (simp add: be24_bytes_inverse take_bit_24_length)
  have "push_bit 24 (ucast (ucast (drop_bit 24 ts) :: byte)) OR take_bit 24 ts = ts"
  proof -
    have slice: "k + (n - k) = (if k \<le> n then n else k)" for k n :: nat by simp
    show ?thesis by (rule bit_word_eqI) (auto simp: bit_simps slice split: if_splits)
  qed
  then have time: "push_bit 24 (ucast (ucast (drop_bit 24 ts) :: byte)) OR
      be24 (ucast (drop_bit 16 ts)) (ucast (drop_bit 8 ts)) (ucast ts) = ts"
    by (simp add: be24_bytes_inverse)
  have wrap: "word_of_nat (length d + 11) = 11 + ?n" by simp
  have tail: "drop (length d + 15) (?t @ rest) = rest" "take (length d) (drop 11 (?t @ rest)) = d"
    "drop (length d + 11) (take (length d + 15) (?t @ rest)) = be32_bytes (11 + ?n)"
  proof -
    obtain h where h: "?t @ rest = h @ d @ be32_bytes (11 + ?n) @ rest" "length h = 11"
      using t [unfolded append_Cons append_Nil]
      by (intro that [of "[ty, ucast (drop_bit 16 ?n), ucast (drop_bit 8 ?n), ucast ?n, ucast (drop_bit 16 ts),
          ucast (drop_bit 8 ts), ucast ts, ucast (drop_bit 24 ts), 0, 0, 0]"]) simp_all
    then show "drop (length d + 15) (?t @ rest) = rest" "take (length d) (drop 11 (?t @ rest)) = d"
      "drop (length d + 11) (take (length d + 15) (?t @ rest)) = be32_bytes (11 + ?n)"
      unfolding h(1) by simp_all
  qed
  have head: "(?t @ rest) ! 0 = ty" "(?t @ rest) ! 1 = ucast (drop_bit 16 ?n)"
    "(?t @ rest) ! 2 = ucast (drop_bit 8 ?n)" "(?t @ rest) ! 3 = ucast ?n"
    "(?t @ rest) ! 4 = ucast (drop_bit 16 ts)" "(?t @ rest) ! 5 = ucast (drop_bit 8 ts)"
    "(?t @ rest) ! 6 = ucast ts" "(?t @ rest) ! 7 = ucast (drop_bit 24 ts)"
    and len: "length (?t @ rest) = length d + 15 + length rest" "?t @ rest \<noteq> []"
    unfolding t by simp_all
  show ?thesis
    by (rule parse_tags_step [of _ "length d"]) (simp_all only: head len size time tail wrap le_add1)
qed

lemma parse_tags_concat:
  assumes "\<forall>(ty, ts, d)\<in>set tags. length d < 16777216"
  shows "parse_tags (concat (map (\<lambda>(ty, ts, d). generate_flv_tag ty ts d) tags)) = Some tags"
  using assms
proof (induction tags)
  case Nil
  then show ?case by (simp add: parse_tags.simps)
next
  case (Cons t tags)
  then show ?case by (cases t) (simp add: parse_tag)
qed

lemma parse_flv_header:
  "parse_flv (generate_flv_header v a @ rest) = map_option (\<lambda>tags. ((v, a), tags)) (parse_tags rest)"
  by (cases v; cases a) (simp_all add: parse_flv_def generate_flv_header_def ascii_def bit_simps)

lemma dechunk_concat:
  "\<forall>d\<in>set ds. d \<noteq> [] \<Longrightarrow> dechunk (concat (map format_chunk ds)) = Some (concat ds)"
  by (induction ds) (simp_all add: dechunk_format dechunk.simps [of "[]"])

text \<open>The metadata tag is the AMF0 encoding of its name and an array of three properties.\<close>

definition flv_metadata :: "string \<Rightarrow> amf0_value list" where
  "flv_metadata sid =
     [AString (ascii ''onMetaData''),
      EcmaArray
        [(ascii ''width'', Number 0), (ascii ''height'', Number 0), (ascii ''streamName'', AString (ascii sid))]]"

lemma metadata_tag_encodes:
  "generate_metadata_tag sid v a = generate_flv_tag 0x12 0 (encode (flv_metadata sid))"
  by (simp add: generate_metadata_tag_def flv_metadata_def encode_def be64_bytes_def numeral_eq_Suc)

lemma ascii_valid: "\<forall>c\<in>set s. (of_char c :: nat) < 128 \<Longrightarrow> utf8_valid (ascii s)"
  by (rule utf8_valid_ascii) (auto simp: ascii_def unat_of_nat)

lemma metadata_decodes:
  assumes "length sid < 65536" and "\<forall>c\<in>set sid. (of_char c :: nat) < 128"
  shows "decode (encode (flv_metadata sid)) = Inr (flv_metadata sid, length (encode (flv_metadata sid)))"
proof -
  have "amf_ok v \<and> (\<forall>n. v = Number n \<longrightarrow> take 2 (be64_bytes n) \<noteq> [0x00, 0x09])" if "v \<in> set (flv_metadata sid)" for v
    using that assms
    by (auto simp: flv_metadata_def ascii_valid) (simp_all add: ascii_def utf8_valid_ascii)
  then have "\<forall>v\<in>set (flv_metadata sid). amf_ok v \<and>
      (\<forall>n. v = Number n \<longrightarrow> take 2 (be64_bytes n) \<noteq> [0x00, 0x09])" by blast
  from decode_from_encoded [OF this, of "[]" "[]"] show ?thesis
    by (simp add: decode_def) (simp add: flv_metadata_def)
qed

lemma avc_header_tag:
  "generate_avc_sequence_header sps pps = generate_flv_tag 0x09 0 (build_avc_sequence_header sps pps)"
  by (simp add: generate_avc_sequence_header_def build_avc_sequence_header_def)

lemma aac_header_tag: "generate_aac_sequence_header = generate_flv_tag 0x08 0 build_aac_sequence_header"
  by (simp add: generate_aac_sequence_header_def build_aac_sequence_header_def)

text \<open>The tag a frame becomes.\<close>

definition flv_tag_of :: "media_frame \<times> 32 word \<Rightarrow> byte \<times> 32 word \<times> bytes" where
  "flv_tag_of q =
     (if is_video_codec (mf_codec (fst q)) then (0x09, snd q, frame_to_rtmp_video (fst q))
      else (0x08, snd q, frame_to_rtmp_audio (fst q)))"

definition flv_frame_ok :: "media_frame \<Rightarrow> bool" where
  "flv_frame_ok f \<longleftrightarrow> (is_video_codec (mf_codec f) \<and> length (frame_to_rtmp_video f) < 16777216) \<or>
     (mf_codec f = AAC \<and> length (mf_data f) < 16777214)"

lemma flv_frame_tag:
  assumes "flv_frame_ok f"
  shows "flv_frame_data f ts = (case flv_tag_of (f, ts) of (ty, ts', d) \<Rightarrow> generate_flv_tag ty ts' d) \<and>
    length (snd (snd (flv_tag_of (f, ts)))) < 16777216"
  using assms
  by (auto simp: flv_frame_ok_def flv_tag_of_def flv_frame_data_def frame_to_flv_video_def frame_to_flv_audio_def
      frame_to_rtmp_audio_def frame_to_rtmp_video_def Let_def)

lemma generate_flv_tag_not_Nil [simp]: "generate_flv_tag ty ts d \<noteq> []"
  by (simp add: generate_flv_tag_def Let_def)

definition flv_headers :: "string \<Rightarrow> bool \<Rightarrow> bool \<Rightarrow> bytes \<Rightarrow> bytes \<Rightarrow> (byte \<times> 32 word \<times> bytes) list" where
  "flv_headers sid v a sps pps =
     (0x12, 0, encode (flv_metadata sid)) #
     (if v then [(0x09, 0, build_avc_sequence_header sps pps)] else []) @
     (if a then [(0x08, 0, build_aac_sequence_header)] else [])"

lemma initial_data_tags:
  assumes "st_sps st = Some sps" and "st_pps st = Some pps"
    and "v = (flv_stream_has_codec st H264 \<or> flv_stream_has_codec st H265)" and "a = flv_stream_has_codec st AAC"
  shows "snd (generate_initial_data (flv_session_new sid) st) =
      generate_flv_header v a @
      concat (map (\<lambda>(ty, ts, d). generate_flv_tag ty ts d) (flv_headers sid v a sps pps)) \<and>
    \<not> needs_sequence_headers (fst (generate_initial_data (flv_session_new sid) st))"
  using assms
  by (simp add: generate_initial_data_def flv_session_new_def flv_headers_def Let_def metadata_tag_encodes
      avc_header_tag aac_header_tag needs_sequence_headers_def)

section \<open>Properties\<close>

text \<open>
  C20. A client can read the stream: the HTTP chunks of the initial data and of any sequence of video and AAC
  frames join to an FLV file whose tags are, in order, the metadata, the codec headers of the
  tracks the stream has, and one tag per frame with its timestamp and its payload. The metadata
  decodes to the stream's name, and the video header to the stream's SPS and PPS.
\<close>

theorem flv_over_http_roundtrip:
  assumes "st_sps st = Some sps" and "st_pps st = Some pps" and "length sps < 65536" and "length pps < 65536"
    and "length sid < 65536" and "\<forall>c\<in>set sid. (of_char c :: nat) < 128" and "\<forall>(f, ts)\<in>set fs. flv_frame_ok f"
  defines "v \<equiv> flv_stream_has_codec st H264 \<or> flv_stream_has_codec st H265"
    and "a \<equiv> flv_stream_has_codec st AAC"
  shows "\<exists>body. dechunk (concat (map format_chunk
         (snd (generate_initial_data (flv_session_new sid) st) # map (\<lambda>(f, ts). flv_frame_data f ts) fs))) = Some body \<and>
     parse_flv body = Some ((v, a), flv_headers sid v a sps pps @ map flv_tag_of fs) \<and>
     decode (encode (flv_metadata sid)) = Inr (flv_metadata sid, length (encode (flv_metadata sid))) \<and>
     parse_avc_config (drop 5 (build_avc_sequence_header sps pps)) = (sps, pps)"
proof -
  let ?init = "snd (generate_initial_data (flv_session_new sid) st)"
  let ?tag = "\<lambda>(ty, ts, d). generate_flv_tag ty ts d"
  let ?tags = "flv_headers sid v a sps pps @ map flv_tag_of fs"
  have init: "?init = generate_flv_header v a @ concat (map ?tag (flv_headers sid v a sps pps))"
    using initial_data_tags [OF assms(1,2), of v a sid] by (simp add: v_def a_def)
  have frames: "map (\<lambda>(f, ts). flv_frame_data f ts) fs = map ?tag (map flv_tag_of fs)"
    using assms(7) by (auto simp: flv_frame_tag)
  have nonempty: "\<forall>d\<in>set (?init # map ?tag (map flv_tag_of fs)). d \<noteq> []"
    by (auto simp: init generate_flv_header_def split: prod.splits)
  have meta: "length (encode (flv_metadata sid)) < 16777216"
    using assms(5) by (simp add: flv_metadata_def encode_def be64_bytes_def)
  have "\<forall>(ty, ts, d)\<in>set (flv_headers sid v a sps pps). length d < 16777216"
    using meta assms(3,4) by (auto simp: flv_headers_def build_avc_sequence_header_def build_aac_sequence_header_def)
  moreover have "length (snd (snd (flv_tag_of q))) < 16777216" if "q \<in> set fs" for q
    using flv_frame_tag [of "fst q" "snd q"] assms(7) that by (auto simp: case_prod_beta)
  then have "\<forall>(ty, ts, d)\<in>set (map flv_tag_of fs). length d < 16777216" by (auto simp: case_prod_beta)
  ultimately have small: "\<forall>(ty, ts, d)\<in>set ?tags. length d < 16777216" by auto
  have "concat (?init # map ?tag (map flv_tag_of fs)) = generate_flv_header v a @ concat (map ?tag ?tags)"
    by (simp add: init)
  then have "parse_flv (concat (?init # map ?tag (map flv_tag_of fs))) = Some ((v, a), ?tags)"
    using parse_tags_concat [OF small] by (simp add: parse_flv_header del: map_append)
  with dechunk_concat [OF nonempty] metadata_decodes [OF assms(5,6)] parse_avc_config_header [OF assms(3,4)]
  show ?thesis unfolding frames by blast
qed

definition demo_flv_stream :: stream where
  "demo_flv_stream =
     (fresh_stream ''s1'' stream_source_mode.Push RTMP None)
       \<lparr>st_tracks := default_live_tracks, st_sps := Some [0x67, 66], st_pps := Some [0x68]\<rparr>"

theorem flv_over_http_roundtrip_witness:
  "\<exists>body. dechunk (concat (map format_chunk
         (snd (generate_initial_data (flv_session_new ''s1'') demo_flv_stream) # [flv_frame_data (audio_frame 7) 40]))) =
       Some body \<and>
     parse_flv body = Some ((True, True), flv_headers ''s1'' True True [0x67, 66] [0x68] @ [flv_tag_of (audio_frame 7, 40)])"
proof -
  have st: "st_sps demo_flv_stream = Some [0x67, 66]" "st_pps demo_flv_stream = Some [0x68]"
    "flv_stream_has_codec demo_flv_stream H264" "flv_stream_has_codec demo_flv_stream AAC"
    by (simp_all add: demo_flv_stream_def flv_stream_has_codec_def default_live_tracks_def track_new_def)
  have "flv_frame_ok (audio_frame 7)" by (simp add: flv_frame_ok_def audio_frame_def)
  then show ?thesis
    using flv_over_http_roundtrip [OF st(1,2), of "''s1''" "[(audio_frame 7, 40)]"] st(3,4) by auto
qed

text \<open>
  The FLV play task does not notice that its client is gone: whether writes succeed or not, a turn of its
  loop ends the task exactly when no frame is pending and the stream's channel is closed. A
  failed write only skips the rest of its batch.
\<close>

theorem flv_task_ends_iff_closed:
  "(\<exists>p' effs. flv_turn now wr p m hub = (Inl p', effs)) \<longleftrightarrow>
     fp_pending p = None \<and> snd (snd (recv_batch (fp_reader p) (fst hub) (snd hub))) = Inl Closed"
proof (cases "fp_pending p")
  case (Some f)
  then show ?thesis by (auto simp: flv_turn_def Let_def split: prod.splits)
next
  case None
  obtain r n res where b: "recv_batch (fp_reader p) (fst hub) (snd hub) = (r, n, res)" by (metis prod.exhaust)
  show ?thesis
  proof (cases res)
    case (Inl e)
    with None b show ?thesis by (cases e) (simp add: flv_turn_def)
  next
    case (Inr fs)
    with None b show ?thesis by (auto simp: flv_turn_def Let_def split: prod.splits)
  qed
qed

end
