(* ===== verification/M3u8.thy ===== *)
theory M3u8
  imports Text_Lines
begin

text \<open>
  \<open>src/src/server/hls/m3u8.rs\<close>: the sliding window of a live playlist and its text. The arithmetic of
  \<open>f64\<close> is a record of operations, an argument of the definitions that calculate or print a
  duration; the calendar text of \<open>format_program_date_time\<close>, which the \<open>time\<close> crate computes, is an
  argument too. A \<open>SystemTime\<close> is its nanoseconds since the epoch.
\<close>

section \<open>Floating point operations the code uses\<close>

text \<open>\<open>fl_lit n\<close> is the literal \<open>n / 100\<close>; \<open>fl_millis n\<close> is \<open>n as f64 / 1000.0\<close>; \<open>fl_fixed3\<close> is \<open>{:.3}\<close>.\<close>

record 'f f64_ops =
  fl_lit :: "nat \<Rightarrow> 'f"
  fl_millis :: "nat \<Rightarrow> 'f"
  fl_add :: "'f \<Rightarrow> 'f \<Rightarrow> 'f"
  fl_mul :: "'f \<Rightarrow> 'f \<Rightarrow> 'f"
  fl_max :: "'f \<Rightarrow> 'f \<Rightarrow> 'f"
  fl_le :: "'f \<Rightarrow> 'f \<Rightarrow> bool"
  fl_ceil :: "'f \<Rightarrow> 'f"
  fl_as_u64 :: "'f \<Rightarrow> nat"
  fl_fixed3 :: "'f \<Rightarrow> string"
  fl_nanos :: "'f \<Rightarrow> nat"

section \<open>State\<close>

record 'f segment =
  sg_sequence :: nat
  sg_duration :: 'f
  sg_filename :: string
  sg_program_date_time :: int
  sg_discontinuity :: bool

record 'f m3u8_generator =
  m3_target_duration :: 'f
  m3_max_segments :: nat
  m3_media_sequence :: nat
  m3_segments :: "'f segment list"
  m3_next_sequence :: nat
  m3_discontinuity_sequence :: nat
  m3_ended :: bool

definition m3u8_new :: "'f \<Rightarrow> nat \<Rightarrow> 'f m3u8_generator" where
  "m3u8_new target max_segments =
     \<lparr>m3_target_duration = target, m3_max_segments = max max_segments 1, m3_media_sequence = 0,
      m3_segments = [], m3_next_sequence = 0, m3_discontinuity_sequence = 0, m3_ended = False\<rparr>"

definition segment_filename :: "nat \<Rightarrow> string" where
  "segment_filename sequence = ''segment_'' @ dec_str sequence @ ''.ts''"

definition slot_filename :: "nat \<Rightarrow> nat \<Rightarrow> string" where
  "slot_filename sequence max_segments = segment_filename sequence"

text \<open>The loop that pops the front while the window is too long, with its two counters.\<close>

fun pop_old :: "nat \<Rightarrow> 'f segment list \<Rightarrow> nat \<Rightarrow> nat \<Rightarrow> 'f segment list \<times> nat \<times> nat" where
  "pop_old k [] ms ds = ([], ms, ds)"
| "pop_old k (s # ss) ms ds =
     (if length (s # ss) > k then pop_old k ss (ms + 1) (if sg_discontinuity s then ds + 1 else ds)
      else (s # ss, ms, ds))"

definition add_segment :: "'f m3u8_generator \<Rightarrow> 'f \<Rightarrow> nat \<Rightarrow> int \<Rightarrow> bool \<Rightarrow> 'f m3u8_generator" where
  "add_segment g duration sequence pdt discontinuity =
     (let s = \<lparr>sg_sequence = sequence, sg_duration = duration, sg_filename = segment_filename sequence,
               sg_program_date_time = pdt, sg_discontinuity = discontinuity\<rparr>;
          (segs, ms, ds) = pop_old (m3_max_segments g) (m3_segments g @ [s]) (m3_media_sequence g)
            (m3_discontinuity_sequence g)
      in g\<lparr>m3_segments := segs, m3_next_sequence := sequence + 1, m3_media_sequence := ms,
           m3_discontinuity_sequence := ds\<rparr>)"

definition set_ended :: "'f m3u8_generator \<Rightarrow> 'f m3u8_generator" where
  "set_ended g = g\<lparr>m3_ended := True\<rparr>"

definition segment_count :: "'f m3u8_generator \<Rightarrow> nat" where
  "segment_count g = length (m3_segments g)"

section \<open>Text\<close>

definition playlist_target_duration :: "'f f64_ops \<Rightarrow> 'f m3u8_generator \<Rightarrow> nat" where
  "playlist_target_duration F g =
     (let observed = foldl (fl_max F) (m3_target_duration g) (List.map sg_duration (m3_segments g))
      in fl_as_u64 F (fl_max F (fl_ceil F observed) (fl_lit F 100)))"

definition segment_lines :: "'f f64_ops \<Rightarrow> (int \<Rightarrow> string) \<Rightarrow> 'f segment \<Rightarrow> string list" where
  "segment_lines F date s =
     (if sg_discontinuity s then [''#EXT-X-DISCONTINUITY''] else []) @
     [''#EXT-X-PROGRAM-DATE-TIME:'' @ date (sg_program_date_time s),
      ''#EXTINF:'' @ fl_fixed3 F (sg_duration s) @ '','',
      sg_filename s]"

definition playlist_lines :: "'f f64_ops \<Rightarrow> (int \<Rightarrow> string) \<Rightarrow> 'f m3u8_generator \<Rightarrow> string list" where
  "playlist_lines F date g =
     [''#EXTM3U'', ''#EXT-X-VERSION:3'', ''#EXT-X-INDEPENDENT-SEGMENTS'',
      ''#EXT-X-TARGETDURATION:'' @ dec_str (playlist_target_duration F g),
      ''#EXT-X-MEDIA-SEQUENCE:'' @ dec_str (m3_media_sequence g)] @
     (if m3_discontinuity_sequence g > 0
      then [''#EXT-X-DISCONTINUITY-SEQUENCE:'' @ dec_str (m3_discontinuity_sequence g)] else []) @
     concat (List.map (segment_lines F date) (m3_segments g)) @
     (if m3_ended g then [''#EXT-X-ENDLIST''] else [])"

definition generate :: "'f f64_ops \<Rightarrow> (int \<Rightarrow> string) \<Rightarrow> 'f m3u8_generator \<Rightarrow> string" where
  "generate F date g = unlines_crlf (playlist_lines F date g)"

section \<open>A player\<close>

text \<open>What a player keeps of a playlist: RFC 8216 with the tags above, the others ignored.\<close>

record player_list =
  pl_media_sequence :: nat
  pl_discontinuity_sequence :: nat
  pl_discontinuity :: bool
  pl_date :: string
  pl_extinf :: string
  pl_entries :: "(bool \<times> string \<times> string \<times> string) list"
  pl_ended :: bool

definition player_start :: player_list where
  "player_start =
     \<lparr>pl_media_sequence = 0, pl_discontinuity_sequence = 0, pl_discontinuity = False, pl_date = [],
      pl_extinf = [], pl_entries = [], pl_ended = False\<rparr>"

definition read_line :: "player_list \<Rightarrow> string \<Rightarrow> player_list" where
  "read_line p l =
     (if l = ''#EXT-X-DISCONTINUITY'' then p\<lparr>pl_discontinuity := True\<rparr>
      else if l = ''#EXT-X-ENDLIST'' then p\<lparr>pl_ended := True\<rparr>
      else case strip_prefix ''#EXT-X-MEDIA-SEQUENCE:'' l of
        Some n \<Rightarrow> p\<lparr>pl_media_sequence := dec_val n\<rparr>
      | None \<Rightarrow> (case strip_prefix ''#EXT-X-DISCONTINUITY-SEQUENCE:'' l of
        Some n \<Rightarrow> p\<lparr>pl_discontinuity_sequence := dec_val n\<rparr>
      | None \<Rightarrow> (case strip_prefix ''#EXT-X-PROGRAM-DATE-TIME:'' l of
        Some d \<Rightarrow> p\<lparr>pl_date := d\<rparr>
      | None \<Rightarrow> (case strip_prefix ''#EXTINF:'' l of
        Some d \<Rightarrow> p\<lparr>pl_extinf := d\<rparr>
      | None \<Rightarrow>
          if prefix ''#'' l then p
          else p\<lparr>pl_entries := pl_entries p @ [(pl_discontinuity p, pl_date p, pl_extinf p, l)],
                 pl_discontinuity := False\<rparr>))))"

definition read_playlist :: "string \<Rightarrow> player_list" where
  "read_playlist s = foldl read_line player_start (text_lines s)"

lemma read_line_tags [simp]:
  "read_line p ''#EXTM3U'' = p" "read_line p ''#EXT-X-VERSION:3'' = p" "read_line p ''#EXT-X-INDEPENDENT-SEGMENTS'' = p"
  "read_line p ''#EXT-X-DISCONTINUITY'' = p\<lparr>pl_discontinuity := True\<rparr>"
  "read_line p ''#EXT-X-ENDLIST'' = p\<lparr>pl_ended := True\<rparr>"
  by (simp_all add: read_line_def strip_prefix_def)

lemma read_line_values:
  "read_line p (''#EXT-X-TARGETDURATION:'' @ x) = p"
  "read_line p (''#EXT-X-MEDIA-SEQUENCE:'' @ x) = p\<lparr>pl_media_sequence := dec_val x\<rparr>"
  "read_line p (''#EXT-X-DISCONTINUITY-SEQUENCE:'' @ x) = p\<lparr>pl_discontinuity_sequence := dec_val x\<rparr>"
  "read_line p (''#EXT-X-PROGRAM-DATE-TIME:'' @ x) = p\<lparr>pl_date := x\<rparr>"
  "read_line p (''#EXTINF:'' @ x) = p\<lparr>pl_extinf := x\<rparr>"
  "read_line p (''segment_'' @ x) =
     p\<lparr>pl_entries := pl_entries p @ [(pl_discontinuity p, pl_date p, pl_extinf p, ''segment_'' @ x)],
       pl_discontinuity := False\<rparr>"
  by (simp_all add: read_line_def strip_prefix_def)

definition entry_of :: "'f f64_ops \<Rightarrow> (int \<Rightarrow> string) \<Rightarrow> 'f segment \<Rightarrow> bool \<times> string \<times> string \<times> string" where
  "entry_of F date s =
     (sg_discontinuity s, date (sg_program_date_time s), fl_fixed3 F (sg_duration s) @ '','', sg_filename s)"

text \<open>File names are those of \<open>add_segment\<close>.\<close>

definition named :: "'f m3u8_generator \<Rightarrow> bool" where
  "named g \<longleftrightarrow> (\<forall>s\<in>set (m3_segments g). sg_filename s = segment_filename (sg_sequence s))"

lemma read_segment_lines:
  assumes "sg_filename s = segment_filename n" and "\<not> pl_discontinuity p"
  shows "\<exists>d x. foldl read_line p (segment_lines F date s) =
     p\<lparr>pl_entries := pl_entries p @ [entry_of F date s], pl_date := d, pl_extinf := x\<rparr>"
  using assms
  by (intro exI [of _ "date (sg_program_date_time s)"] exI [of _ "fl_fixed3 F (sg_duration s) @ '',''"])
    (simp add: segment_lines_def entry_of_def segment_filename_def
      read_line_values [simplified append.simps] del: append_assoc)

lemma read_segments:
  assumes "\<forall>s\<in>set ss. sg_filename s = segment_filename (sg_sequence s)" and "\<not> pl_discontinuity p"
  shows "\<exists>d x. foldl read_line p (concat (List.map (segment_lines F date) ss)) =
     p\<lparr>pl_entries := pl_entries p @ List.map (entry_of F date) ss, pl_date := d, pl_extinf := x\<rparr>"
  using assms
proof (induction ss arbitrary: p)
  case Nil
  then show ?case by (intro exI [of _ "pl_date p"] exI [of _ "pl_extinf p"]) simp
next
  case (Cons s ss)
  from Cons.prems have "sg_filename s = segment_filename (sg_sequence s)" by simp
  from read_segment_lines [OF this Cons.prems(2), of F date] obtain d x where
    1: "foldl read_line p (segment_lines F date s) =
      p\<lparr>pl_entries := pl_entries p @ [entry_of F date s], pl_date := d, pl_extinf := x\<rparr>" (is "_ = ?q")
    by blast
  have "\<not> pl_discontinuity ?q" "\<forall>s\<in>set ss. sg_filename s = segment_filename (sg_sequence s)"
    using Cons.prems by simp_all
  from Cons.IH [OF this(2,1)] obtain d' x' where
    "foldl read_line ?q (concat (List.map (segment_lines F date) ss)) =
      ?q\<lparr>pl_entries := pl_entries ?q @ List.map (entry_of F date) ss, pl_date := d', pl_extinf := x'\<rparr>"
    by blast
  with 1 show ?case by (intro exI [of _ d'] exI [of _ x']) simp
qed

definition one_line :: "string \<Rightarrow> bool" where
  "one_line s \<longleftrightarrow> CHR 0x0A \<notin> set s"

lemma one_line_dec_str [simp]: "CHR 0x0A \<notin> set (dec_str n)"
  using dec_str_digits [of n] by (auto simp: list_all_iff is_digit_def)

lemma playlist_lines_one_line:
  assumes "named g" and "\<forall>t. one_line (date t)" and "\<forall>x. one_line (fl_fixed3 F x)"
  shows "\<forall>l\<in>set (playlist_lines F date g). CHR 0x0A \<notin> set l"
  using assms by (auto simp: playlist_lines_def segment_lines_def named_def segment_filename_def one_line_def)

lemma read_playlist_generate:
  assumes "named g" and "\<forall>t. one_line (date t)" and "\<forall>x. one_line (fl_fixed3 F x)"
  shows "\<exists>d x. read_playlist (generate F date g) =
     player_start\<lparr>pl_media_sequence := m3_media_sequence g,
       pl_discontinuity_sequence := m3_discontinuity_sequence g,
       pl_entries := List.map (entry_of F date) (m3_segments g), pl_date := d, pl_extinf := x, pl_ended := m3_ended g\<rparr>"
proof -
  let ?p = "player_start\<lparr>pl_media_sequence := m3_media_sequence g,
    pl_discontinuity_sequence := m3_discontinuity_sequence g\<rparr>"
  have start: "\<not> pl_discontinuity ?p" "pl_entries ?p = []" "pl_ended ?p = False" by (simp_all add: player_start_def)
  from read_segments [OF assms(1) [unfolded named_def] start(1), of F date] obtain d x where
    segs: "foldl read_line ?p (concat (List.map (segment_lines F date) (m3_segments g))) =
      ?p\<lparr>pl_entries := List.map (entry_of F date) (m3_segments g), pl_date := d, pl_extinf := x\<rparr>"
    using start(2) by auto
  have zero: "m3_discontinuity_sequence g = 0 \<Longrightarrow> player_start\<lparr>pl_media_sequence := m3_media_sequence g\<rparr> = ?p"
    by (simp add: player_start_def)
  note tag_values = read_line_values(1-3) [simplified append.simps]
  have "text_lines (generate F date g) = playlist_lines F date g"
    unfolding generate_def by (rule text_lines_unlines [OF playlist_lines_one_line [OF assms]])
  then have "read_playlist (generate F date g) =
      ?p\<lparr>pl_entries := List.map (entry_of F date) (m3_segments g), pl_date := d, pl_extinf := x, pl_ended := m3_ended g\<rparr>"
    unfolding read_playlist_def playlist_lines_def using segs start(3) zero
    by (cases "m3_discontinuity_sequence g > 0"; cases "m3_ended g") (simp_all add: tag_values)
  then show ?thesis by blast
qed

text \<open>A player that reads the generated playlist by the rules of RFC 8216 gets exactly the window:
  its media sequence and discontinuity sequence, every segment in order with its discontinuity
  flag, date, duration and file name, and whether the list has ended.\<close>

theorem playlist_roundtrip:
  assumes "named g" and "\<forall>t. one_line (date t)" and "\<forall>x. one_line (fl_fixed3 F x)"
  shows "pl_media_sequence (read_playlist (generate F date g)) = m3_media_sequence g \<and>
     pl_discontinuity_sequence (read_playlist (generate F date g)) = m3_discontinuity_sequence g \<and>
     pl_entries (read_playlist (generate F date g)) = List.map (entry_of F date) (m3_segments g) \<and>
     pl_ended (read_playlist (generate F date g)) = m3_ended g"
  using read_playlist_generate [OF assms] by (auto simp: player_start_def)

section \<open>The window over time\<close>

text \<open>The server adds segments one after the other, with the number the playlist expects next.\<close>

definition commit_next :: "'f m3u8_generator \<Rightarrow> 'f \<times> int \<times> bool \<Rightarrow> 'f m3u8_generator" where
  "commit_next g s = (case s of (d, t, c) \<Rightarrow> add_segment g d (m3_next_sequence g) t c)"

text \<open>Everything ever committed, numbered from \<open>n\<close>.\<close>

fun numbered :: "nat \<Rightarrow> ('f \<times> int \<times> bool) list \<Rightarrow> 'f segment list" where
  "numbered n [] = []"
| "numbered n ((d, t, c) # xs) =
     \<lparr>sg_sequence = n, sg_duration = d, sg_filename = segment_filename n, sg_program_date_time = t,
      sg_discontinuity = c\<rparr> # numbered (n + 1) xs"

lemma length_numbered [simp]: "length (numbered n xs) = length xs"
  by (induction n xs rule: numbered.induct) simp_all

lemma numbered_snoc:
  "numbered n (xs @ [(d, t, c)]) = numbered n xs @
     [\<lparr>sg_sequence = n + length xs, sg_duration = d, sg_filename = segment_filename (n + length xs),
       sg_program_date_time = t, sg_discontinuity = c\<rparr>]"
  by (induction n xs rule: numbered.induct) simp_all

lemma numbered_nth: "i < length xs \<Longrightarrow> sg_sequence (numbered n xs ! i) = n + i"
proof (induction n xs arbitrary: i rule: numbered.induct)
  case (2 n d t c xs)
  then show ?case by (cases i) simp_all
qed simp

lemma numbered_named: "s \<in> set (numbered n xs) \<Longrightarrow> sg_filename s = segment_filename (sg_sequence s)"
  by (induction n xs rule: numbered.induct) auto

lemma pop_old_drop:
  "pop_old k ss ms ds = (drop (length ss - k) ss, ms + (length ss - k),
     ds + length (filter sg_discontinuity (take (length ss - k) ss)))"
proof (induction k ss ms ds rule: pop_old.induct)
  case (2 k s ss ms ds)
  then show ?case by (cases "length ss - k"; cases "length ss < k") (auto simp: Suc_diff_le not_less le_Suc_eq)
qed simp

text \<open>The abstract playlist is the list of everything committed; the code keeps a window of it.\<close>

definition window_of :: "'f segment list \<Rightarrow> 'f m3u8_generator \<Rightarrow> bool" where
  "window_of h g \<longleftrightarrow>
     (let k = length h - m3_max_segments g
      in m3_segments g = drop k h \<and> m3_media_sequence g = k \<and>
         m3_discontinuity_sequence g = length (filter sg_discontinuity (take k h)) \<and>
         m3_next_sequence g = length h)"

lemma add_segment_max [simp]: "m3_max_segments (add_segment g d n t c) = m3_max_segments g"
  by (simp add: add_segment_def Let_def split: prod.splits)

lemma add_segment_window:
  assumes "window_of h g" and "1 \<le> m3_max_segments g"
  shows "window_of (h @ [\<lparr>sg_sequence = length h, sg_duration = d, sg_filename = segment_filename (length h),
     sg_program_date_time = t, sg_discontinuity = c\<rparr>]) (add_segment g d (length h) t c)"
proof -
  define k where "k = length h - m3_max_segments g"
  define s where "s = \<lparr>sg_sequence = length h, sg_duration = d, sg_filename = segment_filename (length h),
     sg_program_date_time = t, sg_discontinuity = c\<rparr>"
  define ss where "ss = drop k h @ [s]"
  define j where "j = length ss - m3_max_segments g"
  from assms(1) have w: "m3_segments g = drop k h" "m3_media_sequence g = k"
    "m3_discontinuity_sequence g = length (filter sg_discontinuity (take k h))" "m3_next_sequence g = length h"
    by (simp_all add: window_of_def k_def Let_def)
  have k: "k \<le> length h" by (simp add: k_def)
  have K: "length (h @ [s]) - m3_max_segments g = k + j"
    using assms(2) by (auto simp: j_def ss_def k_def)
  have ss: "ss = drop k (h @ [s])" using k by (simp add: ss_def)
  have "drop j ss = drop (k + j) (h @ [s])" unfolding ss by (simp only: drop_drop add.commute)
  moreover have "take (k + j) (h @ [s]) = take k h @ take j ss"
  proof -
    have "take k (h @ [s]) = take k h" using k by simp
    then show ?thesis unfolding ss take_add by simp
  qed
  ultimately show ?thesis
    unfolding s_def [symmetric] window_of_def add_segment_def Let_def w pop_old_drop prod.case
      ss_def [symmetric] j_def [symmetric] m3u8_generator.simps
    using K by (simp del: drop_append take_append)
qed

lemma commit_window:
  "window_of (numbered 0 xs) (foldl commit_next (m3u8_new target n) xs) \<and>
   m3_max_segments (foldl commit_next (m3u8_new target n) xs) = max n 1"
proof (induction xs rule: rev_induct)
  case Nil
  then show ?case by (simp add: window_of_def m3u8_new_def)
next
  case (snoc x xs)
  obtain d t c where x: "x = (d, t, c)" by (cases x)
  let ?g = "foldl commit_next (m3u8_new target n) xs"
  have w: "window_of (numbered 0 xs) ?g" "m3_max_segments ?g = max n 1" using snoc by simp_all
  then have "m3_next_sequence ?g = length xs" by (simp add: window_of_def Let_def)
  then have step: "foldl commit_next (m3u8_new target n) (xs @ [x]) = add_segment ?g d (length xs) t c"
    by (simp add: x commit_next_def)
  show ?case
    using add_segment_window [OF w(1), of d t c] w(2) unfolding step unfolding x numbered_snoc by simp
qed

text \<open>C29. The window refines the list of all segments ever committed: it is the last \<open>max_segments\<close>
  of them, the media sequence is the number of its first segment, and the discontinuity
  sequence counts the marked segments that were popped, so that a segment keeps its number and
  its discontinuity number while the window moves.\<close>

theorem playlist_refines_history:
  "window_of (numbered 0 xs) (foldl commit_next (m3u8_new target n) xs) \<and>
   m3_max_segments (foldl commit_next (m3u8_new target n) xs) = max n 1"
  by (rule commit_window)

lemma named_window: "window_of (numbered n xs) g \<Longrightarrow> named g"
  by (auto simp: window_of_def named_def Let_def dest!: in_set_dropD numbered_named)

section \<open>An instance of the operations\<close>

text \<open>Exact thousandths, for evaluation on values that are thousandths.\<close>

definition milli_ops :: "nat f64_ops" where
  "milli_ops =
     \<lparr>fl_lit = (\<lambda>n. 10 * n), fl_millis = (\<lambda>n. n), fl_add = (+), fl_mul = (\<lambda>a b. a * b div 1000), fl_max = max,
      fl_le = (\<le>), fl_ceil = (\<lambda>x. (x + 999) div 1000 * 1000), fl_as_u64 = (\<lambda>x. x div 1000),
      fl_fixed3 = (\<lambda>x. dec_str (x div 1000) @ ''.'' @ dec_str (x div 100 mod 10) @ dec_str (x div 10 mod 10) @ dec_str (x mod 10)),
      fl_nanos = (\<lambda>x. x * 1000000)\<rparr>"

definition demo_playlist :: "nat m3u8_generator" where
  "demo_playlist = foldl commit_next (m3u8_new 1000 2) [(960, 0, False), (1000, 1, True), (980, 2, False), (1200, 3, False)]"

theorem playlist_roundtrip_witness:
  "pl_media_sequence (read_playlist (generate milli_ops (\<lambda>t. dec_str (nat t)) demo_playlist)) = 2 \<and>
   pl_discontinuity_sequence (read_playlist (generate milli_ops (\<lambda>t. dec_str (nat t)) demo_playlist)) = 1 \<and>
   List.map (\<lambda>(c, d, x, u). u) (pl_entries (read_playlist (generate milli_ops (\<lambda>t. dec_str (nat t)) demo_playlist))) =
     [''segment_2.ts'', ''segment_3.ts'']"
proof -
  have "named demo_playlist"
    unfolding demo_playlist_def by (rule named_window [OF conjunct1 [OF commit_window]])
  from playlist_roundtrip [OF this, of "\<lambda>t. dec_str (nat t)" milli_ops]
  have "pl_media_sequence (read_playlist (generate milli_ops (\<lambda>t. dec_str (nat t)) demo_playlist)) = m3_media_sequence demo_playlist"
    "pl_discontinuity_sequence (read_playlist (generate milli_ops (\<lambda>t. dec_str (nat t)) demo_playlist)) =
       m3_discontinuity_sequence demo_playlist"
    "pl_entries (read_playlist (generate milli_ops (\<lambda>t. dec_str (nat t)) demo_playlist)) =
       List.map (entry_of milli_ops (\<lambda>t. dec_str (nat t))) (m3_segments demo_playlist)"
    by (simp_all add: one_line_def milli_ops_def)
  moreover have "m3_media_sequence demo_playlist = 2" "m3_discontinuity_sequence demo_playlist = 1"
    "List.map sg_filename (m3_segments demo_playlist) = [''segment_2.ts'', ''segment_3.ts'']"
    by code_simp+
  ultimately show ?thesis by (simp add: entry_of_def case_prod_beta o_def)
qed

end
