(* ===== verification/Hls_Session.thy ===== *)
theory Hls_Session
  imports Ts_Stream M3u8 Timestamp H264_Util
begin

text \<open>
  \<open>src/src/server/hls/timing.rs\<close> and the session of \<open>src/src/server/hls/mod.rs\<close>: one stream's muxing
  state, its timelines in milliseconds, the decision to close a segment at a keyframe, and
  \<open>on_frame\<close>. The clock reading used for a closed segment is the argument \<open>now\<close>; fields that only
  record a wall clock and are never read (\<open>segment_wall_start\<close>, \<open>wall_anchor\<close>,
  \<open>session_pdt_anchor\<close>) and the output directory are left out.
\<close>

section \<open>Timing\<close>

definition MIN_VIDEO_MUX_STEP_MS :: nat where "MIN_VIDEO_MUX_STEP_MS = 40"
definition MIN_SEGMENT_BYTES :: nat where "MIN_SEGMENT_BYTES = 512"

definition closed_segment_secs :: "'f f64_ops \<Rightarrow> nat \<Rightarrow> nat \<Rightarrow> 'f" where
  "closed_segment_secs F last_mux_ms open_mux_ms_at_split =
     (let span_ms = last_mux_ms - open_mux_ms_at_split in fl_max F (fl_millis F span_ms) (fl_lit F 25))"

definition split_threshold_secs :: "'f f64_ops \<Rightarrow> 'f \<Rightarrow> nat \<Rightarrow> 'f" where
  "split_threshold_secs F target_duration committed_segments =
     (if committed_segments = 0 then fl_lit F 35 else target_duration)"

record 'f split_eval =
  se_is_keyframe :: bool
  se_mux_secs :: 'f
  se_publisher_secs :: 'f
  se_split_threshold :: 'f
  se_committed_segments :: nat
  se_has_muxed_media :: bool
  se_buffer_len :: nat
  se_min_segment_bytes :: nat

definition should_split_segment :: "'f f64_ops \<Rightarrow> 'f split_eval \<Rightarrow> bool" where
  "should_split_segment F i =
     (if \<not> se_is_keyframe i \<or> \<not> se_has_muxed_media i \<or> se_buffer_len i \<le> se_min_segment_bytes i then False
      else
        let ready_by_time =
              fl_le F (fl_mul F (se_split_threshold i) (fl_lit F 85)) (se_mux_secs i) \<or>
              fl_le F (fl_mul F (se_split_threshold i) (fl_lit F 85)) (se_publisher_secs i);
            force_on_long_gop =
              fl_le F (fl_mul F (se_split_threshold i) (fl_lit F 150)) (se_mux_secs i) \<or>
              fl_le F (fl_mul F (se_split_threshold i) (fl_lit F 150)) (se_publisher_secs i);
            first_segment = (se_committed_segments i = 0 \<and> fl_le F (fl_lit F 35) (se_mux_secs i))
        in ready_by_time \<or> force_on_long_gop \<or> first_segment)"

definition advance_video_mux_ms :: "nat \<Rightarrow> nat \<Rightarrow> nat \<Rightarrow> nat option \<Rightarrow> nat \<times> nat" where
  "advance_video_mux_ms session_last_raw_video session_video_mux_ms frame_timestamp clock_rate =
     (let step =
            (if session_last_raw_video > 0 \<and> frame_timestamp > session_last_raw_video then
               let delta = media_timestamp_delta_ms_with_clock session_last_raw_video frame_timestamp clock_rate
               in if delta > 0 \<and> delta < 500 then delta else MIN_VIDEO_MUX_STEP_MS
             else if session_video_mux_ms = 0 then 0
             else MIN_VIDEO_MUX_STEP_MS);
          new_mux_ms =
            (if session_video_mux_ms = 0 \<and> step = 0 then 0
             else sat_add64 session_video_mux_ms (if step = 0 then MIN_VIDEO_MUX_STEP_MS else step))
      in (frame_timestamp, new_mux_ms))"

definition live_pdt :: "'f f64_ops \<Rightarrow> 'f \<Rightarrow> int \<Rightarrow> int" where
  "live_pdt F duration now =
     (let t = now - int (fl_nanos F (fl_max F duration (fl_lit F 0)))
      in if t < - (2 ^ 63) * 10 ^ 9 then now else t)"

section \<open>State\<close>

record 'f hls_session =
  hs_stream_id :: string
  hs_muxer :: ts_muxer
  hs_playlist :: "'f m3u8_generator"
  hs_segment_buffer :: bytes
  hs_segment_duration_acc :: 'f
  hs_active :: bool
  hs_primed :: bool
  hs_session_audio_frames :: nat
  hs_last_video_timestamp :: nat
  hs_session_video_mux_ms :: nat
  hs_session_audio_mux_ms :: nat
  hs_session_last_raw_video :: nat
  hs_session_last_raw_audio :: "nat option"
  hs_segment_open_mux_ms :: nat
  hs_segment_last_mux_ms :: nat
  hs_segment_open_mux_ms_at_split :: nat
  hs_segment_last_idr_mux_ms :: nat
  hs_pending_discontinuity :: bool

record 'f completed_segment =
  cs_data :: bytes
  cs_filename :: string
  cs_duration :: 'f
  cs_seq :: nat
  cs_pdt :: int
  cs_discontinuity :: bool

definition hls_session_new :: "'f f64_ops \<Rightarrow> string \<Rightarrow> 'f \<Rightarrow> nat \<Rightarrow> 'f hls_session" where
  "hls_session_new F stream_id segment_duration max_segments =
     \<lparr>hs_stream_id = stream_id, hs_muxer = muxer_new, hs_playlist = m3u8_new segment_duration max_segments,
      hs_segment_buffer = [], hs_segment_duration_acc = fl_lit F 0, hs_active = True, hs_primed = False,
      hs_session_audio_frames = 0, hs_last_video_timestamp = 0, hs_session_video_mux_ms = 0,
      hs_session_audio_mux_ms = 0, hs_session_last_raw_video = 0, hs_session_last_raw_audio = None,
      hs_segment_open_mux_ms = 0, hs_segment_last_mux_ms = 0, hs_segment_open_mux_ms_at_split = 0,
      hs_segment_last_idr_mux_ms = 0, hs_pending_discontinuity = False\<rparr>"

definition is_hls_video_keyframe :: "media_frame \<Rightarrow> bool" where
  "is_hls_video_keyframe f = (is_video_codec (mf_codec f) \<and> (mf_is_keyframe f \<or> is_keyframe_annex_b (mf_data f)))"

definition recover_from_lag :: "'f f64_ops \<Rightarrow> 'f hls_session \<Rightarrow> 'f hls_session" where
  "recover_from_lag F s =
     s\<lparr>hs_segment_buffer := [], hs_segment_duration_acc := fl_lit F 0, hs_last_video_timestamp := 0,
       hs_segment_open_mux_ms := hs_session_video_mux_ms s, hs_segment_last_mux_ms := hs_session_video_mux_ms s,
       hs_segment_open_mux_ms_at_split := hs_session_video_mux_ms s, hs_segment_last_idr_mux_ms := 0,
       hs_pending_discontinuity := True\<rparr>"

definition segment_mux_secs :: "'f f64_ops \<Rightarrow> 'f hls_session \<Rightarrow> 'f" where
  "segment_mux_secs F s =
     fl_millis F (hs_segment_last_mux_ms s - max (hs_segment_open_mux_ms_at_split s) (hs_segment_open_mux_ms s))"

definition begin_new_segment :: "'f f64_ops \<Rightarrow> 'f hls_session \<Rightarrow> 'f hls_session" where
  "begin_new_segment F s =
     s\<lparr>hs_segment_duration_acc := fl_lit F 0, hs_last_video_timestamp := 0,
       hs_segment_open_mux_ms := hs_session_video_mux_ms s,
       hs_segment_open_mux_ms_at_split := hs_session_video_mux_ms s, hs_segment_last_idr_mux_ms := 0,
       hs_muxer := reset_for_new_segment (hs_muxer s)\<rparr>"

text \<open>\<open>pts.clamp(lo, hi)\<close>\<close>

definition clamp :: "nat \<Rightarrow> nat \<Rightarrow> nat \<Rightarrow> nat" where
  "clamp x lo hi = (if x < lo then lo else if hi < x then hi else x)"

definition audio_pts :: "'f hls_session \<Rightarrow> media_frame \<Rightarrow> nat" where
  "audio_pts s f =
     (case hs_session_last_raw_audio s of
        Some last_raw \<Rightarrow>
          if mf_timestamp f > last_raw then
            let delta = media_timestamp_delta_ms_with_clock last_raw (mf_timestamp f) (mf_clock_rate f)
            in if delta > 0 \<and> delta < 2000 then sat_add64 (hs_session_audio_mux_ms s) delta
               else hs_session_video_mux_ms s
          else hs_session_audio_mux_ms s
      | None \<Rightarrow> hs_session_video_mux_ms s)"

definition mux_timestamp_ms :: "'f hls_session \<Rightarrow> media_frame \<Rightarrow> 'f hls_session \<times> nat" where
  "mux_timestamp_ms s f =
     (if mf_codec f = AAC then
        let min_audio_ms = hs_session_video_mux_ms s - 200;
            max_audio_ms = sat_add64 (hs_session_video_mux_ms s) 100;
            clamped = clamp (audio_pts s f) min_audio_ms max_audio_ms
        in (s\<lparr>hs_session_last_raw_audio := Some (mf_timestamp f), hs_session_audio_mux_ms := clamped\<rparr>, clamped)
      else if is_video_codec (mf_codec f) then
        let (last_raw, mux_ms) = advance_video_mux_ms (hs_session_last_raw_video s) (hs_session_video_mux_ms s)
              (mf_timestamp f) (mf_clock_rate f)
        in (s\<lparr>hs_session_last_raw_video := last_raw, hs_session_video_mux_ms := mux_ms\<rparr>, mux_ms)
      else (s, 0))"

definition prepare_frame_for_mux :: "'f hls_session \<Rightarrow> media_frame \<Rightarrow> 'f hls_session \<times> media_frame" where
  "prepare_frame_for_mux s f =
     (let (s1, ts) = mux_timestamp_ms s f
      in (s1, with_clock_rate
        (media_frame_new (mf_stream_id f) (mf_track_id f) ts (mf_data f) (mf_is_keyframe f) (mf_codec f)) 1000))"

text \<open>\<open>generate_pat_pmt\<close> and a frame, appended to the buffer.\<close>

definition append_tables :: "'f hls_session \<Rightarrow> bool \<Rightarrow> 'f hls_session" where
  "append_tables s has_audio =
     (let (m, out) = generate_pat_pmt (hs_muxer s) True has_audio
      in s\<lparr>hs_muxer := m, hs_segment_buffer := hs_segment_buffer s @ out\<rparr>)"

definition append_frame :: "'f hls_session \<Rightarrow> media_frame \<Rightarrow> 'f hls_session" where
  "append_frame s f =
     (let (m, out) = frame_to_ts (update_pcr (hs_muxer s) (mf_timestamp f)) f
      in s\<lparr>hs_muxer := m, hs_segment_buffer := hs_segment_buffer s @ out\<rparr>)"

section \<open>Steps of \<open>on_frame\<close>\<close>

definition open_segment :: "'f hls_session \<Rightarrow> media_frame \<Rightarrow> 'f hls_session" where
  "open_segment s f =
     (if hs_segment_buffer s = [] then
        append_tables
          (s\<lparr>hs_segment_open_mux_ms := hs_session_video_mux_ms s,
             hs_segment_open_mux_ms_at_split := hs_session_video_mux_ms s\<rparr>)
          (hs_session_audio_frames s > 0 \<or> mf_codec f = AAC)
      else s)"

definition track_video_clock :: "'f f64_ops \<Rightarrow> 'f hls_session \<Rightarrow> media_frame \<Rightarrow> 'f hls_session" where
  "track_video_clock F s f =
     (if is_video_codec (mf_codec f) then
        let s1 =
              (if hs_last_video_timestamp s > 0 \<and> mf_timestamp f > hs_last_video_timestamp s then
                 let delta_ms = media_timestamp_delta_ms_with_clock (hs_last_video_timestamp s) (mf_timestamp f)
                       (mf_clock_rate f)
                 in if delta_ms > 0 \<and> delta_ms < 2000
                    then s\<lparr>hs_segment_duration_acc := fl_add F (hs_segment_duration_acc s) (fl_millis F delta_ms)\<rparr>
                    else s
               else s)
        in s1\<lparr>hs_last_video_timestamp := mf_timestamp f\<rparr>
      else s)"

definition wants_keyframe :: "'f f64_ops \<Rightarrow> 'f hls_session \<Rightarrow> media_frame \<Rightarrow> bool" where
  "wants_keyframe F s f \<longleftrightarrow>
     is_video_codec (mf_codec f) \<and> \<not> is_hls_video_keyframe f \<and>
     fl_le F (fl_mul F
       (split_threshold_secs F (m3_target_duration (hs_playlist s)) (segment_count (hs_playlist s))) (fl_lit F 50))
       (segment_mux_secs F s) \<and>
     hs_segment_last_idr_mux_ms s \<le> hs_segment_open_mux_ms_at_split s \<and>
     length (hs_segment_buffer s) > MIN_SEGMENT_BYTES"

definition split_now :: "'f f64_ops \<Rightarrow> 'f hls_session \<Rightarrow> media_frame \<Rightarrow> bool" where
  "split_now F s f =
     should_split_segment F
       \<lparr>se_is_keyframe = is_hls_video_keyframe f, se_mux_secs = segment_mux_secs F s,
        se_publisher_secs = hs_segment_duration_acc s,
        se_split_threshold =
          split_threshold_secs F (m3_target_duration (hs_playlist s)) (segment_count (hs_playlist s)),
        se_committed_segments = segment_count (hs_playlist s),
        se_has_muxed_media = hs_segment_last_mux_ms s > hs_segment_open_mux_ms_at_split s,
        se_buffer_len = length (hs_segment_buffer s), se_min_segment_bytes = MIN_SEGMENT_BYTES\<rparr>"

text \<open>The open segment is closed and the keyframe starts the next one.\<close>

definition close_segment ::
    "'f f64_ops \<Rightarrow> int \<Rightarrow> 'f hls_session \<Rightarrow> media_frame \<Rightarrow> 'f hls_session \<times> 'f completed_segment" where
  "close_segment F now s f =
     (let seq = m3_next_sequence (hs_playlist s);
          duration = closed_segment_secs F (hs_segment_last_mux_ms s) (hs_segment_open_mux_ms_at_split s);
          discontinuity = hs_pending_discontinuity s;
          done_seg =
            \<lparr>cs_data = hs_segment_buffer s, cs_filename = segment_filename seq, cs_duration = duration, cs_seq = seq,
             cs_pdt = live_pdt F duration now, cs_discontinuity = discontinuity\<rparr>;
          s1 = begin_new_segment F (s\<lparr>hs_pending_discontinuity := False, hs_segment_buffer := []\<rparr>);
          s2 = (if discontinuity then s1\<lparr>hs_muxer := mark_segment_discontinuity (hs_muxer s1)\<rparr> else s1);
          s3 = append_tables s2 (hs_session_audio_frames s2 > 0);
          (s4, mux_frame) = prepare_frame_for_mux s3 f;
          s5 = s4\<lparr>hs_segment_last_mux_ms := mf_timestamp mux_frame, hs_segment_last_idr_mux_ms := mf_timestamp mux_frame\<rparr>
      in (append_frame s5 mux_frame, done_seg))"

definition continue_segment :: "'f hls_session \<Rightarrow> media_frame \<Rightarrow> 'f hls_session" where
  "continue_segment s f =
     (let (s1, mux_frame) = prepare_frame_for_mux s f;
          s2 = (if is_video_codec (mf_codec mux_frame) then
                  let s' = s1\<lparr>hs_segment_last_mux_ms := mf_timestamp mux_frame\<rparr>
                  in if is_hls_video_keyframe f then s'\<lparr>hs_segment_last_idr_mux_ms := mf_timestamp mux_frame\<rparr> else s'
                else s1)
      in append_frame s2 mux_frame)"

text \<open>
  The session, the segment it closed, and whether the publisher was asked for a keyframe.
\<close>

definition on_frame ::
    "'f f64_ops \<Rightarrow> int \<Rightarrow> 'f hls_session \<Rightarrow> media_frame \<Rightarrow> 'f hls_session \<times> 'f completed_segment option \<times> bool" where
  "on_frame F now s f =
     (if \<not> hs_active s then (s, None, False)
      else if mf_codec f = Opus \<or> mf_codec f = G711 then (s, None, False)
      else if mf_codec f = AAC \<and> length (mf_data f) < 8 then (s, None, False)
      else
        let s1 = (if mf_codec f = AAC then s\<lparr>hs_session_audio_frames := hs_session_audio_frames s + 1\<rparr> else s)
        in if \<not> hs_primed s1 \<and> \<not> is_hls_video_keyframe f then (s1, None, False)
           else
             let s2 = track_video_clock F (open_segment (s1\<lparr>hs_primed := True\<rparr>) f) f;
                 keyframe_request = wants_keyframe F s2 f
             in if split_now F s2 f \<and> length (hs_segment_buffer s2) > MIN_SEGMENT_BYTES then
                  let (s3, c) = close_segment F now s2 f in (s3, Some c, keyframe_request)
                else (continue_segment s2 f, None, keyframe_request))"

end
