(* ===== verification/Hls_Play.thy ===== *)
theory Hls_Play
  imports Hls_Session
begin

text \<open>
  A session over time: frames go in, closed segments come out and are committed to the playlist
  when writing them succeeded. The lemmas say what a player gets: one transport stream over all
  segments, each segment starting with tables and a keyframe, and timelines that stay together;
  and where the code falls short of that after a lag.
\<close>

section \<open>Running a session\<close>

text \<open>The loop of \<open>start_stream\<close> after \<open>on_frame\<close>: a written segment enters the playlist.\<close>

definition hls_commit :: "'f hls_session \<Rightarrow> 'f completed_segment \<Rightarrow> 'f hls_session" where
  "hls_commit s c =
     s\<lparr>hs_playlist := add_segment (hs_playlist s) (cs_duration c) (cs_seq c) (cs_pdt c) (cs_discontinuity c)\<rparr>"

definition hls_feed ::
    "'f f64_ops \<Rightarrow> 'f hls_session \<Rightarrow> int \<times> bool \<times> media_frame \<Rightarrow> 'f hls_session \<times> (bool \<times> 'f completed_segment) list" where
  "hls_feed F s i =
     (case i of (now, write_ok, f) \<Rightarrow>
        (case on_frame F now s f of
           (s', Some c, _) \<Rightarrow> (if write_ok then hls_commit s' c else s', [(write_ok, c)])
         | (s', None, _) \<Rightarrow> (s', [])))"

fun hls_run ::
    "'f f64_ops \<Rightarrow> 'f hls_session \<Rightarrow> (int \<times> bool \<times> media_frame) list \<Rightarrow> 'f hls_session \<times> (bool \<times> 'f completed_segment) list" where
  "hls_run F s [] = (s, [])"
| "hls_run F s (i # is) =
     (case hls_feed F s i of (s1, cs) \<Rightarrow> case hls_run F s1 is of (s2, cs') \<Rightarrow> (s2, cs @ cs'))"

lemma hls_commit_simps [simp]:
  "hs_muxer (hls_commit s c) = hs_muxer s" "hs_segment_buffer (hls_commit s c) = hs_segment_buffer s"
  "hs_primed (hls_commit s c) = hs_primed s" "hs_pending_discontinuity (hls_commit s c) = hs_pending_discontinuity s"
  "hs_active (hls_commit s c) = hs_active s"
  by (simp_all add: hls_commit_def)

section \<open>What a step leaves alone\<close>

lemma open_segment_cases:
  "open_segment s f =
     (if hs_segment_buffer s = []
      then append_tables (s\<lparr>hs_segment_open_mux_ms := hs_session_video_mux_ms s,
             hs_segment_open_mux_ms_at_split := hs_session_video_mux_ms s\<rparr>)
           (hs_session_audio_frames s > 0 \<or> mf_codec f = AAC)
      else s)"
  by (simp add: open_segment_def)

lemma track_video_clock_simps [simp]:
  "hs_muxer (track_video_clock F s f) = hs_muxer s"
  "hs_segment_buffer (track_video_clock F s f) = hs_segment_buffer s"
  "hs_pending_discontinuity (track_video_clock F s f) = hs_pending_discontinuity s"
  "hs_primed (track_video_clock F s f) = hs_primed s"
  "hs_active (track_video_clock F s f) = hs_active s"
  by (simp_all add: track_video_clock_def Let_def)

lemma mux_timestamp_ms_simps:
  assumes "mux_timestamp_ms s f = (s', t)"
  shows "hs_muxer s' = hs_muxer s" "hs_segment_buffer s' = hs_segment_buffer s"
    "hs_pending_discontinuity s' = hs_pending_discontinuity s" "hs_primed s' = hs_primed s" "hs_active s' = hs_active s"
  using assms by (auto simp: mux_timestamp_ms_def Let_def split: if_splits prod.splits)

lemma prepare_frame_simps:
  assumes "prepare_frame_for_mux s f = (s', g)"
  shows "hs_muxer s' = hs_muxer s" "hs_segment_buffer s' = hs_segment_buffer s"
    "hs_pending_discontinuity s' = hs_pending_discontinuity s" "hs_primed s' = hs_primed s" "hs_active s' = hs_active s"
    "mf_codec g = mf_codec f" "is_hls_video_keyframe g = is_hls_video_keyframe f"
  using assms mux_timestamp_ms_simps [of s f "fst (mux_timestamp_ms s f)" "snd (mux_timestamp_ms s f)"]
  by (auto simp: prepare_frame_for_mux_def Let_def with_clock_rate_def media_frame_new_def is_hls_video_keyframe_def
      split: prod.splits)

text \<open>The three ways through \<open>on_frame\<close>: nothing muxed, a segment closed, the segment continued.\<close>

definition counted :: "'f hls_session \<Rightarrow> media_frame \<Rightarrow> 'f hls_session" where
  "counted s f = (if mf_codec f = AAC then s\<lparr>hs_session_audio_frames := hs_session_audio_frames s + 1\<rparr> else s)"

definition framed :: "'f f64_ops \<Rightarrow> 'f hls_session \<Rightarrow> media_frame \<Rightarrow> 'f hls_session" where
  "framed F s f = track_video_clock F (open_segment ((counted s f)\<lparr>hs_primed := True\<rparr>) f) f"

lemma counted_simps [simp]:
  "hs_muxer (counted s f) = hs_muxer s" "hs_segment_buffer (counted s f) = hs_segment_buffer s"
  "hs_primed (counted s f) = hs_primed s" "hs_segment_last_mux_ms (counted s f) = hs_segment_last_mux_ms s"
  "hs_pending_discontinuity (counted s f) = hs_pending_discontinuity s" "hs_playlist (counted s f) = hs_playlist s"
  by (simp_all add: counted_def)

lemma on_frame_cases:
  assumes "on_frame F now s f = (s', r, k)"
  obtains (skip) "r = None" "s' = s \<or> s' = counted s f"
    | (close) c where "r = Some c" "close_segment F now (framed F s f) f = (s', c)" "split_now F (framed F s f) f"
        "length (hs_segment_buffer (framed F s f)) > MIN_SEGMENT_BYTES"
    | (go) "r = None" "s' = continue_segment (framed F s f) f" "hs_primed s \<or> is_hls_video_keyframe f"
  using assms unfolding on_frame_def Let_def counted_def [symmetric] framed_def [symmetric]
  by (auto split: if_splits prod.splits)

section \<open>The transport stream over segments\<close>

text \<open>The buffer grows by the output of operations of the muxer.\<close>

definition grows :: "'f hls_session \<Rightarrow> 'f hls_session \<Rightarrow> bool" where
  "grows s s' \<longleftrightarrow>
     (\<exists>xs out. list_all known_codec xs \<and> ts_run (hs_muxer s) xs = (hs_muxer s', out) \<and>
        hs_segment_buffer s' = hs_segment_buffer s @ out)"

lemma ts_run_append:
  "ts_run t (xs @ ys) =
     (case ts_run t xs of (t1, a) \<Rightarrow> case ts_run t1 ys of (t2, b) \<Rightarrow> (t2, a @ b))"
  by (induction xs arbitrary: t) (auto split: prod.splits)

lemma grows_refl: "hs_muxer s' = hs_muxer s \<Longrightarrow> hs_segment_buffer s' = hs_segment_buffer s \<Longrightarrow> grows s s'"
  unfolding grows_def by (intro exI [of _ "[]"]) simp

lemma grows_trans [trans]:
  assumes "grows s s1" and "grows s1 s2"
  shows "grows s s2"
proof -
  obtain xs a ys b where "list_all known_codec xs" "ts_run (hs_muxer s) xs = (hs_muxer s1, a)"
    "hs_segment_buffer s1 = hs_segment_buffer s @ a" "list_all known_codec ys"
    "ts_run (hs_muxer s1) ys = (hs_muxer s2, b)" "hs_segment_buffer s2 = hs_segment_buffer s1 @ b"
    using assms unfolding grows_def by blast
  then show ?thesis unfolding grows_def by (intro exI [of _ "xs @ ys"] exI [of _ "a @ b"]) (simp add: ts_run_append)
qed

lemma grows_tables: "grows s (append_tables s a)"
  unfolding grows_def append_tables_def Let_def
  by (rule exI [of _ "[Write_tables True a]"]) (simp add: known_codec_def split: prod.splits)

lemma grows_frame: "mf_codec f \<noteq> codec_type.Unknown \<Longrightarrow> grows s (append_frame s f)"
  unfolding grows_def append_frame_def Let_def
  by (rule exI [of _ "[Set_pcr (mf_timestamp f), Write_frame f]"]) (simp add: known_codec_def split: prod.splits)

lemma grows_op:
  assumes "ts_exec (hs_muxer s) x = (hs_muxer s', [])" and "known_codec x"
    and "hs_segment_buffer s' = hs_segment_buffer s"
  shows "grows s s'"
  unfolding grows_def using assms by (intro exI [of _ "[x]"] exI [of _ "[]"]) simp

lemma grows_open: "grows s (open_segment s f)"
proof -
  let ?s = "s\<lparr>hs_segment_open_mux_ms := hs_session_video_mux_ms s,
    hs_segment_open_mux_ms_at_split := hs_session_video_mux_ms s\<rparr>"
  have "grows s ?s" by (rule grows_refl) simp_all
  from grows_trans [OF this grows_tables] show ?thesis by (simp add: open_segment_cases grows_refl)
qed

lemma grows_continue:
  assumes "mf_codec f \<noteq> codec_type.Unknown"
  shows "grows s (continue_segment s f)"
proof -
  obtain s1 g where p: "prepare_frame_for_mux s f = (s1, g)" by fastforce
  note q = prepare_frame_simps [OF p]
  obtain s2 where s2: "continue_segment s f = append_frame s2 g" "hs_muxer s2 = hs_muxer s"
    "hs_segment_buffer s2 = hs_segment_buffer s"
    using q unfolding continue_segment_def Let_def p by (auto split: if_splits)
  have "grows s s2" using s2 by (intro grows_refl)
  from grows_trans [OF this grows_frame] show ?thesis unfolding s2(1) using q(6) assms by simp
qed

lemma grows_close:
  assumes "mf_codec f \<noteq> codec_type.Unknown" and "close_segment F now s f = (s', c)"
  shows "cs_data c = hs_segment_buffer s \<and> grows (s\<lparr>hs_segment_buffer := []\<rparr>) s' \<and>
     cs_discontinuity c = hs_pending_discontinuity s \<and> \<not> hs_pending_discontinuity s'"
proof -
  let ?s0 = "s\<lparr>hs_segment_buffer := []\<rparr>"
  define s1 where "s1 = begin_new_segment F (s\<lparr>hs_pending_discontinuity := False, hs_segment_buffer := []\<rparr>)"
  define s2 where "s2 = (if hs_pending_discontinuity s then s1\<lparr>hs_muxer := mark_segment_discontinuity (hs_muxer s1)\<rparr> else s1)"
  define s3 where "s3 = append_tables s2 (hs_session_audio_frames s2 > 0)"
  obtain s4 g where p: "prepare_frame_for_mux s3 f = (s4, g)" by fastforce
  define s5 where "s5 = s4\<lparr>hs_segment_last_mux_ms := mf_timestamp g, hs_segment_last_idr_mux_ms := mf_timestamp g\<rparr>"
  note q = prepare_frame_simps [OF p]
  have c: "s' = append_frame s5 g" "cs_data c = hs_segment_buffer s" "cs_discontinuity c = hs_pending_discontinuity s"
    using assms(2) unfolding close_segment_def Let_def s1_def [symmetric] s2_def [symmetric] s3_def [symmetric] p
      prod.case s5_def [symmetric] by auto
  have "grows ?s0 s1" by (rule grows_op [of _ Begin_segment]) (simp_all add: s1_def begin_new_segment_def known_codec_def)
  also have "grows s1 s2"
    by (cases "hs_pending_discontinuity s")
      (auto simp: s2_def known_codec_def intro: grows_refl grows_op [of _ Mark_discontinuity])
  also have "grows s2 s3" unfolding s3_def by (rule grows_tables)
  also have "grows s3 s5" using q by (intro grows_refl) (simp_all add: s5_def)
  also have "grows s5 s'" unfolding c(1) using q(6) assms(1) by (intro grows_frame) simp
  finally have "grows ?s0 s'" .
  moreover have "\<not> hs_pending_discontinuity s'"
    unfolding c(1) append_frame_def s5_def using q(3)
    by (simp add: s3_def s2_def s1_def append_tables_def begin_new_segment_def split: prod.splits)
  ultimately show ?thesis using c by simp
qed

text \<open>Bytes are only ever moved from the buffer to a closed segment.\<close>

lemma grows_framed: "grows s (framed F s f)"
proof -
  let ?s = "(counted s f)\<lparr>hs_primed := True\<rparr>"
  have "grows s ?s" by (rule grows_refl) simp_all
  also have "grows ?s (open_segment ?s f)" by (rule grows_open)
  also have "grows (open_segment ?s f) (framed F s f)" by (rule grows_refl) (simp_all add: framed_def)
  finally show ?thesis .
qed

lemma on_frame_grows:
  assumes "mf_codec f \<noteq> codec_type.Unknown" and "on_frame F now s f = (s', r, k)"
  shows "\<exists>s0. grows s s0 \<and> hs_muxer s' = hs_muxer s0 \<and>
     (case r of None \<Rightarrow> [] | Some c \<Rightarrow> cs_data c) @ hs_segment_buffer s' = hs_segment_buffer s0"
  using assms(2)
proof (cases rule: on_frame_cases)
  case skip
  then show ?thesis by (intro exI [of _ s]) (auto simp: grows_refl)
next
  case (close c)
  let ?s2 = "framed F s f"
  from grows_close [OF assms(1) close(2)] have c: "cs_data c = hs_segment_buffer ?s2"
    "grows (?s2\<lparr>hs_segment_buffer := []\<rparr>) s'" by simp_all
  then have "grows ?s2 (s'\<lparr>hs_segment_buffer := hs_segment_buffer ?s2 @ hs_segment_buffer s'\<rparr>)"
    by (auto simp: grows_def)
  from grows_trans [OF grows_framed this] close(1) c(1) show ?thesis
    by (intro exI [of _ "s'\<lparr>hs_segment_buffer := hs_segment_buffer ?s2 @ hs_segment_buffer s'\<rparr>"]) simp
next
  case go
  with grows_trans [OF grows_framed grows_continue [OF assms(1)]] show ?thesis by (intro exI [of _ s']) simp
qed

definition fed_codecs_known :: "(int \<times> bool \<times> media_frame) list \<Rightarrow> bool" where
  "fed_codecs_known is \<longleftrightarrow> (\<forall>(now, ok, f)\<in>set is. mf_codec f \<noteq> codec_type.Unknown)"

lemma hls_run_grows:
  assumes "fed_codecs_known is" and "hls_run F s is = (s', cs)"
  shows "\<exists>s0. grows s s0 \<and> hs_muxer s' = hs_muxer s0 \<and>
     concat (List.map (cs_data \<circ> snd) cs) @ hs_segment_buffer s' = hs_segment_buffer s0"
  using assms
proof (induction "is" arbitrary: s cs)
  case Nil
  then show ?case by (intro exI [of _ s]) (simp add: grows_refl)
next
  case (Cons i "is")
  obtain now ok f where i: "i = (now, ok, f)" by (cases i)
  obtain sf r k where f: "on_frame F now s f = (sf, r, k)" by (cases "on_frame F now s f")
  define s1 where "s1 = fst (hls_feed F s i)"
  obtain cs1 where cs1: "hls_run F s1 is = (s', cs1)" "cs = (case r of None \<Rightarrow> [] | Some c \<Rightarrow> [(ok, c)]) @ cs1"
    using Cons.prems(2) f i unfolding s1_def
    by (auto simp: hls_feed_def split: prod.splits option.splits if_splits)
  have s1: "hs_muxer s1 = hs_muxer sf" "hs_segment_buffer s1 = hs_segment_buffer sf"
    unfolding s1_def using f i by (auto simp: hls_feed_def split: option.splits)
  have "mf_codec f \<noteq> codec_type.Unknown" "fed_codecs_known is"
    using Cons.prems(1) i by (auto simp: fed_codecs_known_def)
  from on_frame_grows [OF this(1) f] Cons.IH [OF this(2) cs1(1)] obtain s0 sa where
    a: "grows s s0" "hs_muxer sf = hs_muxer s0"
      "(case r of None \<Rightarrow> [] | Some c \<Rightarrow> cs_data c) @ hs_segment_buffer sf = hs_segment_buffer s0"
    and b: "grows s1 sa" "hs_muxer s' = hs_muxer sa"
      "concat (List.map (cs_data \<circ> snd) cs1) @ hs_segment_buffer s' = hs_segment_buffer sa" by blast
  let ?d = "case r of None \<Rightarrow> [] | Some c \<Rightarrow> cs_data c"
  have "grows s0 (sa\<lparr>hs_segment_buffer := ?d @ hs_segment_buffer sa\<rparr>)"
    using b(1) s1 a(2,3) [symmetric] unfolding grows_def by auto
  from grows_trans [OF a(1) this] b show ?case
    by (intro exI [of _ "sa\<lparr>hs_segment_buffer := ?d @ hs_segment_buffer sa\<rparr>"])
      (auto simp: cs1(2) o_def split: option.splits)
qed


section \<open>How a segment starts\<close>

text \<open>Tables, then the unit of a video keyframe.\<close>

definition starts_with_keyframe :: "bytes \<Rightarrow> bool" where
  "starts_with_keyframe b \<longleftrightarrow>
     (\<exists>t a u g rest. is_hls_video_keyframe g \<and>
        b = snd (generate_pat_pmt t True a) @ snd (frame_to_ts u g) @ rest)"

lemma starts_with_keyframe_append: "starts_with_keyframe b \<Longrightarrow> starts_with_keyframe (b @ c)"
  unfolding starts_with_keyframe_def by (metis append.assoc)

lemma starts_with_keyframe_grows:
  "grows s s' \<Longrightarrow> starts_with_keyframe (hs_segment_buffer s) \<Longrightarrow> starts_with_keyframe (hs_segment_buffer s')"
  unfolding grows_def using starts_with_keyframe_append by metis

text \<open>Either nothing is muxed yet, or the open segment starts as it should.\<close>

definition segment_inv :: "'f hls_session \<Rightarrow> bool" where
  "segment_inv s \<longleftrightarrow>
     (if hs_segment_buffer s = [] then \<not> hs_primed s \<and> hs_segment_last_mux_ms s = 0
      else starts_with_keyframe (hs_segment_buffer s))"

lemma append_frame_buffer:
  "hs_segment_buffer (append_frame s g) =
     hs_segment_buffer s @ snd (frame_to_ts (update_pcr (hs_muxer s) (mf_timestamp g)) g)"
  by (simp add: append_frame_def Let_def split: prod.splits)

lemma append_tables_buffer:
  "hs_segment_buffer (append_tables s a) = hs_segment_buffer s @ snd (generate_pat_pmt (hs_muxer s) True a)"
  by (simp add: append_tables_def Let_def split: prod.splits)

lemma close_starts_with_keyframe:
  assumes "is_hls_video_keyframe f" and "close_segment F now s f = (s', c)"
  shows "starts_with_keyframe (hs_segment_buffer s')"
proof -
  define s1 where "s1 = begin_new_segment F (s\<lparr>hs_pending_discontinuity := False, hs_segment_buffer := []\<rparr>)"
  define s2 where "s2 = (if hs_pending_discontinuity s then s1\<lparr>hs_muxer := mark_segment_discontinuity (hs_muxer s1)\<rparr> else s1)"
  define s3 where "s3 = append_tables s2 (hs_session_audio_frames s2 > 0)"
  obtain s4 g where p: "prepare_frame_for_mux s3 f = (s4, g)" by fastforce
  define s5 where "s5 = s4\<lparr>hs_segment_last_mux_ms := mf_timestamp g, hs_segment_last_idr_mux_ms := mf_timestamp g\<rparr>"
  note q = prepare_frame_simps [OF p]
  have s': "s' = append_frame s5 g"
    using assms(2) unfolding close_segment_def Let_def s1_def [symmetric] s2_def [symmetric] s3_def [symmetric] p
      prod.case s5_def [symmetric] by simp
  have "hs_segment_buffer s2 = []" by (simp add: s2_def s1_def begin_new_segment_def)
  then have "hs_segment_buffer s5 = snd (generate_pat_pmt (hs_muxer s2) True (hs_session_audio_frames s2 > 0))"
    using q(2) by (simp add: s5_def s3_def append_tables_buffer)
  then show ?thesis
    unfolding s' append_frame_buffer starts_with_keyframe_def using q(7) assms(1)
    by (metis append.right_neutral)
qed

lemma open_then_continue:
  assumes "hs_segment_buffer s = []" and "is_hls_video_keyframe f"
  shows "starts_with_keyframe (hs_segment_buffer (continue_segment (track_video_clock F (open_segment s f) f) f))"
proof -
  let ?s = "track_video_clock F (open_segment s f) f"
  obtain t a where buf: "hs_segment_buffer ?s = snd (generate_pat_pmt t True a)"
    using assms(1) by (simp add: open_segment_cases append_tables_buffer)
  obtain s1 g where p: "prepare_frame_for_mux ?s f = (s1, g)" by fastforce
  note q = prepare_frame_simps [OF p]
  obtain s2 where s2: "continue_segment ?s f = append_frame s2 g" "hs_segment_buffer s2 = hs_segment_buffer ?s"
    using q unfolding continue_segment_def Let_def p by (auto split: if_splits)
  show ?thesis
    unfolding s2 append_frame_buffer starts_with_keyframe_def buf using q(7) assms(2) by (metis append.right_neutral)
qed

lemma split_now_keyframe: "split_now F s f \<Longrightarrow> is_hls_video_keyframe f \<and> hs_segment_last_mux_ms s > hs_segment_open_mux_ms_at_split s"
  by (auto simp: split_now_def should_split_segment_def Let_def split: if_splits)

lemma open_no_split:
  assumes "hs_segment_buffer s = []" and "hs_segment_last_mux_ms s = 0"
  shows "\<not> split_now F (track_video_clock F (open_segment s f) f) f"
proof
  assume "split_now F (track_video_clock F (open_segment s f) f) f"
  then have "hs_segment_last_mux_ms (track_video_clock F (open_segment s f) f) > 0"
    using split_now_keyframe by fastforce
  moreover have "hs_segment_last_mux_ms (track_video_clock F (open_segment s f) f) = hs_segment_last_mux_ms s"
    by (simp add: track_video_clock_def open_segment_def append_tables_def Let_def split: prod.splits)
  ultimately show False using assms(2) by simp
qed

lemma on_frame_segment_inv:
  assumes "segment_inv s" and "mf_codec f \<noteq> codec_type.Unknown" and "on_frame F now s f = (s', r, k)"
  shows "segment_inv s' \<and> (\<forall>c. r = Some c \<longrightarrow> starts_with_keyframe (cs_data c))"
  using assms(3)
proof (cases rule: on_frame_cases)
  case skip
  then show ?thesis using assms(1) by (auto simp: segment_inv_def)
next
  case (close c)
  have "hs_segment_buffer s \<noteq> []"
    using close(3) open_no_split [of "(counted s f)\<lparr>hs_primed := True\<rparr>" F f] assms(1)
    by (auto simp: framed_def segment_inv_def)
  then have "starts_with_keyframe (hs_segment_buffer (framed F s f))"
    using assms(1) by (simp add: segment_inv_def framed_def open_segment_cases)
  moreover have "starts_with_keyframe (hs_segment_buffer s')"
    using close_starts_with_keyframe [OF _ close(2)] split_now_keyframe [OF close(3)] by simp
  ultimately show ?thesis
    using grows_close [OF assms(2) close(2)] close(1) unfolding segment_inv_def
    by (auto simp: starts_with_keyframe_def generate_pat_pmt_nonempty)
next
  case go
  have "starts_with_keyframe (hs_segment_buffer s')"
  proof (cases "hs_segment_buffer s = []")
    case True
    with assms(1) go(3) have "is_hls_video_keyframe f" by (simp add: segment_inv_def)
    with open_then_continue [of "(counted s f)\<lparr>hs_primed := True\<rparr>" f F] True go(2) show ?thesis
      by (simp add: framed_def)
  next
    case False
    then have "starts_with_keyframe (hs_segment_buffer (framed F s f))"
      using assms(1) by (simp add: segment_inv_def framed_def open_segment_cases)
    with starts_with_keyframe_grows [OF grows_continue [OF assms(2)]] show ?thesis by (simp add: go(2))
  qed
  with go(1) show ?thesis unfolding segment_inv_def
    by (auto simp: starts_with_keyframe_def generate_pat_pmt_nonempty)
qed

lemma hls_run_keyframe_starts:
  assumes "segment_inv s" and "fed_codecs_known is" and "hls_run F s is = (s', cs)"
  shows "\<forall>(ok, c)\<in>set cs. starts_with_keyframe (cs_data c)"
  using assms
proof (induction "is" arbitrary: s cs)
  case (Cons i "is")
  obtain now ok f where i: "i = (now, ok, f)" by (cases i)
  obtain sf r k where f: "on_frame F now s f = (sf, r, k)" by (cases "on_frame F now s f")
  define s1 where "s1 = fst (hls_feed F s i)"
  obtain cs1 where cs1: "hls_run F s1 is = (s', cs1)" "cs = (case r of None \<Rightarrow> [] | Some c \<Rightarrow> [(ok, c)]) @ cs1"
    using Cons.prems(3) f i unfolding s1_def
    by (auto simp: hls_feed_def split: prod.splits option.splits if_splits)
  have known: "mf_codec f \<noteq> codec_type.Unknown" "fed_codecs_known is"
    using Cons.prems(2) i by (auto simp: fed_codecs_known_def)
  note inv = on_frame_segment_inv [OF Cons.prems(1) known(1) f]
  have "segment_inv s1"
    using inv f i unfolding s1_def segment_inv_def by (auto simp: hls_feed_def hls_commit_def split: option.splits)
  from Cons.IH [OF this known(2) cs1(1)] inv show ?case unfolding cs1(2) by (auto split: option.splits)
qed simp


section \<open>The playlist of a session\<close>

lemma playlist_unchanged:
  "hs_playlist (append_tables s a) = hs_playlist s" "hs_playlist (append_frame s g) = hs_playlist s"
  "hs_playlist (track_video_clock F s f) = hs_playlist s" "hs_playlist (open_segment s f) = hs_playlist s"
  "hs_playlist (fst (prepare_frame_for_mux s f)) = hs_playlist s"
  by (simp_all add: append_tables_def append_frame_def track_video_clock_def open_segment_def prepare_frame_for_mux_def
      mux_timestamp_ms_def Let_def split: prod.splits)

lemma on_frame_playlist:
  assumes "on_frame F now s f = (s', r, k)"
  shows "hs_playlist s' = hs_playlist s \<and>
     (\<forall>c. r = Some c \<longrightarrow> cs_seq c = m3_next_sequence (hs_playlist s) \<and> cs_filename c = segment_filename (cs_seq c) \<and>
        MIN_SEGMENT_BYTES < length (cs_data c))"
proof -
  have close: "hs_playlist s1 = hs_playlist s0 \<and> cs_seq c = m3_next_sequence (hs_playlist s0) \<and>
      cs_filename c = segment_filename (cs_seq c) \<and> cs_data c = hs_segment_buffer s0"
    if "close_segment F now s0 f = (s1, c)" for s0 s1 :: "'a hls_session" and c
  proof -
    let ?s1 = "begin_new_segment F (s0\<lparr>hs_pending_discontinuity := False, hs_segment_buffer := []\<rparr>)"
    let ?s2 = "if hs_pending_discontinuity s0 then ?s1\<lparr>hs_muxer := mark_segment_discontinuity (hs_muxer ?s1)\<rparr> else ?s1"
    let ?s3 = "append_tables ?s2 (hs_session_audio_frames ?s2 > 0)"
    obtain s4 g where p: "prepare_frame_for_mux ?s3 f = (s4, g)" by fastforce
    have "hs_playlist s4 = hs_playlist ?s3" using playlist_unchanged(5) [of ?s3 f] p by simp
    then have "hs_playlist s4 = hs_playlist s0" by (simp add: playlist_unchanged begin_new_segment_def)
    with that show ?thesis
      unfolding close_segment_def Let_def p prod.case by (auto simp: playlist_unchanged)
  qed
  have go: "hs_playlist (continue_segment s0 f) = hs_playlist s0" for s0 :: "'a hls_session"
  proof -
    obtain s1 g where p: "prepare_frame_for_mux s0 f = (s1, g)" by fastforce
    have "hs_playlist s1 = hs_playlist s0" using playlist_unchanged(5) [of s0 f] p by simp
    then show ?thesis unfolding continue_segment_def Let_def p prod.case by (simp add: playlist_unchanged)
  qed
  have framed: "hs_playlist (framed F s f) = hs_playlist s" by (simp add: framed_def playlist_unchanged)
  show ?thesis
    using assms
  proof (cases rule: on_frame_cases)
    case (close c)
    with \<open>\<And>s0 s1 c. close_segment F now s0 f = (s1, c) \<Longrightarrow> _\<close> [OF close(2)] framed show ?thesis by simp
  qed (auto simp: go framed)
qed

definition written :: "(bool \<times> 'f completed_segment) list \<Rightarrow> 'f completed_segment list" where
  "written cs = List.map snd (filter fst cs)"

lemma hls_run_playlist:
  assumes "hls_run F s is = (s', cs)"
  shows "hs_playlist s' =
     foldl commit_next (hs_playlist s) (List.map (\<lambda>c. (cs_duration c, cs_pdt c, cs_discontinuity c)) (written cs))"
  using assms
proof (induction "is" arbitrary: s cs)
  case Nil
  then show ?case by (simp add: written_def)
next
  case (Cons i "is")
  obtain now ok f where i: "i = (now, ok, f)" by (cases i)
  obtain sf r k where f: "on_frame F now s f = (sf, r, k)" by (cases "on_frame F now s f")
  define s1 where "s1 = fst (hls_feed F s i)"
  obtain cs1 where cs1: "hls_run F s1 is = (s', cs1)" "cs = (case r of None \<Rightarrow> [] | Some c \<Rightarrow> [(ok, c)]) @ cs1"
    using Cons.prems f i unfolding s1_def
    by (auto simp: hls_feed_def split: prod.splits option.splits if_splits)
  note p = on_frame_playlist [OF f]
  have "hs_playlist s1 = foldl commit_next (hs_playlist s)
      (List.map (\<lambda>c. (cs_duration c, cs_pdt c, cs_discontinuity c)) (written (case r of None \<Rightarrow> [] | Some c \<Rightarrow> [(ok, c)])))"
    using p f i unfolding s1_def
    by (auto simp: hls_feed_def hls_commit_def written_def commit_next_def split: option.splits)
  with Cons.IH [OF cs1(1)] show ?case unfolding cs1(2) by (simp add: written_def)
qed

text \<open>The playlist of a session is the window over exactly the segments that were written, in order,
  under the numbers 0, 1, 2, ...: a segment that could not be written is not listed and leaves no
  gap.\<close>

theorem hls_playlist_lists_written_segments:
  assumes "hls_run F (hls_session_new F sid d n) is = (s', cs)"
  shows "window_of (numbered 0 (List.map (\<lambda>c. (cs_duration c, cs_pdt c, cs_discontinuity c)) (written cs))) (hs_playlist s')"
proof -
  have "hs_playlist (hls_session_new F sid d n) = m3u8_new d n" by (simp add: hls_session_new_def)
  then show ?thesis unfolding hls_run_playlist [OF assms] by (simp only: commit_window)
qed

section \<open>Timelines\<close>

text \<open>One step of the timelines, away from the end of the 64-bit range: a video frame moves the
  video time by 1 to 499 ms, whatever its own timestamp does, or leaves it at 0 when it is still
  there; an AAC frame leaves the video time alone and gets a time at most 200 ms behind and 100 ms
  ahead of it.\<close>

theorem hls_timelines_stay_together:
  assumes "hs_session_video_mux_ms s + 500 \<le> u64_max" and "mux_timestamp_ms s f = (s', t)"
  shows "(is_video_codec (mf_codec f) \<longrightarrow>
       t = hs_session_video_mux_ms s' \<and>
       (t = 0 \<and> hs_session_video_mux_ms s = 0 \<or>
        hs_session_video_mux_ms s + 1 \<le> t \<and> t \<le> hs_session_video_mux_ms s + 499)) \<and>
     (mf_codec f = AAC \<longrightarrow>
       hs_session_video_mux_ms s' = hs_session_video_mux_ms s \<and> t = hs_session_audio_mux_ms s' \<and>
       hs_session_video_mux_ms s \<le> t + 200 \<and> t \<le> hs_session_video_mux_ms s + 100)"
proof -
  let ?m = "hs_session_video_mux_ms s"
  have sum: "sat_add64 ?m x = ?m + x" if "x \<le> 500" for x
    using that assms(1) by (intro sat_add64_exact) simp
  show ?thesis
    using assms(2) sum
    by (auto simp: mux_timestamp_ms_def advance_video_mux_ms_def clamp_def Let_def MIN_VIDEO_MUX_STEP_MS_def
        is_video_codec_def split: if_splits)
qed

definition demo_video :: "nat \<Rightarrow> bool \<Rightarrow> media_frame" where
  "demo_video ts key = media_frame_new ''s'' 0 ts (replicate 600 0x65) key H264"

theorem hls_timelines_stay_together_witness:
  "\<exists>s' t. mux_timestamp_ms (hls_session_new milli_ops ''s'' 1000 3) (demo_video 5 True) = (s', t) \<and> t = hs_session_video_mux_ms s'"
proof -
  have "hs_session_video_mux_ms (hls_session_new milli_ops ''s'' 1000 3) + 500 \<le> u64_max"
    by (simp add: hls_session_new_def u64_max_def)
  from hls_timelines_stay_together [OF this surjective_pairing, of "demo_video 5 True"] show ?thesis
    by (intro exI conjI) (auto simp: demo_video_def media_frame_new_def prod_eq_iff)
qed

text \<open>A stream whose first timestamp is 0 muxes two frames at the same time: the zero that means
  "no frame yet" hides the first frame, so the second does not move the video time.\<close>

theorem hls_zero_timestamp_repeats:
  assumes "hs_session_last_raw_video s = 0" and "hs_session_video_mux_ms s = 0"
    and "is_video_codec (mf_codec f)" and "is_video_codec (mf_codec g)" and "mf_timestamp f = 0"
    and "mux_timestamp_ms s f = (s1, t1)" and "mux_timestamp_ms s1 g = (s2, t2)"
  shows "t1 = 0 \<and> t2 = 0"
  using assms by (auto simp: mux_timestamp_ms_def advance_video_mux_ms_def Let_def is_video_codec_def split: if_splits)

section \<open>After a lag\<close>

lemma frame_to_ts_flag: "tm_segment_discontinuity (fst (frame_to_ts t f)) = tm_segment_discontinuity t"
  by (auto simp: frame_to_ts_def Let_def split: prod.splits)

lemma ts_run_muxer_ok:
  assumes "muxer_ok t" and "list_all known_codec xs" and "ts_run t xs = (t', out)"
  shows "muxer_ok t'"
  using assms
proof (induction xs arbitrary: t out)
  case (Cons x xs)
  obtain t1 o1 where e: "ts_exec t x = (t1, o1)" by fastforce
  moreover obtain o2 where "ts_run t1 xs = (t', o2)" using Cons.prems(3) e by (auto split: prod.splits)
  moreover have "muxer_ok t1" using ts_exec_views [OF Cons.prems(1) _ e] Cons.prems(2) by auto
  ultimately show ?case using Cons.IH Cons.prems(2) by auto
qed simp

lemma grows_muxer_ok: "grows s s' \<Longrightarrow> muxer_ok (hs_muxer s) \<Longrightarrow> muxer_ok (hs_muxer s')"
  unfolding grows_def using ts_run_muxer_ok by blast

lemma grows_keeps_byte:
  "grows s s' \<Longrightarrow> 5 < length (hs_segment_buffer s) \<Longrightarrow>
   5 < length (hs_segment_buffer s') \<and> hs_segment_buffer s' ! 5 = hs_segment_buffer s ! 5"
  by (auto simp: grows_def nth_append)

lemma append_tables_flags:
  assumes "muxer_ok (hs_muxer s)" and "hs_segment_buffer s = []"
  shows "5 < length (hs_segment_buffer (append_tables s a)) \<and>
     hs_segment_buffer (append_tables s a) ! 5 = (if tm_segment_discontinuity (hs_muxer s) then 0x80 else 0) \<and>
     \<not> tm_segment_discontinuity (hs_muxer (append_tables s a)) \<and>
     hs_pending_discontinuity (append_tables s a) = hs_pending_discontinuity s"
proof -
  obtain t' out where g: "generate_pat_pmt (hs_muxer s) True a = (t', out)" by fastforce
  from generate_pat_pmt_views [OF assms(1) g] obtain ps vs where ps: "out = concat ps" "\<forall>x\<in>set ps. length x = 188"
    "map parse_ts ps = map Some [fst vs, snd vs]" "t' = tables_after (hs_muxer s)"
    "out ! 5 = (if tm_segment_discontinuity (hs_muxer s) then 0x80 else 0)"
    by (metis fst_conv snd_conv)
  from ps(1-3) have "5 < length out" by (cases ps) auto
  with ps(4,5) assms(2) g show ?thesis by (simp add: append_tables_def tables_after_def)
qed

lemma append_frame_flags:
  "tm_segment_discontinuity (hs_muxer (append_frame s g)) = tm_segment_discontinuity (hs_muxer s)"
  "hs_pending_discontinuity (append_frame s g) = hs_pending_discontinuity s"
  using frame_to_ts_flag [of "update_pcr (hs_muxer s) (mf_timestamp g)" g]
  by (cases "frame_to_ts (update_pcr (hs_muxer s) (mf_timestamp g)) g"; simp add: append_frame_def Let_def;
      simp add: update_pcr_def)+

lemma continue_flags:
  "tm_segment_discontinuity (hs_muxer (continue_segment s f)) = tm_segment_discontinuity (hs_muxer s) \<and>
   hs_pending_discontinuity (continue_segment s f) = hs_pending_discontinuity s"
proof -
  obtain s1 g where p: "prepare_frame_for_mux s f = (s1, g)" by fastforce
  note q = prepare_frame_simps [OF p]
  show ?thesis unfolding continue_segment_def Let_def p using q by (simp add: append_frame_flags)
qed

text \<open>After \<open>recover_from_lag\<close> the open segment carries no mark, and the session waits to report it.\<close>

definition lag_pending :: "'f hls_session \<Rightarrow> bool" where
  "lag_pending s \<longleftrightarrow>
     muxer_ok (hs_muxer s) \<and> hs_pending_discontinuity s \<and> \<not> tm_segment_discontinuity (hs_muxer s) \<and>
     (hs_segment_buffer s = [] \<or> 5 < length (hs_segment_buffer s) \<and> hs_segment_buffer s ! 5 = 0)"

lemma framed_pending:
  assumes "lag_pending s"
  shows "lag_pending (framed F s f) \<and> hs_segment_buffer (framed F s f) \<noteq> []"
proof -
  have ok: "muxer_ok (hs_muxer (framed F s f))" using assms grows_muxer_ok [OF grows_framed] by (auto simp: lag_pending_def)
  show ?thesis
  proof (cases "hs_segment_buffer s = []")
    case True
    let ?s = "(counted s f)\<lparr>hs_primed := True, hs_segment_open_mux_ms := hs_session_video_mux_ms (counted s f),
      hs_segment_open_mux_ms_at_split := hs_session_video_mux_ms (counted s f)\<rparr>"
    have "muxer_ok (hs_muxer ?s)" "hs_segment_buffer ?s = []" using assms True by (simp_all add: lag_pending_def)
    from append_tables_flags [OF this, of "hs_session_audio_frames (counted s f) > 0 \<or> mf_codec f = AAC"]
      ok assms True show ?thesis
      by (auto simp: lag_pending_def framed_def open_segment_cases)
  next
    case False
    with ok assms show ?thesis by (auto simp: lag_pending_def framed_def open_segment_cases)
  qed
qed

lemma on_frame_pending:
  assumes "lag_pending s" and "mf_codec f \<noteq> codec_type.Unknown" and "on_frame F now s f = (s', r, k)"
  shows "case r of None \<Rightarrow> lag_pending s'
     | Some c \<Rightarrow> cs_discontinuity c \<and> cs_data c ! 5 = 0 \<and> 5 < length (hs_segment_buffer s') \<and> hs_segment_buffer s' ! 5 = 0x80"
  using assms(3)
proof (cases rule: on_frame_cases)
  case skip
  with assms(1) show ?thesis by (auto simp: lag_pending_def)
next
  case (close c)
  let ?s2 = "framed F s f"
  note p = framed_pending [OF assms(1), of F f]
  then have pend: "hs_pending_discontinuity ?s2" by (simp add: lag_pending_def)
  define s1 where "s1 = begin_new_segment F (?s2\<lparr>hs_pending_discontinuity := False, hs_segment_buffer := []\<rparr>)"
  define s2 where "s2 = s1\<lparr>hs_muxer := mark_segment_discontinuity (hs_muxer s1)\<rparr>"
  define s3 where "s3 = append_tables s2 (hs_session_audio_frames s2 > 0)"
  obtain s4 g where q: "prepare_frame_for_mux s3 f = (s4, g)" by fastforce
  define s5 where "s5 = s4\<lparr>hs_segment_last_mux_ms := mf_timestamp g, hs_segment_last_idr_mux_ms := mf_timestamp g\<rparr>"
  have s': "s' = append_frame s5 g"
    using close(2) unfolding close_segment_def Let_def if_P [OF pend] s1_def [symmetric] s2_def [symmetric]
      s3_def [symmetric] q prod.case s5_def [symmetric] by simp
  have s2: "muxer_ok (hs_muxer s2)" "hs_segment_buffer s2 = []" "tm_segment_discontinuity (hs_muxer s2)"
    using p by (simp_all add: s2_def s1_def begin_new_segment_def reset_for_new_segment_def
        mark_segment_discontinuity_def lag_pending_def muxer_ok_def)
  from append_tables_flags [OF s2(1,2)] s2(3) prepare_frame_simps [OF q]
  have "5 < length (hs_segment_buffer s5)" "hs_segment_buffer s5 ! 5 = 0x80" by (simp_all add: s5_def s3_def)
  then have "5 < length (hs_segment_buffer s') \<and> hs_segment_buffer s' ! 5 = 0x80"
    unfolding s' append_frame_buffer by (simp add: nth_append)
  moreover have "cs_data c ! 5 = 0" "cs_discontinuity c"
    using grows_close [OF assms(2) close(2)] p by (auto simp: lag_pending_def)
  ultimately show ?thesis using close(1) by simp
next
  case go
  let ?s2 = "framed F s f"
  note p = framed_pending [OF assms(1), of F f]
  have "muxer_ok (hs_muxer s')" using grows_muxer_ok [OF grows_continue [OF assms(2)]] p go(2) by (auto simp: lag_pending_def)
  with continue_flags [of ?s2 f] p go grows_keeps_byte [OF grows_continue [OF assms(2)], of ?s2] show ?thesis
    by (auto simp: lag_pending_def)
qed

lemma hls_feed_first_close:
  assumes "lag_pending s" and "mf_codec f \<noteq> codec_type.Unknown" and "hls_feed F s (now, ok, f) = (s1, cs)"
  shows "(cs = [] \<and> lag_pending s1) \<or>
     (\<exists>c. cs = [(ok, c)] \<and> cs_discontinuity c \<and> cs_data c ! 5 = 0 \<and>
        5 < length (hs_segment_buffer s1) \<and> hs_segment_buffer s1 ! 5 = 0x80)"
proof -
  obtain sf r k where f: "on_frame F now s f = (sf, r, k)" by (cases "on_frame F now s f")
  from on_frame_pending [OF assms(1,2) f] assms(3) f show ?thesis
    by (cases r) (auto simp: hls_feed_def)
qed

lemma hls_run_no_close:
  assumes "fed_codecs_known is" and "hls_run F s is = (s', [])"
    and "5 < length (hs_segment_buffer s)"
  shows "hs_segment_buffer s' ! 5 = hs_segment_buffer s ! 5"
  using hls_run_grows [OF assms(1,2)] grows_keeps_byte [OF _ assms(3)] by auto

lemma hls_run_first_close:
  assumes "lag_pending s" and "fed_codecs_known is" and "hls_run F s is = (s', [(ok, c)])"
  shows "cs_discontinuity c \<and> cs_data c ! 5 = 0 \<and> hs_segment_buffer s' ! 5 = 0x80"
  using assms
proof (induction "is" arbitrary: s)
  case (Cons i "is")
  obtain now ok' f where i: "i = (now, ok', f)" by (cases i)
  have known: "mf_codec f \<noteq> codec_type.Unknown" "fed_codecs_known is"
    using Cons.prems(2) i by (auto simp: fed_codecs_known_def)
  obtain s1 a where a: "hls_feed F s (now, ok', f) = (s1, a)" by fastforce
  obtain b where b: "hls_run F s1 is = (s', b)" "a @ b = [(ok, c)]"
    using Cons.prems(3) a i by (auto split: prod.splits)
  from hls_feed_first_close [OF Cons.prems(1) known(1) a] show ?case
  proof (elim disjE conjE exE)
    assume "a = []" "lag_pending s1"
    with Cons.IH known(2) b show ?thesis by simp
  next
    fix d
    assume d: "a = [(ok', d)]" "cs_discontinuity d" "cs_data d ! 5 = 0" "5 < length (hs_segment_buffer s1)"
      "hs_segment_buffer s1 ! 5 = 0x80"
    with b have "d = c" "hls_run F s1 is = (s', [])" by simp_all
    from hls_run_no_close [OF known(2) this(2) d(4)] d \<open>d = c\<close> show ?thesis by simp
  qed
qed simp

text \<open>When the session has thrown away a partial segment, the mark that tells a decoder of the break
  comes one segment late: the first segment closed afterwards is announced in the playlist as a
  discontinuity but its packets carry no discontinuity indicator, and the segment after it, which
  follows without a break, carries one.\<close>

theorem hls_discontinuity_one_segment_late:
  assumes "muxer_ok (hs_muxer s)" and "\<not> tm_segment_discontinuity (hs_muxer s)" and "fed_codecs_known is"
    and "hls_run F (recover_from_lag F s) is = (s', [(ok, c)])"
  shows "cs_discontinuity c \<and> cs_data c ! 5 = 0 \<and> hs_segment_buffer s' ! 5 = 0x80"
proof -
  have "lag_pending (recover_from_lag F s)" using assms(1,2) by (simp add: lag_pending_def recover_from_lag_def)
  from hls_run_first_close [OF this assms(3,4)] show ?thesis .
qed

section \<open>A session that closes a segment\<close>

text \<open>Three keyframes 400 ms apart: the last one closes the first segment.\<close>

definition demo_clip :: "(int \<times> bool \<times> media_frame) list" where
  "demo_clip = [(0, True, demo_video 1000 True), (0, True, demo_video 1400 True), (0, True, demo_video 1800 True)]"

definition demo_session :: "nat hls_session" where
  "demo_session = hls_session_new milli_ops ''s'' 1000 3"

lemma length_tables: "length (snd (generate_pat_pmt t v a)) = 376"
proof -
  have stuffed: "length (stuffed_packet pid True cc fl xs) = 188" if "length xs < 183" for pid cc fl xs
    using that by (auto simp: stuffed_packet_def Let_def)
  obtain t1 p where p: "generate_pat t = (t1, p)" by fastforce
  obtain t2 q where q: "generate_pmt t1 v a = (t2, q)" by fastforce
  have "length p = 188" "length q = 188"
    using p q stuffed pat_section_parses(2) pmt_section_parses(3) [of v a]
    by (auto simp: generate_pat_def generate_pmt_def ts_packet_small Let_def take_segment_discontinuity_def split: prod.splits)
  then show ?thesis by (simp add: generate_pat_pmt_def p q Let_def)
qed

lemma demo_video_simps [simp]:
  "mf_codec (demo_video ts k) = H264" "mf_timestamp (demo_video ts k) = ts" "mf_is_keyframe (demo_video ts k) = k"
  "mf_clock_rate (demo_video ts k) = None" "length (mf_data (demo_video ts k)) = 600"
  by (simp_all add: demo_video_def media_frame_new_def)

lemma demo_video_keyframe: "is_hls_video_keyframe (demo_video ts True)"
  by (simp add: is_hls_video_keyframe_def)

lemma append_tables_eq:
  "append_tables s a = s\<lparr>hs_muxer := fst (generate_pat_pmt (hs_muxer s) True a),
     hs_segment_buffer := hs_segment_buffer s @ snd (generate_pat_pmt (hs_muxer s) True a)\<rparr>"
  by (simp add: append_tables_def Let_def case_prod_unfold)

lemma append_frame_eq:
  "append_frame s g = s\<lparr>hs_muxer := fst (frame_to_ts (update_pcr (hs_muxer s) (mf_timestamp g)) g),
     hs_segment_buffer := hs_segment_buffer s @ snd (frame_to_ts (update_pcr (hs_muxer s) (mf_timestamp g)) g)\<rparr>"
  by (simp add: append_frame_def Let_def case_prod_unfold)

text \<open>The clocks a decision looks at.\<close>

definition clocks :: "'f hls_session \<Rightarrow> bool \<times> bool \<times> nat \<times> nat \<times> nat \<times> nat \<times> nat" where
  "clocks s = (hs_active s, hs_primed s, hs_session_last_raw_video s, hs_session_video_mux_ms s,
     hs_segment_last_mux_ms s, hs_segment_open_mux_ms s, hs_segment_open_mux_ms_at_split s)"

lemma continue_clocks:
  assumes "clocks s = (act, prim, raw, m, l, o1, o2)" and "advance_video_mux_ms raw m ts None = (ts, m')"
  shows "clocks (continue_segment s (demo_video ts True)) = (act, prim, ts, m', m', o1, o2)"
  using assms
  by (simp add: clocks_def continue_segment_def prepare_frame_for_mux_def mux_timestamp_ms_def append_frame_eq Let_def
      demo_video_keyframe with_clock_rate_def media_frame_new_def)

lemma framed_clocks:
  assumes "clocks s = (act, prim, raw, m, l, o1, o2)"
  shows "clocks (framed F s (demo_video ts True)) =
     (act, True, raw, m, l, if hs_segment_buffer s = [] then m else o1, if hs_segment_buffer s = [] then m else o2)"
  using assms
  by (simp add: clocks_def framed_def counted_def open_segment_def track_video_clock_def append_tables_eq Let_def)

lemma framed_buffer: "hs_segment_buffer s \<noteq> [] \<Longrightarrow> hs_segment_buffer (framed F s f) = hs_segment_buffer s"
  by (simp add: framed_def open_segment_cases)

lemma framed_playlist: "hs_playlist (framed F s f) = hs_playlist s"
  by (simp add: framed_def playlist_unchanged)

lemma advance_demo:
  "advance_video_mux_ms 0 0 1000 None = (1000, 0)" "advance_video_mux_ms 1000 0 1400 None = (1400, 400)"
  by (simp_all add: advance_video_mux_ms_def media_timestamp_delta_ms_with_clock_def looks_like_rtp_video_delta_def
      rtp_video_delta_min_ticks_def Let_def sat_add64_def u64_max_def)

lemma continue_adds:
  assumes "muxer_ok (hs_muxer s)"
  shows "length (hs_segment_buffer s) + 188 \<le> length (hs_segment_buffer (continue_segment s (demo_video ts True)))"
proof -
  obtain s1 g where p: "prepare_frame_for_mux s (demo_video ts True) = (s1, g)" by fastforce
  note q = prepare_frame_simps [OF p]
  have g: "mf_codec g = H264" "mf_data g = mf_data (demo_video ts True)"
    using p by (auto simp: prepare_frame_for_mux_def Let_def with_clock_rate_def media_frame_new_def split: prod.splits)
  then have "ts_payload g \<noteq> []" by (auto simp: ts_payload_def prepare_h264_au_for_ts_def demo_video_def media_frame_new_def)
  let ?t = "update_pcr (hs_muxer s1) (mf_timestamp g)"
  have "unat (frame_counter ?t g) < 16"
    using assms q(1) by (simp add: frame_counter_def update_pcr_def muxer_ok_def)
  from frame_to_ts_views [OF \<open>ts_payload g \<noteq> []\<close> this surjective_pairing] obtain ps vs where
    "snd (frame_to_ts ?t g) = concat ps" "map parse_ts ps = map Some vs" "\<forall>p\<in>set ps. length p = 188"
    "unit_views (frame_pid g) (frame_counter ?t g) vs"
    by metis
  then have "188 \<le> length (snd (frame_to_ts ?t g))" by (cases ps) (auto simp: unit_views_def)
  with q(1,2) p show ?thesis
    by (simp add: continue_segment_def append_frame_eq Let_def)
qed

lemma demo_clip_closes:
  assumes c0: "clocks s0 = (True, prim, 0, 0, 0, 0, 0)" "hs_segment_buffer s0 = []"
    and fresh: "muxer_ok (hs_muxer s0)" "hs_playlist s0 = m3u8_new 1000 3"
  shows "\<exists>c. snd (hls_run milli_ops s0 demo_clip) = [(True, c)]"
proof -
  let ?f1 = "demo_video 1000 True" and ?f2 = "demo_video 1400 True" and ?f3 = "demo_video 1800 True"
  let ?s1 = "continue_segment (framed milli_ops s0 ?f1) ?f1"
  let ?s2 = "continue_segment (framed milli_ops ?s1 ?f2) ?f2"
  have go: "on_frame milli_ops 0 s (demo_video ts True) = (continue_segment (framed milli_ops s (demo_video ts True)) (demo_video ts True),
      None, wants_keyframe milli_ops (framed milli_ops s (demo_video ts True)) (demo_video ts True))"
    if "clocks s = (True, prim, raw, m, m, m, m)" for s prim raw m ts
  proof -
    have "\<not> split_now milli_ops (framed milli_ops s (demo_video ts True)) (demo_video ts True)"
      using framed_clocks [OF that, of milli_ops ts] split_now_keyframe by (fastforce simp: clocks_def)
    moreover have "hs_active s" using that by (simp add: clocks_def)
    ultimately show ?thesis
      unfolding on_frame_def Let_def counted_def [symmetric] framed_def [symmetric] by (simp add: demo_video_keyframe)
  qed
  have b1: "376 \<le> length (hs_segment_buffer ?s1)"
    using grows_continue [of ?f1 "framed milli_ops s0 ?f1"] c0(2)
    by (auto simp: grows_def framed_def open_segment_cases append_tables_buffer length_tables)
  have c1: "clocks ?s1 = (True, True, 1000, 0, 0, 0, 0)"
    using continue_clocks [OF framed_clocks [OF c0(1)] advance_demo(1)] c0(2) by simp
  have c2: "clocks ?s2 = (True, True, 1400, 400, 400, 0, 0)"
    using continue_clocks [OF framed_clocks [OF c1] advance_demo(2)] b1 by (cases "hs_segment_buffer ?s1 = []") simp_all
  have ok: "muxer_ok (hs_muxer (framed milli_ops s f))" if "muxer_ok (hs_muxer s)" for s f
    using that by (rule grows_muxer_ok [OF grows_framed])
  have ok1: "muxer_ok (hs_muxer ?s1)"
    using ok [OF fresh(1), of ?f1] by (intro grows_muxer_ok [OF grows_continue]) simp_all
  have "hs_segment_buffer (framed milli_ops ?s1 ?f2) = hs_segment_buffer ?s1" using b1 by (intro framed_buffer) auto
  with continue_adds [OF ok [OF ok1], of ?f2 1400] b1 have b2: "564 \<le> length (hs_segment_buffer ?s2)" by simp
  then have ne: "hs_segment_buffer ?s2 \<noteq> []" by (metis list.size(3) not_numeral_le_zero)
  note f3 = framed_buffer [OF ne, of milli_ops ?f3] ne
  have c3: "clocks (framed milli_ops ?s2 ?f3) = (True, True, 1400, 400, 400, 0, 0)"
    using framed_clocks [OF c2, of milli_ops 1800] f3(2) by simp
  have "hs_playlist (framed milli_ops ?s2 ?f3) = m3u8_new 1000 3"
    using on_frame_playlist [OF go [OF c0(1)], of 1000] on_frame_playlist [OF go [OF c1], of 1400]
    by (simp add: framed_playlist fresh(2))
  then have "split_now milli_ops (framed milli_ops ?s2 ?f3) ?f3"
    using c3 f3(1) b2
    by (simp add: split_now_def should_split_segment_def clocks_def segment_mux_secs_def split_threshold_secs_def
        segment_count_def m3u8_new_def demo_video_keyframe milli_ops_def MIN_SEGMENT_BYTES_def)
  then have "fst (snd (on_frame milli_ops 0 ?s2 ?f3)) \<noteq> None"
    using c2 f3(1) b2 unfolding on_frame_def Let_def counted_def [symmetric] framed_def [symmetric]
    by (simp add: clocks_def MIN_SEGMENT_BYTES_def case_prod_unfold)
  then show ?thesis
    by (cases "on_frame milli_ops 0 ?s2 ?f3")
      (auto simp: demo_clip_def hls_feed_def go [OF c0(1)] go [OF c1] split: prod.splits option.splits)
qed

lemma demo_clip_known: "fed_codecs_known demo_clip"
  by (simp add: fed_codecs_known_def demo_clip_def)


lemma demo_session_fresh:
  "clocks demo_session = (True, False, 0, 0, 0, 0, 0)" "hs_segment_buffer demo_session = []"
  "muxer_ok (hs_muxer demo_session)" "hs_playlist demo_session = m3u8_new 1000 3"
  "\<not> tm_segment_discontinuity (hs_muxer demo_session)"
  using muxer_new_ok by (simp_all add: clocks_def demo_session_def hls_session_new_def muxer_new_def)


theorem hls_discontinuity_one_segment_late_witness:
  "\<exists>c. snd (hls_run milli_ops (recover_from_lag milli_ops demo_session) demo_clip) = [(True, c)] \<and>
     cs_discontinuity c \<and> cs_data c ! 5 = 0 \<and>
     hs_segment_buffer (fst (hls_run milli_ops (recover_from_lag milli_ops demo_session) demo_clip)) ! 5 = 0x80"
proof -
  let ?s = "recover_from_lag milli_ops demo_session"
  have "clocks ?s = (True, False, 0, 0, 0, 0, 0)" "hs_segment_buffer ?s = []"
    "muxer_ok (hs_muxer ?s)" "hs_playlist ?s = m3u8_new 1000 3"
    using demo_session_fresh by (simp_all add: recover_from_lag_def clocks_def)
  from demo_clip_closes [OF this] obtain c where
    c: "hls_run milli_ops ?s demo_clip = (fst (hls_run milli_ops ?s demo_clip), [(True, c)])"
    by (metis prod.collapse)
  then have "snd (hls_run milli_ops ?s demo_clip) = [(True, c)]" by (metis snd_conv)
  with hls_discontinuity_one_segment_late [OF demo_session_fresh(3,5) demo_clip_known c] show ?thesis by blast
qed

theorem hls_playlist_lists_written_segments_witness:
  "window_of (numbered 0 (List.map (\<lambda>c. (cs_duration c, cs_pdt c, cs_discontinuity c))
     (written (snd (hls_run milli_ops demo_session demo_clip))))) (hs_playlist (fst (hls_run milli_ops demo_session demo_clip)))"
  unfolding demo_session_def by (rule hls_playlist_lists_written_segments [OF surjective_pairing])

end
