(* ===== verification/Hls_Server.thy ===== *)
theory Hls_Server
  imports Hls_Play Dispatch Paths H264_Util
begin

text \<open>
  The \<open>HlsServer\<close> of \<open>src/src/server/hls/mod.rs\<close>: which streams are packaged, the task of each and
  the files it leaves, the playlists and segments it serves, and the reaper of streams that nobody
  watches. Times of requests are milliseconds. A task is listed while its abort handle is; a stopped
  task does no further step. The disk holds the finished files: the \<open>.part\<close> files that are written
  first and renamed are left out, a failed write or rename leaves the disk as it is; so are the counters
  that are only logged. A turn of a task and a round of the reaper are one step each, though requests
  can come in between two awaits of them. A segment path that leads to a directory counts as missing:
  the code finds it, and the request fails when it is read.
\<close>

section \<open>State\<close>

record 'f hls_config =
  hc_enabled :: bool
  hc_segment_duration :: 'f
  hc_max_segments :: nat
  hc_output_dir :: string

record hls_task =
  ht_stream_id :: stream_id
  ht_reader :: dispatch_reader

record 'f hls_server =
  hv_config :: "'f hls_config"
  hv_sessions :: "(stream_id \<times> 'f hls_session) list"
  hv_tasks :: "(stream_id \<times> hls_task) list"
  hv_last_access :: "(stream_id \<times> nat) list"
  hv_disk :: disk

definition HLS_IDLE_TIMEOUT :: nat where "HLS_IDLE_TIMEOUT = 30000"
definition HLS_MUX_LAG_SNAP_THRESHOLD :: nat where "HLS_MUX_LAG_SNAP_THRESHOLD = 30"

definition hls_server_new :: "'f hls_config \<Rightarrow> disk \<Rightarrow> 'f hls_server" where
  "hls_server_new config disk =
     \<lparr>hv_config = config, hv_sessions = [], hv_tasks = [], hv_last_access = [], hv_disk = disk\<rparr>"

definition hls_touch :: "'f hls_server \<Rightarrow> nat \<Rightarrow> stream_id \<Rightarrow> 'f hls_server" where
  "hls_touch v now sid = v\<lparr>hv_last_access := AList.update sid now (hv_last_access v)\<rparr>"

definition hls_has_stream :: "'f hls_server \<Rightarrow> stream_id \<Rightarrow> bool" where
  "hls_has_stream v sid \<longleftrightarrow> map_of (hv_sessions v) sid \<noteq> None"

definition hls_list_streams :: "'f hls_server \<Rightarrow> stream_id list" where
  "hls_list_streams v = List.map fst (hv_sessions v)"

definition hls_output_dir :: "'f hls_server \<Rightarrow> string" where
  "hls_output_dir v = hc_output_dir (hv_config v)"

text \<open>\<open>cwd\<close> is the working directory of the server.\<close>

definition stream_dir :: "place \<Rightarrow> 'f hls_server \<Rightarrow> stream_id \<Rightarrow> place" where
  "stream_dir cwd v sid = locate cwd (path_join (hls_output_dir v) sid)"

section \<open>Starting and stopping\<close>

text \<open>
  \<open>start_stream\<close> with \<open>HlsSession::new\<close>, which empties the directory of the stream and creates it
  anew; \<open>None\<close> is the error when it cannot be created. \<open>h\<close> is the hub when the task first runs.
\<close>

definition hls_start_stream ::
    "'f f64_ops \<Rightarrow> place \<Rightarrow> 'f hls_server \<Rightarrow> stream_manager \<Rightarrow> stream_hub \<Rightarrow> nat \<Rightarrow> bool \<Rightarrow> stream_id \<Rightarrow>
     'f hls_server \<times> bool" where
  "hls_start_stream F cwd v m h now create_ok sid =
     (if hls_has_stream v sid then (v, True)
      else
        let v1 = v\<lparr>hv_disk := remove_tree (stream_dir cwd v sid) (hv_disk v)\<rparr>
        in if \<not> create_ok then (v1, False)
           else
             let session = hls_session_new F sid (hc_segment_duration (hv_config v)) (hc_max_segments (hv_config v));
                 v2 = v1\<lparr>hv_sessions := AList.update sid session (hv_sessions v1)\<rparr>
             in case dispatch_subscribe m sid SequentialFromIdr of
                  None \<Rightarrow> (v2, True)
                | Some r \<Rightarrow>
                    let task = \<lparr>ht_stream_id = sid, ht_reader = finish_prime r h\<rparr>
                    in (hls_touch (v2\<lparr>hv_tasks := AList.update sid task (hv_tasks v2)\<rparr>) now sid, True))"

definition hls_stop_stream :: "'f hls_server \<Rightarrow> stream_id \<Rightarrow> 'f hls_server" where
  "hls_stop_stream v sid =
     v\<lparr>hv_tasks := AList.delete sid (hv_tasks v), hv_last_access := AList.delete sid (hv_last_access v),
       hv_sessions := AList.delete sid (hv_sessions v)\<rparr>"

text \<open>The result is \<open>None\<close> on an error, else whether the stream is packaged.\<close>

definition hls_ensure_stream ::
    "'f f64_ops \<Rightarrow> place \<Rightarrow> 'f hls_server \<Rightarrow> stream_manager \<Rightarrow> stream_hub \<Rightarrow> nat \<Rightarrow> bool \<Rightarrow> stream_id \<Rightarrow> bool \<Rightarrow>
     'f hls_server \<times> bool option" where
  "hls_ensure_stream F cwd v m h now create_ok sid reset =
     (if get_stream m sid = None then (v, Some False)
      else
        let v1 = (if reset \<and> hls_has_stream v sid then hls_stop_stream v sid else v)
        in if hls_has_stream v1 sid then (hls_touch v1 now sid, Some True)
           else (case hls_start_stream F cwd v1 m h now create_ok sid of
                   (v2, True) \<Rightarrow> (hls_touch v2 now sid, Some True)
                 | (v2, False) \<Rightarrow> (v2, None)))"

definition hls_restart_stream ::
    "'f f64_ops \<Rightarrow> place \<Rightarrow> 'f hls_server \<Rightarrow> stream_manager \<Rightarrow> stream_hub \<Rightarrow> nat \<Rightarrow> bool \<Rightarrow> stream_id \<Rightarrow>
     'f hls_server \<times> bool" where
  "hls_restart_stream F cwd v m h now create_ok sid =
     (case hls_ensure_stream F cwd v m h now create_ok sid True of (v', r) \<Rightarrow> (v', r \<noteq> None))"

section \<open>Requests\<close>

definition hls_empty_playlist :: "'f f64_ops \<Rightarrow> 'f hls_server \<Rightarrow> string" where
  "hls_empty_playlist F v =
     (let target = fl_as_u64 F (fl_max F (fl_ceil F (hc_segment_duration (hv_config v))) (fl_lit F 100))
      in unlines_crlf [''#EXTM3U'', ''#EXT-X-VERSION:3'', ''#EXT-X-TARGETDURATION:'' @ dec_str target,
           ''#EXT-X-MEDIA-SEQUENCE:0''])"

definition hls_get_playlist ::
    "'f f64_ops \<Rightarrow> (int \<Rightarrow> string) \<Rightarrow> 'f hls_server \<Rightarrow> nat \<Rightarrow> stream_id \<Rightarrow> 'f hls_server \<times> string option" where
  "hls_get_playlist F date v now sid =
     (hls_touch v now sid,
      case map_of (hv_sessions v) sid of
        None \<Rightarrow> None
      | Some s \<Rightarrow> if segment_count (hs_playlist s) = 0 then None else Some (generate F date (hs_playlist s)))"

text \<open>The place of a segment file; with or without a session it is looked up in the same directory.\<close>

definition hls_get_segment_path ::
    "place \<Rightarrow> 'f hls_server \<Rightarrow> nat \<Rightarrow> stream_id \<Rightarrow> string \<Rightarrow> 'f hls_server \<times> place option" where
  "hls_get_segment_path cwd v now sid filename =
     (let p = locate cwd (path_join (path_join (hls_output_dir v) sid) filename)
      in (hls_touch v now sid, if hv_disk v p \<noteq> None then Some p else None))"

text \<open>One round of the reaper at time \<open>now\<close>.\<close>

definition hls_reap_one :: "'f hls_server \<Rightarrow> stream_id \<Rightarrow> 'f hls_server" where
  "hls_reap_one v sid =
     (let v1 = (if hls_has_stream v sid then hls_stop_stream v sid else v)
      in v1\<lparr>hv_last_access := AList.delete sid (hv_last_access v1)\<rparr>)"

definition hls_reap :: "'f hls_server \<Rightarrow> nat \<Rightarrow> 'f hls_server" where
  "hls_reap v now =
     foldl hls_reap_one v (List.map fst (filter (\<lambda>(_, t). now - t > HLS_IDLE_TIMEOUT) (hv_last_access v)))"

section \<open>The task\<close>

text \<open>\<open>name.strip_prefix("segment_").and_then(strip_suffix(".ts")).and_then(parse)\<close>\<close>

definition segment_number :: "string \<Rightarrow> nat option" where
  "segment_number name =
     (case strip_prefix ''segment_'' name of
        None \<Rightarrow> None
      | Some s \<Rightarrow>
          if suffix ''.ts'' s then parse_dec u64_max (take (length s - 3) s) else None)"

definition prune_old_segments :: "place \<Rightarrow> nat \<Rightarrow> disk \<Rightarrow> disk" where
  "prune_old_segments dir prune_before disk =
     (if prune_before = 0 then disk
      else (\<lambda>p. if p \<noteq> [] \<and> butlast p = dir \<and>
                   (case segment_number (last p) of None \<Rightarrow> False | Some n \<Rightarrow> n < prune_before)
                then None else disk p))"

text \<open>The frame given to the session: a keyframe gets the codec configuration of the stream.\<close>

definition hls_frame_with_config :: "stream_manager \<Rightarrow> stream_id \<Rightarrow> media_frame \<Rightarrow> media_frame" where
  "hls_frame_with_config m sid f =
     (if mf_codec f = H264 \<and> is_hls_video_keyframe f then
        (case get_stream m sid of
           None \<Rightarrow> f
         | Some st \<Rightarrow>
             (case (st_sps st, st_pps st) of
                (Some sps, Some pps) \<Rightarrow>
                  with_optional_clock_rate
                    (media_frame_new (mf_stream_id f) (mf_track_id f) (mf_timestamp f)
                      (annex_b_with_config sps pps (mf_data f)) (mf_is_keyframe f) (mf_codec f))
                    (mf_clock_rate f)
              | _ \<Rightarrow> f))
      else f)"

text \<open>What the outside decides for one frame: the time, and whether the files can be written and listed.\<close>

record hls_io =
  hi_now :: int
  hi_segment_ok :: bool
  hi_playlist_ok :: bool
  hi_listing_ok :: bool

text \<open>A closed segment is written, entered into the playlist, and the playlist written.\<close>

definition hls_write_segment ::
    "'f f64_ops \<Rightarrow> (int \<Rightarrow> string) \<Rightarrow> place \<Rightarrow> hls_io \<Rightarrow> 'f hls_server \<Rightarrow> stream_id \<Rightarrow> 'f hls_session \<Rightarrow>
     'f completed_segment \<Rightarrow> 'f hls_server" where
  "hls_write_segment F date cwd io v sid s c =
     (if \<not> hi_segment_ok io then v
      else
        let dir = stream_dir cwd v sid;
            s1 = hls_commit s c;
            prune_before = cs_seq c - (m3_max_segments (hs_playlist s1) + 2);
            d1 = (hv_disk v)(dir @ [cs_filename c] \<mapsto> cs_data c);
            d2 = (if hi_playlist_ok io
                  then d1(dir @ [''live.m3u8''] \<mapsto> ascii (generate F date (hs_playlist s1))) else d1);
            d3 = (if hi_listing_ok io then prune_old_segments dir prune_before d2 else d2)
        in v\<lparr>hv_sessions := AList.update sid s1 (hv_sessions v), hv_disk := d3\<rparr>)"

text \<open>One frame of a batch; the boolean is \<open>False\<close> when the session is gone.\<close>

definition hls_task_frame ::
    "'f f64_ops \<Rightarrow> (int \<Rightarrow> string) \<Rightarrow> place \<Rightarrow> stream_manager \<Rightarrow> hls_io \<Rightarrow> 'f hls_server \<Rightarrow> stream_id \<Rightarrow> media_frame \<Rightarrow>
     'f hls_server \<times> bool" where
  "hls_task_frame F date cwd m io v sid f =
     (if mf_codec f = Opus \<or> mf_codec f = G711 then (v, True)
      else
        (case map_of (hv_sessions v) sid of
           None \<Rightarrow> (v, False)
         | Some s \<Rightarrow>
             (case on_frame F (hi_now io) s (hls_frame_with_config m sid f) of
                (s', closed, _) \<Rightarrow>
                  let v1 = v\<lparr>hv_sessions := AList.update sid s' (hv_sessions v)\<rparr>
                  in (case closed of
                        None \<Rightarrow> (v1, True)
                      | Some c \<Rightarrow> (hls_write_segment F date cwd io v1 sid s' c, True)))))"

fun hls_task_frames ::
    "'f f64_ops \<Rightarrow> (int \<Rightarrow> string) \<Rightarrow> place \<Rightarrow> stream_manager \<Rightarrow> (nat \<Rightarrow> hls_io) \<Rightarrow> nat \<Rightarrow> 'f hls_server \<Rightarrow> stream_id \<Rightarrow>
     media_frame list \<Rightarrow> 'f hls_server" where
  "hls_task_frames F date cwd m io k v sid [] = v"
| "hls_task_frames F date cwd m io k v sid (f # fs) =
     (case hls_task_frame F date cwd m (io k) v sid f of
        (v', True) \<Rightarrow> hls_task_frames F date cwd m io (k + 1) v' sid fs
      | (v', False) \<Rightarrow> v')"

definition hls_recover :: "'f f64_ops \<Rightarrow> 'f hls_server \<Rightarrow> stream_id \<Rightarrow> 'f hls_server" where
  "hls_recover F v sid =
     (case map_of (hv_sessions v) sid of
        None \<Rightarrow> v
      | Some s \<Rightarrow> v\<lparr>hv_sessions := AList.update sid (recover_from_lag F s) (hv_sessions v)\<rparr>)"

text \<open>
  One turn of the loop: \<open>h\<close> is the hub now, \<open>wake\<close> the hub a sleeping reader wakes up to (none: the
  stream is closed, the task ends and takes its session with it).
\<close>

definition hls_turn ::
    "'f f64_ops \<Rightarrow> (int \<Rightarrow> string) \<Rightarrow> place \<Rightarrow> stream_manager \<Rightarrow> (nat \<Rightarrow> hls_io) \<Rightarrow> stream_hub \<times> stream_hub option \<Rightarrow>
     'f hls_server \<Rightarrow> stream_id \<Rightarrow> 'f hls_server" where
  "hls_turn F date cwd m io hub v sid =
     (case map_of (hv_tasks v) sid of
        None \<Rightarrow> v
      | Some t \<Rightarrow>
          let lag = hub_latest_seq (fst hub) - rd_cursor (ht_reader t);
              (v1, r1) = (if lag > HLS_MUX_LAG_SNAP_THRESHOLD
                          then (hls_recover F v sid, snap_to_latest_idr (ht_reader t) (fst hub))
                          else (v, ht_reader t));
              put = (\<lambda>v r. v\<lparr>hv_tasks := AList.update sid (t\<lparr>ht_reader := r\<rparr>) (hv_tasks v)\<rparr>)
          in case recv_batch r1 (fst hub) (snd hub) of
               (r2, _, Inl Closed) \<Rightarrow>
                 v1\<lparr>hv_sessions := AList.delete sid (hv_sessions v1), hv_tasks := AList.delete sid (hv_tasks v1)\<rparr>
             | (r2, _, Inr frames) \<Rightarrow>
                 if frames = [] then put v1 r2
                 else
                   let (r3, snap) = take_live_snap r2;
                       v2 = (if snap then hls_recover F v1 sid else v1);
                       (r4, resync) = take_muxer_resync r3;
                       v3 = (if resync then hls_recover F v2 sid else v2)
                   in hls_task_frames F date cwd m io 0 (put v3 r4) sid frames)"

end
