(* ===== verification/Http_Api.thy ===== *)
theory Http_Api
  imports Http_Flv Hls_Server Recorder Snapshot Analysis Rtsp_Messages
begin

text \<open>
  The HTTP server, \<open>src/src/server/http/mod.rs\<close>: a connection reads once, routes on the method and the
  path, calls the manager, the HLS and FLV servers, the recorder, the analysis or the snapshots, and
  writes one response; tasks that it spawns are effects. The play task of FLV is in \<open>Http_Flv\<close>.
  Arguments are \<open>serde_json\<close> with its readers of requests, the escaping of strings by \<open>{:?}\<close>, the test
  page, the clocks, the files, and what the other tasks do while a request waits. Requests are ASCII
  texts, and writes to the socket succeed.
\<close>

section \<open>The server\<close>

record 'f http_libs =
  hl_json :: "'f json_libs"
  hl_start_record :: "string \<Rightarrow> start_record_request option"
  hl_stop_record :: "string \<Rightarrow> (stream_id option \<times> string option) option"
  hl_start_analysis :: "string \<Rightarrow> start_analysis_request option"
  hl_stop_analysis :: "string \<Rightarrow> stream_id option"
  hl_capture_snapshot :: "string \<Rightarrow> stream_id option"
  hl_debug_str :: "string \<Rightarrow> string"
  hl_test_page :: string

text \<open>The parts a request can reach; those that are switched off are \<open>None\<close>.\<close>

record 'f http_server =
  hw_manager :: stream_manager
  hw_hls :: "'f hls_server option"
  hw_flv :: bool
  hw_recorder :: "recorder option"
  hw_recordings :: "recording_entry list"
  hw_analysis :: "'f analysis_manager option"
  hw_snapshots :: "snapshot_manager option"

text \<open>
  The outside of one connection: readings of the clock, whether the directory of an HLS stream can be
  made, what other tasks do to the HLS server before each later look at the playlist, the registry at
  each later look of an FLV player and at its start, the hubs that its \<open>prime_live_play\<close> meets, and the files.
\<close>

record 'f http_env =
  he_now :: nat
  he_started :: nat
  he_dir_ok :: bool
  he_hls_looks :: "('f hls_server \<Rightarrow> 'f hls_server) list"
  he_flv_looks :: "stream_manager list"
  he_flv_manager :: stream_manager
  he_flv_rounds :: "(stream_hub \<times> stream_hub option) list"
  he_flv_hubs :: "stream_hub \<times> stream_hub"
  he_read :: "string \<Rightarrow> bytes option"

datatype http_effect =
    Request_keyframe stream_id
  | Spawn_rtsp_pull string stream_id
  | Spawn_rtmp_pull string stream_id
  | Spawn_rtsp_push string stream_id "track list"
  | Spawn_recording record_task
  | Spawn_analysis analysis_session_info
  | Spawn_snapshot snapshot_entry

section \<open>Text\<close>

text \<open>\<open>trim_start_matches\<close> and \<open>trim_end_matches\<close> of a pattern remove it as often as it is there.\<close>

function trim_start_matches :: "string \<Rightarrow> string \<Rightarrow> string" where
  "trim_start_matches p s =
     (if p \<noteq> [] \<and> prefix p s then trim_start_matches p (drop (length p) s) else s)"
  by auto
termination by (relation "measure (length \<circ> snd)") (auto simp: prefix_def)

declare trim_start_matches.simps [simp del]

definition trim_end_matches :: "string \<Rightarrow> string \<Rightarrow> string" where
  "trim_end_matches p s = rev (trim_start_matches (rev p) (rev s))"

text \<open>The text behind the first blank line, and \<open>json_body\<close>, which trims it.\<close>

definition body_start :: "string \<Rightarrow> string" where
  "body_start request =
     (case find_str (crlf @ crlf) request of Some i \<Rightarrow> drop (i + 4) request | None \<Rightarrow> [])"

definition json_body :: "string \<Rightarrow> string" where
  "json_body request = trim (body_start request)"

definition http_response :: "nat \<Rightarrow> string \<Rightarrow> string \<Rightarrow> string" where
  "http_response code reason body =
     unlines_crlf
       [''HTTP/1.1 '' @ dec_str code @ '' '' @ reason, ''Content-Type: application/json'',
        ''Content-Length: '' @ dec_str (length body), ''Connection: close'', ''Access-Control-Allow-Origin: *'']
     @ crlf @ body"

text \<open>The head of a response with data of its own type.\<close>

definition media_head :: "string \<Rightarrow> nat \<Rightarrow> string list \<Rightarrow> string" where
  "media_head ctype n others =
     unlines_crlf (''HTTP/1.1 200 OK'' # (''Content-Type: '' @ ctype) # (''Content-Length: '' @ dec_str n) #
       ''Access-Control-Allow-Origin: *'' # others) @ crlf"

text \<open>\<open>json!({"error": e})\<close> of a fixed text is written out in the code.\<close>

definition error_text :: "string \<Rightarrow> string" where
  "error_text e = ''{'' @ [CHR 0x22] @ ''error'' @ [CHR 0x22] @ '':'' @ [CHR 0x22] @ e @ [CHR 0x22] @ ''}''"

abbreviation not_found :: "string \<Rightarrow> string" where "not_found \<equiv> http_response 404 ''Not Found''"
abbreviation bad_request :: "string \<Rightarrow> string" where "bad_request \<equiv> http_response 400 ''Bad Request''"

section \<open>JSON views\<close>

fun source_debug :: "stream_source_mode \<Rightarrow> string" where
  "source_debug stream_source_mode.Pull = ''Pull''" | "source_debug stream_source_mode.Push = ''Push''"

fun protocol_debug :: "stream_protocol \<Rightarrow> string" where
  "protocol_debug RTSP = ''RTSP''" | "protocol_debug RTMP = ''RTMP''" | "protocol_debug WebRTC = ''WebRTC''"
| "protocol_debug HTTP = ''HTTP''" | "protocol_debug stream_protocol.Unknown = ''Unknown''"

fun status_debug :: "'f http_libs \<Rightarrow> stream_status \<Rightarrow> string" where
  "status_debug L stream_status.Created = ''Created''"
| "status_debug L stream_status.Unpublished = ''Unpublished''"
| "status_debug L stream_status.Publishing = ''Publishing''"
| "status_debug L stream_status.Paused = ''Paused''"
| "status_debug L stream_status.Stopped = ''Stopped''"
| "status_debug L (stream_status.Error e) = ''Error('' @ hl_debug_str L e @ '')''"

definition listed_stream :: "stream_manager \<Rightarrow> stream_id \<Rightarrow> 'f json" where
  "listed_stream m sid =
     (case get_stream m sid of
        Some s \<Rightarrow> JObject
          [(''id'', JString (st_id s)), (''status'', JString (stream_status_str (st_status s))),
           (''status_description'', JString (stream_status_description (st_status s))),
           (''playback_status'', JString (playback_status_str (st_playback_status s))),
           (''playback_description'', JString (playback_status_description (st_playback_status s))),
           (''source'', JString (source_debug (st_source s))), (''protocol'', JString (protocol_debug (st_protocol s))),
           (''pull_url'', json_opt JString (st_pull_url s)), (''tracks'', JNat (length (st_tracks s)))]
      | None \<Rightarrow> JObject
          [(''id'', JString sid), (''status'', JString ''unknown''), (''status_description'', JString ''Stream not found''),
           (''playback_status'', JString ''unknown''), (''playback_description'', JString ''Stream not found''),
           (''source'', JString ''unknown''), (''protocol'', JString ''unknown''), (''pull_url'', JNull), (''tracks'', JNat 0)])"

definition track_json :: "track \<Rightarrow> 'f json" where
  "track_json t = JObject
     [(''id'', JNat (unat (tr_id t))), (''codec'', JString (codec_debug (tr_codec t))),
      (''payload_type'', JNat (tr_payload_type t)), (''clock_rate'', JNat (tr_clock_rate t))]"

definition stream_json :: "'f http_libs \<Rightarrow> stream \<Rightarrow> (string \<times> 'f json) list \<Rightarrow> 'f json" where
  "stream_json L s others = JObject
     ([(''id'', JString (st_id s)), (''status'', JString (status_debug L (st_status s))),
       (''source'', JString (source_debug (st_source s))), (''protocol'', JString (protocol_debug (st_protocol s))),
       (''pull_url'', json_opt JString (st_pull_url s))] @ others)"

text \<open>What \<open>Serialize\<close> derives for the types of the other components.\<close>

fun format_json :: "record_format \<Rightarrow> 'f json" where
  "format_json Ts = JString ''ts''"

definition recording_json :: "recording_entry \<Rightarrow> 'f json" where
  "recording_json e = JObject
     [(''id'', JString (re_id e)), (''stream_id'', JString (re_stream_id e)), (''session_id'', JString (re_session_id e)),
      (''format'', format_json (re_format e)), (''started_at_ms'', JNat (re_started_at_ms e)),
      (''ended_at_ms'', JNat (re_ended_at_ms e)), (''duration_ms'', JNat (re_duration_ms e)), (''path'', JString (re_path e)),
      (''bytes'', JNat (re_bytes e)), (''video_frames'', JNat (re_video_frames e)), (''audio_frames'', JNat (re_audio_frames e)),
      (''keyframes'', JNat (re_keyframes e)), (''status'', JString (re_status e))]"

definition record_session_json :: "record_session_info \<Rightarrow> 'f json" where
  "record_session_json i = JObject
     [(''session_id'', JString (ri_session_id i)), (''stream_id'', JString (ri_stream_id i)),
      (''format'', format_json (ri_format i)), (''started_at_ms'', JNat (ri_started_at_ms i)),
      (''segment_duration_ms'', JNat (ri_segment_duration_ms i)), (''align_keyframe'', JBool (ri_align_keyframe i))]"

definition analysis_session_json :: "analysis_session_info \<Rightarrow> 'f json" where
  "analysis_session_json i = JObject
     [(''stream_id'', JString (ai_stream_id i)), (''started_at_ms'', JNat (ai_started_at_ms i)),
      (''sample_interval'', JNat (ai_sample_interval i)), (''plugins'', JArray (List.map JString (ai_plugins i)))]"

definition metrics_json :: "'f analysis_metrics \<Rightarrow> 'f json" where
  "metrics_json a = JObject
     [(''stream_id'', JString (am_stream_id a)), (''started_at_ms'', JNat (am_started_at_ms a)),
      (''updated_at_ms'', JNat (am_updated_at_ms a)), (''total_frames'', JNat (am_total_frames a)),
      (''video_frames'', JNat (am_video_frames a)), (''audio_frames'', JNat (am_audio_frames a)),
      (''keyframes'', JNat (am_keyframes a)), (''bytes'', JNat (am_bytes a)), (''bitrate_bps'', JNat (am_bitrate_bps a)),
      (''video_fps'', JFloat (am_video_fps a)), (''audio_fps'', JFloat (am_audio_fps a)),
      (''last_gop_frames'', JNat (am_last_gop_frames a)), (''avg_gop_frames'', JFloat (am_avg_gop_frames a)),
      (''last_video_timestamp'', json_opt JNat (am_last_video_timestamp a)),
      (''last_audio_timestamp'', json_opt JNat (am_last_audio_timestamp a)),
      (''last_video_codec'', json_opt JString (am_last_video_codec a)),
      (''last_audio_codec'', json_opt JString (am_last_audio_codec a))]"

definition event_json :: "'f analysis_event \<Rightarrow> 'f json" where
  "event_json e = JObject
     ([(''stream_id'', JString (ae_stream_id e)), (''timestamp_ms'', JNat (ae_timestamp_ms e)),
       (''kind'', JString (ae_kind e)), (''message'', JString (ae_message e)),
       (''frame_timestamp'', JNat (ae_frame_timestamp e))] @
      (case ae_data e of None \<Rightarrow> [] | Some d \<Rightarrow> [(''data'', d)]))"

definition snapshot_json :: "snapshot_entry \<Rightarrow> 'f json" where
  "snapshot_json e = JObject
     [(''id'', JString (se_id e)), (''stream_id'', JString (se_stream_id e)), (''created_at_ms'', JNat (se_created_at_ms e)),
      (''completed_at_ms'', json_opt JNat (se_completed_at_ms e)),
      (''source_timestamp'', json_opt JNat (se_source_timestamp e)), (''path'', json_opt JString (se_path e)),
      (''url'', json_opt JString (se_url e)), (''format'', JString (se_format e)), (''bytes'', JNat (se_bytes e)),
      (''status'', JString (se_status e)), (''error'', json_opt JString (se_error e))]"

fun record_error_text :: "record_error \<Rightarrow> string" where
  "record_error_text Recording_disabled = ''recording is disabled''"
| "record_error_text Missing_stream_id = ''missing stream_id''"
| "record_error_text Stream_not_found = ''stream not found''"
| "record_error_text Already_active = ''recording already active for stream''"
| "record_error_text Session_not_found = ''recording session not found''"
| "record_error_text Missing_ids = ''missing stream_id or session_id''"

section \<open>Handlers\<close>

type_synonym 'f http_step = "'f http_server \<times> string \<times> http_effect list"

definition json_text :: "'f http_libs \<Rightarrow> 'f json \<Rightarrow> string" where
  "json_text L v = jl_to_string (hl_json L) v"

definition ok_json :: "'f http_libs \<Rightarrow> 'f json \<Rightarrow> string" where
  "ok_json L v = http_response 200 ''OK'' (json_text L v)"

definition error_json :: "string \<Rightarrow> 'f json" where
  "error_json e = JObject [(''error'', JString e)]"

definition api_list_streams :: "'f http_libs \<Rightarrow> 'f http_server \<Rightarrow> string" where
  "api_list_streams L w =
     (let streams = List.map (listed_stream (hw_manager w)) (list_streams (hw_manager w))
      in ok_json L (JObject [(''streams'', JArray streams), (''count'', JNat (length streams))]))"

definition api_stream_info :: "'f http_libs \<Rightarrow> 'f http_server \<Rightarrow> stream_id \<Rightarrow> string" where
  "api_stream_info L w sid =
     (case get_stream (hw_manager w) sid of
        Some s \<Rightarrow> ok_json L (stream_json L s [(''tracks'', JArray (List.map track_json (st_tracks s)))])
      | None \<Rightarrow> not_found [])"

definition source_of :: "string option \<Rightarrow> stream_source_mode" where
  "source_of v =
     (case v of
        Some s \<Rightarrow> if List.map upper_char s = ''PULL'' then stream_source_mode.Pull else stream_source_mode.Push
      | None \<Rightarrow> stream_source_mode.Push)"

definition protocol_of :: "string option \<Rightarrow> stream_protocol" where
  "protocol_of v =
     (case v of
        Some p \<Rightarrow>
          let u = List.map upper_char p
          in if u = ''RTSP'' then RTSP else if u = ''RTMP'' then RTMP else if u = ''WEBRTC'' then WebRTC
             else if u = ''HTTP'' then HTTP else stream_protocol.Unknown
      | None \<Rightarrow> stream_protocol.Unknown)"

text \<open>The body of a request for a new stream; without JSON the stream is \<open>live\<close>.\<close>

definition new_stream_of ::
    "'f http_libs \<Rightarrow> string \<Rightarrow> stream_id \<times> stream_source_mode \<times> stream_protocol \<times> string option" where
  "new_stream_of L request =
     (let result = (case jl_from_str (hl_json L) (body_start request) of
                      Some v \<Rightarrow> Some v | None \<Rightarrow> jl_from_str (hl_json L) request)
      in case result of
           Some v \<Rightarrow> ((case json_str v ''id'' of Some i \<Rightarrow> i | None \<Rightarrow> ''live''),
             source_of (json_str v ''source''), protocol_of (json_str v ''protocol''), json_str v ''pull_url'')
         | None \<Rightarrow> (''live'', stream_source_mode.Push, stream_protocol.Unknown, None))"

definition api_create_stream :: "'f http_libs \<Rightarrow> 'f http_server \<Rightarrow> string \<Rightarrow> 'f http_step" where
  "api_create_stream L w request =
     (let (sid, source, protocol, pull_url) = new_stream_of L request;
          (m, s) = create_stream (hw_manager w) sid source protocol pull_url
      in (w\<lparr>hw_manager := m\<rparr>,
          http_response 201 ''Created'' (json_text L (stream_json L s [(''message'', JString ''Stream created'')])), []))"

text \<open>\<open>url\<close> and \<open>stream_id\<close> of a request to pull; the second has a default.\<close>

definition missing_parameter :: "string \<Rightarrow> string" where
  "missing_parameter p = bad_request (error_text (''Missing '' @ [CHR 0x27] @ p @ [CHR 0x27] @ '' parameter''))"

definition pull_request :: "'f http_libs \<Rightarrow> stream_id \<Rightarrow> string \<Rightarrow> string + string \<times> stream_id" where
  "pull_request L default_id request =
     (case jl_from_str (hl_json L) (body_start request) of
        None \<Rightarrow> Inl (bad_request (error_text ''Invalid JSON body''))
      | Some v \<Rightarrow>
          let url = (case json_str v ''url'' of Some u \<Rightarrow> u | None \<Rightarrow> []);
              sid = (case json_str v ''stream_id'' of Some i \<Rightarrow> i | None \<Rightarrow> default_id)
          in if url = [] then Inl (missing_parameter ''url'') else Inr (url, sid))"

definition api_rtsp_pull :: "'f http_libs \<Rightarrow> 'f http_server \<Rightarrow> string \<Rightarrow> 'f http_step" where
  "api_rtsp_pull L w request =
     (case pull_request L ''pulled_stream'' request of
        Inl response \<Rightarrow> (w, response, [])
      | Inr (url, sid) \<Rightarrow>
          (w, ok_json L (JObject [(''stream_id'', JString sid), (''remote_url'', JString url),
                (''message'', JString ''RTSP pull started'')]), [Spawn_rtsp_pull url sid]))"

definition api_rtmp_pull :: "'f http_libs \<Rightarrow> 'f http_server \<Rightarrow> string \<Rightarrow> 'f http_step" where
  "api_rtmp_pull L w request =
     (case pull_request L ''rtmp_pulled'' request of
        Inl response \<Rightarrow> (w, response, [])
      | Inr (url, sid) \<Rightarrow>
          (w, ok_json L (JObject [(''stream_id'', JString sid), (''remote_url'', JString url),
                (''play_url'', JString (''rtmp://127.0.0.1:1935/live/'' @ sid)),
                (''message'', JString ''RTMP pull started'')]), [Spawn_rtmp_pull url sid]))"

definition api_rtsp_push :: "'f http_libs \<Rightarrow> 'f http_server \<Rightarrow> string \<Rightarrow> 'f http_step" where
  "api_rtsp_push L w request =
     (case jl_from_str (hl_json L) (body_start request) of
        None \<Rightarrow> (w, bad_request (error_text ''Invalid JSON body''), [])
      | Some v \<Rightarrow>
          let sid = (case json_str v ''stream_id'' of Some i \<Rightarrow> i | None \<Rightarrow> []);
              url = (case json_str v ''url'' of Some u \<Rightarrow> u | None \<Rightarrow> [])
          in if sid = [] then (w, missing_parameter ''stream_id'', [])
             else if url = [] then (w, missing_parameter ''url'', [])
             else case get_stream (hw_manager w) sid of
               None \<Rightarrow> (w, not_found (error_text ''Stream not found''), [])
             | Some s \<Rightarrow>
                 if st_tracks s = [] then (w, bad_request (error_text ''Stream has no tracks''), [])
                 else (w, ok_json L (JObject [(''stream_id'', JString sid), (''remote_url'', JString url),
                         (''message'', JString ''RTSP push started'')]), [Spawn_rtsp_push url sid (st_tracks s)]))"

definition api_record_start :: "'f http_libs \<Rightarrow> 'f http_env \<Rightarrow> 'f http_server \<Rightarrow> string \<Rightarrow> 'f http_step" where
  "api_record_start L env w request =
     (case hw_recorder w of
        None \<Rightarrow> (w, not_found (error_text ''recording API disabled''), [])
      | Some r \<Rightarrow>
          (case hl_start_record L (json_body request) of
             None \<Rightarrow> (w, bad_request (error_text ''Invalid JSON body''), [])
           | Some req \<Rightarrow>
               (case recorder_start (hw_manager w) (he_now env) (he_started env) r req of
                  Inr (r', info, task) \<Rightarrow>
                    (w\<lparr>hw_recorder := Some r'\<rparr>,
                     ok_json L (JObject [(''recording'', record_session_json info), (''message'', JString ''recording started'')]),
                     [Spawn_recording task])
                | Inl e \<Rightarrow> (w, bad_request (json_text L (error_json (record_error_text e))), []))))"

definition api_record_stop :: "'f http_libs \<Rightarrow> 'f http_server \<Rightarrow> string \<Rightarrow> 'f http_step" where
  "api_record_stop L w request =
     (case hw_recorder w of
        None \<Rightarrow> (w, not_found (error_text ''recording API disabled''), [])
      | Some r \<Rightarrow>
          (case hl_stop_record L (json_body request) of
             None \<Rightarrow> (w, bad_request (error_text ''Invalid JSON body''), [])
           | Some (sid, session_id) \<Rightarrow>
               (case recorder_stop r sid session_id of
                  Inr (r', info) \<Rightarrow>
                    (w\<lparr>hw_recorder := Some r'\<rparr>,
                     ok_json L (JObject [(''recording'', record_session_json info), (''message'', JString ''recording stopped'')]), [])
                | Inl e \<Rightarrow> (w, not_found (json_text L (error_json (record_error_text e))), []))))"

definition api_recordings :: "'f http_libs \<Rightarrow> 'f http_server \<Rightarrow> string" where
  "api_recordings L w =
     (case hw_recorder w of
        None \<Rightarrow> not_found (error_text ''recording API disabled'')
      | Some r \<Rightarrow> ok_json L (JObject
          [(''active'', JArray (List.map record_session_json (active_sessions r))),
           (''recordings'', JArray (List.map recording_json (list_recordings (hw_recordings w) None)))]))"

definition api_playback :: "'f http_libs \<Rightarrow> 'f http_server \<Rightarrow> string \<Rightarrow> string" where
  "api_playback L w key =
     (case hw_recorder w of
        None \<Rightarrow> not_found (error_text ''recording API disabled'')
      | Some r \<Rightarrow>
          (case find (\<lambda>e. re_id e = key) (list_recordings (hw_recordings w) None) of
             Some e \<Rightarrow> ok_json L (JObject [(''id'', JString (re_id e)), (''path'', JString (re_path e)),
               (''content_type'', JString ''video/mp2t'')])
           | None \<Rightarrow> not_found (error_text ''recording not found'')))"

definition api_analysis_start :: "'f http_libs \<Rightarrow> 'f http_env \<Rightarrow> 'f http_server \<Rightarrow> string \<Rightarrow> 'f http_step" where
  "api_analysis_start L env w request =
     (case hw_analysis w of
        None \<Rightarrow> (w, not_found (error_text ''analysis API disabled''), [])
      | Some a \<Rightarrow>
          (case hl_start_analysis L (json_body request) of
             None \<Rightarrow> (w, bad_request (error_text ''Invalid JSON body''), [])
           | Some req \<Rightarrow>
               (case analysis_start (hw_manager w) (he_now env) a req of
                  Inr (a', info) \<Rightarrow>
                    (w\<lparr>hw_analysis := Some a'\<rparr>,
                     ok_json L (JObject [(''analysis'', analysis_session_json info), (''message'', JString ''analysis started'')]),
                     [Spawn_analysis info])
                | Inl e \<Rightarrow> (w, bad_request (json_text L (error_json (analysis_error_text e))), []))))"

definition api_analysis_stop :: "'f http_libs \<Rightarrow> 'f http_server \<Rightarrow> string \<Rightarrow> 'f http_step" where
  "api_analysis_stop L w request =
     (case hw_analysis w of
        None \<Rightarrow> (w, not_found (error_text ''analysis API disabled''), [])
      | Some a \<Rightarrow>
          (case hl_stop_analysis L (json_body request) of
             None \<Rightarrow> (w, bad_request (error_text ''Invalid JSON body''), [])
           | Some sid \<Rightarrow>
               (case analysis_stop a sid of
                  Inr (a', info) \<Rightarrow>
                    (w\<lparr>hw_analysis := Some a'\<rparr>,
                     ok_json L (JObject [(''analysis'', analysis_session_json info), (''message'', JString ''analysis stopped'')]), [])
                | Inl e \<Rightarrow> (w, not_found (json_text L (error_json (analysis_error_text e))), []))))"

definition api_analysis_sessions :: "'f http_libs \<Rightarrow> 'f http_server \<Rightarrow> string" where
  "api_analysis_sessions L w =
     (case hw_analysis w of
        None \<Rightarrow> not_found (error_text ''analysis API disabled'')
      | Some a \<Rightarrow> ok_json L (JObject [(''active'', JArray (List.map analysis_session_json (analysis_active_sessions a)))]))"

definition api_analysis_metrics :: "'f http_libs \<Rightarrow> 'f http_server \<Rightarrow> stream_id \<Rightarrow> string" where
  "api_analysis_metrics L w sid =
     (case hw_analysis w of
        None \<Rightarrow> not_found (error_text ''analysis API disabled'')
      | Some a \<Rightarrow>
          (case analysis_metrics_of a sid of
             Some metrics \<Rightarrow> ok_json L (metrics_json metrics)
           | None \<Rightarrow> not_found (error_text ''analysis metrics not found'')))"

definition api_analysis_events :: "'f http_libs \<Rightarrow> 'f http_server \<Rightarrow> stream_id \<Rightarrow> string" where
  "api_analysis_events L w sid =
     (case hw_analysis w of
        None \<Rightarrow> not_found (error_text ''analysis API disabled'')
      | Some a \<Rightarrow> ok_json L (JObject [(''events'', JArray (List.map event_json (analysis_events_of a sid)))]))"

definition api_snapshot :: "'f http_libs \<Rightarrow> 'f http_env \<Rightarrow> 'f http_server \<Rightarrow> string \<Rightarrow> 'f http_step" where
  "api_snapshot L env w request =
     (case hw_snapshots w of
        None \<Rightarrow> (w, not_found (error_text ''snapshot API disabled''), [])
      | Some sn \<Rightarrow>
          (case hl_capture_snapshot L (json_body request) of
             None \<Rightarrow> (w, bad_request (error_text ''Invalid JSON body''), [])
           | Some sid \<Rightarrow>
               (case submit (hw_manager w) (he_now env) sn sid of
                  Inr (sn', e) \<Rightarrow>
                    (w\<lparr>hw_snapshots := Some sn'\<rparr>,
                     http_response 202 ''Accepted''
                       (json_text L (JObject [(''snapshot'', snapshot_json e), (''message'', JString ''snapshot task accepted'')])),
                     [Spawn_snapshot e])
                | Inl e \<Rightarrow> (w, bad_request (json_text L (error_json (snapshot_error_text e))), []))))"

definition api_snapshots :: "'f http_libs \<Rightarrow> 'f http_server \<Rightarrow> string" where
  "api_snapshots L w =
     (case hw_snapshots w of
        None \<Rightarrow> not_found (error_text ''snapshot API disabled'')
      | Some sn \<Rightarrow> ok_json L (JObject [(''snapshots'', JArray (List.map snapshot_json (snapshot_list sn None)))]))"

definition api_snapshot_info :: "'f http_libs \<Rightarrow> 'f http_server \<Rightarrow> string \<Rightarrow> string" where
  "api_snapshot_info L w key =
     (case hw_snapshots w of
        None \<Rightarrow> not_found (error_text ''snapshot API disabled'')
      | Some sn \<Rightarrow>
          if key = [] then bad_request (error_text ''missing snapshot id'')
          else case snapshot_get sn key of
            Some e \<Rightarrow> ok_json L (JObject [(''snapshot'', snapshot_json e)])
          | None \<Rightarrow> not_found (error_text ''snapshot not found''))"

definition api_delete_stream :: "'f http_server \<Rightarrow> stream_id \<Rightarrow> 'f http_step" where
  "api_delete_stream w sid =
     (case remove_stream (hw_manager w) sid of
        (m, Some _) \<Rightarrow> (w\<lparr>hw_manager := m\<rparr>, http_response 200 ''OK'' [], [])
      | (m, None) \<Rightarrow> (w\<lparr>hw_manager := m\<rparr>, not_found [], []))"

definition endpoints :: "(string \<times> string) list" where
  "endpoints =
     [(''GET /api/streams'', ''List all streams''), (''GET /api/stream/<id>'', ''Get stream info''),
      (''POST /api/streams'', ''Create a new stream''), (''DELETE /api/stream/<id>'', ''Delete a stream''),
      (''POST /api/rtsp/pull'', ''Start RTSP pull from remote URL''),
      (''POST /api/rtmp/pull'', ''Start RTMP pull from remote URL''),
      (''POST /api/rtsp/push'', ''Start RTSP push to remote URL''),
      (''POST /api/record/start'', ''Start DVR recording''), (''POST /api/record/stop'', ''Stop DVR recording''),
      (''GET /api/recordings'', ''List recordings''), (''POST /api/analysis/start'', ''Start video analysis''),
      (''POST /api/analysis/stop'', ''Stop video analysis''),
      (''GET /api/analysis/<stream_id>/metrics'', ''Analysis metrics''),
      (''GET /api/analysis/<stream_id>/events'', ''Analysis events''),
      (''POST /api/snapshot'', ''Capture stream snapshot''), (''GET /api/snapshots'', ''List snapshots''),
      (''GET /api/snapshots/<id>'', ''Get snapshot status''), (''GET /api/snapshots/<id>.jpg'', ''Read snapshot image''),
      (''GET /hls/<stream_id>/live.m3u8'', ''HLS playlist''), (''GET /hls/<stream_id>/<segment>.ts'', ''HLS segment''),
      (''GET /flv/<stream_id>'', ''HTTP-FLV live stream''), (''GET /health'', ''Health check'')]"

definition api_server_info :: "'f http_libs \<Rightarrow> string" where
  "api_server_info L =
     ok_json L (JObject
       [(''name'', JString ''Media Server''), (''version'', JString ''0.1.0''),
        (''endpoints'', JObject (List.map (\<lambda>(k, v). (k, JString v)) endpoints)),
        (''protocols'', JObject
          [(''RTMP'', JString ''rtmp://localhost:1935''), (''RTSP'', JString ''rtsp://localhost:554''),
           (''HLS'', JString ''http://localhost:8081/hls/<stream_id>/live.m3u8''),
           (''HTTP-FLV'', JString ''http://localhost:8081/flv/<stream_id>''), (''WebRTC'', JString ''ws://localhost:9080'')])])"

section \<open>Routes\<close>

datatype api_route =
    To_streams | To_usage | To_stream stream_id | To_create | To_rtsp_pull | To_rtmp_pull | To_rtsp_push
  | To_record_start | To_record_stop | To_recordings | To_playback string
  | To_analysis_start | To_analysis_stop | To_analyses | To_metrics stream_id | To_events stream_id
  | To_snapshot | To_snapshots | To_snapshot_info string | To_delete stream_id | To_health | To_info | Nowhere

text \<open>The \<open>match\<close> on method and path, in its order.\<close>

definition api_route_of :: "string \<Rightarrow> string \<Rightarrow> api_route" where
  "api_route_of verb path =
     (if verb = ''GET'' \<and> path = ''/api/streams'' then To_streams
      else if verb = ''GET'' \<and> (path = ''/api/stream'' \<or> path = ''/api/stream/'') then To_usage
      else if verb = ''GET'' \<and> prefix ''/api/stream/'' path then To_stream (trim_start_matches ''/api/stream/'' path)
      else if verb = ''POST'' \<and> path = ''/api/streams'' then To_create
      else if verb = ''POST'' \<and> path = ''/api/rtsp/pull'' then To_rtsp_pull
      else if verb = ''POST'' \<and> path = ''/api/rtmp/pull'' then To_rtmp_pull
      else if verb = ''POST'' \<and> path = ''/api/rtsp/push'' then To_rtsp_push
      else if verb = ''POST'' \<and> path = ''/api/record/start'' then To_record_start
      else if verb = ''POST'' \<and> path = ''/api/record/stop'' then To_record_stop
      else if verb = ''GET'' \<and> path = ''/api/recordings'' then To_recordings
      else if verb = ''GET'' \<and> prefix ''/api/recordings/'' path \<and> suffix ''/playback'' path
      then To_playback (trim_end_char (CHR ''/'')
             (trim_end_matches ''/playback'' (trim_start_matches ''/api/recordings/'' path)))
      else if verb = ''POST'' \<and> path = ''/api/analysis/start'' then To_analysis_start
      else if verb = ''POST'' \<and> path = ''/api/analysis/stop'' then To_analysis_stop
      else if verb = ''GET'' \<and> (path = ''/api/analysis'' \<or> path = ''/api/analysis/'') then To_analyses
      else if verb = ''GET'' \<and> prefix ''/api/analysis/'' path \<and> suffix ''/metrics'' path
      then To_metrics (trim_end_char (CHR ''/'')
             (trim_end_matches ''/metrics'' (trim_start_matches ''/api/analysis/'' path)))
      else if verb = ''GET'' \<and> prefix ''/api/analysis/'' path \<and> suffix ''/events'' path
      then To_events (trim_end_char (CHR ''/'')
             (trim_end_matches ''/events'' (trim_start_matches ''/api/analysis/'' path)))
      else if verb = ''POST'' \<and> path = ''/api/snapshot'' then To_snapshot
      else if verb = ''GET'' \<and> path = ''/api/snapshots'' then To_snapshots
      else if verb = ''GET'' \<and> prefix ''/api/snapshots/'' path
      then To_snapshot_info (trim_end_matches ''.jpg''
             (trim_end_char (CHR ''/'') (trim_start_matches ''/api/snapshots/'' path)))
      else if verb = ''DELETE'' \<and> prefix ''/api/stream/'' path then To_delete (trim_start_matches ''/api/stream/'' path)
      else if verb = ''GET'' \<and> path = ''/health'' then To_health
      else if verb = ''GET'' \<and> path = ''/'' then To_info
      else Nowhere)"

fun api_handle :: "'f http_libs \<Rightarrow> 'f http_env \<Rightarrow> 'f http_server \<Rightarrow> string \<Rightarrow> api_route \<Rightarrow> 'f http_step" where
  "api_handle L env w request To_streams = (w, api_list_streams L w, [])"
| "api_handle L env w request To_usage =
     (w, ok_json L (JObject [(''usage'', JString ''GET /api/stream/<stream_id>'')]), [])"
| "api_handle L env w request (To_stream sid) = (w, api_stream_info L w sid, [])"
| "api_handle L env w request To_create = api_create_stream L w request"
| "api_handle L env w request To_rtsp_pull = api_rtsp_pull L w request"
| "api_handle L env w request To_rtmp_pull = api_rtmp_pull L w request"
| "api_handle L env w request To_rtsp_push = api_rtsp_push L w request"
| "api_handle L env w request To_record_start = api_record_start L env w request"
| "api_handle L env w request To_record_stop = api_record_stop L w request"
| "api_handle L env w request To_recordings = (w, api_recordings L w, [])"
| "api_handle L env w request (To_playback key) = (w, api_playback L w key, [])"
| "api_handle L env w request To_analysis_start = api_analysis_start L env w request"
| "api_handle L env w request To_analysis_stop = api_analysis_stop L w request"
| "api_handle L env w request To_analyses = (w, api_analysis_sessions L w, [])"
| "api_handle L env w request (To_metrics sid) = (w, api_analysis_metrics L w sid, [])"
| "api_handle L env w request (To_events sid) = (w, api_analysis_events L w sid, [])"
| "api_handle L env w request To_snapshot = api_snapshot L env w request"
| "api_handle L env w request To_snapshots = (w, api_snapshots L w, [])"
| "api_handle L env w request (To_snapshot_info key) = (w, api_snapshot_info L w key, [])"
| "api_handle L env w request (To_delete sid) = api_delete_stream w sid"
| "api_handle L env w request To_health =
     (w, http_response 200 ''OK''
           (''{'' @ [CHR 0x22] @ ''status'' @ [CHR 0x22] @ '':'' @ [CHR 0x22] @ ''healthy'' @ [CHR 0x22] @ ''}''), [])"
| "api_handle L env w request To_info = (w, api_server_info L, [])"
| "api_handle L env w request Nowhere = (w, not_found [], [])"

definition http_process_request :: "'f http_libs \<Rightarrow> 'f http_env \<Rightarrow> 'f http_server \<Rightarrow> string \<Rightarrow> 'f http_step" where
  "http_process_request L env w request =
     (case text_lines request of
        [] \<Rightarrow> (w, bad_request [], [])
      | l # _ \<Rightarrow>
          let parts = split_whitespace l
          in if length parts < 2 then (w, bad_request [], [])
             else api_handle L env w request (api_route_of (parts ! 0) (parts ! 1)))"

section \<open>A connection\<close>

text \<open>What the client gets: a response, or the beginning of one that the FLV play task continues.\<close>

datatype http_reply = Response bytes | Flv_playing bytes flv_player | Hung_up

abbreviation text_reply :: "string \<Rightarrow> http_reply" where "text_reply s \<equiv> Response (ascii s)"

fun wait_playlist ::
    "'f f64_ops \<Rightarrow> (int \<Rightarrow> string) \<Rightarrow> nat \<Rightarrow> stream_id \<Rightarrow> 'f hls_server \<Rightarrow> ('f hls_server \<Rightarrow> 'f hls_server) list \<Rightarrow>
     'f hls_server \<times> string option \<times> http_effect list" where
  "wait_playlist F date now sid v [] = (case hls_get_playlist F date v now sid of (v', p) \<Rightarrow> (v', p, []))"
| "wait_playlist F date now sid v (others # looks) =
     (case hls_get_playlist F date v now sid of
        (v', Some p) \<Rightarrow> (v', Some p, [])
      | (v', None) \<Rightarrow>
          (case wait_playlist F date now sid (others v') looks of
             (v'', p, effs) \<Rightarrow> (v'', p, Request_keyframe sid # effs)))"

text \<open>A stream of the registry has a hub, the one that a new HLS task reads.\<close>

definition serve_playlist ::
    "'f f64_ops \<Rightarrow> (int \<Rightarrow> string) \<Rightarrow> place \<Rightarrow> 'f http_env \<Rightarrow> 'f http_server \<Rightarrow> string \<Rightarrow>
     'f http_server \<times> http_reply \<times> http_effect list" where
  "serve_playlist F date cwd env w path =
     (case hw_hls w of
        None \<Rightarrow> (w, text_reply (not_found []), [])
      | Some v \<Rightarrow>
          let sid = trim_end_matches ''/live.m3u8'' (trim_start_matches ''/hls/'' path)
          in case get_hub (ensure_stream_hub (hw_manager w) sid) sid of
               None \<Rightarrow> (w, text_reply (not_found ''Stream not found''), [])
             | Some h \<Rightarrow>
                 let v1 = fst (hls_ensure_stream F cwd v (hw_manager w) h (he_now env) (he_dir_ok env) sid False);
                     (v2, found, effs) = wait_playlist F date (he_now env) sid v1 (he_hls_looks env);
                     playlist = (case found of Some p \<Rightarrow> p | None \<Rightarrow> hls_empty_playlist F v2)
                 in (w\<lparr>hw_hls := Some v2\<rparr>,
                     text_reply (media_head ''application/vnd.apple.mpegurl'' (length playlist)
                       [''Cache-Control: no-cache, no-store, must-revalidate'', ''Connection: close''] @ playlist),
                     Request_keyframe sid # effs))"

definition serve_segment ::
    "place \<Rightarrow> 'f http_env \<Rightarrow> 'f http_server \<Rightarrow> string \<Rightarrow> 'f http_server \<times> http_reply \<times> http_effect list" where
  "serve_segment cwd env w path =
     (let parts = split_char (CHR ''/'') (trim_start_matches ''/hls/'' path)
      in case hw_hls w of
           Some v \<Rightarrow>
             if length parts \<ge> 2 then
               (case hls_get_segment_path cwd v (he_now env) (parts ! 0) (parts ! 1) of
                  (v', seg_path) \<Rightarrow>
                    (w\<lparr>hw_hls := Some v'\<rparr>,
                     (case Option.bind seg_path (hv_disk v') of
                        Some data \<Rightarrow> Response (ascii (media_head ''video/mp2t'' (length data)
                          [''Cache-Control: no-cache, no-store'', ''Connection: close'']) @ data)
                      | None \<Rightarrow> text_reply (not_found [])), []))
             else (w, text_reply (not_found []), [])
         | None \<Rightarrow> (w, text_reply (not_found []), []))"

definition serve_page :: "'f http_libs \<Rightarrow> http_reply" where
  "serve_page L =
     text_reply (media_head ''text/html; charset=utf-8'' (length (hl_test_page L)) [] @ hl_test_page L)"

definition serve_image :: "'f http_env \<Rightarrow> 'f http_server \<Rightarrow> string \<Rightarrow> http_reply" where
  "serve_image env w path =
     (case hw_snapshots w of
        None \<Rightarrow> text_reply (not_found (error_text ''snapshot API disabled''))
      | Some sn \<Rightarrow>
          let key = trim_end_matches ''.jpg'' (trim_start_matches ''/api/snapshots/'' path);
              image = (case snapshot_get sn key of
                Some e \<Rightarrow> if se_status e = ''completed'' then Option.bind (se_path e) (he_read env) else None
              | None \<Rightarrow> None)
          in case image of
               Some data \<Rightarrow> Response (ascii (media_head ''image/jpeg'' (length data)
                 [''Cache-Control: no-cache'', ''Connection: close'']) @ data)
             | None \<Rightarrow> text_reply (not_found (error_text ''snapshot not found'')))"

text \<open>The FLV player waits until its stream has both parameter sets.\<close>

definition flv_ready :: "stream \<Rightarrow> bool" where
  "flv_ready s \<longleftrightarrow> st_sps s \<noteq> None \<and> st_pps s \<noteq> None"

fun flv_wait :: "stream_id \<Rightarrow> stream \<Rightarrow> stream_manager list \<Rightarrow> stream option" where
  "flv_wait sid s [] = (if flv_ready s then Some s else None)"
| "flv_wait sid s (m # ms) =
     (if flv_ready s then Some s
      else flv_wait sid (case get_stream m sid of Some s' \<Rightarrow> s' | None \<Rightarrow> s) ms)"

definition serve_flv :: "'f http_env \<Rightarrow> 'f http_server \<Rightarrow> string \<Rightarrow> http_reply \<times> http_effect list" where
  "serve_flv env w path =
     (let sid = trim_end_char (CHR ''/'') (trim_start_matches ''/flv/'' path); m = hw_manager w
      in case (if hw_flv w then create_session m sid else None) of
           None \<Rightarrow> (text_reply (not_found []), [])
         | Some (session, s) \<Rightarrow>
             (case dispatch_subscribe (ensure_stream_hub m sid) sid LiveCoalesce of
                None \<Rightarrow> (text_reply (not_found ''Stream not found''), [Request_keyframe sid])
              | Some r \<Rightarrow>
                  (case flv_wait sid s (he_flv_looks env) of
                     None \<Rightarrow> (text_reply (http_response 503 ''Service Unavailable''
                               ''Stream not ready (waiting for video sequence header)''), [Request_keyframe sid])
                   | Some s' \<Rightarrow>
                       let (session', initial) = generate_initial_data session s';
                           chunk = (if initial = [] then [] else format_chunk initial);
                           (r', pending) = prime_live_play r (he_flv_manager env) sid
                             (fst (he_flv_hubs env)) (he_flv_rounds env) (snd (he_flv_hubs env))
                       in (Flv_playing (ascii generate_http_headers @ chunk)
                             \<lparr>fp_stream_id = sid, fp_session = session', fp_reader = r', fp_pending = pending,
                              fp_video_streaming = (pending \<noteq> None), fp_wallclock = wallclock_new, fp_frames_sent = 0\<rparr>,
                           [Request_keyframe sid]))))"

text \<open>\<open>handle_connection\<close>; \<open>input\<close> is what the single read of up to 8192 bytes gives.\<close>

definition handle_http ::
    "'f http_libs \<Rightarrow> 'f f64_ops \<Rightarrow> (int \<Rightarrow> string) \<Rightarrow> place \<Rightarrow> 'f http_env \<Rightarrow> 'f http_server \<Rightarrow> string \<Rightarrow>
     'f http_server \<times> http_reply \<times> http_effect list" where
  "handle_http L F date cwd env w input =
     (if input = [] then (w, Hung_up, [])
      else
        let request = take 8192 input;
            parts = split_whitespace (case text_lines request of [] \<Rightarrow> [] | l # _ \<Rightarrow> l);
            path = (if length parts \<ge> 2 then parts ! 1 else [])
        in if prefix ''/hls/'' path \<and> suffix ''.m3u8'' path then serve_playlist F date cwd env w path
           else if prefix ''/hls/'' path \<and> suffix ''.ts'' path then serve_segment cwd env w path
           else if path = ''/webrtc/webrtc-test.html'' \<or> path = ''/webrtc/''
           then (w, serve_page L, [])
           else if prefix ''/flv/'' path
           then (case serve_flv env w path of (reply, effs) \<Rightarrow> (w, reply, effs))
           else if prefix ''/api/snapshots/'' path \<and> suffix ''.jpg'' path then (w, serve_image env w path, [])
           else (case http_process_request L env w request of (w', response, effs) \<Rightarrow> (w', text_reply response, effs)))"

end
