(* ===== verification/Hls_Files.thy ===== *)
theory Hls_Files
  imports Hls_Server Rtmp_Relay
begin

text \<open>
  The packaging server over time: any sequence of requests, task turns and reaper rounds. The lemmas
  say that a playlist names only files that are there, that the files of a stream are bounded in
  number, when a stream is given up, and how far outside its directory the server can be led by the
  name of a stream.
\<close>

section \<open>Events\<close>

datatype hls_event =
    Packaging_wanted stream_manager stream_hub nat bool stream_id bool
  | Packaging_stopped stream_id
  | Playlist_asked nat stream_id
  | Segment_asked nat stream_id string
  | Reaper_round nat
  | Task_turn stream_manager "nat \<Rightarrow> hls_io" "stream_hub \<times> stream_hub option" stream_id

fun hls_act ::
    "'f f64_ops \<Rightarrow> (int \<Rightarrow> string) \<Rightarrow> place \<Rightarrow> 'f hls_server \<Rightarrow> hls_event \<Rightarrow> 'f hls_server" where
  "hls_act F date cwd v (Packaging_wanted m h now create_ok sid reset) =
     fst (hls_ensure_stream F cwd v m h now create_ok sid reset)"
| "hls_act F date cwd v (Packaging_stopped sid) = hls_stop_stream v sid"
| "hls_act F date cwd v (Playlist_asked now sid) = fst (hls_get_playlist F date v now sid)"
| "hls_act F date cwd v (Segment_asked now sid name) = fst (hls_get_segment_path cwd v now sid name)"
| "hls_act F date cwd v (Reaper_round now) = hls_reap v now"
| "hls_act F date cwd v (Task_turn m io hub sid) = hls_turn F date cwd m io hub v sid"

text \<open>Streams with plain names only, and a directory that can be listed.\<close>

fun event_plain :: "hls_event \<Rightarrow> bool" where
  "event_plain (Packaging_wanted m h now create_ok sid reset) = plain_name sid"
| "event_plain (Task_turn m io hub sid) = (\<forall>k. hi_listing_ok (io k))"
| "event_plain _ = True"

section \<open>The invariant\<close>

definition window_ok :: "'f m3u8_generator \<Rightarrow> bool" where
  "window_ok g \<longleftrightarrow> 1 \<le> m3_max_segments g \<and> named g \<and> length (m3_segments g) \<le> m3_max_segments g \<and>
     length (m3_segments g) \<le> m3_next_sequence g \<and>
     List.map sg_sequence (m3_segments g) =
       [m3_next_sequence g - length (m3_segments g) ..< m3_next_sequence g]"

definition segment_stored :: "disk \<Rightarrow> place \<Rightarrow> nat \<Rightarrow> bool" where
  "segment_stored disk dir n \<longleftrightarrow>
     (case disk (dir @ [segment_filename n]) of None \<Rightarrow> False | Some b \<Rightarrow> MIN_SEGMENT_BYTES < length b)"

text \<open>
  The files of a packaged stream: the segments of its window are stored, and a stored segment is one
  of the last \<open>max_segments + 3\<close>.
\<close>

definition stream_files_ok :: "disk \<Rightarrow> place \<Rightarrow> 'f m3u8_generator \<Rightarrow> bool" where
  "stream_files_ok disk dir g \<longleftrightarrow> window_ok g \<and>
     (\<forall>s\<in>set (m3_segments g). segment_stored disk dir (sg_sequence s)) \<and>
     (\<forall>n. m3_next_sequence g \<le> u64_max \<longrightarrow> disk (dir @ [segment_filename n]) \<noteq> None \<longrightarrow>
        n < m3_next_sequence g \<and> m3_next_sequence g \<le> n + m3_max_segments g + 3)"

definition server_files_ok :: "place \<Rightarrow> 'f hls_server \<Rightarrow> bool" where
  "server_files_ok cwd v \<longleftrightarrow> hls_output_dir v \<noteq> [] \<and>
     (\<forall>sid s. map_of (hv_sessions v) sid = Some s \<longrightarrow>
        plain_name sid \<and> stream_files_ok (hv_disk v) (stream_dir cwd v sid) (hs_playlist s))"

lemma window_ok_recent:
  assumes "window_ok g" and "s \<in> set (m3_segments g)"
  shows "sg_sequence s < m3_next_sequence g \<and> m3_next_sequence g \<le> sg_sequence s + m3_max_segments g"
proof -
  have "sg_sequence s \<in> set [m3_next_sequence g - length (m3_segments g) ..< m3_next_sequence g]"
    using assms by (metis window_ok_def image_eqI set_map)
  with assms(1) show ?thesis by (auto simp: window_ok_def)
qed

lemma window_ok_new: "window_ok (m3u8_new d n)"
  by (simp add: window_ok_def m3u8_new_def named_def)

lemma window_ok_add:
  assumes "window_ok g"
  shows "window_ok (add_segment g d (m3_next_sequence g) t c) \<and>
     set (m3_segments (add_segment g d (m3_next_sequence g) t c)) \<subseteq>
       set (m3_segments g) \<union> {\<lparr>sg_sequence = m3_next_sequence g, sg_duration = d,
          sg_filename = segment_filename (m3_next_sequence g), sg_program_date_time = t, sg_discontinuity = c\<rparr>}"
proof -
  let ?N = "m3_next_sequence g" and ?M = "m3_max_segments g"
  define s where "s = \<lparr>sg_sequence = ?N, sg_duration = d, sg_filename = segment_filename ?N,
    sg_program_date_time = t, sg_discontinuity = c\<rparr>"
  define ss where "ss = m3_segments g @ [s]"
  define j where "j = length ss - ?M"
  define g' where "g' = add_segment g d ?N t c"
  have g': "m3_segments g' = drop j ss" "m3_next_sequence g' = ?N + 1" "m3_max_segments g' = ?M"
    unfolding g'_def add_segment_def Let_def pop_old_drop s_def [symmetric] ss_def [symmetric] j_def [symmetric]
    by simp_all
  have w: "1 \<le> ?M" "named g" "length (m3_segments g) \<le> ?M" "length (m3_segments g) \<le> ?N"
    "List.map sg_sequence (m3_segments g) = [?N - length (m3_segments g) ..< ?N]"
    using assms by (auto simp: window_ok_def)
  have seqs: "List.map sg_sequence ss = [?N + 1 - length ss ..< ?N + 1]"
    using w(4,5) by (simp add: ss_def s_def)
  have "List.map sg_sequence (drop j ss) = drop j [?N + 1 - length ss ..< ?N + 1]"
    by (simp only: drop_map [symmetric] seqs)
  also have "\<dots> = [?N + 1 - length (drop j ss) ..< ?N + 1]"
  proof -
    have "?N + 1 - length ss + j = ?N + 1 - (length ss - j)"
      using w(1,3,4) by (auto simp: j_def ss_def)
    then show ?thesis by (simp only: drop_upt length_drop)
  qed
  finally have map: "List.map sg_sequence (m3_segments g') = [m3_next_sequence g' - length (m3_segments g') ..< m3_next_sequence g']"
    by (simp only: g')
  have sub: "set (m3_segments g') \<subseteq> insert s (set (m3_segments g))"
    using set_drop_subset [of j ss] by (auto simp: g' ss_def)
  have "named g'" using sub w(2) by (auto simp: named_def s_def)
  moreover have "length (m3_segments g') \<le> m3_max_segments g'" "length (m3_segments g') \<le> m3_next_sequence g'"
    using w(3,4) by (auto simp: g' j_def ss_def)
  ultimately show ?thesis using map sub w(1) g'(3) unfolding window_ok_def g'_def [symmetric] s_def by auto
qed

lemma segment_filename_inj [simp]: "segment_filename a = segment_filename b \<longleftrightarrow> a = b"
  by (metis append_same_eq dec_val_dec_str same_append_eq segment_filename_def)

lemma segment_filename_plain [simp]: "plain_name (segment_filename n)"
  using dec_str_digits [of n]
  by (auto simp: plain_name_def segment_filename_def list_all_iff is_digit_def)

lemma segment_filename_not_live [simp]: "segment_filename n \<noteq> ''live.m3u8''" "''live.m3u8'' \<noteq> segment_filename n"
  by (simp_all add: segment_filename_def)

lemma segment_number_filename: "segment_number (segment_filename n) = (if n \<le> u64_max then Some n else None)"
proof -
  have "parse_dec u64_max (dec_str n) = (if n \<le> u64_max then Some n else None)"
  proof (cases "n \<le> u64_max")
    case False
    obtain c cs where cs: "dec_str n = c # cs" by (cases "dec_str n") auto
    then have "is_digit c" using dec_str_digits [of n] by simp
    then have "c \<noteq> CHR 0x2B" by (auto simp: is_digit_def)
    with cs False show ?thesis using dec_val_dec_str [of n] by (simp add: parse_dec_def Let_def)
  qed simp
  then show ?thesis by (simp add: segment_number_def segment_filename_def strip_prefix_def suffixI)
qed

lemma pruned_segment:
  "prune_old_segments dir k disk (dir @ [segment_filename n]) =
     (if n < k \<and> n \<le> u64_max then None else disk (dir @ [segment_filename n]))"
  by (simp add: prune_old_segments_def segment_number_filename)

lemma pruned_elsewhere: "butlast p \<noteq> dir \<Longrightarrow> prune_old_segments dir k disk p = disk p"
  by (simp add: prune_old_segments_def)

section \<open>Every event keeps it\<close>

lemma stream_dir_plain:
  "plain_name sid \<Longrightarrow> hls_output_dir v \<noteq> [] \<Longrightarrow> stream_dir cwd v sid = locate cwd (hls_output_dir v) @ [sid]"
  by (simp add: stream_dir_def locate_join)

text \<open>Only the sessions, the disk and the configured directory matter.\<close>

lemma server_files_ok_cong:
  "server_files_ok cwd v \<Longrightarrow> hv_sessions v' = hv_sessions v \<Longrightarrow> hv_disk v' = hv_disk v \<Longrightarrow>
   hv_config v' = hv_config v \<Longrightarrow> server_files_ok cwd v'"
  by (simp add: server_files_ok_def hls_output_dir_def stream_dir_def)

lemma server_files_ok_simps [simp]:
  "server_files_ok cwd (v\<lparr>hv_tasks := t\<rparr>) = server_files_ok cwd v"
  "server_files_ok cwd (v\<lparr>hv_last_access := a\<rparr>) = server_files_ok cwd v"
  "server_files_ok cwd (hls_touch v now sid) = server_files_ok cwd v"
  by (simp_all add: server_files_ok_def hls_output_dir_def stream_dir_def hls_touch_def)

lemma delete_session_files_ok:
  "server_files_ok cwd v \<Longrightarrow> hv_sessions v' = AList.delete sid (hv_sessions v) \<Longrightarrow> hv_disk v' = hv_disk v \<Longrightarrow>
   hv_config v' = hv_config v \<Longrightarrow> server_files_ok cwd v'"
  by (auto simp: server_files_ok_def hls_output_dir_def stream_dir_def delete_conv' split: if_splits)

lemma stop_files_ok: "server_files_ok cwd v \<Longrightarrow> server_files_ok cwd (hls_stop_stream v sid)"
  by (erule delete_session_files_ok [where sid = sid]) (simp_all add: hls_stop_stream_def)

lemma reap_one_files_ok: "server_files_ok cwd v \<Longrightarrow> server_files_ok cwd (hls_reap_one v sid)"
  using stop_files_ok [of cwd v sid] by (simp add: hls_reap_one_def Let_def)

lemma reap_files_ok: "server_files_ok cwd v \<Longrightarrow> server_files_ok cwd (hls_reap v now)"
proof -
  have "server_files_ok cwd v \<Longrightarrow> server_files_ok cwd (foldl hls_reap_one v ids)" for ids
    by (induction ids arbitrary: v) (auto intro: reap_one_files_ok)
  then show "server_files_ok cwd v \<Longrightarrow> server_files_ok cwd (hls_reap v now)" by (simp add: hls_reap_def)
qed

text \<open>A session may change in everything but its playlist.\<close>

lemma update_session_files_ok:
  assumes "server_files_ok cwd v" and "map_of (hv_sessions v) sid = Some s" and "hs_playlist s' = hs_playlist s"
  shows "server_files_ok cwd (v\<lparr>hv_sessions := AList.update sid s' (hv_sessions v)\<rparr>)"
  using assms by (auto simp: server_files_ok_def hls_output_dir_def stream_dir_def update_conv')

lemma recover_files_ok: "server_files_ok cwd v \<Longrightarrow> server_files_ok cwd (hls_recover F v sid)"
  by (auto simp: hls_recover_def recover_from_lag_def split: option.splits intro: update_session_files_ok)

lemma start_files_ok:
  assumes "server_files_ok cwd v" and "plain_name sid"
  shows "server_files_ok cwd (fst (hls_start_stream F cwd v m h now ok sid))"
proof (cases "hls_has_stream v sid")
  case True
  with assms(1) show ?thesis by (simp add: hls_start_stream_def)
next
  case False
  let ?out = "locate cwd (hls_output_dir v)"
  let ?disk = "remove_tree (stream_dir cwd v sid) (hv_disk v)"
  have out: "hls_output_dir v \<noteq> []" using assms(1) by (simp add: server_files_ok_def)
  have dir: "stream_dir cwd v sid = ?out @ [sid]" by (rule stream_dir_plain [OF assms(2) out])
  have keep: "?disk (?out @ [sid', x]) = (if sid' = sid then None else hv_disk v (?out @ [sid', x]))" for sid' x
    by (simp add: dir)
  let ?v1 = "v\<lparr>hv_disk := ?disk\<rparr>"
  have "stream_files_ok ?disk (stream_dir cwd v sid') (hs_playlist s)"
    if "map_of (hv_sessions v) sid' = Some s" for sid' s
  proof -
    have "plain_name sid'" "stream_files_ok (hv_disk v) (stream_dir cwd v sid') (hs_playlist s)" "sid' \<noteq> sid"
      using assms(1) that False by (auto simp: server_files_ok_def hls_has_stream_def)
    then show ?thesis
      using keep [of sid'] by (simp add: stream_files_ok_def segment_stored_def stream_dir_plain [OF _ out])
  qed
  then have v1: "server_files_ok cwd ?v1"
    using assms(1) by (simp add: server_files_ok_def hls_output_dir_def stream_dir_def)
  have fresh: "stream_files_ok ?disk (stream_dir cwd v sid) (m3u8_new d n)" for d n
    using window_ok_new keep [of sid]
    by (simp add: stream_files_ok_def dir) (simp add: m3u8_new_def)
  have v2: "server_files_ok cwd (?v1\<lparr>hv_sessions := AList.update sid (hls_session_new F sid d n) (hv_sessions v)\<rparr>)" for d n
    using v1 fresh assms(2)
    by (auto simp: server_files_ok_def hls_output_dir_def stream_dir_def update_conv' hls_session_new_def)
  show ?thesis
    using False v1 v2
    by (simp add: hls_start_stream_def Let_def split: option.splits)
qed

lemma ensure_files_ok:
  assumes "server_files_ok cwd v" and "plain_name sid"
  shows "server_files_ok cwd (fst (hls_ensure_stream F cwd v m h now ok sid reset))"
proof -
  define v1 where "v1 = (if reset \<and> hls_has_stream v sid then hls_stop_stream v sid else v)"
  have v1: "server_files_ok cwd v1" using assms(1) stop_files_ok [OF assms(1)] by (simp add: v1_def)
  obtain v2 b where v2: "hls_start_stream F cwd v1 m h now ok sid = (v2, b)"
    by (cases "hls_start_stream F cwd v1 m h now ok sid")
  have "server_files_ok cwd v2" using start_files_ok [OF v1 assms(2), of F m h now ok] v2 by simp
  with v1 v2 assms(1) show ?thesis
    by (simp add: hls_ensure_stream_def Let_def v1_def [symmetric] split: bool.splits)
qed

lemma write_segment_files_ok:
  assumes "server_files_ok cwd v" and "map_of (hv_sessions v) sid = Some s" and "hi_listing_ok io"
    and "cs_seq c = m3_next_sequence (hs_playlist s)" and "cs_filename c = segment_filename (cs_seq c)"
    and "MIN_SEGMENT_BYTES < length (cs_data c)"
  shows "server_files_ok cwd (hls_write_segment F date cwd io v sid s c)"
proof (cases "hi_segment_ok io")
  case False
  with assms(1) show ?thesis by (simp add: hls_write_segment_def)
next
  case True
  let ?g = "hs_playlist s" and ?N = "m3_next_sequence (hs_playlist s)" and ?out = "locate cwd (hls_output_dir v)"
  let ?g' = "hs_playlist (hls_commit s c)" and ?M = "m3_max_segments (hs_playlist s)"
  let ?disk = "hv_disk (hls_write_segment F date cwd io v sid s c)"
  have out: "hls_output_dir v \<noteq> []" and plain: "plain_name sid"
    and old: "stream_files_ok (hv_disk v) (stream_dir cwd v sid) ?g"
    using assms(1,2) by (auto simp: server_files_ok_def)
  have dir: "stream_dir cwd v sid = ?out @ [sid]" by (rule stream_dir_plain [OF plain out])
  have g': "?g' = add_segment ?g (cs_duration c) ?N (cs_pdt c) (cs_discontinuity c)"
    using assms(4) by (simp add: hls_commit_def)
  have next': "m3_next_sequence ?g' = ?N + 1" "m3_max_segments ?g' = ?M"
    by (simp_all add: g' add_segment_def Let_def split: prod.splits)
  note win = window_ok_add [of ?g "cs_duration c" "cs_pdt c" "cs_discontinuity c", folded g']
  have w: "window_ok ?g" using old by (simp add: stream_files_ok_def)
  have own: "?disk (?out @ [sid, segment_filename n]) =
      (if n < ?N - (?M + 2) \<and> n \<le> u64_max then None
       else if n = ?N then Some (cs_data c) else hv_disk v (?out @ [sid, segment_filename n]))" for n
    using True assms(3,4,5) pruned_segment [of "?out @ [sid]" "?N - (?M + 2)" _ n]
    by (simp add: hls_write_segment_def Let_def dir next')
  have other: "?disk (?out @ [sid', x]) = hv_disk v (?out @ [sid', x])" if "sid' \<noteq> sid" for sid' x
    using that True pruned_elsewhere [of "?out @ [sid', x]" "?out @ [sid]"]
    by (simp add: hls_write_segment_def Let_def dir butlast_append)
  have stored: "segment_stored ?disk (?out @ [sid]) (sg_sequence x)" if "x \<in> set (m3_segments ?g')" for x
  proof (cases "sg_sequence x = ?N")
    case True
    moreover have "\<not> ?N < ?N - (?M + 2)" by arith
    ultimately show ?thesis using assms(6) by (simp add: segment_stored_def own)
  next
    case False
    with that win [OF w] have "x \<in> set (m3_segments ?g)" by auto
    moreover from window_ok_recent [OF w this] have "\<not> sg_sequence x < ?N - (?M + 2)" by arith
    ultimately show ?thesis
      using old False by (auto simp: stream_files_ok_def segment_stored_def own dir)
  qed
  have bounded: "n < m3_next_sequence ?g' \<and> m3_next_sequence ?g' \<le> n + m3_max_segments ?g' + 3"
    if "m3_next_sequence ?g' \<le> u64_max" "?disk (?out @ [sid, segment_filename n]) \<noteq> None" for n
  proof -
    from that(2) have cases: "n = ?N \<or> hv_disk v (?out @ [sid, segment_filename n]) \<noteq> None"
      and low: "\<not> (n < ?N - (?M + 2) \<and> n \<le> u64_max)" by (auto simp: own split: if_splits)
    have "n < ?N" if "n \<noteq> ?N"
      using that cases old \<open>m3_next_sequence ?g' \<le> u64_max\<close> by (auto simp: stream_files_ok_def dir next')
    then show ?thesis using low that(1) by (cases "n = ?N") (auto simp: next')
  qed
  have "stream_files_ok ?disk (?out @ [sid]) ?g'"
    using win [OF w] stored bounded by (simp add: stream_files_ok_def)
  moreover have "stream_files_ok ?disk (?out @ [sid']) (hs_playlist s')"
    if "map_of (hv_sessions v) sid' = Some s'" "sid' \<noteq> sid" for sid' s'
  proof -
    have "plain_name sid'" "stream_files_ok (hv_disk v) (stream_dir cwd v sid') (hs_playlist s')"
      using assms(1) that(1) by (auto simp: server_files_ok_def)
    then show ?thesis
      using other [OF that(2)] by (simp add: stream_files_ok_def segment_stored_def stream_dir_plain [OF _ out])
  qed
  moreover have "hv_config (hls_write_segment F date cwd io v sid s c) = hv_config v"
    "hv_sessions (hls_write_segment F date cwd io v sid s c) = AList.update sid (hls_commit s c) (hv_sessions v)"
    using True by (simp_all add: hls_write_segment_def Let_def)
  ultimately show ?thesis
    using assms(1) plain out
    by (auto simp: server_files_ok_def update_conv' stream_dir_plain hls_output_dir_def stream_dir_def locate_join)
qed

lemma task_frame_files_ok:
  assumes "server_files_ok cwd v" and "hi_listing_ok io"
  shows "server_files_ok cwd (fst (hls_task_frame F date cwd m io v sid f))"
proof (cases "map_of (hv_sessions v) sid")
  case None
  with assms(1) show ?thesis by (simp add: hls_task_frame_def)
next
  case (Some s)
  obtain s' r k where fr: "on_frame F (hi_now io) s (hls_frame_with_config m sid f) = (s', r, k)"
    by (cases "on_frame F (hi_now io) s (hls_frame_with_config m sid f)")
  note p = on_frame_playlist [OF fr]
  let ?v1 = "v\<lparr>hv_sessions := AList.update sid s' (hv_sessions v)\<rparr>"
  have v1: "server_files_ok cwd ?v1" using update_session_files_ok [OF assms(1) Some] p by blast
  have "server_files_ok cwd (hls_write_segment F date cwd io ?v1 sid s' c)" if "r = Some c" for c
    using write_segment_files_ok [OF v1 _ assms(2), of sid s' c F date] p that by (simp add: update_conv')
  with Some fr v1 assms(1) show ?thesis by (simp add: hls_task_frame_def Let_def split: option.splits)
qed

lemma task_frames_files_ok:
  assumes "server_files_ok cwd v" and "\<forall>k. hi_listing_ok (io k)"
  shows "server_files_ok cwd (hls_task_frames F date cwd m io k v sid fs)"
  using assms(1)
proof (induction fs arbitrary: k v)
  case (Cons f fs)
  have "server_files_ok cwd (fst (hls_task_frame F date cwd m (io k) v sid f))"
    using task_frame_files_ok [OF Cons.prems] assms(2) by blast
  with Cons.IH show ?case by (auto split: prod.splits bool.splits)
qed simp

text \<open>A turn is made of recoveries, changes of the task list, the end of the task and its frames.\<close>

lemma turn_keeps:
  assumes "P v" and "\<And>v. P v \<Longrightarrow> P (hls_recover F v sid)" and "\<And>v ts. P v \<Longrightarrow> P (v\<lparr>hv_tasks := ts\<rparr>)"
    and "\<And>v. P v \<Longrightarrow> P (v\<lparr>hv_sessions := AList.delete sid (hv_sessions v)\<rparr>)"
    and "\<And>v fs. P v \<Longrightarrow> P (hls_task_frames F date cwd m io 0 v sid fs)"
  shows "P (hls_turn F date cwd m io hub v sid)"
proof (cases "map_of (hv_tasks v) sid")
  case None
  with assms(1) show ?thesis by (simp add: hls_turn_def)
next
  case (Some t)
  let ?lag = "hub_latest_seq (fst hub) - rd_cursor (ht_reader t) > HLS_MUX_LAG_SNAP_THRESHOLD"
  define v1 where "v1 = (if ?lag then hls_recover F v sid else v)"
  define r1 where "r1 = (if ?lag then snap_to_latest_idr (ht_reader t) (fst hub) else ht_reader t)"
  have v1: "P v1" using assms(1,2) by (simp add: v1_def)
  have start: "(if ?lag then (hls_recover F v sid, snap_to_latest_idr (ht_reader t) (fst hub)) else (v, ht_reader t)) = (v1, r1)"
    by (simp add: v1_def r1_def)
  obtain r2 n res where recv: "recv_batch r1 (fst hub) (snd hub) = (r2, n, res)"
    by (cases "recv_batch r1 (fst hub) (snd hub)")
  show ?thesis
  proof (cases res)
    case (Inl e)
    then have "res = Inl Closed" by (cases e) simp
    then show ?thesis using assms(3) [OF assms(4) [OF v1]] by (simp add: hls_turn_def Some start recv)
  next
    case (Inr frames)
    define v2 where "v2 = (if rd_pending_live_snap r2 then hls_recover F v1 sid else v1)"
    define v3 where "v3 = (if rd_pending_muxer_resync r2 then hls_recover F v2 sid else v2)"
    have "P v3" using v1 assms(2) by (simp add: v2_def v3_def)
    with assms(3,5) v1 Inr show ?thesis
      by (simp add: hls_turn_def Some start recv take_live_snap_def take_muxer_resync_def v2_def [symmetric] v3_def [symmetric])
  qed
qed

lemma turn_files_ok:
  assumes "server_files_ok cwd v" and "\<forall>k. hi_listing_ok (io k)"
  shows "server_files_ok cwd (hls_turn F date cwd m io hub v sid)"
proof (rule turn_keeps [of "server_files_ok cwd", OF assms(1)])
  fix v :: "'a hls_server"
  assume v: "server_files_ok cwd v"
  show "server_files_ok cwd (hls_recover F v sid)" by (rule recover_files_ok [OF v])
  show "server_files_ok cwd (v\<lparr>hv_tasks := ts\<rparr>)" for ts using v by simp
  show "server_files_ok cwd (v\<lparr>hv_sessions := AList.delete sid (hv_sessions v)\<rparr>)"
    by (rule delete_session_files_ok [OF v, where sid = sid]) simp_all
  show "server_files_ok cwd (hls_task_frames F date cwd m io 0 v sid fs)" for fs
    by (rule task_frames_files_ok [OF v assms(2)])
qed

lemma act_files_ok:
  assumes "server_files_ok cwd v" and "event_plain ev"
  shows "server_files_ok cwd (hls_act F date cwd v ev)"
  using assms ensure_files_ok stop_files_ok reap_files_ok turn_files_ok
  by (cases ev) (simp_all add: hls_get_playlist_def hls_get_segment_path_def Let_def)

lemma run_files_ok:
  "server_files_ok cwd v \<Longrightarrow> list_all event_plain evs \<Longrightarrow> server_files_ok cwd (foldl (hls_act F date cwd) v evs)"
  by (induction evs arbitrary: v) (auto intro: act_files_ok)

lemma new_server_files_ok: "hc_output_dir config \<noteq> [] \<Longrightarrow> server_files_ok cwd (hls_server_new config disk)"
  by (simp add: server_files_ok_def hls_server_new_def hls_output_dir_def)

section \<open>What a player gets\<close>

lemma segment_place:
  assumes "plain_name sid" and "hls_output_dir v \<noteq> []"
  shows "snd (hls_get_segment_path cwd v now sid (segment_filename n)) =
     (let p = stream_dir cwd v sid @ [segment_filename n] in if hv_disk v p \<noteq> None then Some p else None)"
proof -
  have "path_join (hls_output_dir v) sid \<noteq> []"
    using assms by (auto simp: path_join_def plain_name_def)
  then show ?thesis
    by (simp add: hls_get_segment_path_def Let_def locate_join stream_dir_def)
qed

lemma listed_segment_stored:
  assumes "server_files_ok cwd v" and "map_of (hv_sessions v) sid = Some s"
    and "\<forall>t. one_line (date t)" and "\<forall>x. one_line (fl_fixed3 F x)"
    and "(c, d, x, name) \<in> set (pl_entries (read_playlist (generate F date (hs_playlist s))))"
  shows "\<exists>n b. name = segment_filename n \<and> hv_disk v (stream_dir cwd v sid @ [name]) = Some b \<and> MIN_SEGMENT_BYTES < length b"
proof -
  have f: "stream_files_ok (hv_disk v) (stream_dir cwd v sid) (hs_playlist s)"
    using assms(1,2) by (auto simp: server_files_ok_def)
  then have named: "named (hs_playlist s)" by (simp add: stream_files_ok_def window_ok_def)
  from read_playlist_generate [OF this assms(3,4)] assms(5) obtain seg where
    seg: "seg \<in> set (m3_segments (hs_playlist s))" "name = sg_filename seg"
    by (auto simp: entry_of_def player_start_def)
  have "segment_stored (hv_disk v) (stream_dir cwd v sid) (sg_sequence seg)"
    using f seg(1) by (simp add: stream_files_ok_def)
  then show ?thesis using seg named by (auto simp: segment_stored_def named_def split: option.splits)
qed

text \<open>Whatever a playlist names can be fetched: after any history of requests, task turns and reaper
  rounds, each segment of the playlist a player is given is found by a request for this name, in the
  directory of the stream, as a file of more than 512 bytes. The names of the streams are plain, the
  directory of segments can be listed.\<close>

theorem hls_listed_segments_can_be_fetched:
  assumes "list_all event_plain evs" and "hc_output_dir config \<noteq> []"
    and "v = foldl (hls_act F date cwd) (hls_server_new config disk) evs"
    and "hls_get_playlist F date v now sid = (v1, Some playlist)"
    and "\<forall>t. one_line (date t)" and "\<forall>x. one_line (fl_fixed3 F x)"
    and "(c, d, x, name) \<in> set (pl_entries (read_playlist playlist))"
  shows "\<exists>p b. snd (hls_get_segment_path cwd v1 now' sid name) = Some p \<and> p = stream_dir cwd v sid @ [name] \<and>
     hv_disk v1 p = Some b \<and> MIN_SEGMENT_BYTES < length b"
proof -
  have ok: "server_files_ok cwd v"
    unfolding assms(3) by (rule run_files_ok [OF new_server_files_ok [OF assms(2)] assms(1)])
  from assms(4) obtain s where s: "map_of (hv_sessions v) sid = Some s" "playlist = generate F date (hs_playlist s)"
    and v1: "v1 = hls_touch v now sid"
    by (auto simp: hls_get_playlist_def split: option.splits if_splits)
  from ok s(1) have plain: "plain_name sid" and out: "hls_output_dir v \<noteq> []" by (auto simp: server_files_ok_def)
  obtain n b where n: "name = segment_filename n" "hv_disk v (stream_dir cwd v sid @ [name]) = Some b" "MIN_SEGMENT_BYTES < length b"
    using listed_segment_stored [OF ok s(1) assms(5,6)] assms(7) unfolding s(2) by blast
  have "hls_output_dir v1 = hls_output_dir v" "stream_dir cwd v1 sid = stream_dir cwd v sid" "hv_disk v1 = hv_disk v"
    by (simp_all add: v1 hls_touch_def hls_output_dir_def stream_dir_def)
  then show ?thesis using segment_place [OF plain, of v1 cwd now' n] out n by (simp add: Let_def)
qed

text \<open>The files of a packaged stream do not pile up: its directory never holds more segments than the
  playlist lists at most, and three.\<close>

theorem hls_files_are_bounded:
  assumes "list_all event_plain evs" and "hc_output_dir config \<noteq> []"
    and "v = foldl (hls_act F date cwd) (hls_server_new config disk) evs"
    and "map_of (hv_sessions v) sid = Some s" and "m3_next_sequence (hs_playlist s) \<le> u64_max"
  shows "card {n. hv_disk v (stream_dir cwd v sid @ [segment_filename n]) \<noteq> None} \<le> m3_max_segments (hs_playlist s) + 3"
proof -
  let ?N = "m3_next_sequence (hs_playlist s)" and ?M = "m3_max_segments (hs_playlist s)"
  have "server_files_ok cwd v"
    unfolding assms(3) by (rule run_files_ok [OF new_server_files_ok [OF assms(2)] assms(1)])
  with assms(4) have "stream_files_ok (hv_disk v) (stream_dir cwd v sid) (hs_playlist s)"
    by (auto simp: server_files_ok_def)
  with assms(5) have "{n. hv_disk v (stream_dir cwd v sid @ [segment_filename n]) \<noteq> None} \<subseteq> {?N - (?M + 3) ..< ?N}"
    unfolding stream_files_ok_def by fastforce
  from card_mono [OF _ this] show ?thesis by simp
qed

section \<open>A task runs its session\<close>

text \<open>
  What the session of a task is fed: the frames of the batch but the audio that HLS does not carry,
  with the time and the fate of the segment file each meets.
\<close>

fun task_inputs ::
    "stream_manager \<Rightarrow> (nat \<Rightarrow> hls_io) \<Rightarrow> stream_id \<Rightarrow> nat \<Rightarrow> media_frame list \<Rightarrow> (int \<times> bool \<times> media_frame) list" where
  "task_inputs m io sid k [] = []"
| "task_inputs m io sid k (f # fs) =
     (if mf_codec f = Opus \<or> mf_codec f = G711 then []
      else [(hi_now (io k), hi_segment_ok (io k), hls_frame_with_config m sid f)]) @
     task_inputs m io sid (k + 1) fs"

lemma write_segment_session:
  "map_of (hv_sessions (hls_write_segment F date cwd io v sid s c)) sid =
     (if hi_segment_ok io then Some (hls_commit s c) else map_of (hv_sessions v) sid)"
  by (simp add: hls_write_segment_def Let_def update_conv')

lemma task_frame_session:
  assumes "map_of (hv_sessions v) sid = Some s" and "\<not> (mf_codec f = Opus \<or> mf_codec f = G711)"
    and "hls_task_frame F date cwd m io v sid f = (v', b)"
  shows "b \<and> map_of (hv_sessions v') sid =
     Some (fst (hls_feed F s (hi_now io, hi_segment_ok io, hls_frame_with_config m sid f)))"
proof -
  obtain s' r k where fr: "on_frame F (hi_now io) s (hls_frame_with_config m sid f) = (s', r, k)"
    by (cases "on_frame F (hi_now io) s (hls_frame_with_config m sid f)")
  from assms show ?thesis
    by (auto simp: hls_task_frame_def hls_feed_def fr Let_def update_conv' write_segment_session split: option.splits)
qed

lemma hls_task_frames_session:
  "map_of (hv_sessions (hls_task_frames F date cwd m io k v sid fs)) sid =
     map_option (\<lambda>s. fst (hls_run F s (task_inputs m io sid k fs))) (map_of (hv_sessions v) sid)"
proof (induction fs arbitrary: k v)
  case Nil
  show ?case by (cases "map_of (hv_sessions v) sid") simp_all
next
  case (Cons f fs)
  obtain v' b where fr: "hls_task_frame F date cwd m (io k) v sid f = (v', b)" by fastforce
  show ?case
  proof (cases "mf_codec f = Opus \<or> mf_codec f = G711")
    case True
    with fr have "v' = v" "b" by (auto simp: hls_task_frame_def)
    with True fr Cons.IH [of "k + 1" v] show ?thesis by auto
  next
    case audio: False
    show ?thesis
    proof (cases "map_of (hv_sessions v) sid")
      case None
      with audio fr have "v' = v" "\<not> b" by (auto simp: hls_task_frame_def)
      with None fr show ?thesis by simp
    next
      case (Some s)
      from task_frame_session [OF Some audio fr] Cons.IH [of "k + 1" v'] Some audio fr show ?thesis
        by (simp add: split_beta)
    qed
  qed
qed

section \<open>Who is still packaged\<close>

text \<open>A step that no client asked for: no stream is added, no access is noted.\<close>

definition quiet :: "'f hls_server \<Rightarrow> 'f hls_server \<Rightarrow> bool" where
  "quiet v v' \<longleftrightarrow> hv_last_access v' = hv_last_access v \<and> (\<forall>sid. hls_has_stream v' sid \<longrightarrow> hls_has_stream v sid)"

lemma quiet_refl [simp]: "quiet v v"
  by (simp add: quiet_def)

lemma quiet_trans: "quiet a b \<Longrightarrow> quiet b c \<Longrightarrow> quiet a c"
  by (simp add: quiet_def)

lemma quiet_update:
  "map_of (hv_sessions v) sid \<noteq> None \<Longrightarrow> quiet v (v\<lparr>hv_sessions := AList.update sid s (hv_sessions v)\<rparr>)"
  by (auto simp: quiet_def hls_has_stream_def update_conv')

lemma quiet_tasks [simp]: "quiet v (v'\<lparr>hv_tasks := ts\<rparr>) = quiet v v'"
  by (simp add: quiet_def hls_has_stream_def)

lemma quiet_recover [simp]: "quiet v (hls_recover F v sid)"
  using quiet_update [of v sid] by (simp add: hls_recover_def split: option.splits)

lemma quiet_write:
  "map_of (hv_sessions v) sid \<noteq> None \<Longrightarrow> quiet v (hls_write_segment F date cwd io v sid s c)"
  by (auto simp: hls_write_segment_def Let_def quiet_def hls_has_stream_def update_conv')

lemma quiet_task_frame: "quiet v (fst (hls_task_frame F date cwd m io v sid f))"
proof (cases "map_of (hv_sessions v) sid")
  case (Some s)
  obtain s' r k where fr: "on_frame F (hi_now io) s (hls_frame_with_config m sid f) = (s', r, k)"
    by (cases "on_frame F (hi_now io) s (hls_frame_with_config m sid f)")
  have u: "quiet v (v\<lparr>hv_sessions := AList.update sid s' (hv_sessions v)\<rparr>)" by (rule quiet_update) (simp add: Some)
  from quiet_trans [OF u quiet_write [of _ sid]] u show ?thesis
    by (simp add: hls_task_frame_def Some fr Let_def update_conv' split: option.splits)
qed (simp add: hls_task_frame_def)

lemma quiet_task_frames: "quiet v (hls_task_frames F date cwd m io k v sid fs)"
proof (induction fs arbitrary: k v)
  case (Cons f fs)
  from quiet_task_frame [of v F date cwd m "io k" sid f] Cons.IH show ?case
    by (auto split: prod.splits bool.splits intro: quiet_trans)
qed simp

lemma quiet_turn: "quiet v (hls_turn F date cwd m io hub v sid)"
proof (rule turn_keeps)
  fix v1 assume "quiet v v1"
  then show "quiet v (hls_recover F v1 sid)" by (rule quiet_trans) simp
  from \<open>quiet v v1\<close> show "quiet v (v1\<lparr>hv_sessions := AList.delete sid (hv_sessions v1)\<rparr>)"
    by (auto simp: quiet_def hls_has_stream_def delete_conv' split: if_splits)
  from \<open>quiet v v1\<close> show "quiet v (hls_task_frames F date cwd m io 0 v1 sid fs)" for fs
    by (rule quiet_trans) (rule quiet_task_frames)
qed simp_all

lemma reap_removes:
  "hls_has_stream (foldl hls_reap_one v ids) sid \<longleftrightarrow> hls_has_stream v sid \<and> sid \<notin> set ids"
  "map_of (hv_last_access (foldl hls_reap_one v ids)) sid = (if sid \<in> set ids then None else map_of (hv_last_access v) sid)"
proof -
  have one: "hls_has_stream (hls_reap_one v i) sid \<longleftrightarrow> hls_has_stream v sid \<and> sid \<noteq> i"
    "map_of (hv_last_access (hls_reap_one v i)) sid = (if sid = i then None else map_of (hv_last_access v) sid)" for v :: "'a hls_server" and i
    by (auto simp: hls_reap_one_def Let_def hls_stop_stream_def hls_has_stream_def delete_conv')
  show "hls_has_stream (foldl hls_reap_one v ids) sid \<longleftrightarrow> hls_has_stream v sid \<and> sid \<notin> set ids"
    by (induction ids arbitrary: v) (auto simp: one)
  show "map_of (hv_last_access (foldl hls_reap_one v ids)) sid = (if sid \<in> set ids then None else map_of (hv_last_access v) sid)"
    by (induction ids arbitrary: v) (auto simp: one)
qed

text \<open>The time at which an event asks for a stream.\<close>

fun asks :: "stream_id \<Rightarrow> hls_event \<Rightarrow> nat option" where
  "asks sid (Packaging_wanted m h now create_ok sid' reset) = (if sid' = sid then Some now else None)"
| "asks sid (Playlist_asked now sid') = (if sid' = sid then Some now else None)"
| "asks sid (Segment_asked now sid' name) = (if sid' = sid then Some now else None)"
| "asks sid _ = None"

text \<open>Every packaged stream has a time of its last access, which is that of an event.\<close>

definition accesses_ok :: "hls_event list \<Rightarrow> 'f hls_server \<Rightarrow> bool" where
  "accesses_ok evs v \<longleftrightarrow> distinct (List.map fst (hv_last_access v)) \<and>
     (\<forall>sid. hls_has_stream v sid \<longrightarrow> map_of (hv_last_access v) sid \<noteq> None) \<and>
     (\<forall>sid t. map_of (hv_last_access v) sid = Some t \<longrightarrow> (\<exists>ev\<in>set evs. asks sid ev = Some t))"

lemma accesses_quiet: "accesses_ok evs v \<Longrightarrow> quiet v v' \<Longrightarrow> accesses_ok evs v'"
  by (auto simp: accesses_ok_def quiet_def)

lemma accesses_more: "accesses_ok evs v \<Longrightarrow> set evs \<subseteq> set evs' \<Longrightarrow> accesses_ok evs' v"
  unfolding accesses_ok_def by blast

lemma accesses_touch:
  assumes "distinct (List.map fst (hv_last_access v))"
    and "\<forall>sid. hls_has_stream v sid \<longrightarrow> sid = sid0 \<or> map_of (hv_last_access v) sid \<noteq> None"
    and "\<forall>sid t. map_of (hv_last_access v) sid = Some t \<longrightarrow> (\<exists>ev\<in>set evs. asks sid ev = Some t)"
    and "ev \<in> set evs" and "asks sid0 ev = Some now"
  shows "accesses_ok evs (hls_touch v now sid0)"
  using assms by (auto simp: accesses_ok_def hls_touch_def hls_has_stream_def update_conv' distinct_update)

lemma accesses_stop: "accesses_ok evs v \<Longrightarrow> accesses_ok evs (hls_stop_stream v sid)"
  by (auto simp: accesses_ok_def hls_stop_stream_def hls_has_stream_def delete_conv' distinct_delete split: if_splits)

lemma accesses_reap: "accesses_ok evs v \<Longrightarrow> accesses_ok evs (hls_reap v now)"
proof -
  have "accesses_ok evs (hls_reap_one v sid)" if "accesses_ok evs v" for v :: "'a hls_server" and sid
    using that
    by (auto simp: accesses_ok_def hls_reap_one_def Let_def hls_stop_stream_def hls_has_stream_def delete_conv' distinct_delete
        split: if_splits)
  then have "accesses_ok evs (foldl hls_reap_one v ids)" if "accesses_ok evs v" for v :: "'a hls_server" and ids
    using that by (induction ids arbitrary: v) auto
  then show "accesses_ok evs v \<Longrightarrow> accesses_ok evs (hls_reap v now)" by (simp add: hls_reap_def)
qed

lemma accesses_start:
  assumes "accesses_ok evs v" and "ev \<in> set evs" and "asks sid ev = Some now"
    and "hls_start_stream F cwd v m h now ok sid = (v', True)"
  shows "accesses_ok evs (hls_touch v' now sid)"
proof -
  have base: "distinct (List.map fst (hv_last_access v))"
    "hls_has_stream v x \<Longrightarrow> map_of (hv_last_access v) x \<noteq> None"
    "map_of (hv_last_access v) x = Some t \<Longrightarrow> \<exists>ev\<in>set evs. asks x ev = Some t" for x t
    using assms(1) unfolding accesses_ok_def by blast+
  from assms(4) have "hv_last_access v' = hv_last_access v \<or> hv_last_access v' = AList.update sid now (hv_last_access v)"
    and sess: "hls_has_stream v' x \<Longrightarrow> x = sid \<or> hls_has_stream v x" for x
    by (auto simp: hls_start_stream_def Let_def hls_touch_def hls_has_stream_def update_conv' split: if_splits option.splits)
  then have acc: "map_of (hv_last_access v') x = map_of (hv_last_access v) x \<or> x = sid \<and> map_of (hv_last_access v') x = Some now"
    "distinct (List.map fst (hv_last_access v'))" for x
    using base(1) by (auto simp: update_conv' distinct_update split: if_splits)
  have "distinct (List.map fst (hv_last_access v'))" "\<forall>x. hls_has_stream v' x \<longrightarrow> x = sid \<or> map_of (hv_last_access v') x \<noteq> None"
    "\<forall>x t. map_of (hv_last_access v') x = Some t \<longrightarrow> (\<exists>ev\<in>set evs. asks x ev = Some t)"
    using acc base(2,3) sess assms(2,3) by (fast, metis, metis option.inject)
  from accesses_touch [OF this assms(2,3)] show ?thesis .
qed

lemma accesses_ensure:
  assumes "accesses_ok evs v" and "ev \<in> set evs" and "asks sid ev = Some now"
  shows "accesses_ok evs (fst (hls_ensure_stream F cwd v m h now ok sid reset))"
proof -
  define v1 where "v1 = (if reset \<and> hls_has_stream v sid then hls_stop_stream v sid else v)"
  have v1: "accesses_ok evs v1" using assms(1) accesses_stop [OF assms(1)] by (auto simp: v1_def)
  have touch: "accesses_ok evs (hls_touch v1 now sid)"
    using v1 assms(2,3) by (intro accesses_touch) (auto simp: accesses_ok_def)
  obtain v2 b where v2: "hls_start_stream F cwd v1 m h now ok sid = (v2, b)"
    by (cases "hls_start_stream F cwd v1 m h now ok sid")
  show ?thesis
  proof (cases b)
    case True
    with accesses_start [OF v1 assms(2,3)] v2 touch assms(1) show ?thesis
      by (simp add: hls_ensure_stream_def Let_def v1_def [symmetric])
  next
    case False
    with v2 have "quiet v1 v2"
      by (auto simp: hls_start_stream_def Let_def quiet_def hls_has_stream_def split: if_splits option.splits)
    with accesses_quiet [OF v1] False v2 touch assms(1) show ?thesis
      by (simp add: hls_ensure_stream_def Let_def v1_def [symmetric])
  qed
qed

lemma run_accesses_ok:
  "accesses_ok evs (foldl (hls_act F date cwd) (hls_server_new config disk) evs)"
proof (induction evs rule: rev_induct)
  case Nil
  then show ?case by (simp add: accesses_ok_def hls_server_new_def hls_has_stream_def)
next
  case (snoc ev evs)
  let ?v = "foldl (hls_act F date cwd) (hls_server_new config disk) evs"
  have v: "accesses_ok (evs @ [ev]) ?v" by (rule accesses_more [OF snoc]) auto
  have "accesses_ok (evs @ [ev]) (hls_act F date cwd ?v ev)"
  proof (cases ev)
    case (Packaging_wanted m h now ok sid reset)
    with accesses_ensure [OF v, of ev sid now] show ?thesis by simp
  next
    case (Playlist_asked now sid)
    then have "accesses_ok (evs @ [ev]) (hls_touch ?v now sid)"
      using v by (intro accesses_touch) (auto simp: accesses_ok_def)
    with Playlist_asked show ?thesis by (simp add: hls_get_playlist_def)
  next
    case (Segment_asked now sid name)
    then have "accesses_ok (evs @ [ev]) (hls_touch ?v now sid)"
      using v by (intro accesses_touch) (auto simp: accesses_ok_def)
    with Segment_asked show ?thesis by (simp add: hls_get_segment_path_def Let_def)
  next
    case (Packaging_stopped sid)
    with accesses_stop [OF v] show ?thesis by simp
  next
    case (Reaper_round now)
    with accesses_reap [OF v] show ?thesis by simp
  next
    case (Task_turn m io hub sid)
    with accesses_quiet [OF v quiet_turn] show ?thesis by simp
  qed
  then show ?case by simp
qed


section \<open>A server that packages\<close>

definition demo_io :: "nat \<Rightarrow> hls_io" where
  "demo_io = (\<lambda>_. \<lparr>hi_now = 0, hi_segment_ok = True, hi_playlist_ok = True, hi_listing_ok = True\<rparr>)"

definition demo_config :: "nat hls_config" where
  "demo_config = \<lparr>hc_enabled = True, hc_segment_duration = 1000, hc_max_segments = 3, hc_output_dir = ''out''\<rparr>"

definition demo_frames :: "media_frame list" where
  "demo_frames = [demo_video 1000 True, demo_video 1400 True, demo_video 1800 True]"

definition demo_events :: "hls_event list" where
  "demo_events =
     [Packaging_wanted \<lparr>mgr_hubs = [(''s1'', demo_hub [])]\<rparr> (demo_hub []) 0 True ''s1'' False,
      Task_turn manager_new demo_io (demo_hub demo_frames, None) ''s1'']"

definition demo_date :: "int \<Rightarrow> string" where
  "demo_date = (\<lambda>t. dec_str (nat t))"

definition demo_cwd :: place where
  "demo_cwd = [''srv'']"

definition demo_server :: "nat hls_server" where
  "demo_server = foldl (hls_act milli_ops demo_date demo_cwd) (hls_server_new demo_config (\<lambda>_. None)) demo_events"

lemma demo_events_plain: "list_all event_plain demo_events" "hc_output_dir demo_config \<noteq> []"
  by (simp_all add: demo_events_def demo_io_def demo_config_def plain_name_def)

lemma demo_packaged:
  "\<exists>v r. fst (hls_ensure_stream milli_ops demo_cwd (hls_server_new demo_config (\<lambda>_. None))
       \<lparr>mgr_hubs = [(''s1'', demo_hub [])]\<rparr> (demo_hub []) 0 True ''s1'' False) = v \<and>
     map_of (hv_sessions v) ''s1'' = Some (hls_session_new milli_ops ''s1'' 1000 3) \<and>
     hv_last_access v = [(''s1'', 0)] \<and>
     map_of (hv_tasks v) ''s1'' = Some \<lparr>ht_stream_id = ''s1'', ht_reader = r\<rparr> \<and>
     rd_policy r = SequentialFromIdr \<and> rd_cursor r = 0 \<and> \<not> rd_pending_live_snap r \<and> \<not> rd_pending_muxer_resync r"
  by (simp add: hls_ensure_stream_def hls_start_stream_def hls_server_new_def hls_has_stream_def get_stream_def get_hub_def
      dispatch_subscribe_def get_or_create_hub_def demo_config_def Let_def hls_touch_def finish_prime_def snap_to_latest_idr_def
      reader_new_def hub_snap_def latest_idr_seq_def latest_seq_def demo_hub_def gop_seqs_def)

lemma frame_config: "hv_config (fst (hls_task_frame F date cwd m io v sid f)) = hv_config v"
  by (simp add: hls_task_frame_def hls_write_segment_def Let_def split: option.splits prod.splits)

lemma frames_config: "hv_config (hls_task_frames F date cwd m io k v sid fs) = hv_config v"
proof (induction fs arbitrary: k v)
  case (Cons f fs)
  with frame_config [of F date cwd m "io k" v sid f] show ?case
    by (cases "hls_task_frame F date cwd m (io k) v sid f") (simp split: bool.splits)
qed simp

lemma config_kept:
  "hv_config (hls_act F date cwd v ev) = hv_config v"
proof -
  have stop: "hv_config (hls_stop_stream v sid) = hv_config v" for v :: "'a hls_server" and sid
    by (simp add: hls_stop_stream_def)
  have start: "hv_config (fst (hls_start_stream F cwd v m h now ok sid)) = hv_config v" for v m h now ok sid
    by (simp add: hls_start_stream_def Let_def hls_touch_def split: option.splits)
  have ensure: "hv_config (fst (hls_ensure_stream F cwd v m h now ok sid reset)) = hv_config v" for m h now ok sid reset
  proof -
    define v1 where "v1 = (if reset \<and> hls_has_stream v sid then hls_stop_stream v sid else v)"
    have "hv_config v1 = hv_config v" by (simp add: v1_def stop)
    with start [of v1 m h now ok sid] show ?thesis
      by (cases "hls_start_stream F cwd v1 m h now ok sid") (simp add: hls_ensure_stream_def Let_def v1_def [symmetric] hls_touch_def split: prod.splits bool.splits)
  qed
  have one: "hv_config (hls_reap_one v sid) = hv_config v" for v :: "'a hls_server" and sid
    by (simp add: hls_reap_one_def Let_def stop)
  have reap: "hv_config (foldl hls_reap_one v ids) = hv_config v" for v :: "'a hls_server" and ids
    by (induction ids arbitrary: v) (simp_all add: one)
  have recover: "hv_config (hls_recover F v sid) = hv_config v" for v sid
    by (simp add: hls_recover_def split: option.splits)
  have turn: "hv_config (hls_turn F date cwd m io hub v sid) = hv_config v" for m io hub sid
    by (rule turn_keeps) (simp_all add: recover frames_config)
  show ?thesis
    by (cases ev) (simp_all add: ensure stop reap hls_reap_def turn Let_def hls_get_playlist_def hls_get_segment_path_def hls_touch_def)
qed

lemma run_config: "hv_config (foldl (hls_act F date cwd) v evs) = hv_config v"
  by (induction evs arbitrary: v) (simp_all add: config_kept)

lemma demo_session_closes:
  "\<exists>c. snd (hls_run milli_ops (hls_session_new milli_ops ''s1'' 1000 3) demo_clip) = [(True, c)]"
  using muxer_new_ok by (intro demo_clip_closes [where prim = False]) (simp_all add: clocks_def hls_session_new_def muxer_new_def)

lemma demo_reads_all:
  assumes "rd_policy r = SequentialFromIdr" and "rd_cursor r = 0"
  shows "recv_batch r (demo_hub demo_frames) w = (r\<lparr>rd_cursor := 3\<rparr>, 0, Inr demo_frames)"
proof -
  have len: "length demo_frames = 3" by (simp add: demo_frames_def)
  have "batch_of r (demo_hub demo_frames) = (r\<lparr>rd_cursor := 3\<rparr>, 0, List.map cached_form demo_frames)"
    using sequential_batch [of r "demo_hub demo_frames" demo_frames] assms len
    by (simp add: sequential_def demo_hub_holds u64_max_def)
  moreover have "List.map cached_form demo_frames = demo_frames"
    by (simp add: demo_frames_def cached_form_def demo_video_def media_frame_new_def)
  ultimately show ?thesis
    using assms len by (simp add: recv_batch_def ensure_data_def hub_is_empty_def ring_is_empty_def hub_latest_seq_def latest_seq_def)
qed

lemma demo_inputs: "task_inputs manager_new demo_io ''s1'' 0 demo_frames = demo_clip"
  by (simp add: demo_frames_def demo_clip_def demo_io_def hls_frame_with_config_def demo_video_keyframe get_stream_def
      get_hub_def manager_new_def)

lemma demo_server_state:
  "map_of (hv_sessions demo_server) ''s1'' = Some (fst (hls_run milli_ops (hls_session_new milli_ops ''s1'' 1000 3) demo_clip))"
  "hv_last_access demo_server = [(''s1'', 0)]"
proof -
  obtain v r where v: "fst (hls_ensure_stream milli_ops demo_cwd (hls_server_new demo_config (\<lambda>_. None))
       \<lparr>mgr_hubs = [(''s1'', demo_hub [])]\<rparr> (demo_hub []) 0 True ''s1'' False) = v"
    "map_of (hv_sessions v) ''s1'' = Some (hls_session_new milli_ops ''s1'' 1000 3)" "hv_last_access v = [(''s1'', 0)]"
    "map_of (hv_tasks v) ''s1'' = Some \<lparr>ht_stream_id = ''s1'', ht_reader = r\<rparr>"
    and r: "rd_policy r = SequentialFromIdr" "rd_cursor r = 0" "\<not> rd_pending_live_snap r" "\<not> rd_pending_muxer_resync r"
    using demo_packaged by blast
  have server: "demo_server = hls_turn milli_ops demo_date demo_cwd manager_new demo_io (demo_hub demo_frames, None) v ''s1''"
    by (simp add: demo_server_def demo_events_def v(1))
  have lag: "\<not> hub_latest_seq (demo_hub demo_frames) > HLS_MUX_LAG_SNAP_THRESHOLD"
    by (simp add: hub_latest_seq_def latest_seq_def HLS_MUX_LAG_SNAP_THRESHOLD_def demo_frames_def)
  have ne: "demo_frames \<noteq> []" by (simp add: demo_frames_def)
  obtain ts r' where "demo_server = hls_task_frames milli_ops demo_date demo_cwd manager_new demo_io 0
      (v\<lparr>hv_tasks := AList.update ''s1'' \<lparr>ht_stream_id = ''s1'', ht_reader = r'\<rparr> ts\<rparr>) ''s1'' demo_frames"
    unfolding server hls_turn_def using lag r ne
    by (simp add: v(4) demo_reads_all take_live_snap_def take_muxer_resync_def)
  note turn = this
  show "map_of (hv_sessions demo_server) ''s1'' = Some (fst (hls_run milli_ops (hls_session_new milli_ops ''s1'' 1000 3) demo_clip))"
    unfolding turn by (simp add: hls_task_frames_session v(2) demo_inputs)
  have "quiet v demo_server" unfolding server by (rule quiet_turn)
  then show "hv_last_access demo_server = [(''s1'', 0)]" by (simp add: quiet_def v(3))
qed

lemma demo_segment_name: "segment_filename 0 = ''segment_0.ts''"
  by code_simp

lemma demo_playlist_entry:
  "\<exists>s. map_of (hv_sessions demo_server) ''s1'' = Some s \<and> m3_next_sequence (hs_playlist s) = 1 \<and>
     m3_max_segments (hs_playlist s) = 3 \<and>
     (\<exists>seg. m3_segments (hs_playlist s) = [seg] \<and> sg_filename seg = ''segment_0.ts'')"
proof -
  obtain c where c: "snd (hls_run milli_ops (hls_session_new milli_ops ''s1'' 1000 3) demo_clip) = [(True, c)]"
    using demo_session_closes by blast
  define s where "s = fst (hls_run milli_ops (hls_session_new milli_ops ''s1'' 1000 3) demo_clip)"
  have "hls_run milli_ops (hls_session_new milli_ops ''s1'' 1000 3) demo_clip = (s, [(True, c)])"
    using c by (simp add: s_def prod_eq_iff)
  from hls_run_playlist [OF this]
  have "hs_playlist s = add_segment (m3u8_new 1000 3) (cs_duration c) 0 (cs_pdt c) (cs_discontinuity c)"
    by (simp add: written_def commit_next_def hls_session_new_def m3u8_new_def)
  then show ?thesis
    using demo_server_state(1) demo_segment_name
    by (simp add: s_def [symmetric] add_segment_def m3u8_new_def)
qed

theorem hls_listed_segments_can_be_fetched_witness:
  "\<exists>v1 playlist p b. hls_get_playlist milli_ops demo_date demo_server 5 ''s1'' = (v1, Some playlist) \<and>
     snd (hls_get_segment_path demo_cwd v1 6 ''s1'' ''segment_0.ts'') = Some p \<and>
     p = [''srv'', ''out'', ''s1'', ''segment_0.ts''] \<and> hv_disk v1 p = Some b \<and> MIN_SEGMENT_BYTES < length b"
proof -
  obtain s seg where s: "map_of (hv_sessions demo_server) ''s1'' = Some s" "m3_segments (hs_playlist s) = [seg]"
    "sg_filename seg = ''segment_0.ts''"
    using demo_playlist_entry by blast
  define v1 where "v1 = hls_touch demo_server 5 ''s1''"
  define playlist where "playlist = generate milli_ops demo_date (hs_playlist s)"
  have get: "hls_get_playlist milli_ops demo_date demo_server 5 ''s1'' = (v1, Some playlist)"
    by (simp add: hls_get_playlist_def v1_def playlist_def s segment_count_def)
  have lines: "\<forall>t. one_line (demo_date t)" "\<forall>x. one_line (fl_fixed3 milli_ops x)"
    by (simp_all add: one_line_def demo_date_def milli_ops_def)
  have ok: "server_files_ok demo_cwd demo_server"
    unfolding demo_server_def by (rule run_files_ok [OF new_server_files_ok [OF demo_events_plain(2)] demo_events_plain(1)])
  then have "named (hs_playlist s)" using s(1) by (auto simp: server_files_ok_def stream_files_ok_def window_ok_def)
  from read_playlist_generate [OF this lines] s(2,3) obtain c d x where
    e: "(c, d, x, ''segment_0.ts'') \<in> set (pl_entries (read_playlist playlist))"
    unfolding playlist_def by (cases "entry_of milli_ops demo_date seg") (auto simp: entry_of_def player_start_def)
  have dir: "stream_dir demo_cwd demo_server ''s1'' = [''srv'', ''out'', ''s1'']"
    using stream_dir_plain [of "''s1''" demo_server demo_cwd]
    by (simp add: hls_output_dir_def demo_server_def run_config hls_server_new_def demo_config_def demo_cwd_def
        plain_name_def locate_def)
  from hls_listed_segments_can_be_fetched [OF demo_events_plain demo_server_def get lines e, of 6] get dir show ?thesis
    by auto
qed

theorem hls_files_are_bounded_witness:
  "\<exists>s. map_of (hv_sessions demo_server) ''s1'' = Some s \<and>
     card {n. hv_disk demo_server (stream_dir demo_cwd demo_server ''s1'' @ [segment_filename n]) \<noteq> None} \<le> 6"
proof -
  obtain s where s: "map_of (hv_sessions demo_server) ''s1'' = Some s" "m3_next_sequence (hs_playlist s) = 1"
    "m3_max_segments (hs_playlist s) = 3"
    using demo_playlist_entry by blast
  from hls_files_are_bounded [OF demo_events_plain demo_server_def s(1)] s show ?thesis by (simp add: u64_max_def)
qed


section \<open>What a stream's name can reach\<close>

text \<open>With plain names everything happens below the output directory.\<close>

lemma tree_outside: "\<not> prefix d p \<Longrightarrow> \<not> prefix (d @ e) p"
  using append_prefixD by blast

lemma start_stays_inside:
  assumes "plain_name sid" and "hls_output_dir v \<noteq> []" and "\<not> prefix (locate cwd (hls_output_dir v)) p"
  shows "hv_disk (fst (hls_start_stream F cwd v m h now ok sid)) p = hv_disk v p"
  using assms tree_outside
  by (auto simp: hls_start_stream_def Let_def hls_touch_def stream_dir_plain split: option.splits)

lemma ensure_stays_inside:
  assumes "plain_name sid" and "hls_output_dir v \<noteq> []" and "\<not> prefix (locate cwd (hls_output_dir v)) p"
  shows "hv_disk (fst (hls_ensure_stream F cwd v m h now ok sid reset)) p = hv_disk v p"
proof -
  define v1 where "v1 = (if reset \<and> hls_has_stream v sid then hls_stop_stream v sid else v)"
  have v1: "hls_output_dir v1 = hls_output_dir v" "hv_disk v1 = hv_disk v"
    by (simp_all add: v1_def hls_stop_stream_def hls_output_dir_def)
  with start_stays_inside [of sid v1 cwd p F m h now ok] assms show ?thesis
    by (cases "hls_start_stream F cwd v1 m h now ok sid")
      (simp add: hls_ensure_stream_def Let_def v1_def [symmetric] hls_touch_def split: bool.splits)
qed

lemma frame_stays_inside:
  assumes "server_files_ok cwd v" and "\<not> prefix (locate cwd (hls_output_dir v)) p"
  shows "hv_disk (fst (hls_task_frame F date cwd m io v sid f)) p = hv_disk v p"
proof (cases "map_of (hv_sessions v) sid")
  case (Some s)
  then have sid: "plain_name sid" and out: "hls_output_dir v \<noteq> []" using assms(1) by (auto simp: server_files_ok_def)
  have dir: "stream_dir cwd v' sid = locate cwd (hls_output_dir v) @ [sid]" if "hv_config v' = hv_config v" for v'
    using stream_dir_plain [OF sid, of v' cwd] out that by (simp add: hls_output_dir_def)
  let ?d = "locate cwd (hls_output_dir v) @ [sid]"
  have "\<not> prefix ?d p" by (rule tree_outside [OF assms(2)])
  moreover have "prefix ?d p" if "p = ?d @ [x]" for x unfolding that by (rule prefixI [OF refl])
  moreover have "prefix ?d p" if "p \<noteq> []" "butlast p = ?d"
    using prefixI [of p ?d "[last p]"] append_butlast_last_id [OF that(1)] that(2) by argo
  ultimately have p: "p \<noteq> ?d @ [x]" "\<not> (p \<noteq> [] \<and> butlast p = ?d)" for x by blast+
  have prune: "prune_old_segments ?d k dk p = dk p" for k dk
    using p(2) by (auto simp: prune_old_segments_def)
  have kept: "hv_disk (hls_write_segment F date cwd io v' sid s' c) p = hv_disk v' p" if "hv_config v' = hv_config v" for v' s' c
    using p(1) by (simp add: hls_write_segment_def Let_def dir [OF that] prune)
  show ?thesis by (simp add: hls_task_frame_def Let_def Some kept split: prod.splits option.splits)
qed (simp add: hls_task_frame_def)

lemma frames_stay_inside:
  assumes "server_files_ok cwd v" and "\<forall>k. hi_listing_ok (io k)" and "\<not> prefix (locate cwd (hls_output_dir v)) p"
  shows "hv_disk (hls_task_frames F date cwd m io k v sid fs) p = hv_disk v p"
  using assms(1,3)
proof (induction fs arbitrary: k v)
  case (Cons f fs)
  obtain v' b where fr: "hls_task_frame F date cwd m (io k) v sid f = (v', b)" by fastforce
  have "server_files_ok cwd v'" using task_frame_files_ok [OF Cons.prems(1), of "io k" F date m sid f] assms(2) fr by simp
  moreover have "hls_output_dir v' = hls_output_dir v"
    using frame_config [of F date cwd m "io k" v sid f] fr by (simp add: hls_output_dir_def)
  ultimately have "hv_disk (hls_task_frames F date cwd m io (k + 1) v' sid fs) p = hv_disk v' p"
    using Cons.IH Cons.prems(2) by simp
  with frame_stays_inside [OF Cons.prems, of F date m "io k" sid f] fr show ?case by (simp split: bool.splits)
qed simp

lemma act_stays_inside:
  assumes "server_files_ok cwd v" and "event_plain ev" and "\<not> prefix (locate cwd (hls_output_dir v)) p"
  shows "hv_disk (hls_act F date cwd v ev) p = hv_disk v p"
proof -
  have out: "hls_output_dir v \<noteq> []" using assms(1) by (simp add: server_files_ok_def)
  have one: "hv_disk (hls_reap_one v sid) = hv_disk v" for v :: "'a hls_server" and sid
    by (simp add: hls_reap_one_def Let_def hls_stop_stream_def)
  have reap: "hv_disk (foldl hls_reap_one v ids) = hv_disk v" for v :: "'a hls_server" and ids
    by (induction ids arbitrary: v) (simp_all add: one)
  show ?thesis
  proof (cases ev)
    case (Packaging_wanted m h now ok sid reset)
    with ensure_stays_inside [OF _ out assms(3)] assms(2) show ?thesis by simp
  next
    case (Task_turn m io hub sid)
    let ?P = "\<lambda>v'. server_files_ok cwd v' \<and> hls_output_dir v' = hls_output_dir v \<and> hv_disk v' p = hv_disk v p"
    have io: "\<forall>k. hi_listing_ok (io k)" using assms(2) Task_turn by simp
    have "?P (hls_turn F date cwd m io hub v sid)"
    proof (rule turn_keeps [of ?P])
      show "?P v" using assms(1) by simp
    next
      fix v1 :: "'a hls_server" assume v1: "?P v1"
      then have r: "server_files_ok cwd (hls_recover F v1 sid)" using recover_files_ok by blast
      with v1 show "?P (hls_recover F v1 sid)" by (simp add: hls_recover_def hls_output_dir_def split: option.splits)
    next
      fix v1 :: "'a hls_server" and fs assume v1: "?P v1"
      then have "server_files_ok cwd (hls_task_frames F date cwd m io 0 v1 sid fs)"
        using task_frames_files_ok [OF _ io] by blast
      moreover have "hv_disk (hls_task_frames F date cwd m io 0 v1 sid fs) p = hv_disk v1 p"
        using v1 assms(3) by (intro frames_stay_inside [OF _ io, of cwd]) simp_all
      ultimately show "?P (hls_task_frames F date cwd m io 0 v1 sid fs)"
        using v1 frames_config [of F date cwd m io 0 v1 sid fs] by (simp add: hls_output_dir_def)
    next
      fix v1 :: "'a hls_server" assume v1: "?P v1"
      then have ok: "server_files_ok cwd v1" by blast
      have "server_files_ok cwd (v1\<lparr>hv_sessions := AList.delete sid (hv_sessions v1)\<rparr>)"
        by (rule delete_session_files_ok [OF ok, where sid = sid]) simp_all
      with v1 show "?P (v1\<lparr>hv_sessions := AList.delete sid (hv_sessions v1)\<rparr>)" by (simp add: hls_output_dir_def)
    qed (simp add: hls_output_dir_def)
    with Task_turn show ?thesis by simp
  next
    case (Reaper_round now)
    then show ?thesis by (simp add: hls_reap_def reap)
  qed (simp_all add: hls_stop_stream_def hls_get_playlist_def hls_get_segment_path_def hls_touch_def Let_def)
qed

text \<open>C26. With plain stream names the server stays in its directory: no sequence of requests, task turns and
  reaper rounds changes a file outside the configured output directory.\<close>

theorem hls_stays_in_its_directory:
  assumes "list_all event_plain evs" and "hc_output_dir config \<noteq> []"
    and "\<not> prefix (locate cwd (hc_output_dir config)) p"
  shows "hv_disk (foldl (hls_act F date cwd) (hls_server_new config disk) evs) p = disk p"
  using assms(1)
proof (induction evs rule: rev_induct)
  case Nil
  show ?case by (simp add: hls_server_new_def)
next
  case (snoc ev evs)
  let ?v = "foldl (hls_act F date cwd) (hls_server_new config disk) evs"
  have "server_files_ok cwd ?v" using run_files_ok [OF new_server_files_ok [OF assms(2)]] snoc.prems by simp
  moreover have "hls_output_dir ?v = hc_output_dir config"
    by (simp add: hls_output_dir_def run_config hls_server_new_def)
  ultimately have "hv_disk (hls_act F date cwd ?v ev) p = hv_disk ?v p"
    using snoc.prems assms(3) by (intro act_stays_inside) simp_all
  with snoc show ?case by simp
qed

theorem hls_stays_in_its_directory_witness:
  "hv_disk (foldl (hls_act milli_ops demo_date demo_cwd) (hls_server_new demo_config [[''etc'', ''passwd''] \<mapsto> [1]]) demo_events)
     [''etc'', ''passwd''] = Some [1]"
  using hls_stays_in_its_directory [OF demo_events_plain, of demo_cwd "[''etc'', ''passwd'']"]
  by (simp add: demo_config_def demo_cwd_def locate_def)

text \<open>
  The names are not checked to be plain. Starting the packaging of a stream empties the directory
  that its name leads to.
\<close>

lemma ensure_empties:
  assumes "get_stream m sid \<noteq> None" and "stream_dir cwd v sid = d" and "prefix d p"
  shows "hv_disk (fst (hls_restart_stream F cwd v m h now ok sid)) p = None"
proof -
  define v1 where "v1 = (if hls_has_stream v sid then hls_stop_stream v sid else v)"
  have v1: "\<not> hls_has_stream v1 sid" "stream_dir cwd v1 sid = d"
    using assms(2) by (auto simp: v1_def hls_stop_stream_def hls_has_stream_def stream_dir_def hls_output_dir_def delete_conv')
  then have "hv_disk (fst (hls_start_stream F cwd v1 m h now ok sid)) p = None"
    using assms(3) by (simp add: hls_start_stream_def Let_def hls_touch_def split: option.splits)
  with assms(1) v1(1) show ?thesis
    by (cases "hls_start_stream F cwd v1 m h now ok sid")
      (auto simp: hls_restart_stream_def hls_ensure_stream_def v1_def [symmetric] hls_touch_def Let_def split: bool.splits)
qed

lemma publish_keeps_known:
  assumes "get_stream m name \<noteq> None"
  shows "get_stream (case set_publishing (publish_prepare m name) name of Some m' \<Rightarrow> m' | None \<Rightarrow> publish_prepare m name) name \<noteq> None"
proof -
  have status: "get_stream (case set_status m name st of Some m' \<Rightarrow> m' | None \<Rightarrow> m) name \<noteq> None"
    if "get_stream m name \<noteq> None" for m st
    using that by (auto simp: get_stream_def set_status_def split: option.splits)
  define m3 where "m3 = (case get_stream m name of
      Some st \<Rightarrow> if st_tracks st = [] then set_stream_tracks m name default_live_tracks else m | None \<Rightarrow> m)"
  have "get_stream m3 name \<noteq> None"
    using assms by (auto simp: m3_def get_stream_def set_stream_tracks_def split: option.splits)
  from status [OF status [OF this, of stream_status.Unpublished], of stream_status.Publishing] show ?thesis
    unfolding publish_prepare_def Let_def m3_def [symmetric] set_unpublished_def set_publishing_def
    by (cases "set_status m3 name stream_status.Unpublished") simp_all
qed

lemma acquired_known: "acquire_publisher m sid p = Some m' \<Longrightarrow> get_stream m' sid \<noteq> None"
  by (auto simp: acquire_publisher_def get_stream_def reset_stream_media_def with_hub_def split: option.splits sum.splits)

lemma publish_restart:
  assumes "run_publish wr c m args = (Running, c', m', effs)" and "Restart_hls name \<in> set effs"
  shows "name = snd (handle_publish (cn_session c) args) \<and> get_stream m' name \<noteq> None"
proof -
  obtain s n where hp: "handle_publish (cn_session c) args = (s, n)" by fastforce
  have sends: "Restart_hls x \<notin> set e" if "emit wr bs c0 m0 [] = (st, c1, m1, e)" for x bs c0 m0 st c1 m1 e
    using that by (auto simp: emit_def split: if_splits)
  let ?id = "''rtmp:'' @ rs_peer_addr s"
  from run_publish_cases [OF assms(1), unfolded hp fst_conv snd_conv] consider
      "acquire_publisher (publish_stage m n) n ?id = None"
    | m2 where "acquire_publisher (publish_stage m n) n ?id = Some m2"
        "m' = (case set_publishing (publish_prepare m2 n) n of Some m' \<Rightarrow> m' | None \<Rightarrow> publish_prepare m2 n)"
    by auto
  then show ?thesis
  proof cases
    case 1
    with assms sends show ?thesis by (auto simp: run_publish_def hp Let_def publish_stage_def)
  next
    case 2
    then have "name = n"
      using assms sends
      by (auto simp: run_publish_def hp Let_def publish_stage_def split: prod.splits rtmp_outcome.splits if_splits)
    with publish_keeps_known [OF acquired_known [OF 2(1)]] 2(2) show ?thesis by (simp add: hp)
  qed
qed

text \<open>A publisher can delete any directory the server may write to: an RTMP publish request that is accepted
  restarts packaging under the name it gave, and when the name starts with a slash, the directory
  of this name is emptied, wherever it is, with all below it.\<close>

theorem publish_name_empties_directory:
  assumes "run_publish wr c m args = (Running, c', m', effs)" and "Restart_hls name \<in> set effs"
    and "prefix ''/'' name" and "prefix (locate [] name) p"
  shows "hv_disk (fst (hls_restart_stream F cwd v m' h now ok name)) p = None"
proof -
  have "stream_dir cwd v name = locate [] name"
    using assms(3) by (simp add: stream_dir_def locate_join_absolute) (simp add: locate_def)
  from ensure_empties [OF conjunct2 [OF publish_restart [OF assms(1,2)]] this assms(4)] show ?thesis .
qed

theorem publish_name_empties_directory_witness:
  "\<exists>c' m' effs. run_publish True (connection_new True ''10.0.0.9'') manager_new [Number 0, ANull, AString (ascii ''/srv/data'')] =
       (Running, c', m', effs) \<and> Restart_hls ''/srv/data'' \<in> set effs \<and>
     hv_disk (fst (hls_restart_stream milli_ops demo_cwd
         (hls_server_new demo_config [[''srv'', ''data'', ''x''] \<mapsto> [1]]) m' (demo_hub []) 0 True ''/srv/data''))
       [''srv'', ''data'', ''x''] = None"
proof -
  let ?args = "[Number 0, ANull, AString (ascii ''/srv/data'')]" and ?c = "connection_new True ''10.0.0.9''"
  have name: "snd (handle_publish (cn_session ?c) ?args) = ''/srv/data''" by (simp add: handle_publish_def Let_def)
  obtain s where hp: "handle_publish (cn_session ?c) ?args = (s, ''/srv/data'')" using name by (metis prod.collapse)
  have chunk: "0 < rs_chunk_size s"
    using hp by (auto simp: handle_publish_def connection_new_def session_new_def Let_def)
  have status: "status_message c a b d \<noteq> None" if "cn_session c = s" for c a b d
    unfolding status_message_def command_message_def encode_message_returns_iff that using chunk by blast
  note status_sym = status [THEN not_sym]
  have "acquire_publisher (fst (create_stream manager_new ''/srv/data'' stream_source_mode.Push RTMP None)) ''/srv/data'' x \<noteq> None" for x
    by (simp add: acquire_publisher_def create_stream_def hub_acquire_publisher_def hub_with_stream_def Let_def)
  then obtain m2 where m2: "acquire_publisher (fst (create_stream manager_new ''/srv/data'' stream_source_mode.Push RTMP None))
      ''/srv/data'' (''rtmp:'' @ rs_peer_addr s) = Some m2" by blast
  have none: "get_stream manager_new ''/srv/data'' = None" by (simp add: get_stream_def)
  have "cn_has_hls ?c" by (simp add: connection_new_def)
  then obtain c' m' effs where run: "run_publish True ?c manager_new ?args = (Running, c', m', effs)"
    "Restart_hls ''/srv/data'' \<in> set effs"
    using m2 status_sym by (auto simp: run_publish_def hp Let_def none emit_def split: prod.splits)
  have at: "locate [] ''/srv/data'' = [''srv'', ''data'']" by code_simp
  have "hv_disk (fst (hls_restart_stream milli_ops demo_cwd
         (hls_server_new demo_config [[''srv'', ''data'', ''x''] \<mapsto> [1]]) m' (demo_hub []) 0 True ''/srv/data''))
       [''srv'', ''data'', ''x''] = None"
    by (rule publish_name_empties_directory [OF run]) (simp_all add: at)
  with run show ?thesis by blast
qed

text \<open>A request for a segment of the stream \<open>..\<close> is answered with a file beside the output directory.\<close>

lemma segment_request_leaves_directory:
  assumes "hls_output_dir v \<noteq> []" and "plain_name name"
    and "p = butlast (locate cwd (hls_output_dir v)) @ [name]" and "hv_disk v p \<noteq> None"
  shows "snd (hls_get_segment_path cwd v now ''..'' name) = Some p"
proof -
  have "path_join (hls_output_dir v) ''..'' \<noteq> []" by (auto simp: path_join_def)
  from locate_join [OF assms(2) this] have "locate cwd (path_join (path_join (hls_output_dir v) ''..'') name) = p"
    by (simp add: locate_join_up [OF assms(1)] assms(3))
  with assms(4) show ?thesis by (simp add: hls_get_segment_path_def Let_def)
qed

end
