(* ===== verification/Http_Runs.thy ===== *)
theory Http_Runs
  imports Http_Api Hls_Files
begin

text \<open>
  Properties of the HTTP server: every answer is one complete response, the requests are steps of the
  registry and a GET of the API changes nothing, what creating, asking for and deleting a stream give,
  and the files that it hands out.
\<close>

section \<open>Reading a response\<close>

text \<open>Status line, fields and body, as a client takes them from a text.\<close>

definition read_http :: "string \<Rightarrow> (string \<times> string list \<times> string) option" where
  "read_http s =
     (case find_str (crlf @ crlf) s of
        None \<Rightarrow> None
      | Some n \<Rightarrow>
          (case text_lines (take (n + 2) s) of
             [] \<Rightarrow> None
           | l # fs \<Rightarrow> Some (l, fs, drop (n + 4) s)))"

lemma drop_past_head: "2 \<le> length u \<Longrightarrow> drop (length u - 2 + 4) (u @ crlf @ body) = body"
  by (simp add: crlf_def)

lemma read_http_message:
  assumes "\<forall>l\<in>set (l # fs). l \<noteq> [] \<and> CHR 0x0A \<notin> set l"
  shows "read_http (unlines_crlf (l # fs) @ crlf @ body) = Some (l, fs, body)"
proof -
  have two: "2 \<le> length (unlines_crlf (l # fs))" by (simp add: unlines_crlf_def crlf_def)
  have "find_str (crlf @ crlf) (unlines_crlf (l # fs) @ crlf @ body) = Some (length (unlines_crlf (l # fs)) - 2)"
    using assms by (rule find_blank_line) simp
  moreover have "take (length (unlines_crlf (l # fs)) - 2 + 2) (unlines_crlf (l # fs) @ crlf @ body) = unlines_crlf (l # fs)"
    using two by simp
  moreover have "drop (length (unlines_crlf (l # fs)) - 2 + 4) (unlines_crlf (l # fs) @ crlf @ body) = body"
    by (rule drop_past_head [OF two])
  moreover have "text_lines (unlines_crlf (l # fs)) = l # fs"
    using assms by (intro text_lines_unlines) blast
  ultimately show ?thesis by (simp only: read_http_def option.case list.case)
qed

text \<open>A response whose body has the length that its one \<open>Content-Length\<close> announces.\<close>

definition complete_response :: "string \<Rightarrow> bool" where
  "complete_response s \<longleftrightarrow>
     (\<exists>code reason fields body. read_http s = Some (''HTTP/1.1 '' @ dec_str code @ '' '' @ reason, fields, body) \<and>
        filter (prefix ''Content-Length: '') fields = [''Content-Length: '' @ dec_str (length body)] \<and>
        (\<exists>t. ''Content-Type: '' @ t \<in> set fields))"

lemma read_http_response:
  assumes "CHR 0x0A \<notin> set reason"
  shows "read_http (http_response code reason body) =
     Some (''HTTP/1.1 '' @ dec_str code @ '' '' @ reason,
       [''Content-Type: application/json'', ''Content-Length: '' @ dec_str (length body), ''Connection: close'',
        ''Access-Control-Allow-Origin: *''], body)"
  unfolding http_response_def by (rule read_http_message) (use assms in auto)

lemma http_response_complete:
  assumes "CHR 0x0A \<notin> set reason"
  shows "complete_response (http_response code reason body)"
  unfolding complete_response_def read_http_response [OF assms]
  by (intro exI [of _ code] exI [of _ reason] exI [of _ body] exI conjI) auto

lemma read_media:
  assumes "CHR 0x0A \<notin> set ctype" and "\<forall>l\<in>set others. l \<noteq> [] \<and> CHR 0x0A \<notin> set l"
  shows "read_http (media_head ctype n others @ body) =
     Some (''HTTP/1.1 200 OK'', (''Content-Type: '' @ ctype) # (''Content-Length: '' @ dec_str n) #
       ''Access-Control-Allow-Origin: *'' # others, body)"
  unfolding media_head_def append_assoc by (rule read_http_message) (use assms in auto)

lemma media_complete:
  assumes "CHR 0x0A \<notin> set ctype" and "\<forall>l\<in>set others. l \<noteq> [] \<and> CHR 0x0A \<notin> set l"
    and "filter (prefix ''Content-Length: '') others = []"
  shows "complete_response (media_head ctype (length body) others @ body)"
proof -
  have code: "''HTTP/1.1 200 OK'' = ''HTTP/1.1 '' @ dec_str 200 @ '' '' @ ''OK''"
    by code_simp
  show ?thesis
    unfolding complete_response_def read_media [OF assms(1,2)] code
    by (intro exI [of _ 200] exI [of _ "''OK''"] exI [of _ body] exI conjI refl) (use assms(3) in auto)
qed

section \<open>Every answer\<close>

declare http_response_complete [simp]

lemma ok_json_complete [simp]: "complete_response (ok_json L v)"
  by (simp add: ok_json_def)

lemma missing_parameter_complete [simp]: "complete_response (missing_parameter p)"
  by (simp add: missing_parameter_def)

lemma pull_request_complete: "pull_request L i request = Inl response \<Longrightarrow> complete_response response"
  by (auto simp: pull_request_def Let_def split: option.splits if_splits)

text \<open>The handlers that change nothing but the answer, and the others with what they change.\<close>

lemma api_texts_complete [simp]:
  "complete_response (api_list_streams L w)" "complete_response (api_stream_info L w sid)"
  "complete_response (api_recordings L w)" "complete_response (api_playback L w key)"
  "complete_response (api_analysis_sessions L w)" "complete_response (api_analysis_metrics L w sid)"
  "complete_response (api_analysis_events L w sid)" "complete_response (api_snapshots L w)"
  "complete_response (api_snapshot_info L w key)" "complete_response (api_server_info L)"
  by (simp_all add: api_list_streams_def api_stream_info_def api_recordings_def api_playback_def
      api_analysis_sessions_def api_analysis_metrics_def api_analysis_events_def api_snapshots_def
      api_snapshot_info_def api_server_info_def Let_def split: option.split)

lemma api_steps_complete:
  "complete_response (fst (snd (api_create_stream L w request)))"
  "complete_response (fst (snd (api_rtsp_pull L w request)))"
  "complete_response (fst (snd (api_rtmp_pull L w request)))"
  "complete_response (fst (snd (api_rtsp_push L w request)))"
  "complete_response (fst (snd (api_delete_stream w sid)))"
  by (auto simp: api_create_stream_def api_rtsp_pull_def api_rtmp_pull_def api_rtsp_push_def api_delete_stream_def
      Let_def pull_request_complete split: option.split sum.split prod.split)

lemma api_process_steps_complete:
  "complete_response (fst (snd (api_record_start L env w request)))"
  "complete_response (fst (snd (api_record_stop L w request)))"
  "complete_response (fst (snd (api_analysis_start L env w request)))"
  "complete_response (fst (snd (api_analysis_stop L w request)))"
  "complete_response (fst (snd (api_snapshot L env w request)))"
  by (simp_all add: api_record_start_def api_record_stop_def api_analysis_start_def api_analysis_stop_def
      api_snapshot_def split: option.split sum.split prod.split)

lemma api_handle_complete: "complete_response (fst (snd (api_handle L env w request route)))"
  by (cases route) (simp_all add: api_steps_complete api_process_steps_complete)

lemma http_process_request_complete: "complete_response (fst (snd (http_process_request L env w request)))"
  by (simp add: http_process_request_def Let_def api_handle_complete split: list.split)

definition answered :: "http_reply \<Rightarrow> bool" where
  "answered reply \<longleftrightarrow>
     (case reply of
        Response bs \<Rightarrow> complete_response (text_of bs)
      | Flv_playing bs p \<Rightarrow> (\<exists>fields data. read_http (text_of bs) = Some (''HTTP/1.1 200 OK'', fields, data) \<and>
          ''Transfer-Encoding: chunked'' \<in> set fields)
      | Hung_up \<Rightarrow> True)"

lemma answered_text [simp]: "answered (text_reply s) = complete_response s"
  by (simp add: answered_def)

lemma serve_playlist_answered: "answered (fst (snd (serve_playlist F date cwd env w path)))"
proof -
  have "complete_response (media_head ''application/vnd.apple.mpegurl'' (length p)
      [''Cache-Control: no-cache, no-store, must-revalidate'', ''Connection: close''] @ p)" for p
    by (rule media_complete) auto
  then show ?thesis by (simp add: serve_playlist_def Let_def split: option.split prod.split)
qed

lemma text_of_both: "text_of (a @ b) = text_of a @ text_of b"
  by (simp add: text_of_def)

lemma serve_segment_answered: "answered (fst (snd (serve_segment cwd env w path)))"
proof -
  have "complete_response (media_head ''video/mp2t'' (length (text_of data))
      [''Cache-Control: no-cache, no-store'', ''Connection: close''] @ text_of data)" for data
    by (rule media_complete) auto
  moreover have "length (text_of data) = length data" for data by (simp add: text_of_def)
  ultimately have "answered (Response (ascii (media_head ''video/mp2t'' (length data)
      [''Cache-Control: no-cache, no-store'', ''Connection: close'']) @ data))" for data
    by (simp add: answered_def text_of_both)
  then show ?thesis by (simp add: serve_segment_def Let_def split: option.split prod.split)
qed

lemma serve_image_answered: "answered (serve_image env w path)"
proof -
  have "complete_response (media_head ''image/jpeg'' (length (text_of data))
      [''Cache-Control: no-cache'', ''Connection: close''] @ text_of data)" for data
    by (rule media_complete) auto
  moreover have "length (text_of data) = length data" for data by (simp add: text_of_def)
  ultimately have "answered (Response (ascii (media_head ''image/jpeg'' (length data)
      [''Cache-Control: no-cache'', ''Connection: close'']) @ data))" for data
    by (simp add: answered_def text_of_both)
  then show ?thesis by (simp add: serve_image_def Let_def split: option.split)
qed

lemma serve_flv_answered: "answered (fst (serve_flv env w path))"
proof -
  let ?fields = "[''Content-Type: video/x-flv'', ''Transfer-Encoding: chunked'', ''Connection: close'',
    ''Access-Control-Allow-Origin: *'', ''Cache-Control: no-cache'', ''X-Accel-Buffering: no'']"
  have h: "generate_http_headers = unlines_crlf (''HTTP/1.1 200 OK'' # ?fields) @ crlf"
    by (simp add: generate_http_headers_def unlines_crlf_def)
  have r: "read_http (generate_http_headers @ data) = Some (''HTTP/1.1 200 OK'', ?fields, data)" for data
    unfolding h append_assoc by (rule read_http_message) auto
  have "answered (Flv_playing (ascii generate_http_headers @ data) p)" for data p
    by (simp add: answered_def text_of_both r)
  from this this [of "[]"] show ?thesis by (simp add: serve_flv_def Let_def split: option.split prod.split)
qed

text \<open>
  C32. Whatever a client sends, it gets one well-formed answer: a status line, one Content-Length that is
  the number of bytes behind the blank line, and a type - or, as an FLV player, the head of a chunked
  response. Only a connection that sends nothing is closed without one.
\<close>

theorem http_answers_are_complete:
  "case handle_http L F date cwd env w input of
     (w', Response bs, effs) \<Rightarrow>
       (\<exists>code reason fields body. read_http (text_of bs) = Some (''HTTP/1.1 '' @ dec_str code @ '' '' @ reason, fields, body) \<and>
          filter (prefix ''Content-Length: '') fields = [''Content-Length: '' @ dec_str (length body)] \<and>
          (\<exists>t. ''Content-Type: '' @ t \<in> set fields))
   | (w', Flv_playing bs p, effs) \<Rightarrow>
       (\<exists>fields data. read_http (text_of bs) = Some (''HTTP/1.1 200 OK'', fields, data) \<and>
          ''Transfer-Encoding: chunked'' \<in> set fields)
   | (w', Hung_up, effs) \<Rightarrow> input = []"
proof -
  obtain w' reply effs where h: "handle_http L F date cwd env w input = (w', reply, effs)" by (metis prod_cases3)
  have page: "answered (serve_page L)"
    unfolding serve_page_def answered_text by (rule media_complete) auto
  have "answered (fst (snd (handle_http L F date cwd env w input)))"
    using serve_playlist_answered [of F date cwd env w] serve_segment_answered [of cwd env w]
      serve_image_answered [of env w] serve_flv_answered [of env w] http_process_request_complete [of L env w] page
    by (simp add: handle_http_def Let_def answered_def [of Hung_up] case_prod_beta)
  with h have "answered reply" by simp
  moreover have "reply = Hung_up \<Longrightarrow> input = []"
    using h by (auto simp: handle_http_def Let_def serve_page_def serve_playlist_def serve_segment_def serve_image_def serve_flv_def
        split: if_splits option.splits prod.splits)
  ultimately show ?thesis using h by (cases reply) (simp_all add: answered_def complete_response_def)
qed

section \<open>What a request changes\<close>

text \<open>Of the registry, only the requests that create and delete streams make a step.\<close>

lemma api_manager [simp]:
  "hw_manager (fst (api_rtsp_pull L w request)) = hw_manager w"
  "hw_manager (fst (api_rtmp_pull L w request)) = hw_manager w"
  "hw_manager (fst (api_rtsp_push L w request)) = hw_manager w"
  "hw_manager (fst (api_record_start L env w request)) = hw_manager w"
  "hw_manager (fst (api_record_stop L w request)) = hw_manager w"
  "hw_manager (fst (api_analysis_start L env w request)) = hw_manager w"
  "hw_manager (fst (api_analysis_stop L w request)) = hw_manager w"
  "hw_manager (fst (api_snapshot L env w request)) = hw_manager w"
  by (simp_all add: api_rtsp_pull_def api_rtmp_pull_def api_rtsp_push_def api_record_start_def api_record_stop_def
      api_analysis_start_def api_analysis_stop_def api_snapshot_def Let_def split: option.split sum.split prod.split)

lemma api_create_step: "mgr_step (hw_manager w) (hw_manager (fst (api_create_stream L w request)))"
proof -
  obtain sid source protocol url where n: "new_stream_of L request = (sid, source, protocol, url)" by (metis prod_cases4)
  have "hw_manager (fst (api_create_stream L w request)) = fst (create_stream (hw_manager w) sid source protocol url)"
    by (simp add: api_create_stream_def n case_prod_beta)
  then show ?thesis by (simp add: step_create)
qed

lemma api_delete_step: "mgr_step (hw_manager w) (hw_manager (fst (api_delete_stream w sid)))"
proof -
  have "hw_manager (fst (api_delete_stream w sid)) = fst (remove_stream (hw_manager w) sid)"
    by (simp add: api_delete_stream_def split: prod.split option.split)
  then show ?thesis by (simp add: step_remove)
qed

lemma api_handle_steps: "mgr_step\<^sup>*\<^sup>* (hw_manager w) (hw_manager (fst (api_handle L env w request route)))"
  by (cases route) (simp_all add: r_into_rtranclp api_create_step api_delete_step)

lemma http_process_request_steps: "mgr_step\<^sup>*\<^sup>* (hw_manager w) (hw_manager (fst (http_process_request L env w request)))"
  using api_handle_steps [of w L env request] by (auto simp: http_process_request_def Let_def split: list.split)

lemma serve_manager [simp]:
  "hw_manager (fst (serve_playlist F date cwd env w path)) = hw_manager w"
  "hw_manager (fst (serve_segment cwd env w path)) = hw_manager w"
  by (simp_all add: serve_playlist_def serve_segment_def Let_def split: option.split prod.split)

lemma handle_http_steps: "mgr_step\<^sup>*\<^sup>* (hw_manager w) (hw_manager (fst (handle_http L F date cwd env w input)))"
  using http_process_request_steps [of w L env "take 8192 input"] by (simp add: handle_http_def Let_def case_prod_beta)


section \<open>Requests\<close>

text \<open>A request as a client writes it.\<close>

definition http_request :: "string \<Rightarrow> string \<Rightarrow> string \<Rightarrow> string" where
  "http_request verb path body =
     unlines_crlf [verb @ '' '' @ path @ '' HTTP/1.1'', ''Host: media''] @ crlf @ body"

lemma word_one_line:
  assumes "is_word v"
  shows "CHR 0x0A \<notin> set v" and "v \<noteq> []"
proof -
  have "is_space (CHR 0x0A)" by (simp add: is_space_def)
  then show "CHR 0x0A \<notin> set v" "v \<noteq> []" using assms by (auto simp: is_word_def list_all_iff)
qed

lemma is_word_http [simp]: "is_word ''HTTP/1.1''"
  by (simp add: is_word_def is_space_def)

lemma http_request_parts:
  assumes "is_word verb" and "is_word path"
  shows "\<exists>l ls. text_lines (http_request verb path body) = l # ls \<and>
     split_whitespace l = [verb, path, ''HTTP/1.1'']"
proof -
  let ?l = "verb @ '' '' @ path @ '' HTTP/1.1''"
  note lf = word_one_line [OF assms(1)] word_one_line [OF assms(2)]
  have "text_lines (http_request verb path body) = [?l, ''Host: media''] @ text_lines (crlf @ body)"
    unfolding http_request_def by (rule text_lines_unlines_append) (use lf in auto)
  moreover have "?l = join_with '' '' [verb, path, ''HTTP/1.1'']" by simp
  moreover have "split_whitespace (join_with '' '' [verb, path, ''HTTP/1.1'']) = [verb, path, ''HTTP/1.1'']"
    by (rule split_words) (use assms in auto)
  ultimately show ?thesis by auto
qed

lemma body_of_request:
  assumes "is_word verb" and "is_word path"
  shows "body_start (http_request verb path body) = body"
proof -
  note lf = word_one_line [OF assms(1)] word_one_line [OF assms(2)]
  let ?ls = "[verb @ '' '' @ path @ '' HTTP/1.1'', ''Host: media'']"
  have "find_str (crlf @ crlf) (unlines_crlf ?ls @ crlf @ body) = Some (length (unlines_crlf ?ls) - 2)"
    by (rule find_blank_line) (use lf in auto)
  moreover have two: "2 \<le> length (unlines_crlf ?ls)" by (simp add: unlines_crlf_def crlf_def)
  ultimately have "body_start (http_request verb path body) = drop (length (unlines_crlf ?ls) - 2 + 4) (unlines_crlf ?ls @ crlf @ body)"
    by (simp only: body_start_def http_request_def option.case)
  then show ?thesis using two by (simp only: drop_past_head)
qed

lemma http_process_request_of:
  assumes "is_word verb" and "is_word path"
  shows "http_process_request L env w (http_request verb path body) =
     api_handle L env w (http_request verb path body) (api_route_of verb path)"
proof -
  obtain l ls where "text_lines (http_request verb path body) = l # ls" "split_whitespace l = [verb, path, ''HTTP/1.1'']"
    using http_request_parts [OF assms] by blast
  then show ?thesis by (simp add: http_process_request_def Let_def)
qed

lemma handle_http_request:
  assumes "is_word verb" and "is_word path" and "length (http_request verb path body) \<le> 8192"
  shows "handle_http L F date cwd env w (http_request verb path body) =
     (if prefix ''/hls/'' path \<and> suffix ''.m3u8'' path then serve_playlist F date cwd env w path
      else if prefix ''/hls/'' path \<and> suffix ''.ts'' path then serve_segment cwd env w path
      else if path = ''/webrtc/webrtc-test.html'' \<or> path = ''/webrtc/''
      then (w, serve_page L, [])
      else if prefix ''/flv/'' path
      then (case serve_flv env w path of (reply, effs) \<Rightarrow> (w, reply, effs))
      else if prefix ''/api/snapshots/'' path \<and> suffix ''.jpg'' path then (w, serve_image env w path, [])
      else (case api_handle L env w (http_request verb path body) (api_route_of verb path) of
              (w', response, effs) \<Rightarrow> (w', text_reply response, effs)))"
proof -
  obtain l ls where l: "text_lines (http_request verb path body) = l # ls" "split_whitespace l = [verb, path, ''HTTP/1.1'']"
    using http_request_parts [OF assms(1,2)] by blast
  have ne: "http_request verb path body \<noteq> []" by (simp add: http_request_def unlines_crlf_def)
  have r: "take 8192 (http_request verb path body) = http_request verb path body" using assms(3) by simp
  have parts: "split_whitespace (case text_lines (http_request verb path body) of [] \<Rightarrow> [] | l # _ \<Rightarrow> l) = [verb, path, ''HTTP/1.1'']"
    using l by simp
  have path: "(if 2 \<le> length [verb, path, ''HTTP/1.1''] then [verb, path, ''HTTP/1.1''] ! 1 else []) = path" by simp
  show ?thesis
    unfolding handle_http_def Let_def r parts path http_process_request_of [OF assms(1,2)] using ne by (simp only: if_False)
qed

lemma trim_start_once: "p \<noteq> [] \<Longrightarrow> \<not> prefix p s \<Longrightarrow> trim_start_matches p (p @ s) = s"
  by (subst trim_start_matches.simps, subst trim_start_matches.simps) simp

lemma trim_end_once: "p \<noteq> [] \<Longrightarrow> \<not> suffix p s \<Longrightarrow> trim_end_matches p (s @ p) = s"
  by (simp add: trim_end_matches_def trim_start_once suffix_to_prefix)

text \<open>
  A GET of the API is safe: whatever it asks for, the server is afterwards as it was, and no task has
  been started.
\<close>

theorem api_get_is_safe:
  assumes "text_lines request = l # ls" and "split_whitespace l = ''GET'' # parts"
  shows "\<exists>response. http_process_request L env w request = (w, response, [])"
  using assms by (simp add: http_process_request_def Let_def api_route_of_def)

section \<open>The life of a stream\<close>

abbreviation http_run where
  "http_run L F date cwd env w verb path body \<equiv> handle_http L F date cwd env w (http_request verb path body)"

lemma stream_route:
  assumes "sid \<noteq> []" and "\<not> prefix ''/api/stream/'' sid"
  shows "api_route_of ''GET'' (''/api/stream/'' @ sid) = To_stream sid"
    "api_route_of ''DELETE'' (''/api/stream/'' @ sid) = To_delete sid"
proof -
  have "trim_start_matches ''/api/stream/'' (''/api/stream/'' @ sid) = sid" by (rule trim_start_once) (use assms(2) in auto)
  then show "api_route_of ''GET'' (''/api/stream/'' @ sid) = To_stream sid"
    "api_route_of ''DELETE'' (''/api/stream/'' @ sid) = To_delete sid"
    using assms(1) by (simp_all add: api_route_of_def)
qed

lemma word_append_iff: "is_word (a @ b) \<longleftrightarrow> list_all (\<lambda>c. \<not> is_space c) (a @ b) \<and> a @ b \<noteq> []"
  by (auto simp: is_word_def)

lemma stream_path_word: "is_word sid \<Longrightarrow> is_word (''/api/stream/'' @ sid)"
  unfolding word_append_iff by (auto simp: is_word_def is_space_def)

lemma is_word_verbs [simp]: "is_word ''GET''" "is_word ''POST''" "is_word ''DELETE''" "is_word ''/api/streams''"
  by (simp_all add: is_word_def is_space_def)

lemma run_stream_request:
  assumes "is_word sid" and "\<not> prefix ''/api/stream/'' sid" and "length sid \<le> 4000"
  shows "http_run L F date cwd env w ''GET'' (''/api/stream/'' @ sid) [] = (w, text_reply (api_stream_info L w sid), [])"
    and "http_run L F date cwd env w ''DELETE'' (''/api/stream/'' @ sid) [] =
      (case api_delete_stream w sid of (w', response, effs) \<Rightarrow> (w', text_reply response, effs))"
proof -
  let ?p = "''/api/stream/'' @ sid"
  have small: "length (http_request ''GET'' ?p []) \<le> 8192" "length (http_request ''DELETE'' ?p []) \<le> 8192"
    using assms(3) by (simp_all add: http_request_def unlines_crlf_def crlf_def)
  have ne: "sid \<noteq> []" using assms(1) by (simp add: is_word_def)
  show "http_run L F date cwd env w ''GET'' ?p [] = (w, text_reply (api_stream_info L w sid), [])"
    unfolding handle_http_request [OF is_word_verbs(1) stream_path_word [OF assms(1)] small(1)]
      stream_route [OF ne assms(2)] by simp
  show "http_run L F date cwd env w ''DELETE'' ?p [] =
      (case api_delete_stream w sid of (w', response, effs) \<Rightarrow> (w', text_reply response, effs))"
    unfolding handle_http_request [OF is_word_verbs(3) stream_path_word [OF assms(1)] small(2)]
      stream_route [OF ne assms(2)] by simp
qed

lemma run_create_request:
  assumes "length body \<le> 4000"
  shows "http_run L F date cwd env w ''POST'' ''/api/streams'' body =
    (case api_create_stream L w (http_request ''POST'' ''/api/streams'' body) of
       (w', response, effs) \<Rightarrow> (w', text_reply response, effs))"
proof -
  have small: "length (http_request ''POST'' ''/api/streams'' body) \<le> 8192"
    using assms by (simp add: http_request_def unlines_crlf_def crlf_def)
  show ?thesis
    unfolding handle_http_request [OF is_word_verbs(2,4) small] by (simp add: api_route_of_def)
qed

text \<open>
  C33. A stream that is created over HTTP is there until it is deleted: a GET answers with its description,
  a new one as the request asked for and an old one as it is; after DELETE it answers 404, and every other
  stream has stayed as it was. All this for names that are one word and do not begin like the path.
\<close>

theorem http_stream_lifecycle:
  assumes "is_word sid" and "\<not> prefix ''/api/stream/'' sid" and "length sid \<le> 4000" and "length body \<le> 4000"
    and "jl_from_str (hl_json L) body = Some v" and "json_str v ''id'' = Some sid"
    and "http_run L F date cwd env1 w ''POST'' ''/api/streams'' body = (w1, reply, effs)"
    and "http_run L F date cwd env2 w1 ''DELETE'' (''/api/stream/'' @ sid) [] = (w2, reply2, effs2)"
  shows "(\<exists>s. get_stream (hw_manager w1) sid = Some s \<and>
      s = (case get_stream (hw_manager w) sid of
             Some old \<Rightarrow> old
           | None \<Rightarrow> fresh_stream sid (source_of (json_str v ''source'')) (protocol_of (json_str v ''protocol''))
                       (json_str v ''pull_url'')) \<and>
      http_run L F date cwd env3 w1 ''GET'' (''/api/stream/'' @ sid) [] =
        (w1, text_reply (ok_json L (stream_json L s [(''tracks'', JArray (List.map track_json (st_tracks s)))])), [])) \<and>
    http_run L F date cwd env3 w2 ''GET'' (''/api/stream/'' @ sid) [] = (w2, text_reply (not_found []), []) \<and>
    (\<forall>other. other \<noteq> sid \<longrightarrow> get_hub (hw_manager w2) other = get_hub (hw_manager w) other)"
proof -
  let ?r = "http_request ''POST'' ''/api/streams'' body"
  let ?m = "fst (create_stream (hw_manager w) sid (source_of (json_str v ''source'')) (protocol_of (json_str v ''protocol'')) (json_str v ''pull_url''))"
  have "new_stream_of L ?r = (sid, source_of (json_str v ''source''), protocol_of (json_str v ''protocol''), json_str v ''pull_url'')"
    using assms(5,6) by (simp add: new_stream_of_def body_of_request)
  then have m1: "hw_manager w1 = ?m"
    using assms(7) unfolding run_create_request [OF assms(4)] by (auto simp: api_create_stream_def case_prod_beta)
  have hub1: "get_hub ?m other = get_hub (hw_manager w) other" if "other \<noteq> sid" for other
    using that by (simp add: create_stream_def get_hub_def put_hub_def update_conv' Let_def split: option.split)
  have s1: "get_stream ?m sid = Some (case get_stream (hw_manager w) sid of Some old \<Rightarrow> old
      | None \<Rightarrow> fresh_stream sid (source_of (json_str v ''source'')) (protocol_of (json_str v ''protocol'')) (json_str v ''pull_url''))"
    by (simp add: create_stream_def get_stream_def get_hub_def put_hub_def update_conv' Let_def split: option.split)
      (simp add: hub_with_stream_def)
  have m2: "hw_manager w2 = fst (remove_stream ?m sid)"
    using assms(8) unfolding run_stream_request(2) [OF assms(1-3)] m1 [symmetric]
    by (auto simp: api_delete_stream_def split: prod.splits option.splits)
  then have hub2: "get_hub (hw_manager w2) sid = None" "\<And>other. other \<noteq> sid \<Longrightarrow> get_hub (hw_manager w2) other = get_hub ?m other"
    by (simp_all add: remove_stream_def get_hub_def delete_conv')
  then have s2: "get_stream (hw_manager w2) sid = None" by (simp add: get_stream_def)
  show ?thesis
    unfolding run_stream_request(1) [OF assms(1-3)] m1 api_stream_info_def s1 s2 using hub1 hub2(2) m1 s1 by simp
qed

definition demo_http_json :: "nat json_libs" where
  "demo_http_json = \<lparr>jl_to_string = (\<lambda>_. ''{}''),
     jl_from_str = (\<lambda>s. if s = ''b'' then Some (JObject [(''id'', JString ''cam''), (''protocol'', JString ''rtmp'')]) else None)\<rparr>"

definition demo_http_libs :: "nat http_libs" where
  "demo_http_libs = \<lparr>hl_json = demo_http_json, hl_start_record = (\<lambda>_. None), hl_stop_record = (\<lambda>_. None),
     hl_start_analysis = (\<lambda>_. None), hl_stop_analysis = (\<lambda>_. None), hl_capture_snapshot = (\<lambda>_. None),
     hl_debug_str = (\<lambda>s. s), hl_test_page = []\<rparr>"

definition demo_http :: "nat http_server" where
  "demo_http = \<lparr>hw_manager = manager_new, hw_hls = None, hw_flv = False, hw_recorder = None, hw_recordings = [],
     hw_analysis = None, hw_snapshots = None\<rparr>"

definition demo_http_env :: "nat http_env" where
  "demo_http_env = \<lparr>he_now = 0, he_started = 0, he_dir_ok = True, he_hls_looks = [], he_flv_looks = [],
     he_flv_manager = manager_new, he_flv_rounds = [], he_flv_hubs = (demo_hub [], demo_hub []), he_read = (\<lambda>_. None)\<rparr>"

lemma upper_rtmp: "List.map upper_char ''rtmp'' = ''RTMP''"
  by code_simp

theorem http_stream_lifecycle_witness:
  "\<exists>w1 w2 s. hw_manager w1 \<noteq> manager_new \<and> st_protocol s = RTMP \<and>
     http_run demo_http_libs milli_ops (\<lambda>_. []) [] demo_http_env w1 ''GET'' ''/api/stream/cam'' [] =
       (w1, text_reply (ok_json demo_http_libs (stream_json demo_http_libs s [(''tracks'', JArray (List.map track_json (st_tracks s)))])), []) \<and>
     http_run demo_http_libs milli_ops (\<lambda>_. []) [] demo_http_env w2 ''GET'' ''/api/stream/cam'' [] =
       (w2, text_reply (not_found []), [])"
proof -
  let ?v = "JObject [(''id'', JString ''cam''), (''protocol'', JString ''rtmp'')] :: nat json"
  obtain w1 r1 e1 where 1: "http_run demo_http_libs milli_ops (\<lambda>_. []) [] demo_http_env demo_http ''POST'' ''/api/streams'' ''b'' = (w1, r1, e1)"
    by (metis prod_cases3)
  obtain w2 r2 e2 where 2: "http_run demo_http_libs milli_ops (\<lambda>_. []) [] demo_http_env w1 ''DELETE'' (''/api/stream/'' @ ''cam'') [] = (w2, r2, e2)"
    by (metis prod_cases3)
  have v: "jl_from_str (hl_json demo_http_libs) ''b'' = Some (JObject [(''id'', JString ''cam''), (''protocol'', JString ''rtmp'')])"
    "json_str (JObject [(''id'', JString ''cam''), (''protocol'', JString ''rtmp'')]) ''id'' = Some ''cam''"
    by (simp_all add: demo_http_libs_def demo_http_json_def json_str_def)
  have "is_word ''cam''" "\<not> prefix ''/api/stream/'' ''cam''" by (simp_all add: is_word_def is_space_def)
  moreover have "length ''cam'' \<le> 4000" "length ''b'' \<le> 4000" by simp_all
  ultimately have life: "is_word ''cam''" "\<not> prefix ''/api/stream/'' ''cam''" "length ''cam'' \<le> 4000" "length ''b'' \<le> 4000" .
  note life = http_stream_lifecycle [OF life v 1 2, of demo_http_env]
  have p: "protocol_of (json_str (JObject [(''id'', JString ''cam''), (''protocol'', JString ''rtmp'')] :: nat json) ''protocol'') = RTMP"
    using upper_rtmp by (simp add: json_str_def protocol_of_def)
  obtain s where s: "get_stream (hw_manager w1) ''cam'' = Some s"
    "s = (case get_stream (hw_manager demo_http) ''cam'' of Some old \<Rightarrow> old
       | None \<Rightarrow> fresh_stream ''cam'' (source_of (json_str ?v ''source'')) (protocol_of (json_str ?v ''protocol'')) (json_str ?v ''pull_url''))"
    "http_run demo_http_libs milli_ops (\<lambda>_. []) [] demo_http_env w1 ''GET'' (''/api/stream/'' @ ''cam'') [] =
       (w1, text_reply (ok_json demo_http_libs (stream_json demo_http_libs s [(''tracks'', JArray (List.map track_json (st_tracks s)))])), [])"
    using conjunct1 [OF life] by blast
  have "st_protocol s = RTMP"
    using s(2) p by (simp add: demo_http_def get_stream_def get_hub_def manager_new_def fresh_stream_def)
  moreover have "hw_manager w1 \<noteq> manager_new" using s(1) by (auto simp: get_stream_def get_hub_def manager_new_def)
  moreover have "''/api/stream/cam'' = ''/api/stream/'' @ ''cam''" by simp
  ultimately show ?thesis using s(3) conjunct1 [OF conjunct2 [OF life]] by (intro exI conjI) (assumption | simp only:)+
qed

text \<open>
  The body of a request that comes in a second packet is never read: a POST for a new stream whose body
  is not there yet is answered with success, and the stream is \<open>live\<close>, whatever the client wanted.
\<close>

theorem late_body_creates_live:
  assumes "jl_from_str (hl_json L) [] = None"
    and "jl_from_str (hl_json L) (http_request ''POST'' ''/api/streams'' []) = None"
    and "http_run L F date cwd env w ''POST'' ''/api/streams'' [] = (w', reply, effs)"
  shows "get_stream (hw_manager w') ''live'' \<noteq> None \<and> (\<exists>body. reply = text_reply (http_response 201 ''Created'' body))"
proof -
  have "new_stream_of L (http_request ''POST'' ''/api/streams'' []) = (''live'', stream_source_mode.Push, stream_protocol.Unknown, None)"
    using assms(1,2) by (simp add: new_stream_of_def body_of_request)
  moreover have "length ([] :: string) \<le> 4000" by simp
  ultimately show ?thesis
    using assms(3) unfolding run_create_request [OF \<open>length ([] :: string) \<le> 4000\<close>]
    by (auto simp: api_create_stream_def case_prod_beta create_stream_def get_stream_def get_hub_def put_hub_def
        update_conv' Let_def split: option.splits)
qed

section \<open>Packaged streams over HTTP\<close>

lemma hls_path_word: "is_word sid \<Longrightarrow> is_word s \<Longrightarrow> is_word (''/hls/'' @ sid @ s)"
  unfolding word_append_iff by (auto simp: is_word_def is_space_def)

lemma plain_not_prefix: "plain_name sid \<Longrightarrow> \<not> prefix ''/hls/'' (sid @ s)"
  by (cases sid) (auto simp: plain_name_def)

lemma playlist_path:
  assumes "plain_name sid"
  shows "trim_end_matches ''/live.m3u8'' (trim_start_matches ''/hls/'' (''/hls/'' @ sid @ ''/live.m3u8'')) = sid"
proof -
  have "\<not> suffix ''/live.m3u8'' sid" using assms by (auto simp: plain_name_def suffix_def)
  then have "trim_end_matches ''/live.m3u8'' (sid @ ''/live.m3u8'') = sid" by (intro trim_end_once) simp_all
  moreover have "trim_start_matches ''/hls/'' (''/hls/'' @ sid @ ''/live.m3u8'') = sid @ ''/live.m3u8''"
    by (rule trim_start_once) (use plain_not_prefix [OF assms] in simp_all)
  ultimately show ?thesis by (simp only:)
qed

lemma segment_path_parts:
  assumes "plain_name sid" and "plain_name name"
  shows "split_char (CHR ''/'') (trim_start_matches ''/hls/'' (''/hls/'' @ sid @ ''/'' @ name)) = [sid, name]"
proof -
  have "trim_start_matches ''/hls/'' (''/hls/'' @ sid @ ''/'' @ name) = sid @ CHR ''/'' # name"
    using trim_start_once [of "''/hls/''" "sid @ ''/'' @ name"] plain_not_prefix [OF assms(1)] by simp
  then show ?thesis by (simp only: split_by_append_sep plain_name_split [OF assms(1)] plain_name_split [OF assms(2)]) simp
qed

lemma segment_name_word: "plain_name (segment_filename n)" "is_word (segment_filename n)"
proof -
  have d: "list_all is_digit (dec_str n)" by simp
  then have "c \<noteq> CHR ''/'' \<and> \<not> is_space c" if "c \<in> set (dec_str n)" for c
    using that by (auto simp: list_all_iff is_digit_def is_space_def)
  then show "plain_name (segment_filename n)" "is_word (segment_filename n)"
    by (auto simp: segment_filename_def plain_name_def is_word_def is_space_def list_all_iff)
qed

text \<open>
  C24. A player can play what the server packages: a GET of the playlist is answered with the playlist of
  the session, and for every segment that it lists a GET of its name beside the playlist is answered with
  exactly the bytes of the segment's file - after any history of the HLS server, for streams with plain
  names, and requests that fit into one read.
\<close>

theorem hls_over_http:
  assumes "list_all event_plain evs" and "hc_output_dir config \<noteq> []"
    and "v = foldl (hls_act F date cwd) (hls_server_new config disk) evs"
    and "\<forall>t. one_line (date t)" and "\<forall>x. one_line (fl_fixed3 F x)"
    and "hw_hls w = Some v" and "get_stream (hw_manager w) sid \<noteq> None" and "is_word sid" and "length sid \<le> 4000"
    and "map_of (hv_sessions v) sid = Some s" and "segment_count (hs_playlist s) \<noteq> 0"
  shows "\<exists>w1 bs effs fields. http_run L F date cwd env w ''GET'' (''/hls/'' @ sid @ ''/live.m3u8'') [] = (w1, Response bs, effs) \<and>
     read_http (text_of bs) = Some (''HTTP/1.1 200 OK'', fields, generate F date (hs_playlist s)) \<and>
     (\<forall>(c, d, x, name)\<in>set (pl_entries (read_playlist (generate F date (hs_playlist s)))).
        length name \<le> 4000 \<longrightarrow>
        (\<exists>data w2 bs2 fields2.
           http_run L F date cwd env2 w1 ''GET'' (''/hls/'' @ sid @ ''/'' @ name) [] = (w2, Response bs2, []) \<and>
           read_http (text_of bs2) = Some (''HTTP/1.1 200 OK'', fields2, text_of data) \<and>
           hv_disk v (stream_dir cwd v sid @ [name]) = Some data \<and> MIN_SEGMENT_BYTES < length data))"
proof -
  let ?playlist = "generate F date (hs_playlist s)"
  let ?path = "''/hls/'' @ sid @ ''/live.m3u8''"
  have files: "server_files_ok cwd v"
    unfolding assms(3) by (rule run_files_ok [OF new_server_files_ok [OF assms(2)] assms(1)])
  with assms(10) have plain: "plain_name sid" and out: "hls_output_dir v \<noteq> []"
    and f: "stream_files_ok (hv_disk v) (stream_dir cwd v sid) (hs_playlist s)" by (auto simp: server_files_ok_def)
  define v1 where "v1 = hls_touch (hls_touch v (he_now env) sid) (he_now env) sid"
  have same: "hls_output_dir v1 = hls_output_dir v" "stream_dir cwd v1 sid = stream_dir cwd v sid" "hv_disk v1 = hv_disk v"
    by (simp_all add: v1_def hls_touch_def hls_output_dir_def stream_dir_def)
  obtain h where h: "get_hub (hw_manager w) sid = Some h" using assms(7) by (auto simp: get_stream_def)
  define bs where "bs = ascii (media_head ''application/vnd.apple.mpegurl'' (length ?playlist)
      [''Cache-Control: no-cache, no-store, must-revalidate'', ''Connection: close''] @ ?playlist)"
  have "fst (hls_ensure_stream F cwd v (hw_manager w) h (he_now env) (he_dir_ok env) sid False) = hls_touch v (he_now env) sid"
    using assms(7,10) by (auto simp: hls_ensure_stream_def hls_has_stream_def)
  moreover have "wait_playlist F date (he_now env) sid (hls_touch v (he_now env) sid) looks = (v1, Some ?playlist, [])" for looks
    using assms(10,11) by (cases looks) (simp_all add: hls_get_playlist_def hls_touch_def v1_def)
  ultimately have serve: "serve_playlist F date cwd env w ?path =
      (w\<lparr>hw_hls := Some v1\<rparr>, Response bs, [Request_keyframe sid])"
    unfolding serve_playlist_def assms(6) playlist_path [OF plain]
    using h by (simp add: ensure_stream_hub_def bs_def Let_def)
  have small: "length (http_request ''GET'' ?path []) \<le> 8192"
    using assms(9) by (simp add: http_request_def unlines_crlf_def crlf_def)
  have "is_word ''/live.m3u8''" by (simp add: is_word_def is_space_def)
  then have word: "is_word ?path" by (rule hls_path_word [OF assms(8)])
  have "suffix ''.m3u8'' ?path" by (rule suffixI [of _ "''/hls/'' @ sid @ ''/live''"]) simp
  then have run: "http_run L F date cwd env w ''GET'' ?path [] = (w\<lparr>hw_hls := Some v1\<rparr>, Response bs, [Request_keyframe sid])"
    unfolding handle_http_request [OF is_word_verbs(1) word small] serve by simp
  have read: "\<exists>fields. read_http (text_of bs) = Some (''HTTP/1.1 200 OK'', fields, ?playlist)"
    unfolding bs_def text_of_ascii by (subst read_media) auto
  have segment: "\<exists>data w2 bs2 fields2.
      http_run L F date cwd env2 (w\<lparr>hw_hls := Some v1\<rparr>) ''GET'' (''/hls/'' @ sid @ ''/'' @ name) [] = (w2, Response bs2, []) \<and>
      read_http (text_of bs2) = Some (''HTTP/1.1 200 OK'', fields2, text_of data) \<and>
      hv_disk v (stream_dir cwd v sid @ [name]) = Some data \<and> MIN_SEGMENT_BYTES < length data"
    if e: "(c, d, x, name) \<in> set (pl_entries (read_playlist ?playlist))" and len: "length name \<le> 4000" for c d x name
  proof -
    let ?w1 = "w\<lparr>hw_hls := Some v1\<rparr>" and ?spath = "''/hls/'' @ sid @ ''/'' @ name"
    obtain n data where n: "name = segment_filename n" and data: "hv_disk v (stream_dir cwd v sid @ [name]) = Some data"
      "MIN_SEGMENT_BYTES < length data"
      using listed_segment_stored [OF files assms(10,4,5) e] by blast
    let ?bs = "ascii (media_head ''video/mp2t'' (length data) [''Cache-Control: no-cache, no-store'', ''Connection: close'']) @ data"
    have "snd (hls_get_segment_path cwd v1 (he_now env2) sid name) = Some (stream_dir cwd v sid @ [name])"
      using segment_place [OF plain, of v1 cwd "he_now env2" n] out data(1) by (simp add: n same Let_def)
    then have "hls_get_segment_path cwd v1 (he_now env2) sid name =
        (hls_touch v1 (he_now env2) sid, Some (stream_dir cwd v sid @ [name]))"
      by (simp add: hls_get_segment_path_def Let_def split: if_splits)
    moreover have "hv_disk (hls_touch v1 (he_now env2) sid) = hv_disk v" by (simp add: same hls_touch_def)
    ultimately have serve: "serve_segment cwd env2 ?w1 ?spath =
        (?w1\<lparr>hw_hls := Some (hls_touch v1 (he_now env2) sid)\<rparr>, Response ?bs, [])"
      unfolding serve_segment_def segment_path_parts [OF plain segment_name_word(1) [of n, folded n]]
      using data(1) by (simp add: Let_def)
    have small: "length (http_request ''GET'' ?spath []) \<le> 8192"
      using assms(9) len by (simp add: http_request_def unlines_crlf_def crlf_def)
    have "is_word (''/'' @ name)" using segment_name_word(2) [of n] by (simp add: n is_word_def is_space_def)
    then have word: "is_word ?spath" by (rule hls_path_word [OF assms(8)])
    have tail: "suffix ''.ts'' ?spath" by (rule suffixI [of _ "''/hls/'' @ sid @ ''/segment_'' @ dec_str n"]) (simp add: n segment_filename_def)
    then have "\<not> suffix ''.m3u8'' ?spath" by (auto simp: suffix_def)
    with tail have "http_run L F date cwd env2 ?w1 ''GET'' ?spath [] =
        (?w1\<lparr>hw_hls := Some (hls_touch v1 (he_now env2) sid)\<rparr>, Response ?bs, [])"
      unfolding handle_http_request [OF is_word_verbs(1) word small] serve by simp
    moreover have "\<exists>fields. read_http (text_of ?bs) = Some (''HTTP/1.1 200 OK'', fields, text_of data)"
      unfolding text_of_both text_of_ascii by (subst read_media) auto
    ultimately show ?thesis using data by blast
  qed
  show ?thesis using run read segment by blast
qed

definition demo_hls_http :: "nat http_server" where
  "demo_hls_http = demo_http\<lparr>hw_manager := manager_new\<lparr>mgr_hubs := [(''s1'', demo_hub [])]\<rparr>, hw_hls := Some demo_server\<rparr>"

theorem hls_over_http_witness:
  "\<exists>w1 bs effs fields playlist w2 bs2 fields2 body.
     http_run demo_http_libs milli_ops demo_date demo_cwd demo_http_env demo_hls_http ''GET'' (''/hls/'' @ ''s1'' @ ''/live.m3u8'') [] =
       (w1, Response bs, effs) \<and>
     read_http (text_of bs) = Some (''HTTP/1.1 200 OK'', fields, playlist) \<and>
     http_run demo_http_libs milli_ops demo_date demo_cwd demo_http_env w1 ''GET'' (''/hls/'' @ ''s1'' @ ''/'' @ ''segment_0.ts'') [] =
       (w2, Response bs2, []) \<and>
     read_http (text_of bs2) = Some (''HTTP/1.1 200 OK'', fields2, body)"
proof -
  obtain s seg where s: "map_of (hv_sessions demo_server) ''s1'' = Some s" "m3_segments (hs_playlist s) = [seg]"
    "sg_filename seg = ''segment_0.ts''"
    using demo_playlist_entry by blast
  have count: "segment_count (hs_playlist s) \<noteq> 0" by (simp add: segment_count_def s(2))
  have lines: "\<forall>t. one_line (demo_date t)" "\<forall>x. one_line (fl_fixed3 milli_ops x)"
    by (simp_all add: one_line_def demo_date_def milli_ops_def)
  have "server_files_ok demo_cwd demo_server"
    unfolding demo_server_def by (rule run_files_ok [OF new_server_files_ok [OF demo_events_plain(2)] demo_events_plain(1)])
  then have "named (hs_playlist s)" using s(1) by (auto simp: server_files_ok_def stream_files_ok_def window_ok_def)
  from read_playlist_generate [OF this lines] s(2,3) obtain c d x where
    e: "(c, d, x, ''segment_0.ts'') \<in> set (pl_entries (read_playlist (generate milli_ops demo_date (hs_playlist s))))"
    by (cases "entry_of milli_ops demo_date seg") (auto simp: entry_of_def player_start_def)
  have w: "hw_hls demo_hls_http = Some demo_server" "get_stream (hw_manager demo_hls_http) ''s1'' \<noteq> None"
    "is_word ''s1''" "length ''s1'' \<le> 4000"
    by (simp_all add: demo_hls_http_def get_stream_def get_hub_def is_word_def is_space_def)
  have "length ''segment_0.ts'' \<le> 4000" by simp
  with hls_over_http [OF demo_events_plain demo_server_def lines w s(1) count, of demo_http_libs demo_http_env demo_http_env] e
  show ?thesis by blast
qed

theorem api_get_is_safe_witness:
  "\<exists>response. http_process_request demo_http_libs demo_http_env demo_http (http_request ''GET'' ''/api/streams'' []) = (demo_http, response, [])"
proof -
  obtain l ls where "text_lines (http_request ''GET'' ''/api/streams'' []) = l # ls"
    "split_whitespace l = [''GET'', ''/api/streams'', ''HTTP/1.1'']"
    using http_request_parts [OF is_word_verbs(1,4)] by blast
  then show ?thesis by (rule api_get_is_safe)
qed


end
