(* ===== verification/Spec2Isabelle.thy ===== *)
theory Spec2Isabelle
  imports Timestamp Rtmp_Relay Rtsp_Mirror Rtsp_Pull_Runs Recordings Snapshot Analysis_Runs Http_Runs
begin

text \<open>
  Verification of \<open>vcp-media-server\<close>, a media server in Rust that takes live streams over RTMP,
  RTSP and WebRTC and serves them over RTMP, RTSP, HTTP-FLV, HLS and WebRTC.

  The program and its model. A publisher's session turns what it receives into frames and
  publishes them through the stream manager. Each stream has a hub with a bounded ring of
  frames; every player reads the ring with its own cursor and a delivery policy, and its session
  turns the frames into its protocol. The theories follow that path, the core first, then one
  protocol after the other:

  \<^item> \<^theory_text>\<open>Prelude\<close>: bytes, big-endian fields, Rust's wrapping and saturating arithmetic on natural
    numbers, decimal and hexadecimal text, runs of fallible step functions, and the two
    interfaces: \<open>monotone_clock\<close>, a clock whose tags increase, and \<open>publisher_slot\<close>, a slot with
    one owner at a time.
  \<^item> \<^theory_text>\<open>Media\<close> (\<open>src/src/core/mod.rs\<close>): streams, tracks, receivers, frames and their status values.
  \<^item> \<^theory_text>\<open>Frame_Ring\<close> (\<open>core/frame_ring.rs\<close>): the ring and its eviction by groups of pictures. The
    eviction loop is a partial function, \<open>None\<close> says that a push does not return.
    C7 to C9: what the ring retains, and exactly when a push returns.
  \<^item> \<^theory_text>\<open>Timestamp\<close> (\<open>core/timestamp.rs\<close>): time deltas and the FLV and wall-clock timelines, both
    interpretations of \<open>monotone_clock\<close> (\<open>flv_tags_increase\<close>).
  \<^item> \<^theory_text>\<open>Stream_Hub\<close>, \<^theory_text>\<open>Stream_Manager\<close> (\<open>core/stream_hub.rs\<close>, \<open>core/stream_manager.rs\<close>): the hub of one
    stream and the registry, every operation as state passing, the registry's step relation
    with its reachable states and their invariant (C1), both interpretations of
    \<open>publisher_slot\<close> (C2), and what acquiring and publishing do.
  \<^item> \<^theory_text>\<open>Dispatch\<close>, \<^theory_text>\<open>Live_Play\<close> (\<open>core/dispatch.rs\<close>, \<open>core/live_play.rs\<close>): readers, their policies and
    the start of playback. A reader meets the hub as it is at each call, so a run is a list of
    hubs. C10 and C30 say what readers deliver; further
    theorems say what they repeat or miss.
  \<^item> \<^theory_text>\<open>Text_Lines\<close>: Rust's text functions the protocols use (lines, split, trim, find).
  \<^item> \<^theory_text>\<open>Rtmp_Chunk\<close>, \<^theory_text>\<open>Amf0\<close> (\<open>server/rtmp/chunk.rs\<close>, \<open>amf0.rs\<close>): the RTMP wire formats
    (C15, C19).
  \<^item> \<^theory_text>\<open>Rtmp_Session\<close>, \<^theory_text>\<open>Rtmp_Server\<close>, \<^theory_text>\<open>Rtmp_Relay\<close> (\<open>server/rtmp/session.rs\<close>, \<open>server/rtmp/mod.rs\<close>): the
    session's commands and messages, the connection loop from the handshake on and the play
    task. C5: a connection is a client of the registry; C6: a publisher keeps its slot
    until it closes; C40: when it panics; C16: what the player is sent, a publisher's connection publishes.
  \<^item> \<^theory_text>\<open>Rtmp_Puller\<close>, \<^theory_text>\<open>Rtmp_Pull\<close> (\<open>server/rtmp/puller.rs\<close>): the client that pulls a stream. C17: connected to
    this server it publishes what the server's player gets; \<open>rtmp_pull_touches_own_stream\<close>, \<open>rtmp_pull_refines_registry\<close>: what it does to the
    registry.
  \<^item> \<^theory_text>\<open>Http_Flv\<close> (\<open>server/http_flv/mod.rs\<close>, the play loop of \<open>server/http/mod.rs\<close>): FLV tags in HTTP
    chunks and the player's task (C20).
  \<^item> \<^theory_text>\<open>Ts_Muxer\<close>, \<^theory_text>\<open>Ts_Stream\<close> (\<open>server/hls/ts_muxer.rs\<close>): transport stream packets, with a reader after
    ISO 13818-1 (C21, \<open>ts_crc_is_mpeg_crc\<close>).
  \<^item> \<^theory_text>\<open>M3u8\<close>, \<^theory_text>\<open>Hls_Session\<close>, \<^theory_text>\<open>Hls_Play\<close> (\<open>server/hls/m3u8.rs\<close>, \<open>timing.rs\<close>, \<open>mod.rs\<close>): playlists, the
    session that cuts segments and the task that feeds it (C22, C23,
    C29, \<open>playlist_roundtrip\<close>, \<open>hls_discontinuity_one_segment_late\<close>).
  \<^item> \<^theory_text>\<open>Paths\<close>, \<^theory_text>\<open>Hls_Server\<close>, \<^theory_text>\<open>Hls_Files\<close> (\<open>HlsServer\<close> of \<open>server/hls/mod.rs\<close>): the packaging of many streams, its
    files, requests and idle reaper, as a server that takes any sequence of events.
    \<open>hls_listed_segments_can_be_fetched\<close>, \<open>hls_files_are_bounded\<close>, C25: what players find, how many files
    there are and when packaging ends; C26, \<open>publish_name_empties_directory\<close>: what the name of a stream
    can reach on the disk.
  \<^item> \<^theory_text>\<open>Recorder\<close>, \<^theory_text>\<open>Recordings\<close> (\<open>process/record/mod.rs\<close>): segment files, the task that writes them, the index
    and the manager (C27, \<open>recorded_segment_is_a_stream\<close>, C28).
  \<^item> \<^theory_text>\<open>Snapshot\<close> (\<open>process/snapshot/mod.rs\<close>): the index and the job that makes an image with \<open>ffmpeg\<close>
    (C38, C39, \<open>snapshot_requests_are_settled\<close>).
  \<^item> \<^theory_text>\<open>Json\<close>, \<^theory_text>\<open>Analysis\<close>, \<^theory_text>\<open>Analysis_Runs\<close> (\<open>process/analysis/mod.rs\<close>): the task that reads a stream and
    runs its plugins, the metrics, the detection of faces by commands, the manager. C35: the
    metrics count what was received; C36: when a turn returns and what it changes; C37: what an
    accepted start gives.
  \<^item> \<^theory_text>\<open>Http_Api\<close>, \<^theory_text>\<open>Http_Runs\<close> (\<open>server/http/mod.rs\<close>): a connection, its routes and handlers, which call the
    components above. C32: every answer is one response; C34, \<open>api_get_is_safe\<close>, C33: what requests
    change; C24: a packaged stream can be played over HTTP.
  \<^item> \<^theory_text>\<open>H264_Util\<close>, \<^theory_text>\<open>Rtp_H264\<close>, \<^theory_text>\<open>Rtp_Ingest\<close> (\<open>server/webrtc/h264_util.rs\<close>, \<open>rtp_h264.rs\<close>,
    \<open>h264_rtp_ingest.rs\<close>): Annex B byte streams, depacketizing and the assembly of access units
    (\<open>codec_config_roundtrip\<close>, \<open>iter_annex_b_inverts_annex_b\<close>).
  \<^item> \<^theory_text>\<open>Rtsp_Rtp\<close>, \<^theory_text>\<open>Play_Egress\<close> (\<open>server/rtsp/common.rs\<close>, \<open>play_egress.rs\<close>): the RTP side of RTSP.
    \<open>rtp_h264_loopback\<close> closes the path: what the egress packetizes, the ingest publishes unchanged;
    \<open>rtsp_extract_sps_pps_exact\<close>: when the pusher's search for parameter sets panics.
  \<^item> \<^theory_text>\<open>Rtsp_Messages\<close>, \<^theory_text>\<open>Sdp\<close> (\<open>server/rtsp/messages.rs\<close>, the SDP functions of \<open>common.rs\<close>, \<open>mod.rs\<close> and
    \<open>server/webrtc/sdp_h264.rs\<close>): the texts of RTSP (\<open>rtsp_response_roundtrip\<close>, C31).
  \<^item> \<^theory_text>\<open>Rtsp_Session\<close>, \<^theory_text>\<open>Rtsp_Conn\<close> (\<open>server/rtsp/mod.rs\<close>, \<open>session.rs\<close>, \<open>server_session.rs\<close>): the request
    handler, and a connection with its read loop, UDP receivers and sender.
    \<^theory_text>\<open>Rtsp_Serve\<close>, \<^theory_text>\<open>Rtsp_Answers\<close>, \<^theory_text>\<open>Rtsp_Relay\<close> prove it: reads can be cut anywhere (C13),
    every request is answered (C14), a server of interleaved connections keeps its slots
    with their owners and gives them back (C3, C4), video sent as interleaved data is
    published unchanged (C12), and what goes wrong (\<open>record_first_leaks_slot\<close>, \<open>rtsp_video_stays_on_first_stream\<close>).

  \<^item> \<^theory_text>\<open>Rtsp_Client\<close>, \<^theory_text>\<open>Rtsp_Pull\<close>, \<^theory_text>\<open>Rtsp_Dialogue\<close>, \<^theory_text>\<open>Rtsp_Mirror\<close>, \<^theory_text>\<open>Rtsp_Pull_Runs\<close>
    (\<open>server/rtsp/client_session.rs\<close>, \<open>puller.rs\<close>, \<open>read_response\<close> of \<open>common.rs\<close>): the client that pulls a stream. C11:
    connected to this server it gets through and publishes the video that the server sends; C18,
    \<open>rtsp_pull_refines_registry\<close>, \<open>rtsp_pull_leaves_status\<close>: what it does to the registry; \<open>client_reads\<close>,
    \<open>rtsp_pull_numbers_requests\<close>: responses cut into reads anywhere are read back and requests are numbered;
    \<open>client_swallows_media\<close>: a response that arrives together with media is not read.

  Conventions. Unsigned 64 and 32 bit values that the code only adds, compares and saturates
  are natural numbers, with \<open>wrap64\<close>, \<open>wrap32\<close>, \<open>sat_add64\<close> and \<open>sat_mul64\<close> where the code
  wraps or saturates; bytes, sequence numbers and RTP timestamps are words. Plain arithmetic
  that overflows is given its release-build meaning, it wraps. A panic is \<open>None\<close>, an outcome
  (\<open>Panicked\<close>) or has a theorem that says when it happens; errors are the left side of a sum. A
  \<open>HashMap\<close> is an association list or a map; where its iteration order matters the list's order
  stands for it. Text is a list of characters that stand for its UTF-8 bytes. Locks are held for
  one operation at a time, so an operation is one step. What a task does to the outside (bytes
  written, tasks started, keyframe requests) is a list of effects beside its new state.

  Parameters. Wall clock readings, random numbers and ids, whether a socket binds or takes a
  write, and the hubs that a sleeping reader wakes up to are arguments. Floating point (durations
  of HLS segments, rates of the analysis) is a record of operations and their printed form; \<open>serde_json\<close> is a record of
  a printer and a parser, and what it reads into request types an argument; \<open>ffmpeg\<close> and the face detector are their
  answers; base64 and URL
  parsing are functions in \<open>rtsp_libs\<close> and arguments of the SDP functions. Theorems state what they rely on, such as
  that decoding base64 undoes encoding.

  Bounds. Only the eviction loop, the chunk encoder's loop and the loop that makes room for an event of the
  analysis are partial functions; each has a theorem that says exactly when it returns (C9, \<open>Rtmp_Chunk\<close>,
  \<open>push_event_hangs_iff\<close>). All other loops are
  total functions with a measure. The fuel-like lists (rounds before a deadline, hubs met by a
  reader, reads of a connection) are arguments that properties quantify over.

  Not modelled: sockets, logging, configuration and the start of the processes; the RTSP pusher; the webrtc crate and what is built on its objects; the test client
  \<open>core/tester.rs\<close>; \<open>duration_from_rtp_timestamps\<close>, which uses floating point.
\<close>

end
